(* ===== verification/Prelude.thy ===== *)
theory Prelude
  imports Main "HOL-Library.Word"
begin

unbundle bit_operations_syntax

text \<open>
  Shared ground of the development: the machine types of the firmware (an
  ESP32, so \<open>size_t\<close> has 32 bits), the outcome type of C functions that read
  raw memory and return a success flag, and the generic lemmas on lists, words and
  outcomes the component theories use.

  A C function \<open>bool f(..., out)\<close> that reads a byte buffer is modelled by a function
  into \<open>'a cres\<close>: \<open>Done x\<close> is \<open>return true\<close> with the outputs \<open>x\<close>, \<open>Fail\<close> is
  \<open>return false\<close>, and \<open>Fault\<close> is a read outside the buffer, which is undefined
  behaviour in C. A memory-safety theorem says that \<open>Fault\<close> is never the outcome.
\<close>

section \<open>Machine types\<close>

type_synonym u8 = "8 word"
type_synonym u16 = "16 word"
type_synonym u32 = "32 word"
type_synonym u64 = "64 word"
type_synonym bytes = "u8 list"

text \<open>
  Sizes and positions are natural numbers; wherever the source stores the result of an
  addition or multiplication in a \<open>size_t\<close> the model applies \<open>size_t\<close>, and wherever it
  computes in \<open>uint64_t\<close> it applies \<open>uint64\<close>, so that the wrap-around is written out.
\<close>

definition size_t :: "nat \<Rightarrow> nat" where
  "size_t n = n mod 2 ^ 32"

definition uint64 :: "nat \<Rightarrow> nat" where
  "uint64 n = n mod 2 ^ 64"

definition UINT64_MAX :: nat where
  "UINT64_MAX = 2 ^ 64 - 1"

text \<open>
  Signed 64-bit arithmetic; where a sum could leave the range, which is undefined in C, the
  model wraps around as the compiled code does. Division truncates towards zero.
\<close>

definition i64 :: "int \<Rightarrow> int" where
  "i64 x = signed_take_bit 63 x"

definition cdiv :: "int \<Rightarrow> int \<Rightarrow> int" where
  "cdiv a b = sgn a * sgn b * (\<bar>a\<bar> div \<bar>b\<bar>)"

text \<open>A string literal of the source as the bytes it occupies (ASCII, without the NUL).\<close>

definition asc :: "string \<Rightarrow> bytes" where
  "asc s = map of_char s"

lemma asc_simps [simp]: "asc [] = []" "asc (c # s) = of_char c # asc s"
  by (simp_all add: asc_def)

text \<open>The C string stored in a byte array: the bytes before the first NUL.\<close>

definition c_str :: "bytes \<Rightarrow> bytes" where
  "c_str s = takeWhile (\<lambda>b. b \<noteq> 0) s"

section \<open>Outcomes of C functions that read memory\<close>

datatype 'a cres = Fault | Fail | Done 'a

primrec cbind :: "'a cres \<Rightarrow> ('a \<Rightarrow> 'b cres) \<Rightarrow> 'b cres" where
  "cbind Fault f = Fault"
| "cbind Fail f = Fail"
| "cbind (Done a) f = f a"

text \<open>
  \<open>outcome P r\<close>: the computation made no access outside its buffer, and if it
  returned true its outputs satisfy \<open>P\<close>.
\<close>

primrec outcome :: "('a \<Rightarrow> bool) \<Rightarrow> 'a cres \<Rightarrow> bool" where
  "outcome P Fault = False"
| "outcome P Fail = True"
| "outcome P (Done a) = P a"

named_theorems outcome_rules "introduction rules for the outcome predicate"

lemma outcome_True_iff: "outcome (\<lambda>_. True) r \<longleftrightarrow> r \<noteq> Fault"
  by (cases r) auto

lemma outcome_safe: "outcome P r \<Longrightarrow> r \<noteq> Fault"
  by auto

lemma outcome_Done: "outcome P r \<Longrightarrow> r = Done a \<Longrightarrow> P a"
  by simp

lemma outcome_mono: "outcome P r \<Longrightarrow> (\<And>a. P a \<Longrightarrow> Q a) \<Longrightarrow> outcome Q r"
  by (cases r) auto

lemma outcome_cbind:
  "outcome Q r \<Longrightarrow> (\<And>a. Q a \<Longrightarrow> r = Done a \<Longrightarrow> outcome P (f a)) \<Longrightarrow> outcome P (cbind r f)"
  by (cases r) auto

text \<open>The test \<open>if (f(...)) A else B\<close> on a function that returns a success flag.\<close>

lemma outcome_case:
  "outcome Q r \<Longrightarrow> outcome P no \<Longrightarrow> (\<And>a. Q a \<Longrightarrow> r = Done a \<Longrightarrow> outcome P (yes a)) \<Longrightarrow>
     outcome P (case r of Fault \<Rightarrow> Fault | Fail \<Rightarrow> no | Done a \<Rightarrow> yes a)"
  by (cases r) auto

lemma outcome_if [outcome_rules]:
  "(b \<Longrightarrow> outcome P x) \<Longrightarrow> (\<not> b \<Longrightarrow> outcome P y) \<Longrightarrow> outcome P (if b then x else y)"
  by simp

lemma outcome_Fail [outcome_rules]: "outcome P Fail"
  by simp

lemma cbind_eq_Done: "cbind r f = Done b \<longleftrightarrow> (\<exists>a. r = Done a \<and> f a = Done b)"
  by (cases r) auto

section \<open>Reading a byte buffer\<close>

definition rd :: "bytes \<Rightarrow> nat \<Rightarrow> u8 cres" where
  "rd p i = (if i < length p then Done (p ! i) else Fault)"

text \<open>The source range of a \<open>memcpy\<close> of \<open>n\<close> bytes from position \<open>i\<close>.\<close>

definition slice :: "bytes \<Rightarrow> nat \<Rightarrow> nat \<Rightarrow> bytes cres" where
  "slice p i n = (if i + n \<le> length p then Done (take n (drop i p)) else Fault)"

lemma rd_outcome: "i < length p \<Longrightarrow> P (p ! i) \<Longrightarrow> outcome P (rd p i)"
  by (simp add: rd_def)

lemma slice_outcome:
  "i + n \<le> length p \<Longrightarrow> outcome (\<lambda>s. length s = n \<and> s = take n (drop i p)) (slice p i n)"
  by (simp add: slice_def)

text \<open>Numbers written byte by byte, the most significant one first.\<close>

definition be16 :: "u16 \<Rightarrow> bytes" where
  "be16 w = [ucast (drop_bit 8 w AND 0xFF), ucast (w AND 0xFF)]"

definition be32 :: "u32 \<Rightarrow> bytes" where
  "be32 w = [ucast (drop_bit 24 w AND 0xFF), ucast (drop_bit 16 w AND 0xFF),
             ucast (drop_bit 8 w AND 0xFF), ucast (w AND 0xFF)]"

section \<open>Arrays\<close>

text \<open>Element access, element update and \<open>memmove\<close> on an array of fixed length.\<close>

definition aget :: "'a list \<Rightarrow> nat \<Rightarrow> 'a cres" where
  "aget xs i = (if i < length xs then Done (xs ! i) else Fault)"

definition aset :: "'a list \<Rightarrow> nat \<Rightarrow> 'a \<Rightarrow> 'a list cres" where
  "aset xs i v = (if i < length xs then Done (xs[i := v]) else Fault)"

definition memmove :: "'a list \<Rightarrow> nat \<Rightarrow> nat \<Rightarrow> nat \<Rightarrow> 'a list cres" where
  "memmove xs dest src n =
     (if dest + n \<le> length xs \<and> src + n \<le> length xs
      then Done (take dest xs @ take n (drop src xs) @ drop (dest + n) xs) else Fault)"

datatype esp_err = ESP_OK | ESP_FAIL | ESP_ERR_NO_MEM | ESP_ERR_INVALID_ARG | ESP_ERR_INVALID_STATE
  | ESP_ERR_INVALID_SIZE | ESP_ERR_NOT_FOUND | ESP_ERR_NOT_SUPPORTED | ESP_ERR_TIMEOUT | ESP_ERR_NVS_NOT_FOUND
  | ESP_ERR_NVS_INVALID_LENGTH

lemma aget_Done [simp]: "i < length xs \<Longrightarrow> aget xs i = Done (xs ! i)"
  by (simp add: aget_def)

lemma aset_Done [simp]: "i < length xs \<Longrightarrow> aset xs i v = Done (xs[i := v])"
  by (simp add: aset_def)

text \<open>The two shifts of an array prefix: removing its head, and opening a gap at \<open>pos\<close>.\<close>

lemma memmove_drop_head:
  assumes "0 < n" "n \<le> length xs"
  shows "\<exists>ys. memmove xs 0 1 (n - 1) = Done ys \<and> length ys = length xs \<and> take (n - 1) ys = tl (take n xs)"
proof -
  from assms obtain m x zs where "n = Suc m" "xs = x # zs" "m \<le> length zs"
    by (cases n; cases xs) auto
  then show ?thesis by (simp add: memmove_def)
qed

lemma memmove_gap:
  assumes "pos \<le> n" "n < length xs"
  shows "\<exists>ys. memmove xs (pos + 1) pos (n - pos) = Done ys \<and> length ys = length xs
           \<and> take (Suc n) (ys[pos := v]) = take pos xs @ v # drop pos (take n xs)"
proof -
  have "take (Suc n) ((take (Suc pos) xs @ take (n - pos) (drop pos xs) @ drop (Suc n) xs)[pos := v])
      = take pos xs @ v # take (n - pos) (drop pos xs)"
    using assms by (simp add: list_update_append take_Suc_conv_app_nth Suc_diff_le)
  then show ?thesis
    using assms by (auto simp: memmove_def drop_take)
qed

text \<open>memcpy to a position of a buffer; Fault is a write past its end.\<close>

definition put_bytes :: "bytes \<Rightarrow> nat \<Rightarrow> bytes \<Rightarrow> bytes cres" where
  "put_bytes buf at bs =
     (if at + length bs \<le> length buf then Done (take at buf @ bs @ drop (at + length bs) buf) else Fault)"

lemma put_bytes_Done: "pos + length data \<le> length buf \<Longrightarrow>
    \<exists>b. put_bytes buf pos data = Done b \<and> length b = length buf \<and> take (pos + length data) b = take pos buf @ data"
  by (simp add: put_bytes_def)

section \<open>Words\<close>

lemma unat_u8_less [simp]: "unat (b :: u8) < 256"
  using unsigned_less [of b] by simp

lemma size_t_small [simp]: "n < 2 ^ 32 \<Longrightarrow> size_t n = n"
  by (simp add: size_t_def)

lemma uint64_small [simp]: "n < 2 ^ 64 \<Longrightarrow> uint64 n = n"
  by (simp add: uint64_def)

lemma i64_small [simp]: "- (2 ^ 63) \<le> x \<Longrightarrow> x < 2 ^ 63 \<Longrightarrow> i64 x = x"
  unfolding i64_def by (rule signed_take_bit_int_eq_self) simp_all

lemma cdiv_nonneg [simp]: "0 \<le> a \<Longrightarrow> 0 < b \<Longrightarrow> cdiv a b = a div b"
  by (auto simp: cdiv_def sgn_if)

lemma size_t_le [simp]: "size_t n \<le> n"
  by (simp add: size_t_def)

lemma size_t_less [simp]: "size_t n < 2 ^ 32"
  by (simp add: size_t_def)

lemma low_nibble_le: "unat (b AND 0x0F :: u8) \<le> 15"
proof -
  have "b AND 0x0F \<le> (0x0F :: u8)" by (rule word_and_le1)
  then have "unat (b AND 0x0F) \<le> unat (0x0F :: u8)" by (rule word_le_nat_alt [THEN iffD1])
  then show ?thesis by simp
qed

text \<open>The number of length bytes \<open>1 << (marker & 0x0F)\<close> is at most 32768.\<close>

lemma nibble_shift_le: "2 ^ unat (b AND 0x0F :: u8) \<le> (32768 :: nat)"
proof -
  have "(2::nat) ^ unat (b AND 0x0F) \<le> 2 ^ 15"
    using low_nibble_le [of b] by (rule power_increasing) simp
  then show ?thesis by simp
qed

lemma ucast_and_255 [simp]: "(ucast (x AND 0xFF :: 'a::len word) :: u8) = ucast x"
proof -
  have "x AND 0xFF = take_bit 8 x" by (simp add: take_bit_eq_mask mask_eq_exp_minus_1)
  then show ?thesis by (simp add: unsigned_take_bit_eq take_bit_word_eq_self)
qed

lemma sint_ucast_wider:
  "LENGTH('a) < LENGTH('b) \<Longrightarrow> sint (ucast (w :: 'a::len word) :: 'b::len word) = uint w"
proof -
  assume l: "LENGTH('a) < LENGTH('b)"
  have lt: "uint w < 2 ^ LENGTH('a)" by simp
  also have "(2::int) ^ LENGTH('a) \<le> 2 ^ (LENGTH('b) - 1)"
    using l by (intro power_increasing) auto
  finally have "uint w < 2 ^ (LENGTH('b) - 1)" .
  moreover have "uint (ucast w :: 'b word) = uint w"
    using l by (simp add: unsigned_ucast_eq take_bit_int_eq_self_iff order.strict_trans2 [OF lt])
  moreover have "- (2 ^ (LENGTH('b) - 1)) \<le> uint w"
    by (rule order.trans [of _ 0]) simp_all
  ultimately show ?thesis
    by (simp add: sint_uint signed_take_bit_int_eq_self)
qed

lemma replicate_numeral: "replicate (numeral n) x = x # replicate (pred_numeral n) x"
  by (simp add: numeral_eq_Suc)

lemma map_nth_upt: "n \<le> length xs \<Longrightarrow> map ((!) xs) [0..<n] = take n xs"
  by (rule nth_equalityI) simp_all

lemma take_min_length [simp]: "take (min (length xs) n) xs = take n xs"
  by (simp add: min_def)

lemma uint_neq_minus_1 [simp]: "uint w \<noteq> -1"
  using uint_nonnegative [of w] by linarith

end
