(* ===== verification/Crypto_Lib.thy ===== *)
theory Crypto_Lib
  imports Prelude
begin

text \<open>
  The cryptographic and big-number primitives of libsodium and mbedtls. They are not part of the sources: they are the fields of
  a record that every function takes as an argument, and what the code relies on is a named predicate about it.
\<close>

record crypto_lib =
  cl_sha512 :: "bytes \<Rightarrow> bytes"
  cl_hmac :: "bytes \<Rightarrow> bytes \<Rightarrow> bytes"
  cl_seal :: "bytes \<Rightarrow> bytes \<Rightarrow> bytes \<Rightarrow> bytes \<Rightarrow> bytes"
  cl_open :: "bytes \<Rightarrow> bytes \<Rightarrow> bytes \<Rightarrow> bytes \<Rightarrow> bytes option"
  cl_scalarmult :: "bytes \<Rightarrow> bytes \<Rightarrow> bool \<times> bytes"
  cl_sign :: "bytes \<Rightarrow> bytes \<Rightarrow> bytes"
  cl_aes_ctr :: "bytes \<Rightarrow> bytes \<Rightarrow> bytes \<Rightarrow> bytes"
  mpi_read_binary :: "bytes \<Rightarrow> nat"
  mpi_write_binary :: "nat \<Rightarrow> nat \<Rightarrow> bytes"
  mpi_size :: "nat \<Rightarrow> nat"
  mpi_mod :: "nat \<Rightarrow> nat \<Rightarrow> nat"
  mpi_mul :: "nat \<Rightarrow> nat \<Rightarrow> nat option"
  mpi_add :: "nat \<Rightarrow> nat \<Rightarrow> nat option"
  mpi_exp_mod :: "nat \<Rightarrow> nat \<Rightarrow> nat \<Rightarrow> nat option"

text \<open>What libsodium documents: the sizes of digests and signatures, and that a sealed message opens under the same key, nonce and
  additional data, being 16 bytes longer than the message.\<close>

definition hmac_ok :: "crypto_lib \<Rightarrow> bool" where
  "hmac_ok L \<longleftrightarrow> (\<forall>k m. length (cl_hmac L k m) = 64)"

definition sha_ok :: "crypto_lib \<Rightarrow> bool" where
  "sha_ok L \<longleftrightarrow> (\<forall>m. length (cl_sha512 L m) = 64)"

definition sign_ok :: "crypto_lib \<Rightarrow> bool" where
  "sign_ok L \<longleftrightarrow> (\<forall>m k. length (cl_sign L m k) = 64)"

definition aead_ok :: "crypto_lib \<Rightarrow> bool" where
  "aead_ok L \<longleftrightarrow> (\<forall>k n a m. cl_open L k n a (cl_seal L k n a m) = Some m \<and> length (cl_seal L k n a m) = length m + 16)"

text \<open>What mbedtls documents for its big numbers, when no allocation fails: arithmetic on naturals, and big-endian
  reading and writing; the size is the least number of bytes that holds the number.\<close>

definition be_val :: "bytes \<Rightarrow> nat" where
  "be_val bs = foldl (\<lambda>a b. 256 * a + unat b) 0 bs"

definition mpi_ok :: "crypto_lib \<Rightarrow> bool" where
  "mpi_ok L \<longleftrightarrow> (\<forall>bs. mpi_read_binary L bs = be_val bs)
     \<and> (\<forall>n k. (mpi_size L n \<le> k) = (n < 256 ^ k))
     \<and> (\<forall>n k. n < 256 ^ k \<longrightarrow> length (mpi_write_binary L n k) = k \<and> be_val (mpi_write_binary L n k) = n)
     \<and> (\<forall>a n. mpi_mod L a n = a mod n) \<and> (\<forall>a b. mpi_mul L a b = Some (a * b)) \<and> (\<forall>a b. mpi_add L a b = Some (a + b))
     \<and> (\<forall>a e n. mpi_exp_mod L a e n = Some (a ^ e mod n))"

lemma be_val_from: "foldl (\<lambda>a b. 256 * a + unat b) c ys = c * 256 ^ length ys + be_val ys"
proof (induction ys arbitrary: c)
  case (Cons b ys)
  have "foldl (\<lambda>a b. 256 * a + unat b) c (b # ys) = (256 * c + unat b) * 256 ^ length ys + be_val ys"
    by (simp add: Cons.IH)
  moreover have "be_val (b # ys) = unat b * 256 ^ length ys + be_val ys" by (simp add: be_val_def [of "b # ys"] Cons.IH)
  ultimately show ?case by (simp add: algebra_simps)
qed (simp add: be_val_def)

lemma be_val_append: "be_val (xs @ ys) = be_val xs * 256 ^ length ys + be_val ys"
  using be_val_from [of "be_val xs" ys] by (simp add: be_val_def)

lemma be_val_simps [simp]: "be_val [] = 0" "be_val (b # bs) = unat b * 256 ^ length bs + be_val bs"
  using be_val_append [of "[b]" bs] by (simp_all add: be_val_def)

lemma be_val_zeros [simp]: "be_val (replicate n 0 @ bs) = be_val bs"
  by (induction n) simp_all

lemma be_val_bound: "be_val bs < 256 ^ length bs"
proof (induction bs)
  case (Cons b bs)
  have "unat b \<le> 255" using unat_u8_less [of b] by linarith
  then have "unat b * 256 ^ length bs \<le> 255 * 256 ^ length bs" by (rule mult_le_mono1)
  then show ?case using Cons by (simp only: be_val_simps list.size power_Suc add_Suc_right add_0_right)
qed simp

section \<open>A library for concrete cases\<close>

text \<open>A keyless digest, a seal that appends a tag of key and nonce, and real big-number arithmetic.\<close>

definition demo_pad :: "nat \<Rightarrow> bytes \<Rightarrow> bytes" where
  "demo_pad n m = take n (m @ replicate n 0)"

lemma demo_pad_length [simp]: "length (demo_pad n m) = n"
  by (simp only: demo_pad_def length_take length_append length_replicate)

fun be_digits :: "nat \<Rightarrow> nat \<Rightarrow> bytes" where
  "be_digits n 0 = []"
| "be_digits n (Suc k) = be_digits (n div 256) k @ [of_nat (n mod 256)]"

fun byte_count :: "nat \<Rightarrow> nat" where
  "byte_count n = (if n = 0 then 0 else Suc (byte_count (n div 256)))"

declare byte_count.simps [simp del]

lemma be_digits_length [simp]: "length (be_digits n k) = k"
  by (induction k arbitrary: n) simp_all

lemma be_digits_val: "be_val (be_digits n k) = n mod 256 ^ k"
proof (induction k arbitrary: n)
  case (Suc k)
  have "be_val (be_digits n (Suc k)) = (n div 256 mod 256 ^ k) * 256 + n mod 256"
    using Suc.IH by (simp add: be_val_append unat_of_nat)
  then show ?case by (simp add: mod_mult2_eq)
qed simp

lemma byte_count_le: "(byte_count n \<le> k) = (n < 256 ^ k)"
proof (induction n arbitrary: k rule: byte_count.induct)
  case (1 n)
  show ?case
  proof (cases "n = 0")
    case False
    then show ?thesis using 1
      by (cases k) (subst byte_count.simps, simp add: less_mult_imp_div_less div_less_iff_less_mult mult.commute)+
  qed (simp add: byte_count.simps)
qed

definition demo_lib :: crypto_lib where
  "demo_lib = \<lparr>cl_sha512 = (\<lambda>m. demo_pad 64 (rev m)), cl_hmac = (\<lambda>k m. demo_pad 64 (rev m @ k)),
     cl_seal = (\<lambda>k n a m. m @ demo_pad 16 (rev n @ k @ a)),
     cl_open = (\<lambda>k n a c. if length c \<ge> 16 \<and> drop (length c - 16) c = demo_pad 16 (rev n @ k @ a) then Some (take (length c - 16) c) else None),
     cl_scalarmult = (\<lambda>s p. (True, map2 (XOR) s p)), cl_sign = (\<lambda>m k. demo_pad 64 (m @ k)),
     cl_aes_ctr = (\<lambda>k iv m. map (NOT) m), mpi_read_binary = be_val, mpi_write_binary = be_digits, mpi_size = byte_count,
     mpi_mod = (mod), mpi_mul = (\<lambda>a b. Some (a * b)), mpi_add = (\<lambda>a b. Some (a + b)),
     mpi_exp_mod = (\<lambda>a e n. Some (a ^ e mod n))\<rparr>"

lemma demo_lib_ok: "hmac_ok demo_lib" "aead_ok demo_lib" "sha_ok demo_lib" "sign_ok demo_lib" "mpi_ok demo_lib"
  by (simp_all add: hmac_ok_def aead_ok_def sha_ok_def sign_ok_def mpi_ok_def demo_lib_def byte_count_le be_digits_val)

end
