(* ===== verification/Srp.thy ===== *)
theory Srp
  imports Crypto_Lib
begin

text \<open>
  The server side of SRP-6a (\<open>main/hap/srp.c\<close>), with the 3072-bit group of RFC 5054 and SHA-512. The random salt and the random
  secret exponent are arguments of \<open>srp_start\<close>.
\<close>

section \<open>The model\<close>

definition SRP_PRIME_BYTES :: nat where "SRP_PRIME_BYTES = 384"
definition SRP_SALT_BYTES :: nat where "SRP_SALT_BYTES = 16"
definition SRP_PROOF_BYTES :: nat where "SRP_PROOF_BYTES = 64"
definition SRP_GENERATOR :: nat where "SRP_GENERATOR = 5"

definition srp_N :: bytes where
  "srp_N =
    [0xFF, 0xFF, 0xFF, 0xFF, 0xFF, 0xFF, 0xFF, 0xFF, 0xC9, 0x0F, 0xDA, 0xA2, 0x21, 0x68, 0xC2, 0x34,
     0xC4, 0xC6, 0x62, 0x8B, 0x80, 0xDC, 0x1C, 0xD1, 0x29, 0x02, 0x4E, 0x08, 0x8A, 0x67, 0xCC, 0x74,
     0x02, 0x0B, 0xBE, 0xA6, 0x3B, 0x13, 0x9B, 0x22, 0x51, 0x4A, 0x08, 0x79, 0x8E, 0x34, 0x04, 0xDD,
     0xEF, 0x95, 0x19, 0xB3, 0xCD, 0x3A, 0x43, 0x1B, 0x30, 0x2B, 0x0A, 0x6D, 0xF2, 0x5F, 0x14, 0x37,
     0x4F, 0xE1, 0x35, 0x6D, 0x6D, 0x51, 0xC2, 0x45, 0xE4, 0x85, 0xB5, 0x76, 0x62, 0x5E, 0x7E, 0xC6,
     0xF4, 0x4C, 0x42, 0xE9, 0xA6, 0x37, 0xED, 0x6B, 0x0B, 0xFF, 0x5C, 0xB6, 0xF4, 0x06, 0xB7, 0xED,
     0xEE, 0x38, 0x6B, 0xFB, 0x5A, 0x89, 0x9F, 0xA5, 0xAE, 0x9F, 0x24, 0x11, 0x7C, 0x4B, 0x1F, 0xE6,
     0x49, 0x28, 0x66, 0x51, 0xEC, 0xE4, 0x5B, 0x3D, 0xC2, 0x00, 0x7C, 0xB8, 0xA1, 0x63, 0xBF, 0x05,
     0x98, 0xDA, 0x48, 0x36, 0x1C, 0x55, 0xD3, 0x9A, 0x69, 0x16, 0x3F, 0xA8, 0xFD, 0x24, 0xCF, 0x5F,
     0x83, 0x65, 0x5D, 0x23, 0xDC, 0xA3, 0xAD, 0x96, 0x1C, 0x62, 0xF3, 0x56, 0x20, 0x85, 0x52, 0xBB,
     0x9E, 0xD5, 0x29, 0x07, 0x70, 0x96, 0x96, 0x6D, 0x67, 0x0C, 0x35, 0x4E, 0x4A, 0xBC, 0x98, 0x04,
     0xF1, 0x74, 0x6C, 0x08, 0xCA, 0x18, 0x21, 0x7C, 0x32, 0x90, 0x5E, 0x46, 0x2E, 0x36, 0xCE, 0x3B,
     0xE3, 0x9E, 0x77, 0x2C, 0x18, 0x0E, 0x86, 0x03, 0x9B, 0x27, 0x83, 0xA2, 0xEC, 0x07, 0xA2, 0x8F,
     0xB5, 0xC5, 0x5D, 0xF0, 0x6F, 0x4C, 0x52, 0xC9, 0xDE, 0x2B, 0xCB, 0xF6, 0x95, 0x58, 0x17, 0x18,
     0x39, 0x95, 0x49, 0x7C, 0xEA, 0x95, 0x6A, 0xE5, 0x15, 0xD2, 0x26, 0x18, 0x98, 0xFA, 0x05, 0x10,
     0x15, 0x72, 0x8E, 0x5A, 0x8A, 0xAA, 0xC4, 0x2D, 0xAD, 0x33, 0x17, 0x0D, 0x04, 0x50, 0x7A, 0x33,
     0xA8, 0x55, 0x21, 0xAB, 0xDF, 0x1C, 0xBA, 0x64, 0xEC, 0xFB, 0x85, 0x04, 0x58, 0xDB, 0xEF, 0x0A,
     0x8A, 0xEA, 0x71, 0x57, 0x5D, 0x06, 0x0C, 0x7D, 0xB3, 0x97, 0x0F, 0x85, 0xA6, 0xE1, 0xE4, 0xC7,
     0xAB, 0xF5, 0xAE, 0x8C, 0xDB, 0x09, 0x33, 0xD7, 0x1E, 0x8C, 0x94, 0xE0, 0x4A, 0x25, 0x61, 0x9D,
     0xCE, 0xE3, 0xD2, 0x26, 0x1A, 0xD2, 0xEE, 0x6B, 0xF1, 0x2F, 0xFA, 0x06, 0xD9, 0x8A, 0x08, 0x64,
     0xD8, 0x76, 0x02, 0x73, 0x3E, 0xC8, 0x6A, 0x64, 0x52, 0x1F, 0x2B, 0x18, 0x17, 0x7B, 0x20, 0x0C,
     0xBB, 0xE1, 0x17, 0x57, 0x7A, 0x61, 0x5D, 0x6C, 0x77, 0x09, 0x88, 0xC0, 0xBA, 0xD9, 0x46, 0xE2,
     0x08, 0xE2, 0x4F, 0xA0, 0x74, 0xE5, 0xAB, 0x31, 0x43, 0xDB, 0x5B, 0xFC, 0xE0, 0xFD, 0x10, 0x8E,
     0x4B, 0x82, 0xD1, 0x20, 0xA9, 0x3A, 0xD2, 0xCA, 0xFF, 0xFF, 0xFF, 0xFF, 0xFF, 0xFF, 0xFF, 0xFF]"

record srp_session =
  srp_salt :: bytes
  srp_server_public_key :: bytes
  srp_server_secret :: bytes
  srp_client_public_key :: bytes
  srp_session_key :: bytes
  srp_session_key_len :: nat
  srp_proof_m1 :: bytes
  srp_proof_m2 :: bytes
  srp_state :: nat
  srp_verified :: bool

definition mpi_to_bytes_min :: "crypto_lib \<Rightarrow> nat \<Rightarrow> nat \<Rightarrow> bytes" where
  "mpi_to_bytes_min L n len =
     (if mpi_size L n = 0 then (if len < 1 then [] else [0])
      else if mpi_size L n > len then []
      else mpi_write_binary L n (mpi_size L n))"

text \<open>A number too large for the buffer leaves the buffer as it is.\<close>

definition mpi_to_bytes_padded :: "crypto_lib \<Rightarrow> nat \<Rightarrow> bytes \<Rightarrow> bytes" where
  "mpi_to_bytes_padded L n buf =
     (if mpi_size L n > length buf then buf
      else replicate (length buf - mpi_size L n) 0 @ mpi_write_binary L n (mpi_size L n))"

fun trim_leading_zeros :: "bytes \<Rightarrow> bytes" where
  "trim_leading_zeros (b # c # bs) = (if b = 0 then trim_leading_zeros (c # bs) else b # c # bs)"
| "trim_leading_zeros bs = bs"

definition compute_m1 :: "crypto_lib \<Rightarrow> bytes \<Rightarrow> bytes \<Rightarrow> bytes \<Rightarrow> bytes \<Rightarrow> bytes \<Rightarrow> bytes \<Rightarrow> bytes" where
  "compute_m1 L h_Ng_xor h_I salt A B K = cl_sha512 L (h_Ng_xor @ h_I @ salt @ A @ B @ K)"

definition srp_session_create :: srp_session where
  "srp_session_create = \<lparr>srp_salt = replicate SRP_SALT_BYTES 0, srp_server_public_key = replicate SRP_PRIME_BYTES 0,
     srp_server_secret = replicate SRP_PRIME_BYTES 0, srp_client_public_key = replicate SRP_PRIME_BYTES 0,
     srp_session_key = replicate 64 0, srp_session_key_len = 0, srp_proof_m1 = replicate 64 0, srp_proof_m2 = replicate 64 0,
     srp_state = 0, srp_verified = False\<rparr>"

text \<open>The multiplier \<open>k\<close> and the private key \<open>x\<close>.\<close>

definition srp_k :: "crypto_lib \<Rightarrow> nat" where
  "srp_k L = mpi_mod L (mpi_read_binary L (cl_sha512 L (srp_N @ replicate (SRP_PRIME_BYTES - 1) 0 @ [of_nat SRP_GENERATOR])))
     (mpi_read_binary L srp_N)"

definition srp_x :: "crypto_lib \<Rightarrow> bytes \<Rightarrow> bytes \<Rightarrow> bytes \<Rightarrow> nat" where
  "srp_x L salt username password =
     mpi_read_binary L (cl_sha512 L (salt @ cl_sha512 L (username @ asc '':'' @ password)))"

text \<open>The big-number calls that can fail return \<open>None\<close>, which ends the function with \<open>ESP_FAIL\<close> and the fields set so far.\<close>

definition srp_start :: "crypto_lib \<Rightarrow> bytes \<Rightarrow> bytes \<Rightarrow> srp_session \<Rightarrow> bytes \<Rightarrow> bytes \<Rightarrow> bool \<times> srp_session" where
  "srp_start L salt b_bytes s username password =
     (let s = s\<lparr>srp_salt := salt\<rparr>;
          N = mpi_read_binary L srp_N; g = SRP_GENERATOR; k = srp_k L; x = srp_x L salt username password in
      case mpi_exp_mod L g x N of
        None \<Rightarrow> (False, s)
      | Some v \<Rightarrow>
          let b = mpi_mod L (mpi_read_binary L b_bytes) N;
              s = s\<lparr>srp_server_secret := mpi_to_bytes_padded L b (srp_server_secret s)\<rparr> in
          case mpi_exp_mod L g b N of
            None \<Rightarrow> (False, s)
          | Some tmp \<Rightarrow>
              case mpi_mul L k v of
                None \<Rightarrow> (False, s)
              | Some tmp2 \<Rightarrow>
                  case mpi_add L tmp2 tmp of
                    None \<Rightarrow> (False, s)
                  | Some B \<Rightarrow>
                      (True, s\<lparr>srp_server_public_key := mpi_to_bytes_padded L (mpi_mod L B N) (srp_server_public_key s),
                               srp_state := 1\<rparr>))"

text \<open>The premaster secret \<open>S = (A v^u)^b\<close> of the server.\<close>

definition server_S :: "crypto_lib \<Rightarrow> nat \<Rightarrow> nat \<Rightarrow> nat \<Rightarrow> nat \<Rightarrow> nat \<Rightarrow> nat option" where
  "server_S L N A x u b =
     (case mpi_exp_mod L SRP_GENERATOR x N of
        None \<Rightarrow> None
      | Some v \<Rightarrow>
          case mpi_exp_mod L v u N of
            None \<Rightarrow> None
          | Some tmp \<Rightarrow>
              case mpi_mul L A tmp of
                None \<Rightarrow> None
              | Some tmp2 \<Rightarrow> mpi_exp_mod L (mpi_mod L tmp2 N) b N)"

definition expected_m1 :: "crypto_lib \<Rightarrow> bytes \<Rightarrow> nat \<Rightarrow> nat \<Rightarrow> bytes \<Rightarrow> bytes" where
  "expected_m1 L salt A B K =
     compute_m1 L (map2 (XOR) (cl_sha512 L srp_N) (cl_sha512 L [of_nat SRP_GENERATOR])) (cl_sha512 L (asc ''Pair-Setup''))
       (trim_leading_zeros salt) (mpi_to_bytes_min L A SRP_PRIME_BYTES) (mpi_to_bytes_min L B SRP_PRIME_BYTES) K"

definition srp_verify_client :: "crypto_lib \<Rightarrow> srp_session \<Rightarrow> bytes \<Rightarrow> bytes \<Rightarrow> bool \<times> srp_session" where
  "srp_verify_client L s client_pk client_proof =
     (if length client_proof < SRP_PROOF_BYTES then (False, s)
      else
        let pk = take SRP_PRIME_BYTES client_pk;
            s = s\<lparr>srp_client_public_key := replicate (SRP_PRIME_BYTES - length pk) 0 @ pk\<rparr>;
            N = mpi_read_binary L srp_N;
            A = mpi_read_binary L (srp_client_public_key s);
            B = mpi_read_binary L (srp_server_public_key s);
            b = mpi_read_binary L (srp_server_secret s) in
        if A = 0 \<or> mpi_mod L A N = 0 then (False, s)
        else
          let u = mpi_read_binary L (cl_sha512 L (srp_client_public_key s @ srp_server_public_key s));
              x = srp_x L (srp_salt s) (asc ''Pair-Setup'') (asc ''3939'') in
          case server_S L N A x u b of
            None \<Rightarrow> (False, s)
          | Some S \<Rightarrow>
              let K = cl_sha512 L (mpi_to_bytes_min L S SRP_PRIME_BYTES);
                  s = s\<lparr>srp_session_key := K, srp_session_key_len := 64\<rparr>;
                  proof = take SRP_PROOF_BYTES client_proof in
              if proof \<noteq> take SRP_PROOF_BYTES (expected_m1 L (srp_salt s) A B K) then (False, s)
              else
                (True, s\<lparr>srp_proof_m1 := proof,
                   srp_proof_m2 := cl_sha512 L (mpi_to_bytes_min L A SRP_PRIME_BYTES @ proof @ K),
                   srp_verified := True, srp_state := 2\<rparr>))"

definition srp_get_proof :: "srp_session \<Rightarrow> bytes option" where
  "srp_get_proof s = (if srp_verified s then Some (srp_proof_m2 s) else None)"

definition srp_get_session_key :: "srp_session \<Rightarrow> bytes option" where
  "srp_get_session_key s = (if srp_verified s then Some (take (srp_session_key_len s) (srp_session_key s)) else None)"

section \<open>The group\<close>

abbreviation group_N :: nat where "group_N \<equiv> be_val srp_N"

lemma group_N_length: "length srp_N = 384"
  unfolding srp_N_def by simp

lemma be_val_mod_5: "be_val bs mod 5 = sum_list (map unat bs) mod 5"
proof (induction bs)
  case (Cons b bs)
  have "(256 :: nat) ^ n mod 5 = 1" for n using power_mod [of "256 :: nat" 5 n] by simp
  then have "(unat b * 256 ^ length bs) mod 5 = unat b mod 5" by (subst mod_mult_right_eq [symmetric]) simp
  then have "be_val (b # bs) mod 5 = (unat b + sum_list (map unat bs)) mod 5" using Cons.IH by (simp only: be_val_simps) (rule mod_add_cong)
  then show ?case by simp
qed simp

lemma group_N_facts: "1 < group_N" "group_N < 256 ^ 384" "coprime 5 group_N"
proof -
  obtain c bs where c: "srp_N = c # bs" "unat c = 255" "length bs = 383"
    using group_N_length by (auto simp: srp_N_def)
  have "(2::nat) \<le> 255 * 256 ^ 383" by simp
  then show "1 < group_N" unfolding c(1) be_val_simps c(2,3) by linarith
  show "group_N < 256 ^ 384" using be_val_bound [of srp_N] group_N_length by simp
  have "sum_list (map unat srp_N) mod 5 = 2" unfolding srp_N_def by simp
  then have "group_N mod 5 = 2" by (simp only: be_val_mod_5)
  moreover have "gcd 5 group_N = gcd 5 (group_N mod 5)" using gcd_red_nat [of "group_N" 5] by (simp add: gcd.commute)
  ultimately show "coprime 5 group_N" by (simp add: coprime_iff_gcd_eq_1 gcd_non_0_nat)
qed

section \<open>The honest client\<close>

text \<open>
  The other side of SRP-6a, with the secret exponent \<open>a\<close> and the password: its premaster secret is
  \<open>(B - k g^x)^(a + u x)\<close>, its key the hash of it.
\<close>

definition client_A :: "nat \<Rightarrow> nat" where
  "client_A a = 5 ^ a mod group_N"

definition client_S :: "crypto_lib \<Rightarrow> nat \<Rightarrow> nat \<Rightarrow> nat \<Rightarrow> nat \<Rightarrow> nat" where
  "client_S L B x u a = nat ((int B - int (srp_k L) * 5 ^ x) ^ (a + u * x) mod int group_N)"

definition client_u :: "crypto_lib \<Rightarrow> bytes \<Rightarrow> bytes \<Rightarrow> nat" where
  "client_u L pad_A pad_B = be_val (cl_sha512 L (pad_A @ pad_B))"

definition client_K :: "crypto_lib \<Rightarrow> bytes \<Rightarrow> bytes \<Rightarrow> bytes \<Rightarrow> bytes \<Rightarrow> nat \<Rightarrow> bytes" where
  "client_K L salt pad_A pad_B password a =
     (let x = srp_x L salt (asc ''Pair-Setup'') password in
      cl_sha512 L (mpi_to_bytes_min L (client_S L (be_val pad_B) x (client_u L pad_A pad_B) a) SRP_PRIME_BYTES))"

definition client_M1 :: "crypto_lib \<Rightarrow> bytes \<Rightarrow> bytes \<Rightarrow> bytes \<Rightarrow> bytes \<Rightarrow> nat \<Rightarrow> bytes" where
  "client_M1 L salt pad_A pad_B password a = expected_m1 L salt (be_val pad_A) (be_val pad_B) (client_K L salt pad_A pad_B password a)"

definition pad_pk :: "bytes \<Rightarrow> bytes" where
  "pad_pk pk = replicate (SRP_PRIME_BYTES - length pk) 0 @ pk"

lemma int_power_mod: "int (a ^ n mod m) = int a ^ n mod int m"
  by (simp add: zmod_int)

text \<open>With the public value of the server both sides compute the same power of the generator.\<close>

lemma client_S_power:
  assumes "B = (k * (5 ^ x mod n) + 5 ^ b mod n) mod n"
  shows "(int B - int k * 5 ^ x) ^ e mod int n = 5 ^ (b * e) mod int n"
proof -
  have "int B mod int n = (int k * 5 ^ x + 5 ^ b) mod int n"
    unfolding assms by (simp add: zmod_int mod_simps) (metis mod_add_left_eq mod_mult_right_eq)
  then have "(int B - int k * 5 ^ x) mod int n = 5 ^ b mod int n"
    by (metis add_diff_cancel_left' mod_diff_left_eq)
  then have "(int B - int k * 5 ^ x) ^ e mod int n = (5 ^ b) ^ e mod int n" by (metis power_mod)
  then show ?thesis by (simp add: power_mult)
qed

lemma server_S_power:
  assumes "mpi_ok L"
  shows "server_S L n (5 ^ a mod n) x u b = Some (5 ^ (b * (a + u * x)) mod n)"
proof -
  have "((5 ^ a mod n) * ((5 ^ x mod n) ^ u mod n) mod n) ^ b mod n = ((5 ^ a * (5 ^ x) ^ u) ^ b) mod n"
    by (simp add: power_mod mod_mult_eq)
  also have "(5 ^ a * (5 ^ x) ^ u) ^ b = (5::nat) ^ (b * (a + u * x))"
    by (simp add: power_mult [symmetric] power_add [symmetric] mult.commute)
  finally show ?thesis using assms by (simp add: server_S_def mpi_ok_def SRP_GENERATOR_def)
qed

text \<open>What \<open>srp_start\<close> leaves in the session.\<close>

lemma padded_value:
  assumes "mpi_ok L" "n < 256 ^ length buf"
  shows "be_val (mpi_to_bytes_padded L n buf) = n" "length (mpi_to_bytes_padded L n buf) = length buf"
proof -
  have size: "mpi_size L n \<le> length buf" using assms by (simp add: mpi_ok_def)
  have "(mpi_size L n \<le> mpi_size L n) = (n < 256 ^ mpi_size L n)" using assms(1) unfolding mpi_ok_def by blast
  then have "length (mpi_write_binary L n (mpi_size L n)) = mpi_size L n" "be_val (mpi_write_binary L n (mpi_size L n)) = n"
    using assms(1) unfolding mpi_ok_def by blast+
  with size show "be_val (mpi_to_bytes_padded L n buf) = n" "length (mpi_to_bytes_padded L n buf) = length buf"
    by (simp_all add: mpi_to_bytes_padded_def)
qed

lemma start_result:
  assumes "mpi_ok L" "b = be_val b_bytes mod group_N" "x = srp_x L salt username password"
  obtains s where "srp_start L salt b_bytes srp_session_create username password = (True, s)" "srp_salt s = salt"
    "be_val (srp_server_secret s) = b" "be_val (srp_server_public_key s) = (srp_k L * (5 ^ x mod group_N) + 5 ^ b mod group_N) mod group_N"
    "length (srp_server_public_key s) = 384" "\<not> srp_verified s"
proof -
  have N: "0 < group_N" using group_N_facts(1) by linarith
  then have lt: "n mod group_N < 256 ^ 384" for n using group_N_facts(2) by (meson mod_less_divisor less_trans)
  let ?B = "(srp_k L * (5 ^ x mod group_N) + 5 ^ b mod group_N) mod group_N" and ?z = "replicate SRP_PRIME_BYTES 0"
  let ?s = "srp_session_create\<lparr>srp_salt := salt, srp_server_secret := mpi_to_bytes_padded L b ?z,
    srp_server_public_key := mpi_to_bytes_padded L ?B ?z, srp_state := 1\<rparr>"
  have "srp_start L salt b_bytes srp_session_create username password = (True, ?s)"
    using assms by (simp add: srp_start_def Let_def mpi_ok_def SRP_GENERATOR_def srp_session_create_def)
  moreover have "be_val (mpi_to_bytes_padded L b ?z) = b" "be_val (mpi_to_bytes_padded L ?B ?z) = ?B"
    "length (mpi_to_bytes_padded L ?B ?z) = 384"
    using padded_value [OF assms(1), of b ?z] padded_value [OF assms(1), of ?B ?z] lt assms(2) by (simp_all add: SRP_PRIME_BYTES_def)
  ultimately show ?thesis using that [of ?s] by (simp add: srp_session_create_def)
qed

lemma client_A_nonzero: "client_A a \<noteq> 0" "client_A a mod group_N = client_A a"
proof -
  have "\<not> group_N dvd 5 ^ a"
  proof
    assume "group_N dvd 5 ^ a"
    moreover have "coprime (5 ^ a) group_N" using group_N_facts(3) by (simp add: coprime_power_left_iff)
    ultimately have "is_unit group_N" by (meson coprime_common_divisor dvd_refl)
    then show False using group_N_facts(1) by simp
  qed
  then show "client_A a \<noteq> 0" "client_A a mod group_N = client_A a" by (simp_all add: client_A_def dvd_eq_mod_eq_0)
qed

lemma client_K_power:
  assumes "mpi_ok L" "x = srp_x L salt (asc ''Pair-Setup'') password"
    and "be_val pad_B = (srp_k L * (5 ^ x mod group_N) + 5 ^ b mod group_N) mod group_N"
  shows "client_K L salt pad_A pad_B password a
    = cl_sha512 L (mpi_to_bytes_min L (5 ^ (b * (a + client_u L pad_A pad_B * x)) mod group_N) SRP_PRIME_BYTES)"
proof -
  have "client_S L (be_val pad_B) x u a = 5 ^ (b * (a + u * x)) mod group_N" for u
    unfolding client_S_def client_S_power [OF assms(3)] by (simp add: nat_mod_distrib nat_power_eq)
  then show ?thesis using assms(2) by (simp add: client_K_def Let_def)
qed

text \<open>
  The verification, for an honest client: it accepts exactly the proof made with the power of the generator for the fixed password.
\<close>

lemma verify_result:
  assumes "mpi_ok L" "be_val pk = client_A a" "length pk \<le> 384" "length (srp_server_public_key s) = 384" "length M1 = 64"
    and "b = be_val (srp_server_secret s)" "u = client_u L (pad_pk pk) (srp_server_public_key s)"
    and "x = srp_x L (srp_salt s) (asc ''Pair-Setup'') (asc ''3939'')"
    and "K = cl_sha512 L (mpi_to_bytes_min L (5 ^ (b * (a + u * x)) mod group_N) SRP_PRIME_BYTES)"
    and "E = expected_m1 L (srp_salt s) (client_A a) (be_val (srp_server_public_key s)) K"
  shows "srp_verify_client L s pk M1 =
    (let s1 = s\<lparr>srp_client_public_key := pad_pk pk, srp_session_key := K, srp_session_key_len := 64\<rparr> in
     if M1 = take 64 E then
       (True, s1\<lparr>srp_proof_m1 := M1, srp_proof_m2 := cl_sha512 L (mpi_to_bytes_min L (client_A a) SRP_PRIME_BYTES @ M1 @ K),
          srp_verified := True, srp_state := 2\<rparr>)
     else (False, s1))"
proof -
  have read: "mpi_read_binary L bs = be_val bs" "mpi_mod L m n = m mod n" for bs m n using assms(1) by (simp_all add: mpi_ok_def)
  have pk: "take SRP_PRIME_BYTES pk = pk" "be_val (pad_pk pk) = client_A a"
    using assms(2,3) by (simp_all add: SRP_PRIME_BYTES_def pad_pk_def)
  have S: "server_S L group_N (client_A a) x u b = Some (5 ^ (b * (a + u * x)) mod group_N)"
    unfolding client_A_def by (rule server_S_power [OF assms(1)])
  have u: "be_val (cl_sha512 L (pad_pk pk @ srp_server_public_key s)) = u" by (simp add: assms(7) client_u_def)
  show ?thesis
    using client_A_nonzero [of a] S assms(5) unfolding srp_verify_client_def
    by (simp add: Let_def pk read pad_pk_def [symmetric] u assms(6) [symmetric] assms(8) [symmetric] SRP_PROOF_BYTES_def assms(9) [symmetric] assms(10) del: asc_simps)
qed

text \<open>A whole run with an honest client.\<close>

lemma srp_run:
  assumes "mpi_ok L" "sha_ok L" "be_val pk = client_A a" "length pk \<le> 384"
  obtains s s' where "srp_start L salt b_bytes srp_session_create (asc ''Pair-Setup'') (asc ''3939'') = (True, s)"
    "srp_salt s = salt" "length (srp_server_public_key s) = 384"
    "srp_verify_client L s pk (client_M1 L salt (pad_pk pk) (srp_server_public_key s) (asc ''3939'') a) = (True, s')"
    "srp_get_session_key s' = Some (client_K L salt (pad_pk pk) (srp_server_public_key s) (asc ''3939'') a)"
    "srp_get_proof s' = Some (cl_sha512 L (mpi_to_bytes_min L (client_A a) SRP_PRIME_BYTES
       @ client_M1 L salt (pad_pk pk) (srp_server_public_key s) (asc ''3939'') a
       @ client_K L salt (pad_pk pk) (srp_server_public_key s) (asc ''3939'') a))"
proof -
  let ?x = "srp_x L salt (asc ''Pair-Setup'') (asc ''3939'')"
  obtain s where s: "srp_start L salt b_bytes srp_session_create (asc ''Pair-Setup'') (asc ''3939'') = (True, s)" "srp_salt s = salt"
    "be_val (srp_server_secret s) = be_val b_bytes mod group_N"
    "be_val (srp_server_public_key s) = (srp_k L * (5 ^ ?x mod group_N) + 5 ^ (be_val b_bytes mod group_N) mod group_N) mod group_N"
    "length (srp_server_public_key s) = 384" "\<not> srp_verified s"
    by (rule start_result [OF assms(1) refl refl])
  define K where "K = client_K L salt (pad_pk pk) (srp_server_public_key s) (asc ''3939'') a"
  define M1 where "M1 = client_M1 L salt (pad_pk pk) (srp_server_public_key s) (asc ''3939'') a"
  have pad: "be_val (pad_pk pk) = client_A a" using assms(3) by (simp add: pad_pk_def)
  have M1: "M1 = expected_m1 L (srp_salt s) (client_A a) (be_val (srp_server_public_key s)) K"
    unfolding M1_def K_def client_M1_def pad s(2) by (rule refl)
  have len: "length M1 = 64" using assms(2) by (simp add: M1 expected_m1_def compute_m1_def sha_ok_def del: asc_simps)
  have lenK: "length K = 64" using assms(2) by (simp add: K_def client_K_def Let_def sha_ok_def del: asc_simps)
  have K: "K = cl_sha512 L (mpi_to_bytes_min L (5 ^ (be_val b_bytes mod group_N
      * (a + client_u L (pad_pk pk) (srp_server_public_key s) * srp_x L (srp_salt s) (asc ''Pair-Setup'') (asc ''3939''))) mod group_N) SRP_PRIME_BYTES)"
    unfolding K_def client_K_power [OF assms(1) refl s(4)] s(2) by (rule refl)
  note v = verify_result [OF assms(1,3,4) s(5) len s(3) [symmetric] refl refl K M1]
  from v len lenK obtain s' where "srp_verify_client L s pk M1 = (True, s')" "srp_get_session_key s' = Some K"
      "srp_get_proof s' = Some (cl_sha512 L (mpi_to_bytes_min L (client_A a) SRP_PRIME_BYTES @ M1 @ K))"
    by (simp add: Let_def srp_get_session_key_def srp_get_proof_def)
  then show ?thesis using that [OF s(1,2,5)] unfolding K_def M1_def by blast
qed

text \<open>
  C15. The key agreement: after \<open>srp_start\<close> with the password 3939, a client that knows the password, with any secret exponent and its
  public key in any padding, is accepted by \<open>srp_verify_client\<close>; both sides then hold the same session key, and the server's proof is the
  one the client expects. The premaster secret of the client is the one of SRP-6a, \<open>(B - k g^x)^(a + u x)\<close>.
\<close>

theorem srp_agreement:
  assumes "mpi_ok L" "sha_ok L" "be_val pk = client_A a" "length pk \<le> 384"
  shows "\<exists>s s'. srp_start L salt b_bytes srp_session_create (asc ''Pair-Setup'') (asc ''3939'') = (True, s)
    \<and> (let pad_B = srp_server_public_key s; K = client_K L salt (pad_pk pk) pad_B (asc ''3939'') a;
           M1 = client_M1 L salt (pad_pk pk) pad_B (asc ''3939'') a in
        srp_verify_client L s pk M1 = (True, s') \<and> srp_get_session_key s' = Some K
        \<and> srp_get_proof s' = Some (cl_sha512 L (mpi_to_bytes_min L (client_A a) SRP_PRIME_BYTES @ M1 @ K)))"
  unfolding Let_def by (rule srp_run [OF assms]) blast

lemma demo_A: "be_val [5] = client_A 1"
proof -
  obtain c bs where c: "srp_N = c # bs" "unat c = 255" "length bs = 383" using group_N_length by (auto simp: srp_N_def)
  have "(6::nat) \<le> 255 * 256 ^ 383" by simp
  then have "5 < group_N" unfolding c(1) be_val_simps c(2,3) by linarith
  then show ?thesis by (simp add: client_A_def)
qed

theorem srp_agreement_witness:
  "\<exists>s s'. srp_start demo_lib (replicate 16 7) [3] srp_session_create (asc ''Pair-Setup'') (asc ''3939'') = (True, s)
    \<and> srp_verify_client demo_lib s [5] (client_M1 demo_lib (replicate 16 7) (pad_pk [5]) (srp_server_public_key s) (asc ''3939'') 1) = (True, s')
    \<and> srp_get_session_key s' = Some (client_K demo_lib (replicate 16 7) (pad_pk [5]) (srp_server_public_key s) (asc ''3939'') 1)"
  using srp_agreement [OF demo_lib_ok(5,3) demo_A, of "replicate 16 7" "[3]"] unfolding Let_def by (simp del: asc_simps) blast

text \<open>
  The password of the verification is fixed: whatever password \<open>srp_start\<close> was given, \<open>srp_verify_client\<close> recomputes the verifier for 3939.
  A client that holds the password given to \<open>srp_start\<close> and follows the protocol is accepted only if its proof, made from the power
  \<open>b (a + u x)\<close> of the generator with its own \<open>x\<close>, coincides with the one made with the \<open>x\<close> of 3939.
\<close>

theorem srp_password_fixed:
  assumes "mpi_ok L" "sha_ok L" "be_val pk = client_A a" "length pk \<le> 384"
    and "srp_start L salt b_bytes srp_session_create (asc ''Pair-Setup'') password = (True, s)"
    and "pad_B = srp_server_public_key s" "u = client_u L (pad_pk pk) pad_B" "b = be_val b_bytes mod group_N"
    and "key = (\<lambda>p. cl_sha512 L (mpi_to_bytes_min L (5 ^ (b * (a + u * srp_x L salt (asc ''Pair-Setup'') p)) mod group_N) SRP_PRIME_BYTES))"
  shows "client_K L salt (pad_pk pk) pad_B password a = key password
    \<and> (fst (srp_verify_client L s pk (client_M1 L salt (pad_pk pk) pad_B password a))
        \<longleftrightarrow> expected_m1 L salt (client_A a) (be_val pad_B) (key password) = expected_m1 L salt (client_A a) (be_val pad_B) (key (asc ''3939'')))"
proof -
  let ?x = "srp_x L salt (asc ''Pair-Setup'') password"
  obtain s0 where s0: "srp_start L salt b_bytes srp_session_create (asc ''Pair-Setup'') password = (True, s0)" "srp_salt s0 = salt"
    "be_val (srp_server_secret s0) = b"
    "be_val (srp_server_public_key s0) = (srp_k L * (5 ^ ?x mod group_N) + 5 ^ b mod group_N) mod group_N"
    "length (srp_server_public_key s0) = 384" "\<not> srp_verified s0"
    by (rule start_result [OF assms(1,8) refl])
  have "s0 = s" using s0(1) assms(5) by (simp only: prod.inject simp_thms)
  note s = s0(2-5) [unfolded this]
  define M1 where "M1 = client_M1 L salt (pad_pk pk) pad_B password a"
  have pad: "be_val (pad_pk pk) = client_A a" using assms(3) by (simp add: pad_pk_def)
  have K: "client_K L salt (pad_pk pk) pad_B password a = key password"
    unfolding assms(6,7,9) by (rule client_K_power [OF assms(1) refl s(3)])
  have M1: "M1 = expected_m1 L salt (client_A a) (be_val pad_B) (key password)"
    unfolding M1_def client_M1_def K pad by (rule refl)
  have len: "length (expected_m1 L salt A B k) = 64" for A B k
    using assms(2) by (simp add: expected_m1_def compute_m1_def sha_ok_def del: asc_simps)
  have key: "key (asc ''3939'') = cl_sha512 L (mpi_to_bytes_min L (5 ^ (b * (a + u * srp_x L (srp_salt s) (asc ''Pair-Setup'') (asc ''3939''))) mod group_N) SRP_PRIME_BYTES)"
    unfolding assms(9) s(1) by (rule refl)
  have lenM: "length M1 = 64" unfolding M1 by (rule len)
  note v = verify_result [OF assms(1,3,4) s(4) lenM s(2) [symmetric] assms(7) [unfolded assms(6)] refl key refl]
  have "fst (srp_verify_client L s pk M1) \<longleftrightarrow> M1 = expected_m1 L salt (client_A a) (be_val pad_B) (key (asc ''3939''))"
    unfolding v Let_def s(1) assms(6) by (simp add: len del: asc_simps)
  then show ?thesis using K M1 by (simp only: M1_def)
qed

theorem srp_password_fixed_witness:
  "\<exists>s. srp_start demo_lib (replicate 16 7) [3] srp_session_create (asc ''Pair-Setup'') (asc ''0000'') = (True, s)
    \<and> (fst (srp_verify_client demo_lib s [5] (client_M1 demo_lib (replicate 16 7) (pad_pk [5]) (srp_server_public_key s) (asc ''0000'') 1))
        \<longleftrightarrow> expected_m1 demo_lib (replicate 16 7) (client_A 1) (be_val (srp_server_public_key s))
            (client_K demo_lib (replicate 16 7) (pad_pk [5]) (srp_server_public_key s) (asc ''0000'') 1)
          = expected_m1 demo_lib (replicate 16 7) (client_A 1) (be_val (srp_server_public_key s))
            (cl_sha512 demo_lib (mpi_to_bytes_min demo_lib (5 ^ (be_val [3] mod group_N * (1 + client_u demo_lib (pad_pk [5]) (srp_server_public_key s)
               * srp_x demo_lib (replicate 16 7) (asc ''Pair-Setup'') (asc ''3939''))) mod group_N) SRP_PRIME_BYTES)))"
proof -
  obtain s where s: "srp_start demo_lib (replicate 16 7) [3] srp_session_create (asc ''Pair-Setup'') (asc ''0000'') = (True, s)"
    by (rule start_result [OF demo_lib_ok(5) refl refl])
  have "length [5 :: u8] \<le> 384" by simp
  note f = srp_password_fixed [OF demo_lib_ok(5,3) demo_A this s refl refl refl refl]
  show ?thesis using conjunct2 [OF f] unfolding conjunct1 [OF f, symmetric] by (intro exI [of _ s] conjI s)
qed

end
