(* ===== verification/Hap_Session.thy ===== *)
theory Hap_Session
  imports Srp
begin

text \<open>
  The HomeKit session of a connection (\<open>main/hap/hap.h\<close>, \<open>main/hap/hap.c\<close>) and its use of the cryptographic
  libraries (\<open>main/hap/hap_crypto.c\<close>).
\<close>

section \<open>The model\<close>

record hap_session =
  device_public_key :: bytes
  device_secret_key :: bytes
  session_public_key :: bytes
  session_secret_key :: bytes
  client_public_key :: bytes
  shared_secret :: bytes
  encrypt_key :: bytes
  decrypt_key :: bytes
  encrypt_nonce :: u64
  decrypt_nonce :: u64
  pair_verify_state :: int
  pair_setup_state :: int
  pair_setup_transient :: bool
  session_established :: bool
  srp :: "srp_session option"

text \<open>A new session, zeroed by \<open>calloc\<close>, with the device's and a fresh session key pair.\<close>

definition hap_session_create :: "bytes \<times> bytes \<Rightarrow> bytes \<times> bytes \<Rightarrow> hap_session" where
  "hap_session_create device_keys session_keys =
     \<lparr>device_public_key = fst device_keys, device_secret_key = snd device_keys, session_public_key = fst session_keys,
      session_secret_key = snd session_keys, client_public_key = replicate 32 0, shared_secret = replicate 32 0,
      encrypt_key = replicate 32 0, decrypt_key = replicate 32 0, encrypt_nonce = 0, decrypt_nonce = 0,
      pair_verify_state = 0, pair_setup_state = 0, pair_setup_transient = False, session_established = False, srp = None\<rparr>"

text \<open>The expansion loop of HKDF: previous block, counter and the number of bytes still needed.\<close>

function hkdf_loop :: "crypto_lib \<Rightarrow> bytes \<Rightarrow> bytes \<Rightarrow> bytes \<Rightarrow> u8 \<Rightarrow> nat \<Rightarrow> bytes" where
  "hkdf_loop L prk info t counter need =
     (if need = 0 then []
      else
        let t = cl_hmac L prk (t @ info @ [counter]); copy_len = min need 64 in
        take copy_len t @ hkdf_loop L prk info t (counter + 1) (need - copy_len))"
  by pat_completeness auto
termination
  by (relation "measure (\<lambda>(L, prk, info, t, counter, need). need)") auto

declare hkdf_loop.simps [simp del]

definition hap_hkdf_sha512 :: "crypto_lib \<Rightarrow> bytes \<Rightarrow> bytes \<Rightarrow> bytes \<Rightarrow> nat \<Rightarrow> bytes" where
  "hap_hkdf_sha512 L salt ikm info okm_len =
     (let prk = cl_hmac L (if salt \<noteq> [] then salt else replicate 64 0) ikm in
      hkdf_loop L prk info [] 1 okm_len)"

definition hap_derive_audio_key :: "crypto_lib \<Rightarrow> hap_session \<Rightarrow> nat \<Rightarrow> esp_err + bytes" where
  "hap_derive_audio_key L session key_len =
     (if key_len < 16 then Inl ESP_ERR_INVALID_ARG
      else if \<not> session_established session then Inl ESP_ERR_INVALID_STATE
      else Inr (hap_hkdf_sha512 L (asc ''Control-Salt'') (shared_secret session) (asc ''Control-Read-Encryption-Key'') key_len))"

definition le64 :: "u64 \<Rightarrow> bytes" where
  "le64 n = map (\<lambda>i. ucast (drop_bit (8 * i) n)) [0..<8]"

definition counter_nonce :: "u64 \<Rightarrow> bytes" where
  "counter_nonce n = replicate 4 0 @ le64 n"

definition hap_encrypt :: "crypto_lib \<Rightarrow> hap_session \<Rightarrow> bytes \<Rightarrow> (esp_err + bytes) \<times> hap_session" where
  "hap_encrypt L session plaintext =
     (if \<not> session_established session then (Inl ESP_ERR_INVALID_STATE, session)
      else (Inr (cl_seal L (encrypt_key session) (counter_nonce (encrypt_nonce session)) [] plaintext),
            session\<lparr>encrypt_nonce := encrypt_nonce session + 1\<rparr>))"

definition hap_decrypt :: "crypto_lib \<Rightarrow> hap_session \<Rightarrow> bytes \<Rightarrow> (esp_err + bytes) \<times> hap_session" where
  "hap_decrypt L session ciphertext =
     (if \<not> session_established session then (Inl ESP_ERR_INVALID_STATE, session)
      else case cl_open L (decrypt_key session) (counter_nonce (decrypt_nonce session)) [] ciphertext of
          None \<Rightarrow> (Inl ESP_ERR_INVALID_STATE, session)
        | Some plaintext \<Rightarrow> (Inr plaintext, session\<lparr>decrypt_nonce := decrypt_nonce session + 1\<rparr>))"

section \<open>Key derivation\<close>

text \<open>The blocks \<open>T(i)\<close> of RFC 5869.\<close>

fun hkdf_T :: "crypto_lib \<Rightarrow> bytes \<Rightarrow> bytes \<Rightarrow> nat \<Rightarrow> bytes" where
  "hkdf_T L prk info 0 = []"
| "hkdf_T L prk info (Suc i) = cl_hmac L prk (hkdf_T L prk info i @ info @ [of_nat (Suc i)])"

lemma hkdf_loop_T:
  assumes "hmac_ok L" "need \<le> 64 * n"
  shows "hkdf_loop L prk info (hkdf_T L prk info i) (of_nat (Suc i)) need
     = take need (concat (map (hkdf_T L prk info) [Suc i..<Suc i + n]))"
  using assms(2)
proof (induction n arbitrary: i need)
  case 0
  then show ?case by (simp add: hkdf_loop.simps)
next
  case (Suc n)
  show ?case
  proof (cases "need = 0")
    case False
    have len: "length (hkdf_T L prk info (Suc i)) = 64" using assms(1) by (simp add: hmac_ok_def)
    have "hkdf_loop L prk info (hkdf_T L prk info i) (of_nat (Suc i)) need
      = take (min need 64) (hkdf_T L prk info (Suc i))
        @ hkdf_loop L prk info (hkdf_T L prk info (Suc i)) (of_nat (Suc (Suc i))) (need - min need 64)"
      using False by (subst hkdf_loop.simps) (simp add: Let_def add.commute)
    also have "\<dots> = take (min need 64) (hkdf_T L prk info (Suc i))
        @ take (need - min need 64) (concat (map (hkdf_T L prk info) [Suc (Suc i)..<Suc (Suc i) + n]))"
      using Suc.IH [of "need - min need 64" "Suc i"] Suc.prems by simp
    also have "\<dots> = take need (concat (map (hkdf_T L prk info) [Suc i..<Suc i + Suc n]))"
    proof -
      have "[Suc i..<Suc i + Suc n] = Suc i # [Suc (Suc i)..<Suc (Suc i) + n]" by (simp add: upt_conv_Cons del: upt_Suc)
      then have "concat (map (hkdf_T L prk info) [Suc i..<Suc i + Suc n])
        = hkdf_T L prk info (Suc i) @ concat (map (hkdf_T L prk info) [Suc (Suc i)..<Suc (Suc i) + n])"
        by (simp only: list.map concat.simps)
      then show ?thesis using len by (simp only: take_append len) (simp add: min_def len del: upt_Suc hkdf_T.simps)
    qed
    finally show ?thesis .
  qed (simp add: hkdf_loop.simps)
qed

text \<open>
  \<open>hap_hkdf_sha512\<close> is the HKDF of RFC 5869 over HMAC-SHA-512: with the salt, or 64 zero bytes for an empty one,
  as the key of the extract step, the output is the prefix of the concatenated blocks \<open>T(1), T(2), ...\<close> of the
  requested length.
\<close>

theorem hkdf_rfc5869:
  assumes "hmac_ok L" "okm_len \<le> 64 * n"
  shows "hap_hkdf_sha512 L salt ikm info okm_len
    = take okm_len (concat (map (hkdf_T L (cl_hmac L (if salt \<noteq> [] then salt else replicate 64 0) ikm) info) [1..<Suc n]))"
  unfolding hap_hkdf_sha512_def Let_def
  using hkdf_loop_T [OF assms, of _ info 0] by (simp del: upt_Suc)

theorem hkdf_rfc5869_witness:
  "hap_hkdf_sha512 demo_lib [] [1, 2] [3] 4 = take 4 (hkdf_T demo_lib (cl_hmac demo_lib (replicate 64 0) [1, 2]) [3] 1)"
  using hkdf_rfc5869 [OF demo_lib_ok(1), of 4 1 "[]" "[1, 2]" "[3]"] by simp

text \<open>Messages between two ends with matching keys and counters arrive as they were sent.\<close>

lemma hap_encrypt_decrypt:
  assumes "aead_ok L" "session_established s" "session_established s'"
    "decrypt_key s' = encrypt_key s" "decrypt_nonce s' = encrypt_nonce s"
  shows "\<exists>c. fst (hap_encrypt L s m) = Inr c \<and> fst (hap_decrypt L s' c) = Inr m
    \<and> decrypt_nonce (snd (hap_decrypt L s' c)) = encrypt_nonce (snd (hap_encrypt L s m))"
  using assms by (simp add: hap_encrypt_def hap_decrypt_def aead_ok_def)

end
