(* ===== verification/Socket.thy ===== *)
theory Socket
  imports Prelude
begin

text \<open>
  The TCP sockets the protocol code reads and writes. What the network delivers is a list of
  events; a call of \<open>recv\<close> takes from the front of it, at most as many bytes as asked for, so one arrival may need several
  calls and one call never sees two arrivals. The end of the list is the end of the connection. \<open>errno\<close> keeps the code of the
  last failed call, as in C. Sent bytes are collected; \<open>so_send\<close> tells how much
  each call of \<open>send\<close> takes, nothing standing for an error, and without an entry it takes everything.
\<close>

datatype errno = EAGAIN | EWOULDBLOCK | EINTR | ECONNRESET

datatype net_event = Arrive bytes | Error errno | Eof

record sock =
  so_in :: "net_event list"
  so_errno :: errno
  so_out :: bytes
  so_send :: "nat list"

datatype recv_result = Got bytes | Closed | Failed

text \<open>An empty arrival is a timeout of the socket.\<close>

definition recv :: "sock \<Rightarrow> nat \<Rightarrow> recv_result \<times> sock" where
  "recv s n =
     (case so_in s of
        [] \<Rightarrow> (Closed, s)
      | Arrive bs # evs \<Rightarrow>
          if bs = [] then (Failed, s\<lparr>so_in := evs, so_errno := EAGAIN\<rparr>)
          else (Got (take n bs), s\<lparr>so_in := (if length bs \<le> n then evs else Arrive (drop n bs) # evs)\<rparr>)
      | Error e # evs \<Rightarrow> (Failed, s\<lparr>so_in := evs, so_errno := e\<rparr>)
      | Eof # evs \<Rightarrow> (Closed, s\<lparr>so_in := evs\<rparr>))"

definition retryable :: "errno \<Rightarrow> bool" where
  "retryable e \<longleftrightarrow> e = EAGAIN \<or> e = EWOULDBLOCK \<or> e = EINTR"

fun event_size :: "net_event \<Rightarrow> nat" where
  "event_size (Arrive bs) = Suc (length bs)"
| "event_size _ = 1"

definition input_size :: "sock \<Rightarrow> nat" where
  "input_size s = sum_list (map event_size (so_in s))"

lemma recv_consumes:
  "0 < n \<Longrightarrow> recv s n = (Got bs, s') \<Longrightarrow> input_size s' < input_size s \<and> bs \<noteq> [] \<and> length bs \<le> n"
  "recv s n = (Failed, s') \<Longrightarrow> input_size s' < input_size s"
  by (auto simp: recv_def input_size_def split: list.splits net_event.splits if_splits)

text \<open>
  The loop that reads exactly \<open>n\<close> bytes; it gives up when the peer closes and on an error it does not retry. The encrypted
  RTSP channel and the buffered audio stream differ in which errors these are.
\<close>

function recv_loop :: "(errno \<Rightarrow> bool) \<Rightarrow> sock \<Rightarrow> nat \<Rightarrow> bytes \<Rightarrow> bytes option \<times> sock" where
  "recv_loop retry s n acc =
     (if n \<le> length acc then (Some acc, s)
      else case recv s (n - length acc) of
          (Got bs, s') \<Rightarrow> recv_loop retry s' n (acc @ bs)
        | (Closed, s') \<Rightarrow> (None, s')
        | (Failed, s') \<Rightarrow> if retry (so_errno s') then recv_loop retry s' n acc else (None, s'))"
  by pat_completeness auto
termination
  by (relation "measure (\<lambda>(retry, s, n, acc). input_size s)") (auto dest!: sym [of "(Got _, _)"] sym [of "(Failed, _)"] recv_consumes(2) recv_consumes(1) [rotated])

declare recv_loop.simps [simp del]

definition recv_exact :: "sock \<Rightarrow> nat \<Rightarrow> bytes \<Rightarrow> bytes option \<times> sock" where
  "recv_exact = recv_loop retryable"

definition stream :: "sock \<Rightarrow> bytes" where
  "stream s = concat (map (\<lambda>e. case e of Arrive bs \<Rightarrow> bs | _ \<Rightarrow> []) (so_in s))"

text \<open>The connection stays up: there are arrivals and errors the reader retries; with \<open>retryable\<close> these are timeouts and interruptions.\<close>

fun steady_event :: "(errno \<Rightarrow> bool) \<Rightarrow> net_event \<Rightarrow> bool" where
  "steady_event retry (Arrive bs) \<longleftrightarrow> bs \<noteq> [] \<or> retry EAGAIN"
| "steady_event retry (Error e) \<longleftrightarrow> retry e"
| "steady_event retry Eof \<longleftrightarrow> False"

definition steady :: "(errno \<Rightarrow> bool) \<Rightarrow> sock \<Rightarrow> bool" where
  "steady retry s \<longleftrightarrow> (\<forall>e \<in> set (so_in s). steady_event retry e)"

abbreviation calm :: "sock \<Rightarrow> bool" where
  "calm \<equiv> steady retryable"

lemma recv_steady:
  assumes "steady retry s" "0 < n"
  shows "(\<exists>bs s'. recv s n = (Got bs, s') \<and> stream s = bs @ stream s' \<and> steady retry s' \<and> so_out s' = so_out s \<and> so_send s' = so_send s)
    \<or> (\<exists>s'. recv s n = (Failed, s') \<and> retry (so_errno s') \<and> stream s' = stream s \<and> steady retry s' \<and> so_out s' = so_out s \<and> so_send s' = so_send s)
    \<or> so_in s = []"
  using assms by (cases "so_in s"; cases "hd (so_in s)") (auto simp: recv_def stream_def steady_def)

text \<open>Whatever the segmentation and however many retried errors: the loop returns the next bytes of the stream and no more.\<close>

lemma recv_loop_stream:
  "steady retry s \<Longrightarrow> length acc \<le> n \<Longrightarrow> n \<le> length acc + length (stream s) \<Longrightarrow>
   \<exists>s'. recv_loop retry s n acc = (Some (acc @ take (n - length acc) (stream s)), s')
     \<and> steady retry s' \<and> stream s' = drop (n - length acc) (stream s) \<and> so_out s' = so_out s \<and> so_send s' = so_send s"
proof (induction retry s n acc rule: recv_loop.induct)
  case (1 retry s n acc)
  show ?case
  proof (cases "n = length acc")
    case False
    with 1(4) have n: "0 < n - length acc" by simp
    with 1(5) have "so_in s \<noteq> []" by (auto simp: stream_def)
    with recv_steady [OF 1(3) n] consider
      (got) bs s' where "recv s (n - length acc) = (Got bs, s')" "stream s = bs @ stream s'" "steady retry s'" "so_out s' = so_out s" "so_send s' = so_send s"
    | (retry) s' where "recv s (n - length acc) = (Failed, s')" "retry (so_errno s')" "stream s' = stream s" "steady retry s'" "so_out s' = so_out s" "so_send s' = so_send s"
      by blast
    then show ?thesis
    proof cases
      case got
      note bs = recv_consumes(1) [OF n got(1)]
      then have "length acc + length bs \<le> n" using n by linarith
      moreover
      have "\<exists>s''. recv_loop retry s' n (acc @ bs) = (Some ((acc @ bs) @ take (n - length (acc @ bs)) (stream s')), s'')
        \<and> steady retry s'' \<and> stream s'' = drop (n - length (acc @ bs)) (stream s') \<and> so_out s'' = so_out s' \<and> so_send s'' = so_send s'"
        using 1(1) [OF _ got(1) [symmetric] refl] calculation n got 1(5) by simp
      ultimately show ?thesis using n got bs by (subst recv_loop.simps) auto
    next
      case retry
      have "\<exists>s''. recv_loop retry s' n acc = (Some (acc @ take (n - length acc) (stream s')), s'')
        \<and> steady retry s'' \<and> stream s'' = drop (n - length acc) (stream s') \<and> so_out s'' = so_out s' \<and> so_send s'' = so_send s'"
        using 1(2) [OF _ retry(1) [symmetric] refl retry(2)] n retry 1(4,5) by simp
      then show ?thesis using n retry by (subst recv_loop.simps) auto
    qed
  qed (use 1(3) in \<open>subst recv_loop.simps, simp\<close>)
qed

lemma recv_exact_stream:
  "calm s \<Longrightarrow> length acc \<le> n \<Longrightarrow> n \<le> length acc + length (stream s) \<Longrightarrow>
   \<exists>s'. recv_exact s n acc = (Some (acc @ take (n - length acc) (stream s)), s')
     \<and> calm s' \<and> stream s' = drop (n - length acc) (stream s) \<and> so_out s' = so_out s \<and> so_send s' = so_send s"
  unfolding recv_exact_def by (rule recv_loop_stream)

text \<open>The loop never returns more than was asked for, and what it takes is gone from the input.\<close>

lemma recv_loop_Some: "recv_loop retry s n acc = (Some bs, s') \<Longrightarrow> length acc \<le> n \<Longrightarrow> length bs = n \<and> input_size s' \<le> input_size s \<and> (length acc < n \<longrightarrow> input_size s' < input_size s)"
proof (induction retry s n acc arbitrary: bs s' rule: recv_loop.induct)
  case (1 retry s n acc)
  show ?case
  proof (cases "n \<le> length acc")
    case False
    then have n: "0 < n - length acc" by simp
    obtain q s1 where q: "recv s (n - length acc) = (q, s1)" by fastforce
    show ?thesis
    proof (cases q)
      case (Got b)
      note c = recv_consumes(1) [OF n q [unfolded Got]]
      then have "length acc + length b \<le> n" using n by linarith
      then have "length (acc @ b) \<le> n" by simp
      moreover have "recv_loop retry s1 n (acc @ b) = (Some bs, s')" using 1(3) False q Got by (subst (asm) recv_loop.simps) simp
      ultimately show ?thesis using 1(1) [OF False q [symmetric] Got] c by fastforce
    next
      case Failed
      note c = recv_consumes(2) [OF q [unfolded Failed]]
      have "retry (so_errno s1) \<and> recv_loop retry s1 n acc = (Some bs, s')" using 1(3) False q Failed by (subst (asm) recv_loop.simps) (auto split: if_splits)
      then show ?thesis using 1(2) [OF False q [symmetric] Failed] 1(4) c by fastforce
    qed (use 1(3) False q in \<open>subst (asm) recv_loop.simps, simp\<close>)
  qed (use 1(3,4) in \<open>auto simp: recv_loop.simps\<close>)
qed

section \<open>Sending\<close>

definition send :: "sock \<Rightarrow> bytes \<Rightarrow> nat \<times> sock" where
  "send s bs =
     (case so_send s of [] \<Rightarrow> (length bs, s\<lparr>so_out := so_out s @ bs\<rparr>)
      | n # ns \<Rightarrow> (min n (length bs), s\<lparr>so_out := so_out s @ take n bs, so_send := ns\<rparr>))"

text \<open>\<open>send_all\<close>: partial sends are continued, an error ends the loop.\<close>

function send_all :: "sock \<Rightarrow> bytes \<Rightarrow> bool \<times> sock" where
  "send_all s bs =
     (if bs = [] then (True, s)
      else case send s bs of (r, s') \<Rightarrow> if r = 0 then (False, s') else send_all s' (drop r bs))"
  by pat_completeness auto
termination
  by (relation "measure (\<lambda>(s, bs). length bs)") auto

declare send_all.simps [simp del]

lemma send_all_appends:
  "\<exists>n s'. send_all s bs = (n = length bs, s') \<and> n \<le> length bs \<and> so_out s' = so_out s @ take n bs \<and> so_in s' = so_in s \<and> so_errno s' = so_errno s"
proof (induction s bs rule: send_all.induct)
  case (1 s bs)
  show ?case
  proof (cases "bs = []")
    case False
    obtain r s1 where r: "send s bs = (r, s1)" by fastforce
    then have s1: "r \<le> length bs" "so_out s1 = so_out s @ take r bs" "so_in s1 = so_in s" "so_errno s1 = so_errno s"
      by (auto simp: send_def min_def split: list.splits)
    show ?thesis
    proof (cases "r = 0")
      case True
      then show ?thesis using False r s1 by (subst send_all.simps) (intro exI [of _ 0], simp)
    next
      case nz: False
      from 1 [OF False r [symmetric] nz] obtain n s' where
        "send_all s1 (drop r bs) = (n = length (drop r bs), s')" "n \<le> length (drop r bs)"
        "so_out s' = so_out s1 @ take n (drop r bs)" "so_in s' = so_in s1" "so_errno s' = so_errno s1" by blast
      then show ?thesis using False nz r s1
        by (subst send_all.simps) (intro exI [of _ "r + n"], auto simp: take_add)
    qed
  qed (subst send_all.simps, simp)
qed

lemma send_all_True: "send_all s bs = (True, s') \<Longrightarrow> so_out s' = so_out s @ bs \<and> so_in s' = so_in s"
  using send_all_appends [of s bs] by auto

text \<open>Without an error a send takes everything in the end.\<close>

lemma send_all_succeeds: "0 \<notin> set (so_send s) \<Longrightarrow> \<exists>s'. send_all s bs = (True, s') \<and> 0 \<notin> set (so_send s')"
proof (induction s bs rule: send_all.induct)
  case (1 s bs)
  show ?case
  proof (cases "bs = []")
    case False
    obtain r s1 where r: "send s bs = (r, s1)" by fastforce
    then have "r \<noteq> 0" "0 \<notin> set (so_send s1)" using 1(2) False by (auto simp: send_def split: list.splits)
    with 1(1) [OF False r [symmetric]] show ?thesis using False r by (subst send_all.simps) simp
  qed (use 1(2) in \<open>subst send_all.simps, simp\<close>)
qed

lemma send_all_plain: "so_send s = [] \<Longrightarrow> send_all s bs = (True, s\<lparr>so_out := so_out s @ bs\<rparr>)"
  by (subst send_all.simps) (auto simp: send_def send_all.simps)

end
