(* ===== verification/Ptp_Clock.thy ===== *)
theory Ptp_Clock
  imports Prelude
begin

text \<open>
  The passive PTP listener (\<open>main/network/ptp_clock.c\<close>): parsing of SYNC and FOLLOW_UP messages, the
  asymmetric offset filter, lock detection and the filter on the master clock. The tick count
  and the local time are arguments of the functions that read them; the sockets and the task
  that feeds received packets to \<open>process_ptp_message\<close> are not part of the model.
\<close>

section \<open>The model\<close>

definition PTP_HEADER_SIZE :: nat where "PTP_HEADER_SIZE = 34"
definition PTP_TIMESTAMP_SIZE :: nat where "PTP_TIMESTAMP_SIZE = 10"
definition LOCK_THRESHOLD_NS :: int where "LOCK_THRESHOLD_NS = 50000000"
definition MIN_SAMPLES_FOR_LOCK :: u32 where "MIN_SAMPLES_FOR_LOCK = 4"
definition LOCK_STABLE_TIME_MS :: u32 where "LOCK_STABLE_TIME_MS = 250"
definition LOCK_TIMEOUT_MS :: u32 where "LOCK_TIMEOUT_MS = 5000"
definition OUTLIER_THRESHOLD_NS :: int where "OUTLIER_THRESHOLD_NS = 50000000"
definition SMOOTH_POS_STEADY_DIV :: int where "SMOOTH_POS_STEADY_DIV = 16"
definition SMOOTH_NEG_DIV :: int where "SMOOTH_NEG_DIV = 256"
definition SMOOTH_NEG_CLAMP_NS :: int where "SMOOTH_NEG_CLAMP_NS = - 2500000"
definition STARTUP_DURATION_MS :: u32 where "STARTUP_DURATION_MS = 1000"
definition PTP_LONG_PAUSE_THRESHOLD_MS :: u32 where "PTP_LONG_PAUSE_THRESHOLD_MS = 30000"

lemmas ptp_consts = PTP_HEADER_SIZE_def PTP_TIMESTAMP_SIZE_def LOCK_THRESHOLD_NS_def MIN_SAMPLES_FOR_LOCK_def
  LOCK_STABLE_TIME_MS_def LOCK_TIMEOUT_MS_def OUTLIER_THRESHOLD_NS_def SMOOTH_POS_STEADY_DIV_def SMOOTH_NEG_DIV_def
  SMOOTH_NEG_CLAMP_NS_def STARTUP_DURATION_MS_def PTP_LONG_PAUSE_THRESHOLD_MS_def

record ptp =
  locked :: bool
  lock_start_ms :: u32
  lock_candidate_start_ms :: u32
  last_sync_ms :: u32
  filtered_offset_ns :: int
  sample_count :: u32
  previous_offset :: int
  previous_offset_time_ms :: u32
  mastership_start_ms :: u32
  last_sync_seq :: u16
  last_sync_local_ns :: int
  awaiting_followup :: bool
  sync_count :: u32
  followup_count :: u32
  announce_count :: u32
  rejected_master_count :: u32
  outlier_count :: u32
  expected_clock_id :: u64

definition ptp_zero :: ptp where
  "ptp_zero = \<lparr>locked = False, lock_start_ms = 0, lock_candidate_start_ms = 0, last_sync_ms = 0, filtered_offset_ns = 0,
     sample_count = 0, previous_offset = 0, previous_offset_time_ms = 0, mastership_start_ms = 0, last_sync_seq = 0,
     last_sync_local_ns = 0, awaiting_followup = False, sync_count = 0, followup_count = 0, announce_count = 0,
     rejected_master_count = 0, outlier_count = 0, expected_clock_id = 0\<rparr>"

subsection \<open>Parsing\<close>

fun be_bytes :: "bytes \<Rightarrow> nat \<Rightarrow> nat \<Rightarrow> u64 \<Rightarrow> u64 cres" where
  "be_bytes data i 0 v = Done v"
| "be_bytes data i (Suc n) v = cbind (rd data i) (\<lambda>b. be_bytes data (Suc i) n (push_bit 8 v OR ucast b))"

definition parse_ptp_clock_id :: "bytes \<Rightarrow> u64 cres" where
  "parse_ptp_clock_id data = be_bytes data 20 8 0"

definition parse_ptp_timestamp_ns :: "bytes \<Rightarrow> nat \<Rightarrow> u64 cres" where
  "parse_ptp_timestamp_ns data pos =
     cbind (be_bytes data pos 6 0) (\<lambda>seconds.
     cbind (be_bytes data (pos + 6) 4 0) (\<lambda>nanos. Done (seconds * 1000000000 + nanos)))"

text \<open>The correction field at byte 8, in units of \<open>2\<^sup>-\<^sup>1\<^sup>6\<close> nanoseconds, applied to a time stamp.\<close>

definition apply_correction :: "bytes \<Rightarrow> u64 \<Rightarrow> u64 cres" where
  "apply_correction data ptp_time_ns =
     (if length data \<ge> 16 then
        cbind (be_bytes data 8 8 0) (\<lambda>v.
          let correction_field = cdiv (sint v) 65536 in
          Done (of_int (i64 (sint ptp_time_ns + correction_field))))
      else Done ptp_time_ns)"

subsection \<open>The offset filter\<close>

definition update_lock :: "u32 \<Rightarrow> int \<Rightarrow> ptp \<Rightarrow> ptp" where
  "update_lock now_ms dev p =
     (if dev < LOCK_THRESHOLD_NS then
        if \<not> locked p then
          let p = (if lock_candidate_start_ms p = 0 then p\<lparr>lock_candidate_start_ms := now_ms\<rparr> else p) in
          if now_ms - lock_candidate_start_ms p \<ge> LOCK_STABLE_TIME_MS
          then p\<lparr>locked := True, lock_start_ms := now_ms, lock_candidate_start_ms := 0\<rparr> else p
        else p
      else
        let p = p\<lparr>lock_candidate_start_ms := 0\<rparr> in
        if locked p \<and> dev > LOCK_THRESHOLD_NS * 4 then p\<lparr>locked := False, lock_start_ms := 0\<rparr> else p)"

text \<open>The absolute value as the source computes it, on 64 bits.\<close>

definition abs64 :: "int \<Rightarrow> int" where
  "abs64 d = (if d < 0 then i64 (- d) else d)"

definition smooth_jitter :: "ptp \<Rightarrow> u32 \<Rightarrow> int \<Rightarrow> int" where
  "smooth_jitter p now_ms jitter =
     (if jitter \<ge> 0 then
        if now_ms - mastership_start_ms p < STARTUP_DURATION_MS then jitter
        else cdiv jitter SMOOTH_POS_STEADY_DIV
      else cdiv (max jitter SMOOTH_NEG_CLAMP_NS) SMOOTH_NEG_DIV)"

definition accept_offset :: "u32 \<Rightarrow> int \<Rightarrow> int \<Rightarrow> ptp \<Rightarrow> ptp" where
  "accept_offset now_ms new_offset_ns smoothed_offset p =
     (let p = p\<lparr>previous_offset := smoothed_offset, previous_offset_time_ms := now_ms,
                filtered_offset_ns := smoothed_offset\<rparr> in
      if sample_count p \<ge> MIN_SAMPLES_FOR_LOCK
      then update_lock now_ms (abs64 (i64 (new_offset_ns - smoothed_offset))) p else p)"

definition update_offset :: "u32 \<Rightarrow> int \<Rightarrow> ptp \<Rightarrow> ptp" where
  "update_offset now_ms new_offset_ns p =
     (let p = p\<lparr>last_sync_ms := now_ms, sample_count := sample_count p + 1\<rparr> in
      if previous_offset_time_ms p = 0 then
        accept_offset now_ms new_offset_ns new_offset_ns (p\<lparr>mastership_start_ms := now_ms\<rparr>)
      else if abs64 (i64 (new_offset_ns - filtered_offset_ns p)) > OUTLIER_THRESHOLD_NS then
        p\<lparr>outlier_count := outlier_count p + 1\<rparr>
      else
        let jitter = i64 (new_offset_ns - previous_offset p) in
        accept_offset now_ms new_offset_ns (i64 (previous_offset p + smooth_jitter p now_ms jitter)) p)"

subsection \<open>Messages\<close>

definition process_sync :: "u32 \<Rightarrow> int \<Rightarrow> bytes \<Rightarrow> u16 \<Rightarrow> ptp \<Rightarrow> ptp cres" where
  "process_sync now_ms local_ns data seq p =
     (let p = p\<lparr>sync_count := sync_count p + 1, last_sync_seq := seq, last_sync_local_ns := local_ns,
                awaiting_followup := True\<rparr> in
      cbind (rd data 6) (\<lambda>f6.
      cbind (rd data 7) (\<lambda>f7.
        let flags = (push_bit 8 (ucast f6) OR ucast f7 :: u16); two_step = (flags AND 0x0200 \<noteq> 0) in
        if \<not> two_step \<and> length data \<ge> PTP_HEADER_SIZE + PTP_TIMESTAMP_SIZE then
          cbind (parse_ptp_timestamp_ns data PTP_HEADER_SIZE) (\<lambda>t.
          cbind (apply_correction data t) (\<lambda>ptp_time_ns.
            Done ((update_offset now_ms (i64 (sint ptp_time_ns - last_sync_local_ns p)) p)
                    \<lparr>awaiting_followup := False\<rparr>)))
        else Done p)))"

definition process_followup :: "u32 \<Rightarrow> bytes \<Rightarrow> u16 \<Rightarrow> ptp \<Rightarrow> ptp cres" where
  "process_followup now_ms data seq p =
     (if \<not> awaiting_followup p then Done p
      else if seq \<noteq> last_sync_seq p then Done p
      else
        let p = p\<lparr>followup_count := followup_count p + 1, awaiting_followup := False\<rparr> in
        if length data \<ge> PTP_HEADER_SIZE + PTP_TIMESTAMP_SIZE then
          cbind (parse_ptp_timestamp_ns data PTP_HEADER_SIZE) (\<lambda>t.
          cbind (apply_correction data t) (\<lambda>ptp_time_ns.
            Done (update_offset now_ms (i64 (sint ptp_time_ns - last_sync_local_ns p)) p)))
        else Done p)"

datatype ptp_msg = PTP_MSG_SYNC | PTP_MSG_FOLLOW_UP | PTP_MSG_ANNOUNCE | PTP_MSG_OTHER

definition ptp_msg_type :: "u8 \<Rightarrow> ptp_msg" where
  "ptp_msg_type b =
     (let t = b AND 0x0F in
      if t = 0x0 then PTP_MSG_SYNC else if t = 0x8 then PTP_MSG_FOLLOW_UP
      else if t = 0xB then PTP_MSG_ANNOUNCE else PTP_MSG_OTHER)"

definition dispatch_ptp_message :: "u32 \<Rightarrow> int \<Rightarrow> bytes \<Rightarrow> bool \<Rightarrow> ptp_msg \<Rightarrow> u16 \<Rightarrow> ptp \<Rightarrow> ptp cres" where
  "dispatch_ptp_message now_ms local_ns data is_event_port msg seq p =
     (case msg of
        PTP_MSG_SYNC \<Rightarrow> if is_event_port then process_sync now_ms local_ns data seq p else Done p
      | PTP_MSG_FOLLOW_UP \<Rightarrow> if \<not> is_event_port then process_followup now_ms data seq p else Done p
      | PTP_MSG_ANNOUNCE \<Rightarrow> Done (p\<lparr>announce_count := announce_count p + 1\<rparr>)
      | PTP_MSG_OTHER \<Rightarrow> Done p)"

definition process_ptp_message :: "u32 \<Rightarrow> int \<Rightarrow> bytes \<Rightarrow> bool \<Rightarrow> ptp \<Rightarrow> ptp cres" where
  "process_ptp_message now_ms local_ns data is_event_port p =
     (if length data < PTP_HEADER_SIZE then Done p
      else
        cbind (rd data 0) (\<lambda>b0.
        cbind (rd data 30) (\<lambda>s0.
        cbind (rd data 31) (\<lambda>s1.
          let msg = ptp_msg_type b0; seq = (push_bit 8 (ucast s0) OR ucast s1 :: u16) in
          if expected_clock_id p \<noteq> 0 \<and> (msg = PTP_MSG_SYNC \<or> msg = PTP_MSG_FOLLOW_UP) then
            cbind (parse_ptp_clock_id data) (\<lambda>src_clock_id.
              if src_clock_id \<noteq> expected_clock_id p
              then Done (p\<lparr>rejected_master_count := rejected_master_count p + 1\<rparr>)
              else dispatch_ptp_message now_ms local_ns data is_event_port msg seq p)
          else dispatch_ptp_message now_ms local_ns data is_event_port msg seq p))))"

subsection \<open>Control\<close>

definition ptp_clock_clear :: "ptp \<Rightarrow> ptp" where
  "ptp_clock_clear p = p\<lparr>locked := False, lock_start_ms := 0, lock_candidate_start_ms := 0, last_sync_ms := 0,
     filtered_offset_ns := 0, sample_count := 0, previous_offset := 0, previous_offset_time_ms := 0,
     mastership_start_ms := 0, last_sync_seq := 0, last_sync_local_ns := 0, awaiting_followup := False,
     sync_count := 0, followup_count := 0, expected_clock_id := 0\<rparr>"

definition ptp_clock_notify_resume :: "u32 \<Rightarrow> ptp \<Rightarrow> ptp" where
  "ptp_clock_notify_resume pause_duration_ms p =
     (if pause_duration_ms < PTP_LONG_PAUSE_THRESHOLD_MS then p
      else p\<lparr>previous_offset_time_ms := 0, mastership_start_ms := 0\<rparr>)"

definition ptp_clock_is_locked :: "u32 \<Rightarrow> ptp \<Rightarrow> bool \<times> ptp" where
  "ptp_clock_is_locked now_ms p =
     (let p = (if locked p \<and> last_sync_ms p > 0 \<and> now_ms - last_sync_ms p > LOCK_TIMEOUT_MS
               then p\<lparr>locked := False, lock_start_ms := 0, lock_candidate_start_ms := 0\<rparr> else p) in
      (locked p, p))"

definition ptp_clock_get_time_ns :: "int \<Rightarrow> ptp \<Rightarrow> u64" where
  "ptp_clock_get_time_ns local_ns p = of_int (i64 (local_ns + filtered_offset_ns p))"

definition ptp_clock_get_offset_ns :: "ptp \<Rightarrow> int" where
  "ptp_clock_get_offset_ns p = filtered_offset_ns p"

definition ptp_clock_set_master_clock_id :: "u64 \<Rightarrow> ptp \<Rightarrow> ptp" where
  "ptp_clock_set_master_clock_id clock_id p =
     (if clock_id = expected_clock_id p then p
      else p\<lparr>expected_clock_id := clock_id, locked := False, lock_start_ms := 0, lock_candidate_start_ms := 0,
             filtered_offset_ns := 0, sample_count := 0, previous_offset := 0, previous_offset_time_ms := 0,
             awaiting_followup := False\<rparr>)"

definition ptp_clock_get_master_clock_id :: "ptp \<Rightarrow> u64" where
  "ptp_clock_get_master_clock_id p = expected_clock_id p"

record ptp_stats =
  ps_sync_count :: u32
  ps_followup_count :: u32
  ps_last_offset_ns :: int
  ps_filtered_offset_ns :: int
  ps_lock_time_ms :: u32

definition ptp_clock_get_stats :: "u32 \<Rightarrow> ptp \<Rightarrow> ptp_stats" where
  "ptp_clock_get_stats now_ms p =
     \<lparr>ps_sync_count = sync_count p, ps_followup_count = followup_count p, ps_last_offset_ns = previous_offset p,
      ps_filtered_offset_ns = filtered_offset_ns p,
      ps_lock_time_ms = (if locked p \<and> lock_start_ms p > 0 then now_ms - lock_start_ms p else 0)\<rparr>"

section \<open>Message safety\<close>

lemma be_bytes_safe: "i + n \<le> length data \<Longrightarrow> \<exists>v. be_bytes data i n w = Done v"
  by (induction data i n w rule: be_bytes.induct) (auto simp: rd_def)

lemma parse_timestamp_safe: "pos + 10 \<le> length data \<Longrightarrow> \<exists>v. parse_ptp_timestamp_ns data pos = Done v"
  using be_bytes_safe [of pos 6 data 0] be_bytes_safe [of "pos + 6" 4 data 0]
  by (auto simp: parse_ptp_timestamp_ns_def)

lemma apply_correction_safe: "\<exists>v. apply_correction data t = Done v"
  using be_bytes_safe [of 8 8 data 0] by (auto simp: apply_correction_def Let_def)

lemma stamped_update_safe:
  assumes "PTP_HEADER_SIZE + PTP_TIMESTAMP_SIZE \<le> length data"
  obtains t where "parse_ptp_timestamp_ns data PTP_HEADER_SIZE = Done t" and "\<exists>u. apply_correction data t = Done u"
  using parse_timestamp_safe [of PTP_HEADER_SIZE data] apply_correction_safe assms that
  by (auto simp: ptp_consts)

text \<open>What one message does to the clock: nothing, or one accepted offset sample.\<close>

lemma process_sync_cases:
  assumes "PTP_HEADER_SIZE \<le> length data"
  shows "\<exists>p'. process_sync now_ms local_ns data seq p = Done p' \<and>
    (p' = p\<lparr>sync_count := sync_count p + 1, last_sync_seq := seq, last_sync_local_ns := local_ns, awaiting_followup := True\<rparr> \<or>
     (\<exists>off. p' = (update_offset now_ms off (p\<lparr>sync_count := sync_count p + 1, last_sync_seq := seq,
        last_sync_local_ns := local_ns, awaiting_followup := True\<rparr>))\<lparr>awaiting_followup := False\<rparr>))"
proof (cases "PTP_HEADER_SIZE + PTP_TIMESTAMP_SIZE \<le> length data")
  case True
  then obtain t u where "parse_ptp_timestamp_ns data PTP_HEADER_SIZE = Done t" "apply_correction data t = Done u"
    by (blast elim: stamped_update_safe)
  with assms show ?thesis by (auto simp: process_sync_def Let_def rd_def ptp_consts)
next
  case False
  with assms show ?thesis by (auto simp: process_sync_def Let_def rd_def ptp_consts)
qed

lemma process_followup_cases:
  "\<exists>p'. process_followup now_ms data seq p = Done p' \<and>
    (p' = p \<or> p' = p\<lparr>followup_count := followup_count p + 1, awaiting_followup := False\<rparr> \<or>
     (\<exists>off. p' = update_offset now_ms off (p\<lparr>followup_count := followup_count p + 1, awaiting_followup := False\<rparr>)))"
proof (cases "PTP_HEADER_SIZE + PTP_TIMESTAMP_SIZE \<le> length data")
  case True
  then obtain t u where "parse_ptp_timestamp_ns data PTP_HEADER_SIZE = Done t" "apply_correction data t = Done u"
    by (blast elim: stamped_update_safe)
  then show ?thesis by (auto simp: process_followup_def Let_def)
next
  case False
  then show ?thesis by (auto simp: process_followup_def Let_def)
qed

section \<open>The offset filter and the lock\<close>

lemma update_lock_fields [simp]:
  "filtered_offset_ns (update_lock now dev p) = filtered_offset_ns p" "previous_offset (update_lock now dev p) = previous_offset p"
  "expected_clock_id (update_lock now dev p) = expected_clock_id p"
  "previous_offset_time_ms (update_lock now dev p) = previous_offset_time_ms p" "last_sync_ms (update_lock now dev p) = last_sync_ms p"
  by (simp_all add: update_lock_def Let_def)

lemma accept_offset_fields [simp]:
  "filtered_offset_ns (accept_offset now off s p) = s" "previous_offset (accept_offset now off s p) = s"
  "previous_offset_time_ms (accept_offset now off s p) = now" "last_sync_ms (accept_offset now off s p) = last_sync_ms p"
  "expected_clock_id (accept_offset now off s p) = expected_clock_id p"
  by (simp_all add: accept_offset_def Let_def)

definition filter_inv :: "ptp \<Rightarrow> bool" where
  "filter_inv p \<longleftrightarrow> previous_offset p = filtered_offset_ns p"

lemma filter_inv_updates [simp]:
  "filter_inv (p\<lparr>sync_count := n\<rparr>) = filter_inv p" "filter_inv (p\<lparr>last_sync_seq := s\<rparr>) = filter_inv p"
  "filter_inv (p\<lparr>last_sync_local_ns := t\<rparr>) = filter_inv p" "filter_inv (p\<lparr>awaiting_followup := a\<rparr>) = filter_inv p"
  "filter_inv (p\<lparr>followup_count := n\<rparr>) = filter_inv p" "filter_inv (p\<lparr>announce_count := n\<rparr>) = filter_inv p"
  "filter_inv (p\<lparr>rejected_master_count := n\<rparr>) = filter_inv p"
  by (simp_all add: filter_inv_def)

lemma update_offset_inv: "filter_inv p \<Longrightarrow> filter_inv (update_offset now off p)"
  by (simp add: update_offset_def filter_inv_def Let_def)

lemma ptp_sync_inv: "PTP_HEADER_SIZE \<le> length data \<Longrightarrow> filter_inv p \<Longrightarrow> outcome filter_inv (process_sync now_ms local_ns data seq p)"
  using process_sync_cases [of data now_ms local_ns seq p] by (auto intro!: update_offset_inv)

lemma ptp_followup_inv: "filter_inv p \<Longrightarrow> outcome filter_inv (process_followup now_ms data seq p)"
  using process_followup_cases [of now_ms data seq p] by (auto intro!: update_offset_inv)

lemma ptp_message_inv:
  assumes "filter_inv p"
  shows "outcome filter_inv (process_ptp_message now_ms local_ns data port p)"
proof (cases "length data < PTP_HEADER_SIZE")
  case True
  with assms show ?thesis by (simp add: process_ptp_message_def)
next
  case False
  then have len: "PTP_HEADER_SIZE \<le> length data" by simp
  have disp: "outcome filter_inv (dispatch_ptp_message now_ms local_ns data port msg seq p)" for msg seq
    using assms ptp_sync_inv [OF len] ptp_followup_inv by (cases msg) (simp_all add: dispatch_ptp_message_def)
  obtain src where "parse_ptp_clock_id data = Done src"
    using be_bytes_safe [of 20 8 data 0] len by (auto simp: parse_ptp_clock_id_def ptp_consts)
  moreover have "data \<noteq> []" using len by (auto simp: ptp_consts)
  ultimately show ?thesis
    using len disp assms by (simp add: process_ptp_message_def Let_def rd_def ptp_consts)
qed

text \<open>
  The reachable states of the clock: any packets on either port, and any sequence of control calls.
\<close>

inductive ptp_run :: "ptp \<Rightarrow> bool" where
  init: "ptp_run ptp_zero"
| message: "ptp_run p \<Longrightarrow> process_ptp_message now_ms local_ns data port p = Done p' \<Longrightarrow> ptp_run p'"
| clear: "ptp_run p \<Longrightarrow> ptp_run (ptp_clock_clear p)"
| resume: "ptp_run p \<Longrightarrow> ptp_run (ptp_clock_notify_resume pause p)"
| query: "ptp_run p \<Longrightarrow> ptp_run (snd (ptp_clock_is_locked now_ms p))"
| set_master: "ptp_run p \<Longrightarrow> ptp_run (ptp_clock_set_master_clock_id clock_id p)"

lemma ptp_run_inv: "ptp_run p \<Longrightarrow> filter_inv p"
proof (induction rule: ptp_run.induct)
  case init
  show ?case by (simp add: filter_inv_def ptp_zero_def)
next
  case (message p now_ms local_ns data port p')
  from outcome_Done [OF ptp_message_inv [OF message.IH] message.hyps(2)] show ?case .
next
  case (clear p)
  then show ?case by (simp add: filter_inv_def ptp_clock_clear_def)
next
  case (resume p pause)
  then show ?case by (simp add: filter_inv_def ptp_clock_notify_resume_def)
next
  case (query p now_ms)
  then show ?case by (simp add: filter_inv_def ptp_clock_is_locked_def Let_def)
next
  case (set_master p clock_id)
  then show ?case by (simp add: filter_inv_def ptp_clock_set_master_clock_id_def)
qed

definition sane :: "int \<Rightarrow> bool" where
  "sane x \<longleftrightarrow> \<bar>x\<bar> \<le> 2 ^ 61"

lemma abs64_sane: "sane x \<Longrightarrow> sane y \<Longrightarrow> abs64 (i64 (x - y)) = \<bar>x - y\<bar>"
  by (auto simp: sane_def abs64_def)

lemma smooth_jitter_bounds:
  "0 \<le> j \<Longrightarrow> 0 \<le> smooth_jitter p now j \<and> smooth_jitter p now j \<le> j"
  "j < 0 \<Longrightarrow> j \<le> smooth_jitter p now j \<and> smooth_jitter p now j \<le> 0 \<and> - 9765 \<le> smooth_jitter p now j"
proof -
  show "0 \<le> smooth_jitter p now j \<and> smooth_jitter p now j \<le> j" if "0 \<le> j"
    using that zdiv_mono2 [of j 1 16] by (auto simp: smooth_jitter_def ptp_consts pos_imp_zdiv_nonneg_iff)
  assume neg: "j < 0"
  define c where "c = - max j (- 2500000)"
  have c: "0 < c" "c \<le> - j" "c \<le> 2500000" using neg by (auto simp: c_def)
  have "cdiv (max j (- 2500000)) 256 = - (c div 256)"
    using c(1) by (auto simp: cdiv_def c_def sgn_if max_def)
  moreover have "0 \<le> c div 256" "c div 256 \<le> c" "c div 256 \<le> 9765"
    using c zdiv_mono1 [OF c(3), of 256] by (auto simp: pos_imp_zdiv_nonneg_iff)
  ultimately show "j \<le> smooth_jitter p now j \<and> smooth_jitter p now j \<le> 0 \<and> - 9765 \<le> smooth_jitter p now j"
    using neg c(2) by (simp add: smooth_jitter_def ptp_consts)
qed

text \<open>
  C10. The offset filter is a bounded, asymmetric average. In every reachable state, a sample within
  50 ms of the current offset moves the offset towards the sample and never beyond it, and a
  sample below it lowers it by at most 9765 ns, while a sample further than 50 ms away leaves
  offset and lock as they are; the first sample after a reset is taken over as it is.
  (Offsets up to \<open>2\<^sup>6\<^sup>1\<close> ns, 73 years, so that no 64-bit difference overflows.)
\<close>

theorem ptp_filter_bounded:
  assumes "ptp_run p" "sane off" "sane (filtered_offset_ns p)"
  shows "let p' = update_offset now_ms off p; old = filtered_offset_ns p; new = filtered_offset_ns p' in
     if previous_offset_time_ms p = 0 then new = off
     else if \<bar>off - old\<bar> > 50000000 then new = old \<and> locked p' = locked p
     else if old \<le> off then old \<le> new \<and> new \<le> off
     else off \<le> new \<and> new \<le> old \<and> old - new \<le> 9765"
proof -
  have prev: "previous_offset p = filtered_offset_ns p" using ptp_run_inv [OF assms(1)] by (simp add: filter_inv_def)
  let ?q = "p\<lparr>last_sync_ms := now_ms, sample_count := sample_count p + 1\<rparr>"
  have outl: "abs64 (i64 (off - filtered_offset_ns p)) = \<bar>off - filtered_offset_ns p\<bar>" by (rule abs64_sane [OF assms(2,3)])
  have j: "i64 (off - filtered_offset_ns p) = off - filtered_offset_ns p" using assms(2,3) by (simp add: sane_def)
  note b = smooth_jitter_bounds [of "off - filtered_offset_ns p" ?q now_ms]
  have "i64 (filtered_offset_ns p + smooth_jitter ?q now_ms (off - filtered_offset_ns p))
      = filtered_offset_ns p + smooth_jitter ?q now_ms (off - filtered_offset_ns p)"
    using b assms(2,3) by (intro i64_small; cases "0 \<le> off - filtered_offset_ns p") (auto simp: sane_def)
  then show ?thesis
    using b j prev outl
    by (auto simp: update_offset_def Let_def OUTLIER_THRESHOLD_NS_def)
qed

theorem ptp_filter_bounded_witness:
  "filtered_offset_ns (update_offset 100 40000000 (ptp_zero\<lparr>previous_offset_time_ms := 0\<rparr>)) = 40000000"
  using ptp_filter_bounded [OF ptp_run.init, of 40000000 100] by (simp add: sane_def ptp_zero_def Let_def)

text \<open>
  PTP packets are handled safely and the pinned master is the only one listened to: no packet,
  whatever its length and content, is read out of bounds, and while a master is set a SYNC or FOLLOW_UP
  from another clock changes nothing but the counter of rejected messages.
\<close>

theorem ptp_message_safe_and_filtered:
  "(\<exists>p'. process_ptp_message now_ms local_ns data port p = Done p') \<and>
   (\<forall>src p'. expected_clock_id p \<noteq> 0 \<and> parse_ptp_clock_id data = Done src \<and> src \<noteq> expected_clock_id p
      \<and> process_ptp_message now_ms local_ns data port p = Done p' \<longrightarrow>
      p'\<lparr>rejected_master_count := 0, announce_count := 0\<rparr> = p\<lparr>rejected_master_count := 0, announce_count := 0\<rparr>)"
proof (cases "length data < PTP_HEADER_SIZE")
  case True
  then show ?thesis unfolding process_ptp_message_def by auto
next
  case False
  then have len: "PTP_HEADER_SIZE \<le> length data" by simp
  have disp: "\<exists>p'. dispatch_ptp_message now_ms local_ns data port msg seq p = Done p'" for msg seq
    using process_sync_cases [OF len, of now_ms local_ns seq p] process_followup_cases [of now_ms data seq p]
    by (cases msg) (auto simp: dispatch_ptp_message_def)
  obtain src where src: "parse_ptp_clock_id data = Done src"
    using be_bytes_safe [of 20 8 data 0] len by (auto simp: parse_ptp_clock_id_def ptp_consts)
  have ne: "data \<noteq> []" using len by (auto simp: ptp_consts)
  define msg where "msg = ptp_msg_type (data ! 0)"
  define seq where "seq = (push_bit 8 (ucast (data ! 30)) OR ucast (data ! 31) :: u16)"
  have run: "process_ptp_message now_ms local_ns data port p =
      (if expected_clock_id p \<noteq> 0 \<and> (msg = PTP_MSG_SYNC \<or> msg = PTP_MSG_FOLLOW_UP) \<and> src \<noteq> expected_clock_id p
       then Done (p\<lparr>rejected_master_count := rejected_master_count p + 1\<rparr>)
       else dispatch_ptp_message now_ms local_ns data port msg seq p)"
    using len ne src by (simp add: process_ptp_message_def Let_def rd_def ptp_consts msg_def seq_def)
  show ?thesis
    unfolding run using disp [of msg seq] src by (cases msg) (auto simp: dispatch_ptp_message_def)
qed

theorem ptp_message_safe_and_filtered_witness:
  "\<exists>p'. process_ptp_message 1 1 (replicate 44 0) True (ptp_zero\<lparr>expected_clock_id := 7\<rparr>) = Done p'
     \<and> filtered_offset_ns p' = 0 \<and> sample_count p' = 0 \<and> \<not> awaiting_followup p'"
proof -
  have "parse_ptp_clock_id (replicate 44 0) = Done 0"
    by (simp add: parse_ptp_clock_id_def rd_def numeral_eq_Suc)
  moreover obtain p' where p': "process_ptp_message 1 1 (replicate 44 0) True (ptp_zero\<lparr>expected_clock_id := 7\<rparr>) = Done p'"
    using ptp_message_safe_and_filtered by blast
  ultimately have "p'\<lparr>rejected_master_count := 0, announce_count := 0\<rparr>
      = ptp_zero\<lparr>expected_clock_id := 7, rejected_master_count := 0, announce_count := 0\<rparr>"
    using ptp_message_safe_and_filtered [of 1 1 "replicate 44 0" True "ptp_zero\<lparr>expected_clock_id := 7\<rparr>"] by auto
  from arg_cong [OF this, of filtered_offset_ns] arg_cong [OF this, of sample_count] arg_cong [OF this, of awaiting_followup] p'
  show ?thesis by (simp add: ptp_zero_def)
qed

lemma outlier_update:
  "previous_offset_time_ms p \<noteq> 0 \<Longrightarrow> OUTLIER_THRESHOLD_NS < abs64 (i64 (off - filtered_offset_ns p)) \<Longrightarrow>
     update_offset now off p = p\<lparr>last_sync_ms := now, sample_count := sample_count p + 1, outlier_count := outlier_count p + 1\<rparr>"
  by (simp add: update_offset_def)

text \<open>
  Outliers keep a stale lock alive. \<open>update_offset\<close> refreshes the time of the last SYNC before it
  rejects an outlier, so after a step of the master's clock by more than 50 ms every further sample is
  rejected, the offset stays at the old value and, as long as SYNC messages keep coming, the
  lock never times out.
\<close>

theorem outliers_keep_stale_lock:
  assumes "locked p" "previous_offset_time_ms p \<noteq> 0" "samples \<noteq> []"
    and "\<forall>(now_ms, off) \<in> set samples. OUTLIER_THRESHOLD_NS < abs64 (i64 (off - filtered_offset_ns p))"
    and "now_ms - fst (last samples) \<le> LOCK_TIMEOUT_MS"
  shows "let p' = fold (\<lambda>(now_ms, off). update_offset now_ms off) samples p in
     filtered_offset_ns p' = filtered_offset_ns p \<and> fst (ptp_clock_is_locked now_ms p')"
proof -
  have "locked p' \<and> filtered_offset_ns p' = filtered_offset_ns p \<and> previous_offset_time_ms p' \<noteq> 0
      \<and> (xs \<noteq> [] \<longrightarrow> last_sync_ms p' = fst (last xs))"
    if "p' = fold (\<lambda>(now_ms, off). update_offset now_ms off) xs p"
      "\<forall>(now_ms, off) \<in> set xs. OUTLIER_THRESHOLD_NS < abs64 (i64 (off - filtered_offset_ns p))" for xs p'
    using that
  proof (induction xs arbitrary: p' rule: rev_induct)
    case (snoc x xs)
    obtain now off where x: "x = (now, off)" by (cases x)
    define q where "q = fold (\<lambda>(now_ms, off). update_offset now_ms off) xs p"
    have "locked q" "filtered_offset_ns q = filtered_offset_ns p" "previous_offset_time_ms q \<noteq> 0"
      using snoc.IH [OF q_def] snoc.prems(2) by auto
    with snoc.prems x outlier_update [of q off now] show ?case by (simp add: q_def [symmetric])
  qed (use assms(1,2) in simp)
  from this [OF refl assms(4)] assms(3,5) show ?thesis
    by (auto simp: ptp_clock_is_locked_def Let_def not_less)
qed

theorem outliers_keep_stale_lock_witness:
  "let p = ptp_zero\<lparr>locked := True, previous_offset_time_ms := 1\<rparr>;
       p' = fold (\<lambda>(now_ms, off). update_offset now_ms off) [(1000, 90000000), (2000, 90000000)] p in
   filtered_offset_ns p' = 0 \<and> fst (ptp_clock_is_locked 3000 p')"
  using outliers_keep_stale_lock [of "ptp_zero\<lparr>locked := True, previous_offset_time_ms := 1\<rparr>"
      "[(1000, 90000000), (2000, 90000000)]" 3000]
  by (simp add: ptp_zero_def abs64_def ptp_consts Let_def)

text \<open>
  A sample alone never ends a lock: for offsets in range the deviation the lock detector sees is at
  most 50 ms, while it only gives the lock up beyond 200 ms. In every reachable state a locked clock
  is still locked after any sample, so a lock ends only by the five-second timeout, by \<open>ptp_clock_clear\<close>
  or by a change of the master.
\<close>

theorem sample_never_unlocks:
  assumes "ptp_run p" "sane off" "sane (filtered_offset_ns p)" "locked p"
  shows "locked (update_offset now_ms off p)"
proof -
  have prev: "previous_offset p = filtered_offset_ns p" using ptp_run_inv [OF assms(1)] by (simp add: filter_inv_def)
  let ?q = "p\<lparr>last_sync_ms := now_ms, sample_count := sample_count p + 1\<rparr>"
  let ?s = "filtered_offset_ns p + smooth_jitter ?q now_ms (off - filtered_offset_ns p)"
  have keep: "locked (accept_offset now_ms off s q)" if "locked q" "abs64 (i64 (off - s)) \<le> 200000000" for s q
    using that by (auto simp: accept_offset_def update_lock_def Let_def ptp_consts)
  have outl: "abs64 (i64 (off - filtered_offset_ns p)) = \<bar>off - filtered_offset_ns p\<bar>" by (rule abs64_sane [OF assms(2,3)])
  have j: "i64 (off - filtered_offset_ns p) = off - filtered_offset_ns p" using assms(2,3) by (simp add: sane_def)
  note b = smooth_jitter_bounds [of "off - filtered_offset_ns p" ?q now_ms]
  have s: "i64 ?s = ?s" "\<bar>off - ?s\<bar> \<le> \<bar>off - filtered_offset_ns p\<bar>"
    using b assms(2,3) by (cases "0 \<le> off - filtered_offset_ns p"; auto simp: sane_def)+
  have dev: "abs64 (i64 (off - ?s)) = \<bar>off - ?s\<bar>" if "\<bar>off - filtered_offset_ns p\<bar> \<le> 50000000"
    using that s(2) by (auto simp: abs64_def)
  have "locked (accept_offset now_ms off (i64 ?s) ?q)" if "\<not> \<bar>off - filtered_offset_ns p\<bar> > 50000000"
    using that dev s assms(4) by (intro keep) auto
  moreover have "locked (accept_offset now_ms off off (?q\<lparr>mastership_start_ms := now_ms\<rparr>))"
    using assms(4) by (intro keep) (simp_all add: abs64_def)
  ultimately show ?thesis
    using assms(4) outl j prev by (auto simp: update_offset_def Let_def OUTLIER_THRESHOLD_NS_def)
qed

text \<open>A locked clock: five samples, the last two of them 300 ms apart.\<close>

lemma zero_sample_message:
  "process_ptp_message now_ms 0 (replicate 44 0) True p
     = Done ((update_offset now_ms 0 (p\<lparr>sync_count := sync_count p + 1, last_sync_seq := 0, last_sync_local_ns := 0,
               awaiting_followup := True\<rparr>))\<lparr>awaiting_followup := False\<rparr>)" if "expected_clock_id p = 0"
proof -
  have "be_bytes (replicate 44 0) i n 0 = Done 0" if "i + n \<le> 44" for i n
    using that by (induction n arbitrary: i) (simp_all add: rd_def)
  then show ?thesis
    using that by (simp add: process_ptp_message_def dispatch_ptp_message_def process_sync_def ptp_msg_type_def Let_def rd_def
        ptp_consts parse_ptp_timestamp_ns_def apply_correction_def cdiv_def)
qed

definition zero_sample :: "u32 \<Rightarrow> ptp \<Rightarrow> ptp" where
  "zero_sample now_ms p = (update_offset now_ms 0 (p\<lparr>sync_count := sync_count p + 1, last_sync_seq := 0, last_sync_local_ns := 0,
     awaiting_followup := True\<rparr>))\<lparr>awaiting_followup := False\<rparr>"

definition tracking :: "u32 \<Rightarrow> u32 \<Rightarrow> u32 \<Rightarrow> ptp" where
  "tracking n now cand = ptp_zero\<lparr>last_sync_ms := now, sample_count := n, mastership_start_ms := 100,
     previous_offset_time_ms := now, sync_count := n, lock_candidate_start_ms := cand\<rparr>"

lemmas zero_sample_eval = zero_sample_def tracking_def ptp_zero_def update_offset_def accept_offset_def update_lock_def
  Let_def ptp_consts abs64_def smooth_jitter_def

lemma tracking_steps:
  "zero_sample 100 ptp_zero = tracking 1 100 0" "zero_sample 200 (tracking 1 100 0) = tracking 2 200 0"
  "zero_sample 300 (tracking 2 200 0) = tracking 3 300 0" "zero_sample 400 (tracking 3 300 0) = tracking 4 400 400"
  "locked (zero_sample 700 (tracking 4 400 400))" "filtered_offset_ns (zero_sample 700 (tracking 4 400 400)) = 0"
proof -
  have "\<not> 4 \<le> (1 :: u32)" by (simp add: word_le_nat_alt)
  then show "zero_sample 100 ptp_zero = tracking 1 100 0" "zero_sample 200 (tracking 1 100 0) = tracking 2 200 0"
    "zero_sample 300 (tracking 2 200 0) = tracking 3 300 0" "zero_sample 400 (tracking 3 300 0) = tracking 4 400 400"
    "locked (zero_sample 700 (tracking 4 400 400))" "filtered_offset_ns (zero_sample 700 (tracking 4 400 400)) = 0"
    by (simp_all add: zero_sample_eval)
qed

theorem sample_never_unlocks_witness:
  "\<exists>p. ptp_run p \<and> locked p \<and> locked (update_offset 2000 45000000 p)"
proof -
  have step: "ptp_run (zero_sample now p)" if "ptp_run p" "expected_clock_id p = 0" for now p
    using that zero_sample_message [of p now] by (auto intro: ptp_run.message simp: zero_sample_def)
  have "expected_clock_id ptp_zero = 0" "expected_clock_id (tracking n now cand) = 0" for n now cand
    by (simp_all add: tracking_def ptp_zero_def)
  then have run: "ptp_run (zero_sample 700 (tracking 4 400 400))"
    using step ptp_run.init tracking_steps(1-4) by metis
  with sample_never_unlocks [OF run, of 45000000 2000] tracking_steps(5,6) show ?thesis by (auto simp: sane_def)
qed

end
