(* ===== verification/Rtsp_Conn.thy ===== *)
theory Rtsp_Conn
  imports Hap_Session Socket Ptp_Clock
begin

text \<open>
  The state of an RTSP connection (\<open>main/rtsp/rtsp_conn.h\<close>, \<open>main/rtsp/rtsp_conn.c\<close>). The volume of the
  connection is in the theory \<open>Rtsp_Volume\<close>; \<open>NULL\<close> for the HomeKit session is \<open>None\<close>, a
  closed socket is \<open>-1\<close>.
\<close>

record rtsp_conn =
  cn_hap_session :: "hap_session option"
  cn_encrypted_mode :: bool
  cn_stream_active :: bool
  cn_stream_paused :: bool
  cn_stream_type :: int
  cn_data_port :: u16
  cn_control_port :: u16
  cn_timing_port :: u16
  cn_event_port :: u16
  cn_buffered_port :: u16
  cn_data_socket :: int
  cn_control_socket :: int
  cn_event_socket :: int
  cn_client_ip :: u32
  cn_client_timing_port :: u16
  cn_client_control_port :: u16
  cn_codec :: bytes
  cn_sample_rate :: int
  cn_channels :: int
  cn_bits_per_sample :: int
  cn_dacp_id :: bytes
  cn_active_remote :: bytes

definition rtsp_conn_create :: rtsp_conn where
  "rtsp_conn_create = \<lparr>cn_hap_session = None, cn_encrypted_mode = False, cn_stream_active = False, cn_stream_paused = False,
     cn_stream_type = 0, cn_data_port = 0, cn_control_port = 0, cn_timing_port = 0, cn_event_port = 0, cn_buffered_port = 0,
     cn_data_socket = -1, cn_control_socket = -1, cn_event_socket = -1, cn_client_ip = 0, cn_client_timing_port = 0,
     cn_client_control_port = 0, cn_codec = [], cn_sample_rate = 0, cn_channels = 0, cn_bits_per_sample = 0,
     cn_dacp_id = [], cn_active_remote = []\<rparr>"

definition rtsp_conn_reset_stream :: "rtsp_conn \<Rightarrow> rtsp_conn" where
  "rtsp_conn_reset_stream c = c\<lparr>cn_stream_active := False, cn_stream_paused := True\<rparr>"

text \<open>The sockets that are open get closed; the list is theirs. The PTP clock forgets its master.\<close>

definition rtsp_conn_cleanup :: "rtsp_conn \<Rightarrow> ptp \<Rightarrow> int list \<times> rtsp_conn \<times> ptp" where
  "rtsp_conn_cleanup c p =
     (filter (\<lambda>fd. 0 \<le> fd) [cn_data_socket c, cn_control_socket c, cn_event_socket c],
      c\<lparr>cn_data_socket := (if 0 \<le> cn_data_socket c then -1 else cn_data_socket c),
        cn_control_socket := (if 0 \<le> cn_control_socket c then -1 else cn_control_socket c),
        cn_event_socket := (if 0 \<le> cn_event_socket c then -1 else cn_event_socket c),
        cn_stream_active := False, cn_stream_paused := False, cn_data_port := 0, cn_control_port := 0, cn_timing_port := 0,
        cn_event_port := 0, cn_buffered_port := 0, cn_encrypted_mode := False\<rparr>,
      ptp_clock_clear p)"

text \<open>A second cleanup closes nothing: the server runs it twice when a client goes.\<close>

lemma cleanup_idempotent:
  assumes "rtsp_conn_cleanup c p = (fds, c', p')"
  shows "fst (rtsp_conn_cleanup c' p') = []"
  using assms by (auto simp: rtsp_conn_cleanup_def split: if_splits)

end
