(* ===== verification/Rtsp_Crypto.thy ===== *)
theory Rtsp_Crypto
  imports Rtsp_Conn
begin

text \<open>
  The encrypted framing of the RTSP connection (\<open>main/rtsp/rtsp_crypto.c\<close>): blocks of at most 1024 bytes,
  each preceded by its length and sealed with ChaCha20-Poly1305 under a counter nonce.
\<close>

section \<open>The model\<close>

definition RTSP_ENCRYPTED_BLOCK_MAX :: nat where "RTSP_ENCRYPTED_BLOCK_MAX = 1024"

definition block_len_of :: "bytes \<Rightarrow> nat" where
  "block_len_of len_buf = unat (len_buf ! 0) + 256 * unat (len_buf ! 1)"

text \<open>\<open>mem n\<close> tells whether an allocation of \<open>n\<close> bytes succeeds; \<open>None\<close> is the result \<open>-1\<close>.\<close>

definition rtsp_crypto_read_block ::
    "crypto_lib \<Rightarrow> (nat \<Rightarrow> bool) \<Rightarrow> sock \<Rightarrow> rtsp_conn \<Rightarrow> nat \<Rightarrow> bytes option \<times> sock \<times> rtsp_conn" where
  "rtsp_crypto_read_block L mem s conn buffer_size =
     (case cn_hap_session conn of
        None \<Rightarrow> (None, s, conn)
      | Some h \<Rightarrow>
          if \<not> cn_encrypted_mode conn then (None, s, conn)
          else
            case recv_exact s 2 [] of
              (None, s) \<Rightarrow> (None, s, conn)
            | (Some len_buf, s) \<Rightarrow>
                let block_len = block_len_of len_buf in
                if block_len = 0 \<or> block_len > RTSP_ENCRYPTED_BLOCK_MAX \<or> block_len > buffer_size then (None, s, conn)
                else if \<not> mem (block_len + 16) then (None, s, conn)
                else
                  case recv_exact s (block_len + 16) [] of
                    (None, s) \<Rightarrow> (None, s, conn)
                  | (Some encrypted, s) \<Rightarrow>
                      case cl_open L (decrypt_key h) (counter_nonce (decrypt_nonce h)) len_buf encrypted of
                        None \<Rightarrow> (None, s, conn)
                      | Some plaintext \<Rightarrow>
                          (Some plaintext, s, conn\<lparr>cn_hap_session := Some (h\<lparr>decrypt_nonce := decrypt_nonce h + 1\<rparr>)\<rparr>))"

definition len_header :: "nat \<Rightarrow> bytes" where
  "len_header n = (let block_len = (of_nat n :: u16) in [ucast (block_len AND 0xFF), ucast (drop_bit 8 block_len AND 0xFF)])"

function write_blocks :: "crypto_lib \<Rightarrow> (nat \<Rightarrow> bool) \<Rightarrow> sock \<Rightarrow> hap_session \<Rightarrow> bytes \<Rightarrow> bool \<times> sock \<times> hap_session" where
  "write_blocks L mem s h data =
     (if data = [] then (True, s, h)
      else
        let block_len = min (length data) RTSP_ENCRYPTED_BLOCK_MAX;
            len_buf = len_header block_len;
            encrypted = cl_seal L (encrypt_key h) (counter_nonce (encrypt_nonce h)) len_buf (take block_len data) in
        if \<not> mem (block_len + 16) \<or> length encrypted \<noteq> block_len + 16 then (False, s, h)
        else
          case send_all s len_buf of
            (False, s) \<Rightarrow> (False, s, h)
          | (True, s) \<Rightarrow>
              case send_all s encrypted of
                (False, s) \<Rightarrow> (False, s, h)
              | (True, s) \<Rightarrow> write_blocks L mem s (h\<lparr>encrypt_nonce := encrypt_nonce h + 1\<rparr>) (drop block_len data))"
  by pat_completeness auto
termination
  by (relation "measure (\<lambda>(L, mem, s, h, data). length data)") (auto simp: RTSP_ENCRYPTED_BLOCK_MAX_def)

declare write_blocks.simps [simp del]

definition rtsp_crypto_write_frame :: "crypto_lib \<Rightarrow> (nat \<Rightarrow> bool) \<Rightarrow> sock \<Rightarrow> rtsp_conn \<Rightarrow> bytes \<Rightarrow> bool \<times> sock \<times> rtsp_conn" where
  "rtsp_crypto_write_frame L mem s conn data =
     (case cn_hap_session conn of
        None \<Rightarrow> (False, s, conn)
      | Some h \<Rightarrow>
          if \<not> cn_encrypted_mode conn then (False, s, conn)
          else case write_blocks L mem s h data of (ok, s, h) \<Rightarrow> (ok, s, conn\<lparr>cn_hap_session := Some h\<rparr>))"

section \<open>The encrypted channel\<close>

text \<open>What goes over the wire for a message.\<close>

function wire :: "crypto_lib \<Rightarrow> bytes \<Rightarrow> u64 \<Rightarrow> bytes \<Rightarrow> bytes" where
  "wire L k n data =
     (if data = [] then []
      else
        let len_buf = len_header (min (length data) 1024) in
        len_buf @ cl_seal L k (counter_nonce n) len_buf (take 1024 data) @ wire L k (n + 1) (drop 1024 data))"
  by pat_completeness auto
termination
  by (relation "measure (\<lambda>(L, k, n, data). length data)") auto

declare wire.simps [simp del]

lemma len_header_length [simp]: "length (len_header n) = 2"
  by (simp add: len_header_def Let_def)

lemma len_header_value: "n \<le> 1024 \<Longrightarrow> block_len_of (len_header n) = n"
proof -
  assume n: "n \<le> 1024"
  then have "unat (of_nat n :: u16) = n" by (simp add: unat_of_nat)
  moreover have "(ucast (w AND 0xFF :: u16) :: u8) = ucast w" for w by (rule ucast_and_255)
  ultimately have "block_len_of (len_header n) = n mod 256 + 256 * (n div 256 mod 256)"
    by (simp add: block_len_of_def len_header_def Let_def unsigned_ucast_eq unat_div drop_bit_eq_div take_bit_eq_mod)
  moreover have "n div 256 mod 256 = n div 256" using n by simp
  ultimately show ?thesis by simp
qed

lemma write_blocks_step:
  assumes "write_blocks L mem s h data = (True, s', h')" "data \<noteq> []"
  obtains s2 where "write_blocks L mem s2 (h\<lparr>encrypt_nonce := encrypt_nonce h + 1\<rparr>) (drop 1024 data) = (True, s', h')"
    "so_out s2 = so_out s @ len_header (min (length data) 1024)
      @ cl_seal L (encrypt_key h) (counter_nonce (encrypt_nonce h)) (len_header (min (length data) 1024)) (take 1024 data)"
proof -
  let ?n = "min (length data) 1024"
  let ?lb = "len_header ?n" and ?enc = "cl_seal L (encrypt_key h) (counter_nonce (encrypt_nonce h)) (len_header ?n) (take ?n data)"
  obtain s1 s2 where s1: "send_all s ?lb = (True, s1)" and s2: "send_all s1 ?enc = (True, s2)"
    and rest: "write_blocks L mem s2 (h\<lparr>encrypt_nonce := encrypt_nonce h + 1\<rparr>) (drop ?n data) = (True, s', h')"
    using assms by (subst (asm) write_blocks.simps)
      (auto simp: Let_def RTSP_ENCRYPTED_BLOCK_MAX_def split: prod.splits bool.splits if_splits)
  have "take ?n data = take 1024 data" "drop ?n data = drop 1024 data" by (simp_all add: min_def)
  then show ?thesis using that [of s2] rest send_all_True [OF s1] send_all_True [OF s2] by simp
qed

lemma write_blocks_wire:
  assumes "write_blocks L mem s h data = (True, s', h')"
  shows "so_out s' = so_out s @ wire L (encrypt_key h) (encrypt_nonce h) data
    \<and> h' = h\<lparr>encrypt_nonce := encrypt_nonce h + of_nat ((length data + 1023) div 1024)\<rparr>"
  using assms
proof (induction data arbitrary: s h rule: length_induct)
  case (1 data)
  show ?case
  proof (cases "data = []")
    case True
    then show ?thesis using 1(2) by (simp add: write_blocks.simps wire.simps)
  next
    case False
    then obtain s2 where s2: "write_blocks L mem s2 (h\<lparr>encrypt_nonce := encrypt_nonce h + 1\<rparr>) (drop 1024 data) = (True, s', h')"
      "so_out s2 = so_out s @ len_header (min (length data) 1024)
        @ cl_seal L (encrypt_key h) (counter_nonce (encrypt_nonce h)) (len_header (min (length data) 1024)) (take 1024 data)"
      by (rule write_blocks_step [OF 1(2)])
    have IH: "so_out s' = so_out s2 @ wire L (encrypt_key h) (encrypt_nonce h + 1) (drop 1024 data)
      \<and> h' = h\<lparr>encrypt_nonce := encrypt_nonce h + 1 + of_nat ((length (drop 1024 data) + 1023) div 1024)\<rparr>"
      using 1(1) [rule_format, of "drop 1024 data", OF _ s2(1)] False by simp
    have "(length data + 1023) div 1024 = Suc ((length (drop 1024 data) + 1023) div 1024)"
      using False by (cases "length data \<le> 1024") (auto simp: Suc_le_eq intro!: div_nat_eqI)
    then show ?thesis using False IH s2(2) by (subst wire.simps) (simp add: Let_def)
  qed
qed

text \<open>The other end reads a number of blocks.\<close>

fun read_blocks :: "crypto_lib \<Rightarrow> sock \<Rightarrow> rtsp_conn \<Rightarrow> nat \<Rightarrow> bytes list option \<times> sock \<times> rtsp_conn" where
  "read_blocks L s conn 0 = (Some [], s, conn)"
| "read_blocks L s conn (Suc n) =
     (case rtsp_crypto_read_block L (\<lambda>_. True) s conn RTSP_ENCRYPTED_BLOCK_MAX of
        (None, s, conn) \<Rightarrow> (None, s, conn)
      | (Some b, s, conn) \<Rightarrow>
          (case read_blocks L s conn n of (bs, s, conn) \<Rightarrow> (map_option ((#) b) bs, s, conn)))"

lemma read_block_wire:
  assumes "aead_ok L" "calm s" "cn_hap_session conn = Some h" "cn_encrypted_mode conn" "m \<noteq> []" "length m \<le> 1024"
    and "stream s = len_header (length m) @ cl_seal L (decrypt_key h) (counter_nonce (decrypt_nonce h)) (len_header (length m)) m @ rest"
  obtains s' where "rtsp_crypto_read_block L (\<lambda>_. True) s conn RTSP_ENCRYPTED_BLOCK_MAX
      = (Some m, s', conn\<lparr>cn_hap_session := Some (h\<lparr>decrypt_nonce := decrypt_nonce h + 1\<rparr>)\<rparr>)" "calm s'" "stream s' = rest"
proof -
  let ?lb = "len_header (length m)" and ?c = "cl_seal L (decrypt_key h) (counter_nonce (decrypt_nonce h)) (len_header (length m)) m"
  have c: "length ?c = length m + 16" "cl_open L (decrypt_key h) (counter_nonce (decrypt_nonce h)) ?lb ?c = Some m"
    using assms(1) by (simp_all add: aead_ok_def)
  from recv_exact_stream [OF assms(2), of "[]" 2] assms(7) obtain s1 where
    s1: "recv_exact s 2 [] = (Some ?lb, s1)" "calm s1" "stream s1 = ?c @ rest" by auto
  from recv_exact_stream [OF s1(2), of "[]" "length m + 16"] s1(3) c(1) obtain s2 where
    s2: "recv_exact s1 (length m + 16) [] = (Some ?c, s2)" "calm s2" "stream s2 = rest" by auto
  have "rtsp_crypto_read_block L (\<lambda>_. True) s conn RTSP_ENCRYPTED_BLOCK_MAX
      = (Some m, s2, conn\<lparr>cn_hap_session := Some (h\<lparr>decrypt_nonce := decrypt_nonce h + 1\<rparr>)\<rparr>)"
    using assms(3-6) s1(1) s2(1) c(2) len_header_value [OF assms(6)]
    by (simp add: rtsp_crypto_read_block_def RTSP_ENCRYPTED_BLOCK_MAX_def Let_def)
  then show ?thesis using that s2(2,3) by blast
qed

lemma read_blocks_wire:
  assumes "aead_ok L" "calm s" "cn_hap_session conn = Some h" "cn_encrypted_mode conn"
    and "stream s = wire L (decrypt_key h) (decrypt_nonce h) data @ rest"
  shows "\<exists>bs s'. read_blocks L s conn ((length data + 1023) div 1024)
      = (Some bs, s', conn\<lparr>cn_hap_session := Some (h\<lparr>decrypt_nonce := decrypt_nonce h + of_nat ((length data + 1023) div 1024)\<rparr>)\<rparr>)
    \<and> concat bs = data \<and> calm s' \<and> stream s' = rest"
  using assms(2-5)
proof (induction data arbitrary: s h conn rule: length_induct)
  case (1 data)
  show ?case
  proof (cases "data = []")
    case True
    then show ?thesis using 1(2-5) by (simp add: wire.simps)
  next
    case False
    let ?m = "take 1024 data" and ?h = "h\<lparr>decrypt_nonce := decrypt_nonce h + 1\<rparr>"
    have st: "stream s = len_header (length ?m) @ cl_seal L (decrypt_key h) (counter_nonce (decrypt_nonce h)) (len_header (length ?m)) ?m
        @ wire L (decrypt_key h) (decrypt_nonce h + 1) (drop 1024 data) @ rest"
      using 1(5) False by (subst (asm) wire.simps) (simp add: Let_def)
    obtain s1 where s1: "rtsp_crypto_read_block L (\<lambda>_. True) s conn RTSP_ENCRYPTED_BLOCK_MAX = (Some ?m, s1, conn\<lparr>cn_hap_session := Some ?h\<rparr>)"
      "calm s1" "stream s1 = wire L (decrypt_key h) (decrypt_nonce h + 1) (drop 1024 data) @ rest"
      by (rule read_block_wire [OF assms(1) 1(2-4) _ _ st]) (use False in auto)
    have len: "(length data + 1023) div 1024 = Suc ((length (drop 1024 data) + 1023) div 1024)"
      using False by (cases "length data \<le> 1024") (auto simp: Suc_le_eq intro!: div_nat_eqI)
    let ?c = "conn\<lparr>cn_hap_session := Some ?h\<rparr>" and ?d = "drop 1024 data"
    have "length ?d < length data" "cn_hap_session ?c = Some ?h" "cn_encrypted_mode ?c"
      "stream s1 = wire L (decrypt_key ?h) (decrypt_nonce ?h) ?d @ rest" using False 1(4) s1(3) by simp_all
    from 1(1) [rule_format, OF this(1) s1(2) this(2-4)] obtain bs s' where
      "read_blocks L s1 ?c ((length ?d + 1023) div 1024)
        = (Some bs, s', ?c\<lparr>cn_hap_session := Some (?h\<lparr>decrypt_nonce := decrypt_nonce ?h + of_nat ((length ?d + 1023) div 1024)\<rparr>)\<rparr>)"
      "concat bs = ?d" "calm s'" "stream s' = rest" by blast
    then show ?thesis unfolding len using s1(1) by (intro exI [of _ "?m # bs"] exI [of _ s']) (simp add: add.assoc)
  qed
qed

lemma write_blocks_succeeds: "0 \<notin> set (so_send s) \<Longrightarrow> aead_ok L \<Longrightarrow> \<forall>n. mem n \<Longrightarrow> \<exists>s' h'. write_blocks L mem s h data = (True, s', h')"
proof (induction L mem s h data rule: write_blocks.induct)
  case (1 L mem s h data)
  show ?case
  proof (cases "data = []")
    case False
    let ?n = "min (length data) RTSP_ENCRYPTED_BLOCK_MAX"
    let ?enc = "cl_seal L (encrypt_key h) (counter_nonce (encrypt_nonce h)) (len_header ?n) (take ?n data)"
    obtain s1 where s1: "send_all s (len_header ?n) = (True, s1)" "0 \<notin> set (so_send s1)"
      using send_all_succeeds [OF 1(2)] by blast
    obtain s2 where s2: "send_all s1 ?enc = (True, s2)" "0 \<notin> set (so_send s2)"
      using send_all_succeeds [OF s1(2)] by blast
    have ok: "mem (?n + 16)" "length ?enc = ?n + 16" using 1(3,4) by (simp_all add: aead_ok_def)
    then obtain s' h' where "write_blocks L mem s2 (h\<lparr>encrypt_nonce := encrypt_nonce h + 1\<rparr>) (drop ?n data) = (True, s', h')"
      using 1(1) [OF False refl refl refl _ s1(1) [symmetric] refl s2(1) [symmetric] refl s2(2) 1(3,4)] by blast
    then show ?thesis using False s1(1) s2(1) ok by (subst write_blocks.simps) (simp add: Let_def)
  qed (simp add: write_blocks.simps)
qed

text \<open>
  C12. The encrypted channel delivers what was written: unless a \<open>send\<close> or an allocation fails, \<open>rtsp_crypto_write_frame\<close> succeeds for a
  message of any length, and an end with the matching key and counter reads exactly the message with \<open>rtsp_crypto_read_block\<close>, block by
  block, however TCP cuts the bytes into segments and however many receive timeouts come in between; the two counters agree again afterwards.
\<close>

theorem encrypted_channel:
  assumes "aead_ok L" "\<forall>n. mem n" "cn_hap_session tx = Some h" "cn_encrypted_mode tx" "0 \<notin> set (so_send s)" "so_out s = []"
    and "cn_hap_session rx = Some g" "cn_encrypted_mode rx" "decrypt_key g = encrypt_key h" "decrypt_nonce g = encrypt_nonce h"
  shows "\<exists>s' tx'. rtsp_crypto_write_frame L mem s tx data = (True, s', tx')
    \<and> (\<forall>r. calm r \<and> stream r = so_out s' \<longrightarrow>
        (\<exists>blocks r' rx' g' h'. read_blocks L r rx ((length data + 1023) div 1024) = (Some blocks, r', rx') \<and> concat blocks = data
          \<and> stream r' = [] \<and> cn_hap_session rx' = Some g' \<and> cn_hap_session tx' = Some h' \<and> decrypt_nonce g' = encrypt_nonce h'))"
proof -
  obtain s' h' where w: "write_blocks L mem s h data = (True, s', h')" using write_blocks_succeeds [OF assms(5,1,2)] by blast
  then have tx: "rtsp_crypto_write_frame L mem s tx data = (True, s', tx\<lparr>cn_hap_session := Some h'\<rparr>)"
    using assms(3,4) by (simp add: rtsp_crypto_write_frame_def)
  note out = write_blocks_wire [OF w]
  {
    fix r
    assume r: "calm r" "stream r = so_out s'"
    then have "stream r = wire L (decrypt_key g) (decrypt_nonce g) data @ []" using out assms(6,9,10) by simp
    from read_blocks_wire [OF assms(1) r(1) assms(7,8) this]
    have "\<exists>blocks r' rx' g' h''. read_blocks L r rx ((length data + 1023) div 1024) = (Some blocks, r', rx') \<and> concat blocks = data
        \<and> stream r' = [] \<and> cn_hap_session rx' = Some g' \<and> cn_hap_session (tx\<lparr>cn_hap_session := Some h'\<rparr>) = Some h''
        \<and> decrypt_nonce g' = encrypt_nonce h''"
      using out assms(10) by auto
  }
  with tx show ?thesis by blast
qed

definition demo_conn :: rtsp_conn where
  "demo_conn = rtsp_conn_create\<lparr>cn_hap_session := Some (hap_session_create ([], []) ([], [])), cn_encrypted_mode := True\<rparr>"

definition demo_sock :: sock where
  "demo_sock = \<lparr>so_in = [], so_errno = EAGAIN, so_out = [], so_send = []\<rparr>"

theorem encrypted_channel_witness:
  "\<exists>s' tx'. rtsp_crypto_write_frame demo_lib (\<lambda>_. True) demo_sock demo_conn [1, 2, 3] = (True, s', tx')
     \<and> (\<exists>blocks r' rx'. read_blocks demo_lib (demo_sock\<lparr>so_in := [Arrive (take 1 (so_out s')), Error EAGAIN, Arrive (drop 1 (so_out s'))]\<rparr>)
          demo_conn 1 = (Some blocks, r', rx') \<and> concat blocks = [1, 2, 3])"
proof -
  let ?h = "hap_session_create ([], []) ([], [])"
  have "cn_hap_session demo_conn = Some ?h" "cn_encrypted_mode demo_conn" "decrypt_key ?h = encrypt_key ?h" "decrypt_nonce ?h = encrypt_nonce ?h"
    "0 \<notin> set (so_send demo_sock)" "so_out demo_sock = []"
    by (simp_all add: demo_conn_def demo_sock_def hap_session_create_def)
  then obtain s' tx' where tx: "rtsp_crypto_write_frame demo_lib (\<lambda>_. True) demo_sock demo_conn [1, 2, 3] = (True, s', tx')"
    and rx: "\<forall>r. calm r \<and> stream r = so_out s' \<longrightarrow> (\<exists>blocks r' rx' g' h'.
      read_blocks demo_lib r demo_conn ((length [1, 2, 3 :: u8] + 1023) div 1024) = (Some blocks, r', rx') \<and> concat blocks = [1, 2, 3]
      \<and> stream r' = [] \<and> cn_hap_session rx' = Some g' \<and> cn_hap_session tx' = Some h' \<and> decrypt_nonce g' = encrypt_nonce h')"
    using encrypted_channel [of demo_lib "\<lambda>_. True" demo_conn ?h demo_sock demo_conn ?h "[1, 2, 3]"] demo_lib_ok(2) by blast
  let ?r = "demo_sock\<lparr>so_in := [Arrive (take 1 (so_out s')), Error EAGAIN, Arrive (drop 1 (so_out s'))]\<rparr>"
  have "calm ?r" "stream ?r = so_out s'" by (simp_all add: steady_def stream_def retryable_def)
  with rx have "\<exists>blocks r' rx'. read_blocks demo_lib ?r demo_conn ((length [1, 2, 3 :: u8] + 1023) div 1024) = (Some blocks, r', rx') \<and> concat blocks = [1, 2, 3]"
    by blast
  then show ?thesis using tx by (auto simp del: read_blocks.simps)
qed

end
