(* ===== verification/C_String.thy ===== *)
theory C_String
  imports Prelude
begin

text \<open>
  The C library functions on strings the protocol code uses: searching (\<open>strstr\<close>), number
  parsing (\<open>strtol\<close>, \<open>strtoul\<close>, with the 32-bit \<open>long\<close> of the ESP32), printing of decimal numbers and the
  writing side of \<open>snprintf\<close>. A string is the list of its bytes before the NUL; a pointer into it
  is the remaining suffix.
\<close>

section \<open>Searching\<close>

definition starts :: "bytes \<Rightarrow> bytes \<Rightarrow> bool" where
  "starts needle s \<longleftrightarrow> take (length needle) s = needle"

fun strstr :: "bytes \<Rightarrow> bytes \<Rightarrow> bytes option" where
  "strstr needle [] = (if needle = [] then Some [] else None)"
| "strstr needle (c # s) = (if starts needle (c # s) then Some (c # s) else strstr needle s)"

lemma starts_append: "length needle \<le> length s \<Longrightarrow> starts needle (s @ t) = starts needle s"
  by (simp add: starts_def)

lemma starts_mono: "starts needle s \<Longrightarrow> starts needle (s @ t)"
proof -
  assume a: "starts needle s"
  then have "length needle \<le> length s" unfolding starts_def by (metis length_take min.cobounded1)
  with a show ?thesis by (simp add: starts_append)
qed

lemma starts_self [simp]: "starts needle (needle @ t)" "starts needle needle"
  by (simp_all add: starts_def)

lemma strstr_Some_suffix: "strstr needle s = Some t \<Longrightarrow> \<exists>pre. s = pre @ t \<and> starts needle t"
proof (induction s)
  case (Cons c s)
  show ?case
  proof (cases "starts needle (c # s)")
    case False
    with Cons obtain pre where "s = pre @ t" "starts needle t" by auto
    then have "c # s = (c # pre) @ t \<and> starts needle t" by simp
    then show ?thesis by blast
  qed (use Cons.prems in auto)
qed (auto simp: starts_def split: if_splits)

lemma strstr_length: "strstr needle s = Some t \<Longrightarrow> length t \<le> length s"
  using strstr_Some_suffix by fastforce

lemma strstr_append: "strstr needle s = Some t \<Longrightarrow> needle \<noteq> [] \<Longrightarrow> strstr needle (s @ x) = Some (t @ x)"
proof (induction s)
  case (Cons c s)
  show ?case
  proof (cases "starts needle (c # s)")
    case True
    then have "starts needle (c # s @ x)" using starts_mono [of needle "c # s" x] by simp
    with True Cons.prems show ?thesis by auto
  next
    case False
    with Cons have IH: "strstr needle (s @ x) = Some (t @ x)" and t: "strstr needle s = Some t" by auto
    obtain pre where "s = pre @ t" "starts needle t" using strstr_Some_suffix [OF t] by blast
    then have "length needle \<le> length s" unfolding starts_def by (metis length_append length_take min.cobounded1 trans_le_add2)
    then have "starts needle (c # s @ x) = starts needle (c # s)" using starts_append [of needle "c # s" x] by simp
    with False IH show ?thesis by simp
  qed
qed (simp split: if_splits)

text \<open>A needle is not found before its first byte occurs.\<close>

lemma strstr_skip: "needle \<noteq> [] \<Longrightarrow> hd needle \<notin> set pre \<Longrightarrow> strstr needle (pre @ s) = strstr needle s"
proof (induction pre)
  case (Cons c pre)
  then have "\<not> starts needle (c # pre @ s)" by (cases needle) (auto simp: starts_def)
  with Cons show ?case by simp
qed simp

lemma strstr_here: "starts needle s \<Longrightarrow> strstr needle s = Some s"
  by (cases s) (auto simp: starts_def)

section \<open>Numbers\<close>

definition isspace :: "u8 \<Rightarrow> bool" where
  "isspace c \<longleftrightarrow> c = 32 \<or> 9 \<le> c \<and> c \<le> 13"

definition isdigit :: "u8 \<Rightarrow> bool" where
  "isdigit c \<longleftrightarrow> 48 \<le> c \<and> c \<le> 57"

definition tolower :: "u8 \<Rightarrow> u8" where
  "tolower c = (if 65 \<le> c \<and> c \<le> 90 then c + 32 else c)"

definition digits_value :: "bytes \<Rightarrow> nat" where
  "digits_value ds = foldl (\<lambda>a d. 10 * a + (unat d - 48)) 0 ds"

definition signed_digits :: "bytes \<Rightarrow> bool \<times> nat" where
  "signed_digits s =
     (let s = dropWhile isspace s;
          (neg, s) = (case s of c # r \<Rightarrow> if c = 45 then (True, r) else if c = 43 then (False, r) else (False, s) | [] \<Rightarrow> (False, s)) in
      (neg, digits_value (takeWhile isdigit s)))"

definition strtol :: "bytes \<Rightarrow> int" where
  "strtol s = (case signed_digits s of (neg, v) \<Rightarrow> if neg then max (- (2 ^ 31)) (- int v) else min (2 ^ 31 - 1) (int v))"

definition strtoul :: "bytes \<Rightarrow> u32" where
  "strtoul s = (case signed_digits s of (neg, v) \<Rightarrow>
     if v \<ge> 2 ^ 32 then - 1 else if neg then - of_nat v else of_nat v)"

fun dec :: "nat \<Rightarrow> bytes" where
  "dec n = (if n < 10 then [of_nat (48 + n)] else dec (n div 10) @ [of_nat (48 + n mod 10)])"

declare dec.simps [simp del]

definition dec_int :: "int \<Rightarrow> bytes" where
  "dec_int i = (if i < 0 then 45 # dec (nat (- i)) else dec (nat i))"

lemma digit_byte: "d < 10 \<Longrightarrow> unat (of_nat (48 + d) :: u8) = 48 + d"
  by (simp only: unat_of_nat) simp

lemma dec_digits: "\<forall>c \<in> set (dec n). isdigit c"
proof (induction n rule: dec.induct)
  case (1 n)
  have "isdigit (of_nat (48 + d))" if "d < 10" for d
    using digit_byte [OF that] that by (simp only: isdigit_def word_le_nat_alt) simp
  with 1 show ?case by (subst dec.simps) auto
qed

lemma dec_nonempty [simp]: "dec n \<noteq> []"
  by (subst dec.simps) simp

lemma dec_value: "digits_value (dec n) = n"
proof (induction n rule: dec.induct)
  case (1 n)
  show ?case
  proof (cases "n < 10")
    case True
    then have "dec n = [of_nat (48 + n)]" by (simp add: dec.simps)
    then have "digits_value (dec n) = unat (of_nat (48 + n) :: u8) - 48" by (simp only: digits_value_def foldl.simps mult_0_right add_0)
    with digit_byte [OF True] show ?thesis by simp
  next
    case False
    then have "digits_value (dec n) = 10 * digits_value (dec (n div 10)) + (unat (of_nat (48 + n mod 10) :: u8) - 48)"
      by (subst dec.simps) (simp add: digits_value_def)
    also have "\<dots> = n" using 1 [OF False] digit_byte [of "n mod 10"] by simp
    finally show ?thesis .
  qed
qed

lemma digit_facts: "isdigit c \<Longrightarrow> \<not> isspace c \<and> c \<noteq> 45 \<and> c \<noteq> 43 \<and> c \<noteq> 13 \<and> c \<noteq> 10 \<and> c \<noteq> 0"
proof -
  assume "isdigit c"
  then have "48 \<le> unat c" by (simp add: isdigit_def word_le_nat_alt)
  then show ?thesis by (auto simp: isspace_def word_le_nat_alt)
qed

lemma dec_bytes: "c \<in> set (dec n) \<Longrightarrow> c \<noteq> 13 \<and> c \<noteq> 10 \<and> c \<noteq> 0 \<and> \<not> isspace c"
  using dec_digits digit_facts by blast

text \<open>A number that was printed is read back, after blanks and before any byte that is no digit.\<close>

lemma takeWhile_dec:
  assumes "rest = [] \<or> \<not> isdigit (hd rest)"
  shows "takeWhile isdigit (dec n @ rest) = dec n"
proof -
  have "takeWhile isdigit rest = []" using assms by (cases rest) auto
  then show ?thesis using dec_digits [of n] by (simp add: takeWhile_append2)
qed

lemma signed_digits_dec:
  assumes "\<forall>c \<in> set ws. isspace c" and "rest = [] \<or> \<not> isdigit (hd rest)"
  shows "signed_digits (ws @ dec n @ rest) = (False, n)"
proof -
  obtain c s where s: "dec n = c # s" by (cases "dec n") auto
  then have c: "isdigit c" using dec_digits [of n] by simp
  have "dropWhile isspace (ws @ dec n @ rest) = dec n @ rest"
    using assms(1) digit_facts [OF c] s by (simp add: dropWhile_append3)
  then show ?thesis
    using takeWhile_dec [OF assms(2), of n] digit_facts [OF c] s dec_value [of n] by (simp add: signed_digits_def)
qed

lemma strtol_dec:
  "\<forall>c \<in> set ws. isspace c \<Longrightarrow> rest = [] \<or> \<not> isdigit (hd rest) \<Longrightarrow> int n < 2 ^ 31 \<Longrightarrow> strtol (ws @ dec n @ rest) = int n"
  by (simp add: strtol_def signed_digits_dec)

section \<open>Printing into a buffer\<close>

text \<open>
  \<open>snprintf(buf + at, n, ...)\<close> for a given expansion of the format: at most \<open>n - 1\<close> bytes and the NUL are
  written; the result is the length of the whole expansion.
\<close>

definition snprintf :: "bytes \<Rightarrow> nat \<Rightarrow> nat \<Rightarrow> bytes \<Rightarrow> (nat \<times> bytes) cres" where
  "snprintf buf at n expansion =
     (if n = 0 then Done (length expansion, buf)
      else let w = take (n - 1) expansion @ [0] in
        if at + length w \<le> length buf then Done (length expansion, take at buf @ w @ drop (at + length w) buf) else Fault)"

lemma put_bytes_facts:
  assumes "at + length bs \<le> length buf"
  obtains buf' where "put_bytes buf at bs = Done buf'" "length buf' = length buf"
    "\<forall>n \<le> length bs. take (at + n) buf' = take at buf @ take n bs"
proof
  show "put_bytes buf at bs = Done (take at buf @ bs @ drop (at + length bs) buf)" using assms by (simp add: put_bytes_def)
qed (use assms in auto)

lemma snprintf_facts:
  assumes "0 < n" "at + n \<le> length buf"
  obtains buf' where "snprintf buf at n e = Done (length e, buf')" "length buf' = length buf"
    "\<forall>k \<le> length e. k < n \<longrightarrow> take (at + k) buf' = take at buf @ take k e"
proof
  let ?w = "take (n - 1) e @ [0]"
  have "at + length ?w \<le> length buf" using assms by auto
  then show "snprintf buf at n e = Done (length e, take at buf @ ?w @ drop (at + length ?w) buf)"
    using assms(1) by (simp add: snprintf_def Let_def)
  show "length (take at buf @ ?w @ drop (at + length ?w) buf) = length buf"
    using \<open>at + length ?w \<le> length buf\<close> by simp
  show "\<forall>k \<le> length e. k < n \<longrightarrow> take (at + k) (take at buf @ ?w @ drop (at + length ?w) buf) = take at buf @ take k e"
  proof (intro allI impI)
    fix k assume "k \<le> length e" "k < n"
    moreover from this have "k \<le> n - 1" by simp
    ultimately show "take (at + k) (take at buf @ ?w @ drop (at + length ?w) buf) = take at buf @ take k e"
      using assms by (simp add: min_def)
  qed
qed

text \<open>\<open>sscanf\<close> with \<open>%ns\<close>: blanks are skipped, then up to \<open>n\<close> bytes that are no blanks are read.\<close>

definition scan_word :: "nat \<Rightarrow> bytes \<Rightarrow> (bytes \<times> bytes) option" where
  "scan_word n s =
     (let s = dropWhile isspace s; w = take n (takeWhile (\<lambda>c. \<not> isspace c) s) in
      if w = [] then None else Some (w, drop (length w) s))"

end
