(* ===== verification/Rtsp_Message.thy ===== *)
theory Rtsp_Message
  imports Rtsp_Crypto C_String
begin

text \<open>
  Parsing of RTSP requests and building of responses (\<open>main/rtsp/rtsp_message.c\<close>). A request is the list of its bytes; the C code
  sees it as a string, that is up to the first NUL, which the server puts behind the last byte at the latest.
\<close>

section \<open>The model\<close>

definition crlf :: bytes where "crlf = [13, 10]"

definition RTSP_CONTENT_LENGTH_MAX :: int where "RTSP_CONTENT_LENGTH_MAX = 256 * 1024"

fun rtsp_find_header_end :: "bytes \<Rightarrow> nat option" where
  "rtsp_find_header_end (a # b # c # d # s) =
     (if a = 13 \<and> b = 10 \<and> c = 13 \<and> d = 10 then Some 0 else map_option Suc (rtsp_find_header_end (b # c # d # s)))"
| "rtsp_find_header_end _ = None"

definition rtsp_parse_cseq :: "bytes \<Rightarrow> int" where
  "rtsp_parse_cseq request = (case strstr (asc ''CSeq:'') request of Some p \<Rightarrow> strtol (drop 5 p) | None \<Rightarrow> 1)"

definition rtsp_parse_content_length :: "bytes \<Rightarrow> int" where
  "rtsp_parse_content_length request =
     (let cl = (case strstr (asc ''Content-Length:'') request of
                  None \<Rightarrow> strstr (asc ''content-length:'') request | Some p \<Rightarrow> Some p) in
      case cl of
        Some p \<Rightarrow> let v = strtol (drop 15 p) in if v < 0 \<or> v > RTSP_CONTENT_LENGTH_MAX then 0 else v
      | None \<Rightarrow> 0)"

text \<open>The body of a request of which the C string is the part before the first NUL; \<open>None\<close> is \<open>NULL\<close> with length 0.\<close>

definition rtsp_get_body :: "bytes \<Rightarrow> bytes option" where
  "rtsp_get_body request =
     (case strstr (crlf @ crlf) (c_str request) of
        Some p \<Rightarrow> Some (drop (length (c_str request) - length p + 4) request)
      | None \<Rightarrow> None)"

text \<open>The ports of the \<open>Transport\<close> header, taken from its line only.\<close>

definition port_after :: "bytes \<Rightarrow> bytes \<Rightarrow> bytes \<Rightarrow> u16" where
  "port_after key transport line_end =
     (case strstr key transport of
        Some p \<Rightarrow> if length p > length line_end then ucast (strtoul (drop (length key) p)) else 0
      | None \<Rightarrow> 0)"

definition rtsp_parse_transport :: "bytes \<Rightarrow> u16 \<times> u16" where
  "rtsp_parse_transport request =
     (case strstr (asc ''Transport:'') request of
        None \<Rightarrow> (0, 0)
      | Some transport \<Rightarrow>
          let line_end = (case strstr crlf transport of Some e \<Rightarrow> e | None \<Rightarrow> []) in
          (port_after (asc ''control_port='') transport line_end, port_after (asc ''timing_port='') transport line_end))"

record rtsp_request =
  rq_method :: bytes
  rq_path :: bytes
  rq_cseq :: int
  rq_content_type :: bytes
  rq_content_length :: int
  rq_body :: "bytes option"

definition rtsp_request_parse :: "bytes \<Rightarrow> rtsp_request cres" where
  "rtsp_request_parse data =
     (if data = [] then Fail
      else case rtsp_find_header_end data of
          None \<Rightarrow> Fail
        | Some _ \<Rightarrow>
            let str = c_str data in
            case scan_word 31 str of
              None \<Rightarrow> Fail
            | Some (method, rest) \<Rightarrow>
                Done \<lparr>rq_method = method,
                      rq_path = (case scan_word 255 rest of Some (path, _) \<Rightarrow> path | None \<Rightarrow> []),
                      rq_cseq = rtsp_parse_cseq str,
                      rq_content_type =
                        (case strstr (asc ''Content-Type:'') str of
                           Some ct \<Rightarrow> (case scan_word 63 (drop 13 ct) of Some (t, _) \<Rightarrow> t | None \<Rightarrow> [])
                         | None \<Rightarrow> []),
                      rq_content_length = rtsp_parse_content_length str,
                      rq_body = rtsp_get_body data\<rparr>)"

subsection \<open>Responses\<close>

definition rtsp_header :: "int \<Rightarrow> bytes \<Rightarrow> int \<Rightarrow> bytes option \<Rightarrow> bytes option \<Rightarrow> bytes" where
  "rtsp_header status_code status_text cseq extra_headers body =
     asc ''RTSP/1.0 '' @ dec_int status_code @ asc '' '' @ status_text @ crlf
     @ asc ''CSeq: '' @ dec_int cseq @ crlf
     @ asc ''Server: AirTunes/377.40.00'' @ crlf
     @ (case extra_headers of Some h \<Rightarrow> h | None \<Rightarrow> [])
     @ (case body of Some b \<Rightarrow> if b \<noteq> [] then asc ''Content-Length: '' @ dec (length b) @ crlf else [] | None \<Rightarrow> [])
     @ crlf"

text \<open>The header is printed into a buffer of fixed size and then copied with its full length.\<close>

definition send_message ::
    "crypto_lib \<Rightarrow> (nat \<Rightarrow> bool) \<Rightarrow> sock \<Rightarrow> rtsp_conn option \<Rightarrow> nat \<Rightarrow> bytes \<Rightarrow> bytes \<Rightarrow> (bool \<times> sock \<times> rtsp_conn option) cres" where
  "send_message L mem s conn header_size expansion body =
     cbind (snprintf (replicate header_size 0) 0 header_size expansion) (\<lambda>(header_len, header).
       if \<not> mem (header_len + length body) then Done (False, s, conn)
       else
         cbind (slice header 0 header_len) (\<lambda>h.
           let response = h @ body in
           case conn of
             Some c \<Rightarrow>
               if cn_encrypted_mode c then
                 (case rtsp_crypto_write_frame L mem s c response of (ok, s, c) \<Rightarrow> Done (ok, s, Some c))
               else (case send_all s response of (ok, s) \<Rightarrow> Done (ok, s, conn))
           | None \<Rightarrow> (case send_all s response of (ok, s) \<Rightarrow> Done (ok, s, conn))))"

definition rtsp_send_response ::
    "crypto_lib \<Rightarrow> (nat \<Rightarrow> bool) \<Rightarrow> sock \<Rightarrow> rtsp_conn option \<Rightarrow> int \<Rightarrow> bytes \<Rightarrow> int \<Rightarrow> bytes option \<Rightarrow> bytes option
      \<Rightarrow> (bool \<times> sock \<times> rtsp_conn option) cres" where
  "rtsp_send_response L mem s conn status_code status_text cseq extra_headers body =
     send_message L mem s conn 1024 (rtsp_header status_code status_text cseq extra_headers body) (case body of Some b \<Rightarrow> b | None \<Rightarrow> [])"

definition rtsp_send_ok :: "crypto_lib \<Rightarrow> (nat \<Rightarrow> bool) \<Rightarrow> sock \<Rightarrow> rtsp_conn option \<Rightarrow> int \<Rightarrow> (bool \<times> sock \<times> rtsp_conn option) cres" where
  "rtsp_send_ok L mem s conn cseq = rtsp_send_response L mem s conn 200 (asc ''OK'') cseq None None"

definition http_header :: "int \<Rightarrow> bytes \<Rightarrow> bytes \<Rightarrow> nat \<Rightarrow> bytes" where
  "http_header status_code status_text content_type body_len =
     asc ''HTTP/1.1 '' @ dec_int status_code @ asc '' '' @ status_text @ crlf
     @ asc ''Content-Type: '' @ content_type @ crlf
     @ asc ''Content-Length: '' @ dec body_len @ crlf
     @ asc ''Server: AirTunes/377.40.00'' @ crlf
     @ asc ''CSeq: 1'' @ crlf @ crlf"

definition rtsp_send_http_response ::
    "crypto_lib \<Rightarrow> (nat \<Rightarrow> bool) \<Rightarrow> sock \<Rightarrow> rtsp_conn option \<Rightarrow> int \<Rightarrow> bytes \<Rightarrow> bytes \<Rightarrow> bytes \<Rightarrow> (bool \<times> sock \<times> rtsp_conn option) cres" where
  "rtsp_send_http_response L mem s conn status_code status_text content_type body =
     send_message L mem s conn 512 (http_header status_code status_text content_type (length body)) body"

section \<open>Messages as lines\<close>

definition line_ok :: "bytes \<Rightarrow> bool" where
  "line_ok l \<longleftrightarrow> l \<noteq> [] \<and> 13 \<notin> set l \<and> 0 \<notin> set l"

definition lines_text :: "bytes list \<Rightarrow> bytes" where
  "lines_text ls = concat (map (\<lambda>l. l @ crlf) ls)"

lemma lines_text_simps [simp]: "lines_text [] = []" "lines_text (l # ls) = l @ crlf @ lines_text ls"
  by (simp_all add: lines_text_def)

lemma lines_text_append [simp]: "lines_text (ls @ ms) = lines_text ls @ lines_text ms"
  by (simp add: lines_text_def)

lemma strstr_first_crlf:
  assumes "line_ok l"
  shows "strstr (crlf @ crlf) (l @ crlf @ rest) = strstr (crlf @ crlf) (crlf @ rest)"
  using assms by (intro strstr_skip) (auto simp: line_ok_def crlf_def)

lemma strstr_next_line:
  assumes "line_ok l"
  shows "strstr (crlf @ crlf) (crlf @ l @ rest) = strstr (crlf @ crlf) (l @ rest)"
proof -
  obtain c l' where "l = c # l'" "c \<noteq> 13" using assms by (cases l) (auto simp: line_ok_def)
  then show ?thesis by (simp add: crlf_def starts_def)
qed

lemma header_end_lines:
  assumes "ls \<noteq> []" "\<forall>l \<in> set ls. line_ok l"
  shows "strstr (crlf @ crlf) (lines_text ls @ crlf @ body) = Some (crlf @ crlf @ body)"
  using assms
proof (induction ls)
  case (Cons l ls)
  show ?case
  proof (cases ls)
    case Nil
    then show ?thesis using Cons.prems strstr_first_crlf [of l "crlf @ body"] strstr_here [of "crlf @ crlf" "crlf @ crlf @ body"]
      starts_self(1) [of "crlf @ crlf" body] by simp
  next
    case (Cons l2 ls2)
    have "strstr (crlf @ crlf) (lines_text (l # ls) @ crlf @ body) = strstr (crlf @ crlf) (crlf @ lines_text ls @ crlf @ body)"
      using strstr_first_crlf [of l "lines_text ls @ crlf @ body"] Cons.prems by simp
    also have "\<dots> = strstr (crlf @ crlf) (lines_text ls @ crlf @ body)"
      using strstr_next_line [of l2 "crlf @ lines_text ls2 @ crlf @ body"] Cons Cons.prems by simp
    finally show ?thesis using Cons.IH Cons.prems Cons by simp
  qed
qed simp

lemma strstr_skip_line:
  assumes "needle \<noteq> []" "13 \<notin> set needle" "10 \<notin> set needle" "strstr needle l = None"
  shows "strstr needle (l @ crlf @ rest) = strstr needle rest"
  using assms(4)
proof (induction l)
  case Nil
  have "hd needle \<notin> set crlf" using assms(1-3) by (cases needle) (auto simp: crlf_def)
  then show ?case using strstr_skip [of needle crlf rest] assms(1) by simp
next
  case (Cons c l)
  then have ns: "\<not> starts needle (c # l)" and l: "strstr needle l = None" by (simp_all split: if_splits)
  have "\<not> starts needle ((c # l) @ crlf @ rest)"
  proof
    assume st: "starts needle ((c # l) @ crlf @ rest)"
    show False
    proof (cases "length needle \<le> length (c # l)")
      case True
      with st ns show False using starts_append [of needle "c # l"] by simp
    next
      case False
      then have "Suc (length (c # l)) \<le> length needle" by simp
      then have "13 \<in> set (take (length needle) ((c # l) @ crlf @ rest))"
        by (auto simp: crlf_def take_Cons' in_set_conv_nth intro!: exI [of _ "length (c # l)"] simp del: length_Cons) 
      with st assms(2) show False by (simp add: starts_def)
    qed
  qed
  with Cons.IH l show ?case by simp
qed

lemma strstr_absent: "needle \<noteq> [] \<Longrightarrow> hd needle \<notin> set l \<Longrightarrow> strstr needle l = None"
  using strstr_skip [of needle l "[]"] by simp

lemma find_header_end_strstr:
  "rtsp_find_header_end b = (case strstr (crlf @ crlf) b of Some p \<Rightarrow> Some (length b - length p) | None \<Rightarrow> None)"
proof (induction b rule: rtsp_find_header_end.induct)
  case (1 a b c d s)
  have st: "starts (crlf @ crlf) (a # b # c # d # s) \<longleftrightarrow> a = 13 \<and> b = 10 \<and> c = 13 \<and> d = 10" by (auto simp: starts_def crlf_def)
  show ?case
  proof (cases "a = 13 \<and> b = 10 \<and> c = 13 \<and> d = 10")
    case True
    then show ?thesis using st by simp
  next
    case False
    then have "strstr (crlf @ crlf) (a # b # c # d # s) = strstr (crlf @ crlf) (b # c # d # s)"
      by (subst strstr.simps(2), subst if_not_P) (simp_all add: st del: strstr.simps)
    moreover have "rtsp_find_header_end (a # b # c # d # s) = map_option Suc (rtsp_find_header_end (b # c # d # s))"
      using False by auto
    ultimately show ?thesis using 1 [OF False] strstr_length [of "crlf @ crlf" "b # c # d # s"]
      by (cases "strstr (crlf @ crlf) (b # c # d # s)") (simp_all add: Suc_diff_le del: strstr.simps rtsp_find_header_end.simps)
  qed
qed (simp_all add: starts_def crlf_def)

section \<open>Responses arrive as they were meant\<close>

lemma c_str_append: "0 \<notin> set h \<Longrightarrow> c_str (h @ b) = h @ c_str b"
  unfolding c_str_def by (rule takeWhile_append2) auto

lemma line_bytes: "line_ok l \<Longrightarrow> 0 \<notin> set (l @ crlf)"
  by (simp add: line_ok_def crlf_def)

lemma lines_no_nul: "\<forall>l \<in> set ls. line_ok l \<Longrightarrow> 0 \<notin> set (lines_text ls @ crlf)"
  by (induction ls) (auto simp: line_ok_def crlf_def)

text \<open>Looking for a header: the lines before it do not carry the key.\<close>

lemma strstr_in_lines:
  assumes "needle \<noteq> []" "13 \<notin> set needle" "10 \<notin> set needle" "\<forall>l \<in> set ls. strstr needle l = None"
  shows "strstr needle (lines_text ls @ rest) = strstr needle rest"
  using assms(4) by (induction ls) (simp_all add: strstr_skip_line [OF assms(1-3)])

definition status_line :: "int \<Rightarrow> bytes \<Rightarrow> bytes" where
  "status_line code txt = asc ''RTSP/1.0 '' @ dec_int code @ asc '' '' @ txt"

definition response_lines :: "int \<Rightarrow> bytes \<Rightarrow> int \<Rightarrow> bytes list \<Rightarrow> nat \<Rightarrow> bytes list" where
  "response_lines code txt cseq extra n =
     [status_line code txt, asc ''CSeq: '' @ dec_int cseq, asc ''Server: AirTunes/377.40.00''] @ extra @ [asc ''Content-Length: '' @ dec n]"

lemma rtsp_header_lines:
  "body \<noteq> [] \<Longrightarrow> rtsp_header code txt cseq (Some (lines_text extra)) (Some body)
     = lines_text (response_lines code txt cseq extra (length body)) @ crlf"
  by (simp add: rtsp_header_def response_lines_def status_line_def)

lemma dec_int_nat: "0 \<le> i \<Longrightarrow> dec_int i = dec (nat i)"
  by (simp add: dec_int_def)

lemma dec_not_C: "67 \<notin> set (dec n)" "99 \<notin> set (dec n)"
  using dec_digits [of n] by (auto simp: isdigit_def word_le_nat_alt)

lemma cseq_line_no_length: "strstr (asc ''Content-Length:'') (asc ''CSeq: '' @ dec n) = None"
  using strstr_absent [of "asc ''Content-Length:''" "dec n"] dec_not_C by (simp add: starts_def)

lemma response_lines_ok:
  assumes "0 \<le> code" "line_ok txt" "0 \<le> cseq" "\<forall>l \<in> set extra. line_ok l"
  shows "\<forall>l \<in> set (response_lines code txt cseq extra n). line_ok l"
  using assms dec_bytes by (fastforce simp: response_lines_def status_line_def line_ok_def dec_int_nat)

lemma response_parses:
  fixes rest :: bytes
  assumes "0 \<le> code" "line_ok txt" "67 \<notin> set txt" "0 \<le> cseq" "cseq < 2 ^ 31"
    and "\<forall>l \<in> set extra. line_ok l \<and> strstr (asc ''Content-Length:'') l = None" "n \<le> 262144"
  defines "msg \<equiv> lines_text (response_lines code txt cseq extra n) @ crlf @ rest"
  shows "rtsp_parse_cseq msg = cseq" "rtsp_parse_content_length msg = int n"
proof -
  have no_C: "67 \<notin> set (status_line code txt)" using assms(1,3) dec_not_C by (simp add: status_line_def dec_int_nat)
  let ?cs = "asc ''CSeq: '' @ dec (nat cseq)" and ?after = "asc ''Server: AirTunes/377.40.00'' @ crlf @ lines_text extra
    @ asc ''Content-Length: '' @ dec n @ crlf @ crlf @ rest"
  have msg: "msg = lines_text [status_line code txt] @ ?cs @ crlf @ ?after"
    using assms(4) by (simp add: msg_def response_lines_def dec_int_nat)
  have "strstr (asc ''CSeq:'') msg = strstr (asc ''CSeq:'') (?cs @ crlf @ ?after)"
    unfolding msg by (rule strstr_in_lines) (use strstr_absent [of "asc ''CSeq:''" "status_line code txt"] no_C in auto)
  also have "\<dots> = Some (?cs @ crlf @ ?after)" by (rule strstr_here) (simp add: starts_def)
  finally have "rtsp_parse_cseq msg = strtol ([32] @ dec (nat cseq) @ crlf @ ?after)" by (simp add: rtsp_parse_cseq_def)
  also have "\<dots> = cseq" using strtol_dec [of "[32]" "crlf @ ?after" "nat cseq"] assms(4,5) by (simp add: isspace_def isdigit_def crlf_def)
  finally show "rtsp_parse_cseq msg = cseq" .
  let ?ls = "[status_line code txt, ?cs, asc ''Server: AirTunes/377.40.00''] @ extra"
  have "strstr (asc ''Content-Length:'') l = None" if "l \<in> set ?ls" for l
    using that assms(6) cseq_line_no_length strstr_absent [of "asc ''Content-Length:''" "status_line code txt"] no_C
      strstr_absent [of "asc ''Content-Length:''" "asc ''Server: AirTunes/377.40.00''"] by auto
  then have "strstr (asc ''Content-Length:'') msg = strstr (asc ''Content-Length:'') (asc ''Content-Length: '' @ dec n @ crlf @ crlf @ rest)"
    using strstr_in_lines [of "asc ''Content-Length:''" ?ls "asc ''Content-Length: '' @ dec n @ crlf @ crlf @ rest"]
    unfolding msg by (simp del: strstr.simps)
  also have "\<dots> = Some (asc ''Content-Length: '' @ dec n @ crlf @ crlf @ rest)" by (rule strstr_here) (simp add: starts_def)
  finally have "rtsp_parse_content_length msg
      = (let v = strtol ([32] @ dec n @ crlf @ crlf @ rest) in if v < 0 \<or> v > RTSP_CONTENT_LENGTH_MAX then 0 else v)"
    by (simp add: rtsp_parse_content_length_def)
  then show "rtsp_parse_content_length msg = int n"
    using strtol_dec [of "[32]" "crlf @ crlf @ rest" n] assms(7)
    by (simp add: isspace_def isdigit_def crlf_def RTSP_CONTENT_LENGTH_MAX_def)
qed

text \<open>
  A response carries its body: for a status line, header lines and a body of at most 256 KiB whose header fits the 1024-byte buffer,
  \<open>rtsp_send_response\<close> sends a message from which the parser reads back the CSeq, the content length and exactly the body.
\<close>

theorem response_roundtrip:
  assumes "0 \<le> code" "line_ok txt" "67 \<notin> set txt" "0 \<le> cseq" "cseq < 2 ^ 31"
    and "\<forall>l \<in> set extra. line_ok l \<and> strstr (asc ''Content-Length:'') l = None" "body \<noteq> []" "length body \<le> 262144"
    and "length (rtsp_header code txt cseq (Some (lines_text extra)) (Some body)) < 1024" "so_send s = []" "so_out s = []"
  shows "\<exists>s'. rtsp_send_response L (\<lambda>_. True) s None code txt cseq (Some (lines_text extra)) (Some body) = Done (True, s', None)
    \<and> rtsp_parse_cseq (c_str (so_out s')) = cseq \<and> rtsp_parse_content_length (c_str (so_out s')) = int (length body)
    \<and> rtsp_get_body (so_out s') = Some body"
proof -
  let ?ls = "response_lines code txt cseq extra (length body)"
  let ?h = "lines_text ?ls @ crlf"
  have ok: "\<forall>l \<in> set ?ls. line_ok l" "?ls \<noteq> []" using response_lines_ok [OF assms(1,2,4)] assms(6) by (auto simp: response_lines_def)
  have h: "rtsp_header code txt cseq (Some (lines_text extra)) (Some body) = ?h" by (rule rtsp_header_lines [OF assms(7)])
  have sent: "rtsp_send_response L (\<lambda>_. True) s None code txt cseq (Some (lines_text extra)) (Some body)
      = Done (True, s\<lparr>so_out := ?h @ body\<rparr>, None)"
    using assms(9-11) unfolding rtsp_send_response_def h
    by (simp add: send_message_def snprintf_def slice_def Let_def send_all_plain)
  have str: "c_str (?h @ body) = lines_text ?ls @ crlf @ c_str body"
    using c_str_append [OF lines_no_nul [OF ok(1)], of body] by simp
  have "rtsp_get_body (?h @ body) = Some body"
  proof -
    have "2 \<le> length (lines_text ?ls)" by (simp add: response_lines_def crlf_def)
    then have "length (lines_text ?ls) - 2 + 4 = length ?h" by (simp add: crlf_def)
    then show ?thesis unfolding rtsp_get_body_def str header_end_lines [OF ok(2,1)] by (simp add: crlf_def)
  qed
  moreover have "rtsp_parse_cseq (c_str (?h @ body)) = cseq" "rtsp_parse_content_length (c_str (?h @ body)) = int (length body)"
    unfolding str by (rule response_parses [OF assms(1-6,8)])+
  ultimately show ?thesis using sent by simp
qed

theorem response_roundtrip_witness:
  "\<exists>s'. rtsp_send_response demo_lib (\<lambda>_. True) demo_sock None 200 (asc ''OK'') 7 (Some (lines_text [asc ''Content-Type: x''])) (Some [0, 1])
     = Done (True, s', None) \<and> rtsp_get_body (so_out s') = Some [0, 1]"
proof -
  have "length (rtsp_header 200 (asc ''OK'') 7 (Some (lines_text [asc ''Content-Type: x''])) (Some [0, 1])) < 1024"
    by (simp add: rtsp_header_def dec_int_def dec.simps crlf_def)
  moreover have "strstr (asc ''Content-Length:'') (asc ''Content-Type: x'') = None" by (simp add: starts_def)
  ultimately show ?thesis
    using response_roundtrip [of 200 "asc ''OK''" 7 "[asc ''Content-Type: x'']" "[0, 1]" demo_sock demo_lib]
    by (auto simp: line_ok_def demo_sock_def)
qed

text \<open>A header of more than 1024 bytes is copied from beyond the buffer it was cut to.\<close>

lemma long_header_overread:
  assumes "1024 < length (rtsp_header code txt cseq extra body)"
  shows "rtsp_send_response L (\<lambda>_. True) s conn code txt cseq extra body = Fault"
  using assms by (simp add: rtsp_send_response_def send_message_def snprintf_def slice_def Let_def)

end
