(* ===== verification/Framing.thy ===== *)
theory Framing
  imports Prelude
begin

text \<open>
  Messages in a byte stream. A receiver collects bytes in a buffer and looks at its front: there is a whole message,
  or not yet, or something it refuses. The locale states what such a look must satisfy for the
  messages not to depend on how the stream is cut into reads; the RTSP parser, the encrypted blocks and
  the buffered audio stream are instances.
\<close>

datatype 'm look = Wait | Refuse | Msg 'm bytes

text \<open>Taking messages until the look says wait.\<close>

inductive drains :: "(bytes \<Rightarrow> 'm look) \<Rightarrow> bytes \<Rightarrow> 'm list \<Rightarrow> bytes \<Rightarrow> bool" for look where
  stop: "look b = Wait \<Longrightarrow> drains look b [] b"
| step: "look b = Msg m r \<Longrightarrow> drains look r ms b' \<Longrightarrow> drains look b (m # ms) b'"

inductive_cases drains_elim: "drains look b ms b'"

text \<open>Chunks arrive one by one and the buffer is drained after each.\<close>

inductive feeds :: "(bytes \<Rightarrow> 'm look) \<Rightarrow> bytes \<Rightarrow> bytes list \<Rightarrow> 'm list \<Rightarrow> bytes \<Rightarrow> bool" for look where
  none: "feeds look b [] [] b"
| chunk: "drains look (b @ c) ms b' \<Longrightarrow> feeds look b' cs ms' r \<Longrightarrow> feeds look b (c # cs) (ms @ ms') r"

locale framing =
  fixes look :: "bytes \<Rightarrow> 'm look"
  assumes msg_shrinks: "look b = Msg m r \<Longrightarrow> length r < length b"
    and msg_stable: "look b = Msg m r \<Longrightarrow> look (b @ x) = Msg m (r @ x)"
    and refuse_stable: "look b = Refuse \<Longrightarrow> look (b @ x) = Refuse"
begin

lemma drains_deterministic: "drains look b ms r \<Longrightarrow> drains look b ms' r' \<Longrightarrow> ms' = ms \<and> r' = r"
proof (induction arbitrary: ms' r' rule: drains.induct)
  case (stop b)
  from stop.prems stop.hyps show ?case by (cases rule: drains_elim) auto
next
  case (step b m r ms b')
  from step.prems step.hyps(1) step.IH show ?case by (cases rule: drains_elim) auto
qed

lemma drains_waits: "drains look b ms r \<Longrightarrow> look r = Wait"
  by (induction rule: drains.induct) auto

text \<open>Draining early makes no difference.\<close>

lemma drains_split:
  "drains look (b @ c) ms r \<Longrightarrow> \<exists>ms1 r1 ms2. drains look b ms1 r1 \<and> drains look (r1 @ c) ms2 r \<and> ms = ms1 @ ms2"
proof (induction b arbitrary: ms rule: length_induct)
  case (1 b)
  show ?case
  proof (cases "look b")
    case Wait
    then show ?thesis using 1(2) drains.stop by fastforce
  next
    case Refuse
    then have "look (b @ c) = Refuse" by (rule refuse_stable)
    with 1(2) show ?thesis by (cases rule: drains_elim) auto
  next
    case (Msg m b1)
    then have "look (b @ c) = Msg m (b1 @ c)" by (rule msg_stable)
    with 1(2) obtain ms' where ms': "drains look (b1 @ c) ms' r" "ms = m # ms'" by (cases rule: drains_elim) auto
    from 1(1) [rule_format, OF msg_shrinks [OF Msg] ms'(1)] obtain ms1 r1 ms2
      where "drains look b1 ms1 r1" "drains look (r1 @ c) ms2 r" "ms' = ms1 @ ms2" by blast
    then show ?thesis using drains.step [of look b m b1 ms1 r1] Msg ms'(2) by fastforce
  qed
qed

lemma feeds_any_cut:
  assumes "drains look (b @ concat cs) ms r" "look b = Wait"
  shows "feeds look b cs ms r"
  using assms
proof (induction cs arbitrary: b ms)
  case Nil
  then have "ms = [] \<and> r = b" using drains_deterministic [OF drains.stop [of look b]] by auto
  then show ?case by (auto intro: feeds.none)
next
  case (Cons c cs)
  then have "drains look ((b @ c) @ concat cs) ms r" by simp
  then obtain ms1 r1 ms2 where "drains look (b @ c) ms1 r1" "drains look (r1 @ concat cs) ms2 r" "ms = ms1 @ ms2"
    using drains_split by blast
  then show ?case using Cons.IH drains_waits by (blast intro: feeds.chunk)
qed

text \<open>A stream made of whole messages is taken apart into them.\<close>

lemma drains_concat:
  assumes "\<forall>(w, m) \<in> set wms. \<forall>x. look (w @ x) = Msg m x" "look tail = Wait"
  shows "drains look (concat (map fst wms) @ tail) (map snd wms) tail"
  using assms(1)
proof (induction wms)
  case Nil
  then show ?case using assms(2) by (simp add: drains.stop)
next
  case (Cons wm wms)
  obtain w m where wm: "wm = (w, m)" by fastforce
  have "look (w @ concat (map fst wms) @ tail) = Msg m (concat (map fst wms) @ tail)" using Cons.prems wm by simp
  from drains.step [of look, OF this] Cons show ?case using wm by simp
qed

end

end
