(* ===== verification/Rtsp_Server.thy ===== *)
theory Rtsp_Server
  imports Rtsp_Message Framing
begin

text \<open>
  The receiving side of the RTSP server (\<open>main/rtsp/rtsp_server.c\<close>): requests are collected in a buffer that grows once, taken
  apart into messages and dispatched, first in plain text and, after pairing, from the encrypted channel.
  The handlers are an argument: \<open>dispatch\<close> acts on the state of the connection, which holds the socket.
\<close>

section \<open>The model\<close>

definition RTSP_BUFFER_INITIAL :: nat where "RTSP_BUFFER_INITIAL = 4096"
definition RTSP_BUFFER_LARGE :: nat where "RTSP_BUFFER_LARGE = 262144"

text \<open>The length of the first message of the buffer, header and body, once its header is complete.\<close>

definition message_len :: "bytes \<Rightarrow> nat \<Rightarrow> nat" where
  "message_len buf header_end =
     (let header_len = header_end + 4; content_len = rtsp_parse_content_length (c_str (take header_len buf)) in
      header_len + nat (if content_len < 0 then 0 else content_len))"

text \<open>\<open>mem n\<close> tells whether an allocation of \<open>n\<close> bytes succeeds.\<close>

function process_rtsp_buffer ::
    "(nat \<Rightarrow> bool) \<Rightarrow> ('c \<Rightarrow> bool) \<Rightarrow> ('c \<Rightarrow> bytes \<Rightarrow> 'c) \<Rightarrow> nat \<Rightarrow> 'c \<Rightarrow> bytes \<Rightarrow> 'c \<times> bytes" where
  "process_rtsp_buffer mem should_stop dispatch buf_capacity c buf =
     (if buf = [] \<or> should_stop c then (c, buf)
      else case rtsp_find_header_end buf of
          None \<Rightarrow> (c, buf)
        | Some header_end \<Rightarrow>
            if \<not> mem (header_end + 4 + 1) then (c, [])
            else
              let total_len = message_len buf header_end in
              if total_len > RTSP_BUFFER_LARGE \<or> length buf < total_len
              then (c, if total_len > RTSP_BUFFER_LARGE then [] else buf)
              else
                let c = (if total_len < buf_capacity \<or> mem (total_len + 1) then dispatch c (take total_len buf) else c) in
                process_rtsp_buffer mem should_stop dispatch buf_capacity c (drop total_len buf))"
  by pat_completeness auto
termination
  by (relation "measure (\<lambda>(mem, should_stop, dispatch, cap, c, buf). length buf)") (auto simp: message_len_def Let_def)

declare process_rtsp_buffer.simps [simp del]

text \<open>The buffer grows when less than 1 KiB is free; \<open>None\<close> ends the connection.\<close>

definition ensure_room :: "(nat \<Rightarrow> bool) \<Rightarrow> nat \<Rightarrow> nat \<Rightarrow> nat option" where
  "ensure_room mem buf_len buf_capacity =
     (if buf_capacity - 1024 \<le> buf_len then
        let new_cap = (if buf_capacity < RTSP_BUFFER_LARGE then RTSP_BUFFER_LARGE else buf_capacity * 2) in
        if new_cap > RTSP_BUFFER_LARGE \<or> \<not> mem new_cap then None else Some new_cap
      else Some buf_capacity)"

type_synonym 'w client = "'w \<times> sock \<times> rtsp_conn"

text \<open>One round of the plain-text loop; \<open>Inl\<close> leaves the loop.\<close>

definition plain_round ::
    "(nat \<Rightarrow> bool) \<Rightarrow> ('w client \<Rightarrow> bool) \<Rightarrow> ('w client \<Rightarrow> bytes \<Rightarrow> 'w client) \<Rightarrow> 'w client \<Rightarrow> bytes \<Rightarrow> nat
      \<Rightarrow> 'w client + 'w client \<times> bytes \<times> nat" where
  "plain_round mem should_stop dispatch c buf cap =
     (case c of (w, s, conn) \<Rightarrow>
        case ensure_room mem (length buf) cap of
          None \<Rightarrow> Inl c
        | Some cap \<Rightarrow>
            case recv s (cap - length buf) of
              (Got bs, s) \<Rightarrow>
                (case process_rtsp_buffer mem should_stop dispatch cap (w, s, conn) (buf @ bs) of (c, buf) \<Rightarrow> Inr (c, buf, cap))
            | (Failed, s) \<Rightarrow>
                if so_errno s = EAGAIN \<or> so_errno s = EWOULDBLOCK then Inr ((w, s, conn), buf, cap) else Inl (w, s, conn)
            | (Closed, s) \<Rightarrow> Inl (w, s, conn))"

text \<open>One round of the encrypted loop.\<close>

definition encrypted_round ::
    "crypto_lib \<Rightarrow> (nat \<Rightarrow> bool) \<Rightarrow> ('w client \<Rightarrow> bool) \<Rightarrow> ('w client \<Rightarrow> bytes \<Rightarrow> 'w client) \<Rightarrow> 'w client \<Rightarrow> bytes \<Rightarrow> nat
      \<Rightarrow> 'w client + 'w client \<times> bytes \<times> nat" where
  "encrypted_round L mem should_stop dispatch c buf cap =
     (case c of (w, s, conn) \<Rightarrow>
        case ensure_room mem (length buf) cap of
          None \<Rightarrow> Inl c
        | Some cap \<Rightarrow>
            case rtsp_crypto_read_block L mem s conn (cap - length buf) of
              (block, s, conn) \<Rightarrow>
                if block = None \<or> block = Some [] then
                  if should_stop (w, s, conn) \<or> so_errno s \<noteq> EAGAIN \<and> so_errno s \<noteq> EWOULDBLOCK then Inl (w, s, conn)
                  else Inr ((w, s, conn), buf, cap)
                else (case process_rtsp_buffer mem should_stop dispatch cap (w, s, conn) (buf @ the block) of (c, buf) \<Rightarrow> Inr (c, buf, cap)))"

text \<open>The loop of the client task, for a number of rounds. The encrypted loop is left for good when the mode ends.\<close>

fun client_loop ::
    "crypto_lib \<Rightarrow> (nat \<Rightarrow> bool) \<Rightarrow> ('w client \<Rightarrow> bool) \<Rightarrow> ('w client \<Rightarrow> bytes \<Rightarrow> 'w client) \<Rightarrow> nat \<Rightarrow> bool
      \<Rightarrow> 'w client \<Rightarrow> bytes \<Rightarrow> nat \<Rightarrow> 'w client + 'w client \<times> bytes \<times> nat" where
  "client_loop L mem should_stop dispatch 0 was_encrypted c buf cap = Inr (c, buf, cap)"
| "client_loop L mem should_stop dispatch (Suc n) was_encrypted c buf cap =
     (if should_stop c then Inl c
      else
        let encrypted = cn_encrypted_mode (snd (snd c)) in
        if was_encrypted \<and> \<not> encrypted then Inl c
        else
          case (if encrypted then encrypted_round L mem should_stop dispatch c buf cap
                else plain_round mem should_stop dispatch c buf cap) of
            Inl c \<Rightarrow> Inl c
          | Inr (c, buf, cap) \<Rightarrow> client_loop L mem should_stop dispatch n encrypted c buf cap)"

section \<open>Requests as a framing\<close>

definition rtsp_look :: "bytes \<Rightarrow> bytes look" where
  "rtsp_look buf =
     (case rtsp_find_header_end buf of
        None \<Rightarrow> Wait
      | Some i \<Rightarrow>
          if message_len buf i > RTSP_BUFFER_LARGE then Refuse
          else if length buf < message_len buf i then Wait
          else Msg (take (message_len buf i) buf) (drop (message_len buf i) buf))"

lemma header_end_bound: "rtsp_find_header_end b = Some i \<Longrightarrow> i + 4 \<le> length b"
proof (induction b arbitrary: i rule: rtsp_find_header_end.induct)
  case (1 a b c d s)
  then show ?case by (auto split: if_splits)
qed simp_all

lemma header_end_append: "rtsp_find_header_end b = Some i \<Longrightarrow> rtsp_find_header_end (b @ x) = Some i"
proof (induction b arbitrary: i rule: rtsp_find_header_end.induct)
  case (1 a b c d s)
  then show ?case by (auto split: if_splits)
qed simp_all

lemma message_len_append: "i + 4 \<le> length b \<Longrightarrow> message_len (b @ x) i = message_len b i"
  by (simp add: message_len_def)

lemma message_len_ge: "i + 4 \<le> message_len b i"
  by (simp add: message_len_def Let_def)

interpretation rtsp: framing rtsp_look
proof
  fix b m r x
  assume "rtsp_look b = Msg m r"
  then obtain i where i: "rtsp_find_header_end b = Some i" "message_len b i \<le> RTSP_BUFFER_LARGE" "message_len b i \<le> length b"
    "m = take (message_len b i) b" "r = drop (message_len b i) b"
    by (auto simp: rtsp_look_def split: option.splits if_splits)
  have ge: "0 < message_len b i" using message_len_ge [of i b] by simp
  moreover have "b \<noteq> []" using header_end_bound [OF i(1)] by auto
  ultimately show "length r < length b" using i(5) by simp
  show "rtsp_look (b @ x) = Msg m (r @ x)"
    using i header_end_append [OF i(1), of x] message_len_append [OF header_end_bound [OF i(1)], of x] by (simp add: rtsp_look_def)
next
  fix b x
  assume "rtsp_look b = Refuse"
  then obtain i where i: "rtsp_find_header_end b = Some i" "message_len b i > RTSP_BUFFER_LARGE"
    by (auto simp: rtsp_look_def split: option.splits if_splits)
  then show "rtsp_look (b @ x) = Refuse"
    using header_end_append [OF i(1), of x] message_len_append [OF header_end_bound [OF i(1)], of x] by (simp add: rtsp_look_def)
qed

text \<open>A buffer with too little for its first message is shorter than that message.\<close>

lemma header_end_prefix: "rtsp_find_header_end (b @ x) = Some i \<Longrightarrow> i + 4 \<le> length b \<Longrightarrow> rtsp_find_header_end b = Some i"
proof (induction b arbitrary: i rule: rtsp_find_header_end.induct)
  case (1 a b c d s)
  then show ?case by (auto split: if_splits)
qed simp_all

lemma waiting_short:
  assumes "rtsp_look b = Wait" "rtsp_look (b @ x) = Msg m r"
  shows "length b < length m"
proof (rule ccontr)
  assume long: "\<not> length b < length m"
  obtain i where i: "rtsp_find_header_end (b @ x) = Some i" "message_len (b @ x) i \<le> RTSP_BUFFER_LARGE"
    "message_len (b @ x) i \<le> length (b @ x)" "m = take (message_len (b @ x) i) (b @ x)"
    using assms(2) by (auto simp: rtsp_look_def split: option.splits if_splits)
  then have len: "message_len (b @ x) i \<le> length b" using long by simp
  then have "i + 4 \<le> length b" using message_len_ge [of i "b @ x"] by simp
  then have "rtsp_find_header_end b = Some i" "message_len b i = message_len (b @ x) i"
    using header_end_prefix [OF i(1)] message_len_append by simp_all
  with assms(1) i(2) len show False by (simp add: rtsp_look_def split: if_splits)
qed

section \<open>Every request is dispatched once, in order\<close>

text \<open>
  What the handlers are assumed to do here: they leave the input of the socket and the mode of the connection alone and
  do not stop the task; \<open>log\<close> is the list of messages they were given.
\<close>

definition plain_handlers :: "('w \<Rightarrow> bytes list) \<Rightarrow> ('w client \<Rightarrow> bool) \<Rightarrow> ('w client \<Rightarrow> bytes \<Rightarrow> 'w client) \<Rightarrow> bool" where
  "plain_handlers log should_stop dispatch \<longleftrightarrow> (\<forall>c. \<not> should_stop c) \<and>
     (\<forall>w s conn m. case dispatch (w, s, conn) m of (w', s', conn') \<Rightarrow>
        log w' = log w @ [m] \<and> so_in s' = so_in s \<and> cn_encrypted_mode conn' = cn_encrypted_mode conn)"

lemma process_drains:
  assumes "plain_handlers log should_stop dispatch" "\<forall>n. mem n" "drains rtsp_look b ms r"
  shows "\<exists>w' s' conn'. process_rtsp_buffer mem should_stop dispatch cap (w, s, conn) b = ((w', s', conn'), r)
    \<and> log w' = log w @ ms \<and> so_in s' = so_in s \<and> cn_encrypted_mode conn' = cn_encrypted_mode conn"
  using assms(3)
proof (induction arbitrary: w s conn rule: drains.induct)
  case (stop b)
  then have "process_rtsp_buffer mem should_stop dispatch cap (w, s, conn) b = ((w, s, conn), b)"
    using assms(2) by (subst process_rtsp_buffer.simps) (auto simp: rtsp_look_def Let_def split: option.splits if_splits)
  then show ?case by simp
next
  case (step b m r ms b')
  from step.hyps(1) obtain i where i: "rtsp_find_header_end b = Some i" "message_len b i \<le> RTSP_BUFFER_LARGE"
    "message_len b i \<le> length b" "m = take (message_len b i) b" "r = drop (message_len b i) b"
    by (auto simp: rtsp_look_def split: option.splits if_splits)
  obtain w1 s1 conn1 where d: "dispatch (w, s, conn) m = (w1, s1, conn1)" by (cases "dispatch (w, s, conn) m") auto
  then have d': "log w1 = log w @ [m]" "so_in s1 = so_in s" "cn_encrypted_mode conn1 = cn_encrypted_mode conn" "\<not> should_stop (w, s, conn)"
    using assms(1) unfolding plain_handlers_def by (auto split: prod.splits)
  have "b \<noteq> []" using header_end_bound [OF i(1)] by auto
  then have "process_rtsp_buffer mem should_stop dispatch cap (w, s, conn) b = process_rtsp_buffer mem should_stop dispatch cap (w1, s1, conn1) r"
    using assms(2) i d d'(4) by (subst process_rtsp_buffer.simps) (simp add: Let_def)
  then show ?case using step.IH [of w1 s1 conn1] d' by auto
qed

definition plain_calm :: "sock \<Rightarrow> bool" where
  "plain_calm s \<longleftrightarrow> (\<forall>e \<in> set (so_in s). (\<exists>bs. e = Arrive bs) \<or> e = Error EAGAIN \<or> e = Error EWOULDBLOCK)"

lemma recv_plain:
  assumes "plain_calm s" "0 < n" "so_in s \<noteq> []"
  shows "(\<exists>bs s'. recv s n = (Got bs, s') \<and> stream s = bs @ stream s' \<and> plain_calm s' \<and> input_size s' < input_size s)
    \<or> (\<exists>s'. recv s n = (Failed, s') \<and> (so_errno s' = EAGAIN \<or> so_errno s' = EWOULDBLOCK) \<and> stream s' = stream s
        \<and> plain_calm s' \<and> input_size s' < input_size s)"
  using assms by (cases "so_in s"; cases "hd (so_in s)") (auto simp: recv_def stream_def plain_calm_def input_size_def)

lemma room_available:
  assumes "\<forall>n. mem n" "n < 261120" "1024 < cap" "cap \<le> RTSP_BUFFER_LARGE"
  obtains cap' where "ensure_room mem n cap = Some cap'" "n + 1024 < cap' \<or> n < cap' - 1024" "1024 < cap'" "cap' \<le> RTSP_BUFFER_LARGE"
  using assms that by (cases "cap - 1024 \<le> n"; cases "cap < RTSP_BUFFER_LARGE") (auto simp: ensure_room_def RTSP_BUFFER_LARGE_def)

lemma pending_short:
  assumes "rtsp_look buf = Wait" "drains rtsp_look (buf @ x) ms tail" "\<forall>m \<in> set ms. length m \<le> 261120" "length tail < 261120"
  shows "length buf < 261120"
  using assms(2)
proof (cases rule: drains.cases)
  case stop
  then show ?thesis using assms(4) by simp
next
  case (step m r ms')
  then show ?thesis using waiting_short [OF assms(1), of x m r] assms(3) by fastforce
qed

lemma plain_run:
  assumes h: "plain_handlers log should_stop dispatch" "\<forall>n. mem n"
  shows "plain_calm s \<Longrightarrow> rtsp_look buf = Wait \<Longrightarrow> drains rtsp_look (buf @ stream s) ms tail \<Longrightarrow>
    \<forall>m \<in> set ms. length m \<le> 261120 \<Longrightarrow> length tail < 261120 \<Longrightarrow> 1024 < cap \<Longrightarrow> cap \<le> RTSP_BUFFER_LARGE \<Longrightarrow>
    \<not> cn_encrypted_mode conn \<Longrightarrow>
    \<exists>n w' s' conn' cap'. client_loop L mem should_stop dispatch n False (w, s, conn) buf cap = Inr ((w', s', conn'), tail, cap')
      \<and> log w' = log w @ ms \<and> so_in s' = []"
proof (induction "input_size s" arbitrary: w s conn buf ms cap rule: less_induct)
  case less
  note calm = less.prems(1) and wait = less.prems(2) and dr = less.prems(3)
  show ?case
  proof (cases "so_in s = []")
    case True
    then have "drains rtsp_look buf ms tail" using dr by (simp add: stream_def)
    then have "ms = [] \<and> tail = buf" using rtsp.drains_deterministic drains.stop [of rtsp_look, OF wait] by blast
    then show ?thesis using True by (intro exI [of _ 0]) simp
  next
    case False
    have stop: "\<not> should_stop c" for c using h(1) unfolding plain_handlers_def by blast
    obtain cap' where cap': "ensure_room mem (length buf) cap = Some cap'" "length buf + 1024 < cap' \<or> length buf < cap' - 1024" "1024 < cap'" "cap' \<le> RTSP_BUFFER_LARGE"
      by (rule room_available [OF h(2) pending_short [OF wait dr less.prems(4,5)] less.prems(6,7)])
    then have room: "0 < cap' - length buf" by auto
    from recv_plain [OF calm room False] consider
      (got) bs s1 where "recv s (cap' - length buf) = (Got bs, s1)" "stream s = bs @ stream s1" "plain_calm s1" "input_size s1 < input_size s"
    | (failed) s1 where "recv s (cap' - length buf) = (Failed, s1)" "so_errno s1 = EAGAIN \<or> so_errno s1 = EWOULDBLOCK" "stream s1 = stream s"
        "plain_calm s1" "input_size s1 < input_size s" by blast
    then show ?thesis
    proof cases
      case failed
      have "plain_round mem should_stop dispatch (w, s, conn) buf cap = Inr ((w, s1, conn), buf, cap')"
        using cap'(1) failed(1,2) by (auto simp: plain_round_def)
      moreover obtain n w' s' conn' cap'' where
        "client_loop L mem should_stop dispatch n False (w, s1, conn) buf cap' = Inr ((w', s', conn'), tail, cap'')" "log w' = log w @ ms" "so_in s' = []"
        using less.hyps [OF failed(5,4) wait _ less.prems(4,5) cap'(3,4) less.prems(8), of w] dr failed(3) by auto
      ultimately show ?thesis using stop less.prems(8) by (intro exI [of _ "Suc n"]) auto
    next
      case got
      from dr got(2) have "drains rtsp_look ((buf @ bs) @ stream s1) ms tail" by simp
      then obtain ms1 r1 ms2 where d: "drains rtsp_look (buf @ bs) ms1 r1" "drains rtsp_look (r1 @ stream s1) ms2 tail" "ms = ms1 @ ms2"
        using rtsp.drains_split by blast
      from process_drains [OF h d(1), of cap' w s1 conn] obtain w2 s2 conn2 where
        p: "process_rtsp_buffer mem should_stop dispatch cap' (w, s1, conn) (buf @ bs) = ((w2, s2, conn2), r1)"
          "log w2 = log w @ ms1" "so_in s2 = so_in s1" "cn_encrypted_mode conn2 = cn_encrypted_mode conn" by blast
      have s2: "input_size s2 < input_size s" "plain_calm s2" "stream s2 = stream s1"
        using p(3) got(3,4) by (simp_all add: input_size_def plain_calm_def stream_def)
      have "plain_round mem should_stop dispatch (w, s, conn) buf cap = Inr ((w2, s2, conn2), r1, cap')"
        using cap'(1) got(1) p(1) by (simp add: plain_round_def)
      moreover obtain n w' s' conn' cap'' where
        "client_loop L mem should_stop dispatch n False (w2, s2, conn2) r1 cap' = Inr ((w', s', conn'), tail, cap'')" "log w' = log w2 @ ms2" "so_in s' = []"
        using less.hyps [OF s2(1,2) rtsp.drains_waits [OF d(1)] _ _ less.prems(5) cap'(3,4), of ms2 conn2 w2] d(2,3) s2(3) less.prems(4,8) p(4) by auto
      ultimately show ?thesis using stop less.prems(8) p(2) d(3) by (intro exI [of _ "Suc n"]) auto
    qed
  qed
qed

text \<open>A request as a client writes it: header lines, the empty line and as many bytes as the header announces.\<close>

definition valid_request :: "bytes list \<Rightarrow> bytes \<Rightarrow> bool" where
  "valid_request ls body \<longleftrightarrow> ls \<noteq> [] \<and> (\<forall>l \<in> set ls. line_ok l)
     \<and> rtsp_parse_content_length (lines_text ls @ crlf) = int (length body) \<and> length (lines_text ls @ crlf @ body) \<le> 261120"

lemma valid_request_look:
  assumes "valid_request ls body"
  shows "rtsp_look ((lines_text ls @ crlf @ body) @ x) = Msg (lines_text ls @ crlf @ body) x"
proof -
  let ?m = "(lines_text ls @ crlf @ body) @ x" and ?h = "lines_text ls @ crlf"
  have ls: "ls \<noteq> []" "\<forall>l \<in> set ls. line_ok l" using assms by (simp_all add: valid_request_def)
  have "2 \<le> length (lines_text ls)" using ls(1) by (cases ls) (simp_all add: crlf_def)
  moreover have "rtsp_find_header_end ?m = Some (length ?m - length (crlf @ crlf @ body @ x))"
    using header_end_lines [OF ls, of "body @ x"] by (simp add: find_header_end_strstr)
  ultimately have he: "rtsp_find_header_end ?m = Some (length (lines_text ls) - 2)" and
    hl: "length (lines_text ls) - 2 + 4 = length ?h" by (simp_all add: crlf_def)
  have "message_len ?m (length (lines_text ls) - 2) = length (lines_text ls @ crlf @ body)"
  proof -
    have "take (length ?h) ?m = ?h" by simp
    moreover have "c_str ?h = ?h" using c_str_append [OF lines_no_nul [OF ls(2)], of "[]"] by (simp add: c_str_def)
    ultimately show ?thesis unfolding message_len_def hl Let_def using assms by (simp only:) (simp add: valid_request_def)
  qed
  then show ?thesis using assms he by (simp add: rtsp_look_def valid_request_def RTSP_BUFFER_LARGE_def)
qed

text \<open>
  C11. Every request reaches the handlers once, whole and in order: for any sequence of requests of up to 255 KiB, sent over the plain connection
  in TCP segments of any sizes, with pauses anywhere, the receive loop grows its buffer as needed, does not drop the connection, and
  after finitely many rounds it has dispatched exactly these requests and has consumed all input.
\<close>

theorem requests_framed:
  assumes "plain_handlers log should_stop dispatch" "\<forall>n. mem n" "plain_calm s" "\<not> cn_encrypted_mode conn"
    and "\<forall>(ls, body) \<in> set rs. valid_request ls body"
    and "stream s = concat (map (\<lambda>(ls, body). lines_text ls @ crlf @ body) rs)"
  shows "\<exists>n w' s' conn' cap. client_loop L mem should_stop dispatch n False (w, s, conn) [] RTSP_BUFFER_INITIAL = Inr ((w', s', conn'), [], cap)
    \<and> log w' = log w @ map (\<lambda>(ls, body). lines_text ls @ crlf @ body) rs \<and> so_in s' = []"
proof -
  let ?f = "\<lambda>(ls, body). lines_text ls @ crlf @ body"
  have "\<forall>(w, m) \<in> set (map (\<lambda>r. (?f r, ?f r)) rs). \<forall>x. rtsp_look (w @ x) = Msg m x"
    using assms(5) valid_request_look by fastforce
  then have "drains rtsp_look (concat (map fst (map (\<lambda>r. (?f r, ?f r)) rs)) @ []) (map snd (map (\<lambda>r. (?f r, ?f r)) rs)) []"
    by (rule rtsp.drains_concat) (simp add: rtsp_look_def)
  then have "drains rtsp_look ([] @ stream s) (map ?f rs) []" using assms(6) by (simp add: comp_def)
  moreover have "\<forall>m \<in> set (map ?f rs). length m \<le> 261120" using assms(5) by (auto simp: valid_request_def)
  ultimately show ?thesis
    by (intro plain_run [OF assms(1-3)]) (use assms(4) in \<open>simp_all add: rtsp_look_def RTSP_BUFFER_INITIAL_def RTSP_BUFFER_LARGE_def\<close>)
qed

definition demo_request :: "bytes list" where
  "demo_request = [asc ''OPTIONS * RTSP/1.0'', asc ''CSeq: 1'']"

definition demo_dispatch :: "bytes list client \<Rightarrow> bytes \<Rightarrow> bytes list client" where
  "demo_dispatch c m = (case c of (w, s, conn) \<Rightarrow> (w @ [m], s, conn))"

theorem requests_framed_witness:
  "\<exists>n w' s' conn' cap. client_loop demo_lib (\<lambda>_. True) (\<lambda>_. False) demo_dispatch n False
      ([], demo_sock\<lparr>so_in := [Arrive (take 9 (lines_text demo_request @ crlf)), Error EAGAIN,
         Arrive (drop 9 (lines_text demo_request @ crlf) @ lines_text demo_request), Arrive crlf]\<rparr>, rtsp_conn_create) [] RTSP_BUFFER_INITIAL
      = Inr ((w', s', conn'), [], cap) \<and> w' = [lines_text demo_request @ crlf, lines_text demo_request @ crlf]"
proof -
  let ?s = "demo_sock\<lparr>so_in := [Arrive (take 9 (lines_text demo_request @ crlf)), Error EAGAIN,
         Arrive (drop 9 (lines_text demo_request @ crlf) @ lines_text demo_request), Arrive crlf]\<rparr>"
  have "valid_request demo_request []"
    by (simp add: valid_request_def demo_request_def line_ok_def rtsp_parse_content_length_def starts_def crlf_def)
  moreover have "plain_handlers (\<lambda>w. w) (\<lambda>_. False) demo_dispatch" by (simp add: plain_handlers_def demo_dispatch_def)
  moreover have "plain_calm ?s" by (simp add: plain_calm_def)
  moreover have "stream ?s = (lines_text demo_request @ crlf) @ lines_text demo_request @ crlf"
    by (simp add: stream_def del: take_append drop_append)
  moreover have "\<not> cn_encrypted_mode rtsp_conn_create" by (simp add: rtsp_conn_create_def)
  ultimately obtain n w' s' conn' cap where
    "client_loop demo_lib (\<lambda>_. True) (\<lambda>_. False) demo_dispatch n False ([], ?s, rtsp_conn_create) [] RTSP_BUFFER_INITIAL = Inr ((w', s', conn'), [], cap)"
    "w' = [] @ map (\<lambda>(ls, body). lines_text ls @ crlf @ body) [(demo_request, []), (demo_request, [])]"
    using requests_framed [of "\<lambda>w. w" "\<lambda>_. False" demo_dispatch "\<lambda>_. True" ?s rtsp_conn_create "[(demo_request, []), (demo_request, [])]" demo_lib "[]"]
    by (auto simp del: client_loop.simps take_append drop_append)
  then show ?thesis by (intro exI [of _ n] exI [of _ w'] exI [of _ s'] exI [of _ conn'] exI [of _ cap]) simp
qed

text \<open>The limits disagree: the parser accepts messages of up to 256 KiB, but a buffer with less than 1 KiB free ends the connection.\<close>

lemma full_buffer_disconnects:
  "261120 \<le> length buf \<Longrightarrow> plain_round mem should_stop dispatch c buf RTSP_BUFFER_LARGE = Inl c"
  by (auto simp: plain_round_def ensure_room_def RTSP_BUFFER_LARGE_def split: prod.split)

section \<open>A forged block does not end the connection\<close>

text \<open>The socket had a timeout before, as on every connection that was idle for a second, and has seen no other error since.\<close>

definition idle_before :: "sock \<Rightarrow> bool" where
  "idle_before s \<longleftrightarrow> so_errno s = EAGAIN \<and> (\<forall>e \<in> set (so_in s). (\<exists>bs. e = Arrive bs) \<or> e = Error EAGAIN)"

lemma recv_idle: "idle_before s \<Longrightarrow> recv s n = (r, s') \<Longrightarrow> idle_before s'"
  by (auto simp: recv_def idle_before_def split: list.splits net_event.splits if_splits)

lemma recv_loop_idle: "idle_before s \<Longrightarrow> recv_loop retry s n acc = (r, s') \<Longrightarrow> idle_before s'"
proof (induction retry s n acc arbitrary: r s' rule: recv_loop.induct)
  case (1 retry s n acc)
  obtain q s1 where q: "recv s (n - length acc) = (q, s1)" by fastforce
  note idle = recv_idle [OF 1(3) q]
  show ?case
  proof (cases "n \<le> length acc")
    case False
    then show ?thesis
      using 1(1) [OF False q [symmetric]] 1(2) [OF False q [symmetric]] 1(4) q idle
      by (subst (asm) (3) recv_loop.simps) (auto split: recv_result.splits if_splits)
  qed (use 1(3,4) in \<open>simp add: recv_loop.simps\<close>)
qed

lemma recv_exact_idle: "idle_before s \<Longrightarrow> recv_exact s n acc = (r, s') \<Longrightarrow> idle_before s'"
  unfolding recv_exact_def by (rule recv_loop_idle)

lemma idle_calm: "idle_before s \<Longrightarrow> calm s"
  by (auto simp: idle_before_def steady_def retryable_def)

text \<open>
  Authentication failures are not fatal: \<open>rtsp_crypto_read_block\<close> reports a block that does not decrypt like any other error, and the loop tells
  errors from timeouts by an \<open>errno\<close> that no call has set since the last timeout. After any idle second a forged
  block of up to 1024 bytes is skipped, with the session keys and counters as before, and the connection goes on.
\<close>

theorem forged_block_skipped:
  assumes "cn_hap_session conn = Some h" "cn_encrypted_mode conn" "idle_before s" "\<forall>s'. \<not> should_stop (w, s', conn)"
    and "stream s = len_header n @ c @ rest" "0 < n" "n \<le> 1024" "length c = n + 16"
    and "cl_open L (decrypt_key h) (counter_nonce (decrypt_nonce h)) (len_header n) c = None"
    and "\<forall>k. mem k" "length buf + 1024 < cap"
  shows "\<exists>s'. encrypted_round L mem should_stop dispatch (w, s, conn) buf cap = Inr ((w, s', conn), buf, cap) \<and> stream s' = rest \<and> idle_before s'"
proof -
  obtain s1 where s1: "recv_exact s 2 [] = (Some (len_header n), s1)" "stream s1 = c @ rest"
    using recv_exact_stream [OF idle_calm [OF assms(3)], of "[]" 2] assms(5) by auto
  have i1: "idle_before s1" by (rule recv_exact_idle [OF assms(3) s1(1)])
  obtain s2 where s2: "recv_exact s1 (n + 16) [] = (Some c, s2)" "stream s2 = rest"
    using recv_exact_stream [OF idle_calm [OF i1], of "[]" "n + 16"] s1(2) assms(8) by auto
  have i2: "idle_before s2" by (rule recv_exact_idle [OF i1 s2(1)])
  have "rtsp_crypto_read_block L mem s conn (cap - length buf) = (None, s2, conn)"
    using assms(1,2,6,7,9,10,11) s1(1) s2(1) len_header_value [OF assms(7)]
    by (simp add: rtsp_crypto_read_block_def RTSP_ENCRYPTED_BLOCK_MAX_def Let_def)
  moreover have "ensure_room mem (length buf) cap = Some cap"
  proof -
    have "\<not> cap - 1024 \<le> length buf" using assms(11) by linarith
    then show ?thesis by (simp add: ensure_room_def)
  qed
  ultimately have "encrypted_round L mem should_stop dispatch (w, s, conn) buf cap = Inr ((w, s2, conn), buf, cap)"
    using assms(4,10) i2 by (simp add: encrypted_round_def idle_before_def)
  then show ?thesis using s2(2) i2 by blast
qed

theorem forged_block_skipped_witness:
  "\<exists>s'. encrypted_round demo_lib (\<lambda>_. True) (\<lambda>_. False) demo_dispatch
     ([], demo_sock\<lparr>so_in := [Error EAGAIN, Arrive (len_header 1 @ replicate 17 7)]\<rparr>, demo_conn) [] 4096
     = Inr (([], s', demo_conn), [], 4096)"
proof -
  let ?s = "demo_sock\<lparr>so_in := [Error EAGAIN, Arrive (len_header 1 @ replicate 17 7)]\<rparr>"
  have "idle_before ?s" "stream ?s = len_header 1 @ replicate 17 7 @ []" by (simp_all add: idle_before_def stream_def demo_sock_def)
  moreover have "cl_open demo_lib (decrypt_key (hap_session_create ([], []) ([], []))) (counter_nonce (decrypt_nonce (hap_session_create ([], []) ([], []))))
      (len_header 1) (replicate 17 7) = None"
    by code_simp
  ultimately show ?thesis
    using forged_block_skipped [of demo_conn "hap_session_create ([], []) ([], [])" ?s "\<lambda>_. False" "[]" 1 "replicate 17 7" "[]" demo_lib "\<lambda>_. True" "[]" 4096 demo_dispatch]
    by (auto simp: demo_conn_def)
qed

end
