(* ===== verification/Tlv8.thy ===== *)
theory Tlv8
  imports Prelude
begin

text \<open>
  The TLV8 codec of the HomeKit pairing messages (\<open>main/hap/tlv8.c\<close>). An encoder is the
  bytes it has written so far (\<open>buffer[0..size)\<close>) and its capacity. Values longer than
  255 bytes are split into fragments of the same type; \<open>tlv8_decode_concat\<close> joins the
  fragments of one run again.
\<close>

section \<open>The model\<close>

record tlv8_encoder =
  buffer :: bytes
  capacity :: nat

definition tlv8_encoder_init :: "nat \<Rightarrow> tlv8_encoder" where
  "tlv8_encoder_init cap = \<lparr>buffer = [], capacity = cap\<rparr>"

definition tlv8_encoder_size :: "tlv8_encoder \<Rightarrow> nat" where
  "tlv8_encoder_size enc = length (buffer enc)"

text \<open>
  One iteration per fragment. The result is the flag the function returns and the
  encoder, which keeps the fragments already written when space runs out.
\<close>

function tlv8_encode_loop :: "tlv8_encoder \<Rightarrow> u8 \<Rightarrow> bytes \<Rightarrow> nat \<Rightarrow> bool \<times> tlv8_encoder" where
  "tlv8_encode_loop enc type value offset =
     (if offset < length value \<or> (offset = 0 \<and> length value = 0) then
        let chunk_len = min (length value - offset) 255 in
        if length (buffer enc) + 2 + chunk_len > capacity enc then (False, enc)
        else
          let enc' = enc\<lparr>buffer := buffer enc @ [type, of_nat chunk_len]
                                     @ take chunk_len (drop offset value)\<rparr> in
          if length value = 0 then (True, enc')
          else tlv8_encode_loop enc' type value (offset + chunk_len)
      else (True, enc))"
  by pat_completeness auto
termination
  by (relation "measure (\<lambda>(enc, type, value, offset). length value - offset)") auto

declare tlv8_encode_loop.simps [simp del]

definition tlv8_encode :: "tlv8_encoder \<Rightarrow> u8 \<Rightarrow> bytes \<Rightarrow> bool \<times> tlv8_encoder" where
  "tlv8_encode enc type value = tlv8_encode_loop enc type value 0"

definition tlv8_encode_byte :: "tlv8_encoder \<Rightarrow> u8 \<Rightarrow> u8 \<Rightarrow> bool \<times> tlv8_encoder" where
  "tlv8_encode_byte enc type value = tlv8_encode enc type [value]"

text \<open>The result of \<open>tlv8_find\<close> is the position and the length of the value.\<close>

function tlv8_find_loop :: "bytes \<Rightarrow> u8 \<Rightarrow> nat \<Rightarrow> (nat \<times> nat) cres" where
  "tlv8_find_loop data type offset =
     (if offset + 2 \<le> length data then
        cbind (rd data offset) (\<lambda>t.
        cbind (rd data (offset + 1)) (\<lambda>l.
          if offset + 2 + unat l > length data then Fail
          else if t = type then Done (offset + 2, unat l)
          else tlv8_find_loop data type (offset + 2 + unat l)))
      else Fail)"
  by pat_completeness auto
termination
  by (relation "measure (\<lambda>(data, type, offset). length data - offset)") auto

declare tlv8_find_loop.simps [simp del]

definition tlv8_find :: "bytes \<Rightarrow> u8 \<Rightarrow> (nat \<times> nat) cres" where
  "tlv8_find data type = tlv8_find_loop data type 0"

function tlv8_concat_loop ::
    "bytes \<Rightarrow> u8 \<Rightarrow> nat \<Rightarrow> nat \<Rightarrow> bytes \<Rightarrow> bool \<Rightarrow> bool \<Rightarrow> bytes cres" where
  "tlv8_concat_loop data type out_capacity offset out found in_sequence =
     (if offset + 2 \<le> length data then
        cbind (rd data offset) (\<lambda>t.
        cbind (rd data (offset + 1)) (\<lambda>l.
          if offset + 2 + unat l > length data then (if found then Done out else Fail)
          else if t = type then
            (if length out + unat l > out_capacity then Fail
             else cbind (slice data (offset + 2) (unat l)) (\<lambda>chunk.
                  tlv8_concat_loop data type out_capacity (offset + 2 + unat l)
                    (out @ chunk) True True))
          else if in_sequence then (if found then Done out else Fail)
          else tlv8_concat_loop data type out_capacity (offset + 2 + unat l) out found in_sequence))
      else (if found then Done out else Fail))"
  by pat_completeness auto
termination
  by (relation "measure (\<lambda>(data, type, cap, offset, out, found, in_seq). length data - offset)") auto

declare tlv8_concat_loop.simps [simp del]

definition tlv8_decode_concat :: "bytes \<Rightarrow> u8 \<Rightarrow> nat \<Rightarrow> bytes cres" where
  "tlv8_decode_concat data type out_capacity =
     tlv8_concat_loop data type out_capacity 0 [] False False"

text \<open>The messages of the pairing handlers: several values encoded one after the other.\<close>

fun tlv8_encode_all :: "tlv8_encoder \<Rightarrow> (u8 \<times> bytes) list \<Rightarrow> bool \<times> tlv8_encoder" where
  "tlv8_encode_all enc [] = (True, enc)"
| "tlv8_encode_all enc ((t, v) # items) =
     (case tlv8_encode enc t v of
        (ok, enc') \<Rightarrow> if ok then tlv8_encode_all enc' items else (False, enc'))"

section \<open>Specification: the fragments of a value\<close>

fun fragments :: "u8 \<Rightarrow> bytes \<Rightarrow> bytes" where
  "fragments t v =
     (if length v \<le> 255 then t # of_nat (length v) # v
      else t # 255 # take 255 v @ fragments t (drop 255 v))"

declare fragments.simps [simp del]

definition tlv8_enc_ok :: "tlv8_encoder \<Rightarrow> bool" where
  "tlv8_enc_ok enc \<longleftrightarrow> length (buffer enc) \<le> capacity enc"

lemma unat_fragment_len [simp]: "n \<le> 255 \<Longrightarrow> unat (of_nat n :: u8) = n"
  by (simp add: unat_of_nat)

lemma fragments_min: "2 \<le> length (fragments t v)"
  by (subst fragments.simps) simp

text \<open>Behaviour of the encoder loop from an offset inside the value.\<close>

lemma encode_loop_fits:
  assumes "offset < length v \<or> (offset = 0 \<and> v = [])"
    and "length (buffer enc) + length (fragments t (drop offset v)) \<le> capacity enc"
  shows "tlv8_encode_loop enc t v offset =
           (True, enc\<lparr>buffer := buffer enc @ fragments t (drop offset v)\<rparr>)"
  using assms
proof (induction enc t v offset rule: tlv8_encode_loop.induct)
  case (1 enc t v offset)
  show ?case
  proof (cases "length v - offset \<le> 255")
    case True
    then have f: "fragments t (drop offset v) = t # of_nat (length v - offset) # drop offset v"
      by (subst fragments.simps) simp
    show ?thesis using 1(2,3) True
      by (subst tlv8_encode_loop.simps)
        (auto simp: f min_def Let_def tlv8_encode_loop.simps [of _ _ _ "length v"])
  next
    case False
    define enc' where "enc' = enc\<lparr>buffer := buffer enc @ [t, 255] @ take 255 (drop offset v)\<rparr>"
    have f: "fragments t (drop offset v) =
               t # 255 # take 255 (drop offset v) @ fragments t (drop (offset + 255) v)"
      using False by (subst fragments.simps) (simp add: add.commute)
    have lt: "offset + 255 < length v" "v \<noteq> []" using False by auto
    have "tlv8_encode_loop enc' t v (offset + 255) =
            (True, enc'\<lparr>buffer := buffer enc' @ fragments t (drop (offset + 255) v)\<rparr>)"
      using 1(1) 1(2,3) lt False f by (simp add: enc'_def min_def)
    moreover have "tlv8_encode_loop enc t v offset = tlv8_encode_loop enc' t v (offset + 255)"
      using 1(2,3) False f
      by (subst tlv8_encode_loop.simps) (auto simp: enc'_def min_def Let_def)
    ultimately show ?thesis by (simp add: f enc'_def)
  qed
qed

lemma encode_loop_overflows:
  assumes "offset < length v \<or> (offset = 0 \<and> v = [])"
    and "capacity enc < length (buffer enc) + length (fragments t (drop offset v))"
  shows "\<not> fst (tlv8_encode_loop enc t v offset)"
  using assms
proof (induction enc t v offset rule: tlv8_encode_loop.induct)
  case (1 enc t v offset)
  show ?case
  proof (cases "length v - offset \<le> 255")
    case True
    then have "length (fragments t (drop offset v)) = 2 + (length v - offset)"
      by (subst fragments.simps) simp
    then show ?thesis using 1(2,3) True
      by (subst tlv8_encode_loop.simps) (auto simp: min_def Let_def)
  next
    case False
    then have f: "length (fragments t (drop offset v)) =
               257 + length (fragments t (drop (offset + 255) v))"
      by (subst fragments.simps) (simp add: add.commute)
    show ?thesis using 1 False f
      by (subst tlv8_encode_loop.simps) (auto simp: min_def Let_def)
  qed
qed

lemma encode_loop_keeps:
  "\<exists>ext. buffer (snd (tlv8_encode_loop enc t v offset)) = buffer enc @ ext \<and>
     capacity (snd (tlv8_encode_loop enc t v offset)) = capacity enc \<and>
     (tlv8_enc_ok enc \<longrightarrow> tlv8_enc_ok (snd (tlv8_encode_loop enc t v offset)))"
proof (induction enc t v offset rule: tlv8_encode_loop.induct)
  case (1 enc t v offset)
  show ?case
    by (subst (1 2 3) tlv8_encode_loop.simps)
      (use 1 in \<open>fastforce simp: Let_def tlv8_enc_ok_def\<close>)
qed

section \<open>Decoding a run of fragments\<close>

text \<open>The three situations of the decoder at the start of a run: skip, collect, stop.\<close>

lemma concat_loop_skip:
  assumes "t' \<noteq> t"
  shows "tlv8_concat_loop (pre @ fragments t' v @ rest) t cap (length pre) out found False =
         tlv8_concat_loop (pre @ fragments t' v @ rest) t cap
           (length pre + length (fragments t' v)) out found False"
  using assms
proof (induction t' v arbitrary: pre rule: fragments.induct)
  case (1 t' v)
  show ?case
  proof (cases "length v \<le> 255")
    case True
    then show ?thesis using 1(2)
      by (subst tlv8_concat_loop.simps)
        (simp add: fragments.simps [of t' v] rd_def nth_append)
  next
    case False
    let ?c = "t' # 255 # take 255 v"
    have f: "fragments t' v = ?c @ fragments t' (drop 255 v)"
      using False by (subst fragments.simps) simp
    have IH: "tlv8_concat_loop ((pre @ ?c) @ fragments t' (drop 255 v) @ rest) t cap
                (length (pre @ ?c)) out found False =
              tlv8_concat_loop ((pre @ ?c) @ fragments t' (drop 255 v) @ rest) t cap
                (length (pre @ ?c) + length (fragments t' (drop 255 v))) out found False"
      using 1(1) [of "pre @ ?c"] 1(2) False by simp
    have "tlv8_concat_loop (pre @ fragments t' v @ rest) t cap (length pre) out found False =
          tlv8_concat_loop (pre @ fragments t' v @ rest) t cap (257 + length pre) out found False"
      using False 1(2)
      by (subst tlv8_concat_loop.simps) (simp add: f rd_def nth_append)
    with IH False show ?thesis by (simp add: f add.assoc add.commute)
  qed
qed

lemma concat_loop_collect:
  assumes "length out + length v \<le> cap"
  shows "tlv8_concat_loop (pre @ fragments t v @ rest) t cap (length pre) out found inseq =
         tlv8_concat_loop (pre @ fragments t v @ rest) t cap
           (length pre + length (fragments t v)) (out @ v) True True"
  using assms
proof (induction t v arbitrary: pre out found inseq rule: fragments.induct)
  case (1 t v)
  show ?case
  proof (cases "length v \<le> 255")
    case True
    then show ?thesis using 1(2)
      by (subst tlv8_concat_loop.simps)
        (simp add: fragments.simps [of t v] rd_def slice_def nth_append)
  next
    case False
    let ?c = "t # 255 # take 255 v"
    have f: "fragments t v = ?c @ fragments t (drop 255 v)"
      using False by (subst fragments.simps) simp
    have IH: "tlv8_concat_loop ((pre @ ?c) @ fragments t (drop 255 v) @ rest) t cap
                (length (pre @ ?c)) (out @ take 255 v) True True =
              tlv8_concat_loop ((pre @ ?c) @ fragments t (drop 255 v) @ rest) t cap
                (length (pre @ ?c) + length (fragments t (drop 255 v)))
                ((out @ take 255 v) @ drop 255 v) True True"
      using 1(1) [of "out @ take 255 v" "pre @ ?c"] 1(2) False by simp
    have "tlv8_concat_loop (pre @ fragments t v @ rest) t cap (length pre) out found inseq =
          tlv8_concat_loop (pre @ fragments t v @ rest) t cap (257 + length pre)
            (out @ take 255 v) True True"
      using False 1(2)
      by (subst tlv8_concat_loop.simps) (simp add: f rd_def slice_def nth_append)
    with IH False show ?thesis by (simp add: f add.assoc add.commute)
  qed
qed

lemma fragments_head: "\<exists>l tail. fragments t v = t # l # tail"
  by (subst fragments.simps) auto

lemma concat_loop_stop:
  assumes "rest = [] \<or> (\<exists>t' v rest'. t' \<noteq> t \<and> rest = fragments t' v @ rest')"
  shows "tlv8_concat_loop (pre @ rest) t cap (length pre) out True True = Done out"
proof (cases "rest = []")
  case True
  then show ?thesis by (subst tlv8_concat_loop.simps) simp
next
  case False
  with assms obtain t' l tail where "t' \<noteq> t" "rest = t' # l # tail"
    using fragments_head by (metis append_Cons)
  then show ?thesis
    by (subst tlv8_concat_loop.simps) (simp add: rd_def nth_append)
qed

section \<open>A whole message\<close>

definition message :: "(u8 \<times> bytes) list \<Rightarrow> bytes" where
  "message items = concat (map (\<lambda>(t, v). fragments t v) items)"

lemma message_simps [simp]:
  "message [] = []" "message ((t, v) # items) = fragments t v @ message items"
  "message (xs @ ys) = message xs @ message ys"
  by (simp_all add: message_def)

lemma encode_spec:
  "tlv8_encode enc t v =
     (if length (buffer enc) + length (fragments t v) \<le> capacity enc
      then (True, enc\<lparr>buffer := buffer enc @ fragments t v\<rparr>)
      else (False, snd (tlv8_encode enc t v)))"
  using encode_loop_fits [of 0 v enc t] encode_loop_overflows [of 0 v enc t]
  by (auto simp: tlv8_encode_def prod_eq_iff)

lemma encode_all_message:
  "tlv8_encode_all enc items = (True, enc') \<Longrightarrow>
     buffer enc' = buffer enc @ message items \<and> capacity enc' = capacity enc"
proof (induction items arbitrary: enc)
  case Nil
  then show ?case by simp
next
  case (Cons x items)
  obtain t v where x: "x = (t, v)" by (cases x)
  from Cons.prems have fits: "length (buffer enc) + length (fragments t v) \<le> capacity enc"
    by (subst (asm) x, subst (asm) tlv8_encode_all.simps, subst (asm) encode_spec)
      (auto split: if_splits)
  then have "tlv8_encode enc t v = (True, enc\<lparr>buffer := buffer enc @ fragments t v\<rparr>)"
    by (subst encode_spec) simp
  with Cons show ?case by (simp add: x)
qed

lemma skip_items:
  "t \<notin> fst ` set items \<Longrightarrow>
     tlv8_concat_loop (pre @ message items @ rest) t cap (length pre) out found False =
     tlv8_concat_loop (pre @ message items @ rest) t cap (length (pre @ message items)) out found False"
proof (induction items arbitrary: pre)
  case Nil
  then show ?case by simp
next
  case (Cons x items)
  obtain t' v where x: "x = (t', v)" by (cases x)
  with Cons.prems have "t' \<noteq> t" by auto
  then have "tlv8_concat_loop (pre @ fragments t' v @ message items @ rest) t cap (length pre) out found False =
        tlv8_concat_loop ((pre @ fragments t' v) @ message items @ rest) t cap
          (length (pre @ fragments t' v)) out found False"
    using concat_loop_skip by simp
  also have "\<dots> = tlv8_concat_loop ((pre @ fragments t' v) @ message items @ rest) t cap
          (length ((pre @ fragments t' v) @ message items)) out found False"
    using Cons by (intro Cons.IH) simp
  finally show ?case by (simp add: x add.assoc)
qed

text \<open>
  The encoder never writes past its buffer: an encode succeeds exactly when the
  fragments of the value fit behind what is already written, and then appends exactly
  those fragments; when they do not fit it returns false, and in both cases the bytes
  already in the buffer are kept and the buffer stays within its capacity.
\<close>

theorem tlv8_encode_correct:
  assumes "tlv8_enc_ok enc"
  shows "(fst (tlv8_encode enc t v) \<longleftrightarrow>
            length (buffer enc) + length (fragments t v) \<le> capacity enc) \<and>
         (\<exists>ext. buffer (snd (tlv8_encode enc t v)) = buffer enc @ ext \<and>
            (fst (tlv8_encode enc t v) \<longrightarrow> ext = fragments t v)) \<and>
         tlv8_enc_ok (snd (tlv8_encode enc t v))"
proof (cases "length (buffer enc) + length (fragments t v) \<le> capacity enc")
  case True
  then have "tlv8_encode enc t v = (True, enc\<lparr>buffer := buffer enc @ fragments t v\<rparr>)"
    by (subst encode_spec) simp
  with True show ?thesis by (simp add: tlv8_enc_ok_def)
next
  case False
  then have "\<not> fst (tlv8_encode enc t v)" by (subst encode_spec) simp
  with False assms encode_loop_keeps [of enc t v 0] show ?thesis
    by (auto simp: tlv8_encode_def)
qed

theorem tlv8_encode_correct_witness:
  "tlv8_enc_ok (tlv8_encoder_init 8) \<and>
   \<not> fst (tlv8_encode (tlv8_encoder_init 8) 6 [1, 2, 3, 4, 5, 6, 7]) \<and>
   buffer (snd (tlv8_encode (tlv8_encoder_init 8) 6 [1])) = [6, 1, 1]"
proof -
  have h: "tlv8_enc_ok (tlv8_encoder_init 8)"
    by (simp add: tlv8_enc_ok_def tlv8_encoder_init_def)
  show ?thesis
    using h tlv8_encode_correct [OF h, of 6 "[1, 2, 3, 4, 5, 6, 7]"]
      tlv8_encode_correct [OF h, of 6 "[1]"]
    by (auto simp: fragments.simps [of _ "[1, 2, 3, 4, 5, 6, 7]"] fragments.simps [of _ "[1]"]
        tlv8_encoder_init_def)
qed

lemma decode_concat_message:
  assumes "distinct (map fst items)" "(t, v) \<in> set items" "length v \<le> out_capacity"
  shows "tlv8_decode_concat (message items) t out_capacity = Done v"
proof -
  from assms(2) obtain xs ys where items: "items = xs @ (t, v) # ys"
    by (meson split_list)
  with assms(1) have t: "t \<notin> fst ` set xs" "t \<notin> fst ` set ys" by auto
  have "tlv8_decode_concat (message items) t out_capacity =
        tlv8_concat_loop (message xs @ fragments t v @ message ys) t out_capacity
          (length (message xs)) [] False False"
    using skip_items [OF t(1), of "[]"] by (simp add: tlv8_decode_concat_def items)
  also have "\<dots> = tlv8_concat_loop ((message xs @ fragments t v) @ message ys) t out_capacity
          (length (message xs @ fragments t v)) v True True"
    using concat_loop_collect [of "[]" v out_capacity] assms(3) by simp
  also have "\<dots> = Done v"
  proof (rule concat_loop_stop)
    show "message ys = [] \<or> (\<exists>t' v rest'. t' \<noteq> t \<and> message ys = fragments t' v @ rest')"
    proof (cases ys)
      case (Cons y ys')
      moreover obtain t' v' where "y = (t', v')" by (cases y)
      moreover from this Cons t(2) have "t' \<noteq> t" by auto
      ultimately have "t' \<noteq> t \<and> message ys = fragments t' v' @ message ys'" by simp
      then show ?thesis by blast
    qed simp
  qed
  finally show ?thesis .
qed

text \<open>
  C2. Round trip of a pairing message: when values with pairwise different types
  have been encoded one after the other, \<open>tlv8_decode_concat\<close> returns exactly the value of
  each type that fits the output buffer, however long the value is and wherever it
  stands in the message.
\<close>

theorem tlv8_roundtrip:
  assumes "tlv8_encode_all (tlv8_encoder_init cap) items = (True, enc)"
    and "distinct (map fst items)"
    and "(t, v) \<in> set items"
    and "length v \<le> out_capacity"
  shows "tlv8_decode_concat (buffer enc) t out_capacity = Done v"
  using encode_all_message [OF assms(1)] decode_concat_message [OF assms(2-4)] by (simp add: tlv8_encoder_init_def)

theorem tlv8_roundtrip_witness:
  "tlv8_decode_concat (buffer (snd (tlv8_encode_all (tlv8_encoder_init 64) [(6, [2]), (3, [7, 8])]))) 3 512
     = Done [7, 8]"
proof -
  have run: "tlv8_encode_all (tlv8_encoder_init 64) [(6, [2]), (3, [7, 8])] =
          (True, snd (tlv8_encode_all (tlv8_encoder_init 64) [(6, [2]), (3, [7, 8])]))"
    by code_simp
  show ?thesis by (rule tlv8_roundtrip [OF run]) auto
qed

section \<open>Safety of the decoders\<close>

lemma find_loop_outcome:
  "outcome (\<lambda>(pos, len). pos + len \<le> length data) (tlv8_find_loop data t offset)"
proof (induction data t offset rule: tlv8_find_loop.induct)
  case (1 data t offset)
  then show ?case
    by (subst tlv8_find_loop.simps) (auto simp: rd_def)
qed

lemma concat_loop_outcome:
  "length out \<le> cap \<Longrightarrow>
     outcome (\<lambda>s. length s \<le> cap) (tlv8_concat_loop data t cap offset out found inseq)"
proof (induction data t cap offset out found inseq rule: tlv8_concat_loop.induct)
  case (1 data t cap offset out found inseq)
  then show ?case
    by (subst tlv8_concat_loop.simps) (auto simp: rd_def slice_def)
qed

section \<open>Messages as the pairing handlers use them\<close>

text \<open>The handlers ignore the result of the encoder: a value that does not fit is left out in part or as a whole.\<close>

definition tlv8_encode_seq :: "nat \<Rightarrow> (u8 \<times> bytes) list \<Rightarrow> bytes" where
  "tlv8_encode_seq cap items = buffer (foldl (\<lambda>enc (t, v). snd (tlv8_encode enc t v)) (tlv8_encoder_init cap) items)"

lemma encode_seq_loop:
  "length (buffer enc) + length (message items) \<le> capacity enc \<Longrightarrow>
     buffer (foldl (\<lambda>enc (t, v). snd (tlv8_encode enc t v)) enc items) = buffer enc @ message items"
proof (induction items arbitrary: enc)
  case (Cons x items)
  obtain t v where x: "x = (t, v)" by (cases x)
  have "tlv8_encode enc t v = (True, enc\<lparr>buffer := buffer enc @ fragments t v\<rparr>)"
    using Cons.prems by (subst encode_spec) (simp add: x)
  then show ?case using Cons by (simp add: x)
qed simp

lemma encode_seq_message: "length (message items) \<le> cap \<Longrightarrow> tlv8_encode_seq cap items = message items"
  using encode_seq_loop [of "tlv8_encoder_init cap" items] by (simp add: tlv8_encode_seq_def tlv8_encoder_init_def)

lemma encode_seq_bound: "length (tlv8_encode_seq cap items) \<le> cap"
proof -
  have "tlv8_enc_ok enc \<Longrightarrow> tlv8_enc_ok (foldl (\<lambda>enc (t, v). snd (tlv8_encode enc t v)) enc items)
      \<and> capacity (foldl (\<lambda>enc (t, v). snd (tlv8_encode enc t v)) enc items) = capacity enc" for enc
  proof (induction items arbitrary: enc)
    case (Cons x items)
    obtain t v where x: "x = (t, v)" by (cases x)
    show ?case using Cons.IH [of "snd (tlv8_encode enc t v)"] encode_loop_keeps [of enc t v 0] Cons.prems
      by (auto simp: x tlv8_encode_def)
  qed simp
  from this [of "tlv8_encoder_init cap"] show ?thesis
    by (simp add: tlv8_encode_seq_def tlv8_enc_ok_def tlv8_encoder_init_def)
qed

text \<open>The value \<open>tlv8_find\<close> points to.\<close>

definition tlv8_get :: "bytes \<Rightarrow> u8 \<Rightarrow> bytes cres" where
  "tlv8_get data type = cbind (tlv8_find data type) (\<lambda>(pos, len). slice data pos len)"

lemma tlv8_get_outcome: "outcome (\<lambda>_. True) (tlv8_get data type)"
  unfolding tlv8_get_def tlv8_find_def
  by (rule outcome_cbind [OF find_loop_outcome]) (auto simp: slice_def)

lemma find_loop_skip:
  "t' \<noteq> t \<Longrightarrow> tlv8_find_loop (pre @ fragments t' v @ rest) t (length pre)
     = tlv8_find_loop (pre @ fragments t' v @ rest) t (length pre + length (fragments t' v))"
proof (induction t' v arbitrary: pre rule: fragments.induct)
  case (1 t' v)
  show ?case
  proof (cases "length v \<le> 255")
    case True
    then show ?thesis using 1(2)
      by (subst tlv8_find_loop.simps) (simp add: fragments.simps [of t' v] rd_def nth_append)
  next
    case False
    let ?c = "t' # 255 # take 255 v"
    have f: "fragments t' v = ?c @ fragments t' (drop 255 v)"
      using False by (subst fragments.simps) simp
    have IH: "tlv8_find_loop ((pre @ ?c) @ fragments t' (drop 255 v) @ rest) t (length (pre @ ?c))
        = tlv8_find_loop ((pre @ ?c) @ fragments t' (drop 255 v) @ rest) t (length (pre @ ?c) + length (fragments t' (drop 255 v)))"
      using 1(1) [of "pre @ ?c"] 1(2) False by simp
    have "tlv8_find_loop (pre @ fragments t' v @ rest) t (length pre) = tlv8_find_loop (pre @ fragments t' v @ rest) t (257 + length pre)"
      using False 1(2) by (subst tlv8_find_loop.simps) (simp add: f rd_def nth_append)
    with IH False show ?thesis by (simp add: f add.assoc add.commute)
  qed
qed

lemma find_loop_message:
  assumes "length v \<le> 255"
  shows "t \<notin> fst ` set xs \<Longrightarrow> tlv8_find_loop (pre @ message xs @ fragments t v @ rest) t (length pre)
    = Done (length pre + length (message xs) + 2, length v)"
proof (induction xs arbitrary: pre)
  case Nil
  then show ?case using assms
    by (subst tlv8_find_loop.simps) (simp add: fragments.simps [of t v] rd_def nth_append)
next
  case (Cons x xs)
  obtain t' v' where x: "x = (t', v')" by (cases x)
  with Cons have "t' \<noteq> t" by auto
  then have "tlv8_find_loop (pre @ fragments t' v' @ message xs @ fragments t v @ rest) t (length pre)
      = tlv8_find_loop ((pre @ fragments t' v') @ message xs @ fragments t v @ rest) t (length (pre @ fragments t' v'))"
    using find_loop_skip by simp
  also have "\<dots> = Done (length (pre @ fragments t' v') + length (message xs) + 2, length v)"
    using Cons by (intro Cons.IH) simp
  finally show ?case by (simp add: x add.assoc)
qed

lemma tlv8_get_message:
  assumes "distinct (map fst items)" "(t, v) \<in> set items" "length v \<le> 255"
  shows "tlv8_get (message items) t = Done v"
proof -
  from assms(2) obtain xs ys where items: "items = xs @ (t, v) # ys" by (meson split_list)
  with assms(1) have "t \<notin> fst ` set xs" by auto
  from find_loop_message [OF assms(3) this, of "[]" "message ys"]
  show ?thesis using assms(3) by (simp add: tlv8_get_def tlv8_find_def items slice_def fragments.simps [of t v])
qed

lemma fragments_short: "length v \<le> 255 \<Longrightarrow> length (fragments t v) = length v + 2"
  by (simp add: fragments.simps [of t v])

text \<open>
  Memory safety of the TLV8 decoders on any input: no byte outside the message is
  read, a value found by \<open>tlv8_find\<close> lies inside the message, and \<open>tlv8_decode_concat\<close>
  never writes more than the capacity of its output buffer.
\<close>

theorem tlv8_decoders_safe:
  "outcome (\<lambda>(pos, len). pos + len \<le> length data) (tlv8_find data t) \<and>
   outcome (\<lambda>s. length s \<le> cap) (tlv8_decode_concat data t cap)"
  by (simp add: tlv8_find_def find_loop_outcome tlv8_decode_concat_def concat_loop_outcome)

end
