(* ===== verification/Hap_Pairing.thy ===== *)
theory Hap_Pairing
  imports Hap_Session Tlv8 C_String
begin

text \<open>
  The pairing handlers (\<open>main/hap/hap_pair_setup.c\<close>, \<open>main/hap/hap_pair_verify.c\<close>). A handler returns the error code, the
  bytes of its answer and the session. Random numbers, the MAC address of the device and the outcome of an allocation are arguments.
\<close>

section \<open>The model\<close>

definition TLV_TYPE_IDENTIFIER :: u8 where "TLV_TYPE_IDENTIFIER = 0x01"
definition TLV_TYPE_SALT :: u8 where "TLV_TYPE_SALT = 0x02"
definition TLV_TYPE_PUBLIC_KEY :: u8 where "TLV_TYPE_PUBLIC_KEY = 0x03"
definition TLV_TYPE_PROOF :: u8 where "TLV_TYPE_PROOF = 0x04"
definition TLV_TYPE_ENCRYPTED_DATA :: u8 where "TLV_TYPE_ENCRYPTED_DATA = 0x05"
definition TLV_TYPE_STATE :: u8 where "TLV_TYPE_STATE = 0x06"
definition TLV_TYPE_ERROR :: u8 where "TLV_TYPE_ERROR = 0x07"
definition TLV_TYPE_SIGNATURE :: u8 where "TLV_TYPE_SIGNATURE = 0x0A"
definition TLV_TYPE_FLAGS :: u8 where "TLV_TYPE_FLAGS = 0x13"
definition TLV_ERROR_AUTHENTICATION :: u8 where "TLV_ERROR_AUTHENTICATION = 0x02"

lemmas tlv_types = TLV_TYPE_IDENTIFIER_def TLV_TYPE_SALT_def TLV_TYPE_PUBLIC_KEY_def TLV_TYPE_PROOF_def TLV_TYPE_ENCRYPTED_DATA_def
  TLV_TYPE_STATE_def TLV_TYPE_ERROR_def TLV_TYPE_SIGNATURE_def TLV_TYPE_FLAGS_def

type_synonym hap_result = "(esp_err \<times> bytes \<times> hap_session) cres"

text \<open>The test of the state byte that every handler starts with.\<close>

definition state_is :: "bytes \<Rightarrow> u8 \<Rightarrow> bool cres" where
  "state_is input n =
     (case tlv8_get input TLV_TYPE_STATE of Fault \<Rightarrow> Fault | Fail \<Rightarrow> Done False | Done v \<Rightarrow> Done (v = [n]))"

subsection \<open>Pair-setup\<close>

definition transient_flag :: "bytes \<Rightarrow> bool cres" where
  "transient_flag input =
     (case tlv8_get input TLV_TYPE_FLAGS of
        Fault \<Rightarrow> Fault | Fail \<Rightarrow> Done False | Done flags \<Rightarrow> Done (length flags = 1 \<and> flags ! 0 AND 0x10 \<noteq> 0))"

definition hap_pair_setup_m1 :: "crypto_lib \<Rightarrow> bool \<Rightarrow> bytes \<Rightarrow> bytes \<Rightarrow> hap_session \<Rightarrow> bytes \<Rightarrow> nat \<Rightarrow> hap_result" where
  "hap_pair_setup_m1 L mem salt b_bytes session input output_capacity =
     cbind (state_is input 1) (\<lambda>ok.
     cbind (transient_flag input) (\<lambda>transient.
       if \<not> ok then Done (ESP_ERR_INVALID_ARG, [], session)
       else
         let session = session\<lparr>pair_setup_transient := transient\<rparr> in
         if \<not> mem then Done (ESP_ERR_NO_MEM, [], session\<lparr>srp := None\<rparr>)
         else
           case srp_start L salt b_bytes srp_session_create (asc ''Pair-Setup'') (if transient then asc ''3939'' else asc ''0000'') of
             (False, s) \<Rightarrow> Done (ESP_FAIL, [], session\<lparr>srp := Some s\<rparr>)
           | (True, s) \<Rightarrow>
               Done (ESP_OK,
                 tlv8_encode_seq output_capacity
                   [(TLV_TYPE_STATE, [2]), (TLV_TYPE_SALT, srp_salt s), (TLV_TYPE_PUBLIC_KEY, srp_server_public_key s)],
                 session\<lparr>srp := Some s, pair_setup_state := 2\<rparr>)))"

text \<open>The keys of the control channel for a shared secret.\<close>

definition read_key :: "crypto_lib \<Rightarrow> bytes \<Rightarrow> bytes" where
  "read_key L secret = hap_hkdf_sha512 L (asc ''Control-Salt'') secret (asc ''Control-Read-Encryption-Key'') 32"

definition write_key :: "crypto_lib \<Rightarrow> bytes \<Rightarrow> bytes" where
  "write_key L secret = hap_hkdf_sha512 L (asc ''Control-Salt'') secret (asc ''Control-Write-Encryption-Key'') 32"

definition transient_keys :: "crypto_lib \<Rightarrow> bytes \<Rightarrow> hap_session \<Rightarrow> hap_session" where
  "transient_keys L key session =
     session\<lparr>shared_secret := take 32 key, encrypt_key := read_key L key, decrypt_key := write_key L key,
       encrypt_nonce := 0, decrypt_nonce := 0, session_established := True\<rparr>"

definition hap_pair_setup_m3 :: "crypto_lib \<Rightarrow> hap_session \<Rightarrow> bytes \<Rightarrow> nat \<Rightarrow> hap_result" where
  "hap_pair_setup_m3 L session input output_capacity =
     (case srp session of
        None \<Rightarrow> Done (ESP_ERR_INVALID_STATE, [], session)
      | Some s \<Rightarrow>
          cbind (state_is input 3) (\<lambda>ok.
            if \<not> ok then Done (ESP_ERR_INVALID_ARG, [], session)
            else
              case tlv8_decode_concat input TLV_TYPE_PUBLIC_KEY 512 of
                Fault \<Rightarrow> Fault
              | Fail \<Rightarrow> Done (ESP_ERR_INVALID_ARG, [], session)
              | Done client_pk \<Rightarrow>
                  case tlv8_decode_concat input TLV_TYPE_PROOF 64 of
                    Fault \<Rightarrow> Fault
                  | Fail \<Rightarrow> Done (ESP_ERR_INVALID_ARG, [], session)
                  | Done client_proof \<Rightarrow>
                      case srp_verify_client L s client_pk client_proof of
                        (False, s) \<Rightarrow>
                          Done (ESP_OK, tlv8_encode_seq output_capacity [(TLV_TYPE_STATE, [4]), (TLV_TYPE_ERROR, [2])],
                            session\<lparr>srp := Some s\<rparr>)
                      | (True, s) \<Rightarrow>
                          let session = session\<lparr>srp := Some s\<rparr>;
                              key = (case srp_get_session_key s of Some key \<Rightarrow> key | None \<Rightarrow> []) in
                          if pair_setup_transient session \<and> key = [] then Done (ESP_ERR_INVALID_STATE, [], session)
                          else
                            Done (ESP_OK,
                              tlv8_encode_seq output_capacity
                                [(TLV_TYPE_STATE, [4]), (TLV_TYPE_PROOF, case srp_get_proof s of Some pr \<Rightarrow> pr | None \<Rightarrow> [])],
                              (if pair_setup_transient session then transient_keys L key session else session)\<lparr>pair_setup_state := 4\<rparr>)))"

definition hap_pair_setup_m5 :: "crypto_lib \<Rightarrow> hap_session \<Rightarrow> bytes \<Rightarrow> hap_result" where
  "hap_pair_setup_m5 L session input =
     (case srp session of
        None \<Rightarrow> Done (ESP_ERR_INVALID_STATE, [], session)
      | Some s \<Rightarrow>
          cbind (state_is input 5) (\<lambda>ok.
            if \<not> ok then Done (ESP_ERR_INVALID_ARG, [], session)
            else
              case tlv8_decode_concat input TLV_TYPE_ENCRYPTED_DATA 512 of
                Fault \<Rightarrow> Fault
              | Fail \<Rightarrow> Done (ESP_ERR_INVALID_ARG, [], session)
              | Done encrypted \<Rightarrow>
                  case srp_get_session_key s of
                    None \<Rightarrow> Done (ESP_ERR_INVALID_STATE, [], session)
                  | Some srp_key \<Rightarrow>
                      if srp_key = [] then Done (ESP_ERR_INVALID_STATE, [], session)
                      else
                        let setup_key = hap_hkdf_sha512 L (asc ''Pair-Setup-Encrypt-Salt'') srp_key (asc ''Pair-Setup-Encrypt-Info'') 32 in
                        case cl_open L setup_key (replicate 4 0 @ asc ''PS-Msg05'') [] encrypted of
                          None \<Rightarrow> Done (ESP_FAIL, [], session)
                        | Some _ \<Rightarrow> Done (ESP_OK, [], session\<lparr>encrypt_nonce := 0, decrypt_nonce := 0\<rparr>)))"

subsection \<open>Pair-verify\<close>

definition hex_digit :: "nat \<Rightarrow> u8" where
  "hex_digit n = (if n < 10 then 48 + of_nat n else 55 + of_nat n)"

definition hex2 :: "u8 \<Rightarrow> bytes" where
  "hex2 b = [hex_digit (unat b div 16), hex_digit (unat b mod 16)]"

definition device_id_of :: "bytes \<Rightarrow> bytes" where
  "device_id_of mac = hex2 (mac ! 0) @ concat (map (\<lambda>i. asc '':'' @ hex2 (mac ! i)) [1, 2, 3, 4, 5])"

definition verify_key :: "crypto_lib \<Rightarrow> bytes \<Rightarrow> bytes" where
  "verify_key L secret = hap_hkdf_sha512 L (asc ''Pair-Verify-Encrypt-Salt'') secret (asc ''Pair-Verify-Encrypt-Info'') 32"

definition hap_pair_verify_m1 :: "crypto_lib \<Rightarrow> bytes \<Rightarrow> hap_session \<Rightarrow> bytes \<Rightarrow> nat \<Rightarrow> hap_result" where
  "hap_pair_verify_m1 L mac session input output_capacity =
     cbind (state_is input 1) (\<lambda>ok.
       if \<not> ok then Done (ESP_ERR_INVALID_ARG, [], session)
       else
         case tlv8_get input TLV_TYPE_PUBLIC_KEY of
           Fault \<Rightarrow> Fault
         | Fail \<Rightarrow> Done (ESP_ERR_INVALID_ARG, [], session)
         | Done client_pk \<Rightarrow>
             if length client_pk \<noteq> 32 then Done (ESP_ERR_INVALID_ARG, [], session)
             else
               case cl_scalarmult L (session_secret_key session) client_pk of
                 (ok, secret) \<Rightarrow>
                   let session = session\<lparr>client_public_key := client_pk, shared_secret := secret\<rparr> in
                   if \<not> ok then Done (ESP_FAIL, [], session)
                   else
                     let device_id = device_id_of mac;
                         signature = cl_sign L (session_public_key session @ device_id @ client_pk) (device_secret_key session);
                         sub_tlv = tlv8_encode_seq 256 [(TLV_TYPE_IDENTIFIER, device_id), (TLV_TYPE_SIGNATURE, signature)];
                         session_key = verify_key L secret;
                         encrypted = cl_seal L session_key (replicate 4 0 @ asc ''PV-Msg02'') [] sub_tlv in
                     Done (ESP_OK,
                       tlv8_encode_seq output_capacity
                         [(TLV_TYPE_STATE, [2]), (TLV_TYPE_PUBLIC_KEY, session_public_key session), (TLV_TYPE_ENCRYPTED_DATA, encrypted)],
                       session\<lparr>pair_verify_state := 2, encrypt_key := session_key\<rparr>))"

definition hap_pair_verify_m3 :: "crypto_lib \<Rightarrow> hap_session \<Rightarrow> bytes \<Rightarrow> nat \<Rightarrow> hap_result" where
  "hap_pair_verify_m3 L session input output_capacity =
     cbind (state_is input 3) (\<lambda>ok.
       if \<not> ok then Done (ESP_ERR_INVALID_ARG, [], session)
       else
         case tlv8_decode_concat input TLV_TYPE_ENCRYPTED_DATA 512 of
           Fault \<Rightarrow> Fault
         | Fail \<Rightarrow> Done (ESP_ERR_INVALID_ARG, [], session)
         | Done encrypted \<Rightarrow>
             case cl_open L (encrypt_key session) (replicate 4 0 @ asc ''PV-Msg03'') [] encrypted of
               None \<Rightarrow>
                 Done (ESP_ERR_INVALID_STATE,
                   tlv8_encode_seq output_capacity [(TLV_TYPE_STATE, [4]), (TLV_TYPE_ERROR, [TLV_ERROR_AUTHENTICATION])], session)
             | Some _ \<Rightarrow>
                 Done (ESP_OK, tlv8_encode_seq output_capacity [(TLV_TYPE_STATE, [4])],
                   session\<lparr>encrypt_key := read_key L (shared_secret session), decrypt_key := write_key L (shared_secret session),
                     pair_verify_state := 4, session_established := True\<rparr>))"

definition aes_key_of :: "crypto_lib \<Rightarrow> bytes \<Rightarrow> bytes" where
  "aes_key_of L secret = take 16 (cl_sha512 L (asc ''Pair-Verify-AES-Key'' @ secret))"

definition aes_iv_of :: "crypto_lib \<Rightarrow> bytes \<Rightarrow> bytes" where
  "aes_iv_of L secret = take 16 (cl_sha512 L (asc ''Pair-Verify-AES-IV'' @ secret))"

definition hap_pair_verify_m1_raw :: "crypto_lib \<Rightarrow> hap_session \<Rightarrow> bytes \<Rightarrow> nat \<Rightarrow> hap_result" where
  "hap_pair_verify_m1_raw L session input output_capacity =
     (if length input < 32 then Done (ESP_ERR_INVALID_ARG, [], session)
      else
        cbind (slice input (if length input \<ge> 68 then 4 else 0) 32) (\<lambda>client_epk.
          case cl_scalarmult L (session_secret_key session) client_epk of
            (ok, secret) \<Rightarrow>
              let session = session\<lparr>client_public_key := client_epk, shared_secret := secret\<rparr> in
              if \<not> ok then Done (ESP_FAIL, [], session)
              else
                let aes_key = aes_key_of L secret; aes_iv = aes_iv_of L secret;
                    signature = cl_sign L (session_public_key session @ client_epk) (device_secret_key session) in
                if output_capacity < 96 then Done (ESP_ERR_NO_MEM, [], session)
                else
                  Done (ESP_OK, session_public_key session @ cl_aes_ctr L aes_key aes_iv signature,
                    session\<lparr>pair_verify_state := 2,
                      encrypt_key := aes_key @ drop 16 (encrypt_key session),
                      decrypt_key := aes_iv @ drop 16 (decrypt_key session)\<rparr>)))"

text \<open>The decrypted signature of the client is not looked at.\<close>

definition hap_pair_verify_m3_raw :: "crypto_lib \<Rightarrow> hap_session \<Rightarrow> bytes \<Rightarrow> hap_result" where
  "hap_pair_verify_m3_raw L session input =
     (if length input < 64 then Done (ESP_ERR_INVALID_ARG, [], session)
      else
        cbind (slice input (if length input \<ge> 68 then 4 else 0) 64) (\<lambda>encrypted_sig.
          let aes_key = aes_key_of L (shared_secret session); aes_iv = aes_iv_of L (shared_secret session);
              client_signature = cl_aes_ctr L aes_key aes_iv encrypted_sig in
          Done (ESP_OK, [],
            session\<lparr>decrypt_key := read_key L (shared_secret session), encrypt_key := write_key L (shared_secret session),
              encrypt_nonce := 0, decrypt_nonce := 0, pair_verify_state := 4, session_established := True\<rparr>)))"

section \<open>Safety\<close>

lemma state_is_safe [outcome_rules]: "outcome (\<lambda>_. True) (state_is input n)"
  using tlv8_get_outcome [of input TLV_TYPE_STATE] by (auto simp: state_is_def split: cres.split)

lemma transient_flag_safe [outcome_rules]: "outcome (\<lambda>_. True) (transient_flag input)"
  using tlv8_get_outcome [of input TLV_TYPE_FLAGS] by (auto simp: transient_flag_def split: cres.split)

lemma decode_concat_safe: "tlv8_decode_concat data t cap \<noteq> Fault"
  using concat_loop_outcome [of "[]" cap data t 0 False False] by (auto simp: tlv8_decode_concat_def)

lemma tlv8_get_safe: "tlv8_get data t \<noteq> Fault"
  using tlv8_get_outcome [of data t] by auto

lemmas tlv_safe = decode_concat_safe tlv8_get_safe encode_seq_bound

abbreviation fits :: "nat \<Rightarrow> hap_result \<Rightarrow> bool" where
  "fits cap r \<equiv> outcome (\<lambda>(err, out, session). length out \<le> cap) r"

lemma pair_setup_fits:
  "fits cap (hap_pair_setup_m1 L mem salt b_bytes session input cap)"
  "fits cap (hap_pair_setup_m3 L session input cap)"
  "fits cap (hap_pair_setup_m5 L session input)"
proof -
  show "fits cap (hap_pair_setup_m1 L mem salt b_bytes session input cap)"
    unfolding hap_pair_setup_m1_def
    by (intro outcome_cbind [OF state_is_safe] outcome_cbind [OF transient_flag_safe]) (auto simp: Let_def tlv_safe split: prod.split bool.split)
  show "fits cap (hap_pair_setup_m3 L session input cap)"
    unfolding hap_pair_setup_m3_def
    by (cases "srp session") (auto intro!: outcome_cbind [OF state_is_safe] simp: Let_def tlv_safe split: prod.split bool.split cres.split)
  show "fits cap (hap_pair_setup_m5 L session input)"
    unfolding hap_pair_setup_m5_def
    by (cases "srp session") (auto intro!: outcome_cbind [OF state_is_safe] simp: Let_def tlv_safe split: option.split cres.split)
qed

lemma pair_verify_fits:
  "fits cap (hap_pair_verify_m1 L mac session input cap)" "fits cap (hap_pair_verify_m3 L session input cap)"
  unfolding hap_pair_verify_m1_def hap_pair_verify_m3_def
  by (auto intro!: outcome_cbind [OF state_is_safe] simp: Let_def tlv_safe split: prod.split cres.split option.split)

lemma raw_verify_fits:
  assumes "length (session_public_key session) = 32" "\<And>k iv m. length (cl_aes_ctr L k iv m) = length m" "sign_ok L"
  shows "fits cap (hap_pair_verify_m1_raw L session input cap)" "fits cap (hap_pair_verify_m3_raw L session input)"
  using assms by (auto simp: hap_pair_verify_m1_raw_def hap_pair_verify_m3_raw_def slice_def sign_ok_def Let_def split: prod.split)

text \<open>
  Whatever the peer sends, no pairing handler reads outside the message or writes more than the capacity of the answer
  buffer, in any state of the session.
\<close>

theorem pairing_safe:
  assumes "length (session_public_key session) = 32" "\<forall>k iv m. length (cl_aes_ctr L k iv m) = length m" "sign_ok L"
  shows "\<forall>r \<in> {hap_pair_setup_m1 L mem salt b_bytes session input cap, hap_pair_setup_m3 L session input cap,
      hap_pair_setup_m5 L session input, hap_pair_verify_m1 L mac session input cap, hap_pair_verify_m3 L session input cap,
      hap_pair_verify_m1_raw L session input cap, hap_pair_verify_m3_raw L session input}. fits cap r"
proof -
  have "length (cl_aes_ctr L k iv m) = length m" for k iv m using assms(2) by blast
  note raw = raw_verify_fits [OF assms(1) this assms(3)]
  show ?thesis by (intro ballI, elim insertE emptyE) (simp_all only: pair_setup_fits pair_verify_fits raw)
qed

theorem pairing_safe_witness:
  "hap_pair_verify_m3 demo_lib (hap_session_create ([], []) (replicate 32 1, [])) [6, 1, 3, 5, 200] 1024 \<noteq> Fault"
proof -
  have "length (session_public_key (hap_session_create ([], []) (replicate 32 1, []))) = 32"
    "\<forall>k iv m. length (cl_aes_ctr demo_lib k iv m) = length m"
    by (simp_all add: hap_session_create_def demo_lib_def)
  from pairing_safe [OF this demo_lib_ok(4), of True "[]" "[]" "[6, 1, 3, 5, 200]" 1024 "[]"] show ?thesis by auto
qed

section \<open>Transient pairing\<close>

lemma state_is_message: "distinct (map fst items) \<Longrightarrow> (TLV_TYPE_STATE, [n]) \<in> set items \<Longrightarrow> state_is (message items) m = Done (n = m)"
  by (simp add: state_is_def tlv8_get_message)

lemma fragments_long: "255 < length v \<Longrightarrow> length v \<le> 510 \<Longrightarrow> length (fragments t v) = length v + 4"
  by (subst fragments.simps) (simp add: fragments_short)

lemma fragments_bound: "length v \<le> 510 \<Longrightarrow> length (fragments t v) \<le> length v + 4"
  by (cases "length v \<le> 255") (simp_all add: fragments_short fragments_long)

definition setup_m1_msg :: bytes where
  "setup_m1_msg = message [(TLV_TYPE_STATE, [1]), (TLV_TYPE_FLAGS, [0x10])]"

definition setup_m3_msg :: "bytes \<Rightarrow> bytes \<Rightarrow> bytes" where
  "setup_m3_msg pk pr = message [(TLV_TYPE_STATE, [3]), (TLV_TYPE_PUBLIC_KEY, pk), (TLV_TYPE_PROOF, pr)]"

lemma setup_m1_run:
  assumes "srp_start L salt b_bytes srp_session_create (asc ''Pair-Setup'') (asc ''3939'') = (True, s)"
    and "srp_salt s = salt" "length salt = 16" "length (srp_server_public_key s) = 384"
  shows "hap_pair_setup_m1 L True salt b_bytes session setup_m1_msg 2048 =
    Done (ESP_OK, message [(TLV_TYPE_STATE, [2]), (TLV_TYPE_SALT, salt), (TLV_TYPE_PUBLIC_KEY, srp_server_public_key s)],
      session\<lparr>pair_setup_transient := True, srp := Some s, pair_setup_state := 2\<rparr>)"
proof -
  have "state_is setup_m1_msg 1 = Done True" unfolding setup_m1_msg_def by (subst state_is_message) (auto simp: tlv_types)
  moreover have "transient_flag setup_m1_msg = Done True"
    unfolding setup_m1_msg_def transient_flag_def by (subst tlv8_get_message [where v = "[0x10]"]) (auto simp: tlv_types)
  moreover have "tlv8_encode_seq 2048 [(TLV_TYPE_STATE, [2]), (TLV_TYPE_SALT, salt), (TLV_TYPE_PUBLIC_KEY, srp_server_public_key s)]
      = message [(TLV_TYPE_STATE, [2]), (TLV_TYPE_SALT, salt), (TLV_TYPE_PUBLIC_KEY, srp_server_public_key s)]"
    using assms(3,4) by (intro encode_seq_message) (simp add: fragments_short fragments_long)
  ultimately show ?thesis using assms(1,2) by (simp add: hap_pair_setup_m1_def Let_def del: message_simps asc_simps)
qed

lemma setup_m3_run:
  assumes "srp session = Some s" "srp_verify_client L s pk pr = (True, s')" "srp_get_session_key s' = Some K" "K \<noteq> []"
    and "srp_get_proof s' = Some pr2" "length pk \<le> 384" "length pr = 64" "length pr2 = 64" "pair_setup_transient session"
  shows "hap_pair_setup_m3 L session (setup_m3_msg pk pr) 2048 =
    Done (ESP_OK, message [(TLV_TYPE_STATE, [4]), (TLV_TYPE_PROOF, pr2)], (transient_keys L K (session\<lparr>srp := Some s'\<rparr>))\<lparr>pair_setup_state := 4\<rparr>)"
proof -
  let ?items = "[(TLV_TYPE_STATE, [3]), (TLV_TYPE_PUBLIC_KEY, pk), (TLV_TYPE_PROOF, pr)]"
  have d: "distinct (map fst ?items)" by (simp add: tlv_types)
  have "state_is (setup_m3_msg pk pr) 3 = Done True" unfolding setup_m3_msg_def by (subst state_is_message [OF d]) auto
  moreover have "tlv8_decode_concat (setup_m3_msg pk pr) TLV_TYPE_PUBLIC_KEY 512 = Done pk"
    unfolding setup_m3_msg_def by (rule decode_concat_message [OF d]) (use assms(6) in auto)
  moreover have "tlv8_decode_concat (setup_m3_msg pk pr) TLV_TYPE_PROOF 64 = Done pr"
    unfolding setup_m3_msg_def by (rule decode_concat_message [OF d]) (use assms(7) in auto)
  moreover have "tlv8_encode_seq 2048 [(TLV_TYPE_STATE, [4]), (TLV_TYPE_PROOF, pr2)] = message [(TLV_TYPE_STATE, [4]), (TLV_TYPE_PROOF, pr2)]"
    using assms(8) by (intro encode_seq_message) (simp add: fragments_short)
  ultimately show ?thesis using assms by (simp add: hap_pair_setup_m3_def Let_def del: message_simps)
qed

text \<open>
  C13. Transient pair-setup, end to end: for every session, salt and server secret, the answer to M1 carries the salt and a public key from which a client that
  follows SRP-6a with the password 3939 computes its proof; the answer to its M3 carries the proof the client expects, and the
  session is established with the control keys derived from the client's own session key and both message counters at zero.
\<close>

theorem pair_setup_transient_run:
  assumes "mpi_ok L" "sha_ok L" "length salt = 16" "be_val pk = client_A a" "length pk \<le> 384"
  shows "\<exists>m2 s2 pad_B m4 s4. hap_pair_setup_m1 L True salt b_bytes session setup_m1_msg 2048 = Done (ESP_OK, m2, s2)
    \<and> tlv8_decode_concat m2 TLV_TYPE_SALT 16 = Done salt \<and> tlv8_decode_concat m2 TLV_TYPE_PUBLIC_KEY 384 = Done pad_B
    \<and> (let K = client_K L salt (pad_pk pk) pad_B (asc ''3939'') a; M1 = client_M1 L salt (pad_pk pk) pad_B (asc ''3939'') a in
        hap_pair_setup_m3 L s2 (setup_m3_msg pk M1) 2048 = Done (ESP_OK, m4, s4)
        \<and> tlv8_decode_concat m4 TLV_TYPE_PROOF 64 = Done (cl_sha512 L (mpi_to_bytes_min L (client_A a) SRP_PRIME_BYTES @ M1 @ K))
        \<and> session_established s4 \<and> pair_setup_state s4 = 4 \<and> encrypt_key s4 = read_key L K \<and> decrypt_key s4 = write_key L K
        \<and> encrypt_nonce s4 = 0 \<and> decrypt_nonce s4 = 0)"
proof -
  obtain s s' where s: "srp_start L salt b_bytes srp_session_create (asc ''Pair-Setup'') (asc ''3939'') = (True, s)"
    "srp_salt s = salt" "length (srp_server_public_key s) = 384"
    "srp_verify_client L s pk (client_M1 L salt (pad_pk pk) (srp_server_public_key s) (asc ''3939'') a) = (True, s')"
    "srp_get_session_key s' = Some (client_K L salt (pad_pk pk) (srp_server_public_key s) (asc ''3939'') a)"
    "srp_get_proof s' = Some (cl_sha512 L (mpi_to_bytes_min L (client_A a) SRP_PRIME_BYTES
       @ client_M1 L salt (pad_pk pk) (srp_server_public_key s) (asc ''3939'') a
       @ client_K L salt (pad_pk pk) (srp_server_public_key s) (asc ''3939'') a))"
    by (rule srp_run [OF assms(1,2,4,5)])
  define B where "B = srp_server_public_key s"
  define K where "K = client_K L salt (pad_pk pk) B (asc ''3939'') a"
  define M1 where "M1 = client_M1 L salt (pad_pk pk) B (asc ''3939'') a"
  define M2 where "M2 = cl_sha512 L (mpi_to_bytes_min L (client_A a) SRP_PRIME_BYTES @ M1 @ K)"
  note s = s [folded B_def, folded K_def M1_def, folded M2_def]
  have len: "length K = 64" "length M1 = 64" "length M2 = 64"
    using assms(2) by (simp_all add: K_def M1_def M2_def client_K_def client_M1_def expected_m1_def compute_m1_def Let_def sha_ok_def del: asc_simps)
  let ?m2 = "message [(TLV_TYPE_STATE, [2]), (TLV_TYPE_SALT, salt), (TLV_TYPE_PUBLIC_KEY, B)]"
  let ?s2 = "session\<lparr>pair_setup_transient := True, srp := Some s, pair_setup_state := 2\<rparr>"
  have m1: "hap_pair_setup_m1 L True salt b_bytes session setup_m1_msg 2048 = Done (ESP_OK, ?m2, ?s2)"
    unfolding B_def using setup_m1_run s(1-3) assms(3) by (simp add: B_def)
  have dec: "tlv8_decode_concat ?m2 TLV_TYPE_SALT 16 = Done salt" "tlv8_decode_concat ?m2 TLV_TYPE_PUBLIC_KEY 384 = Done B"
    by (rule decode_concat_message; use assms(3) s(3) in \<open>simp add: tlv_types\<close>)+
  have "K \<noteq> []" using len(1) by auto
  from setup_m3_run [of ?s2, OF _ s(4,5) this s(6) assms(5) len(2,3)]
  have m3: "hap_pair_setup_m3 L ?s2 (setup_m3_msg pk M1) 2048 = Done (ESP_OK, message [(TLV_TYPE_STATE, [4]), (TLV_TYPE_PROOF, M2)],
      (transient_keys L K (?s2\<lparr>srp := Some s'\<rparr>))\<lparr>pair_setup_state := 4\<rparr>)" by simp
  have "tlv8_decode_concat (message [(TLV_TYPE_STATE, [4]), (TLV_TYPE_PROOF, M2)]) TLV_TYPE_PROOF 64 = Done M2"
    by (rule decode_concat_message) (use len in \<open>simp_all add: tlv_types\<close>)
  with m1 dec m3 show ?thesis
    by (intro exI [of _ ?m2] exI [of _ ?s2] exI [of _ B] exI [of _ "message [(TLV_TYPE_STATE, [4]), (TLV_TYPE_PROOF, M2)]"]
        exI [of _ "(transient_keys L K (?s2\<lparr>srp := Some s'\<rparr>))\<lparr>pair_setup_state := 4\<rparr>"])
      (simp add: Let_def transient_keys_def K_def [symmetric] M1_def [symmetric] M2_def [symmetric] del: message_simps asc_simps)
qed

theorem pair_setup_transient_run_witness:
  "\<exists>m2 s2 pad_B m4 s4. hap_pair_setup_m1 demo_lib True (replicate 16 7) [3] (hap_session_create ([], []) ([], [])) setup_m1_msg 2048
      = Done (ESP_OK, m2, s2) \<and> tlv8_decode_concat m2 TLV_TYPE_PUBLIC_KEY 384 = Done pad_B
    \<and> hap_pair_setup_m3 demo_lib s2 (setup_m3_msg [5] (client_M1 demo_lib (replicate 16 7) (pad_pk [5]) pad_B (asc ''3939'') 1)) 2048
      = Done (ESP_OK, m4, s4) \<and> session_established s4"
proof -
  have "length (replicate 16 (7 :: u8)) = 16" "length [5 :: u8] \<le> 384" by simp_all
  note r = pair_setup_transient_run [OF demo_lib_ok(5,3) this(1) demo_A this(2), of "[3]" "hap_session_create ([], []) ([], [])"]
  from r show ?thesis unfolding Let_def by blast
qed

section \<open>Pair-verify\<close>

definition verify_m1_msg :: "bytes \<Rightarrow> bytes" where
  "verify_m1_msg pk = message [(TLV_TYPE_STATE, [1]), (TLV_TYPE_PUBLIC_KEY, pk)]"

definition verify_m3_msg :: "bytes \<Rightarrow> bytes" where
  "verify_m3_msg enc = message [(TLV_TYPE_STATE, [3]), (TLV_TYPE_ENCRYPTED_DATA, enc)]"

lemma verify_m3_run:
  assumes "aead_ok L" "length payload \<le> 496"
  shows "hap_pair_verify_m3 L session (verify_m3_msg (cl_seal L (encrypt_key session) (replicate 4 0 @ asc ''PV-Msg03'') [] payload)) 1024 =
    Done (ESP_OK, message [(TLV_TYPE_STATE, [4])],
      session\<lparr>encrypt_key := read_key L (shared_secret session), decrypt_key := write_key L (shared_secret session),
        pair_verify_state := 4, session_established := True\<rparr>)"
proof -
  let ?e = "cl_seal L (encrypt_key session) (replicate 4 0 @ asc ''PV-Msg03'') [] payload"
  let ?items = "[(TLV_TYPE_STATE, [3]), (TLV_TYPE_ENCRYPTED_DATA, ?e)]"
  have d: "distinct (map fst ?items)" by (simp add: tlv_types)
  have e: "length ?e \<le> 512" "cl_open L (encrypt_key session) (replicate 4 0 @ asc ''PV-Msg03'') [] ?e = Some payload"
    using assms by (simp_all add: aead_ok_def)
  have "state_is (verify_m3_msg ?e) 3 = Done True" unfolding verify_m3_msg_def by (subst state_is_message [OF d]) auto
  moreover have "tlv8_decode_concat (verify_m3_msg ?e) TLV_TYPE_ENCRYPTED_DATA 512 = Done ?e"
    unfolding verify_m3_msg_def by (rule decode_concat_message [OF d _ e(1)]) simp
  moreover have "tlv8_encode_seq 1024 [(TLV_TYPE_STATE, [4])] = message [(TLV_TYPE_STATE, [4])]"
    by (rule encode_seq_message) (simp add: fragments_short)
  ultimately show ?thesis using e(2) by (simp add: hap_pair_verify_m3_def del: message_simps asc_simps replicate_numeral)
qed

text \<open>
  C14. Pair-verify, end to end: the answer to M1 carries the session key of the device and a sealed message that opens, under the key derived from the
  Diffie-Hellman secret, to the identifier of the device and its signature over both session keys; every M3 sealed under that key is
  accepted and establishes the session with the control keys of the same secret.
\<close>

theorem pair_verify_run:
  assumes "aead_ok L" "sign_ok L" "length cpk = 32" "length (session_public_key session) = 32"
    and "cl_scalarmult L (session_secret_key session) cpk = (True, Z)"
  shows "\<exists>m2 s2 enc sub. hap_pair_verify_m1 L mac session (verify_m1_msg cpk) 1024 = Done (ESP_OK, m2, s2)
    \<and> tlv8_decode_concat m2 TLV_TYPE_PUBLIC_KEY 32 = Done (session_public_key session)
    \<and> tlv8_decode_concat m2 TLV_TYPE_ENCRYPTED_DATA 512 = Done enc
    \<and> cl_open L (verify_key L Z) (replicate 4 0 @ asc ''PV-Msg02'') [] enc = Some sub
    \<and> tlv8_decode_concat sub TLV_TYPE_IDENTIFIER 17 = Done (device_id_of mac)
    \<and> tlv8_decode_concat sub TLV_TYPE_SIGNATURE 64
        = Done (cl_sign L (session_public_key session @ device_id_of mac @ cpk) (device_secret_key session))
    \<and> (\<forall>payload. length payload \<le> 496 \<longrightarrow>
        (\<exists>m4 s4. hap_pair_verify_m3 L s2 (verify_m3_msg (cl_seal L (verify_key L Z) (replicate 4 0 @ asc ''PV-Msg03'') [] payload)) 1024
            = Done (ESP_OK, m4, s4)
          \<and> session_established s4 \<and> pair_verify_state s4 = 4 \<and> encrypt_key s4 = read_key L Z \<and> decrypt_key s4 = write_key L Z))"
proof -
  let ?id = "device_id_of mac"
  let ?sig = "cl_sign L (session_public_key session @ ?id @ cpk) (device_secret_key session)"
  let ?sub = "[(TLV_TYPE_IDENTIFIER, ?id), (TLV_TYPE_SIGNATURE, ?sig)]"
  let ?enc = "cl_seal L (verify_key L Z) (replicate 4 0 @ asc ''PV-Msg02'') [] (message ?sub)"
  let ?m2 = "[(TLV_TYPE_STATE, [2]), (TLV_TYPE_PUBLIC_KEY, session_public_key session), (TLV_TYPE_ENCRYPTED_DATA, ?enc)]"
  let ?s2 = "session\<lparr>client_public_key := cpk, shared_secret := Z, pair_verify_state := 2, encrypt_key := verify_key L Z\<rparr>"
  have id: "length ?id = 17" by (simp add: device_id_of_def hex2_def)
  have sig: "length ?sig = 64" using assms(2) by (simp add: sign_ok_def)
  have sub: "length (message ?sub) = 85" using id sig by (simp add: fragments_short)
  have enc: "length ?enc = 101" "cl_open L (verify_key L Z) (replicate 4 0 @ asc ''PV-Msg02'') [] ?enc = Some (message ?sub)"
    using assms(1) sub by (simp_all add: aead_ok_def del: message_simps)
  have d: "distinct (map fst ?m2)" "distinct (map fst ?sub)" by (simp_all add: tlv_types)
  have "hap_pair_verify_m1 L mac session (verify_m1_msg cpk) 1024 = Done (ESP_OK, message ?m2, ?s2)"
  proof -
    have dm: "distinct (map fst [(TLV_TYPE_STATE, [1]), (TLV_TYPE_PUBLIC_KEY, cpk)])" by (simp add: tlv_types)
    have "state_is (verify_m1_msg cpk) 1 = Done True" unfolding verify_m1_msg_def by (subst state_is_message [OF dm]) auto
    moreover have "tlv8_get (verify_m1_msg cpk) TLV_TYPE_PUBLIC_KEY = Done cpk"
      unfolding verify_m1_msg_def by (rule tlv8_get_message [OF dm]) (use assms(3) in auto)
    moreover have "tlv8_encode_seq 256 ?sub = message ?sub" using sub by (intro encode_seq_message) simp
    moreover have "tlv8_encode_seq 1024 ?m2 = message ?m2"
      by (rule encode_seq_message) (use enc(1) assms(4) in \<open>simp add: fragments_short\<close>)
    ultimately show ?thesis using assms(3,5) by (simp add: hap_pair_verify_m1_def Let_def del: message_simps asc_simps replicate_numeral)
  qed
  moreover have "tlv8_decode_concat (message ?m2) TLV_TYPE_PUBLIC_KEY 32 = Done (session_public_key session)"
    "tlv8_decode_concat (message ?m2) TLV_TYPE_ENCRYPTED_DATA 512 = Done ?enc"
    by (rule decode_concat_message [OF d(1)]; use assms(4) enc(1) in simp)+
  moreover have "tlv8_decode_concat (message ?sub) TLV_TYPE_IDENTIFIER 17 = Done ?id" "tlv8_decode_concat (message ?sub) TLV_TYPE_SIGNATURE 64 = Done ?sig"
    by (rule decode_concat_message [OF d(2)]; use id sig in simp)+
  moreover have "\<exists>m4 s4. hap_pair_verify_m3 L ?s2 (verify_m3_msg (cl_seal L (verify_key L Z) (replicate 4 0 @ asc ''PV-Msg03'') [] payload)) 1024
      = Done (ESP_OK, m4, s4) \<and> session_established s4 \<and> pair_verify_state s4 = 4 \<and> encrypt_key s4 = read_key L Z \<and> decrypt_key s4 = write_key L Z"
    if "length payload \<le> 496" for payload
    using verify_m3_run [OF assms(1) that, of ?s2] by (simp del: message_simps asc_simps replicate_numeral)
  ultimately show ?thesis using enc(2) by blast
qed

theorem pair_verify_run_witness:
  "\<exists>m2 s2. hap_pair_verify_m1 demo_lib (replicate 6 0) (hap_session_create ([], []) (replicate 32 1, replicate 32 2)) (verify_m1_msg (replicate 32 3)) 1024
      = Done (ESP_OK, m2, s2)
    \<and> (\<exists>m4 s4. hap_pair_verify_m3 demo_lib s2 (verify_m3_msg (cl_seal demo_lib (verify_key demo_lib (replicate 32 1)) (replicate 4 0 @ asc ''PV-Msg03'') [] [9])) 1024
      = Done (ESP_OK, m4, s4) \<and> session_established s4)"
proof -
  let ?s = "hap_session_create ([], []) (replicate 32 1, replicate 32 2)"
  have "length (replicate 32 (3 :: u8)) = 32" "length (session_public_key ?s) = 32" "length [9 :: u8] \<le> 496"
    "cl_scalarmult demo_lib (session_secret_key ?s) (replicate 32 3) = (True, replicate 32 1)"
    by (simp_all add: hap_session_create_def demo_lib_def map2_map_map zip_replicate map_replicate)
  from pair_verify_run [OF demo_lib_ok(2,4) this(1,2,4), of "replicate 6 0"] this(3) show ?thesis by blast
qed

text \<open>
  Nothing ties M3 to a preceding M1: on a fresh session, whose keys are still zero, an M3 sealed under the all-zero key is accepted.
  The session counts as established, without any key exchange, and its control keys are those of the all-zero secret.
\<close>

theorem verify_m3_unsolicited:
  assumes "aead_ok L" "length payload \<le> 496"
  shows "\<exists>m4 s4. hap_pair_verify_m3 L (hap_session_create dk sk)
      (verify_m3_msg (cl_seal L (replicate 32 0) (replicate 4 0 @ asc ''PV-Msg03'') [] payload)) 1024 = Done (ESP_OK, m4, s4)
    \<and> session_established s4 \<and> encrypt_key s4 = read_key L (replicate 32 0) \<and> decrypt_key s4 = write_key L (replicate 32 0)"
proof -
  have "encrypt_key (hap_session_create dk sk) = replicate 32 0" "shared_secret (hap_session_create dk sk) = replicate 32 0"
    by (simp_all add: hap_session_create_def)
  with verify_m3_run [OF assms, of "hap_session_create dk sk"] show ?thesis by (simp del: message_simps asc_simps replicate_numeral)
qed

theorem verify_m3_unsolicited_witness:
  "\<exists>m4 s4. hap_pair_verify_m3 demo_lib (hap_session_create ([], []) ([], []))
      (verify_m3_msg (cl_seal demo_lib (replicate 32 0) (replicate 4 0 @ asc ''PV-Msg03'') [] [1])) 1024 = Done (ESP_OK, m4, s4)
    \<and> session_established s4"
proof -
  have "length [1 :: u8] \<le> 496" by simp
  from verify_m3_unsolicited [OF demo_lib_ok(2) this, of "([], [])" "([], [])"] show ?thesis by blast
qed

end
