(* ===== verification/Ntp_Clock.thy ===== *)
theory Ntp_Clock
  imports Ptp_Clock
begin

text \<open>
  The timing client of AirPlay 1 (\<open>main/network/ntp_clock.c\<close>): a request every three seconds, and from each response a measurement of
  the offset of the sender's clock; the measurement with the smallest dispersion of the last eight is used. The socket and the task loop
  are left out; a datagram with its arrival time is the input.
\<close>

section \<open>The model\<close>

definition TIMING_REQUEST :: u8 where "TIMING_REQUEST = 0xD2"
definition TIMING_RESPONSE :: u8 where "TIMING_RESPONSE = 0xD3"
definition TIMING_HISTORY_SIZE :: nat where "TIMING_HISTORY_SIZE = 8"
definition MIN_MEASUREMENTS :: nat where "MIN_MEASUREMENTS = 3"

record ntp =
  ntp_running :: bool
  ntp_remote :: "u32 \<times> u16"
  ntp_locked :: bool
  ntp_offset_ns :: int
  ntp_measurements :: "int list"
  ntp_dispersions :: "int list"
  ntp_measurement_count :: nat
  ntp_measurement_index :: nat

definition local_us_to_ntp :: "int \<Rightarrow> u32 \<times> u32" where
  "local_us_to_ntp local_us =
     (let secs = of_int (cdiv local_us 1000000) :: u32;
          frac_us = of_int (local_us - 1000000 * cdiv local_us 1000000) :: u64;
          frac = ucast (push_bit 32 frac_us div 1000000) in
      (secs, frac))"

definition ntp_to_ns :: "u32 \<Rightarrow> u32 \<Rightarrow> int" where
  "ntp_to_ns secs frac = i64 (i64 (uint secs * 1000000000) + drop_bit 32 (i64 (uint frac * 1000000000)))"

text \<open>The request: the transmit field carries the local time.\<close>

definition word_bytes :: "u32 \<Rightarrow> bytes" where
  "word_bytes w = map (\<lambda>i. ucast (drop_bit (8 * i) w)) [3, 2, 1, 0]"

definition send_timing_request :: "int \<Rightarrow> bytes" where
  "send_timing_request now_us =
     (case local_us_to_ntp now_us of (secs, frac) \<Rightarrow>
        [0x80, TIMING_REQUEST, 0, 7] @ replicate 4 0 @ replicate 8 0 @ replicate 8 0 @ word_bytes secs @ word_bytes frac)"

definition timestamp_at :: "bytes \<Rightarrow> nat \<Rightarrow> int cres" where
  "timestamp_at packet i =
     cbind (be_bytes packet i 4 0) (\<lambda>secs. cbind (be_bytes packet (i + 4) 4 0) (\<lambda>frac. Done (ntp_to_ns (ucast secs) (ucast frac))))"

text \<open>The loop over the history for the measurement of least dispersion.\<close>

fun best_measurement :: "ntp \<Rightarrow> nat list \<Rightarrow> int \<Rightarrow> int \<Rightarrow> (int \<times> int) cres" where
  "best_measurement n [] best_offset best_dispersion = Done (best_offset, best_dispersion)"
| "best_measurement n (i # is) best_offset best_dispersion =
     cbind (aget (ntp_dispersions n) i) (\<lambda>d.
       if d < best_dispersion then cbind (aget (ntp_measurements n) i) (\<lambda>m. best_measurement n is m d)
       else best_measurement n is best_offset best_dispersion)"

definition store_measurement :: "int \<Rightarrow> int \<Rightarrow> ntp \<Rightarrow> ntp cres" where
  "store_measurement offset_ns dispersion_ns n =
     (let idx = ntp_measurement_index n in
      cbind (aset (ntp_measurements n) idx offset_ns) (\<lambda>ms.
      cbind (aset (ntp_dispersions n) idx dispersion_ns) (\<lambda>ds.
        Done (n\<lparr>ntp_measurements := ms, ntp_dispersions := ds, ntp_measurement_index := (idx + 1) mod TIMING_HISTORY_SIZE,
                ntp_measurement_count := (if ntp_measurement_count n < TIMING_HISTORY_SIZE then ntp_measurement_count n + 1
                                          else ntp_measurement_count n)\<rparr>))))"

text \<open>Offset and half of the network delay from the three timestamps of the packet and the arrival time.\<close>

definition timing_measure :: "int \<Rightarrow> int \<Rightarrow> int \<Rightarrow> int \<Rightarrow> int \<times> int \<times> int" where
  "timing_measure departure_ns receive_ns transmit_ns arrival_ns =
     (let round_trip_ns = i64 (arrival_ns - departure_ns);
          remote_processing_ns = i64 (transmit_ns - receive_ns);
          network_delay_ns = i64 (round_trip_ns - remote_processing_ns);
          offset_ns = i64 (i64 (transmit_ns + cdiv network_delay_ns 2) - arrival_ns);
          dispersion_ns = cdiv network_delay_ns 2 in
      (round_trip_ns, offset_ns, dispersion_ns))"

definition process_timing_response :: "bytes \<Rightarrow> int \<Rightarrow> ntp \<Rightarrow> ntp cres" where
  "process_timing_response packet arrival_ns n =
     (if length packet < 32 then Done n
      else
        cbind (timestamp_at packet 8) (\<lambda>departure_ns.
        cbind (timestamp_at packet 16) (\<lambda>receive_ns.
        cbind (timestamp_at packet 24) (\<lambda>transmit_ns.
          case timing_measure departure_ns receive_ns transmit_ns arrival_ns of (round_trip_ns, offset_ns, dispersion_ns) \<Rightarrow>
            if round_trip_ns < 0 \<or> round_trip_ns > 1000000000 then Done n
            else
              cbind (store_measurement offset_ns dispersion_ns n) (\<lambda>n.
              cbind (best_measurement n [0..<ntp_measurement_count n] offset_ns dispersion_ns) (\<lambda>(best_offset, _).
                Done (n\<lparr>ntp_offset_ns := best_offset,
                        ntp_locked := (ntp_locked n \<or> ntp_measurement_count n \<ge> MIN_MEASUREMENTS)\<rparr>)))))))"

text \<open>The body of the task loop for a datagram.\<close>

definition ntp_packet :: "bytes \<Rightarrow> int \<Rightarrow> ntp \<Rightarrow> ntp cres" where
  "ntp_packet packet arrival_ns n =
     (if length packet \<ge> 2 then
        cbind (rd packet 1) (\<lambda>pkt_type. if pkt_type = TIMING_RESPONSE then process_timing_response packet arrival_ns n else Done n)
      else Done n)"


definition ntp_clock_stop :: "ntp \<Rightarrow> ntp" where
  "ntp_clock_stop n = (if \<not> ntp_running n then n else n\<lparr>ntp_running := False, ntp_locked := False, ntp_measurement_count := 0\<rparr>)"

text \<open>\<open>sock_ok\<close> and \<open>task_ok\<close> are the results of creating the socket and the task.\<close>

definition ntp_clock_start_client :: "bool \<Rightarrow> bool \<Rightarrow> u32 \<Rightarrow> u16 \<Rightarrow> ntp \<Rightarrow> esp_err \<times> ntp" where
  "ntp_clock_start_client sock_ok task_ok remote_ip remote_port n =
     (if ntp_running n \<and> ntp_remote n = (remote_ip, remote_port) then (ESP_OK, n)
      else
        let n = ntp_clock_stop n in
        if \<not> sock_ok then (ESP_FAIL, n)
        else
          let n = n\<lparr>ntp_remote := (remote_ip, remote_port), ntp_locked := False, ntp_offset_ns := 0, ntp_measurement_count := 0,
                    ntp_measurement_index := 0, ntp_measurements := replicate TIMING_HISTORY_SIZE 0,
                    ntp_dispersions := replicate TIMING_HISTORY_SIZE 0, ntp_running := True\<rparr> in
          if \<not> task_ok then (ESP_FAIL, n\<lparr>ntp_running := False\<rparr>) else (ESP_OK, n))"


definition ntp_clock_get_offset_ns :: "ntp \<Rightarrow> int" where "ntp_clock_get_offset_ns n = ntp_offset_ns n"

section \<open>The history\<close>

definition ntp_inv :: "ntp \<Rightarrow> bool" where
  "ntp_inv n \<longleftrightarrow> length (ntp_measurements n) = 8 \<and> length (ntp_dispersions n) = 8 \<and> ntp_measurement_index n < 8
     \<and> ntp_measurement_count n \<le> 8"

lemma start_inv: "ntp_clock_start_client True True ip port n = (ESP_OK, n') \<Longrightarrow> ntp_running n \<longrightarrow> ntp_inv n \<Longrightarrow> ntp_inv n'"
  by (auto simp: ntp_clock_start_client_def Let_def ntp_inv_def TIMING_HISTORY_SIZE_def split: if_splits)

text \<open>The result is a stored measurement or the given one, and no stored one has less dispersion.\<close>

lemma best_measurement_spec:
  assumes "\<forall>i \<in> set is. i < length (ntp_dispersions n) \<and> i < length (ntp_measurements n)"
  shows "\<exists>o' d'. best_measurement n is o1 d1 = Done (o', d') \<and> d' \<le> d1 \<and> (\<forall>i \<in> set is. d' \<le> ntp_dispersions n ! i)
    \<and> ((o', d') = (o1, d1) \<or> (\<exists>i \<in> set is. (o', d') = (ntp_measurements n ! i, ntp_dispersions n ! i)))"
  using assms
proof (induction "is" arbitrary: o1 d1)
  case (Cons i "is")
  let ?d = "ntp_dispersions n ! i" and ?m = "ntp_measurements n ! i"
  show ?case
  proof (cases "?d < d1")
    case True
    from Cons.IH [of ?m ?d] Cons.prems obtain o' d' where
      "best_measurement n is ?m ?d = Done (o', d')" "d' \<le> ?d" "\<forall>i \<in> set is. d' \<le> ntp_dispersions n ! i"
      "(o', d') = (?m, ?d) \<or> (\<exists>i \<in> set is. (o', d') = (ntp_measurements n ! i, ntp_dispersions n ! i))" by auto
    with True Cons.prems show ?thesis by (intro exI [of _ o'] exI [of _ d']) auto
  next
    case False
    from Cons.IH [of o1 d1] Cons.prems obtain o' d' where
      "best_measurement n is o1 d1 = Done (o', d')" "d' \<le> d1" "\<forall>i \<in> set is. d' \<le> ntp_dispersions n ! i"
      "(o', d') = (o1, d1) \<or> (\<exists>i \<in> set is. (o', d') = (ntp_measurements n ! i, ntp_dispersions n ! i))" by auto
    with False Cons.prems show ?thesis by (intro exI [of _ o'] exI [of _ d']) auto
  qed
qed simp

lemma best_in_history:
  assumes "ntp_inv n"
  obtains o' d' where "best_measurement n [0..<ntp_measurement_count n] o1 d1 = Done (o', d')" "d' \<le> d1"
    "\<forall>i < ntp_measurement_count n. d' \<le> ntp_dispersions n ! i"
    "(o', d') = (o1, d1) \<or> (\<exists>i < ntp_measurement_count n. (o', d') = (ntp_measurements n ! i, ntp_dispersions n ! i))"
proof -
  have "\<forall>i \<in> set [0..<ntp_measurement_count n]. i < length (ntp_dispersions n) \<and> i < length (ntp_measurements n)"
    using assms by (auto simp: ntp_inv_def)
  from best_measurement_spec [OF this, of o1 d1] show ?thesis using that by (simp add: Bex_def Ball_def) blast
qed

lemma store_spec:
  assumes "ntp_inv n"
  shows "\<exists>n'. store_measurement ofs d n = Done n' \<and> ntp_inv n' \<and> ntp_locked n' = ntp_locked n
    \<and> ntp_measurement_count n' = min 8 (ntp_measurement_count n + 1)
    \<and> ntp_measurements n' = (ntp_measurements n)[ntp_measurement_index n := ofs]
    \<and> ntp_dispersions n' = (ntp_dispersions n)[ntp_measurement_index n := d]"
  using assms by (auto simp: store_measurement_def ntp_inv_def TIMING_HISTORY_SIZE_def Let_def)

lemma i64_billion: "0 \<le> x \<Longrightarrow> x < 2 ^ 32 \<Longrightarrow> i64 (x * 1000000000) = x * 1000000000"
proof (rule i64_small)
  assume "0 \<le> x" "x < 2 ^ 32"
  then have "0 \<le> x * 1000000000" "x * 1000000000 < 4294967296000000000" by simp_all
  then show "- (2 ^ 63) \<le> x * 1000000000" "x * 1000000000 < 2 ^ 63" by simp_all
qed

lemma timestamp_range: "0 \<le> ntp_to_ns s f \<and> ntp_to_ns s f < 2 ^ 62"
proof -
  have s: "0 \<le> uint s" "uint s < 2 ^ 32" "0 \<le> uint f" "uint f < 2 ^ 32"
    using uint_bounded [of s] uint_bounded [of f] by simp_all
  define x where "x = uint s"
  define y where "y = uint f * 1000000000 div 2 ^ 32"
  have "0 \<le> y" unfolding y_def by (rule pos_imp_zdiv_nonneg_iff [THEN iffD2]) simp_all
  moreover have "y < 1000000000" using s(4) by (simp add: y_def)
  moreover have "0 \<le> x" "x < 4294967296" using s by (simp_all add: x_def)
  ultimately have xy: "0 \<le> x * 1000000000 + y" "x * 1000000000 + y < 2 ^ 62" by simp_all
  then have "i64 (x * 1000000000 + y) = x * 1000000000 + y" by (intro i64_small) simp_all
  moreover have "ntp_to_ns s f = i64 (x * 1000000000 + y)"
    unfolding ntp_to_ns_def i64_billion [OF s(1,2)] i64_billion [OF s(3,4)] drop_bit_eq_div x_def y_def by (rule refl)
  ultimately show ?thesis using xy by simp
qed

lemma timestamp_at_Done: "i + 8 \<le> length packet \<Longrightarrow> \<exists>t. timestamp_at packet i = Done t \<and> 0 \<le> t \<and> t < 2 ^ 62"
  using be_bytes_safe [of i 4 packet 0] be_bytes_safe [of "i + 4" 4 packet 0] timestamp_range
  by (auto simp: timestamp_at_def)

text \<open>No timing datagram is read out of bounds, and the history of the clock stays intact, whatever is received at whatever time.\<close>

lemma ntp_packet_safe:
  assumes "ntp_inv n"
  shows "outcome ntp_inv (ntp_packet packet arrival_ns n)"
proof -
  have "outcome ntp_inv (process_timing_response packet arrival_ns n)"
  proof (cases "length packet < 32")
    case False
    obtain d r t where ts: "timestamp_at packet 8 = Done d" "timestamp_at packet 16 = Done r" "timestamp_at packet 24 = Done t"
      using timestamp_at_Done [of 8 packet] timestamp_at_Done [of 16 packet] timestamp_at_Done [of 24 packet] False by auto
    obtain rt ofs dp where m: "timing_measure d r t arrival_ns = (rt, ofs, dp)" by (cases "timing_measure d r t arrival_ns") auto
    obtain n' where n': "store_measurement ofs dp n = Done n'" "ntp_inv n'" using store_spec [OF assms] by blast
    then obtain o' d' where "best_measurement n' [0..<ntp_measurement_count n'] ofs dp = Done (o', d')"
      using best_measurement_spec [of "[0..<ntp_measurement_count n']" n' ofs dp] by (auto simp: ntp_inv_def)
    then show ?thesis using False ts m n' assms by (simp add: process_timing_response_def) (simp add: ntp_inv_def)
  qed (use assms in \<open>simp add: process_timing_response_def\<close>)
  then show ?thesis using assms by (auto simp: ntp_packet_def rd_def)
qed

section \<open>The error of the offset\<close>


definition honest :: "int \<Rightarrow> ntp \<Rightarrow> bool" where
  "honest \<theta> n \<longleftrightarrow> ntp_inv n \<and> (ntp_measurement_count n < 8 \<longrightarrow> ntp_measurement_index n = ntp_measurement_count n)
     \<and> (\<forall>i < ntp_measurement_count n. 0 \<le> ntp_dispersions n ! i \<and> \<bar>ntp_measurements n ! i - \<theta>\<bar> \<le> ntp_dispersions n ! i + 1)"

lemma start_honest:
  "ntp_clock_start_client True True ip port n = (ESP_OK, n') \<Longrightarrow> \<not> ntp_running n \<Longrightarrow> honest \<theta> n'"
  by (auto simp: ntp_clock_start_client_def ntp_clock_stop_def Let_def honest_def ntp_inv_def TIMING_HISTORY_SIZE_def split: if_splits)

lemma measure_exact:
  assumes "0 \<le> d" "d < 2 ^ 62" "0 \<le> r" "r < 2 ^ 62" "0 \<le> t" "t < 2 ^ 62" "0 \<le> a" "a < 2 ^ 62"
  shows "timing_measure d r t a = (a - d, t + cdiv ((a - d) - (t - r)) 2 - a, cdiv ((a - d) - (t - r)) 2)"
proof -
  let ?x = "(a - d) - (t - r)"
  have x: "\<bar>?x\<bar> < 2 ^ 63" using assms by (simp add: abs_if)
  have "\<bar>cdiv ?x 2\<bar> \<le> \<bar>?x\<bar> div 2" by (simp add: cdiv_def abs_mult sgn_if)
  then have h: "\<bar>cdiv ?x 2\<bar> < 2 ^ 62" using x by simp
  have "i64 (a - d) = a - d" "i64 (t - r) = t - r" "i64 ?x = ?x" using assms x by simp_all
  moreover have "i64 (t + cdiv ?x 2) = t + cdiv ?x 2" "i64 (t + cdiv ?x 2 - a) = t + cdiv ?x 2 - a" using assms h by simp_all
  ultimately show ?thesis by (simp add: timing_measure_def Let_def)
qed












definition demo_ntp :: ntp where
  "demo_ntp = \<lparr>ntp_running = True, ntp_remote = (1, 2), ntp_locked = False, ntp_offset_ns = 0,
     ntp_measurements = replicate 8 0, ntp_dispersions = replicate 8 0, ntp_measurement_count = 0, ntp_measurement_index = 0\<rparr>"



text \<open>
  The check of a response looks at the round trip only: when the sender claims to have held the request for longer than the whole round trip took,
  the delay and with it the dispersion is negative, and the offset of that response replaces every honest measurement.
\<close>

theorem ntp_negative_dispersion_wins:
  assumes "honest \<theta> n" "32 \<le> length packet" "packet ! 1 = TIMING_RESPONSE" "0 \<le> arrival" "arrival < 2 ^ 62"
    and "timestamp_at packet 8 = Done d" "timestamp_at packet 16 = Done r" "timestamp_at packet 24 = Done t"
    and "0 \<le> arrival - d" "arrival - d \<le> 1000000000" "t - r \<ge> arrival - d + 2"
  shows "\<exists>n'. ntp_packet packet arrival n = Done n' \<and> ntp_clock_get_offset_ns n' = t + cdiv ((arrival - d) - (t - r)) 2 - arrival"
proof -
  let ?x = "(arrival - d) - (t - r)"
  have rng: "0 \<le> d" "d < 2 ^ 62" "0 \<le> r" "r < 2 ^ 62" "0 \<le> t" "t < 2 ^ 62"
    using timestamp_at_Done [of 8 packet] timestamp_at_Done [of 16 packet] timestamp_at_Done [of 24 packet] assms(2,6-8) by auto
  note m = measure_exact [OF rng assms(4,5)]
  have neg: "cdiv ?x 2 < 0" using assms(11) by (simp add: cdiv_def sgn_if)
  have inv: "ntp_inv n" using assms(1) by (simp add: honest_def)
  define ofs where "ofs = t + cdiv ?x 2 - arrival"
  define dp where "dp = cdiv ?x 2"
  obtain n1 where n1: "store_measurement ofs dp n = Done n1" "ntp_inv n1" "ntp_measurement_count n1 = min 8 (ntp_measurement_count n + 1)"
    "ntp_measurements n1 = (ntp_measurements n)[ntp_measurement_index n := ofs]" "ntp_dispersions n1 = (ntp_dispersions n)[ntp_measurement_index n := dp]"
    using store_spec [OF inv, of ofs dp] by blast
  have slot: "i = ntp_measurement_index n \<or> 0 \<le> ntp_dispersions n1 ! i" if "i < ntp_measurement_count n1" for i
    using that n1(3,5) assms(1) by (cases "ntp_measurement_count n < 8") (auto simp: honest_def ntp_inv_def nth_list_update)
  obtain o' d' where b: "best_measurement n1 [0..<ntp_measurement_count n1] ofs dp = Done (o', d')" "d' \<le> dp"
    "\<forall>i < ntp_measurement_count n1. d' \<le> ntp_dispersions n1 ! i"
    "(o', d') = (ofs, dp) \<or> (\<exists>i < ntp_measurement_count n1. (o', d') = (ntp_measurements n1 ! i, ntp_dispersions n1 ! i))"
    by (rule best_in_history [OF n1(2)])
  have "o' = ofs"
  proof (rule ccontr)
    assume "o' \<noteq> ofs"
    then obtain i where i: "i < ntp_measurement_count n1" "o' = ntp_measurements n1 ! i" "d' = ntp_dispersions n1 ! i" using b(4) by auto
    then have "i = ntp_measurement_index n" using slot [OF i(1)] b(2) neg by (auto simp: dp_def)
    then show False using i(2) \<open>o' \<noteq> ofs\<close> n1(4) inv by (simp add: ntp_inv_def)
  qed
  then show ?thesis
    using assms(2,3,6-10) m n1(1) b(1) by (simp add: ntp_packet_def rd_def process_timing_response_def ofs_def dp_def ntp_clock_get_offset_ns_def)
qed

theorem ntp_negative_dispersion_wins_witness:
  "\<exists>n'. ntp_packet ([0x80, 0xD3, 0, 7, 0, 0, 0, 0] @ [0, 0, 0, 1, 0, 0, 0, 0] @ [0, 0, 0, 5, 0, 0, 0, 0] @ [0, 0, 0, 9, 0, 0, 0, 0]) 1000000500 demo_ntp
     = Done n' \<and> ntp_clock_get_offset_ns n' = 5999999750"
proof -
  let ?p = "[0x80, 0xD3, 0, 7, 0, 0, 0, 0, 0, 0, 0, 1, 0, 0, 0, 0, 0, 0, 0, 5, 0, 0, 0, 0, 0, 0, 0, 9, 0, 0, 0, 0] :: bytes"
  have "timestamp_at ?p 8 = Done 1000000000" "timestamp_at ?p 16 = Done 5000000000" "timestamp_at ?p 24 = Done 9000000000" by code_simp+
  moreover have "honest 4000000000 demo_ntp" by (simp add: honest_def ntp_inv_def demo_ntp_def)
  ultimately show ?thesis
    using ntp_negative_dispersion_wins [of 4000000000 demo_ntp ?p 1000000500 1000000000 5000000000 9000000000]
    by (auto simp: TIMING_RESPONSE_def cdiv_def)
qed

end
