(* ===== verification/Base64.thy ===== *)
theory Base64
  imports Prelude
begin

text \<open>
  Base64 encoding and decoding (\<open>main/plist/base64.c\<close>), used for the data elements of XML property lists.
  The buffers are bounded by the caller's capacity; \<open>Fail\<close> is the result \<open>-1\<close>.
\<close>

section \<open>The model\<close>

definition b64_table :: bytes where
  "b64_table = asc ''ABCDEFGHIJKLMNOPQRSTUVWXYZabcdefghijklmnopqrstuvwxyz0123456789+/''"

definition b64_decode_table :: bytes where
  "b64_decode_table =
    [
     255, 255, 255, 255, 255, 255, 255, 255, 255, 255, 255, 255, 255, 255, 255, 255, 255, 255, 255, 255, 255, 255, 255, 255, 255, 255, 255, 255, 255, 255, 255, 255,
     255, 255, 255, 255, 255, 255, 255, 255, 255, 255, 255, 62, 255, 255, 255, 63, 52, 53, 54, 55, 56, 57, 58, 59, 60, 61, 255, 255, 255, 0, 255, 255,
     255, 0, 1, 2, 3, 4, 5, 6, 7, 8, 9, 10, 11, 12, 13, 14, 15, 16, 17, 18, 19, 20, 21, 22, 23, 24, 25, 255, 255, 255, 255, 255,
     255, 26, 27, 28, 29, 30, 31, 32, 33, 34, 35, 36, 37, 38, 39, 40, 41, 42, 43, 44, 45, 46, 47, 48, 49, 50, 51, 255, 255, 255, 255, 255,
     255, 255, 255, 255, 255, 255, 255, 255, 255, 255, 255, 255, 255, 255, 255, 255, 255, 255, 255, 255, 255, 255, 255, 255, 255, 255, 255, 255, 255, 255, 255, 255,
     255, 255, 255, 255, 255, 255, 255, 255, 255, 255, 255, 255, 255, 255, 255, 255, 255, 255, 255, 255, 255, 255, 255, 255, 255, 255, 255, 255, 255, 255, 255, 255,
     255, 255, 255, 255, 255, 255, 255, 255, 255, 255, 255, 255, 255, 255, 255, 255, 255, 255, 255, 255, 255, 255, 255, 255, 255, 255, 255, 255, 255, 255, 255, 255,
     255, 255, 255, 255, 255, 255, 255, 255, 255, 255, 255, 255, 255, 255, 255, 255, 255, 255, 255, 255, 255, 255, 255, 255, 255, 255, 255, 255, 255, 255, 255, 255]"

definition base64_encoded_length :: "nat \<Rightarrow> nat" where
  "base64_encoded_length input_len = size_t (size_t (input_len + 2) div 3 * 4)"

text \<open>One round of the encoder: three octets, the missing ones zero, and how many of them are input.\<close>

definition encode_group :: "u8 \<Rightarrow> u8 \<Rightarrow> u8 \<Rightarrow> nat \<Rightarrow> bytes cres" where
  "encode_group a b c n =
     (let triple = (push_bit 16 (ucast a) OR push_bit 8 (ucast b) OR ucast c :: u32);
          digit = (\<lambda>sh. aget b64_table (unat (drop_bit sh triple AND 0x3F))) in
      cbind (digit 18) (\<lambda>c0. cbind (digit 12) (\<lambda>c1.
      cbind (if 1 < n then digit 6 else Done 61) (\<lambda>c2.
      cbind (if 2 < n then digit 0 else Done 61) (\<lambda>c3. Done [c0, c1, c2, c3])))))"

fun encode_loop :: "bytes \<Rightarrow> bytes cres" where
  "encode_loop [] = Done []"
| "encode_loop [a] = encode_group a 0 0 1"
| "encode_loop [a, b] = encode_group a b 0 2"
| "encode_loop (a # b # c # input) =
     cbind (encode_group a b c 3) (\<lambda>g. cbind (encode_loop input) (\<lambda>r. Done (g @ r)))"

definition base64_encode :: "bytes \<Rightarrow> nat \<Rightarrow> bytes cres" where
  "base64_encode input output_capacity =
     (if base64_encoded_length (length input) > output_capacity then Fail else encode_loop input)"

definition is_blank :: "u8 \<Rightarrow> bool" where
  "is_blank c \<longleftrightarrow> c = 32 \<or> c = 9 \<or> c = 10 \<or> c = 13"

text \<open>The decoding loop with its bit accumulator, of which 32 bits are kept, and the output written so far.\<close>

fun decode_loop :: "nat \<Rightarrow> u32 \<Rightarrow> nat \<Rightarrow> bytes \<Rightarrow> bytes \<Rightarrow> bytes cres" where
  "decode_loop capacity accum bits out [] = Done out"
| "decode_loop capacity accum bits out (c # input) =
     (if is_blank c then decode_loop capacity accum bits out input
      else if c = 61 then Done out
      else cbind (aget b64_decode_table (unat c)) (\<lambda>val.
        if val = 255 then Fail
        else
          let accum = push_bit 6 accum OR ucast val; bits = bits + 6 in
          if 8 \<le> bits then
            if capacity \<le> length out then Fail
            else decode_loop capacity accum (bits - 8) (out @ [ucast (drop_bit (bits - 8) accum AND 0xFF)]) input
          else decode_loop capacity accum bits out input))"

definition base64_decode :: "bytes \<Rightarrow> nat \<Rightarrow> bytes cres" where
  "base64_decode input output_capacity =
     (if output_capacity = 0 then Fail
      else
        let actual_len = length (filter (\<lambda>c. \<not> is_blank c) input) in
        if size_t (actual_len * 3) div 4 > output_capacity then Fail
        else decode_loop output_capacity 0 0 [] input)"

section \<open>The round trip\<close>

definition b64 :: "u8 \<Rightarrow> u8" where
  "b64 v = b64_table ! unat v"

lemma table_sizes: "length b64_table = 64" "length b64_decode_table = 256"
  by (simp_all add: b64_table_def b64_decode_table_def)

lemma b64_inverse_all:
  "list_all (\<lambda>i. let c = b64_table ! i in unat (b64_decode_table ! unat c) = i \<and> \<not> is_blank c \<and> c \<noteq> 61) [0..<64]"
  by code_simp

lemma b64_inverse:
  assumes "unat v < 64"
  shows "b64_decode_table ! unat (b64 v) = v" "\<not> is_blank (b64 v)" "b64 v \<noteq> 61"
proof -
  have "unat v \<in> set [0..<64]" using assms by simp
  with b64_inverse_all have *: "unat (b64_decode_table ! unat (b64 v)) = unat v \<and> \<not> is_blank (b64 v) \<and> b64 v \<noteq> 61"
    unfolding list_all_iff b64_def Let_def by blast
  then show "b64_decode_table ! unat (b64 v) = v" "\<not> is_blank (b64 v)" "b64 v \<noteq> 61" by (simp_all add: word_unat_eq_iff)
qed

text \<open>The four digits of a group.\<close>

definition triple_of :: "u8 \<Rightarrow> u8 \<Rightarrow> u8 \<Rightarrow> u32" where
  "triple_of a b c = push_bit 16 (ucast a) OR push_bit 8 (ucast b) OR ucast c"

definition sextet :: "nat \<Rightarrow> u8 \<Rightarrow> u8 \<Rightarrow> u8 \<Rightarrow> u8" where
  "sextet sh a b c = ucast (drop_bit sh (triple_of a b c) AND 0x3F)"

lemma less_8: "n < (8::nat) \<Longrightarrow> n = 0 \<or> n = 1 \<or> n = 2 \<or> n = 3 \<or> n = 4 \<or> n = 5 \<or> n = 6 \<or> n = 7" by presburger

lemma bit_masks: "bit (0x3F :: u32) n \<longleftrightarrow> n < 6" "bit (0x3F :: int) n \<longleftrightarrow> n < 6" "bit (0xFF :: u32) n \<longleftrightarrow> n < 8"
proof -
  have "bit (mask 6 :: int) n \<longleftrightarrow> n < 6" by (auto simp: bit_mask_iff)
  then show "bit (0x3F :: int) n \<longleftrightarrow> n < 6" by (simp add: mask_eq_exp_minus_1)
  have "bit (mask k :: u32) n \<longleftrightarrow> n < k" if "k \<le> 32" for k using that by (auto simp: bit_mask_iff)
  from this [of 6] this [of 8] show "bit (0x3F :: u32) n \<longleftrightarrow> n < 6" "bit (0xFF :: u32) n \<longleftrightarrow> n < 8"
    by (simp_all add: mask_eq_exp_minus_1)
qed

lemma bit_u8: "8 \<le> n \<Longrightarrow> \<not> bit (b :: u8) n"
  using bit_imp_le_length [of b n] by auto

lemma bit_sextet: "bit (sextet sh a b c) n \<longleftrightarrow> n < 6 \<and> bit (triple_of a b c) (sh + n)"
  unfolding sextet_def by (auto simp: bit_simps bit_masks)

lemma bit_triple: "bit (triple_of a b c) n \<longleftrightarrow>
    16 \<le> n \<and> bit a (n - 16) \<or> 8 \<le> n \<and> bit b (n - 8) \<or> bit c n"
  unfolding triple_of_def using bit_imp_le_length [of a "n - 16"] bit_imp_le_length [of b "n - 8"] bit_imp_le_length [of c n]
  by (auto simp: bit_simps)

lemma byte_eqI:
  assumes "\<And>n. n < 8 \<Longrightarrow> bit x n = bit (y :: u8) n"
  shows "x = y"
  by (rule bit_word_eqI) (use assms in simp)

lemma group_bytes1:
  "ucast (drop_bit 4 (push_bit 6 (push_bit 6 acc OR ucast (sextet 18 a b c)) OR ucast (sextet 12 a b c)) AND (0xFF :: u32)) = a"
  by (rule byte_eqI, drule less_8, elim disjE; simp add: bit_simps bit_masks bit_sextet bit_triple bit_u8)

lemma group_bytes2:
  "ucast (drop_bit 2 (push_bit 6 (push_bit 6 (push_bit 6 acc OR ucast (sextet 18 a b c)) OR ucast (sextet 12 a b c))
     OR ucast (sextet 6 a b c)) AND (0xFF :: u32)) = b"
  by (rule byte_eqI, drule less_8, elim disjE; simp add: bit_simps bit_masks bit_sextet bit_triple bit_u8)

lemma group_bytes3:
  "ucast (drop_bit 0 (push_bit 6 (push_bit 6 (push_bit 6 (push_bit 6 acc OR ucast (sextet 18 a b c)) OR ucast (sextet 12 a b c))
     OR ucast (sextet 6 a b c)) OR ucast (sextet 0 a b c)) AND (0xFF :: u32)) = c"
  by (rule byte_eqI, drule less_8, elim disjE; simp add: numeral_2_eq_2 bit_simps bit_masks bit_sextet bit_triple bit_u8)

lemma digit_unat: "unat (drop_bit sh w AND 0x3F :: u32) = unat (ucast (drop_bit sh w AND 0x3F) :: u8)"
  and sextet_bound: "unat (sextet sh a b c) < 64"
proof -
  have le: "unat (x AND 0x3F :: u32) \<le> 63" for x
    using word_and_le1 [of x "0x3F"] by (simp add: word_le_nat_alt)
  show *: "unat (drop_bit sh w AND 0x3F :: u32) = unat (ucast (drop_bit sh w AND 0x3F) :: u8)" for w sh
    using le [of "drop_bit sh w"] by (simp add: unsigned_ucast_eq take_bit_nat_eq_self)
  show "unat (sextet sh a b c) < 64" using le [of "drop_bit sh (triple_of a b c)"] unfolding sextet_def *[symmetric] by simp
qed

lemma encode_group_digits:
  "encode_group a b c n = Done [b64 (sextet 18 a b c), b64 (sextet 12 a b c),
     if 1 < n then b64 (sextet 6 a b c) else 61, if 2 < n then b64 (sextet 0 a b c) else 61]"
proof -
  have "aget b64_table (unat (drop_bit sh (triple_of a b c) AND 0x3F)) = Done (b64 (sextet sh a b c))" for sh
    using sextet_bound [of sh a b c] table_sizes unfolding digit_unat sextet_def by (simp add: aget_def b64_def)
  from this [of 18] this [of 12] this [of 6] this [of 0] show ?thesis
    by (simp add: encode_group_def triple_of_def [symmetric] Let_def)
qed

lemma decode_digit:
  assumes "unat v < 64"
  shows "decode_loop cap accum bits out (b64 v # input) =
     (let accum = push_bit 6 accum OR ucast v; bits = bits + 6 in
      if 8 \<le> bits then
        if cap \<le> length out then Fail
        else decode_loop cap accum (bits - 8) (out @ [ucast (drop_bit (bits - 8) accum AND 0xFF)]) input
      else decode_loop cap accum bits out input)"
proof -
  have "v \<noteq> 255" using assms by auto
  moreover have "unat (b64 v) < 256" using unat_u8_less by blast
  ultimately show ?thesis using b64_inverse [OF assms] table_sizes by (simp add: aget_def Let_def)
qed

lemmas group_bytes = group_bytes1 group_bytes2 group_bytes3

lemma not_blank [simp]: "\<not> is_blank 61" "is_blank 13" "is_blank 10"
  by (simp_all add: is_blank_def)

lemma decode_group:
  assumes "length out + 3 \<le> cap"
  obtains acc' where "decode_loop cap acc 0 out (b64 (sextet 18 a b c) # b64 (sextet 12 a b c) # b64 (sextet 6 a b c) #
      b64 (sextet 0 a b c) # rest) = decode_loop cap acc' 0 (out @ [a, b, c]) rest"
  using assms that by (simp add: decode_digit sextet_bound Let_def group_bytes [simplified] del: decode_loop.simps)

lemma decode_tail:
  "length out + 1 \<le> cap \<Longrightarrow>
    decode_loop cap acc 0 out [b64 (sextet 18 a b c), b64 (sextet 12 a b c), 61, 61] = Done (out @ [a])"
  "length out + 2 \<le> cap \<Longrightarrow>
    decode_loop cap acc 0 out [b64 (sextet 18 a b c), b64 (sextet 12 a b c), b64 (sextet 6 a b c), 61] = Done (out @ [a, b])"
proof -
  have pad: "decode_loop cap acc bits out (61 # r) = Done out" for acc bits out r by (simp add: is_blank_def)
  show "length out + 1 \<le> cap \<Longrightarrow>
    decode_loop cap acc 0 out [b64 (sextet 18 a b c), b64 (sextet 12 a b c), 61, 61] = Done (out @ [a])"
    by (simp add: decode_digit sextet_bound Let_def group_bytes [simplified] pad del: decode_loop.simps)
  show "length out + 2 \<le> cap \<Longrightarrow>
    decode_loop cap acc 0 out [b64 (sextet 18 a b c), b64 (sextet 12 a b c), b64 (sextet 6 a b c), 61] = Done (out @ [a, b])"
    by (simp add: decode_digit sextet_bound Let_def group_bytes [simplified] pad del: decode_loop.simps)
qed

lemma encode_decode:
  "\<exists>s. encode_loop xs = Done s \<and> length s = 4 * ((length xs + 2) div 3)
     \<and> (\<forall>c \<in> set s. \<not> is_blank c)
     \<and> (\<forall>cap acc out. length out + length xs \<le> cap \<longrightarrow> decode_loop cap acc 0 out s = Done (out @ xs))"
proof (induction xs rule: encode_loop.induct)
  case (4 a b c input)
  then obtain s where s: "encode_loop input = Done s" "length s = 4 * ((length input + 2) div 3)" "\<forall>c \<in> set s. \<not> is_blank c"
    and dec: "\<And>cap acc out. length out + length input \<le> cap \<Longrightarrow> decode_loop cap acc 0 out s = Done (out @ input)" by blast
  let ?g = "[b64 (sextet 18 a b c), b64 (sextet 12 a b c), b64 (sextet 6 a b c), b64 (sextet 0 a b c)]"
  have enc: "encode_loop (a # b # c # input) = Done (?g @ s)" by (simp add: encode_group_digits s)
  have "decode_loop cap acc 0 out (?g @ s) = Done (out @ a # b # c # input)" if "length out + length (a # b # c # input) \<le> cap"
    for cap acc out
    by (rule decode_group [of out cap acc a b c s]) (use that dec [of "out @ [a, b, c]" cap] in auto)
  moreover have "length (?g @ s) = 4 * ((length (a # b # c # input) + 2) div 3)"
    using s(2) div_add_self2 [of 3 "length input + 2"] by simp
  moreover have "\<forall>c \<in> set (?g @ s). \<not> is_blank c" using s(3) b64_inverse(2) sextet_bound by simp
  ultimately show ?case using enc by blast
qed (auto simp: encode_group_digits decode_tail b64_inverse sextet_bound simp del: decode_loop.simps(2))

lemma decode_blanks:
  "decode_loop cap acc bits out (filter (\<lambda>c. \<not> is_blank c) digits) = decode_loop cap acc bits out digits"
proof (induction cap acc bits out digits rule: decode_loop.induct)
  case (2 capacity accum bits out c input)
  then show ?case by (cases "aget b64_decode_table (unat c)") (simp_all add: Let_def)
qed simp

lemma encoded_length: "n < 2 ^ 29 \<Longrightarrow> base64_encoded_length n = 4 * ((n + 2) div 3)"
  by (simp add: base64_encoded_length_def)

text \<open>
  Encoded data decodes to itself: with room for the \<open>4 * ceil(n / 3)\<close> digits the encoder writes exactly so many,
  and the decoder returns the input from these digits, with blanks and line breaks inserted anywhere, given a
  buffer for the full groups of three bytes.
\<close>

theorem base64_roundtrip:
  assumes "length xs < 2 ^ 29" "4 * ((length xs + 2) div 3) \<le> cap"
  shows "\<exists>s. base64_encode xs cap = Done s \<and> length s = 4 * ((length xs + 2) div 3)
    \<and> (\<forall>digits cap'. filter (\<lambda>c. \<not> is_blank c) digits = s \<and> 3 * ((length xs + 2) div 3) \<le> cap' \<and> 0 < cap'
        \<longrightarrow> base64_decode digits cap' = Done xs)"
proof -
  obtain s where s: "encode_loop xs = Done s" "length s = 4 * ((length xs + 2) div 3)"
    and dec: "\<forall>cap acc out. length out + length xs \<le> cap \<longrightarrow> decode_loop cap acc 0 out s = Done (out @ xs)"
    using encode_decode [of xs] by blast
  have "base64_encode xs cap = Done s" using assms s(1) by (simp add: base64_encode_def encoded_length)
  moreover have "base64_decode digits cap' = Done xs"
    if t: "filter (\<lambda>c. \<not> is_blank c) digits = s" and cap': "3 * ((length xs + 2) div 3) \<le> cap'" "0 < cap'" for digits cap'
  proof -
    have "length xs \<le> 3 * ((length xs + 2) div 3)" by simp
    then have "decode_loop cap' 0 0 [] digits = Done xs"
      using dec [rule_format, of "[]" cap' 0] cap' decode_blanks [of cap' 0 0 "[]" digits] t by simp
    moreover have "size_t (length s * 3) div 4 = 3 * ((length xs + 2) div 3)" using assms(1) s(2) by simp
    ultimately show ?thesis using t cap' by (simp add: base64_decode_def)
  qed
  ultimately show ?thesis using s(2) by blast
qed

theorem base64_roundtrip_witness:
  "\<exists>s. base64_encode [77, 97, 110, 33] 8 = Done s \<and> base64_decode (take 5 s @ [13, 10] @ drop 5 s) 6 = Done [77, 97, 110, 33]"
proof -
  obtain s where "base64_encode [77, 97, 110, 33] 8 = Done s" and len: "length s = 8"
    and dec: "\<And>t cap'. filter (\<lambda>c. \<not> is_blank c) t = s \<Longrightarrow> 6 \<le> cap' \<Longrightarrow> base64_decode t cap' = Done [77, 97, 110, 33]"
    using base64_roundtrip [of "[77, 97, 110, 33]" 8] by auto
  moreover from this encode_decode [of "[77, 97, 110, 33]"] have "\<forall>c \<in> set s. \<not> is_blank c"
    by (auto simp: base64_encode_def encoded_length)
  then have "filter (\<lambda>c. \<not> is_blank c) (take 5 s) = take 5 s" "filter (\<lambda>c. \<not> is_blank c) (drop 5 s) = drop 5 s"
    by (auto simp: filter_id_conv dest: in_set_takeD in_set_dropD)
  then have "filter (\<lambda>c. \<not> is_blank c) (take 5 s @ [13, 10] @ drop 5 s) = s" by simp
  ultimately show ?thesis by fastforce
qed

text \<open>The decoder stays within its tables and the output within the capacity, for every input.\<close>

lemma decode_loop_bounded:
  "length out \<le> cap \<Longrightarrow> outcome (\<lambda>r. length r \<le> cap) (decode_loop cap acc bits out input)"
proof (induction cap acc bits out input rule: decode_loop.induct)
  case (2 cap acc bits out c input)
  have "aget b64_decode_table (unat c) = Done (b64_decode_table ! unat c)"
    using unat_u8_less [of c] table_sizes by (simp add: aget_def)
  with 2 show ?case by (auto simp: Let_def)
qed simp

lemma base64_decode_bounded: "outcome (\<lambda>r. length r \<le> cap) (base64_decode input cap)"
  using decode_loop_bounded [of "[]" cap] by (simp add: base64_decode_def Let_def)

end
