(* ===== verification/Plist_Xml.thy ===== *)
theory Plist_Xml
  imports Base64 C_String "HOL-Library.Sublist"
begin

text \<open>
  The XML property list writer (\<open>main/plist/plist_xml.c\<close>), which renders the answer to \<open>GET /info\<close> into a
  fixed buffer. A write outside of the buffer is \<open>Fault\<close>.
\<close>

section \<open>The model\<close>

record plist =
  pl_buffer :: bytes
  pl_size :: nat
  pl_capacity :: nat

definition plist_append :: "plist \<Rightarrow> bytes \<Rightarrow> plist cres" where
  "plist_append p str =
     (let len = length str in
      if size_t (pl_size p + len) < pl_capacity p then
        cbind (put_bytes (pl_buffer p) (pl_size p) str) (\<lambda>buf.
          let size = size_t (pl_size p + len) in
          cbind (put_bytes buf size [0]) (\<lambda>buf. Done (p\<lparr>pl_buffer := buf, pl_size := size\<rparr>)))
      else Done p)"

definition plist_init :: "bytes \<Rightarrow> nat \<Rightarrow> plist cres" where
  "plist_init buffer capacity =
     cbind (put_bytes buffer 0 [0]) (\<lambda>buf. Done \<lparr>pl_buffer = buf, pl_size = 0, pl_capacity = capacity\<rparr>)"

definition xml_prolog :: "bytes list" where
  "xml_prolog = [asc ''<?xml version='' @ [34] @ asc ''1.0'' @ [34] @ asc '' encoding='' @ [34] @ asc ''UTF-8'' @ [34] @ asc ''?>'' @ [10],
     asc ''<!DOCTYPE plist PUBLIC '' @ [34] @ asc ''-//Apple//DTD PLIST 1.0//EN'' @ [34, 32, 34]
       @ asc ''http://www.apple.com/DTDs/PropertyList-1.0.dtd'' @ [34] @ asc ''>'' @ [10],
     asc ''<plist version='' @ [34] @ asc ''1.0'' @ [34] @ asc ''>'' @ [10]]"

definition plist_begin :: "plist \<Rightarrow> plist cres" where
  "plist_begin p =
     cbind (plist_append p (xml_prolog ! 0)) (\<lambda>p. cbind (plist_append p (xml_prolog ! 1)) (\<lambda>p. plist_append p (xml_prolog ! 2)))"

definition remaining :: "plist \<Rightarrow> nat" where
  "remaining p = size_t (pl_capacity p + 2 ^ 32 - pl_size p)"

text \<open>The pattern of the writers: print behind the text, and keep it when it was not cut.\<close>

definition emit :: "plist \<Rightarrow> bytes \<Rightarrow> plist cres" where
  "emit p expansion =
     cbind (snprintf (pl_buffer p) (pl_size p) (remaining p) expansion) (\<lambda>(len, buf).
       let p' = p\<lparr>pl_buffer := buf\<rparr> in
       Done (if len > 0 \<and> len < remaining p then p'\<lparr>pl_size := size_t (pl_size p + len)\<rparr> else p'))"

definition key_text :: "bytes \<Rightarrow> bytes" where
  "key_text key = asc ''<key>'' @ key @ asc ''</key>'' @ [10]"

definition string_text :: "bytes \<Rightarrow> bytes \<Rightarrow> bytes" where
  "string_text key val = key_text key @ asc ''<string>'' @ val @ asc ''</string>'' @ [10]"

definition integer_text :: "bytes \<Rightarrow> bytes" where
  "integer_text digits = asc ''<integer>'' @ digits @ asc ''</integer>'' @ [10]"

definition plist_dict_string :: "plist \<Rightarrow> bytes \<Rightarrow> bytes \<Rightarrow> plist cres" where
  "plist_dict_string p key val = emit p (string_text key val)"

definition plist_dict_int :: "plist \<Rightarrow> bytes \<Rightarrow> int \<Rightarrow> plist cres" where
  "plist_dict_int p key val = emit p (key_text key @ integer_text (dec_int val))"

definition plist_dict_uint :: "plist \<Rightarrow> bytes \<Rightarrow> u64 \<Rightarrow> plist cres" where
  "plist_dict_uint p key val = emit p (key_text key @ integer_text (dec (unat val)))"

definition plist_dict_bool :: "plist \<Rightarrow> bytes \<Rightarrow> bool \<Rightarrow> plist cres" where
  "plist_dict_bool p key val = emit p (key_text key @ asc ''<'' @ (if val then asc ''true'' else asc ''false'') @ asc ''/>'' @ [10])"

definition plist_dict_data :: "plist \<Rightarrow> bytes \<Rightarrow> bytes \<Rightarrow> plist cres" where
  "plist_dict_data p key data =
     (let b64_len = base64_encoded_length (length data) in
      if remaining p < size_t (length key + b64_len + 50) then Done p
      else
        cbind (snprintf (pl_buffer p) (pl_size p) (remaining p) (key_text key @ asc ''<data>'')) (\<lambda>(written, buf).
        let p = p\<lparr>pl_buffer := buf\<rparr>;
            p = (if written > 0 then p\<lparr>pl_size := size_t (pl_size p + written)\<rparr> else p) in
        case base64_encode data (remaining p) of
          Fault \<Rightarrow> Fault
        | Fail \<Rightarrow> Done p
        | Done s \<Rightarrow>
            cbind (put_bytes (pl_buffer p) (pl_size p) s) (\<lambda>buf.
            let size = size_t (pl_size p + length s) in
            cbind (put_bytes buf size [0]) (\<lambda>buf. plist_append (p\<lparr>pl_buffer := buf, pl_size := size\<rparr>) (asc ''</data>'' @ [10])))))"

definition plist_dict_array_begin :: "plist \<Rightarrow> bytes \<Rightarrow> plist cres" where
  "plist_dict_array_begin p key = emit p (key_text key @ asc ''<array>'' @ [10])"

definition plist_array_int :: "plist \<Rightarrow> int \<Rightarrow> plist cres" where
  "plist_array_int p val = emit p (integer_text (dec_int val))"

text \<open>The fixed elements.\<close>

definition plist_dict_begin :: "plist \<Rightarrow> plist cres" where
  "plist_dict_begin p = plist_append p (asc ''<dict>'' @ [10])"

definition plist_dict_end :: "plist \<Rightarrow> plist cres" where
  "plist_dict_end p = plist_append p (asc ''</dict>'' @ [10])"

definition plist_array_begin :: "plist \<Rightarrow> plist cres" where
  "plist_array_begin p = plist_append p (asc ''<array>'' @ [10])"

definition plist_array_end :: "plist \<Rightarrow> plist cres" where
  "plist_array_end p = plist_append p (asc ''</array>'' @ [10])"

definition plist_end :: "plist \<Rightarrow> (nat \<times> plist) cres" where
  "plist_end p = cbind (plist_append p (asc ''</plist>'' @ [10])) (\<lambda>p. Done (pl_size p, p))"

section \<open>Every element is written whole or not at all\<close>

definition plist_ok :: "plist \<Rightarrow> bool" where
  "plist_ok p \<longleftrightarrow> pl_size p < pl_capacity p \<and> pl_capacity p \<le> length (pl_buffer p) \<and> pl_capacity p < 2 ^ 31"

definition doc :: "plist \<Rightarrow> bytes" where
  "doc p = take (pl_size p) (pl_buffer p)"

text \<open>The calls of the writer, and the text each of them stands for.\<close>

datatype xml_call = Dict_begin | Dict_end | Array_begin | Array_end | Dict_string bytes bytes | Dict_int bytes int
  | Dict_uint bytes u64 | Dict_bool bytes bool | Dict_data bytes bytes | Dict_array_begin bytes | Array_int int

fun xml_exec :: "xml_call \<Rightarrow> plist \<Rightarrow> plist cres" where
  "xml_exec Dict_begin p = plist_dict_begin p"
| "xml_exec Dict_end p = plist_dict_end p"
| "xml_exec Array_begin p = plist_array_begin p"
| "xml_exec Array_end p = plist_array_end p"
| "xml_exec (Dict_string k v) p = plist_dict_string p k v"
| "xml_exec (Dict_int k v) p = plist_dict_int p k v"
| "xml_exec (Dict_uint k v) p = plist_dict_uint p k v"
| "xml_exec (Dict_bool k v) p = plist_dict_bool p k v"
| "xml_exec (Dict_data k d) p = plist_dict_data p k d"
| "xml_exec (Dict_array_begin k) p = plist_dict_array_begin p k"
| "xml_exec (Array_int v) p = plist_array_int p v"

definition b64_text :: "bytes \<Rightarrow> bytes" where
  "b64_text d = (case encode_loop d of Done s \<Rightarrow> s | _ \<Rightarrow> [])"

fun rendering :: "xml_call \<Rightarrow> bytes" where
  "rendering Dict_begin = asc ''<dict>'' @ [10]"
| "rendering Dict_end = asc ''</dict>'' @ [10]"
| "rendering Array_begin = asc ''<array>'' @ [10]"
| "rendering Array_end = asc ''</array>'' @ [10]"
| "rendering (Dict_string k v) = string_text k v"
| "rendering (Dict_int k v) = key_text k @ integer_text (dec_int v)"
| "rendering (Dict_uint k v) = key_text k @ integer_text (dec (unat v))"
| "rendering (Dict_bool k v) = key_text k @ asc ''<'' @ (if v then asc ''true'' else asc ''false'') @ asc ''/>'' @ [10]"
| "rendering (Dict_data k d) = key_text k @ asc ''<data>'' @ b64_text d @ asc ''</data>'' @ [10]"
| "rendering (Dict_array_begin k) = key_text k @ asc ''<array>'' @ [10]"
| "rendering (Array_int v) = integer_text (dec_int v)"

text \<open>A step writes its whole text or nothing, and all of it when there is room for it.\<close>

definition writes :: "nat \<Rightarrow> plist \<Rightarrow> bytes \<Rightarrow> plist cres \<Rightarrow> bool" where
  "writes slack p e c \<longleftrightarrow> (\<exists>p'. c = Done p' \<and> plist_ok p' \<and> pl_capacity p' = pl_capacity p
     \<and> (doc p' = doc p @ e \<and> pl_size p' = pl_size p + length e \<or> doc p' = doc p \<and> pl_size p' = pl_size p)
     \<and> (pl_size p + length e + slack < pl_capacity p \<longrightarrow> doc p' = doc p @ e \<and> pl_size p' = pl_size p + length e))"

lemma size_within: "plist_ok p \<Longrightarrow> n < pl_capacity p \<Longrightarrow> size_t n = n"
  by (simp add: plist_ok_def)

lemma remaining_ok: "plist_ok p \<Longrightarrow> remaining p = pl_capacity p - pl_size p"
proof -
  assume "plist_ok p"
  then have "pl_capacity p + 2 ^ 32 - pl_size p = (pl_capacity p - pl_size p) + 2 ^ 32" "pl_capacity p - pl_size p < 2 ^ 32"
    by (auto simp: plist_ok_def)
  then show ?thesis by (simp only: remaining_def size_t_def mod_add_self2 mod_less)
qed

lemma append_writes:
  assumes "plist_ok p" "length e < 2 ^ 31"
  shows "writes 0 p e (plist_append p e)"
proof (cases "pl_size p + length e < pl_capacity p")
  case True
  then have "pl_size p + length e \<le> length (pl_buffer p)" using assms(1) by (simp add: plist_ok_def)
  then obtain b1 where b1: "put_bytes (pl_buffer p) (pl_size p) e = Done b1" "length b1 = length (pl_buffer p)"
    "\<forall>n \<le> length e. take (pl_size p + n) b1 = take (pl_size p) (pl_buffer p) @ take n e" by (rule put_bytes_facts)
  have "pl_size p + length e + length [0 :: u8] \<le> length b1" using True assms(1) b1(2) by (simp add: plist_ok_def)
  then obtain b2 where b2: "put_bytes b1 (pl_size p + length e) [0] = Done b2" "length b2 = length b1"
    "\<forall>n \<le> length [0 :: u8]. take (pl_size p + length e + n) b2 = take (pl_size p + length e) b1 @ take n [0]"
    by (rule put_bytes_facts)
  have "plist_append p e = Done (p\<lparr>pl_buffer := b2, pl_size := pl_size p + length e\<rparr>)"
    using True assms b1(1) b2(1) by (simp add: plist_append_def Let_def plist_ok_def)
  then show ?thesis using True assms(1) b1(2,3) b2(2) b2(3) [rule_format, of 0] by (simp add: writes_def doc_def plist_ok_def)
next
  case False
  then have "plist_append p e = Done p" using assms by (simp add: plist_append_def Let_def plist_ok_def)
  then show ?thesis using False assms(1) by (simp add: writes_def)
qed

lemma emit_writes:
  assumes "plist_ok p"
  shows "writes 0 p e (emit p e)"
proof -
  have r: "remaining p = pl_capacity p - pl_size p" "0 < remaining p" "pl_size p + remaining p \<le> length (pl_buffer p)"
    using assms remaining_ok [OF assms] by (auto simp: plist_ok_def)
  obtain b where b: "snprintf (pl_buffer p) (pl_size p) (remaining p) e = Done (length e, b)" "length b = length (pl_buffer p)"
    "\<forall>k \<le> length e. k < remaining p \<longrightarrow> take (pl_size p + k) b = take (pl_size p) (pl_buffer p) @ take k e"
    by (rule snprintf_facts [OF r(2,3), of e])
  show ?thesis
  proof (cases "0 < length e \<and> length e < remaining p")
    case True
    then have "size_t (pl_size p + length e) = pl_size p + length e" using r(1) by (intro size_within [OF assms]) (simp add: less_diff_conv)
    then show ?thesis using True assms b(1,2) b(3) [rule_format, of "length e"] r(1) by (simp add: writes_def emit_def doc_def plist_ok_def less_diff_conv)
  next
    case False
    then show ?thesis using assms b(1,2) b(3) [rule_format, of 0] r(1,2) by (auto simp: writes_def emit_def doc_def plist_ok_def)
  qed
qed

lemma writes_full:
  assumes "writes n p e c" "pl_size p + length e + n < pl_capacity p"
  obtains p' where "c = Done p'" "plist_ok p'" "pl_capacity p' = pl_capacity p" "doc p' = doc p @ e" "pl_size p' = pl_size p + length e"
  using assms that by (auto simp: writes_def)

lemma b64_text_facts: "encode_loop d = Done (b64_text d)" "length (b64_text d) = 4 * ((length d + 2) div 3)"
  using encode_decode [of d] by (auto simp: b64_text_def)

lemma dict_data_writes:
  assumes p: "plist_ok p" and d: "length d < 2 ^ 29" "length k < 2 ^ 29"
  shows "writes 24 p (rendering (Dict_data k d)) (plist_dict_data p k d)"
proof (cases "remaining p < length k + length (b64_text d) + 50")
  case True
  then have "plist_dict_data p k d = Done p"
    using d by (simp add: plist_dict_data_def encoded_length b64_text_facts)
  then show ?thesis using True p remaining_ok [OF p] by (simp add: writes_def key_text_def plist_ok_def)
next
  case False
  let ?h = "key_text k @ asc ''<data>''" and ?t = "asc ''</data>'' @ [10]"
  have room: "pl_size p + length k + length (b64_text d) + 50 \<le> pl_capacity p"
    using False p remaining_ok [OF p] by (simp add: plist_ok_def)
  obtain p1 where p1: "emit p ?h = Done p1" "plist_ok p1" "pl_capacity p1 = pl_capacity p" "doc p1 = doc p @ ?h"
      "pl_size p1 = pl_size p + length ?h"
    by (rule writes_full [OF emit_writes [OF p, of ?h]]) (use room in \<open>simp add: key_text_def\<close>)
  obtain p2 where p2: "plist_append p1 (b64_text d) = Done p2" "plist_ok p2" "pl_capacity p2 = pl_capacity p1"
      "doc p2 = doc p1 @ b64_text d" "pl_size p2 = pl_size p1 + length (b64_text d)"
    by (rule writes_full [OF append_writes [OF p1(2), of "b64_text d"]])
      (use room p1(3,5) d(1) in \<open>auto simp: key_text_def b64_text_facts\<close>)
  obtain p3 where p3: "plist_append p2 ?t = Done p3" "plist_ok p3" "pl_capacity p3 = pl_capacity p2"
      "doc p3 = doc p2 @ ?t" "pl_size p3 = pl_size p2 + length ?t"
    by (rule writes_full [OF append_writes [OF p2(2), of ?t]]) (use room p1(3,5) p2(3,5) in \<open>auto simp: key_text_def\<close>)
  have "remaining p1 \<ge> base64_encoded_length (length d)"
    using room p1(3,5) remaining_ok [OF p1(2)] d(1) by (simp add: encoded_length b64_text_facts key_text_def)
  then have enc: "base64_encode d (remaining p1) = Done (b64_text d)" by (simp add: base64_encode_def b64_text_facts)
  obtain b where b: "snprintf (pl_buffer p) (pl_size p) (remaining p) ?h = Done (length ?h, b)"
    and p1': "p1 = p\<lparr>pl_buffer := b, pl_size := size_t (pl_size p + length ?h)\<rparr>"
    using p1(1) room remaining_ok [OF p] by (auto simp: emit_def cbind_eq_Done Let_def snprintf_def key_text_def split: if_splits)
  have "size_t (pl_size p1 + length (b64_text d)) < pl_capacity p1"
    using room p1(3,5) size_within [OF p1(2)] by (simp add: key_text_def)
  then obtain b1 b2 where "put_bytes (pl_buffer p1) (pl_size p1) (b64_text d) = Done b1"
      "put_bytes b1 (size_t (pl_size p1 + length (b64_text d))) [0] = Done b2"
    and p2': "p2 = p1\<lparr>pl_buffer := b2, pl_size := size_t (pl_size p1 + length (b64_text d))\<rparr>"
    using p2(1) by (auto simp: plist_append_def Let_def cbind_eq_Done)
  then have "plist_dict_data p k d = Done p3"
    using False b enc p3(1) d unfolding p1' p2'
    by (simp add: plist_dict_data_def Let_def encoded_length b64_text_facts key_text_def)
  then show ?thesis using p1 p2 p3 by (simp add: writes_def)
qed

fun call_fits :: "xml_call \<Rightarrow> bool" where
  "call_fits (Dict_data k d) \<longleftrightarrow> length k < 2 ^ 29 \<and> length d < 2 ^ 29"
| "call_fits _ \<longleftrightarrow> True"

lemma writes_slack: "writes 0 p e c \<Longrightarrow> writes 24 p e c"
  by (auto simp: writes_def)

lemma exec_writes:
  assumes "plist_ok p" "call_fits c"
  shows "writes 24 p (rendering c) (xml_exec c p)"
proof (cases c)
  case (Dict_data k d)
  with assms show ?thesis using dict_data_writes [OF assms(1), of d k] by simp
qed (auto intro!: writes_slack append_writes emit_writes assms(1)
    simp: plist_dict_begin_def plist_dict_end_def plist_array_begin_def plist_array_end_def plist_dict_string_def
      plist_dict_int_def plist_dict_uint_def plist_dict_bool_def plist_dict_array_begin_def plist_array_int_def)

fun xml_run :: "xml_call list \<Rightarrow> plist \<Rightarrow> plist cres" where
  "xml_run [] p = Done p"
| "xml_run (c # cs) p = cbind (xml_exec c p) (xml_run cs)"

lemma xml_run_writes:
  assumes "plist_ok p" "\<forall>c \<in> set cs. call_fits c"
  shows "\<exists>p' cs'. xml_run cs p = Done p' \<and> plist_ok p' \<and> pl_capacity p' = pl_capacity p
    \<and> doc p' = doc p @ concat (map rendering cs') \<and> pl_size p' = pl_size p + length (concat (map rendering cs'))
    \<and> subseq cs' cs
    \<and> (pl_size p + length (concat (map rendering cs)) + 24 < pl_capacity p \<longrightarrow> cs' = cs)"
  using assms
proof (induction cs arbitrary: p)
  case Nil
  then show ?case by (intro exI [of _ p] exI [of _ "[]"]) simp
next
  case (Cons c cs)
  then obtain p1 where p1: "xml_exec c p = Done p1" "plist_ok p1" "pl_capacity p1 = pl_capacity p"
    and cases: "doc p1 = doc p @ rendering c \<and> pl_size p1 = pl_size p + length (rendering c)
       \<or> doc p1 = doc p \<and> pl_size p1 = pl_size p"
    and full: "pl_size p + length (rendering c) + 24 < pl_capacity p \<longrightarrow>
       doc p1 = doc p @ rendering c \<and> pl_size p1 = pl_size p + length (rendering c)"
    using exec_writes [of p c] by (auto simp: writes_def)
  from Cons.IH [OF p1(2)] Cons.prems(2) obtain p' cs' where p': "xml_run cs p1 = Done p'" "plist_ok p'"
      "pl_capacity p' = pl_capacity p1" "doc p' = doc p1 @ concat (map rendering cs')"
      "pl_size p' = pl_size p1 + length (concat (map rendering cs'))" "subseq cs' cs"
    and all: "pl_size p1 + length (concat (map rendering cs)) + 24 < pl_capacity p1 \<longrightarrow> cs' = cs" by auto
  have run: "xml_run (c # cs) p = Done p'" using p1(1) p'(1) by simp
  show ?case
  proof (cases "doc p1 = doc p @ rendering c \<and> pl_size p1 = pl_size p + length (rendering c)")
    case True
    then show ?thesis using run p' p1(3) all by (intro exI [of _ p'] exI [of _ "c # cs'"]) auto
  next
    case False
    with cases have "doc p1 = doc p" "pl_size p1 = pl_size p" by auto
    then show ?thesis using run p' p1(3) full False by (intro exI [of _ p'] exI [of _ cs']) auto
  qed
qed

text \<open>
  The XML writer never writes outside of the caller's buffer and never cuts an element: for every sequence of calls
  the text is the concatenation of whole elements, in order, those that did not fit being left out, and nothing is left out
  when the elements and 25 spare bytes fit into the capacity.
\<close>

theorem xml_elements_atomic:
  assumes "0 < capacity" "capacity \<le> length buffer" "capacity < 2 ^ 31" "\<forall>c \<in> set cs. call_fits c"
  shows "\<exists>p p' cs'. plist_init buffer capacity = Done p \<and> xml_run cs p = Done p'
    \<and> doc p' = concat (map rendering cs') \<and> subseq cs' cs \<and> pl_size p' = length (doc p') \<and> length (doc p') < capacity
    \<and> (length (concat (map rendering cs)) + 24 < capacity \<longrightarrow> cs' = cs)"
proof -
  obtain p where p: "plist_init buffer capacity = Done p" "plist_ok p" "doc p = []" "pl_size p = 0" "pl_capacity p = capacity"
    using assms by (simp add: plist_init_def put_bytes_def plist_ok_def doc_def)
  from xml_run_writes [OF p(2) assms(4)] p(3-5) obtain p' cs' where
    "xml_run cs p = Done p'" "plist_ok p'" "pl_capacity p' = capacity" "doc p' = concat (map rendering cs')"
    "pl_size p' = length (concat (map rendering cs'))" "subseq cs' cs"
    "length (concat (map rendering cs)) + 24 < capacity \<longrightarrow> cs' = cs" by auto
  with p(1) show ?thesis by (intro exI [of _ p] exI [of _ p'] exI [of _ cs']) (auto simp: plist_ok_def)
qed

theorem xml_elements_atomic_witness:
  "\<exists>p p'. plist_init (replicate 64 0) 64 = Done p \<and> xml_run [Dict_begin, Dict_end] p = Done p'
     \<and> doc p' = asc ''<dict>'' @ [10] @ asc ''</dict>'' @ [10]"
  using xml_elements_atomic [of 64 "replicate 64 0" "[Dict_begin, Dict_end]"] by force

text \<open>
  The texts are not escaped: a value that carries markup is indistinguishable from two elements.
\<close>

theorem xml_injection:
  "rendering (Dict_string k (v @ asc ''</string>'' @ [10] @ key_text k2 @ asc ''<string>'' @ v2))
   = rendering (Dict_string k v) @ rendering (Dict_string k2 v2)"
  by (simp add: string_text_def)

end
