(* ===== verification/Bplist_Parser.thy ===== *)
theory Bplist_Parser
  imports Prelude
begin

text \<open>
  The binary property list parser of the AirPlay SETUP requests, first part
  (\<open>main/plist/bplist_parser.c\<close>): the trailer, the offset table, the readers of scalar
  objects and the finders that look a key up in the top-level dictionary or, recursively,
  anywhere. The input is an attacker-controlled byte string; \<open>Fault\<close> marks a read outside
  of it. The source repeats the same code inline in several functions (the length header
  of a scalar, the dictionary header, the key scan); the model defines each once.
\<close>

section \<open>The model\<close>

definition BPLIST_INT :: u8 where "BPLIST_INT = 0x10"
definition BPLIST_REAL :: u8 where "BPLIST_REAL = 0x20"
definition BPLIST_DATA :: u8 where "BPLIST_DATA = 0x40"
definition BPLIST_STRING :: u8 where "BPLIST_STRING = 0x50"
definition BPLIST_UNICODE :: u8 where "BPLIST_UNICODE = 0x60"
definition BPLIST_UID :: u8 where "BPLIST_UID = 0x80"
definition BPLIST_ARRAY :: u8 where "BPLIST_ARRAY = 0xA0"
definition BPLIST_SET :: u8 where "BPLIST_SET = 0xC0"
definition BPLIST_DICT :: u8 where "BPLIST_DICT = 0xD0"

lemmas bplist_tags = BPLIST_INT_def BPLIST_REAL_def BPLIST_DATA_def BPLIST_STRING_def
  BPLIST_UNICODE_def BPLIST_UID_def BPLIST_ARRAY_def BPLIST_SET_def BPLIST_DICT_def

subsection \<open>Big-endian integers\<close>

definition shift_in :: "u64 \<Rightarrow> u8 \<Rightarrow> u64" where
  "shift_in val b = push_bit 8 val OR ucast b"

fun read_be_loop :: "bytes \<Rightarrow> nat \<Rightarrow> nat \<Rightarrow> u64 \<Rightarrow> u64 cres" where
  "read_be_loop data i 0 val = Done val"
| "read_be_loop data i (Suc n) val =
     cbind (rd data i) (\<lambda>b. read_be_loop data (Suc i) n (shift_in val b))"

definition read_be_int :: "bytes \<Rightarrow> nat \<Rightarrow> nat \<Rightarrow> u64 cres" where
  "read_be_int data pos nbytes = read_be_loop data pos nbytes 0"

subsection \<open>Trailer and offset table\<close>

record bplist_trailer =
  offset_size :: nat
  ref_size :: nat
  num_objects :: nat
  top_object :: nat
  offset_table_offset :: nat

definition bplist_parse_trailer :: "bytes \<Rightarrow> bplist_trailer cres" where
  "bplist_parse_trailer plist =
     (if length plist < 32 then Fail
      else let trailer = length plist - 32 in
        cbind (rd plist (trailer + 6)) (\<lambda>osz.
        cbind (rd plist (trailer + 7)) (\<lambda>rsz.
        cbind (read_be_int plist (trailer + 8) 8) (\<lambda>num.
        cbind (read_be_int plist (trailer + 16) 8) (\<lambda>top.
        cbind (read_be_int plist (trailer + 24) 8) (\<lambda>oto.
          if \<not> (0 < unat osz \<and> unat osz \<le> 8 \<and> 0 < unat rsz \<and> unat rsz \<le> 8
                \<and> unat oto < length plist) then Fail
          else if unat top \<ge> unat num then Fail
          else let avail = length plist - unat oto in
            if unat num > avail div unat osz then Fail
            else Done \<lparr>offset_size = unat osz, ref_size = unat rsz, num_objects = unat num,
                       top_object = unat top, offset_table_offset = unat oto\<rparr>))))))"

text \<open>The \<open>uint64_t\<close> result, with \<open>UINT64_MAX\<close> as the sentinel for an invalid reference.\<close>

definition bplist_get_offset :: "bytes \<Rightarrow> bplist_trailer \<Rightarrow> nat \<Rightarrow> nat cres" where
  "bplist_get_offset plist tr obj_idx =
     (if offset_size tr = 0 \<or> obj_idx \<ge> num_objects tr then Done UINT64_MAX
      else if obj_idx > (UINT64_MAX - offset_size tr) div offset_size tr then Done UINT64_MAX
      else let scaled = uint64 (obj_idx * offset_size tr) in
        if scaled > UINT64_MAX - offset_table_offset tr then Done UINT64_MAX
        else let entry_pos = uint64 (offset_table_offset tr + scaled) in
          if entry_pos > length plist \<or> length plist - entry_pos < offset_size tr
          then Done UINT64_MAX
          else cbind (read_be_int plist entry_pos (offset_size tr)) (\<lambda>v. Done (unat v)))"

subsection \<open>Scalar objects\<close>

text \<open>
  The header of a string or data object: its type nibble, its length and the position
  of its first byte. The same code opens \<open>bplist_read_string\<close>, \<open>bplist_read_data\<close>,
  \<open>bplist_read_data_len\<close> and \<open>bplist_read_string_len\<close>.
\<close>

definition bplist_len_header :: "bytes \<Rightarrow> nat \<Rightarrow> (u8 \<times> nat \<times> nat) cres" where
  "bplist_len_header plist offset =
     (if offset \<ge> length plist then Fail
      else cbind (rd plist offset) (\<lambda>marker.
        let type = marker AND 0xF0; len = unat (marker AND 0x0F); pos = size_t (offset + 1) in
        if len = 0x0F then
          if pos \<ge> length plist then Fail
          else cbind (rd plist pos) (\<lambda>len_marker.
            let pos = size_t (pos + 1) in
            if len_marker AND 0xF0 \<noteq> BPLIST_INT then Fail
            else let len_bytes = 2 ^ unat (len_marker AND 0x0F) in
              if size_t (pos + len_bytes) > length plist then Fail
              else cbind (read_be_int plist pos len_bytes) (\<lambda>v.
                let len = size_t (unat v); pos = size_t (pos + len_bytes) in
                if len > length plist then Fail else Done (type, len, pos)))
        else Done (type, len, pos)))"

text \<open>The UTF-16 loop accepts ASCII code points only.\<close>

fun read_unicode_loop :: "bytes \<Rightarrow> nat \<Rightarrow> nat \<Rightarrow> nat \<Rightarrow> bytes cres" where
  "read_unicode_loop plist pos i 0 = Done []"
| "read_unicode_loop plist pos i (Suc n) =
     cbind (rd plist (pos + i * 2)) (\<lambda>hi.
     cbind (rd plist (pos + i * 2 + 1)) (\<lambda>lo.
       let code = (push_bit 8 (ucast hi) OR ucast lo :: u16) in
       if code > 0x7F then Fail
       else cbind (read_unicode_loop plist pos (Suc i) n) (\<lambda>s. Done (ucast code # s))))"

text \<open>The result is the bytes written to \<open>out\<close> before the terminating NUL.\<close>

definition bplist_read_string :: "bytes \<Rightarrow> nat \<Rightarrow> nat \<Rightarrow> bytes cres" where
  "bplist_read_string plist offset out_capacity =
     cbind (bplist_len_header plist offset) (\<lambda>(type, len, pos).
       if type = BPLIST_STRING then
         if size_t (pos + len) > length plist \<or> len \<ge> out_capacity then Fail
         else slice plist pos len
       else if type = BPLIST_UNICODE then
         let nbytes = size_t (len * 2) in
         if nbytes < len \<or> size_t (pos + nbytes) > length plist \<or> len \<ge> out_capacity then Fail
         else read_unicode_loop plist pos 0 len
       else Fail)"

definition bplist_read_data :: "bytes \<Rightarrow> nat \<Rightarrow> nat \<Rightarrow> bytes cres" where
  "bplist_read_data plist offset out_capacity =
     cbind (bplist_len_header plist offset) (\<lambda>(type, len, pos).
       if type = BPLIST_DATA then
         if size_t (pos + len) > length plist \<or> len > out_capacity then Fail
         else slice plist pos len
       else Fail)"

definition bplist_read_data_len :: "bytes \<Rightarrow> nat \<Rightarrow> nat cres" where
  "bplist_read_data_len plist offset =
     cbind (bplist_len_header plist offset) (\<lambda>(type, len, pos).
       if type = BPLIST_DATA then
         if size_t (pos + len) > length plist then Fail else Done len
       else Fail)"

definition bplist_read_string_len :: "bytes \<Rightarrow> nat \<Rightarrow> nat cres" where
  "bplist_read_string_len plist offset =
     cbind (bplist_len_header plist offset) (\<lambda>(type, len, pos).
       if type = BPLIST_STRING then
         if size_t (pos + len) > length plist then Fail else Done len
       else if type = BPLIST_UNICODE then
         let nbytes = size_t (len * 2) in
         if nbytes < len \<or> size_t (pos + nbytes) > length plist then Fail else Done len
       else Fail)"

text \<open>The cast to \<open>int64_t\<close> reads the 64-bit value as two's complement.\<close>

definition bplist_read_int :: "bytes \<Rightarrow> nat \<Rightarrow> int cres" where
  "bplist_read_int plist offset =
     (if offset \<ge> length plist then Fail
      else cbind (rd plist offset) (\<lambda>marker.
        if marker AND 0xF0 = BPLIST_INT then
          let len = 2 ^ unat (marker AND 0x0F) in
          if uint64 (offset + 1 + len) > length plist then Fail
          else cbind (read_be_int plist (offset + 1) len) (\<lambda>v. Done (sint v))
        else Fail))"

text \<open>
  The double returned by \<open>bplist_find_real\<close>, before any rounding: the bits of a
  \<open>float\<close> that is widened, the bits of a \<open>double\<close>, or an integer that is converted.
\<close>

datatype real_value = Float_bits u32 | Double_bits u64 | Of_int int

definition bplist_read_real :: "bytes \<Rightarrow> nat \<Rightarrow> real_value cres" where
  "bplist_read_real plist offset =
     (if offset \<ge> length plist then Fail
      else cbind (rd plist offset) (\<lambda>marker.
        if marker AND 0xF0 = BPLIST_REAL then
          let len = 2 ^ unat (marker AND 0x0F) in
          if uint64 (offset + 1 + len) > length plist then Fail
          else if len = 4 then
            cbind (read_be_int plist (offset + 1) 4) (\<lambda>v. Done (Float_bits (ucast v)))
          else if len = 8 then
            cbind (read_be_int plist (offset + 1) 8) (\<lambda>v. Done (Double_bits v))
          else Fail
        else Fail))"

subsection \<open>Containers\<close>

text \<open>Element count of a container and the length of its header.\<close>

definition bplist_parse_count :: "bytes \<Rightarrow> nat \<Rightarrow> (nat \<times> nat) cres" where
  "bplist_parse_count plist offset =
     (if offset \<ge> length plist then Fail
      else cbind (rd plist offset) (\<lambda>marker.
        let info = unat (marker AND 0x0F); pos = size_t (offset + 1) in
        if info = 0x0F then
          if pos \<ge> length plist then Fail
          else cbind (rd plist pos) (\<lambda>len_marker.
            let pos = size_t (pos + 1); len_bytes = 2 ^ unat (len_marker AND 0x0F) in
            if size_t (pos + len_bytes) > length plist then Fail
            else cbind (read_be_int plist pos len_bytes) (\<lambda>parsed.
              if unat parsed > length plist then Fail
              else Done (size_t (unat parsed), size_t (size_t (pos + len_bytes) - offset))))
        else Done (info, size_t (pos - offset))))"

text \<open>
  Scan of the key references of a dictionary: \<open>Done (Some off)\<close> is the offset of the value
  of the first entry whose key equals \<open>key\<close> (not yet checked against the buffer),
  \<open>Done None\<close> means no entry matched. Keys that cannot be read as strings of at most 63
  bytes are passed over.
\<close>

fun dict_scan ::
    "bytes \<Rightarrow> bplist_trailer \<Rightarrow> nat \<Rightarrow> nat \<Rightarrow> bytes \<Rightarrow> nat list \<Rightarrow> nat option cres" where
  "dict_scan plist tr key_refs val_refs key [] = Done None"
| "dict_scan plist tr key_refs val_refs key (i # is) =
     cbind (read_be_int plist (key_refs + i * ref_size tr) (ref_size tr)) (\<lambda>key_idx.
     cbind (bplist_get_offset plist tr (unat key_idx)) (\<lambda>key_offset.
       if key_offset \<ge> length plist then dict_scan plist tr key_refs val_refs key is
       else case bplist_read_string plist key_offset 64 of
           Fault \<Rightarrow> Fault
         | Fail \<Rightarrow> dict_scan plist tr key_refs val_refs key is
         | Done found_key \<Rightarrow>
             if c_str found_key = key then
               cbind (read_be_int plist (val_refs + i * ref_size tr) (ref_size tr)) (\<lambda>val_idx.
               cbind (bplist_get_offset plist tr (unat val_idx)) (\<lambda>off. Done (Some off)))
             else dict_scan plist tr key_refs val_refs key is))"

text \<open>
  The header of a dictionary at an offset: its size and the positions of the key and
  the value references, after the overflow-safe check that both arrays fit.
\<close>

definition dict_refs :: "bytes \<Rightarrow> bplist_trailer \<Rightarrow> nat \<Rightarrow> nat \<Rightarrow> (nat \<times> nat \<times> nat) cres" where
  "dict_refs plist tr pos dict_size =
     (if pos > length plist \<or> dict_size > (length plist - pos) div size_t (ref_size tr * 2)
      then Fail
      else Done (dict_size, pos, pos + dict_size * ref_size tr))"

definition dict_header :: "bytes \<Rightarrow> bplist_trailer \<Rightarrow> nat \<Rightarrow> (nat \<times> nat \<times> nat) cres" where
  "dict_header plist tr offset =
     cbind (bplist_parse_count plist offset) (\<lambda>(dict_size, header_len).
       dict_refs plist tr (size_t (offset + header_len)) dict_size)"

definition bplist_find_data_in_dict ::
    "bytes \<Rightarrow> bplist_trailer \<Rightarrow> nat \<Rightarrow> bytes \<Rightarrow> nat \<Rightarrow> bytes cres" where
  "bplist_find_data_in_dict plist tr dict_offset key out_capacity =
     (if dict_offset \<ge> length plist then Fail
      else cbind (rd plist dict_offset) (\<lambda>marker.
        if marker AND 0xF0 \<noteq> BPLIST_DICT then Fail
        else cbind (dict_header plist tr dict_offset) (\<lambda>(dict_size, key_refs, val_refs).
             cbind (dict_scan plist tr key_refs val_refs key [0..<dict_size]) (\<lambda>r. case r of
                 None \<Rightarrow> Fail
               | Some val_offset \<Rightarrow>
                   if val_offset \<ge> length plist then Fail
                   else bplist_read_data plist val_offset out_capacity))))"

text \<open>
  The loops of the recursive search: the first child whose search returns true ends it.
\<close>

fun first_done :: "(nat \<Rightarrow> 'a cres) \<Rightarrow> (nat \<Rightarrow> u64 cres) \<Rightarrow> nat list \<Rightarrow> 'a cres" where
  "first_done search child [] = Fail"
| "first_done search child (i # is) =
     cbind (child i) (\<lambda>idx.
       case search (unat idx) of
         Fault \<Rightarrow> Fault
       | Done a \<Rightarrow> Done a
       | Fail \<Rightarrow> first_done search child is)"

function bplist_find_data_recursive ::
    "bytes \<Rightarrow> bplist_trailer \<Rightarrow> bytes \<Rightarrow> nat \<Rightarrow> nat \<Rightarrow> nat \<Rightarrow> bytes cres" where
  "bplist_find_data_recursive plist tr key out_capacity depth obj_idx =
     (if depth > 10 then Fail
      else cbind (bplist_get_offset plist tr obj_idx) (\<lambda>offset.
        if offset \<ge> length plist then Fail
        else cbind (rd plist offset) (\<lambda>marker.
          let type = marker AND 0xF0 in
          if type = BPLIST_DICT then
            cbind (dict_header plist tr offset) (\<lambda>(dict_size, key_refs, val_refs).
            cbind (dict_scan plist tr key_refs val_refs key [0..<dict_size]) (\<lambda>r. case r of
                Some val_offset \<Rightarrow>
                  if val_offset \<ge> length plist then Fail
                  else bplist_read_data plist val_offset out_capacity
              | None \<Rightarrow>
                  first_done (\<lambda>idx. bplist_find_data_recursive plist tr key out_capacity (depth + 1) idx)
                    (\<lambda>i. read_be_int plist (val_refs + i * ref_size tr) (ref_size tr)) [0..<dict_size]))
          else if type = BPLIST_ARRAY \<or> type = BPLIST_SET then
            cbind (bplist_parse_count plist offset) (\<lambda>(count, header_len).
              let pos = size_t (offset + header_len) in
              if pos > length plist \<or> count > (length plist - pos) div ref_size tr then Fail
              else first_done (\<lambda>idx. bplist_find_data_recursive plist tr key out_capacity (depth + 1) idx)
                     (\<lambda>i. read_be_int plist (pos + i * ref_size tr) (ref_size tr)) [0..<count])
          else Fail)))"
  by pat_completeness auto
termination
  by (relation "measure (\<lambda>(plist, tr, key, cap, depth, idx). 11 - depth)") auto

declare bplist_find_data_recursive.simps [simp del]

subsection \<open>Entry points\<close>

definition bplist_magic :: "bytes \<Rightarrow> bool" where
  "bplist_magic plist \<longleftrightarrow> length plist \<ge> 40 \<and> take 8 plist = asc ''bplist00''"

text \<open>The common prologue: magic, trailer, offset of the top object.\<close>

definition bplist_open :: "bytes \<Rightarrow> (bplist_trailer \<times> nat) cres" where
  "bplist_open plist =
     (if \<not> bplist_magic plist then Fail
      else cbind (bplist_parse_trailer plist) (\<lambda>tr.
           cbind (bplist_get_offset plist tr (top_object tr)) (\<lambda>top_offset.
             if top_offset \<ge> length plist then Fail else Done (tr, top_offset))))"

definition bplist_find_data :: "bytes \<Rightarrow> bytes \<Rightarrow> nat \<Rightarrow> bytes cres" where
  "bplist_find_data plist key out_capacity =
     cbind (bplist_open plist) (\<lambda>(tr, top_offset).
       bplist_find_data_in_dict plist tr top_offset key out_capacity)"

definition bplist_find_data_deep :: "bytes \<Rightarrow> bytes \<Rightarrow> nat \<Rightarrow> bytes cres" where
  "bplist_find_data_deep plist key out_capacity =
     (if \<not> bplist_magic plist then Fail
      else cbind (bplist_parse_trailer plist) (\<lambda>tr.
        bplist_find_data_recursive plist tr key out_capacity 0 (top_object tr)))"

text \<open>
  The dictionary header as \<open>bplist_find_int\<close>, \<open>bplist_find_real\<close>, \<open>bplist_find_string\<close>
  and the stream functions inline it. Unlike \<open>bplist_parse_count\<close> it truncates an extended
  count to \<open>size_t\<close> before comparing it with the buffer length.
\<close>

definition top_dict_header :: "bytes \<Rightarrow> bplist_trailer \<Rightarrow> nat \<Rightarrow> (nat \<times> nat \<times> nat) cres" where
  "top_dict_header plist tr top_offset =
     cbind (rd plist top_offset) (\<lambda>marker.
       if marker AND 0xF0 \<noteq> BPLIST_DICT then Fail
       else let dict_size = unat (marker AND 0x0F); pos = size_t (top_offset + 1) in
         if dict_size = 0x0F then
           if pos \<ge> length plist then Fail
           else cbind (rd plist pos) (\<lambda>len_marker.
             let pos = size_t (pos + 1); len_bytes = 2 ^ unat (len_marker AND 0x0F) in
             if size_t (pos + len_bytes) > length plist then Fail
             else cbind (read_be_int plist pos len_bytes) (\<lambda>v.
               let dict_size = size_t (unat v); pos = size_t (pos + len_bytes) in
               if dict_size > length plist then Fail else dict_refs plist tr pos dict_size))
         else dict_refs plist tr pos dict_size)"

definition top_dict_lookup :: "bytes \<Rightarrow> bytes \<Rightarrow> nat cres" where
  "top_dict_lookup plist key =
     cbind (bplist_open plist) (\<lambda>(tr, top_offset).
     cbind (top_dict_header plist tr top_offset) (\<lambda>(dict_size, key_refs, val_refs).
     cbind (dict_scan plist tr key_refs val_refs key [0..<dict_size]) (\<lambda>r. case r of
         None \<Rightarrow> Fail
       | Some val_offset \<Rightarrow> if val_offset \<ge> length plist then Fail else Done val_offset)))"

definition bplist_find_int :: "bytes \<Rightarrow> bytes \<Rightarrow> int cres" where
  "bplist_find_int plist key =
     cbind (top_dict_lookup plist key) (\<lambda>val_offset. bplist_read_int plist val_offset)"

definition bplist_find_real :: "bytes \<Rightarrow> bytes \<Rightarrow> real_value cres" where
  "bplist_find_real plist key =
     cbind (top_dict_lookup plist key) (\<lambda>val_offset.
       case bplist_read_real plist val_offset of
         Fault \<Rightarrow> Fault
       | Done r \<Rightarrow> Done r
       | Fail \<Rightarrow> cbind (bplist_read_int plist val_offset) (\<lambda>n. Done (Of_int n)))"

definition bplist_find_string :: "bytes \<Rightarrow> bytes \<Rightarrow> nat \<Rightarrow> bytes cres" where
  "bplist_find_string plist key out_capacity =
     cbind (top_dict_lookup plist key) (\<lambda>val_offset.
       bplist_read_string plist val_offset out_capacity)"

section \<open>Evaluation on concrete documents\<close>

named_theorems bplist_eval "equations that evaluate the parser on a given byte list"

lemma read_be_loop_numeral:
  "read_be_loop data i (numeral n) val =
     cbind (rd data i) (\<lambda>b. read_be_loop data (Suc i) (pred_numeral n) (shift_in val b))"
  by (simp add: numeral_eq_Suc)

lemma upt_upto_numeral:
  "[i..<numeral n] = (if i < numeral n then i # [Suc i..<numeral n] else [])"
  by (simp add: upt_rec)

lemmas [bplist_eval] = read_be_loop_numeral upt_upto_numeral read_be_int_def rd_def slice_def Let_def
  shift_in_def bplist_parse_trailer_def bplist_get_offset_def bplist_len_header_def
  bplist_read_string_def bplist_read_data_def bplist_read_data_len_def bplist_read_string_len_def
  bplist_read_int_def bplist_read_real_def bplist_parse_count_def dict_refs_def dict_header_def
  bplist_find_data_in_dict_def bplist_magic_def bplist_open_def bplist_find_data_def
  top_dict_header_def top_dict_lookup_def bplist_find_int_def bplist_find_real_def
  bplist_find_string_def bplist_tags UINT64_MAX_def c_str_def

section \<open>Memory safety of the readers\<close>

text \<open>
  Buffers are shorter than 2 to the power 30 bytes: the RTSP server limits a message to
  256 KiB, and the ESP32 has at most 32 MiB of RAM. Under that bound none of the 32-bit
  additions on accepted lengths wraps around.
\<close>

definition small_buf :: "bytes \<Rightarrow> bool" where
  "small_buf p \<longleftrightarrow> length p < 2 ^ 30"

definition trailer_ok :: "bplist_trailer \<Rightarrow> bool" where
  "trailer_ok tr \<longleftrightarrow> 0 < offset_size tr \<and> offset_size tr \<le> 8 \<and> 0 < ref_size tr \<and> ref_size tr \<le> 8"

lemma read_be_loop_safe: "pos + n \<le> length p \<Longrightarrow> outcome (\<lambda>_. True) (read_be_loop p pos n v)"
  by (induction p pos n v rule: read_be_loop.induct) (auto simp: rd_def)

lemma read_be_int_safe: "pos + n \<le> length p \<Longrightarrow> outcome (\<lambda>_. True) (read_be_int p pos n)"
  by (simp add: read_be_int_def read_be_loop_safe)

lemma get_offset_safe: "outcome (\<lambda>_. True) (bplist_get_offset p tr idx)"
  unfolding bplist_get_offset_def Let_def
  by (intro outcome_rules outcome_cbind [OF read_be_int_safe]) (auto simp: not_le not_less)

lemma parse_trailer_safe:
  "outcome (\<lambda>tr. trailer_ok tr \<and> offset_table_offset tr + num_objects tr * offset_size tr \<le> length p
              \<and> top_object tr < num_objects tr) (bplist_parse_trailer p)"
proof -
  have fits: "oto + num * osz \<le> len"
    if "\<not> (len - oto) div osz < num" "oto < len" for oto num osz len :: nat
  proof -
    have "num * osz \<le> (len - oto) div osz * osz" using that by (intro mult_le_mono1) simp
    also have "\<dots> \<le> len - oto" by (rule div_times_less_eq_dividend)
    finally show ?thesis using that by simp
  qed
  show ?thesis
    unfolding bplist_parse_trailer_def Let_def
    by (intro outcome_rules outcome_cbind [OF read_be_int_safe] outcome_cbind [OF rd_outcome [OF _ TrueI]])
      (auto simp: trailer_ok_def fits)
qed

text \<open>Every extended length field has at most 32768 bytes, so its end cannot wrap.\<close>

lemma len_field_small [simp]:
  fixes b :: u8
  shows "n < 2 ^ 31 \<Longrightarrow> size_t (n + 2 ^ unat (b AND 0x0F)) = n + 2 ^ unat (b AND 0x0F)"
    and "n < 2 ^ 31 \<Longrightarrow>
           size_t (Suc (Suc (n + 2 ^ unat (b AND 0x0F)))) = Suc (Suc (n + 2 ^ unat (b AND 0x0F)))"
  using nibble_shift_le [of b] by simp_all

lemma low_nibble_le_add [simp]: "unat (b AND 0x0F :: u8) \<le> n + 15"
  using low_nibble_le [of b] by simp

lemma len_header_safe:
  assumes "small_buf p"
  shows "outcome (\<lambda>(ty, len, pos). len \<le> length p + 15 \<and> pos \<le> length p) (bplist_len_header p offset)"
  unfolding bplist_len_header_def Let_def
  using assms
  by (intro outcome_rules outcome_cbind [OF rd_outcome [OF _ TrueI]] outcome_cbind [OF read_be_int_safe])
    (auto simp: small_buf_def)

lemma read_unicode_safe:
  "pos + (i + n) * 2 \<le> length p \<Longrightarrow>
     outcome (\<lambda>s. length s = n) (read_unicode_loop p pos i n)"
proof (induction p pos i n rule: read_unicode_loop.induct)
  case (2 p pos i n)
  then show ?case
    unfolding read_unicode_loop.simps Let_def
    by (intro outcome_rules outcome_cbind [OF rd_outcome [OF _ TrueI]] outcome_cbind [OF 2(1)])
      (auto simp: rd_def)
qed simp

lemmas cbind_rules = outcome_cbind [OF rd_outcome [OF _ TrueI]] outcome_cbind [OF read_be_int_safe]

lemma slice_checked:
  "small_buf p \<Longrightarrow> len \<le> length p + 15 \<Longrightarrow> pos \<le> length p \<Longrightarrow> \<not> length p < size_t (pos + len) \<Longrightarrow>
     outcome (\<lambda>s. length s = len) (slice p pos len)"
  by (rule outcome_mono [OF slice_outcome]) (auto simp: small_buf_def)

lemma unicode_checked:
  "small_buf p \<Longrightarrow> len \<le> length p + 15 \<Longrightarrow> pos \<le> length p \<Longrightarrow>
     \<not> length p < size_t (pos + size_t (len * 2)) \<Longrightarrow>
     outcome (\<lambda>s. length s = len) (read_unicode_loop p pos 0 len)"
  by (rule outcome_mono [OF read_unicode_safe]) (auto simp: small_buf_def)

lemma read_string_safe:
  assumes "small_buf p"
  shows "outcome (\<lambda>s. length s < cap) (bplist_read_string p offset cap)"
  unfolding bplist_read_string_def Let_def
  by (rule outcome_cbind [OF len_header_safe [OF assms]])
    (auto intro!: outcome_mono [OF slice_checked [OF assms]] outcome_mono [OF unicode_checked [OF assms]])

lemma read_data_safe:
  assumes "small_buf p"
  shows "outcome (\<lambda>s. length s \<le> cap) (bplist_read_data p offset cap)"
  unfolding bplist_read_data_def
  by (rule outcome_cbind [OF len_header_safe [OF assms]])
    (auto intro!: outcome_mono [OF slice_checked [OF assms]])

lemma read_lens_safe:
  assumes "small_buf p"
  shows "outcome (\<lambda>_. True) (bplist_read_data_len p offset)"
    and "outcome (\<lambda>_. True) (bplist_read_string_len p offset)"
  unfolding bplist_read_data_len_def bplist_read_string_len_def Let_def
  by (rule outcome_cbind [OF len_header_safe [OF assms]]; clarsimp)+

lemma read_numbers_safe:
  assumes "small_buf p"
  shows "outcome (\<lambda>_. True) (bplist_read_int p offset)"
    and "outcome (\<lambda>_. True) (bplist_read_real p offset)"
proof -
  have wide: "uint64 (Suc (offset + 2 ^ unat (b AND 0x0F))) = Suc (offset + 2 ^ unat (b AND 0x0F))"
    if "\<not> length p \<le> offset" for b :: u8
    using that assms nibble_shift_le [of b] by (simp add: small_buf_def)
  show "outcome (\<lambda>_. True) (bplist_read_int p offset)"
    unfolding bplist_read_int_def Let_def
    by (intro outcome_rules cbind_rules) (auto simp: wide)
  show "outcome (\<lambda>_. True) (bplist_read_real p offset)"
    unfolding bplist_read_real_def Let_def
    using assms by (intro outcome_rules cbind_rules) (auto simp: wide small_buf_def)
qed

section \<open>Memory safety of the containers\<close>

lemma parse_count_safe:
  assumes "small_buf p"
  shows "outcome (\<lambda>(n, hdr). offset + hdr \<le> length p) (bplist_parse_count p offset)"
  unfolding bplist_parse_count_def Let_def
  using assms by (intro outcome_rules cbind_rules) (auto simp: small_buf_def)

definition dict_fits :: "bytes \<Rightarrow> bplist_trailer \<Rightarrow> nat \<times> nat \<times> nat \<Rightarrow> bool" where
  "dict_fits p tr = (\<lambda>(n, kr, vr). kr + n * ref_size tr \<le> length p \<and> vr + n * ref_size tr \<le> length p)"

lemma refs_fit:
  "count \<le> (len - pos) div r \<Longrightarrow> pos \<le> len \<Longrightarrow> pos + count * r \<le> (len :: nat)"
  by (metis Nat.le_diff_conv2 add.commute div_times_less_eq_dividend mult_le_mono1 order.trans)

lemma dict_refs_safe:
  assumes "trailer_ok tr"
  shows "outcome (dict_fits p tr) (dict_refs p tr pos n)"
proof (cases "length p < pos \<or> (length p - pos) div size_t (ref_size tr * 2) < n")
  case True
  then show ?thesis by (simp add: dict_refs_def)
next
  case False
  with assms have "pos + n * (ref_size tr * 2) \<le> length p"
    by (intro refs_fit) (auto simp: trailer_ok_def)
  with False show ?thesis by (simp add: dict_refs_def dict_fits_def algebra_simps)
qed

lemma dict_header_safe:
  assumes "small_buf p" "trailer_ok tr"
  shows "outcome (dict_fits p tr) (dict_header p tr offset)"
  unfolding dict_header_def
  by (rule outcome_cbind [OF parse_count_safe [OF assms(1)]])
    (auto intro: dict_refs_safe [OF assms(2)])

lemma ref_in_array:
  "i < n \<Longrightarrow> base + n * r \<le> len \<Longrightarrow> base + i * r + r \<le> (len :: nat)"
proof -
  assume "i < n" "base + n * r \<le> len"
  moreover from \<open>i < n\<close> have "Suc i * r \<le> n * r" by (intro mult_le_mono1) simp
  ultimately show ?thesis by simp
qed

lemma read_ref_safe:
  "i < n \<Longrightarrow> base + n * ref_size tr \<le> length p \<Longrightarrow>
     outcome (\<lambda>_. True) (read_be_int p (base + i * ref_size tr) (ref_size tr))"
  by (intro read_be_int_safe ref_in_array)

lemma dict_scan_safe:
  assumes "small_buf p" "dict_fits p tr (n, kr, vr)" "\<forall>i \<in> set is. i < n"
  shows "outcome (\<lambda>_. True) (dict_scan p tr kr vr key is)"
  using assms(3)
proof (induction "is")
  case (Cons i "is")
  from assms(2) Cons.prems have fit: "i < n" "kr + n * ref_size tr \<le> length p" "vr + n * ref_size tr \<le> length p"
    by (auto simp: dict_fits_def)
  show ?case
    unfolding dict_scan.simps
    by (intro outcome_rules outcome_cbind [OF read_ref_safe [OF fit(1,2)]]
        outcome_cbind [OF read_ref_safe [OF fit(1,3)]] outcome_cbind [OF get_offset_safe]
        outcome_case [OF read_string_safe [OF assms(1)]])
      (use Cons in auto)
qed simp

lemma first_done_safe:
  assumes "\<And>idx. outcome P (search idx)" "\<And>i. i \<in> set is \<Longrightarrow> outcome (\<lambda>_. True) (child i)"
  shows "outcome P (first_done search child is)"
  using assms(2)
proof (induction "is")
  case (Cons i "is")
  have "outcome P (case search idx of Fault \<Rightarrow> Fault | Fail \<Rightarrow> first_done search child is | Done a \<Rightarrow> Done a)" for idx
    by (rule outcome_case [OF assms(1)]) (use Cons in auto)
  then show ?case
    unfolding first_done.simps by (intro outcome_cbind [OF Cons.prems]) auto
qed simp

lemma find_data_in_dict_safe:
  assumes "small_buf p" "trailer_ok tr"
  shows "outcome (\<lambda>s. length s \<le> cap) (bplist_find_data_in_dict p tr offset key cap)"
  unfolding bplist_find_data_in_dict_def
  by (intro outcome_rules cbind_rules)
    (auto intro!: outcome_cbind [OF dict_header_safe [OF assms]] outcome_cbind [OF dict_scan_safe [OF assms(1)]]
      read_data_safe [OF assms(1)] split: option.split)

lemma find_data_recursive_safe:
  assumes "small_buf p" "trailer_ok tr"
  shows "outcome (\<lambda>s. length s \<le> cap) (bplist_find_data_recursive p tr key cap depth idx)"
proof (induction "11 - depth" arbitrary: depth idx rule: less_induct)
  case less
  show ?case
  proof (cases "depth > 10")
    case True
    then show ?thesis by (subst bplist_find_data_recursive.simps) simp
  next
    case False
    then have IH: "outcome (\<lambda>s. length s \<le> cap) (bplist_find_data_recursive p tr key cap (Suc depth) i)" for i
      by (intro less) simp
    have kids: "outcome (\<lambda>s. length s \<le> cap)
        (first_done (bplist_find_data_recursive p tr key cap (Suc depth))
          (\<lambda>i. read_be_int p (base + i * ref_size tr) (ref_size tr)) [0..<n])"
      if "base + n * ref_size tr \<le> length p" for base n
      by (intro first_done_safe IH read_ref_safe [OF _ that]) auto
    show ?thesis
      by (subst bplist_find_data_recursive.simps, unfold Let_def)
        (intro outcome_rules outcome_cbind [OF get_offset_safe] cbind_rules
          outcome_cbind [OF parse_count_safe [OF assms(1)]];
         auto intro!: outcome_cbind [OF dict_header_safe [OF assms]] outcome_cbind [OF dict_scan_safe [OF assms(1)]]
          outcome_cbind [OF parse_count_safe [OF assms(1)]] read_data_safe [OF assms(1)] kids refs_fit
          split: option.split simp: dict_fits_def)
  qed
qed

lemma open_safe:
  "outcome (\<lambda>(tr, off). trailer_ok tr \<and> off < length p) (bplist_open p)"
  unfolding bplist_open_def
  by (intro outcome_rules outcome_cbind [OF parse_trailer_safe] outcome_cbind [OF get_offset_safe]) auto

lemma top_dict_header_safe:
  assumes "small_buf p" "trailer_ok tr" "off < length p"
  shows "outcome (dict_fits p tr) (top_dict_header p tr off)"
  unfolding top_dict_header_def Let_def
  using assms by (intro outcome_rules cbind_rules dict_refs_safe) (auto simp: small_buf_def)

lemma top_dict_lookup_safe:
  assumes "small_buf p"
  shows "outcome (\<lambda>_. True) (top_dict_lookup p key)"
  unfolding top_dict_lookup_def
  by (rule outcome_cbind [OF open_safe])
    (auto intro!: outcome_cbind [OF top_dict_header_safe [OF assms]]
      outcome_cbind [OF dict_scan_safe [OF assms]] split: option.split)

section \<open>Lookup as an association list\<close>

text \<open>
  What a dictionary means: the list of its entries, each with the key string the
  parser can read (\<open>None\<close> for a key that is no readable string) and the offset of the value.
  The C loop must find the first entry with the key, which is what \<open>map_of\<close> does.
\<close>

definition entry_key :: "bytes \<Rightarrow> bplist_trailer \<Rightarrow> nat \<Rightarrow> nat \<Rightarrow> bytes option" where
  "entry_key p tr kr i =
     (case cbind (read_be_int p (kr + i * ref_size tr) (ref_size tr))
             (\<lambda>idx. bplist_get_offset p tr (unat idx)) of
        Done off \<Rightarrow> if off \<ge> length p then None
                   else (case bplist_read_string p off 64 of Done s \<Rightarrow> Some (c_str s) | _ \<Rightarrow> None)
      | _ \<Rightarrow> None)"

definition entry_value :: "bytes \<Rightarrow> bplist_trailer \<Rightarrow> nat \<Rightarrow> nat \<Rightarrow> nat" where
  "entry_value p tr vr i =
     (case cbind (read_be_int p (vr + i * ref_size tr) (ref_size tr))
             (\<lambda>idx. bplist_get_offset p tr (unat idx)) of
        Done off \<Rightarrow> off | _ \<Rightarrow> UINT64_MAX)"

definition dict_entries :: "bytes \<Rightarrow> bplist_trailer \<Rightarrow> nat \<times> nat \<times> nat \<Rightarrow> (bytes option \<times> nat) list" where
  "dict_entries p tr = (\<lambda>(n, kr, vr). map (\<lambda>i. (entry_key p tr kr i, entry_value p tr vr i)) [0..<n])"

lemma read_be_loop_no_Fail: "read_be_loop p i n v \<noteq> Fail"
  by (induction p i n v rule: read_be_loop.induct) (auto simp: rd_def)

lemma get_offset_no_Fail: "bplist_get_offset p tr idx \<noteq> Fail"
proof -
  have "cbind (read_be_int p i n) (\<lambda>v. Done (unat v)) \<noteq> Fail" for i n
    using read_be_loop_no_Fail [of p i n 0] by (cases "read_be_loop p i n 0") (simp_all add: read_be_int_def)
  then show ?thesis by (simp add: bplist_get_offset_def Let_def)
qed

lemma read_ref_Done:
  assumes "i < n" "base + n * ref_size tr \<le> length p"
  obtains idx off where "read_be_int p (base + i * ref_size tr) (ref_size tr) = Done idx"
    and "bplist_get_offset p tr (unat idx) = Done off"
proof -
  obtain idx where idx: "read_be_int p (base + i * ref_size tr) (ref_size tr) = Done idx"
    using read_ref_safe [OF assms] read_be_loop_no_Fail
    by (cases "read_be_int p (base + i * ref_size tr) (ref_size tr)") (auto simp: read_be_int_def)
  obtain off where "bplist_get_offset p tr (unat idx) = Done off"
    using get_offset_safe [of p tr "unat idx"] get_offset_no_Fail [of p tr "unat idx"]
    by (cases "bplist_get_offset p tr (unat idx)") auto
  with idx show thesis by (rule that)
qed

lemma dict_scan_map_of:
  assumes "small_buf p" "dict_fits p tr (n, kr, vr)" "\<forall>i \<in> set is. i < n"
  shows "dict_scan p tr kr vr key is =
           Done (map_of (map (\<lambda>i. (entry_key p tr kr i, entry_value p tr vr i)) is) (Some key))"
  using assms(3)
proof (induction "is")
  case (Cons i "is")
  from assms(2) Cons.prems have fit: "i < n" "kr + n * ref_size tr \<le> length p" "vr + n * ref_size tr \<le> length p"
    by (auto simp: dict_fits_def)
  obtain kidx koff where k: "read_be_int p (kr + i * ref_size tr) (ref_size tr) = Done kidx"
      "bplist_get_offset p tr (unat kidx) = Done koff"
    by (rule read_ref_Done [OF fit(1,2)])
  obtain vidx voff where v: "read_be_int p (vr + i * ref_size tr) (ref_size tr) = Done vidx"
      "bplist_get_offset p tr (unat vidx) = Done voff"
    by (rule read_ref_Done [OF fit(1,3)])
  have IH: "dict_scan p tr kr vr key is =
      Done (map_of (map (\<lambda>i. (entry_key p tr kr i, entry_value p tr vr i)) is) (Some key))"
    using Cons by simp
  have "bplist_read_string p koff 64 \<noteq> Fault"
    by (rule outcome_safe [OF read_string_safe [OF assms(1)]])
  then show ?case
    by (cases "bplist_read_string p koff 64") (auto simp: k v IH entry_key_def entry_value_def)
qed simp

text \<open>
  C3. Lookup in the top-level dictionary is lookup in an association list. For every document
  below 1 GiB whose prologue is accepted, \<open>bplist_find_int\<close>, \<open>bplist_find_string\<close>
  and \<open>bplist_find_real\<close> read the value offset that \<open>map_of\<close> finds for the key among the
  entries of the dictionary: the first entry with that key wins, a key that is missing or whose
  value offset lies outside of the document makes all three return false, and otherwise the
  result is that of the scalar reader at the offset.
\<close>

theorem bplist_find_map_of:
  assumes "small_buf p" and "bplist_open p = Done (tr, off)" and "top_dict_header p tr off = Done hdr"
  shows "(case map_of (dict_entries p tr hdr) (Some key) of
            None \<Rightarrow> bplist_find_int p key = Fail \<and> bplist_find_string p key cap = Fail
                    \<and> bplist_find_real p key = Fail
          | Some v \<Rightarrow>
              if v \<ge> length p then bplist_find_int p key = Fail \<and> bplist_find_string p key cap = Fail
                    \<and> bplist_find_real p key = Fail
              else bplist_find_int p key = bplist_read_int p v
                \<and> bplist_find_string p key cap = bplist_read_string p v cap
                \<and> bplist_find_real p key =
                     (case bplist_read_real p v of
                        Fail \<Rightarrow> cbind (bplist_read_int p v) (\<lambda>n. Done (Of_int n)) | r \<Rightarrow> r))"
proof -
  obtain n kr vr where hdr: "hdr = (n, kr, vr)" by (cases hdr) auto
  have "trailer_ok tr \<and> off < length p" using outcome_Done [OF open_safe assms(2)] by simp
  then have "dict_fits p tr (n, kr, vr)"
    using outcome_Done [OF top_dict_header_safe [OF assms(1)] assms(3)] by (simp add: hdr)
  then have "dict_scan p tr kr vr key [0..<n] = Done (map_of (dict_entries p tr hdr) (Some key))"
    by (simp add: dict_scan_map_of [OF assms(1)] dict_entries_def hdr)
  then have "top_dict_lookup p key = (case map_of (dict_entries p tr hdr) (Some key) of
      None \<Rightarrow> Fail | Some v \<Rightarrow> if v \<ge> length p then Fail else Done v)"
    using assms(2,3) by (simp add: top_dict_lookup_def hdr)
  then show ?thesis
    by (cases "map_of (dict_entries p tr hdr) (Some key)")
      (simp_all add: bplist_find_int_def bplist_find_string_def bplist_find_real_def split: cres.split)
qed

text \<open>A document with one entry, \<open>et\<close> mapped to the byte 42.\<close>

definition demo_plist :: bytes where
  "demo_plist = asc ''bplist00'' @ [0x52] @ asc ''et'' @ [0x10, 42, 0xD1, 0, 1] @ [8, 11, 13]
     @ [0, 0, 0, 0, 0, 0, 1, 1] @ [0, 0, 0, 0, 0, 0, 0, 3] @ [0, 0, 0, 0, 0, 0, 0, 2]
     @ [0, 0, 0, 0, 0, 0, 0, 16]"

theorem bplist_find_map_of_witness:
  "bplist_find_int demo_plist (asc ''et'') = Done 42 \<and> bplist_find_int demo_plist (asc ''xx'') = Fail"
proof -
  let ?tr = "\<lparr>offset_size = 1, ref_size = 1, num_objects = 3, top_object = 2, offset_table_offset = 16\<rparr>"
  have open_ok: "bplist_open demo_plist = Done (?tr, 13)" "top_dict_header demo_plist ?tr 13 = Done (1, 14, 15)"
    by (simp_all add: demo_plist_def bplist_eval)
  have "small_buf demo_plist" by (simp add: small_buf_def demo_plist_def)
  note at = bplist_find_map_of [OF this open_ok]
  have ent: "dict_entries demo_plist ?tr (1, 14, 15) = [(Some (asc ''et''), 11)]"
    by (simp add: dict_entries_def entry_key_def entry_value_def demo_plist_def bplist_eval)
  have "bplist_read_int demo_plist 11 = Done 42" "length demo_plist = 51"
    by (simp_all add: demo_plist_def bplist_eval)
  then show ?thesis
    using at [of "asc ''et''"] at [of "asc ''xx''"] unfolding ent by simp
qed

end
