(* ===== verification/Bplist_Streams.thy ===== *)
theory Bplist_Streams
  imports Bplist_Parser
begin

text \<open>
  The binary property list parser, second part (\<open>main/plist/bplist_parser.c\<close>): the functions
  that walk the \<open>streams\<close> array of a SETUP request. They share the search for the object
  holding the key string, the dictionary scan by key offset and the descent into one
  stream dictionary, which the source repeats inline and the model defines once.
\<close>

section \<open>The model\<close>

text \<open>
  The first object, in object order, that reads as the string \<open>streams\<close> (15 bytes at most):
  its offset and the length of the string.
\<close>

fun streams_key_scan :: "bytes \<Rightarrow> bplist_trailer \<Rightarrow> nat list \<Rightarrow> (nat \<times> nat) cres" where
  "streams_key_scan plist tr [] = Fail"
| "streams_key_scan plist tr (i # is) =
     cbind (bplist_get_offset plist tr i) (\<lambda>offset.
       if offset \<ge> length plist then streams_key_scan plist tr is
       else case bplist_read_string plist offset 16 of
           Fault \<Rightarrow> Fault
         | Fail \<Rightarrow> streams_key_scan plist tr is
         | Done key \<Rightarrow>
             if c_str key = asc ''streams'' then
               cbind (bplist_read_string_len plist offset) (\<lambda>key_len. Done (offset, key_len))
             else streams_key_scan plist tr is)"

text \<open>The entry of the top dictionary whose key is that very object: the offset of its value.\<close>

fun streams_entry_scan ::
    "bytes \<Rightarrow> bplist_trailer \<Rightarrow> nat \<Rightarrow> nat \<Rightarrow> nat \<Rightarrow> nat list \<Rightarrow> nat cres" where
  "streams_entry_scan plist tr key_refs val_refs streams_key_offset [] = Fail"
| "streams_entry_scan plist tr key_refs val_refs streams_key_offset (i # is) =
     cbind (read_be_int plist (key_refs + i * ref_size tr) (ref_size tr)) (\<lambda>key_idx.
     cbind (bplist_get_offset plist tr (unat key_idx)) (\<lambda>key_offset.
       if key_offset \<ge> length plist then
         streams_entry_scan plist tr key_refs val_refs streams_key_offset is
       else if key_offset = streams_key_offset then
         cbind (read_be_int plist (val_refs + i * ref_size tr) (ref_size tr)) (\<lambda>val_idx.
         cbind (bplist_get_offset plist tr (unat val_idx)) (\<lambda>val_offset.
           if val_offset \<ge> length plist then Fail else Done val_offset))
       else streams_entry_scan plist tr key_refs val_refs streams_key_offset is))"

text \<open>The \<open>streams\<close> array: the trailer, the offset of the array, its count and header length.\<close>

definition streams_array :: "bytes \<Rightarrow> (bplist_trailer \<times> nat \<times> nat \<times> nat) cres" where
  "streams_array plist =
     cbind (bplist_open plist) (\<lambda>(tr, top_offset).
     cbind (streams_key_scan plist tr [0..<num_objects tr]) (\<lambda>(streams_key_offset, streams_key_len).
       if streams_key_len = 0 then Fail
       else cbind (top_dict_header plist tr top_offset) (\<lambda>(dict_size, key_refs, val_refs).
         cbind (streams_entry_scan plist tr key_refs val_refs streams_key_offset [0..<dict_size])
           (\<lambda>val_offset.
           cbind (rd plist val_offset) (\<lambda>val_marker.
             if val_marker AND 0xF0 \<noteq> BPLIST_ARRAY then Fail
             else cbind (bplist_parse_count plist val_offset) (\<lambda>(array_count, header_len).
               Done (tr, val_offset, array_count, header_len)))))))"

definition bplist_get_streams_count :: "bytes \<Rightarrow> nat cres" where
  "bplist_get_streams_count plist =
     cbind (streams_array plist) (\<lambda>(tr, val_offset, array_count, header_len). Done array_count)"

text \<open>The dictionary of stream number \<open>index\<close>: trailer, size, key and value references.\<close>

definition stream_dict_at ::
    "bytes \<Rightarrow> bplist_trailer \<Rightarrow> nat \<Rightarrow> nat \<Rightarrow> (bplist_trailer \<times> nat \<times> nat \<times> nat) cres" where
  "stream_dict_at plist tr array_pos index =
     cbind (read_be_int plist (array_pos + index * ref_size tr) (ref_size tr)) (\<lambda>stream_idx.
     cbind (bplist_get_offset plist tr (unat stream_idx)) (\<lambda>stream_offset.
       if stream_offset \<ge> length plist then Fail
       else cbind (rd plist stream_offset) (\<lambda>stream_marker.
         if stream_marker AND 0xF0 \<noteq> BPLIST_DICT then Fail
         else cbind (dict_header plist tr stream_offset) (\<lambda>(n, key_refs, val_refs).
           Done (tr, n, key_refs, val_refs)))))"

definition stream_dict :: "bytes \<Rightarrow> nat \<Rightarrow> (bplist_trailer \<times> nat \<times> nat \<times> nat) cres" where
  "stream_dict plist index =
     cbind (streams_array plist) (\<lambda>(tr, val_offset, array_count, header_len).
       if index \<ge> array_count then Fail
       else let array_pos = size_t (val_offset + header_len) in
         if array_pos > length plist \<or> array_count > (length plist - array_pos) div ref_size tr
         then Fail
         else stream_dict_at plist tr array_pos index)"

text \<open>
  Key and value offset of entry \<open>j\<close> of a stream dictionary; \<open>None\<close> when the key is not a
  string shorter than \<open>cap\<close> and the loop goes on to the next entry.
\<close>

definition stream_entry ::
    "bytes \<Rightarrow> bplist_trailer \<Rightarrow> nat \<Rightarrow> nat \<Rightarrow> nat \<Rightarrow> nat \<Rightarrow> (bytes \<times> nat) option cres" where
  "stream_entry plist tr key_refs val_refs cap j =
     cbind (read_be_int plist (key_refs + j * ref_size tr) (ref_size tr)) (\<lambda>key_idx.
     cbind (bplist_get_offset plist tr (unat key_idx)) (\<lambda>key_offset.
       case bplist_read_string plist key_offset cap of
         Fault \<Rightarrow> Fault
       | Fail \<Rightarrow> Done None
       | Done stream_key \<Rightarrow>
           cbind (read_be_int plist (val_refs + j * ref_size tr) (ref_size tr)) (\<lambda>val_idx.
           cbind (bplist_get_offset plist tr (unat val_idx)) (\<lambda>val_offset.
             Done (Some (stream_key, val_offset))))))"

record stream_info =
  si_type :: int
  si_ekey_len :: nat
  si_eiv_len :: nat
  si_shk_len :: nat

definition stream_info_init :: stream_info where
  "stream_info_init = \<lparr>si_type = -1, si_ekey_len = 0, si_eiv_len = 0, si_shk_len = 0\<rparr>"

text \<open>The length a \<open>bplist_read_data_len\<close> call leaves in its output: unchanged on failure.\<close>

definition or_keep :: "'a cres \<Rightarrow> 'b \<Rightarrow> ('a \<Rightarrow> 'b) \<Rightarrow> 'b cres" where
  "or_keep r old upd = (case r of Fault \<Rightarrow> Fault | Fail \<Rightarrow> Done old | Done a \<Rightarrow> Done (upd a))"

definition stream_info_entry :: "bytes \<Rightarrow> stream_info \<Rightarrow> bytes \<times> nat \<Rightarrow> stream_info cres" where
  "stream_info_entry plist info = (\<lambda>(stream_key, val_offset).
     if c_str stream_key = asc ''type'' then
       or_keep (bplist_read_int plist val_offset) info (\<lambda>v. info\<lparr>si_type := v\<rparr>)
     else if c_str stream_key = asc ''ekey'' then
       or_keep (bplist_read_data_len plist val_offset) info (\<lambda>n. info\<lparr>si_ekey_len := n\<rparr>)
     else if c_str stream_key = asc ''eiv'' then
       or_keep (bplist_read_data_len plist val_offset) info (\<lambda>n. info\<lparr>si_eiv_len := n\<rparr>)
     else if c_str stream_key = asc ''shk'' then
       or_keep (bplist_read_data_len plist val_offset) info (\<lambda>n. info\<lparr>si_shk_len := n\<rparr>)
     else Done info)"

fun stream_info_loop ::
    "bytes \<Rightarrow> bplist_trailer \<Rightarrow> nat \<Rightarrow> nat \<Rightarrow> nat list \<Rightarrow> stream_info \<Rightarrow> stream_info cres" where
  "stream_info_loop plist tr key_refs val_refs [] info = Done info"
| "stream_info_loop plist tr key_refs val_refs (j # js) info =
     cbind (stream_entry plist tr key_refs val_refs 32 j) (\<lambda>e. case e of
         None \<Rightarrow> stream_info_loop plist tr key_refs val_refs js info
       | Some kv \<Rightarrow>
           cbind (stream_info_entry plist info kv) (\<lambda>info'.
             stream_info_loop plist tr key_refs val_refs js info'))"

text \<open>
  The caller passes all output pointers. A stream dictionary without a \<open>type\<close> makes the
  function return false.
\<close>

definition bplist_get_stream_info :: "bytes \<Rightarrow> nat \<Rightarrow> stream_info cres" where
  "bplist_get_stream_info plist index =
     cbind (stream_dict plist index) (\<lambda>(tr, n, key_refs, val_refs).
     cbind (stream_info_loop plist tr key_refs val_refs [0..<n] stream_info_init) (\<lambda>info.
       if si_type info \<noteq> -1 then Done info else Fail))"

datatype bplist_value_type =
  BPLIST_VALUE_UNKNOWN | BPLIST_VALUE_INT | BPLIST_VALUE_DATA | BPLIST_VALUE_STRING
  | BPLIST_VALUE_UID | BPLIST_VALUE_ARRAY | BPLIST_VALUE_DICT

record bplist_kv_info =
  kv_key :: bytes
  kv_value_type :: bplist_value_type
  kv_value_len :: nat
  kv_int_value :: int

text \<open>One record of the debug listing; \<open>strlcpy\<close> stops at the first NUL of the key.\<close>

definition kv_info_of :: "bytes \<Rightarrow> bytes \<Rightarrow> nat \<Rightarrow> bplist_kv_info cres" where
  "kv_info_of plist stream_key val_offset =
     cbind (rd plist val_offset) (\<lambda>marker.
       let type = marker AND 0xF0;
           info = \<lparr>kv_key = take 63 (c_str stream_key), kv_value_type = BPLIST_VALUE_UNKNOWN,
                   kv_value_len = 0, kv_int_value = 0\<rparr> in
       if type = BPLIST_INT then
         let info = info\<lparr>kv_value_type := BPLIST_VALUE_INT\<rparr> in
         or_keep (bplist_read_int plist val_offset) info (\<lambda>v. info\<lparr>kv_int_value := v\<rparr>)
       else if type = BPLIST_DATA then
         let info = info\<lparr>kv_value_type := BPLIST_VALUE_DATA\<rparr> in
         or_keep (bplist_read_data_len plist val_offset) info (\<lambda>n. info\<lparr>kv_value_len := n\<rparr>)
       else if type = BPLIST_STRING \<or> type = BPLIST_UNICODE then
         let info = info\<lparr>kv_value_type := BPLIST_VALUE_STRING\<rparr> in
         or_keep (bplist_read_string_len plist val_offset) info (\<lambda>n. info\<lparr>kv_value_len := n\<rparr>)
       else if type = BPLIST_UID then Done (info\<lparr>kv_value_type := BPLIST_VALUE_UID\<rparr>)
       else if type = BPLIST_ARRAY then Done (info\<lparr>kv_value_type := BPLIST_VALUE_ARRAY\<rparr>)
       else if type = BPLIST_DICT then Done (info\<lparr>kv_value_type := BPLIST_VALUE_DICT\<rparr>)
       else Done info)"

fun stream_kv_loop ::
    "bytes \<Rightarrow> bplist_trailer \<Rightarrow> nat \<Rightarrow> nat \<Rightarrow> nat \<Rightarrow> nat list \<Rightarrow> bplist_kv_info list \<Rightarrow>
     bplist_kv_info list cres" where
  "stream_kv_loop plist tr key_refs val_refs out_capacity [] out = Done out"
| "stream_kv_loop plist tr key_refs val_refs out_capacity (j # js) out =
     (if length out < out_capacity then
        cbind (stream_entry plist tr key_refs val_refs 64 j) (\<lambda>e. case e of
            None \<Rightarrow> stream_kv_loop plist tr key_refs val_refs out_capacity js out
          | Some (stream_key, val_offset) \<Rightarrow>
              if val_offset \<ge> length plist then
                stream_kv_loop plist tr key_refs val_refs out_capacity js out
              else cbind (kv_info_of plist stream_key val_offset) (\<lambda>info.
                stream_kv_loop plist tr key_refs val_refs out_capacity js (out @ [info])))
      else Done out)"

definition bplist_get_stream_kv_info :: "bytes \<Rightarrow> nat \<Rightarrow> nat \<Rightarrow> bplist_kv_info list cres" where
  "bplist_get_stream_kv_info plist index out_capacity =
     (if out_capacity = 0 then Fail
      else cbind (stream_dict plist index) (\<lambda>(tr, n, key_refs, val_refs).
        cbind (stream_kv_loop plist tr key_refs val_refs out_capacity [0..<n] []) (\<lambda>out.
          if length out > 0 then Done out else Fail)))"

text \<open>
  \<open>bplist_find_stream_crypto\<close>: for each of the three outputs, \<open>None\<close> when the caller passes
  no buffer, otherwise its capacity; the result has the bytes copied to each buffer
  (\<open>None\<close> when nothing was copied).
\<close>

record stream_crypto =
  sc_ekey :: "bytes option"
  sc_eiv :: "bytes option"
  sc_shk :: "bytes option"

definition crypto_field :: "bytes \<Rightarrow> bytes \<Rightarrow> nat option \<Rightarrow> nat \<Rightarrow> bytes option cres" where
  "crypto_field plist key capacity local_len =
     (case capacity of
        None \<Rightarrow> Done None
      | Some cap \<Rightarrow>
          if local_len > 0 then
            or_keep (bplist_find_data plist key 512) None (\<lambda>temp. Some (take (min (length temp) cap) temp))
          else Done None)"

fun stream_crypto_loop ::
    "bytes \<Rightarrow> int \<Rightarrow> nat option \<Rightarrow> nat option \<Rightarrow> nat option \<Rightarrow> nat list \<Rightarrow> stream_crypto cres" where
  "stream_crypto_loop plist stream_type ekey eiv shk [] = Fail"
| "stream_crypto_loop plist stream_type ekey eiv shk (i # is) =
     (case bplist_get_stream_info plist i of
        Fault \<Rightarrow> Fault
      | Fail \<Rightarrow> stream_crypto_loop plist stream_type ekey eiv shk is
      | Done info \<Rightarrow>
          if si_type info \<noteq> stream_type then stream_crypto_loop plist stream_type ekey eiv shk is
          else
            cbind (crypto_field plist (asc ''ekey'') ekey (si_ekey_len info)) (\<lambda>a.
            cbind (crypto_field plist (asc ''eiv'') eiv (si_eiv_len info)) (\<lambda>b.
            cbind (crypto_field plist (asc ''shk'') shk (si_shk_len info)) (\<lambda>c.
              if a = None \<and> b = None \<and> c = None then Fail
              else Done \<lparr>sc_ekey = a, sc_eiv = b, sc_shk = c\<rparr>))))"

definition bplist_find_stream_crypto ::
    "bytes \<Rightarrow> int \<Rightarrow> nat option \<Rightarrow> nat option \<Rightarrow> nat option \<Rightarrow> stream_crypto cres" where
  "bplist_find_stream_crypto plist stream_type ekey eiv shk =
     cbind (bplist_get_streams_count plist) (\<lambda>stream_count.
       stream_crypto_loop plist stream_type ekey eiv shk [0..<stream_count])"

lemmas [bplist_eval] = streams_array_def bplist_get_streams_count_def stream_dict_at_def stream_dict_def
  stream_entry_def stream_info_init_def or_keep_def stream_info_entry_def bplist_get_stream_info_def
  kv_info_of_def bplist_get_stream_kv_info_def crypto_field_def bplist_find_stream_crypto_def

section \<open>Memory safety\<close>

lemma streams_key_scan_safe:
  assumes "small_buf p"
  shows "outcome (\<lambda>_. True) (streams_key_scan p tr is)"
proof (induction "is")
  case (Cons i "is")
  show ?case
    unfolding streams_key_scan.simps
    by (intro outcome_rules outcome_cbind [OF get_offset_safe] outcome_case [OF read_string_safe [OF assms]]
        outcome_cbind [OF read_lens_safe(2) [OF assms]]) (use Cons in auto)
qed simp

lemma streams_entry_scan_safe:
  assumes "small_buf p" "dict_fits p tr (n, kr, vr)" "\<forall>i \<in> set is. i < n"
  shows "outcome (\<lambda>off. off < length p) (streams_entry_scan p tr kr vr key_off is)"
  using assms(3)
proof (induction "is")
  case (Cons i "is")
  from assms(2) Cons.prems have fit: "i < n" "kr + n * ref_size tr \<le> length p" "vr + n * ref_size tr \<le> length p"
    by (auto simp: dict_fits_def)
  show ?case
    unfolding streams_entry_scan.simps
    by (intro outcome_rules outcome_cbind [OF read_ref_safe [OF fit(1,2)]]
        outcome_cbind [OF read_ref_safe [OF fit(1,3)]] outcome_cbind [OF get_offset_safe])
      (use Cons in auto)
qed simp

lemma streams_array_safe:
  assumes "small_buf p"
  shows "outcome (\<lambda>(tr, off, n, hdr). trailer_ok tr \<and> off + hdr \<le> length p) (streams_array p)"
  unfolding streams_array_def
  by (rule outcome_cbind [OF open_safe])
    (auto intro!: outcome_cbind [OF streams_key_scan_safe [OF assms]]
      outcome_cbind [OF top_dict_header_safe [OF assms]] outcome_cbind [OF streams_entry_scan_safe [OF assms]]
      outcome_cbind [OF rd_outcome [OF _ TrueI]] outcome_cbind [OF parse_count_safe [OF assms]])

lemma stream_dict_at_safe:
  assumes "small_buf p" "trailer_ok tr" "index < count" "pos + count * ref_size tr \<le> length p"
  shows "outcome (\<lambda>(tr, hdr). trailer_ok tr \<and> dict_fits p tr hdr) (stream_dict_at p tr pos index)"
  unfolding stream_dict_at_def
  by (intro outcome_rules outcome_cbind [OF read_ref_safe [OF assms(3,4)]] outcome_cbind [OF get_offset_safe]
      cbind_rules outcome_cbind [OF dict_header_safe [OF assms(1,2)]]) (use assms in auto)

lemma stream_dict_safe:
  assumes "small_buf p"
  shows "outcome (\<lambda>(tr, hdr). trailer_ok tr \<and> dict_fits p tr hdr) (stream_dict p index)"
  unfolding stream_dict_def Let_def
  by (intro outcome_cbind [OF streams_array_safe [OF assms]])
    (auto intro!: stream_dict_at_safe [OF assms] refs_fit simp: not_less not_le)

lemma or_keep_safe: "outcome (\<lambda>_. True) r \<Longrightarrow> P old \<Longrightarrow> (\<And>a. P (upd a)) \<Longrightarrow> outcome P (or_keep r old upd)"
  by (cases r) (auto simp: or_keep_def)

lemma stream_entry_safe:
  assumes "small_buf p" "dict_fits p tr (n, kr, vr)" "j < n"
  shows "outcome (\<lambda>_. True) (stream_entry p tr kr vr cap j)"
proof -
  from assms(2) have fit: "kr + n * ref_size tr \<le> length p" "vr + n * ref_size tr \<le> length p"
    by (auto simp: dict_fits_def)
  show ?thesis
    unfolding stream_entry_def
    by (intro outcome_cbind [OF read_ref_safe [OF assms(3) fit(1)]] outcome_cbind [OF get_offset_safe]
        outcome_case [OF read_string_safe [OF assms(1)]] outcome_cbind [OF read_ref_safe [OF assms(3) fit(2)]]) auto
qed

lemma stream_info_entry_safe:
  "small_buf p \<Longrightarrow> outcome (\<lambda>_. True) (stream_info_entry p info kv)"
  by (cases kv) (auto simp: stream_info_entry_def intro!: or_keep_safe read_lens_safe read_numbers_safe)

lemma stream_info_loop_safe:
  assumes "small_buf p" "dict_fits p tr (n, kr, vr)" "\<forall>j \<in> set js. j < n"
  shows "outcome (\<lambda>_. True) (stream_info_loop p tr kr vr js info)"
  using assms(3)
  by (induction js arbitrary: info)
    (auto intro!: outcome_cbind [OF stream_entry_safe [OF assms(1,2)]]
      outcome_cbind [OF stream_info_entry_safe [OF assms(1)]] split: option.split)

lemma get_stream_info_safe:
  assumes "small_buf p"
  shows "outcome (\<lambda>_. True) (bplist_get_stream_info p index)"
  unfolding bplist_get_stream_info_def
  by (rule outcome_cbind [OF stream_dict_safe [OF assms]])
    (auto intro!: outcome_cbind [OF stream_info_loop_safe [OF assms]])

lemma kv_info_safe:
  "small_buf p \<Longrightarrow> off < length p \<Longrightarrow> outcome (\<lambda>_. True) (kv_info_of p key off)"
  unfolding kv_info_of_def Let_def
  by (intro outcome_rules outcome_cbind [OF rd_outcome [OF _ TrueI]] or_keep_safe read_lens_safe read_numbers_safe) auto

lemma stream_kv_loop_safe:
  assumes "small_buf p" "dict_fits p tr (n, kr, vr)" "\<forall>j \<in> set js. j < n" "length out \<le> cap"
  shows "outcome (\<lambda>out. length out \<le> cap) (stream_kv_loop p tr kr vr cap js out)"
  using assms(3,4)
  by (induction js arbitrary: out)
    (auto intro!: outcome_cbind [OF stream_entry_safe [OF assms(1,2)]]
      outcome_cbind [OF kv_info_safe [OF assms(1)]] split: option.split)

lemma get_stream_kv_info_safe:
  assumes "small_buf p"
  shows "outcome (\<lambda>out. length out \<le> cap) (bplist_get_stream_kv_info p index cap)"
  unfolding bplist_get_stream_kv_info_def
  by (intro outcome_rules outcome_cbind [OF stream_dict_safe [OF assms]])
    (auto intro!: outcome_cbind [OF stream_kv_loop_safe [OF assms]])

lemma crypto_field_safe:
  assumes "small_buf p"
  shows "outcome (\<lambda>r. \<forall>s c. r = Some s \<longrightarrow> capacity = Some c \<longrightarrow> length s \<le> c)
           (crypto_field p key capacity n)"
proof -
  have "outcome (\<lambda>_. True) (bplist_find_data p key 512)"
    unfolding bplist_find_data_def
    by (rule outcome_cbind [OF open_safe]) (auto intro: outcome_mono [OF find_data_in_dict_safe [OF assms]])
  then show ?thesis
    by (auto simp: crypto_field_def intro!: or_keep_safe split: option.split)
qed

definition crypto_fits :: "nat option \<Rightarrow> bytes option \<Rightarrow> bool" where
  "crypto_fits capacity r \<longleftrightarrow> (\<forall>s c. r = Some s \<longrightarrow> capacity = Some c \<longrightarrow> length s \<le> c)"

lemma stream_crypto_loop_safe:
  assumes "small_buf p"
  shows "outcome (\<lambda>r. crypto_fits ekey (sc_ekey r) \<and> crypto_fits eiv (sc_eiv r) \<and> crypto_fits shk (sc_shk r))
           (stream_crypto_loop p ty ekey eiv shk is)"
proof (induction "is")
  case (Cons i "is")
  show ?case
    unfolding stream_crypto_loop.simps
    by (intro outcome_rules outcome_case [OF get_stream_info_safe [OF assms]]
        outcome_cbind [OF crypto_field_safe [OF assms]]) (use Cons in \<open>auto simp: crypto_fits_def\<close>)
qed simp

lemma get_streams_count_safe:
  "small_buf p \<Longrightarrow> outcome (\<lambda>_. True) (bplist_get_streams_count p)"
  unfolding bplist_get_streams_count_def by (rule outcome_cbind [OF streams_array_safe]) auto

lemma find_stream_crypto_safe:
  assumes "small_buf p"
  shows "outcome (\<lambda>r. crypto_fits ekey (sc_ekey r) \<and> crypto_fits eiv (sc_eiv r) \<and> crypto_fits shk (sc_shk r))
           (bplist_find_stream_crypto p ty ekey eiv shk)"
  unfolding bplist_find_stream_crypto_def
  by (rule outcome_cbind [OF get_streams_count_safe [OF assms]]) (rule stream_crypto_loop_safe [OF assms])

text \<open>Every entry point of the parser, with the bound it guarantees on what it writes.\<close>

lemma find_data_safe:
  "small_buf p \<Longrightarrow> outcome (\<lambda>s. length s \<le> cap) (bplist_find_data p key cap)"
  unfolding bplist_find_data_def
  by (rule outcome_cbind [OF open_safe]) (auto intro: find_data_in_dict_safe)

lemma find_data_deep_safe:
  "small_buf p \<Longrightarrow> outcome (\<lambda>s. length s \<le> cap) (bplist_find_data_deep p key cap)"
  unfolding bplist_find_data_deep_def
  by (intro outcome_rules outcome_cbind [OF parse_trailer_safe]) (auto intro: find_data_recursive_safe)

lemma find_string_safe:
  "small_buf p \<Longrightarrow> outcome (\<lambda>s. length s < cap) (bplist_find_string p key cap)"
  unfolding bplist_find_string_def
  by (rule outcome_cbind [OF top_dict_lookup_safe]) (auto intro: read_string_safe)

lemma find_numbers_safe:
  assumes "small_buf p"
  shows "bplist_find_int p key \<noteq> Fault" "bplist_find_real p key \<noteq> Fault"
  unfolding bplist_find_int_def bplist_find_real_def outcome_True_iff [symmetric]
  by (auto intro!: outcome_cbind [OF top_dict_lookup_safe [OF assms]] outcome_case [OF read_numbers_safe(2) [OF assms]]
      outcome_cbind [OF read_numbers_safe(1) [OF assms]] read_numbers_safe [OF assms] split: cres.split)

text \<open>
  C1. Memory safety of the property list parser on every input: for any byte string below
  1 GiB, whatever its content, none of the nine public functions reads outside of the
  document, and what they write fits the caller's buffer (a string together with its
  terminating NUL, the data bytes, the listing of a stream's entries, the three keys).
\<close>

theorem bplist_parser_safe:
  assumes "small_buf p"
  shows "outcome (\<lambda>s. length s \<le> cap) (bplist_find_data p key cap)
       \<and> outcome (\<lambda>s. length s \<le> cap) (bplist_find_data_deep p key cap)
       \<and> outcome (\<lambda>s. length s < cap) (bplist_find_string p key cap)
       \<and> bplist_find_int p key \<noteq> Fault \<and> bplist_find_real p key \<noteq> Fault
       \<and> bplist_get_streams_count p \<noteq> Fault \<and> bplist_get_stream_info p index \<noteq> Fault
       \<and> outcome (\<lambda>out. length out \<le> cap) (bplist_get_stream_kv_info p index cap)
       \<and> outcome (\<lambda>r. crypto_fits ekey (sc_ekey r) \<and> crypto_fits eiv (sc_eiv r) \<and> crypto_fits shk (sc_shk r))
           (bplist_find_stream_crypto p ty ekey eiv shk)"
  using assms
  by (intro conjI find_data_safe find_data_deep_safe find_string_safe find_numbers_safe
      outcome_safe [OF get_streams_count_safe] outcome_safe [OF get_stream_info_safe]
      get_stream_kv_info_safe find_stream_crypto_safe)

text \<open>A document whose trailer and markers are all \<open>0xDF\<close>: dictionaries with extended counts.\<close>

theorem bplist_parser_safe_witness:
  "bplist_find_int (asc ''bplist00'' @ replicate 64 0xDF) (asc ''et'') \<noteq> Fault
   \<and> bplist_find_data_deep demo_plist (asc ''et'') 16 \<noteq> Fault"
proof -
  have "small_buf (asc ''bplist00'' @ replicate 64 0xDF)" "small_buf demo_plist"
    by (simp_all add: small_buf_def demo_plist_def)
  from bplist_parser_safe [OF this(1)] bplist_parser_safe [OF this(2), of 16 "asc ''et''"]
  show ?thesis by (auto dest: outcome_safe)
qed

section \<open>What the searches return\<close>

text \<open>
  The deep search extends the shallow one: whenever \<open>bplist_find_data\<close> finds the key in
  the top-level dictionary, \<open>bplist_find_data_deep\<close> returns the same bytes. Callers that
  retry with the deep search on failure can therefore never get a different top-level value.
\<close>

theorem find_data_deep_extends:
  assumes "bplist_find_data p key cap = Done d"
  shows "bplist_find_data_deep p key cap = Done d"
proof -
  from assms obtain tr off marker n kr vr v where
      "bplist_magic p" "bplist_parse_trailer p = Done tr"
      "bplist_get_offset p tr (top_object tr) = Done off" "off < length p"
      "rd p off = Done marker" "marker AND 0xF0 = BPLIST_DICT"
      "dict_header p tr off = Done (n, kr, vr)" "dict_scan p tr kr vr key [0..<n] = Done (Some v)"
      "v < length p" "bplist_read_data p v cap = Done d"
    unfolding bplist_find_data_def bplist_open_def bplist_find_data_in_dict_def
    by (auto simp: cbind_eq_Done not_le split: if_splits option.splits)
  then show ?thesis
    unfolding bplist_find_data_deep_def
    by (subst bplist_find_data_recursive.simps) simp
qed

text \<open>A SETUP document with one stream of type 96: \<open>shk\<close> is \<open>AA BB\<close> at the top and \<open>11\<close> in the stream.\<close>

definition demo_setup :: bytes where
  "demo_setup = asc ''bplist00'' @ [0x57] @ asc ''streams'' @ [0x53] @ asc ''shk'' @ [0x54] @ asc ''type''
     @ [0x42, 0xAA, 0xBB] @ [0x41, 0x11] @ [0x10, 96]
     @ [0xD2, 2, 1, 5, 4] @ [0xA1, 6] @ [0xD2, 0, 1, 7, 3]
     @ [8, 16, 20, 25, 28, 30, 32, 37, 39]
     @ [0, 0, 0, 0, 0, 0, 1, 1] @ [0, 0, 0, 0, 0, 0, 0, 9] @ [0, 0, 0, 0, 0, 0, 0, 8]
     @ [0, 0, 0, 0, 0, 0, 0, 44]"

theorem find_data_deep_extends_witness:
  "bplist_find_data_deep demo_setup (asc ''shk'') 32 = Done [0xAA, 0xBB]"
  by (rule find_data_deep_extends) (simp add: demo_setup_def bplist_eval)

text \<open>
  Where the stream keys come from. When \<open>bplist_find_stream_crypto\<close> returns a shared key,
  some stream of the requested type does carry a non-empty \<open>shk\<close> of its own, but the bytes
  handed to the caller are those of the top-level \<open>shk\<close> entry, cut to the caller's
  capacity: the stream's own key is only measured, never read.
\<close>

theorem stream_crypto_source:
  assumes "bplist_find_stream_crypto p ty ekey eiv (Some cap) = Done r" and "sc_shk r = Some k"
  shows "(\<exists>i info. bplist_get_stream_info p i = Done info \<and> si_type info = ty \<and> si_shk_len info > 0)
       \<and> (\<exists>t. bplist_find_data p (asc ''shk'') 512 = Done t \<and> k = take cap t)"
proof -
  have "(\<exists>i info. bplist_get_stream_info p i = Done info \<and> si_type info = ty \<and> si_shk_len info > 0)
       \<and> (\<exists>t. bplist_find_data p (asc ''shk'') 512 = Done t \<and> k = take cap t)"
    if "stream_crypto_loop p ty ekey eiv (Some cap) is = Done r" for "is"
    using that
  proof (induction "is")
    case (Cons i "is")
    then show ?case
      using assms(2)
      by (auto simp: cbind_eq_Done crypto_field_def or_keep_def split: cres.splits if_splits)
  qed simp
  with assms(1) show ?thesis
    by (auto simp: bplist_find_stream_crypto_def cbind_eq_Done)
qed

theorem stream_crypto_source_witness:
  "\<exists>t. bplist_find_data demo_setup (asc ''shk'') 512 = Done t \<and> [0xAA, 0xBB] = take 32 t"
proof -
  have "bplist_find_stream_crypto demo_setup 96 None None (Some 32)
      = Done \<lparr>sc_ekey = None, sc_eiv = None, sc_shk = Some [0xAA, 0xBB]\<rparr>"
    by (simp add: demo_setup_def bplist_eval)
  from stream_crypto_source [OF this] show ?thesis by simp
qed

end
