(* ===== verification/Audio_Format.thy ===== *)
theory Audio_Format
  imports Prelude
begin

text \<open>
  The stream description shared by the RTSP handlers, the property list builder and the audio
  pipeline: the structures of \<open>main/audio/audio_receiver.h\<close> and the stream types.
\<close>

definition AUDIO_STREAM_REALTIME :: int where
  "AUDIO_STREAM_REALTIME = 96"

definition AUDIO_STREAM_BUFFERED :: int where
  "AUDIO_STREAM_BUFFERED = 103"

definition audio_stream_uses_buffer :: "int \<Rightarrow> bool" where
  "audio_stream_uses_buffer type \<longleftrightarrow> type = AUDIO_STREAM_BUFFERED"

record audio_format =
  af_codec :: bytes
  af_sample_rate :: int
  af_channels :: int
  af_bits_per_sample :: int
  af_frame_size :: int
  af_max_samples_per_frame :: u32
  af_sample_size :: u8
  af_rice_history_mult :: u8
  af_rice_initial_history :: u8
  af_rice_limit :: u8
  af_num_channels :: u8
  af_max_run :: u16
  af_max_coded_frame_size :: u32
  af_avg_bit_rate :: u32
  af_sample_rate_config :: u32

text \<open>The encryption settings of a stream.\<close>

datatype audio_encrypt_type = AUDIO_ENCRYPT_NONE | AUDIO_ENCRYPT_AES_CBC | AUDIO_ENCRYPT_CHACHA20_POLY1305

record audio_encrypt =
  ae_type :: audio_encrypt_type
  ae_key :: bytes
  ae_iv :: bytes
  ae_key_len :: nat

definition no_encrypt :: audio_encrypt where
  "no_encrypt = \<lparr>ae_type = AUDIO_ENCRYPT_NONE, ae_key = replicate 32 0, ae_iv = replicate 16 0, ae_key_len = 0\<rparr>"

end
