(* ===== verification/Bplist_Builder.thy ===== *)
theory Bplist_Builder
  imports Bplist_Streams Audio_Format
begin

text \<open>
  The builders of the binary property lists the receiver answers SETUP and feedback
  requests with (\<open>main/plist/bplist_builder.c\<close>). A builder appends the objects one after
  the other, remembering where each starts, then the offset table (one byte per
  object) and the 32-byte trailer. \<open>None\<close> stands for the return value 0.
\<close>

section \<open>The model\<close>

text \<open>Start of an object: its offset is recorded, then its bytes are written.\<close>

fun put_obj :: "bytes \<Rightarrow> bytes \<times> nat list \<Rightarrow> bytes \<times> nat list" where
  "put_obj obj (out, offsets) = (out @ obj, offsets @ [length out])"

definition finish_plist :: "u8 \<Rightarrow> bytes \<times> nat list \<Rightarrow> bytes option" where
  "finish_plist top_obj st = (case st of (out, offsets) \<Rightarrow>
     let offset_table_offset = length out in
     if list_ex (\<lambda>off. off > 0xFF) offsets then None
     else Some (out @ map of_nat offsets
                @ replicate 6 0 @ [1, 1]
                @ replicate 7 0 @ [of_nat (length offsets)]
                @ replicate 7 0 @ [top_obj]
                @ replicate 7 0 @ [of_nat offset_table_offset]))"

definition bplist_build_initial_setup :: "nat \<Rightarrow> u16 \<Rightarrow> bytes option" where
  "bplist_build_initial_setup capacity event_port =
     (if capacity < 100 then None
      else finish_plist 4 (fold put_obj
        [0x59 # asc ''eventPort'',
         0x5A # asc ''timingPort'',
         0x11 # be16 event_port,
         [0x10, 0],
         [0xD2, 0, 1, 2, 3]]
        (asc ''bplist00'', [])))"

definition bplist_build_stream_setup ::
    "nat \<Rightarrow> int \<Rightarrow> u16 \<Rightarrow> u16 \<Rightarrow> u32 \<Rightarrow> bytes option" where
  "bplist_build_stream_setup capacity stream_type data_port control_port audio_buffer_size =
     (if capacity < 200 then None
      else finish_plist 11 (fold put_obj
        [0x57 # asc ''streams'',
         0x54 # asc ''type'',
         0x58 # asc ''dataPort'',
         0x5B # asc ''controlPort'',
         [0x5F, 0x10, 15] @ asc ''audioBufferSize'',
         [0x10, of_int stream_type],
         0x11 # be16 data_port,
         0x11 # be16 control_port,
         0x12 # be32 audio_buffer_size,
         (if audio_stream_uses_buffer (sint (of_int stream_type :: 32 word))
          then [0xD4, 1, 2, 4, 3, 5, 6, 8, 7]
          else [0xD3, 1, 2, 3, 5, 6, 7]),
         [0xA1, 9],
         [0xD1, 0, 10]]
        (asc ''bplist00'', [])))"

text \<open>
  The sample rate is given by the 64 bits of the double; the little-endian bytes of the
  union are written from the last to the first.
\<close>

definition bplist_build_feedback_response :: "nat \<Rightarrow> int \<Rightarrow> u64 \<Rightarrow> bytes option" where
  "bplist_build_feedback_response capacity stream_type sample_rate_bits =
     (if capacity < 100 then None
      else finish_plist 7 (fold put_obj
        [0x57 # asc ''streams'',
         0x54 # asc ''type'',
         0x52 # asc ''sr'',
         [0x10, of_int stream_type],
         0x23 # map (\<lambda>i. ucast (drop_bit (8 * i) sample_rate_bits)) [7, 6, 5, 4, 3, 2, 1, 0],
         [0xD2, 1, 2, 3, 4],
         [0xA1, 5],
         [0xD1, 0, 6]]
        (asc ''bplist00'', [])))"

section \<open>The built documents parse back\<close>

text \<open>The big-endian bytes the builders write are read back by \<open>read_be_int\<close>.\<close>

lemma shift_in_step:
  "LENGTH('a) \<le> 64 \<Longrightarrow> shift_in (ucast (drop_bit 8 x)) (ucast (x :: 'a::len word)) = ucast x"
  by (rule bit_word_eqI) (auto simp: shift_in_def bit_simps dest: bit_imp_le_length)

lemma shift_in_base:
  "LENGTH('a) = n + 8 \<Longrightarrow> n \<le> 56 \<Longrightarrow>
     shift_in 0 (ucast (drop_bit n (x :: 'a::len word))) = ucast (drop_bit n x)"
  by (rule bit_word_eqI) (auto simp: shift_in_def bit_simps dest: bit_imp_le_length)

lemma be16_value: "shift_in (shift_in 0 (ucast (drop_bit 8 w :: u16))) (ucast w) = ucast w"
  by (simp add: shift_in_base shift_in_step)

lemma be32_value:
  "shift_in (shift_in (shift_in (shift_in 0 (ucast (drop_bit 24 w :: u32)))
     (ucast (drop_bit 16 w))) (ucast (drop_bit 8 w))) (ucast w) = ucast w"
  using shift_in_step [of "drop_bit 16 w"] shift_in_step [of "drop_bit 8 w"] shift_in_step [of w]
  by (simp add: shift_in_base)

lemmas sint_bytes [simp] = sint_ucast_wider [where 'a = 8 and 'b = 64, simplified]
  sint_ucast_wider [where 'a = 16 and 'b = 64, simplified]
  sint_ucast_wider [where 'a = 32 and 'b = 64, simplified]

lemmas be_values = be16_value [unfolded shift_in_def, simplified] be32_value [unfolded shift_in_def, simplified]

lemmas build_eval = finish_plist_def be16_def be32_def replicate_numeral

text \<open>
  The answer to the first SETUP parses back: with a buffer of at least 100 bytes the
  builder succeeds, its document fits those 100 bytes, and the parser finds the event port
  under \<open>eventPort\<close> and 0 under \<open>timingPort\<close>, for every port number.
\<close>

theorem initial_setup_roundtrip:
  "100 \<le> cap \<Longrightarrow> \<exists>p. bplist_build_initial_setup cap port = Some p \<and> length p \<le> 100 \<and>
     bplist_find_int p (asc ''eventPort'') = Done (uint port) \<and>
     bplist_find_int p (asc ''timingPort'') = Done 0"
  by (simp add: bplist_build_initial_setup_def build_eval bplist_eval be_values)

theorem initial_setup_roundtrip_witness:
  "\<exists>p. bplist_build_initial_setup 100 7000 = Some p \<and> length p \<le> 100 \<and>
     bplist_find_int p (asc ''eventPort'') = Done 7000 \<and> bplist_find_int p (asc ''timingPort'') = Done 0"
  using initial_setup_roundtrip [of 100 7000] by simp

definition int_kv :: "string \<Rightarrow> int \<Rightarrow> bplist_kv_info" where
  "int_kv key v = \<lparr>kv_key = asc key, kv_value_type = BPLIST_VALUE_INT, kv_value_len = 0, kv_int_value = v\<rparr>"

lemma byte_type [simp]:
  assumes "0 \<le> t" "t < 256"
  shows "uint (word_of_int t :: u8) = t" "sint (word_of_int t :: u32) = t"
  using assms by (simp_all add: unsigned_of_int take_bit_int_eq_self_iff signed_of_int signed_take_bit_int_eq_self)

text \<open>
  C4. The answer to a stream SETUP parses back: for every stream type that fits a byte, all
  ports and all buffer sizes, a buffer of 200 bytes is enough, the document has one stream,
  its type is the given one, and its entries are exactly the type, the two ports and, for a
  buffered stream (type 103) only, the audio buffer size, in the order the builder writes.
\<close>

theorem stream_setup_roundtrip:
  assumes "200 \<le> cap" "0 \<le> t" "t < 256"
  shows "\<exists>p. bplist_build_stream_setup cap t data_port control_port buffer_size = Some p
           \<and> length p \<le> 200 \<and> bplist_get_streams_count p = Done 1
           \<and> bplist_get_stream_info p 0 = Done \<lparr>si_type = t, si_ekey_len = 0, si_eiv_len = 0, si_shk_len = 0\<rparr>
           \<and> bplist_get_stream_kv_info p 0 8 = Done
               ([int_kv ''type'' t, int_kv ''dataPort'' (uint data_port)]
                @ (if t = 103 then [int_kv ''audioBufferSize'' (uint buffer_size)] else [])
                @ [int_kv ''controlPort'' (uint control_port)])"
proof (cases "t = 103")
  case True
  with assms show ?thesis
    by (simp add: bplist_build_stream_setup_def audio_stream_uses_buffer_def AUDIO_STREAM_BUFFERED_def
        build_eval bplist_eval be_values int_kv_def)
next
  case False
  with assms show ?thesis
    by (simp add: bplist_build_stream_setup_def audio_stream_uses_buffer_def AUDIO_STREAM_BUFFERED_def
        build_eval bplist_eval be_values int_kv_def)
qed

theorem stream_setup_roundtrip_witness:
  "\<exists>p. bplist_build_stream_setup 256 103 6000 6001 0x10000 = Some p \<and> length p \<le> 200
     \<and> bplist_get_stream_kv_info p 0 8 = Done
         [int_kv ''type'' 103, int_kv ''dataPort'' 6000, int_kv ''audioBufferSize'' 0x10000,
          int_kv ''controlPort'' 6001]"
  using stream_setup_roundtrip [of 256 103 6000 6001 "0x10000"] by auto

end
