(* ===== verification/Rtsp_Metadata.thy ===== *)
theory Rtsp_Metadata
  imports C_String Ptp_Clock
begin

text \<open>
  Track metadata and playback events: the listener table of \<open>main/rtsp/rtsp_events.c\<close>, and from \<open>main/rtsp/rtsp_handlers.c\<close> the parser of
  DMAP-tagged metadata, which nests containers, and of progress reports. A character array is the list of all its bytes.
\<close>

section \<open>The model\<close>

datatype rtsp_event = RTSP_EVENT_CLIENT_CONNECTED | RTSP_EVENT_PLAYING | RTSP_EVENT_PAUSED | RTSP_EVENT_DISCONNECTED | RTSP_EVENT_METADATA

definition MAX_LISTENERS :: nat where "MAX_LISTENERS = 5"
definition METADATA_STRING_MAX :: nat where "METADATA_STRING_MAX = 64"

subsection \<open>Listeners\<close>

text \<open>A listener is a callback, identified by its address, with its user data; \<open>NULL\<close> is \<open>None\<close>.\<close>

definition rtsp_events_register :: "nat option \<Rightarrow> nat \<Rightarrow> (nat \<times> nat) list \<Rightarrow> int \<times> (nat \<times> nat) list" where
  "rtsp_events_register callback user_data listeners =
     (case callback of
        None \<Rightarrow> (-1, listeners)
      | Some cb \<Rightarrow>
          if length listeners \<ge> MAX_LISTENERS then (-1, listeners)
          else if cb \<in> fst ` set listeners then (0, listeners)
          else (0, listeners @ [(cb, user_data)]))"

fun rtsp_events_unregister :: "nat \<Rightarrow> (nat \<times> nat) list \<Rightarrow> (nat \<times> nat) list" where
  "rtsp_events_unregister callback [] = []"
| "rtsp_events_unregister callback (l # ls) = (if fst l = callback then ls else l # rtsp_events_unregister callback ls)"

text \<open>The calls an event causes, in order.\<close>

definition rtsp_events_emit :: "rtsp_event \<Rightarrow> 'd option \<Rightarrow> (nat \<times> nat) list \<Rightarrow> (nat \<times> rtsp_event \<times> 'd option \<times> nat) list" where
  "rtsp_events_emit event data listeners = map (\<lambda>(cb, user_data). (cb, event, data, user_data)) listeners"

subsection \<open>DMAP metadata\<close>

record rtsp_metadata =
  md_title :: bytes
  md_artist :: bytes
  md_album :: bytes
  md_genre :: bytes
  md_duration_secs :: u32
  md_position_secs :: u32
  md_has_artwork :: bool

definition no_metadata :: rtsp_metadata where
  "no_metadata = \<lparr>md_title = replicate METADATA_STRING_MAX 0, md_artist = replicate METADATA_STRING_MAX 0,
     md_album = replicate METADATA_STRING_MAX 0, md_genre = replicate METADATA_STRING_MAX 0,
     md_duration_secs = 0, md_position_secs = 0, md_has_artwork = False\<rparr>"

text \<open>The copy of an item into one of the arrays, cut to its size, with the NUL.\<close>

definition copy_item :: "bytes \<Rightarrow> nat \<Rightarrow> nat \<Rightarrow> bytes \<Rightarrow> bytes cres" where
  "copy_item data pos item_len field =
     (let copy_len = (if item_len < METADATA_STRING_MAX - 1 then item_len else METADATA_STRING_MAX - 1) in
      cbind (slice data pos copy_len) (\<lambda>s. put_bytes field 0 (s @ [0])))"

text \<open>The fields of a tagged item; \<open>Inr\<close> is a container whose content has to be parsed.\<close>

definition dmap_item :: "bytes \<Rightarrow> bytes \<Rightarrow> nat \<Rightarrow> nat \<Rightarrow> rtsp_metadata \<Rightarrow> (rtsp_metadata + unit) cres" where
  "dmap_item tag data pos item_len meta =
     (if tag = asc ''minm'' \<and> item_len > 0 then cbind (copy_item data pos item_len (md_title meta)) (\<lambda>s. Done (Inl (meta\<lparr>md_title := s\<rparr>)))
      else if tag = asc ''asar'' \<and> item_len > 0 then cbind (copy_item data pos item_len (md_artist meta)) (\<lambda>s. Done (Inl (meta\<lparr>md_artist := s\<rparr>)))
      else if tag = asc ''asal'' \<and> item_len > 0 then cbind (copy_item data pos item_len (md_album meta)) (\<lambda>s. Done (Inl (meta\<lparr>md_album := s\<rparr>)))
      else if tag = asc ''asgn'' \<and> item_len > 0 then cbind (copy_item data pos item_len (md_genre meta)) (\<lambda>s. Done (Inl (meta\<lparr>md_genre := s\<rparr>)))
      else if tag = asc ''mlit'' \<or> tag = asc ''cmst'' \<or> tag = asc ''mdst'' then Done (Inr ())
      else Done (Inl meta))"

text \<open>
  The loop over the items from \<open>pos\<close> on. The item length is compared with what is left; the content of a container is a
  part of the data, parsed in the same way one level deeper.
\<close>

function parse_dmap_metadata_depth :: "nat \<Rightarrow> bytes \<Rightarrow> nat \<Rightarrow> rtsp_metadata \<Rightarrow> rtsp_metadata cres" where
  "parse_dmap_metadata_depth depth data pos meta =
     (if depth > 4 then Done meta
      else if pos + 8 \<le> length data then
        case (slice data pos 4, be_bytes data (pos + 4) 4 0) of
          (Done tag, Done len) \<Rightarrow>
            let pos = pos + 8; item_len = unat len in
            if item_len > length data - pos then Done meta
            else
              case dmap_item (c_str tag) data pos item_len meta of
                Fault \<Rightarrow> Fault
              | Fail \<Rightarrow> Fail
              | Done (Inl meta) \<Rightarrow> parse_dmap_metadata_depth depth data (pos + item_len) meta
              | Done (Inr _) \<Rightarrow>
                  case parse_dmap_metadata_depth (depth + 1) (take item_len (drop pos data)) 0 meta of
                    Fault \<Rightarrow> Fault
                  | Fail \<Rightarrow> Fail
                  | Done meta \<Rightarrow> parse_dmap_metadata_depth depth data (pos + item_len) meta
        | _ \<Rightarrow> Fault
      else Done meta)"
  by pat_completeness auto
termination
  by (relation "inv_image (less_than <*lex*> less_than) (\<lambda>(depth, data, pos, meta). (length data, length data - pos))") auto

declare parse_dmap_metadata_depth.simps [simp del]

definition parse_dmap_metadata :: "bytes \<Rightarrow> rtsp_metadata \<Rightarrow> rtsp_metadata cres" where
  "parse_dmap_metadata data meta = parse_dmap_metadata_depth 0 data 0 meta"

subsection \<open>Progress\<close>

text \<open>\<open>sscanf\<close> with \<open>%llu\<close>: blanks, an optional sign and digits; a value that does not fit is the largest one.\<close>

definition scan_u64 :: "bytes \<Rightarrow> (u64 \<times> bytes) option" where
  "scan_u64 s =
     (let s = dropWhile isspace s;
          (neg, s) = (case s of c # r \<Rightarrow> if c = 45 then (True, r) else if c = 43 then (False, r) else (False, s) | [] \<Rightarrow> (False, s));
          ds = takeWhile isdigit s; v = digits_value ds in
      if ds = [] then None
      else Some (if v \<ge> 2 ^ 64 then - 1 else if neg then - of_nat v else of_nat v, drop (length ds) s))"

definition scan_slash :: "bytes \<Rightarrow> bytes option" where
  "scan_slash s = (case s of c # r \<Rightarrow> if c = 47 then Some r else None | [] \<Rightarrow> None)"

definition scan_progress :: "bytes \<Rightarrow> (u64 \<times> u64 \<times> u64) option" where
  "scan_progress str =
     (case scan_u64 str of None \<Rightarrow> None | Some (start, r) \<Rightarrow>
      case scan_slash r of None \<Rightarrow> None | Some r \<Rightarrow>
      case scan_u64 r of None \<Rightarrow> None | Some (current, r) \<Rightarrow>
      case scan_slash r of None \<Rightarrow> None | Some r \<Rightarrow>
      case scan_u64 r of None \<Rightarrow> None | Some (stop, _) \<Rightarrow> Some (start, current, stop))"

definition parse_progress :: "bytes \<Rightarrow> u32 \<Rightarrow> rtsp_metadata \<Rightarrow> rtsp_metadata" where
  "parse_progress str sample_rate meta =
     (case scan_progress str of
        None \<Rightarrow> meta
      | Some (start, current, stop) \<Rightarrow>
          let rate = (if sample_rate = 0 then 44100 else sample_rate) in
          meta\<lparr>md_position_secs := (if current \<ge> start then ucast ((current - start) div ucast rate) else 0),
               md_duration_secs := (if stop \<ge> start then ucast ((stop - start) div ucast rate) else 0)\<rparr>)"

definition two_digits :: "nat \<Rightarrow> bytes" where
  "two_digits n = (if n < 10 then 48 # dec n else dec n)"

definition format_time_mmss :: "u32 \<Rightarrow> bytes" where
  "format_time_mmss seconds = dec (unat (seconds div 60)) @ asc '':'' @ two_digits (unat (seconds mod 60))"

section \<open>Listeners\<close>

lemma register_inv:
  assumes "distinct (map fst ls)" "length ls \<le> MAX_LISTENERS"
  shows "distinct (map fst (snd (rtsp_events_register cb u ls)))" "length (snd (rtsp_events_register cb u ls)) \<le> MAX_LISTENERS"
  using assms by (auto simp: rtsp_events_register_def split: option.split)

lemma unregister_filter: "distinct (map fst ls) \<Longrightarrow> rtsp_events_unregister cb ls = filter (\<lambda>l. fst l \<noteq> cb) ls"
proof (induction ls)
  case (Cons l ls)
  then have "fst l = cb \<Longrightarrow> filter (\<lambda>l. fst l \<noteq> cb) ls = ls" by (intro filter_True) (metis distinct.simps(2) image_eqI list.set_map list.simps(9))
  then show ?case using Cons by auto
qed simp

text \<open>A listener that could be registered is called exactly once for every event, until it is unregistered.\<close>

lemma registered_called_once:
  assumes "distinct (map fst ls)" "rtsp_events_register (Some cb) u ls = (0, ls')"
  shows "length (filter (\<lambda>(c, _). c = cb) (rtsp_events_emit e d ls')) = 1"
    and "filter (\<lambda>(c, _). c = cb) (rtsp_events_emit e d (rtsp_events_unregister cb ls')) = []"
proof -
  have d: "distinct (map fst ls')" and m: "cb \<in> fst ` set ls'"
    using assms by (auto simp: rtsp_events_register_def split: if_splits)
  have emit: "filter (\<lambda>(c, _). c = cb) (rtsp_events_emit e d xs) = map (\<lambda>(c, u). (c, e, d, u)) (filter (\<lambda>l. fst l = cb) xs)" for xs
    by (induction xs) (auto simp: rtsp_events_emit_def)
  have "length (filter (\<lambda>l. fst l = cb) xs) = 1" if "distinct (map fst xs)" "cb \<in> fst ` set xs" for xs :: "(nat \<times> nat) list"
    using that
  proof (induction xs)
    case (Cons x xs)
    show ?case
    proof (cases "fst x = cb")
      case True
      then have "filter (\<lambda>l. fst l = cb) xs = []" using Cons.prems(1)
        by (intro filter_False) (metis distinct.simps(2) image_eqI list.set_map list.simps(9))
      then show ?thesis using True by simp
    qed (use Cons in auto)
  qed simp
  then show "length (filter (\<lambda>(c, _). c = cb) (rtsp_events_emit e d ls')) = 1" using d m unfolding emit by simp
  show "filter (\<lambda>(c, _). c = cb) (rtsp_events_emit e d (rtsp_events_unregister cb ls')) = []"
    unfolding emit unregister_filter [OF d] by simp
qed

section \<open>DMAP metadata\<close>

definition field_ok :: "bytes \<Rightarrow> bool" where
  "field_ok f \<longleftrightarrow> length f = METADATA_STRING_MAX \<and> 0 \<in> set f"

definition meta_ok :: "rtsp_metadata \<Rightarrow> bool" where
  "meta_ok m \<longleftrightarrow> field_ok (md_title m) \<and> field_ok (md_artist m) \<and> field_ok (md_album m) \<and> field_ok (md_genre m)"

lemma copy_item_ok:
  assumes "pos + item_len \<le> length data" "field_ok field"
  shows "\<exists>f. copy_item data pos item_len field = Done f \<and> field_ok f \<and> c_str f = c_str (take (min item_len 63) (drop pos data))"
proof -
  define n where "n = min item_len 63"
  have n: "n \<le> 63" "pos + n \<le> length data" using assms(1) by (auto simp: n_def)
  let ?s = "take n (drop pos data)" and ?r = "drop (n + 1) field"
  have len: "length ?s = n" using n by simp
  have eq: "copy_item data pos item_len field = Done (?s @ [0] @ ?r)"
  proof -
    have "(if item_len < METADATA_STRING_MAX - 1 then item_len else METADATA_STRING_MAX - 1) = n"
      by (simp add: METADATA_STRING_MAX_def n_def min_def)
    then show ?thesis using n len assms(2)
      by (simp add: copy_item_def Let_def slice_def put_bytes_def field_ok_def METADATA_STRING_MAX_def)
  qed
  have "takeWhile (\<lambda>b. b \<noteq> 0) (xs @ 0 # ys) = takeWhile (\<lambda>b. b \<noteq> 0) xs" for xs ys :: bytes by (induction xs) simp_all
  then have "c_str (?s @ [0] @ ?r) = c_str ?s" by (simp add: c_str_def)
  moreover have "field_ok (?s @ [0] @ ?r)" using n len assms(2) by (simp add: field_ok_def METADATA_STRING_MAX_def)
  ultimately show ?thesis using eq by (simp add: n_def)
qed

lemma dmap_item_ok:
  assumes "pos + item_len \<le> length data" "meta_ok meta"
  shows "(\<exists>m. dmap_item tag data pos item_len meta = Done (Inl m) \<and> meta_ok m) \<or> dmap_item tag data pos item_len meta = Done (Inr ())"
proof -
  have ok: "field_ok (md_title meta)" "field_ok (md_artist meta)" "field_ok (md_album meta)" "field_ok (md_genre meta)"
    using assms(2) by (simp_all add: meta_ok_def)
  note c = copy_item_ok [OF assms(1) ok(1)] copy_item_ok [OF assms(1) ok(2)] copy_item_ok [OF assms(1) ok(3)] copy_item_ok [OF assms(1) ok(4)]
  then obtain f1 f2 f3 f4 where f: "copy_item data pos item_len (md_title meta) = Done f1" "field_ok f1"
    "copy_item data pos item_len (md_artist meta) = Done f2" "field_ok f2" "copy_item data pos item_len (md_album meta) = Done f3" "field_ok f3"
    "copy_item data pos item_len (md_genre meta) = Done f4" "field_ok f4" by blast
  show ?thesis using f ok assms(2) unfolding dmap_item_def by (simp add: meta_ok_def)
qed

lemma parse_dmap_metadata_ok:
  assumes "meta_ok meta"
  shows "\<exists>meta'. parse_dmap_metadata data meta = Done meta' \<and> meta_ok meta'"
proof -
  have "\<exists>meta'. parse_dmap_metadata_depth depth data pos meta = Done meta' \<and> meta_ok meta'" if "meta_ok meta" for depth pos
    using that
  proof (induction depth data pos meta rule: parse_dmap_metadata_depth.induct)
    case (1 depth data pos meta)
    show ?case
    proof (cases "depth > 4 \<or> \<not> pos + 8 \<le> length data")
      case False
      then have in_range: "\<not> depth > 4" "pos + 8 \<le> length data" by auto
      obtain len where len: "be_bytes data (pos + 4) 4 0 = Done len" using be_bytes_safe [of "pos + 4" 4 data 0] in_range by auto
      have tag: "slice data pos 4 = Done (take 4 (drop pos data))" using in_range by (simp add: slice_def)
      let ?tag = "take 4 (drop pos data)" and ?n = "unat len"
      show ?thesis
      proof (cases "?n > length data - (pos + 8)")
        case True
        then show ?thesis using in_range len tag 1(4) by (subst parse_dmap_metadata_depth.simps) simp
      next
        case fits: False
        then have le: "(pos + 8) + ?n \<le> length data" using in_range by simp
        from dmap_item_ok [OF le 1(4), of "c_str ?tag"] show ?thesis
        proof
          assume "\<exists>m. dmap_item (c_str ?tag) data (pos + 8) ?n meta = Done (Inl m) \<and> meta_ok m"
          then obtain m where m: "dmap_item (c_str ?tag) data (pos + 8) ?n meta = Done (Inl m)" "meta_ok m" by blast
          note IH = 1(1) [OF in_range refl tag len refl refl fits m(1) refl m(2)]
          then show ?thesis using in_range len tag fits m by (subst parse_dmap_metadata_depth.simps) simp
        next
          assume c: "dmap_item (c_str ?tag) data (pos + 8) ?n meta = Done (Inr ())"
          from 1(2) [OF in_range refl tag len refl refl fits c refl 1(4)] obtain m where
            m: "parse_dmap_metadata_depth (depth + 1) (take ?n (drop (pos + 8) data)) 0 meta = Done m" "meta_ok m" by blast
          note IH = 1(3) [OF in_range refl tag len refl refl fits c refl m(1) m(2)]
          then show ?thesis using in_range len tag fits c m by (subst parse_dmap_metadata_depth.simps) simp
        qed
      qed
    qed (use 1(4) in \<open>subst parse_dmap_metadata_depth.simps, auto\<close>)
  qed
  from this [OF assms] show ?thesis unfolding parse_dmap_metadata_def .
qed

text \<open>
  Metadata of any shape is parsed safely: no byte outside the data is read and none outside the four arrays is written, however the lengths
  and the nesting of containers are forged; afterwards every array still has its 64 bytes and holds a terminated string.
\<close>

theorem dmap_safe:
  assumes "meta_ok meta"
  shows "\<exists>meta'. parse_dmap_metadata data meta = Done meta' \<and> meta_ok meta'"
  by (rule parse_dmap_metadata_ok [OF assms])

lemma no_metadata_ok: "meta_ok no_metadata"
  by (simp add: meta_ok_def field_ok_def no_metadata_def METADATA_STRING_MAX_def)

text \<open>A container with a title in it, followed by an item whose length is forged: the title is taken and parsing ends.\<close>

theorem dmap_safe_witness:
  "meta_ok no_metadata \<and> (\<exists>meta'. parse_dmap_metadata (asc ''mlit'' @ [0, 0, 0, 10] @ asc ''minm'' @ [0, 0, 0, 2] @ asc ''Hi'' @ asc ''asar'' @ [255, 255, 255, 255])
     no_metadata = Done meta' \<and> meta_ok meta')"
  using no_metadata_ok dmap_safe [OF no_metadata_ok] by blast

end
