(* ===== verification/Audio_Buffer.thy ===== *)
theory Audio_Buffer
  imports Prelude
begin

text \<open>
  The jitter buffer between the network task and the playback task
  (\<open>main/audio/audio_buffer.c\<close>): a pool of fixed slots, an index array sorted by RTP
  timestamp, a stack of free slots and a counting semaphore. Array accesses outside of
  an allocation are \<open>Fault\<close>; a \<open>bool\<close> result is part of the \<open>Done\<close> value because the
  functions change the buffer or the statistics also when they return false.
\<close>

section \<open>The model\<close>

subsection \<open>Data\<close>

definition AAC_FRAMES_PER_PACKET :: nat where "AAC_FRAMES_PER_PACKET = 352"
definition AUDIO_MAX_CHANNELS :: nat where "AUDIO_MAX_CHANNELS = 2"
definition MAX_SAMPLES_PER_FRAME :: nat where "MAX_SAMPLES_PER_FRAME = 4096"
definition MAX_RING_BUFFER_FRAMES :: nat where "MAX_RING_BUFFER_FRAMES = 1000"
definition FRAME_HEADER_SIZE :: nat where "FRAME_HEADER_SIZE = 8"
definition BYTES_PER_FRAME :: nat where
  "BYTES_PER_FRAME = FRAME_HEADER_SIZE + AAC_FRAMES_PER_PACKET * AUDIO_MAX_CHANNELS * 2"

lemmas audio_consts = AAC_FRAMES_PER_PACKET_def AUDIO_MAX_CHANNELS_def MAX_SAMPLES_PER_FRAME_def
  MAX_RING_BUFFER_FRAMES_def FRAME_HEADER_SIZE_def BYTES_PER_FRAME_def

text \<open>A slot of the pool: the packed header and the PCM area behind it, in 16-bit samples.\<close>

record audio_frame =
  rtp_timestamp :: u32
  samples_per_channel :: u16
  hdr_channels :: u8
  pcm_area :: "u16 list"

text \<open>
  The allocations are lists of their fixed length, \<open>[]\<close> standing for \<open>NULL\<close>. The semaphore
  is its token count.
\<close>

record audio_buffer =
  ab_pool :: "audio_frame list"
  ab_sorted :: "nat list"
  ab_free_stack :: "nat list"
  ab_count :: nat
  ab_sample_count :: nat
  ab_free_top :: nat
  ab_capacity :: nat
  ab_slot_size :: nat
  ab_data_ready :: nat
  ab_decode_capacity :: nat

record audio_stats =
  st_packets_received :: u32
  st_packets_decoded :: u32
  st_packets_dropped :: u32
  st_decrypt_errors :: u32
  st_buffer_underruns :: u32
  st_buffer_overruns :: u32
  st_late_frames :: u32
  st_last_seq :: u16
  st_last_timestamp :: u32

text \<open>The FreeRTOS counting semaphore: a take without waiting, and a give up to the maximum.\<close>

definition sem_take :: "nat \<Rightarrow> bool \<times> nat" where
  "sem_take n = (if n > 0 then (True, n - 1) else (False, n))"

definition sem_give :: "nat \<Rightarrow> nat \<Rightarrow> nat" where
  "sem_give maximum n = (if n < maximum then n + 1 else n)"

subsection \<open>Sorted index array\<close>

definition ts_cmp :: "u32 \<Rightarrow> u32 \<Rightarrow> int" where
  "ts_cmp a b = sint (a - b)"

definition slot_timestamp :: "audio_buffer \<Rightarrow> nat \<Rightarrow> u32 cres" where
  "slot_timestamp b slot = cbind (aget (ab_pool b) slot) (\<lambda>f. Done (rtp_timestamp f))"

function insert_pos_loop :: "audio_buffer \<Rightarrow> u32 \<Rightarrow> nat \<Rightarrow> nat \<Rightarrow> nat cres" where
  "insert_pos_loop b timestamp lo hi =
     (if lo < hi then
        let mid = lo + (hi - lo) div 2 in
        cbind (aget (ab_sorted b) mid) (\<lambda>slot.
        cbind (slot_timestamp b slot) (\<lambda>t.
          if ts_cmp t timestamp < 0 then insert_pos_loop b timestamp (mid + 1) hi
          else insert_pos_loop b timestamp lo mid))
      else Done lo)"
  by pat_completeness auto
termination
  by (relation "measure (\<lambda>(b, timestamp, lo, hi). hi - lo)") auto

declare insert_pos_loop.simps [simp del]

definition sorted_insert_pos :: "audio_buffer \<Rightarrow> u32 \<Rightarrow> nat cres" where
  "sorted_insert_pos b timestamp = insert_pos_loop b timestamp 0 (ab_count b)"

subsection \<open>Queueing\<close>

definition count_drop :: "audio_stats \<Rightarrow> audio_stats" where
  "count_drop stats = stats\<lparr>st_buffer_overruns := st_buffer_overruns stats + 1,
                           st_packets_dropped := st_packets_dropped stats + 1\<rparr>"

text \<open>Removal of the oldest queued slot, shared by the overflow drain and \<open>audio_buffer_take\<close>.\<close>

definition remove_oldest :: "audio_buffer \<Rightarrow> (nat \<times> audio_buffer) cres" where
  "remove_oldest b =
     cbind (aget (ab_sorted b) 0) (\<lambda>victim.
     cbind (aget (ab_pool b) victim) (\<lambda>f.
     cbind (if ab_count b > 1 then memmove (ab_sorted b) 0 1 (ab_count b - 1) else Done (ab_sorted b))
       (\<lambda>sorted'.
       let n = unat (samples_per_channel f) in
       Done (victim, b\<lparr>ab_sorted := sorted', ab_count := ab_count b - 1,
         ab_sample_count := (if ab_sample_count b \<ge> n then ab_sample_count b - n else 0)\<rparr>))))"

definition push_free :: "audio_buffer \<Rightarrow> nat \<Rightarrow> audio_buffer cres" where
  "push_free b slot =
     cbind (aset (ab_free_stack b) (ab_free_top b) slot) (\<lambda>st.
       Done (b\<lparr>ab_free_stack := st, ab_free_top := ab_free_top b + 1\<rparr>))"

definition evict_oldest :: "audio_buffer \<Rightarrow> audio_buffer cres" where
  "evict_oldest b =
     cbind (remove_oldest b) (\<lambda>(victim, b1).
     cbind (push_free b1 victim) (\<lambda>b2.
       Done (b2\<lparr>ab_data_ready := snd (sem_take (ab_data_ready b2))\<rparr>)))"

function drain_overflow :: "audio_buffer \<Rightarrow> audio_stats \<Rightarrow> (audio_buffer \<times> audio_stats) cres" where
  "drain_overflow b stats =
     (if ab_count b \<ge> ab_capacity b \<and> ab_count b > 0 then
        case evict_oldest b of
          Fault \<Rightarrow> Fault
        | Fail \<Rightarrow> Fail
        | Done b' \<Rightarrow> drain_overflow b' (count_drop stats)
      else Done (b, stats))"
  by pat_completeness auto
termination
proof (relation "measure (\<lambda>(b, stats). ab_count b)")
  fix b :: audio_buffer and stats b'
  assume "ab_capacity b \<le> ab_count b \<and> 0 < ab_count b" "evict_oldest b = Done b'"
  then show "((b', count_drop stats), (b, stats)) \<in> measure (\<lambda>(b, stats). ab_count b)"
    by (auto simp: evict_oldest_def remove_oldest_def push_free_def cbind_eq_Done Let_def)
qed simp

declare drain_overflow.simps [simp del]

text \<open>Header and samples written to a slot; the rest of the PCM area keeps its old content.\<close>

definition build_frame :: "audio_frame \<Rightarrow> u32 \<Rightarrow> nat \<Rightarrow> int \<Rightarrow> u16 list \<Rightarrow> audio_frame cres" where
  "build_frame old timestamp samples channels pcm_data =
     (let n = samples * nat channels in
      if n \<le> length pcm_data \<and> n \<le> length (pcm_area old) then
        Done \<lparr>rtp_timestamp = timestamp, samples_per_channel = of_nat samples,
              hdr_channels = of_int channels, pcm_area = take n pcm_data @ drop n (pcm_area old)\<rparr>
      else Fault)"

definition insert_sorted_slot :: "audio_buffer \<Rightarrow> nat \<Rightarrow> nat \<Rightarrow> audio_buffer cres" where
  "insert_sorted_slot b slot pos =
     cbind (if pos < ab_count b then memmove (ab_sorted b) (pos + 1) pos (ab_count b - pos)
            else Done (ab_sorted b)) (\<lambda>arr.
     cbind (aset arr pos slot) (\<lambda>arr'.
       Done (b\<lparr>ab_sorted := arr', ab_count := ab_count b + 1\<rparr>)))"

text \<open>
  From the pop of a free slot to the end of the critical section: the frame is built in the
  slot and the slot inserted at the position of its timestamp.
\<close>

definition place_chunk :: "audio_buffer \<Rightarrow> u32 \<Rightarrow> u16 list \<Rightarrow> nat \<Rightarrow> int \<Rightarrow> audio_buffer cres" where
  "place_chunk b timestamp pcm_data samples channels =
     cbind (aget (ab_free_stack b) (ab_free_top b - 1)) (\<lambda>slot.
     cbind (aget (ab_pool b) slot) (\<lambda>old.
     cbind (build_frame old timestamp samples channels pcm_data) (\<lambda>f.
     let b = b\<lparr>ab_free_top := ab_free_top b - 1, ab_pool := (ab_pool b)[slot := f]\<rparr> in
     cbind (sorted_insert_pos b timestamp) (\<lambda>pos.
     cbind (insert_sorted_slot b slot pos) (\<lambda>b.
       Done (b\<lparr>ab_sample_count := ab_sample_count b + samples\<rparr>))))))"

text \<open>The critical section: overflow drain, then placement when a slot is free.\<close>

definition queue_locked ::
    "audio_buffer \<Rightarrow> audio_stats \<Rightarrow> u32 \<Rightarrow> u16 list \<Rightarrow> nat \<Rightarrow> int \<Rightarrow>
     (bool \<times> audio_buffer \<times> audio_stats) cres" where
  "queue_locked buffer stats timestamp pcm_data samples channels =
     cbind (drain_overflow buffer stats) (\<lambda>(b, stats).
       if ab_free_top b = 0 then Done (False, b, stats)
       else cbind (place_chunk b timestamp pcm_data samples channels) (\<lambda>b. Done (True, b, stats)))"

definition signal_consumer :: "audio_buffer \<Rightarrow> audio_buffer" where
  "signal_consumer b = b\<lparr>ab_data_ready := sem_give (ab_capacity b) (ab_data_ready b)\<rparr>"

definition audio_buffer_queue_chunk ::
    "audio_buffer \<Rightarrow> audio_stats \<Rightarrow> u32 \<Rightarrow> u16 list \<Rightarrow> nat \<Rightarrow> int \<Rightarrow>
     (bool \<times> audio_buffer \<times> audio_stats) cres" where
  "audio_buffer_queue_chunk buffer stats timestamp pcm_data samples channels =
     (if samples = 0 then Done (False, buffer, stats)
      else if channels < 1 \<or> channels > int AUDIO_MAX_CHANNELS then Done (False, buffer, stats)
      else
        let pcm_bytes = size_t (samples * nat channels * 2);
            slot_payload = ab_slot_size buffer - FRAME_HEADER_SIZE in
        if samples > 65535 \<or> pcm_bytes > slot_payload then Done (False, buffer, stats)
        else cbind (queue_locked buffer stats timestamp pcm_data samples channels) (\<lambda>(ok, b, stats).
          if \<not> ok then Done (False, b, count_drop stats)
          else Done (True, signal_consumer b, stats\<lparr>st_packets_decoded := st_packets_decoded stats + 1\<rparr>)))"

text \<open>The splitting loop: \<open>pcm_data + offset * channels\<close> is the rest of the samples.\<close>

function queue_decoded_loop ::
    "audio_buffer \<Rightarrow> audio_stats \<Rightarrow> u32 \<Rightarrow> u16 list \<Rightarrow> nat \<Rightarrow> int \<Rightarrow> nat \<Rightarrow>
     (bool \<times> audio_buffer \<times> audio_stats) cres" where
  "queue_decoded_loop buffer stats chunk_timestamp pcm_data samples channels offset =
     (if offset < samples then
        let chunk_samples = min (samples - offset) AAC_FRAMES_PER_PACKET in
        case audio_buffer_queue_chunk buffer stats chunk_timestamp (drop (offset * nat channels) pcm_data)
               chunk_samples channels of
          Fault \<Rightarrow> Fault
        | Fail \<Rightarrow> Fail
        | Done (ok, b, st) \<Rightarrow>
            if \<not> ok then Done (False, b, st)
            else queue_decoded_loop b st (chunk_timestamp + of_nat chunk_samples) pcm_data samples channels
                   (offset + chunk_samples)
      else Done (True, buffer, stats))"
  by pat_completeness auto
termination
  by (relation "measure (\<lambda>(b, st, ts, pcm, samples, ch, offset). samples - offset)")
    (auto simp: AAC_FRAMES_PER_PACKET_def)

declare queue_decoded_loop.simps [simp del]

definition audio_buffer_queue_decoded ::
    "audio_buffer \<Rightarrow> audio_stats \<Rightarrow> u32 \<Rightarrow> u16 list \<Rightarrow> nat \<Rightarrow> int \<Rightarrow>
     (bool \<times> audio_buffer \<times> audio_stats) cres" where
  "audio_buffer_queue_decoded buffer stats timestamp pcm_data samples channels =
     (if samples = 0 then Done (False, buffer, stats)
      else
        let channels = (if channels \<le> 0 then 2 else channels) in
        if channels > int AUDIO_MAX_CHANNELS then Done (False, buffer, stats)
        else queue_decoded_loop buffer stats timestamp pcm_data samples channels 0)"

subsection \<open>Life cycle\<close>

definition audio_buffer_deinit :: "audio_buffer \<Rightarrow> audio_buffer" where
  "audio_buffer_deinit b = b\<lparr>ab_data_ready := 0, ab_pool := [], ab_sorted := [], ab_free_stack := [],
     ab_decode_capacity := 0, ab_count := 0, ab_sample_count := 0, ab_free_top := 0\<rparr>"

text \<open>
  The allocator's answers are arguments: \<open>None\<close> is \<open>NULL\<close>, \<open>Some\<close> an array with arbitrary
  content; \<open>sem_ok\<close> and \<open>frame_ok\<close> tell whether the semaphore and the decode buffer
  could be created.
\<close>

definition audio_buffer_init ::
    "audio_frame list option \<Rightarrow> nat list option \<Rightarrow> nat list option \<Rightarrow> bool \<Rightarrow> bool \<Rightarrow> esp_err \<times> audio_buffer" where
  "audio_buffer_init pool sorted_arr free_arr sem_ok frame_ok =
     (let b = \<lparr>ab_pool = [], ab_sorted = [], ab_free_stack = [], ab_count = 0, ab_sample_count = 0,
               ab_free_top = 0, ab_capacity = MAX_RING_BUFFER_FRAMES, ab_slot_size = BYTES_PER_FRAME,
               ab_data_ready = 0, ab_decode_capacity = 0\<rparr> in
      case pool of
        None \<Rightarrow> (ESP_ERR_NO_MEM, b)
      | Some p \<Rightarrow>
          (case (sorted_arr, free_arr) of
             (Some s, Some fr) \<Rightarrow>
               if \<not> sem_ok \<or> \<not> frame_ok then (ESP_ERR_NO_MEM, audio_buffer_deinit (b\<lparr>ab_pool := p\<rparr>))
               else (ESP_OK, b\<lparr>ab_pool := p, ab_sorted := s, 
                              ab_free_stack := [0..<MAX_RING_BUFFER_FRAMES] @ drop MAX_RING_BUFFER_FRAMES fr,
                              ab_free_top := MAX_RING_BUFFER_FRAMES,
                              ab_decode_capacity := MAX_SAMPLES_PER_FRAME\<rparr>)
           | _ \<Rightarrow> (ESP_ERR_NO_MEM, audio_buffer_deinit (b\<lparr>ab_pool := p\<rparr>))))"

fun flush_loop :: "audio_buffer \<Rightarrow> nat list \<Rightarrow> audio_buffer cres" where
  "flush_loop b [] = Done b"
| "flush_loop b (i # is) =
     cbind (aget (ab_sorted b) i) (\<lambda>slot. cbind (push_free b slot) (\<lambda>b'. flush_loop b' is))"

definition flush_locked :: "audio_buffer \<Rightarrow> audio_buffer cres" where
  "flush_locked b =
     cbind (flush_loop b [0..<ab_count b]) (\<lambda>b'. Done (b'\<lparr>ab_count := 0, ab_sample_count := 0\<rparr>))"

text \<open>After the critical section the semaphore is taken until it is empty.\<close>

definition audio_buffer_flush :: "audio_buffer \<Rightarrow> audio_buffer cres" where
  "audio_buffer_flush b =
     (if ab_pool b = [] then Done b
      else cbind (flush_locked b) (\<lambda>b'. Done (b'\<lparr>ab_data_ready := 0\<rparr>)))"

subsection \<open>Reading\<close>

definition audio_buffer_get_frame_count :: "audio_buffer \<Rightarrow> nat" where
  "audio_buffer_get_frame_count b = ab_count b"

definition audio_buffer_get_sample_count :: "audio_buffer \<Rightarrow> nat" where
  "audio_buffer_get_sample_count b = ab_sample_count b"

definition audio_buffer_is_nearly_full :: "audio_buffer \<Rightarrow> bool" where
  "audio_buffer_is_nearly_full b \<longleftrightarrow> ab_count b > ab_capacity b * 9 div 10"

definition frame_item_size :: "audio_frame \<Rightarrow> nat" where
  "frame_item_size f = FRAME_HEADER_SIZE + unat (samples_per_channel f) * unat (hdr_channels f) * 2"

text \<open>The part of a take behind the semaphore: the critical section and the item.\<close>

definition take_locked :: "audio_buffer \<Rightarrow> ((nat \<times> nat) option \<times> audio_buffer) cres" where
  "take_locked b =
     (if ab_count b = 0 then Done (None, b)
      else cbind (remove_oldest b) (\<lambda>(slot, b).
        cbind (aget (ab_pool b) slot) (\<lambda>f. Done (Some (slot, frame_item_size f), b))))"

text \<open>
  The take of the consumer when nothing arrives while it waits: the slot and the size of
  the item, or \<open>None\<close> for the return value false.
\<close>

definition audio_buffer_take :: "audio_buffer \<Rightarrow> ((nat \<times> nat) option \<times> audio_buffer) cres" where
  "audio_buffer_take b =
     (if ab_pool b = [] then Done (None, b)
      else case sem_take (ab_data_ready b) of
          (False, _) \<Rightarrow> Done (None, b)
        | (True, tokens) \<Rightarrow> take_locked (b\<lparr>ab_data_ready := tokens\<rparr>))"

text \<open>The pointer is given by the slot it points to.\<close>

definition audio_buffer_return :: "audio_buffer \<Rightarrow> nat \<Rightarrow> audio_buffer cres" where
  "audio_buffer_return b slot = (if ab_pool b = [] then Done b else push_free b slot)"

definition audio_buffer_oldest_timestamp :: "audio_buffer \<Rightarrow> u32 option cres" where
  "audio_buffer_oldest_timestamp b =
     (if ab_pool b = [] \<or> ab_count b = 0 then Done None
      else cbind (aget (ab_sorted b) 0) (\<lambda>slot. cbind (slot_timestamp b slot) (\<lambda>t. Done (Some t))))"

definition audio_buffer_get_decode_buffer :: "audio_buffer \<Rightarrow> nat" where
  "audio_buffer_get_decode_buffer b = ab_decode_capacity b"

section \<open>The invariant\<close>

text \<open>
  The slots are partitioned: each slot of the pool is either queued (the used prefix of the
  index array), free (the used prefix of the free stack) or taken by the consumer and not
  yet returned (\<open>out\<close>), and no slot is two of these. A queued or taken frame has a header
  that fits the slot, and the sample counter is the sum over the queued frames.
\<close>

definition queued :: "audio_buffer \<Rightarrow> nat list" where
  "queued b = take (ab_count b) (ab_sorted b)"

definition free_slots :: "audio_buffer \<Rightarrow> nat list" where
  "free_slots b = take (ab_free_top b) (ab_free_stack b)"

definition frame_ok :: "audio_frame \<Rightarrow> bool" where
  "frame_ok f \<longleftrightarrow> 0 < unat (samples_per_channel f) \<and> 0 < unat (hdr_channels f) \<and> unat (hdr_channels f) \<le> 2
     \<and> unat (samples_per_channel f) * unat (hdr_channels f) \<le> 704"

definition shape_ok :: "audio_buffer \<Rightarrow> bool" where
  "shape_ok b \<longleftrightarrow> length (ab_sorted b) = ab_capacity b \<and> length (ab_free_stack b) = ab_capacity b
     \<and> length (ab_pool b) = ab_capacity b \<and> 0 < ab_capacity b \<and> ab_slot_size b = BYTES_PER_FRAME
     \<and> ab_count b \<le> ab_capacity b \<and> ab_free_top b \<le> ab_capacity b
     \<and> (\<forall>f \<in> set (ab_pool b). length (pcm_area f) = 704)"

definition slots_ok :: "audio_buffer \<Rightarrow> nat list \<Rightarrow> bool" where
  "slots_ok b out \<longleftrightarrow> distinct (queued b @ free_slots b @ out)
     \<and> set (queued b @ free_slots b @ out) = {..<ab_capacity b}"

definition frames_ok :: "audio_buffer \<Rightarrow> nat list \<Rightarrow> bool" where
  "frames_ok b out \<longleftrightarrow> (\<forall>s \<in> set (queued b @ out). frame_ok (ab_pool b ! s))
     \<and> ab_sample_count b = (\<Sum>s\<leftarrow>queued b. unat (samples_per_channel (ab_pool b ! s)))"

definition buf_inv :: "audio_buffer \<Rightarrow> nat list \<Rightarrow> bool" where
  "buf_inv b out \<longleftrightarrow> shape_ok b \<and> slots_ok b out \<and> frames_ok b out"

lemmas buf_defs = buf_inv_def shape_ok_def slots_ok_def frames_ok_def

lemma slots_count:
  assumes "buf_inv b out"
  shows "ab_count b + ab_free_top b + length out = ab_capacity b"
proof -
  have "length (queued b @ free_slots b @ out) = card {..<ab_capacity b}"
    using assms by (metis buf_inv_def slots_ok_def distinct_card)
  moreover have "length (queued b) = ab_count b" "length (free_slots b) = ab_free_top b"
    using assms by (simp_all add: buf_inv_def shape_ok_def queued_def free_slots_def)
  ultimately show ?thesis by simp
qed

lemma queued_length [simp]: "buf_inv b out \<Longrightarrow> length (queued b) = ab_count b"
  by (auto simp: buf_defs queued_def)

lemma queued_slot_bound: "buf_inv b out \<Longrightarrow> s \<in> set (queued b @ free_slots b @ out) \<Longrightarrow> s < ab_capacity b"
  unfolding buf_defs by blast

lemma queued_hd:
  assumes "buf_inv b out" "0 < ab_count b"
  shows "queued b = ab_sorted b ! 0 # tl (queued b)"
  using assms by (cases "ab_sorted b") (auto simp: buf_defs queued_def take_Cons')

lemma remove_oldest_spec:
  assumes inv: "buf_inv b out" and pos: "0 < ab_count b"
  obtains b' where "remove_oldest b = Done (hd (queued b), b')" "buf_inv b' (hd (queued b) # out)"
    "queued b' = tl (queued b)" "free_slots b' = free_slots b" "ab_pool b' = ab_pool b"
    "ab_data_ready b' = ab_data_ready b" "ab_capacity b' = ab_capacity b" "ab_count b' = ab_count b - 1"
proof -
  note q = queued_hd [OF assms]
  define s where "s = ab_sorted b ! 0"
  have bounds: "0 < length (ab_sorted b)" "s < length (ab_pool b)"
    using inv pos q queued_slot_bound [OF inv, of s] list.set_intros(1) [of s "tl (queued b)"]
    by (simp_all add: buf_inv_def shape_ok_def s_def)
  obtain arr where arr: "(if ab_count b > 1 then memmove (ab_sorted b) 0 1 (ab_count b - 1) else Done (ab_sorted b))
      = Done arr" "length arr = length (ab_sorted b)" "take (ab_count b - 1) arr = tl (queued b)"
  proof (cases "ab_count b > 1")
    case True
    then show thesis
      using memmove_drop_head [of "ab_count b" "ab_sorted b"] inv pos that
      by (auto simp: buf_inv_def shape_ok_def queued_def)
  next
    case False
    with pos have "ab_count b = 1" by simp
    then show thesis using that [of "ab_sorted b"] by (simp add: queued_def tl_take)
  qed
  define b' where "b' = b\<lparr>ab_sorted := arr, ab_count := ab_count b - 1,
      ab_sample_count := (if ab_sample_count b \<ge> unat (samples_per_channel (ab_pool b ! s))
        then ab_sample_count b - unat (samples_per_channel (ab_pool b ! s)) else 0)\<rparr>"
  have q': "queued b' = tl (queued b)" "free_slots b' = free_slots b"
    using arr(3) by (simp_all add: b'_def queued_def free_slots_def)
  have hd: "hd (queued b) = s" using q by (metis list.sel(1) s_def)
  have inv': "buf_inv b' (s # out)"
  proof -
    have "queued b = s # tl (queued b)" using q by (simp add: s_def)
    then obtain t where t: "queued b = s # t" "tl (queued b) = t" by simp
    show ?thesis
      using inv arr(2) unfolding buf_defs q' t(2) by (auto simp: b'_def t(1))
  qed
  have "remove_oldest b = Done (s, b')"
    using bounds arr(1) by (simp add: remove_oldest_def Let_def b'_def s_def)
  then show thesis using that inv' q' hd by (simp add: b'_def)
qed

lemma push_free_spec:
  assumes inv: "buf_inv b (s # out)"
  obtains b' where "push_free b s = Done b'" "buf_inv b' out" "queued b' = queued b"
    "free_slots b' = free_slots b @ [s]" "ab_pool b' = ab_pool b" "ab_data_ready b' = ab_data_ready b"
    "ab_capacity b' = ab_capacity b" "ab_count b' = ab_count b"
proof -
  have room: "ab_free_top b < length (ab_free_stack b)"
    using slots_count [OF inv] inv by (simp add: buf_defs)
  define b' where "b' = b\<lparr>ab_free_stack := (ab_free_stack b)[ab_free_top b := s], ab_free_top := ab_free_top b + 1\<rparr>"
  have eqs: "queued b' = queued b" "free_slots b' = free_slots b @ [s]"
    using room by (simp_all add: b'_def queued_def free_slots_def take_Suc_conv_app_nth)
  have "buf_inv b' out"
    using inv slots_count [OF inv] unfolding buf_defs eqs by (auto simp: b'_def)
  then show thesis using that eqs room by (simp add: push_free_def b'_def)
qed

text \<open>What the overflow drain does under the invariant: at most one eviction, of the oldest frame.\<close>

lemma evict_oldest_spec:
  assumes "buf_inv b out" "0 < ab_count b"
  obtains b' where "evict_oldest b = Done b'" "buf_inv b' out" "queued b' = tl (queued b)"
    "ab_pool b' = ab_pool b" "ab_data_ready b' = ab_data_ready b - 1" "ab_capacity b' = ab_capacity b"
    "ab_count b' = ab_count b - 1" "free_slots b' = free_slots b @ [hd (queued b)]"
proof -
  obtain b1 where b1: "remove_oldest b = Done (hd (queued b), b1)" "buf_inv b1 (hd (queued b) # out)"
      "queued b1 = tl (queued b)" "free_slots b1 = free_slots b" "ab_pool b1 = ab_pool b"
      "ab_data_ready b1 = ab_data_ready b" "ab_capacity b1 = ab_capacity b" "ab_count b1 = ab_count b - 1"
    by (rule remove_oldest_spec [OF assms])
  obtain b2 where b2: "push_free b1 (hd (queued b)) = Done b2" "buf_inv b2 out" "queued b2 = queued b1"
      "free_slots b2 = free_slots b1 @ [hd (queued b)]" "ab_pool b2 = ab_pool b1"
      "ab_data_ready b2 = ab_data_ready b1" "ab_capacity b2 = ab_capacity b1" "ab_count b2 = ab_count b1"
    by (rule push_free_spec [OF b1(2)])
  define b' where "b' = b2\<lparr>ab_data_ready := snd (sem_take (ab_data_ready b2))\<rparr>"
  have same: "buf_inv b' out = buf_inv b2 out" "queued b' = queued b2" "free_slots b' = free_slots b2"
    by (simp_all add: b'_def buf_defs queued_def free_slots_def)
  show thesis
    by (rule that [of b']) (use b1 b2 same in \<open>simp_all add: evict_oldest_def b'_def sem_take_def\<close>)
qed

definition overfull :: "audio_buffer \<Rightarrow> bool" where
  "overfull b \<longleftrightarrow> ab_count b = ab_capacity b"

lemma drain_overflow_spec:
  assumes "buf_inv b out"
  obtains b' stats' where "drain_overflow b stats = Done (b', stats')" "buf_inv b' out"
    "queued b' = (if overfull b then tl (queued b) else queued b)" "ab_pool b' = ab_pool b"
    "ab_data_ready b' = (if overfull b then ab_data_ready b - 1 else ab_data_ready b)"
    "ab_capacity b' = ab_capacity b" "ab_count b' < ab_capacity b"
    "stats' = (if overfull b then count_drop stats else stats)"
    "free_slots b' = (if overfull b then free_slots b @ [hd (queued b)] else free_slots b)"
proof (cases "overfull b")
  case True
  then have pos: "0 < ab_count b" using assms by (auto simp: overfull_def buf_defs)
  obtain b' where "evict_oldest b = Done b'" "buf_inv b' out" "queued b' = tl (queued b)"
      "ab_pool b' = ab_pool b" "ab_data_ready b' = ab_data_ready b - 1" "ab_capacity b' = ab_capacity b"
      "ab_count b' = ab_count b - 1" "free_slots b' = free_slots b @ [hd (queued b)]"
    by (rule evict_oldest_spec [OF assms pos])
  moreover from this True pos have "drain_overflow b stats = Done (b', count_drop stats)"
    by (auto simp: drain_overflow.simps [of b] drain_overflow.simps [of b'] overfull_def)
  ultimately show thesis using True pos by (intro that [of b']) (auto simp: overfull_def)
next
  case False
  moreover have "ab_count b \<le> ab_capacity b" using assms by (simp add: buf_defs)
  ultimately show thesis
    by (intro that [of b stats]) (auto simp: overfull_def assms drain_overflow.simps [of b])
qed

section \<open>Timestamps and binary search\<close>

text \<open>
  RTP timestamps wrap around. Within a window of half the range behind a base, the signed
  difference of two timestamps is the difference of their ages.
\<close>

definition age :: "u32 \<Rightarrow> u32 \<Rightarrow> nat" where
  "age base t = unat (t - base)"

definition in_window :: "u32 \<Rightarrow> u32 \<Rightarrow> bool" where
  "in_window base t \<longleftrightarrow> age base t < 2 ^ 31"

lemma ts_cmp_age:
  assumes "in_window base t" "in_window base u"
  shows "ts_cmp t u = int (age base t) - int (age base u)"
proof -
  have "t - u = (t - base) - (u - base)" by simp
  also have "\<dots> = word_of_int (uint (t - base) - uint (u - base))"
    by (metis word_of_int_uint wi_hom_sub)
  finally have "sint (t - u) = sint (word_of_int (uint (t - base) - uint (u - base)) :: u32)"
    by (rule arg_cong)
  then have "ts_cmp t u = signed_take_bit 31 (uint (t - base) - uint (u - base))"
    unfolding ts_cmp_def signed_of_int by simp
  moreover have "uint (t - base) = int (age base t)" "uint (u - base) = int (age base u)"
    by (simp_all add: age_def)
  ultimately have "ts_cmp t u = signed_take_bit 31 (int (age base t) - int (age base u))" by simp
  also have "\<dots> = int (age base t) - int (age base u)"
    using assms unfolding in_window_def by (intro signed_take_bit_int_eq_self) simp_all
  finally show ?thesis .
qed

text \<open>
  The binary search always ends inside the searched range, and if the frames before the
  timestamp form a prefix of the queue it ends at the end of that prefix.
\<close>

definition frame_before :: "audio_buffer \<Rightarrow> u32 \<Rightarrow> nat \<Rightarrow> bool" where
  "frame_before b ts slot \<longleftrightarrow> ts_cmp (rtp_timestamp (ab_pool b ! slot)) ts < 0"

lemma insert_pos_loop_correct:
  assumes "\<And>i. i < n \<Longrightarrow> i < length (ab_sorted b) \<and> ab_sorted b ! i < length (ab_pool b)"
    and closed_def: "closed = (\<forall>i j. i \<le> j \<longrightarrow> j < n \<longrightarrow> frame_before b ts (ab_sorted b ! j)
           \<longrightarrow> frame_before b ts (ab_sorted b ! i))"
    and "lo \<le> hi" "hi \<le> n"
  shows "\<exists>pos. insert_pos_loop b ts lo hi = Done pos \<and> lo \<le> pos \<and> pos \<le> hi \<and>
    (closed \<longrightarrow>
     (\<forall>i. lo \<le> i \<and> i < pos \<longrightarrow> frame_before b ts (ab_sorted b ! i)) \<and>
     (\<forall>i. pos \<le> i \<and> i < hi \<longrightarrow> \<not> frame_before b ts (ab_sorted b ! i)))"
  using assms(3,4)
proof (induction "hi - lo" arbitrary: lo hi rule: less_induct)
  case less
  show ?case
  proof (cases "lo < hi")
    case False
    with less.prems have "lo = hi" by simp
    then show ?thesis by (intro exI [of _ lo]) (auto simp: insert_pos_loop.simps [of b ts hi hi])
  next
    case True
    define mid where "mid = lo + (hi - lo) div 2"
    have mid: "lo \<le> mid" "mid < hi" using True by (auto simp: mid_def)
    have step: "insert_pos_loop b ts lo hi =
        (if frame_before b ts (ab_sorted b ! mid) then insert_pos_loop b ts (mid + 1) hi else insert_pos_loop b ts lo mid)"
      using assms(1) [of mid] mid less.prems True
      by (simp add: insert_pos_loop.simps [of b ts lo hi] mid_def [symmetric] slot_timestamp_def frame_before_def)
    show ?thesis
    proof (cases "frame_before b ts (ab_sorted b ! mid)")
      case yes: True
      obtain pos where pos: "insert_pos_loop b ts (mid + 1) hi = Done pos" "mid + 1 \<le> pos" "pos \<le> hi"
        and split: "closed \<Longrightarrow> (\<forall>i. mid + 1 \<le> i \<and> i < pos \<longrightarrow> frame_before b ts (ab_sorted b ! i)) \<and>
          (\<forall>i. pos \<le> i \<and> i < hi \<longrightarrow> \<not> frame_before b ts (ab_sorted b ! i))"
        using less.hyps [of hi "mid + 1"] mid less.prems diff_less_mono2 [of lo "mid + 1" hi] by auto
      have "frame_before b ts (ab_sorted b ! i)" if closed "i < pos" for i
      proof (cases "i \<le> mid")
        case True
        with that yes mid less.prems show ?thesis unfolding closed_def by (meson order.strict_trans2)
      qed (use that split in auto)
      with pos mid split show ?thesis unfolding step by (intro exI [of _ pos]) (simp add: yes)
    next
      case no: False
      obtain pos where pos: "insert_pos_loop b ts lo mid = Done pos" "lo \<le> pos" "pos \<le> mid"
        and split: "closed \<Longrightarrow> (\<forall>i. lo \<le> i \<and> i < pos \<longrightarrow> frame_before b ts (ab_sorted b ! i)) \<and>
          (\<forall>i. pos \<le> i \<and> i < mid \<longrightarrow> \<not> frame_before b ts (ab_sorted b ! i))"
        using less.hyps [of mid lo] mid less.prems diff_less_mono [of mid hi lo] by auto
      have "\<not> frame_before b ts (ab_sorted b ! i)" if closed "pos \<le> i" "i < hi" for i
      proof (cases "i < mid")
        case False
        with that no mid less.prems show ?thesis unfolding closed_def by (meson not_less order.strict_trans2)
      qed (use that split in auto)
      with pos mid split show ?thesis unfolding step by (intro exI [of _ pos]) (simp add: no)
    qed
  qed
qed

lemma sorted_insert_pos_spec:
  assumes "buf_inv b out"
  obtains pos where "sorted_insert_pos b ts = Done pos" "pos \<le> ab_count b"
    "sorted_wrt (\<lambda>s t. frame_before b ts t \<longrightarrow> frame_before b ts s) (queued b) \<Longrightarrow>
       pos = length (takeWhile (frame_before b ts) (queued b))"
proof -
  have arr: "i < length (ab_sorted b) \<and> ab_sorted b ! i < length (ab_pool b)" if "i < ab_count b" for i
  proof -
    have "queued b ! i = ab_sorted b ! i" "queued b ! i \<in> set (queued b)"
      using assms that by (auto simp: queued_def buf_inv_def shape_ok_def in_set_conv_nth)
    then show ?thesis
      using assms that queued_slot_bound [OF assms, of "queued b ! i"] by (simp add: buf_inv_def shape_ok_def)
  qed
  obtain pos where pos: "sorted_insert_pos b ts = Done pos" "pos \<le> ab_count b"
    and split: "(\<forall>i j. i \<le> j \<longrightarrow> j < ab_count b \<longrightarrow> frame_before b ts (ab_sorted b ! j) \<longrightarrow>
          frame_before b ts (ab_sorted b ! i)) \<longrightarrow>
        (\<forall>i. i < pos \<longrightarrow> frame_before b ts (ab_sorted b ! i)) \<and>
        (\<forall>i. pos \<le> i \<and> i < ab_count b \<longrightarrow> \<not> frame_before b ts (ab_sorted b ! i))"
    using insert_pos_loop_correct [where n = "ab_count b" and ts = ts, OF arr refl le0 order.refl]
    by (simp add: sorted_insert_pos_def) blast
  have "pos = length (takeWhile (frame_before b ts) (queued b))"
    if srt: "sorted_wrt (\<lambda>s t. frame_before b ts t \<longrightarrow> frame_before b ts s) (queued b)"
  proof -
    have nth: "queued b ! i = ab_sorted b ! i" if "i < ab_count b" for i using that by (simp add: queued_def)
    have len: "length (queued b) = ab_count b" using assms by simp
    have "frame_before b ts (ab_sorted b ! i)" if "i \<le> j" "j < ab_count b" "frame_before b ts (ab_sorted b ! j)" for i j
    proof (cases "i = j")
      case False
      with that have "i < j" by simp
      with srt that(2) len have "frame_before b ts (queued b ! j) \<longrightarrow> frame_before b ts (queued b ! i)"
        by (simp add: sorted_wrt_iff_nth_less)
      with that nth \<open>i < j\<close> show ?thesis by simp
    qed (use that in simp)
    with split have "\<forall>i < pos. frame_before b ts (queued b ! i)"
        "\<forall>i. pos \<le> i \<and> i < ab_count b \<longrightarrow> \<not> frame_before b ts (queued b ! i)"
      using nth pos(2) by auto
    then have "takeWhile (frame_before b ts) (queued b) = take pos (queued b)"
      using pos(2) len by (intro takeWhile_eq_take_P_nth) auto
    then show ?thesis using pos(2) len by simp
  qed
  with pos show thesis by (rule that)
qed

lemma insert_sorted_slot_spec:
  assumes inv: "buf_inv b (slot # out)" and pos: "pos \<le> ab_count b"
    and n: "n = unat (samples_per_channel (ab_pool b ! slot))"
  obtains b1 where "insert_sorted_slot b slot pos = Done b1" "ab_capacity b1 = ab_capacity b"
    "ab_data_ready b1 = ab_data_ready b" "ab_pool b1 = ab_pool b" "ab_sample_count b1 = ab_sample_count b"
    "buf_inv (b1\<lparr>ab_sample_count := ab_sample_count b1 + n\<rparr>) out"
    "queued (b1\<lparr>ab_sample_count := ab_sample_count b1 + n\<rparr>)
       = take pos (queued b) @ slot # drop pos (queued b)"
proof -
  have room: "ab_count b < length (ab_sorted b)"
    using slots_count [OF inv] inv by (simp add: buf_inv_def shape_ok_def)
  obtain arr where arr: "(if pos < ab_count b then memmove (ab_sorted b) (pos + 1) pos (ab_count b - pos)
        else Done (ab_sorted b)) = Done arr" "length arr = length (ab_sorted b)"
      "take (Suc (ab_count b)) (arr[pos := slot]) = take pos (queued b) @ slot # drop pos (queued b)"
  proof (cases "pos < ab_count b")
    case True
    then show thesis
      using memmove_gap [of pos "ab_count b" "ab_sorted b" slot] room that
      by (auto simp: queued_def min_def)
  next
    case False
    with pos have "pos = ab_count b" by simp
    then show thesis using room that [of "ab_sorted b"]
      by (simp add: queued_def take_Suc_conv_app_nth)
  qed
  define b1 where "b1 = b\<lparr>ab_sorted := arr[pos := slot], ab_count := ab_count b + 1\<rparr>"
  define b2 where "b2 = b1\<lparr>ab_sample_count := ab_sample_count b1 + n\<rparr>"
  have q: "queued b2 = take pos (queued b) @ slot # drop pos (queued b)" "free_slots b2 = free_slots b"
    using arr(3) by (simp_all add: b2_def b1_def queued_def free_slots_def)
  obtain xs ys where xy: "queued b = xs @ ys" "queued b2 = xs @ slot # ys"
    using q(1) append_take_drop_id [of pos "queued b"] by metis
  have "buf_inv b2 out"
    using inv room arr(2) n unfolding buf_inv_def slots_ok_def frames_ok_def xy q(2)
    by (auto simp: shape_ok_def b2_def b1_def)
  moreover have "insert_sorted_slot b slot pos = Done b1"
    using arr(1,2) pos room by (simp add: insert_sorted_slot_def b1_def)
  ultimately show thesis
    using that [of b1] q(1) by (simp add: b2_def b1_def)
qed

section \<open>Queueing as insertion into a list of frames\<close>

text \<open>
  The abstract queue is the list of frames in playing order; a frame is its timestamp,
  its samples per channel, its channels and its PCM samples.
\<close>

type_synonym frame = "u32 \<times> nat \<times> nat \<times> u16 list"

definition frame_view :: "audio_frame \<Rightarrow> frame" where
  "frame_view f = (rtp_timestamp f, unat (samples_per_channel f), unat (hdr_channels f),
     take (unat (samples_per_channel f) * unat (hdr_channels f)) (pcm_area f))"

definition frames :: "audio_buffer \<Rightarrow> frame list" where
  "frames b = map (\<lambda>s. frame_view (ab_pool b ! s)) (queued b)"

definition frame_insert :: "frame \<Rightarrow> frame list \<Rightarrow> frame list" where
  "frame_insert f fs = takeWhile (\<lambda>g. ts_cmp (fst g) (fst f) < 0) fs @ f # dropWhile (\<lambda>g. ts_cmp (fst g) (fst f) < 0) fs"

definition in_order :: "u32 \<Rightarrow> frame list \<Rightarrow> bool" where
  "in_order base fs \<longleftrightarrow> list_all (\<lambda>f. in_window base (fst f)) fs \<and> sorted (map (\<lambda>f. age base (fst f)) fs)"

definition ordered :: "u32 \<Rightarrow> audio_buffer \<Rightarrow> bool" where
  "ordered base b \<longleftrightarrow> in_order base (frames b)"

definition chunk_ok :: "u16 list \<Rightarrow> nat \<Rightarrow> int \<Rightarrow> bool" where
  "chunk_ok pcm samples channels \<longleftrightarrow> 0 < samples \<and> 1 \<le> channels \<and> channels \<le> 2
     \<and> samples * nat channels \<le> 704 \<and> samples * nat channels \<le> length pcm"

lemma build_frame_spec:
  assumes "chunk_ok pcm samples channels" "length (pcm_area old) = 704"
  obtains f where "build_frame old ts samples channels pcm = Done f" "frame_ok f" "length (pcm_area f) = 704"
    "frame_view f = (ts, samples, nat channels, take (samples * nat channels) pcm)"
    "unat (samples_per_channel f) = samples" "rtp_timestamp f = ts"
proof -
  have ch: "channels = 1 \<or> channels = 2" using assms(1) by (auto simp: chunk_ok_def)
  have small: "samples \<le> 704" using assms(1) ch by (auto simp: chunk_ok_def)
  then have eqs: "unat (of_nat samples :: u16) = samples" "unat (of_int channels :: u8) = nat channels"
    using ch by (auto simp: unat_of_nat take_bit_nat_eq_self_iff)
  show thesis
    using assms ch eqs
    by (intro that [of "\<lparr>rtp_timestamp = ts, samples_per_channel = of_nat samples, hdr_channels = of_int channels,
          pcm_area = take (samples * nat channels) pcm @ drop (samples * nat channels) (pcm_area old)\<rparr>"])
      (auto simp: build_frame_def chunk_ok_def frame_ok_def frame_view_def Let_def min_def)
qed

lemma frames_same_pool:
  "queued b' = queued b \<Longrightarrow> (\<And>s. s \<in> set (queued b) \<Longrightarrow> ab_pool b' ! s = ab_pool b ! s) \<Longrightarrow> frames b' = frames b"
  by (auto simp: frames_def)

lemma ordered_closed:
  assumes "ordered base b" "in_window base ts"
  shows "sorted_wrt (\<lambda>s t. frame_before b ts t \<longrightarrow> frame_before b ts s) (queued b)"
proof -
  have "sorted_wrt (\<lambda>s t. age base (rtp_timestamp (ab_pool b ! s)) \<le> age base (rtp_timestamp (ab_pool b ! t))) (queued b)"
    using assms(1) by (simp add: ordered_def in_order_def frames_def frame_view_def sorted_map sorted_wrt_map o_def)
  then show ?thesis
  proof (rule sorted_wrt_mono_rel [rotated])
    fix s t assume mem: "s \<in> set (queued b)" "t \<in> set (queued b)"
      and le: "age base (rtp_timestamp (ab_pool b ! s)) \<le> age base (rtp_timestamp (ab_pool b ! t))"
    from mem assms(1) have "in_window base (rtp_timestamp (ab_pool b ! s))" "in_window base (rtp_timestamp (ab_pool b ! t))"
      by (auto simp: ordered_def in_order_def frames_def frame_view_def list_all_iff)
    with le assms(2) show "frame_before b ts t \<longrightarrow> frame_before b ts s"
      by (auto simp: frame_before_def ts_cmp_age [of base])
  qed
qed


text \<open>Popping a free slot and writing a frame into it makes the slot one that is held.\<close>

lemma top_free_slot:
  assumes "buf_inv b out" "0 < ab_free_top b" "slot = ab_free_stack b ! (ab_free_top b - 1)"
  shows "ab_free_top b - 1 < length (ab_free_stack b)" "slot < length (ab_pool b)"
    "length (pcm_area (ab_pool b ! slot)) = 704"
proof -
  show lt: "ab_free_top b - 1 < length (ab_free_stack b)" using assms by (auto simp: buf_inv_def shape_ok_def)
  then have "slot \<in> set (free_slots b)" using assms(2,3) by (auto simp: free_slots_def in_set_conv_nth intro: exI [of _ "ab_free_top b - 1"])
  then show lt2: "slot < length (ab_pool b)"
    using queued_slot_bound [OF assms(1), of slot] assms(1) by (simp add: buf_inv_def shape_ok_def)
  then have "ab_pool b ! slot \<in> set (ab_pool b)" by simp
  then show "length (pcm_area (ab_pool b ! slot)) = 704" using assms(1) by (auto simp: buf_inv_def shape_ok_def)
qed

lemma write_slot_spec:
  assumes inv: "buf_inv b out" and pos: "0 < ab_free_top b"
    and f: "frame_ok f" "length (pcm_area f) = 704"
    and slot: "slot = ab_free_stack b ! (ab_free_top b - 1)"
    and b': "b' = b\<lparr>ab_free_top := ab_free_top b - 1, ab_pool := (ab_pool b)[slot := f]\<rparr>"
  shows "buf_inv b' (slot # out)" "queued b' = queued b" "slot < ab_capacity b"
    "slot \<notin> set (queued b)" "\<And>s. s \<in> set (queued b) \<union> set out \<Longrightarrow> ab_pool b' ! s = ab_pool b ! s"
proof -
  have fr: "free_slots b = free_slots b' @ [slot]"
    using pos slot top_free_slot(1) [OF inv pos slot] by (cases "ab_free_top b") (simp_all add: free_slots_def b' take_Suc_conv_app_nth)
  show q: "queued b' = queued b" by (simp add: b' queued_def)
  have part: "distinct (queued b @ (free_slots b' @ [slot]) @ out)"
      "set (queued b @ (free_slots b' @ [slot]) @ out) = {..<ab_capacity b}"
    using inv unfolding buf_inv_def slots_ok_def fr by simp_all
  then show lt: "slot < ab_capacity b" by auto
  from part show "slot \<notin> set (queued b)" by auto
  show same: "ab_pool b' ! s = ab_pool b ! s" if "s \<in> set (queued b) \<union> set out" for s
    using that part by (cases "s = slot") (auto simp: b')
  have cap: "ab_capacity b' = ab_capacity b" by (simp add: b')
  have "slots_ok b' (slot # out)"
    using part unfolding slots_ok_def q cap by auto
  moreover have "(\<Sum>s\<leftarrow>queued b. unat (samples_per_channel (ab_pool b' ! s)))
      = (\<Sum>s\<leftarrow>queued b. unat (samples_per_channel (ab_pool b ! s)))"
    using same by (intro arg_cong [where f = sum_list] map_cong) auto
  moreover have "ab_sample_count b' = ab_sample_count b" by (simp add: b')
  moreover have "shape_ok b'"
    using inv f(2) unfolding buf_inv_def
    by (auto simp: b' shape_ok_def dest: set_update_subset_insert [THEN subsetD])
  moreover have "ab_pool b' ! slot = f" using lt inv by (simp add: b' buf_inv_def shape_ok_def)
  ultimately show "buf_inv b' (slot # out)"
    using inv f(1) same unfolding buf_inv_def frames_ok_def q by auto
qed

lemma place_chunk_spec:
  assumes inv: "buf_inv b out" and ok: "chunk_ok pcm samples channels" and pos: "0 < ab_free_top b"
  obtains b' i where "place_chunk b ts pcm samples channels = Done b'" "buf_inv b' out"
    "ab_capacity b' = ab_capacity b" "\<And>s. s \<in> set out \<Longrightarrow> ab_pool b' ! s = ab_pool b ! s"
    "frames b' = take i (frames b) @ (ts, samples, nat channels, take (samples * nat channels) pcm) # drop i (frames b)"
    "\<And>base. ordered base b \<Longrightarrow> in_window base ts \<Longrightarrow> i = length (takeWhile (\<lambda>g. ts_cmp (fst g) ts < 0) (frames b))"
    "ab_data_ready b' = ab_data_ready b" "ab_count b' = ab_count b + 1"
proof -
  define slot where "slot = ab_free_stack b ! (ab_free_top b - 1)"
  note slot = top_free_slot [OF inv pos slot_def]
  obtain f where f: "build_frame (ab_pool b ! slot) ts samples channels pcm = Done f" "frame_ok f"
      "length (pcm_area f) = 704" "frame_view f = (ts, samples, nat channels, take (samples * nat channels) pcm)"
      "unat (samples_per_channel f) = samples"
    by (rule build_frame_spec [OF ok slot(3)])
  define b2 where "b2 = b\<lparr>ab_free_top := ab_free_top b - 1, ab_pool := (ab_pool b)[slot := f]\<rparr>"
  note w = write_slot_spec [OF inv pos f(2,3) slot_def b2_def]
  have fs2: "frames b2 = frames b" using w(2,5) by (intro frames_same_pool) auto
  obtain i where i: "sorted_insert_pos b2 ts = Done i" "i \<le> ab_count b2"
      "sorted_wrt (\<lambda>s t. frame_before b2 ts t \<longrightarrow> frame_before b2 ts s) (queued b2) \<Longrightarrow>
         i = length (takeWhile (frame_before b2 ts) (queued b2))"
    by (rule sorted_insert_pos_spec [OF w(1)]) blast
  have n: "samples = unat (samples_per_channel (ab_pool b2 ! slot))" using f(5) slot(2) by (simp add: b2_def)
  obtain b3 where b3: "insert_sorted_slot b2 slot i = Done b3" "ab_capacity b3 = ab_capacity b2"
      "ab_data_ready b3 = ab_data_ready b2" "ab_pool b3 = ab_pool b2"
      "buf_inv (b3\<lparr>ab_sample_count := ab_sample_count b3 + samples\<rparr>) out"
      "queued (b3\<lparr>ab_sample_count := ab_sample_count b3 + samples\<rparr>)
         = take i (queued b2) @ slot # drop i (queued b2)"
    by (rule insert_sorted_slot_spec [OF w(1) i(2) n]) blast
  let ?b' = "b3\<lparr>ab_sample_count := ab_sample_count b3 + samples\<rparr>"
  have fs: "frames ?b' = take i (frames b) @ (ts, samples, nat channels, take (samples * nat channels) pcm) # drop i (frames b)"
  proof -
    have "ab_pool b2 ! slot = f" using slot(2) by (simp add: b2_def)
    then have "frames ?b' = take i (frames b2) @ (ts, samples, nat channels, take (samples * nat channels) pcm) # drop i (frames b2)"
      using f(4) unfolding frames_def b3(6) by (simp add: b3(4) take_map drop_map)
    then show ?thesis by (simp only: fs2)
  qed
  have "i = length (takeWhile (\<lambda>g. ts_cmp (fst g) ts < 0) (frames b))" if "ordered base b" "in_window base ts" for base
  proof -
    have "ordered base b2" using that(1) by (simp add: ordered_def fs2)
    from i(3) [OF ordered_closed [OF this that(2)]] show ?thesis
      unfolding fs2 [symmetric] by (simp add: frames_def takeWhile_map o_def frame_before_def [abs_def] frame_view_def)
  qed
  moreover have "ab_pool ?b' ! s = ab_pool b ! s" if "s \<in> set out" for s
    using that w(5) by (simp add: b3(4))
  moreover have "place_chunk b ts pcm samples channels = Done ?b'"
    using slot f(1) i(1) b3(1-3) unfolding slot_def b2_def by (simp add: place_chunk_def Let_def)
  ultimately show thesis
    using that [of ?b' i] fs b3(2,3,5,6) queued_length [OF b3(5)] queued_length [OF w(1)] i(2)
    by (simp add: b2_def)
qed

lemma queue_locked_spec:
  assumes inv: "buf_inv b out" and ok: "chunk_ok pcm samples channels"
    and room: "0 < ab_free_top b \<or> overfull b"
  obtains b' stats' i where "queue_locked b stats ts pcm samples channels = Done (True, b', stats')"
    "buf_inv b' out" "ab_capacity b' = ab_capacity b" "\<And>s. s \<in> set out \<Longrightarrow> ab_pool b' ! s = ab_pool b ! s"
    "frames b' = (let fs = if overfull b then tl (frames b) else frames b in
       take i fs @ (ts, samples, nat channels, take (samples * nat channels) pcm) # drop i fs)"
    "\<And>base. ordered base b \<Longrightarrow> in_window base ts \<Longrightarrow>
       i = length (takeWhile (\<lambda>g. ts_cmp (fst g) ts < 0) (if overfull b then tl (frames b) else frames b))"
    "ab_data_ready b' = (if overfull b then ab_data_ready b - 1 else ab_data_ready b)"
    "ab_count b' = (if overfull b then ab_count b else ab_count b + 1)"
proof -
  obtain b1 stats1 where b1: "drain_overflow b stats = Done (b1, stats1)" "buf_inv b1 out"
      "queued b1 = (if overfull b then tl (queued b) else queued b)" "ab_pool b1 = ab_pool b"
      "ab_data_ready b1 = (if overfull b then ab_data_ready b - 1 else ab_data_ready b)"
      "ab_capacity b1 = ab_capacity b"
      "free_slots b1 = (if overfull b then free_slots b @ [hd (queued b)] else free_slots b)"
    by (rule drain_overflow_spec [OF inv]) blast
  have fs1: "frames b1 = (if overfull b then tl (frames b) else frames b)"
    using b1(3,4) by (simp add: frames_def map_tl)
  have n1: "ab_count b1 + 1 = (if overfull b then ab_count b else ab_count b + 1)"
    using arg_cong [OF b1(3), of length] queued_length [OF b1(2)] queued_length [OF inv] inv
    by (auto simp: overfull_def buf_inv_def shape_ok_def)
  have ord: "ordered base b1" if "ordered base b" for base
    using that unfolding ordered_def in_order_def fs1 by (cases "frames b") auto
  have "free_slots b1 \<noteq> []"
    using b1(7) room inv by (auto simp: free_slots_def buf_inv_def shape_ok_def)
  then have pos: "0 < ab_free_top b1" by (auto simp: free_slots_def)
  obtain b' i where b': "place_chunk b1 ts pcm samples channels = Done b'" "buf_inv b' out"
      "ab_capacity b' = ab_capacity b1" "\<And>s. s \<in> set out \<Longrightarrow> ab_pool b' ! s = ab_pool b1 ! s"
      "frames b' = take i (frames b1) @ (ts, samples, nat channels, take (samples * nat channels) pcm) # drop i (frames b1)"
      "\<And>base. ordered base b1 \<Longrightarrow> in_window base ts \<Longrightarrow> i = length (takeWhile (\<lambda>g. ts_cmp (fst g) ts < 0) (frames b1))"
      "ab_data_ready b' = ab_data_ready b1" "ab_count b' = ab_count b1 + 1"
    by (rule place_chunk_spec [OF b1(2) ok pos]) blast
  have "queue_locked b stats ts pcm samples channels = Done (True, b', stats1)"
    using b1(1) b'(1) pos by (simp add: queue_locked_def)
  moreover have "i = length (takeWhile (\<lambda>g. ts_cmp (fst g) ts < 0) (frames b1))"
    if "ordered base b" "in_window base ts" for base
    using b'(6) ord that by blast
  ultimately show thesis
    using that [of b' _ i] b'(2-5,7,8) fs1 b1(4-6) n1 by (simp add: Let_def)
qed

text \<open>The argument checks pass exactly for a chunk that fits a slot.\<close>

lemma queue_chunk_locked:
  assumes inv: "buf_inv b out" and ok: "chunk_ok pcm samples channels"
  shows "audio_buffer_queue_chunk b stats ts pcm samples channels =
    cbind (queue_locked b stats ts pcm samples channels) (\<lambda>(ok, b, stats).
      if \<not> ok then Done (False, b, count_drop stats)
      else Done (True, signal_consumer b, stats\<lparr>st_packets_decoded := st_packets_decoded stats + 1\<rparr>))"
proof -
  have "size_t (samples * nat channels * 2) \<le> ab_slot_size b - FRAME_HEADER_SIZE"
    using ok inv by (intro order.trans [OF size_t_le]) (simp add: chunk_ok_def buf_inv_def shape_ok_def audio_consts)
  moreover have "channels = 1 \<or> channels = 2" using ok by (auto simp: chunk_ok_def)
  then have "samples \<le> 704" using ok by (auto simp: chunk_ok_def)
  ultimately show ?thesis
    using ok by (simp add: audio_buffer_queue_chunk_def Let_def chunk_ok_def AUDIO_MAX_CHANNELS_def not_less)
qed

lemma sem_update_inv [simp]:
  "buf_inv (b\<lparr>ab_data_ready := d\<rparr>) out = buf_inv b out" "queued (b\<lparr>ab_data_ready := d\<rparr>) = queued b"
  "frames (b\<lparr>ab_data_ready := d\<rparr>) = frames b"
  by (simp_all add: buf_defs queued_def free_slots_def frames_def)

lemma signal_consumer_simps [simp]:
  "buf_inv (signal_consumer b) out = buf_inv b out" "frames (signal_consumer b) = frames b"
  "ab_capacity (signal_consumer b) = ab_capacity b" "ab_pool (signal_consumer b) = ab_pool b"
  "ab_data_ready (signal_consumer b) = sem_give (ab_capacity b) (ab_data_ready b)"
  "ab_count (signal_consumer b) = ab_count b"
  by (simp_all add: signal_consumer_def)

lemma queue_chunk_spec:
  assumes inv: "buf_inv b out" and ok: "chunk_ok pcm samples channels"
    and room: "0 < ab_free_top b \<or> overfull b"
  obtains b' stats' i where "audio_buffer_queue_chunk b stats ts pcm samples channels = Done (True, b', stats')"
    "buf_inv b' out" "ab_capacity b' = ab_capacity b" "\<And>s. s \<in> set out \<Longrightarrow> ab_pool b' ! s = ab_pool b ! s"
    "frames b' = (let fs = if overfull b then tl (frames b) else frames b in
       take i fs @ (ts, samples, nat channels, take (samples * nat channels) pcm) # drop i fs)"
    "\<And>base. ordered base b \<Longrightarrow> in_window base ts \<Longrightarrow>
       i = length (takeWhile (\<lambda>g. ts_cmp (fst g) ts < 0) (if overfull b then tl (frames b) else frames b))"
    "ab_data_ready b' = sem_give (ab_capacity b) (if overfull b then ab_data_ready b - 1 else ab_data_ready b)"
  by (rule queue_locked_spec [OF assms, of stats ts])
    (auto simp: queue_chunk_locked [OF inv ok] intro: that)

section \<open>Every operation under the invariant\<close>

lemma pool_nonempty: "buf_inv b out \<Longrightarrow> ab_pool b \<noteq> []"
  by (auto simp: buf_inv_def shape_ok_def)

lemma queue_chunk_refused:
  assumes "\<not> (0 < samples \<and> 1 \<le> channels \<and> channels \<le> 2 \<and> samples * nat channels \<le> 704)" "buf_inv b out"
  shows "audio_buffer_queue_chunk b stats ts pcm samples channels = Done (False, b, stats)"
proof (cases "0 < samples \<and> 1 \<le> channels \<and> channels \<le> 2 \<and> samples \<le> 65535")
  case True
  then have ch: "channels = 1 \<or> channels = 2" by auto
  then have "samples * nat channels * 2 < 2 ^ 32" using True by auto
  then have "size_t (samples * nat channels * 2) = samples * nat channels * 2" by (rule size_t_small)
  moreover have "ab_slot_size b - FRAME_HEADER_SIZE = 1408" using assms(2) by (simp add: buf_inv_def shape_ok_def audio_consts)
  ultimately show ?thesis
    using assms(1) True by (auto simp: audio_buffer_queue_chunk_def Let_def AUDIO_MAX_CHANNELS_def)
next
  case False
  then show ?thesis
    by (auto simp: audio_buffer_queue_chunk_def Let_def AUDIO_MAX_CHANNELS_def)
qed

lemma queue_chunk_no_slot:
  assumes "buf_inv b out" "chunk_ok pcm samples channels" "ab_free_top b = 0" "\<not> overfull b"
  shows "audio_buffer_queue_chunk b stats ts pcm samples channels = Done (False, b, count_drop stats)"
proof -
  have "drain_overflow b stats = Done (b, stats)"
    using assms(1,4) by (simp add: drain_overflow.simps [of b] overfull_def buf_inv_def shape_ok_def)
  then show ?thesis
    using assms(3) by (simp add: queue_chunk_locked [OF assms(1,2)] queue_locked_def)
qed

text \<open>Every call keeps the invariant and leaves the slots the consumer holds untouched.\<close>

lemma queue_chunk_inv:
  assumes "buf_inv b out" "samples * nat channels \<le> length pcm"
  obtains ok b' stats' where "audio_buffer_queue_chunk b stats ts pcm samples channels = Done (ok, b', stats')"
    "buf_inv b' out" "ab_capacity b' = ab_capacity b" "\<forall>s \<in> set out. ab_pool b' ! s = ab_pool b ! s"
proof (cases "chunk_ok pcm samples channels")
  case False
  with assms(2) have "\<not> (0 < samples \<and> 1 \<le> channels \<and> channels \<le> 2 \<and> samples * nat channels \<le> 704)"
    by (simp add: chunk_ok_def)
  from queue_chunk_refused [OF this assms(1)] assms(1) show thesis by (intro that) auto
next
  case ok: True
  show thesis
  proof (cases "0 < ab_free_top b \<or> overfull b")
    case True
    show thesis by (rule queue_chunk_spec [OF assms(1) ok True]) (use that in blast)
  next
    case False
    with queue_chunk_no_slot [OF assms(1) ok] assms(1) show thesis by (intro that) auto
  qed
qed

lemma queue_decoded_loop_inv:
  assumes "buf_inv b out" "samples * nat channels \<le> length pcm"
  shows "\<exists>ok b' stats'. queue_decoded_loop b stats ts pcm samples channels offset = Done (ok, b', stats')
     \<and> buf_inv b' out \<and> (\<forall>s \<in> set out. ab_pool b' ! s = ab_pool b ! s)"
  using assms(1)
proof (induction "samples - offset" arbitrary: b stats ts offset rule: less_induct)
  case less
  show ?case
  proof (cases "offset < samples")
    case False
    with less.prems show ?thesis by (auto simp: queue_decoded_loop.simps [of b])
  next
    case True
    define n where "n = min (samples - offset) AAC_FRAMES_PER_PACKET"
    have n: "0 < n" "n \<le> samples - offset" using True by (auto simp: n_def AAC_FRAMES_PER_PACKET_def)
    then have "(offset + n) * nat channels \<le> samples * nat channels" by (intro mult_le_mono1) simp
    then have len: "n * nat channels \<le> length (drop (offset * nat channels) pcm)"
      using assms(2) by (simp add: add_mult_distrib)
    obtain ok b1 stats1 where c: "audio_buffer_queue_chunk b stats ts (drop (offset * nat channels) pcm) n channels
          = Done (ok, b1, stats1)" "buf_inv b1 out" "\<forall>s \<in> set out. ab_pool b1 ! s = ab_pool b ! s"
      by (rule queue_chunk_inv [OF less.prems len]) blast
    show ?thesis
    proof (cases ok)
      case True
      have "samples - (offset + n) < samples - offset" using n by simp
      from less.hyps [OF this c(2), of stats1 "ts + of_nat n"] c True \<open>offset < samples\<close>
      show ?thesis by (auto simp: queue_decoded_loop.simps [of b] n_def [symmetric])
    next
      case False
      with c \<open>offset < samples\<close> show ?thesis by (auto simp: queue_decoded_loop.simps [of b] n_def [symmetric])
    qed
  qed
qed

lemma queue_decoded_inv:
  assumes "buf_inv b out" "samples * nat (if channels \<le> 0 then 2 else channels) \<le> length pcm"
  shows "\<exists>ok b' stats'. audio_buffer_queue_decoded b stats ts pcm samples channels = Done (ok, b', stats')
     \<and> buf_inv b' out \<and> (\<forall>s \<in> set out. ab_pool b' ! s = ab_pool b ! s)"
  using queue_decoded_loop_inv [OF assms, of stats ts 0] assms(1)
  by (auto simp: audio_buffer_queue_decoded_def Let_def)

lemma flush_loop_spec:
  assumes "\<forall>i \<in> set is. i < length (ab_sorted b)" "ab_free_top b + length is \<le> length (ab_free_stack b)"
  shows "\<exists>st. flush_loop b is = Done (b\<lparr>ab_free_stack := st, ab_free_top := ab_free_top b + length is\<rparr>)
     \<and> length st = length (ab_free_stack b)
     \<and> take (ab_free_top b + length is) st = free_slots b @ map ((!) (ab_sorted b)) is"
  using assms
proof (induction "is" arbitrary: b)
  case Nil
  then show ?case by (auto simp: free_slots_def intro!: exI [of _ "ab_free_stack b"])
next
  case (Cons i "is")
  define b1 where "b1 = b\<lparr>ab_free_stack := (ab_free_stack b)[ab_free_top b := ab_sorted b ! i], ab_free_top := ab_free_top b + 1\<rparr>"
  have "flush_loop b (i # is) = flush_loop b1 is" using Cons.prems by (simp add: push_free_def b1_def)
  moreover have "free_slots b1 = free_slots b @ [ab_sorted b ! i]"
    using Cons.prems by (simp add: b1_def free_slots_def take_Suc_conv_app_nth)
  ultimately show ?case
    using Cons.IH [of b1] Cons.prems by (auto simp: b1_def)
qed

lemma flush_locked_spec:
  assumes inv: "buf_inv b out"
  obtains b' where "flush_locked b = Done b'" "buf_inv b' out" "frames b' = []" "ab_data_ready b' = ab_data_ready b"
    "ab_pool b' = ab_pool b" "ab_capacity b' = ab_capacity b" "ab_count b' = 0"
proof -
  have shape: "shape_ok b" using inv by (simp add: buf_inv_def)
  then have "\<forall>i \<in> set [0..<ab_count b]. i < length (ab_sorted b)" by (auto simp: shape_ok_def)
  moreover have "ab_free_top b + length [0..<ab_count b] \<le> length (ab_free_stack b)"
    using slots_count [OF inv] shape by (simp add: shape_ok_def)
  ultimately obtain st where st: "flush_loop b [0..<ab_count b]
        = Done (b\<lparr>ab_free_stack := st, ab_free_top := ab_free_top b + ab_count b\<rparr>)"
      "length st = ab_capacity b" "take (ab_free_top b + ab_count b) st = free_slots b @ queued b"
    using flush_loop_spec [of "[0..<ab_count b]" b] shape
    by (auto simp: shape_ok_def queued_def map_nth_upt)
  define b' where "b' = b\<lparr>ab_free_stack := st, ab_free_top := ab_free_top b + ab_count b, ab_count := 0,
      ab_sample_count := 0\<rparr>"
  have q: "queued b' = []" "free_slots b' = free_slots b @ queued b"
    using st(3) by (simp_all add: b'_def queued_def free_slots_def)
  have "slots_ok b' out" using inv unfolding buf_inv_def slots_ok_def q by (auto simp: b'_def)
  moreover have "shape_ok b'" using shape st(2) slots_count [OF inv] by (auto simp: shape_ok_def b'_def)
  moreover have "frames_ok b' out" using inv unfolding buf_inv_def frames_ok_def q by (auto simp: b'_def)
  ultimately show thesis
    using st(1) q by (intro that [of b']) (simp_all add: buf_inv_def flush_locked_def b'_def frames_def)
qed

lemma flush_spec:
  assumes "buf_inv b out"
  obtains b' where "audio_buffer_flush b = Done b'" "buf_inv b' out" "frames b' = []" "ab_data_ready b' = 0"
    "ab_pool b' = ab_pool b" "ab_capacity b' = ab_capacity b" "ab_count b' = 0"
  by (rule flush_locked_spec [OF assms])
    (use pool_nonempty [OF assms] that in \<open>auto simp: audio_buffer_flush_def\<close>)

lemma take_some_spec:
  assumes inv: "buf_inv b out" and "0 < ab_data_ready b" "frames b = f # fs"
  obtains slot b' where "audio_buffer_take b = Done (Some (slot, FRAME_HEADER_SIZE + 2 * (fst (snd f) * fst (snd (snd f)))), b')"
    "buf_inv b' (slot # out)" "frames b' = fs" "frame_view (ab_pool b' ! slot) = f" "ab_pool b' = ab_pool b"
    "ab_data_ready b' = ab_data_ready b - 1" "ab_capacity b' = ab_capacity b"
proof -
  define b1 where "b1 = b\<lparr>ab_data_ready := ab_data_ready b - 1\<rparr>"
  have inv1: "buf_inv b1 out" using inv by (simp add: b1_def sem_update_inv)
  have q1: "queued b1 = queued b" by (simp add: b1_def queued_def)
  have fr1: "frames b1 = f # fs" using assms(3) by (simp add: b1_def sem_update_inv)
  then have pos: "0 < ab_count b1" using queued_length [OF inv1] by (cases "queued b1") (auto simp: frames_def)
  obtain b' where b': "remove_oldest b1 = Done (hd (queued b1), b')" "buf_inv b' (hd (queued b1) # out)"
      "queued b' = tl (queued b1)" "ab_pool b' = ab_pool b1" "ab_data_ready b' = ab_data_ready b1"
      "ab_capacity b' = ab_capacity b1"
    by (rule remove_oldest_spec [OF inv1 pos]) blast
  define slot where "slot = hd (queued b1)"
  have view: "frame_view (ab_pool b1 ! slot) = f" and fs: "frames b' = fs"
    using fr1 b'(3,4) by (cases "queued b1"; auto simp: frames_def slot_def)+
  have lt: "slot < length (ab_pool b')"
    using queued_slot_bound [OF b'(2), of slot] b'(2) by (simp add: slot_def buf_inv_def shape_ok_def)
  have size: "frame_item_size (ab_pool b' ! slot) = FRAME_HEADER_SIZE + 2 * (fst (snd f) * fst (snd (snd f)))"
    using view b'(4) by (auto simp: frame_item_size_def frame_view_def)
  have "audio_buffer_take b = Done (Some (slot, frame_item_size (ab_pool b' ! slot)), b')"
    using pool_nonempty [OF inv] assms(2) pos b'(1) lt unfolding b1_def slot_def
    by (simp add: audio_buffer_take_def take_locked_def sem_take_def Let_def)
  then show thesis
    using that [of slot b'] b' view fs size by (simp add: slot_def b1_def)
qed

lemma take_none_spec:
  assumes "buf_inv b out" "ab_data_ready b = 0 \<or> frames b = []"
  obtains b' where "audio_buffer_take b = Done (None, b')" "buf_inv b' out" "frames b' = frames b" "ab_pool b' = ab_pool b"
    "ab_capacity b' = ab_capacity b"
proof (cases "ab_data_ready b = 0")
  case True
  with assms(1) show thesis by (intro that [of b]) (auto simp: audio_buffer_take_def sem_take_def)
next
  case False
  with assms queued_length [OF assms(1)] have "ab_count b = 0" by (auto simp: frames_def)
  with False assms(1) pool_nonempty [OF assms(1)] show thesis
    by (intro that [of "b\<lparr>ab_data_ready := ab_data_ready b - 1\<rparr>"])
      (auto simp: audio_buffer_take_def take_locked_def sem_take_def)
qed

lemma return_spec:
  assumes "buf_inv b (slot # out)"
  obtains b' where "audio_buffer_return b slot = Done b'" "buf_inv b' out" "frames b' = frames b"
    "ab_pool b' = ab_pool b" "ab_data_ready b' = ab_data_ready b" "ab_capacity b' = ab_capacity b"
  by (rule push_free_spec [OF assms])
    (use pool_nonempty [OF assms] that in \<open>auto simp: audio_buffer_return_def frames_def\<close>)

lemma oldest_timestamp_spec:
  assumes "buf_inv b out"
  shows "audio_buffer_oldest_timestamp b = Done (case frames b of [] \<Rightarrow> None | f # fs \<Rightarrow> Some (fst f))"
proof (cases "queued b")
  case Nil
  with queued_length [OF assms] show ?thesis by (auto simp: audio_buffer_oldest_timestamp_def frames_def)
next
  case (Cons s q)
  then have "0 < ab_count b" using queued_length [OF assms] by auto
  from queued_hd [OF assms this] Cons have "ab_sorted b ! 0 = s" "s \<in> set (queued b)" by auto
  moreover have "0 < length (ab_sorted b)" "s < length (ab_pool b)"
    using queued_slot_bound [OF assms, of s] assms \<open>s \<in> set (queued b)\<close> by (auto simp: buf_inv_def shape_ok_def)
  ultimately show ?thesis
    using Cons \<open>0 < ab_count b\<close>
    by (auto simp: audio_buffer_oldest_timestamp_def slot_timestamp_def frames_def frame_view_def)
qed

section \<open>Reachable buffers\<close>

text \<open>
  The states the buffer goes through from a successful initialisation: \<open>out\<close> are the slots
  the consumer has taken and not returned. Frames are queued with as many samples as
  announced; only taken slots are returned.
\<close>

inductive buf_run :: "audio_buffer \<Rightarrow> nat list \<Rightarrow> bool" where
  init: "audio_buffer_init (Some p) (Some arr) (Some fr) True True = (ESP_OK, b) \<Longrightarrow>
     length p = MAX_RING_BUFFER_FRAMES \<Longrightarrow> length arr = MAX_RING_BUFFER_FRAMES \<Longrightarrow>
     length fr = MAX_RING_BUFFER_FRAMES \<Longrightarrow> \<forall>f \<in> set p. length (pcm_area f) = 704 \<Longrightarrow> buf_run b []"
| queue: "buf_run b out \<Longrightarrow> samples * nat (if channels \<le> 0 then 2 else channels) \<le> length pcm \<Longrightarrow>
     audio_buffer_queue_decoded b stats ts pcm samples channels = Done (ok, b', stats') \<Longrightarrow> buf_run b' out"
| take: "buf_run b out \<Longrightarrow> audio_buffer_take b = Done (Some (slot, n), b') \<Longrightarrow> buf_run b' (slot # out)"
| take_none: "buf_run b out \<Longrightarrow> audio_buffer_take b = Done (None, b') \<Longrightarrow> buf_run b' out"
| give_back: "buf_run b out \<Longrightarrow> slot \<in> set out \<Longrightarrow> audio_buffer_return b slot = Done b' \<Longrightarrow>
     buf_run b' (remove1 slot out)"
| flush: "buf_run b out \<Longrightarrow> audio_buffer_flush b = Done b' \<Longrightarrow> buf_run b' out"

lemma init_inv:
  assumes "audio_buffer_init (Some p) (Some arr) (Some fr) True True = (ESP_OK, b)"
    "length p = MAX_RING_BUFFER_FRAMES" "length arr = MAX_RING_BUFFER_FRAMES"
    "length fr = MAX_RING_BUFFER_FRAMES" "\<forall>f \<in> set p. length (pcm_area f) = 704"
  shows "buf_inv b []" "frames b = []"
proof -
  have b: "b = \<lparr>ab_pool = p, ab_sorted = arr, ab_free_stack = [0..<MAX_RING_BUFFER_FRAMES], ab_count = 0,
      ab_sample_count = 0, ab_free_top = MAX_RING_BUFFER_FRAMES, ab_capacity = MAX_RING_BUFFER_FRAMES,
      ab_slot_size = BYTES_PER_FRAME, ab_data_ready = 0, ab_decode_capacity = MAX_SAMPLES_PER_FRAME\<rparr>"
    using assms by (simp add: audio_buffer_init_def Let_def)
  have "shape_ok b" using assms(2-5) unfolding b shape_ok_def by (simp add: MAX_RING_BUFFER_FRAMES_def)
  moreover have "slots_ok b []" unfolding b slots_ok_def queued_def free_slots_def
    by (simp del: upt_rec_numeral add: atLeast0LessThan)
  moreover have "frames_ok b []" by (simp add: b frames_ok_def queued_def)
  ultimately show "buf_inv b []" by (simp add: buf_inv_def)
  show "frames b = []" by (simp add: b frames_def queued_def)
qed

lemma inv_held_first:
  assumes "buf_inv b out" "slot \<in> set out"
  shows "buf_inv b (slot # remove1 slot out)"
proof -
  have dist: "distinct out" using assms(1) by (simp add: buf_inv_def slots_ok_def)
  define r where "r = remove1 slot out"
  have "set out = insert slot (set r)" "slot \<notin> set r" "distinct r"
    using assms(2) dist by (auto simp: r_def)
  then show ?thesis
    using assms(1) unfolding r_def [symmetric] buf_inv_def slots_ok_def frames_ok_def by auto
qed

lemma take_cases_inv:
  assumes "buf_inv b out" "audio_buffer_take b = Done (r, b')"
  shows "buf_inv b' (case r of None \<Rightarrow> out | Some (slot, n) \<Rightarrow> slot # out)"
proof (cases "ab_data_ready b = 0 \<or> frames b = []")
  case True
  show ?thesis by (rule take_none_spec [OF assms(1) True]) (use assms(2) in auto)
next
  case False
  then obtain f fs where "0 < ab_data_ready b" "frames b = f # fs" by (cases "frames b") auto
  then show ?thesis by (rule take_some_spec [OF assms(1)]) (use assms(2) in auto)
qed

lemma buf_run_inv: "buf_run b out \<Longrightarrow> buf_inv b out"
proof (induction rule: buf_run.induct)
  case (init p arr fr b)
  then show ?case by (rule init_inv(1))
next
  case (queue b out samples channels pcm stats ts ok b' stats')
  from queue_decoded_inv [OF queue.IH queue.hyps(2), of stats ts] queue.hyps(3) show ?case by auto
next
  case (take b out slot n b')
  from take_cases_inv [OF take.IH take.hyps(2)] show ?case by simp
next
  case (take_none b out b')
  from take_cases_inv [OF take_none.IH take_none.hyps(2)] show ?case by simp
next
  case (give_back b out slot b')
  show ?case
    by (rule return_spec [OF inv_held_first [OF give_back.IH give_back.hyps(2)]]) (use give_back.hyps(3) in auto)
next
  case (flush b out b')
  show ?case by (rule flush_spec [OF flush.IH]) (use flush.hyps(2) in auto)
qed

lemma inv_no_fault:
  assumes "buf_inv b out"
  shows "audio_buffer_take b \<noteq> Fault" "audio_buffer_flush b \<noteq> Fault" "audio_buffer_oldest_timestamp b \<noteq> Fault"
    "slot \<in> set out \<Longrightarrow> audio_buffer_return b slot \<noteq> Fault"
proof -
  show "audio_buffer_take b \<noteq> Fault"
  proof (cases "ab_data_ready b = 0 \<or> frames b = []")
    case True
    show ?thesis by (rule take_none_spec [OF assms True]) auto
  next
    case False
    then obtain f fs where "0 < ab_data_ready b" "frames b = f # fs" by (cases "frames b") auto
    then show ?thesis by (rule take_some_spec [OF assms]) auto
  qed
  show "audio_buffer_flush b \<noteq> Fault" by (rule flush_spec [OF assms]) auto
  show "audio_buffer_oldest_timestamp b \<noteq> Fault" by (simp add: oldest_timestamp_spec [OF assms])
  show "audio_buffer_return b slot \<noteq> Fault" if "slot \<in> set out"
    by (rule return_spec [OF inv_held_first [OF assms that]]) auto
qed

text \<open>
  Memory safety and slot accounting of the jitter buffer over any sequence of operations.
  In every state reachable from a successful initialisation, the queued, the free and the
  taken slots are distinct and together are exactly the slots of the pool, the sample
  counter is the sum over the queued frames, and no operation (queueing any
  decoded block whose samples are there, taking, returning a taken slot, flushing, peeking)
  accesses an array out of bounds; a queued block leaves the taken frames as they are.
\<close>

theorem audio_buffer_safe:
  assumes "buf_run b out"
  shows "distinct (queued b @ free_slots b @ out) \<and> set (queued b @ free_slots b @ out) = {..<ab_capacity b}
       \<and> ab_sample_count b = sum_list (map (\<lambda>f. fst (snd f)) (frames b))
       \<and> audio_buffer_take b \<noteq> Fault \<and> audio_buffer_flush b \<noteq> Fault \<and> audio_buffer_oldest_timestamp b \<noteq> Fault
       \<and> (\<forall>slot \<in> set out. audio_buffer_return b slot \<noteq> Fault)
       \<and> (\<forall>pcm samples channels stats ts. samples * nat (if channels \<le> 0 then 2 else channels) \<le> length pcm \<longrightarrow>
            (\<exists>ok b' stats'. audio_buffer_queue_decoded b stats ts pcm samples channels = Done (ok, b', stats')
               \<and> (\<forall>slot \<in> set out. ab_pool b' ! slot = ab_pool b ! slot)))"
proof -
  have inv: "buf_inv b out" using buf_run_inv [OF assms] .
  then have "distinct (queued b @ free_slots b @ out) \<and> set (queued b @ free_slots b @ out) = {..<ab_capacity b}"
      "ab_sample_count b = sum_list (map (\<lambda>f. fst (snd f)) (frames b))"
    by (simp_all add: buf_inv_def slots_ok_def frames_ok_def frames_def frame_view_def o_def)
  then show ?thesis
    using inv_no_fault [OF inv] queue_decoded_inv [OF inv] by blast
qed

definition blank_frame :: audio_frame where
  "blank_frame = \<lparr>rtp_timestamp = 0, samples_per_channel = 0, hdr_channels = 0, pcm_area = replicate 704 0\<rparr>"

definition fresh_buffer :: audio_buffer where
  "fresh_buffer = snd (audio_buffer_init (Some (replicate MAX_RING_BUFFER_FRAMES blank_frame))
     (Some (replicate MAX_RING_BUFFER_FRAMES 0)) (Some (replicate MAX_RING_BUFFER_FRAMES 0)) True True)"

definition no_stats :: audio_stats where
  "no_stats = \<lparr>st_packets_received = 0, st_packets_decoded = 0, st_packets_dropped = 0, st_decrypt_errors = 0,
     st_buffer_underruns = 0, st_buffer_overruns = 0, st_late_frames = 0, st_last_seq = 0, st_last_timestamp = 0\<rparr>"

lemma fresh_buffer_run: "buf_run fresh_buffer []"
  by (rule buf_run.init [of "replicate MAX_RING_BUFFER_FRAMES blank_frame" "replicate MAX_RING_BUFFER_FRAMES 0"
        "replicate MAX_RING_BUFFER_FRAMES 0"])
    (simp_all add: fresh_buffer_def audio_buffer_init_def Let_def blank_frame_def)

lemma fresh_buffer_facts: "frames fresh_buffer = []" "0 < ab_free_top fresh_buffer" "\<not> overfull fresh_buffer"
  by (simp_all add: fresh_buffer_def audio_buffer_init_def Let_def frames_def queued_def overfull_def
      MAX_RING_BUFFER_FRAMES_def)

theorem audio_buffer_safe_witness:
  "\<exists>ok b' stats'. audio_buffer_queue_decoded fresh_buffer no_stats 352 (replicate 2048 7) 1024 2 = Done (ok, b', stats')"
  using audio_buffer_safe [OF fresh_buffer_run] by auto

lemma frame_insert_simps [simp]:
  "frame_insert f [] = [f]"
  "frame_insert f (g # fs) = (if ts_cmp (fst g) (fst f) < 0 then g # frame_insert f fs else f # g # fs)"
  by (simp_all add: frame_insert_def)

lemma set_frame_insert [simp]: "set (frame_insert f fs) = insert f (set fs)"
  by (induction fs) auto

lemma in_order_insert: "in_order base fs \<Longrightarrow> in_window base (fst f) \<Longrightarrow> in_order base (frame_insert f fs)"
proof (induction fs)
  case (Cons g fs)
  then show ?case
    by (auto simp: in_order_def list_all_iff ts_cmp_age [of base])
qed (simp add: in_order_def)

lemma queue_chunk_insert:
  assumes "buf_inv b out" "ordered base b" "in_window base ts" "chunk_ok pcm samples channels"
    and "0 < ab_free_top b \<or> overfull b"
  shows "\<exists>b' stats'. audio_buffer_queue_chunk b stats ts pcm samples channels = Done (True, b', stats')
     \<and> buf_inv b' out \<and> ordered base b'
     \<and> frames b' = frame_insert (ts, samples, nat channels, take (samples * nat channels) pcm)
                     (if overfull b then tl (frames b) else frames b)
     \<and> ab_capacity b' = ab_capacity b
     \<and> ab_data_ready b' = sem_give (ab_capacity b) (if overfull b then ab_data_ready b - 1 else ab_data_ready b)"
proof -
  define fs where "fs = (if overfull b then tl (frames b) else frames b)"
  let ?f = "(ts, samples, nat channels, take (samples * nat channels) pcm)"
  obtain b' stats' i where b': "audio_buffer_queue_chunk b stats ts pcm samples channels = Done (True, b', stats')"
      "buf_inv b' out" "frames b' = take i fs @ ?f # drop i fs"
      "i = length (takeWhile (\<lambda>g. ts_cmp (fst g) ts < 0) fs)" "ab_capacity b' = ab_capacity b"
      "ab_data_ready b' = sem_give (ab_capacity b) (if overfull b then ab_data_ready b - 1 else ab_data_ready b)"
    by (rule queue_chunk_spec [OF assms(1,4,5), of stats ts]) (use assms(2,3) in \<open>simp add: fs_def Let_def\<close>)
  have eq: "frames b' = frame_insert ?f fs"
    unfolding b'(3) b'(4) frame_insert_def by (simp add: takeWhile_eq_take [symmetric] dropWhile_eq_drop [symmetric])
  have "in_order base fs" using assms(2) by (cases "frames b") (auto simp: ordered_def in_order_def fs_def)
  then have "ordered base b'" using in_order_insert [of base fs ?f] assms(3) by (simp add: ordered_def eq)
  with b' eq show ?thesis by (auto simp: fs_def)
qed

text \<open>
  C6. Frames are kept in playing order across the 32-bit wrap-around of RTP timestamps. As long as the
  queued timestamps and the new one lie within half of the timestamp range behind some base,
  a chunk that fits a slot is inserted behind the frames that are earlier and before the
  others, with its samples and header, the oldest frame being evicted first if the buffer is full;
  the order is kept, and the call succeeds whenever a slot is free or the buffer is full.
\<close>

theorem queue_chunk_sorted:
  assumes "buf_inv b out" "ordered base b" "in_window base ts" "chunk_ok pcm samples channels"
    and "0 < ab_free_top b \<or> overfull b"
  shows "\<exists>b' stats'. audio_buffer_queue_chunk b stats ts pcm samples channels = Done (True, b', stats')
     \<and> buf_inv b' out \<and> ordered base b'
     \<and> frames b' = frame_insert (ts, samples, nat channels, take (samples * nat channels) pcm)
                     (if overfull b then tl (frames b) else frames b)"
  using queue_chunk_insert [OF assms] by blast

theorem queue_chunk_sorted_witness:
  "\<exists>b' stats'. audio_buffer_queue_chunk fresh_buffer no_stats 5 [1, 2, 3, 4] 2 2 = Done (True, b', stats')
     \<and> buf_inv b' [] \<and> ordered 0xFFFFFF00 b' \<and> frames b' = [(5, 2, 2, [1, 2, 3, 4])]"
  using queue_chunk_sorted [of fresh_buffer "[]" "0xFFFFFF00" 5 "[1, 2, 3, 4]" 2 2 no_stats]
    buf_run_inv [OF fresh_buffer_run] fresh_buffer_facts
  by (simp add: ordered_def in_order_def in_window_def age_def chunk_ok_def)

section \<open>Producer, consumer and flush as interleaved steps\<close>

text \<open>
  The critical sections are atomic, the semaphore operations are separate atomic steps between
  which the other tasks run: \<open>sy_give\<close> holds while the producer is between its critical section
  and its give, \<open>sy_token\<close> while the consumer is between its successful take of the semaphore
  and its critical section, \<open>sy_flush\<close> while a flush drains the semaphore.
\<close>

record sync =
  sy_buf :: audio_buffer
  sy_out :: "nat list"
  sy_give :: bool
  sy_token :: bool
  sy_flush :: bool

definition sync_start :: "audio_buffer \<Rightarrow> sync" where
  "sync_start b = \<lparr>sy_buf = b, sy_out = [], sy_give = False, sy_token = False, sy_flush = False\<rparr>"

inductive sync_step :: "sync \<Rightarrow> sync \<Rightarrow> bool" where
  queue: "\<not> sy_give s \<Longrightarrow> chunk_ok pcm samples channels \<Longrightarrow>
     queue_locked (sy_buf s) stats ts pcm samples channels = Done (ok, b', stats') \<Longrightarrow>
     sync_step s (s\<lparr>sy_buf := b', sy_give := ok\<rparr>)"
| give: "sy_give s \<Longrightarrow> sync_step s (s\<lparr>sy_buf := signal_consumer (sy_buf s), sy_give := False\<rparr>)"
| wait: "\<not> sy_token s \<Longrightarrow> sem_take (ab_data_ready (sy_buf s)) = (True, n) \<Longrightarrow>
     sync_step s (s\<lparr>sy_buf := (sy_buf s)\<lparr>ab_data_ready := n\<rparr>, sy_token := True\<rparr>)"
| pop: "sy_token s \<Longrightarrow> take_locked (sy_buf s) = Done (r, b') \<Longrightarrow>
     sync_step s (s\<lparr>sy_buf := b', sy_out := (case r of None \<Rightarrow> sy_out s | Some (slot, n) \<Rightarrow> slot # sy_out s),
                    sy_token := False\<rparr>)"
| give_back: "slot \<in> set (sy_out s) \<Longrightarrow> audio_buffer_return (sy_buf s) slot = Done b' \<Longrightarrow>
     sync_step s (s\<lparr>sy_buf := b', sy_out := remove1 slot (sy_out s)\<rparr>)"

inductive flush_step :: "sync \<Rightarrow> sync \<Rightarrow> bool" where
  clear: "\<not> sy_flush s \<Longrightarrow> flush_locked (sy_buf s) = Done b' \<Longrightarrow>
     flush_step s (s\<lparr>sy_buf := b', sy_flush := True\<rparr>)"
| drain: "sy_flush s \<Longrightarrow> sem_take (ab_data_ready (sy_buf s)) = (True, n) \<Longrightarrow>
     flush_step s (s\<lparr>sy_buf := (sy_buf s)\<lparr>ab_data_ready := n\<rparr>\<rparr>)"
| finish: "sy_flush s \<Longrightarrow> sem_take (ab_data_ready (sy_buf s)) = (False, n) \<Longrightarrow>
     flush_step s (s\<lparr>sy_flush := False\<rparr>)"

inductive_cases sync_stepE: "sync_step s s'"

text \<open>
  Without a concurrent flush, a queued frame is covered by a token, by the give the producer is about
  to make or by the token the consumer holds.
\<close>

definition sync_inv :: "sync \<Rightarrow> bool" where
  "sync_inv s \<longleftrightarrow> buf_inv (sy_buf s) (sy_out s)
     \<and> ab_count (sy_buf s) \<le> ab_data_ready (sy_buf s) + of_bool (sy_give s) + of_bool (sy_token s)"

lemma take_locked_spec:
  assumes "buf_inv b out" "take_locked b = Done (r, b')"
  shows "buf_inv b' (case r of None \<Rightarrow> out | Some (slot, n) \<Rightarrow> slot # out)"
    "ab_count b' = ab_count b - 1" "ab_data_ready b' = ab_data_ready b"
proof -
  have "buf_inv b' (case r of None \<Rightarrow> out | Some (slot, n) \<Rightarrow> slot # out) \<and> ab_count b' = ab_count b - 1
      \<and> ab_data_ready b' = ab_data_ready b"
  proof (cases "ab_count b = 0")
    case True
    with assms show ?thesis by (auto simp: take_locked_def)
  next
    case False
    show ?thesis
      by (rule remove_oldest_spec [OF assms(1)]) (use False assms(2) in \<open>auto simp: take_locked_def cbind_eq_Done\<close>)
  qed
  then show "buf_inv b' (case r of None \<Rightarrow> out | Some (slot, n) \<Rightarrow> slot # out)"
    "ab_count b' = ab_count b - 1" "ab_data_ready b' = ab_data_ready b" by simp_all
qed

lemma queue_locked_cases:
  assumes inv: "buf_inv b out" and ok: "chunk_ok pcm samples channels"
    and run: "queue_locked b stats ts pcm samples channels = Done (r, b', stats')"
    and sem: "ab_count b \<le> ab_data_ready b + n"
  shows "buf_inv b' out \<and> ab_count b' \<le> ab_data_ready b' + of_bool r + n"
proof (cases "0 < ab_free_top b \<or> overfull b")
  case True
  show ?thesis
    by (rule queue_locked_spec [OF inv ok True, of stats ts])
      (use run sem in \<open>auto split: if_splits\<close>)
next
  case False
  then have "queue_locked b stats ts pcm samples channels = Done (False, b, stats)"
    using inv by (simp add: queue_locked_def drain_overflow.simps [of b] overfull_def buf_inv_def shape_ok_def)
  with run sem inv show ?thesis by simp
qed

lemma sync_step_inv:
  assumes "sync_inv s" "sync_step s s'"
  shows "sync_inv s'"
  using assms(2)
proof (cases rule: sync_step.cases)
  case (queue pcm samples channels stats ts ok b' stats')
  with queue_locked_cases [of "sy_buf s" "sy_out s" pcm samples channels stats ts ok b' stats' "of_bool (sy_token s)"] assms(1)
  show ?thesis by (simp add: sync_inv_def)
next
  case give
  moreover have "ab_count (sy_buf s) \<le> ab_capacity (sy_buf s)" using assms(1) by (simp add: sync_inv_def buf_inv_def shape_ok_def)
  ultimately show ?thesis using assms(1) by (auto simp: sync_inv_def sem_give_def)
next
  case (wait n)
  with assms(1) show ?thesis by (auto simp: sync_inv_def sem_take_def split: if_splits)
next
  case (pop r b')
  have inv: "buf_inv (sy_buf s) (sy_out s)" using assms(1) by (simp add: sync_inv_def)
  from take_locked_spec [OF inv pop(3)] pop assms(1) show ?thesis by (auto simp: sync_inv_def)
next
  case (give_back slot b')
  have inv: "buf_inv (sy_buf s) (sy_out s)" using assms(1) by (simp add: sync_inv_def)
  show ?thesis
    by (rule push_free_spec [OF inv_held_first [OF inv give_back(2)]])
      (use give_back assms(1) pool_nonempty [OF inv] in \<open>auto simp: sync_inv_def audio_buffer_return_def\<close>)
qed

lemma sync_reach_inv: "sync_step\<^sup>*\<^sup>* s s' \<Longrightarrow> sync_inv s \<Longrightarrow> sync_inv s'"
  by (induction rule: rtranclp_induct) (auto intro: sync_step_inv)

text \<open>
  C9. No lost wake-up: whatever the interleaving of the critical sections and semaphore operations of
  producer and consumer from a fresh buffer on, when neither is in the middle of an operation and a
  frame is queued, the semaphore has a token and \<open>audio_buffer_take\<close> returns the oldest
  frame without waiting.
\<close>

theorem no_lost_wakeup:
  assumes "buf_run b []" "frames b = []" "sync_step\<^sup>*\<^sup>* (sync_start b) s"
    and "\<not> sy_give s" "\<not> sy_token s" "frames (sy_buf s) = f # fs"
  shows "0 < ab_data_ready (sy_buf s) \<and>
     (\<exists>slot n b'. audio_buffer_take (sy_buf s) = Done (Some (slot, n), b') \<and> frame_view (ab_pool b' ! slot) = f
        \<and> frames b' = fs)"
proof -
  have "ab_count b = 0"
    using queued_length [OF buf_run_inv [OF assms(1)]] assms(2) by (simp add: frames_def)
  then have "sync_inv (sync_start b)"
    using buf_run_inv [OF assms(1)] by (simp add: sync_inv_def sync_start_def)
  then have inv: "sync_inv s" using assms(3) by (rule sync_reach_inv [rotated])
  then have bi: "buf_inv (sy_buf s) (sy_out s)" by (simp add: sync_inv_def)
  have "0 < ab_count (sy_buf s)" using queued_length [OF bi] assms(6) by (auto simp: frames_def)
  then have tok: "0 < ab_data_ready (sy_buf s)" using inv assms(4,5) by (simp add: sync_inv_def)
  then show ?thesis by (auto intro: take_some_spec [OF bi tok assms(6)])
qed

theorem no_lost_wakeup_witness:
  "\<exists>s slot n b'. sync_step\<^sup>*\<^sup>* (sync_start fresh_buffer) s \<and> audio_buffer_take (sy_buf s) = Done (Some (slot, n), b')
     \<and> frame_view (ab_pool b' ! slot) = (9, 1, 2, [1, 2])"
proof -
  have room: "0 < ab_free_top fresh_buffer \<or> overfull fresh_buffer" and ok: "chunk_ok [1, 2] 1 2"
    using fresh_buffer_facts by (simp_all add: chunk_ok_def)
  obtain b st where b: "queue_locked fresh_buffer no_stats 9 [1, 2] 1 2 = Done (True, b, st)"
      "frames b = [(9, 1, 2, [1, 2])]"
    by (rule queue_locked_spec [OF buf_run_inv [OF fresh_buffer_run] ok room, of no_stats 9])
      (use fresh_buffer_facts in simp)
  define s where "s = (sync_start fresh_buffer)\<lparr>sy_buf := b, sy_give := True\<rparr>"
  define s' where "s' = s\<lparr>sy_buf := signal_consumer (sy_buf s), sy_give := False\<rparr>"
  have "sync_step (sync_start fresh_buffer) s" "sync_step s s'"
    using sync_step.queue [of "sync_start fresh_buffer" "[1, 2]" 1 2 no_stats 9 True b st] ok b(1)
      sync_step.give [of s] by (simp_all add: s_def s'_def sync_start_def)
  then have reach: "sync_step\<^sup>*\<^sup>* (sync_start fresh_buffer) s'" by (meson converse_rtranclp_into_rtranclp rtranclp.rtrancl_refl)
  have "\<not> sy_give s'" "\<not> sy_token s'" "frames (sy_buf s') = [(9, 1, 2, [1, 2])]"
    using b(2) by (simp_all add: s'_def s_def sync_start_def)
  from no_lost_wakeup [OF fresh_buffer_run fresh_buffer_facts(1) reach this] reach show ?thesis by blast
qed

lemma flush_race_trace:
  assumes inv: "buf_inv b []" and ready: "ab_data_ready b = 0" and ok: "chunk_ok pcm samples channels"
  shows "\<exists>s. (\<lambda>x y. sync_step x y \<or> flush_step x y)\<^sup>*\<^sup>* (sync_start b) s \<and>
     \<not> sy_give s \<and> \<not> sy_token s \<and> \<not> sy_flush s \<and> length (frames (sy_buf s)) = 1 \<and> ab_data_ready (sy_buf s) = 0"
proof -
  let ?R = "\<lambda>x y. sync_step x y \<or> flush_step x y"
  obtain b1 where b1: "flush_locked b = Done b1" "buf_inv b1 []" "frames b1 = []" "ab_data_ready b1 = 0" "ab_count b1 = 0"
    by (rule flush_locked_spec [OF inv]) (use ready in simp)
  have "0 < ab_free_top b1" using slots_count [OF b1(2)] b1(2,5) by (auto simp: buf_inv_def shape_ok_def)
  then have room: "0 < ab_free_top b1 \<or> overfull b1" and nf: "\<not> overfull b1"
    using b1(2,5) by (auto simp: overfull_def buf_inv_def shape_ok_def)
  obtain b2 st2 where b2: "queue_locked b1 no_stats 0 pcm samples channels = Done (True, b2, st2)" "buf_inv b2 []"
      "length (frames b2) = 1" "ab_data_ready b2 = 0" "0 < ab_capacity b2"
    by (rule queue_locked_spec [OF b1(2) ok room, of no_stats 0])
      (use nf b1(2-4) in \<open>auto simp: Let_def buf_inv_def shape_ok_def\<close>)
  define b3 where "b3 = signal_consumer b2"
  define b4 where "b4 = b3\<lparr>ab_data_ready := 0\<rparr>"
  define s where "s bb g f = \<lparr>sy_buf = bb, sy_out = [], sy_give = g, sy_token = False, sy_flush = f\<rparr>" for bb g f
  have "?R (s b False False) (s b1 False True)"
    using flush_step.clear [of "s b False False" b1] b1(1) by (simp add: s_def)
  moreover have "?R (s b1 False True) (s b2 True True)"
    using sync_step.queue [of "s b1 False True" pcm samples channels no_stats 0 True b2 st2] ok b2(1) by (simp add: s_def)
  moreover have "?R (s b2 True True) (s b3 False True)"
    using sync_step.give [of "s b2 True True"] by (simp add: s_def b3_def)
  moreover have "?R (s b3 False True) (s b4 False True)"
    using flush_step.drain [of "s b3 False True" 0] b2(4,5)
    by (simp add: s_def b3_def b4_def sem_take_def sem_give_def)
  moreover have "?R (s b4 False True) (s b4 False False)"
    using flush_step.finish [of "s b4 False True" 0] by (simp add: s_def b4_def sem_take_def)
  ultimately have "?R\<^sup>*\<^sup>* (s b False False) (s b4 False False)"
    by (blast intro: converse_rtranclp_into_rtranclp)
  then show ?thesis
    using b2(3) by (intro exI [of _ "s b4 False False"]) (simp add: s_def sync_start_def b4_def b3_def)
qed

text \<open>
  A flush can lose a wake-up: \<open>audio_buffer_flush\<close> drains the semaphore outside of its
  critical section, so a chunk queued in between loses its token. From a fresh buffer a state is
  reachable in which all tasks are done, one frame is queued and the semaphore is empty: the
  consumer, which does not wait, gets nothing.
\<close>

theorem flush_loses_wakeup:
  "\<exists>s. (\<lambda>x y. sync_step x y \<or> flush_step x y)\<^sup>*\<^sup>* (sync_start fresh_buffer) s \<and>
     \<not> sy_give s \<and> \<not> sy_token s \<and> \<not> sy_flush s \<and> length (frames (sy_buf s)) = 1
     \<and> audio_buffer_take (sy_buf s) = Done (None, sy_buf s)"
proof -
  have "ab_data_ready fresh_buffer = 0"
    by (simp add: fresh_buffer_def audio_buffer_init_def Let_def)
  moreover have "chunk_ok [1, 2] 1 2" by (simp add: chunk_ok_def)
  ultimately obtain s where "(\<lambda>x y. sync_step x y \<or> flush_step x y)\<^sup>*\<^sup>* (sync_start fresh_buffer) s"
      "\<not> sy_give s" "\<not> sy_token s" "\<not> sy_flush s" "length (frames (sy_buf s)) = 1" "ab_data_ready (sy_buf s) = 0"
    using flush_race_trace [OF buf_run_inv [OF fresh_buffer_run]] by blast
  then show ?thesis
    by (intro exI [of _ s]) (simp add: audio_buffer_take_def sem_take_def)
qed

section \<open>The interface to the playback task\<close>

text \<open>
  What the playback side relies on: a queue of frames with a token count, whose taken slots
  stay readable until they are returned. \<open>out\<close> lists the slots the client holds.
\<close>

definition frame_at :: "audio_buffer \<Rightarrow> nat \<Rightarrow> audio_frame cres" where
  "frame_at b slot = aget (ab_pool b) slot"

locale frame_queue =
  fixes inv :: "'q \<Rightarrow> nat list \<Rightarrow> bool"
    and view :: "'q \<Rightarrow> frame list"
    and tokens :: "'q \<Rightarrow> nat"
    and item :: "'q \<Rightarrow> nat \<Rightarrow> audio_frame cres"
    and grab :: "'q \<Rightarrow> ((nat \<times> nat) option \<times> 'q) cres"
    and give_back :: "'q \<Rightarrow> nat \<Rightarrow> 'q cres"
    and clear :: "'q \<Rightarrow> 'q cres"
  assumes grab_none: "inv q out \<Longrightarrow> tokens q = 0 \<or> view q = [] \<Longrightarrow>
        \<exists>q'. grab q = Done (None, q') \<and> inv q' out \<and> view q' = view q"
    and grab_some: "inv q out \<Longrightarrow> 0 < tokens q \<Longrightarrow> view q = f # fs \<Longrightarrow>
        \<exists>slot g q'. grab q = Done (Some (slot, frame_item_size g), q') \<and> item q' slot = Done g
          \<and> frame_view g = f \<and> frame_ok g \<and> length (pcm_area g) = 704
          \<and> inv q' (slot # out) \<and> view q' = fs \<and> tokens q' = tokens q - 1"
    and give_back_ok: "inv q (slot # out) \<Longrightarrow>
        \<exists>q'. give_back q slot = Done q' \<and> inv q' out \<and> view q' = view q \<and> tokens q' = tokens q"
    and clear_ok: "inv q out \<Longrightarrow> \<exists>q'. clear q = Done q' \<and> inv q' out \<and> view q' = []"

lemma held_frame:
  assumes "buf_inv b (slot # out)"
  shows "frame_at b slot = Done (ab_pool b ! slot)" "frame_ok (ab_pool b ! slot)" "length (pcm_area (ab_pool b ! slot)) = 704"
proof -
  have lt: "slot < length (ab_pool b)"
    using queued_slot_bound [OF assms, of slot] assms by (simp add: buf_inv_def shape_ok_def)
  then show "frame_at b slot = Done (ab_pool b ! slot)" by (simp add: frame_at_def)
  show "frame_ok (ab_pool b ! slot)" using assms by (simp add: buf_inv_def frames_ok_def)
  have "ab_pool b ! slot \<in> set (ab_pool b)" using lt by simp
  then show "length (pcm_area (ab_pool b ! slot)) = 704" using assms by (auto simp: buf_inv_def shape_ok_def)
qed

lemma take_item:
  assumes "buf_inv b out" "0 < ab_data_ready b" "frames b = f # fs"
  shows "\<exists>slot g b'. audio_buffer_take b = Done (Some (slot, frame_item_size g), b') \<and> frame_at b' slot = Done g
     \<and> frame_view g = f \<and> frame_ok g \<and> length (pcm_area g) = 704 \<and> buf_inv b' (slot # out) \<and> frames b' = fs
     \<and> ab_data_ready b' = ab_data_ready b - 1"
proof -
  obtain slot b' where t: "audio_buffer_take b = Done (Some (slot, FRAME_HEADER_SIZE + 2 * (fst (snd f) * fst (snd (snd f)))), b')"
      "buf_inv b' (slot # out)" "frames b' = fs" "frame_view (ab_pool b' ! slot) = f" "ab_data_ready b' = ab_data_ready b - 1"
    by (rule take_some_spec [OF assms]) blast
  moreover have "frame_item_size (ab_pool b' ! slot) = FRAME_HEADER_SIZE + 2 * (fst (snd f) * fst (snd (snd f)))"
    using t(4) by (auto simp: frame_item_size_def frame_view_def)
  ultimately show ?thesis using held_frame [OF t(2)] by auto
qed

interpretation ab: frame_queue buf_inv frames ab_data_ready frame_at audio_buffer_take audio_buffer_return audio_buffer_flush
proof unfold_locales
  fix b out
  assume "buf_inv b out" "ab_data_ready b = 0 \<or> frames b = []"
  then show "\<exists>b'. audio_buffer_take b = Done (None, b') \<and> buf_inv b' out \<and> frames b' = frames b"
    by (rule take_none_spec) blast
next
  fix b slot out
  assume "buf_inv b (slot # out)"
  then show "\<exists>b'. audio_buffer_return b slot = Done b' \<and> buf_inv b' out \<and> frames b' = frames b \<and> ab_data_ready b' = ab_data_ready b"
    by (rule return_spec) blast
next
  fix b out
  assume "buf_inv b out"
  then show "\<exists>b'. audio_buffer_flush b = Done b' \<and> buf_inv b' out \<and> frames b' = []"
    by (rule flush_spec) blast
qed (rule take_item)

end
