(* ===== verification/Audio_Timing.thy ===== *)
theory Audio_Timing
  imports Audio_Buffer Audio_Format
begin

text \<open>
  The playout scheduler (\<open>main/audio/audio_timing.c\<close>): it maps RTP timestamps to local time through
  the anchor of the sender and the PTP or NTP clock, holds early frames back, drops late ones
  and hands the PCM of due frames to the output task. Time, the clocks, the latency of the
  output hardware and the thresholds of the build configuration are read from an environment.
  The functions that use the jitter buffer take its operations as arguments; the model of the
  firmware passes those of \<open>audio_buffer.c\<close>.
\<close>

section \<open>The model\<close>

definition DEFAULT_BUFFER_LATENCY_US :: u32 where "DEFAULT_BUFFER_LATENCY_US = 2000"
definition PIPELINE_LATENCY_US :: u32 where "PIPELINE_LATENCY_US = 5000"
definition MIN_STARTUP_FRAMES :: u32 where "MIN_STARTUP_FRAMES = 4"
definition MAX_PENDING_EARLY_US :: int where "MAX_PENDING_EARLY_US = 10000000"
definition MAX_DRAIN_ATTEMPTS :: nat where "MAX_DRAIN_ATTEMPTS = 256"

text \<open>\<open>tm_pending_frame\<close> is the content of the pending buffer, \<open>None\<close> if it is not allocated.\<close>

record audio_timing =
  tm_output_latency_us :: u32
  tm_target_buffer_frames :: u32
  tm_nominal_frame_samples :: u32
  tm_playout_started :: bool
  tm_playing :: bool
  tm_anchor_valid :: bool
  tm_anchor_network_time_ns :: u64
  tm_anchor_rtp_time :: u32
  tm_anchor_local_time_ns :: int
  tm_ready_time_us :: int
  tm_ptp_locked :: bool
  tm_pending_frame :: "audio_frame option"
  tm_pending_frame_len :: nat
  tm_pending_frame_capacity :: nat
  tm_pending_valid :: bool
  tm_pending_since_us :: int
  tm_quick_start :: bool
  tm_deferred_flush_pending :: bool
  tm_flush_until_ts :: u32

text \<open>
  What one call of \<open>audio_timing_read\<close> reads from outside, where a value is read in the loop as a
  function of the attempt: \<open>esp_timer_get_time\<close> (at startup, in \<open>compute_early_us\<close>, in the early
  branch), the clocks, the hardware latency and the two configured thresholds.
\<close>

record timing_env =
  env_startup_us :: int
  env_early_now_us :: "nat \<Rightarrow> int"
  env_hold_now_us :: "nat \<Rightarrow> int"
  env_ptp_locked :: bool
  env_ptp_offset_ns :: "nat \<Rightarrow> int"
  env_ntp_locked :: bool
  env_ntp_offset_ns :: "nat \<Rightarrow> int"
  env_hardware_latency_us :: u32
  env_timing_threshold_us :: int
  env_rt_timing_threshold_us :: int

subsection \<open>Targets and life cycle\<close>

definition frame_samples_from_format :: "audio_format \<Rightarrow> u32" where
  "frame_samples_from_format format =
     (if af_frame_size format > 0 then of_int (af_frame_size format)
      else if af_max_samples_per_frame format > 0 then af_max_samples_per_frame format
      else of_nat AAC_FRAMES_PER_PACKET)"

definition update_timing_targets :: "audio_timing \<Rightarrow> audio_format \<Rightarrow> audio_timing" where
  "update_timing_targets timing format =
     (let n = frame_samples_from_format format;
          timing = timing\<lparr>tm_nominal_frame_samples := n\<rparr> in
      if af_sample_rate format \<le> 0 \<or> n = 0 then timing\<lparr>tm_target_buffer_frames := MIN_STARTUP_FRAMES\<rparr>
      else
        let latency_samples = uint64 (unat (tm_output_latency_us timing) * nat (af_sample_rate format)) div 1000000;
            target_frames = (of_nat (uint64 (latency_samples + unat n - 1) div unat n) :: u32) in
        timing\<lparr>tm_target_buffer_frames := max target_frames MIN_STARTUP_FRAMES\<rparr>)"

text \<open>\<open>pending\<close> is what \<open>malloc\<close> returned for the pending buffer.\<close>

definition audio_timing_init :: "nat \<Rightarrow> audio_frame option \<Rightarrow> audio_timing" where
  "audio_timing_init pending_capacity pending =
     (let t = \<lparr>tm_output_latency_us = DEFAULT_BUFFER_LATENCY_US, tm_target_buffer_frames = 0,
               tm_nominal_frame_samples = 0, tm_playout_started = False, tm_playing = True, tm_anchor_valid = False,
               tm_anchor_network_time_ns = 0, tm_anchor_rtp_time = 0, tm_anchor_local_time_ns = 0,
               tm_ready_time_us = 0, tm_ptp_locked = False, tm_pending_frame = None, tm_pending_frame_len = 0,
               tm_pending_frame_capacity = 0, tm_pending_valid = False, tm_pending_since_us = 0,
               tm_quick_start = False, tm_deferred_flush_pending = False, tm_flush_until_ts = 0\<rparr> in
      if pending_capacity > 0 \<and> pending \<noteq> None
      then t\<lparr>tm_pending_frame := pending, tm_pending_frame_capacity := pending_capacity\<rparr> else t)"

definition audio_timing_reset :: "audio_timing \<Rightarrow> audio_timing" where
  "audio_timing_reset t = t\<lparr>tm_playout_started := False, tm_anchor_valid := False, tm_pending_valid := False,
     tm_pending_frame_len := 0, tm_pending_since_us := 0, tm_ready_time_us := 0, tm_quick_start := False,
     tm_deferred_flush_pending := False, tm_flush_until_ts := 0\<rparr>"

definition audio_timing_set_format :: "audio_timing \<Rightarrow> audio_format \<Rightarrow> audio_timing" where
  "audio_timing_set_format t format = update_timing_targets t format"

definition audio_timing_set_output_latency :: "audio_timing \<Rightarrow> audio_format \<Rightarrow> u32 \<Rightarrow> audio_timing" where
  "audio_timing_set_output_latency t format latency_us =
     update_timing_targets (t\<lparr>tm_output_latency_us := latency_us\<rparr>) format"

definition audio_timing_get_output_latency :: "audio_timing \<Rightarrow> u32" where
  "audio_timing_get_output_latency t = tm_output_latency_us t"

definition audio_timing_get_advertised_latency :: "u32 \<Rightarrow> audio_timing option \<Rightarrow> u32" where
  "audio_timing_get_advertised_latency hardware_latency_us timing =
     (case timing of Some t \<Rightarrow> tm_output_latency_us t | None \<Rightarrow> DEFAULT_BUFFER_LATENCY_US)
     + hardware_latency_us + PIPELINE_LATENCY_US"

definition audio_timing_set_anchor :: "int \<Rightarrow> bool \<Rightarrow> audio_timing \<Rightarrow> u64 \<Rightarrow> u32 \<Rightarrow> audio_timing" where
  "audio_timing_set_anchor now_us ptp_locked t network_time_ns rtp_time =
     t\<lparr>tm_anchor_rtp_time := rtp_time, tm_anchor_network_time_ns := network_time_ns,
       tm_anchor_local_time_ns := i64 (now_us * 1000), tm_ptp_locked := ptp_locked, tm_anchor_valid := True,
       tm_pending_since_us := 0\<rparr>"

definition clear_pending :: "audio_timing \<Rightarrow> audio_timing" where
  "clear_pending t = t\<lparr>tm_pending_valid := False, tm_pending_frame_len := 0, tm_pending_since_us := 0\<rparr>"

definition audio_timing_set_playing :: "audio_timing \<Rightarrow> bool \<Rightarrow> audio_timing" where
  "audio_timing_set_playing t playing =
     (let t = t\<lparr>tm_playing := playing\<rparr> in if \<not> playing then clear_pending t else t)"

subsection \<open>How early is a frame\<close>

datatype sync_mode = SYNC_MODE_NONE | SYNC_MODE_PTP | SYNC_MODE_NTP

definition compute_early_us ::
    "timing_env \<Rightarrow> nat \<Rightarrow> audio_timing \<Rightarrow> audio_format \<Rightarrow> u32 \<Rightarrow> sync_mode \<Rightarrow> int option" where
  "compute_early_us env attempt t format rtp mode =
     (if \<not> tm_anchor_valid t \<or> af_sample_rate format \<le> 0 then None
      else
        let rtp_delta = sint (rtp - tm_anchor_rtp_time t);
            frame_offset_ns = cdiv (i64 (rtp_delta * 1000000000)) (af_sample_rate format);
            anchor_ns = sint (tm_anchor_network_time_ns t);
            target_ns = (case mode of
                SYNC_MODE_PTP \<Rightarrow> i64 (i64 (anchor_ns - env_ptp_offset_ns env attempt) + frame_offset_ns)
              | SYNC_MODE_NTP \<Rightarrow> i64 (i64 (anchor_ns - env_ntp_offset_ns env attempt) + frame_offset_ns)
              | SYNC_MODE_NONE \<Rightarrow> i64 (tm_anchor_local_time_ns t + frame_offset_ns));
            target_ns = i64 (target_ns - uint (env_hardware_latency_us env + PIPELINE_LATENCY_US) * 1000);
            now_ns = i64 (env_early_now_us env attempt * 1000) in
        Some (cdiv (i64 (target_ns - now_ns)) 1000))"

subsection \<open>Reading\<close>

text \<open>The return value and the samples written to \<open>out\<close>.\<close>

type_synonym read_out = "nat \<times> u16 list"

text \<open>The end of an item: the pending frame is invalidated, a frame of the buffer returned.\<close>

definition release ::
    "('q \<Rightarrow> nat \<Rightarrow> 'q cres) \<Rightarrow> nat option \<Rightarrow> audio_timing \<Rightarrow> 'q \<Rightarrow> (audio_timing \<times> 'q) cres" where
  "release give_back from t q =
     (case from of None \<Rightarrow> Done (clear_pending t, q)
      | Some slot \<Rightarrow> cbind (give_back q slot) (\<lambda>q'. Done (t, q')))"

text \<open>\<open>None\<close> is \<open>continue\<close> with the next attempt, \<open>Some r\<close> the return from the function.\<close>

type_synonym 'q attempt = "(read_out option \<times> audio_timing \<times> 'q \<times> audio_stats) cres"

definition skip_item ::
    "('q \<Rightarrow> nat \<Rightarrow> 'q cres) \<Rightarrow> nat option \<Rightarrow> audio_timing \<Rightarrow> 'q \<Rightarrow> audio_stats \<Rightarrow> 'q attempt" where
  "skip_item give_back from t q stats =
     cbind (release give_back from t q) (\<lambda>(t', q'). Done (None, t', q', stats))"

definition play_item ::
    "('q \<Rightarrow> nat \<Rightarrow> 'q cres) \<Rightarrow> nat option \<Rightarrow> audio_frame \<Rightarrow> nat \<Rightarrow> nat \<Rightarrow> audio_timing \<Rightarrow> 'q \<Rightarrow> audio_stats \<Rightarrow> 'q attempt" where
  "play_item give_back from f frame_samples channels t q stats =
     (let t = t\<lparr>tm_pending_since_us := 0\<rparr>; n = frame_samples * channels in
      if n > length (pcm_area f) then Fault
      else cbind (release give_back from t q) (\<lambda>(t', q').
        let t' = (if \<not> tm_playout_started t' then t'\<lparr>tm_playout_started := True, tm_quick_start := False\<rparr> else t') in
        Done (Some (frame_samples, take n (pcm_area f)), t', q', stats)))"

text \<open>The branch of an early frame that is not yet overdue: it is held, and silence returned.\<close>

definition hold_item ::
    "('q \<Rightarrow> nat \<Rightarrow> 'q cres) \<Rightarrow> nat option \<Rightarrow> audio_frame \<Rightarrow> nat \<Rightarrow> int \<Rightarrow> nat \<Rightarrow> nat \<Rightarrow>
     audio_timing \<Rightarrow> 'q \<Rightarrow> audio_stats \<Rightarrow> 'q attempt" where
  "hold_item give_back from f item_size now_us samples channels t q stats =
     (let silence = (samples, replicate (samples * channels) 0) in
      case from of
        Some slot \<Rightarrow>
          if tm_pending_frame t \<noteq> None \<and> item_size \<le> tm_pending_frame_capacity t then
            let copied = f\<lparr>pcm_area := take ((item_size - FRAME_HEADER_SIZE) div 2) (pcm_area f)\<rparr>;
                t = t\<lparr>tm_pending_frame := Some copied, tm_pending_frame_len := item_size,
                      tm_pending_valid := True, tm_pending_since_us := now_us\<rparr> in
            cbind (give_back q slot) (\<lambda>q'. Done (Some silence, t, q', stats))
          else Done (Some silence, t, q, stats)
      | None \<Rightarrow> Done (Some silence, t, q, stats))"

definition schedule_item ::
    "timing_env \<Rightarrow> ('q \<Rightarrow> nat \<Rightarrow> 'q cres) \<Rightarrow> audio_format \<Rightarrow> int \<Rightarrow> sync_mode \<Rightarrow> nat \<Rightarrow> nat option \<Rightarrow> audio_frame \<Rightarrow>
     nat \<Rightarrow> nat \<Rightarrow> nat \<Rightarrow> nat \<Rightarrow> audio_timing \<Rightarrow> 'q \<Rightarrow> audio_stats \<Rightarrow> 'q attempt" where
  "schedule_item env give_back format threshold mode attempt from f item_size samples frame_samples channels t q stats =
     (case compute_early_us env attempt t format (rtp_timestamp f) mode of
        None \<Rightarrow> play_item give_back from f frame_samples channels t q stats
      | Some early_us \<Rightarrow>
          if early_us > threshold then
            let now_us = env_hold_now_us env attempt;
                t = (if tm_pending_since_us t = 0 then t\<lparr>tm_pending_since_us := now_us\<rparr> else t) in
            if now_us - tm_pending_since_us t > MAX_PENDING_EARLY_US then
              play_item give_back from f frame_samples channels
                (t\<lparr>tm_anchor_valid := False, tm_pending_since_us := 0\<rparr>) q stats
            else hold_item give_back from f item_size now_us samples channels t q stats
          else if early_us < - threshold then
            skip_item give_back from (t\<lparr>tm_pending_since_us := 0\<rparr>) q
              (stats\<lparr>st_late_frames := st_late_frames stats + 1\<rparr>)
          else play_item give_back from f frame_samples channels t q stats)"

definition process_item ::
    "timing_env \<Rightarrow> ('q \<Rightarrow> nat \<Rightarrow> 'q cres) \<Rightarrow> ('q \<Rightarrow> 'q cres) \<Rightarrow> audio_format \<Rightarrow> int \<Rightarrow> sync_mode \<Rightarrow> nat \<Rightarrow> nat \<Rightarrow>
     nat option \<Rightarrow> audio_frame \<Rightarrow> nat \<Rightarrow> audio_timing \<Rightarrow> 'q \<Rightarrow> audio_stats \<Rightarrow> 'q attempt" where
  "process_item env give_back clear format threshold mode samples attempt from f item_size t q stats =
     (let frame_samples = unat (samples_per_channel f);
          channels = (if hdr_channels f \<noteq> 0 then unat (hdr_channels f) else nat (af_channels format mod 2 ^ 32)) in
      if frame_samples = 0 \<or> channels = 0 then skip_item give_back from t q stats
      else if item_size < size_t (FRAME_HEADER_SIZE + frame_samples * channels * 2)
        then skip_item give_back from t q stats
      else
        let frame_samples = min frame_samples samples in
        if tm_deferred_flush_pending t \<and> sint (rtp_timestamp f - tm_flush_until_ts t) \<ge> 0 then
          cbind (release give_back from t q) (\<lambda>(t, q).
          cbind (clear q) (\<lambda>q.
            Done (Some (0, []), t\<lparr>tm_deferred_flush_pending := False, tm_playout_started := False,
              tm_ready_time_us := 0, tm_pending_since_us := 0, tm_quick_start := True\<rparr>, q, stats)))
        else schedule_item env give_back format threshold mode attempt from f item_size samples frame_samples
               channels t q stats)"

text \<open>One attempt of the drain loop.\<close>

definition timing_attempt ::
    "timing_env \<Rightarrow> ('q \<Rightarrow> nat \<Rightarrow> audio_frame cres) \<Rightarrow> ('q \<Rightarrow> ((nat \<times> nat) option \<times> 'q) cres) \<Rightarrow> ('q \<Rightarrow> nat \<Rightarrow> 'q cres) \<Rightarrow>
     ('q \<Rightarrow> 'q cres) \<Rightarrow> audio_format \<Rightarrow> int \<Rightarrow> sync_mode \<Rightarrow> nat \<Rightarrow> nat \<Rightarrow> audio_timing \<Rightarrow> 'q \<Rightarrow> audio_stats \<Rightarrow> 'q attempt" where
  "timing_attempt env item grab give_back clear format threshold mode samples attempt t q stats =
     (if tm_pending_valid t then
        if tm_pending_frame_len t < FRAME_HEADER_SIZE then Done (None, clear_pending t, q, stats)
        else case tm_pending_frame t of
            None \<Rightarrow> Fault
          | Some f \<Rightarrow> process_item env give_back clear format threshold mode samples attempt None f
                       (tm_pending_frame_len t) t q stats
      else cbind (grab q) (\<lambda>(r, q). case r of
          None \<Rightarrow> Done (Some (0, []), t, q, stats\<lparr>st_buffer_underruns := st_buffer_underruns stats + 1\<rparr>)
        | Some (slot, item_size) \<Rightarrow>
            if item_size < FRAME_HEADER_SIZE then skip_item give_back (Some slot) t q stats
            else cbind (item q slot) (\<lambda>f.
              process_item env give_back clear format threshold mode samples attempt (Some slot) f item_size t q stats)))"

text \<open>The loop with the number of attempts that are left; it runs \<open>MAX_DRAIN_ATTEMPTS\<close> of them.\<close>

fun drain_loop ::
    "timing_env \<Rightarrow> ('q \<Rightarrow> nat \<Rightarrow> audio_frame cres) \<Rightarrow> ('q \<Rightarrow> ((nat \<times> nat) option \<times> 'q) cres) \<Rightarrow> ('q \<Rightarrow> nat \<Rightarrow> 'q cres) \<Rightarrow>
     ('q \<Rightarrow> 'q cres) \<Rightarrow> audio_format \<Rightarrow> int \<Rightarrow> sync_mode \<Rightarrow> nat \<Rightarrow> nat \<Rightarrow> nat \<Rightarrow> audio_timing \<Rightarrow> 'q \<Rightarrow> audio_stats \<Rightarrow>
     (read_out \<times> audio_timing \<times> 'q \<times> audio_stats) cres" where
  "drain_loop env item grab give_back clear format threshold mode samples attempt 0 t q stats =
     Done ((0, []), t, q, stats)"
| "drain_loop env item grab give_back clear format threshold mode samples attempt (Suc n) t q stats =
     cbind (timing_attempt env item grab give_back clear format threshold mode samples attempt t q stats)
       (\<lambda>(r, t, q, stats). case r of
          Some out \<Rightarrow> Done (out, t, q, stats)
        | None \<Rightarrow> drain_loop env item grab give_back clear format threshold mode samples (attempt + 1) n t q stats)"

text \<open>
  The startup gate: \<open>Inl t\<close> is the return of 0 with the state \<open>t\<close>, \<open>Inr t\<close> goes on.
  The frame counts are compared as C \<open>int\<close>s.
\<close>

definition startup_gate :: "timing_env \<Rightarrow> int \<Rightarrow> audio_timing \<Rightarrow> audio_timing + audio_timing" where
  "startup_gate env buffered_frames t =
     (if \<not> tm_playout_started t \<and> \<not> tm_pending_valid t then
        let required = (if tm_quick_start t then 1 else sint (tm_target_buffer_frames t)) in
        if buffered_frames < required then Inl t
        else if \<not> tm_anchor_valid t then
          let now_us = env_startup_us env;
              t = (if tm_ready_time_us t = 0 then t\<lparr>tm_ready_time_us := now_us\<rparr> else t) in
          if now_us - tm_ready_time_us t < 1000000 then Inl t else Inr t
        else Inr t
      else Inr t)"

definition sync_mode_of :: "timing_env \<Rightarrow> sync_mode" where
  "sync_mode_of env = (if env_ptp_locked env then SYNC_MODE_PTP
     else if env_ntp_locked env then SYNC_MODE_NTP else SYNC_MODE_NONE)"

definition timing_read ::
    "timing_env \<Rightarrow> ('q \<Rightarrow> nat) \<Rightarrow> ('q \<Rightarrow> nat \<Rightarrow> audio_frame cres) \<Rightarrow> ('q \<Rightarrow> ((nat \<times> nat) option \<times> 'q) cres) \<Rightarrow>
     ('q \<Rightarrow> nat \<Rightarrow> 'q cres) \<Rightarrow> ('q \<Rightarrow> 'q cres) \<Rightarrow> int \<Rightarrow> audio_format \<Rightarrow> nat \<Rightarrow> audio_timing \<Rightarrow> 'q \<Rightarrow> audio_stats \<Rightarrow>
     (read_out \<times> audio_timing \<times> 'q \<times> audio_stats) cres" where
  "timing_read env frame_count item grab give_back clear stream_type format samples t q stats =
     (if samples = 0 \<or> \<not> tm_playing t then Done ((0, []), t, q, stats)
      else
        let threshold = (if audio_stream_uses_buffer stream_type then env_timing_threshold_us env
                         else env_rt_timing_threshold_us env) in
        case startup_gate env (int (frame_count q)) t of
          Inl t \<Rightarrow> Done ((0, []), t, q, stats)
        | Inr t \<Rightarrow> drain_loop env item grab give_back clear format threshold (sync_mode_of env) samples 0
                     MAX_DRAIN_ATTEMPTS t q stats)"

definition audio_timing_read ::
    "timing_env \<Rightarrow> int \<Rightarrow> audio_format \<Rightarrow> nat \<Rightarrow> audio_timing \<Rightarrow> audio_buffer \<Rightarrow> audio_stats \<Rightarrow>
     (read_out \<times> audio_timing \<times> audio_buffer \<times> audio_stats) cres" where
  "audio_timing_read env = timing_read env audio_buffer_get_frame_count frame_at audio_buffer_take
     audio_buffer_return audio_buffer_flush"

section \<open>The scheduler as a client of a frame queue\<close>

text \<open>
  The pending buffer is allocated and large enough for any slot, and a valid pending frame
  is a complete copy of a frame.
\<close>

definition pending_ok :: "audio_timing \<Rightarrow> bool" where
  "pending_ok t \<longleftrightarrow> tm_pending_frame t \<noteq> None \<and> BYTES_PER_FRAME \<le> tm_pending_frame_capacity t
     \<and> (tm_pending_valid t \<longrightarrow> (\<exists>f. tm_pending_frame t = Some f \<and> frame_ok f \<and> tm_pending_frame_len t = frame_item_size f
           \<and> unat (samples_per_channel f) * unat (hdr_channels f) \<le> length (pcm_area f)))"

text \<open>What every way out of an attempt guarantees: at most the requested samples, in at most two channels.\<close>

definition out_ok :: "nat \<Rightarrow> read_out option \<Rightarrow> bool" where
  "out_ok samples r \<longleftrightarrow> (\<forall>n d. r = Some (n, d) \<longrightarrow> n \<le> samples \<and> length d \<le> 2 * samples)"

lemma frame_ok_bounds:
  assumes "frame_ok f"
  shows "hdr_channels f \<noteq> 0" "samples_per_channel f \<noteq> 0"
    "size_t (FRAME_HEADER_SIZE + unat (samples_per_channel f) * unat (hdr_channels f) * 2) = frame_item_size f"
    "frame_item_size f \<le> BYTES_PER_FRAME" "FRAME_HEADER_SIZE \<le> frame_item_size f"
  using assms by (auto simp: frame_ok_def frame_item_size_def audio_consts intro!: size_t_small)

lemma pending_ok_updates [simp]:
  "pending_ok (clear_pending t) = (tm_pending_frame t \<noteq> None \<and> BYTES_PER_FRAME \<le> tm_pending_frame_capacity t)"
  "pending_ok (t\<lparr>tm_pending_since_us := x\<rparr>) = pending_ok t"
  "pending_ok (t\<lparr>tm_anchor_valid := av\<rparr>) = pending_ok t"
  "pending_ok (t\<lparr>tm_playout_started := ps, tm_quick_start := qs\<rparr>) = pending_ok t"
  "pending_ok (t\<lparr>tm_deferred_flush_pending := df, tm_playout_started := ps, tm_ready_time_us := rt,
     tm_pending_since_us := x, tm_quick_start := qs\<rparr>) = pending_ok t"
  "pending_ok (t\<lparr>tm_anchor_valid := av, tm_pending_since_us := x\<rparr>) = pending_ok t"
  by (simp_all add: pending_ok_def clear_pending_def)

context frame_queue
begin

definition holds :: "'q \<Rightarrow> nat option \<Rightarrow> nat list \<Rightarrow> bool" where
  "holds q from out \<longleftrightarrow> inv q (case from of None \<Rightarrow> out | Some slot \<Rightarrow> slot # out)"

definition attempt_ok :: "nat \<Rightarrow> nat list \<Rightarrow> 'q attempt \<Rightarrow> bool" where
  "attempt_ok samples out a \<longleftrightarrow>
     (\<exists>r t q stats. a = Done (r, t, q, stats) \<and> inv q out \<and> pending_ok t \<and> out_ok samples r)"

lemma release_ok:
  assumes "holds q from out" "pending_ok t"
  obtains q' where "release give_back from t q = Done (if from = None then clear_pending t else t, q')" "inv q' out"
proof (cases "from")
  case None
  with assms that show thesis by (simp add: release_def holds_def)
next
  case (Some slot)
  with assms(1) have "inv q (slot # out)" by (simp add: holds_def)
  then obtain q' where "give_back q slot = Done q'" "inv q' out" using give_back_ok by blast
  with Some that show thesis by (simp add: release_def)
qed

lemma skip_item_ok:
  assumes "holds q from out" "pending_ok t"
  shows "attempt_ok samples out (skip_item give_back from t q stats)"
  by (rule release_ok [OF assms])
    (use assms(2) in \<open>auto simp: skip_item_def attempt_ok_def out_ok_def pending_ok_def clear_pending_def\<close>)

lemma play_item_ok:
  assumes "holds q from out" "pending_ok t" "n \<le> samples" "ch \<le> 2" "n * ch \<le> length (pcm_area f)"
  shows "attempt_ok samples out (play_item give_back from f n ch t q stats)"
proof -
  have "pending_ok (t\<lparr>tm_pending_since_us := 0\<rparr>)" using assms(2) by simp
  then obtain q' where q': "release give_back from (t\<lparr>tm_pending_since_us := 0\<rparr>) q =
      Done (if from = None then clear_pending (t\<lparr>tm_pending_since_us := 0\<rparr>) else t\<lparr>tm_pending_since_us := 0\<rparr>, q')" "inv q' out"
    using release_ok [OF assms(1)] by blast
  have "n * ch \<le> samples * 2" using assms(3,4) by (rule mult_le_mono)
  then have "length (take (n * ch) (pcm_area f)) \<le> 2 * samples" by simp
  with q' assms(2,3,5) show ?thesis
    by (auto simp: play_item_def Let_def attempt_ok_def out_ok_def pending_ok_def clear_pending_def)
qed

lemma hold_item_ok:
  assumes "holds q from out" "pending_ok t" "frame_ok f" "length (pcm_area f) \<ge> unat (samples_per_channel f) * unat (hdr_channels f)"
    and "ch \<le> 2"
  shows "attempt_ok samples out (hold_item give_back from f (frame_item_size f) now samples ch t q stats)"
proof (cases "from")
  case None
  with assms show ?thesis
    by (auto simp: hold_item_def attempt_ok_def out_ok_def holds_def)
next
  case (Some slot)
  with assms(1) have "inv q (slot # out)" by (simp add: holds_def)
  then obtain q' where q': "give_back q slot = Done q'" "inv q' out" using give_back_ok by blast
  have half: "(frame_item_size f - FRAME_HEADER_SIZE) div 2 = unat (samples_per_channel f) * unat (hdr_channels f)"
    by (simp add: frame_item_size_def)
  have "frame_item_size f \<le> tm_pending_frame_capacity t"
    using frame_ok_bounds(4) [OF assms(3)] assms(2) by (simp add: pending_ok_def)
  with Some q' assms half show ?thesis
    by (auto simp: hold_item_def attempt_ok_def out_ok_def pending_ok_def Let_def frame_ok_def frame_item_size_def)
qed

lemma schedule_item_ok:
  assumes "holds q from out" "pending_ok t" "frame_ok f" "length (pcm_area f) \<ge> unat (samples_per_channel f) * unat (hdr_channels f)"
  shows "attempt_ok samples out (schedule_item env give_back format thr mode attempt from f (frame_item_size f) samples
      (min (unat (samples_per_channel f)) samples) (unat (hdr_channels f)) t q stats)"
proof -
  have ch: "unat (hdr_channels f) \<le> 2" using assms(3) by (simp add: frame_ok_def)
  have len: "min (unat (samples_per_channel f)) samples * unat (hdr_channels f) \<le> length (pcm_area f)"
    by (rule order.trans [OF _ assms(4)]) simp
  show ?thesis
    unfolding schedule_item_def Let_def
    using assms ch len
    by (auto intro!: play_item_ok hold_item_ok skip_item_ok split: option.split)
qed

lemma process_item_ok:
  assumes "holds q from out" "pending_ok t" "frame_ok f" "length (pcm_area f) \<ge> unat (samples_per_channel f) * unat (hdr_channels f)"
  shows "attempt_ok samples out
    (process_item env give_back clear format thr mode samples attempt from f (frame_item_size f) t q stats)"
proof -
  note b = frame_ok_bounds [OF assms(3)]
  have flush: "attempt_ok samples out (cbind (release give_back from t q) (\<lambda>(t, q). cbind (clear q) (\<lambda>q.
      Done (Some (0, []), t\<lparr>tm_deferred_flush_pending := False, tm_playout_started := False,
              tm_ready_time_us := 0, tm_pending_since_us := 0, tm_quick_start := True\<rparr>, q, stats))))"
  proof (rule release_ok [OF assms(1,2)])
    fix q' assume q': "release give_back from t q = Done (if from = None then clear_pending t else t, q')" "inv q' out"
    obtain q2 where "clear q' = Done q2" "inv q2 out" using clear_ok [OF q'(2)] by blast
    with q'(1) assms(2) show ?thesis by (auto simp: attempt_ok_def out_ok_def pending_ok_def clear_pending_def)
  qed
  show ?thesis
    using b schedule_item_ok [OF assms] flush
    by (simp add: process_item_def Let_def unat_eq_zero)
qed

lemma timing_attempt_ok:
  assumes "inv q out" "pending_ok t"
  shows "attempt_ok samples out (timing_attempt env item grab give_back clear format thr mode samples attempt t q stats)"
proof (cases "tm_pending_valid t")
  case True
  then obtain f where f: "tm_pending_frame t = Some f" "frame_ok f" "tm_pending_frame_len t = frame_item_size f"
      "unat (samples_per_channel f) * unat (hdr_channels f) \<le> length (pcm_area f)"
    using assms(2) by (auto simp: pending_ok_def)
  have "holds q None out" using assms(1) by (simp add: holds_def)
  from process_item_ok [OF this assms(2) f(2,4)] True f frame_ok_bounds(5) [OF f(2)] show ?thesis
    by (simp add: timing_attempt_def)
next
  case no: False
  show ?thesis
  proof (cases "tokens q = 0 \<or> view q = []")
    case True
    obtain q' where "grab q = Done (None, q')" "inv q' out" using grab_none [OF assms(1) True] by blast
    with no assms(2) show ?thesis by (simp add: timing_attempt_def attempt_ok_def out_ok_def)
  next
    case False
    then obtain fr fs where "0 < tokens q" "view q = fr # fs" by (cases "view q") auto
    from grab_some [OF assms(1) this] obtain slot g q' where g: "grab q = Done (Some (slot, frame_item_size g), q')"
        "item q' slot = Done g" "frame_ok g" "length (pcm_area g) = 704" "inv q' (slot # out)" by blast
    have "holds q' (Some slot) out" using g(5) by (simp add: holds_def)
    moreover have "unat (samples_per_channel g) * unat (hdr_channels g) \<le> length (pcm_area g)"
      using g(3,4) by (simp add: frame_ok_def)
    ultimately show ?thesis
      using process_item_ok [of q' "Some slot" out t g samples] assms(2) g frame_ok_bounds(5) [OF g(3)] no
      by (simp add: timing_attempt_def)
  qed
qed

lemma drain_loop_ok:
  assumes "inv q out" "pending_ok t"
  shows "\<exists>n d t' q' stats'. drain_loop env item grab give_back clear format thr mode samples attempt k t q stats
     = Done ((n, d), t', q', stats') \<and> inv q' out \<and> pending_ok t' \<and> n \<le> samples \<and> length d \<le> 2 * samples"
  using assms
proof (induction k arbitrary: attempt t q stats)
  case (Suc k)
  obtain r t' q' stats' where a: "timing_attempt env item grab give_back clear format thr mode samples attempt t q stats
        = Done (r, t', q', stats')" "inv q' out" "pending_ok t'" "out_ok samples r"
    using timing_attempt_ok [OF Suc.prems] unfolding attempt_ok_def by blast
  show ?case
  proof (cases r)
    case None
    with a(1) Suc.IH [OF a(2,3), of "attempt + 1" stats'] show ?thesis by simp
  next
    case (Some out')
    with a show ?thesis by (cases out') (auto simp: out_ok_def)
  qed
qed simp

lemma timing_read_ok:
  assumes "inv q out" "pending_ok t"
  shows "\<exists>n d t' q' stats'. timing_read env frame_count item grab give_back clear stream_type format samples t q stats
     = Done ((n, d), t', q', stats') \<and> inv q' out \<and> pending_ok t' \<and> n \<le> samples \<and> length d \<le> 2 * samples"
proof -
  have gate: "pending_ok t'" if "startup_gate env c t = Inl t' \<or> startup_gate env c t = Inr t'" for c t'
    using that assms(2) by (auto simp: startup_gate_def pending_ok_def Let_def split: if_splits)
  show ?thesis
  proof (cases "startup_gate env (int (frame_count q)) t")
    case (Inl t')
    then have "pending_ok t'" using gate by blast
    with Inl assms show ?thesis by (simp add: timing_read_def Let_def)
  next
    case (Inr t')
    with gate have "pending_ok t'" by blast
    with Inr drain_loop_ok [OF assms(1) this] assms show ?thesis by (simp add: timing_read_def Let_def)
  qed
qed

end

text \<open>When a frame is due, late or early for the scheduler in state \<open>t\<close> at an attempt.\<close>

definition due :: "timing_env \<Rightarrow> nat \<Rightarrow> audio_timing \<Rightarrow> audio_format \<Rightarrow> int \<Rightarrow> sync_mode \<Rightarrow> frame \<Rightarrow> bool" where
  "due env attempt t format thr mode f =
     (case compute_early_us env attempt t format (fst f) mode of None \<Rightarrow> True | Some e \<Rightarrow> - thr \<le> e \<and> e \<le> thr)"

definition late :: "timing_env \<Rightarrow> nat \<Rightarrow> audio_timing \<Rightarrow> audio_format \<Rightarrow> int \<Rightarrow> sync_mode \<Rightarrow> frame \<Rightarrow> bool" where
  "late env attempt t format thr mode f =
     (case compute_early_us env attempt t format (fst f) mode of None \<Rightarrow> False | Some e \<Rightarrow> e < - thr)"

definition early :: "timing_env \<Rightarrow> nat \<Rightarrow> audio_timing \<Rightarrow> audio_format \<Rightarrow> int \<Rightarrow> sync_mode \<Rightarrow> frame \<Rightarrow> bool" where
  "early env attempt t format thr mode f =
     (case compute_early_us env attempt t format (fst f) mode of None \<Rightarrow> False | Some e \<Rightarrow> thr < e)"

text \<open>The samples a frame contributes to a request.\<close>

definition frame_out :: "nat \<Rightarrow> frame \<Rightarrow> read_out" where
  "frame_out samples = (\<lambda>(ts, n, ch, pcm). (min n samples, take (min n samples * ch) pcm))"

text \<open>The pending buffer holds a complete copy of the frame \<open>f\<close>.\<close>

definition holding :: "audio_timing \<Rightarrow> frame \<Rightarrow> bool" where
  "holding t f \<longleftrightarrow> tm_pending_valid t \<and> (\<exists>g. tm_pending_frame t = Some g \<and> frame_view g = f \<and> frame_ok g
     \<and> tm_pending_frame_len t = frame_item_size g
     \<and> unat (samples_per_channel g) * unat (hdr_channels g) \<le> length (pcm_area g))"

lemma compute_early_since [simp]:
  "compute_early_us env a (t\<lparr>tm_pending_since_us := x\<rparr>) format ts mode = compute_early_us env a t format ts mode"
  by (cases mode) (simp_all add: compute_early_us_def Let_def)

lemma late_since [simp]:
  "late env a (t\<lparr>tm_pending_since_us := x\<rparr>) format thr mode f = late env a t format thr mode f"
  "due env a (t\<lparr>tm_pending_since_us := x\<rparr>) format thr mode f = due env a t format thr mode f"
  by (simp_all add: late_def due_def)

lemma min_samples_take: "take (min n samples * ch) (take (n * ch) xs) = take (min n samples * ch) (xs :: u16 list)"
  by (simp add: min_def)

context frame_queue
begin

lemma attempt_grab:
  assumes "inv q out" "\<not> tm_pending_valid t" "\<not> tm_deferred_flush_pending t" "0 < tokens q" "view q = f # fs"
  obtains slot g q1 q2 where "frame_view g = f" "frame_ok g" "length (pcm_area g) = 704" "inv q1 (slot # out)"
    "give_back q1 slot = Done q2" "inv q2 out" "view q2 = fs" "tokens q2 = tokens q - 1"
    "\<And>env format thr mode samples attempt stats.
       timing_attempt env item grab give_back clear format thr mode samples attempt t q stats =
       schedule_item env give_back format thr mode attempt (Some slot) g (frame_item_size g) samples
         (min (unat (samples_per_channel g)) samples) (unat (hdr_channels g)) t q1 stats"
proof -
  obtain slot g q1 where g: "grab q = Done (Some (slot, frame_item_size g), q1)" "item q1 slot = Done g"
      "frame_view g = f" "frame_ok g" "length (pcm_area g) = 704" "inv q1 (slot # out)" "view q1 = fs"
      "tokens q1 = tokens q - 1"
    using grab_some [OF assms(1,4,5)] by blast
  obtain q2 where q2: "give_back q1 slot = Done q2" "inv q2 out" "view q2 = view q1" "tokens q2 = tokens q1"
    using give_back_ok [OF g(6)] by blast
  have "timing_attempt env item grab give_back clear format thr mode samples attempt t q stats =
       schedule_item env give_back format thr mode attempt (Some slot) g (frame_item_size g) samples
         (min (unat (samples_per_channel g)) samples) (unat (hdr_channels g)) t q1 stats"
    for env format thr mode samples attempt stats
    using g(1,2) assms(2,3) frame_ok_bounds [OF g(4)]
    by (simp add: timing_attempt_def process_item_def Let_def unat_eq_zero)
  with g q2 show thesis using that by simp
qed

lemma attempt_late:
  assumes "inv q out" "\<not> tm_pending_valid t" "\<not> tm_deferred_flush_pending t" "0 < tokens q" "view q = f # fs"
    and "late env attempt t format thr mode f" "0 \<le> thr"
  shows "\<exists>q'. timing_attempt env item grab give_back clear format thr mode samples attempt t q stats =
      Done (None, t\<lparr>tm_pending_since_us := 0\<rparr>, q', stats\<lparr>st_late_frames := st_late_frames stats + 1\<rparr>)
    \<and> inv q' out \<and> view q' = fs \<and> tokens q' = tokens q - 1"
proof (rule attempt_grab [OF assms(1-5)])
  fix slot g q1 q2
  assume "frame_view g = f" "give_back q1 slot = Done q2" "inv q2 out" "view q2 = fs" "tokens q2 = tokens q - 1"
    and run: "\<And>env format thr mode samples attempt stats.
       timing_attempt env item grab give_back clear format thr mode samples attempt t q stats =
       schedule_item env give_back format thr mode attempt (Some slot) g (frame_item_size g) samples
         (min (unat (samples_per_channel g)) samples) (unat (hdr_channels g)) t q1 stats"
  then show ?thesis
    unfolding run using assms(6,7)
    by (auto simp: schedule_item_def skip_item_def release_def late_def frame_view_def split: option.splits)
qed

lemma attempt_due:
  assumes "inv q out" "\<not> tm_pending_valid t" "\<not> tm_deferred_flush_pending t" "0 < tokens q" "view q = f # fs"
    and "due env attempt t format thr mode f"
  shows "\<exists>t' q'. timing_attempt env item grab give_back clear format thr mode samples attempt t q stats =
      Done (Some (frame_out samples f), t', q', stats)
    \<and> inv q' out \<and> view q' = fs \<and> tm_playout_started t' \<and> \<not> tm_pending_valid t'"
proof (rule attempt_grab [OF assms(1-5)])
  fix slot g q1 q2
  assume g: "frame_view g = f" "frame_ok g" "length (pcm_area g) = 704"
    and q2: "give_back q1 slot = Done q2" "inv q2 out" "view q2 = fs"
    and run: "\<And>env format thr mode samples attempt stats.
       timing_attempt env item grab give_back clear format thr mode samples attempt t q stats =
       schedule_item env give_back format thr mode attempt (Some slot) g (frame_item_size g) samples
         (min (unat (samples_per_channel g)) samples) (unat (hdr_channels g)) t q1 stats"
  have len: "min (unat (samples_per_channel g)) samples * unat (hdr_channels g) \<le> length (pcm_area g)"
    using g(2,3) by (auto simp: frame_ok_def intro: order.trans [OF mult_le_mono1 [OF min.cobounded1]])
  have out: "frame_out samples f = (min (unat (samples_per_channel g)) samples,
      take (min (unat (samples_per_channel g)) samples * unat (hdr_channels g)) (pcm_area g))"
    using g(1) by (auto simp: frame_view_def frame_out_def min_samples_take)
  have "schedule_item env give_back format thr mode attempt (Some slot) g (frame_item_size g) samples
         (min (unat (samples_per_channel g)) samples) (unat (hdr_channels g)) t q1 stats
      = play_item give_back (Some slot) g (min (unat (samples_per_channel g)) samples) (unat (hdr_channels g)) t q1 stats"
    using assms(6) g(1) by (auto simp: schedule_item_def due_def frame_view_def split: option.splits)
  then show ?thesis
    unfolding run using q2 len out assms(2)
    by (auto simp: play_item_def release_def Let_def)
qed

lemma drain_late_then_due:
  assumes "inv q out" "\<not> tm_pending_valid t" "\<not> tm_deferred_flush_pending t" "length lates < tokens q"
    and "view q = lates @ f # fs" "length lates < k" "0 \<le> thr"
    and "\<forall>i < length lates. late env (attempt + i) t format thr mode (lates ! i)"
    and "due env (attempt + length lates) t format thr mode f"
  shows "\<exists>t' q'. drain_loop env item grab give_back clear format thr mode samples attempt k t q stats =
      Done (frame_out samples f, t', q', stats\<lparr>st_late_frames := st_late_frames stats + of_nat (length lates)\<rparr>)
    \<and> inv q' out \<and> view q' = fs \<and> tm_playout_started t'"
  using assms
proof (induction lates arbitrary: attempt k t q stats)
  case Nil
  then obtain k' where "k = Suc k'" by (cases k) auto
  moreover obtain t' q' where "timing_attempt env item grab give_back clear format thr mode samples attempt t q stats =
      Done (Some (frame_out samples f), t', q', stats)" "inv q' out" "view q' = fs" "tm_playout_started t'"
    using attempt_due [of q out t f fs env attempt format thr mode samples stats] Nil by auto
  ultimately show ?case by simp
next
  case (Cons g lates)
  then obtain k' where k: "k = Suc k'" by (cases k) auto
  let ?t = "t\<lparr>tm_pending_since_us := 0\<rparr>" and ?st = "stats\<lparr>st_late_frames := st_late_frames stats + 1\<rparr>"
  have "late env attempt t format thr mode g" using Cons.prems(8) by force
  then obtain q' where q': "timing_attempt env item grab give_back clear format thr mode samples attempt t q stats =
      Done (None, ?t, q', ?st)" "inv q' out" "view q' = lates @ f # fs" "tokens q' = tokens q - 1"
    using attempt_late [of q out t g "lates @ f # fs" env attempt format thr mode samples stats] Cons.prems by auto
  have "\<forall>i < length lates. late env (attempt + 1 + i) ?t format thr mode (lates ! i)"
    using Cons.prems(8) by (auto dest: spec [of _ "Suc i" for i])
  then obtain t' q'' where "drain_loop env item grab give_back clear format thr mode samples (attempt + 1) k' ?t q' ?st =
      Done (frame_out samples f, t', q'', ?st\<lparr>st_late_frames := st_late_frames ?st + of_nat (length lates)\<rparr>)"
      "inv q'' out" "view q'' = fs" "tm_playout_started t'"
    using Cons.IH [of q' ?t k' "attempt + 1" ?st] Cons.prems q'(2-4) k less_diff_conv [of "length lates" "tokens q" 1] by auto
  then show ?case using k q'(1) by (simp add: algebra_simps)
qed

lemma attempt_early:
  assumes "inv q out" "\<not> tm_pending_valid t" "\<not> tm_deferred_flush_pending t" "0 < tokens q" "view q = f # fs"
    and "early env attempt t format thr mode f" "0 \<le> thr" "pending_ok t"
    and "tm_pending_since_us t = 0 \<or> env_hold_now_us env attempt - tm_pending_since_us t \<le> MAX_PENDING_EARLY_US"
  shows "\<exists>t' q'. timing_attempt env item grab give_back clear format thr mode samples attempt t q stats =
      Done (Some (samples, replicate (samples * fst (snd (snd f))) 0), t', q', stats)
    \<and> inv q' out \<and> view q' = fs \<and> holding t' f
    \<and> t' = t\<lparr>tm_pending_frame := tm_pending_frame t', tm_pending_frame_len := tm_pending_frame_len t',
              tm_pending_valid := True, tm_pending_since_us := env_hold_now_us env attempt\<rparr>"
proof (rule attempt_grab [OF assms(1-5)])
  fix slot g q1 q2
  assume g: "frame_view g = f" "frame_ok g" "length (pcm_area g) = 704"
    and q2: "give_back q1 slot = Done q2" "inv q2 out" "view q2 = fs"
    and run: "\<And>env format thr mode samples attempt stats.
       timing_attempt env item grab give_back clear format thr mode samples attempt t q stats =
       schedule_item env give_back format thr mode attempt (Some slot) g (frame_item_size g) samples
         (min (unat (samples_per_channel g)) samples) (unat (hdr_channels g)) t q1 stats"
  have cap: "tm_pending_frame t \<noteq> None" "frame_item_size g \<le> tm_pending_frame_capacity t"
    using assms(8) frame_ok_bounds(4) [OF g(2)] by (auto simp: pending_ok_def)
  have half: "(frame_item_size g - FRAME_HEADER_SIZE) div 2 = unat (samples_per_channel g) * unat (hdr_channels g)"
    by (simp add: frame_item_size_def)
  let ?c = "g\<lparr>pcm_area := take (unat (samples_per_channel g) * unat (hdr_channels g)) (pcm_area g)\<rparr>"
  have c: "frame_view ?c = f" "frame_ok ?c" "frame_item_size ?c = frame_item_size g"
    using g by (auto simp: frame_view_def frame_ok_def frame_item_size_def)
  show ?thesis
    unfolding run using assms(6,7,9) g q2 cap c half
    by (auto simp: schedule_item_def hold_item_def Let_def early_def holding_def frame_view_def frame_ok_def
        MAX_PENDING_EARLY_US_def split: option.splits)
qed

lemma attempt_held_due:
  assumes "inv q out" "holding t f" "\<not> tm_deferred_flush_pending t" "due env attempt t format thr mode f"
  shows "\<exists>t'. timing_attempt env item grab give_back clear format thr mode samples attempt t q stats =
      Done (Some (frame_out samples f), t', q, stats) \<and> tm_playout_started t' \<and> \<not> tm_pending_valid t'"
proof -
  obtain g where g: "tm_pending_frame t = Some g" "frame_view g = f" "frame_ok g" "tm_pending_frame_len t = frame_item_size g"
      "unat (samples_per_channel g) * unat (hdr_channels g) \<le> length (pcm_area g)" and pv: "tm_pending_valid t"
    using assms(2) by (auto simp: holding_def)
  note b = frame_ok_bounds [OF g(3)]
  have len: "min (unat (samples_per_channel g)) samples * unat (hdr_channels g) \<le> length (pcm_area g)"
    by (rule order.trans [OF _ g(5)]) simp
  have out: "frame_out samples f = (min (unat (samples_per_channel g)) samples,
      take (min (unat (samples_per_channel g)) samples * unat (hdr_channels g)) (pcm_area g))"
    using g(2) by (auto simp: frame_view_def frame_out_def min_samples_take)
  have "timing_attempt env item grab give_back clear format thr mode samples attempt t q stats =
      schedule_item env give_back format thr mode attempt None g (frame_item_size g) samples
         (min (unat (samples_per_channel g)) samples) (unat (hdr_channels g)) t q stats"
    using pv g(1,4) b assms(3) by (simp add: timing_attempt_def process_item_def Let_def unat_eq_zero)
  also have "\<dots> = play_item give_back None g (min (unat (samples_per_channel g)) samples) (unat (hdr_channels g)) t q stats"
    using assms(4) g(2) by (auto simp: schedule_item_def due_def frame_view_def split: option.splits)
  finally show ?thesis
    using len out by (auto simp: play_item_def release_def Let_def clear_pending_def)
qed

end

context frame_queue
begin

lemma attempt_early_no_buffer:
  assumes "inv q out" "\<not> tm_pending_valid t" "\<not> tm_deferred_flush_pending t" "0 < tokens q" "view q = f # fs"
    and "early env attempt t format thr mode f" "tm_pending_frame t = None" "tm_pending_since_us t = 0"
  shows "\<exists>slot t' q'. timing_attempt env item grab give_back clear format thr mode samples attempt t q stats =
      Done (Some (samples, replicate (samples * fst (snd (snd f))) 0), t', q', stats)
    \<and> inv q' (slot # out) \<and> \<not> tm_pending_valid t'"
proof (rule attempt_grab [OF assms(1-5)])
  fix slot g q1 q2
  assume g: "frame_view g = f" "inv q1 (slot # out)"
    and run: "\<And>env format thr mode samples attempt stats.
       timing_attempt env item grab give_back clear format thr mode samples attempt t q stats =
       schedule_item env give_back format thr mode attempt (Some slot) g (frame_item_size g) samples
         (min (unat (samples_per_channel g)) samples) (unat (hdr_channels g)) t q1 stats"
  show ?thesis
    unfolding run using assms(2,6-8) g
    by (auto simp: schedule_item_def hold_item_def Let_def early_def frame_view_def MAX_PENDING_EARLY_US_def
        split: option.splits)
qed

end

section \<open>Properties of audio_timing_read\<close>

text \<open>
  C7. The playback side never corrupts or leaks the jitter buffer: with an allocated pending buffer of at least one
  slot, \<open>audio_timing_read\<close> terminates normally for all clocks, anchors, formats and buffer
  contents, reads and writes no array out of bounds, returns every slot it takes, keeps the
  pending frame well-formed, and writes at most the requested samples for two channels.
\<close>

theorem audio_timing_read_safe:
  assumes "buf_inv b out" and "pending_ok t"
  shows "\<exists>n d t' b' stats'. audio_timing_read env stream_type format samples t b stats = Done ((n, d), t', b', stats')
     \<and> buf_inv b' out \<and> pending_ok t' \<and> n \<le> samples \<and> length d \<le> 2 * samples"
  unfolding audio_timing_read_def by (rule ab.timing_read_ok [OF assms])

definition demo_timing :: audio_timing where
  "demo_timing = audio_timing_set_anchor 1000000 False
     ((audio_timing_init BYTES_PER_FRAME (Some blank_frame))\<lparr>tm_playout_started := True\<rparr>) 0 44100"

definition demo_format :: audio_format where
  "demo_format = \<lparr>af_codec = [], af_sample_rate = 44100, af_channels = 2, af_bits_per_sample = 16, af_frame_size = 352,
     af_max_samples_per_frame = 352, af_sample_size = 16, af_rice_history_mult = 40, af_rice_initial_history = 10,
     af_rice_limit = 14, af_num_channels = 2, af_max_run = 255, af_max_coded_frame_size = 0, af_avg_bit_rate = 0,
     af_sample_rate_config = 44100\<rparr>"

definition demo_env :: "int \<Rightarrow> timing_env" where
  "demo_env now = \<lparr>env_startup_us = now, env_early_now_us = (\<lambda>_. now), env_hold_now_us = (\<lambda>_. now),
     env_ptp_locked = False, env_ptp_offset_ns = (\<lambda>_. 0), env_ntp_locked = False, env_ntp_offset_ns = (\<lambda>_. 0),
     env_hardware_latency_us = 0, env_timing_threshold_us = 10000, env_rt_timing_threshold_us = 50000\<rparr>"

lemma demo_timing_pending: "pending_ok demo_timing"
  by (simp add: demo_timing_def audio_timing_set_anchor_def audio_timing_init_def Let_def pending_ok_def audio_consts)

theorem audio_timing_read_safe_witness:
  "\<exists>n d t' b' stats'. audio_timing_read (demo_env 0) 103 demo_format 352 demo_timing fresh_buffer no_stats
     = Done ((n, d), t', b', stats') \<and> buf_inv b' [] \<and> n \<le> 352"
  using audio_timing_read_safe [OF buf_run_inv [OF fresh_buffer_run] demo_timing_pending,
      of "demo_env 0" 103 demo_format 352 no_stats] by auto

text \<open>
  Stale audio is skipped within one call: when playout has started and up to 255 frames at the
  head of the queue are late, \<open>audio_timing_read\<close> drops exactly those, counts each as late, and
  returns the samples of the first frame that is due, which leaves the queue; later frames stay.
\<close>

theorem late_frames_skipped:
  assumes "buf_inv b out" "frames b = lates @ f # fs" "length lates < ab_data_ready b" "length lates < 256"
    and "0 < samples" "tm_playing t" "tm_playout_started t" "\<not> tm_pending_valid t" "\<not> tm_deferred_flush_pending t"
    and "thr = (if audio_stream_uses_buffer ty then env_timing_threshold_us env else env_rt_timing_threshold_us env)"
    and "0 \<le> thr" "\<forall>i < length lates. late env i t format thr (sync_mode_of env) (lates ! i)"
    and "due env (length lates) t format thr (sync_mode_of env) f"
  shows "\<exists>t' b'. audio_timing_read env ty format samples t b stats
     = Done (frame_out samples f, t', b', stats\<lparr>st_late_frames := st_late_frames stats + of_nat (length lates)\<rparr>)
     \<and> buf_inv b' out \<and> frames b' = fs"
proof -
  have "startup_gate env (int (audio_buffer_get_frame_count b)) t = Inr t"
    using assms(7) by (simp add: startup_gate_def)
  then show ?thesis
    using ab.drain_late_then_due [OF assms(1,8,9,3,2), of MAX_DRAIN_ATTEMPTS thr env 0 format "sync_mode_of env" samples stats] assms
    by (auto simp: audio_timing_read_def timing_read_def MAX_DRAIN_ATTEMPTS_def)
qed

lemma demo_frame:
  assumes "buf_inv b []" "ordered 0 b" "ab_capacity b = 1000" "ab_count b < 999" "in_window 0 ts" "ab_data_ready b < 1000"
    and "frames b = fs" "chunk_ok pcm 1 2"
  obtains b' where "buf_inv b' []" "ordered 0 b'" "ab_capacity b' = 1000" "frames b' = frame_insert (ts, 1, 2, take 2 pcm) fs"
    "ab_data_ready b' = ab_data_ready b + 1" "ab_count b' = length (frames b')"
proof -
  have "0 < ab_free_top b \<or> overfull b" "\<not> overfull b"
    using slots_count [OF assms(1)] assms(3,4) by (auto simp: overfull_def)
  then obtain b' where b': "buf_inv b' []" "ordered 0 b'" "ab_capacity b' = 1000"
      "frames b' = frame_insert (ts, 1, 2, take 2 pcm) fs" "ab_data_ready b' = ab_data_ready b + 1"
    using queue_chunk_insert [OF assms(1,2,5,8), of no_stats] assms(3,6,7) by (auto simp: sem_give_def)
  then show thesis using queued_length [OF b'(1)] by (intro that) (auto simp: frames_def)
qed

lemma demo_one_frame:
  obtains b where "buf_inv b []" "ordered 0 b" "ab_capacity b = 1000" "frames b = [(44100, 1, 2, [3, 4])]" "ab_data_ready b = 1" "ab_count b = 1"
proof -
  have fresh: "ordered 0 fresh_buffer" "ab_capacity fresh_buffer = 1000" "ab_count fresh_buffer < 999" "ab_data_ready fresh_buffer = 0"
    by (simp_all add: ordered_def in_order_def fresh_buffer_facts)
      (simp_all add: fresh_buffer_def audio_buffer_init_def Let_def MAX_RING_BUFFER_FRAMES_def)
  show thesis
    by (rule demo_frame [of fresh_buffer 44100 "[]" "[3, 4]"])
      (use that fresh in \<open>auto simp: buf_run_inv [OF fresh_buffer_run] fresh_buffer_facts in_window_def age_def chunk_ok_def\<close>)
qed

lemma demo_two_frames:
  obtains b where "buf_inv b []" "frames b = [(0, 1, 2, [1, 2]), (44100, 1, 2, [3, 4])]" "ab_data_ready b = 2"
proof (rule demo_one_frame)
  fix b
  assume b: "buf_inv b []" "ordered 0 b" "ab_capacity b = 1000" "frames b = [(44100, 1, 2, [3, 4])]" "ab_data_ready b = 1" "ab_count b = 1"
  show thesis
    by (rule demo_frame [of b 0 "[(44100, 1, 2, [3, 4])]" "[1, 2]"])
      (use b that in \<open>auto simp: in_window_def age_def chunk_ok_def ts_cmp_def\<close>)
qed

lemma demo_timing_fields [simp]:
  "tm_playing demo_timing" "tm_playout_started demo_timing" "\<not> tm_pending_valid demo_timing"
  "\<not> tm_deferred_flush_pending demo_timing" "tm_pending_since_us demo_timing = 0" "tm_anchor_valid demo_timing"
  "tm_anchor_rtp_time demo_timing = 44100" "tm_anchor_local_time_ns demo_timing = 1000000000"
  by (simp_all add: demo_timing_def audio_timing_set_anchor_def audio_timing_init_def Let_def)

lemma demo_early:
  "compute_early_us (demo_env now) a (demo_timing\<lparr>tm_pending_frame := x\<rparr>) demo_format 44100 SYNC_MODE_NONE
     = Some (cdiv (i64 (995000000 - i64 (now * 1000))) 1000)"
  "compute_early_us (demo_env now) a demo_timing demo_format 44100 SYNC_MODE_NONE
     = Some (cdiv (i64 (995000000 - i64 (now * 1000))) 1000)"
  "compute_early_us (demo_env now) a demo_timing demo_format 0 SYNC_MODE_NONE
     = Some (cdiv (i64 (- 5000000 - i64 (now * 1000))) 1000)"
proof -
  have off: "sint (0 - 44100 :: u32) = - 44100" "cdiv (i64 (- 44100000000000)) 44100 = - 1000000000" "cdiv (i64 0) 44100 = 0"
    by (simp_all add: cdiv_def)
  show "compute_early_us (demo_env now) a (demo_timing\<lparr>tm_pending_frame := x\<rparr>) demo_format 44100 SYNC_MODE_NONE
     = Some (cdiv (i64 (995000000 - i64 (now * 1000))) 1000)"
    "compute_early_us (demo_env now) a demo_timing demo_format 44100 SYNC_MODE_NONE
     = Some (cdiv (i64 (995000000 - i64 (now * 1000))) 1000)"
    "compute_early_us (demo_env now) a demo_timing demo_format 0 SYNC_MODE_NONE
     = Some (cdiv (i64 (- 5000000 - i64 (now * 1000))) 1000)"
    using off by (simp_all add: compute_early_us_def demo_env_def demo_format_def PIPELINE_LATENCY_US_def Let_def)
qed

lemma demo_mode [simp]: "sync_mode_of (demo_env now) = SYNC_MODE_NONE" "env_timing_threshold_us (demo_env now) = 10000"
  by (simp_all add: sync_mode_of_def demo_env_def)

theorem late_frames_skipped_witness:
  "\<exists>b t' b'. frames b = [(0, 1, 2, [1, 2]), (44100, 1, 2, [3, 4])]
     \<and> audio_timing_read (demo_env 995000) 103 demo_format 352 demo_timing b no_stats
         = Done ((1, [3, 4]), t', b', no_stats\<lparr>st_late_frames := 1\<rparr>) \<and> frames b' = []"
proof -
  obtain b where b: "buf_inv b []" "frames b = [(0, 1, 2, [1, 2])] @ (44100, 1, 2, [3, 4]) # []" "ab_data_ready b = 2"
    by (rule demo_two_frames) auto
  have "\<exists>t' b'. audio_timing_read (demo_env 995000) 103 demo_format 352 demo_timing b no_stats
      = Done (frame_out 352 (44100, 1, 2, [3, 4]), t', b', no_stats\<lparr>st_late_frames := st_late_frames no_stats
          + of_nat (length [(0 :: u32, 1 :: nat, 2 :: nat, [1, 2] :: u16 list)])\<rparr>) \<and> buf_inv b' [] \<and> frames b' = []"
    by (rule late_frames_skipped [OF b(1,2), where thr = 10000])
      (simp_all add: b(3) audio_stream_uses_buffer_def AUDIO_STREAM_BUFFERED_def late_def due_def demo_early cdiv_def)
  with b(2) show ?thesis by (auto simp: frame_out_def no_stats_def)
qed

text \<open>
  An early frame is delayed, not lost: the call that finds it early returns silence and keeps it; when at a
  later call the clock has caught up, that call returns exactly the samples of this frame, and
  the queue behind it is unchanged.
\<close>

theorem early_frame_played_later:
  assumes "buf_inv b out" "frames b = f # fs" "0 < ab_data_ready b" "pending_ok t"
    and "0 < samples" "tm_playing t" "tm_playout_started t" "\<not> tm_pending_valid t" "\<not> tm_deferred_flush_pending t"
    and "tm_pending_since_us t = 0"
    and "thr = (if audio_stream_uses_buffer ty then env_timing_threshold_us env else env_rt_timing_threshold_us env)"
    and "thr2 = (if audio_stream_uses_buffer ty then env_timing_threshold_us env2 else env_rt_timing_threshold_us env2)"
    and "0 \<le> thr" "early env 0 t format thr (sync_mode_of env) f" "due env2 0 t format thr2 (sync_mode_of env2) f"
  shows "\<exists>t1 b1. audio_timing_read env ty format samples t b stats
       = Done ((samples, replicate (samples * fst (snd (snd f))) 0), t1, b1, stats)
     \<and> buf_inv b1 out \<and> frames b1 = fs
     \<and> (\<exists>t2. audio_timing_read env2 ty format samples t1 b1 stats = Done (frame_out samples f, t2, b1, stats))"
proof -
  obtain t1 b1 where h: "timing_attempt env frame_at audio_buffer_take audio_buffer_return audio_buffer_flush format thr
        (sync_mode_of env) samples 0 t b stats = Done (Some (samples, replicate (samples * fst (snd (snd f))) 0), t1, b1, stats)"
      "buf_inv b1 out" "frames b1 = fs" "holding t1 f"
      "t1 = t\<lparr>tm_pending_frame := tm_pending_frame t1, tm_pending_frame_len := tm_pending_frame_len t1,
              tm_pending_valid := True, tm_pending_since_us := env_hold_now_us env 0\<rparr>"
    using ab.attempt_early [OF assms(1,8,9,3,2,14,13,4)] assms(10) by blast
  have same: "tm_playing t1" "tm_playout_started t1" "\<not> tm_deferred_flush_pending t1"
    using assms(6,7,9) by (subst h(5), simp)+
  have "compute_early_us env2 0 t1 format (fst f) (sync_mode_of env2) = compute_early_us env2 0 t format (fst f) (sync_mode_of env2)"
    by (subst h(5)) (cases "sync_mode_of env2"; simp add: compute_early_us_def Let_def)
  then have "due env2 0 t1 format thr2 (sync_mode_of env2) f" using assms(15) by (simp add: due_def)
  from ab.attempt_held_due [OF h(2,4) same(3) this, of samples stats] obtain t2 where
    "timing_attempt env2 frame_at audio_buffer_take audio_buffer_return audio_buffer_flush format thr2 (sync_mode_of env2)
       samples 0 t1 b1 stats = Done (Some (frame_out samples f), t2, b1, stats)" by blast
  then show ?thesis
    using h(1-3) same assms(5-7,11,12)
    by (auto simp: audio_timing_read_def timing_read_def startup_gate_def MAX_DRAIN_ATTEMPTS_def numeral_eq_Suc Let_def)
qed

theorem early_frame_played_later_witness:
  "\<exists>b t1 b1 t2. audio_timing_read (demo_env 0) 103 demo_format 4 demo_timing b no_stats = Done ((4, replicate 8 0), t1, b1, no_stats)
     \<and> audio_timing_read (demo_env 995000) 103 demo_format 4 t1 b1 no_stats = Done ((1, [3, 4]), t2, b1, no_stats)"
proof -
  obtain b where b: "buf_inv b []" "frames b = [(44100, 1, 2, [3, 4])]" "0 < ab_data_ready b"
    by (rule demo_one_frame) auto
  have "\<exists>t1 b1. audio_timing_read (demo_env 0) 103 demo_format 4 demo_timing b no_stats
       = Done ((4, replicate (4 * fst (snd (snd (44100 :: u32, 1 :: nat, 2 :: nat, [3, 4] :: u16 list)))) 0), t1, b1, no_stats)
     \<and> buf_inv b1 [] \<and> frames b1 = []
     \<and> (\<exists>t2. audio_timing_read (demo_env 995000) 103 demo_format 4 t1 b1 no_stats
            = Done (frame_out 4 (44100, 1, 2, [3, 4]), t2, b1, no_stats))"
    by (rule early_frame_played_later [OF b demo_timing_pending, where thr = 10000 and ?thr2.0 = 10000])
      (simp_all add: audio_stream_uses_buffer_def AUDIO_STREAM_BUFFERED_def early_def due_def demo_early cdiv_def)
  then show ?thesis by (auto simp: frame_out_def)
qed

text \<open>
  A failed allocation of the pending buffer turns every early frame into a lost slot: \<open>audio_timing_init\<close> does
  not report it, and when a frame is early the call returns silence while the slot it
  took is neither returned nor remembered. Each such call makes the pool one slot smaller.
\<close>

theorem no_pending_buffer_leaks:
  assumes "buf_inv b out" "frames b = f # fs" "0 < ab_data_ready b" "tm_pending_frame t = None"
    and "0 < samples" "tm_playing t" "tm_playout_started t" "\<not> tm_pending_valid t" "\<not> tm_deferred_flush_pending t"
    and "tm_pending_since_us t = 0"
    and "thr = (if audio_stream_uses_buffer ty then env_timing_threshold_us env else env_rt_timing_threshold_us env)"
    and "early env 0 t format thr (sync_mode_of env) f"
  shows "\<exists>n d t' b' slot. audio_timing_read env ty format samples t b stats = Done ((n, d), t', b', stats)
     \<and> buf_inv b' (slot # out) \<and> \<not> tm_pending_valid t'"
  using ab.attempt_early_no_buffer [OF assms(1,8,9,3,2,12,4,10), of samples stats] assms(5-7,11)
  by (auto simp: audio_timing_read_def timing_read_def startup_gate_def MAX_DRAIN_ATTEMPTS_def numeral_eq_Suc Let_def)

theorem no_pending_buffer_leaks_witness:
  "\<exists>b b' n d t' slot. buf_inv b []
     \<and> audio_timing_read (demo_env 0) 103 demo_format 4 (demo_timing\<lparr>tm_pending_frame := None\<rparr>) b no_stats
         = Done ((n, d), t', b', no_stats) \<and> buf_inv b' [slot]"
proof -
  obtain b where b: "buf_inv b []" "frames b = [(44100, 1, 2, [3, 4])]" "0 < ab_data_ready b"
    by (rule demo_one_frame) auto
  have "\<exists>n d t' b' slot. audio_timing_read (demo_env 0) 103 demo_format 4 (demo_timing\<lparr>tm_pending_frame := None\<rparr>) b no_stats
      = Done ((n, d), t', b', no_stats) \<and> buf_inv b' (slot # []) \<and> \<not> tm_pending_valid t'"
    by (rule no_pending_buffer_leaks [OF b, where thr = 10000])
      (simp_all add: audio_stream_uses_buffer_def AUDIO_STREAM_BUFFERED_def early_def demo_early cdiv_def)
  with b(1) show ?thesis by blast
qed

end
