(* ===== verification/Audio_Receiver.thy ===== *)
theory Audio_Receiver
  imports Audio_Timing Ptp_Clock
begin

text \<open>
  The receiver that ties the jitter buffer, the scheduler and the PTP clock together
  (\<open>main/audio/audio_receiver.c\<close>) and the gate that frames pass before they are queued
  (\<open>audio_stream_process_frame\<close> in \<open>main/audio/audio_stream.c\<close>). The RTSP handlers call
  these functions to flush, seek, pause and re-anchor a stream. The sockets and tasks of the two
  stream kinds are reached through their operation table; the model keeps the \<open>running\<close>
  flag and takes the result of a start as an argument. The decoder is an argument too.
\<close>

section \<open>The model\<close>

definition DEFAULT_SAMPLE_RATE :: int where "DEFAULT_SAMPLE_RATE = 44100"

definition default_format :: audio_format where
  "default_format = \<lparr>af_codec = asc ''AppleLossless'', af_sample_rate = DEFAULT_SAMPLE_RATE, af_channels = 2,
     af_bits_per_sample = 16, af_frame_size = 352, af_max_samples_per_frame = 0, af_sample_size = 0,
     af_rice_history_mult = 0, af_rice_initial_history = 0, af_rice_limit = 0, af_num_channels = 0, af_max_run = 0,
     af_max_coded_frame_size = 0, af_avg_bit_rate = 0, af_sample_rate_config = 0\<rparr>"

text \<open>
  The two stream objects; \<open>rx_stream\<close> selects the active one. Their encryption settings do not
  influence the functions below and are left out.
\<close>

datatype stream_kind = Realtime | Buffered

record audio_stream =
  as_type :: int
  as_running :: bool
  as_format :: audio_format

record audio_receiver =
  rx_stream :: stream_kind
  rx_realtime :: audio_stream
  rx_buffered :: audio_stream
  rx_buffer :: audio_buffer
  rx_timing :: audio_timing
  rx_stats :: audio_stats
  rx_ptp :: ptp
  rx_has_decoder :: bool
  rx_blocks_read :: u64
  rx_blocks_read_in_sequence :: u64
  rx_retransmit_enabled :: bool
  rx_discard_before_rtp :: u32
  rx_discard_before_rtp_valid :: bool
  rx_discard_above_rtp :: u32
  rx_discard_above_rtp_valid :: bool
  rx_arm_gate_on_next_anchor :: bool
  rx_discard_all_until_anchor :: bool
  rx_paused_rtp :: u32
  rx_paused_rtp_valid :: bool

definition active_stream :: "audio_receiver \<Rightarrow> audio_stream" where
  "active_stream r = (case rx_stream r of Realtime \<Rightarrow> rx_realtime r | Buffered \<Rightarrow> rx_buffered r)"

definition set_active_stream :: "audio_stream \<Rightarrow> audio_receiver \<Rightarrow> audio_receiver" where
  "set_active_stream s r = (case rx_stream r of Realtime \<Rightarrow> r\<lparr>rx_realtime := s\<rparr> | Buffered \<Rightarrow> r\<lparr>rx_buffered := s\<rparr>)"

definition audio_receiver_reset_blocks :: "audio_receiver \<Rightarrow> audio_receiver" where
  "audio_receiver_reset_blocks r = r\<lparr>rx_blocks_read := 0, rx_blocks_read_in_sequence := 0\<rparr>"

subsection \<open>Initialisation\<close>

text \<open>
  The answers of the allocators: the mutex, the two stream objects, the arrays of the jitter buffer, the
  decryption buffer and the pending frame. The \<open>NULL\<close> stream pointers that a failed call leaves are not
  represented; such a receiver has no pool.
\<close>

record rx_alloc =
  al_mutex :: bool
  al_streams :: bool
  al_pool :: "audio_frame list option"
  al_sorted :: "nat list option"
  al_free :: "nat list option"
  al_sem :: bool
  al_decode :: bool
  al_decrypt :: bool
  al_pending :: "audio_frame option"

definition audio_receiver_init :: "rx_alloc \<Rightarrow> audio_receiver \<Rightarrow> esp_err \<times> audio_receiver" where
  "audio_receiver_init al r =
     (if ab_pool (rx_buffer r) \<noteq> [] then (ESP_OK, r)
      else if \<not> al_mutex al then (ESP_ERR_NO_MEM, r)
      else if \<not> al_streams al then (ESP_ERR_NO_MEM, r)
      else
        let r = r\<lparr>rx_stream := Realtime,
                  rx_realtime := \<lparr>as_type = AUDIO_STREAM_REALTIME, as_running = False, as_format = default_format\<rparr>,
                  rx_buffered := \<lparr>as_type = AUDIO_STREAM_BUFFERED, as_running = False, as_format = default_format\<rparr>\<rparr> in
        case audio_buffer_init (al_pool al) (al_sorted al) (al_free al) (al_sem al) (al_decode al) of (err, b) \<Rightarrow>
        let r = r\<lparr>rx_buffer := b\<rparr> in
        if err \<noteq> ESP_OK then (err, r)
        else if \<not> al_decrypt al then (ESP_ERR_NO_MEM, r\<lparr>rx_buffer := audio_buffer_deinit b\<rparr>)
        else
          let t = audio_timing_init (FRAME_HEADER_SIZE + MAX_SAMPLES_PER_FRAME * AUDIO_MAX_CHANNELS * 2) (al_pending al);
              r = r\<lparr>rx_timing := audio_timing_set_format t (as_format (active_stream r))\<rparr> in
          (ESP_OK, audio_receiver_reset_blocks r))"

subsection \<open>Frames on their way into the buffer\<close>

text \<open>
  The decoder's answer to a packet: the content of the decode buffer, the samples per channel it decoded and
  the channels it reports; \<open>None\<close> when it decodes nothing.
\<close>

type_synonym decoded = "(u16 list \<times> nat \<times> int) option"

definition apply_aac_transient_mute :: "bool \<Rightarrow> audio_receiver \<Rightarrow> u16 list \<Rightarrow> nat \<Rightarrow> int \<Rightarrow> u16 list cres" where
  "apply_aac_transient_mute is_aac r buffer samples channels =
     (if is_aac \<and> rx_blocks_read_in_sequence r \<le> 2 \<and> rx_blocks_read_in_sequence r \<noteq> rx_blocks_read r then
        let n = samples * nat channels in
        if n \<le> length buffer then Done (replicate n 0 @ drop n buffer) else Fault
      else Done buffer)"

text \<open>The seek gates: whether the frame passes, and the gates after it.\<close>

definition pass_gates :: "audio_receiver \<Rightarrow> u32 \<Rightarrow> bool \<times> audio_receiver" where
  "pass_gates r timestamp =
     (if rx_discard_all_until_anchor r then (False, r)
      else if rx_discard_before_rtp_valid r \<and> sint (timestamp - rx_discard_before_rtp r) < 0 then (False, r)
      else
        let r = r\<lparr>rx_discard_before_rtp_valid := False\<rparr> in
        if rx_discard_above_rtp_valid r \<and> sint (timestamp - rx_discard_above_rtp r) > 0 then (False, r)
        else (True, r\<lparr>rx_discard_above_rtp_valid := False\<rparr>))"

definition audio_stream_process_frame ::
    "bool \<Rightarrow> audio_receiver \<Rightarrow> u32 \<Rightarrow> decoded \<Rightarrow> (bool \<times> audio_receiver) cres" where
  "audio_stream_process_frame is_aac r timestamp decoded =
     (case pass_gates r timestamp of
        (False, r) \<Rightarrow> Done (False, r)
      | (True, r) \<Rightarrow>
          if \<not> rx_has_decoder r then Done (False, r)
          else if audio_buffer_get_decode_buffer (rx_buffer r) = 0 then Done (False, r)
          else (case decoded of
              None \<Rightarrow> Done (False, r)
            | Some (pcm, samples, info_channels) \<Rightarrow>
                if samples = 0 then Done (False, r)
                else
                  let channels = (if info_channels > 0 then info_channels else af_channels (as_format (active_stream r)));
                      channels = (if channels \<le> 0 then 2 else channels) in
                  cbind (apply_aac_transient_mute is_aac r pcm samples channels) (\<lambda>pcm.
                  cbind (audio_buffer_queue_decoded (rx_buffer r) (rx_stats r) timestamp pcm samples channels)
                    (\<lambda>(ok, b, st). Done (ok, r\<lparr>rx_buffer := b, rx_stats := st\<rparr>)))))"

subsection \<open>Flushing and pausing\<close>

definition audio_receiver_flush :: "audio_receiver \<Rightarrow> audio_receiver cres" where
  "audio_receiver_flush r =
     cbind (audio_buffer_flush (rx_buffer r)) (\<lambda>b.
       Done (r\<lparr>rx_buffer := b, rx_timing := audio_timing_reset (rx_timing r), rx_discard_before_rtp_valid := False,
               rx_discard_above_rtp_valid := False, rx_arm_gate_on_next_anchor := False,
               rx_discard_all_until_anchor := False, rx_paused_rtp_valid := False, rx_blocks_read_in_sequence := 1\<rparr>))"

definition audio_receiver_seek_flush :: "audio_receiver \<Rightarrow> audio_receiver cres" where
  "audio_receiver_seek_flush r =
     cbind (audio_receiver_flush r) (\<lambda>r.
       Done (r\<lparr>rx_timing := (rx_timing r)\<lparr>tm_quick_start := True\<rparr>, rx_arm_gate_on_next_anchor := True,
               rx_discard_all_until_anchor := True\<rparr>))"

definition audio_receiver_set_deferred_flush :: "u32 \<Rightarrow> audio_receiver \<Rightarrow> audio_receiver" where
  "audio_receiver_set_deferred_flush flush_until_ts r =
     r\<lparr>rx_timing := (rx_timing r)\<lparr>tm_flush_until_ts := flush_until_ts, tm_deferred_flush_pending := True\<rparr>\<rparr>"

definition audio_receiver_pause :: "audio_receiver \<Rightarrow> audio_receiver" where
  "audio_receiver_pause r =
     r\<lparr>rx_timing := audio_timing_set_playing (rx_timing r) False, rx_blocks_read_in_sequence := 0\<rparr>"

definition audio_receiver_reset_timing :: "audio_receiver \<Rightarrow> audio_receiver" where
  "audio_receiver_reset_timing r = r\<lparr>rx_timing := audio_timing_reset (rx_timing r)\<rparr>"

definition audio_receiver_is_playing :: "audio_receiver \<Rightarrow> bool" where
  "audio_receiver_is_playing r = tm_playing (rx_timing r)"

text \<open>The RTP position estimated from the anchor and the elapsed time, at most ten minutes.\<close>

definition stream_rate :: "audio_receiver \<Rightarrow> int" where
  "stream_rate r = (let sr = af_sample_rate (as_format (active_stream r)) in if sr \<le> 0 then 44100 else sr)"

definition elapsed_rtp :: "int \<Rightarrow> audio_receiver \<Rightarrow> u32" where
  "elapsed_rtp now_us r =
     (let elapsed_us = i64 (now_us - cdiv (tm_anchor_local_time_ns (rx_timing r)) 1000);
          elapsed_us = min (max elapsed_us 0) 600000000;
          elapsed_samples = (of_int (cdiv (i64 (elapsed_us * stream_rate r)) 1000000) :: u32) in
      tm_anchor_rtp_time (rx_timing r) + elapsed_samples)"

definition audio_receiver_set_playing :: "int \<Rightarrow> bool \<Rightarrow> audio_receiver \<Rightarrow> audio_receiver" where
  "audio_receiver_set_playing now_us playing r =
     (let r = r\<lparr>rx_timing := audio_timing_set_playing (rx_timing r) playing\<rparr> in
      if \<not> playing then
        let r = r\<lparr>rx_blocks_read_in_sequence := 0\<rparr> in
        if tm_anchor_valid (rx_timing r)
        then r\<lparr>rx_paused_rtp := elapsed_rtp now_us r, rx_paused_rtp_valid := True\<rparr> else r
      else r)"

subsection \<open>The anchor\<close>

definition i32 :: "int \<Rightarrow> int" where
  "i32 x = signed_take_bit 31 x"

definition abs32 :: "int \<Rightarrow> int" where
  "abs32 d = (if d < 0 then i32 (- d) else d)"

definition arm_gates :: "u32 \<Rightarrow> audio_receiver \<Rightarrow> audio_receiver" where
  "arm_gates rtp_time r =
     r\<lparr>rx_discard_before_rtp := rtp_time, rx_discard_before_rtp_valid := True,
       rx_discard_above_rtp := rtp_time + of_int (10 * stream_rate r), rx_discard_above_rtp_valid := True\<rparr>"

text \<open>The reset of the scheduler after a detected seek: flush and start with the first frame.\<close>

definition seek_reset :: "audio_receiver \<Rightarrow> audio_receiver cres" where
  "seek_reset r =
     cbind (audio_buffer_flush (rx_buffer r)) (\<lambda>b.
       Done (r\<lparr>rx_buffer := b, rx_blocks_read_in_sequence := 0,
               rx_timing := (rx_timing r)\<lparr>tm_playout_started := False, tm_pending_valid := False, tm_pending_frame_len := 0,
                 tm_ready_time_us := 0, tm_deferred_flush_pending := False, tm_quick_start := True\<rparr>\<rparr>))"

text \<open>
  The reference position for the comparison with the new anchor: the snapshot of the last pause, used once
  (a long pause resets the smoothing of the PTP clock), or else the estimate from the elapsed time.
\<close>

definition reference_position :: "int \<Rightarrow> audio_receiver \<Rightarrow> u32 \<times> audio_receiver" where
  "reference_position now_us r =
     (if rx_paused_rtp_valid r then
        let played = sint (rx_paused_rtp r - tm_anchor_rtp_time (rx_timing r));
            pause_time_us = i64 (cdiv (tm_anchor_local_time_ns (rx_timing r)) 1000
                                 + cdiv (i64 (played * 1000000)) (stream_rate r));
            pause_us = i64 (now_us - pause_time_us);
            pause_ms = (if pause_us > 0 then of_int (cdiv pause_us 1000) else 0) in
        (rx_paused_rtp r, r\<lparr>rx_paused_rtp_valid := False, rx_ptp := ptp_clock_notify_resume pause_ms (rx_ptp r)\<rparr>)
      else (elapsed_rtp now_us r, r))"

text \<open>First phase: the gates are armed before the blanket gate opens. The flag tells whether they are.\<close>

definition anchor_gates :: "int \<Rightarrow> u32 \<Rightarrow> audio_receiver \<Rightarrow> (bool \<times> audio_receiver) cres" where
  "anchor_gates now_us rtp_time r =
     (if rx_arm_gate_on_next_anchor r then
        Done (True, arm_gates rtp_time (r\<lparr>rx_arm_gate_on_next_anchor := False\<rparr>))
      else if tm_anchor_valid (rx_timing r) then
        (case reference_position now_us r of (reference_rtp, r) \<Rightarrow>
           if abs32 (sint (rtp_time - reference_rtp)) > i32 (5 * stream_rate r) then
             cbind (seek_reset r) (\<lambda>r. Done (True, arm_gates rtp_time r))
           else Done (False, r))
      else Done (False, r))"

text \<open>Second phase: stale content of the buffer is detected by its oldest timestamp.\<close>

definition anchor_stale_check :: "bool \<Rightarrow> u32 \<Rightarrow> audio_receiver \<Rightarrow> audio_receiver cres" where
  "anchor_stale_check gates_armed rtp_time r =
     cbind (audio_buffer_oldest_timestamp (rx_buffer r)) (\<lambda>oldest. case oldest of
         None \<Rightarrow> Done r
       | Some oldest_rtp \<Rightarrow>
           if abs32 (sint (oldest_rtp - rtp_time)) > i32 (5 * stream_rate r) then
             cbind (seek_reset r) (\<lambda>r. Done (if gates_armed then r else arm_gates rtp_time r))
           else Done r)"

definition audio_receiver_set_anchor_time ::
    "u32 \<Rightarrow> int \<Rightarrow> u64 \<Rightarrow> u64 \<Rightarrow> u32 \<Rightarrow> audio_receiver \<Rightarrow> audio_receiver cres" where
  "audio_receiver_set_anchor_time now_ms now_us clock_id network_time_ns rtp_time r =
     cbind (anchor_gates now_us rtp_time r) (\<lambda>(gates_armed, r).
     cbind (anchor_stale_check gates_armed rtp_time (r\<lparr>rx_discard_all_until_anchor := False\<rparr>)) (\<lambda>r.
       let p = (if clock_id \<noteq> 0 then ptp_clock_set_master_clock_id clock_id (rx_ptp r) else rx_ptp r) in
       case ptp_clock_is_locked now_ms p of (ptp_locked, p) \<Rightarrow>
         Done (r\<lparr>rx_ptp := p, rx_timing := audio_timing_set_anchor now_us ptp_locked (rx_timing r) network_time_ns rtp_time\<rparr>)))"

subsection \<open>Streams\<close>

text \<open>Switching copies the format to the target and stops the stream that was active.\<close>

definition audio_receiver_set_stream_type :: "int \<Rightarrow> audio_receiver \<Rightarrow> audio_receiver" where
  "audio_receiver_set_stream_type type r =
     (let target = (if type = AUDIO_STREAM_BUFFERED then Buffered else Realtime);
          r = (if rx_stream r \<noteq> target then
                 let old = active_stream r;
                     r = set_active_stream (old\<lparr>as_running := False\<rparr>) r;
                     r = r\<lparr>rx_stream := target\<rparr> in
                 set_active_stream ((active_stream r)\<lparr>as_format := as_format old\<rparr>) r
               else r) in
      set_active_stream ((active_stream r)\<lparr>as_type := type\<rparr>) r)"

text \<open>The common tail of the start functions: everything is reset, then the stream starts with result \<open>err\<close>.\<close>

definition restart_stream :: "u32 \<Rightarrow> esp_err \<Rightarrow> audio_receiver \<Rightarrow> (esp_err \<times> audio_receiver) cres" where
  "restart_stream now_ms err r =
     (let r = r\<lparr>rx_stats := no_stats\<rparr> in
      cbind (audio_buffer_flush (rx_buffer r)) (\<lambda>b.
        case ptp_clock_is_locked now_ms (rx_ptp r) of (ptp_locked, p) \<Rightarrow>
        let r = r\<lparr>rx_buffer := b, rx_ptp := p, rx_timing := (audio_timing_reset (rx_timing r))\<lparr>tm_ptp_locked := ptp_locked\<rparr>\<rparr>;
            r = audio_receiver_reset_blocks r in
        Done (err, set_active_stream ((active_stream r)\<lparr>as_running := (err = ESP_OK)\<rparr>) r)))"

definition audio_receiver_start :: "u32 \<Rightarrow> esp_err \<Rightarrow> audio_receiver \<Rightarrow> (esp_err \<times> audio_receiver) cres" where
  "audio_receiver_start now_ms err r = restart_stream now_ms err (audio_receiver_set_stream_type AUDIO_STREAM_REALTIME r)"

definition audio_receiver_start_buffered :: "u32 \<Rightarrow> esp_err \<Rightarrow> audio_receiver \<Rightarrow> (esp_err \<times> audio_receiver) cres" where
  "audio_receiver_start_buffered now_ms err r =
     (let r = audio_receiver_set_stream_type AUDIO_STREAM_BUFFERED r in
      if as_running (active_stream r) then Done (ESP_OK, r) else restart_stream now_ms err r)"

definition audio_receiver_start_stream :: "u32 \<Rightarrow> esp_err \<Rightarrow> audio_receiver \<Rightarrow> (esp_err \<times> audio_receiver) cres" where
  "audio_receiver_start_stream now_ms err r =
     (if as_type (active_stream r) = AUDIO_STREAM_BUFFERED then audio_receiver_start_buffered now_ms err r
      else audio_receiver_start now_ms err r)"

definition audio_receiver_set_client_control :: "u32 \<Rightarrow> u16 \<Rightarrow> audio_receiver \<Rightarrow> audio_receiver" where
  "audio_receiver_set_client_control client_ip client_control_port r =
     r\<lparr>rx_retransmit_enabled := (client_ip \<noteq> 0 \<and> client_control_port \<noteq> 0)\<rparr>"

definition audio_receiver_stop :: "audio_receiver \<Rightarrow> audio_receiver cres" where
  "audio_receiver_stop r =
     audio_receiver_flush (r\<lparr>rx_realtime := (rx_realtime r)\<lparr>as_running := False\<rparr>,
       rx_buffered := (rx_buffered r)\<lparr>as_running := False\<rparr>, rx_has_decoder := False, rx_retransmit_enabled := False\<rparr>)"

definition audio_receiver_stop_buffered_only :: "audio_receiver \<Rightarrow> audio_receiver" where
  "audio_receiver_stop_buffered_only r = r\<lparr>rx_buffered := (rx_buffered r)\<lparr>as_running := False\<rparr>\<rparr>"

text \<open>A new decoder for the format, unless its creation failed (\<open>decoder_ok\<close>).\<close>

definition audio_receiver_set_format :: "bool \<Rightarrow> audio_format \<Rightarrow> audio_receiver \<Rightarrow> audio_receiver" where
  "audio_receiver_set_format decoder_ok format r =
     (if \<not> decoder_ok then r
      else r\<lparr>rx_has_decoder := True, rx_realtime := (rx_realtime r)\<lparr>as_format := format\<rparr>,
             rx_buffered := (rx_buffered r)\<lparr>as_format := format\<rparr>,
             rx_timing := audio_timing_set_format (rx_timing r) format\<rparr>)"

definition audio_receiver_set_output_latency_us :: "u32 \<Rightarrow> audio_receiver \<Rightarrow> audio_receiver" where
  "audio_receiver_set_output_latency_us latency_us r =
     r\<lparr>rx_timing := audio_timing_set_output_latency (rx_timing r) (as_format (active_stream r)) latency_us\<rparr>"

definition audio_receiver_read ::
    "timing_env \<Rightarrow> nat \<Rightarrow> audio_receiver \<Rightarrow> (read_out \<times> audio_receiver) cres" where
  "audio_receiver_read env samples r =
     (if ab_pool (rx_buffer r) = [] \<or> samples = 0 then Done ((0, []), r)
      else cbind (audio_timing_read env (as_type (active_stream r)) (as_format (active_stream r)) samples
                    (rx_timing r) (rx_buffer r) (rx_stats r))
             (\<lambda>(out, t, b, st). Done (out, r\<lparr>rx_timing := t, rx_buffer := b, rx_stats := st\<rparr>)))"

definition audio_receiver_has_data :: "audio_receiver \<Rightarrow> bool" where
  "audio_receiver_has_data r \<longleftrightarrow> audio_buffer_get_frame_count (rx_buffer r) > 0 \<or> tm_pending_valid (rx_timing r)"

record audio_runtime_stats =
  rs_counters :: audio_stats
  rs_buffer_frames :: u32
  rs_buffer_capacity_frames :: u32
  rs_buffer_samples :: u32
  rs_output_latency_us :: u32
  rs_advertised_latency_us :: u32
  rs_playing :: bool
  rs_playout_started :: bool
  rs_anchor_valid :: bool
  rs_stream_type :: int
  rs_format :: audio_format

definition audio_receiver_get_runtime_stats :: "u32 \<Rightarrow> audio_receiver \<Rightarrow> audio_runtime_stats" where
  "audio_receiver_get_runtime_stats hardware_latency_us r =
     \<lparr>rs_counters = rx_stats r, rs_buffer_frames = of_nat (audio_buffer_get_frame_count (rx_buffer r)),
      rs_buffer_capacity_frames = of_nat MAX_RING_BUFFER_FRAMES,
      rs_buffer_samples = of_nat (audio_buffer_get_sample_count (rx_buffer r)),
      rs_output_latency_us = audio_timing_get_output_latency (rx_timing r),
      rs_advertised_latency_us = audio_timing_get_advertised_latency hardware_latency_us (Some (rx_timing r)),
      rs_playing = tm_playing (rx_timing r), rs_playout_started = tm_playout_started (rx_timing r),
      rs_anchor_valid = tm_anchor_valid (rx_timing r), rs_stream_type = as_type (active_stream r),
      rs_format = as_format (active_stream r)\<rparr>"

section \<open>The receiver keeps its buffer and its scheduler intact\<close>

definition rx_inv :: "audio_receiver \<Rightarrow> bool" where
  "rx_inv r \<longleftrightarrow> buf_inv (rx_buffer r) [] \<and> pending_ok (rx_timing r)"

definition rx_keeps :: "audio_receiver cres \<Rightarrow> bool" where
  "rx_keeps c \<longleftrightarrow> (\<exists>r. c = Done r \<and> rx_inv r)"

lemma rx_keepsD: "rx_keeps c \<Longrightarrow> c = Done r \<Longrightarrow> rx_inv r"
  by (auto simp: rx_keeps_def)

lemma pending_ok_ops [simp]:
  "pending_ok t \<Longrightarrow> pending_ok (audio_timing_reset t)"
  "pending_ok t \<Longrightarrow> pending_ok (audio_timing_set_playing t playing)"
  "pending_ok (audio_timing_set_anchor now_us ptp_locked t net rtp) = pending_ok t"
  "pending_ok (update_timing_targets t format) = pending_ok t"
  "pending_ok (t\<lparr>tm_output_latency_us := l\<rparr>) = pending_ok t"
  "pending_ok (t\<lparr>tm_quick_start := q\<rparr>) = pending_ok t" "pending_ok (t\<lparr>tm_ptp_locked := pl\<rparr>) = pending_ok t"
  "pending_ok (t\<lparr>tm_flush_until_ts := u, tm_deferred_flush_pending := d\<rparr>) = pending_ok t"
  "pending_ok t \<Longrightarrow> pending_ok (t\<lparr>tm_playout_started := ps, tm_pending_valid := False, tm_pending_frame_len := n,
     tm_ready_time_us := rt, tm_deferred_flush_pending := d, tm_quick_start := q\<rparr>)"
  "pending_ok t \<Longrightarrow> pending_ok (t\<lparr>tm_playout_started := ps, tm_pending_valid := False, tm_pending_frame_len := n,
     tm_ready_time_us := rt, tm_deferred_flush_pending := d\<rparr>)"
  by (simp_all add: pending_ok_def audio_timing_reset_def audio_timing_set_playing_def clear_pending_def Let_def
      audio_timing_set_anchor_def update_timing_targets_def)

lemma active_stream_fields [simp]:
  "rx_buffer (set_active_stream s r) = rx_buffer r" "rx_timing (set_active_stream s r) = rx_timing r"
  "rx_ptp (set_active_stream s r) = rx_ptp r" "rx_stats (set_active_stream s r) = rx_stats r"
  by (simp_all add: set_active_stream_def split: stream_kind.split)

lemma set_stream_type_fields [simp]:
  "rx_buffer (audio_receiver_set_stream_type type r) = rx_buffer r"
  "rx_timing (audio_receiver_set_stream_type type r) = rx_timing r"
  by (simp_all add: audio_receiver_set_stream_type_def Let_def)

lemma flush_inv:
  assumes "buf_inv b []"
  obtains b' where "audio_buffer_flush b = Done b'" "buf_inv b' []" "frames b' = []"
  by (rule flush_spec [OF assms]) blast

lemma arm_gates_fields [simp]:
  "rx_buffer (arm_gates rtp r) = rx_buffer r" "rx_timing (arm_gates rtp r) = rx_timing r"
  "rx_discard_all_until_anchor (arm_gates rtp r) = rx_discard_all_until_anchor r" "rx_ptp (arm_gates rtp r) = rx_ptp r"
  by (simp_all add: arm_gates_def)

lemma seek_reset_inv: "rx_inv r \<Longrightarrow> rx_keeps (seek_reset r)"
  unfolding rx_inv_def by (elim conjE, erule flush_inv) (simp add: rx_keeps_def rx_inv_def seek_reset_def)

lemma reference_fields [simp]:
  "rx_buffer (snd (reference_position now_us r)) = rx_buffer r" "rx_timing (snd (reference_position now_us r)) = rx_timing r"
  by (simp_all add: reference_position_def Let_def)

lemma anchor_gates_inv:
  assumes "rx_inv r"
  shows "\<exists>g r'. anchor_gates now_us rtp r = Done (g, r') \<and> rx_inv r'"
proof -
  obtain ref r1 where r1: "reference_position now_us r = (ref, r1)" by fastforce
  then have "rx_inv r1" using assms reference_fields [of now_us r] by (simp add: rx_inv_def)
  then obtain r2 where "seek_reset r1 = Done r2" "rx_inv r2" using seek_reset_inv by (auto simp: rx_keeps_def)
  then show ?thesis
    using assms r1 \<open>rx_inv r1\<close> by (auto simp: anchor_gates_def rx_inv_def)
qed

lemma anchor_stale_check_inv:
  assumes "rx_inv r"
  shows "rx_keeps (anchor_stale_check g rtp r)"
proof -
  have b: "buf_inv (rx_buffer r) []" using assms by (simp add: rx_inv_def)
  obtain r2 where "seek_reset r = Done r2" "rx_inv r2" using seek_reset_inv [OF assms] by (auto simp: rx_keeps_def)
  then show ?thesis
    using assms by (auto simp: anchor_stale_check_def oldest_timestamp_spec [OF b] rx_keeps_def rx_inv_def split: list.split)
qed

lemma set_anchor_inv:
  assumes "rx_inv r"
  shows "rx_keeps (audio_receiver_set_anchor_time now_ms now_us clock_id net rtp r)"
proof -
  obtain g r1 where r1: "anchor_gates now_us rtp r = Done (g, r1)" "rx_inv r1" using anchor_gates_inv [OF assms] by blast
  then have "rx_inv (r1\<lparr>rx_discard_all_until_anchor := False\<rparr>)" by (simp add: rx_inv_def)
  then obtain r2 where "anchor_stale_check g rtp (r1\<lparr>rx_discard_all_until_anchor := False\<rparr>) = Done r2" "rx_inv r2"
    using anchor_stale_check_inv unfolding rx_keeps_def by blast
  with r1 show ?thesis
    unfolding rx_keeps_def by (simp add: audio_receiver_set_anchor_time_def rx_inv_def Let_def split: prod.split)
qed

lemma rx_flush_inv: "rx_inv r \<Longrightarrow> rx_keeps (audio_receiver_flush r)"
  unfolding rx_inv_def by (elim conjE, erule flush_inv) (simp add: rx_keeps_def rx_inv_def audio_receiver_flush_def)

lemma rx_seek_flush_inv: "rx_inv r \<Longrightarrow> rx_keeps (audio_receiver_seek_flush r)"
  using rx_flush_inv [of r] by (auto simp: rx_keeps_def audio_receiver_seek_flush_def rx_inv_def)

lemma rx_stop_inv: "rx_inv r \<Longrightarrow> rx_keeps (audio_receiver_stop r)"
  unfolding audio_receiver_stop_def by (rule rx_flush_inv) (simp add: rx_inv_def)

lemma restart_inv:
  assumes "rx_inv r"
  shows "\<exists>r'. restart_stream now_ms err r = Done (err, r') \<and> rx_inv r'"
proof -
  have "buf_inv (rx_buffer r) []" using assms by (simp add: rx_inv_def)
  then obtain b where "audio_buffer_flush (rx_buffer r) = Done b" "buf_inv b []" by (rule flush_inv)
  with assms show ?thesis
    by (auto simp: restart_stream_def rx_inv_def Let_def audio_receiver_reset_blocks_def split: prod.split)
qed

text \<open>What the decoder guarantees of a decoded block: it lies within the decode buffer.\<close>

definition decoder_ok :: "decoded \<Rightarrow> bool" where
  "decoder_ok decoded = (case decoded of None \<Rightarrow> True | Some (pcm, n, ch) \<Rightarrow> 0 < ch \<and> n * nat ch \<le> length pcm)"

lemma pass_gates_fields:
  assumes "pass_gates r ts = (ok, r')"
  shows "rx_buffer r' = rx_buffer r" "rx_timing r' = rx_timing r"
  using assms by (auto simp: pass_gates_def Let_def split: if_splits)

lemma aac_mute_ok:
  assumes "n * nat ch \<le> length pcm"
  shows "\<exists>pcm'. apply_aac_transient_mute is_aac r pcm n ch = Done pcm' \<and> length pcm' = length pcm"
  using assms by (simp add: apply_aac_transient_mute_def Let_def)

lemma process_frame_inv:
  assumes "rx_inv r" "decoder_ok decoded"
  shows "\<exists>ok r'. audio_stream_process_frame is_aac r ts decoded = Done (ok, r') \<and> rx_inv r'"
proof -
  obtain pass r1 where g: "pass_gates r ts = (pass, r1)" by fastforce
  have inv1: "rx_inv r1" using assms(1) pass_gates_fields [OF g] by (simp add: rx_inv_def)
  show ?thesis
  proof (cases decoded)
    case None
    with g inv1 show ?thesis by (cases pass) (auto simp: audio_stream_process_frame_def)
  next
    case (Some d)
    then obtain pcm n ch where d: "decoded = Some (pcm, n, ch)" "0 < ch" "n * nat ch \<le> length pcm"
      using assms(2) by (cases d) (auto simp: decoder_ok_def)
    obtain pcm' where pcm': "apply_aac_transient_mute is_aac r1 pcm n ch = Done pcm'" "length pcm' = length pcm"
      using aac_mute_ok [OF d(3)] by blast
    have "buf_inv (rx_buffer r1) []" using inv1 by (simp add: rx_inv_def)
    then obtain ok b st where "audio_buffer_queue_decoded (rx_buffer r1) (rx_stats r1) ts pcm' n ch = Done (ok, b, st)" "buf_inv b []"
      using queue_decoded_inv [of "rx_buffer r1" "[]" n ch pcm' "rx_stats r1" ts] d(2,3) pcm'(2) by auto
    with g inv1 d pcm'(1) show ?thesis
      by (cases pass) (auto simp: audio_stream_process_frame_def Let_def rx_inv_def)
  qed
qed

lemma rx_read_inv:
  assumes "rx_inv r"
  shows "\<exists>n d r'. audio_receiver_read env samples r = Done ((n, d), r') \<and> rx_inv r' \<and> n \<le> samples \<and> length d \<le> 2 * samples"
proof -
  have "buf_inv (rx_buffer r) []" "pending_ok (rx_timing r)" using assms by (simp_all add: rx_inv_def)
  from ab.timing_read_ok [OF this, of env audio_buffer_get_frame_count "as_type (active_stream r)" "as_format (active_stream r)"
      samples "rx_stats r"] assms
  show ?thesis by (auto simp: audio_receiver_read_def audio_timing_read_def rx_inv_def)
qed

text \<open>
  The arrays the allocators hand out have the requested length, and the pending buffer could be allocated
  (\<open>audio_timing_init\<close> does not report its failure).
\<close>

definition alloc_ok :: "rx_alloc \<Rightarrow> bool" where
  "alloc_ok al \<longleftrightarrow>
     (\<forall>p. al_pool al = Some p \<longrightarrow> length p = MAX_RING_BUFFER_FRAMES \<and> (\<forall>f \<in> set p. length (pcm_area f) = 704))
     \<and> (\<forall>a. al_sorted al = Some a \<longrightarrow> length a = MAX_RING_BUFFER_FRAMES)
     \<and> (\<forall>a. al_free al = Some a \<longrightarrow> length a = MAX_RING_BUFFER_FRAMES)
     \<and> al_pending al \<noteq> None"

lemma buffer_init_ok:
  assumes "audio_buffer_init pool arr fr sem dec = (ESP_OK, b)"
  shows "\<exists>p a f. pool = Some p \<and> arr = Some a \<and> fr = Some f \<and> sem \<and> dec"
  using assms by (auto simp: audio_buffer_init_def Let_def split: option.splits if_splits)

lemma rx_init_inv:
  assumes "audio_receiver_init al r = (ESP_OK, r')" "ab_pool (rx_buffer r) = []" "alloc_ok al"
  shows "rx_inv r'"
proof -
  obtain err b where b: "audio_buffer_init (al_pool al) (al_sorted al) (al_free al) (al_sem al) (al_decode al) = (err, b)"
    by fastforce
  with assms(1,2) have ok: "err = ESP_OK" and r': "rx_buffer r' = b"
    "rx_timing r' = audio_timing_set_format (audio_timing_init
       (FRAME_HEADER_SIZE + MAX_SAMPLES_PER_FRAME * AUDIO_MAX_CHANNELS * 2) (al_pending al)) default_format"
    by (auto simp: audio_receiver_init_def Let_def active_stream_def audio_receiver_reset_blocks_def split: if_splits)
  with b have init: "audio_buffer_init (al_pool al) (al_sorted al) (al_free al) (al_sem al) (al_decode al) = (ESP_OK, b)" by simp
  from buffer_init_ok [OF this] obtain p a f where
    al: "al_pool al = Some p" "al_sorted al = Some a" "al_free al = Some f" "al_sem al" "al_decode al" by blast
  have "buf_run b []"
  proof (rule buf_run.init)
    show "audio_buffer_init (Some p) (Some a) (Some f) True True = (ESP_OK, b)" using init al by simp
  qed (use assms(3) al in \<open>simp_all add: alloc_ok_def\<close>)
  moreover have "pending_ok (rx_timing r')"
    using assms(3) by (simp add: r' pending_ok_def audio_timing_set_format_def update_timing_targets_def
        audio_timing_init_def alloc_ok_def audio_consts Let_def)
  ultimately show ?thesis using r' buf_run_inv by (simp add: rx_inv_def)
qed

text \<open>
  The commands the RTSP side gives the receiver, in both stream modes, and the packets and reads between them. The stream
  tasks count the packets and the PTP task keeps its clock by itself, so these fields may take any value in between.
\<close>

inductive rx_step :: "audio_receiver \<Rightarrow> audio_receiver \<Rightarrow> bool" where
  frame: "decoder_ok decoded \<Longrightarrow> audio_stream_process_frame is_aac r ts decoded = Done (ok, r') \<Longrightarrow> rx_step r r'"
| read: "audio_receiver_read env samples r = Done (out, r') \<Longrightarrow> rx_step r r'"
| flush: "audio_receiver_flush r = Done r' \<Longrightarrow> rx_step r r'"
| seek: "audio_receiver_seek_flush r = Done r' \<Longrightarrow> rx_step r r'"
| deferred: "rx_step r (audio_receiver_set_deferred_flush ts r)"
| pause: "rx_step r (audio_receiver_pause r)"
| playing: "rx_step r (audio_receiver_set_playing now_us playing r)"
| reset: "rx_step r (audio_receiver_reset_timing r)"
| anchor: "audio_receiver_set_anchor_time now_ms now_us clock_id net rtp r = Done r' \<Longrightarrow> rx_step r r'"
| stream_type: "rx_step r (audio_receiver_set_stream_type type r)"
| client_control: "rx_step r (audio_receiver_set_client_control client_ip control_port r)"
| stream: "audio_receiver_start_stream now_ms err r = Done (e, r') \<Longrightarrow> rx_step r r'"
| realtime: "audio_receiver_start now_ms err r = Done (e, r') \<Longrightarrow> rx_step r r'"
| buffered: "audio_receiver_start_buffered now_ms err r = Done (e, r') \<Longrightarrow> rx_step r r'"
| halt_buffered: "rx_step r (audio_receiver_stop_buffered_only r)"
| halt: "audio_receiver_stop r = Done r' \<Longrightarrow> rx_step r r'"
| format: "rx_step r (audio_receiver_set_format ok format r)"
| latency: "rx_step r (audio_receiver_set_output_latency_us l r)"
| counted: "rx_step r (r\<lparr>rx_blocks_read := n, rx_blocks_read_in_sequence := m\<rparr>)"
| clock: "rx_step r (r\<lparr>rx_ptp := p\<rparr>)"

inductive rx_run :: "audio_receiver \<Rightarrow> bool" where
  init: "audio_receiver_init al r = (ESP_OK, r') \<Longrightarrow> ab_pool (rx_buffer r) = [] \<Longrightarrow> alloc_ok al \<Longrightarrow> rx_run r'"
| step: "rx_run r \<Longrightarrow> rx_step r r' \<Longrightarrow> rx_run r'"

lemma start_kind_inv:
  assumes "rx_inv r"
  shows "\<exists>e r'. audio_receiver_start now_ms err r = Done (e, r') \<and> rx_inv r'"
    "\<exists>e r'. audio_receiver_start_buffered now_ms err r = Done (e, r') \<and> rx_inv r'"
proof -
  have "rx_inv (audio_receiver_set_stream_type ty r)" for ty using assms by (simp add: rx_inv_def)
  with restart_inv show "\<exists>e r'. audio_receiver_start now_ms err r = Done (e, r') \<and> rx_inv r'"
    "\<exists>e r'. audio_receiver_start_buffered now_ms err r = Done (e, r') \<and> rx_inv r'"
    by (fastforce simp: audio_receiver_start_def audio_receiver_start_buffered_def Let_def)+
qed

lemma start_stream_inv:
  "rx_inv r \<Longrightarrow> \<exists>e r'. audio_receiver_start_stream now_ms err r = Done (e, r') \<and> rx_inv r'"
  unfolding audio_receiver_start_stream_def by (simp add: start_kind_inv)

lemma rx_step_inv: "rx_step r r' \<Longrightarrow> rx_inv r \<Longrightarrow> rx_inv r'"
proof (induction rule: rx_step.induct)
  case (frame decoded is_aac r ts ok r')
  from process_frame_inv [OF frame(3,1), of is_aac ts] frame(2) show ?case by auto
next
  case (read env samples r out r')
  with rx_read_inv [of r env samples] show ?case by auto
next
  case (stream now_ms err r e r')
  with start_stream_inv [of r now_ms err] show ?case by auto
next
  case (realtime now_ms err r e r')
  with start_kind_inv(1) [of r now_ms err] show ?case by auto
next
  case (buffered now_ms err r e r')
  with start_kind_inv(2) [of r now_ms err] show ?case by auto
next
  case (flush r r')
  then show ?case by (blast intro: rx_keepsD rx_flush_inv)
next
  case (seek r r')
  then show ?case by (blast intro: rx_keepsD rx_seek_flush_inv)
next
  case (anchor now_ms now_us clock_id net rtp r r')
  then show ?case by (blast intro: rx_keepsD set_anchor_inv)
next
  case (halt r r')
  then show ?case by (blast intro: rx_keepsD rx_stop_inv)
qed (simp_all add: rx_inv_def audio_receiver_set_client_control_def audio_receiver_stop_buffered_only_def
    audio_receiver_set_deferred_flush_def audio_receiver_pause_def audio_receiver_set_playing_def Let_def
    audio_receiver_reset_timing_def audio_receiver_set_format_def audio_timing_set_format_def
    audio_receiver_set_output_latency_us_def audio_timing_set_output_latency_def)

lemma rx_run_inv: "rx_run r \<Longrightarrow> rx_inv r"
  by (induction rule: rx_run.induct) (auto intro: rx_init_inv rx_step_inv)

lemma rx_run_steps: "rx_step\<^sup>*\<^sup>* r r' \<Longrightarrow> rx_run r \<Longrightarrow> rx_run r'"
  by (induction rule: rtranclp_induct) (auto intro: rx_run.step)

section \<open>Properties of the receiver\<close>

text \<open>
  C5. Whatever the RTSP side commands and the network delivers, the receiver stays memory-safe: after every
  history of commands, packets and reads since a successful \<open>audio_receiver_init\<close>, in the realtime and in the
  buffered mode and across switches between them, the next frame, read, flush, seek, anchor, start of either mode or stop terminates without an access out of bounds, and a read returns
  at most the samples it was asked for.
\<close>

theorem receiver_safe:
  assumes "rx_run r" and "decoder_ok decoded"
  shows "(\<exists>ok r'. audio_stream_process_frame is_aac r ts decoded = Done (ok, r'))
    \<and> (\<exists>n d r'. audio_receiver_read env samples r = Done ((n, d), r') \<and> n \<le> samples \<and> length d \<le> 2 * samples)
    \<and> (\<exists>r'. audio_receiver_flush r = Done r') \<and> (\<exists>r'. audio_receiver_seek_flush r = Done r')
    \<and> (\<exists>r'. audio_receiver_set_anchor_time now_ms now_us clock_id net rtp r = Done r')
    \<and> (\<exists>e r'. audio_receiver_start_stream now_ms err r = Done (e, r')) \<and> (\<exists>e r'. audio_receiver_start now_ms err r = Done (e, r'))
    \<and> (\<exists>e r'. audio_receiver_start_buffered now_ms err r = Done (e, r')) \<and> (\<exists>r'. audio_receiver_stop r = Done r')"
proof -
  note inv = rx_run_inv [OF assms(1)]
  have keeps: "\<exists>r'. c = Done r'" if "rx_keeps c" for c using that by (auto simp: rx_keeps_def)
  show ?thesis
    using process_frame_inv [OF inv assms(2), of is_aac ts] rx_read_inv [OF inv, of env samples]
      keeps [OF rx_flush_inv [OF inv]] keeps [OF rx_seek_flush_inv [OF inv]] keeps [OF rx_stop_inv [OF inv]]
      keeps [OF set_anchor_inv [OF inv, of now_ms now_us clock_id net rtp]] start_stream_inv [OF inv, of now_ms err]
      start_kind_inv [OF inv, of now_ms err]
    by blast
qed

text \<open>A receiver after initialisation with a fresh pool, for the concrete cases.\<close>

definition demo_alloc :: rx_alloc where
  "demo_alloc = \<lparr>al_mutex = True, al_streams = True, al_pool = Some (replicate MAX_RING_BUFFER_FRAMES blank_frame),
     al_sorted = Some (replicate MAX_RING_BUFFER_FRAMES 0), al_free = Some (replicate MAX_RING_BUFFER_FRAMES 0),
     al_sem = True, al_decode = True, al_decrypt = True, al_pending = Some blank_frame\<rparr>"

definition demo_stream :: audio_stream where
  "demo_stream = \<lparr>as_type = 0, as_running = False, as_format = default_format\<rparr>"

definition unset_receiver :: audio_receiver where
  "unset_receiver = \<lparr>rx_stream = Realtime, rx_realtime = demo_stream, rx_buffered = demo_stream,
     rx_buffer = audio_buffer_deinit fresh_buffer, rx_timing = audio_timing_init 0 None, rx_stats = no_stats,
     rx_ptp = ptp_zero, rx_has_decoder = False, rx_blocks_read = 0, rx_blocks_read_in_sequence = 0,
     rx_retransmit_enabled = False, rx_discard_before_rtp = 0, rx_discard_before_rtp_valid = False,
     rx_discard_above_rtp = 0, rx_discard_above_rtp_valid = False, rx_arm_gate_on_next_anchor = False,
     rx_discard_all_until_anchor = False, rx_paused_rtp = 0, rx_paused_rtp_valid = False\<rparr>"

definition demo_receiver :: audio_receiver where
  "demo_receiver = snd (audio_receiver_init demo_alloc unset_receiver)"

lemma demo_receiver_run: "rx_run demo_receiver"
proof (rule rx_run.init)
  show "audio_receiver_init demo_alloc unset_receiver = (ESP_OK, demo_receiver)"
    by (simp add: demo_receiver_def audio_receiver_init_def demo_alloc_def unset_receiver_def audio_buffer_init_def
        audio_buffer_deinit_def Let_def)
  show "ab_pool (rx_buffer unset_receiver) = []" by (simp add: unset_receiver_def audio_buffer_deinit_def)
  show "alloc_ok demo_alloc" by (simp add: alloc_ok_def demo_alloc_def blank_frame_def)
qed

lemma demo_receiver_facts:
  "frames (rx_buffer demo_receiver) = []" "\<not> rx_arm_gate_on_next_anchor demo_receiver"
  "\<not> tm_anchor_valid (rx_timing demo_receiver)" "stream_rate demo_receiver = 44100"
proof -
  have "rx_buffer demo_receiver = fresh_buffer"
    by (simp add: demo_receiver_def audio_receiver_init_def demo_alloc_def unset_receiver_def fresh_buffer_def
        audio_buffer_init_def audio_buffer_deinit_def Let_def audio_receiver_reset_blocks_def)
  then show "frames (rx_buffer demo_receiver) = []" using fresh_buffer_facts(1) by simp
qed (simp_all add: demo_receiver_def audio_receiver_init_def demo_alloc_def unset_receiver_def audio_buffer_init_def
    audio_buffer_deinit_def Let_def audio_receiver_reset_blocks_def audio_timing_set_format_def audio_timing_init_def
    update_timing_targets_def stream_rate_def active_stream_def default_format_def DEFAULT_SAMPLE_RATE_def)

text \<open>The same receiver in the buffered mode of AirPlay 2.\<close>

definition buffered_receiver :: audio_receiver where
  "buffered_receiver = (case audio_receiver_start_buffered 0 ESP_OK demo_receiver of Done (e, r) \<Rightarrow> r | _ \<Rightarrow> demo_receiver)"

lemma buffered_receiver_run: "rx_run buffered_receiver"
proof -
  obtain e r where "audio_receiver_start_buffered 0 ESP_OK demo_receiver = Done (e, r)"
    using start_kind_inv(2) [OF rx_run_inv [OF demo_receiver_run]] by blast
  then show ?thesis using rx_run.step [OF demo_receiver_run rx_step.buffered] by (simp add: buffered_receiver_def)
qed

lemma buffered_receiver_facts:
  "rx_stream buffered_receiver = Buffered" "as_running (rx_buffered buffered_receiver)" "frames (rx_buffer buffered_receiver) = []"
  "stream_rate buffered_receiver = 44100"
proof -
  have "rx_buffer demo_receiver = fresh_buffer"
    by (simp add: demo_receiver_def audio_receiver_init_def demo_alloc_def unset_receiver_def fresh_buffer_def
        audio_buffer_init_def audio_buffer_deinit_def Let_def audio_receiver_reset_blocks_def)
  moreover have "buf_inv (rx_buffer demo_receiver) []" using rx_run_inv [OF demo_receiver_run] by (simp add: rx_inv_def)
  ultimately obtain b where b: "audio_buffer_flush (rx_buffer demo_receiver) = Done b" "frames b = []" using flush_inv by metis
  have d: "rx_stream demo_receiver = Realtime" "\<not> as_running (rx_buffered demo_receiver)" "as_format (rx_realtime demo_receiver) = default_format"
    by (simp_all add: demo_receiver_def audio_receiver_init_def demo_alloc_def unset_receiver_def
        audio_buffer_init_def audio_buffer_deinit_def Let_def audio_receiver_reset_blocks_def)
  show "rx_stream buffered_receiver = Buffered" "as_running (rx_buffered buffered_receiver)" "frames (rx_buffer buffered_receiver) = []"
    "stream_rate buffered_receiver = 44100"
    using b d unfolding buffered_receiver_def
    by (simp_all add: audio_receiver_start_buffered_def audio_receiver_set_stream_type_def
        active_stream_def set_active_stream_def restart_stream_def audio_receiver_reset_blocks_def Let_def AUDIO_STREAM_BUFFERED_def
        stream_rate_def default_format_def DEFAULT_SAMPLE_RATE_def split: prod.split)
qed

theorem receiver_safe_witness:
  "\<exists>ok r'. audio_stream_process_frame True buffered_receiver 352 (Some (replicate 2048 7, 1024, 2)) = Done (ok, r')"
  using receiver_safe [OF buffered_receiver_run, of "Some (replicate 2048 7, 1024, 2)" True 352]
  by (simp add: decoder_ok_def)

subsection \<open>Seeking\<close>

text \<open>The timestamps of a sequence of arriving frames that pass the gates.\<close>

fun admitted :: "audio_receiver \<Rightarrow> u32 list \<Rightarrow> u32 list" where
  "admitted r [] = []"
| "admitted r (t # ts) = (case pass_gates r t of (ok, r') \<Rightarrow> if ok then t # admitted r' ts else admitted r' ts)"

definition gates_open :: "audio_receiver \<Rightarrow> bool" where
  "gates_open r \<longleftrightarrow> \<not> rx_discard_all_until_anchor r \<and> \<not> rx_discard_before_rtp_valid r \<and> \<not> rx_discard_above_rtp_valid r"

lemma open_gates_admit: "gates_open r \<Longrightarrow> admitted r ts = ts"
proof (induction ts arbitrary: r)
  case (Cons t ts)
  then have "pass_gates r t = (True, r\<lparr>rx_discard_before_rtp_valid := False, rx_discard_above_rtp_valid := False\<rparr>)"
    by (simp add: pass_gates_def gates_open_def Let_def)
  moreover have "gates_open (r\<lparr>rx_discard_before_rtp_valid := False, rx_discard_above_rtp_valid := False\<rparr>)"
    using Cons.prems by (simp add: gates_open_def)
  ultimately show ?case using Cons.IH by simp
qed simp

text \<open>
  Exactly which frames an armed receiver admits: everything from the first frame that is not above the window and comes
  after, or is itself, a frame that is not below it.
\<close>

lemma above_gate_admits:
  "\<not> rx_discard_all_until_anchor r \<Longrightarrow> \<not> rx_discard_before_rtp_valid r \<Longrightarrow> rx_discard_above_rtp_valid r \<Longrightarrow>
    admitted r ts = dropWhile (\<lambda>t. sint (t - rx_discard_above_rtp r) > 0) ts"
  by (induction ts arbitrary: r) (simp_all add: pass_gates_def Let_def open_gates_admit gates_open_def)

lemma armed_gates_admit:
  assumes "\<not> rx_discard_all_until_anchor r" "rx_discard_before_rtp_valid r" "rx_discard_above_rtp_valid r"
  shows "admitted r ts = dropWhile (\<lambda>t. sint (t - rx_discard_above_rtp r) > 0) (dropWhile (\<lambda>t. sint (t - rx_discard_before_rtp r) < 0) ts)"
proof (induction ts)
  case (Cons t ts)
  let ?r = "r\<lparr>rx_discard_before_rtp_valid := False\<rparr>"
  show ?case
  proof (cases "sint (t - rx_discard_before_rtp r) < 0")
    case True
    then show ?thesis using Cons assms by (simp add: pass_gates_def)
  next
    case False
    have "admitted r (t # ts) = admitted ?r (t # ts)" using False assms by (simp add: pass_gates_def Let_def)
    also have "\<dots> = dropWhile (\<lambda>t. sint (t - rx_discard_above_rtp r) > 0) (t # ts)" using assms by (subst above_gate_admits) simp_all
    finally show ?thesis using False by simp
  qed
qed simp

lemma set_anchor_tail:
  assumes "anchor_gates now_us rtp r = Done (g, ra)"
    and "anchor_stale_check g rtp (ra\<lparr>rx_discard_all_until_anchor := False\<rparr>) = Done rb"
  obtains p l where "audio_receiver_set_anchor_time now_ms now_us clock_id net rtp r
    = Done (rb\<lparr>rx_ptp := p, rx_timing := audio_timing_set_anchor now_us l (rx_timing rb) net rtp\<rparr>)"
proof -
  obtain l p where "ptp_clock_is_locked now_ms (if clock_id \<noteq> 0 then ptp_clock_set_master_clock_id clock_id (rx_ptp rb) else rx_ptp rb)
    = (l, p)" by fastforce
  with assms have "audio_receiver_set_anchor_time now_ms now_us clock_id net rtp r
    = Done (rb\<lparr>rx_ptp := p, rx_timing := audio_timing_set_anchor now_us l (rx_timing rb) net rtp\<rparr>)"
    by (simp add: audio_receiver_set_anchor_time_def Let_def)
  then show ?thesis by (rule that)
qed

lemma stream_rate_cong:
  "rx_stream r' = rx_stream r \<Longrightarrow> rx_realtime r' = rx_realtime r \<Longrightarrow> rx_buffered r' = rx_buffered r \<Longrightarrow>
   stream_rate r' = stream_rate r"
  by (simp add: stream_rate_def active_stream_def split: stream_kind.split)

lemma armed_anchor:
  assumes "rx_inv r" "rx_arm_gate_on_next_anchor r" "frames (rx_buffer r) = []"
  obtains r' where "audio_receiver_set_anchor_time now_ms now_us clock_id net rtp r = Done r'"
    "rx_buffer r' = rx_buffer r" "\<not> rx_discard_all_until_anchor r'" "rx_discard_before_rtp r' = rtp"
    "rx_discard_above_rtp r' = rtp + of_int (10 * stream_rate r)" "rx_discard_before_rtp_valid r'" "rx_discard_above_rtp_valid r'"
proof -
  let ?ra = "arm_gates rtp (r\<lparr>rx_arm_gate_on_next_anchor := False\<rparr>)"
  have b: "buf_inv (rx_buffer r) []" using assms(1) by (simp add: rx_inv_def)
  have "anchor_gates now_us rtp r = Done (True, ?ra)" using assms(2) by (simp add: anchor_gates_def)
  moreover have "anchor_stale_check True rtp (?ra\<lparr>rx_discard_all_until_anchor := False\<rparr>)
      = Done (?ra\<lparr>rx_discard_all_until_anchor := False\<rparr>)"
    using oldest_timestamp_spec [OF b] assms(3) by (simp add: anchor_stale_check_def)
  ultimately obtain p l where "audio_receiver_set_anchor_time now_ms now_us clock_id net rtp r
    = Done (?ra\<lparr>rx_discard_all_until_anchor := False, rx_ptp := p,
        rx_timing := audio_timing_set_anchor now_us l (rx_timing r) net rtp\<rparr>)"
    by (rule set_anchor_tail) simp
  from that [OF this] show ?thesis using stream_rate_cong [of "r\<lparr>rx_arm_gate_on_next_anchor := False\<rparr>" r]
    by (simp add: arm_gates_def)
qed

lemma seek_flush_state:
  assumes "rx_inv r"
  obtains r' where "audio_receiver_seek_flush r = Done r'" "rx_inv r'" "frames (rx_buffer r') = []"
    "rx_arm_gate_on_next_anchor r'" "rx_discard_all_until_anchor r'" "stream_rate r' = stream_rate r"
proof -
  have "buf_inv (rx_buffer r) []" using assms by (simp add: rx_inv_def)
  then obtain b where "audio_buffer_flush (rx_buffer r) = Done b" "buf_inv b []" "frames b = []" by (rule flush_inv)
  with assms that show ?thesis
    by (simp add: audio_receiver_seek_flush_def audio_receiver_flush_def rx_inv_def stream_rate_def active_stream_def
        split: stream_kind.splits)
qed

text \<open>
  C8. A seek plays no audio from before it. After \<open>audio_receiver_seek_flush\<close> the buffer is empty and every frame is
  discarded, whatever it carries, until the next anchor. After the anchor at \<open>rtp\<close> exactly this decides: the
  frames before the anchor (forward seek) are discarded up to the first one at or behind it, from there on the frames more than ten
  seconds behind the anchor (backward seek) up to the first one that is not, and from that one on every frame is admitted. So stale
  frames all go when those before the anchor precede those beyond the window, as when one seek leaves frames of one position
  in flight. In the other order they do not, since the two gates open one after the other: after a frame beyond the window
  a frame before the anchor is admitted, against the comment on the gates.
\<close>

theorem seek_discards_stale:
  assumes "rx_run r" and "upper = rtp + of_int (10 * stream_rate r)"
  shows "\<exists>r1 r2. audio_receiver_seek_flush r = Done r1 \<and> frames (rx_buffer r1) = []
    \<and> (\<forall>is_aac ts d. audio_stream_process_frame is_aac r1 ts d = Done (False, r1))
    \<and> audio_receiver_set_anchor_time now_ms now_us clock_id net rtp r1 = Done r2 \<and> frames (rx_buffer r2) = []
    \<and> (\<forall>ts. admitted r2 ts = dropWhile (\<lambda>t. sint (t - upper) > 0) (dropWhile (\<lambda>t. sint (t - rtp) < 0) ts))
    \<and> (\<forall>lows highs t rest.
         (\<forall>s \<in> set lows. sint (s - rtp) < 0) \<longrightarrow> (\<forall>s \<in> set highs. 0 \<le> sint (s - rtp) \<and> sint (s - upper) > 0) \<longrightarrow>
         0 \<le> sint (t - rtp) \<longrightarrow> sint (t - upper) \<le> 0 \<longrightarrow> admitted r2 (lows @ highs @ t # rest) = t # rest)
    \<and> (\<forall>high low. 0 \<le> sint (high - rtp) \<longrightarrow> sint (high - upper) > 0 \<longrightarrow> sint (low - rtp) < 0 \<longrightarrow> sint (low - upper) \<le> 0 \<longrightarrow>
         admitted r2 [high, low] = [low])"
proof -
  obtain r1 where r1: "audio_receiver_seek_flush r = Done r1" "rx_inv r1" "frames (rx_buffer r1) = []"
    "rx_arm_gate_on_next_anchor r1" "rx_discard_all_until_anchor r1" "stream_rate r1 = stream_rate r"
    by (rule seek_flush_state [OF rx_run_inv [OF assms(1)]])
  obtain r2 where r2: "audio_receiver_set_anchor_time now_ms now_us clock_id net rtp r1 = Done r2"
    "rx_buffer r2 = rx_buffer r1" "\<not> rx_discard_all_until_anchor r2" "rx_discard_before_rtp r2 = rtp"
    "rx_discard_above_rtp r2 = rtp + of_int (10 * stream_rate r1)" "rx_discard_before_rtp_valid r2" "rx_discard_above_rtp_valid r2"
    by (rule armed_anchor [OF r1(2,4,3)])
  have blanket: "audio_stream_process_frame is_aac r1 ts d = Done (False, r1)" for is_aac ts d
    using r1(5) by (simp add: audio_stream_process_frame_def pass_gates_def)
  have all: "admitted r2 ts = dropWhile (\<lambda>t. sint (t - upper) > 0) (dropWhile (\<lambda>t. sint (t - rtp) < 0) ts)" for ts
    using armed_gates_admit [OF r2(3,6,7)] r2(4,5) r1(6) assms(2) by simp
  have stale: "admitted r2 (lows @ highs @ t # rest) = t # rest"
    if "\<forall>s \<in> set lows. sint (s - rtp) < 0" "\<forall>s \<in> set highs. 0 \<le> sint (s - rtp) \<and> sint (s - upper) > 0"
      "0 \<le> sint (t - rtp)" "sint (t - upper) \<le> 0" for lows highs t rest
  proof -
    have "dropWhile (\<lambda>t. sint (t - rtp) < 0) (lows @ highs @ t # rest) = highs @ t # rest"
      using that by (cases highs) (auto simp: dropWhile_append2)
    then show ?thesis unfolding all using that by (simp add: dropWhile_append2)
  qed
  have mixed: "admitted r2 [high, low] = [low]"
    if "0 \<le> sint (high - rtp)" "sint (high - upper) > 0" "sint (low - rtp) < 0" "sint (low - upper) \<le> 0" for high low
    unfolding all using that by simp
  have "frames (rx_buffer r2) = []" using r1(3) r2(2) by simp
  with r1(1,3) r2(1) blanket all stale mixed show ?thesis by blast
qed

theorem seek_discards_stale_witness:
  "\<exists>r1 r2. audio_receiver_seek_flush buffered_receiver = Done r1
     \<and> audio_receiver_set_anchor_time 0 0 0 0 1000000 r1 = Done r2
     \<and> admitted r2 ([999000, 999352] @ [8000000] @ 1000000 # [1000352]) = 1000000 # [1000352]
     \<and> admitted r2 [8000000, 999352] = [999352]"
proof -
  have top: "(1441000 :: u32) = 1000000 + of_int (10 * stream_rate buffered_receiver)" by (simp add: buffered_receiver_facts)
  obtain r1 r2 where "audio_receiver_seek_flush buffered_receiver = Done r1"
    "audio_receiver_set_anchor_time 0 0 0 0 1000000 r1 = Done r2"
    and adm: "\<forall>ts. admitted r2 ts = dropWhile (\<lambda>t. sint (t - 1441000) > 0) (dropWhile (\<lambda>t. sint (t - 1000000) < 0) ts)"
    using seek_discards_stale [OF buffered_receiver_run top, of 0 0 0 0] by blast
  moreover have "admitted r2 ([999000, 999352] @ [8000000] @ 1000000 # [1000352]) = 1000000 # [1000352]"
    "admitted r2 [8000000, 999352] = [999352]" unfolding adm [rule_format] by simp_all
  ultimately show ?thesis by blast
qed

subsection \<open>Pausing and resuming\<close>

lemma pause_state:
  fixes pause_us :: int
  assumes "tm_anchor_valid (rx_timing r)"
  defines "p \<equiv> audio_receiver_set_playing pause_us False r"
  shows "rx_buffer p = rx_buffer r" "rx_paused_rtp p = elapsed_rtp pause_us r" "rx_paused_rtp_valid p" "tm_anchor_valid (rx_timing p)"
    "rx_arm_gate_on_next_anchor p = rx_arm_gate_on_next_anchor r" "stream_rate p = stream_rate r"
    "rx_discard_before_rtp_valid p = rx_discard_before_rtp_valid r" "rx_discard_above_rtp_valid p = rx_discard_above_rtp_valid r"
proof -
  let ?r = "r\<lparr>rx_timing := audio_timing_set_playing (rx_timing r) False, rx_blocks_read_in_sequence := 0\<rparr>"
  have av: "tm_anchor_valid (rx_timing ?r)" using assms(1) by (simp add: audio_timing_set_playing_def clear_pending_def Let_def)
  have "elapsed_rtp pause_us ?r = elapsed_rtp pause_us r"
    using stream_rate_cong [of ?r r] by (simp add: elapsed_rtp_def audio_timing_set_playing_def clear_pending_def Let_def)
  with av have p: "p = ?r\<lparr>rx_paused_rtp := elapsed_rtp pause_us r, rx_paused_rtp_valid := True\<rparr>"
    by (simp add: p_def audio_receiver_set_playing_def Let_def)
  show "rx_buffer p = rx_buffer r" "rx_paused_rtp p = elapsed_rtp pause_us r" "rx_paused_rtp_valid p" "tm_anchor_valid (rx_timing p)"
    "rx_arm_gate_on_next_anchor p = rx_arm_gate_on_next_anchor r"
    "rx_discard_before_rtp_valid p = rx_discard_before_rtp_valid r" "rx_discard_above_rtp_valid p = rx_discard_above_rtp_valid r"
    using av by (simp_all add: p)
  show "stream_rate p = stream_rate r" by (rule stream_rate_cong) (simp_all add: p)
qed

lemma reference_paused:
  assumes "rx_paused_rtp_valid r"
  obtains p where "reference_position now_us r = (rx_paused_rtp r, r\<lparr>rx_paused_rtp_valid := False, rx_ptp := p\<rparr>)"
  by (rule that) (unfold reference_position_def Let_def if_P [OF assms], rule refl)

lemma seek_reset_state:
  assumes "rx_inv r"
  obtains b where "seek_reset r = Done (r\<lparr>rx_buffer := b, rx_blocks_read_in_sequence := 0,
               rx_timing := (rx_timing r)\<lparr>tm_playout_started := False, tm_pending_valid := False, tm_pending_frame_len := 0,
                 tm_ready_time_us := 0, tm_deferred_flush_pending := False, tm_quick_start := True\<rparr>\<rparr>)"
    "buf_inv b []" "frames b = []"
  by (rule flush_inv [of "rx_buffer r"]) (use assms that in \<open>auto simp: rx_inv_def seek_reset_def\<close>)

lemma near_anchor:
  assumes "rx_inv r" "rx_paused_rtp_valid r" "tm_anchor_valid (rx_timing r)" "\<not> rx_arm_gate_on_next_anchor r"
    and "abs32 (sint (rtp - rx_paused_rtp r)) \<le> i32 (5 * stream_rate r)"
    and "\<forall>f \<in> set (take 1 (frames (rx_buffer r))). abs32 (sint (fst f - rtp)) \<le> i32 (5 * stream_rate r)"
  obtains r' where "audio_receiver_set_anchor_time now_ms now_us clock_id net rtp r = Done r'" "rx_buffer r' = rx_buffer r"
    "rx_discard_before_rtp_valid r' = rx_discard_before_rtp_valid r" "rx_discard_above_rtp_valid r' = rx_discard_above_rtp_valid r"
proof -
  obtain p where ref: "reference_position now_us r = (rx_paused_rtp r, r\<lparr>rx_paused_rtp_valid := False, rx_ptp := p\<rparr>)"
    by (rule reference_paused [OF assms(2)])
  let ?ra = "r\<lparr>rx_paused_rtp_valid := False, rx_ptp := p\<rparr>"
  have sr: "stream_rate ?ra = stream_rate r" "stream_rate (?ra\<lparr>rx_discard_all_until_anchor := False\<rparr>) = stream_rate r"
    by (rule stream_rate_cong; simp)+
  have b: "buf_inv (rx_buffer r) []" using assms(1) by (simp add: rx_inv_def)
  have "anchor_gates now_us rtp r = Done (False, ?ra)"
    using assms(3-5) sr by (simp add: anchor_gates_def ref)
  moreover have "anchor_stale_check False rtp (?ra\<lparr>rx_discard_all_until_anchor := False\<rparr>)
      = Done (?ra\<lparr>rx_discard_all_until_anchor := False\<rparr>)"
    using oldest_timestamp_spec [OF b] assms(6) sr
    by (cases "frames (rx_buffer r)") (simp_all add: anchor_stale_check_def)
  ultimately obtain p' l where "audio_receiver_set_anchor_time now_ms now_us clock_id net rtp r
    = Done (?ra\<lparr>rx_discard_all_until_anchor := False, rx_ptp := p',
        rx_timing := audio_timing_set_anchor now_us l (rx_timing r) net rtp\<rparr>)"
    by (rule set_anchor_tail) simp
  from that [OF this] show ?thesis by simp
qed

lemma far_anchor:
  assumes "rx_inv r" "rx_paused_rtp_valid r" "tm_anchor_valid (rx_timing r)" "\<not> rx_arm_gate_on_next_anchor r"
    and "i32 (5 * stream_rate r) < abs32 (sint (rtp - rx_paused_rtp r))"
  obtains r' where "audio_receiver_set_anchor_time now_ms now_us clock_id net rtp r = Done r'" "frames (rx_buffer r') = []"
    "rx_discard_before_rtp_valid r'" "rx_discard_before_rtp r' = rtp" "rx_discard_above_rtp_valid r'" "tm_quick_start (rx_timing r')"
proof -
  obtain p where ref: "reference_position now_us r = (rx_paused_rtp r, r\<lparr>rx_paused_rtp_valid := False, rx_ptp := p\<rparr>)"
    by (rule reference_paused [OF assms(2)])
  let ?r0 = "r\<lparr>rx_paused_rtp_valid := False, rx_ptp := p\<rparr>"
  have "stream_rate ?r0 = stream_rate r" by (rule stream_rate_cong; simp)
  moreover have "rx_inv ?r0" using assms(1) by (simp add: rx_inv_def)
  then obtain ra where ra: "seek_reset ?r0 = Done ra" "buf_inv (rx_buffer ra) []" "frames (rx_buffer ra) = []" "tm_quick_start (rx_timing ra)"
    by (rule seek_reset_state) simp
  ultimately have "anchor_gates now_us rtp r = Done (True, arm_gates rtp ra)"
    using assms(3-5) by (simp add: anchor_gates_def ref)
  moreover have "anchor_stale_check True rtp ((arm_gates rtp ra)\<lparr>rx_discard_all_until_anchor := False\<rparr>)
      = Done ((arm_gates rtp ra)\<lparr>rx_discard_all_until_anchor := False\<rparr>)"
    using oldest_timestamp_spec [OF ra(2)] ra(3) by (simp add: anchor_stale_check_def)
  ultimately obtain p' l where "audio_receiver_set_anchor_time now_ms now_us clock_id net rtp r
    = Done ((arm_gates rtp ra)\<lparr>rx_discard_all_until_anchor := False, rx_ptp := p',
        rx_timing := audio_timing_set_anchor now_us l (rx_timing ra) net rtp\<rparr>)"
    by (rule set_anchor_tail) simp
  from that [OF this] show ?thesis using ra(3,4) by (simp add: arm_gates_def audio_timing_set_anchor_def)
qed

text \<open>
  A pause does not lose the buffered audio, however long it lasts: after \<open>audio_receiver_set_playing(false)\<close>
  at any time, an anchor within five seconds of the position the playback had reached at the pause,
  with the buffer's oldest frame within five seconds of the anchor, keeps every buffered frame and opens all frames
  the way to the buffer; an anchor more than five seconds off empties the
  buffer and arms the gates at the new position.
\<close>

theorem resume_keeps_or_seeks:
  assumes "rx_run r" "tm_anchor_valid (rx_timing r)" "\<not> rx_arm_gate_on_next_anchor r"
    and "paused = audio_receiver_set_playing pause_us False r" and "limit = i32 (5 * stream_rate r)"
  shows "rx_buffer paused = rx_buffer r \<and> (\<exists>r'. audio_receiver_set_anchor_time now_ms resume_us clock_id net rtp paused = Done r'
    \<and> (abs32 (sint (rtp - elapsed_rtp pause_us r)) \<le> limit \<and> (\<forall>f \<in> set (take 1 (frames (rx_buffer r))). abs32 (sint (fst f - rtp)) \<le> limit)
        \<longrightarrow> rx_buffer r' = rx_buffer r \<and> rx_discard_before_rtp_valid r' = rx_discard_before_rtp_valid r
          \<and> rx_discard_above_rtp_valid r' = rx_discard_above_rtp_valid r)
    \<and> (limit < abs32 (sint (rtp - elapsed_rtp pause_us r)) \<longrightarrow>
        frames (rx_buffer r') = [] \<and> rx_discard_before_rtp_valid r' \<and> rx_discard_before_rtp r' = rtp
        \<and> rx_discard_above_rtp_valid r' \<and> tm_quick_start (rx_timing r')))"
proof -
  note p = pause_state [OF assms(2), of pause_us, folded assms(4)]
  have inv: "rx_inv paused" using rx_run.step [OF assms(1) rx_step.playing [of _ pause_us False]] rx_run_inv assms(4) by simp
  have arm: "\<not> rx_arm_gate_on_next_anchor paused" using p(5) assms(3) by simp
  obtain r' where r': "audio_receiver_set_anchor_time now_ms resume_us clock_id net rtp paused = Done r'"
    using set_anchor_inv [OF inv] unfolding rx_keeps_def by blast
  have "rx_buffer r' = rx_buffer r \<and> rx_discard_before_rtp_valid r' = rx_discard_before_rtp_valid r
      \<and> rx_discard_above_rtp_valid r' = rx_discard_above_rtp_valid r"
    if "abs32 (sint (rtp - elapsed_rtp pause_us r)) \<le> limit" "\<forall>f \<in> set (take 1 (frames (rx_buffer r))). abs32 (sint (fst f - rtp)) \<le> limit"
    by (rule near_anchor [OF inv p(3,4) arm, of rtp now_ms resume_us clock_id net])
      (use that p(1,2,6-8) assms(5) r' in auto)
  moreover have "frames (rx_buffer r') = [] \<and> rx_discard_before_rtp_valid r' \<and> rx_discard_before_rtp r' = rtp
      \<and> rx_discard_above_rtp_valid r' \<and> tm_quick_start (rx_timing r')"
    if "limit < abs32 (sint (rtp - elapsed_rtp pause_us r))"
    by (rule far_anchor [OF inv p(3,4) arm, of rtp now_ms resume_us clock_id net])
      (use that p(2,6) assms(5) r' in auto)
  ultimately show ?thesis using r' p(1) by blast
qed

theorem resume_keeps_or_seeks_witness:
  "\<exists>r r1 r2. rx_run r \<and> audio_receiver_set_anchor_time 0 2000000 0 0 88200 (audio_receiver_set_playing 1000000 False r) = Done r1
     \<and> rx_buffer r1 = rx_buffer r
     \<and> audio_receiver_set_anchor_time 0 2000000 0 0 882000 (audio_receiver_set_playing 1000000 False r) = Done r2
     \<and> rx_discard_before_rtp r2 = 882000"
proof -
  have "anchor_gates 0 44100 demo_receiver = Done (False, demo_receiver)"
    using demo_receiver_facts by (simp add: anchor_gates_def)
  moreover have "anchor_stale_check False 44100 (demo_receiver\<lparr>rx_discard_all_until_anchor := False\<rparr>)
      = Done (demo_receiver\<lparr>rx_discard_all_until_anchor := False\<rparr>)"
    using oldest_timestamp_spec [of "rx_buffer demo_receiver" "[]"] rx_run_inv [OF demo_receiver_run] demo_receiver_facts
    by (simp add: anchor_stale_check_def rx_inv_def)
  ultimately obtain p l where "audio_receiver_set_anchor_time 0 0 0 0 44100 demo_receiver = Done
      (demo_receiver\<lparr>rx_discard_all_until_anchor := False, rx_ptp := p,
        rx_timing := audio_timing_set_anchor 0 l (rx_timing demo_receiver) 0 44100\<rparr>)"
    by (rule set_anchor_tail) simp
  moreover define r where "r = demo_receiver\<lparr>rx_discard_all_until_anchor := False, rx_ptp := p,
        rx_timing := audio_timing_set_anchor 0 l (rx_timing demo_receiver) 0 44100\<rparr>"
  ultimately have run: "rx_run r" using rx_run.step [OF demo_receiver_run rx_step.anchor] by simp
  have rate: "stream_rate r = 44100"
    using stream_rate_cong [of r demo_receiver] demo_receiver_facts by (simp add: r_def)
  have facts: "tm_anchor_valid (rx_timing r)" "\<not> rx_arm_gate_on_next_anchor r" "frames (rx_buffer r) = []"
    using demo_receiver_facts by (simp_all add: r_def audio_timing_set_anchor_def)
  have el: "elapsed_rtp 1000000 r = 88200" unfolding elapsed_rtp_def rate
    by (simp add: r_def audio_timing_set_anchor_def Let_def i64_small cdiv_nonneg)
  have lim: "i32 (5 * stream_rate r) = 220500" by (simp add: rate i32_def)
  note use = resume_keeps_or_seeks [OF run facts(1,2) refl refl, of 1000000, unfolded el lim facts(3)]
  from use [of 0 2000000 0 0 88200] use [of 0 2000000 0 0 882000] run show ?thesis
    by (fastforce simp: abs32_def)
qed
end
