(* ===== verification/Rtsp_Codec.thy ===== *)
theory Rtsp_Codec
  imports C_String Audio_Receiver
begin

text \<open>
  Stream formats from the sender (\<open>main/rtsp/rtsp_handlers.c\<close>): the codec registry used by SETUP and the session description
  of ANNOUNCE, which is scanned with \<open>strstr\<close> and \<open>sscanf\<close>. The keys of AirPlay 1 in a session description belong to another configuration
  (\<open>CONFIG_AIRPLAY_FORCE_V1\<close>).
\<close>

section \<open>The model\<close>

definition no_format :: audio_format where
  "no_format = \<lparr>af_codec = [], af_sample_rate = 0, af_channels = 0, af_bits_per_sample = 0, af_frame_size = 0, af_max_samples_per_frame = 0,
     af_sample_size = 0, af_rice_history_mult = 0, af_rice_initial_history = 0, af_rice_limit = 0, af_num_channels = 0, af_max_run = 0,
     af_max_coded_frame_size = 0, af_avg_bit_rate = 0, af_sample_rate_config = 0\<rparr>"

subsection \<open>Codec registry\<close>

definition configure_codec :: "audio_format \<Rightarrow> bytes \<Rightarrow> int \<Rightarrow> int \<Rightarrow> audio_format" where
  "configure_codec fmt name sr spf =
     fmt\<lparr>af_codec := name, af_sample_rate := i32 sr, af_channels := 2, af_bits_per_sample := 16, af_frame_size := i32 spf,
         af_max_samples_per_frame := of_int spf, af_sample_size := 16, af_num_channels := 2, af_sample_rate_config := of_int sr\<rparr>"

definition codec_registry :: "(bytes \<times> int) list" where
  "codec_registry = [(asc ''ALAC'', 2), (asc ''AAC'', 4), (asc ''AAC-ELD'', 8), (asc ''OPUS'', 64)]"

definition rtsp_codec_configure :: "int \<Rightarrow> audio_format \<Rightarrow> int \<Rightarrow> int \<Rightarrow> bool \<times> audio_format" where
  "rtsp_codec_configure type_id fmt sample_rate samples_per_frame =
     (case find (\<lambda>(name, type). type = type_id) codec_registry of
        Some (name, _) \<Rightarrow> (True, configure_codec fmt name sample_rate samples_per_frame)
      | None \<Rightarrow> (False, configure_codec fmt (asc ''ALAC'') sample_rate samples_per_frame))"

subsection \<open>Scanning numbers\<close>

text \<open>The number conversions of \<open>sscanf\<close>: blanks, a sign and at least one digit; the result has the rest of the input.\<close>

definition scan_number :: "bytes \<Rightarrow> (bool \<times> nat \<times> bytes) option" where
  "scan_number s =
     (let s = dropWhile isspace s;
          (neg, s) = (case s of c # r \<Rightarrow> if c = 45 then (True, r) else if c = 43 then (False, r) else (False, s) | [] \<Rightarrow> (False, s));
          ds = takeWhile isdigit s in
      if ds = [] then None else Some (neg, digits_value ds, drop (length ds) s))"

definition scan_d :: "bytes \<Rightarrow> (int \<times> bytes) option" where
  "scan_d s = map_option (\<lambda>(neg, v, r). (if neg then max (- (2 ^ 31)) (- int v) else min (2 ^ 31 - 1) (int v), r)) (scan_number s)"

definition scan_u :: "bytes \<Rightarrow> (u32 \<times> bytes) option" where
  "scan_u s = map_option (\<lambda>(neg, v, r). (if v \<ge> 2 ^ 32 then - 1 else if neg then - of_nat v else of_nat v, r)) (scan_number s)"

text \<open>Up to \<open>n\<close> numbers separated by blanks; the scan stops at the first that does not match.\<close>

fun scan_us :: "nat \<Rightarrow> bytes \<Rightarrow> u32 list" where
  "scan_us 0 s = []"
| "scan_us (Suc n) s = (case scan_u s of None \<Rightarrow> [] | Some (v, r) \<Rightarrow> v # scan_us n r)"

subsection \<open>Session description\<close>

definition sdp_defaults :: audio_format where
  "sdp_defaults = no_format\<lparr>af_sample_rate := 44100, af_channels := 2, af_bits_per_sample := 16, af_frame_size := 352,
     af_codec := asc ''AppleLossless''\<rparr>"

text \<open>The rate and the channels behind the first slash of the encoding name.\<close>

definition rtpmap_rate :: "bytes \<Rightarrow> audio_format \<Rightarrow> audio_format" where
  "rtpmap_rate s format =
     (case scan_d s of
        None \<Rightarrow> format
      | Some (sr, r) \<Rightarrow>
          let ch = (case r of c # r \<Rightarrow> if c = 47 then (case scan_d r of Some (ch, _) \<Rightarrow> ch | None \<Rightarrow> 0) else 0 | [] \<Rightarrow> 0);
              format = (if sr > 0 then format\<lparr>af_sample_rate := sr\<rparr> else format) in
          if ch \<ge> 1 \<and> ch \<le> int AUDIO_MAX_CHANNELS then format\<lparr>af_channels := ch\<rparr> else format)"

definition sdp_rtpmap :: "bytes \<Rightarrow> audio_format \<Rightarrow> audio_format" where
  "sdp_rtpmap sdp format =
     (case strstr (asc ''a=rtpmap:'') sdp of
        None \<Rightarrow> format
      | Some rtpmap \<Rightarrow>
          let codec = (case scan_d (drop 9 rtpmap) of
                         Some (_, r) \<Rightarrow> (case scan_word 31 r of Some (w, _) \<Rightarrow> w | None \<Rightarrow> af_codec format)
                       | None \<Rightarrow> af_codec format);
              name = takeWhile (\<lambda>c. c \<noteq> 47) codec in
          if name = codec then format\<lparr>af_codec := codec\<rparr>
          else rtpmap_rate (drop (length name + 1) codec) (format\<lparr>af_codec := name\<rparr>))"

definition sdp_fmtp :: "bytes \<Rightarrow> audio_format \<Rightarrow> audio_format" where
  "sdp_fmtp sdp format =
     (case strstr (asc ''a=fmtp:'') sdp of
        None \<Rightarrow> format
      | Some fmtp \<Rightarrow>
          let v = (case scan_d (drop 7 fmtp) of Some (_, r) \<Rightarrow> scan_us 11 r | None \<Rightarrow> []); matched = length v in
          if matched \<ge> 7 then
            let format = format\<lparr>af_max_samples_per_frame := (if v ! 0 > of_nat MAX_SAMPLES_PER_FRAME then of_nat MAX_SAMPLES_PER_FRAME else v ! 0),
                  af_sample_size := ucast (v ! 2), af_rice_history_mult := ucast (v ! 3), af_rice_initial_history := ucast (v ! 4),
                  af_rice_limit := ucast (v ! 5)\<rparr>;
                format = (if v ! 6 \<ge> 1 \<and> v ! 6 \<le> of_nat AUDIO_MAX_CHANNELS
                          then format\<lparr>af_num_channels := ucast (v ! 6), af_channels := sint (v ! 6)\<rparr> else format);
                format = format\<lparr>af_bits_per_sample := sint (v ! 2)\<rparr>;
                format = (if matched \<ge> 8 then format\<lparr>af_max_run := ucast (v ! 7)\<rparr> else format);
                format = (if matched \<ge> 9 then format\<lparr>af_max_coded_frame_size := v ! 8\<rparr> else format);
                format = (if matched \<ge> 10 then format\<lparr>af_avg_bit_rate := v ! 9\<rparr> else format) in
            if matched \<ge> 11 then format\<lparr>af_sample_rate_config := v ! 10, af_sample_rate := sint (v ! 10)\<rparr> else format
          else format)"

definition sdp_aac :: "audio_format \<Rightarrow> audio_format" where
  "sdp_aac format =
     (if (\<exists>n \<in> set [asc ''AAC'', asc ''aac'', asc ''mpeg4-generic'', asc ''MPEG4-GENERIC'']. strstr n (af_codec format) \<noteq> None)
        \<and> af_max_samples_per_frame format = 0
      then format\<lparr>af_frame_size := 1024, af_max_samples_per_frame := 1024\<rparr> else format)"

definition sdp_format :: "bytes \<Rightarrow> audio_format" where
  "sdp_format sdp = sdp_aac (sdp_fmtp sdp (sdp_rtpmap sdp sdp_defaults))"

section \<open>What a session description can set\<close>

text \<open>The bounds the buffers downstream are sized for.\<close>

definition format_bounded :: "audio_format \<Rightarrow> bool" where
  "format_bounded f \<longleftrightarrow> 1 \<le> af_channels f \<and> af_channels f \<le> 2 \<and> af_max_samples_per_frame f \<le> 4096 \<and> length (af_codec f) \<le> 31"

lemma defaults_bounded: "format_bounded sdp_defaults"
  by (simp add: format_bounded_def sdp_defaults_def no_format_def)

lemma rtpmap_rate_bounded: "format_bounded f \<Longrightarrow> format_bounded (rtpmap_rate s f)"
  by (auto simp: rtpmap_rate_def format_bounded_def AUDIO_MAX_CHANNELS_def Let_def split: option.split list.split)

lemma scan_word_length: "scan_word n s = Some (w, r) \<Longrightarrow> length w \<le> n"
  by (auto simp: scan_word_def Let_def split: if_splits)

lemma rtpmap_bounded:
  assumes "format_bounded f"
  shows "format_bounded (sdp_rtpmap sdp f)"
proof -
  have name: "length (takeWhile (\<lambda>c. c \<noteq> 47) codec) \<le> 31" if "length codec \<le> 31" for codec :: bytes
    using that length_takeWhile_le le_trans by blast
  have *: "format_bounded (f\<lparr>af_codec := c\<rparr>)" if "length c \<le> 31" for c
    using assms that by (simp add: format_bounded_def)
  show ?thesis
  proof (cases "strstr (asc ''a=rtpmap:'') sdp")
    case (Some rtpmap)
    define codec where "codec = (case scan_d (drop 9 rtpmap) of
                         Some (_, r) \<Rightarrow> (case scan_word 31 r of Some (w, _) \<Rightarrow> w | None \<Rightarrow> af_codec f)
                       | None \<Rightarrow> af_codec f)"
    have "length codec \<le> 31"
      using assms scan_word_length by (auto simp: codec_def format_bounded_def split: option.split)
    then show ?thesis using * name rtpmap_rate_bounded
      unfolding sdp_rtpmap_def Some option.case codec_def [symmetric] Let_def by simp
  qed (use assms in \<open>simp add: sdp_rtpmap_def\<close>)
qed

lemma channel_value: "1 \<le> (v :: u32) \<Longrightarrow> v \<le> 2 \<Longrightarrow> 1 \<le> sint v \<and> sint v \<le> 2"
proof -
  assume "1 \<le> v" "v \<le> 2"
  then have "v = 1 \<or> v = 2" by (simp add: word_le_nat_alt word_unat_eq_iff) presburger
  then show ?thesis by auto
qed

lemma fmtp_bounded: "format_bounded f \<Longrightarrow> format_bounded (sdp_fmtp sdp f)"
  by (auto simp: sdp_fmtp_def format_bounded_def MAX_SAMPLES_PER_FRAME_def AUDIO_MAX_CHANNELS_def Let_def channel_value not_less split: option.split)

text \<open>
  Whatever a sender announces, the format the receiver works with has one or two channels and at most 4096 samples per frame, the size
  of the decode buffer, and its codec name fits the 32-byte array.
\<close>

theorem sdp_bounded: "format_bounded (sdp_format sdp)"
  unfolding sdp_format_def using fmtp_bounded [OF rtpmap_bounded [OF defaults_bounded, of sdp], of sdp]
  by (auto simp: sdp_aac_def format_bounded_def Let_def)

text \<open>
  The registry does no such check: the samples per frame of a SETUP request are taken as they are, reduced to 32 bits.
\<close>

lemma codec_configure_fields:
  "af_max_samples_per_frame (snd (rtsp_codec_configure type fmt sr spf)) = of_int spf"
  "af_channels (snd (rtsp_codec_configure type fmt sr spf)) = 2"
  "af_codec (snd (rtsp_codec_configure type fmt sr spf)) \<in> set (map fst codec_registry)"
  by (auto simp: rtsp_codec_configure_def configure_codec_def codec_registry_def split: option.split)

end
