(* ===== verification/Rtsp_Fairplay.thy ===== *)
theory Rtsp_Fairplay
  imports Prelude
begin

text \<open>
  The FairPlay handshake (\<open>main/rtsp/rtsp_fairplay.c\<close>), which is answered from fixed tables.
\<close>

section \<open>The model\<close>

definition FP_REPLY_SIZE :: nat where "FP_REPLY_SIZE = 142"
definition FP_HEADER_SIZE :: nat where "FP_HEADER_SIZE = 12"
definition FP_SETUP2_SUFFIX_LEN :: nat where "FP_SETUP2_SUFFIX_LEN = 20"

definition fp_reply1 :: bytes where
  "fp_reply1 =
     [0x46, 0x50, 0x4c, 0x59, 0x03, 0x01, 0x02, 0x00, 0x00, 0x00, 0x00, 0x82, 0x02, 0x00, 0x0f, 0x9f, 0x3f, 0x9e, 0x0a, 0x25,
      0x21, 0xdb, 0xdf, 0x31, 0x2a, 0xb2, 0xbf, 0xb2, 0x9e, 0x8d, 0x23, 0x2b, 0x63, 0x76, 0xa8, 0xc8, 0x18, 0x70, 0x1d, 0x22,
      0xae, 0x93, 0xd8, 0x27, 0x37, 0xfe, 0xaf, 0x9d, 0xb4, 0xfd, 0xf4, 0x1c, 0x2d, 0xba, 0x9d, 0x1f, 0x49, 0xca, 0xaa, 0xbf,
      0x65, 0x91, 0xac, 0x1f, 0x7b, 0xc6, 0xf7, 0xe0, 0x66, 0x3d, 0x21, 0xaf, 0xe0, 0x15, 0x65, 0x95, 0x3e, 0xab, 0x81, 0xf4,
      0x18, 0xce, 0xed, 0x09, 0x5a, 0xdb, 0x7c, 0x3d, 0x0e, 0x25, 0x49, 0x09, 0xa7, 0x98, 0x31, 0xd4, 0x9c, 0x39, 0x82, 0x97,
      0x34, 0x34, 0xfa, 0xcb, 0x42, 0xc6, 0x3a, 0x1c, 0xd9, 0x11, 0xa6, 0xfe, 0x94, 0x1a, 0x8a, 0x6d, 0x4a, 0x74, 0x3b, 0x46,
      0xc3, 0xa7, 0x64, 0x9e, 0x44, 0xc7, 0x89, 0x55, 0xe4, 0x9d, 0x81, 0x55, 0x00, 0x95, 0x49, 0xc4, 0xe2, 0xf7, 0xa3, 0xf6,
      0xd5, 0xba]"

definition fp_reply2 :: bytes where
  "fp_reply2 =
     [0x46, 0x50, 0x4c, 0x59, 0x03, 0x01, 0x02, 0x00, 0x00, 0x00, 0x00, 0x82, 0x02, 0x01, 0xcf, 0x32, 0xa2, 0x57, 0x14, 0xb2,
      0x52, 0x4f, 0x8a, 0xa0, 0xad, 0x7a, 0xf1, 0x64, 0xe3, 0x7b, 0xcf, 0x44, 0x24, 0xe2, 0x00, 0x04, 0x7e, 0xfc, 0x0a, 0xd6,
      0x7a, 0xfc, 0xd9, 0x5d, 0xed, 0x1c, 0x27, 0x30, 0xbb, 0x59, 0x1b, 0x96, 0x2e, 0xd6, 0x3a, 0x9c, 0x4d, 0xed, 0x88, 0xba,
      0x8f, 0xc7, 0x8d, 0xe6, 0x4d, 0x91, 0xcc, 0xfd, 0x5c, 0x7b, 0x56, 0xda, 0x88, 0xe3, 0x1f, 0x5c, 0xce, 0xaf, 0xc7, 0x43,
      0x19, 0x95, 0xa0, 0x16, 0x65, 0xa5, 0x4e, 0x19, 0x39, 0xd2, 0x5b, 0x94, 0xdb, 0x64, 0xb9, 0xe4, 0x5d, 0x8d, 0x06, 0x3e,
      0x1e, 0x6a, 0xf0, 0x7e, 0x96, 0x56, 0x16, 0x2b, 0x0e, 0xfa, 0x40, 0x42, 0x75, 0xea, 0x5a, 0x44, 0xd9, 0x59, 0x1c, 0x72,
      0x56, 0xb9, 0xfb, 0xe6, 0x51, 0x38, 0x98, 0xb8, 0x02, 0x27, 0x72, 0x19, 0x88, 0x57, 0x16, 0x50, 0x94, 0x2a, 0xd9, 0x46,
      0x68, 0x8a]"

definition fp_reply3 :: bytes where
  "fp_reply3 =
     [0x46, 0x50, 0x4c, 0x59, 0x03, 0x01, 0x02, 0x00, 0x00, 0x00, 0x00, 0x82, 0x02, 0x02, 0xc1, 0x69, 0xa3, 0x52, 0xee, 0xed,
      0x35, 0xb1, 0x8c, 0xdd, 0x9c, 0x58, 0xd6, 0x4f, 0x16, 0xc1, 0x51, 0x9a, 0x89, 0xeb, 0x53, 0x17, 0xbd, 0x0d, 0x43, 0x36,
      0xcd, 0x68, 0xf6, 0x38, 0xff, 0x9d, 0x01, 0x6a, 0x5b, 0x52, 0xb7, 0xfa, 0x92, 0x16, 0xb2, 0xb6, 0x54, 0x82, 0xc7, 0x84,
      0x44, 0x11, 0x81, 0x21, 0xa2, 0xc7, 0xfe, 0xd8, 0x3d, 0xb7, 0x11, 0x9e, 0x91, 0x82, 0xaa, 0xd7, 0xd1, 0x8c, 0x70, 0x63,
      0xe2, 0xa4, 0x57, 0x55, 0x59, 0x10, 0xaf, 0x9e, 0x0e, 0xfc, 0x76, 0x34, 0x7d, 0x16, 0x40, 0x43, 0x80, 0x7f, 0x58, 0x1e,
      0xe4, 0xfb, 0xe4, 0x2c, 0xa9, 0xde, 0xdc, 0x1b, 0x5e, 0xb2, 0xa3, 0xaa, 0x3d, 0x2e, 0xcd, 0x59, 0xe7, 0xee, 0xe7, 0x0b,
      0x36, 0x29, 0xf2, 0x2a, 0xfd, 0x16, 0x1d, 0x87, 0x73, 0x53, 0xdd, 0xb9, 0x9a, 0xdc, 0x8e, 0x07, 0x00, 0x6e, 0x56, 0xf8,
      0x50, 0xce]"

definition fp_reply4 :: bytes where
  "fp_reply4 =
     [0x46, 0x50, 0x4c, 0x59, 0x03, 0x01, 0x02, 0x00, 0x00, 0x00, 0x00, 0x82, 0x02, 0x03, 0x90, 0x01, 0xe1, 0x72, 0x7e, 0x0f,
      0x57, 0xf9, 0xf5, 0x88, 0x0d, 0xb1, 0x04, 0xa6, 0x25, 0x7a, 0x23, 0xf5, 0xcf, 0xff, 0x1a, 0xbb, 0xe1, 0xe9, 0x30, 0x45,
      0x25, 0x1a, 0xfb, 0x97, 0xeb, 0x9f, 0xc0, 0x01, 0x1e, 0xbe, 0x0f, 0x3a, 0x81, 0xdf, 0x5b, 0x69, 0x1d, 0x76, 0xac, 0xb2,
      0xf7, 0xa5, 0xc7, 0x08, 0xe3, 0xd3, 0x28, 0xf5, 0x6b, 0xb3, 0x9d, 0xbd, 0xe5, 0xf2, 0x9c, 0x8a, 0x17, 0xf4, 0x81, 0x48,
      0x7e, 0x3a, 0xe8, 0x63, 0xc6, 0x78, 0x32, 0x54, 0x22, 0xe6, 0xf7, 0x8e, 0x16, 0x6d, 0x18, 0xaa, 0x7f, 0xd6, 0x36, 0x25,
      0x8b, 0xce, 0x28, 0x72, 0x6f, 0x66, 0x1f, 0x73, 0x88, 0x93, 0xce, 0x44, 0x31, 0x1e, 0x4b, 0xe6, 0xc0, 0x53, 0x51, 0x93,
      0xe5, 0xef, 0x72, 0xe8, 0x68, 0x62, 0x33, 0x72, 0x9c, 0x22, 0x7d, 0x82, 0x0c, 0x99, 0x94, 0x45, 0xd8, 0x92, 0x46, 0xc8,
      0xc3, 0x59]"

definition fp_header :: bytes where
  "fp_header =
     [0x46, 0x50, 0x4c, 0x59, 0x03, 0x01, 0x04, 0x00, 0x00, 0x00, 0x00, 0x14]"

text \<open>\<open>Fail\<close> is the result \<open>-1\<close>; \<open>mem\<close> tells whether an allocation succeeds.\<close>

definition rtsp_fairplay_handle :: "(nat \<Rightarrow> bool) \<Rightarrow> bytes \<Rightarrow> bytes cres" where
  "rtsp_fairplay_handle mem body =
     (if length body < 16 then Fail
      else
        cbind (rd body 4) (\<lambda>version. cbind (rd body 5) (\<lambda>type. cbind (rd body 6) (\<lambda>seq. cbind (rd body 14) (\<lambda>mode.
          if version \<noteq> 3 \<or> type \<noteq> 1 then Fail
          else if seq = 1 then
            let reply = (if mode = 0 then fp_reply1 else if mode = 1 then fp_reply2 else if mode = 2 then fp_reply3
                         else if mode = 3 then fp_reply4 else fp_reply1) in
            if \<not> mem FP_REPLY_SIZE then Fail else slice reply 0 FP_REPLY_SIZE
          else if seq = 3 then
            if \<not> mem (FP_HEADER_SIZE + FP_SETUP2_SUFFIX_LEN) then Fail
            else
              cbind (slice fp_header 0 FP_HEADER_SIZE) (\<lambda>header.
                if length body \<ge> FP_SETUP2_SUFFIX_LEN
                then cbind (slice body (length body - FP_SETUP2_SUFFIX_LEN) FP_SETUP2_SUFFIX_LEN) (\<lambda>suffix. Done (header @ suffix))
                else Done (header @ replicate FP_SETUP2_SUFFIX_LEN 0))
          else Fail)))))"

section \<open>The answers\<close>

lemma fp_sizes: "length fp_reply1 = 142" "length fp_reply2 = 142" "length fp_reply3 = 142" "length fp_reply4 = 142" "length fp_header = 12"
  by (simp_all add: fp_reply1_def fp_reply2_def fp_reply3_def fp_reply4_def fp_header_def)

lemma fp_modes: "fp_reply1 ! 13 = 0" "fp_reply2 ! 13 = 1" "fp_reply3 ! 13 = 2" "fp_reply4 ! 13 = 3"
  by (simp_all add: fp_reply1_def fp_reply2_def fp_reply3_def fp_reply4_def)

text \<open>No message makes the handler read outside of it, and an answer has one of the two sizes.\<close>

lemma fairplay_safe: "outcome (\<lambda>r. length r = 142 \<or> length r = 32) (rtsp_fairplay_handle mem body)"
  by (auto simp: rtsp_fairplay_handle_def rd_def slice_def fp_sizes FP_REPLY_SIZE_def FP_HEADER_SIZE_def FP_SETUP2_SUFFIX_LEN_def Let_def)

text \<open>The answer to the first message carries the mode that was asked for.\<close>

lemma fairplay_mode:
  assumes "rtsp_fairplay_handle mem body = Done r" "body ! 6 = 1" "body ! 14 < 4"
  shows "r ! 13 = body ! 14"
proof -
  have "16 \<le> length body" using assms(1) by (auto simp: rtsp_fairplay_handle_def split: if_splits)
  moreover have "body ! 14 = 0 \<or> body ! 14 = 1 \<or> body ! 14 = 2 \<or> body ! 14 = 3" using assms(3) by (simp add: word_less_nat_alt word_unat_eq_iff) presburger
  ultimately show ?thesis using assms
    by (auto simp: rtsp_fairplay_handle_def rd_def slice_def fp_sizes fp_modes FP_REPLY_SIZE_def Let_def split: if_splits)
qed

end
