(* ===== verification/Dacp_Client.thy ===== *)
theory Dacp_Client
  imports C_String
begin

text \<open>
  The remote control client (\<open>main/dacp_client.c\<close>): the session kept for the sender, the command queue and the worker task. The worker
  looks up the port of the sender without holding the mutex, so the RTSP task may change the session in between; the lookup is therefore two
  actions here. The answers of the mDNS service and of the HTTP client are arguments of the actions.
\<close>

section \<open>The model\<close>

subsection \<open>Case-insensitive comparison\<close>

definition strcasecmp_eq :: "bytes \<Rightarrow> bytes \<Rightarrow> bool" where
  "strcasecmp_eq a b \<longleftrightarrow> map tolower a = map tolower b"

text \<open>The suffix from the first match on.\<close>

fun strcasestr :: "bytes \<Rightarrow> bytes \<Rightarrow> bytes option" where
  "strcasestr needle [] = (if needle = [] then Some [] else None)"
| "strcasestr needle (c # s) =
     (if starts (map tolower needle) (map tolower (c # s)) then Some (c # s) else strcasestr needle s)"

subsection \<open>State\<close>

definition DACP_ID_MAX :: nat where "DACP_ID_MAX = 32"
definition ACTIVE_REMOTE_MAX :: nat where "ACTIVE_REMOTE_MAX = 32"
definition CMD_PATH_MAX :: nat where "CMD_PATH_MAX = 80"
definition CMD_QUEUE_LEN :: nat where "CMD_QUEUE_LEN = 4"
definition CMD_DISCOVER :: bytes where "CMD_DISCOVER = [1]"

text \<open>\<open>dc_lookup\<close> is the identifier the worker has copied for a lookup that is under way.\<close>

record dacp =
  dc_initialized :: bool
  dc_dacp_id :: bytes
  dc_active_remote :: bytes
  dc_client_ip :: u32
  dc_port :: u16
  dc_session_valid :: bool
  dc_discovery_failed :: bool
  dc_queue :: "bytes list"
  dc_lookup :: "bytes option"

definition dacp_start :: dacp where
  "dacp_start = \<lparr>dc_initialized = True, dc_dacp_id = [], dc_active_remote = [], dc_client_ip = 0, dc_port = 0, dc_session_valid = False,
     dc_discovery_failed = False, dc_queue = [], dc_lookup = None\<rparr>"

text \<open>The mutex, the queue and the worker are created or none of them is.\<close>

definition dacp_init :: "bool \<Rightarrow> bool \<Rightarrow> bool \<Rightarrow> dacp \<Rightarrow> dacp" where
  "dacp_init mutex_ok queue_ok task_ok d =
     (if dc_initialized d \<or> \<not> mutex_ok \<or> \<not> queue_ok \<or> \<not> task_ok then d else d\<lparr>dc_initialized := True, dc_queue := []\<rparr>)"

definition strlcpy :: "nat \<Rightarrow> bytes \<Rightarrow> bytes" where
  "strlcpy n s = take (n - 1) s"

subsection \<open>Session\<close>

definition dacp_set_session :: "bytes \<Rightarrow> bytes \<Rightarrow> u32 \<Rightarrow> dacp \<Rightarrow> dacp" where
  "dacp_set_session dacp_id active_remote client_ip d =
     (if \<not> dc_initialized d then d
      else if dc_dacp_id d = dacp_id \<and> dc_session_valid d
      then d\<lparr>dc_active_remote := strlcpy ACTIVE_REMOTE_MAX active_remote, dc_client_ip := client_ip\<rparr>
      else
        let d = d\<lparr>dc_dacp_id := strlcpy DACP_ID_MAX dacp_id, dc_active_remote := strlcpy ACTIVE_REMOTE_MAX active_remote,
                  dc_client_ip := client_ip, dc_port := 0, dc_discovery_failed := False\<rparr>;
            d = d\<lparr>dc_session_valid := (dc_dacp_id d \<noteq> [] \<and> dc_active_remote d \<noteq> [])\<rparr> in
        if dc_session_valid d \<and> length (dc_queue d) < CMD_QUEUE_LEN then d\<lparr>dc_queue := CMD_DISCOVER # dc_queue d\<rparr> else d)"

definition dacp_clear_session :: "dacp \<Rightarrow> dacp" where
  "dacp_clear_session d =
     (if \<not> dc_initialized d then d
      else d\<lparr>dc_dacp_id := [], dc_active_remote := [], dc_port := 0, dc_session_valid := False, dc_discovery_failed := False\<rparr>)"

definition dacp_is_active :: "dacp \<Rightarrow> bool" where
  "dacp_is_active d \<longleftrightarrow> dc_initialized d \<and> dc_session_valid d"

subsection \<open>Commands\<close>

definition send_dacp_request :: "bytes \<Rightarrow> dacp \<Rightarrow> dacp" where
  "send_dacp_request path d =
     (if \<not> dc_initialized d then d
      else if length (dc_queue d) < CMD_QUEUE_LEN then d\<lparr>dc_queue := dc_queue d @ [strlcpy CMD_PATH_MAX path]\<rparr> else d)"

definition dacp_send_playpause :: "dacp \<Rightarrow> dacp" where "dacp_send_playpause = send_dacp_request (asc ''playpause'')"
definition dacp_send_next :: "dacp \<Rightarrow> dacp" where "dacp_send_next = send_dacp_request (asc ''nextitem'')"
definition dacp_send_prev :: "dacp \<Rightarrow> dacp" where "dacp_send_prev = send_dacp_request (asc ''previtem'')"
definition dacp_send_volume_up :: "dacp \<Rightarrow> dacp" where "dacp_send_volume_up = send_dacp_request (asc ''volumeup'')"
definition dacp_send_volume_down :: "dacp \<Rightarrow> dacp" where "dacp_send_volume_down = send_dacp_request (asc ''volumedown'')"

definition ip_text :: "u32 \<Rightarrow> bytes" where
  "ip_text ip = dec (unat (ip AND 0xFF)) @ asc ''.'' @ dec (unat (drop_bit 8 ip AND 0xFF)) @ asc ''.''
     @ dec (unat (drop_bit 16 ip AND 0xFF)) @ asc ''.'' @ dec (unat (drop_bit 24 ip))"

definition request_url :: "u32 \<Rightarrow> u16 \<Rightarrow> bytes \<Rightarrow> bytes" where
  "request_url ip port path = asc ''http://'' @ ip_text ip @ asc '':'' @ dec (unat port) @ asc ''/ctrl-int/1/'' @ path"

text \<open>
  The request the worker sends, its URL cut to the buffer and the value of the \<open>Active-Remote\<close> header. The outcome of the HTTP
  client is an argument; \<open>No_client\<close> stands for a client that could not be created and for a mutex that stayed busy for 100 ms.
\<close>

datatype http_result = No_client | Http_failed | Http_done

definition execute_dacp_request :: "http_result \<Rightarrow> bytes \<Rightarrow> dacp \<Rightarrow> (bytes \<times> bytes) option \<times> dacp" where
  "execute_dacp_request http path d =
     (if \<not> dc_session_valid d \<or> dc_active_remote d = [] then (None, d)
      else if dc_port d = 0 \<or> http = No_client then (None, d)
      else (Some (take 127 (request_url (dc_client_ip d) (dc_port d) path), dc_active_remote d),
            if http = Http_failed then d\<lparr>dc_port := 0\<rparr> else d))"

subsection \<open>Discovery\<close>

definition discover_begin :: "dacp \<Rightarrow> dacp" where
  "discover_begin d =
     (if dc_port d \<noteq> 0 \<or> dc_discovery_failed d \<or> dc_dacp_id d = [] then d else d\<lparr>dc_lookup := Some (dc_dacp_id d)\<rparr>)"

text \<open>The port of the first service whose name contains the identifier; a service is a name, if it has one, and a port.\<close>

definition match_service :: "bytes \<Rightarrow> bytes option \<times> u16 \<Rightarrow> bool" where
  "match_service did r =
     (case r of (Some name, port) \<Rightarrow> port \<noteq> 0 \<and> (strcasecmp_eq name did \<or> strcasestr did name \<noteq> None) | (None, _) \<Rightarrow> False)"

definition found_port :: "bytes \<Rightarrow> (bytes option \<times> u16) list \<Rightarrow> u16" where
  "found_port did results = (case find (match_service did) results of Some (_, port) \<Rightarrow> port | None \<Rightarrow> 0)"

definition discover_end :: "(bytes option \<times> u16) list \<Rightarrow> dacp \<Rightarrow> dacp" where
  "discover_end results d =
     (case dc_lookup d of
        None \<Rightarrow> d
      | Some did \<Rightarrow>
          let port = found_port did results; d = d\<lparr>dc_lookup := None, dc_port := port\<rparr> in
          if port = 0 then d\<lparr>dc_discovery_failed := True\<rparr> else d)"

text \<open>The worker takes the next command when it is not in a lookup.\<close>

definition dacp_worker_task :: "http_result \<Rightarrow> dacp \<Rightarrow> (bytes \<times> bytes) option \<times> dacp" where
  "dacp_worker_task http d =
     (case (dc_lookup d, dc_queue d) of
        (None, path # rest) \<Rightarrow>
          let d = d\<lparr>dc_queue := rest\<rparr> in
          if take 1 path = CMD_DISCOVER then (None, discover_begin d) else execute_dacp_request http path d
      | _ \<Rightarrow> (None, d))"

definition dacp_probe_service :: "(bytes option \<times> u16) list \<Rightarrow> dacp \<Rightarrow> bool" where
  "dacp_probe_service results d \<longleftrightarrow>
     dc_initialized d \<and> dc_dacp_id d \<noteq> []
     \<and> (\<exists>r \<in> set results. case r of (Some name, _) \<Rightarrow> strcasecmp_eq name (dc_dacp_id d) \<or> strcasestr (dc_dacp_id d) name \<noteq> None | (None, _) \<Rightarrow> False)"

subsection \<open>Interleaving\<close>

datatype dacp_act = Set_session bytes bytes u32 | Clear_session | Press bytes | Worker http_result | Mdns_answer "(bytes option \<times> u16) list"

fun dacp_exec :: "dacp_act \<Rightarrow> dacp \<Rightarrow> (bytes \<times> bytes) option \<times> dacp" where
  "dacp_exec (Set_session dacp_id remote ip) d = (None, dacp_set_session dacp_id remote ip d)"
| "dacp_exec Clear_session d = (None, dacp_clear_session d)"
| "dacp_exec (Press path) d = (None, send_dacp_request path d)"
| "dacp_exec (Worker http) d = dacp_worker_task http d"
| "dacp_exec (Mdns_answer results) d = (None, discover_end results d)"

text \<open>The requests sent along a history, and the state at its end.\<close>

fun dacp_run :: "dacp_act list \<Rightarrow> dacp \<Rightarrow> (bytes \<times> bytes) list \<times> dacp" where
  "dacp_run [] d = ([], d)"
| "dacp_run (a # as) d =
     (case dacp_exec a d of (r, d) \<Rightarrow> case dacp_run as d of (rs, d) \<Rightarrow> ((case r of Some q \<Rightarrow> q # rs | None \<Rightarrow> rs), d))"

section \<open>Requests\<close>

lemmas dacp_consts = DACP_ID_MAX_def ACTIVE_REMOTE_MAX_def CMD_PATH_MAX_def CMD_QUEUE_LEN_def CMD_DISCOVER_def strlcpy_def

lemma dec_length: "n < 10 ^ k \<Longrightarrow> 0 < k \<Longrightarrow> length (dec n) \<le> k"
proof (induction k arbitrary: n)
  case (Suc k)
  show ?case
  proof (cases "n < 10")
    case False
    then have k: "0 < k" using Suc.prems by (cases k) auto
    have "n div 10 < 10 ^ k" using Suc.prems by (simp add: less_mult_imp_div_less mult.commute)
    from Suc.IH [OF this k] show ?thesis using False by (subst dec.simps) simp
  qed (subst dec.simps, simp)
qed simp

lemma ip_text_length: "length (ip_text ip) \<le> 15"
proof -
  have small: "length (dec (unat (x AND 0xFF))) \<le> 3" for x :: u32
  proof -
    have "x AND 0xFF \<le> 0xFF" by (rule word_and_le1)
    then have "unat (x AND 0xFF) \<le> 255" by (simp add: word_le_nat_alt)
    then show ?thesis by (intro dec_length) auto
  qed
  have "unat ip < 2 ^ 32" by (rule order_less_le_trans [OF unsigned_less]) simp
  then have "unat (drop_bit 24 ip) < 1000" by (simp add: drop_bit_eq_div unat_div)
  then have "length (dec (unat (drop_bit 24 ip))) \<le> 3" by (intro dec_length) auto
  then show ?thesis using small [of ip] small [of "drop_bit 8 ip"] small [of "drop_bit 16 ip"] by (simp add: ip_text_def)
qed

text \<open>The URL of a queued command always fits the buffer it is printed into.\<close>

lemma url_fits:
  assumes "length path \<le> 79"
  shows "length (request_url ip port path) \<le> 127"
proof -
  have "unat port < 2 ^ 16" by (rule order_less_le_trans [OF unsigned_less]) simp
  then have "length (dec (unat port)) \<le> 5" by (intro dec_length) auto
  then show ?thesis using ip_text_length [of ip] assms by (simp add: request_url_def)
qed

definition command :: "bytes \<Rightarrow> bool" where
  "command path \<longleftrightarrow> length path \<le> 79 \<and> take 1 path \<noteq> CMD_DISCOVER"

definition ident :: "bytes \<Rightarrow> bool" where
  "ident s \<longleftrightarrow> s \<noteq> [] \<and> length s \<le> 31"

text \<open>
  A key press reaches the sender: when a new session is announced, its service is found and the user presses a key, exactly one request is sent, to the address and
  the discovered port of the sender, with the token of the session.
\<close>

theorem dacp_command_delivered:
  assumes "dc_initialized d" "dc_lookup d = None" "dc_queue d = []" "\<not> (dc_dacp_id d = dacp_id \<and> dc_session_valid d)"
    and "ident dacp_id" "ident remote" "command path" "found_port dacp_id results \<noteq> 0" "h' \<noteq> No_client"
  shows "fst (dacp_run [Set_session dacp_id remote ip, Worker h, Mdns_answer results, Press path, Worker h'] d)
    = [(request_url ip (found_port dacp_id results) path, remote)]"
proof -
  have path: "take 79 path = path" "take (Suc 0) path \<noteq> [1]" using assms(7) by (simp_all add: command_def dacp_consts)
  have names: "take 31 dacp_id = dacp_id" "take 31 remote = remote" "dacp_id \<noteq> []" "remote \<noteq> []" using assms(5,6) by (simp_all add: ident_def)
  have url: "take 127 (request_url ip (found_port dacp_id results) path) = request_url ip (found_port dacp_id results) path"
    using url_fits assms(7) by (simp add: command_def)
  show ?thesis using assms(1-4,8,9) path names url
    by (auto simp: dacp_set_session_def dacp_worker_task_def discover_begin_def discover_end_def send_dacp_request_def
        execute_dacp_request_def dacp_consts Let_def)
qed

theorem dacp_command_delivered_witness:
  "fst (dacp_run [Set_session (asc ''AB12'') (asc ''99'') 0x0A00A8C0, Worker Http_done, Mdns_answer [(Some (asc ''iTunes_Ctrl_ab12''), 3689)],
     Press (asc ''nextitem''), Worker Http_done] dacp_start) = [(request_url 0x0A00A8C0 3689 (asc ''nextitem''), asc ''99'')]"
proof -
  have port: "found_port (asc ''AB12'') [(Some (asc ''iTunes_Ctrl_ab12''), 3689)] = 3689"
    by (simp add: found_port_def match_service_def strcasecmp_eq_def tolower_def starts_def)
  have "dc_initialized dacp_start" "dc_lookup dacp_start = None" "dc_queue dacp_start = []"
    "\<not> (dc_dacp_id dacp_start = asc ''AB12'' \<and> dc_session_valid dacp_start)" "ident (asc ''AB12'')" "ident (asc ''99'')" "command (asc ''nextitem'')"
    by (simp_all add: dacp_start_def ident_def command_def dacp_consts)
  from dacp_command_delivered [OF this, of "[(Some (asc ''iTunes_Ctrl_ab12''), 3689)]" Http_done "0x0A00A8C0" Http_done] show ?thesis
    by (simp add: port del: asc_simps)
qed

section \<open>Two ways to lose the sender\<close>

text \<open>
  When a second sender takes over while the port of the first is being looked up, its session gets the port of the first one: the key press goes
  to the address of the second sender at the port of the first, even if the second is known to the mDNS service.
\<close>

theorem dacp_port_of_old_session:
  assumes "dc_initialized d" "dc_lookup d = None" "dc_queue d = []" "\<not> (dc_dacp_id d = id1 \<and> dc_session_valid d)"
    and "ident id1" "ident id2" "id1 \<noteq> id2" "ident remote1" "ident remote2" "command path" "found_port id1 results \<noteq> 0"
    "h'' \<noteq> No_client"
  shows "fst (dacp_run [Set_session id1 remote1 ip1, Worker h, Set_session id2 remote2 ip2, Mdns_answer results, Worker h',
      Mdns_answer results, Press path, Worker h''] d) = [(request_url ip2 (found_port id1 results) path, remote2)]"
proof -
  have path: "take 79 path = path" "take (Suc 0) path \<noteq> [1]" using assms(10) by (simp_all add: command_def dacp_consts)
  have names: "take 31 id1 = id1" "take 31 id2 = id2" "id1 \<noteq> []" "id2 \<noteq> []" "take 31 remote1 = remote1" "take 31 remote2 = remote2"
    "remote1 \<noteq> []" "remote2 \<noteq> []" using assms(5,6,8,9) by (simp_all add: ident_def)
  have url: "take 127 (request_url ip2 (found_port id1 results) path) = request_url ip2 (found_port id1 results) path"
    using url_fits assms(10) by (simp add: command_def)
  show ?thesis using assms(1-4,7,11,12) path names url
    by (auto simp: dacp_set_session_def dacp_worker_task_def discover_begin_def discover_end_def send_dacp_request_def
        execute_dacp_request_def dacp_consts Let_def)
qed

theorem dacp_port_of_old_session_witness:
  "fst (dacp_run [Set_session (asc ''AB'') (asc ''1'') 7, Worker Http_done, Set_session (asc ''CD'') (asc ''2'') 9,
     Mdns_answer [(Some (asc ''CD''), 5000), (Some (asc ''AB''), 4000)], Worker Http_done, Mdns_answer [(Some (asc ''CD''), 5000), (Some (asc ''AB''), 4000)],
     Press (asc ''playpause''), Worker Http_done] dacp_start) = [(request_url 9 4000 (asc ''playpause''), asc ''2'')]"
proof -
  have port: "found_port (asc ''AB'') [(Some (asc ''CD''), 5000), (Some (asc ''AB''), 4000)] = 4000"
    by (simp add: found_port_def match_service_def strcasecmp_eq_def tolower_def starts_def)
  have "dc_initialized dacp_start" "dc_lookup dacp_start = None" "dc_queue dacp_start = []"
    "\<not> (dc_dacp_id dacp_start = asc ''AB'' \<and> dc_session_valid dacp_start)" "ident (asc ''AB'')" "ident (asc ''CD'')" "asc ''AB'' \<noteq> asc ''CD''"
    "ident (asc ''1'')" "ident (asc ''2'')" "command (asc ''playpause'')"
    by (simp_all add: dacp_start_def ident_def command_def dacp_consts)
  from dacp_port_of_old_session [OF this, of "[(Some (asc ''CD''), 5000), (Some (asc ''AB''), 4000)]" Http_done 7 Http_done 9 Http_done] show ?thesis
    by (simp add: port del: asc_simps)
qed

text \<open>The worker has no lookup to do and no port.\<close>

definition stuck :: "dacp \<Rightarrow> bool" where
  "stuck d \<longleftrightarrow> dc_session_valid d \<and> dc_port d = 0 \<and> dc_lookup d = None \<and> (\<forall>p \<in> set (dc_queue d). take 1 p \<noteq> CMD_DISCOVER)"

fun same_session :: "bytes \<Rightarrow> dacp_act \<Rightarrow> bool" where
  "same_session dacp_id (Set_session i r ip) \<longleftrightarrow> i = dacp_id"
| "same_session dacp_id Clear_session \<longleftrightarrow> False"
| "same_session dacp_id (Press path) \<longleftrightarrow> command path"
| "same_session dacp_id (Worker h) \<longleftrightarrow> True"
| "same_session dacp_id (Mdns_answer rs) \<longleftrightarrow> True"

lemma stuck_step:
  assumes "stuck d" "same_session (dc_dacp_id d) a" "dacp_exec a d = (r, d')"
  shows "r = None \<and> stuck d' \<and> dc_dacp_id d' = dc_dacp_id d"
  using assms
  by (cases a) (auto simp: stuck_def dacp_set_session_def send_dacp_request_def dacp_worker_task_def execute_dacp_request_def discover_end_def
      command_def dacp_consts Let_def split: if_splits list.splits option.splits)

lemma stuck_run:
  assumes "stuck d" "\<forall>a \<in> set as. same_session (dc_dacp_id d) a"
  shows "fst (dacp_run as d) = []"
  using assms
proof (induction as arbitrary: d)
  case (Cons a as)
  obtain r d' where e: "dacp_exec a d = (r, d')" by fastforce
  with stuck_step [OF Cons.prems(1) _ e] Cons.prems(2) have s: "r = None" "stuck d'" "dc_dacp_id d' = dc_dacp_id d" by auto
  from Cons.IH [OF s(2)] Cons.prems(2) s(3) have "fst (dacp_run as d') = []" by simp
  then show ?case using e s(1) by (simp split: prod.split)
qed simp

text \<open>
  One failed request ends remote control for the session: the port is forgotten, and no command, no request of the sender with the same
  identifier and no answer of the mDNS service brings it back, so that no key press is sent any more.
\<close>

theorem dacp_no_rediscovery:
  assumes "dc_session_valid d" "dc_active_remote d \<noteq> []" "dc_port d \<noteq> 0" "dc_lookup d = None" "command path"
    "\<forall>p \<in> set rest. command p" "dc_queue d = path # rest" "\<forall>a \<in> set as. same_session (dc_dacp_id d) a"
  shows "\<exists>q. fst (dacp_run (Worker Http_failed # as) d) = [q]"
proof -
  define d1 where "d1 = d\<lparr>dc_queue := rest, dc_port := 0\<rparr>"
  have exec: "dacp_exec (Worker Http_failed) d = (Some (take 127 (request_url (dc_client_ip d) (dc_port d) path), dc_active_remote d), d1)"
    using assms(1-5,7) by (simp add: dacp_worker_task_def execute_dacp_request_def command_def d1_def Let_def)
  have "stuck d1" "dc_dacp_id d1 = dc_dacp_id d" using assms(1,4,6) by (auto simp: stuck_def d1_def command_def)
  with stuck_run [of d1 as] assms(8) have "fst (dacp_run as d1) = []" by simp
  then show ?thesis using exec by (cases "dacp_run as d1") auto
qed

theorem dacp_no_rediscovery_witness:
  "\<exists>q. fst (dacp_run [Worker Http_failed, Press (asc ''nextitem''), Worker Http_done]
     (dacp_start\<lparr>dc_dacp_id := [65], dc_active_remote := [66], dc_session_valid := True, dc_port := 5, dc_queue := [asc ''playpause'']\<rparr>)) = [q]"
  by (rule dacp_no_rediscovery [where path = "asc ''playpause''" and rest = "[]"]) (simp_all add: dacp_start_def command_def dacp_consts)

end
