(* ===== verification/Rtsp_Handlers.thy ===== *)
theory Rtsp_Handlers
  imports Rtsp_Server Hap_Pairing Ntp_Clock Plist_Xml Bplist_Builder Rtsp_Metadata Rtsp_Codec Rtsp_Fairplay Dacp_Client
begin

text \<open>
  The RTSP method handlers and their dispatch (\<open>main/rtsp/rtsp_handlers.c\<close>): what a request does to the connection and to the
  components behind it. The state is that of the server's client loop, a \<open>world\<close> of the shared components together with the socket and the
  connection. What the handlers get from outside, the clock, the keys, the random bytes, the outcomes of allocations, of binding ports and of starting
  tasks, is the record \<open>env\<close>. What a volume request does is in the theory \<open>Rtsp_Volume\<close>; the text a volume is printed as is part of \<open>env\<close>. The build is
  the default one: AirPlay 2 with legacy senders allowed, no artwork.
\<close>

section \<open>The model\<close>

text \<open>
  The components behind a connection: the audio receiver with the PTP clock, the encryption of its streams, the NTP client, the remote control session, the flush
  flag of the output, the events sent to the listeners, and the socket the event port task listens on.
\<close>

record world =
  w_rx :: audio_receiver
  w_encrypt :: audio_encrypt
  w_ntp :: ntp
  w_ptp_running :: bool
  w_dacp :: dacp
  w_flush_requested :: bool
  w_events :: "(rtsp_event \<times> rtsp_metadata option) list"
  w_event_task :: "int option"

record env =
  ev_lib :: crypto_lib
  ev_mem :: "nat \<Rightarrow> bool"
  ev_session_mem :: bool
  ev_srp_mem :: bool
  ev_device_keys :: "bytes \<times> bytes"
  ev_session_keys :: "bytes \<times> bytes"
  ev_salt :: bytes
  ev_private :: bytes
  ev_mac :: bytes
  ev_name :: bytes
  ev_now_ms :: u32
  ev_now_us :: int
  ev_bind :: "nat \<Rightarrow> int \<times> u16"
  ev_listen :: "int \<times> u16"
  ev_start :: esp_err
  ev_buffered_port :: u16
  ev_decoder_ok :: bool
  ev_ntp_sock :: bool
  ev_ntp_task :: bool
  ev_out_of_range :: "real_value \<Rightarrow> u32"
  ev_volume :: bytes

type_synonym state = "world client"

definition AIRPLAY_FEATURES_HI :: u64 where "AIRPLAY_FEATURES_HI = 0x1C340"
definition AIRPLAY_FEATURES_LO :: u64 where "AIRPLAY_FEATURES_LO = 0x405C4A00"
definition AP2_AUDIO_BUFFER_SIZE :: u32 where "AP2_AUDIO_BUFFER_SIZE = 1 * 1024 * 1024"

subsection \<open>Answers and effects\<close>

definition keep_conn :: "world \<Rightarrow> rtsp_conn \<Rightarrow> (bool \<times> sock \<times> rtsp_conn option) cres \<Rightarrow> state cres" where
  "keep_conn w conn r = cbind r (\<lambda>(_, s, c). Done (w, s, case c of Some conn \<Rightarrow> conn | None \<Rightarrow> conn))"

definition send_response :: "env \<Rightarrow> state \<Rightarrow> int \<Rightarrow> bytes \<Rightarrow> int \<Rightarrow> bytes option \<Rightarrow> bytes option \<Rightarrow> state cres" where
  "send_response E c status_code status_text cseq extra_headers body =
     (case c of (w, s, conn) \<Rightarrow>
        keep_conn w conn (rtsp_send_response (ev_lib E) (ev_mem E) s (Some conn) status_code status_text cseq extra_headers body))"

definition send_ok :: "env \<Rightarrow> state \<Rightarrow> int \<Rightarrow> state cres" where
  "send_ok E c cseq = (case c of (w, s, conn) \<Rightarrow> keep_conn w conn (rtsp_send_ok (ev_lib E) (ev_mem E) s (Some conn) cseq))"

definition send_http :: "env \<Rightarrow> state \<Rightarrow> int \<Rightarrow> bytes \<Rightarrow> bytes \<Rightarrow> bytes \<Rightarrow> state cres" where
  "send_http E c status_code status_text content_type body =
     (case c of (w, s, conn) \<Rightarrow>
        keep_conn w conn (rtsp_send_http_response (ev_lib E) (ev_mem E) s (Some conn) status_code status_text content_type body))"

definition send_error :: "env \<Rightarrow> state \<Rightarrow> int \<Rightarrow> state cres" where
  "send_error E c cseq = send_response E c 500 (asc ''Internal Error'') cseq None None"

definition octets :: bytes where "octets = asc ''Content-Type: application/octet-stream'' @ crlf"
definition plist_type :: bytes where "plist_type = asc ''Content-Type: application/x-apple-binary-plist'' @ crlf"

definition send_octets :: "env \<Rightarrow> state \<Rightarrow> int \<Rightarrow> bytes \<Rightarrow> state cres" where
  "send_octets E c cseq body = send_response E c 200 (asc ''OK'') cseq (Some octets) (Some body)"

definition send_plist :: "env \<Rightarrow> state \<Rightarrow> int \<Rightarrow> bytes \<Rightarrow> state cres" where
  "send_plist E c cseq body = send_response E c 200 (asc ''OK'') cseq (Some plist_type) (Some body)"

definition on_rx :: "(audio_receiver \<Rightarrow> audio_receiver) \<Rightarrow> world \<Rightarrow> world" where
  "on_rx f w = w\<lparr>w_rx := f (w_rx w)\<rparr>"

definition emit_event :: "rtsp_event \<Rightarrow> rtsp_metadata option \<Rightarrow> world \<Rightarrow> world" where
  "emit_event event data w = w\<lparr>w_events := w_events w @ [(event, data)]\<rparr>"

definition audio_output_flush :: "world \<Rightarrow> world" where
  "audio_output_flush w = w\<lparr>w_flush_requested := True\<rparr>"

definition audio_receiver_set_encryption :: "audio_encrypt \<Rightarrow> world \<Rightarrow> world" where
  "audio_receiver_set_encryption encrypt w = w\<lparr>w_encrypt := encrypt\<rparr>"

definition on_dacp :: "(dacp \<Rightarrow> dacp) \<Rightarrow> world \<Rightarrow> world" where
  "on_dacp f w = w\<lparr>w_dacp := f (w_dacp w)\<rparr>"

definition rtsp_start_event_port_task :: "int \<Rightarrow> world \<Rightarrow> world" where
  "rtsp_start_event_port_task listen_socket w = w\<lparr>w_event_task := Some listen_socket\<rparr>"

definition ptp_clock_stop :: "world \<Rightarrow> world" where
  "ptp_clock_stop w = w\<lparr>w_ptp_running := False\<rparr>"

text \<open>A body that starts like a property list.\<close>

definition is_plist :: "bytes option \<Rightarrow> bool" where
  "is_plist body = (case body of Some b \<Rightarrow> take 8 b = asc ''bplist00'' | None \<Rightarrow> False)"

definition body_bytes :: "rtsp_request \<Rightarrow> bytes" where
  "body_bytes req = (case rq_body req of Some b \<Rightarrow> b | None \<Rightarrow> [])"

subsection \<open>Ports\<close>

definition rtsp_create_udp_socket :: "int \<times> u16 \<Rightarrow> u16 \<Rightarrow> int \<times> u16" where
  "rtsp_create_udp_socket bound port = (if fst bound < 0 then (-1, port) else bound)"

definition rtsp_create_event_socket :: "int \<times> u16 \<Rightarrow> u16 \<Rightarrow> int \<times> u16" where
  "rtsp_create_event_socket bound port = (if fst bound < 0 then (-1, port) else bound)"

text \<open>The sockets are closed again, so that only the port numbers stay.\<close>

definition ensure_stream_ports :: "env \<Rightarrow> bool \<Rightarrow> rtsp_conn \<Rightarrow> rtsp_conn" where
  "ensure_stream_ports E buffered conn =
     (let conn = (if \<not> buffered \<and> cn_data_port conn = 0
                  then conn\<lparr>cn_data_port := snd (rtsp_create_udp_socket (ev_bind E 0) (cn_data_port conn))\<rparr> else conn);
          conn = (if cn_control_port conn = 0
                  then conn\<lparr>cn_control_port := snd (rtsp_create_udp_socket (ev_bind E 1) (cn_control_port conn))\<rparr> else conn) in
      if cn_timing_port conn = 0
      then conn\<lparr>cn_timing_port := snd (rtsp_create_udp_socket (ev_bind E 2) (cn_timing_port conn))\<rparr> else conn)"

subsection \<open>OPTIONS and GET\<close>

definition public_methods :: bytes where
  "public_methods = asc ''Public: ANNOUNCE, SETUP, RECORD, PAUSE, FLUSH, FLUSHBUFFERED, TEARDOWN, OPTIONS, POST, GET, SET_PARAMETER, GET_PARAMETER, SETPEERS, SETRATEANCHORTIME'' @ crlf"

definition handle_options :: "env \<Rightarrow> rtsp_request \<Rightarrow> bytes \<Rightarrow> state \<Rightarrow> state cres" where
  "handle_options E req raw c = send_response E c 200 (asc ''OK'') (rq_cseq req) (Some public_methods) None"

definition rtsp_get_device_id :: "bytes \<Rightarrow> bytes" where
  "rtsp_get_device_id mac = device_id_of mac"

definition latency_calls :: "int \<Rightarrow> xml_call list" where
  "latency_calls type = [Dict_begin, Dict_int (asc ''type'') type, Dict_int (asc ''audioType'') 0x64,
     Dict_int (asc ''inputLatencyMicros'') 0, Dict_int (asc ''outputLatencyMicros'') 0, Dict_end]"

definition info_calls :: "env \<Rightarrow> xml_call list" where
  "info_calls E =
     [Dict_begin,
      Dict_string (asc ''deviceid'') (rtsp_get_device_id (ev_mac E)),
      Dict_uint (asc ''features'') (push_bit 32 AIRPLAY_FEATURES_HI OR AIRPLAY_FEATURES_LO),
      Dict_string (asc ''model'') (asc ''AudioAccessory5,1''),
      Dict_string (asc ''protovers'') (asc ''1.1''),
      Dict_string (asc ''srcvers'') (asc ''377.40.00''),
      Dict_int (asc ''vv'') 2,
      Dict_int (asc ''statusFlags'') 4,
      Dict_data (asc ''pk'') (fst (ev_device_keys E)),
      Dict_string (asc ''pi'') (asc ''00000000-0000-0000-0000-000000000000''),
      Dict_string (asc ''name'') (ev_name E),
      Dict_array_begin (asc ''audioFormats''),
      Dict_begin,
      Dict_int (asc ''type'') 96,
      Dict_int (asc ''audioInputFormats'') 0x01000000,
      Dict_int (asc ''audioOutputFormats'') 0x01000000,
      Dict_end,
      Array_end,
      Dict_array_begin (asc ''audioLatencies'')]
     @ latency_calls 96 @ latency_calls 103
     @ [Array_end, Dict_end]"

definition info_body :: "env \<Rightarrow> bytes cres" where
  "info_body E =
     cbind (plist_init (replicate 4096 0) 4096) (\<lambda>p.
     cbind (plist_begin p) (\<lambda>p.
     cbind (xml_run (info_calls E) p) (\<lambda>p.
     cbind (plist_end p) (\<lambda>(body_len, p). slice (pl_buffer p) 0 body_len))))"

definition handle_get :: "env \<Rightarrow> rtsp_request \<Rightarrow> bytes \<Rightarrow> state \<Rightarrow> state cres" where
  "handle_get E req raw c =
     (if rq_path req = asc ''/info'' then
        cbind (info_body E) (\<lambda>body. send_http E c 200 (asc ''OK'') (asc ''text/x-apple-plist+xml'') body)
      else send_http E c 404 (asc ''Not Found'') (asc ''text/plain'') (asc ''Not Found''))"

subsection \<open>POST\<close>

definition with_session :: "env \<Rightarrow> rtsp_conn \<Rightarrow> (hap_session \<times> rtsp_conn) option" where
  "with_session E conn =
     (case cn_hap_session conn of
        Some h \<Rightarrow> Some (h, conn)
      | None \<Rightarrow>
          if ev_session_mem E
          then let h = hap_session_create (ev_device_keys E) (ev_session_keys E) in Some (h, conn\<lparr>cn_hap_session := Some h\<rparr>)
          else None)"

text \<open>The state byte of a pairing message, if there is exactly one.\<close>

definition state_byte :: "bytes \<Rightarrow> u8 option cres" where
  "state_byte body =
     (case tlv8_get body TLV_TYPE_STATE of
        Fault \<Rightarrow> Fault | Fail \<Rightarrow> Done None | Done v \<Rightarrow> Done (if length v = 1 then Some (v ! 0) else None))"

definition pair_setup_step :: "env \<Rightarrow> hap_session \<Rightarrow> bytes \<Rightarrow> hap_result" where
  "pair_setup_step E h body =
     (if body = [] then Done (ESP_FAIL, [], h)
      else
        cbind (state_byte body) (\<lambda>st.
          if st = Some 1 then hap_pair_setup_m1 (ev_lib E) (ev_srp_mem E) (ev_salt E) (ev_private E) h body 2048
          else if st = Some 3 then hap_pair_setup_m3 (ev_lib E) h body 2048
          else if st = Some 5 then hap_pair_setup_m5 (ev_lib E) h body
          else Done (ESP_FAIL, [], h)))"

definition post_pair_setup :: "env \<Rightarrow> rtsp_request \<Rightarrow> state \<Rightarrow> state cres" where
  "post_pair_setup E req c =
     (case c of (w, s, conn) \<Rightarrow>
        case with_session E conn of
          None \<Rightarrow> send_error E c (rq_cseq req)
        | Some (h, conn) \<Rightarrow>
            if \<not> ev_mem E 2048 then send_error E (w, s, conn) (rq_cseq req)
            else
              cbind (pair_setup_step E h (body_bytes req)) (\<lambda>(err, response, h).
                let c = (w, s, conn\<lparr>cn_hap_session := Some h\<rparr>) in
                if err = ESP_OK \<and> response \<noteq> [] then
                  cbind (send_octets E c (rq_cseq req) response) (\<lambda>(w, s, conn).
                    Done (w, s, case cn_hap_session conn of
                        Some h \<Rightarrow> if pair_setup_state h = 4 \<and> session_established h then conn\<lparr>cn_encrypted_mode := True\<rparr> else conn
                      | None \<Rightarrow> conn))
                else send_octets E c (rq_cseq req) [0x06, 0x01, 0x02, 0x07, 0x01, 0x02]))"

text \<open>The flag tells whether the encrypted mode begins.\<close>

definition pair_verify_step :: "env \<Rightarrow> hap_session \<Rightarrow> bytes \<Rightarrow> ((esp_err \<times> bytes \<times> hap_session) \<times> bool) cres" where
  "pair_verify_step E h body =
     (if body = [] then Done ((ESP_FAIL, [], h), False)
      else
        cbind (state_byte body) (\<lambda>st. case st of
          Some state \<Rightarrow>
            if state = 1 then cbind (hap_pair_verify_m1 (ev_lib E) (ev_mac E) h body 1024) (\<lambda>r. Done (r, False))
            else if state = 3 then
              cbind (hap_pair_verify_m3 (ev_lib E) h body 1024) (\<lambda>(err, response, h).
                Done ((err, response, h), err = ESP_OK \<and> pair_verify_state h = 4))
            else Done ((ESP_FAIL, [], h), False)
        | None \<Rightarrow>
            if pair_verify_state h = 0 then cbind (hap_pair_verify_m1_raw (ev_lib E) h body 1024) (\<lambda>r. Done (r, False))
            else if pair_verify_state h = 2 then cbind (hap_pair_verify_m3_raw (ev_lib E) h body) (\<lambda>r. Done (r, False))
            else Done ((ESP_FAIL, [], h), False)))"

definition post_pair_verify :: "env \<Rightarrow> rtsp_request \<Rightarrow> state \<Rightarrow> state cres" where
  "post_pair_verify E req c =
     (case c of (w, s, conn) \<Rightarrow>
        case with_session E conn of
          None \<Rightarrow> send_error E c (rq_cseq req)
        | Some (h, conn) \<Rightarrow>
            if \<not> ev_mem E 1024 then send_error E (w, s, conn) (rq_cseq req)
            else
              cbind (pair_verify_step E h (body_bytes req)) (\<lambda>((err, response, h), encrypt).
                let conn = conn\<lparr>cn_hap_session := Some h\<rparr>;
                    conn = (if encrypt then conn\<lparr>cn_encrypted_mode := True\<rparr> else conn) in
                send_octets E (w, s, conn) (rq_cseq req)
                  (if err = ESP_OK \<and> response \<noteq> [] then response else [0x06, 0x01, 0x04, 0x07, 0x01, 0x02])))"

definition post_fp_setup :: "env \<Rightarrow> rtsp_request \<Rightarrow> state \<Rightarrow> state cres" where
  "post_fp_setup E req c =
     (case (if length (body_bytes req) \<ge> 16 then rtsp_fairplay_handle (ev_mem E) (body_bytes req) else Fail) of
        Fault \<Rightarrow> Fault
      | Done fp_response \<Rightarrow> send_octets E c (rq_cseq req) fp_response
      | Fail \<Rightarrow> send_octets E c (rq_cseq req) [0])"

text \<open>Integers that are only logged; the search still reads the document.\<close>

definition log_int :: "bytes option \<Rightarrow> bytes \<Rightarrow> unit cres" where
  "log_int body key =
     (if is_plist body then (case bplist_find_int (the body) key of Fault \<Rightarrow> Fault | _ \<Rightarrow> Done ()) else Done ())"

definition post_command :: "env \<Rightarrow> rtsp_request \<Rightarrow> state \<Rightarrow> state cres" where
  "post_command E req c = cbind (log_int (rq_body req) (asc ''type'')) (\<lambda>_. send_ok E c (rq_cseq req))"

definition post_feedback :: "env \<Rightarrow> rtsp_request \<Rightarrow> state \<Rightarrow> state cres" where
  "post_feedback E req c =
     cbind (log_int (rq_body req) (asc ''networkTimeSecs'')) (\<lambda>_.
       let conn = snd (snd c) in
       if cn_stream_type conn = 103 then
         (case bplist_build_feedback_response 128 (cn_stream_type conn) 0x40E5888000000000 of
            Some response \<Rightarrow> send_plist E c (rq_cseq req) response
          | None \<Rightarrow> send_ok E c (rq_cseq req))
       else send_ok E c (rq_cseq req))"

definition handle_post :: "env \<Rightarrow> rtsp_request \<Rightarrow> bytes \<Rightarrow> state \<Rightarrow> state cres" where
  "handle_post E req raw c =
     (let has = (\<lambda>s. strstr s (rq_path req) \<noteq> None) in
      if has (asc ''/pair-setup'') then post_pair_setup E req c
      else if has (asc ''/pair-verify'') then post_pair_verify E req c
      else if has (asc ''/fp-setup'') then post_fp_setup E req c
      else if has (asc ''/command'') then post_command E req c
      else if has (asc ''/feedback'') then post_feedback E req c
      else send_ok E c (rq_cseq req))"

subsection \<open>ANNOUNCE\<close>

definition parse_sdp :: "env \<Rightarrow> bytes \<Rightarrow> world \<times> rtsp_conn \<Rightarrow> world \<times> rtsp_conn" where
  "parse_sdp E sdp wc =
     (case wc of (w, conn) \<Rightarrow>
        let format = sdp_format sdp in
        (on_rx (audio_receiver_set_format (ev_decoder_ok E) format) w,
         conn\<lparr>cn_codec := take 31 (af_codec format), cn_sample_rate := af_sample_rate format, cn_channels := af_channels format,
              cn_bits_per_sample := af_bits_per_sample format\<rparr>))"

definition handle_announce :: "env \<Rightarrow> rtsp_request \<Rightarrow> bytes \<Rightarrow> state \<Rightarrow> state cres" where
  "handle_announce E req raw c =
     (case c of (w, s, conn) \<Rightarrow>
        let (w, conn) = (if body_bytes req \<noteq> [] then parse_sdp E (c_str (body_bytes req)) (w, conn) else (w, conn)) in
        send_ok E (w, s, conn) (rq_cseq req))"

subsection \<open>SETUP\<close>

text \<open>The integers of a stream entry that matter; a later entry wins.\<close>

record stream_params =
  sp_codec_type :: int
  sp_sample_rate :: int
  sp_samples_per_frame :: int
  sp_control_port :: "u16 option"

definition stream_param :: "bplist_kv_info \<Rightarrow> stream_params \<Rightarrow> stream_params" where
  "stream_param kv p =
     (if kv_value_type kv \<noteq> BPLIST_VALUE_INT then p
      else if kv_key kv = asc ''ct'' then p\<lparr>sp_codec_type := kv_int_value kv\<rparr>
      else if kv_key kv = asc ''sr'' then p\<lparr>sp_sample_rate := kv_int_value kv\<rparr>
      else if kv_key kv = asc ''spf'' then p\<lparr>sp_samples_per_frame := kv_int_value kv\<rparr>
      else if kv_key kv = asc ''controlPort'' then p\<lparr>sp_control_port := Some (of_int (kv_int_value kv))\<rparr>
      else p)"

definition stream_params_of :: "bplist_kv_info list \<Rightarrow> stream_params" where
  "stream_params_of kv =
     fold stream_param kv \<lparr>sp_codec_type = -1, sp_sample_rate = 44100, sp_samples_per_frame = 352, sp_control_port = None\<rparr>"

definition setup_stream :: "env \<Rightarrow> bytes \<Rightarrow> nat \<Rightarrow> world \<times> rtsp_conn \<Rightarrow> (world \<times> rtsp_conn) cres" where
  "setup_stream E body i wc =
     (case bplist_get_stream_info body i of
        Fault \<Rightarrow> Fault
      | Fail \<Rightarrow> Done wc
      | Done info \<Rightarrow>
          let (w, conn) = wc;
              (w, conn) = (if i = 0 then (on_rx (audio_receiver_set_stream_type (i32 (si_type info))) w, conn\<lparr>cn_stream_type := si_type info\<rparr>)
                           else (w, conn)) in
          case bplist_get_stream_kv_info body i 16 of
            Fault \<Rightarrow> Fault
          | Fail \<Rightarrow> Done (w, conn)
          | Done kv \<Rightarrow>
              let p = stream_params_of kv;
                  conn = (case sp_control_port p of Some port \<Rightarrow> conn\<lparr>cn_client_control_port := port\<rparr> | None \<Rightarrow> conn);
                  format = snd (rtsp_codec_configure (sp_codec_type p) no_format (sp_sample_rate p) (sp_samples_per_frame p)) in
              Done (on_rx (audio_receiver_set_format (ev_decoder_ok E) format) w, conn))"

fun setup_streams :: "env \<Rightarrow> bytes \<Rightarrow> nat list \<Rightarrow> world \<times> rtsp_conn \<Rightarrow> (world \<times> rtsp_conn) cres" where
  "setup_streams E body [] wc = Done wc"
| "setup_streams E body (i # is) wc = cbind (setup_stream E body i wc) (setup_streams E body is)"

text \<open>A key found by the deep search replaces the one found before.\<close>

definition deep_key :: "bytes \<Rightarrow> bytes \<Rightarrow> nat \<Rightarrow> bytes \<Rightarrow> bytes cres" where
  "deep_key body key cap old = (case bplist_find_data_deep body key cap of Fault \<Rightarrow> Fault | Fail \<Rightarrow> Done old | Done k \<Rightarrow> Done k)"

text \<open>The encrypted key, the initialisation vector and the shared key of a request; a missing one is empty.\<close>

definition setup_keys :: "bytes \<Rightarrow> int \<Rightarrow> (bytes \<times> bytes \<times> bytes) cres" where
  "setup_keys body stream_type =
     (let deep = (\<lambda>eiv. cbind (deep_key body (asc ''ekey'') 64 []) (\<lambda>ekey.
                      cbind (deep_key body (asc ''eiv'') 16 eiv) (\<lambda>eiv.
                      cbind (deep_key body (asc ''shk'') 32 []) (\<lambda>shk. Done (ekey, eiv, shk)))));
          found = (\<lambda>k. case k of Some b \<Rightarrow> b | None \<Rightarrow> []) in
      case bplist_find_stream_crypto body (if stream_type > 0 then stream_type else 96) (Some 64) (Some 16) (Some 32) of
        Fault \<Rightarrow> Fault
      | Fail \<Rightarrow> deep []
      | Done r \<Rightarrow>
          if found (sc_ekey r) = [] \<and> found (sc_shk r) = [] then deep (found (sc_eiv r))
          else Done (found (sc_ekey r), found (sc_eiv r), found (sc_shk r)))"

text \<open>The key of \<open>audio_encrypt_t\<close>, at most 32 bytes followed by zeros.\<close>

definition chacha_encrypt :: "bytes \<Rightarrow> bytes \<Rightarrow> audio_encrypt" where
  "chacha_encrypt key eiv =
     no_encrypt\<lparr>ae_type := AUDIO_ENCRYPT_CHACHA20_POLY1305, ae_key := take 32 key @ replicate (32 - length key) 0,
       ae_key_len := min 32 (length key), ae_iv := (if length eiv \<ge> 16 then take 16 eiv else replicate 16 0)\<rparr>"

definition session_up :: "rtsp_conn \<Rightarrow> hap_session option" where
  "session_up conn = (case cn_hap_session conn of Some h \<Rightarrow> if session_established h then Some h else None | None \<Rightarrow> None)"

definition ekey_plain :: "env \<Rightarrow> bytes \<Rightarrow> rtsp_conn \<Rightarrow> bytes option" where
  "ekey_plain E ekey conn =
     (if length ekey > 16 \<and> length ekey \<le> 48 then
        (case session_up conn of
           None \<Rightarrow> None
         | Some h \<Rightarrow>
             (case cl_open (ev_lib E) (shared_secret h) (replicate 12 0) [] ekey of
                Some key \<Rightarrow> if length key \<ge> 16 then Some key else None
              | None \<Rightarrow> None))
      else None)"

definition setup_encryption :: "env \<Rightarrow> bytes \<times> bytes \<times> bytes \<Rightarrow> rtsp_conn \<Rightarrow> world \<Rightarrow> world" where
  "setup_encryption E keys conn w =
     (case keys of (ekey, eiv, shk) \<Rightarrow>
        if length shk \<ge> 16 then audio_receiver_set_encryption (chacha_encrypt shk eiv) w
        else case ekey_plain E ekey conn of
            Some key \<Rightarrow> audio_receiver_set_encryption (chacha_encrypt key eiv) w
          | None \<Rightarrow>
              (case session_up conn of
                 Some h \<Rightarrow>
                   (case hap_derive_audio_key (ev_lib E) h 32 of
                      Inr key \<Rightarrow> audio_receiver_set_encryption (chacha_encrypt key eiv) w
                    | Inl _ \<Rightarrow> w)
               | None \<Rightarrow> w))"

definition setup_event_port :: "env \<Rightarrow> world \<times> rtsp_conn \<Rightarrow> world \<times> rtsp_conn" where
  "setup_event_port E wc =
     (case wc of (w, conn) \<Rightarrow>
        if cn_event_port conn = 0 then
          (case rtsp_create_event_socket (ev_listen E) (cn_event_port conn) of (sock, port) \<Rightarrow>
             (if sock \<ge> 0 then rtsp_start_event_port_task sock w else w, conn\<lparr>cn_event_socket := sock, cn_event_port := port\<rparr>))
        else wc)"

definition transport_response :: "rtsp_conn \<Rightarrow> bytes" where
  "transport_response conn =
     asc ''Transport: RTP/AVP/UDP;unicast;mode=record;server_port='' @ dec (unat (cn_data_port conn)) @ asc '';control_port=''
     @ dec (unat (cn_control_port conn)) @ asc '';timing_port='' @ dec (unat (cn_timing_port conn)) @ crlf @ asc ''Session: 1'' @ crlf"

text \<open>The ports of an AirPlay 1 sender, whose clock is then queried.\<close>

definition client_ports :: "env \<Rightarrow> bytes \<Rightarrow> world \<times> rtsp_conn \<Rightarrow> world \<times> rtsp_conn" where
  "client_ports E raw wc =
     (case wc of (w, conn) \<Rightarrow>
        let (control, timing) = rtsp_parse_transport (c_str raw);
            conn = conn\<lparr>cn_client_control_port := control, cn_client_timing_port := timing\<rparr> in
        (if timing > 0 \<and> cn_client_ip conn \<noteq> 0
         then w\<lparr>w_ntp := snd (ntp_clock_start_client (ev_ntp_sock E) (ev_ntp_task E) (cn_client_ip conn) timing (w_ntp w))\<rparr> else w,
         conn))"

definition setup_legacy :: "env \<Rightarrow> rtsp_request \<Rightarrow> bytes \<Rightarrow> state \<Rightarrow> state cres" where
  "setup_legacy E req raw c =
     (case c of (w, s, conn) \<Rightarrow>
        let (w, conn) = client_ports E raw (w, conn\<lparr>cn_stream_type := 96\<rparr>);
            conn = ensure_stream_ports E False conn in
        cbind (send_response E (w, s, conn) 200 (asc ''OK'') (rq_cseq req) (Some (transport_response conn)) None) (\<lambda>(w, s, conn).
          let w = on_rx (audio_receiver_set_format (ev_decoder_ok E) (snd (rtsp_codec_configure 2 no_format 44100 352))) w;
              w = on_rx (audio_receiver_set_stream_type 96) w in
          Done (ptp_clock_stop w, s, conn\<lparr>cn_stream_active := True\<rparr>)))"

definition setup_initial :: "env \<Rightarrow> rtsp_request \<Rightarrow> bool \<Rightarrow> state \<Rightarrow> state cres" where
  "setup_initial E req is_bplist c =
     (if is_bplist then
        (case bplist_build_initial_setup 128 (cn_event_port (snd (snd c))) of
           None \<Rightarrow> send_error E c (rq_cseq req)
         | Some plist_body \<Rightarrow> send_plist E c (rq_cseq req) plist_body)
      else send_ok E c (rq_cseq req))"

text \<open>The receiver is started when the answer has been sent.\<close>

definition setup_start :: "env \<Rightarrow> int \<Rightarrow> state \<Rightarrow> state cres" where
  "setup_start E stream_type c =
     (case c of (w, s, conn) \<Rightarrow>
        let w = on_rx (audio_receiver_set_stream_type (i32 stream_type)) w in
        cbind (audio_receiver_start_stream (ev_now_ms E) (ev_start E) (w_rx w)) (\<lambda>(_, r).
          let r = (if cn_client_control_port conn > 0 \<and> cn_client_ip conn \<noteq> 0
                   then audio_receiver_set_client_control (cn_client_ip conn) (cn_client_control_port conn) r else r);
              r = audio_receiver_set_playing (ev_now_us E) True r in
          Done (w\<lparr>w_rx := r\<rparr>, s, conn\<lparr>cn_stream_paused := False, cn_stream_active := True\<rparr>)))"

text \<open>The buffered listener comes up before the answer, which names its port; a failure is answered with an error.\<close>

definition setup_buffered :: "env \<Rightarrow> bool \<Rightarrow> world \<times> rtsp_conn \<Rightarrow> (esp_err \<times> world \<times> rtsp_conn) cres" where
  "setup_buffered E buffered wc =
     (case wc of (w, conn) \<Rightarrow>
        if buffered then
          cbind (audio_receiver_start_buffered (ev_now_ms E) (ev_start E) (w_rx w)) (\<lambda>(err, r).
            Done (err, w\<lparr>w_rx := r\<rparr>, if err = ESP_OK then conn\<lparr>cn_buffered_port := ev_buffered_port E\<rparr> else conn))
        else Done (ESP_OK, w, conn))"

definition setup_stream_answer :: "env \<Rightarrow> rtsp_request \<Rightarrow> bytes \<Rightarrow> bool \<Rightarrow> state \<Rightarrow> state cres" where
  "setup_stream_answer E req raw is_bplist c =
     (case c of (w, s, conn) \<Rightarrow>
        let stream_type = (if cn_stream_type conn = 0 then 96 else cn_stream_type conn);
            buffered = audio_stream_uses_buffer (i32 stream_type) in
        cbind (setup_buffered E buffered (w, conn)) (\<lambda>(err, w, conn).
          if err \<noteq> ESP_OK then send_error E (w, s, conn) (rq_cseq req)
          else
            let conn = ensure_stream_ports E buffered conn;
                response_data_port = (if buffered then cn_buffered_port conn else cn_data_port conn) in
            if is_bplist then
              (case bplist_build_stream_setup 256 stream_type response_data_port (cn_control_port conn) AP2_AUDIO_BUFFER_SIZE of
                 None \<Rightarrow> send_error E (w, s, conn) (rq_cseq req)
               | Some plist_body \<Rightarrow>
                   cbind (send_plist E (w, s, conn) (rq_cseq req) plist_body) (setup_start E stream_type))
            else
              (case client_ports E raw (w, conn) of (w, conn) \<Rightarrow>
                 cbind (send_response E (w, s, conn) 200 (asc ''OK'') (rq_cseq req) (Some (transport_response conn)) None)
                   (setup_start E stream_type))))"

definition handle_setup :: "env \<Rightarrow> rtsp_request \<Rightarrow> bytes \<Rightarrow> state \<Rightarrow> state cres" where
  "handle_setup E req raw c =
     (case c of (w, s, conn) \<Rightarrow>
        let body = body_bytes req; is_bplist = (strstr (asc ''application/x-apple-binary-plist'') (rq_content_type req) \<noteq> None) in
        cbind (if is_plist (rq_body req)
               then (case bplist_get_streams_count body of Fault \<Rightarrow> Fault | Fail \<Rightarrow> Done None | Done n \<Rightarrow> Done (Some n)) else Done None)
          (\<lambda>streams.
        cbind (case streams of Some n \<Rightarrow> if is_bplist then setup_streams E body [0..<n] (w, conn) else Done (w, conn) | None \<Rightarrow> Done (w, conn))
          (\<lambda>(w, conn).
        cbind (if body \<noteq> [] then cbind (setup_keys body (cn_stream_type conn)) (\<lambda>keys. Done (setup_encryption E keys conn w)) else Done w)
          (\<lambda>w.
          let (w, conn) = setup_event_port E (w, conn) in
          if streams = None then
            if strstr (asc ''Transport:'') (c_str raw) \<noteq> None then setup_legacy E req raw (w, s, conn)
            else setup_initial E req is_bplist (w, s, conn)
          else setup_stream_answer E req raw is_bplist (w, s, conn)))))"

subsection \<open>RECORD\<close>

definition record_headers :: bytes where
  "record_headers = asc ''Audio-Latency: 0'' @ crlf @ asc ''Audio-Jack-Status: connected'' @ crlf"

definition handle_record :: "env \<Rightarrow> rtsp_request \<Rightarrow> bytes \<Rightarrow> state \<Rightarrow> state cres" where
  "handle_record E req raw c =
     (case c of (w, s, conn) \<Rightarrow>
        cbind (if cn_stream_paused conn then Done (w_rx w)
               else cbind (audio_receiver_start_stream (ev_now_ms E) (ev_start E) (w_rx w)) (\<lambda>(_, r).
                      Done (if cn_client_control_port conn > 0 \<and> cn_client_ip conn \<noteq> 0
                            then audio_receiver_set_client_control (cn_client_ip conn) (cn_client_control_port conn) r else r))) (\<lambda>r.
          let w = w\<lparr>w_rx := audio_receiver_set_playing (ev_now_us E) True r\<rparr>;
              w = emit_event RTSP_EVENT_PLAYING None w in
          send_response E (w, s, conn\<lparr>cn_stream_paused := False\<rparr>) 200 (asc ''OK'') (rq_cseq req) (Some record_headers) None))"

subsection \<open>SET_PARAMETER and GET_PARAMETER\<close>

definition skip_blanks :: "bytes \<Rightarrow> bytes" where
  "skip_blanks s = dropWhile (\<lambda>c. c = 32) s"

text \<open>A progress line anywhere in the request, up to its end.\<close>

definition progress_header :: "bytes \<Rightarrow> rtsp_metadata \<Rightarrow> rtsp_metadata \<times> bool" where
  "progress_header raw meta =
     (case (case strstr (asc ''progress:'') raw of None \<Rightarrow> strstr (asc ''Progress:'') raw | Some p \<Rightarrow> Some p) of
        None \<Rightarrow> (meta, False)
      | Some progress_hdr \<Rightarrow>
          case strstr crlf progress_hdr of
            None \<Rightarrow> (meta, False)
          | Some line_end \<Rightarrow>
              let val = skip_blanks (drop 9 progress_hdr); val_len = length val - length line_end in
              if val_len < 64 then (parse_progress (take val_len val) 44100 meta, True) else (meta, False))"

definition progress_body :: "bytes \<Rightarrow> rtsp_metadata \<Rightarrow> rtsp_metadata \<times> bool" where
  "progress_body body meta =
     (case strstr (asc ''progress:'') body of
        None \<Rightarrow> (meta, False)
      | Some prog \<Rightarrow> (parse_progress (skip_blanks (drop 9 prog)) 44100 meta, True))"

text \<open>A text field of the property list; \<open>strlcpy\<close> into the array.\<close>

definition plist_text :: "bytes \<Rightarrow> bytes \<Rightarrow> bytes \<Rightarrow> (bytes \<times> bool) cres" where
  "plist_text body key field =
     (case bplist_find_string body key METADATA_STRING_MAX of
        Fault \<Rightarrow> Fault
      | Fail \<Rightarrow> Done (field, False)
      | Done s \<Rightarrow> cbind (put_bytes field 0 (take (METADATA_STRING_MAX - 1) (c_str s) @ [0])) (\<lambda>f. Done (f, True)))"

text \<open>
  The conversion of a \<open>double\<close> to \<open>uint32_t\<close>: truncation; a value that does not fit, which is undefined in C, is left to \<open>other\<close>.
  A \<open>float\<close> has a shorter exponent and fraction.
\<close>

definition trunc_bits :: "nat \<Rightarrow> nat \<Rightarrow> nat \<Rightarrow> nat \<Rightarrow> bool \<Rightarrow> nat option" where
  "trunc_bits bias frac_bits expo frac neg =
     (if expo < bias then Some 0
      else if neg \<or> expo \<ge> bias + 32 then None
      else Some ((2 ^ frac_bits + frac) * 2 ^ (expo - bias) div 2 ^ frac_bits))"

definition u32_of_real :: "(real_value \<Rightarrow> u32) \<Rightarrow> real_value \<Rightarrow> u32" where
  "u32_of_real other v =
     (case (case v of
              Double_bits b \<Rightarrow> trunc_bits 1023 52 (unat (take_bit 11 (drop_bit 52 b))) (unat (take_bit 52 b)) (bit b 63)
            | Float_bits b \<Rightarrow> trunc_bits 127 23 (unat (take_bit 8 (drop_bit 23 b))) (unat (take_bit 23 b)) (bit b 31)
            | Of_int i \<Rightarrow> if 0 \<le> i \<and> i < 2 ^ 32 then Some (nat i) else None) of
        Some n \<Rightarrow> of_nat n
      | None \<Rightarrow> other v)"

definition plist_progress :: "env \<Rightarrow> bytes \<Rightarrow> rtsp_metadata \<Rightarrow> (rtsp_metadata \<times> bool) cres" where
  "plist_progress E body meta =
     (case bplist_find_real body (asc ''elapsed'') of
        Fault \<Rightarrow> Fault
      | Fail \<Rightarrow> Done (meta, False)
      | Done elapsed \<Rightarrow>
          let meta = meta\<lparr>md_position_secs := u32_of_real (ev_out_of_range E) elapsed\<rparr> in
          case bplist_find_real body (asc ''duration'') of
            Fault \<Rightarrow> Fault
          | Fail \<Rightarrow> Done (meta, True)
          | Done duration \<Rightarrow> Done (meta\<lparr>md_duration_secs := u32_of_real (ev_out_of_range E) duration\<rparr>, True))"

definition plist_metadata :: "env \<Rightarrow> bytes \<Rightarrow> rtsp_metadata \<Rightarrow> (rtsp_metadata \<times> bool) cres" where
  "plist_metadata E body meta =
     cbind (log_int (Some body) (asc ''networkTimeSecs'')) (\<lambda>_.
     cbind (case bplist_find_real body (asc ''rate'') of Fault \<Rightarrow> Fault | _ \<Rightarrow> Done ()) (\<lambda>_.
     cbind (plist_text body (asc ''itemName'') (md_title meta)) (\<lambda>(title, a).
     cbind (plist_text body (asc ''artistName'') (md_artist meta)) (\<lambda>(artist, b).
     cbind (plist_text body (asc ''albumName'') (md_album meta)) (\<lambda>(album, c).
     cbind (plist_progress E body (meta\<lparr>md_title := title, md_artist := artist, md_album := album\<rparr>)) (\<lambda>(meta, d).
       Done (meta, a \<or> b \<or> c \<or> d)))))))"

definition set_parameter_body :: "env \<Rightarrow> rtsp_request \<Rightarrow> rtsp_metadata \<Rightarrow> (rtsp_metadata \<times> bool) cres" where
  "set_parameter_body E req meta =
     (let has = (\<lambda>t. strstr t (rq_content_type req) \<noteq> None) in
      if has (asc ''text/parameters'') then
        (case rq_body req of Some body \<Rightarrow> Done (progress_body (c_str body) meta) | None \<Rightarrow> Done (meta, False))
      else if has (asc ''application/x-dmap-tagged'') then
        if body_bytes req \<noteq> [] then cbind (parse_dmap_metadata (body_bytes req) meta) (\<lambda>meta. Done (meta, True)) else Done (meta, False)
      else if has (asc ''image/jpeg'') \<or> has (asc ''image/png'') then Done (meta, False)
      else if has (asc ''application/x-apple-binary-plist'') \<and> is_plist (rq_body req) then plist_metadata E (body_bytes req) meta
      else Done (meta, False))"

definition handle_set_parameter :: "env \<Rightarrow> rtsp_request \<Rightarrow> bytes \<Rightarrow> state \<Rightarrow> state cres" where
  "handle_set_parameter E req raw c =
     (case c of (w, s, conn) \<Rightarrow>
        let (meta, in_header) = progress_header (c_str raw) no_metadata in
        cbind (set_parameter_body E req meta) (\<lambda>(meta, in_body).
          let w = (if in_header \<or> in_body then emit_event RTSP_EVENT_METADATA (Some meta) w else w) in
          send_ok E (w, s, conn) (rq_cseq req)))"

definition handle_get_parameter :: "env \<Rightarrow> rtsp_request \<Rightarrow> bytes \<Rightarrow> state \<Rightarrow> state cres" where
  "handle_get_parameter E req raw c =
     (if body_bytes req \<noteq> [] \<and> strstr (asc ''volume'') (c_str (body_bytes req)) \<noteq> None then
        send_response E c 200 (asc ''OK'') (rq_cseq req) (Some (asc ''Content-Type: text/parameters'' @ crlf)) (Some (asc ''volume: '' @ ev_volume E @ crlf))
      else send_ok E c (rq_cseq req))"

subsection \<open>Transport control\<close>

definition handle_pause :: "env \<Rightarrow> rtsp_request \<Rightarrow> bytes \<Rightarrow> state \<Rightarrow> state cres" where
  "handle_pause E req raw c =
     (case c of (w, s, conn) \<Rightarrow>
        send_ok E (audio_output_flush (on_rx audio_receiver_pause w), s, conn\<lparr>cn_stream_paused := True\<rparr>) (rq_cseq req))"

definition seek_flush :: "world \<Rightarrow> world cres" where
  "seek_flush w = cbind (audio_receiver_seek_flush (w_rx w)) (\<lambda>r. Done (audio_output_flush (w\<lparr>w_rx := r\<rparr>)))"

definition handle_flush :: "env \<Rightarrow> rtsp_request \<Rightarrow> bytes \<Rightarrow> state \<Rightarrow> state cres" where
  "handle_flush E req raw c =
     (case c of (w, s, conn) \<Rightarrow> cbind (seek_flush w) (\<lambda>w. send_ok E (w, s, conn) (rq_cseq req)))"

text \<open>An integer of the property list, if it is there.\<close>

definition find_opt :: "bytes \<Rightarrow> string \<Rightarrow> int option cres" where
  "find_opt body key = (case bplist_find_int body (asc key) of Fault \<Rightarrow> Fault | Fail \<Rightarrow> Done None | Done v \<Rightarrow> Done (Some v))"

text \<open>The boundary of a deferred flush, when the request has all four fields.\<close>

definition deferred_until :: "rtsp_request \<Rightarrow> int option cres" where
  "deferred_until req =
     (if is_plist (rq_body req) then
        cbind (find_opt (body_bytes req) ''flushFromSeq'') (\<lambda>from_seq.
        cbind (find_opt (body_bytes req) ''flushFromTS'') (\<lambda>from_ts.
        cbind (find_opt (body_bytes req) ''flushUntilSeq'') (\<lambda>until_seq.
        cbind (find_opt (body_bytes req) ''flushUntilTS'') (\<lambda>until_ts.
          Done (if from_seq \<noteq> None \<and> from_ts \<noteq> None \<and> until_seq \<noteq> None then until_ts else None)))))
      else Done None)"

definition handle_flushbuffered :: "env \<Rightarrow> rtsp_request \<Rightarrow> bytes \<Rightarrow> state \<Rightarrow> state cres" where
  "handle_flushbuffered E req raw c =
     (case c of (w, s, conn) \<Rightarrow>
        cbind (deferred_until req) (\<lambda>until.
        cbind (case until of Some ts \<Rightarrow> Done (on_rx (audio_receiver_set_deferred_flush (of_int ts)) w) | None \<Rightarrow> seek_flush w) (\<lambda>w.
          send_ok E (w, s, conn) (rq_cseq req))))"

text \<open>Stopping the receiver also forgets the keys of its streams.\<close>

definition stop_receiver :: "world \<Rightarrow> world cres" where
  "stop_receiver w = cbind (audio_receiver_stop (w_rx w)) (\<lambda>r. Done (w\<lparr>w_rx := r, w_encrypt := no_encrypt\<rparr>))"

definition clear_ptp :: "world \<Rightarrow> world" where
  "clear_ptp w = on_rx (\<lambda>r. r\<lparr>rx_ptp := ptp_clock_clear (rx_ptp r)\<rparr>) w"

definition handle_teardown :: "env \<Rightarrow> rtsp_request \<Rightarrow> bytes \<Rightarrow> state \<Rightarrow> state cres" where
  "handle_teardown E req raw c =
     (case c of (w, s, conn) \<Rightarrow>
        cbind (if is_plist (rq_body req)
               then (case bplist_get_streams_count (body_bytes req) of Fault \<Rightarrow> Fault | Fail \<Rightarrow> Done False | Done _ \<Rightarrow> Done True) else Done False)
          (\<lambda>has_streams.
        cbind (stop_receiver w) (\<lambda>w.
          let w = clear_ptp (audio_output_flush w);
              conn = conn\<lparr>cn_stream_active := False, cn_stream_paused := has_streams\<rparr>;
              (w, conn) = (if \<not> has_streams
                           then ((on_dacp dacp_clear_session w)\<lparr>w_ntp := ntp_clock_stop (w_ntp w)\<rparr>,
                                 conn\<lparr>cn_dacp_id := [], cn_active_remote := [], cn_timing_port := 0\<rparr>)
                           else (w, conn)) in
          send_ok E (w, s, conn) (rq_cseq req))))"

text \<open>The comparison of the rate with zero.\<close>

definition is_zero :: "real_value \<Rightarrow> bool" where
  "is_zero v = (case v of Float_bits b \<Rightarrow> take_bit 31 b = 0 | Double_bits b \<Rightarrow> take_bit 63 b = 0 | Of_int i \<Rightarrow> i = 0)"

definition rate_is_zero :: "bytes \<Rightarrow> bool cres" where
  "rate_is_zero body =
     (case bplist_find_real body (asc ''rate'') of
        Fault \<Rightarrow> Fault
      | Done v \<Rightarrow> Done (is_zero v)
      | Fail \<Rightarrow> cbind (find_opt body ''rate'') (\<lambda>r. Done (r = Some 0)))"

definition u64_or_zero :: "int option \<Rightarrow> u64" where
  "u64_or_zero v = (case v of Some i \<Rightarrow> of_int i | None \<Rightarrow> 0)"

definition network_time_ns :: "u64 \<Rightarrow> u64 \<Rightarrow> u64" where
  "network_time_ns secs frac = secs * 1000000000 + drop_bit 32 (drop_bit 32 frac * 1000000000)"

definition anchor_request :: "env \<Rightarrow> bytes \<Rightarrow> world \<Rightarrow> world cres" where
  "anchor_request E body w =
     cbind (find_opt body ''networkTimeTimelineID'') (\<lambda>clock_id.
     cbind (find_opt body ''networkTimeSecs'') (\<lambda>secs.
     cbind (find_opt body ''networkTimeFrac'') (\<lambda>frac.
     cbind (find_opt body ''rtpTime'') (\<lambda>rtp_time.
       if u64_or_zero secs \<noteq> 0 \<and> u64_or_zero rtp_time \<noteq> 0 then
         cbind (audio_receiver_set_anchor_time (ev_now_ms E) (ev_now_us E) (u64_or_zero clock_id)
                  (network_time_ns (u64_or_zero secs) (u64_or_zero frac)) (ucast (u64_or_zero rtp_time)) (w_rx w))
           (\<lambda>r. Done (w\<lparr>w_rx := r\<rparr>))
       else Done w))))"

definition handle_setrateanchortime :: "env \<Rightarrow> rtsp_request \<Rightarrow> bytes \<Rightarrow> state \<Rightarrow> state cres" where
  "handle_setrateanchortime E req raw c =
     (case c of (w, s, conn) \<Rightarrow>
        cbind (if is_plist (rq_body req)
               then cbind (rate_is_zero (body_bytes req)) (\<lambda>zero. cbind (anchor_request E (body_bytes req) w) (\<lambda>w. Done (zero, w)))
               else Done (False, w)) (\<lambda>(zero, w).
          if zero then
            send_ok E (emit_event RTSP_EVENT_PAUSED None (audio_output_flush (on_rx audio_receiver_pause w)), s, conn\<lparr>cn_stream_paused := True\<rparr>) (rq_cseq req)
          else
            send_ok E (emit_event RTSP_EVENT_PLAYING None (on_rx (audio_receiver_set_playing (ev_now_us E) True) w), s,
              conn\<lparr>cn_stream_paused := False\<rparr>) (rq_cseq req)))"

definition handle_setpeers :: "env \<Rightarrow> rtsp_request \<Rightarrow> bytes \<Rightarrow> state \<Rightarrow> state cres" where
  "handle_setpeers E req raw c = send_ok E c (rq_cseq req)"

subsection \<open>Dispatch\<close>

type_synonym handler = "env \<Rightarrow> rtsp_request \<Rightarrow> bytes \<Rightarrow> state \<Rightarrow> state cres"

definition method_handlers :: "(bytes \<times> handler) list" where
  "method_handlers =
     [(asc ''OPTIONS'', handle_options), (asc ''GET'', handle_get), (asc ''POST'', handle_post), (asc ''ANNOUNCE'', handle_announce),
      (asc ''SETUP'', handle_setup), (asc ''RECORD'', handle_record), (asc ''SET_PARAMETER'', handle_set_parameter),
      (asc ''GET_PARAMETER'', handle_get_parameter), (asc ''PAUSE'', handle_pause), (asc ''FLUSH'', handle_flush),
      (asc ''FLUSHBUFFERED'', handle_flushbuffered), (asc ''TEARDOWN'', handle_teardown), (asc ''SETRATEANCHORTIME'', handle_setrateanchortime),
      (asc ''SETPEERS'', handle_setpeers), (asc ''SETPEERSX'', handle_setpeers)]"

definition parse_raw_header :: "bytes \<Rightarrow> bytes \<Rightarrow> bytes option" where
  "parse_raw_header raw name =
     (case strcasestr name (c_str raw) of
        None \<Rightarrow> None
      | Some hdr \<Rightarrow>
          let val = dropWhile (\<lambda>c. c = 32 \<or> c = 9) (drop (length name) hdr) in
          Some (take 63 (takeWhile (\<lambda>c. c \<noteq> 13 \<and> c \<noteq> 10) val)))"

text \<open>The remote control identifiers are taken from the first request that has them.\<close>

definition dacp_headers :: "bytes \<Rightarrow> world \<times> rtsp_conn \<Rightarrow> world \<times> rtsp_conn" where
  "dacp_headers raw wc =
     (case wc of (w, conn) \<Rightarrow>
        let conn = (if cn_dacp_id conn = [] then
                      (case parse_raw_header raw (asc ''DACP-ID:'') of Some v \<Rightarrow> conn\<lparr>cn_dacp_id := strlcpy 32 v\<rparr> | None \<Rightarrow> conn) else conn);
            conn = (if cn_active_remote conn = [] then
                      (case parse_raw_header raw (asc ''Active-Remote:'') of Some v \<Rightarrow> conn\<lparr>cn_active_remote := strlcpy 32 v\<rparr> | None \<Rightarrow> conn) else conn) in
        (if cn_dacp_id conn \<noteq> [] \<and> cn_active_remote conn \<noteq> []
         then on_dacp (dacp_set_session (cn_dacp_id conn) (cn_active_remote conn) (cn_client_ip conn)) w else w, conn))"

text \<open>\<open>-1\<close> when the request cannot be parsed, \<open>0\<close> otherwise.\<close>

definition rtsp_dispatch :: "env \<Rightarrow> bytes \<Rightarrow> state \<Rightarrow> (int \<times> state) cres" where
  "rtsp_dispatch E raw c =
     (case rtsp_request_parse raw of
        Fault \<Rightarrow> Fault
      | Fail \<Rightarrow> Done (-1, c)
      | Done req \<Rightarrow>
          case c of (w, s, conn) \<Rightarrow>
          case dacp_headers raw (w, conn) of (w, conn) \<Rightarrow>
          cbind (case find (\<lambda>(m, h). strcasecmp_eq (rq_method req) m) method_handlers of
                   Some (_, h) \<Rightarrow> h E req raw (w, s, conn)
                 | None \<Rightarrow> send_http E (w, s, conn) 501 (asc ''Not Implemented'') (asc ''text/plain'') (asc ''Not Implemented''))
            (\<lambda>c. Done (0, c)))"

end
