(* ===== verification/Rtsp_Control.thy ===== *)
theory Rtsp_Control
  imports Rtsp_Handlers
begin

text \<open>
  What a request does: the handlers of \<open>Rtsp_Handlers\<close> never leave their buffers, keep the state of the receiver and of the pairing
  session intact and answer every request once. The operations of the components enter with the invariants proved for them.
\<close>

section \<open>Sending an answer\<close>

definition session_ok :: "hap_session option \<Rightarrow> bool" where
  "session_ok h \<longleftrightarrow> (\<forall>h'. h = Some h' \<longrightarrow> length (session_public_key h') = 32)"

definition state_ok :: "state \<Rightarrow> bool" where
  "state_ok c \<longleftrightarrow> (case c of (w, s, conn) \<Rightarrow> rx_inv (w_rx w) \<and> session_ok (cn_hap_session conn))"

text \<open>A message that answers the request with number \<open>cseq\<close>: an RTSP answer with that number, or an HTTP answer.\<close>

definition response :: "int \<Rightarrow> bytes \<Rightarrow> bool" where
  "response cseq m \<longleftrightarrow>
     (\<exists>code txt extra body. m = rtsp_header code txt cseq extra body @ (case body of Some b \<Rightarrow> b | None \<Rightarrow> []))
     \<or> (\<exists>code txt type body. m = http_header code txt type (length body) @ body)"

text \<open>
  The outcome of a handler that was entered with socket \<open>s\<close>: it returns, the state stays intact, nothing is taken from the input, and when the
  connection is in plain text, exactly one answer has been sent.
\<close>

definition answered :: "env \<Rightarrow> int \<Rightarrow> sock \<Rightarrow> state cres \<Rightarrow> bool" where
  "answered E cseq s r \<longleftrightarrow>
     (\<exists>w' s' conn'. r = Done (w', s', conn') \<and> state_ok (w', s', conn') \<and> so_in s' = so_in s
        \<and> ((\<forall>n. ev_mem E n) \<and> so_send s = [] \<and> \<not> cn_encrypted_mode conn' \<longrightarrow>
             so_send s' = [] \<and> (\<exists>m. response cseq m \<and> so_out s' = so_out s @ m)))"

lemma write_blocks_keeps:
  "write_blocks L mem s h data = (ok, s', h') \<Longrightarrow> so_in s' = so_in s \<and> session_public_key h' = session_public_key h"
proof (induction L mem s h data arbitrary: ok s' h' rule: write_blocks.induct)
  case (1 L mem s h data)
  show ?case
  proof (cases "data = []")
    case True
    then show ?thesis using 1(2) by (simp add: write_blocks.simps)
  next
    case False
    define n where "n = min (length data) RTSP_ENCRYPTED_BLOCK_MAX"
    define e where "e = cl_seal L (encrypt_key h) (counter_nonce (encrypt_nonce h)) (len_header n) (take n data)"
    obtain ok1 s1 where s1: "send_all s (len_header n) = (ok1, s1)" by fastforce
    obtain ok2 s2 where s2: "send_all s1 e = (ok2, s2)" by fastforce
    have keep: "so_in s1 = so_in s" "so_in s2 = so_in s1"
      using send_all_appends [of s "len_header n"] send_all_appends [of s1 e] s1 s2 by auto
    show ?thesis
    proof (cases "\<not> mem (n + 16) \<or> length e \<noteq> n + 16 \<or> \<not> ok1 \<or> \<not> ok2")
      case True
      then show ?thesis using 1(2) False s1 s2 keep
        unfolding write_blocks.simps [of L mem s h data] n_def [symmetric] Let_def e_def [symmetric] by (auto split: if_splits bool.splits)
    next
      case ok: False
      then have "write_blocks L mem s2 (h\<lparr>encrypt_nonce := encrypt_nonce h + 1\<rparr>) (drop n data) = (ok, s', h')"
        using 1(2) False s1 s2 unfolding write_blocks.simps [of L mem s h data] n_def [symmetric] Let_def e_def [symmetric] by simp
      with 1(1) [OF False n_def refl e_def _ s1 [symmetric] _ s2 [symmetric]] ok keep show ?thesis by auto
    qed
  qed
qed

lemma write_frame_keeps:
  assumes "rtsp_crypto_write_frame L mem s conn data = (ok, s', conn')"
  shows "so_in s' = so_in s \<and> cn_encrypted_mode conn' = cn_encrypted_mode conn \<and> (session_ok (cn_hap_session conn) \<longrightarrow> session_ok (cn_hap_session conn'))"
  using assms write_blocks_keeps
  by (auto simp: rtsp_crypto_write_frame_def session_ok_def split: option.splits if_splits prod.splits)

lemma send_message_short:
  assumes "length header < n"
  shows "send_message L mem s (Some conn) n header body =
    (if \<not> mem (length header + length body) then Done (False, s, Some conn)
     else if cn_encrypted_mode conn
     then (case rtsp_crypto_write_frame L mem s conn (header @ body) of (ok, s, c) \<Rightarrow> Done (ok, s, Some c))
     else (case send_all s (header @ body) of (ok, s) \<Rightarrow> Done (ok, s, Some conn)))"
  using assms by (auto simp: send_message_def snprintf_def slice_def Let_def split: prod.split)

lemma send_message_answered:
  assumes "state_ok (w, s, conn)" "length header < n" "response cseq (header @ body)"
  shows "answered E cseq s (keep_conn w conn (send_message (ev_lib E) (ev_mem E) s (Some conn) n header body))"
proof (cases "ev_mem E (length header + length body)")
  case False
  then show ?thesis using assms(1) by (auto simp: send_message_short [OF assms(2)] keep_conn_def answered_def)
next
  case mem: True
  show ?thesis
  proof (cases "cn_encrypted_mode conn")
    case True
    obtain ok s' c where "rtsp_crypto_write_frame (ev_lib E) (ev_mem E) s conn (header @ body) = (ok, s', c)" by (rule prod_cases3)
    with write_frame_keeps [OF this] assms(1) True mem show ?thesis
      by (auto simp: send_message_short [OF assms(2)] keep_conn_def answered_def state_ok_def)
  next
    case False
    obtain ok s' where a: "send_all s (header @ body) = (ok, s')" by fastforce
    then have "so_in s' = so_in s" using send_all_appends [of s "header @ body"] by auto
    moreover have "so_send s = [] \<Longrightarrow> so_send s' = [] \<and> so_out s' = so_out s @ header @ body" using send_all_plain [of s "header @ body"] a by auto
    ultimately show ?thesis using False mem a assms(1,3)
      by (auto simp: send_message_short [OF assms(2)] keep_conn_def answered_def state_ok_def)
  qed
qed

text \<open>Headers stay well below the size of the buffers they are printed into.\<close>

definition cseq_ok :: "int \<Rightarrow> bool" where
  "cseq_ok i \<longleftrightarrow> - (2 ^ 31) \<le> i \<and> i < 2 ^ 31"

lemma dec_int_length:
  assumes "cseq_ok i"
  shows "length (dec_int i) \<le> 11"
proof -
  have "nat i < 10 ^ 10" "nat (- i) < 10 ^ 10" using assms by (auto simp: cseq_ok_def)
  then have "length (dec (nat i)) \<le> 10" "length (dec (nat (- i))) \<le> 10" by (auto intro!: dec_length)
  then show ?thesis by (simp add: dec_int_def)
qed

lemma send_response_answered:
  assumes "state_ok (w, s, conn)" "cseq_ok cseq" "0 \<le> code" "code < 1000" "length txt \<le> 32"
    "\<forall>h. extra = Some h \<longrightarrow> length h \<le> 512" "\<forall>b. body = Some b \<longrightarrow> length b < 10 ^ 10"
  shows "answered E cseq s (send_response E (w, s, conn) code txt cseq extra body)"
proof -
  have "length (dec_int code) \<le> 3" using assms(3,4) dec_length [of "nat code" 3] by (auto simp: dec_int_def)
  moreover have "length (dec_int cseq) \<le> 11" by (rule dec_int_length [OF assms(2)])
  moreover have "length (case body of Some b \<Rightarrow> if b \<noteq> [] then asc ''Content-Length: '' @ dec (length b) @ crlf else [] | None \<Rightarrow> []) \<le> 28"
    using assms(7) dec_length [of _ 10] by (auto simp: crlf_def split: option.split)
  moreover have "length (case extra of Some h \<Rightarrow> h | None \<Rightarrow> []) \<le> 512" using assms(6) by (auto split: option.split)
  ultimately have "length (rtsp_header code txt cseq extra body) < 1024"
    using assms(5) by (simp add: rtsp_header_def crlf_def)
  then show ?thesis
    unfolding send_response_def rtsp_send_response_def prod.case using assms(1)
    by (intro send_message_answered) (auto simp: response_def)
qed

lemma send_ok_answered:
  assumes "state_ok (w, s, conn)" "cseq_ok cseq"
  shows "answered E cseq s (send_ok E (w, s, conn) cseq)"
  using send_response_answered [OF assms, of 200 "asc ''OK''" None None E] by (simp add: send_ok_def rtsp_send_ok_def send_response_def)

lemma send_error_answered:
  assumes "state_ok (w, s, conn)" "cseq_ok cseq"
  shows "answered E cseq s (send_error E (w, s, conn) cseq)"
  unfolding send_error_def using assms by (intro send_response_answered) auto

lemma send_body_answered:
  assumes "state_ok (w, s, conn)" "cseq_ok cseq" "length body < 10 ^ 10"
  shows "answered E cseq s (send_octets E (w, s, conn) cseq body)" "answered E cseq s (send_plist E (w, s, conn) cseq body)"
  unfolding send_octets_def send_plist_def using assms
  by (auto intro!: send_response_answered simp: octets_def plist_type_def crlf_def)

lemma send_http_answered:
  assumes "state_ok (w, s, conn)" "0 \<le> code" "code < 1000" "length txt \<le> 32" "length type \<le> 64" "length body < 10 ^ 10"
  shows "answered E cseq s (send_http E (w, s, conn) code txt type body)"
proof -
  have "length (dec_int code) \<le> 3" using assms(2,3) dec_length [of "nat code" 3] by (auto simp: dec_int_def)
  moreover have "length (dec (length body)) \<le> 10" using assms(6) by (intro dec_length) auto
  ultimately have "length (http_header code txt type (length body)) < 512"
    using assms(4,5) by (simp add: http_header_def crlf_def)
  moreover have "response cseq (http_header code txt type (length body) @ body)" unfolding response_def by blast
  ultimately show ?thesis
    unfolding send_http_def rtsp_send_http_response_def prod.case using assms(1) by (intro send_message_answered)
qed

lemmas answers = send_ok_answered send_error_answered send_body_answered send_response_answered

text \<open>What is done after the answer.\<close>

lemma answered_then:
  assumes "answered E cseq s r"
    and "\<And>w s' conn. state_ok (w, s', conn) \<Longrightarrow>
      \<exists>w' conn'. f (w, s', conn) = Done (w', s', conn') \<and> state_ok (w', s', conn') \<and> (cn_encrypted_mode conn \<longrightarrow> cn_encrypted_mode conn')"
  shows "answered E cseq s (cbind r f)"
proof -
  from assms(1) obtain w1 s1 c1 where r: "r = Done (w1, s1, c1)" "state_ok (w1, s1, c1)" "so_in s1 = so_in s"
    "(\<forall>n. ev_mem E n) \<and> so_send s = [] \<and> \<not> cn_encrypted_mode c1 \<longrightarrow> so_send s1 = [] \<and> (\<exists>m. response cseq m \<and> so_out s1 = so_out s @ m)"
    unfolding answered_def by blast
  from assms(2) [OF r(2)] obtain w2 c2 where f: "f (w1, s1, c1) = Done (w2, s1, c2)" "state_ok (w2, s1, c2)"
    "cn_encrypted_mode c1 \<longrightarrow> cn_encrypted_mode c2" by blast
  show ?thesis unfolding answered_def using r f by auto
qed

section \<open>Handlers\<close>

text \<open>What the handlers rely on from outside: the sizes of keys and what the libraries document.\<close>

definition env_ok :: "env \<Rightarrow> bool" where
  "env_ok E \<longleftrightarrow> length (fst (ev_session_keys E)) = 32 \<and> length (fst (ev_device_keys E)) = 32 \<and> length (ev_volume E) \<le> 20
     \<and> (\<forall>k iv m. length (cl_aes_ctr (ev_lib E) k iv m) = length m) \<and> sign_ok (ev_lib E)"

definition req_ok :: "rtsp_request \<Rightarrow> bool" where
  "req_ok req \<longleftrightarrow> cseq_ok (rq_cseq req) \<and> small_buf (body_bytes req)"

lemma options_answered:
  assumes "state_ok (w, s, conn)" "req_ok req"
  shows "answered E (rq_cseq req) s (handle_options E req raw (w, s, conn))"
  unfolding handle_options_def using assms by (intro send_response_answered) (auto simp: req_ok_def public_methods_def crlf_def)

subsection \<open>GET\<close>

lemma append_keeps:
  assumes "plist_ok p" "length e < 2 ^ 31"
  shows "\<exists>p'. plist_append p e = Done p' \<and> plist_ok p' \<and> pl_capacity p' = pl_capacity p"
  using append_writes [OF assms] by (auto simp: writes_def)

lemma plist_begin_keeps:
  assumes "plist_ok p"
  shows "\<exists>p'. plist_begin p = Done p' \<and> plist_ok p' \<and> pl_capacity p' = pl_capacity p"
proof -
  have len: "length (xml_prolog ! 0) < 2 ^ 31" "length (xml_prolog ! 1) < 2 ^ 31" "length (xml_prolog ! 2) < 2 ^ 31"
    by (simp_all add: xml_prolog_def)
  from append_keeps [OF assms len(1)] obtain p1 where p1: "plist_append p (xml_prolog ! 0) = Done p1" "plist_ok p1" "pl_capacity p1 = pl_capacity p" by blast
  from append_keeps [OF p1(2) len(2)] obtain p2 where p2: "plist_append p1 (xml_prolog ! 1) = Done p2" "plist_ok p2" "pl_capacity p2 = pl_capacity p1" by blast
  from append_keeps [OF p2(2) len(3)] obtain p3 where p3: "plist_append p2 (xml_prolog ! 2) = Done p3" "plist_ok p3" "pl_capacity p3 = pl_capacity p2" by blast
  show ?thesis using p1 p2 p3 by (simp add: plist_begin_def)
qed

lemma info_body_ok:
  assumes "env_ok E"
  shows "\<exists>b. info_body E = Done b \<and> length b < 4096"
proof -
  obtain p where p: "plist_init (replicate 4096 0) 4096 = Done p" "plist_ok p" "pl_capacity p = 4096"
    by (simp add: plist_init_def put_bytes_def plist_ok_def)
  from plist_begin_keeps [OF p(2)] obtain p1 where p1: "plist_begin p = Done p1" "plist_ok p1" "pl_capacity p1 = 4096" using p(3) by auto
  have "\<forall>c \<in> set (info_calls E). call_fits c" using assms by (auto simp: info_calls_def latency_calls_def env_ok_def)
  from xml_run_writes [OF p1(2) this] obtain p2 where p2: "xml_run (info_calls E) p1 = Done p2" "plist_ok p2" "pl_capacity p2 = 4096"
    using p1(3) by auto
  have "length (asc ''</plist>'' @ [10]) < 2 ^ 31" by simp
  from append_keeps [OF p2(2) this] obtain p3 where p3: "plist_append p2 (asc ''</plist>'' @ [10]) = Done p3" "plist_ok p3" "pl_capacity p3 = 4096"
    using p2(3) by auto
  then have "slice (pl_buffer p3) 0 (pl_size p3) = Done (take (pl_size p3) (pl_buffer p3))" "pl_size p3 < 4096"
    by (auto simp: slice_def plist_ok_def)
  then show ?thesis using p(1) p1(1) p2(1) p3(1) unfolding info_body_def plist_end_def by auto
qed

lemma get_answered:
  assumes "state_ok (w, s, conn)" "req_ok req" "env_ok E"
  shows "answered E (rq_cseq req) s (handle_get E req raw (w, s, conn))"
proof -
  from info_body_ok [OF assms(3)] obtain b where b: "info_body E = Done b" "length b < 4096" by blast
  show ?thesis unfolding handle_get_def using assms(1) b
    by (auto intro!: send_http_answered)
qed

subsection \<open>POST\<close>

text \<open>A pairing step returns a result and leaves the public key of the session alone.\<close>

definition pairs :: "nat \<Rightarrow> hap_session \<Rightarrow> hap_result \<Rightarrow> bool" where
  "pairs cap h r \<longleftrightarrow> (\<exists>err out h'. r = Done (err, out, h') \<and> length out \<le> cap \<and> session_public_key h' = session_public_key h)"

lemma pairsI: "fits cap r \<Longrightarrow> r \<noteq> Fail \<Longrightarrow> outcome (\<lambda>(err, out, h'). session_public_key h' = session_public_key h) r \<Longrightarrow> pairs cap h r"
  by (cases r) (auto simp: pairs_def)

lemma state_is_total: "\<exists>b. state_is input n = Done b"
  using tlv8_get_safe [of input TLV_TYPE_STATE] by (auto simp: state_is_def split: cres.split)

lemma transient_flag_total: "\<exists>b. transient_flag input = Done b"
  using tlv8_get_safe [of input TLV_TYPE_FLAGS] by (auto simp: transient_flag_def split: cres.split)

lemma setup_pairs:
  "pairs cap h (hap_pair_setup_m1 L mem salt b h input cap)" "pairs cap h (hap_pair_setup_m3 L h input cap)"
  "pairs cap h (hap_pair_setup_m5 L h input)"
proof -
  obtain b1 b2 b3 b5 where st: "state_is input 1 = Done b1" "transient_flag input = Done b2" "state_is input 3 = Done b3" "state_is input 5 = Done b5"
    using state_is_total transient_flag_total by metis
  show "pairs cap h (hap_pair_setup_m1 L mem salt b h input cap)"
    by (rule pairsI [OF pair_setup_fits(1)]) (auto simp: hap_pair_setup_m1_def st Let_def split: prod.split bool.split)
  show "pairs cap h (hap_pair_setup_m3 L h input cap)"
    by (rule pairsI [OF pair_setup_fits(2)])
      (auto simp: hap_pair_setup_m3_def st transient_keys_def decode_concat_safe Let_def split: prod.split bool.split cres.split option.split)
  show "pairs cap h (hap_pair_setup_m5 L h input)"
    by (rule pairsI [OF pair_setup_fits(3)])
      (auto simp: hap_pair_setup_m5_def st decode_concat_safe Let_def split: prod.split bool.split cres.split option.split)
qed

lemma verify_pairs:
  assumes "env_ok E" "length (session_public_key h) = 32"
  shows "pairs cap h (hap_pair_verify_m1 (ev_lib E) mac h input cap)" "pairs cap h (hap_pair_verify_m3 (ev_lib E) h input cap)"
    "pairs cap h (hap_pair_verify_m1_raw (ev_lib E) h input cap)" "pairs cap h (hap_pair_verify_m3_raw (ev_lib E) h input)"
proof -
  obtain b1 b3 where st: "state_is input 1 = Done b1" "state_is input 3 = Done b3" using state_is_total by metis
  have aes: "\<And>k iv m. length (cl_aes_ctr (ev_lib E) k iv m) = length m" and sign: "sign_ok (ev_lib E)" using assms(1) by (auto simp: env_ok_def)
  note raw = raw_verify_fits [OF assms(2) aes sign]
  show "pairs cap h (hap_pair_verify_m1 (ev_lib E) mac h input cap)"
    by (rule pairsI [OF pair_verify_fits(1)]) (auto simp: hap_pair_verify_m1_def st tlv8_get_safe Let_def split: prod.split cres.split)
  show "pairs cap h (hap_pair_verify_m3 (ev_lib E) h input cap)"
    by (rule pairsI [OF pair_verify_fits(2)]) (auto simp: hap_pair_verify_m3_def st decode_concat_safe Let_def split: cres.split option.split)
  show "pairs cap h (hap_pair_verify_m1_raw (ev_lib E) h input cap)"
    by (rule pairsI [OF raw(1)]) (auto simp: hap_pair_verify_m1_raw_def slice_def Let_def split: prod.split)
  show "pairs cap h (hap_pair_verify_m3_raw (ev_lib E) h input)"
    by (rule pairsI [OF raw(2)]) (auto simp: hap_pair_verify_m3_raw_def slice_def Let_def)
qed

lemma with_session_ok:
  assumes "env_ok E" "session_ok (cn_hap_session conn)" "with_session E conn = Some (h, conn')"
  shows "length (session_public_key h) = 32 \<and> cn_hap_session conn' = Some h \<and> cn_encrypted_mode conn' = cn_encrypted_mode conn"
  using assms by (auto simp: with_session_def session_ok_def env_ok_def hap_session_create_def Let_def split: option.splits if_splits)

lemma state_byte_total: "\<exists>b. state_byte body = Done b"
  using tlv8_get_safe [of body TLV_TYPE_STATE] by (auto simp: state_byte_def split: cres.split)

lemma setup_step_pairs: "pairs 2048 h (pair_setup_step E h body)"
proof -
  obtain st where "state_byte body = Done st" using state_byte_total by blast
  then show ?thesis by (auto simp: pair_setup_step_def setup_pairs pairs_def [of _ _ "Done _"])
qed

lemma verify_step_pairs:
  assumes "env_ok E" "length (session_public_key h) = 32"
  shows "\<exists>err out h' enc. pair_verify_step E h body = Done ((err, out, h'), enc) \<and> length out \<le> 1024 \<and> session_public_key h' = session_public_key h"
proof -
  obtain st where st: "state_byte body = Done st" using state_byte_total by blast
  note v = verify_pairs [OF assms, of 1024, unfolded pairs_def]
  from v(1) [of "ev_mac E" body] v(2) [of body] v(3) [of body] v(4) [of body] show ?thesis
    by (auto simp: pair_verify_step_def st split: option.split)
qed

lemma state_ok_session: "state_ok (w, s, conn) \<Longrightarrow> length (session_public_key h) = 32 \<Longrightarrow> state_ok (w, s, conn\<lparr>cn_hap_session := Some h\<rparr>)"
  by (simp add: state_ok_def session_ok_def)

lemma state_ok_conn: "state_ok (w, s, conn) \<Longrightarrow> cn_hap_session conn' = cn_hap_session conn \<Longrightarrow> state_ok (w, s, conn')"
  by (simp add: state_ok_def)

lemma pair_setup_answered:
  assumes "state_ok (w, s, conn)" "req_ok req" "env_ok E"
  shows "answered E (rq_cseq req) s (post_pair_setup E req (w, s, conn))"
proof (cases "with_session E conn")
  case None
  then show ?thesis using assms by (simp add: post_pair_setup_def req_ok_def send_error_answered)
next
  case (Some p)
  obtain h c1 where p: "p = (h, c1)" by fastforce
  have h: "length (session_public_key h) = 32" "cn_hap_session c1 = Some h"
    using with_session_ok [OF assms(3) _ Some [unfolded p]] assms(1) by (auto simp: state_ok_def)
  then have c1: "state_ok (w, s, c1)" using assms(1) by (simp add: state_ok_def session_ok_def)
  obtain err out h' where step: "pair_setup_step E h (body_bytes req) = Done (err, out, h')" "length out \<le> 2048" "session_public_key h' = session_public_key h"
    using setup_step_pairs [of h E "body_bytes req"] by (auto simp: pairs_def)
  have c2: "state_ok (w, s, c1\<lparr>cn_hap_session := Some h'\<rparr>)" using c1 h step(3) by (simp add: state_ok_session)
  have cs: "cseq_ok (rq_cseq req)" using assms(2) by (simp add: req_ok_def)
  have after: "answered E (rq_cseq req) s (cbind (send_octets E (w, s, c1\<lparr>cn_hap_session := Some h'\<rparr>) (rq_cseq req) out) (\<lambda>(w, s, conn).
      Done (w, s, case cn_hap_session conn of
          Some h \<Rightarrow> if pair_setup_state h = 4 \<and> session_established h then conn\<lparr>cn_encrypted_mode := True\<rparr> else conn | None \<Rightarrow> conn)))"
    by (rule answered_then [OF send_body_answered(1) [OF c2 cs]]) (use step(2) in \<open>auto simp: state_ok_def split: option.split\<close>)
  show ?thesis
    using Some p step c1 c2 cs after send_body_answered(1) [OF c2 cs, of "[0x06, 0x01, 0x02, 0x07, 0x01, 0x02]" E] send_error_answered [OF c1 cs, of E]
    by (simp add: post_pair_setup_def Let_def)
qed

lemma pair_verify_answered:
  assumes "state_ok (w, s, conn)" "req_ok req" "env_ok E"
  shows "answered E (rq_cseq req) s (post_pair_verify E req (w, s, conn))"
proof (cases "with_session E conn")
  case None
  then show ?thesis using assms by (simp add: post_pair_verify_def req_ok_def send_error_answered)
next
  case (Some p)
  obtain h c1 where p: "p = (h, c1)" by fastforce
  have h: "length (session_public_key h) = 32" "cn_hap_session c1 = Some h"
    using with_session_ok [OF assms(3) _ Some [unfolded p]] assms(1) by (auto simp: state_ok_def)
  then have c1: "state_ok (w, s, c1)" using assms(1) by (simp add: state_ok_def session_ok_def)
  obtain err out h' enc where step: "pair_verify_step E h (body_bytes req) = Done ((err, out, h'), enc)" "length out \<le> 1024"
      "session_public_key h' = session_public_key h"
    using verify_step_pairs [OF assms(3) h(1)] by blast
  define c2 where "c2 = (if enc then c1\<lparr>cn_hap_session := Some h', cn_encrypted_mode := True\<rparr> else c1\<lparr>cn_hap_session := Some h'\<rparr>)"
  have c2: "state_ok (w, s, c2)" using c1 h step(3) by (auto simp: c2_def state_ok_def session_ok_def)
  have cs: "cseq_ok (rq_cseq req)" using assms(2) by (simp add: req_ok_def)
  have "answered E (rq_cseq req) s (send_octets E (w, s, c2) (rq_cseq req)
      (if err = ESP_OK \<and> out \<noteq> [] then out else [0x06, 0x01, 0x04, 0x07, 0x01, 0x02]))"
    using step(2) by (intro send_body_answered(1) c2 cs) auto
  then show ?thesis
    using Some p step send_error_answered [OF c1 cs, of E] by (simp add: post_pair_verify_def c2_def Let_def)
qed

lemma fp_setup_answered:
  assumes "state_ok (w, s, conn)" "req_ok req"
  shows "answered E (rq_cseq req) s (post_fp_setup E req (w, s, conn))"
  using assms fairplay_safe [of "ev_mem E" "body_bytes req"] send_body_answered(1) [OF assms(1), of "rq_cseq req"]
  by (auto simp: post_fp_setup_def req_ok_def split: cres.split)

lemma log_int_total: "small_buf b \<Longrightarrow> body = Some b \<or> body = None \<Longrightarrow> log_int body key = Done ()"
  using find_numbers_safe(1) [of b key] by (auto simp: log_int_def is_plist_def split: cres.split)

lemma body_cases: "rq_body req = Some (body_bytes req) \<or> rq_body req = None"
  by (simp add: body_bytes_def split: option.split)

lemma feedback_length: "bplist_build_feedback_response 128 ty bits = Some b \<Longrightarrow> length b < 1000"
  by (auto simp: bplist_build_feedback_response_def finish_plist_def Let_def split: if_splits)

lemma post_answered:
  assumes "state_ok (w, s, conn)" "req_ok req" "env_ok E"
  shows "answered E (rq_cseq req) s (handle_post E req raw (w, s, conn))"
proof -
  have cs: "cseq_ok (rq_cseq req)" and small: "small_buf (body_bytes req)" using assms(2) by (auto simp: req_ok_def)
  note ok = send_ok_answered [OF assms(1) cs]
  have log: "log_int (rq_body req) key = Done ()" for key using log_int_total [OF small body_cases] .
  have "answered E (rq_cseq req) s (post_command E req (w, s, conn))" using ok by (simp add: post_command_def log)
  moreover have "answered E (rq_cseq req) s (post_feedback E req (w, s, conn))"
    using ok send_body_answered(2) [OF assms(1) cs] feedback_length [of "cn_stream_type conn" "0x40E5888000000000"]
    by (auto simp: post_feedback_def log Let_def split: option.split)
  ultimately show ?thesis
    using ok pair_setup_answered [OF assms] pair_verify_answered [OF assms] fp_setup_answered [OF assms(1,2), of E] by (simp add: handle_post_def Let_def)
qed

subsection \<open>ANNOUNCE and SETUP\<close>

lemma set_format_inv: "rx_inv r \<Longrightarrow> rx_inv (audio_receiver_set_format ok format r)"
  by (simp add: rx_inv_def audio_receiver_set_format_def audio_timing_set_format_def)

lemma set_stream_type_inv: "rx_inv r \<Longrightarrow> rx_inv (audio_receiver_set_stream_type ty r)"
  by (simp add: rx_inv_def)

lemma set_playing_inv: "rx_inv r \<Longrightarrow> rx_inv (audio_receiver_set_playing now p r)"
  by (simp add: rx_inv_def audio_receiver_set_playing_def Let_def)

lemma client_control_inv: "rx_inv r \<Longrightarrow> rx_inv (audio_receiver_set_client_control ip port r)"
  by (simp add: rx_inv_def audio_receiver_set_client_control_def)

lemmas rx_ops = set_format_inv set_stream_type_inv set_playing_inv client_control_inv

lemma state_ok_rx: "state_ok (w, s, conn) \<Longrightarrow> (\<And>r. rx_inv r \<Longrightarrow> rx_inv (f r)) \<Longrightarrow> state_ok (on_rx f w, s, conn)"
  by (simp add: state_ok_def on_rx_def)

lemma announce_answered:
  assumes "state_ok (w, s, conn)" "req_ok req"
  shows "answered E (rq_cseq req) s (handle_announce E req raw (w, s, conn))"
proof -
  have "state_ok (on_rx (audio_receiver_set_format (ev_decoder_ok E) f) w, s,
      conn\<lparr>cn_codec := a, cn_sample_rate := b, cn_channels := c, cn_bits_per_sample := d\<rparr>)" for f a b c d
    using state_ok_rx [OF assms(1) set_format_inv] by (simp add: state_ok_def)
  then show ?thesis using assms
    by (auto simp: handle_announce_def parse_sdp_def req_ok_def Let_def intro!: send_ok_answered)
qed

text \<open>The world and the connection of a handler before it answers.\<close>

definition pair_ok :: "bool \<Rightarrow> world \<times> rtsp_conn \<Rightarrow> bool" where
  "pair_ok mode wc \<longleftrightarrow> (case wc of (w, conn) \<Rightarrow> rx_inv (w_rx w) \<and> session_ok (cn_hap_session conn) \<and> cn_encrypted_mode conn = mode)"

lemma pair_ok_state: "pair_ok m (w, conn) \<Longrightarrow> state_ok (w, s, conn)"
  by (simp add: pair_ok_def state_ok_def)

lemma setup_stream_total:
  assumes "small_buf body" "pair_ok m wc"
  shows "\<exists>wc'. setup_stream E body i wc = Done wc' \<and> pair_ok m wc'"
proof -
  obtain w conn where wc: "wc = (w, conn)" by fastforce
  have info: "bplist_get_stream_info body i \<noteq> Fault" "bplist_get_stream_kv_info body i 16 \<noteq> Fault"
    using outcome_safe [OF get_stream_info_safe [OF assms(1)]] outcome_safe [OF get_stream_kv_info_safe [OF assms(1)]] by auto
  have "pair_ok m (on_rx (audio_receiver_set_stream_type t) w, conn\<lparr>cn_stream_type := t'\<rparr>)" for t t'
    using assms(2) wc rx_ops(2) by (simp add: pair_ok_def on_rx_def)
  moreover have "pair_ok m (on_rx (audio_receiver_set_format d f) w', c')" if "pair_ok m (w', c')" for d f w' c'
    using that rx_ops(1) by (simp add: pair_ok_def on_rx_def)
  moreover have "pair_ok m (w', c'\<lparr>cn_client_control_port := port\<rparr>)" if "pair_ok m (w', c')" for w' c' port
    using that by (simp add: pair_ok_def)
  ultimately show ?thesis using info assms(2) wc
    by (cases "bplist_get_stream_info body i"; cases "bplist_get_stream_kv_info body i 16") (auto simp: setup_stream_def Let_def split: option.split)
qed

lemma setup_streams_total:
  assumes "small_buf body" "pair_ok m wc"
  shows "\<exists>wc'. setup_streams E body is wc = Done wc' \<and> pair_ok m wc'"
  using assms(2)
proof (induction "is" arbitrary: wc)
  case (Cons i "is")
  from setup_stream_total [OF assms(1) Cons.prems] obtain wc1 where "setup_stream E body i wc = Done wc1" "pair_ok m wc1" by blast
  with Cons.IH show ?case by simp
qed simp

lemma deep_key_total: "small_buf body \<Longrightarrow> \<exists>k. deep_key body key cap old = Done k"
  using outcome_safe [OF find_data_deep_safe] by (auto simp: deep_key_def split: cres.split)

lemma setup_keys_total:
  assumes "small_buf body"
  shows "\<exists>keys. setup_keys body ty = Done keys"
proof -
  have deep: "\<exists>k. deep_key body key cap old = Done k" for key cap old using deep_key_total [OF assms] .
  have all: "\<exists>keys. cbind (deep_key body (asc ''ekey'') 64 []) (\<lambda>ekey. cbind (deep_key body (asc ''eiv'') 16 eiv) (\<lambda>eiv.
      cbind (deep_key body (asc ''shk'') 32 []) (\<lambda>shk. Done (ekey, eiv, shk)))) = Done keys" for eiv
    using deep [of "asc ''ekey''" 64 "[]"] deep [of "asc ''eiv''" 16 eiv] deep [of "asc ''shk''" 32 "[]"] by auto
  define t where "t = (if ty > 0 then ty else 96)"
  have "bplist_find_stream_crypto body t (Some 64) (Some 16) (Some 32) \<noteq> Fault" by (rule outcome_safe [OF find_stream_crypto_safe [OF assms]])
  then show ?thesis using all unfolding setup_keys_def Let_def t_def [symmetric] by (cases "bplist_find_stream_crypto body t (Some 64) (Some 16) (Some 32)") auto
qed

lemma setup_encryption_rx: "w_rx (setup_encryption E keys conn w) = w_rx w"
  by (simp add: setup_encryption_def audio_receiver_set_encryption_def split: prod.split option.split sum.split)

lemma event_port_ok: "pair_ok m wc \<Longrightarrow> pair_ok m (setup_event_port E wc)"
  by (auto simp: setup_event_port_def pair_ok_def rtsp_start_event_port_task_def split: prod.split)

lemma client_ports_ok: "pair_ok m wc \<Longrightarrow> pair_ok m (client_ports E raw wc)"
  by (auto simp: client_ports_def pair_ok_def Let_def split: prod.split)

lemma ports_fields [simp]:
  "cn_hap_session (ensure_stream_ports E b conn) = cn_hap_session conn" "cn_encrypted_mode (ensure_stream_ports E b conn) = cn_encrypted_mode conn"
  by (simp_all add: ensure_stream_ports_def Let_def)

lemma transport_length: "length (transport_response conn) \<le> 512"
proof -
  have "unat p < 10 ^ 5" for p :: u16 by (rule order_less_le_trans [OF unsigned_less]) simp
  then have "length (dec (unat p)) \<le> 5" for p :: u16 by (intro dec_length) auto
  from this [of "cn_data_port conn"] this [of "cn_control_port conn"] this [of "cn_timing_port conn"] show ?thesis
    by (simp add: transport_response_def crlf_def)
qed

lemma setup_start_ok:
  assumes "state_ok (w, s, conn)"
  shows "\<exists>w' conn'. setup_start E ty (w, s, conn) = Done (w', s, conn') \<and> state_ok (w', s, conn') \<and> (cn_encrypted_mode conn \<longrightarrow> cn_encrypted_mode conn')"
proof -
  have "rx_inv (w_rx (on_rx (audio_receiver_set_stream_type (i32 ty)) w))" using assms set_stream_type_inv by (simp add: state_ok_def on_rx_def)
  from start_stream_inv [OF this] obtain e r where
    "audio_receiver_start_stream (ev_now_ms E) (ev_start E) (w_rx (on_rx (audio_receiver_set_stream_type (i32 ty)) w)) = Done (e, r)" "rx_inv r" by blast
  then show ?thesis using assms rx_ops by (auto simp: setup_start_def state_ok_def Let_def)
qed

lemma setup_buffered_ok:
  assumes "pair_ok m (w, conn)"
  shows "\<exists>err w' conn'. setup_buffered E b (w, conn) = Done (err, w', conn') \<and> pair_ok m (w', conn')"
proof -
  have inv: "rx_inv (audio_receiver_set_stream_type AUDIO_STREAM_BUFFERED (w_rx w))" using assms set_stream_type_inv by (simp add: pair_ok_def)
  from restart_inv [OF this] obtain r where
    "restart_stream (ev_now_ms E) (ev_start E) (audio_receiver_set_stream_type AUDIO_STREAM_BUFFERED (w_rx w)) = Done (ev_start E, r)" "rx_inv r" by blast
  then show ?thesis using assms inv
    by (auto simp: setup_buffered_def audio_receiver_start_buffered_def pair_ok_def Let_def)
qed

lemma builder_lengths:
  "bplist_build_initial_setup cap port = Some b \<Longrightarrow> length b < 1000"
  "bplist_build_stream_setup cap ty dp cp sz = Some b \<Longrightarrow> length b < 1000"
  by (auto simp: bplist_build_initial_setup_def bplist_build_stream_setup_def finish_plist_def be16_def be32_def Let_def split: if_splits)

lemma setup_legacy_answered:
  assumes "pair_ok m (w, conn)" "req_ok req"
  shows "answered E (rq_cseq req) s (setup_legacy E req raw (w, s, conn))"
proof -
  obtain w1 c1 where c1: "client_ports E raw (w, conn\<lparr>cn_stream_type := 96\<rparr>) = (w1, c1)" by fastforce
  have "pair_ok m (w, conn\<lparr>cn_stream_type := 96\<rparr>)" using assms(1) by (simp add: pair_ok_def)
  then have "pair_ok m (w1, c1)" using client_ports_ok c1 by metis
  then have st: "state_ok (w1, s, ensure_stream_ports E False c1)" by (simp add: pair_ok_def state_ok_def)
  have cs: "cseq_ok (rq_cseq req)" using assms(2) by (simp add: req_ok_def)
  have "answered E (rq_cseq req) s (send_response E (w1, s, ensure_stream_ports E False c1) 200 (asc ''OK'') (rq_cseq req)
      (Some (transport_response (ensure_stream_ports E False c1))) None)"
    using st cs transport_length by (intro send_response_answered) auto
  then show ?thesis unfolding setup_legacy_def prod.case c1 Let_def
    by (rule answered_then) (use rx_ops in \<open>auto simp: state_ok_def on_rx_def ptp_clock_stop_def\<close>)
qed

lemma setup_initial_answered:
  assumes "pair_ok m (w, conn)" "req_ok req"
  shows "answered E (rq_cseq req) s (setup_initial E req b (w, s, conn))"
proof -
  have st: "state_ok (w, s, conn)" by (rule pair_ok_state [OF assms(1)])
  have cs: "cseq_ok (rq_cseq req)" using assms(2) by (simp add: req_ok_def)
  show ?thesis using send_ok_answered [OF st cs] send_error_answered [OF st cs] send_body_answered(2) [OF st cs] builder_lengths(1) [of 128 "cn_event_port conn"]
    by (auto simp: setup_initial_def split: option.split)
qed

lemma setup_stream_answered:
  assumes "pair_ok m (w, conn)" "req_ok req"
  shows "answered E (rq_cseq req) s (setup_stream_answer E req raw b (w, s, conn))"
proof -
  define ty where "ty = (if cn_stream_type conn = 0 then 96 else cn_stream_type conn)"
  define bf where "bf = audio_stream_uses_buffer (i32 ty)"
  obtain err w1 c1 where b1: "setup_buffered E bf (w, conn) = Done (err, w1, c1)" "pair_ok m (w1, c1)" using setup_buffered_ok [OF assms(1)] by blast
  define c2 where "c2 = ensure_stream_ports E bf c1"
  have p2: "pair_ok m (w1, c2)" using b1(2) by (simp add: c2_def pair_ok_def)
  obtain w3 c3 where c3: "client_ports E raw (w1, c2) = (w3, c3)" by fastforce
  have p3: "pair_ok m (w3, c3)" using client_ports_ok [OF p2] c3 by metis
  have cs: "cseq_ok (rq_cseq req)" using assms(2) by (simp add: req_ok_def)
  note st = pair_ok_state [OF b1(2), of s] pair_ok_state [OF p2, of s] pair_ok_state [OF p3, of s]
  have legacy: "answered E (rq_cseq req) s (cbind (send_response E (w3, s, c3) 200 (asc ''OK'') (rq_cseq req) (Some (transport_response c3)) None) (setup_start E ty))"
    using st cs transport_length by (intro answered_then [OF send_response_answered setup_start_ok]) auto
  have plist: "answered E (rq_cseq req) s (cbind (send_plist E (w1, s, c2) (rq_cseq req) body) (setup_start E ty))" if "length body < 1000" for body
    using st cs that by (intro answered_then [OF send_body_answered(2) setup_start_ok]) auto
  have err: "answered E (rq_cseq req) s (send_error E (w1, s, c) (rq_cseq req))" if "c = c1 \<or> c = c2" for c
    using that st cs send_error_answered by auto
  show ?thesis
    unfolding setup_stream_answer_def prod.case ty_def [symmetric] bf_def [symmetric] Let_def b1(1) cbind.simps c2_def [symmetric] c3
    using legacy plist err builder_lengths(2) by (auto split: option.split)
qed

lemma setup_answered:
  assumes "state_ok (w, s, conn)" "req_ok req"
  shows "answered E (rq_cseq req) s (handle_setup E req raw (w, s, conn))"
proof -
  let ?body = "body_bytes req" and ?m = "cn_encrypted_mode conn"
  define is_bplist where "is_bplist \<longleftrightarrow> strstr (asc ''application/x-apple-binary-plist'') (rq_content_type req) \<noteq> None"
  have small: "small_buf ?body" using assms(2) by (simp add: req_ok_def)
  have p0: "pair_ok ?m (w, conn)" using assms(1) by (simp add: pair_ok_def state_ok_def)
  obtain streams where streams: "(if is_plist (rq_body req)
      then (case bplist_get_streams_count ?body of Fault \<Rightarrow> Fault | Fail \<Rightarrow> Done None | Done n \<Rightarrow> Done (Some n)) else Done None) = Done streams"
    using outcome_safe [OF get_streams_count_safe [OF small]] by (cases "is_plist (rq_body req)"; cases "bplist_get_streams_count ?body") auto
  obtain w1 c1 where s1: "(case streams of Some n \<Rightarrow> if is_bplist then setup_streams E ?body [0..<n] (w, conn) else Done (w, conn) | None \<Rightarrow> Done (w, conn)) = Done (w1, c1)"
      "pair_ok ?m (w1, c1)"
  proof (cases streams)
    case (Some n)
    with setup_streams_total [OF small p0, of E "[0..<n]"] p0 that show ?thesis by (cases is_bplist) auto
  qed (use p0 that in auto)
  obtain w2 where w2: "(if ?body \<noteq> [] then cbind (setup_keys ?body (cn_stream_type c1)) (\<lambda>keys. Done (setup_encryption E keys c1 w1)) else Done w1) = Done w2"
      "pair_ok ?m (w2, c1)"
  proof (cases "?body = []")
    case False
    obtain keys where "setup_keys ?body (cn_stream_type c1) = Done keys" using setup_keys_total [OF small] by blast
    with False s1(2) that show ?thesis by (auto simp: pair_ok_def setup_encryption_rx)
  qed (use s1(2) that in auto)
  obtain w3 c3 where c3: "setup_event_port E (w2, c1) = (w3, c3)" by fastforce
  have p3: "pair_ok ?m (w3, c3)" using event_port_ok [OF w2(2)] c3 by metis
  show ?thesis
    unfolding handle_setup_def prod.case Let_def is_bplist_def [symmetric] streams cbind.simps s1(1) w2(1) c3
    using setup_legacy_answered [OF p3 assms(2)] setup_initial_answered [OF p3 assms(2)] setup_stream_answered [OF p3 assms(2)] by simp
qed

subsection \<open>Playback control\<close>

lemma record_answered:
  assumes "state_ok (w, s, conn)" "req_ok req"
  shows "answered E (rq_cseq req) s (handle_record E req raw (w, s, conn))"
proof -
  have inv: "rx_inv (w_rx w)" using assms(1) by (simp add: state_ok_def)
  from start_stream_inv [OF inv] obtain e r where start: "audio_receiver_start_stream (ev_now_ms E) (ev_start E) (w_rx w) = Done (e, r)" "rx_inv r" by blast
  have "answered E (rq_cseq req) s (send_response E (w', s, conn\<lparr>cn_stream_paused := False\<rparr>) 200 (asc ''OK'') (rq_cseq req) (Some record_headers) None)"
    if "rx_inv (w_rx w')" for w'
    using assms that by (intro send_response_answered) (auto simp: state_ok_def req_ok_def record_headers_def crlf_def)
  then show ?thesis using inv start rx_ops
    by (cases "cn_stream_paused conn") (auto simp: handle_record_def emit_event_def Let_def)
qed

lemma pause_answered:
  assumes "state_ok (w, s, conn)" "req_ok req"
  shows "answered E (rq_cseq req) s (handle_pause E req raw (w, s, conn))"
  using assms unfolding handle_pause_def prod.case
  by (intro send_ok_answered) (auto simp: state_ok_def req_ok_def audio_output_flush_def on_rx_def rx_inv_def audio_receiver_pause_def)

lemma seek_flush_total:
  assumes "rx_inv (w_rx w)"
  shows "\<exists>w'. seek_flush w = Done w' \<and> rx_inv (w_rx w')"
  using rx_seek_flush_inv [OF assms] by (auto simp: rx_keeps_def seek_flush_def audio_output_flush_def)

lemma find_opt_total: "small_buf b \<Longrightarrow> \<exists>v. find_opt b key = Done v"
  using find_numbers_safe(1) [of b "asc key"] by (auto simp: find_opt_def split: cres.split)

lemma flushes_answered:
  assumes "state_ok (w, s, conn)" "req_ok req"
  shows "answered E (rq_cseq req) s (handle_flush E req raw (w, s, conn))"
    and "answered E (rq_cseq req) s (handle_flushbuffered E req raw (w, s, conn))"
proof -
  have inv: "rx_inv (w_rx w)" and small: "small_buf (body_bytes req)" and cs: "cseq_ok (rq_cseq req)" using assms by (auto simp: state_ok_def req_ok_def)
  have ok: "answered E (rq_cseq req) s (send_ok E (w', s, conn) (rq_cseq req))" if "rx_inv (w_rx w')" for w'
    using assms that cs by (intro send_ok_answered) (auto simp: state_ok_def)
  obtain w1 where w1: "seek_flush w = Done w1" "rx_inv (w_rx w1)" using seek_flush_total [OF inv] by blast
  show "answered E (rq_cseq req) s (handle_flush E req raw (w, s, conn))" using ok [OF w1(2)] w1(1) by (simp add: handle_flush_def)
  obtain v1 v2 v3 v4 where "find_opt (body_bytes req) ''flushFromSeq'' = Done v1" "find_opt (body_bytes req) ''flushFromTS'' = Done v2"
    "find_opt (body_bytes req) ''flushUntilSeq'' = Done v3" "find_opt (body_bytes req) ''flushUntilTS'' = Done v4" using find_opt_total [OF small] by metis
  then obtain until where until: "deferred_until req = Done until" by (cases "is_plist (rq_body req)") (simp_all add: deferred_until_def)
  have "rx_inv (w_rx (on_rx (audio_receiver_set_deferred_flush ts) w))" for ts
    using inv by (simp add: on_rx_def rx_inv_def audio_receiver_set_deferred_flush_def)
  then show "answered E (rq_cseq req) s (handle_flushbuffered E req raw (w, s, conn))"
    using ok w1 until by (auto simp: handle_flushbuffered_def split: option.split)
qed

lemma teardown_answered:
  assumes "state_ok (w, s, conn)" "req_ok req"
  shows "answered E (rq_cseq req) s (handle_teardown E req raw (w, s, conn))"
proof -
  have inv: "rx_inv (w_rx w)" and small: "small_buf (body_bytes req)" and cs: "cseq_ok (rq_cseq req)" using assms by (auto simp: state_ok_def req_ok_def)
  obtain b where b: "(if is_plist (rq_body req)
      then (case bplist_get_streams_count (body_bytes req) of Fault \<Rightarrow> Fault | Fail \<Rightarrow> Done False | Done _ \<Rightarrow> Done True) else Done False) = Done b"
    using outcome_safe [OF get_streams_count_safe [OF small]] by (cases "is_plist (rq_body req)"; cases "bplist_get_streams_count (body_bytes req)") auto
  obtain w1 where w1: "stop_receiver w = Done w1" "rx_inv (w_rx w1)" using rx_stop_inv [OF inv] by (auto simp: rx_keeps_def stop_receiver_def)
  show ?thesis unfolding handle_teardown_def prod.case b cbind.simps w1(1) Let_def
    using assms(1) cs w1(2) by (auto intro!: send_ok_answered simp: state_ok_def rx_inv_def audio_output_flush_def on_dacp_def clear_ptp_def on_rx_def)
qed

lemma rate_total: "small_buf b \<Longrightarrow> \<exists>z. rate_is_zero b = Done z"
  using find_numbers_safe(2) [of b "asc ''rate''"] find_opt_total [of b "''rate''"] by (auto simp: rate_is_zero_def split: cres.split)

lemma anchor_total:
  assumes "small_buf b" "rx_inv (w_rx w)"
  shows "\<exists>w'. anchor_request E b w = Done w' \<and> rx_inv (w_rx w')"
proof -
  obtain v1 v2 v3 v4 where "find_opt b ''networkTimeTimelineID'' = Done v1" "find_opt b ''networkTimeSecs'' = Done v2"
    "find_opt b ''networkTimeFrac'' = Done v3" "find_opt b ''rtpTime'' = Done v4" using find_opt_total [OF assms(1)] by metis
  then show ?thesis
    using assms(2) set_anchor_inv [OF assms(2), of "ev_now_ms E" "ev_now_us E" "u64_or_zero v1" "network_time_ns (u64_or_zero v2) (u64_or_zero v3)" "ucast (u64_or_zero v4)"]
    by (auto simp: anchor_request_def rx_keeps_def)
qed

lemma setrate_answered:
  assumes "state_ok (w, s, conn)" "req_ok req"
  shows "answered E (rq_cseq req) s (handle_setrateanchortime E req raw (w, s, conn))"
proof -
  have inv: "rx_inv (w_rx w)" and small: "small_buf (body_bytes req)" and cs: "cseq_ok (rq_cseq req)" using assms by (auto simp: state_ok_def req_ok_def)
  obtain z w1 where z: "(if is_plist (rq_body req)
      then cbind (rate_is_zero (body_bytes req)) (\<lambda>zero. cbind (anchor_request E (body_bytes req) w) (\<lambda>w. Done (zero, w)))
      else Done (False, w)) = Done (z, w1)" "rx_inv (w_rx w1)"
    using rate_total [OF small] anchor_total [OF small inv, of E] inv by (cases "is_plist (rq_body req)") auto
  show ?thesis unfolding handle_setrateanchortime_def prod.case z(1) cbind.simps
    using assms(1) cs z(2) rx_ops
    by (auto intro!: send_ok_answered simp: state_ok_def emit_event_def audio_output_flush_def on_rx_def rx_inv_def audio_receiver_pause_def audio_receiver_set_playing_def Let_def)
qed

subsection \<open>Parameters\<close>

lemma parse_progress_ok: "meta_ok m \<Longrightarrow> meta_ok (parse_progress str rate m)"
  by (simp add: parse_progress_def meta_ok_def Let_def split: option.split prod.split)

lemma progress_ok:
  "meta_ok m \<Longrightarrow> meta_ok (fst (progress_header raw m))" "meta_ok m \<Longrightarrow> meta_ok (fst (progress_body b m))"
  by (simp_all add: progress_header_def progress_body_def parse_progress_ok Let_def split: option.split)

lemma plist_text_total:
  assumes "small_buf b" "field_ok f"
  shows "\<exists>f' h. plist_text b key f = Done (f', h) \<and> field_ok f'"
proof (cases "bplist_find_string b key METADATA_STRING_MAX")
  case (Done str)
  define t where "t = take 63 (c_str str)"
  have "length t \<le> 63" by (simp add: t_def)
  then show ?thesis using assms(2) Done by (auto simp: plist_text_def put_bytes_def field_ok_def METADATA_STRING_MAX_def t_def [symmetric])
qed (use assms find_string_safe [OF assms(1), of METADATA_STRING_MAX key] in \<open>auto simp: plist_text_def\<close>)

lemma plist_metadata_total:
  assumes "small_buf b" "meta_ok m"
  shows "\<exists>m' h. plist_metadata E b m = Done (m', h)"
proof -
  have f: "field_ok (md_title m)" "field_ok (md_artist m)" "field_ok (md_album m)" using assms(2) by (auto simp: meta_ok_def)
  obtain t1 h1 t2 h2 t3 h3 where t: "plist_text b (asc ''itemName'') (md_title m) = Done (t1, h1)"
    "plist_text b (asc ''artistName'') (md_artist m) = Done (t2, h2)" "plist_text b (asc ''albumName'') (md_album m) = Done (t3, h3)"
    using plist_text_total [OF assms(1)] f by meson
  have p: "\<exists>m' h. plist_progress E b m1 = Done (m', h)" for m1
    using find_numbers_safe(2) [OF assms(1), of "asc ''elapsed''"] find_numbers_safe(2) [OF assms(1), of "asc ''duration''"]
    by (auto simp: plist_progress_def Let_def split: cres.split)
  have "log_int (Some b) (asc ''networkTimeSecs'') = Done ()" using log_int_total [OF assms(1)] by blast
  moreover have "(case bplist_find_real b (asc ''rate'') of Fault \<Rightarrow> Fault | _ \<Rightarrow> Done ()) = Done ()"
    using find_numbers_safe(2) [OF assms(1), of "asc ''rate''"] by (simp split: cres.split)
  ultimately show ?thesis using t p [of "m\<lparr>md_title := t1, md_artist := t2, md_album := t3\<rparr>"] unfolding plist_metadata_def by (auto simp del: asc_simps)
qed

lemma set_parameter_body_total:
  assumes "small_buf (body_bytes req)" "meta_ok m"
  shows "\<exists>m' h. set_parameter_body E req m = Done (m', h)"
proof -
  obtain m1 where "parse_dmap_metadata (body_bytes req) m = Done m1" using parse_dmap_metadata_ok [OF assms(2)] by blast
  moreover obtain m2 h2 where "plist_metadata E (body_bytes req) m = Done (m2, h2)" using plist_metadata_total [OF assms] by blast
  moreover have "\<exists>m' h. Done (progress_body b m) = Done (m', h)" for b by (metis surj_pair)
  ultimately show ?thesis unfolding set_parameter_body_def Let_def by (auto split: option.split)
qed

lemma parameters_answered:
  assumes "state_ok (w, s, conn)" "req_ok req" "env_ok E"
  shows "answered E (rq_cseq req) s (handle_set_parameter E req raw (w, s, conn))"
    and "answered E (rq_cseq req) s (handle_get_parameter E req raw (w, s, conn))"
proof -
  have small: "small_buf (body_bytes req)" and cs: "cseq_ok (rq_cseq req)" using assms by (auto simp: req_ok_def)
  obtain m1 h1 where m1: "progress_header (c_str raw) no_metadata = (m1, h1)" by fastforce
  then have "meta_ok m1" using progress_ok(1) [OF no_metadata_ok, of "c_str raw"] by simp
  then obtain m2 h2 where m2: "set_parameter_body E req m1 = Done (m2, h2)" using set_parameter_body_total [OF small] by blast
  have "state_ok (emit_event e d w, s, conn)" for e d using assms(1) by (simp add: state_ok_def emit_event_def)
  then show "answered E (rq_cseq req) s (handle_set_parameter E req raw (w, s, conn))"
    unfolding handle_set_parameter_def prod.case m1 Let_def m2 cbind.simps using assms(1) cs by (auto intro!: send_ok_answered)
  show "answered E (rq_cseq req) s (handle_get_parameter E req raw (w, s, conn))"
    unfolding handle_get_parameter_def using assms(1,3) cs
    by (auto intro!: send_ok_answered send_response_answered simp: env_ok_def crlf_def)
qed

section \<open>Dispatch\<close>

lemma strtol_range: "cseq_ok (strtol s)"
  by (auto simp: strtol_def cseq_ok_def split: prod.split)

lemma parsed_request_ok:
  assumes "rtsp_request_parse raw = Done req" "length raw < 2 ^ 30"
  shows "req_ok req"
proof -
  have "cseq_ok (rq_cseq req)" using assms(1) strtol_range
    by (auto simp: rtsp_request_parse_def rtsp_parse_cseq_def cseq_ok_def Let_def split: if_splits option.splits)
  moreover have "rq_body req = rtsp_get_body raw"
    using assms(1) by (auto simp: rtsp_request_parse_def Let_def split: if_splits option.splits)
  then have "length (body_bytes req) \<le> length raw" by (auto simp: body_bytes_def rtsp_get_body_def split: option.split)
  then have "small_buf (body_bytes req)" using assms(2) by (simp add: small_buf_def)
  ultimately show ?thesis by (simp add: req_ok_def)
qed

lemma handlers_answered:
  assumes "state_ok (w, s, conn)" "req_ok req" "env_ok E" "(m, h) \<in> set method_handlers"
  shows "answered E (rq_cseq req) s (h E req raw (w, s, conn))"
  using assms(4) options_answered [OF assms(1,2)] get_answered [OF assms(1-3)] post_answered [OF assms(1-3)] announce_answered [OF assms(1,2)]
    setup_answered [OF assms(1,2)] record_answered [OF assms(1,2)] parameters_answered [OF assms(1-3)] pause_answered [OF assms(1,2)]
    flushes_answered [OF assms(1,2)] teardown_answered [OF assms(1,2)] setrate_answered [OF assms(1,2)] send_ok_answered [OF assms(1)] assms(2)
  by (auto simp: method_handlers_def handle_setpeers_def [abs_def] req_ok_def)

lemma dacp_headers_ok: "pair_ok m wc \<Longrightarrow> pair_ok m (dacp_headers raw wc)"
  by (auto simp: dacp_headers_def pair_ok_def on_dacp_def Let_def split: prod.split option.split)

lemma dispatch_answered:
  assumes "env_ok E" "state_ok (w, s, conn)" "length raw < 2 ^ 30" "rtsp_request_parse raw = Done req"
  shows "\<exists>r. rtsp_dispatch E raw (w, s, conn) = cbind r (\<lambda>c. Done (0, c)) \<and> answered E (rq_cseq req) s r"
proof -
  obtain w1 c1 where d: "dacp_headers raw (w, conn) = (w1, c1)" by fastforce
  have "pair_ok (cn_encrypted_mode conn) (w, conn)" using assms(2) by (simp add: pair_ok_def state_ok_def)
  from dacp_headers_ok [OF this, of raw] d have st: "state_ok (w1, s, c1)" by (auto intro: pair_ok_state)
  have rq: "req_ok req" by (rule parsed_request_ok [OF assms(4,3)])
  let ?r = "case find (\<lambda>(m, h). strcasecmp_eq (rq_method req) m) method_handlers of
                   Some (_, h) \<Rightarrow> h E req raw (w1, s, c1)
                 | None \<Rightarrow> send_http E (w1, s, c1) 501 (asc ''Not Implemented'') (asc ''text/plain'') (asc ''Not Implemented'')"
  have "answered E (rq_cseq req) s ?r"
  proof (cases "find (\<lambda>(m, h). strcasecmp_eq (rq_method req) m) method_handlers")
    case None
    then show ?thesis using st by (auto intro!: send_http_answered)
  next
    case (Some mh)
    then have "(fst mh, snd mh) \<in> set method_handlers" by (auto simp: find_Some_iff) (metis nth_mem)
    from handlers_answered [OF st rq assms(1) this] Some show ?thesis by (auto simp: case_prod_beta)
  qed
  then show ?thesis using assms(4) d by (intro exI [of _ ?r]) (simp add: rtsp_dispatch_def)
qed

section \<open>The whole control plane\<close>

text \<open>
  The histories of a device with one client at a time: it starts with an initialised receiver; a client connects from any address, which \<open>client_task\<close> notes (it stays 0 when the
  peer is not known), and another one after it; then requests are dispatched, the audio side takes any step of the receiver, frames and reads among them,
  the network changes what the socket has to offer, a message on the encrypted channel advances the counter of its nonces, and the clocks, the event port and the output, which have tasks of their own, change their part of the state, in any order.
\<close>

definition connected :: "u32 \<Rightarrow> rtsp_conn" where
  "connected client_ip = rtsp_conn_create\<lparr>cn_client_ip := client_ip\<rparr>"

inductive control :: "state \<Rightarrow> bool" where
  connect: "rx_run (w_rx w) \<Longrightarrow> control (w, s, connected client_ip)"
| reconnect: "control (w, s, conn) \<Longrightarrow> control (w, s', connected client_ip)"
| request: "control c \<Longrightarrow> env_ok E \<Longrightarrow> length raw < 2 ^ 30 \<Longrightarrow> rtsp_dispatch E raw c = Done (code, c') \<Longrightarrow> control c'"
| audio: "control (w, s, conn) \<Longrightarrow> rx_step (w_rx w) r \<Longrightarrow> control (w\<lparr>w_rx := r\<rparr>, s, conn)"
| tasks: "control (w, s, conn) \<Longrightarrow> w_rx w' = w_rx w \<Longrightarrow> control (w', s, conn)"
| network: "control (w, s, conn) \<Longrightarrow> control (w, s', conn)"
| channel: "control (w, s, conn) \<Longrightarrow> cn_hap_session conn = Some h \<Longrightarrow> control (w, s', conn\<lparr>cn_hap_session := Some (h\<lparr>decrypt_nonce := n\<rparr>)\<rparr>)"

lemma dispatch_total:
  assumes "env_ok E" "state_ok c" "length raw < 2 ^ 30"
  shows "\<exists>code c'. rtsp_dispatch E raw c = Done (code, c') \<and> state_ok c'"
proof -
  obtain w s conn where c: "c = (w, s, conn)" by (rule prod_cases3)
  show ?thesis
  proof (cases "rtsp_request_parse raw")
    case (Done req)
    from dispatch_answered [OF assms(1) assms(2) [unfolded c] assms(3) Done] c show ?thesis by (auto simp: answered_def)
  qed (use assms(2) c in \<open>auto simp: rtsp_dispatch_def rtsp_request_parse_def Let_def split: if_splits option.splits\<close>)
qed

lemma control_ok: "control c \<Longrightarrow> state_ok c"
proof (induction rule: control.induct)
  case (connect w s client_ip)
  then show ?case using rx_run_inv by (simp add: state_ok_def session_ok_def connected_def rtsp_conn_create_def)
next
  case (reconnect w s conn s' client_ip)
  then show ?case by (simp add: state_ok_def session_ok_def connected_def rtsp_conn_create_def)
next
  case (request c E raw code c')
  with dispatch_total [of E c raw] show ?case by auto
next
  case (audio w s conn r)
  then show ?case using rx_step_inv by (simp add: state_ok_def)
qed (simp_all add: state_ok_def session_ok_def)

text \<open>
  C17. The whole control plane is safe: after any history of connections from whatever address, of requests, arriving frames, reads and other commands to the receiver, every request below
  1 GiB, whatever its bytes, is processed to the end by the handlers and everything they call, the parsers, pairing, the receiver, without an access outside of a buffer, and
  leaves a receiver whose jitter buffer is in order and a pairing session with a key of 32 bytes; and the next frame and the next read return as well.
\<close>

theorem control_plane_safe:
  assumes "control (w, s, conn)" "env_ok E" "length raw < 2 ^ 30" "decoder_ok decoded"
  shows "(\<exists>code w' s' conn'. rtsp_dispatch E raw (w, s, conn) = Done (code, (w', s', conn')) \<and> rx_inv (w_rx w')
      \<and> (\<forall>h. cn_hap_session conn' = Some h \<longrightarrow> length (session_public_key h) = 32))
    \<and> (\<exists>ok r. audio_stream_process_frame is_aac (w_rx w) ts decoded = Done (ok, r))
    \<and> (\<exists>n pcm r. audio_receiver_read tenv samples (w_rx w) = Done ((n, pcm), r) \<and> n \<le> samples)"
proof -
  have ok: "state_ok (w, s, conn)" by (rule control_ok [OF assms(1)])
  then have inv: "rx_inv (w_rx w)" by (simp add: state_ok_def)
  obtain code w' s' conn' where "rtsp_dispatch E raw (w, s, conn) = Done (code, (w', s', conn'))" "state_ok (w', s', conn')"
    using dispatch_total [OF assms(2) ok assms(3)] by (metis prod_cases3)
  then show ?thesis using process_frame_inv [OF inv assms(4), of is_aac ts] rx_read_inv [OF inv, of tenv samples]
    by (auto simp: state_ok_def session_ok_def)
qed

definition demo_world :: world where
  "demo_world = \<lparr>w_rx = demo_receiver, w_encrypt = no_encrypt,
     w_ntp = demo_ntp, w_ptp_running = True, w_dacp = dacp_start, w_flush_requested = False, w_events = [], w_event_task = None\<rparr>"

definition demo_handlers_env :: env where
  "demo_handlers_env = \<lparr>ev_lib = demo_lib, ev_mem = (\<lambda>_. True), ev_session_mem = True, ev_srp_mem = True, ev_device_keys = (replicate 32 1, replicate 64 2),
     ev_session_keys = (replicate 32 3, replicate 32 4), ev_salt = replicate 16 5, ev_private = replicate 32 6, ev_mac = [1, 2, 3, 4, 5, 6], ev_name = asc ''Speaker'',
     ev_now_ms = 0, ev_now_us = 0, ev_bind = (\<lambda>k. (int k + 5, of_nat k + 6000)), ev_listen = (9, 7000), ev_start = ESP_OK, ev_buffered_port = 7100,
     ev_decoder_ok = True, ev_ntp_sock = True, ev_ntp_task = True, ev_out_of_range = (\<lambda>_. 0), ev_volume = asc ''-10.00''\<rparr>"

lemma demo_handlers_env_ok: "env_ok demo_handlers_env"
  using demo_lib_ok(4) by (simp add: env_ok_def demo_handlers_env_def demo_lib_def)

text \<open>A client at 192.168.0.9.\<close>

definition demo_client :: rtsp_conn where "demo_client = connected 0x0900A8C0"

lemma demo_control: "control (demo_world, s, demo_client)"
  unfolding demo_client_def using demo_receiver_run by (intro control.connect) (simp add: demo_world_def)

theorem control_plane_safe_witness:
  "\<exists>code c'. rtsp_dispatch demo_handlers_env (asc ''SETUP x RTSP/1.0'' @ [13, 10, 13, 10] @ asc ''bplist00'' @ replicate 40 255) (demo_world, demo_sock, demo_client) = Done (code, c')"
proof -
  have "length (asc ''SETUP x RTSP/1.0'' @ [13, 10, 13, 10] @ asc ''bplist00'' @ replicate 40 255) < 2 ^ 30" by simp
  from control_plane_safe [OF demo_control demo_handlers_env_ok this, of None] show ?thesis by (fastforce simp: decoder_ok_def)
qed

text \<open>
  Every request that can be parsed is answered exactly once: on a connection that stays in plain text, one message goes out, an RTSP answer with the sequence
  number of the request or an HTTP answer, and no input is consumed.
\<close>

theorem one_answer:
  assumes "control (w, s, conn)" "env_ok E" "length raw < 2 ^ 30" "rtsp_request_parse raw = Done req" "\<forall>n. ev_mem E n" "so_send s = []"
  shows "\<exists>w' s' conn'. rtsp_dispatch E raw (w, s, conn) = Done (0, (w', s', conn')) \<and> so_in s' = so_in s
    \<and> (cn_encrypted_mode conn' \<or> (\<exists>m. response (rq_cseq req) m \<and> so_out s' = so_out s @ m))"
  using dispatch_answered [OF assms(2) control_ok [OF assms(1)] assms(3,4)] assms(5,6) by (auto simp: answered_def)

theorem one_answer_witness:
  "\<exists>w' s' conn'. rtsp_dispatch demo_handlers_env (asc ''OPTIONS * RTSP/1.0'' @ [13, 10] @ asc ''CSeq: 7'' @ [13, 10, 13, 10]) (demo_world, demo_sock, demo_client) = Done (0, (w', s', conn'))
     \<and> (cn_encrypted_mode conn' \<or> (\<exists>m. response 7 m \<and> so_out s' = so_out demo_sock @ m))"
proof -
  let ?raw = "asc ''OPTIONS * RTSP/1.0'' @ [13, 10] @ asc ''CSeq: 7'' @ [13, 10, 13, 10]"
  have short: "length ?raw < 2 ^ 30" by simp
  obtain req where req: "rtsp_request_parse ?raw = Done req" "rq_cseq req = 7"
    by (simp add: rtsp_request_parse_def rtsp_parse_cseq_def c_str_def scan_word_def isspace_def starts_def strtol_def signed_digits_def isdigit_def digits_value_def Let_def)
  have mem: "\<forall>n. ev_mem demo_handlers_env n" "so_send demo_sock = []" by (simp_all add: demo_handlers_env_def demo_sock_def)
  from one_answer [OF demo_control demo_handlers_env_ok short req(1) mem(1) mem(2)] req(2) show ?thesis by auto
qed

section \<open>What requests do\<close>

text \<open>The table finds the handler of a method name.\<close>

lemma find_handler:
  "find (\<lambda>(m, h). strcasecmp_eq (asc ''FLUSH'') m) method_handlers = Some (asc ''FLUSH'', handle_flush)"
  "find (\<lambda>(m, h). strcasecmp_eq (asc ''TEARDOWN'') m) method_handlers = Some (asc ''TEARDOWN'', handle_teardown)"
  "find (\<lambda>(m, h). strcasecmp_eq (asc ''PAUSE'') m) method_handlers = Some (asc ''PAUSE'', handle_pause)"
  by (simp_all add: method_handlers_def strcasecmp_eq_def tolower_def)

text \<open>A send leaves the world alone.\<close>

lemma send_ok_world: "send_ok E (w, s, conn) cseq = Done (w', s', conn') \<Longrightarrow> w' = w"
  by (auto simp: send_ok_def keep_conn_def cbind_eq_Done)

lemma write_frame_conn: "rtsp_crypto_write_frame L mem s c data = (ok, s', c') \<Longrightarrow> \<exists>h. c' = c\<lparr>cn_hap_session := h\<rparr>"
  by (auto simp: rtsp_crypto_write_frame_def split: option.splits if_splits prod.splits intro: exI [of _ "cn_hap_session c"])

lemma ok_header_short: "cseq_ok cseq \<Longrightarrow> length (rtsp_header 200 (asc ''OK'') cseq None None) < 1024"
  using dec_int_length [of cseq] by (simp add: rtsp_header_def dec_int_def dec.simps crlf_def split: if_splits)

lemma send_ok_conn:
  assumes "send_ok E (w, s, conn) cseq = Done (w', s', conn')" "cseq_ok cseq"
  shows "\<exists>h. conn' = conn\<lparr>cn_hap_session := h\<rparr>"
proof -
  let ?h = "rtsp_header 200 (asc ''OK'') cseq None None"
  obtain ok1 s1 c1 where f: "rtsp_crypto_write_frame (ev_lib E) (ev_mem E) s conn ?h = (ok1, s1, c1)" by (rule prod_cases3)
  obtain ok2 s2 where a: "send_all s ?h = (ok2, s2)" by fastforce
  have "conn' = conn \<or> conn' = c1"
    using assms(1) f a send_message_short [OF ok_header_short [OF assms(2)], of "ev_lib E" "ev_mem E" s conn "[]"]
    by (auto simp: send_ok_def keep_conn_def rtsp_send_ok_def rtsp_send_response_def simp del: asc_simps split: if_splits)
  then show ?thesis using write_frame_conn [OF f] by (auto intro: exI [of _ "cn_hap_session conn"])
qed

lemma dispatch_handler:
  assumes "rtsp_request_parse raw = Done req" "dacp_headers raw (w, conn) = (w1, c1)"
    "find (\<lambda>(m, h). strcasecmp_eq (rq_method req) m) method_handlers = Some (m, h)"
  shows "rtsp_dispatch E raw (w, s, conn) = cbind (h E req raw (w1, s, c1)) (\<lambda>c. Done (0, c))"
  using assms by (simp add: rtsp_dispatch_def)

lemma dacp_headers_rx: "dacp_headers raw (w, conn) = (w1, c1) \<Longrightarrow> w_rx w1 = w_rx w \<and> w_ntp w1 = w_ntp w"
proof -
  have keep: "w_rx (if P then on_dacp f w else w) = w_rx w" "w_ntp (if P then on_dacp f w else w) = w_ntp w" for P f by (simp_all add: on_dacp_def)
  have "w_rx (fst (dacp_headers raw (w, conn))) = w_rx w" "w_ntp (fst (dacp_headers raw (w, conn))) = w_ntp w"
    by (simp_all only: dacp_headers_def prod.case Let_def fst_conv keep)
  then show "dacp_headers raw (w, conn) = (w1, c1) \<Longrightarrow> w_rx w1 = w_rx w \<and> w_ntp w1 = w_ntp w" by simp
qed

text \<open>
  C18. A FLUSH request takes effect at once: when it has been dispatched, the jitter buffer is empty, the output is told to drop what it holds, and every frame that
  still arrives from before the seek is discarded until a new anchor is set.
\<close>

theorem flush_request:
  assumes "control (w, s, conn)" "env_ok E" "length raw < 2 ^ 30" "rtsp_request_parse raw = Done req" "rq_method req = asc ''FLUSH''"
  shows "\<exists>w' s' conn'. rtsp_dispatch E raw (w, s, conn) = Done (0, (w', s', conn')) \<and> frames (rx_buffer (w_rx w')) = [] \<and> w_flush_requested w'
    \<and> (\<forall>is_aac ts decoded. audio_stream_process_frame is_aac (w_rx w') ts decoded = Done (False, w_rx w'))"
proof -
  obtain w1 c1 where d: "dacp_headers raw (w, conn) = (w1, c1)" by fastforce
  note disp = dispatch_handler [OF assms(4) d, unfolded assms(5), OF find_handler(1)]
  have "rx_inv (w_rx w1)" using control_ok [OF assms(1)] dacp_headers_rx [OF d] by (simp add: state_ok_def)
  then obtain r where r: "audio_receiver_seek_flush (w_rx w1) = Done r" "frames (rx_buffer r) = []" "rx_discard_all_until_anchor r" by (rule seek_flush_state)
  then have flush: "seek_flush w1 = Done (audio_output_flush (w1\<lparr>w_rx := r\<rparr>))" by (simp add: seek_flush_def)
  from dispatch_total [OF assms(2) control_ok [OF assms(1)] assms(3)] obtain code w' s' conn' where
    fin: "rtsp_dispatch E raw (w, s, conn) = Done (code, (w', s', conn'))" by (metis prod_cases3)
  with disp flush have "send_ok E (audio_output_flush (w1\<lparr>w_rx := r\<rparr>), s, c1) (rq_cseq req) = Done (w', s', conn')" "code = 0"
    by (auto simp: handle_flush_def cbind_eq_Done)
  then have "w' = audio_output_flush (w1\<lparr>w_rx := r\<rparr>)" using send_ok_world by blast
  then show ?thesis using fin r \<open>code = 0\<close>
    by (auto simp: audio_output_flush_def audio_stream_process_frame_def pass_gates_def)
qed

lemma stop_state:
  assumes "rx_inv r"
  obtains r' where "audio_receiver_stop r = Done r'" "frames (rx_buffer r') = []" "\<not> as_running (rx_realtime r')" "\<not> as_running (rx_buffered r')" "\<not> rx_has_decoder r'"
proof -
  have "buf_inv (rx_buffer r) []" using assms by (simp add: rx_inv_def)
  then obtain b where "audio_buffer_flush (rx_buffer r) = Done b" "frames b = []" by (rule flush_inv)
  then show ?thesis using that by (auto simp: audio_receiver_stop_def audio_receiver_flush_def)
qed

text \<open>The body of a TEARDOWN names streams if it is a binary property list with an array of them.\<close>

definition names_streams :: "rtsp_request \<Rightarrow> bool" where
  "names_streams req \<longleftrightarrow> is_plist (rq_body req) \<and> (case bplist_get_streams_count (body_bytes req) of Done _ \<Rightarrow> True | _ \<Rightarrow> False)"

lemma teardown_streams:
  assumes "small_buf (body_bytes req)"
  shows "(if is_plist (rq_body req)
      then (case bplist_get_streams_count (body_bytes req) of Fault \<Rightarrow> Fault | Fail \<Rightarrow> Done False | Done _ \<Rightarrow> Done True) else Done False) = Done (names_streams req)"
  using outcome_safe [OF get_streams_count_safe [of "body_bytes req"]] assms
  by (auto simp: names_streams_def split: cres.split)

text \<open>
  C19. A TEARDOWN ends the playback, whatever its body: both streams are stopped, the buffer is empty, the output is told to drop what it holds, and the audio key, the decoder and the lock of
  the PTP clock are gone. If the body names no streams (there is none, it is no property list, or one without streams), it ends the session as well: the NTP client and the
  remote control session are gone. If it names streams, these stay as they are, and the connection is ready for a new SETUP.
\<close>

theorem teardown_request:
  assumes "control (w, s, conn)" "env_ok E" "length raw < 2 ^ 30" "rtsp_request_parse raw = Done req" "rq_method req = asc ''TEARDOWN''"
  shows "\<exists>w' s' conn'. rtsp_dispatch E raw (w, s, conn) = Done (0, (w', s', conn'))
    \<and> frames (rx_buffer (w_rx w')) = [] \<and> \<not> as_running (rx_realtime (w_rx w')) \<and> \<not> as_running (rx_buffered (w_rx w')) \<and> \<not> rx_has_decoder (w_rx w')
    \<and> w_encrypt w' = no_encrypt \<and> \<not> locked (rx_ptp (w_rx w')) \<and> w_flush_requested w' \<and> \<not> cn_stream_active conn' \<and> cn_stream_paused conn' = names_streams req
    \<and> (if names_streams req
       then w_ntp w' = w_ntp w \<and> w_dacp w' = w_dacp (fst (dacp_headers raw (w, conn))) \<and> cn_dacp_id conn' = cn_dacp_id (snd (dacp_headers raw (w, conn)))
       else \<not> ntp_running (w_ntp w') \<and> \<not> dacp_is_active (w_dacp w') \<and> cn_dacp_id conn' = [])"
proof -
  obtain w1 c1 where d: "dacp_headers raw (w, conn) = (w1, c1)" by fastforce
  note disp = dispatch_handler [OF assms(4) d, unfolded assms(5), OF find_handler(2)]
  have "rx_inv (w_rx w1)" using control_ok [OF assms(1)] dacp_headers_rx [OF d] by (simp add: state_ok_def)
  then obtain r where r: "audio_receiver_stop (w_rx w1) = Done r" "frames (rx_buffer r) = []" "\<not> as_running (rx_realtime r)" "\<not> as_running (rx_buffered r)"
    "\<not> rx_has_decoder r" by (rule stop_state)
  define w2 where "w2 = clear_ptp (audio_output_flush (w1\<lparr>w_rx := r, w_encrypt := no_encrypt\<rparr>))"
  define w3 where "w3 = (if names_streams req then w2 else (on_dacp dacp_clear_session w2)\<lparr>w_ntp := ntp_clock_stop (w_ntp w2)\<rparr>)"
  define c2 where "c2 = c1\<lparr>cn_stream_active := False, cn_stream_paused := names_streams req\<rparr>"
  define c3 where "c3 = (if names_streams req then c2 else c2\<lparr>cn_dacp_id := [], cn_active_remote := [], cn_timing_port := 0\<rparr>)"
  have rq: "req_ok req" by (rule parsed_request_ok [OF assms(4,3)])
  then have streams: "small_buf (body_bytes req)" by (simp add: req_ok_def)
  from dispatch_total [OF assms(2) control_ok [OF assms(1)] assms(3)] obtain code w' s' conn' where
    fin: "rtsp_dispatch E raw (w, s, conn) = Done (code, (w', s', conn'))" by (metis prod_cases3)
  have "handle_teardown E req raw (w1, s, c1) = send_ok E (w3, s, c3) (rq_cseq req)"
    unfolding handle_teardown_def prod.case teardown_streams [OF streams] cbind.simps
    by (cases "names_streams req") (simp_all add: stop_receiver_def r(1) w2_def w3_def c2_def c3_def Let_def)
  with disp fin have sent: "send_ok E (w3, s, c3) (rq_cseq req) = Done (w', s', conn')" and "code = 0"
    by (auto simp: cbind_eq_Done)
  have "cseq_ok (rq_cseq req)" using rq by (simp add: req_ok_def)
  from send_ok_world [OF sent] send_ok_conn [OF sent this] obtain h where eq: "w' = w3" "conn' = c3\<lparr>cn_hap_session := h\<rparr>" by blast
  have n: "\<not> ntp_running (ntp_clock_stop n)" for n by (simp add: ntp_clock_stop_def)
  have w2: "w_rx w2 = r\<lparr>rx_ptp := ptp_clock_clear (rx_ptp r)\<rparr>" "w_encrypt w2 = no_encrypt" "w_flush_requested w2" "w_ntp w2 = w_ntp w"
    "w_dacp w2 = w_dacp w1" using dacp_headers_rx [OF d] by (simp_all add: w2_def clear_ptp_def on_rx_def audio_output_flush_def)
  have w3: "w_rx w3 = w_rx w2" "w_encrypt w3 = w_encrypt w2" "w_flush_requested w3 = w_flush_requested w2" by (simp_all add: w3_def on_dacp_def)
  have p: "\<not> locked (ptp_clock_clear q)" for q by (simp add: ptp_clock_clear_def)
  have streams: "names_streams req \<Longrightarrow> w_ntp w3 = w_ntp w \<and> w_dacp w3 = w_dacp w1 \<and> cn_dacp_id c3 = cn_dacp_id c1"
    "\<not> names_streams req \<Longrightarrow> \<not> ntp_running (w_ntp w3) \<and> \<not> dacp_is_active (w_dacp w3) \<and> cn_dacp_id c3 = []"
    using n by (simp_all add: w3_def w2 c3_def c2_def on_dacp_def dacp_clear_session_def dacp_is_active_def)
  have c3: "\<not> cn_stream_active c3" "cn_stream_paused c3 = names_streams req" by (simp_all add: c3_def c2_def)
  show ?thesis unfolding d fst_conv snd_conv using fin r(2-5) w2(1-3) w3 p streams c3 \<open>code = 0\<close> unfolding eq
    by (intro exI [of _ w3] exI [of _ s'] exI [of _ "c3\<lparr>cn_hap_session := h\<rparr>"]) simp
qed

text \<open>A request of one line, for the witnesses.\<close>

lemma demo_requests:
  "\<exists>req. rtsp_request_parse (asc ''FLUSH x'' @ [13, 10, 13, 10]) = Done req \<and> rq_method req = asc ''FLUSH''"
  "\<exists>req. rtsp_request_parse (asc ''TEARDOWN x'' @ [13, 10, 13, 10]) = Done req \<and> rq_method req = asc ''TEARDOWN'' \<and> \<not> is_plist (rq_body req)"
  by (simp_all add: rtsp_request_parse_def rtsp_parse_cseq_def c_str_def scan_word_def isspace_def starts_def Let_def rtsp_get_body_def crlf_def is_plist_def)

text \<open>A TEARDOWN that names a stream.\<close>

definition demo_teardown :: bytes where
  "demo_teardown = asc ''TEARDOWN x'' @ [13, 10, 13, 10] @ Bplist_Streams.demo_setup"

lemma demo_teardown_streams:
  "\<exists>req. rtsp_request_parse demo_teardown = Done req \<and> rq_method req = asc ''TEARDOWN'' \<and> names_streams req"
proof -
  have "bplist_get_streams_count Bplist_Streams.demo_setup = Done 1" by (simp add: Bplist_Streams.demo_setup_def bplist_eval)
  moreover have "is_plist (Some Bplist_Streams.demo_setup)" by (simp add: is_plist_def Bplist_Streams.demo_setup_def)
  moreover obtain req where "rtsp_request_parse demo_teardown = Done req" "rq_method req = asc ''TEARDOWN''" "rq_body req = Some Bplist_Streams.demo_setup"
    by (simp add: demo_teardown_def Bplist_Streams.demo_setup_def rtsp_request_parse_def rtsp_parse_cseq_def c_str_def scan_word_def isspace_def starts_def
        Let_def rtsp_get_body_def crlf_def)
  ultimately show ?thesis by (auto simp: names_streams_def body_bytes_def)
qed

theorem flush_request_witness:
  "\<exists>w' s' conn'. rtsp_dispatch demo_handlers_env (asc ''FLUSH x'' @ [13, 10, 13, 10]) (demo_world, demo_sock, demo_client) = Done (0, (w', s', conn')) \<and> w_flush_requested w'"
proof -
  have "length (asc ''FLUSH x'' @ [13, 10, 13, 10]) < 2 ^ 30" by simp
  with flush_request [OF demo_control demo_handlers_env_ok] demo_requests(1) show ?thesis by blast
qed

theorem teardown_request_witness:
  "(\<exists>w' s' conn'. rtsp_dispatch demo_handlers_env (asc ''TEARDOWN x'' @ [13, 10, 13, 10]) (demo_world, demo_sock, demo_client) = Done (0, (w', s', conn'))
     \<and> \<not> dacp_is_active (w_dacp w'))
   \<and> (\<exists>w' s' conn'. rtsp_dispatch demo_handlers_env demo_teardown (demo_world, demo_sock, demo_client) = Done (0, (w', s', conn'))
     \<and> \<not> rx_has_decoder (w_rx w') \<and> ntp_running (w_ntp w') \<and> cn_stream_paused conn')"
proof
  have "length (asc ''TEARDOWN x'' @ [13, 10, 13, 10]) < 2 ^ 30" by simp
  moreover obtain req where "rtsp_request_parse (asc ''TEARDOWN x'' @ [13, 10, 13, 10]) = Done req" "rq_method req = asc ''TEARDOWN''" "\<not> names_streams req"
    using demo_requests(2) by (auto simp: names_streams_def)
  ultimately show "\<exists>w' s' conn'. rtsp_dispatch demo_handlers_env (asc ''TEARDOWN x'' @ [13, 10, 13, 10]) (demo_world, demo_sock, demo_client) = Done (0, (w', s', conn'))
     \<and> \<not> dacp_is_active (w_dacp w')"
    using teardown_request [OF demo_control demo_handlers_env_ok] by (metis (no_types, lifting))
  obtain req where req: "rtsp_request_parse demo_teardown = Done req" "rq_method req = asc ''TEARDOWN''" and n: "names_streams req"
    using demo_teardown_streams by blast
  have len: "length demo_teardown < 2 ^ 30" by (simp add: demo_teardown_def Bplist_Streams.demo_setup_def)
  have ntp: "ntp_running (w_ntp demo_world)" by (simp add: demo_world_def demo_ntp_def)
  from teardown_request [OF demo_control demo_handlers_env_ok len req] n ntp
  show "\<exists>w' s' conn'. rtsp_dispatch demo_handlers_env demo_teardown (demo_world, demo_sock, demo_client) = Done (0, (w', s', conn'))
     \<and> \<not> rx_has_decoder (w_rx w') \<and> ntp_running (w_ntp w') \<and> cn_stream_paused conn'"
    by (simp only: if_True) metis
qed

section \<open>The start of encryption\<close>

lemma octets_header_short:
  assumes "cseq_ok cseq" "length body < 10 ^ 10"
  shows "length (rtsp_header 200 (asc ''OK'') cseq (Some octets) (Some body)) < 1024"
proof -
  have "length (dec (length body)) \<le> 10" using assms(2) by (intro dec_length) auto
  moreover have "length (dec_int 200) \<le> 3" using dec_length [of 200 3] by (simp add: dec_int_def)
  ultimately show ?thesis using dec_int_length [OF assms(1)] by (simp add: rtsp_header_def octets_def crlf_def)
qed

lemma state_byte_message:
  "distinct (map fst items) \<Longrightarrow> (TLV_TYPE_STATE, [n]) \<in> set items \<Longrightarrow> state_byte (message items) = Done (Some n)"
  by (simp add: state_byte_def tlv8_get_message)

text \<open>
  The answer to the last message of pair-verify is already encrypted: when a sender completes pair-verify on a plain-text connection, the bytes that go out are the blocks of the
  encrypted channel under the new key. (After pair-setup the answer is sent first and encryption starts behind it.)
\<close>

theorem verify_answer_encrypted:
  assumes "aead_ok (ev_lib E)" "length payload \<le> 496" "cn_hap_session conn = Some h" "\<not> cn_encrypted_mode conn" "cseq_ok (rq_cseq req)"
    "rq_body req = Some (verify_m3_msg (cl_seal (ev_lib E) (encrypt_key h) (replicate 4 0 @ asc ''PV-Msg03'') [] payload))"
    "\<forall>n. ev_mem E n" "so_send s = []"
  shows "\<exists>s' conn'. post_pair_verify E req (w, s, conn) = Done (w, s', conn')
    \<and> so_out s' = so_out s @ wire (ev_lib E) (read_key (ev_lib E) (shared_secret h)) (encrypt_nonce h)
        (rtsp_header 200 (asc ''OK'') (rq_cseq req) (Some octets) (Some [TLV_TYPE_STATE, 1, 4]) @ [TLV_TYPE_STATE, 1, 4])"
proof -
  let ?e = "cl_seal (ev_lib E) (encrypt_key h) (replicate 4 0 @ asc ''PV-Msg03'') [] payload"
  let ?m4 = "[TLV_TYPE_STATE, 1, 4]"
  define h1 where "h1 = h\<lparr>encrypt_key := read_key (ev_lib E) (shared_secret h), decrypt_key := write_key (ev_lib E) (shared_secret h),
        pair_verify_state := 4, session_established := True\<rparr>"
  define c1 where "c1 = conn\<lparr>cn_hap_session := Some h1, cn_encrypted_mode := True\<rparr>"
  have m4: "message [(TLV_TYPE_STATE, [4])] = ?m4" by (simp add: message_def fragments.simps)
  have body: "body_bytes req = verify_m3_msg ?e" "body_bytes req \<noteq> []"
    using assms(6) by (auto simp: body_bytes_def verify_m3_msg_def message_def fragments.simps [of _ "[3]"])
  have "state_byte (body_bytes req) = Done (Some 3)"
    unfolding body(1) verify_m3_msg_def by (rule state_byte_message) (auto simp: tlv_types)
  then have step: "pair_verify_step E h (body_bytes req) = Done ((ESP_OK, ?m4, h1), True)"
    using body verify_m3_run [OF assms(1,2), of h] by (simp add: pair_verify_step_def h1_def m4 del: asc_simps replicate_numeral message_simps)
  have post: "post_pair_verify E req (w, s, conn) = send_octets E (w, s, c1) (rq_cseq req) ?m4"
    using assms(3,7) step by (simp add: post_pair_verify_def with_session_def c1_def)
  let ?hd = "rtsp_header 200 (asc ''OK'') (rq_cseq req) (Some octets) (Some ?m4)"
  obtain s1 h2 where wb: "write_blocks (ev_lib E) (ev_mem E) s h1 (?hd @ ?m4) = (True, s1, h2)"
    using write_blocks_succeeds [of s "ev_lib E" "ev_mem E" h1] assms(1,7,8) by (metis empty_iff list.set(1))
  have "length ?hd < 1024" using assms(5) by (intro octets_header_short) auto
  then have "send_octets E (w, s, c1) (rq_cseq req) ?m4 = Done (w, s1, c1\<lparr>cn_hap_session := Some h2\<rparr>)"
    using wb assms(7) by (simp add: send_octets_def send_response_def rtsp_send_response_def send_message_short keep_conn_def c1_def rtsp_crypto_write_frame_def
        del: asc_simps)
  moreover have "so_out s1 = so_out s @ wire (ev_lib E) (read_key (ev_lib E) (shared_secret h)) (encrypt_nonce h) (?hd @ ?m4)"
    using write_blocks_wire [OF wb] by (simp add: h1_def)
  ultimately show ?thesis unfolding post by (intro exI [of _ s1] exI [of _ "c1\<lparr>cn_hap_session := Some h2\<rparr>"] conjI)
qed

theorem verify_answer_encrypted_witness:
  "\<exists>s' conn'. post_pair_verify demo_handlers_env
      \<lparr>rq_method = asc ''POST'', rq_path = asc ''/pair-verify'', rq_cseq = 1, rq_content_type = [], rq_content_length = 0,
        rq_body = Some (verify_m3_msg (cl_seal demo_lib (replicate 32 0) (replicate 4 0 @ asc ''PV-Msg03'') [] [1]))\<rparr>
      (demo_world, demo_sock, rtsp_conn_create\<lparr>cn_hap_session := Some (hap_session_create ([], []) ([], []))\<rparr>) = Done (demo_world, s', conn')"
proof -
  let ?h = "hap_session_create ([], []) ([], [])" and ?conn = "rtsp_conn_create\<lparr>cn_hap_session := Some (hap_session_create ([], []) ([], []))\<rparr>"
  let ?req = "\<lparr>rq_method = asc ''POST'', rq_path = asc ''/pair-verify'', rq_cseq = 1, rq_content_type = [], rq_content_length = 0,
        rq_body = Some (verify_m3_msg (cl_seal demo_lib (replicate 32 0) (replicate 4 0 @ asc ''PV-Msg03'') [] [1]))\<rparr>"
  have lib: "ev_lib demo_handlers_env = demo_lib" "encrypt_key ?h = replicate 32 0" by (simp_all add: demo_handlers_env_def hap_session_create_def)
  have "aead_ok (ev_lib demo_handlers_env)" "length [1 :: u8] \<le> 496" "cn_hap_session ?conn = Some ?h" "\<not> cn_encrypted_mode ?conn" "cseq_ok (rq_cseq ?req)"
    "rq_body ?req = Some (verify_m3_msg (cl_seal (ev_lib demo_handlers_env) (encrypt_key ?h) (replicate 4 0 @ asc ''PV-Msg03'') [] [1]))"
    "\<forall>n. ev_mem demo_handlers_env n" "so_send demo_sock = []"
    using demo_lib_ok(2) by (simp_all add: lib cseq_ok_def rtsp_conn_create_def demo_sock_def del: asc_simps replicate_numeral) (simp add: demo_handlers_env_def)
  from verify_answer_encrypted [OF this, of demo_world] show ?thesis by blast
qed

end
