(* ===== verification/Audio_Decoder.thy ===== *)
theory Audio_Decoder
  imports Audio_Receiver C_String
begin

text \<open>
  The decoders behind a stream (\<open>main/audio/audio_decoder.c\<close>): PCM is converted in place, ALAC and AAC frames go to the codec library of the
  vendor, ALAC with the configuration record of \<open>main/alac_magic_cookie.c\<close>, AAC with an ADTS header in front of each raw frame. The
  codecs keep a state between frames: a handle is modelled by the frames it was given since it was opened, and the library
  answers as a function of them. What is shown: a decoded block lies within the decode buffer, whatever the sender sends, which is
  what the receiver assumes of it; and the two headers describe the stream they are built for.
\<close>

section \<open>The model\<close>

definition ADTS_HEADER_LEN :: nat where "ADTS_HEADER_LEN = 7"
definition MAX_FALLBACK_CHANNELS :: int where "MAX_FALLBACK_CHANNELS = 2"
definition ALAC_MAGIC_COOKIE_SIZE :: nat where "ALAC_MAGIC_COOKIE_SIZE = 24"

datatype audio_decoder_kind = AUDIO_DECODER_NONE | AUDIO_DECODER_PCM | AUDIO_DECODER_ALAC | AUDIO_DECODER_AAC

text \<open>
  The codec library: whether a decoder can be opened with a configuration, and what it makes of a frame after the earlier ones, given the size of
  the output buffer in bytes: the samples it wrote, the number of bytes it reports and the number of channels.
\<close>

type_synonym aac_config = "int \<times> int \<times> int"
type_synonym codec_answer = "(u16 list \<times> nat \<times> nat) option"

record codec_lib =
  cd_alac_open :: "bytes \<Rightarrow> bool"
  cd_alac_decode :: "bytes \<Rightarrow> bytes list \<Rightarrow> bytes \<Rightarrow> nat \<Rightarrow> codec_answer"
  cd_aac_open :: "aac_config \<Rightarrow> bool"
  cd_aac_decode :: "aac_config \<Rightarrow> bytes list \<Rightarrow> bytes \<Rightarrow> nat \<Rightarrow> codec_answer"

record audio_decoder =
  ad_kind :: audio_decoder_kind
  ad_format :: audio_format
  ad_alac_magic_cookie :: bytes
  ad_alac_decoder :: "bytes list option"
  ad_aac_decoder :: "bytes list option"
  ad_aac_frame_buffer_size :: nat

subsection \<open>Codec names\<close>

definition codec_is_alac :: "bytes \<Rightarrow> bool" where
  "codec_is_alac codec \<longleftrightarrow> codec = asc ''AppleLossless'' \<or> codec = asc ''ALAC''"

definition codec_is_aac :: "bytes \<Rightarrow> bool" where
  "codec_is_aac codec \<longleftrightarrow> strstr (asc ''AAC'') codec \<noteq> None \<or> strstr (asc ''aac'') codec \<noteq> None \<or> strstr (asc ''mpeg4-generic'') codec \<noteq> None"

subsection \<open>Headers\<close>

definition or_default :: "'a::len word \<Rightarrow> 'a word \<Rightarrow> 'a word" where
  "or_default v d = (if v \<noteq> 0 then v else d)"

definition build_alac_magic_cookie :: "audio_format \<Rightarrow> bytes" where
  "build_alac_magic_cookie fmt =
     (let frame_length = or_default (af_max_samples_per_frame fmt) (if af_frame_size fmt > 0 then of_int (af_frame_size fmt) else 352);
          bit_depth = or_default (af_sample_size fmt) (if af_bits_per_sample fmt \<noteq> 0 then of_int (af_bits_per_sample fmt) else 16);
          pb = or_default (af_rice_history_mult fmt) 40;
          mb = or_default (af_rice_initial_history fmt) 10;
          kb = or_default (af_rice_limit fmt) 14;
          num_channels = or_default (af_num_channels fmt) (if af_channels fmt \<noteq> 0 then of_int (af_channels fmt) else 2);
          max_run = or_default (af_max_run fmt) 255;
          sample_rate = or_default (af_sample_rate_config fmt) (if af_sample_rate fmt \<noteq> 0 then of_int (af_sample_rate fmt) else 44100) in
      be32 frame_length @ [0, bit_depth, pb, mb, kb, num_channels] @ be16 max_run @ be32 (af_max_coded_frame_size fmt) @ be32 (af_avg_bit_rate fmt)
      @ be32 sample_rate)"

definition aac_has_adts_header :: "bytes \<Rightarrow> bool cres" where
  "aac_has_adts_header data =
     (if length data \<ge> 2
      then cbind (rd data 0) (\<lambda>b0. if b0 = 0xFF then cbind (rd data 1) (\<lambda>b1. Done (b1 AND 0xF0 = 0xF0)) else Done False)
      else Done False)"

definition adts_rates :: "int list" where
  "adts_rates = [96000, 88200, 64000, 48000, 44100, 32000, 24000, 22050, 16000, 12000, 11025, 8000, 7350]"

definition freq_index :: "int \<Rightarrow> nat option" where
  "freq_index sample_rate = find (\<lambda>i. adts_rates ! i = sample_rate) [0..<length adts_rates]"

definition build_adts_header :: "nat \<Rightarrow> int \<Rightarrow> int \<Rightarrow> bytes option" where
  "build_adts_header frame_len sample_rate channels =
     (case freq_index sample_rate of
        None \<Rightarrow> None
      | Some freq_idx \<Rightarrow>
          if channels < 1 \<or> channels > 7 \<or> frame_len > 0x1FFF - ADTS_HEADER_LEN then None
          else
            let profile = 2; chan_cfg = nat channels; packet_len = frame_len + ADTS_HEADER_LEN in
            Some [0xFF, 0xF1, of_nat ((profile - 1) * 64 + freq_idx * 4 + chan_cfg div 4), of_nat ((chan_cfg mod 4) * 64 + packet_len div 2048),
                  of_nat (packet_len mod 2048 div 8), of_nat ((packet_len mod 8) * 32 + 0x1F), 0xFC])"

subsection \<open>Creating a decoder\<close>

definition aac_cfg :: "audio_format \<Rightarrow> aac_config" where
  "aac_cfg fmt = (af_sample_rate fmt, af_channels fmt, if af_bits_per_sample fmt \<noteq> 0 then af_bits_per_sample fmt else 16)"

definition aac_decoder_reset :: "codec_lib \<Rightarrow> audio_decoder \<Rightarrow> audio_decoder" where
  "aac_decoder_reset C d = d\<lparr>ad_aac_decoder := (if cd_aac_open C (aac_cfg (ad_format d)) then Some [] else None)\<rparr>"

definition audio_decoder_create :: "codec_lib \<Rightarrow> bool \<Rightarrow> audio_format \<Rightarrow> audio_decoder option" where
  "audio_decoder_create C mem fmt =
     (if \<not> mem then None
      else
        let d = \<lparr>ad_kind = AUDIO_DECODER_NONE, ad_format = fmt, ad_alac_magic_cookie = replicate ALAC_MAGIC_COOKIE_SIZE 0, ad_alac_decoder = None,
                 ad_aac_decoder = None, ad_aac_frame_buffer_size = 0\<rparr> in
        Some (if codec_is_alac (af_codec fmt) then
                let cookie = build_alac_magic_cookie fmt; d = d\<lparr>ad_alac_magic_cookie := cookie\<rparr> in
                if cd_alac_open C cookie then d\<lparr>ad_kind := AUDIO_DECODER_ALAC, ad_alac_decoder := Some []\<rparr> else d
              else if codec_is_aac (af_codec fmt) then
                if cd_aac_open C (aac_cfg fmt) then d\<lparr>ad_kind := AUDIO_DECODER_AAC, ad_aac_decoder := Some []\<rparr> else d
              else if af_codec fmt = asc ''L16'' \<or> af_codec fmt = asc ''PCM'' then d\<lparr>ad_kind := AUDIO_DECODER_PCM\<rparr>
              else d))"

definition audio_decoder_is_aac :: "audio_decoder option \<Rightarrow> bool" where
  "audio_decoder_is_aac d = (case d of Some d \<Rightarrow> ad_kind d = AUDIO_DECODER_AAC | None \<Rightarrow> False)"

definition audio_decoder_is_alac :: "audio_decoder option \<Rightarrow> bool" where
  "audio_decoder_is_alac d = (case d of Some d \<Rightarrow> ad_kind d = AUDIO_DECODER_ALAC | None \<Rightarrow> False)"

subsection \<open>Decoding\<close>

text \<open>Big-endian samples; a write beyond the decode buffer, which holds \<open>AUDIO_MAX_CHANNELS\<close> channels, is a fault.\<close>

fun be_samples :: "nat \<Rightarrow> bytes \<Rightarrow> u16 list cres" where
  "be_samples 0 bs = Done []"
| "be_samples (Suc n) (a # b # bs) = cbind (be_samples n bs) (\<lambda>xs. Done ((push_bit 8 (ucast a) OR ucast b) # xs))"
| "be_samples (Suc n) bs = Fault"

definition decode_channels :: "audio_decoder \<Rightarrow> int" where
  "decode_channels d =
     (let channels = af_channels (ad_format d); channels = (if channels \<le> 0 then MAX_FALLBACK_CHANNELS else channels) in
      if channels > int AUDIO_MAX_CHANNELS then int AUDIO_MAX_CHANNELS else channels)"

definition decode_pcm :: "audio_decoder \<Rightarrow> bytes \<Rightarrow> nat \<Rightarrow> decoded cres" where
  "decode_pcm d input output_capacity_samples =
     (let channels = nat (decode_channels d); decoded_samples = min (length input div (channels * 2)) output_capacity_samples in
      if decoded_samples * channels > output_capacity_samples * AUDIO_MAX_CHANNELS then Fault
      else cbind (be_samples (decoded_samples * channels) input) (\<lambda>pcm. Done (Some (pcm, decoded_samples, int channels))))"

text \<open>What the code makes of the answer of a codec.\<close>

definition decoded_block :: "audio_decoder \<Rightarrow> nat \<Rightarrow> u16 list \<times> nat \<times> nat \<Rightarrow> decoded" where
  "decoded_block d output_capacity_samples answer =
     (case answer of (pcm, decoded_size, channel) \<Rightarrow>
        let dec_channels = (if channel > 0 then int channel else decode_channels d) in
        Some (pcm, min (decoded_size div (nat dec_channels * 2)) output_capacity_samples, dec_channels))"

definition decode_alac :: "codec_lib \<Rightarrow> audio_decoder \<Rightarrow> bytes \<Rightarrow> nat \<Rightarrow> (decoded \<times> audio_decoder) cres" where
  "decode_alac C d input output_capacity_samples =
     (case ad_alac_decoder d of
        None \<Rightarrow> Done (None, d)
      | Some fed \<Rightarrow>
          let d' = d\<lparr>ad_alac_decoder := Some (fed @ [input])\<rparr> in
          case cd_alac_decode C (ad_alac_magic_cookie d) fed input (output_capacity_samples * nat (decode_channels d) * 2) of
            None \<Rightarrow> Done (None, d')
          | Some answer \<Rightarrow> Done (decoded_block d output_capacity_samples answer, d'))"

text \<open>A raw frame gets a header; its buffer grows when it is too small, which may fail.\<close>

definition aac_frame :: "(nat \<Rightarrow> bool) \<Rightarrow> audio_decoder \<Rightarrow> bytes \<Rightarrow> (bytes option \<times> audio_decoder) cres" where
  "aac_frame mem d input =
     cbind (aac_has_adts_header input) (\<lambda>has.
       if has then Done (Some input, d)
       else
         let needed = length input + ADTS_HEADER_LEN in
         if ad_aac_frame_buffer_size d < needed \<and> \<not> mem needed then Done (None, d)
         else
           let d = d\<lparr>ad_aac_frame_buffer_size := max (ad_aac_frame_buffer_size d) needed\<rparr> in
           case build_adts_header (length input) (af_sample_rate (ad_format d)) (af_channels (ad_format d)) of
             None \<Rightarrow> Done (None, d)
           | Some header \<Rightarrow> Done (Some (header @ input), d))"

definition decode_aac :: "codec_lib \<Rightarrow> (nat \<Rightarrow> bool) \<Rightarrow> audio_decoder \<Rightarrow> bytes \<Rightarrow> nat \<Rightarrow> (decoded \<times> audio_decoder) cres" where
  "decode_aac C mem d input output_capacity_samples =
     (case ad_aac_decoder d of
        None \<Rightarrow> Done (None, d)
      | Some fed \<Rightarrow>
          cbind (aac_frame mem d input) (\<lambda>(data, d).
            case data of
              None \<Rightarrow> Done (None, d)
            | Some data \<Rightarrow>
                (case cd_aac_decode C (aac_cfg (ad_format d)) fed data (output_capacity_samples * nat (decode_channels d) * 2) of
                   None \<Rightarrow> Done (None, aac_decoder_reset C d)
                 | Some answer \<Rightarrow> Done (decoded_block d output_capacity_samples answer, d\<lparr>ad_aac_decoder := Some (fed @ [data])\<rparr>))))"

definition audio_decoder_decode :: "codec_lib \<Rightarrow> (nat \<Rightarrow> bool) \<Rightarrow> audio_decoder \<Rightarrow> bytes \<Rightarrow> nat \<Rightarrow> (decoded \<times> audio_decoder) cres" where
  "audio_decoder_decode C mem d input output_capacity_samples =
     (if output_capacity_samples = 0 then Done (None, d)
      else case ad_kind d of
          AUDIO_DECODER_PCM \<Rightarrow> cbind (decode_pcm d input output_capacity_samples) (\<lambda>r. Done (r, d))
        | AUDIO_DECODER_ALAC \<Rightarrow> decode_alac C d input output_capacity_samples
        | AUDIO_DECODER_AAC \<Rightarrow> decode_aac C mem d input output_capacity_samples
        | AUDIO_DECODER_NONE \<Rightarrow> Done (None, d))"

section \<open>Decoded blocks lie within the decode buffer\<close>

text \<open>What the codecs document: they write at most the bytes of the output buffer and report as many as they wrote.\<close>

definition answer_ok :: "nat \<Rightarrow> codec_answer \<Rightarrow> bool" where
  "answer_ok cap a = (case a of Some (pcm, decoded_size, channel) \<Rightarrow> decoded_size = 2 * length pcm \<and> decoded_size \<le> cap | None \<Rightarrow> True)"

definition codec_ok :: "codec_lib \<Rightarrow> bool" where
  "codec_ok C \<longleftrightarrow> (\<forall>cfg fs f cap. answer_ok cap (cd_alac_decode C cfg fs f cap)) \<and> (\<forall>cfg fs f cap. answer_ok cap (cd_aac_decode C cfg fs f cap))"

text \<open>A block for the receiver: it fits the buffer and is as long as it says.\<close>

definition block_fits :: "nat \<Rightarrow> decoded \<Rightarrow> bool" where
  "block_fits cap decoded \<longleftrightarrow> decoder_ok decoded
     \<and> (case decoded of Some (pcm, n, ch) \<Rightarrow> length pcm \<le> cap * AUDIO_MAX_CHANNELS \<and> n \<le> cap | None \<Rightarrow> True)"

lemma decode_channels_bounds: "1 \<le> decode_channels d" "nat (decode_channels d) \<le> AUDIO_MAX_CHANNELS"
  by (auto simp: decode_channels_def AUDIO_MAX_CHANNELS_def MAX_FALLBACK_CHANNELS_def Let_def)

lemma be_samples_ok: "2 * n \<le> length bs \<Longrightarrow> \<exists>xs. be_samples n bs = Done xs \<and> length xs = n"
proof (induction n bs rule: be_samples.induct)
  case (2 n a b bs)
  then obtain xs where "be_samples n bs = Done xs" "length xs = n" by auto
  then show ?case by simp
qed auto

lemma decode_pcm_ok: "\<exists>r. decode_pcm d input cap = Done r \<and> block_fits cap r"
proof -
  define ch where "ch = nat (decode_channels d)"
  define n where "n = min (length input div (ch * 2)) cap"
  have ch: "1 \<le> ch" "ch \<le> AUDIO_MAX_CHANNELS" using decode_channels_bounds [of d] by (simp_all add: ch_def)
  have "n * ch \<le> cap * AUDIO_MAX_CHANNELS" using ch by (intro mult_le_mono) (simp_all add: n_def)
  moreover have "2 * (n * ch) \<le> length input"
  proof -
    have "n * (ch * 2) \<le> length input div (ch * 2) * (ch * 2)" by (intro mult_le_mono1) (simp add: n_def)
    also have "\<dots> \<le> length input" by (rule div_times_less_eq_dividend)
    finally show ?thesis by (simp add: ac_simps)
  qed
  ultimately show ?thesis using be_samples_ok [of "n * ch" input] ch
    by (auto simp: decode_pcm_def ch_def [symmetric] n_def [symmetric] block_fits_def decoder_ok_def Let_def) (simp add: n_def)
qed

lemma decoded_block_ok:
  assumes "answer_ok (cap * nat (decode_channels d) * 2) (Some a)"
  shows "block_fits cap (decoded_block d cap a)"
proof -
  obtain pcm size ch where a: "a = (pcm, size, ch)" by (rule prod_cases3)
  define k where "k = nat (if ch > 0 then int ch else decode_channels d)"
  have k: "0 < k" using decode_channels_bounds(1) [of d] by (simp add: k_def)
  have size: "size = 2 * length pcm" "size \<le> cap * nat (decode_channels d) * 2" using assms by (simp_all add: answer_ok_def a)
  have "cap * nat (decode_channels d) \<le> cap * AUDIO_MAX_CHANNELS" using decode_channels_bounds(2) by (rule mult_le_mono2)
  with size have "length pcm \<le> cap * AUDIO_MAX_CHANNELS" by linarith
  moreover have "min (size div (k * 2)) cap * k \<le> length pcm"
  proof -
    have "min (size div (k * 2)) cap * (k * 2) \<le> size div (k * 2) * (k * 2)" by (intro mult_le_mono1) simp
    also have "\<dots> \<le> size" by (rule div_times_less_eq_dividend)
    finally show ?thesis using size(1) by simp
  qed
  ultimately show ?thesis using k by (auto simp: decoded_block_def a block_fits_def decoder_ok_def k_def [symmetric] Let_def)
      (auto simp: k_def split: if_splits)
qed

lemma aac_frame_ok: "\<exists>r d'. aac_frame mem d input = Done (r, d') \<and> ad_format d' = ad_format d"
proof -
  have "\<exists>h. aac_has_adts_header input = Done h" by (cases input; cases "tl input") (auto simp: aac_has_adts_header_def rd_def)
  then obtain h where h: "aac_has_adts_header input = Done h" by blast
  show ?thesis by (simp add: aac_frame_def h Let_def split: option.split)
qed

lemma decode_fits:
  assumes "codec_ok C"
  shows "\<exists>r d'. audio_decoder_decode C mem d input cap = Done (r, d') \<and> block_fits cap r"
proof -
  have none: "block_fits cap None" by (simp add: block_fits_def decoder_ok_def)
  have alac: "\<exists>r d'. decode_alac C d input cap = Done (r, d') \<and> block_fits cap r"
  proof (cases "ad_alac_decoder d")
    case (Some fed)
    let ?a = "cd_alac_decode C (ad_alac_magic_cookie d) fed input (cap * nat (decode_channels d) * 2)"
    have "answer_ok (cap * nat (decode_channels d) * 2) ?a" using assms by (simp add: codec_ok_def)
    then show ?thesis using Some none decoded_block_ok by (cases ?a) (auto simp: decode_alac_def Let_def)
  qed (use none in \<open>simp add: decode_alac_def\<close>)
  have aac: "\<exists>r d'. decode_aac C mem d input cap = Done (r, d') \<and> block_fits cap r"
  proof -
    obtain data d' where f: "aac_frame mem d input = Done (data, d')" "ad_format d' = ad_format d" using aac_frame_ok by blast
    show ?thesis
    proof (cases "ad_aac_decoder d"; cases data)
      fix fed bs assume b: "ad_aac_decoder d = Some fed" "data = Some bs"
      let ?a = "cd_aac_decode C (aac_cfg (ad_format d')) fed bs (cap * nat (decode_channels d') * 2)"
      have "answer_ok (cap * nat (decode_channels d') * 2) ?a" using assms unfolding codec_ok_def by blast
      then show ?thesis using b f none decoded_block_ok by (cases ?a) (auto simp: decode_aac_def)
    qed (use none f in \<open>auto simp: decode_aac_def\<close>)
  qed
  show ?thesis using alac aac none decode_pcm_ok [of d input cap]
    by (cases "ad_kind d") (auto simp: audio_decoder_decode_def)
qed

section \<open>The headers describe the stream\<close>

text \<open>The fields of an ADTS header as ISO 13818-7 lays them out: sampling rate index, channels and the length of header and frame.\<close>

definition adts_fields :: "bytes \<Rightarrow> nat \<times> nat \<times> nat" where
  "adts_fields h = (unat (h ! 2) div 4 mod 16, unat (h ! 2) mod 2 * 4 + unat (h ! 3) div 64,
     unat (h ! 3) mod 4 * 2048 + unat (h ! 4) * 8 + unat (h ! 5) div 32)"

lemma find_index: "find P [0..<n] = Some i \<Longrightarrow> i < n \<and> P i"
  by (auto simp: find_Some_iff)

lemma adts_header_fields:
  assumes "build_adts_header n rate channels = Some h"
  shows "length h = ADTS_HEADER_LEN \<and> aac_has_adts_header (h @ frame) = Done True
    \<and> (\<exists>i. adts_fields h = (i, nat channels, n + ADTS_HEADER_LEN) \<and> i < length adts_rates \<and> adts_rates ! i = rate)"
proof -
  obtain i where i: "freq_index rate = Some i" using assms by (auto simp: build_adts_header_def split: option.splits)
  then have idx: "i < length adts_rates" "adts_rates ! i = rate" using find_index by (auto simp: freq_index_def)
  define c where "c = nat channels"
  define l where "l = n + ADTS_HEADER_LEN"
  have c: "1 \<le> channels" "c \<le> 7" and l: "l < 8192"
    and h: "h = [0xFF, 0xF1, of_nat (64 + i * 4 + c div 4), of_nat ((c mod 4) * 64 + l div 2048), of_nat (l mod 2048 div 8), of_nat ((l mod 8) * 32 + 0x1F), 0xFC]"
    using assms by (auto simp: build_adts_header_def i c_def l_def ADTS_HEADER_LEN_def Let_def split: if_splits)
  have b: "i < 13" "c div 4 < 2" "c mod 4 < 4" "l div 2048 < 4" "l mod 2048 div 8 < 256" "l mod 8 < 8"
    using idx(1) c(2) l by (simp_all add: adts_rates_def)
  have u: "unat (of_nat x :: u8) = x" if "x < 256" for x using that by (simp add: unat_of_nat)
  define x2 x3 x4 x5 where x: "x2 = 64 + i * 4 + c div 4" "x3 = (c mod 4) * 64 + l div 2048" "x4 = l mod 2048 div 8" "x5 = (l mod 8) * 32 + 0x1F"
  have less: "x2 < 256" "x3 < 256" "x4 < 256" "x5 < 256"
    using b(1) b(2) b(3) b(4) b(5) b(6) by (simp_all only: x)
  have "h = [0xFF, 0xF1, of_nat x2, of_nat x3, of_nat x4, of_nat x5, 0xFC]" unfolding x by (rule h)
  then have "unat (h ! 2) = x2" "unat (h ! 3) = x3" "unat (h ! 4) = x4" "unat (h ! 5) = x5" using u less by simp_all
  moreover have f: "(64 + i * 4 + q) div 4 = 16 + i" "(64 + i * 4 + q) mod 2 = q" if "q < 2" for q using that by presburger+
  have g: "(r * 64 + y) div 64 = r" "(r * 64 + y) mod 4 = y" if "y < 4" for r y :: nat
    using that mod_mult_self1 [of y "16 * r" 4] by (simp_all add: ac_simps)
  have k: "(y * 32 + 31) div 32 = y" for y :: nat by simp
  have l3: "l div 2048 * 2048 + l mod 2048 div 8 * 8 + l mod 8 = l"
  proof -
    have "l mod 8 = l mod 2048 mod 8" by (simp add: mod_mod_cancel)
    then show ?thesis using div_mult_mod_eq [of l 2048] div_mult_mod_eq [of "l mod 2048" 8] by linarith
  qed
  ultimately have "adts_fields h = (i, c, l)" using b(1) f [OF b(2)] g [OF b(4)] k l3 by (simp add: adts_fields_def x)
  then show ?thesis using idx by (auto simp: h ADTS_HEADER_LEN_def aac_has_adts_header_def rd_def c_def l_def)
qed

text \<open>
  A raw AAC frame reaches the codec whole and correctly described: for a format with one of the standard sampling rates and up to seven channels the frame
  the codec is given starts with an ADTS header whose rate, channel count and length are those of the stream and of the frame, followed by the frame; a frame that brings
  its own header is passed on as it is.
\<close>

theorem aac_frame_described:
  assumes "aac_frame mem d input = Done (Some data, d')"
  shows "(data = input \<and> aac_has_adts_header input = Done True)
    \<or> (\<exists>h i. data = h @ input \<and> adts_fields h = (i, nat (af_channels (ad_format d)), length data) \<and> adts_rates ! i = af_sample_rate (ad_format d) \<and> i < 13)"
proof -
  obtain has where has: "aac_has_adts_header input = Done has" using assms by (auto simp: aac_frame_def cbind_eq_Done)
  show ?thesis
  proof (cases has)
    case False
    then obtain h where h: "build_adts_header (length input) (af_sample_rate (ad_format d)) (af_channels (ad_format d)) = Some h" "data = h @ input"
      using assms has by (auto simp: aac_frame_def Let_def split: option.splits if_splits)
    with adts_header_fields [OF h(1), of "[]"] show ?thesis by (auto simp: adts_rates_def)
  qed (use assms has in \<open>auto simp: aac_frame_def\<close>)
qed

theorem aac_frame_described_witness:
  "\<exists>h i. [0xFF, 0xF1, 80, 128, 1, 95, 0xFC, 1, 2, 3] = h @ [1, 2, 3] \<and> adts_fields h = (i, 2, 10) \<and> adts_rates ! i = 44100"
proof -
  let ?d = "\<lparr>ad_kind = AUDIO_DECODER_AAC, ad_format = default_format, ad_alac_magic_cookie = [], ad_alac_decoder = None, ad_aac_decoder = Some [],
    ad_aac_frame_buffer_size = 0\<rparr>"
  have "aac_frame (\<lambda>_. True) ?d [1, 2, 3] = Done (Some [0xFF, 0xF1, 80, 128, 1, 95, 0xFC, 1, 2, 3], ?d\<lparr>ad_aac_frame_buffer_size := 10\<rparr>)" by code_simp
  from aac_frame_described [OF this] show ?thesis by (auto simp: default_format_def DEFAULT_SAMPLE_RATE_def)
qed

lemma cookie_length: "length (build_alac_magic_cookie fmt) = ALAC_MAGIC_COOKIE_SIZE"
  by (simp add: build_alac_magic_cookie_def be32_def be16_def ALAC_MAGIC_COOKIE_SIZE_def Let_def)

text \<open>A codec failure resets the AAC decoder, so that the next frame meets a fresh one.\<close>

lemma aac_failure_resets:
  assumes "ad_aac_decoder d = Some fed" "aac_frame mem d input = Done (Some data, d')"
    "cd_aac_decode C (aac_cfg (ad_format d')) fed data (cap * nat (decode_channels d') * 2) = None" "cd_aac_open C (aac_cfg (ad_format d'))"
  shows "decode_aac C mem d input cap = Done (None, d'\<lparr>ad_aac_decoder := Some []\<rparr>)"
  using assms by (simp add: decode_aac_def aac_decoder_reset_def)

end
