(* ===== verification/Audio_Crypto.thy ===== *)
theory Audio_Crypto
  imports Crypto_Lib Audio_Format
begin

text \<open>
  Decryption of audio packets (\<open>main/audio/audio_crypto.c\<close>). The functions return the plain bytes, \<open>Fail\<close> for the result \<open>-1\<close>, and \<open>Fault\<close> for a read
  outside of the packet or a write beyond the capacity of the output buffer. ChaCha20-Poly1305 is the one of the crypto library; AES in CBC mode, which only
  AirPlay 1 streams use, is a further argument: key, initialisation vector, blocks.
\<close>

section \<open>The model\<close>

type_synonym aes_cbc = "bytes \<Rightarrow> bytes \<Rightarrow> bytes \<Rightarrow> bytes option"

definition ABYTES :: nat where "ABYTES = 16"

text \<open>Bytes written to a buffer of the given capacity.\<close>

definition into :: "nat \<Rightarrow> bytes \<Rightarrow> bytes cres" where
  "into room bs = (if length bs \<le> room then Done bs else Fault)"

definition open_into :: "crypto_lib \<Rightarrow> bytes \<Rightarrow> bytes \<Rightarrow> bytes \<Rightarrow> bytes \<Rightarrow> nat \<Rightarrow> bytes cres" where
  "open_into L key nonce aad ciphertext room =
     (case cl_open L key nonce aad ciphertext of None \<Rightarrow> Fail | Some m \<Rightarrow> into room m)"

definition decrypt_aes :: "aes_cbc \<Rightarrow> audio_encrypt \<Rightarrow> bytes \<Rightarrow> nat \<Rightarrow> bytes cres" where
  "decrypt_aes aes encrypt input output_capacity =
     (if length input > output_capacity then Fail
      else
        let encrypted_len = length input div 16 * 16 in
        case (if encrypted_len > 0 then aes (take 16 (ae_key encrypt)) (ae_iv encrypt) (take encrypted_len input) else Some []) of
          None \<Rightarrow> Fail
        | Some blocks \<Rightarrow> into output_capacity (blocks @ drop encrypted_len input))"

definition audio_crypto_decrypt_rtp :: "crypto_lib \<Rightarrow> aes_cbc \<Rightarrow> audio_encrypt \<Rightarrow> bytes \<Rightarrow> nat \<Rightarrow> bytes \<Rightarrow> bytes cres" where
  "audio_crypto_decrypt_rtp L aes encrypt input output_capacity full_packet =
     (case ae_type encrypt of
        AUDIO_ENCRYPT_NONE \<Rightarrow> if length input > output_capacity then Fail else into output_capacity input
      | AUDIO_ENCRYPT_AES_CBC \<Rightarrow> decrypt_aes aes encrypt input output_capacity
      | AUDIO_ENCRYPT_CHACHA20_POLY1305 \<Rightarrow>
          if length full_packet < 12 then Fail
          else if length input < ABYTES + 8 then Fail
          else
            cbind (slice full_packet (length full_packet - 8) 8) (\<lambda>nonce8.
            cbind (slice full_packet 4 8) (\<lambda>aad.
              let ciphertext_len = length input - 8 in
              if ciphertext_len - ABYTES > output_capacity then Fail
              else cbind (slice input 0 ciphertext_len) (\<lambda>ciphertext.
                open_into L (ae_key encrypt) (replicate 4 0 @ nonce8) aad ciphertext output_capacity))))"

definition audio_crypto_decrypt_buffered :: "crypto_lib \<Rightarrow> audio_encrypt \<Rightarrow> bytes \<Rightarrow> nat \<Rightarrow> bytes cres" where
  "audio_crypto_decrypt_buffered L encrypt packet output_capacity =
     (if ae_type encrypt \<noteq> AUDIO_ENCRYPT_CHACHA20_POLY1305 then
        if length packet \<le> 12 then Fail
        else if length packet - 12 > output_capacity then Fail
        else cbind (slice packet 12 (length packet - 12)) (into output_capacity)
      else if length packet < 36 then Fail
      else
        cbind (slice packet (length packet - 8) 8) (\<lambda>nonce8.
        cbind (slice packet 4 8) (\<lambda>aad.
          let ciphertext_len = length packet - 12 - 8 in
          if ciphertext_len > output_capacity + ABYTES then Fail
          else cbind (slice packet 12 ciphertext_len) (\<lambda>ciphertext.
            open_into L (ae_key encrypt) (replicate 4 0 @ nonce8) aad ciphertext output_capacity))))"

section \<open>No packet is read or written out of bounds\<close>

text \<open>What the libraries document of sizes: opening removes the tag, and CBC keeps the length.\<close>

definition open_ok :: "crypto_lib \<Rightarrow> bool" where
  "open_ok L \<longleftrightarrow> (\<forall>k n a c m. cl_open L k n a c = Some m \<longrightarrow> length m + ABYTES = length c)"

definition cbc_ok :: "aes_cbc \<Rightarrow> bool" where
  "cbc_ok aes \<longleftrightarrow> (\<forall>k v c m. aes k v c = Some m \<longrightarrow> length m = length c)"

lemma open_into_outcome:
  assumes "open_ok L" "length c \<le> cap + ABYTES"
  shows "outcome (\<lambda>m. length m + ABYTES = length c \<and> length m \<le> cap) (open_into L k n a c cap)"
proof (cases "cl_open L k n a c")
  case (Some m)
  then have "length m + ABYTES = length c" using assms(1) by (simp add: open_ok_def)
  then show ?thesis using assms(2) Some by (simp add: open_into_def into_def)
qed (simp add: open_into_def)

lemma decrypt_aes_outcome:
  assumes "cbc_ok aes"
  shows "outcome (\<lambda>m. length m = length input \<and> length m \<le> cap) (decrypt_aes aes e input cap)"
proof -
  define n where "n = length input div 16 * 16"
  have n: "n \<le> length input" by (simp add: n_def)
  define blocks where "blocks = (if n > 0 then aes (take 16 (ae_key e)) (ae_iv e) (take n input) else Some [])"
  have len: "length m = n" if "blocks = Some m" for m
  proof (cases "n > 0")
    case True
    with that assms have "length m = length (take n input)" unfolding cbc_ok_def blocks_def by metis
    then show ?thesis using n by simp
  qed (use that in \<open>simp add: blocks_def\<close>)
  have "decrypt_aes aes e input cap = (if length input > cap then Fail else case blocks of None \<Rightarrow> Fail | Some b \<Rightarrow> into cap (b @ drop n input))"
    by (simp only: decrypt_aes_def blocks_def n_def Let_def)
  then show ?thesis using n len by (cases blocks) (auto simp: into_def)
qed

lemma decrypt_rtp_outcome:
  assumes "open_ok L" "cbc_ok aes"
  shows "outcome (\<lambda>m. length m \<le> cap \<and> length m \<le> length input) (audio_crypto_decrypt_rtp L aes e input cap full)"
proof (cases "ae_type e")
  case AUDIO_ENCRYPT_AES_CBC
  with decrypt_aes_outcome [OF assms(2), of input cap e] show ?thesis
    by (auto simp: audio_crypto_decrypt_rtp_def elim: outcome_mono)
next
  case AUDIO_ENCRYPT_CHACHA20_POLY1305
  let ?c = "take (length input - 8) input"
  have "outcome (\<lambda>m. length m \<le> cap \<and> length m \<le> length input) (open_into L k n a ?c cap)"
    if "length input - 8 - ABYTES \<le> cap" for k n a
    by (rule outcome_mono [OF open_into_outcome [OF assms(1)]]) (use that in auto)
  then show ?thesis using AUDIO_ENCRYPT_CHACHA20_POLY1305
    by (auto simp: audio_crypto_decrypt_rtp_def slice_def Let_def ABYTES_def not_less)
qed (auto simp: audio_crypto_decrypt_rtp_def into_def)

lemma decrypt_buffered_outcome:
  assumes "open_ok L"
  shows "outcome (\<lambda>m. length m \<le> cap \<and> length m + 12 \<le> length packet) (audio_crypto_decrypt_buffered L e packet cap)"
proof (cases "ae_type e = AUDIO_ENCRYPT_CHACHA20_POLY1305")
  case True
  let ?c = "take (length packet - 20) (drop 12 packet)"
  have "outcome (\<lambda>m. length m \<le> cap \<and> length m + 12 \<le> length packet) (open_into L k n a ?c cap)"
    if "length packet - 20 \<le> cap + ABYTES" "36 \<le> length packet" for k n a
    by (rule outcome_mono [OF open_into_outcome [OF assms]]) (use that in \<open>auto simp: ABYTES_def\<close>)
  then show ?thesis using True
    by (auto simp: audio_crypto_decrypt_buffered_def slice_def Let_def not_less)
qed (auto simp: audio_crypto_decrypt_buffered_def slice_def into_def)

section \<open>What the sender sealed is what comes out\<close>

text \<open>
  A packet of an AirPlay 2 sender: the RTP header of 12 bytes, the payload sealed under the nonce with the timestamp and the source of the header as
  additional data, and the last eight bytes of the nonce.
\<close>

definition seal_packet :: "crypto_lib \<Rightarrow> bytes \<Rightarrow> bytes \<Rightarrow> bytes \<Rightarrow> bytes \<Rightarrow> bytes" where
  "seal_packet L key header nonce8 payload = header @ cl_seal L key (replicate 4 0 @ nonce8) (drop 4 header) payload @ nonce8"

lemma decrypt_buffered_seal:
  assumes "aead_ok L" "ae_type e = AUDIO_ENCRYPT_CHACHA20_POLY1305" "length header = 12" "length nonce8 = 8" "length payload \<le> cap"
  shows "audio_crypto_decrypt_buffered L e (seal_packet L (ae_key e) header nonce8 payload) cap = Done payload"
proof -
  let ?c = "cl_seal L (ae_key e) (replicate 4 0 @ nonce8) (drop 4 header) payload"
  have c: "length ?c = length payload + 16" "cl_open L (ae_key e) (replicate 4 0 @ nonce8) (drop 4 header) ?c = Some payload"
    using assms(1) by (simp_all add: aead_ok_def)
  have h: "take 8 (drop 4 header) = drop 4 header" using assms(3) by simp
  show ?thesis using assms c h
    by (simp add: audio_crypto_decrypt_buffered_def seal_packet_def slice_def Let_def ABYTES_def open_into_def into_def)
qed

lemma decrypt_rtp_seal:
  assumes "aead_ok L" "ae_type e = AUDIO_ENCRYPT_CHACHA20_POLY1305" "length header = 12" "length nonce8 = 8" "length payload \<le> cap"
  shows "audio_crypto_decrypt_rtp L aes e (drop 12 (seal_packet L (ae_key e) header nonce8 payload)) cap (seal_packet L (ae_key e) header nonce8 payload) = Done payload"
proof -
  let ?c = "cl_seal L (ae_key e) (replicate 4 0 @ nonce8) (drop 4 header) payload"
  have c: "length ?c = length payload + 16" "cl_open L (ae_key e) (replicate 4 0 @ nonce8) (drop 4 header) ?c = Some payload"
    using assms(1) by (simp_all add: aead_ok_def)
  have h: "take 8 (drop 4 header) = drop 4 header" using assms(3) by simp
  show ?thesis using assms c h
    by (simp add: audio_crypto_decrypt_rtp_def seal_packet_def slice_def Let_def ABYTES_def open_into_def into_def)
qed

lemma demo_lib_open_ok: "open_ok demo_lib"
  by (auto simp: open_ok_def demo_lib_def ABYTES_def split: if_splits)

end
