(* ===== verification/Audio_Streams.thy ===== *)
theory Audio_Streams
  imports Audio_Decoder Audio_Crypto Socket Framing Audio_Receiver
begin

text \<open>
  The tasks that bring packets to the receiver. A buffered stream (\<open>main/audio/audio_stream_buffered.c\<close>) is a TCP connection of packets with a length in
  front; a realtime stream (\<open>main/audio/audio_stream_realtime.c\<close>) is a UDP socket of RTP packets with a second socket for time anchors and
  retransmissions. Both decrypt a packet and hand it to \<open>audio_stream_process_frame\<close>, which is put together here from the gates and the queue of
  \<open>Audio_Receiver\<close> and the decoders of \<open>Audio_Decoder\<close>. The state of a stream is the receiver with its decoder, key and
  buffers; datagrams that are sent are collected.
\<close>

section \<open>The model\<close>

definition MAX_RTP_PACKET_SIZE :: nat where "MAX_RTP_PACKET_SIZE = 2048"
definition DECRYPT_BUFFER_SIZE :: nat where "DECRYPT_BUFFER_SIZE = 8192"
definition BUFFERED_AUDIO_PACKET_SIZE :: nat where "BUFFERED_AUDIO_PACKET_SIZE = 8192"
definition RTP_HEADER_SIZE :: nat where "RTP_HEADER_SIZE = 12"
definition RESEND_ERROR_BACKOFF_US :: int where "RESEND_ERROR_BACKOFF_US = 100000"
definition MAX_RESEND_GAP :: int where "MAX_RESEND_GAP = 100"

text \<open>
  \<open>ss_decrypt\<close> is the size of the decryption buffer, if it was allocated, \<open>ss_packet\<close> the buffer packets are received into, with what an earlier packet
  left in it. \<open>ss_nacks\<close> are the datagrams sent to the control port of the sender, \<open>ss_loopback\<close> those sent to the own data socket.
\<close>

record stream_state =
  ss_rx :: audio_receiver
  ss_decoder :: "audio_decoder option"
  ss_encrypt :: audio_encrypt
  ss_decrypt :: "nat option"
  ss_packet :: bytes
  ss_data_socket :: bool
  ss_control_socket :: bool
  ss_last_resend_error_time_us :: int
  ss_nacks :: "bytes list"
  ss_loopback :: "bytes list"

text \<open>What lies outside: the crypto library, AES, the codecs, and the outcomes of allocations.\<close>

record stream_env =
  se_lib :: crypto_lib
  se_aes :: aes_cbc
  se_codec :: codec_lib
  se_mem :: "nat \<Rightarrow> bool"

definition on_receiver :: "(audio_receiver \<Rightarrow> audio_receiver) \<Rightarrow> stream_state \<Rightarrow> stream_state" where
  "on_receiver f st = st\<lparr>ss_rx := f (ss_rx st)\<rparr>"

definition on_stats :: "(audio_stats \<Rightarrow> audio_stats) \<Rightarrow> stream_state \<Rightarrow> stream_state" where
  "on_stats f = on_receiver (\<lambda>r. r\<lparr>rx_stats := f (rx_stats r)\<rparr>)"

definition count_received :: "stream_state \<Rightarrow> stream_state" where
  "count_received = on_stats (\<lambda>s. s\<lparr>st_packets_received := st_packets_received s + 1\<rparr>)"

definition count_dropped :: "u32 \<Rightarrow> stream_state \<Rightarrow> stream_state" where
  "count_dropped n = on_stats (\<lambda>s. s\<lparr>st_packets_dropped := st_packets_dropped s + n\<rparr>)"

definition count_undecryptable :: "stream_state \<Rightarrow> stream_state" where
  "count_undecryptable st = count_dropped 1 (on_stats (\<lambda>s. s\<lparr>st_decrypt_errors := st_decrypt_errors s + 1\<rparr>) st)"

definition note_packet :: "u16 \<Rightarrow> u32 \<Rightarrow> stream_state \<Rightarrow> stream_state" where
  "note_packet seq timestamp = on_stats (\<lambda>s. s\<lparr>st_last_seq := seq, st_last_timestamp := timestamp\<rparr>)"

definition count_block :: "stream_state \<Rightarrow> stream_state" where
  "count_block = on_receiver (\<lambda>r. r\<lparr>rx_blocks_read := rx_blocks_read r + 1, rx_blocks_read_in_sequence := rx_blocks_read_in_sequence r + 1\<rparr>)"

subsection \<open>One frame\<close>

text \<open>The decoder is only asked when the frame has passed the gates.\<close>

definition decode_frame :: "stream_env \<Rightarrow> u32 \<Rightarrow> bytes \<Rightarrow> stream_state \<Rightarrow> (decoded \<times> audio_decoder option) cres" where
  "decode_frame E timestamp data st =
     (let r = ss_rx st; room = audio_buffer_get_decode_buffer (rx_buffer r) in
      case ss_decoder st of
        None \<Rightarrow> Done (None, None)
      | Some d \<Rightarrow>
          if fst (pass_gates r timestamp) \<and> rx_has_decoder r \<and> room \<noteq> 0
          then cbind (audio_decoder_decode (se_codec E) (se_mem E) d data room) (\<lambda>(decoded, d). Done (decoded, Some d))
          else Done (None, Some d))"

definition process_frame :: "stream_env \<Rightarrow> u32 \<Rightarrow> bytes \<Rightarrow> stream_state \<Rightarrow> (bool \<times> stream_state) cres" where
  "process_frame E timestamp data st =
     cbind (decode_frame E timestamp data st) (\<lambda>(decoded, d).
     cbind (audio_stream_process_frame (audio_decoder_is_aac d) (ss_rx st) timestamp decoded) (\<lambda>(ok, r).
       Done (ok, st\<lparr>ss_rx := r, ss_decoder := d\<rparr>)))"

text \<open>A frame that is not taken counts as dropped.\<close>

definition deliver :: "stream_env \<Rightarrow> u32 \<Rightarrow> bytes \<Rightarrow> stream_state \<Rightarrow> stream_state cres" where
  "deliver E timestamp data st = cbind (process_frame E timestamp data st) (\<lambda>(ok, st). Done (if ok then st else count_dropped 1 st))"

definition nctoh32 :: "bytes \<Rightarrow> nat \<Rightarrow> u32 cres" where
  "nctoh32 data i = cbind (be_bytes data i 4 0) (\<lambda>v. Done (ucast v))"

definition nctoh64 :: "bytes \<Rightarrow> nat \<Rightarrow> u64 cres" where
  "nctoh64 data i = be_bytes data i 8 0"

definition ntohs_at :: "bytes \<Rightarrow> nat \<Rightarrow> u16 cres" where
  "ntohs_at data i = cbind (be_bytes data i 2 0) (\<lambda>v. Done (ucast v))"

subsection \<open>Buffered streams\<close>

text \<open>A timeout is only waited out while playback is paused.\<close>

definition read_exact :: "bool \<Rightarrow> sock \<Rightarrow> nat \<Rightarrow> bytes option \<times> sock" where
  "read_exact playing s n = recv_loop (\<lambda>e. (e = EAGAIN \<or> e = EWOULDBLOCK) \<and> \<not> playing) s n []"

definition handle_packet :: "stream_env \<Rightarrow> bytes \<Rightarrow> stream_state \<Rightarrow> stream_state cres" where
  "handle_packet E packet st =
     (let buf = packet @ drop (length packet) (ss_packet st); st = count_received (st\<lparr>ss_packet := buf\<rparr>) in
      cbind (ntohs_at buf 2) (\<lambda>seq.
      cbind (nctoh32 buf 4) (\<lambda>timestamp.
        let decrypt_capacity = (case ss_decrypt st of Some n \<Rightarrow> n | None \<Rightarrow> if length packet > 12 then length packet - 12 else 0) in
        case audio_crypto_decrypt_buffered (se_lib E) (ss_encrypt st) packet decrypt_capacity of
          Fault \<Rightarrow> Fault
        | Fail \<Rightarrow> Done (count_undecryptable st)
        | Done decrypted \<Rightarrow> deliver E timestamp decrypted (count_block (note_packet seq timestamp st)))))"

text \<open>
  One turn of the receive loop. With a nearly full buffer it does not read, so that TCP slows the sender down; a connection that fails or announces a packet of an impossible
  length is given up.
\<close>

datatype flow = Stalled | Ended | Continues

definition data_len :: "bytes \<Rightarrow> nat" where
  "data_len len_buf = unat (len_buf ! 0) * 256 + unat (len_buf ! 1)"

definition buffered_round :: "stream_env \<Rightarrow> sock \<Rightarrow> stream_state \<Rightarrow> (flow \<times> sock \<times> stream_state) cres" where
  "buffered_round E s st =
     (let playing = tm_playing (rx_timing (ss_rx st)) in
      if audio_buffer_is_nearly_full (rx_buffer (ss_rx st)) then Done (Stalled, s, st)
      else case read_exact playing s 2 of
          (None, s) \<Rightarrow> Done (Ended, s, st)
        | (Some len_buf, s) \<Rightarrow>
            if data_len len_buf < 2 \<or> data_len len_buf > BUFFERED_AUDIO_PACKET_SIZE then Done (Ended, s, st)
            else (case read_exact playing s (data_len len_buf - 2) of
                (None, s) \<Rightarrow> Done (Ended, s, st)
              | (Some packet, s) \<Rightarrow> cbind (handle_packet E packet st) (\<lambda>st. Done (Continues, s, st))))"

lemma read_exact_Some: "read_exact playing s n = (Some bs, s') \<Longrightarrow> length bs = n \<and> input_size s' \<le> input_size s \<and> (0 < n \<longrightarrow> input_size s' < input_size s)"
  unfolding read_exact_def by (drule recv_loop_Some) auto

lemma buffered_round_consumes: "buffered_round E s st = Done (Continues, s', st') \<Longrightarrow> input_size s' < input_size s"
  by (auto simp: buffered_round_def Let_def cbind_eq_Done split: if_splits prod.splits option.splits dest!: read_exact_Some)

function buffered_loop :: "stream_env \<Rightarrow> sock \<Rightarrow> stream_state \<Rightarrow> (flow \<times> sock \<times> stream_state) cres" where
  "buffered_loop E s st =
     (case buffered_round E s st of
        Fault \<Rightarrow> Fault
      | Fail \<Rightarrow> Fail
      | Done (Continues, s, st) \<Rightarrow> buffered_loop E s st
      | Done (flow, s, st) \<Rightarrow> Done (flow, s, st))"
  by pat_completeness auto
termination
  by (relation "measure (\<lambda>(E, s, st). input_size s)") (auto dest: buffered_round_consumes)

declare buffered_loop.simps [simp del]

subsection \<open>Realtime streams\<close>

text \<open>Sequence number, timestamp and the length of the header of an RTP packet; \<open>Fail\<close> when the packet is not accepted.\<close>

definition parse_rtp :: "bytes \<Rightarrow> (u16 \<times> u32 \<times> nat) cres" where
  "parse_rtp packet =
     (if length packet < RTP_HEADER_SIZE then Fail
      else
        cbind (rd packet 0) (\<lambda>flags.
        if drop_bit 6 flags AND 3 \<noteq> 2 then Fail
        else
          cbind (ntohs_at packet 2) (\<lambda>seq.
          cbind (nctoh32 packet 4) (\<lambda>timestamp.
          cbind (if flags AND 0x10 \<noteq> 0 then
                   if length packet < RTP_HEADER_SIZE + 4 then Fail
                   else cbind (ntohs_at packet (RTP_HEADER_SIZE + 2)) (\<lambda>ext_len. Done (RTP_HEADER_SIZE + 4 + unat ext_len * 4))
                 else Done RTP_HEADER_SIZE) (\<lambda>header_len.
            let header_len = header_len + unat (flags AND 0x0F) * 4 in
            if length packet \<le> header_len then Fail else Done (seq, timestamp, header_len))))))"

definition nack :: "u16 \<Rightarrow> u16 \<Rightarrow> bytes" where
  "nack first_seq count = [0x80, 0xD5] @ be16 (count - 1) @ be16 first_seq @ be16 count"

definition send_resend_request :: "int \<Rightarrow> bool \<Rightarrow> u16 \<Rightarrow> u16 \<Rightarrow> stream_state \<Rightarrow> stream_state" where
  "send_resend_request now sent first_seq count st =
     (if \<not> rx_retransmit_enabled (ss_rx st) \<or> \<not> ss_control_socket st then st
      else if ss_last_resend_error_time_us st > 0 \<and> now - ss_last_resend_error_time_us st < RESEND_ERROR_BACKOFF_US then st
      else if sent then st\<lparr>ss_nacks := ss_nacks st @ [nack first_seq count], ss_last_resend_error_time_us := 0\<rparr>
      else st\<lparr>ss_last_resend_error_time_us := now\<rparr>)"

text \<open>Gaps in the sequence numbers; a gap below \<open>MAX_RESEND_GAP\<close> is asked for.\<close>

definition track_sequence :: "int \<Rightarrow> bool \<Rightarrow> u16 \<Rightarrow> u32 \<Rightarrow> stream_state \<Rightarrow> stream_state" where
  "track_sequence now sent seq timestamp st =
     (let stats = rx_stats (ss_rx st); expected_seq = st_last_seq stats + 1; gap = uint seq - uint expected_seq;
          gap = (if gap < 0 then gap + 65536 else gap);
          st = (if st_packets_decoded stats > 0 \<and> seq \<noteq> expected_seq \<and> gap > 0 \<and> gap < MAX_RESEND_GAP
                then send_resend_request now sent expected_seq (of_int gap) (count_dropped (of_int gap) st) else st) in
      note_packet seq timestamp st)"

text \<open>The payload decrypted, if the stream has a key, into the decryption buffer.\<close>

definition realtime_payload :: "stream_env \<Rightarrow> bytes \<Rightarrow> nat \<Rightarrow> stream_state \<Rightarrow> bytes cres" where
  "realtime_payload E rtp header_len st =
     (case ss_decrypt st of
        Some room \<Rightarrow>
          if ae_type (ss_encrypt st) \<noteq> AUDIO_ENCRYPT_NONE
          then cbind (audio_crypto_decrypt_rtp (se_lib E) (se_aes E) (ss_encrypt st) (drop header_len rtp) MAX_RTP_PACKET_SIZE rtp)
                 (\<lambda>m. if length m \<le> room then Done m else Fault)
          else Done (drop header_len rtp)
      | None \<Rightarrow> Done (drop header_len rtp))"

definition receive_rtp :: "stream_env \<Rightarrow> int \<Rightarrow> bool \<Rightarrow> bool \<Rightarrow> bytes \<Rightarrow> stream_state \<Rightarrow> stream_state cres" where
  "receive_rtp E now sent is_retransmit rtp st =
     (case parse_rtp rtp of
        Fault \<Rightarrow> Fault
      | Fail \<Rightarrow> Done (count_dropped 1 st)
      | Done (seq, timestamp, header_len) \<Rightarrow>
          let st = count_block (if is_retransmit then st else track_sequence now sent seq timestamp st) in
          (case realtime_payload E rtp header_len st of
             Fault \<Rightarrow> Fault
           | Fail \<Rightarrow> Done (count_undecryptable st)
           | Done audio \<Rightarrow> deliver E timestamp audio st))"

text \<open>What a call of \<open>recvfrom\<close> brings.\<close>

datatype datagram = Timeout | Recv_error | Datagram bytes

definition realtime_receive_packet :: "stream_env \<Rightarrow> int \<Rightarrow> bool \<Rightarrow> datagram \<Rightarrow> stream_state \<Rightarrow> (bool \<times> stream_state) cres" where
  "realtime_receive_packet E now sent dg st =
     (case dg of
        Timeout \<Rightarrow> Done (True, st)
      | Recv_error \<Rightarrow> Done (False, st)
      | Datagram data \<Rightarrow>
          let packet = take MAX_RTP_PACKET_SIZE data in
          if packet = [] then Done (True, st)
          else
            let st = count_received st in
            cbind (if length packet \<ge> 16 then cbind (rd packet 1) (\<lambda>b. Done (b = 0x56)) else Done False) (\<lambda>is_retransmit.
            cbind (receive_rtp E now sent is_retransmit (if is_retransmit then drop 4 packet else packet) st) (\<lambda>st. Done (True, st))))"

subsection \<open>The control socket\<close>

definition ntp_ns :: "u64 \<Rightarrow> u64 \<Rightarrow> u64" where
  "ntp_ns secs frac = secs * 1000000000 + drop_bit 32 (frac * 1000000000)"

definition set_anchor :: "u32 \<Rightarrow> int \<Rightarrow> u64 \<Rightarrow> u64 \<Rightarrow> u32 \<Rightarrow> stream_state \<Rightarrow> stream_state cres" where
  "set_anchor now_ms now_us clock_id network_time_ns rtp st =
     cbind (audio_receiver_set_anchor_time now_ms now_us clock_id network_time_ns rtp (ss_rx st)) (\<lambda>r. Done (st\<lparr>ss_rx := r\<rparr>))"

definition control_packet :: "u32 \<Rightarrow> int \<Rightarrow> bytes \<Rightarrow> stream_state \<Rightarrow> stream_state cres" where
  "control_packet now_ms now_us data st =
     (let packet = take MAX_RTP_PACKET_SIZE data; len = length packet in
      if len < 2 then Done st
      else
        cbind (rd packet 1) (\<lambda>packet_type.
          if packet_type = 0xD4 \<or> packet_type = 0x54 then
            if len \<ge> 20 then
              cbind (nctoh32 packet 4) (\<lambda>rtp. cbind (nctoh32 packet 8) (\<lambda>secs. cbind (nctoh32 packet 12) (\<lambda>frac.
                set_anchor now_ms now_us 0 (ntp_ns (ucast secs) (ucast frac)) rtp st)))
            else Done st
          else if packet_type = 0xD7 then
            if len \<ge> 28 then
              cbind (nctoh32 packet 4) (\<lambda>frame_1. cbind (nctoh64 packet 8) (\<lambda>ns. cbind (nctoh64 packet 20) (\<lambda>clock_id.
                set_anchor now_ms now_us clock_id ns frame_1 st)))
            else Done st
          else if packet_type = 0xD6 then
            if len < 8 \<or> \<not> ss_data_socket st then Done st
            else Done (st\<lparr>ss_loopback := ss_loopback st @ [packet[1 := 0x56]]\<rparr>)
          else Done st))"

section \<open>No packet harms the receiver\<close>

definition stream_inv :: "stream_state \<Rightarrow> bool" where
  "stream_inv st \<longleftrightarrow> rx_inv (ss_rx st) \<and> length (ss_packet st) = BUFFERED_AUDIO_PACKET_SIZE \<and> (\<forall>n. ss_decrypt st = Some n \<longrightarrow> n = DECRYPT_BUFFER_SIZE)"

definition se_ok :: "stream_env \<Rightarrow> bool" where
  "se_ok E \<longleftrightarrow> open_ok (se_lib E) \<and> cbc_ok (se_aes E) \<and> codec_ok (se_codec E)"

text \<open>A step that leaves the buffers and the scheduler of the stream in order.\<close>

definition stream_keeps :: "stream_state \<Rightarrow> stream_state cres \<Rightarrow> bool" where
  "stream_keeps st c \<longleftrightarrow> (\<exists>st'. c = Done st' \<and> stream_inv st' \<and> rx_timing (ss_rx st') = rx_timing (ss_rx st))"

lemma stream_keepsI: "c = Done st' \<Longrightarrow> stream_inv st' \<Longrightarrow> rx_timing (ss_rx st') = rx_timing (ss_rx st) \<Longrightarrow> stream_keeps st c"
  by (auto simp: stream_keeps_def)

lemma stream_keeps_shift: "stream_keeps st1 c \<Longrightarrow> rx_timing (ss_rx st1) = rx_timing (ss_rx st) \<Longrightarrow> stream_keeps st c"
  by (auto simp: stream_keeps_def)

lemma counters_keep [simp]:
  "stream_inv (count_received st) = stream_inv st" "stream_inv (count_dropped n st) = stream_inv st" "stream_inv (count_undecryptable st) = stream_inv st"
  "stream_inv (note_packet seq ts st) = stream_inv st" "stream_inv (count_block st) = stream_inv st"
  "rx_timing (ss_rx (count_received st)) = rx_timing (ss_rx st)" "rx_timing (ss_rx (count_dropped n st)) = rx_timing (ss_rx st)"
  "rx_timing (ss_rx (count_undecryptable st)) = rx_timing (ss_rx st)" "rx_timing (ss_rx (note_packet seq ts st)) = rx_timing (ss_rx st)"
  "rx_timing (ss_rx (count_block st)) = rx_timing (ss_rx st)"
  by (simp_all add: stream_inv_def rx_inv_def count_received_def count_dropped_def count_undecryptable_def note_packet_def count_block_def on_stats_def on_receiver_def)

lemma decode_frame_ok:
  assumes "se_ok E"
  shows "\<exists>decoded d. decode_frame E ts data st = Done (decoded, d) \<and> decoder_ok decoded"
proof (cases "ss_decoder st")
  case (Some d)
  let ?room = "audio_buffer_get_decode_buffer (rx_buffer (ss_rx st))"
  obtain x d' where "audio_decoder_decode (se_codec E) (se_mem E) d data ?room = Done (x, d')" "decoder_ok x"
    using decode_fits [of "se_codec E" "se_mem E" d data ?room] assms by (auto simp: se_ok_def block_fits_def)
  then show ?thesis using Some by (auto simp: decode_frame_def Let_def decoder_ok_def)
qed (simp add: decode_frame_def decoder_ok_def)

lemma audio_stream_process_frame_timing:
  "audio_stream_process_frame is_aac r ts decoded = Done (ok, r') \<Longrightarrow> rx_timing r' = rx_timing r"
  by (auto simp: audio_stream_process_frame_def Let_def cbind_eq_Done split: prod.splits bool.splits if_splits option.splits dest: pass_gates_fields)

lemma process_frame_ok:
  assumes "stream_inv st" "se_ok E"
  shows "\<exists>ok st'. process_frame E ts data st = Done (ok, st') \<and> stream_inv st' \<and> rx_timing (ss_rx st') = rx_timing (ss_rx st)"
proof -
  obtain decoded d where d: "decode_frame E ts data st = Done (decoded, d)" "decoder_ok decoded" using decode_frame_ok [OF assms(2)] by blast
  have "rx_inv (ss_rx st)" using assms(1) by (simp add: stream_inv_def)
  from process_frame_inv [OF this d(2), of "audio_decoder_is_aac d" ts] obtain ok r where
    r: "audio_stream_process_frame (audio_decoder_is_aac d) (ss_rx st) ts decoded = Done (ok, r)" "rx_inv r" by blast
  then show ?thesis using d assms(1) audio_stream_process_frame_timing [OF r(1)] by (auto simp: process_frame_def stream_inv_def)
qed

lemma deliver_keeps: "stream_inv st \<Longrightarrow> se_ok E \<Longrightarrow> stream_keeps st (deliver E ts data st)"
  using process_frame_ok [of st E ts data] by (auto simp: deliver_def stream_keeps_def)

lemma header_reads:
  "i + 4 \<le> length bs \<Longrightarrow> \<exists>v. nctoh32 bs i = Done v" "i + 8 \<le> length bs \<Longrightarrow> \<exists>v. nctoh64 bs i = Done v" "i + 2 \<le> length bs \<Longrightarrow> \<exists>v. ntohs_at bs i = Done v"
  using be_bytes_safe [of i 4 bs 0] be_bytes_safe [of i 8 bs 0] be_bytes_safe [of i 2 bs 0] by (auto simp: nctoh32_def nctoh64_def ntohs_at_def)

lemma handle_packet_keeps:
  assumes "stream_inv st" "se_ok E" "length packet \<le> 8190"
  shows "stream_keeps st (handle_packet E packet st)"
proof -
  define buf where "buf = packet @ drop (length packet) (ss_packet st)"
  define st1 where "st1 = count_received (st\<lparr>ss_packet := buf\<rparr>)"
  have buf: "length buf = 8192" using assms(1,3) by (simp add: buf_def stream_inv_def BUFFERED_AUDIO_PACKET_SIZE_def)
  have st1: "stream_inv st1" "rx_timing (ss_rx st1) = rx_timing (ss_rx st)"
    using assms(1) buf by (simp_all add: st1_def) (simp add: stream_inv_def BUFFERED_AUDIO_PACKET_SIZE_def)
  obtain seq ts where h: "ntohs_at buf 2 = Done seq" "nctoh32 buf 4 = Done ts" using header_reads(3) [of 2 buf] header_reads(1) [of 4 buf] buf by auto
  define cap where "cap = (case ss_decrypt st1 of Some n \<Rightarrow> n | None \<Rightarrow> if length packet > 12 then length packet - 12 else 0)"
  have eq: "handle_packet E packet st = (case audio_crypto_decrypt_buffered (se_lib E) (ss_encrypt st1) packet cap of
        Fault \<Rightarrow> Fault | Fail \<Rightarrow> Done (count_undecryptable st1) | Done decrypted \<Rightarrow> deliver E ts decrypted (count_block (note_packet seq ts st1)))"
    unfolding handle_packet_def Let_def buf_def [symmetric] st1_def [symmetric] cap_def [symmetric] using h by simp
  show ?thesis
  proof (cases "audio_crypto_decrypt_buffered (se_lib E) (ss_encrypt st1) packet cap")
    case Fault
    then show ?thesis using decrypt_buffered_outcome [of "se_lib E" cap packet "ss_encrypt st1"] assms(2) by (simp add: se_ok_def)
  next
    case Fail
    then show ?thesis using st1 by (intro stream_keepsI [of _ "count_undecryptable st1"]) (simp_all add: eq)
  next
    case (Done m)
    have "stream_keeps (count_block (note_packet seq ts st1)) (deliver E ts m (count_block (note_packet seq ts st1)))"
      using st1 assms(2) by (intro deliver_keeps) simp_all
    then show ?thesis using Done st1 by (auto simp: eq intro: stream_keeps_shift)
  qed
qed

lemma buffered_round_cases:
  obtains (stalled) "audio_buffer_is_nearly_full (rx_buffer (ss_rx st))" "buffered_round E s st = Done (Stalled, s, st)"
  | (ended) s' where "buffered_round E s st = Done (Ended, s', st)"
  | (packet) packet s' where "length packet \<le> 8190" "buffered_round E s st = cbind (handle_packet E packet st) (\<lambda>st. Done (Continues, s', st))"
proof (cases "audio_buffer_is_nearly_full (rx_buffer (ss_rx st))")
  case False
  let ?p = "tm_playing (rx_timing (ss_rx st))"
  obtain lb s1 where r1: "read_exact ?p s 2 = (lb, s1)" by fastforce
  show ?thesis
  proof (cases lb)
    case (Some b)
    define n where "n = data_len b"
    show ?thesis
    proof (cases "n < 2 \<or> n > 8192")
      case False
      obtain pk s2 where r2: "read_exact ?p s1 (n - 2) = (pk, s2)" by fastforce
      show ?thesis
      proof (cases pk)
        case (Some packet)
        then have "length packet \<le> 8190" using read_exact_Some [of ?p s1 "n - 2" packet s2] r2 False by (simp del: length_greater_0_conv) linarith
        moreover have "buffered_round E s st = cbind (handle_packet E packet st) (\<lambda>st. Done (Continues, s2, st))"
          using \<open>\<not> audio_buffer_is_nearly_full _\<close> r1 r2 \<open>lb = Some b\<close> Some False
          by (simp add: buffered_round_def n_def [symmetric] BUFFERED_AUDIO_PACKET_SIZE_def Let_def)
        ultimately show ?thesis by (rule packet)
      qed (use \<open>\<not> audio_buffer_is_nearly_full _\<close> r1 r2 \<open>lb = Some b\<close> False ended in
          \<open>simp add: buffered_round_def n_def [symmetric] BUFFERED_AUDIO_PACKET_SIZE_def Let_def\<close>)
    qed (use \<open>\<not> audio_buffer_is_nearly_full _\<close> r1 Some ended in \<open>simp add: buffered_round_def n_def [symmetric] BUFFERED_AUDIO_PACKET_SIZE_def Let_def\<close>)
  qed (use False r1 ended in \<open>simp add: buffered_round_def Let_def\<close>)
qed (use stalled in \<open>simp add: buffered_round_def Let_def\<close>)

lemma buffered_round_ok:
  assumes "stream_inv st" "se_ok E"
  shows "\<exists>flow s' st'. buffered_round E s st = Done (flow, s', st') \<and> stream_inv st' \<and> rx_timing (ss_rx st') = rx_timing (ss_rx st)"
proof (cases rule: buffered_round_cases [where E = E and s = s and st = st])
  case (packet packet s')
  from handle_packet_keeps [OF assms packet(1)] obtain st' where "handle_packet E packet st = Done st'" "stream_inv st'" "rx_timing (ss_rx st') = rx_timing (ss_rx st)"
    by (auto simp: stream_keeps_def)
  then show ?thesis using packet(2) by simp
qed (use assms(1) in auto)

lemma buffered_loop_ok:
  assumes "stream_inv st" "se_ok E"
  shows "\<exists>flow s' st'. buffered_loop E s st = Done (flow, s', st') \<and> stream_inv st'"
  using assms(1)
proof (induction "input_size s" arbitrary: s st rule: less_induct)
  case less
  obtain flow s' st' where r: "buffered_round E s st = Done (flow, s', st')" "stream_inv st'" using buffered_round_ok [OF less.prems assms(2)] by blast
  show ?case
  proof (cases "flow = Continues")
    case True
    with less.hyps [OF buffered_round_consumes [of E s st s' st'] r(2)] r show ?thesis by (subst buffered_loop.simps) simp
  next
    case False
    then show ?thesis using r by (subst buffered_loop.simps) (cases flow; simp)
  qed
qed

lemma send_resend_keeps [simp]:
  "stream_inv (send_resend_request now sent seq n st) = stream_inv st" "rx_timing (ss_rx (send_resend_request now sent seq n st)) = rx_timing (ss_rx st)"
  "ss_rx (send_resend_request now sent seq n st) = ss_rx st" "ss_decrypt (send_resend_request now sent seq n st) = ss_decrypt st"
  by (simp_all add: send_resend_request_def stream_inv_def)

lemma track_keeps [simp]:
  "stream_inv (track_sequence now sent seq ts st) = stream_inv st" "rx_timing (ss_rx (track_sequence now sent seq ts st)) = rx_timing (ss_rx st)"
  by (simp_all add: track_sequence_def Let_def)

lemma parse_rtp_safe: "outcome (\<lambda>(seq, ts, header_len). 12 \<le> header_len \<and> header_len < length packet) (parse_rtp packet)"
proof (cases "length packet < 12")
  case False
  then obtain seq ts where h: "ntohs_at packet 2 = Done seq" "nctoh32 packet 4 = Done ts"
    using header_reads(3) [of 2 packet] header_reads(1) [of 4 packet] by auto
  have "\<exists>v. ntohs_at packet 14 = Done v" if "\<not> length packet < 16" using that header_reads(3) [of 14 packet] by simp
  then show ?thesis using False h by (auto simp: parse_rtp_def RTP_HEADER_SIZE_def rd_def Let_def)
qed (simp add: parse_rtp_def RTP_HEADER_SIZE_def)

lemma receive_rtp_keeps:
  assumes "stream_inv st" "se_ok E"
  shows "stream_keeps st (receive_rtp E now sent re rtp st)"
proof (cases "parse_rtp rtp")
  case Fault
  then show ?thesis using parse_rtp_safe [of rtp] by simp
next
  case Fail
  then show ?thesis using assms(1) by (intro stream_keepsI [of _ "count_dropped 1 st"]) (simp_all add: receive_rtp_def)
next
  case (Done h)
  obtain seq ts n where h: "h = (seq, ts, n)" by (rule prod_cases3)
  define st1 where "st1 = count_block (if re then st else track_sequence now sent seq ts st)"
  have st1: "stream_inv st1" "rx_timing (ss_rx st1) = rx_timing (ss_rx st)" using assms(1) by (simp_all add: st1_def)
  have eq: "receive_rtp E now sent re rtp st = (case realtime_payload E rtp n st1 of Fault \<Rightarrow> Fault | Fail \<Rightarrow> Done (count_undecryptable st1) | Done audio \<Rightarrow> deliver E ts audio st1)"
    by (simp only: receive_rtp_def Done h cres.case prod.case Let_def st1_def)
  have "realtime_payload E rtp n st1 \<noteq> Fault"
  proof -
    have "outcome (\<lambda>m. length m \<le> 2048) (audio_crypto_decrypt_rtp (se_lib E) (se_aes E) (ss_encrypt st1) (drop n rtp) 2048 rtp)"
      using assms(2) by (intro outcome_mono [OF decrypt_rtp_outcome]) (auto simp: se_ok_def)
    then show ?thesis using st1(1)
      by (cases "audio_crypto_decrypt_rtp (se_lib E) (se_aes E) (ss_encrypt st1) (drop n rtp) 2048 rtp")
        (auto simp: realtime_payload_def MAX_RTP_PACKET_SIZE_def stream_inv_def DECRYPT_BUFFER_SIZE_def split: option.split)
  qed
  then show ?thesis using st1 assms(2) deliver_keeps [OF st1(1) assms(2), THEN stream_keeps_shift]
    by (cases "realtime_payload E rtp n st1") (auto simp: eq intro!: stream_keepsI [of _ "count_undecryptable st1"])
qed

lemma realtime_ok:
  assumes "stream_inv st" "se_ok E"
  shows "\<exists>go st'. realtime_receive_packet E now sent dg st = Done (go, st') \<and> stream_inv st'"
proof (cases dg)
  case (Datagram data)
  let ?p = "take MAX_RTP_PACKET_SIZE data"
  have "\<exists>re. (if length ?p \<ge> 16 then cbind (rd ?p 1) (\<lambda>b. Done (b = 0x56)) else Done False) = Done re" by (auto simp: rd_def)
  then obtain re where re: "(if length ?p \<ge> 16 then cbind (rd ?p 1) (\<lambda>b. Done (b = 0x56)) else Done False) = Done re" by blast
  have "stream_keeps (count_received st) (receive_rtp E now sent re (if re then drop 4 ?p else ?p) (count_received st))"
    using assms by (intro receive_rtp_keeps) simp_all
  then show ?thesis using Datagram assms(1) unfolding realtime_receive_packet_def Let_def by (auto simp only: datagram.case re cbind.simps stream_keeps_def split: if_split) (auto)
qed (use assms(1) in \<open>auto simp: realtime_receive_packet_def\<close>)

lemma set_anchor_ok: "stream_inv st \<Longrightarrow> \<exists>st'. set_anchor now_ms now_us c ns rtp st = Done st' \<and> stream_inv st'"
  using set_anchor_inv [of "ss_rx st" now_ms now_us c ns rtp] by (auto simp: set_anchor_def rx_keeps_def stream_inv_def)

lemma control_packet_ok:
  assumes "stream_inv st"
  shows "\<exists>st'. control_packet now_ms now_us data st = Done st' \<and> stream_inv st'"
proof -
  define p where "p = take MAX_RTP_PACKET_SIZE data"
  have w: "\<exists>v. nctoh32 p i = Done v" if "i + 4 \<le> length p" for i using header_reads(1) [OF that] .
  have d: "\<exists>v. nctoh64 p i = Done v" if "i + 8 \<le> length p" for i using header_reads(2) [OF that] .
  note a = set_anchor_ok [OF assms]
  consider "length p < 2" | "2 \<le> length p" "p ! 1 = 0xD4 \<or> p ! 1 = 0x54" | "2 \<le> length p" "p ! 1 = 0xD7" | "2 \<le> length p" "p ! 1 \<notin> {0xD4, 0x54, 0xD7}" by fastforce
  then show ?thesis
  proof cases
    case 2
    then show ?thesis using assms w [of 4] w [of 8] w [of 12] a by (cases "20 \<le> length p") (auto simp: control_packet_def p_def [symmetric] rd_def Let_def)
  next
    case 3
    then show ?thesis using assms w [of 4] d [of 8] d [of 20] a by (cases "28 \<le> length p") (auto simp: control_packet_def p_def [symmetric] rd_def Let_def)
  qed (use assms in \<open>auto simp: control_packet_def p_def [symmetric] rd_def Let_def stream_inv_def\<close>)
qed

section \<open>Buffered packets arrive in order\<close>

text \<open>The look of the \<open>framing\<close> locale: a packet behind its length.\<close>

definition buffered_look :: "bytes \<Rightarrow> bytes look" where
  "buffered_look b =
     (if length b < 2 then Wait
      else if data_len b < 2 \<or> data_len b > BUFFERED_AUDIO_PACKET_SIZE then Refuse
      else if length b < data_len b then Wait
      else Msg (take (data_len b - 2) (drop 2 b)) (drop (data_len b) b))"

lemma data_len_append: "2 \<le> length b \<Longrightarrow> data_len (b @ x) = data_len b"
  by (cases b) (auto simp: data_len_def nth_append)

interpretation buffered: framing buffered_look
proof
  fix b m r x
  assume m: "buffered_look b = Msg m r"
  then show "length r < length b" by (auto simp: buffered_look_def split: if_splits)
  from m have "2 \<le> length b" "data_len b \<le> length b" by (auto simp: buffered_look_def split: if_splits)
  with m show "buffered_look (b @ x) = Msg m (r @ x)" by (auto simp: buffered_look_def data_len_append split: if_splits)
next
  fix b x
  assume "buffered_look b = Refuse"
  then show "buffered_look (b @ x) = Refuse" by (auto simp: buffered_look_def data_len_append split: if_splits)
qed

fun packets :: "stream_env \<Rightarrow> bytes list \<Rightarrow> stream_state \<Rightarrow> stream_state cres" where
  "packets E [] st = Done st"
| "packets E (p # ps) st = cbind (handle_packet E p st) (packets E ps)"

text \<open>The connection of a playing stream has no timeouts; while playback is paused they are waited out.\<close>

abbreviation waits :: "stream_state \<Rightarrow> errno \<Rightarrow> bool" where
  "waits st \<equiv> (\<lambda>e. (e = EAGAIN \<or> e = EWOULDBLOCK) \<and> \<not> tm_playing (rx_timing (ss_rx st)))"

lemma round_takes_packet:
  assumes "steady (waits st) s" "buffered_look (stream s) = Msg m rest" "\<not> audio_buffer_is_nearly_full (rx_buffer (ss_rx st))"
  shows "\<exists>s'. buffered_round E s st = cbind (handle_packet E m st) (\<lambda>st. Done (Continues, s', st)) \<and> steady (waits st) s' \<and> stream s' = rest"
proof -
  define n where "n = data_len (stream s)"
  have n: "2 \<le> n" "n \<le> 8192" "n \<le> length (stream s)" "m = take (n - 2) (drop 2 (stream s))" "rest = drop n (stream s)"
    using assms(2) by (auto simp: buffered_look_def n_def BUFFERED_AUDIO_PACKET_SIZE_def split: if_splits)
  then have two: "2 \<le> length (stream s)" by simp
  from recv_loop_stream [OF assms(1), of "[]" 2] two obtain s1 where
    s1: "recv_loop (waits st) s 2 [] = (Some (take 2 (stream s)), s1)" "steady (waits st) s1" "stream s1 = drop 2 (stream s)" by auto
  from recv_loop_stream [OF s1(2), of "[]" "n - 2"] n(1,3) s1(3) obtain s2 where
    s2: "recv_loop (waits st) s1 (n - 2) [] = (Some m, s2)" "steady (waits st) s2" "stream s2 = drop (n - 2 + 2) (stream s)"
    using n(4) by (auto simp: diff_le_mono)
  have "n - 2 + 2 = n" using n(1) by linarith
  then have rest: "stream s2 = rest" using s2(3) n(5) by (simp only:)
  have "data_len (take 2 (stream s)) = n" using data_len_append [of "take 2 (stream s)" "drop 2 (stream s)"] two by (simp add: n_def)
  then have "buffered_round E s st = cbind (handle_packet E m st) (\<lambda>st. Done (Continues, s2, st))"
    using assms(3) s1(1) s2(1) n(1,2) by (simp add: buffered_round_def read_exact_def BUFFERED_AUDIO_PACKET_SIZE_def Let_def)
  then show ?thesis using s2(2) rest by blast
qed

lemma recv_loop_takes: "recv_loop retry s n acc = (Some bs, s') \<Longrightarrow> bs @ stream s' = acc @ stream s"
proof (induction retry s n acc arbitrary: bs s' rule: recv_loop.induct)
  case (1 retry s n acc)
  have recv_got: "stream t = b @ stream t'" if "recv t k = (Got b, t')" for t k b t'
    using that by (auto simp: recv_def stream_def split: list.splits net_event.splits if_splits)
  have recv_failed: "stream t' = stream t" if "recv t k = (Failed, t')" for t k t'
    using that by (auto simp: recv_def stream_def split: list.splits net_event.splits if_splits)
  show ?case
  proof (cases "n \<le> length acc")
    case False
    obtain q s1 where q: "recv s (n - length acc) = (q, s1)" by fastforce
    show ?thesis
    proof (cases q)
      case (Got b)
      have "recv_loop retry s1 n (acc @ b) = (Some bs, s')" using 1(3) False q Got by (subst (asm) recv_loop.simps) simp
      from 1(1) [OF False q [symmetric] Got this] recv_got [OF q [unfolded Got]] show ?thesis by simp
    next
      case Failed
      have "retry (so_errno s1) \<and> recv_loop retry s1 n acc = (Some bs, s')" using 1(3) False q Failed by (subst (asm) recv_loop.simps) (auto split: if_splits)
      with 1(2) [OF False q [symmetric] Failed] recv_failed [OF q [unfolded Failed]] show ?thesis by simp
    qed (use 1(3) False q in \<open>subst (asm) recv_loop.simps, simp\<close>)
  qed (use 1(3) in \<open>auto simp: recv_loop.simps\<close>)
qed

text \<open>Without a whole packet in the stream the loop ends or stalls, and the state of the stream is as before.\<close>

lemma round_without_packet:
  assumes "buffered_look (stream s) = Wait"
  shows "\<exists>flow s'. buffered_round E s st = Done (flow, s', st) \<and> flow \<noteq> Continues"
proof -
  let ?p = "tm_playing (rx_timing (ss_rx st))"
  have none: False if "read_exact ?p s 2 = (Some lb, s1)" "\<not> data_len lb < 2" "\<not> data_len lb > 8192" "read_exact ?p s1 (data_len lb - 2) = (Some pk', s2)" for lb s1 s2 pk'
  proof -
    have l: "length lb = 2" "length pk' = data_len lb - 2" using read_exact_Some that(1,4) by blast+
    have "lb @ stream s1 = stream s" "pk' @ stream s2 = stream s1" using recv_loop_takes that(1,4) by (fastforce simp: read_exact_def)+
    then have st: "stream s = lb @ pk' @ stream s2" by simp
    have "data_len (stream s) = data_len lb" unfolding st using l(1) data_len_append by simp
    moreover have "data_len lb \<le> length (stream s)" using that(2) l by (simp add: st)
    ultimately show False using assms that(2,3) l(1) by (auto simp: buffered_look_def st BUFFERED_AUDIO_PACKET_SIZE_def split: if_splits)
  qed
  then show ?thesis
    by (auto simp: buffered_round_def Let_def BUFFERED_AUDIO_PACKET_SIZE_def split: prod.split option.split dest: none)
qed

lemma loop_takes_packets:
  assumes "drains buffered_look b ms tail" "stream_inv st" "se_ok E" "b = stream s" "steady (waits st) s"
  shows "\<exists>k flow s' st'. k \<le> length ms \<and> packets E (take k ms) st = Done st' \<and> buffered_loop E s st = Done (flow, s', st')
    \<and> (k < length ms \<longrightarrow> flow = Stalled \<and> drains buffered_look (stream s') (drop k ms) tail)"
  using assms
proof (induction arbitrary: s st rule: drains.induct)
  case (stop b)
  with round_without_packet [of s E st] obtain flow s' where r: "buffered_round E s st = Done (flow, s', st)" "flow \<noteq> Continues" by auto
  then have "buffered_loop E s st = Done (flow, s', st)" by (subst buffered_loop.simps) (cases flow; simp)
  then show ?case by simp
next
  case (step b m rest ms tail)
  show ?case
  proof (cases "audio_buffer_is_nearly_full (rx_buffer (ss_rx st))")
    case True
    then have "buffered_loop E s st = Done (Stalled, s, st)" by (subst buffered_loop.simps) (simp add: buffered_round_def)
    moreover have "drains buffered_look (stream s) (m # ms) tail" using step.hyps step.prems(3) drains.step by metis
    ultimately show ?thesis by (intro exI [of _ 0] exI [of _ Stalled] exI [of _ s] exI [of _ st]) simp
  next
    case False
    have look: "buffered_look (stream s) = Msg m rest" using step.hyps(1) step.prems(3) by simp
    from round_takes_packet [OF step.prems(4) look False] obtain s1 where
      s1: "buffered_round E s st = cbind (handle_packet E m st) (\<lambda>st. Done (Continues, s1, st))" "steady (waits st) s1" "stream s1 = rest" by blast
    have "length m \<le> 8190" using look by (auto simp: buffered_look_def BUFFERED_AUDIO_PACKET_SIZE_def split: if_splits)
    from handle_packet_keeps [OF step.prems(1,2) this] obtain st1 where
      st1: "handle_packet E m st = Done st1" "stream_inv st1" "rx_timing (ss_rx st1) = rx_timing (ss_rx st)" by (auto simp: stream_keeps_def)
    have "steady (waits st1) s1" using s1(2) st1(3) by simp
    from step.IH [OF st1(2) step.prems(2) s1(3) [symmetric] this] obtain k flow s' st' where
      k: "k \<le> length ms" "packets E (take k ms) st1 = Done st'" "buffered_loop E s1 st1 = Done (flow, s', st')"
      "k < length ms \<longrightarrow> flow = Stalled \<and> drains buffered_look (stream s') (drop k ms) tail" by blast
    have "buffered_loop E s st = Done (flow, s', st')" using s1(1) st1(1) k(3) by (subst buffered_loop.simps) simp
    then show ?thesis using k st1(1) by (intro exI [of _ "Suc k"] exI [of _ flow] exI [of _ s'] exI [of _ st']) simp
  qed
qed

section \<open>Properties of the streams\<close>

text \<open>
  The life of the streams: packets on each of the sockets, one turn of the TCP loop or a whole run of it at a time, and between them every command that the
  receiver knows (flushes, seeks, anchors, pauses, the choice of the stream, starts and stops of both modes) and the reads of the player. A new format brings a new decoder, a stop
  takes it away, a SETUP request brings a new key, and sockets open and close.
\<close>

inductive streaming :: "stream_env \<Rightarrow> stream_state \<Rightarrow> bool" for E where
  start: "rx_run (ss_rx st) \<Longrightarrow> length (ss_packet st) = BUFFERED_AUDIO_PACKET_SIZE \<Longrightarrow> ss_decrypt st \<in> {None, Some DECRYPT_BUFFER_SIZE} \<Longrightarrow> streaming E st"
| turn: "streaming E st \<Longrightarrow> buffered_round E s st = Done (flow, s', st') \<Longrightarrow> streaming E st'"
| tcp: "streaming E st \<Longrightarrow> buffered_loop E s st = Done (flow, s', st') \<Longrightarrow> streaming E st'"
| udp: "streaming E st \<Longrightarrow> realtime_receive_packet E now sent dg st = Done (go, st') \<Longrightarrow> streaming E st'"
| control: "streaming E st \<Longrightarrow> control_packet now_ms now_us data st = Done st' \<Longrightarrow> streaming E st'"
| command: "streaming E st \<Longrightarrow> rx_step (ss_rx st) r \<Longrightarrow> streaming E (st\<lparr>ss_rx := r\<rparr>)"
| format: "streaming E st \<Longrightarrow> d = audio_decoder_create (se_codec E) ok fmt
    \<Longrightarrow> streaming E (st\<lparr>ss_decoder := d, ss_rx := audio_receiver_set_format (d \<noteq> None) fmt (ss_rx st)\<rparr>)"
| halt: "streaming E st \<Longrightarrow> audio_receiver_stop (ss_rx st) = Done r \<Longrightarrow> streaming E (st\<lparr>ss_decoder := None, ss_rx := r\<rparr>)"
| key: "streaming E st \<Longrightarrow> streaming E (st\<lparr>ss_encrypt := e\<rparr>)"
| sockets: "streaming E st \<Longrightarrow> streaming E (st\<lparr>ss_data_socket := b, ss_control_socket := c\<rparr>)"

lemma streaming_inv: "streaming E st \<Longrightarrow> se_ok E \<Longrightarrow> stream_inv st"
proof (induction rule: streaming.induct)
  case (start st)
  then show ?case using rx_run_inv by (auto simp: stream_inv_def)
next
  case (turn st s flow s' st')
  with buffered_round_ok [of st E s] show ?case by auto
next
  case (tcp st s flow s' st')
  with buffered_loop_ok [of st E s] show ?case by auto
next
  case (udp st now sent dg go st')
  with realtime_ok [of st E now sent dg] show ?case by auto
next
  case (control st now_ms now_us data st')
  with control_packet_ok [of st now_ms now_us data] show ?case by auto
next
  case (command st r)
  then show ?case using rx_step_inv by (simp add: stream_inv_def)
next
  case (halt st r)
  then show ?case using rx_step_inv [OF rx_step.halt] by (simp add: stream_inv_def)
qed (simp_all add: stream_inv_def rx_inv_def audio_receiver_set_format_def audio_timing_set_format_def)

text \<open>
  C20. No network input harms the audio side: after any history of packets on the TCP, data and control sockets, of commands to the receiver in both stream modes and of reads, the next TCP segment stream, the next
  datagram and the next control packet, whatever bytes they consist of and whatever the codecs and the decryption make of them, are handled without an access out of bounds, and the jitter
  buffer stays in order.
\<close>

theorem streams_safe:
  assumes "streaming E st" "se_ok E"
  shows "(\<exists>flow s' st'. buffered_loop E s st = Done (flow, s', st') \<and> stream_inv st')
    \<and> (\<exists>go st'. realtime_receive_packet E now sent dg st = Done (go, st') \<and> stream_inv st')
    \<and> (\<exists>st'. control_packet now_ms now_us data st = Done st' \<and> stream_inv st')"
  using buffered_loop_ok realtime_ok control_packet_ok streaming_inv [OF assms] assms(2) by blast

text \<open>A library for the concrete cases: AES leaves the blocks alone, and the codecs return one sample per byte they are given.\<close>

definition demo_codec :: codec_lib where
  "demo_codec = \<lparr>cd_alac_open = (\<lambda>_. True), cd_alac_decode = (\<lambda>_ _ f cap. let pcm = take (cap div 2) (map ucast f) in Some (pcm, 2 * length pcm, 1)),
     cd_aac_open = (\<lambda>_. True), cd_aac_decode = (\<lambda>_ _ f cap. None)\<rparr>"

definition demo_stream_env :: stream_env where
  "demo_stream_env = \<lparr>se_lib = demo_lib, se_aes = (\<lambda>k v c. Some c), se_codec = demo_codec, se_mem = (\<lambda>_. True)\<rparr>"

definition demo_stream_state :: stream_state where
  "demo_stream_state = \<lparr>ss_rx = demo_receiver, ss_decoder = None, ss_encrypt = no_encrypt, ss_decrypt = Some DECRYPT_BUFFER_SIZE,
     ss_packet = replicate BUFFERED_AUDIO_PACKET_SIZE 0, ss_data_socket = True, ss_control_socket = True, ss_last_resend_error_time_us = 0,
     ss_nacks = [], ss_loopback = []\<rparr>"

lemma demo_stream_env_ok: "se_ok demo_stream_env"
proof -
  have "2 * min a (c div 2) \<le> c" for a c :: nat by linarith
  then show ?thesis by (simp add: se_ok_def demo_stream_env_def demo_lib_open_ok cbc_ok_def codec_ok_def demo_codec_def answer_ok_def Let_def)
qed

lemma demo_streaming: "streaming demo_stream_env demo_stream_state"
  by (rule streaming.start) (simp_all add: demo_stream_state_def demo_receiver_run)

theorem streams_safe_witness:
  "(\<exists>flow s' st'. buffered_loop demo_stream_env \<lparr>so_in = [Arrive [0, 40, 1], Arrive (replicate 60 7)], so_errno = EAGAIN, so_out = [], so_send = []\<rparr> demo_stream_state
      = Done (flow, s', st') \<and> stream_inv st')
    \<and> (\<exists>go st'. realtime_receive_packet demo_stream_env 0 True (Datagram (0x9F # replicate 30 255)) demo_stream_state = Done (go, st') \<and> stream_inv st')
    \<and> (\<exists>st'. control_packet 0 0 (0x80 # 0xD7 # replicate 40 1) demo_stream_state = Done st' \<and> stream_inv st')"
  by (rule streams_safe [OF demo_streaming demo_stream_env_ok])

subsection \<open>From the sender to the buffer\<close>

text \<open>
  What a sender puts on the TCP connection for a frame: the length of the packet and of the length itself, and the sealed packet. What the receiver has to do with it: count it,
  note sequence number and timestamp of its header, and deliver the payload.
\<close>

type_synonym sent_frame = "bytes \<times> bytes \<times> bytes"

definition sealed :: "stream_env \<Rightarrow> bytes \<Rightarrow> sent_frame \<Rightarrow> bytes" where
  "sealed E key f = (case f of (header, nonce8, payload) \<Rightarrow> seal_packet (se_lib E) key header nonce8 payload)"

definition framed :: "bytes \<Rightarrow> bytes" where
  "framed packet = be16 (of_nat (length packet + 2)) @ packet"

definition sent_ok :: "sent_frame \<Rightarrow> bool" where
  "sent_ok f = (case f of (header, nonce8, payload) \<Rightarrow> length header = 12 \<and> length nonce8 = 8 \<and> length payload \<le> 8154)"

definition take_frame :: "stream_env \<Rightarrow> sent_frame \<Rightarrow> stream_state \<Rightarrow> stream_state cres" where
  "take_frame E f st =
     (case f of (header, nonce8, payload) \<Rightarrow>
        let packet = sealed E (ae_key (ss_encrypt st)) f; st = count_received (st\<lparr>ss_packet := packet @ drop (length packet) (ss_packet st)\<rparr>) in
        cbind (ntohs_at header 2) (\<lambda>seq. cbind (nctoh32 header 4) (\<lambda>timestamp.
          deliver E timestamp payload (count_block (note_packet seq timestamp st)))))"

fun take_frames :: "stream_env \<Rightarrow> sent_frame list \<Rightarrow> stream_state \<Rightarrow> stream_state cres" where
  "take_frames E [] st = Done st"
| "take_frames E (f # fs) st = cbind (take_frame E f st) (take_frames E fs)"

lemma be_bytes_prefix: "i + n \<le> length xs \<Longrightarrow> be_bytes (xs @ ys) i n v = be_bytes xs i n v"
  by (induction xs i n v rule: be_bytes.induct) (auto simp: rd_def nth_append)

lemma sealed_length: "aead_ok (se_lib E) \<Longrightarrow> sent_ok f \<Longrightarrow> length (sealed E key f) = length (snd (snd f)) + 36"
  by (cases f) (auto simp: sealed_def seal_packet_def sent_ok_def aead_ok_def)

lemma handle_sealed:
  assumes "aead_ok (se_lib E)" "sent_ok f" "ae_type (ss_encrypt st) = AUDIO_ENCRYPT_CHACHA20_POLY1305" "stream_inv st"
  shows "handle_packet E (sealed E (ae_key (ss_encrypt st)) f) st = take_frame E f st"
proof -
  obtain header nonce8 payload where f: "f = (header, nonce8, payload)" by (rule prod_cases3)
  define p where "p = sealed E (ae_key (ss_encrypt st)) f"
  define buf where "buf = p @ drop (length p) (ss_packet st)"
  define st1 where "st1 = count_received (st\<lparr>ss_packet := buf\<rparr>)"
  define cap where "cap = (case ss_decrypt st1 of Some n \<Rightarrow> n | None \<Rightarrow> if length p > 12 then length p - 12 else 0)"
  have p: "p = seal_packet (se_lib E) (ae_key (ss_encrypt st)) header nonce8 payload" "length p = length payload + 36"
    using sealed_length [OF assms(1,2)] by (simp_all add: p_def f sealed_def)
  have l: "length header = 12" "length nonce8 = 8" "length payload \<le> 8154" using assms(2) by (simp_all add: f sent_ok_def)
  have st1: "ss_encrypt st1 = ss_encrypt st" "ss_decrypt st1 = ss_decrypt st" by (simp_all add: st1_def count_received_def on_stats_def on_receiver_def)
  have "length payload \<le> cap" using l(3) p(2) assms(4) by (auto simp: cap_def st1 stream_inv_def DECRYPT_BUFFER_SIZE_def split: option.split)
  then have dec: "audio_crypto_decrypt_buffered (se_lib E) (ss_encrypt st1) p cap = Done payload"
    unfolding st1 p(1) using assms(1,3) l(1,2) by (intro decrypt_buffered_seal)
  have "buf = header @ drop 12 buf" using p(1) l(1) by (simp add: buf_def seal_packet_def)
  then obtain r where "buf = header @ r" by blast
  then have h: "ntohs_at buf 2 = ntohs_at header 2" "nctoh32 buf 4 = nctoh32 header 4" using l(1) by (simp_all add: ntohs_at_def nctoh32_def be_bytes_prefix)
  have "handle_packet E p st = cbind (ntohs_at buf 2) (\<lambda>seq. cbind (nctoh32 buf 4) (\<lambda>timestamp.
      case audio_crypto_decrypt_buffered (se_lib E) (ss_encrypt st1) p cap of
          Fault \<Rightarrow> Fault | Fail \<Rightarrow> Done (count_undecryptable st1) | Done decrypted \<Rightarrow> deliver E timestamp decrypted (count_block (note_packet seq timestamp st1))))"
    unfolding handle_packet_def Let_def buf_def [symmetric] st1_def [symmetric] cap_def [symmetric] by (rule refl)
  also have "\<dots> = take_frame E f st"
    by (simp add: h dec) (simp add: take_frame_def f Let_def p_def [unfolded f, symmetric] buf_def [symmetric] st1_def [symmetric])
  finally show ?thesis by (simp add: p_def)
qed

lemma process_frame_fields:
  "process_frame E ts data st = Done (ok, st') \<Longrightarrow> ss_encrypt st' = ss_encrypt st \<and> ss_nacks st' = ss_nacks st \<and> ss_loopback st' = ss_loopback st"
  by (auto simp: process_frame_def cbind_eq_Done)

lemma counters_fields [simp]:
  "ss_encrypt (count_received st) = ss_encrypt st" "ss_encrypt (count_dropped n st) = ss_encrypt st" "ss_encrypt (count_block st) = ss_encrypt st"
  "ss_encrypt (note_packet seq ts st) = ss_encrypt st" "ss_nacks (count_received st) = ss_nacks st" "ss_nacks (count_dropped n st) = ss_nacks st"
  "ss_nacks (count_block st) = ss_nacks st" "ss_nacks (note_packet seq ts st) = ss_nacks st" "ss_nacks (count_undecryptable st) = ss_nacks st"
  by (simp_all add: count_received_def count_dropped_def count_block_def note_packet_def count_undecryptable_def on_stats_def on_receiver_def)

lemma deliver_fields: "deliver E ts data st = Done st' \<Longrightarrow> ss_encrypt st' = ss_encrypt st \<and> ss_nacks st' = ss_nacks st"
  by (auto simp: deliver_def cbind_eq_Done dest: process_frame_fields)

lemma packets_sealed:
  assumes "aead_ok (se_lib E)" "se_ok E" "\<forall>f \<in> set fs. sent_ok f" "ae_type (ss_encrypt st) = AUDIO_ENCRYPT_CHACHA20_POLY1305" "stream_inv st"
  shows "packets E (map (sealed E (ae_key (ss_encrypt st))) fs) st = take_frames E fs st"
  using assms(3-5)
proof (induction fs arbitrary: st)
  case (Cons f fs)
  let ?p = "sealed E (ae_key (ss_encrypt st)) f"
  have eq: "handle_packet E ?p st = take_frame E f st" using Cons.prems assms(1) by (intro handle_sealed) simp_all
  have "length ?p \<le> 8190" using sealed_length [OF assms(1), of f "ae_key (ss_encrypt st)"] Cons.prems(1) by (cases f) (auto simp: sent_ok_def)
  from handle_packet_keeps [OF Cons.prems(3) assms(2) this] obtain st1 where st1: "handle_packet E ?p st = Done st1" "stream_inv st1"
    by (auto simp: stream_keeps_def)
  have "take_frame E f st = Done st1" using st1(1) eq by simp
  then have "ss_encrypt st1 = ss_encrypt st"
    by (cases f) (auto simp: take_frame_def Let_def cbind_eq_Done dest!: deliver_fields)
  with Cons.IH [of st1] Cons.prems st1 eq show ?case by simp
qed simp

lemma framed_look:
  assumes "length p \<le> 8190"
  shows "buffered_look (framed p @ x) = Msg p x"
proof -
  define n where "n = length p + 2"
  have n: "n < 2 ^ 16" using assms by (simp add: n_def)
  have u: "unat (of_nat n :: u16) = n" using n by (simp add: unat_of_nat)
  have "unat (ucast (drop_bit 8 (of_nat n :: u16)) :: u8) = n div 256" using n u
    by (simp add: unsigned_ucast_eq take_bit_nat_eq_self drop_bit_eq_div unat_div take_bit_eq_mod)
  moreover have "unat (ucast (of_nat n :: u16) :: u8) = n mod 256" using u by (simp add: unsigned_ucast_eq take_bit_eq_mod)
  moreover have f: "framed p = [ucast (drop_bit 8 (of_nat n :: u16)), ucast (of_nat n :: u16)] @ p" by (simp only: framed_def be16_def n_def ucast_and_255)
  ultimately have "data_len (framed p @ x) = n" by (simp add: data_len_def f)
  then show ?thesis using assms by (simp add: buffered_look_def n_def BUFFERED_AUDIO_PACKET_SIZE_def) (simp add: framed_def be16_def)
qed

text \<open>
  C21. What an AirPlay 2 sender puts on the buffered audio connection reaches the jitter buffer, in order and unharmed, in every state a stream can be in, the buffered mode among them: however TCP cuts the stream, and with any timeouts while playback is
  paused, the receive loop decrypts the packets one after the other and delivers their payloads under the timestamps of their headers. It stops
  early only when the jitter buffer is nearly full, and then the remaining packets are still waiting in the connection.
\<close>

theorem buffered_audio_delivered:
  assumes "streaming E st" "se_ok E" "aead_ok (se_lib E)" "ae_type (ss_encrypt st) = AUDIO_ENCRYPT_CHACHA20_POLY1305"
    "\<forall>f \<in> set fs. sent_ok f" "steady (waits st) s" "stream s = concat (map (framed \<circ> sealed E (ae_key (ss_encrypt st))) fs)"
  shows "\<exists>k flow s' st'. k \<le> length fs \<and> take_frames E (take k fs) st = Done st' \<and> buffered_loop E s st = Done (flow, s', st')
    \<and> (k < length fs \<longrightarrow> flow = Stalled \<and> drains buffered_look (stream s') (map (sealed E (ae_key (ss_encrypt st))) (drop k fs)) [])"
proof -
  let ?seal = "sealed E (ae_key (ss_encrypt st))"
  note inv = streaming_inv [OF assms(1,2)]
  have len: "length (?seal f) \<le> 8190" if "f \<in> set fs" for f
    using sealed_length [OF assms(3), of f "ae_key (ss_encrypt st)"] that assms(5) by (cases f) (auto simp: sent_ok_def)
  have "drains buffered_look (concat (map fst (map (\<lambda>f. (framed (?seal f), ?seal f)) fs)) @ []) (map snd (map (\<lambda>f. (framed (?seal f), ?seal f)) fs)) []"
  proof (rule buffered.drains_concat)
    show "\<forall>(w, m) \<in> set (map (\<lambda>f. (framed (?seal f), ?seal f)) fs). \<forall>x. buffered_look (w @ x) = Msg m x" using framed_look len by auto
  qed (simp add: buffered_look_def)
  then have "drains buffered_look (stream s) (map ?seal fs) []" using assms(7) by (simp add: comp_def)
  from loop_takes_packets [OF this inv assms(2) refl assms(6)] obtain k flow s' st' where
    k: "k \<le> length fs" "packets E (map ?seal (take k fs)) st = Done st'" "buffered_loop E s st = Done (flow, s', st')"
    "k < length fs \<longrightarrow> flow = Stalled \<and> drains buffered_look (stream s') (map ?seal (drop k fs)) []" by (auto simp: take_map drop_map)
  have "packets E (map ?seal (take k fs)) st = take_frames E (take k fs) st"
    by (rule packets_sealed [OF assms(3,2) _ assms(4) inv]) (use assms(5) in \<open>auto dest: in_set_takeD\<close>)
  then show ?thesis using k by auto
qed

text \<open>A stream with a key, the same in the buffered mode, one frame for it, and a connection that delivers it in two segments.\<close>

definition demo_keyed :: stream_state where
  "demo_keyed = demo_stream_state\<lparr>ss_encrypt := no_encrypt\<lparr>ae_type := AUDIO_ENCRYPT_CHACHA20_POLY1305\<rparr>\<rparr>"

definition demo_buffered :: stream_state where
  "demo_buffered = demo_keyed\<lparr>ss_rx := buffered_receiver\<rparr>"

definition demo_frame :: sent_frame where
  "demo_frame = ([0x80, 96, 0, 7, 0, 0, 1, 0, 0, 0, 0, 0], [1, 2, 3, 4, 5, 6, 7, 8], [42, 43])"

definition demo_wire :: bytes where
  "demo_wire = framed (sealed demo_stream_env (ae_key (ss_encrypt demo_buffered)) demo_frame)"

definition demo_link :: sock where
  "demo_link = \<lparr>so_in = [Arrive (take 5 demo_wire), Arrive (drop 5 demo_wire)], so_errno = EAGAIN, so_out = [], so_send = []\<rparr>"

lemma demo_keyed_streaming: "streaming demo_stream_env demo_keyed"
  unfolding demo_keyed_def by (rule streaming.key [OF demo_streaming])

lemma demo_buffered_streaming: "streaming demo_stream_env demo_buffered"
  by (rule streaming.start) (simp_all add: demo_buffered_def buffered_receiver_run, simp_all add: demo_keyed_def demo_stream_state_def)

theorem buffered_audio_delivered_witness:
  "rx_stream (ss_rx demo_buffered) = Buffered \<and> as_running (rx_buffered (ss_rx demo_buffered))
   \<and> (\<exists>k flow s' st'. k \<le> 1 \<and> take_frames demo_stream_env (take k [demo_frame]) demo_buffered = Done st'
     \<and> buffered_loop demo_stream_env demo_link demo_buffered = Done (flow, s', st'))"
proof -
  have lib: "aead_ok (se_lib demo_stream_env)" using demo_lib_ok(2) by (simp add: demo_stream_env_def)
  have ok: "\<forall>f \<in> set [demo_frame]. sent_ok f" by (simp add: sent_ok_def demo_frame_def)
  have "length demo_wire = 40" using sealed_length [OF lib, of demo_frame] ok by (simp add: demo_wire_def framed_def be16_def) (simp add: demo_frame_def)
  then have ne: "take 5 demo_wire \<noteq> []" "drop 5 demo_wire \<noteq> []" by (metis length_take length_drop list.size(3) add.commute diff_is_0_eq min_def numeral_le_iff semiring_norm zero_neq_numeral)+
  have st: "steady (waits demo_buffered) demo_link" using ne by (simp add: steady_def demo_link_def)
  have str: "stream demo_link = concat (map (framed \<circ> sealed demo_stream_env (ae_key (ss_encrypt demo_buffered))) [demo_frame])"
    by (simp add: stream_def demo_link_def) (simp add: demo_wire_def)
  have key: "ae_type (ss_encrypt demo_buffered) = AUDIO_ENCRYPT_CHACHA20_POLY1305" by (simp add: demo_buffered_def demo_keyed_def)
  have mode: "rx_stream (ss_rx demo_buffered) = Buffered" "as_running (rx_buffered (ss_rx demo_buffered))"
    by (simp_all add: demo_buffered_def buffered_receiver_facts)
  from buffered_audio_delivered [OF demo_buffered_streaming demo_stream_env_ok lib key ok st str] mode show ?thesis by auto
qed

subsection \<open>Lost and reordered datagrams\<close>

text \<open>The sequence numbers a retransmission request asks for.\<close>

definition nack_seqs :: "bytes \<Rightarrow> u16 list" where
  "nack_seqs m = map (\<lambda>i. (push_bit 8 (ucast (m ! 4)) OR ucast (m ! 5)) + of_nat i) [0..<unat (push_bit 8 (ucast (m ! 6)) OR ucast (m ! 7) :: u16)]"

lemma be16_word: "push_bit 8 (ucast (be16 w ! 0)) OR ucast (be16 w ! 1) = (w :: u16)"
  unfolding be16_def by (rule bit_word_eqI) (auto simp: bit_simps)

lemma nack_seqs_nack: "nack_seqs (nack first count) = map (\<lambda>i. first + of_nat i) [0..<unat count]"
  using be16_word [of first] be16_word [of count] by (simp add: nack_seqs_def nack_def be16_def)

text \<open>The distance of two sequence numbers as the code computes it.\<close>

lemma gap_word:
  fixes seq expected :: u16
  shows "(if uint seq - uint expected < 0 then uint seq - uint expected + 65536 else uint seq - uint expected) = uint (seq - expected)"
proof -
  have b: "uint seq < 65536" "uint expected < 65536" "0 \<le> uint seq" "0 \<le> uint expected" using unsigned_less [of seq] unsigned_less [of expected] by simp_all
  have m: "uint (seq - expected) = (uint seq - uint expected) mod 65536" by (simp add: uint_word_ariths(2))
  show ?thesis
  proof (cases "uint seq - uint expected < 0")
    case True
    have "0 \<le> uint seq - uint expected + 65536" using b by linarith
    then have "(uint seq - uint expected) mod 65536 = uint seq - uint expected + 65536"
      using True mod_pos_pos_trivial [of "uint seq - uint expected + 65536" 65536] mod_add_self2 [of "uint seq - uint expected" 65536] by simp
    then show ?thesis using True m by simp
  next
    case False
    moreover have "uint seq - uint expected < 65536" using b by linarith
    ultimately show ?thesis using m mod_pos_pos_trivial [of "uint seq - uint expected" 65536] by simp
  qed
qed

lemma track_sequence_gap:
  "track_sequence now sent seq ts st =
     (let expected = st_last_seq (rx_stats (ss_rx st)) + 1; gap = unat (seq - expected) in
      note_packet seq ts (if st_packets_decoded (rx_stats (ss_rx st)) > 0 \<and> 0 < gap \<and> gap < 100
        then send_resend_request now sent expected (seq - expected) (count_dropped (of_nat gap) st) else st))"
proof -
  define expected where "expected = st_last_seq (rx_stats (ss_rx st)) + 1"
  define x where "x = seq - expected"
  have i: "uint x = int (unat x)" by simp
  have z: "seq \<noteq> expected \<longleftrightarrow> unat x \<noteq> 0" by (simp only: x_def unat_eq_zero right_minus_eq)
  have c: "(P \<and> seq \<noteq> expected \<and> uint x > 0 \<and> uint x < MAX_RESEND_GAP) = (P \<and> 0 < unat x \<and> unat x < 100)" for P
  proof -
    have "0 < uint x \<longleftrightarrow> 0 < unat x" "uint x < 100 \<longleftrightarrow> unat x < 100" using i by linarith+
    then show ?thesis unfolding z MAX_RESEND_GAP_def by blast
  qed
  have w: "(of_int (uint x) :: u16) = x" "(of_int (uint x) :: u32) = of_nat (unat x)" by (simp, simp only: i of_int_of_nat_eq)
  show ?thesis unfolding track_sequence_def Let_def gap_word expected_def [symmetric] x_def [symmetric] c w by (rule refl)
qed

text \<open>
  A gap in the sequence numbers of a realtime stream is asked for exactly: when a packet arrives whose number is up to 99 ahead of the next expected one, counting around the
  16-bit range, one request goes out to the sender, and it names precisely the numbers that are missing.
\<close>

theorem missing_packets_requested:
  assumes "stream_inv st" "se_ok E" "length rtp \<le> 2048" "parse_rtp rtp = Done (seq, ts, header_len)" "rtp ! 1 \<noteq> 0x56"
    "st_packets_decoded (rx_stats (ss_rx st)) > 0" "rx_retransmit_enabled (ss_rx st)" "ss_control_socket st" "ss_last_resend_error_time_us st = 0"
    "seen = st_last_seq (rx_stats (ss_rx st))" "g = unat (seq - (seen + 1))" "0 < g" "g < 100"
  shows "\<exists>st' m. realtime_receive_packet E now True (Datagram rtp) st = Done (True, st') \<and> ss_nacks st' = ss_nacks st @ [m]
    \<and> nack_seqs m = map (\<lambda>i. seen + 1 + of_nat i) [0..<g]"
proof -
  define st1 where "st1 = count_received st"
  have st1: "rx_retransmit_enabled (ss_rx st1) = rx_retransmit_enabled (ss_rx st)" "ss_control_socket st1 = ss_control_socket st"
    "ss_last_resend_error_time_us st1 = ss_last_resend_error_time_us st" "st_last_seq (rx_stats (ss_rx st1)) = seen"
    "st_packets_decoded (rx_stats (ss_rx st1)) > 0" "ss_nacks st1 = ss_nacks st"
    using assms(6,10) by (simp_all add: st1_def count_received_def on_stats_def on_receiver_def)
  define st2 where "st2 = count_block (track_sequence now True seq ts st1)"
  have nacks: "ss_nacks st2 = ss_nacks st @ [nack (seen + 1) (seq - (seen + 1))]"
    using assms(7-9,11-13) st1 unfolding st2_def track_sequence_gap
    by (simp add: Let_def send_resend_request_def) (simp add: count_dropped_def on_stats_def on_receiver_def)
  have inv: "stream_inv st1" using assms(1) by (simp add: st1_def)
  have ne: "rtp \<noteq> []" using assms(4) by (auto simp: parse_rtp_def RTP_HEADER_SIZE_def)
  have go: "realtime_receive_packet E now True (Datagram rtp) st = cbind (receive_rtp E now True False rtp st1) (\<lambda>st. Done (True, st))"
    using assms(3,5) ne by (simp add: realtime_receive_packet_def MAX_RTP_PACKET_SIZE_def st1_def rd_def)
  obtain st' where st': "receive_rtp E now True False rtp st1 = Done st'" using receive_rtp_keeps [OF inv assms(2), of now True False rtp] by (auto simp: stream_keeps_def)
  have "receive_rtp E now True False rtp st1
      = (case realtime_payload E rtp header_len st2 of Fault \<Rightarrow> Fault | Fail \<Rightarrow> Done (count_undecryptable st2) | Done audio \<Rightarrow> deliver E ts audio st2)"
    by (simp only: receive_rtp_def assms(4) cres.case prod.case Let_def st2_def if_False)
  then have "ss_nacks st' = ss_nacks st2" using st' deliver_fields [of E ts _ st2 st'] by (cases "realtime_payload E rtp header_len st2") auto
  then show ?thesis using go st' nacks nack_seqs_nack [of "seen + 1" "seq - (seen + 1)"] assms(11) by auto
qed

text \<open>
  Packets that merely change places are asked for again: when the packets \<open>n\<close>, \<open>n + 1\<close> and \<open>n + 2\<close> arrive in the order \<open>n + 1\<close>, \<open>n\<close>, \<open>n + 2\<close>, the last of them makes the
  receiver ask for \<open>n + 1\<close>, which it has received, because the late packet has set the last seen number back.
\<close>

theorem reordered_packet_requested:
  assumes "st_packets_decoded (rx_stats (ss_rx st)) > 0" "rx_retransmit_enabled (ss_rx st)" "ss_control_socket st" "ss_last_resend_error_time_us st = 0"
    "st_last_seq (rx_stats (ss_rx st)) + 1 = n"
  shows "\<exists>m1 m2. ss_nacks (track_sequence t3 True (n + 2) ts3 (track_sequence t2 True n ts2 (track_sequence t1 True (n + 1) ts1 st))) = ss_nacks st @ [m1, m2]
    \<and> nack_seqs m1 = [n] \<and> nack_seqs m2 = [n + 1]"
proof -
  have one: "unat (n + 1 - n) = 1" "n + 1 - n = 1" by simp_all
  define a where "a = track_sequence t1 True (n + 1) ts1 st"
  have a: "ss_nacks a = ss_nacks st @ [nack n 1]" "st_last_seq (rx_stats (ss_rx a)) = n + 1" "st_packets_decoded (rx_stats (ss_rx a)) > 0"
    "rx_retransmit_enabled (ss_rx a)" "ss_control_socket a" "ss_last_resend_error_time_us a = 0"
    using assms unfolding a_def track_sequence_gap
    by (simp_all add: Let_def send_resend_request_def note_packet_def count_dropped_def on_stats_def on_receiver_def)
  define b where "b = track_sequence t2 True n ts2 a"
  have wrap: "unat (n - (n + 1 + 1)) = 65534" by simp
  have b: "ss_nacks b = ss_nacks a" "st_last_seq (rx_stats (ss_rx b)) = n" "st_packets_decoded (rx_stats (ss_rx b)) > 0"
    "rx_retransmit_enabled (ss_rx b)" "ss_control_socket b" "ss_last_resend_error_time_us b = 0"
    using a wrap unfolding b_def track_sequence_gap
    by (simp_all add: Let_def note_packet_def on_stats_def on_receiver_def)
  have "ss_nacks (track_sequence t3 True (n + 2) ts3 b) = ss_nacks b @ [nack (n + 1) 1]"
    using b unfolding track_sequence_gap
    by (simp add: Let_def send_resend_request_def note_packet_def count_dropped_def on_stats_def on_receiver_def)
  then show ?thesis using a(1) b(1) nack_seqs_nack [of n 1] nack_seqs_nack [of "n + 1" 1] by (auto simp: a_def b_def)
qed

text \<open>The stream of the witnesses in the middle of a realtime session.\<close>

definition demo_realtime :: stream_state where
  "demo_realtime = demo_stream_state\<lparr>ss_rx := audio_receiver_set_client_control 1 1 (demo_receiver\<lparr>rx_stats := (rx_stats demo_receiver)\<lparr>st_packets_decoded := 1, st_last_seq := 0xFFFF\<rparr>\<rparr>)\<rparr>"

theorem reordered_packet_requested_witness:
  "\<exists>m1 m2. ss_nacks (track_sequence 3 True 2 0 (track_sequence 2 True 0 0 (track_sequence 1 True 1 0 demo_realtime))) = ss_nacks demo_realtime @ [m1, m2]
     \<and> nack_seqs m1 = [0] \<and> nack_seqs m2 = [1]"
proof -
  have "st_packets_decoded (rx_stats (ss_rx demo_realtime)) > 0" "rx_retransmit_enabled (ss_rx demo_realtime)" "ss_control_socket demo_realtime"
    "ss_last_resend_error_time_us demo_realtime = 0" "st_last_seq (rx_stats (ss_rx demo_realtime)) + 1 = 0"
    by (simp_all add: demo_realtime_def audio_receiver_set_client_control_def) (simp_all add: demo_stream_state_def)
  from reordered_packet_requested [OF this, of 3 0 2 0 1 0] show ?thesis by simp
qed

theorem missing_packets_requested_witness:
  "\<exists>st' m. realtime_receive_packet demo_stream_env 1 True (Datagram [0x80, 96, 0, 3, 0, 0, 0, 0, 0, 0, 0, 0, 9]) demo_realtime = Done (True, st')
     \<and> ss_nacks st' = ss_nacks demo_realtime @ [m] \<and> nack_seqs m = [0, 1, 2]"
proof -
  have d: "ss_control_socket demo_realtime" "ss_last_resend_error_time_us demo_realtime = 0" by (simp_all add: demo_realtime_def demo_stream_state_def)
  have r: "st_packets_decoded (rx_stats (ss_rx demo_realtime)) > 0" "rx_retransmit_enabled (ss_rx demo_realtime)" "0xFFFF = st_last_seq (rx_stats (ss_rx demo_realtime))"
    by (simp_all add: demo_realtime_def audio_receiver_set_client_control_def)
  have i: "stream_inv demo_realtime" using streaming_inv [OF demo_streaming demo_stream_env_ok]
    by (simp add: stream_inv_def rx_inv_def demo_realtime_def audio_receiver_set_client_control_def) (simp add: demo_stream_state_def)
  have p: "parse_rtp [0x80, 96, 0, 3, 0, 0, 0, 0, 0, 0, 0, 0, 9] = Done (3, 0, 12)"
    by code_simp
  have g: "3 = unat ((3 :: u16) - (0xFFFF + 1))" by code_simp
  have l: "map (\<lambda>i. (0xFFFF :: u16) + 1 + of_nat i) [0..<3] = [0, 1, 2]" by code_simp
  have n: "length [0x80 :: u8, 96, 0, 3, 0, 0, 0, 0, 0, 0, 0, 0, 9] \<le> 2048" "[0x80 :: u8, 96, 0, 3, 0, 0, 0, 0, 0, 0, 0, 0, 9] ! 1 \<noteq> 0x56" by simp_all
  from missing_packets_requested [OF i demo_stream_env_ok n(1) p n(2) r(1) r(2) d r(3) g, of 1] show ?thesis unfolding l by simp
qed

text \<open>
  A retransmitted packet is not lost a second time: the answer of the sender on the control socket is passed to the data socket, and the packet inside it, sealed like the lost one, is
  decrypted and delivered under its own timestamp; the tracking of sequence numbers is left alone.
\<close>

theorem retransmission_delivered:
  assumes "stream_inv st" "aead_ok (se_lib E)" "ae_type (ss_encrypt st) = AUDIO_ENCRYPT_CHACHA20_POLY1305" "ss_decrypt st \<noteq> None" "ss_data_socket st"
    "length header = 12" "header ! 0 = 0x80" "nctoh32 header 4 = Done ts" "length nonce8 = 8" "length payload \<le> 2008"
    "packet = seal_packet (se_lib E) (ae_key (ss_encrypt st)) header nonce8 payload"
  shows "\<exists>st1 d. control_packet now_ms now_us ([x, 0xD6, y, z] @ packet) st = Done st1 \<and> ss_loopback st1 = ss_loopback st @ [d]
    \<and> realtime_receive_packet E now sent (Datagram d) st1 = cbind (deliver E ts payload (count_block (count_received st1))) (\<lambda>st. Done (True, st))"
proof -
  let ?d = "[x, 0x56, y, z] @ packet"
  define st1 where "st1 = st\<lparr>ss_loopback := ss_loopback st @ [?d]\<rparr>"
  have len: "length packet = length payload + 36" using assms(2,6,9,11) by (simp add: seal_packet_def aead_ok_def)
  then have short: "take 2048 ([x, t, y, z] @ packet) = [x, t, y, z] @ packet" for t using assms(10) by simp
  have ctl: "control_packet now_ms now_us ([x, 0xD6, y, z] @ packet) st = Done st1"
    unfolding control_packet_def MAX_RTP_PACKET_SIZE_def short using assms(5) len by (simp add: rd_def st1_def)
  obtain tail where tail: "packet = header @ tail" using assms(11) by (simp add: seal_packet_def)
  obtain seq where "ntohs_at packet 2 = Done seq" using header_reads(3) [of 2 packet] len by auto
  moreover have "nctoh32 packet 4 = Done ts" using assms(6,8) by (simp add: tail nctoh32_def be_bytes_prefix)
  moreover have "rd packet 0 = Done 0x80" using assms(6,7) by (simp add: rd_def tail nth_append)
  ultimately have parse: "parse_rtp packet = Done (seq, ts, 12)" using len by (simp add: parse_rtp_def RTP_HEADER_SIZE_def Let_def)
  define st2 where "st2 = count_block (count_received st1)"
  have st2: "ss_encrypt st2 = ss_encrypt st" "ss_decrypt st2 = ss_decrypt st"
    by (simp_all add: st2_def st1_def) (simp add: count_block_def count_received_def on_stats_def on_receiver_def)
  have "audio_crypto_decrypt_rtp (se_lib E) (se_aes E) (ss_encrypt st2) (drop 12 packet) 2048 packet = Done payload"
    unfolding st2 assms(11) using assms(2,3,6,9,10) by (intro decrypt_rtp_seal) simp_all
  then have pay: "realtime_payload E packet 12 st2 = Done payload"
    using assms(1,3,4,10) st2 by (auto simp: realtime_payload_def MAX_RTP_PACKET_SIZE_def stream_inv_def DECRYPT_BUFFER_SIZE_def)
  have rtp: "receive_rtp E now sent True packet (count_received st1) = deliver E ts payload st2"
    by (simp only: receive_rtp_def parse cres.case prod.case Let_def if_True st2_def [symmetric] pay)
  have "realtime_receive_packet E now sent (Datagram ?d) st1 = cbind (receive_rtp E now sent True packet (count_received st1)) (\<lambda>st. Done (True, st))"
    unfolding realtime_receive_packet_def MAX_RTP_PACKET_SIZE_def datagram.case short Let_def using len by (simp add: rd_def)
  then show ?thesis using ctl rtp by (intro exI [of _ st1] exI [of _ ?d]) (simp add: st1_def st2_def)
qed

theorem retransmission_delivered_witness:
  "\<exists>st1 d. control_packet 0 0 ([0x80, 0xD6, 0, 1] @ seal_packet demo_lib (replicate 32 0) ([0x80, 96, 0, 7] @ replicate 8 0) (replicate 8 1) [42]) demo_keyed = Done st1
     \<and> ss_loopback st1 = ss_loopback demo_keyed @ [d]
     \<and> realtime_receive_packet demo_stream_env 0 True (Datagram d) st1 = cbind (deliver demo_stream_env 0 [42] (count_block (count_received st1))) (\<lambda>st. Done (True, st))"
proof -
  have i: "stream_inv demo_keyed" by (rule streaming_inv [OF demo_keyed_streaming demo_stream_env_ok])
  have lib: "aead_ok (se_lib demo_stream_env)" "se_lib demo_stream_env = demo_lib" using demo_lib_ok(2) by (simp_all add: demo_stream_env_def)
  have k: "ae_type (ss_encrypt demo_keyed) = AUDIO_ENCRYPT_CHACHA20_POLY1305" "ae_key (ss_encrypt demo_keyed) = replicate 32 0" "ss_decrypt demo_keyed \<noteq> None" "ss_data_socket demo_keyed"
    by (simp_all add: demo_keyed_def demo_stream_state_def no_encrypt_def del: replicate_numeral)
  have h: "length ([0x80, 96, 0, 7] @ replicate 8 (0 :: u8)) = 12" "([0x80, 96, 0, 7] @ replicate 8 (0 :: u8)) ! 0 = 0x80"
    "nctoh32 ([0x80, 96, 0, 7] @ replicate 8 0) 4 = Done 0" "length (replicate 8 (1 :: u8)) = 8" "length [42 :: u8] \<le> 2008"
    by (simp_all add: nctoh32_def numeral_eq_Suc rd_def)
  from retransmission_delivered [OF i lib(1) k(1) k(3) k(4) h refl, where x = "0x80" and y = 0 and z = 1 and now_ms = 0 and now_us = 0 and now = 0 and sent = True] show ?thesis by (simp only: lib(2) k(2))
qed

end
