(* ===== verification/Stream_Sockets.thy ===== *)
theory Stream_Sockets
  imports Prelude
begin

text \<open>
  Sockets and tasks of the two streams: \<open>main/network/socket_utils.c\<close> and the start and stop functions of
  \<open>main/audio/audio_stream_realtime.c\<close> and \<open>main/audio/audio_stream_buffered.c\<close>. The state is the set of open descriptors of the
  process, as a list, and the handles the streams keep; the outcomes of the system calls are arguments. The subject is who closes what: a start that fails, or that is undone
  by a stop, must leave the descriptors as they were.
\<close>

section \<open>The model\<close>

text \<open>Closing a descriptor twice has no effect unless it has been given out again in between.\<close>

definition close_fd :: "int \<Rightarrow> int list \<Rightarrow> int list" where
  "close_fd fd fds = filter (\<lambda>x. x \<noteq> fd) fds"

text \<open>The outcomes of the calls that set up a socket: the new descriptor, or a negative number, and the port it gets.\<close>

record sock_calls =
  sc_socket :: int
  sc_bind :: bool
  sc_listen :: bool
  sc_port :: u16

definition socket_utils_bind_udp :: "sock_calls \<Rightarrow> int list \<Rightarrow> (int \<times> u16 option) \<times> int list" where
  "socket_utils_bind_udp c fds =
     (if sc_socket c < 0 then ((-1, None), fds)
      else
        let fds = sc_socket c # fds in
        if \<not> sc_bind c then ((-1, None), close_fd (sc_socket c) fds) else ((sc_socket c, Some (sc_port c)), fds))"

definition socket_utils_bind_tcp_listener :: "sock_calls \<Rightarrow> int list \<Rightarrow> (int \<times> u16 option) \<times> int list" where
  "socket_utils_bind_tcp_listener c fds =
     (if sc_socket c < 0 then ((-1, None), fds)
      else
        let fds = sc_socket c # fds in
        if \<not> sc_bind c then ((-1, None), close_fd (sc_socket c) fds)
        else if \<not> sc_listen c then ((-1, None), close_fd (sc_socket c) fds)
        else ((sc_socket c, Some (sc_port c)), fds))"

subsection \<open>Realtime streams\<close>

record realtime_io =
  ri_running :: bool
  ri_data_socket :: int
  ri_control_socket :: int
  ri_data_port :: u16
  ri_control_port :: u16
  ri_task :: bool
  ri_control_task :: bool

text \<open>The stacks exist when \<open>audio_realtime_preallocate\<close> succeeded at start-up.\<close>

record realtime_calls =
  rc_data :: sock_calls
  rc_control :: sock_calls
  rc_recv_task :: bool
  rc_ctrl_task :: bool

definition audio_realtime_preallocate :: "bool \<Rightarrow> bool \<Rightarrow> bool \<times> bool \<Rightarrow> esp_err \<times> bool \<times> bool" where
  "audio_realtime_preallocate recv_mem ctrl_mem stacks =
     (let recv = fst stacks \<or> recv_mem; ctrl = snd stacks \<or> ctrl_mem in
      (if \<not> recv \<or> \<not> ctrl then ESP_ERR_NO_MEM else ESP_OK, recv, ctrl))"

definition bound :: "u16 option \<Rightarrow> u16 \<Rightarrow> u16" where
  "bound p port = (case p of Some q \<Rightarrow> q | None \<Rightarrow> port)"

text \<open>The tasks, once the sockets are there.\<close>

definition realtime_tasks :: "realtime_calls \<Rightarrow> bool \<times> bool \<Rightarrow> realtime_io \<Rightarrow> int list \<Rightarrow> esp_err \<times> realtime_io \<times> int list" where
  "realtime_tasks c stacks io fds =
     (let io = io\<lparr>ri_running := True\<rparr> in
      if \<not> fst stacks then (ESP_FAIL, io\<lparr>ri_running := False\<rparr>, fds)
      else if \<not> rc_recv_task c then
        let fds = (if ri_control_socket io > 0 then close_fd (ri_control_socket io) fds else fds);
            io' = (if ri_control_socket io > 0 then io\<lparr>ri_control_socket := 0\<rparr> else io) in
        (ESP_FAIL, io'\<lparr>ri_data_socket := 0, ri_running := False\<rparr>, close_fd (ri_data_socket io) fds)
      else
        let io = io\<lparr>ri_task := True\<rparr> in
        if ri_control_socket io > 0 then
          if snd stacks \<and> rc_ctrl_task c then (ESP_OK, io\<lparr>ri_control_task := True\<rparr>, fds)
          else (ESP_OK, io\<lparr>ri_control_task := False, ri_control_socket := 0\<rparr>, close_fd (ri_control_socket io) fds)
        else (ESP_OK, io, fds))"

definition realtime_start :: "realtime_calls \<Rightarrow> bool \<times> bool \<Rightarrow> u16 \<Rightarrow> realtime_io \<Rightarrow> int list \<Rightarrow> esp_err \<times> realtime_io \<times> int list" where
  "realtime_start c stacks port io fds =
     (if ri_running io then (ESP_OK, io, fds)
      else case socket_utils_bind_udp (rc_data c) fds of ((data, dport), fds) \<Rightarrow>
        let io = io\<lparr>ri_data_socket := data\<rparr> in
        if data < 0 then (ESP_FAIL, io, fds)
        else
          let io = io\<lparr>ri_data_port := bound dport port\<rparr> in
          if ri_control_port io > 0 then
            (case socket_utils_bind_udp (rc_control c) fds of ((ctrl, cport), fds) \<Rightarrow>
               let io = io\<lparr>ri_control_socket := ctrl\<rparr> in
               if ctrl < 0 then (ESP_FAIL, io\<lparr>ri_data_socket := 0\<rparr>, close_fd data fds)
               else realtime_tasks c stacks (io\<lparr>ri_control_port := bound cport (ri_control_port io)\<rparr>) fds)
          else realtime_tasks c stacks io fds)"

text \<open>The arguments tell whether the tasks have ended within three seconds.\<close>

definition realtime_stop :: "bool \<Rightarrow> bool \<Rightarrow> realtime_io \<Rightarrow> int list \<Rightarrow> realtime_io \<times> int list" where
  "realtime_stop recv_ends ctrl_ends io fds =
     (if \<not> ri_running io then (io, fds)
      else
        let fds = (if ri_data_socket io > 0 then close_fd (ri_data_socket io) fds else fds);
            fds = (if ri_control_socket io > 0 then close_fd (ri_control_socket io) fds else fds) in
        (io\<lparr>ri_running := False, ri_data_socket := (if ri_data_socket io > 0 then 0 else ri_data_socket io),
            ri_control_socket := (if ri_control_socket io > 0 then 0 else ri_control_socket io),
            ri_task := (ri_task io \<and> \<not> recv_ends), ri_control_task := (ri_control_task io \<and> \<not> ctrl_ends)\<rparr>, fds))"

subsection \<open>Buffered streams\<close>

text \<open>\<open>bi_local\<close> is the descriptor the task itself remembers while it serves a connection.\<close>

record buffered_io =
  bi_running :: bool
  bi_listen_socket :: int
  bi_client_socket :: int
  bi_port :: u16
  bi_task :: bool
  bi_stack :: bool
  bi_recv_buffer :: bool
  bi_local :: "int option"

definition buffered_start :: "sock_calls \<Rightarrow> bool \<Rightarrow> bool \<Rightarrow> u16 \<Rightarrow> buffered_io \<Rightarrow> int list \<Rightarrow> esp_err \<times> buffered_io \<times> int list" where
  "buffered_start c mem task port io fds =
     (if bi_running io then (ESP_OK, io, fds)
      else case socket_utils_bind_tcp_listener c fds of ((ls, p), fds) \<Rightarrow>
        let io = io\<lparr>bi_listen_socket := ls\<rparr> in
        if ls < 0 then (ESP_FAIL, io, fds)
        else
          let io = io\<lparr>bi_port := bound p port, bi_running := True\<rparr> in
          if \<not> bi_stack io \<and> \<not> mem then (ESP_ERR_NO_MEM, io\<lparr>bi_listen_socket := -1, bi_running := False\<rparr>, close_fd ls fds)
          else
            let io = io\<lparr>bi_stack := True\<rparr> in
            if \<not> task then (ESP_FAIL, io\<lparr>bi_task := False, bi_listen_socket := -1, bi_running := False\<rparr>, close_fd ls fds)
            else (ESP_OK, io\<lparr>bi_task := True\<rparr>, fds))"

text \<open>The two ends of a connection in the task: the accepted socket, and the closing after the receive loop.\<close>

definition buffered_accept :: "int \<Rightarrow> buffered_io \<Rightarrow> int list \<Rightarrow> buffered_io \<times> int list" where
  "buffered_accept client_sock io fds =
     (if client_sock < 0 then (io, fds) else (io\<lparr>bi_client_socket := client_sock, bi_local := Some client_sock\<rparr>, client_sock # fds))"

definition buffered_end :: "buffered_io \<Rightarrow> int list \<Rightarrow> buffered_io \<times> int list" where
  "buffered_end io fds =
     (case bi_local io of
        None \<Rightarrow> (io, fds)
      | Some client_sock \<Rightarrow> (io\<lparr>bi_client_socket := -1, bi_local := None\<rparr>, close_fd client_sock fds))"

text \<open>\<open>buffered_stop\<close> up to the wait for the task, and after it, when the task has ended or five seconds have passed.\<close>

definition buffered_stop :: "buffered_io \<Rightarrow> int list \<Rightarrow> buffered_io \<times> int list" where
  "buffered_stop io fds =
     (if \<not> bi_running io then (io, fds)
      else
        let fds = (if bi_client_socket io > 0 then close_fd (bi_client_socket io) fds else fds);
            fds = (if bi_listen_socket io > 0 then close_fd (bi_listen_socket io) fds else fds) in
        (io\<lparr>bi_running := False, bi_client_socket := (if bi_client_socket io > 0 then -1 else bi_client_socket io),
            bi_listen_socket := (if bi_listen_socket io > 0 then -1 else bi_listen_socket io)\<rparr>, fds))"

definition buffered_stopped :: "bool \<Rightarrow> buffered_io \<Rightarrow> buffered_io" where
  "buffered_stopped task_ended io = (if \<not> task_ended then io else io\<lparr>bi_task := False, bi_recv_buffer := False, bi_port := 0\<rparr>)"

section \<open>Descriptors are given back\<close>

text \<open>The system hands out descriptors that are not in use, and never the standard ones.\<close>

definition fresh :: "sock_calls \<Rightarrow> int list \<Rightarrow> bool" where
  "fresh c fds \<longleftrightarrow> sc_socket c < 0 \<or> sc_socket c > 0 \<and> sc_socket c \<notin> set fds"

lemma close_fresh [simp]: "fd \<notin> set fds \<Longrightarrow> close_fd fd (fd # fds) = fds" "fd \<notin> set fds \<Longrightarrow> close_fd fd fds = fds"
  "fd \<noteq> fd' \<Longrightarrow> close_fd fd (fd' # fds) = fd' # close_fd fd fds"
  by (auto simp: close_fd_def filter_id_conv)

lemma bind_udp_cases:
  assumes "fresh c fds"
  obtains "socket_utils_bind_udp c fds = ((-1, None), fds)"
  | "socket_utils_bind_udp c fds = ((sc_socket c, Some (sc_port c)), sc_socket c # fds)" "0 < sc_socket c" "sc_socket c \<notin> set fds"
  using assms by (cases "sc_bind c") (auto simp: socket_utils_bind_udp_def fresh_def Let_def)

lemma bind_tcp_cases:
  assumes "fresh c fds"
  obtains "socket_utils_bind_tcp_listener c fds = ((-1, None), fds)"
  | "socket_utils_bind_tcp_listener c fds = ((sc_socket c, Some (sc_port c)), sc_socket c # fds)" "0 < sc_socket c" "sc_socket c \<notin> set fds"
  using assms by (cases "sc_bind c"; cases "sc_listen c") (auto simp: socket_utils_bind_tcp_listener_def fresh_def Let_def)

text \<open>The streams before their first start, and after a stop.\<close>

definition idle_realtime :: "realtime_io \<Rightarrow> bool" where
  "idle_realtime io \<longleftrightarrow> \<not> ri_running io \<and> ri_data_socket io \<le> 0 \<and> ri_control_socket io \<le> 0"

definition idle_buffered :: "buffered_io \<Rightarrow> bool" where
  "idle_buffered io \<longleftrightarrow> \<not> bi_running io \<and> bi_listen_socket io \<le> 0 \<and> bi_client_socket io \<le> 0"

text \<open>Starting the tasks with one or two sockets open.\<close>

lemma realtime_tasks_balance:
  assumes "realtime_tasks c (True, ctrl) io (own @ fds) = (err, io', fds')" "0 < d" "d \<notin> set fds" "ri_data_socket io = d"
    "own = [d] \<and> ri_control_socket io \<le> 0 \<or> own = [k, d] \<and> ri_control_socket io = k \<and> 0 < k \<and> k \<notin> set (d # fds)"
  shows "(err \<noteq> ESP_OK \<longrightarrow> fds' = fds) \<and> (err = ESP_OK \<longrightarrow> snd (realtime_stop a b io' fds') = fds \<and> idle_realtime (fst (realtime_stop a b io' fds')))"
  using assms by (auto simp: realtime_tasks_def realtime_stop_def idle_realtime_def Let_def split: if_splits)

text \<open>
  A realtime stream gives back what it takes: with the stacks allocated at start-up, a start that fails in any of its steps leaves the open descriptors of the process as
  they were, and so does a successful start followed by a stop.
\<close>

theorem realtime_start_stop:
  assumes "idle_realtime io" "fresh (rc_data c) fds" "fresh (rc_control c) (sc_socket (rc_data c) # fds)" "realtime_start c (True, ctrl) port io fds = (err, io', fds')"
  shows "(err \<noteq> ESP_OK \<longrightarrow> fds' = fds) \<and> (err = ESP_OK \<longrightarrow> snd (realtime_stop a b io' fds') = fds \<and> idle_realtime (fst (realtime_stop a b io' fds')))"
proof (cases rule: bind_udp_cases [OF assms(2)])
  case 1
  then show ?thesis using assms(1,4) by (auto simp: realtime_start_def idle_realtime_def Let_def)
next
  case 2
  define d where "d = sc_socket (rc_data c)"
  define io1 where "io1 = io\<lparr>ri_data_socket := d, ri_data_port := sc_port (rc_data c)\<rparr>"
  have d: "0 < d" "d \<notin> set fds" "fresh (rc_control c) (d # fds)" using 2 assms(3) by (simp_all add: d_def)
  have idle: "\<not> ri_running io" "ri_control_socket io \<le> 0" using assms(1) by (simp_all add: idle_realtime_def)
  show ?thesis
  proof (cases "ri_control_port io > 0")
    case False
    then have "realtime_tasks c (True, ctrl) io1 ([d] @ fds) = (err, io', fds')"
      using assms(4) idle(1) 2(1,2) by (simp add: realtime_start_def d_def [symmetric] io1_def bound_def Let_def)
    from realtime_tasks_balance [OF this d(1,2)] show ?thesis using idle(2) by (simp add: io1_def)
  next
    case True
    show ?thesis
    proof (cases rule: bind_udp_cases [OF d(3)])
      case no: 1
      then show ?thesis using assms(4) idle(1) 2(1,2) True d(1,2) by (auto simp: realtime_start_def d_def [symmetric] Let_def)
    next
      case k: 2
      let ?k = "sc_socket (rc_control c)"
      have "realtime_tasks c (True, ctrl) (io1\<lparr>ri_control_socket := ?k, ri_control_port := sc_port (rc_control c)\<rparr>) ([?k, d] @ fds) = (err, io', fds')"
        using assms(4) idle(1) 2(1,2) True k by (simp add: realtime_start_def d_def [symmetric] io1_def bound_def Let_def)
      from realtime_tasks_balance [OF this d(1,2), of ?k] show ?thesis using k(2,3) by (simp add: io1_def)
    qed
  qed
qed

definition demo_calls :: "int \<Rightarrow> sock_calls" where
  "demo_calls fd = \<lparr>sc_socket = fd, sc_bind = True, sc_listen = True, sc_port = 6000\<rparr>"

definition demo_realtime_io :: realtime_io where
  "demo_realtime_io = \<lparr>ri_running = False, ri_data_socket = 0, ri_control_socket = 0, ri_data_port = 0, ri_control_port = 6001, ri_task = False, ri_control_task = False\<rparr>"

theorem realtime_start_stop_witness:
  "fst (realtime_start \<lparr>rc_data = demo_calls 54, rc_control = demo_calls 55, rc_recv_task = True, rc_ctrl_task = True\<rparr> (True, True) 6000 demo_realtime_io [53]) = ESP_OK
   \<and> snd (realtime_stop True True
       (fst (snd (realtime_start \<lparr>rc_data = demo_calls 54, rc_control = demo_calls 55, rc_recv_task = True, rc_ctrl_task = True\<rparr> (True, True) 6000 demo_realtime_io [53])))
       (snd (snd (realtime_start \<lparr>rc_data = demo_calls 54, rc_control = demo_calls 55, rc_recv_task = True, rc_ctrl_task = True\<rparr> (True, True) 6000 demo_realtime_io [53])))) = [53]"
proof -
  let ?c = "\<lparr>rc_data = demo_calls 54, rc_control = demo_calls 55, rc_recv_task = True, rc_ctrl_task = True\<rparr>"
  have ok: "fst (realtime_start ?c (True, True) 6000 demo_realtime_io [53]) = ESP_OK"
    by (simp add: realtime_start_def demo_realtime_io_def demo_calls_def socket_utils_bind_udp_def realtime_tasks_def Let_def)
  obtain e io' f where r: "realtime_start ?c (True, True) 6000 demo_realtime_io [53] = (e, io', f)" by (rule prod_cases3)
  have "idle_realtime demo_realtime_io" "fresh (rc_data ?c) [53]" "fresh (rc_control ?c) (sc_socket (rc_data ?c) # [53])"
    by (simp_all add: idle_realtime_def demo_realtime_io_def fresh_def demo_calls_def)
  from realtime_start_stop [OF this r, of True True] ok r show ?thesis by simp
qed

text \<open>Without the stacks the sockets stay open, and a stop does nothing about it: each attempt to start costs two descriptors.\<close>

lemma realtime_start_leaks:
  assumes "idle_realtime io" "0 < sc_socket (rc_data c)" "sc_bind (rc_data c)" "ri_control_port io > 0" "0 < sc_socket (rc_control c)" "sc_bind (rc_control c)"
  shows "\<exists>io'. realtime_start c (False, ctrl) port io fds = (ESP_FAIL, io', sc_socket (rc_control c) # sc_socket (rc_data c) # fds)
    \<and> snd (realtime_stop a b io' (sc_socket (rc_control c) # sc_socket (rc_data c) # fds)) = sc_socket (rc_control c) # sc_socket (rc_data c) # fds"
  using assms by (auto simp: realtime_start_def socket_utils_bind_udp_def realtime_tasks_def realtime_stop_def idle_realtime_def Let_def)

lemma buffered_start_stop:
  assumes "idle_buffered io" "fresh c fds" "buffered_start c mem task port io fds = (err, io', fds')"
  shows "(err \<noteq> ESP_OK \<longrightarrow> fds' = fds) \<and> (err = ESP_OK \<longrightarrow> snd (buffered_stop io' fds') = fds)"
  by (cases rule: bind_tcp_cases [OF assms(2)])
    (use assms(1,3) in \<open>auto simp: buffered_start_def buffered_stop_def idle_buffered_def Let_def split: if_splits\<close>)

text \<open>
  Stopping a buffered stream closes its connection twice: \<open>buffered_stop\<close> closes the client socket, and the task, which remembers the number, closes it again when its read fails. If another part of
  the firmware has opened a socket in between and got the number, that socket is closed under it.
\<close>

theorem buffered_stop_closes_twice:
  assumes "bi_running io" "0 < client" "client \<notin> set fds"
    "buffered_accept client io fds = (io1, fds1)" "buffered_stop io1 fds1 = (io2, fds2)" "buffered_end io2 (client # fds2) = (io3, fds3)"
  shows "client \<notin> set fds2 \<and> client \<notin> set fds3"
  using assms by (auto simp: buffered_accept_def buffered_stop_def buffered_end_def close_fd_def Let_def split: if_splits)

definition demo_buffered_io :: buffered_io where
  "demo_buffered_io = \<lparr>bi_running = True, bi_listen_socket = 54, bi_client_socket = -1, bi_port = 7000, bi_task = True, bi_stack = True, bi_recv_buffer = True, bi_local = None\<rparr>"

theorem buffered_stop_closes_twice_witness:
  "55 \<notin> set (snd (buffered_end (fst (buffered_stop (fst (buffered_accept 55 demo_buffered_io [54])) (snd (buffered_accept 55 demo_buffered_io [54]))))
     (55 # snd (buffered_stop (fst (buffered_accept 55 demo_buffered_io [54])) (snd (buffered_accept 55 demo_buffered_io [54]))))))"
proof -
  let ?a = "buffered_accept 55 demo_buffered_io [54]"
  let ?s = "buffered_stop (fst ?a) (snd ?a)"
  let ?e = "buffered_end (fst ?s) (55 # snd ?s)"
  have "bi_running demo_buffered_io" "0 < (55 :: int)" "55 \<notin> set [54 :: int]" by (simp_all add: demo_buffered_io_def)
  from buffered_stop_closes_twice [OF this, of "fst ?a" "snd ?a" "fst ?s" "snd ?s" "fst ?e" "snd ?e"] show ?thesis by simp
qed

end
