(* ===== verification/Nvs.thy ===== *)
theory Nvs
  imports Prelude
begin

text \<open>
  The flash store (the NVS library of ESP-IDF) as the settings and the enrolment code see it. The library is not
  part of the repository: it is the record \<open>nvs_lib\<close> over an opaque flash content \<open>'n\<close>, and what its
  documentation promises is \<open>nvs_laws\<close>, stated with the content as a map \<open>view\<close> from namespaces and keys to
  typed values. Integers keep the C type they are stored with; a failed write leaves the old or the new value
  behind, as the documentation says.
\<close>

datatype nvs_type = NVS_U8 | NVS_I8 | NVS_U16 | NVS_U32 | NVS_I32

datatype nvs_value = V_int nvs_type int | V_str bytes | V_blob bytes

record 'n nvs_lib =
  nvs_open_ro :: "'n \<Rightarrow> string \<Rightarrow> esp_err"
  nvs_open_rw :: "'n \<Rightarrow> string \<Rightarrow> esp_err \<times> 'n"
  nvs_get_int :: "'n \<Rightarrow> string \<Rightarrow> nvs_type \<Rightarrow> string \<Rightarrow> esp_err + int"
  nvs_get_str :: "'n \<Rightarrow> string \<Rightarrow> string \<Rightarrow> nat \<Rightarrow> esp_err + bytes"
  nvs_get_blob :: "'n \<Rightarrow> string \<Rightarrow> string \<Rightarrow> nat \<Rightarrow> esp_err + bytes"
  nvs_blob_size :: "'n \<Rightarrow> string \<Rightarrow> string \<Rightarrow> esp_err + nat"
  nvs_str_size :: "'n \<Rightarrow> string \<Rightarrow> string \<Rightarrow> esp_err + nat"
  nvs_set :: "'n \<Rightarrow> string \<Rightarrow> string \<Rightarrow> nvs_value \<Rightarrow> esp_err \<times> 'n"
  nvs_erase_key :: "'n \<Rightarrow> string \<Rightarrow> string \<Rightarrow> esp_err \<times> 'n"
  nvs_erase_all :: "'n \<Rightarrow> string \<Rightarrow> esp_err \<times> 'n"
  nvs_commit :: "'n \<Rightarrow> string \<Rightarrow> esp_err \<times> 'n"

type_synonym 'n nvs_view = "'n \<Rightarrow> string \<Rightarrow> string \<Rightarrow> nvs_value option"

section \<open>What the library promises\<close>

text \<open>Reading: a stored value is found under its type, a string only when the buffer holds its NUL too.\<close>

definition nvs_read_laws :: "'n nvs_lib \<Rightarrow> 'n nvs_view \<Rightarrow> bool" where
  "nvs_read_laws L view \<longleftrightarrow>
     (\<forall>n ns k v. view n ns k = Some v \<longrightarrow> nvs_open_ro L n ns = ESP_OK)
   \<and> (\<forall>n ns k t i. view n ns k = Some (V_int t i) \<longrightarrow> nvs_get_int L n ns t k = Inr i)
   \<and> (\<forall>n ns k t i. nvs_get_int L n ns t k = Inr i \<longrightarrow> view n ns k = Some (V_int t i))
   \<and> (\<forall>n ns k s cap. view n ns k = Some (V_str s) \<longrightarrow>
        nvs_get_str L n ns k cap = (if length s < cap then Inr s else Inl ESP_ERR_NVS_INVALID_LENGTH))
   \<and> (\<forall>n ns k s cap. nvs_get_str L n ns k cap = Inr s \<longrightarrow> view n ns k = Some (V_str s))
   \<and> (\<forall>n ns k b cap. view n ns k = Some (V_blob b) \<longrightarrow>
        nvs_get_blob L n ns k cap = (if length b \<le> cap then Inr b else Inl ESP_ERR_NVS_INVALID_LENGTH))
   \<and> (\<forall>n ns k b cap. nvs_get_blob L n ns k cap = Inr b \<longrightarrow> view n ns k = Some (V_blob b))
   \<and> (\<forall>n ns k b. view n ns k = Some (V_blob b) \<longrightarrow> nvs_blob_size L n ns k = Inr (length b))
   \<and> (\<forall>n ns k s. view n ns k = Some (V_str s) \<longrightarrow> nvs_str_size L n ns k = Inr (length s + 1))"

text \<open>
  Writing: a successful write stores the value under its key and nothing else, a failed one leaves the old or the
  new value there. Opening and committing change no value.
\<close>

definition view_put :: "(string \<Rightarrow> string \<Rightarrow> nvs_value option) \<Rightarrow> string \<Rightarrow> string \<Rightarrow> nvs_value option \<Rightarrow> string \<Rightarrow> string \<Rightarrow> nvs_value option" where
  "view_put m ns k v = m(ns := (m ns)(k := v))"

definition nvs_write_laws :: "'n nvs_lib \<Rightarrow> 'n nvs_view \<Rightarrow> bool" where
  "nvs_write_laws L view \<longleftrightarrow>
     (\<forall>n ns. view (snd (nvs_open_rw L n ns)) = view n)
   \<and> (\<forall>n ns. fst (nvs_open_rw L n ns) = ESP_ERR_NVS_NOT_FOUND \<longrightarrow> view n ns = Map.empty)
   \<and> (\<forall>n ns. view (snd (nvs_commit L n ns)) = view n)
   \<and> (\<forall>n ns k v. fst (nvs_set L n ns k v) = ESP_OK \<longrightarrow> view (snd (nvs_set L n ns k v)) = view_put (view n) ns k (Some v))
   \<and> (\<forall>n ns k v. view (snd (nvs_set L n ns k v)) \<in> {view n, view_put (view n) ns k (Some v)})
   \<and> (\<forall>n ns k. fst (nvs_erase_key L n ns k) = ESP_OK \<longrightarrow> view (snd (nvs_erase_key L n ns k)) = view_put (view n) ns k None)
   \<and> (\<forall>n ns k. view (snd (nvs_erase_key L n ns k)) \<in> {view n, view_put (view n) ns k None})
   \<and> (\<forall>n ns k. fst (nvs_erase_key L n ns k) = ESP_ERR_NVS_NOT_FOUND \<longrightarrow> view n ns k = None)
   \<and> (\<forall>n ns. fst (nvs_erase_all L n ns) = ESP_OK \<longrightarrow> view (snd (nvs_erase_all L n ns)) = (view n)(ns := Map.empty))"

definition nvs_laws :: "'n nvs_lib \<Rightarrow> 'n nvs_view \<Rightarrow> bool" where
  "nvs_laws L view \<longleftrightarrow> nvs_read_laws L view \<and> nvs_write_laws L view"

named_theorems nvs_facts "consequences of the laws of the flash store"

lemma view_put_same [simp]: "view_put m ns k v ns = (m ns)(k := v)"
  by (simp add: view_put_def)

lemma view_put_other [simp]: "ns' \<noteq> ns \<Longrightarrow> view_put m ns k v ns' = m ns'"
  by (simp add: view_put_def)

lemma nvs_read_all:
  assumes "nvs_laws L view"
  shows "\<forall>n ns k v. view n ns k = Some v \<longrightarrow> nvs_open_ro L n ns = ESP_OK"
    and "\<forall>n ns k t i. view n ns k = Some (V_int t i) \<longrightarrow> nvs_get_int L n ns t k = Inr i"
    and "\<forall>n ns k t i. nvs_get_int L n ns t k = Inr i \<longrightarrow> view n ns k = Some (V_int t i)"
    and "\<forall>n ns k s cap. view n ns k = Some (V_str s) \<longrightarrow> nvs_get_str L n ns k cap = (if length s < cap then Inr s else Inl ESP_ERR_NVS_INVALID_LENGTH)"
    and "\<forall>n ns k s cap. nvs_get_str L n ns k cap = Inr s \<longrightarrow> view n ns k = Some (V_str s)"
    and "\<forall>n ns k b cap. view n ns k = Some (V_blob b) \<longrightarrow> nvs_get_blob L n ns k cap = (if length b \<le> cap then Inr b else Inl ESP_ERR_NVS_INVALID_LENGTH)"
    and "\<forall>n ns k b cap. nvs_get_blob L n ns k cap = Inr b \<longrightarrow> view n ns k = Some (V_blob b)"
    and "\<forall>n ns k b. view n ns k = Some (V_blob b) \<longrightarrow> nvs_blob_size L n ns k = Inr (length b)"
    and "\<forall>n ns k s. view n ns k = Some (V_str s) \<longrightarrow> nvs_str_size L n ns k = Inr (length s + 1)"
  using assms unfolding nvs_laws_def nvs_read_laws_def by - (elim conjE, assumption)+

lemmas nvs_read = nvs_read_all [rule_format]

lemma nvs_write_all:
  assumes "nvs_laws L view"
  shows "\<forall>n ns. view (snd (nvs_open_rw L n ns)) = view n"
    and "\<forall>n ns. fst (nvs_open_rw L n ns) = ESP_ERR_NVS_NOT_FOUND \<longrightarrow> view n ns = Map.empty"
    and "\<forall>n ns. view (snd (nvs_commit L n ns)) = view n"
    and "\<forall>n ns k v. fst (nvs_set L n ns k v) = ESP_OK \<longrightarrow> view (snd (nvs_set L n ns k v)) = view_put (view n) ns k (Some v)"
    and "\<forall>n ns k v. view (snd (nvs_set L n ns k v)) \<in> {view n, view_put (view n) ns k (Some v)}"
    and "\<forall>n ns k. fst (nvs_erase_key L n ns k) = ESP_OK \<longrightarrow> view (snd (nvs_erase_key L n ns k)) = view_put (view n) ns k None"
    and "\<forall>n ns k. view (snd (nvs_erase_key L n ns k)) \<in> {view n, view_put (view n) ns k None}"
    and "\<forall>n ns k. fst (nvs_erase_key L n ns k) = ESP_ERR_NVS_NOT_FOUND \<longrightarrow> view n ns k = None"
    and "\<forall>n ns. fst (nvs_erase_all L n ns) = ESP_OK \<longrightarrow> view (snd (nvs_erase_all L n ns)) = (view n)(ns := Map.empty)"
  using assms unfolding nvs_laws_def nvs_write_laws_def by - (elim conjE, assumption)+

lemmas nvs_write = nvs_write_all [rule_format]

section \<open>Saving a group of keys\<close>

text \<open>
  The sequence the setters share: open for writing, set the keys one after the other until one fails,
  commit, close. The first error is returned.
\<close>

primrec nvs_set_all :: "'n nvs_lib \<Rightarrow> string \<Rightarrow> (string \<times> nvs_value) list \<Rightarrow> 'n \<Rightarrow> esp_err \<times> 'n" where
  "nvs_set_all L ns [] n = (ESP_OK, n)"
| "nvs_set_all L ns (kv # kvs) n =
     (case nvs_set L n ns (fst kv) (snd kv) of (err, n) \<Rightarrow>
        if err = ESP_OK then nvs_set_all L ns kvs n else (err, n))"

definition nvs_save :: "'n nvs_lib \<Rightarrow> string \<Rightarrow> (string \<times> nvs_value) list \<Rightarrow> 'n \<Rightarrow> esp_err \<times> 'n" where
  "nvs_save L ns kvs n =
     (case nvs_open_rw L n ns of (err, n) \<Rightarrow>
        if err \<noteq> ESP_OK then (err, n)
        else (case nvs_set_all L ns kvs n of (err, n) \<Rightarrow>
                if err = ESP_OK then nvs_commit L n ns else (err, n)))"

text \<open>A read with a default, for a missing namespace as for a missing key.\<close>

definition nvs_int_or :: "'n nvs_lib \<Rightarrow> 'n \<Rightarrow> string \<Rightarrow> nvs_type \<Rightarrow> string \<Rightarrow> int \<Rightarrow> int" where
  "nvs_int_or L n ns t k dflt =
     (if nvs_open_ro L n ns = ESP_OK then (case nvs_get_int L n ns t k of Inr v \<Rightarrow> v | Inl _ \<Rightarrow> dflt) else dflt)"

lemma nvs_set_all_OK:
  assumes "nvs_laws L view" "nvs_set_all L ns kvs n = (ESP_OK, n')"
  shows "view n' = (view n)(ns := view n ns ++ map_of (rev kvs))"
  using assms(2)
proof (induction kvs arbitrary: n)
  case (Cons kv kvs)
  obtain e m where s: "nvs_set L n ns (fst kv) (snd kv) = (e, m)" by fastforce
  with Cons.prems have "e = ESP_OK" and r: "nvs_set_all L ns kvs m = (ESP_OK, n')" by (auto split: if_splits)
  with s nvs_write(4) [OF assms(1), of n ns "fst kv" "snd kv"]
  have "view m = view_put (view n) ns (fst kv) (Some (snd kv))" by simp
  moreover have "view n' = (view m)(ns := view m ns ++ map_of (rev kvs))" using Cons.IH [OF r] .
  ultimately show ?case by (cases kv) (auto simp: view_put_def map_add_def fun_eq_iff split: option.splits)
qed simp

lemma nvs_save_OK:
  assumes "nvs_laws L view" "nvs_save L ns kvs n = (ESP_OK, n')"
  shows "view n' = (view n)(ns := view n ns ++ map_of (rev kvs))"
proof -
  obtain e m where o: "nvs_open_rw L n ns = (e, m)" by fastforce
  obtain f p where a: "nvs_set_all L ns kvs m = (f, p)" by fastforce
  from assms(2) o a have e: "e = ESP_OK" and f: "f = ESP_OK" and c: "nvs_commit L p ns = (ESP_OK, n')"
    by (auto simp: nvs_save_def split: if_splits)
  have "view m = view n" using nvs_write(1) [OF assms(1), of n ns] o by simp
  moreover have "view n' = view p" using nvs_write(3) [OF assms(1), of p ns] c by simp
  moreover have "view p = (view m)(ns := view m ns ++ map_of (rev kvs))"
    using nvs_set_all_OK [OF assms(1), of ns kvs m p] a f by simp
  ultimately show ?thesis by simp
qed

text \<open>Whatever fails, every stored value is an old one or one of those to be saved.\<close>

lemma nvs_set_all_values:
  assumes "nvs_laws L view" "view (snd (nvs_set_all L ns kvs n)) m k = Some v"
  shows "view n m k = Some v \<or> m = ns \<and> (k, v) \<in> set kvs"
  using assms(2)
proof (induction kvs arbitrary: n)
  case (Cons kv kvs)
  obtain e p where s: "nvs_set L n ns (fst kv) (snd kv) = (e, p)" by fastforce
  have p: "view p = view n \<or> view p = view_put (view n) ns (fst kv) (Some (snd kv))"
    using nvs_write(5) [OF assms(1), of n ns "fst kv" "snd kv"] s by auto
  have "view p m k = Some v \<or> m = ns \<and> (k, v) \<in> set kvs"
    using Cons s by (auto split: if_splits)
  then show ?case using p by (cases kv) (auto simp: view_put_def split: if_splits)
qed simp

lemma nvs_save_values:
  assumes "nvs_laws L view" "view (snd (nvs_save L ns kvs n)) m k = Some v"
  shows "view n m k = Some v \<or> m = ns \<and> (k, v) \<in> set kvs"
proof -
  obtain e p where o: "nvs_open_rw L n ns = (e, p)" by fastforce
  obtain f q where a: "nvs_set_all L ns kvs p = (f, q)" by fastforce
  have p: "view p = view n" using nvs_write(1) [OF assms(1), of n ns] o by simp
  have "view (snd (nvs_commit L q ns)) = view q" by (rule nvs_write(3) [OF assms(1)])
  then have "view p m k = Some v \<or> view q m k = Some v"
    using assms(2) o a by (auto simp: nvs_save_def split: if_splits)
  moreover have "view q m k = Some v \<Longrightarrow> view p m k = Some v \<or> m = ns \<and> (k, v) \<in> set kvs"
    using nvs_set_all_values [OF assms(1), of ns kvs p m k v] a by simp
  ultimately show ?thesis using p by auto
qed

lemma nvs_int_or_stored: "nvs_laws L view \<Longrightarrow> view n ns k = Some (V_int t i) \<Longrightarrow> nvs_int_or L n ns t k d = i"
  using nvs_read(1) [of L view n ns k] nvs_read(2) [of L view n ns k] by (simp add: nvs_int_or_def)

lemma nvs_int_or_cases: "nvs_laws L view \<Longrightarrow> nvs_int_or L n ns t k d = d \<or> view n ns k = Some (V_int t (nvs_int_or L n ns t k d))"
  using nvs_read(3) [of L view n ns t k] by (auto simp: nvs_int_or_def split: sum.splits)

section \<open>An instance\<close>

text \<open>
  A flash store that keeps its promises: an association list, and a number of writes after
  which it is full.
\<close>

record demo_flash =
  df_data :: "((string \<times> string) \<times> nvs_value) list"
  df_room :: nat

definition demo_view :: "demo_flash nvs_view" where
  "demo_view n ns k = map_of (df_data n) (ns, k)"

definition demo_set :: "demo_flash \<Rightarrow> string \<Rightarrow> string \<Rightarrow> nvs_value \<Rightarrow> esp_err \<times> demo_flash" where
  "demo_set n ns k v = (if df_room n = 0 then (ESP_FAIL, n)
     else (ESP_OK, n\<lparr>df_data := ((ns, k), v) # df_data n, df_room := df_room n - 1\<rparr>))"

definition demo_nvs :: "demo_flash nvs_lib" where
  "demo_nvs = \<lparr>
     nvs_open_ro = (\<lambda>n ns. if list_ex (\<lambda>e. fst (fst e) = ns) (df_data n) then ESP_OK else ESP_ERR_NVS_NOT_FOUND),
     nvs_open_rw = (\<lambda>n ns. (ESP_OK, n)),
     nvs_get_int = (\<lambda>n ns t k. case demo_view n ns k of
        Some (V_int u i) \<Rightarrow> if u = t then Inr i else Inl ESP_FAIL | _ \<Rightarrow> Inl ESP_ERR_NVS_NOT_FOUND),
     nvs_get_str = (\<lambda>n ns k cap. case demo_view n ns k of
        Some (V_str s) \<Rightarrow> if length s < cap then Inr s else Inl ESP_ERR_NVS_INVALID_LENGTH | _ \<Rightarrow> Inl ESP_ERR_NVS_NOT_FOUND),
     nvs_get_blob = (\<lambda>n ns k cap. case demo_view n ns k of
        Some (V_blob b) \<Rightarrow> if length b \<le> cap then Inr b else Inl ESP_ERR_NVS_INVALID_LENGTH | _ \<Rightarrow> Inl ESP_ERR_NVS_NOT_FOUND),
     nvs_blob_size = (\<lambda>n ns k. case demo_view n ns k of Some (V_blob b) \<Rightarrow> Inr (length b) | _ \<Rightarrow> Inl ESP_ERR_NVS_NOT_FOUND),
     nvs_str_size = (\<lambda>n ns k. case demo_view n ns k of Some (V_str s) \<Rightarrow> Inr (length s + 1) | _ \<Rightarrow> Inl ESP_ERR_NVS_NOT_FOUND),
     nvs_set = demo_set,
     nvs_erase_key = (\<lambda>n ns k. if demo_view n ns k = None then (ESP_ERR_NVS_NOT_FOUND, n)
        else (ESP_OK, n\<lparr>df_data := filter (\<lambda>e. fst e \<noteq> (ns, k)) (df_data n)\<rparr>)),
     nvs_erase_all = (\<lambda>n ns. (ESP_OK, n\<lparr>df_data := filter (\<lambda>e. fst (fst e) \<noteq> ns) (df_data n)\<rparr>)),
     nvs_commit = (\<lambda>n ns. (ESP_OK, n))\<rparr>"

lemma map_of_filter_key: "map_of (filter (\<lambda>e. P (fst e)) xs) k = (if P k then map_of xs k else None)"
  by (induction xs) auto

lemma demo_open: "demo_view n ns k = Some v \<Longrightarrow> nvs_open_ro demo_nvs n ns = ESP_OK"
  by (auto simp: demo_view_def demo_nvs_def list_ex_iff dest!: map_of_SomeD intro!: bexI)

lemma demo_read_laws: "nvs_read_laws demo_nvs demo_view"
  unfolding nvs_read_laws_def
  by (intro conjI allI impI demo_open) (auto simp: demo_nvs_def split: option.splits nvs_value.splits if_splits)

lemma demo_erase_key_view: "demo_view (n\<lparr>df_data := filter (\<lambda>e. fst e \<noteq> (ns, k)) (df_data n)\<rparr>) = view_put (demo_view n) ns k None"
  by (auto simp: demo_view_def view_put_def fun_eq_iff map_of_filter_key [where P = "\<lambda>q. q \<noteq> (ns, k)"])

lemma demo_erase_all_view: "demo_view (n\<lparr>df_data := filter (\<lambda>e. fst (fst e) \<noteq> ns) (df_data n)\<rparr>) = (demo_view n)(ns := Map.empty)"
  by (auto simp: demo_view_def fun_eq_iff map_of_filter_key [where P = "\<lambda>q. fst q \<noteq> ns"])

lemma demo_set_view: "fst (demo_set n ns k v) = ESP_OK \<Longrightarrow> demo_view (snd (demo_set n ns k v)) = view_put (demo_view n) ns k (Some v)"
  by (auto simp: demo_set_def demo_view_def view_put_def fun_eq_iff split: if_splits)

lemma demo_set_fails: "fst (demo_set n ns k v) \<noteq> ESP_OK \<Longrightarrow> snd (demo_set n ns k v) = n"
  by (auto simp: demo_set_def split: if_splits)

lemma demo_write_laws: "nvs_write_laws demo_nvs demo_view"
proof -
  have "demo_view (snd (demo_set n ns k v)) \<in> {demo_view n, view_put (demo_view n) ns k (Some v)}" for n ns k v
    using demo_set_view [of n ns k v] demo_set_fails [of n ns k v] by (cases "fst (demo_set n ns k v) = ESP_OK") auto
  then show ?thesis
    unfolding nvs_write_laws_def
    by (simp add: demo_nvs_def demo_set_view demo_erase_key_view demo_erase_all_view)
qed

lemma demo_nvs_laws: "nvs_laws demo_nvs demo_view"
  by (simp add: nvs_laws_def demo_read_laws demo_write_laws)

end
