(* ===== verification/Pogdev_Discovery.thy ===== *)
theory Pogdev_Discovery
  imports C_String
begin

text \<open>
  Finding the home server (\<open>components/pogdev/pogdev_discovery.c\<close>). The answers of the mDNS service are lists (of records, TXT items and
  addresses), the name resolver is an argument, and one turn of the discovery task is a function of what the query returned. An address is the
  32-bit number of \<open>esp_ip4_addr_t\<close>, whose lowest byte is the first one written.
\<close>

section \<open>Definitions\<close>

record pogdev_server =
  srv_host :: bytes
  srv_addr :: u32
  srv_api_port :: u16
  srv_mqtt_port :: u16
  srv_tls :: bool
  srv_proto :: int

record mdns_result =
  mr_hostname :: "bytes option"
  mr_port :: u16
  mr_txt :: "(bytes option \<times> bytes option) list"
  mr_addrs :: "(bool \<times> u32) list"

text \<open>Where \<open>strtol\<close> leaves its end pointer.\<close>

definition strtol_tail :: "bytes \<Rightarrow> bytes" where
  "strtol_tail s =
     (let t = dropWhile isspace s;
          t = (case t of c # r \<Rightarrow> if c = 45 \<or> c = 43 then r else t | [] \<Rightarrow> t) in
      if takeWhile isdigit t = [] then s else dropWhile isdigit t)"

definition fallback_port :: "bytes \<Rightarrow> u16 option" where
  "fallback_port auth =
     (if 58 \<in> set auth then
        (let text_port = tl (dropWhile (\<lambda>c. c \<noteq> 58) auth) in
         if length text_port = 0 \<or> length text_port \<ge> 6 then None
         else if strtol_tail text_port \<noteq> [] \<or> strtol text_port < 1 \<or> strtol text_port > 65535 then None
         else Some (of_int (strtol text_port)))
      else Some 8090)"

definition fallback_server :: "(bytes \<Rightarrow> u32 option) \<Rightarrow> bytes \<Rightarrow> pogdev_server option" where
  "fallback_server resolve url =
     (if \<not> starts (asc ''http://'') url then None
      else
        let authority = drop 7 url;
            auth = takeWhile (\<lambda>c. c \<noteq> 47 \<and> c \<noteq> 63 \<and> c \<noteq> 35) authority;
            rest = drop (length auth) authority;
            host = takeWhile (\<lambda>c. c \<noteq> 58) auth in
        if auth = [] \<or> 64 \<in> set authority \<or> (rest \<noteq> [] \<and> rest \<noteq> [47]) then None
        else if length (filter (\<lambda>c. c = 58) auth) > 1 then None
        else if length host = 0 \<or> length host \<ge> 64 then None
        else (case fallback_port auth of
                None \<Rightarrow> None
              | Some port \<Rightarrow>
                  (case resolve host of
                     None \<Rightarrow> None
                   | Some a \<Rightarrow> Some \<lparr>srv_host = host, srv_addr = a, srv_api_port = port, srv_mqtt_port = 1883, srv_tls = False, srv_proto = 1\<rparr>)))"

fun txt_u16 :: "(bytes option \<times> bytes option) list \<Rightarrow> bytes \<Rightarrow> u16 \<Rightarrow> u16" where
  "txt_u16 [] key fallback = fallback"
| "txt_u16 ((k, v) # txt_rest) key fallback =
     (case (k, v) of
        (Some k, Some v) \<Rightarrow>
          if k = key \<and> strtol v > 0 \<and> strtol v \<le> 65535 then of_int (strtol v) else txt_u16 txt_rest key fallback
      | _ \<Rightarrow> txt_u16 txt_rest key fallback)"

fun txt_flag :: "(bytes option \<times> bytes option) list \<Rightarrow> bytes \<Rightarrow> bool" where
  "txt_flag [] key = False"
| "txt_flag ((k, v) # txt_rest) key =
     (case (k, v) of
        (Some k, Some v) \<Rightarrow> if k = key then take 1 v = [49] else txt_flag txt_rest key
      | _ \<Rightarrow> txt_flag txt_rest key)"

definition candidate :: "mdns_result \<Rightarrow> u32 \<Rightarrow> pogdev_server" where
  "candidate r a = \<lparr>srv_host = (case mr_hostname r of Some h \<Rightarrow> take 63 h | None \<Rightarrow> []), srv_addr = a,
     srv_api_port = txt_u16 (mr_txt r) (asc ''api'') (mr_port r), srv_mqtt_port = txt_u16 (mr_txt r) (asc ''mqtt'') 1883,
     srv_tls = txt_flag (mr_txt r) (asc ''tls''), srv_proto = uint (txt_u16 (mr_txt r) (asc ''proto'') 1)\<rparr>"

text \<open>The address and netmask of the WiFi interface, when it has them.\<close>

type_synonym wifi_net = "(u32 \<times> u32) option"

definition on_subnet :: "wifi_net \<Rightarrow> pogdev_server \<Rightarrow> bool" where
  "on_subnet wifi c = (case wifi of
     Some (ip, netmask) \<Rightarrow> ip \<noteq> 0 \<and> netmask \<noteq> 0 \<and> srv_addr c AND netmask = ip AND netmask | None \<Rightarrow> False)"

definition server_score :: "wifi_net \<Rightarrow> pogdev_server \<Rightarrow> int" where
  "server_score wifi c = (if on_subnet wifi c then 100 else 0) + (if \<not> srv_tls c then 10 else 0) + (if srv_proto c = 1 then 5 else 0)"

definition consider_candidate :: "wifi_net \<Rightarrow> (pogdev_server \<times> int) option \<Rightarrow> pogdev_server \<Rightarrow> (pogdev_server \<times> int) option" where
  "consider_candidate wifi best c =
     (let score = server_score wifi c in
      case best of
        None \<Rightarrow> Some (c, score)
      | Some (b, best_score) \<Rightarrow> if score > best_score then Some (c, score) else best)"

definition take_addrs :: "wifi_net \<Rightarrow> (pogdev_server \<times> int) option \<Rightarrow> mdns_result \<Rightarrow> (pogdev_server \<times> int) option" where
  "take_addrs wifi best r =
     foldl (\<lambda>best a. if \<not> fst a then best else consider_candidate wifi best (candidate r (snd a))) best (mr_addrs r)"

definition take_result :: "wifi_net \<Rightarrow> mdns_result list \<Rightarrow> pogdev_server option" where
  "take_result wifi rs = map_option fst (foldl (take_addrs wifi) None rs)"

record discovery =
  d_server :: pogdev_server
  d_have_server :: bool

definition RETRY_NOT_FOUND_MS :: nat where "RETRY_NOT_FOUND_MS = 10000"
definition RETRY_FOUND_MS :: nat where "RETRY_FOUND_MS = 300000"
definition FALLBACK_AFTER_MS :: int where "FALLBACK_AFTER_MS = 30000"
definition QUERY_TIMEOUT_MS :: int where "QUERY_TIMEOUT_MS = 3000"

text \<open>One turn of the task: the answer of the query (\<open>None\<close>: it failed), the time since the start, and the delay before the next turn.\<close>

definition discovery_turn ::
    "(bytes \<Rightarrow> u32 option) \<Rightarrow> bytes \<Rightarrow> wifi_net \<Rightarrow> mdns_result list option \<Rightarrow> int \<Rightarrow> discovery \<Rightarrow> nat \<times> discovery" where
  "discovery_turn resolve fallback_url wifi results elapsed_us d =
     (let server = (case results of None \<Rightarrow> None | Some rs \<Rightarrow> take_result wifi rs);
          server = (if server = None \<and> fallback_url \<noteq> [] \<and> cdiv elapsed_us 1000 + QUERY_TIMEOUT_MS \<ge> FALLBACK_AFTER_MS
                    then fallback_server resolve fallback_url else server) in
      case server of
        Some s \<Rightarrow> (RETRY_FOUND_MS, d\<lparr>d_server := s, d_have_server := True\<rparr>)
      | None \<Rightarrow> (RETRY_NOT_FOUND_MS, d))"

definition pogdev_discovery_get :: "discovery \<Rightarrow> pogdev_server option" where
  "pogdev_discovery_get d = (if d_have_server d then Some (d_server d) else None)"

section \<open>The server that is chosen\<close>

definition candidates :: "mdns_result list \<Rightarrow> pogdev_server list" where
  "candidates rs = concat (map (\<lambda>r. map (\<lambda>a. candidate r (snd a)) (filter fst (mr_addrs r))) rs)"

lemma take_addrs_fold: "take_addrs wifi best r = foldl (consider_candidate wifi) best (map (\<lambda>a. candidate r (snd a)) (filter fst (mr_addrs r)))"
proof -
  have "foldl (\<lambda>best a. if \<not> fst a then best else consider_candidate wifi best (candidate r (snd a))) best xs
      = foldl (consider_candidate wifi) best (map (\<lambda>a. candidate r (snd a)) (filter fst xs))" for xs
    by (induction xs arbitrary: best) auto
  then show ?thesis by (simp add: take_addrs_def)
qed

lemma take_result_fold: "take_result wifi rs = map_option fst (foldl (consider_candidate wifi) None (candidates rs))"
proof -
  have "foldl (take_addrs wifi) best rs = foldl (consider_candidate wifi) best (candidates rs)" for best
    by (induction rs arbitrary: best) (simp_all add: candidates_def take_addrs_fold)
  then show ?thesis by (simp add: take_result_def)
qed

lemma consider_simps [simp]:
  "consider_candidate wifi None c = Some (c, server_score wifi c)"
  "consider_candidate wifi (Some (b, s)) c = (if server_score wifi c > s then Some (c, server_score wifi c) else Some (b, s))"
  by (simp_all add: consider_candidate_def Let_def)

lemma consider_fold:
  "foldl (consider_candidate wifi) (Some (b, server_score wifi b)) cs = Some (c, s)
    \<Longrightarrow> s = server_score wifi c \<and> c \<in> insert b (set cs) \<and> (\<forall>d \<in> insert b (set cs). server_score wifi d \<le> s)"
proof (induction cs arbitrary: b)
  case (Cons d ds)
  show ?case
  proof (cases "server_score wifi d > server_score wifi b")
    case True
    with Cons.prems have "foldl (consider_candidate wifi) (Some (d, server_score wifi d)) ds = Some (c, s)"
      by simp
    from Cons.IH [OF this] True show ?thesis by force
  next
    case False
    with Cons.prems have "foldl (consider_candidate wifi) (Some (b, server_score wifi b)) ds = Some (c, s)"
      by simp
    from Cons.IH [OF this] False show ?thesis by force
  qed
qed auto

lemma consider_fold_Some: "\<exists>c s. foldl (consider_candidate wifi) (Some b) cs = Some (c, s)"
proof (induction cs arbitrary: b)
  case (Cons d ds)
  then show ?case by (cases b) auto
qed (metis prod.collapse foldl_Nil)

text \<open>
  The server taken from a set of mDNS answers is one of the announced IPv4 addresses, of the highest score, and there is none only if no IPv4 address was announced. A
  server on the subnet of the WiFi interface always wins over the others, whatever the order of the answers.
\<close>

theorem best_server:
  "(take_result wifi rs = None \<longleftrightarrow> candidates rs = [])
   \<and> (\<forall>c. take_result wifi rs = Some c \<longrightarrow> c \<in> set (candidates rs)
        \<and> (\<forall>d \<in> set (candidates rs). server_score wifi d \<le> server_score wifi c)
        \<and> ((\<exists>d \<in> set (candidates rs). on_subnet wifi d) \<longrightarrow> on_subnet wifi c))"
proof (cases "candidates rs")
  case (Cons b cs)
  have f: "foldl (consider_candidate wifi) None (candidates rs) = foldl (consider_candidate wifi) (Some (b, server_score wifi b)) cs"
    by (simp add: Cons)
  have sub: "on_subnet wifi c" if "server_score wifi d \<le> server_score wifi c" "on_subnet wifi d" for c d
    using that by (auto simp: server_score_def split: if_splits)
  have some: "take_result wifi rs \<noteq> None" using consider_fold_Some [of wifi "(b, server_score wifi b)" cs] by (auto simp: take_result_fold f)
  have best: "c \<in> set (candidates rs) \<and> (\<forall>d \<in> set (candidates rs). server_score wifi d \<le> server_score wifi c)"
    if "take_result wifi rs = Some c" for c
    using that consider_fold [of wifi b cs c] by (auto simp: take_result_fold f Cons)
  show ?thesis
  proof (intro conjI allI impI)
    show "take_result wifi rs = None \<longleftrightarrow> candidates rs = []" using some Cons by simp
  next
    fix c
    assume c: "take_result wifi rs = Some c"
    from best [OF c] show "c \<in> set (candidates rs)" "\<forall>d \<in> set (candidates rs). server_score wifi d \<le> server_score wifi c" by auto
    assume "\<exists>d \<in> set (candidates rs). on_subnet wifi d"
    with best [OF c] sub show "on_subnet wifi c" by blast
  qed
qed (simp add: take_result_fold)

theorem best_server_witness:
  "let far = \<lparr>mr_hostname = Some (asc ''old''), mr_port = 8090, mr_txt = [], mr_addrs = [(False, 1), (True, 0x0100000A)]\<rparr>;
       near = \<lparr>mr_hostname = Some (asc ''new''), mr_port = 8090, mr_txt = [(Some (asc ''tls''), Some (asc ''1''))], mr_addrs = [(True, 0x0201A8C0)]\<rparr> in
   map_option srv_host (take_result (Some (0x0501A8C0, 0x00FFFFFF)) [far, near]) = Some (asc ''new'')"
proof -
  let ?far = "\<lparr>mr_hostname = Some (asc ''old''), mr_port = 8090, mr_txt = [], mr_addrs = [(False, 1), (True, 0x0100000A)]\<rparr>"
  let ?near = "\<lparr>mr_hostname = Some (asc ''new''), mr_port = 8090, mr_txt = [(Some (asc ''tls''), Some (asc ''1''))], mr_addrs = [(True, 0x0201A8C0)]\<rparr>"
  let ?w = "Some (0x0501A8C0, 0x00FFFFFF) :: wifi_net"
  have c: "candidates [?far, ?near] = [candidate ?far 0x0100000A, candidate ?near 0x0201A8C0]" by (simp add: candidates_def)
  have n: "on_subnet ?w (candidate ?near 0x0201A8C0)" "\<not> on_subnet ?w (candidate ?far 0x0100000A)"
    by (simp_all add: on_subnet_def candidate_def)
  note b = best_server [of ?w "[?far, ?near]", unfolded c]
  then obtain s where s: "take_result ?w [?far, ?near] = Some s" by auto
  with b have "s \<in> {candidate ?far 0x0100000A, candidate ?near 0x0201A8C0}" "on_subnet ?w s" using n(1) by auto
  with n(2) have "s = candidate ?near 0x0201A8C0" by auto
  with s show ?thesis by (simp add: Let_def candidate_def)
qed

section \<open>The configured address\<close>

definition host_byte :: "u8 \<Rightarrow> bool" where
  "host_byte c \<longleftrightarrow> c \<notin> {47, 63, 35, 58, 64}"

lemma dec_host_bytes: "c \<in> set (dec n) \<Longrightarrow> c \<notin> {47, 63, 35, 58, 64}"
proof -
  assume "c \<in> set (dec n)"
  then have "isdigit c" using dec_digits by blast
  then show ?thesis by (auto simp: isdigit_def)
qed

lemma strtol_tail_dec: "strtol_tail (dec n) = []"
proof -
  obtain c s where s: "dec n = c # s" by (cases "dec n") auto
  then have c: "isdigit c" using dec_digits [of n] by simp
  have "dropWhile isspace (dec n) = dec n" using digit_facts [OF c] s by simp
  moreover have "dropWhile isdigit (dec n) = []" "takeWhile isdigit (dec n) = dec n" using dec_digits [of n] by auto
  ultimately show ?thesis using digit_facts [OF c] by (simp add: strtol_tail_def s)
qed

lemma dec_length5: "n \<le> 65535 \<Longrightarrow> length (dec n) \<le> 5"
proof -
  assume n: "n \<le> 65535"
  have "length (dec m) \<le> k" if "m < 10 ^ k" "0 < k" for m k
    using that
  proof (induction k arbitrary: m)
    case (Suc k)
    show ?case
    proof (cases "m < 10")
      case False
      with Suc.prems have "m div 10 < 10 ^ k" "0 < k" by (auto simp: less_mult_imp_div_less) (cases k; simp)
      with Suc.IH [of "m div 10"] False show ?thesis by (subst dec.simps) simp
    qed (subst dec.simps, simp)
  qed simp
  from this [of n 5] n show ?thesis by simp
qed

text \<open>
  A plain address \<open>http://host:port/\<close>, with or without the port and the final slash, is understood: the fallback server has that name and port.
\<close>

theorem fallback_understood:
  assumes "\<forall>c \<in> set host. host_byte c" "0 < length host" "length host < 64" "1 \<le> port" "port \<le> 65535" "resolve host = Some a"
  shows "map_option (\<lambda>s. (srv_host s, srv_addr s, srv_api_port s))
      (fallback_server resolve (asc ''http://'' @ host @ (58 # dec port) @ (if slash then [47] else [])))
    = Some (host, a, of_nat port)
    \<and> map_option (\<lambda>s. (srv_host s, srv_addr s, srv_api_port s)) (fallback_server resolve (asc ''http://'' @ host @ (if slash then [47] else [])))
    = Some (host, a, 8090)"
proof -
  let ?stop = "\<lambda>c :: u8. c \<noteq> 47 \<and> c \<noteq> 63 \<and> c \<noteq> 35"
  define tail :: bytes where "tail = (if slash then [47] else [])"
  have tail: "tail = [] \<or> tail = [47]" by (simp add: tail_def)
  have h: "\<forall>c \<in> set host. ?stop c \<and> c \<noteq> 58 \<and> c \<noteq> 64" using assms(1) by (auto simp: host_byte_def)
  have d: "\<forall>c \<in> set (dec port). ?stop c \<and> c \<noteq> 58 \<and> c \<noteq> 64" using dec_host_bytes by blast
  have pre: "starts (asc ''http://'') (asc ''http://'' @ x)" "drop 7 (asc ''http://'' @ x) = x" for x
    by (simp_all add: starts_def)
  have len7: "length (asc ''http://'') = 7" by simp
  have tw: "takeWhile ?stop (y @ tail) = y" if "\<forall>c \<in> set y. ?stop c" for y
    using that tail by (auto simp: takeWhile_append2)
  have hw: "takeWhile (\<lambda>c. c \<noteq> 58) (host @ 58 # z) = host" "dropWhile (\<lambda>c. c \<noteq> 58) (host @ 58 # z) = 58 # z"
    "takeWhile (\<lambda>c. c \<noteq> 58) host = host" for z
    using h by (auto simp: takeWhile_append2 dropWhile_append2)
  have one: "filter (\<lambda>c. c = 58) host = []" "filter (\<lambda>c. c = 58) (dec port) = []" using h d by (auto simp: filter_empty_conv)
  have "fallback_port (host @ 58 # dec port) = Some (of_int (int port))"
    using assms(4,5) strtol_dec [of "[]" "[]" port] dec_length5 [OF assms(5)]
    by (simp add: fallback_port_def hw strtol_tail_dec not_le)
  then have p: "fallback_port (host @ 58 # dec port) = Some (of_nat port)" by simp
  have q: "fallback_port host = Some 8090" using h by (auto simp: fallback_port_def)
  have w1: "takeWhile ?stop (host @ 58 # dec port @ tail) = host @ 58 # dec port" 
  proof -
    have "\<forall>c \<in> set (host @ 58 # dec port). ?stop c" using h d by (simp add: ball_Un)
    from tw [OF this] show ?thesis by simp
  qed
  have w2: "takeWhile ?stop (host @ tail) = host" by (rule tw) (use h in simp)
  have n64: "64 \<notin> set (host @ 58 # dec port @ tail)" "64 \<notin> set (host @ tail)"
  proof -
    have "64 \<notin> set host" using h by blast
    moreover have "64 \<notin> set (dec port)" using d by blast
    moreover have "64 \<notin> set tail" using tail by (elim disjE) simp_all
    ultimately show "64 \<notin> set (host @ 58 # dec port @ tail)" "64 \<notin> set (host @ tail)" by simp_all
  qed
  have 1: "fallback_server resolve (asc ''http://'' @ host @ (58 # dec port) @ tail)
      = Some \<lparr>srv_host = host, srv_addr = a, srv_api_port = of_nat port, srv_mqtt_port = 1883, srv_tls = False, srv_proto = 1\<rparr>"
    using assms(2,3,6) n64(1) tail by (simp add: fallback_server_def Let_def pre len7 w1 hw one p del: asc_simps)
  have 2: "fallback_server resolve (asc ''http://'' @ host @ tail)
      = Some \<lparr>srv_host = host, srv_addr = a, srv_api_port = 8090, srv_mqtt_port = 1883, srv_tls = False, srv_proto = 1\<rparr>"
    using assms(2,3,6) n64(2) tail by (simp add: fallback_server_def Let_def pre len7 w2 hw one q del: asc_simps)
  show ?thesis using 1 2 unfolding tail_def by simp
qed

theorem fallback_understood_witness:
  "map_option srv_api_port (fallback_server (\<lambda>_. Some 0x0100007F) (asc ''http://'' @ asc ''home.local'' @ (58 # dec 81) @ [47])) = Some 81"
proof -
  have "\<forall>c \<in> set (asc ''home.local''). host_byte c" by (simp add: host_byte_def)
  from fallback_understood [OF this, of 81 "\<lambda>_. Some 0x0100007F" "0x0100007F" True] show ?thesis
    by (auto simp: option.map_comp comp_def)
qed

end
