(* ===== verification/Pogdev_Enrol.thy ===== *)
theory Pogdev_Enrol
  imports Nvs Pogdev_Discovery
begin

text \<open>
  Adoption by the home server (\<open>components/pogdev/pogdev_enrol.c\<close>). The record \<open>enrol\<close> is the state behind the file's mutex; every
  function is one or several critical sections on it. The flash store is \<open>nvs_lib\<close>; the HTTP exchange is what the server's reply brought, and
  the JSON library is the record \<open>json_lib\<close> of the accessors the code calls. Strings are byte lists without their NUL.
\<close>

section \<open>State and libraries\<close>

record pogdev_creds =
  cr_device_id :: bytes
  cr_mqtt_host :: bytes
  cr_mqtt_port :: u16
  cr_mqtt_password :: bytes

record 'n enrol =
  en_nvs :: 'n
  s_creds :: pogdev_creds
  s_have_creds :: bool
  s_lock :: bool
  s_forgetting :: bool
  s_hw_id :: bytes
  s_claim_secret :: bytes
  s_device_name :: bytes

abbreviation NVS_NS :: string where "NVS_NS \<equiv> ''pogdev''"

definition PROV_CHAL_MAX :: nat where "PROV_CHAL_MAX = 64"
definition PROV_JWS_MAX :: nat where "PROV_JWS_MAX = 3072"
definition RESP_MAX :: nat where "RESP_MAX = 1024"

definition no_creds :: pogdev_creds where
  "no_creds = \<lparr>cr_device_id = [], cr_mqtt_host = [], cr_mqtt_port = 0, cr_mqtt_password = []\<rparr>"

definition enrol_boot :: "'n \<Rightarrow> 'n enrol" where
  "enrol_boot n = \<lparr>en_nvs = n, s_creds = no_creds, s_have_creds = False, s_lock = False, s_forgetting = False, s_hw_id = [],
     s_claim_secret = [], s_device_name = []\<rparr>"

record 'j json_lib =
  js_parse :: "bytes \<Rightarrow> 'j option"
  js_item :: "'j \<Rightarrow> string \<Rightarrow> 'j option"
  js_str :: "'j \<Rightarrow> bytes option"
  js_num :: "'j \<Rightarrow> int option"

text \<open>What an HTTP exchange does: the client is created, the connection opens, the status, and the bytes of the body.\<close>

record http_reply =
  hr_init :: bool
  hr_open :: bool
  hr_status :: int
  hr_body :: bytes

section \<open>Identity\<close>

definition ensure_state_lock :: "bool \<Rightarrow> 'n enrol \<Rightarrow> esp_err \<times> 'n enrol" where
  "ensure_state_lock created s =
     (if s_lock s then (ESP_OK, s) else if \<not> created then (ESP_ERR_NO_MEM, s) else (ESP_OK, s\<lparr>s_lock := True\<rparr>))"

definition hex_nibble :: "u8 \<Rightarrow> u8 \<Rightarrow> u8" where
  "hex_nibble ten d = (if d < 10 then 48 + d else ten + (d - 10))"

definition hex_byte :: "u8 \<Rightarrow> u8 \<Rightarrow> bytes" where
  "hex_byte ten b = [hex_nibble ten (drop_bit 4 b), hex_nibble ten (b AND 0x0F)]"

text \<open>\<open>%02X\<close> and \<open>%02x\<close>.\<close>

definition build_hw_id :: "bytes \<Rightarrow> 'n enrol \<Rightarrow> 'n enrol" where
  "build_hw_id mac s = s\<lparr>s_hw_id := asc ''ESP-AIRPLAY-'' @ concat (map (hex_byte 65) (take 6 mac))\<rparr>"

definition pogdev_hw_id :: "bytes \<Rightarrow> 'n enrol \<Rightarrow> bytes \<times> 'n enrol" where
  "pogdev_hw_id mac s = (let s = (if s_hw_id s = [] then build_hw_id mac s else s) in (s_hw_id s, s))"

definition pogdev_fw_version :: "bytes option \<Rightarrow> bytes" where
  "pogdev_fw_version app = (case app of None \<Rightarrow> asc ''0.0.0'' | Some v \<Rightarrow> if v = [] then asc ''0.0.0'' else v)"

text \<open>\<open>IPSTR\<close>: the four bytes of an address in decimal.\<close>

definition ip4_text :: "u32 \<Rightarrow> bytes" where
  "ip4_text a = dec (unat (a AND 0xFF)) @ [46] @ dec (unat (drop_bit 8 a AND 0xFF)) @ [46] @ dec (unat (drop_bit 16 a AND 0xFF))
     @ [46] @ dec (unat (drop_bit 24 a AND 0xFF))"

section \<open>The flash store\<close>

definition load_state :: "'n nvs_lib \<Rightarrow> 'n enrol \<Rightarrow> bool \<times> 'n enrol" where
  "load_state L s =
     (if s_forgetting s then (False, s)
      else if nvs_open_ro L (en_nvs s) NVS_NS \<noteq> ESP_OK then (False, s)
      else
        let s = (case nvs_get_str L (en_nvs s) NVS_NS ''claim'' 65 of Inr c \<Rightarrow> s\<lparr>s_claim_secret := c\<rparr> | Inl _ \<Rightarrow> s) in
        case (nvs_get_str L (en_nvs s) NVS_NS ''dev_id'' 48, nvs_get_str L (en_nvs s) NVS_NS ''mqtt_pw'' 80,
              nvs_get_str L (en_nvs s) NVS_NS ''mqtt_host'' 48) of
          (Inr d, Inr p, Inr h) \<Rightarrow>
            (let port = (case nvs_get_int L (en_nvs s) NVS_NS NVS_U16 ''mqtt_port'' of Inr i \<Rightarrow> word_of_int i | Inl _ \<Rightarrow> 1883) in
             (True, s\<lparr>s_creds := \<lparr>cr_device_id = d, cr_mqtt_host = h, cr_mqtt_port = port, cr_mqtt_password = p\<rparr>, s_have_creds := True\<rparr>))
        | _ \<Rightarrow> (False, s))"

definition save_enrol :: "'n nvs_lib \<Rightarrow> (string \<times> nvs_value) list \<Rightarrow> 'n enrol \<Rightarrow> esp_err \<times> 'n enrol" where
  "save_enrol L kvs s = (case nvs_save L NVS_NS kvs (en_nvs s) of (err, n) \<Rightarrow> (err, s\<lparr>en_nvs := n\<rparr>))"

text \<open>\<open>raw\<close> are the 32 random bytes.\<close>

definition ensure_claim_secret :: "'n nvs_lib \<Rightarrow> bytes \<Rightarrow> 'n enrol \<Rightarrow> esp_err \<times> 'n enrol" where
  "ensure_claim_secret L raw s =
     (if s_forgetting s then (ESP_ERR_INVALID_STATE, s)
      else if s_claim_secret s \<noteq> [] then (ESP_OK, s)
      else let secret = concat (map (hex_byte 97) raw) in
        save_enrol L [(''claim'', V_str secret)] (s\<lparr>s_claim_secret := secret\<rparr>))"

definition pogdev_provisioning_store :: "'n nvs_lib \<Rightarrow> bool \<Rightarrow> bytes \<Rightarrow> bytes \<Rightarrow> 'n enrol \<Rightarrow> esp_err \<times> 'n enrol" where
  "pogdev_provisioning_store L created challenge assertion s =
     (if challenge = [] \<or> assertion = [] \<or> length challenge > PROV_CHAL_MAX \<or> length assertion > PROV_JWS_MAX
      then (ESP_ERR_INVALID_ARG, s)
      else (case ensure_state_lock created s of (err, s) \<Rightarrow>
        if err \<noteq> ESP_OK then (err, s)
        else if s_forgetting s then (ESP_ERR_INVALID_STATE, s)
        else save_enrol L [(''prov_chal'', V_str challenge), (''prov_jws'', V_str assertion)] s))"

definition absent_ok :: "esp_err \<Rightarrow> esp_err" where
  "absent_ok e = (if e = ESP_ERR_NVS_NOT_FOUND then ESP_OK else e)"

definition erase_proof :: "'n nvs_lib \<Rightarrow> 'n \<Rightarrow> esp_err \<times> 'n" where
  "erase_proof L n =
     (case nvs_erase_key L n NVS_NS ''prov_chal'' of (e1, n) \<Rightarrow>
      case nvs_erase_key L n NVS_NS ''prov_jws'' of (e2, n) \<Rightarrow>
        let err = (if absent_ok e1 \<noteq> ESP_OK then absent_ok e1 else absent_ok e2) in
        if err = ESP_OK then nvs_commit L n NVS_NS else (err, n))"

definition pogdev_provisioning_clear :: "'n nvs_lib \<Rightarrow> bool \<Rightarrow> 'n enrol \<Rightarrow> esp_err \<times> 'n enrol" where
  "pogdev_provisioning_clear L created s =
     (case ensure_state_lock created s of (err, s) \<Rightarrow>
        if err \<noteq> ESP_OK then (err, s)
        else (case nvs_open_rw L (en_nvs s) NVS_NS of (err, n) \<Rightarrow>
          if err = ESP_ERR_NVS_NOT_FOUND then (ESP_OK, s\<lparr>en_nvs := n\<rparr>)
          else if err = ESP_OK then (case erase_proof L n of (err, n) \<Rightarrow> (err, s\<lparr>en_nvs := n\<rparr>))
          else (err, s\<lparr>en_nvs := n\<rparr>)))"

text \<open>The proof for an announcement: the challenge and the assertion. \<open>heap_ok\<close>: the buffer of the assertion could be allocated.\<close>

definition load_provisioning_proof :: "'n nvs_lib \<Rightarrow> bool \<Rightarrow> 'n enrol \<Rightarrow> (bytes \<times> bytes) option" where
  "load_provisioning_proof L heap_ok s =
     (if s_forgetting s \<or> nvs_open_ro L (en_nvs s) NVS_NS \<noteq> ESP_OK then None
      else (case (nvs_get_str L (en_nvs s) NVS_NS ''prov_chal'' (PROV_CHAL_MAX + 1), nvs_str_size L (en_nvs s) NVS_NS ''prov_jws'') of
              (Inr challenge, Inr len) \<Rightarrow>
                if 0 < len \<and> len \<le> PROV_JWS_MAX + 1 \<and> heap_ok then
                  (case nvs_get_str L (en_nvs s) NVS_NS ''prov_jws'' len of
                     Inr jws \<Rightarrow> Some (challenge, jws) | Inl _ \<Rightarrow> None)
                else None
            | _ \<Rightarrow> None))"

definition store_creds :: "'n nvs_lib \<Rightarrow> pogdev_creds \<Rightarrow> 'n enrol \<Rightarrow> esp_err \<times> 'n enrol" where
  "store_creds L c s =
     (if s_forgetting s then (ESP_ERR_INVALID_STATE, s)
      else (case save_enrol L [(''dev_id'', V_str (cr_device_id c)), (''mqtt_pw'', V_str (cr_mqtt_password c)),
                    (''mqtt_host'', V_str (cr_mqtt_host c)), (''mqtt_port'', V_int NVS_U16 (uint (cr_mqtt_port c)))] s of
              (err, s) \<Rightarrow> (err, if err = ESP_OK then s\<lparr>s_creds := c, s_have_creds := True\<rparr> else s)))"

section \<open>The protocol\<close>

text \<open>The status and the text of a reply; the text is cut to the buffer and ends at its first NUL.\<close>

definition http_call :: "nat \<Rightarrow> http_reply \<Rightarrow> int \<times> bytes" where
  "http_call resp_cap r =
     (if \<not> hr_init r then (- 1, [])
      else if \<not> hr_open r then (- 1, [])
      else (hr_status r, c_str (take (resp_cap - 1) (hr_body r))))"

definition announce_url :: "pogdev_server \<Rightarrow> bytes" where
  "announce_url srv = take 127 (asc ''http://'' @ ip4_text (srv_addr srv) @ [58] @ dec (unat (srv_api_port srv)) @ asc ''/api/v1/pogdev/announce'')"

definition collect_url :: "pogdev_server \<Rightarrow> 'n enrol \<Rightarrow> bytes" where
  "collect_url srv s = take 255 (asc ''http://'' @ ip4_text (srv_addr srv) @ [58] @ dec (unat (srv_api_port srv))
     @ asc ''/api/v1/pogdev/announce/'' @ s_hw_id s @ asc ''?secret='' @ s_claim_secret s)"

definition POGDEV_MODEL :: bytes where "POGDEV_MODEL = asc ''POG AirPlay''"
definition POGDEV_DEVICE_CLASS :: bytes where "POGDEV_DEVICE_CLASS = asc ''airplay_speaker''"

text \<open>The members of the announcement, all strings.\<close>

definition announce_body :: "bytes option \<Rightarrow> (bytes \<times> bytes) option \<Rightarrow> 'n enrol \<Rightarrow> (string \<times> bytes) list" where
  "announce_body app proof_data s =
     [(''hw_id'', s_hw_id s), (''model'', POGDEV_MODEL), (''fw_version'', pogdev_fw_version app), (''proto_version'', asc ''1''),
      (''name'', if s_device_name s \<noteq> [] then s_device_name s else asc ''Enceinte POG''), (''claim_secret'', s_claim_secret s)]
     @ (case proof_data of
          Some (challenge, jws) \<Rightarrow> [(''device_class'', POGDEV_DEVICE_CLASS), (''challenge'', challenge), (''provisioning_assertion'', jws)]
        | None \<Rightarrow> [])"

text \<open>
  The outcome of an announcement: the address and members sent (none when the text could not be printed), and the state. A refused proof is thrown away.
\<close>

definition announce ::
    "'n nvs_lib \<Rightarrow> bytes option \<Rightarrow> bool \<Rightarrow> bool \<Rightarrow> http_reply \<Rightarrow> pogdev_server \<Rightarrow> 'n enrol \<Rightarrow> (bytes \<times> (string \<times> bytes) list) option \<times> 'n enrol" where
  "announce L app heap_ok print_ok reply srv s =
     (let proof_data = load_provisioning_proof L heap_ok s in
      if \<not> print_ok then (None, s)
      else
        let status = fst (http_call 0 reply) in
        (Some (announce_url srv, announce_body app proof_data s),
         if proof_data \<noteq> None \<and> (status = 401 \<or> status = 403 \<or> status = 409 \<or> status = 503)
         then snd (pogdev_provisioning_clear L True s) else s))"

text \<open>The server no longer knows the device.\<close>

definition drop_claim :: "'n nvs_lib \<Rightarrow> 'n enrol \<Rightarrow> 'n enrol" where
  "drop_claim L s =
     (if s_forgetting s then s
      else (case nvs_open_rw L (en_nvs s) NVS_NS of (err, n) \<Rightarrow>
        let s = s\<lparr>s_claim_secret := [], en_nvs := n\<rparr> in
        if err \<noteq> ESP_OK then s
        else s\<lparr>en_nvs := snd (nvs_commit L (snd (nvs_erase_key L n NVS_NS ''claim'')) NVS_NS)\<rparr>))"

definition creds_of :: "'j json_lib \<Rightarrow> pogdev_server \<Rightarrow> 'j \<Rightarrow> pogdev_creds option" where
  "creds_of J srv root =
     (let mqtt = js_item J root ''mqtt'';
          dev = Option.bind (js_item J root ''device_id'') (js_str J);
          port = Option.bind (Option.bind mqtt (\<lambda>m. js_item J m ''port'')) (js_num J);
          pw = Option.bind (Option.bind mqtt (\<lambda>m. js_item J m ''password'')) (js_str J) in
      case (dev, pw) of
        (Some d, Some p) \<Rightarrow> Some \<lparr>cr_device_id = take 47 d, cr_mqtt_host = ip4_text (srv_addr srv),
            cr_mqtt_port = (case port of Some i \<Rightarrow> word_of_int i | None \<Rightarrow> 1883), cr_mqtt_password = take 79 p\<rparr>
      | _ \<Rightarrow> None)"

definition adopted_reply :: "'j json_lib \<Rightarrow> pogdev_server \<Rightarrow> bytes \<Rightarrow> pogdev_creds option" where
  "adopted_reply J srv resp =
     (case js_parse J resp of
        None \<Rightarrow> None
      | Some root \<Rightarrow>
          if Option.bind (js_item J root ''status'') (js_str J) = Some (asc ''adopted'') then creds_of J srv root else None)"

definition collect :: "'n nvs_lib \<Rightarrow> 'j json_lib \<Rightarrow> http_reply \<Rightarrow> pogdev_server \<Rightarrow> 'n enrol \<Rightarrow> bool \<times> 'n enrol" where
  "collect L J reply srv s =
     (case http_call RESP_MAX reply of (status, resp) \<Rightarrow>
        if status = 404 \<or> status = 410 then (False, drop_claim L s)
        else if status \<noteq> 200 then (False, s)
        else (case adopted_reply J srv resp of
                None \<Rightarrow> (False, s)
              | Some c \<Rightarrow> (case store_creds L c s of (err, s) \<Rightarrow> (err = ESP_OK, s))))"

text \<open>The pause after a turn that did not end in adoption, from the sum of the earlier ones.\<close>

definition poll_delay :: "int \<Rightarrow> int" where
  "poll_delay started_ms = (if started_ms > 3600000 then 300000 else if started_ms > 60000 then 30000 else 5000)"

text \<open>The start of the task: \<open>True\<close> when the device is enrolled already and the task ends.\<close>

definition enrol_task_start :: "'n nvs_lib \<Rightarrow> bytes \<Rightarrow> 'n enrol \<Rightarrow> bool \<times> 'n enrol" where
  "enrol_task_start L mac s = load_state L (build_hw_id mac s)"

datatype enrol_next = Wait int int | Adopted

text \<open>One turn of its loop: the replies to the announcement and to the collection, and the sum of the pauses so far.\<close>

definition enrol_turn ::
    "'n nvs_lib \<Rightarrow> 'j json_lib \<Rightarrow> bytes option \<Rightarrow> bytes \<Rightarrow> bool \<Rightarrow> bool \<Rightarrow> http_reply \<Rightarrow> http_reply \<Rightarrow> pogdev_server option \<Rightarrow> int
      \<Rightarrow> 'n enrol \<Rightarrow> enrol_next \<times> 'n enrol" where
  "enrol_turn L J app raw heap_ok print_ok ann_reply col_reply server started_ms s =
     (case server of
        None \<Rightarrow> (Wait 5000 started_ms, s)
      | Some srv \<Rightarrow>
          (case ensure_claim_secret L raw s of (err, s) \<Rightarrow>
             if err \<noteq> ESP_OK then (Wait 30000 started_ms, s)
             else
               let s = snd (announce L app heap_ok print_ok ann_reply srv s) in
               (case collect L J col_reply srv s of (done_flag, s) \<Rightarrow>
                  if done_flag then (Adopted, snd (pogdev_provisioning_clear L True s))
                  else (Wait (poll_delay started_ms) (started_ms + poll_delay started_ms), s))))"

definition pogdev_enrol_start :: "bool \<Rightarrow> bool \<Rightarrow> bytes option \<Rightarrow> 'n enrol \<Rightarrow> esp_err \<times> 'n enrol" where
  "pogdev_enrol_start created task_ok device_name s =
     (let s = (case device_name of Some n \<Rightarrow> s\<lparr>s_device_name := take 64 n\<rparr> | None \<Rightarrow> s) in
      case ensure_state_lock created s of (err, s) \<Rightarrow>
        if err \<noteq> ESP_OK then (err, s) else (if task_ok then ESP_OK else ESP_ERR_NO_MEM, s))"

definition pogdev_enrol_get :: "'n enrol \<Rightarrow> pogdev_creds option" where
  "pogdev_enrol_get s = (if \<not> s_lock s then None else if s_have_creds s \<and> \<not> s_forgetting s then Some (s_creds s) else None)"

definition forget_erase :: "'n nvs_lib \<Rightarrow> 'n \<Rightarrow> esp_err \<times> 'n" where
  "forget_erase L n =
     (case nvs_open_rw L n NVS_NS of (err, n) \<Rightarrow>
        if err = ESP_ERR_NVS_NOT_FOUND then (ESP_OK, n)
        else if err = ESP_OK then
          (case nvs_erase_all L n NVS_NS of (err, n) \<Rightarrow> if err = ESP_OK then nvs_commit L n NVS_NS else (err, n))
        else (err, n))"

definition pogdev_forget :: "'n nvs_lib \<Rightarrow> bool \<Rightarrow> 'n enrol \<Rightarrow> esp_err \<times> 'n enrol" where
  "pogdev_forget L created s =
     (case ensure_state_lock created s of (err, s) \<Rightarrow>
        if err \<noteq> ESP_OK then (err, s)
        else (case forget_erase L (en_nvs s) of (err, n) \<Rightarrow>
          if err = ESP_OK
          then (err, s\<lparr>en_nvs := n, s_forgetting := True, s_creds := no_creds, s_have_creds := False, s_claim_secret := []\<rparr>)
          else (err, s\<lparr>en_nvs := n, s_forgetting := False\<rparr>)))"

definition pogdev_enrol_recollect ::
    "'n nvs_lib \<Rightarrow> 'j json_lib \<Rightarrow> bytes \<Rightarrow> http_reply \<Rightarrow> pogdev_server option \<Rightarrow> 'n enrol \<Rightarrow> bool \<times> 'n enrol" where
  "pogdev_enrol_recollect L J mac reply server s =
     (case server of
        None \<Rightarrow> (False, s)
      | Some srv \<Rightarrow>
          if \<not> s_lock s then (False, s)
          else if s_forgetting s \<or> s_claim_secret s = [] then (False, s)
          else collect L J reply srv (if s_hw_id s = [] then build_hw_id mac s else s))"

definition pogdev_enrol_update_host :: "'n nvs_lib \<Rightarrow> u32 \<Rightarrow> u16 \<Rightarrow> 'n enrol \<Rightarrow> bool \<times> 'n enrol" where
  "pogdev_enrol_update_host L addr mqtt_port s =
     (let hote = ip4_text addr; port = (if mqtt_port = 0 then 1883 else mqtt_port) in
      if \<not> s_lock s then (False, s)
      else if \<not> s_have_creds s \<or> s_forgetting s \<or> cr_mqtt_host (s_creds s) = hote \<and> cr_mqtt_port (s_creds s) = port then (False, s)
      else (case save_enrol L [(''mqtt_host'', V_str hote), (''mqtt_port'', V_int NVS_U16 (uint port))] s of (err, s) \<Rightarrow>
        if err = ESP_OK then (True, s\<lparr>s_creds := (s_creds s)\<lparr>cr_mqtt_host := hote, cr_mqtt_port := port\<rparr>\<rparr>) else (False, s)))"

section \<open>Forgetting holds until the restart\<close>

text \<open>What the tasks do to the state while the device runs: any of their critical sections, with any reply of the server.\<close>

inductive enrol_step :: "'n nvs_lib \<Rightarrow> 'j json_lib \<Rightarrow> 'n enrol \<Rightarrow> 'n enrol \<Rightarrow> bool" for L J where
  load: "enrol_step L J s (snd (load_state L s))"
| start: "enrol_step L J s (snd (enrol_task_start L mac s))"
| secret: "enrol_step L J s (snd (ensure_claim_secret L raw s))"
| proof_in: "enrol_step L J s (snd (pogdev_provisioning_store L created chal jws s))"
| proof_out: "enrol_step L J s (snd (pogdev_provisioning_clear L created s))"
| announcement: "enrol_step L J s (snd (announce L app heap_ok print_ok reply srv s))"
| collection: "enrol_step L J s (snd (collect L J reply srv s))"
| recollection: "enrol_step L J s (snd (pogdev_enrol_recollect L J mac reply server s))"
| moved: "enrol_step L J s (snd (pogdev_enrol_update_host L addr port s))"

definition forgotten :: "'n nvs_view \<Rightarrow> 'n enrol \<Rightarrow> bool" where
  "forgotten view s \<longleftrightarrow> s_lock s \<and> s_forgetting s \<and> \<not> s_have_creds s \<and> s_claim_secret s = [] \<and> view (en_nvs s) NVS_NS = Map.empty"

lemma forget_erase_OK:
  assumes "nvs_laws L view" "forget_erase L n = (ESP_OK, n')"
  shows "view n' NVS_NS = Map.empty"
proof -
  obtain e m where o: "nvs_open_rw L n NVS_NS = (e, m)" by fastforce
  have m: "view m = view n" using nvs_write(1) [OF assms(1), of n NVS_NS] o by simp
  show ?thesis
  proof (cases "e = ESP_ERR_NVS_NOT_FOUND")
    case True
    then have "n' = m" using assms(2) o by (simp add: forget_erase_def)
    then show ?thesis using nvs_write(2) [OF assms(1), of n NVS_NS] o True m by simp
  next
    case False
    obtain f p where a: "nvs_erase_all L m NVS_NS = (f, p)" by fastforce
    from False assms(2) o a have "f = ESP_OK" "nvs_commit L p NVS_NS = (ESP_OK, n')"
      by (auto simp: forget_erase_def split: if_splits)
    then show ?thesis
      using nvs_write(9) [OF assms(1), of m NVS_NS] nvs_write(3) [OF assms(1), of p NVS_NS] a by simp
  qed
qed

lemma forget_forgotten:
  assumes "nvs_laws L view" "pogdev_forget L created s = (ESP_OK, s')"
  shows "forgotten view s'"
proof -
  obtain e t where l: "ensure_state_lock created s = (e, t)" by fastforce
  obtain f n where g: "forget_erase L (en_nvs t) = (f, n)" by fastforce
  from assms(2) l g have e: "e = ESP_OK" and f: "f = ESP_OK"
    and s': "s' = t\<lparr>en_nvs := n, s_forgetting := True, s_creds := no_creds, s_have_creds := False, s_claim_secret := []\<rparr>"
    by (auto simp: pogdev_forget_def split: if_splits)
  have "s_lock t" using l e by (auto simp: ensure_state_lock_def split: if_splits)
  moreover have "view n NVS_NS = Map.empty" using forget_erase_OK [OF assms(1)] g f by simp
  ultimately show ?thesis by (simp add: s' forgotten_def)
qed

lemma erase_proof_view:
  assumes "nvs_laws L view" "view n NVS_NS = Map.empty"
  shows "view (snd (erase_proof L n)) NVS_NS = Map.empty"
proof -
  obtain e m where 1: "nvs_erase_key L n NVS_NS ''prov_chal'' = (e, m)" by fastforce
  obtain f p where 2: "nvs_erase_key L m NVS_NS ''prov_jws'' = (f, p)" by fastforce
  have "view m NVS_NS = Map.empty" using nvs_write(7) [OF assms(1), of n NVS_NS "''prov_chal''"] assms(2) 1 by auto
  then have p: "view p NVS_NS = Map.empty" using nvs_write(7) [OF assms(1), of m NVS_NS "''prov_jws''"] 2 by auto
  moreover have "view (snd (nvs_commit L p NVS_NS)) = view p" by (rule nvs_write(3) [OF assms(1)])
  ultimately show ?thesis by (simp add: erase_proof_def Let_def 1 2)
qed

lemma clear_forgotten:
  assumes "nvs_laws L view" "forgotten view s"
  shows "forgotten view (snd (pogdev_provisioning_clear L created s))"
proof -
  obtain e n where o: "nvs_open_rw L (en_nvs s) NVS_NS = (e, n)" by fastforce
  have n: "view n NVS_NS = Map.empty" using nvs_write(1) [OF assms(1), of "en_nvs s" NVS_NS] assms(2) o by (simp add: forgotten_def)
  obtain f p where q: "erase_proof L n = (f, p)" by fastforce
  have "view p NVS_NS = Map.empty" using erase_proof_view [of L view n, OF assms(1) n] q by simp
  then show ?thesis
    using n assms(2) by (auto simp: pogdev_provisioning_clear_def ensure_state_lock_def forgotten_def o q)
qed

lemma collect_forgotten: "forgotten view s \<Longrightarrow> snd (collect L J reply srv s) = s"
  by (auto simp: collect_def drop_claim_def store_creds_def forgotten_def split: prod.splits option.splits)

lemma enrol_step_forgotten:
  assumes "enrol_step L J s s'" "nvs_laws L view" "forgotten view s"
  shows "forgotten view s'"
  using assms(1)
proof cases
  case announcement
  then show ?thesis using clear_forgotten [OF assms(2,3)] assms(3) by (simp add: announce_def Let_def)
next
  case proof_out
  then show ?thesis using clear_forgotten [OF assms(2,3)] by simp
next
  case collection
  then show ?thesis using assms(3) by (simp add: collect_forgotten [OF assms(3)])
next
  case (start mac)
  then show ?thesis using assms(3) by (simp add: enrol_task_start_def load_state_def build_hw_id_def forgotten_def)
qed (use assms(3) in \<open>auto simp: load_state_def ensure_claim_secret_def pogdev_provisioning_store_def ensure_state_lock_def
       pogdev_enrol_recollect_def pogdev_enrol_update_host_def forgotten_def Let_def split: option.splits\<close>)

text \<open>
  C26. Once \<open>pogdev_forget\<close> has reported success, nothing the tasks do, in any order and with any reply of the server that was still under way, brings credentials, the
  claim secret or an onboarding proof back, in memory or in flash; a device that restarts then is not enrolled.
\<close>

theorem forget_holds:
  assumes "nvs_laws L view" "pogdev_forget L created s = (ESP_OK, s')" "(enrol_step L J)\<^sup>*\<^sup>* s' t"
  shows "pogdev_enrol_get t = None \<and> view (en_nvs t) NVS_NS = Map.empty \<and> s_claim_secret t = []
    \<and> fst (load_state L (enrol_boot (en_nvs t))) = False"
proof -
  have t: "forgotten view t" using assms(3)
  proof (induction rule: rtranclp_induct)
    case base
    show ?case by (rule forget_forgotten [OF assms(1,2)])
  next
    case (step u v)
    from step(2) assms(1) step(3) show ?case by (rule enrol_step_forgotten)
  qed
  then have v: "view (en_nvs t) NVS_NS = Map.empty" by (simp add: forgotten_def)
  have "nvs_get_str L (en_nvs t) NVS_NS k cap \<noteq> Inr x" for k cap x
    using nvs_read(5) [OF assms(1), of "en_nvs t" NVS_NS k cap x] v by auto
  then have "fst (load_state L (enrol_boot (en_nvs t))) = False"
    by (cases "nvs_get_str L (en_nvs t) NVS_NS ''dev_id'' 48") (auto simp: load_state_def enrol_boot_def Let_def split: sum.splits)
  with t v show ?thesis by (simp add: pogdev_enrol_get_def forgotten_def)
qed

definition demo_json :: "bytes json_lib" where
  "demo_json = \<lparr>js_parse = Some, js_item = (\<lambda>j k. if k = ''status'' then Some (asc ''adopted'') else Some j), js_str = Some, js_num = (\<lambda>_. Some 1884)\<rparr>"

definition demo_server :: pogdev_server where
  "demo_server = \<lparr>srv_host = [], srv_addr = 0x0201A8C0, srv_api_port = 8090, srv_mqtt_port = 1883, srv_tls = False, srv_proto = 1\<rparr>"

definition demo_reply :: "int \<Rightarrow> http_reply" where
  "demo_reply status = \<lparr>hr_init = True, hr_open = True, hr_status = status, hr_body = asc ''dev-7''\<rparr>"

definition demo_enrol :: "demo_flash enrol" where
  "demo_enrol = snd (collect demo_nvs demo_json (demo_reply 200) demo_server
     (snd (ensure_claim_secret demo_nvs [1, 2] ((enrol_boot \<lparr>df_data = [], df_room = 9\<rparr>)\<lparr>s_lock := True\<rparr>))))"

theorem forget_holds_witness:
  "let s = snd (pogdev_forget demo_nvs True demo_enrol); t = snd (collect demo_nvs demo_json (demo_reply 200) demo_server s) in
   pogdev_enrol_get demo_enrol \<noteq> None \<and> pogdev_enrol_get t = None \<and> demo_view (en_nvs t) NVS_NS = Map.empty"
proof -
  let ?r = "pogdev_forget demo_nvs True demo_enrol"
  let ?t = "snd (collect demo_nvs demo_json (demo_reply 200) demo_server (snd ?r))"
  have "fst ?r = ESP_OK" by code_simp
  then have r: "?r = (ESP_OK, snd ?r)" by (metis prod.collapse)
  have "(enrol_step demo_nvs demo_json)\<^sup>*\<^sup>* (snd ?r) ?t" by (rule r_into_rtranclp) (rule enrol_step.collection)
  from forget_holds [OF demo_nvs_laws r this] have "pogdev_enrol_get ?t = None \<and> demo_view (en_nvs ?t) NVS_NS = Map.empty" by blast
  moreover have "pogdev_enrol_get demo_enrol \<noteq> None" by code_simp
  ultimately show ?thesis by (simp add: Let_def)
qed

section \<open>Adoption\<close>

lemma dec_byte_length: "length (dec (unat (x AND 0xFF :: u32))) \<le> 3"
proof -
  have "x AND 0xFF \<le> (0xFF :: u32)" by (rule word_and_le1)
  then have "unat (x AND 0xFF) \<le> unat (0xFF :: u32)" by (rule word_le_nat_alt [THEN iffD1])
  then have b: "unat (x AND 0xFF) < 1000" by simp
  have "length (dec m) \<le> 3" if "m < 1000" for m
    using that by (subst dec.simps, subst dec.simps [of "m div 10"], subst dec.simps [of "m div 10 div 10"]) auto
  then show ?thesis using b by blast
qed

lemma ip4_text_length: "length (ip4_text a) \<le> 15"
  using dec_byte_length [of a] dec_byte_length [of "drop_bit 8 a"] dec_byte_length [of "drop_bit 16 a"] dec_byte_length [of "drop_bit 24 a"]
  unfolding ip4_text_def length_append by simp

definition creds_fit :: "pogdev_creds \<Rightarrow> bool" where
  "creds_fit c \<longleftrightarrow> length (cr_device_id c) < 48 \<and> length (cr_mqtt_password c) < 80 \<and> length (cr_mqtt_host c) < 48"

definition creds_stored :: "(string \<Rightarrow> nvs_value option) \<Rightarrow> pogdev_creds \<Rightarrow> bool" where
  "creds_stored m c \<longleftrightarrow> m ''dev_id'' = Some (V_str (cr_device_id c)) \<and> m ''mqtt_pw'' = Some (V_str (cr_mqtt_password c))
     \<and> m ''mqtt_host'' = Some (V_str (cr_mqtt_host c)) \<and> m ''mqtt_port'' = Some (V_int NVS_U16 (uint (cr_mqtt_port c)))"

lemma load_stored:
  assumes "nvs_laws L view" "creds_stored (view (en_nvs s) NVS_NS) c" "creds_fit c" "\<not> s_forgetting s"
  shows "\<exists>t. load_state L s = (True, t) \<and> s_creds t = c \<and> s_have_creds t \<and> s_lock t = s_lock s \<and> en_nvs t = en_nvs s \<and> \<not> s_forgetting t
    \<and> s_claim_secret t = (case nvs_get_str L (en_nvs s) NVS_NS ''claim'' 65 of Inr q \<Rightarrow> q | Inl _ \<Rightarrow> s_claim_secret s)"
proof -
  from assms(2) have d: "view (en_nvs s) NVS_NS ''dev_id'' = Some (V_str (cr_device_id c))"
    and p: "view (en_nvs s) NVS_NS ''mqtt_pw'' = Some (V_str (cr_mqtt_password c))"
    and h: "view (en_nvs s) NVS_NS ''mqtt_host'' = Some (V_str (cr_mqtt_host c))"
    and q: "view (en_nvs s) NVS_NS ''mqtt_port'' = Some (V_int NVS_U16 (uint (cr_mqtt_port c)))" by (auto simp: creds_stored_def)
  note f = nvs_read(4) [OF assms(1), OF d, of 48] nvs_read(4) [OF assms(1), OF p, of 80] nvs_read(4) [OF assms(1), OF h, of 48]
    nvs_read(2) [OF assms(1), OF q] nvs_read(1) [OF assms(1), OF d]
  show ?thesis using f assms(3,4) by (auto simp: load_state_def creds_fit_def Let_def split: sum.splits)
qed

lemma save_enrol_OK:
  assumes "nvs_laws L view" "save_enrol L kvs s = (ESP_OK, s')"
  shows "view (en_nvs s') NVS_NS = view (en_nvs s) NVS_NS ++ map_of (rev kvs)" and "s' = s\<lparr>en_nvs := en_nvs s'\<rparr>"
  using assms(2) nvs_save_OK [OF assms(1), of NVS_NS kvs "en_nvs s" "en_nvs s'"] by (auto simp: save_enrol_def split: prod.splits)

lemma creds_of_fit: "creds_of J srv root = Some c \<Longrightarrow> creds_fit c"
  using ip4_text_length [of "srv_addr srv"] by (auto simp: creds_of_def creds_fit_def Let_def split: option.splits)

lemma store_creds_OK:
  assumes "nvs_laws L view" "store_creds L c s = (ESP_OK, s')"
  shows "creds_stored (view (en_nvs s') NVS_NS) c \<and> s_creds s' = c \<and> s_have_creds s' \<and> \<not> s_forgetting s' \<and> s_lock s' = s_lock s"
proof -
  let ?kvs = "[(''dev_id'', V_str (cr_device_id c)), (''mqtt_pw'', V_str (cr_mqtt_password c)),
    (''mqtt_host'', V_str (cr_mqtt_host c)), (''mqtt_port'', V_int NVS_U16 (uint (cr_mqtt_port c)))]"
  obtain e t where k: "save_enrol L ?kvs s = (e, t)" by fastforce
  with assms(2) have e: "e = ESP_OK" and f: "\<not> s_forgetting s" and s': "s' = t\<lparr>s_creds := c, s_have_creds := True\<rparr>"
    by (auto simp: store_creds_def split: if_splits)
  note v = save_enrol_OK [OF assms(1) k [unfolded e]]
  have "s_forgetting t = s_forgetting s" "s_lock t = s_lock s" by (subst v(2), simp)+
  then show ?thesis using f v(1) by (simp add: s' creds_stored_def)
qed

text \<open>
  An adoption survives the restart: when a reply of the server has been collected, the credentials in it, bounded to the buffers and with the address of the server
  that answered, are those of the running device, and the device that restarts with this flash content is enrolled with the same ones.
\<close>

theorem adoption_survives_restart:
  assumes "nvs_laws L view" "collect L J reply srv s = (True, s')" "s_lock s"
  shows "\<exists>c. adopted_reply J srv (snd (http_call RESP_MAX reply)) = Some c \<and> pogdev_enrol_get s' = Some c \<and> cr_mqtt_host c = ip4_text (srv_addr srv)
    \<and> (\<exists>t. enrol_task_start L mac ((enrol_boot (en_nvs s'))\<lparr>s_lock := True\<rparr>) = (True, t) \<and> pogdev_enrol_get t = Some c)"
proof -
  obtain status resp where h: "http_call RESP_MAX reply = (status, resp)" by fastforce
  with assms(2) obtain c where a: "adopted_reply J srv resp = Some c" and k: "store_creds L c s = (ESP_OK, s')"
    by (auto simp: collect_def split: if_splits option.splits prod.splits)
  from a have c: "creds_fit c" "cr_mqtt_host c = ip4_text (srv_addr srv)"
    by (auto simp: adopted_reply_def creds_of_fit split: option.splits if_splits) (auto simp: creds_of_def Let_def split: option.splits)
  note f = store_creds_OK [OF assms(1) k]
  let ?b = "build_hw_id mac ((enrol_boot (en_nvs s'))\<lparr>s_lock := True\<rparr>)"
  have b: "en_nvs ?b = en_nvs s'" "\<not> s_forgetting ?b" "s_lock ?b" by (simp_all add: build_hw_id_def enrol_boot_def)
  from f b(1) have "creds_stored (view (en_nvs ?b) NVS_NS) c" by simp
  from load_stored [OF assms(1) this c(1) b(2)] b(3) obtain t where "load_state L ?b = (True, t)" "pogdev_enrol_get t = Some c"
    by (auto simp: pogdev_enrol_get_def)
  then show ?thesis using f a h c(2) assms(3) by (auto simp: pogdev_enrol_get_def enrol_task_start_def)
qed

theorem adoption_survives_restart_witness:
  "\<exists>c t. pogdev_enrol_get demo_enrol = Some c \<and> cr_mqtt_port c = 1884
    \<and> enrol_task_start demo_nvs [] ((enrol_boot (en_nvs demo_enrol))\<lparr>s_lock := True\<rparr>) = (True, t) \<and> pogdev_enrol_get t = Some c"
proof -
  let ?s = "snd (ensure_claim_secret demo_nvs [1, 2] ((enrol_boot \<lparr>df_data = [], df_room = 9\<rparr>)\<lparr>s_lock := True\<rparr>))"
  have "fst (collect demo_nvs demo_json (demo_reply 200) demo_server ?s) = True" by code_simp
  then have c: "collect demo_nvs demo_json (demo_reply 200) demo_server ?s = (True, demo_enrol)"
    unfolding demo_enrol_def by (metis prod.collapse)
  have "s_lock ?s" by code_simp
  from adoption_survives_restart [OF demo_nvs_laws c this, of "[]"]
  obtain d t where "pogdev_enrol_get demo_enrol = Some d"
    "enrol_task_start demo_nvs [] ((enrol_boot (en_nvs demo_enrol))\<lparr>s_lock := True\<rparr>) = (True, t)" "pogdev_enrol_get t = Some d" by blast
  moreover have "map_option cr_mqtt_port (pogdev_enrol_get demo_enrol) = Some 1884" by code_simp
  ultimately show ?thesis by auto
qed

text \<open>
  A device the server has forgotten stays enrolled for good: when the server answers 404 or 410, the claim secret is erased, the stored credentials are not. From
  then on asking for new credentials fails at once, and the enrolment task of the next start finds the refused credentials and ends without an announcement.
\<close>

theorem forgotten_by_server_stuck:
  assumes "nvs_laws L view" "creds_stored (view (en_nvs s) NVS_NS) c" "creds_fit c" "\<not> s_forgetting s"
    and "fst (http_call RESP_MAX reply) \<in> {404, 410}" "nvs_open_rw L (en_nvs s) NVS_NS = (ESP_OK, n)"
    and "fst (nvs_erase_key L n NVS_NS ''claim'') = ESP_OK" "collect L J reply srv s = (r, s')"
  shows "\<not> r \<and> pogdev_enrol_recollect L J mac reply2 server s' = (False, s')
    \<and> (\<exists>t. enrol_task_start L mac ((enrol_boot (en_nvs s'))\<lparr>s_lock := True\<rparr>) = (True, t) \<and> pogdev_enrol_get t = Some c
         \<and> pogdev_enrol_recollect L J mac reply2 server t = (False, t))"
proof -
  let ?m = "snd (nvs_erase_key L n NVS_NS ''claim'')"
  have s': "\<not> r \<and> s' = drop_claim L s" using assms(5,8) by (auto simp: collect_def split: prod.splits)
  have claim: "s_claim_secret s' = []" and en: "en_nvs s' = snd (nvs_commit L ?m NVS_NS)"
    using s' assms(4,6) by (simp_all add: drop_claim_def Let_def)
  have "view n = view (en_nvs s)" using nvs_write(1) [OF assms(1), of "en_nvs s" NVS_NS] assms(6) by simp
  moreover have "view ?m = view_put (view n) NVS_NS ''claim'' None" by (rule nvs_write(6) [OF assms(1), OF assms(7)])
  moreover have "view (en_nvs s') = view ?m" unfolding en by (rule nvs_write(3) [OF assms(1)])
  ultimately have v: "view (en_nvs s') NVS_NS = (view (en_nvs s) NVS_NS)(''claim'' := None)" by simp
  let ?b = "build_hw_id mac ((enrol_boot (en_nvs s'))\<lparr>s_lock := True\<rparr>)"
  have b: "en_nvs ?b = en_nvs s'" "\<not> s_forgetting ?b" "s_claim_secret ?b = []" "s_lock ?b" by (simp_all add: build_hw_id_def enrol_boot_def)
  have "creds_stored (view (en_nvs ?b) NVS_NS) c" using assms(2) v by (simp add: b creds_stored_def)
  from load_stored [OF assms(1) this assms(3) b(2)] obtain t where t0: "load_state L ?b = (True, t) \<and> s_creds t = c \<and> s_have_creds t
      \<and> s_lock t = s_lock ?b \<and> en_nvs t = en_nvs ?b \<and> \<not> s_forgetting t
      \<and> s_claim_secret t = (case nvs_get_str L (en_nvs ?b) NVS_NS ''claim'' 65 of Inr q \<Rightarrow> q | Inl _ \<Rightarrow> s_claim_secret ?b)" ..
  note t = t0 [unfolded b(1,3)]
  have "nvs_get_str L (en_nvs s') NVS_NS ''claim'' 65 \<noteq> Inr q" for q
    using nvs_read(5) [OF assms(1), of "en_nvs s'" NVS_NS "''claim''" 65 q] v by auto
  then have "s_claim_secret t = []" using t by (auto split: sum.splits)
  then show ?thesis using s' claim t b(4)
    by (auto simp: enrol_task_start_def pogdev_enrol_get_def pogdev_enrol_recollect_def split: option.splits)
qed

theorem forgotten_by_server_stuck_witness:
  "let s' = snd (collect demo_nvs demo_json (demo_reply 404) demo_server demo_enrol) in
   fst (enrol_task_start demo_nvs [] ((enrol_boot (en_nvs s'))\<lparr>s_lock := True\<rparr>))
   \<and> pogdev_enrol_recollect demo_nvs demo_json [] (demo_reply 200) (Some demo_server) s' = (False, s')"
proof -
  let ?c = "\<lparr>cr_device_id = asc ''dev-7'', cr_mqtt_host = ip4_text 0x0201A8C0, cr_mqtt_port = 1884, cr_mqtt_password = asc ''dev-7''\<rparr>"
  have v: "demo_view (en_nvs demo_enrol) NVS_NS ''dev_id'' = Some (V_str (asc ''dev-7''))"
    "demo_view (en_nvs demo_enrol) NVS_NS ''mqtt_pw'' = Some (V_str (asc ''dev-7''))"
    "demo_view (en_nvs demo_enrol) NVS_NS ''mqtt_host'' = Some (V_str (ip4_text 0x0201A8C0))"
    "demo_view (en_nvs demo_enrol) NVS_NS ''mqtt_port'' = Some (V_int NVS_U16 1884)"
    by code_simp+
  have st: "creds_stored (demo_view (en_nvs demo_enrol) NVS_NS) ?c" using v by (simp add: creds_stored_def)
  have f: "creds_fit ?c" by code_simp
  have g: "\<not> s_forgetting demo_enrol" "fst (http_call RESP_MAX (demo_reply 404)) \<in> {404, 410}"
    "fst (nvs_erase_key demo_nvs (en_nvs demo_enrol) NVS_NS ''claim'') = ESP_OK" by code_simp+
  have o: "nvs_open_rw demo_nvs (en_nvs demo_enrol) NVS_NS = (ESP_OK, en_nvs demo_enrol)" by (simp add: demo_nvs_def)
  have r: "collect demo_nvs demo_json (demo_reply 404) demo_server demo_enrol
    = (fst (collect demo_nvs demo_json (demo_reply 404) demo_server demo_enrol), snd (collect demo_nvs demo_json (demo_reply 404) demo_server demo_enrol))"
    by simp
  from forgotten_by_server_stuck [OF demo_nvs_laws st f g(1,2) o g(3) r, of "[]" "demo_reply 200" "Some demo_server"]
  show ?thesis by (auto simp: Let_def)
qed

text \<open>
  The claim secret may never reach the flash: when writing it fails, the next turn finds it in memory, reports success and announces the device with a secret a restart
  loses.
\<close>

theorem claim_secret_unsaved:
  assumes "ensure_claim_secret L raw s = (err, s')" "err \<noteq> ESP_OK" "\<not> s_forgetting s" "raw \<noteq> []"
  shows "ensure_claim_secret L raw2 s' = (ESP_OK, s')"
proof -
  have ne: "concat (map (hex_byte 97) raw) \<noteq> []" using assms(4) by (cases raw) (simp_all add: hex_byte_def)
  have "s_claim_secret (snd (save_enrol L kvs t)) = s_claim_secret t \<and> s_forgetting (snd (save_enrol L kvs t)) = s_forgetting t" for kvs t
    by (simp add: save_enrol_def split: prod.splits)
  from this [of "[(''claim'', V_str (concat (map (hex_byte 97) raw)))]" "s\<lparr>s_claim_secret := concat (map (hex_byte 97) raw)\<rparr>"]
  have "s_claim_secret s' \<noteq> [] \<and> \<not> s_forgetting s'"
    using assms(1-3) ne by (auto simp: ensure_claim_secret_def Let_def split: if_splits)
  then show ?thesis by (simp add: ensure_claim_secret_def)
qed

theorem claim_secret_unsaved_witness:
  "let s' = snd (ensure_claim_secret demo_nvs [7] (enrol_boot \<lparr>df_data = [], df_room = 0\<rparr>)) in
   ensure_claim_secret demo_nvs [8] s' = (ESP_OK, s') \<and> demo_view (en_nvs s') NVS_NS ''claim'' = None"
proof -
  let ?r = "ensure_claim_secret demo_nvs [7] (enrol_boot \<lparr>df_data = [], df_room = 0\<rparr>)"
  have f: "fst ?r \<noteq> ESP_OK" "\<not> s_forgetting (enrol_boot \<lparr>df_data = [], df_room = 0\<rparr>)" "[7 :: u8] \<noteq> []" by code_simp+
  have "?r = (fst ?r, snd ?r)" by simp
  from claim_secret_unsaved [OF this f] show ?thesis by (simp add: Let_def) code_simp
qed

text \<open>
  A moved server is followed: the update reports a change exactly when the address or port differs and has been written, and a restart then uses the new address.
\<close>

theorem moved_server_followed:
  assumes "nvs_laws L view" "s_lock s" "creds_stored (view (en_nvs s) NVS_NS) (s_creds s)" "creds_fit (s_creds s)"
    and "pogdev_enrol_update_host L addr port s = (True, s')"
  shows "(cr_mqtt_host (s_creds s), cr_mqtt_port (s_creds s)) \<noteq> (ip4_text addr, if port = 0 then 1883 else port)
    \<and> pogdev_enrol_get s' = Some ((s_creds s)\<lparr>cr_mqtt_host := ip4_text addr, cr_mqtt_port := (if port = 0 then 1883 else port)\<rparr>)
    \<and> (\<exists>t. enrol_task_start L mac ((enrol_boot (en_nvs s'))\<lparr>s_lock := True\<rparr>) = (True, t) \<and> pogdev_enrol_get t = pogdev_enrol_get s')"
proof -
  let ?p = "if port = 0 then 1883 else port"
  let ?c = "(s_creds s)\<lparr>cr_mqtt_host := ip4_text addr, cr_mqtt_port := ?p\<rparr>"
  obtain e u where k: "save_enrol L [(''mqtt_host'', V_str (ip4_text addr)), (''mqtt_port'', V_int NVS_U16 (uint ?p))] s = (e, u)" by fastforce
  with assms(5) have e: "e = ESP_OK" and g: "s_have_creds s" "\<not> s_forgetting s"
    and ne: "(cr_mqtt_host (s_creds s), cr_mqtt_port (s_creds s)) \<noteq> (ip4_text addr, ?p)"
    and s': "s' = u\<lparr>s_creds := (s_creds u)\<lparr>cr_mqtt_host := ip4_text addr, cr_mqtt_port := ?p\<rparr>\<rparr>"
    by (auto simp: pogdev_enrol_update_host_def Let_def split: if_splits)
  note v = save_enrol_OK [OF assms(1) k [unfolded e]]
  have u: "s_creds u = s_creds s" "s_have_creds u" "\<not> s_forgetting u" "s_lock u" using g assms(2) by (subst v(2), simp)+
  have get: "pogdev_enrol_get s' = Some ?c" using u by (simp add: s' pogdev_enrol_get_def)
  have st: "creds_stored (view (en_nvs s') NVS_NS) ?c" using assms(3) v(1) by (simp add: s' creds_stored_def)
  have fit: "creds_fit ?c" using assms(4) ip4_text_length [of addr] by (simp add: creds_fit_def)
  let ?b = "build_hw_id mac ((enrol_boot (en_nvs s'))\<lparr>s_lock := True\<rparr>)"
  have b: "en_nvs ?b = en_nvs s'" "\<not> s_forgetting ?b" "s_lock ?b" by (simp_all add: build_hw_id_def enrol_boot_def)
  from st b(1) have "creds_stored (view (en_nvs ?b) NVS_NS) ?c" by simp
  from load_stored [OF assms(1) this fit b(2)] b(3) obtain t where "load_state L ?b = (True, t)" "pogdev_enrol_get t = Some ?c"
    by (auto simp: pogdev_enrol_get_def)
  then show ?thesis using ne get by (simp add: enrol_task_start_def)
qed

theorem moved_server_followed_witness:
  "map_option cr_mqtt_host (pogdev_enrol_get (snd (pogdev_enrol_update_host demo_nvs 0x0301A8C0 0 demo_enrol))) = Some (ip4_text 0x0301A8C0)"
proof -
  have v: "demo_view (en_nvs demo_enrol) NVS_NS ''dev_id'' = Some (V_str (cr_device_id (s_creds demo_enrol)))"
    "demo_view (en_nvs demo_enrol) NVS_NS ''mqtt_pw'' = Some (V_str (cr_mqtt_password (s_creds demo_enrol)))"
    "demo_view (en_nvs demo_enrol) NVS_NS ''mqtt_host'' = Some (V_str (cr_mqtt_host (s_creds demo_enrol)))"
    "demo_view (en_nvs demo_enrol) NVS_NS ''mqtt_port'' = Some (V_int NVS_U16 (uint (cr_mqtt_port (s_creds demo_enrol))))"
    by code_simp+
  have st: "creds_stored (demo_view (en_nvs demo_enrol) NVS_NS) (s_creds demo_enrol)" unfolding creds_stored_def using v by blast
  have f: "creds_fit (s_creds demo_enrol)" "s_lock demo_enrol" "fst (pogdev_enrol_update_host demo_nvs 0x0301A8C0 0 demo_enrol)" by code_simp+
  have r: "pogdev_enrol_update_host demo_nvs 0x0301A8C0 0 demo_enrol = (True, snd (pogdev_enrol_update_host demo_nvs 0x0301A8C0 0 demo_enrol))"
    using f(3) by (metis prod.collapse)
  from moved_server_followed [OF demo_nvs_laws f(2) st f(1) r] show ?thesis by simp
qed

end
