(* ===== verification/Pogdev_Retry.thy ===== *)
theory Pogdev_Retry
  imports Prelude
begin

text \<open>
  The policy that keeps the link to the home server alive (\<open>components/pogdev/pogdev_retry.c\<close>): when repeated connection failures
  justify looking for a server that moved, and when persistent refusals of the credentials justify asking for new ones. The clock is
  a millisecond counter of 32 bits that wraps around.
\<close>

section \<open>Definitions\<close>

definition POGDEV_RETRY_ECHECS_AVANT_SUIVI :: u8 where "POGDEV_RETRY_ECHECS_AVANT_SUIVI = 3"
definition POGDEV_RETRY_REFUS_AVANT_RELEVE :: u8 where "POGDEV_RETRY_REFUS_AVANT_RELEVE = 3"
definition POGDEV_RETRY_FENETRE_REFUS_MS :: u32 where "POGDEV_RETRY_FENETRE_REFUS_MS = 90000"
definition POGDEV_RETRY_ESPACEMENT_RELEVE_MS :: u32 where "POGDEV_RETRY_ESPACEMENT_RELEVE_MS = 120000"

lemmas retry_limits = POGDEV_RETRY_ECHECS_AVANT_SUIVI_def POGDEV_RETRY_REFUS_AVANT_RELEVE_def
  POGDEV_RETRY_FENETRE_REFUS_MS_def POGDEV_RETRY_ESPACEMENT_RELEVE_MS_def

record pogdev_retry =
  echecs :: u8
  refus :: u8
  premier_refus_pose :: bool
  premier_refus_ms :: u32
  releve_posee :: bool
  derniere_releve_ms :: u32

definition pogdev_retry_init :: "pogdev_retry" where
  "pogdev_retry_init = \<lparr>echecs = 0, refus = 0, premier_refus_pose = False, premier_refus_ms = 0, releve_posee = False,
     derniere_releve_ms = 0\<rparr>"

definition pogdev_retry_connecte :: "pogdev_retry \<Rightarrow> pogdev_retry" where
  "pogdev_retry_connecte r = pogdev_retry_init"

definition pogdev_retry_echec :: "pogdev_retry \<Rightarrow> bool \<times> pogdev_retry" where
  "pogdev_retry_echec r =
     (let r = (if echecs r < 255 then r\<lparr>echecs := echecs r + 1\<rparr> else r) in
      (POGDEV_RETRY_ECHECS_AVANT_SUIVI \<le> echecs r, r))"

definition count_refus :: "u32 \<Rightarrow> pogdev_retry \<Rightarrow> pogdev_retry" where
  "count_refus now r =
     (let r = (if premier_refus_pose r then r else r\<lparr>premier_refus_pose := True, premier_refus_ms := now\<rparr>) in
      if refus r < 255 then r\<lparr>refus := refus r + 1\<rparr> else r)"

definition pogdev_retry_refus_auth :: "u32 \<Rightarrow> pogdev_retry \<Rightarrow> bool \<times> pogdev_retry" where
  "pogdev_retry_refus_auth now r =
     (let r = count_refus now r in
      if refus r < POGDEV_RETRY_REFUS_AVANT_RELEVE then (False, r)
      else if now - premier_refus_ms r < POGDEV_RETRY_FENETRE_REFUS_MS then (False, r)
      else if releve_posee r \<and> now - derniere_releve_ms r < POGDEV_RETRY_ESPACEMENT_RELEVE_MS then (False, r)
      else (True, r\<lparr>releve_posee := True, derniere_releve_ms := now\<rparr>))"

section \<open>Failures\<close>

text \<open>The answers to a sequence of failures.\<close>

primrec echec_run :: "nat \<Rightarrow> pogdev_retry \<Rightarrow> bool \<times> pogdev_retry" where
  "echec_run 0 r = pogdev_retry_echec r"
| "echec_run (Suc n) r = pogdev_retry_echec (snd (echec_run n r))"

lemma saturating_count: "unat (if b < 255 then b + 1 else b :: u8) = min 255 (unat b + 1)"
proof (cases "b < 255")
  case True
  then show ?thesis by (simp add: unat_word_ariths word_less_nat_alt)
next
  case False
  then have "unat b = 255" using unat_u8_less [of b] by (simp only: word_less_nat_alt) (simp del: unat_u8_less)
  with False show ?thesis by simp
qed

lemma echec_count: "unat (echecs (snd (pogdev_retry_echec r))) = min 255 (unat (echecs r) + 1)"
  using saturating_count [of "echecs r"] by (auto simp: pogdev_retry_echec_def Let_def split: if_splits)

lemma echec_result: "fst (pogdev_retry_echec r) \<longleftrightarrow> 3 \<le> unat (echecs (snd (pogdev_retry_echec r)))"
  by (simp add: pogdev_retry_echec_def Let_def retry_limits word_le_nat_alt)

lemma echec_run_count: "echecs r = 0 \<Longrightarrow> unat (echecs (snd (echec_run n r))) = min 255 (Suc n)"
  by (induction n) (simp_all add: echec_count)

text \<open>
  From the last accepted connection on, the first two failures ask for nothing and every later one, however many there are, asks to
  look for the server: the saturating counter never silences the request.
\<close>

theorem echecs_follow_forever: "fst (echec_run n (pogdev_retry_connecte r)) \<longleftrightarrow> 2 \<le> n"
proof -
  have "echecs (pogdev_retry_connecte r) = 0" by (simp add: pogdev_retry_connecte_def pogdev_retry_init_def)
  then have "unat (echecs (snd (echec_run n (pogdev_retry_connecte r)))) = min 255 (Suc n)" by (rule echec_run_count)
  moreover have "fst (echec_run n s) \<longleftrightarrow> 3 \<le> unat (echecs (snd (echec_run n s)))" for s
    by (cases n) (simp_all add: echec_result)
  ultimately show ?thesis by auto
qed

section \<open>Refusals\<close>

text \<open>
  A run of refusals at the real times \<open>ts\<close> (milliseconds since the start, not wrapped): the times at which new credentials were
  asked for.
\<close>

primrec refus_run :: "nat list \<Rightarrow> pogdev_retry \<Rightarrow> nat list" where
  "refus_run [] r = []"
| "refus_run (t # ts) r =
     (case pogdev_retry_refus_auth (of_nat t) r of (due, r) \<Rightarrow> (if due then [t] else []) @ refus_run ts r)"

lemma elapsed_le: "t \<le> u \<Longrightarrow> unat (of_nat u - of_nat t :: u32) \<le> u - t"
proof -
  assume "t \<le> u"
  then have "(of_nat u - of_nat t :: u32) = of_nat (u - t)" by (simp add: of_nat_diff)
  then show ?thesis by (simp add: unat_of_nat)
qed

lemma elapsed_small: "t \<le> u \<Longrightarrow> u - t < 2 ^ 32 \<Longrightarrow> unat (of_nat u - of_nat t :: u32) = u - t"
proof -
  assume "t \<le> u" "u - t < 2 ^ 32"
  then have "(of_nat u - of_nat t :: u32) = of_nat (u - t)" by (simp add: of_nat_diff)
  with \<open>u - t < 2 ^ 32\<close> show ?thesis by (simp add: unat_of_nat)
qed

lemma count_refus_fields [simp]:
  "releve_posee (count_refus now r) = releve_posee r" "derniere_releve_ms (count_refus now r) = derniere_releve_ms r"
  "premier_refus_pose (count_refus now r)"
  "premier_refus_ms (count_refus now r) = (if premier_refus_pose r then premier_refus_ms r else now)"
  by (simp_all add: count_refus_def Let_def)

lemma count_refus_count: "unat (refus (count_refus now r)) = min 255 (unat (refus r) + 1)"
  using saturating_count [of "refus r"] by (auto simp: count_refus_def Let_def split: if_splits)

lemma refus_auth_due:
  assumes "pogdev_retry_refus_auth now r = (True, r')"
  shows "3 \<le> unat (refus r) + 1 \<and> 90000 \<le> unat (now - (if premier_refus_pose r then premier_refus_ms r else now))
    \<and> (releve_posee r \<longrightarrow> 120000 \<le> unat (now - derniere_releve_ms r))
    \<and> releve_posee r' \<and> derniere_releve_ms r' = now"
  using assms count_refus_count [of now r]
  by (auto simp: pogdev_retry_refus_auth_def Let_def retry_limits word_less_nat_alt split: if_splits)

lemma refus_auth_fields:
  "pogdev_retry_refus_auth now r = (due, r') \<Longrightarrow> premier_refus_pose r'
    \<and> premier_refus_ms r' = (if premier_refus_pose r then premier_refus_ms r else now) \<and> unat (refus r') = min 255 (unat (refus r) + 1)
    \<and> (\<not> due \<longrightarrow> releve_posee r' = releve_posee r \<and> derniere_releve_ms r' = derniere_releve_ms r)"
  using count_refus_count [of now r] by (auto simp: pogdev_retry_refus_auth_def Let_def split: if_splits)

definition first_before :: "nat \<Rightarrow> pogdev_retry \<Rightarrow> nat \<Rightarrow> bool" where
  "first_before t0 r t \<longleftrightarrow> premier_refus_pose r \<and> premier_refus_ms r = of_nat t0 \<and> t0 \<le> t"

definition last_asked :: "nat option \<Rightarrow> pogdev_retry \<Rightarrow> bool" where
  "last_asked l r \<longleftrightarrow> (case l of None \<Rightarrow> \<not> releve_posee r | Some t \<Rightarrow> releve_posee r \<and> derniere_releve_ms r = of_nat t)"

lemma refus_run_spaced:
  assumes "sorted (t # ts)" "last_asked l r" "\<forall>x. l = Some x \<longrightarrow> x \<le> t" "first_before t0 r t"
  shows "sorted_wrt (\<lambda>x y. x + 120000 \<le> y) ((case l of None \<Rightarrow> [] | Some x \<Rightarrow> [x]) @ refus_run (t # ts) r)
    \<and> (\<forall>y \<in> set (refus_run (t # ts) r). t0 + 90000 \<le> y)"
  using assms
proof (induction ts arbitrary: t l r)
  case Nil
  obtain due r' where e: "pogdev_retry_refus_auth (of_nat t) r = (due, r')" by fastforce
  have "t0 + 90000 \<le> t" if due
    using refus_auth_due [of "of_nat t" r r'] e that Nil.prems(4) elapsed_le [of t0 t] by (auto simp: first_before_def)
  moreover have "x + 120000 \<le> t" if due "l = Some x" for x
    using refus_auth_due [of "of_nat t" r r'] e that Nil.prems elapsed_le [of x t] by (auto simp: last_asked_def)
  ultimately show ?case using e by (auto split: option.splits)
next
  case (Cons u us)
  obtain due r' where e: "pogdev_retry_refus_auth (of_nat t) r = (due, r')" by fastforce
  have t0: "t0 + 90000 \<le> t" if due
    using refus_auth_due [of "of_nat t" r r'] e that Cons.prems(4) elapsed_le [of t0 t] by (auto simp: first_before_def)
  have sp: "x + 120000 \<le> t" if due "l = Some x" for x
    using refus_auth_due [of "of_nat t" r r'] e that Cons.prems elapsed_le [of x t] by (auto simp: last_asked_def)
  define l' where "l' = (if due then Some t else l)"
  have "last_asked l' r'"
    using refus_auth_due [of "of_nat t" r r'] refus_auth_fields [OF e] e Cons.prems(2) by (auto simp: l'_def last_asked_def split: option.splits)
  moreover have "first_before t0 r' u"
    using refus_auth_fields [OF e] Cons.prems(1,4) by (auto simp: first_before_def)
  moreover have "sorted (u # us)" "\<forall>x. l' = Some x \<longrightarrow> x \<le> u" using Cons.prems(1,3) by (auto simp: l'_def)
  ultimately have ih: "sorted_wrt (\<lambda>x y. x + 120000 \<le> y) ((case l' of None \<Rightarrow> [] | Some x \<Rightarrow> [x]) @ refus_run (u # us) r')"
    "\<forall>y \<in> set (refus_run (u # us) r'). t0 + 90000 \<le> y" using Cons.IH by blast+
  have eq: "refus_run (t # u # us) r = (if due then [t] else []) @ refus_run (u # us) r'" using e by simp
  show ?case
  proof (cases due)
    case True
    then show ?thesis using ih t0 sp unfolding eq by (fastforce simp: l'_def split: option.splits)
  next
    case False
    then show ?thesis using ih unfolding eq by (simp add: l'_def)
  qed
qed

text \<open>
  Whatever the clock shows, wrap-around included: in a run of refusals after a connection (or a start), new credentials are asked for only 90
  seconds or more after the first refusal, and two requests are at least 120 seconds apart in real time.
\<close>

theorem releves_espacees:
  assumes "sorted (t # ts)"
  shows "sorted_wrt (\<lambda>x y. x + 120000 \<le> y) (refus_run (t # ts) pogdev_retry_init)
    \<and> (\<forall>y \<in> set (refus_run (t # ts) pogdev_retry_init). t + 90000 \<le> y)"
proof -
  obtain r where e: "pogdev_retry_refus_auth (of_nat t) pogdev_retry_init = (False, r)"
    using refus_auth_due [of "of_nat t" pogdev_retry_init]
    by (cases "pogdev_retry_refus_auth (of_nat t) pogdev_retry_init") (auto simp: pogdev_retry_init_def)
  show ?thesis
  proof (cases ts)
    case Nil
    with e show ?thesis by simp
  next
    case (Cons u us)
    from refus_auth_fields [OF e] have "last_asked None r" "first_before t r u"
      using assms Cons by (auto simp: pogdev_retry_init_def last_asked_def first_before_def)
    from refus_run_spaced [OF _ this(1) _ this(2), of us] show ?thesis using assms Cons e by simp
  qed
qed

theorem releves_espacees_witness:
  "refus_run [4294966000, 4294971000, 4294976000, 4295057000, 4295117000, 4295180000] pogdev_retry_init = [4295057000, 4295180000]
   \<and> (4294966000::nat) + 90000 \<le> 4295057000"
proof -
  let ?ts = "[4294971000, 4294976000, 4295057000, 4295117000, 4295180000] :: nat list"
  have r: "refus_run (4294966000 # ?ts) pogdev_retry_init = [4295057000, 4295180000]"
    by (simp add: pogdev_retry_refus_auth_def count_refus_def pogdev_retry_init_def retry_limits Let_def)
  have "sorted ((4294966000::nat) # ?ts)" by simp
  from releves_espacees [OF this] r show ?thesis by simp
qed

text \<open>Conversely a refusal that has persisted long enough does ask, unless more than 49 days passed since the first one.\<close>

theorem refus_persistant_releve:
  assumes "first_before t0 r t" "2 \<le> unat (refus r)" "t0 + 90000 \<le> t" "t < t0 + 2 ^ 32"
    and "last_asked l r" "\<forall>x. l = Some x \<longrightarrow> x + 120000 \<le> t \<and> t < x + 2 ^ 32"
  shows "fst (pogdev_retry_refus_auth (of_nat t) r)"
proof -
  have "3 \<le> unat (refus (count_refus (of_nat t) r))" using assms(2) count_refus_count [of "of_nat t" r] by simp
  moreover have "unat (of_nat t - of_nat t0 :: u32) = t - t0" using assms(3,4) by (intro elapsed_small) auto
  moreover have "unat (of_nat t - of_nat x :: u32) = t - x" if "l = Some x" for x
    using assms(6) that by (intro elapsed_small) auto
  ultimately show ?thesis using assms
    by (cases l) (auto simp: pogdev_retry_refus_auth_def Let_def retry_limits word_less_nat_alt first_before_def last_asked_def)
qed

theorem refus_persistant_releve_witness:
  "fst (pogdev_retry_refus_auth (of_nat 91000) (pogdev_retry_init\<lparr>refus := 3, premier_refus_pose := True, premier_refus_ms := of_nat 1000\<rparr>))"
  by (rule refus_persistant_releve [of 1000 _ _ None]) (simp_all add: first_before_def last_asked_def pogdev_retry_init_def)

end
