(* ===== verification/Pogdev_Bus.thy ===== *)
theory Pogdev_Bus
  imports Pogdev_Enrol Pogdev_Retry
begin

text \<open>
  The link to the home server's message broker (\<open>components/pogdev/pogdev_bus.c\<close>): the events of the MQTT client, the publication of the
  descriptor and the state, the task that follows a moved server, and the effect group. The MQTT client is outside of the repository: what crosses its interface is the
  trace \<open>b_trace\<close>, and what it answers, whether the mutex is obtained in time and what the JSON printer returns is the record \<open>bus_env\<close> of a call.
\<close>

section \<open>State\<close>

datatype bus_status = POGDEV_BUS_NOT_STARTED | POGDEV_BUS_CONNECTING | POGDEV_BUS_CONNECTED | POGDEV_BUS_AUTH_FAILED

datatype json = J_num int | J_str bytes | J_arr "json list" | J_obj "(string \<times> json) list"

text \<open>Calls that the client accepted, subscriptions it refused to make or to cancel, calls to the application, and the start of a session.\<close>

datatype bus_call = Session | Publish bytes bytes nat bool | Subscribe bytes nat | Unsubscribe bytes | Refused_sub bytes | Refused_unsub bytes
  | Client_start | Client_stop | App_command bytes bytes bool | App_effect bytes

record bus =
  b_client :: bool
  b_creds :: pogdev_creds
  b_handler :: bool
  b_describe :: bool
  b_state :: bool
  s_effect_handler :: bool
  s_effect_enabled :: bool
  s_topic_hello :: bytes
  s_topic_state :: bytes
  s_topic_status :: bytes
  s_topic_cmd :: bytes
  s_effect_group :: bytes
  s_topic_effect :: bytes
  s_status :: bus_status
  s_retry :: pogdev_retry
  s_soin :: bool
  s_state_task :: bool
  s_hello_dirty :: bool
  s_client_lock :: bool
  o_releve :: bool
  o_reprise :: bool
  b_trace :: "bus_call list"

record bus_env =
  be_hw_id :: bytes
  be_fw_version :: bytes
  be_entities :: "json list"
  be_print :: "json \<Rightarrow> bytes option"
  be_state :: "json"
  be_lock :: bool
  be_publish :: "bytes \<Rightarrow> bool"
  be_subscribe :: "bytes \<Rightarrow> bool"
  be_unsubscribe :: "bytes \<Rightarrow> bool"

definition trace :: "bus_call \<Rightarrow> bus \<Rightarrow> bus" where
  "trace c b = b\<lparr>b_trace := b_trace b @ [c]\<rparr>"

section \<open>Publishing\<close>

definition build_hello :: "bus_env \<Rightarrow> bus \<Rightarrow> bytes option" where
  "build_hello E b = be_print E (J_obj ([(''proto'', J_num 1), (''hw_id'', J_str (be_hw_id E)), (''model'', J_str POGDEV_MODEL),
       (''fw_version'', J_str (be_fw_version E))]
     @ (if s_effect_enabled b then [(''features'', J_arr [J_str (asc ''effect_sync_v1'')])] else [])
     @ [(''entities'', J_arr (if b_describe b then be_entities E else [])), (''local_rules'', J_arr [])]))"

definition publish_hello :: "bus_env \<Rightarrow> bus \<Rightarrow> bool \<times> bus" where
  "publish_hello E b =
     (if \<not> s_hello_dirty b then (True, b)
      else (case build_hello E b of
              None \<Rightarrow> (False, b\<lparr>s_hello_dirty := True\<rparr>)
            | Some hello \<Rightarrow>
                if \<not> s_client_lock b then (False, b\<lparr>s_hello_dirty := True\<rparr>)
                else if be_lock E \<and> b_client b \<and> s_status b = POGDEV_BUS_CONNECTED \<and> be_publish E (s_topic_hello b)
                then (True, trace (Publish (s_topic_hello b) hello 1 True) (b\<lparr>s_hello_dirty := False\<rparr>))
                else (False, b\<lparr>s_hello_dirty := True\<rparr>)))"

definition publish_state :: "bus_env \<Rightarrow> bus \<Rightarrow> bus" where
  "publish_state E b =
     (if \<not> b_state b \<or> \<not> s_client_lock b then b
      else if \<not> be_lock E then b
      else if b_client b then
        (case be_print E (be_state E) of
           Some text_json \<Rightarrow> if be_publish E (s_topic_state b) then trace (Publish (s_topic_state b) text_json 0 True) b else b
         | None \<Rightarrow> b)
      else b)"

definition pogdev_bus_notify :: "bus_env \<Rightarrow> bus \<Rightarrow> bus" where
  "pogdev_bus_notify E b = publish_state E b"

section \<open>Events of the client\<close>

definition on_command :: "bus_env \<Rightarrow> 'j json_lib \<Rightarrow> bytes \<Rightarrow> bus \<Rightarrow> bus" where
  "on_command E J data b =
     (case js_parse J data of
        None \<Rightarrow> b
      | Some root \<Rightarrow>
          (case (Option.bind (js_item J root ''key'') (js_str J), Option.bind (js_item J root ''name'') (js_str J)) of
             (Some key, Some name) \<Rightarrow>
               publish_state E (if b_handler b then trace (App_command key name (js_item J root ''params'' \<noteq> None)) b else b)
           | _ \<Rightarrow> b))"

datatype connect_return = CONNECTION_ACCEPTED | REFUSE_PROTOCOL | REFUSE_ID_REJECTED | REFUSE_SERVER_UNAVAILABLE | REFUSE_BAD_USERNAME
  | REFUSE_NOT_AUTHORIZED

text \<open>The error of an event: whether its type is a refused connection, and the return code, which may be left over.\<close>

type_synonym mqtt_error = "(bool \<times> connect_return) option"

definition connack_refuse_identifiants :: "mqtt_error \<Rightarrow> bool" where
  "connack_refuse_identifiants e =
     (case e of None \<Rightarrow> False
      | Some (refused, code) \<Rightarrow> if \<not> refused then False else code = REFUSE_NOT_AUTHORIZED \<or> code = REFUSE_BAD_USERNAME)"

datatype mqtt_ev = MQTT_CONNECTED | MQTT_DATA bytes bytes | MQTT_ERROR mqtt_error | MQTT_DISCONNECTED | MQTT_OTHER

definition subscribe :: "bus_env \<Rightarrow> bytes \<Rightarrow> nat \<Rightarrow> bus \<Rightarrow> bus" where
  "subscribe E topic qos b = trace (if b_client b \<and> be_subscribe E topic then Subscribe topic qos else Refused_sub topic) b"

definition unsubscribe :: "bus_env \<Rightarrow> bytes \<Rightarrow> bus \<Rightarrow> bus" where
  "unsubscribe E topic b = trace (if be_unsubscribe E topic then Unsubscribe topic else Refused_unsub topic) b"

definition on_connected :: "bus_env \<Rightarrow> bus \<Rightarrow> bus" where
  "on_connected E b =
     (let b = (trace Session b)\<lparr>s_status := POGDEV_BUS_CONNECTED, s_retry := pogdev_retry_connecte (s_retry b)\<rparr>;
          b = (if b_client b \<and> be_publish E (s_topic_status b) then trace (Publish (s_topic_status b) (asc ''online'') 1 True) b else b);
          b = snd (publish_hello E (b\<lparr>s_hello_dirty := True\<rparr>));
          b = subscribe E (s_topic_cmd b) 1 b;
          b = (if s_topic_effect b \<noteq> [] then subscribe E (s_topic_effect b) 0 b else b) in
      publish_state E b)"

definition on_data :: "bus_env \<Rightarrow> 'j json_lib \<Rightarrow> bytes \<Rightarrow> bytes \<Rightarrow> bus \<Rightarrow> bus" where
  "on_data E J topic data b =
     (if s_topic_effect b \<noteq> [] \<and> topic = s_topic_effect b then (if s_effect_handler b then trace (App_effect data) b else b)
      else if topic = s_topic_cmd b then on_command E J data b
      else b)"

definition on_error :: "u32 \<Rightarrow> mqtt_error \<Rightarrow> bus \<Rightarrow> bus" where
  "on_error now_ms e b =
     (if \<not> connack_refuse_identifiants e then b
      else
        let b = b\<lparr>s_status := POGDEV_BUS_AUTH_FAILED\<rparr> in
        if s_soin b then
          (case pogdev_retry_refus_auth now_ms (s_retry b) of (due, r) \<Rightarrow> b\<lparr>s_retry := r, o_releve := o_releve b \<or> due\<rparr>)
        else b)"

definition on_disconnected :: "bus \<Rightarrow> bus" where
  "on_disconnected b =
     (let b = b\<lparr>s_hello_dirty := True\<rparr>;
          b = (if s_status b \<noteq> POGDEV_BUS_AUTH_FAILED then b\<lparr>s_status := POGDEV_BUS_CONNECTING\<rparr> else b) in
      if s_soin b then (case pogdev_retry_echec (s_retry b) of (due, r) \<Rightarrow> b\<lparr>s_retry := r, o_reprise := o_reprise b \<or> due\<rparr>) else b)"

definition mqtt_event :: "bus_env \<Rightarrow> 'j json_lib \<Rightarrow> u32 \<Rightarrow> mqtt_ev \<Rightarrow> bus \<Rightarrow> bus" where
  "mqtt_event E J now_ms ev b =
     (case ev of
        MQTT_CONNECTED \<Rightarrow> on_connected E b
      | MQTT_DATA topic data \<Rightarrow> on_data E J topic data b
      | MQTT_ERROR e \<Rightarrow> on_error now_ms e b
      | MQTT_DISCONNECTED \<Rightarrow> on_disconnected b
      | MQTT_OTHER \<Rightarrow> b)"

text \<open>One turn of the task that publishes: \<open>due\<close> when 30 seconds have passed since the last state.\<close>

definition state_task_turn :: "bus_env \<Rightarrow> bool \<Rightarrow> bus \<Rightarrow> bus" where
  "state_task_turn E due b =
     (let b = (if s_hello_dirty b \<and> s_status b = POGDEV_BUS_CONNECTED then snd (publish_hello E b) else b) in
      if due then publish_state E b else b)"

section \<open>Starting and following the server\<close>

text \<open>What the client library answers when it is created, given its handler, and started.\<close>

record launch_env =
  le_init :: bool
  le_register :: esp_err
  le_start :: esp_err

definition topic :: "bytes \<Rightarrow> string \<Rightarrow> bytes" where
  "topic device_id leaf = take 95 (asc ''pog/'' @ device_id @ asc leaf)"

definition bus_launch :: "launch_env \<Rightarrow> pogdev_creds option \<Rightarrow> bus \<Rightarrow> esp_err \<times> bus" where
  "bus_launch le creds b =
     (case creds of
        None \<Rightarrow> (ESP_ERR_INVALID_STATE, b\<lparr>s_status := POGDEV_BUS_NOT_STARTED\<rparr>)
      | Some c \<Rightarrow>
          let b = b\<lparr>b_creds := c, s_topic_hello := topic (cr_device_id c) ''/hello'', s_topic_state := topic (cr_device_id c) ''/state'',
                s_topic_status := topic (cr_device_id c) ''/status'', s_topic_cmd := topic (cr_device_id c) ''/cmd'',
                s_status := POGDEV_BUS_CONNECTING\<rparr> in
          if \<not> le_init le then (ESP_ERR_NO_MEM, b\<lparr>s_status := POGDEV_BUS_NOT_STARTED\<rparr>)
          else
            let err = (if le_register le = ESP_OK then le_start le else le_register le) in
            if err \<noteq> ESP_OK then (err, b\<lparr>s_status := POGDEV_BUS_NOT_STARTED\<rparr>)
            else (ESP_OK, trace Client_start (b\<lparr>b_client := True\<rparr>)))"

text \<open>The attempts go on until one succeeds; \<open>None\<close>: none of the given ones did and the loop is still running.\<close>

fun relaunch_loop :: "launch_env list \<Rightarrow> pogdev_creds option \<Rightarrow> bus \<Rightarrow> bus option" where
  "relaunch_loop [] creds b = None"
| "relaunch_loop (le # les) creds b =
     (case bus_launch le creds b of (err, b) \<Rightarrow> if err = ESP_OK then Some b else relaunch_loop les creds b)"

definition bus_relancer :: "launch_env list \<Rightarrow> pogdev_creds option \<Rightarrow> bus \<Rightarrow> bus option" where
  "bus_relancer les creds b =
     (let b = (if b_client b then (trace Client_stop b)\<lparr>b_client := False\<rparr> else b) in
      relaunch_loop les creds (b\<lparr>s_retry := pogdev_retry_init\<rparr>))"

text \<open>
  One turn of the care task, woken by the two orders: the server found by the discovery and its reply to the request for credentials come from outside.
\<close>

definition soin_turn ::
    "'n nvs_lib \<Rightarrow> 'j json_lib \<Rightarrow> bytes \<Rightarrow> http_reply \<Rightarrow> pogdev_server option \<Rightarrow> launch_env list \<Rightarrow> bus \<times> 'n enrol \<Rightarrow> (bus \<times> 'n enrol) option" where
  "soin_turn L J mac reply server les be =
     (case be of (b, en) \<Rightarrow>
        let releve = o_releve b; reprise = o_reprise b;
            b = b\<lparr>o_releve := False, o_reprise := False\<rparr>;
            (fresh, en) = (if releve then pogdev_enrol_recollect L J mac reply server en else (False, en));
            (moved, en) = (if \<not> fresh \<and> reprise then
                             (case server of Some srv \<Rightarrow> pogdev_enrol_update_host L (srv_addr srv) (srv_mqtt_port srv) en | None \<Rightarrow> (False, en))
                           else (False, en)) in
        if fresh \<or> moved then map_option (\<lambda>b. (b, en)) (bus_relancer les (pogdev_enrol_get en) b)
        else Some (b, en))"

definition pogdev_bus_start :: "launch_env \<Rightarrow> bool \<Rightarrow> bool \<Rightarrow> bool \<Rightarrow> pogdev_creds option \<Rightarrow> bool \<Rightarrow> bool \<Rightarrow> bool \<Rightarrow> bus \<Rightarrow> esp_err \<times> bus" where
  "pogdev_bus_start le lock_ok state_ok soin_ok creds describe state handler b =
     (let b = b\<lparr>b_describe := describe, b_state := state, b_handler := handler, s_retry := pogdev_retry_init\<rparr> in
      if \<not> s_client_lock b \<and> \<not> lock_ok then (ESP_ERR_NO_MEM, b)
      else (case bus_launch le creds (b\<lparr>s_client_lock := True\<rparr>) of (err, b) \<Rightarrow>
        if err \<noteq> ESP_OK then (err, b)
        else (ESP_OK, b\<lparr>s_state_task := s_state_task b \<or> state_ok, s_soin := s_soin b \<or> soin_ok\<rparr>)))"

section \<open>The effect group\<close>

definition pogdev_bus_enable_effect_sync :: "bool \<Rightarrow> bus \<Rightarrow> bus" where
  "pogdev_bus_enable_effect_sync handler b =
     (if b_client b then b else b\<lparr>s_effect_enabled := handler, s_effect_handler := handler\<rparr>)"

definition pogdev_bus_effect_sync_join :: "bus_env \<Rightarrow> bytes \<Rightarrow> bus \<Rightarrow> esp_err \<times> bus" where
  "pogdev_bus_effect_sync_join E group_id b =
     (if \<not> s_effect_enabled b \<or> length group_id \<noteq> 36 \<or> \<not> s_client_lock b then (ESP_ERR_INVALID_ARG, b)
      else
        let nxt = asc ''pog/effects/'' @ group_id @ asc ''/frame'' in
        if length nxt \<ge> 96 then (ESP_ERR_INVALID_SIZE, b)
        else if \<not> be_lock E then (ESP_ERR_TIMEOUT, b)
        else if b_client b \<and> s_status b = POGDEV_BUS_CONNECTED \<and> be_subscribe E nxt then
          (let old = s_topic_effect b;
               b = (trace (Subscribe nxt 0) b)\<lparr>s_topic_effect := nxt, s_effect_group := group_id\<rparr> in
           (ESP_OK, if old \<noteq> [] \<and> old \<noteq> nxt then unsubscribe E old b else b))
        else (ESP_ERR_INVALID_STATE, b))"

definition pogdev_bus_effect_sync_cancel :: "bus_env \<Rightarrow> bus \<Rightarrow> bus" where
  "pogdev_bus_effect_sync_cancel E b =
     (if \<not> s_client_lock b \<or> \<not> be_lock E then b
      else (if b_client b \<and> s_topic_effect b \<noteq> [] then unsubscribe E (s_topic_effect b) b else b)
        \<lparr>s_effect_group := [], s_topic_effect := []\<rparr>)"

definition pogdev_bus_effect_sync_leave :: "bus_env \<Rightarrow> bytes \<Rightarrow> bus \<Rightarrow> bool \<times> bus" where
  "pogdev_bus_effect_sync_leave E group_id b =
     (if group_id \<noteq> s_effect_group b then (False, b) else (True, pogdev_bus_effect_sync_cancel E b))"

definition pogdev_bus_get_status :: "bus \<Rightarrow> bus_status" where
  "pogdev_bus_get_status b = s_status b"

section \<open>What holds while the link is up\<close>

text \<open>The trace since the last session began, and the subscriptions the broker holds in it.\<close>

definition since :: "bus \<Rightarrow> bus_call list" where
  "since b = rev (takeWhile (\<lambda>c. c \<noteq> Session) (rev (b_trace b)))"

fun sub_effect :: "bytes set \<Rightarrow> bus_call \<Rightarrow> bytes set" where
  "sub_effect S (Subscribe t q) = insert t S"
| "sub_effect S (Unsubscribe t) = S - {t}"
| "sub_effect S _ = S"

definition subscriptions :: "bus \<Rightarrow> bytes set" where
  "subscriptions b = foldl sub_effect {} (since b)"

definition refused_subs :: "bus \<Rightarrow> bytes set" where
  "refused_subs b = {t. Refused_sub t \<in> set (since b)}"

definition refused_unsubs :: "bus \<Rightarrow> bytes set" where
  "refused_unsubs b = {t. Refused_unsub t \<in> set (since b)}"

definition hello_sent :: "bus \<Rightarrow> bool" where
  "hello_sent b \<longleftrightarrow> (\<exists>p. Publish (s_topic_hello b) p 1 True \<in> set (since b))"

definition wanted :: "bus \<Rightarrow> bytes set" where
  "wanted b = insert (s_topic_cmd b) (if s_topic_effect b = [] then {} else {s_topic_effect b})"

text \<open>The broker holds what is wanted, up to what the client refused in this session.\<close>

definition held :: "bus \<Rightarrow> bool" where
  "held b \<longleftrightarrow> wanted b \<subseteq> subscriptions b \<union> refused_subs b \<and> subscriptions b \<subseteq> wanted b \<union> refused_unsubs b"

definition topics_apart :: "bus \<Rightarrow> bool" where
  "topics_apart b \<longleftrightarrow> (s_topic_cmd b = [] \<or> last (s_topic_cmd b) = 100) \<and> (s_topic_effect b = [] \<or> last (s_topic_effect b) = 101)"

definition bus_inv :: "bus \<Rightarrow> bool" where
  "bus_inv b \<longleftrightarrow> topics_apart b
     \<and> (s_status b = POGDEV_BUS_CONNECTED \<longrightarrow> (s_hello_dirty b \<or> hello_sent b) \<and> held b)"

lemma trace_fields [simp]:
  "b_trace (trace c b) = b_trace b @ [c]" "b_client (trace c b) = b_client b" "s_status (trace c b) = s_status b"
  "s_hello_dirty (trace c b) = s_hello_dirty b" "s_topic_cmd (trace c b) = s_topic_cmd b" "s_topic_effect (trace c b) = s_topic_effect b"
  "s_topic_hello (trace c b) = s_topic_hello b" "s_client_lock (trace c b) = s_client_lock b" "s_retry (trace c b) = s_retry b"
  "s_soin (trace c b) = s_soin b" "o_releve (trace c b) = o_releve b" "o_reprise (trace c b) = o_reprise b" "b_creds (trace c b) = b_creds b"
  by (simp_all add: trace_def)

lemma since_trace [simp]: "since (trace c b) = (if c = Session then [] else since b @ [c])"
  by (simp add: since_def)

lemma subscriptions_trace [simp]:
  "subscriptions (trace c b) = (if c = Session then {} else sub_effect (subscriptions b) c)"
  by (simp add: subscriptions_def)

lemma refused_trace [simp]:
  "refused_subs (trace c b) = (case c of Session \<Rightarrow> {} | Refused_sub t \<Rightarrow> insert t (refused_subs b) | _ \<Rightarrow> refused_subs b)"
  "refused_unsubs (trace c b) = (case c of Session \<Rightarrow> {} | Refused_unsub t \<Rightarrow> insert t (refused_unsubs b) | _ \<Rightarrow> refused_unsubs b)"
  by (cases c; auto simp: refused_subs_def refused_unsubs_def)+

lemma hello_sent_trace: "c \<noteq> Session \<Longrightarrow> hello_sent b \<Longrightarrow> hello_sent (trace c b)"
  by (auto simp: hello_sent_def)

lemma state_cong:
  "b_trace b = b_trace b' \<Longrightarrow> since b = since b'" "b_trace b = b_trace b' \<Longrightarrow> subscriptions b = subscriptions b'"
  "b_trace b = b_trace b' \<Longrightarrow> s_topic_hello b = s_topic_hello b' \<Longrightarrow> hello_sent b = hello_sent b'"
  "b_trace b = b_trace b' \<Longrightarrow> refused_subs b = refused_subs b'" "b_trace b = b_trace b' \<Longrightarrow> refused_unsubs b = refused_unsubs b'"
  "b_trace b = b_trace b' \<Longrightarrow> s_topic_cmd b = s_topic_cmd b' \<Longrightarrow> s_topic_effect b = s_topic_effect b' \<Longrightarrow> held b = held b'"
  by (simp_all add: since_def subscriptions_def hello_sent_def refused_subs_def refused_unsubs_def held_def wanted_def)

definition quiet :: "bus_call \<Rightarrow> bool" where
  "quiet c \<longleftrightarrow> (case c of Session \<Rightarrow> False | Subscribe _ _ \<Rightarrow> False | Unsubscribe _ \<Rightarrow> False
     | Refused_sub _ \<Rightarrow> False | Refused_unsub _ \<Rightarrow> False | _ \<Rightarrow> True)"

lemma quiet_inv: "quiet c \<Longrightarrow> bus_inv b \<Longrightarrow> bus_inv (trace c b)"
  using hello_sent_trace [of c b] by (cases c) (auto simp: quiet_def bus_inv_def topics_apart_def wanted_def held_def)

lemma publish_state_inv: "bus_inv b \<Longrightarrow> bus_inv (publish_state E b)"
  by (auto simp: publish_state_def quiet_def intro: quiet_inv split: option.splits)

lemma publish_hello_cases:
  "snd (publish_hello E b) \<in> {b, b\<lparr>s_hello_dirty := True\<rparr>}
   \<or> (\<exists>hello. snd (publish_hello E b) = trace (Publish (s_topic_hello b) hello 1 True) (b\<lparr>s_hello_dirty := False\<rparr>))"
  by (auto simp: publish_hello_def split: option.splits)

lemma dirty_inv: "bus_inv b \<Longrightarrow> bus_inv (b\<lparr>s_hello_dirty := True\<rparr>)"
  using state_cong(6) [of "b\<lparr>s_hello_dirty := True\<rparr>" b] by (simp add: bus_inv_def topics_apart_def)

lemma sent_inv: "bus_inv b \<Longrightarrow> bus_inv (trace (Publish (s_topic_hello b) hello 1 True) (b\<lparr>s_hello_dirty := False\<rparr>))"
proof -
  assume i: "bus_inv b"
  have "held (b\<lparr>s_hello_dirty := False\<rparr>) = held b" by (rule state_cong(6)) simp_all
  with i show ?thesis by (auto simp: bus_inv_def topics_apart_def held_def wanted_def hello_sent_def)
qed

lemma publish_hello_inv: "bus_inv b \<Longrightarrow> bus_inv (snd (publish_hello E b))"
  using publish_hello_cases [of E b] dirty_inv [of b] sent_inv [of b] by auto

lemma on_command_inv: "bus_inv b \<Longrightarrow> bus_inv (on_command E J data b)"
  by (auto simp: on_command_def quiet_def intro!: publish_state_inv quiet_inv split: option.splits)

lemma on_data_inv: "bus_inv b \<Longrightarrow> bus_inv (on_data E J t data b)"
  by (auto simp: on_data_def quiet_def on_command_inv intro!: quiet_inv)

lemma status_inv: "bus_inv b \<Longrightarrow> st \<noteq> POGDEV_BUS_CONNECTED \<Longrightarrow> s_topic_cmd b' = s_topic_cmd b \<Longrightarrow> s_topic_effect b' = s_topic_effect b
  \<Longrightarrow> s_status b' = st \<Longrightarrow> bus_inv b'"
  by (simp add: bus_inv_def topics_apart_def)

lemma on_error_inv: "bus_inv b \<Longrightarrow> bus_inv (on_error now_ms e b)"
  by (cases "connack_refuse_identifiants e")
    (auto simp: on_error_def Let_def split: prod.splits intro!: status_inv [of b POGDEV_BUS_AUTH_FAILED])

lemma on_disconnected_fields:
  "s_status (on_disconnected b) = (if s_status b = POGDEV_BUS_AUTH_FAILED then POGDEV_BUS_AUTH_FAILED else POGDEV_BUS_CONNECTING)
   \<and> s_topic_cmd (on_disconnected b) = s_topic_cmd b \<and> s_topic_effect (on_disconnected b) = s_topic_effect b
   \<and> b_client (on_disconnected b) = b_client b \<and> s_soin (on_disconnected b) = s_soin b
   \<and> (s_soin b \<longrightarrow> s_retry (on_disconnected b) = snd (pogdev_retry_echec (s_retry b))
       \<and> o_reprise (on_disconnected b) = (o_reprise b \<or> fst (pogdev_retry_echec (s_retry b))))"
  by (simp add: on_disconnected_def Let_def case_prod_beta)

lemma on_disconnected_inv: "bus_inv b \<Longrightarrow> bus_inv (on_disconnected b)"
  by (rule status_inv [of b "s_status (on_disconnected b)"]) (simp_all add: on_disconnected_fields)

lemma publish_hello_fields:
  "s_status (snd (publish_hello E b)) = s_status b \<and> b_client (snd (publish_hello E b)) = b_client b
   \<and> s_topic_cmd (snd (publish_hello E b)) = s_topic_cmd b \<and> s_topic_effect (snd (publish_hello E b)) = s_topic_effect b
   \<and> subscriptions (snd (publish_hello E b)) = subscriptions b"
proof -
  have "subscriptions (b\<lparr>s_hello_dirty := d\<rparr>) = subscriptions b" for d by (rule state_cong(2)) simp
  then show ?thesis using publish_hello_cases [of E b] by auto
qed

lemma publish_hello_dirty_or_sent: "s_hello_dirty b \<Longrightarrow> s_hello_dirty (snd (publish_hello E b)) \<or> hello_sent (snd (publish_hello E b))"
  using publish_hello_cases [of E b] by (auto simp: hello_sent_def)

definition connected_head :: "bus_env \<Rightarrow> bus \<Rightarrow> bus" where
  "connected_head E b =
     (let b = (trace Session b)\<lparr>s_status := POGDEV_BUS_CONNECTED, s_retry := pogdev_retry_connecte (s_retry b)\<rparr>;
          b = (if b_client b \<and> be_publish E (s_topic_status b) then trace (Publish (s_topic_status b) (asc ''online'') 1 True) b else b) in
      b\<lparr>s_hello_dirty := True\<rparr>)"

lemma connected_head_facts:
  "s_hello_dirty (connected_head E b) \<and> s_status (connected_head E b) = POGDEV_BUS_CONNECTED \<and> subscriptions (connected_head E b) = {}
   \<and> b_client (connected_head E b) = b_client b \<and> s_topic_cmd (connected_head E b) = s_topic_cmd b
   \<and> s_topic_effect (connected_head E b) = s_topic_effect b"
proof -
  let ?b = "(trace Session b)\<lparr>s_status := POGDEV_BUS_CONNECTED, s_retry := pogdev_retry_connecte (s_retry b)\<rparr>"
  have "subscriptions ?b = {}" using state_cong(2) [of ?b "trace Session b"] by simp
  moreover have "subscriptions (c\<lparr>s_hello_dirty := True\<rparr>) = subscriptions c" for c by (rule state_cong(2)) simp
  ultimately show ?thesis by (simp add: connected_head_def Let_def)
qed

lemma on_connected_eq:
  "on_connected E b =
     (let h = snd (publish_hello E (connected_head E b)); c = subscribe E (s_topic_cmd h) 1 h;
          d = (if s_topic_effect c \<noteq> [] then subscribe E (s_topic_effect c) 0 c else c) in publish_state E d)"
  by (simp add: on_connected_def connected_head_def Let_def)

lemma subscribe_fields [simp]:
  "s_status (subscribe E t q b) = s_status b" "s_topic_cmd (subscribe E t q b) = s_topic_cmd b" "s_topic_effect (subscribe E t q b) = s_topic_effect b"
  "s_hello_dirty (subscribe E t q b) = s_hello_dirty b" "hello_sent b \<Longrightarrow> hello_sent (subscribe E t q b)"
  "b_client (subscribe E t q b) = b_client b" "s_client_lock (subscribe E t q b) = s_client_lock b"
  using hello_sent_trace by (simp_all add: subscribe_def)

lemma subscribe_sets:
  "subscriptions b \<subseteq> subscriptions (subscribe E t q b)" "subscriptions (subscribe E t q b) \<subseteq> insert t (subscriptions b)"
  "refused_subs b \<subseteq> refused_subs (subscribe E t q b)" "t \<in> subscriptions (subscribe E t q b) \<union> refused_subs (subscribe E t q b)"
  by (auto simp: subscribe_def)

lemma on_connected_inv:
  assumes "bus_inv b"
  shows "bus_inv (on_connected E b)"
proof -
  define h where "h = snd (publish_hello E (connected_head E b))"
  have h: "s_status h = POGDEV_BUS_CONNECTED" "s_topic_cmd h = s_topic_cmd b" "s_topic_effect h = s_topic_effect b"
    "subscriptions h = {}" "s_hello_dirty h \<or> hello_sent h"
    using publish_hello_fields [of E "connected_head E b"] publish_hello_dirty_or_sent [of "connected_head E b" E]
      connected_head_facts [of E b] by (auto simp: h_def)
  define c where "c = subscribe E (s_topic_cmd h) 1 h"
  define d where "d = (if s_topic_effect c \<noteq> [] then subscribe E (s_topic_effect c) 0 c else c)"
  have "on_connected E b = publish_state E d" by (simp only: on_connected_eq Let_def h_def [symmetric] c_def [symmetric] d_def [symmetric])
  moreover have "held d"
    using subscribe_sets [where b = h and E = E and t = "s_topic_cmd h" and q = 1] subscribe_sets [where b = c and E = E and t = "s_topic_effect c" and q = 0] h(4)
    by (auto simp: held_def wanted_def d_def c_def)
  then have "bus_inv d" using h assms by (auto simp: bus_inv_def topics_apart_def d_def c_def)
  ultimately show ?thesis by (simp add: publish_state_inv)
qed

lemma topic_last: "length (cr_device_id c) < 48 \<Longrightarrow> last (topic (cr_device_id c) ''/cmd'') = 100 \<and> topic (cr_device_id c) ''/cmd'' \<noteq> []"
  by (simp add: topic_def)

lemma launch_inv:
  assumes "bus_inv b" "\<forall>c. creds = Some c \<longrightarrow> creds_fit c"
  shows "bus_inv (snd (bus_launch le creds b)) \<and> s_status (snd (bus_launch le creds b)) \<noteq> POGDEV_BUS_CONNECTED"
  using assms topic_last by (auto simp: bus_launch_def bus_inv_def topics_apart_def creds_fit_def Let_def split: option.splits)

lemma relaunch_inv:
  "relaunch_loop les creds b = Some b' \<Longrightarrow> bus_inv b \<Longrightarrow> \<forall>c. creds = Some c \<longrightarrow> creds_fit c \<Longrightarrow> bus_inv b'"
proof (induction les arbitrary: b)
  case (Cons le les)
  obtain e c where l: "bus_launch le creds b = (e, c)" by fastforce
  then have "bus_inv c" using launch_inv [OF Cons.prems(2,3), of le] by simp
  with Cons l show ?case by (auto split: if_splits)
qed simp

text \<open>What happens to the bus while the device runs; the client may refuse any call. Events come when the handle of the client has been stored.\<close>

inductive bus_step :: "'j json_lib \<Rightarrow> bus \<Rightarrow> bus \<Rightarrow> bool" for J where
  started: "\<not> b_client b \<Longrightarrow> \<forall>c. creds = Some c \<longrightarrow> creds_fit c \<Longrightarrow>
    bus_step J b (snd (pogdev_bus_start le lock_ok state_ok soin_ok creds describe state handler b))"
| event: "b_client b \<Longrightarrow> bus_step J b (mqtt_event E J now_ms ev b)"
| tick: "bus_step J b (state_task_turn E due b)"
| notify: "bus_step J b (pogdev_bus_notify E b)"
| relaunch: "s_client_lock b \<Longrightarrow> \<forall>c. creds = Some c \<longrightarrow> creds_fit c \<Longrightarrow> bus_relancer les creds b = Some b' \<Longrightarrow> bus_step J b b'"
| enable: "bus_step J b (pogdev_bus_enable_effect_sync handler b)"
| join: "bus_step J b (snd (pogdev_bus_effect_sync_join E gid b))"
| leave: "bus_step J b (snd (pogdev_bus_effect_sync_leave E gid b))"
| cancel: "bus_step J b (pogdev_bus_effect_sync_cancel E b)"

lemma bus_inv_cong:
  assumes "b_trace b = b_trace b'" "s_topic_cmd b = s_topic_cmd b'" "s_topic_effect b = s_topic_effect b'" "s_topic_hello b = s_topic_hello b'"
    "s_status b = s_status b'" "s_hello_dirty b = s_hello_dirty b'"
  shows "bus_inv b = bus_inv b'"
  using state_cong(6) [OF assms(1-3)] state_cong(3) [OF assms(1,4)] assms by (simp add: bus_inv_def topics_apart_def)

lemma relancer_inv:
  assumes "bus_relancer les creds b = Some b'" "bus_inv b" "\<forall>c. creds = Some c \<longrightarrow> creds_fit c"
  shows "bus_inv b'"
proof -
  let ?b = "(if b_client b then (trace Client_stop b)\<lparr>b_client := False\<rparr> else b)\<lparr>s_retry := pogdev_retry_init\<rparr>"
  have "bus_inv (trace Client_stop b)" using assms(2) by (rule quiet_inv [rotated]) (simp add: quiet_def)
  moreover have "bus_inv ?b = bus_inv (if b_client b then trace Client_stop b else b)" by (rule bus_inv_cong) simp_all
  ultimately have "bus_inv ?b" using assms(2) by simp
  moreover have "relaunch_loop les creds ?b = Some b'" using assms(1) by (simp add: bus_relancer_def Let_def)
  ultimately show ?thesis using relaunch_inv assms(3) by blast
qed

lemma unsubscribe_fields [simp]:
  "s_status (unsubscribe E t b) = s_status b" "s_topic_cmd (unsubscribe E t b) = s_topic_cmd b" "s_topic_effect (unsubscribe E t b) = s_topic_effect b"
  "s_hello_dirty (unsubscribe E t b) = s_hello_dirty b" "hello_sent b \<Longrightarrow> hello_sent (unsubscribe E t b)"
  "b_client (unsubscribe E t b) = b_client b" "s_client_lock (unsubscribe E t b) = s_client_lock b"
  "refused_subs (unsubscribe E t b) = refused_subs b"
  using hello_sent_trace by (simp_all add: unsubscribe_def)

lemma unsubscribe_sets:
  "subscriptions b \<subseteq> insert t (subscriptions (unsubscribe E t b))" "subscriptions (unsubscribe E t b) \<subseteq> subscriptions b"
  "refused_unsubs b \<subseteq> refused_unsubs (unsubscribe E t b)" "t \<notin> subscriptions (unsubscribe E t b) \<or> t \<in> refused_unsubs (unsubscribe E t b)"
  by (auto simp: unsubscribe_def)

lemma join_inv:
  assumes "bus_inv b"
  shows "bus_inv (snd (pogdev_bus_effect_sync_join E gid b))"
proof -
  let ?n = "asc ''pog/effects/'' @ gid @ asc ''/frame''" and ?t = "s_topic_effect b"
  have l: "?n \<noteq> []" "last ?n = 101" by simp_all
  define b1 where "b1 = (trace (Subscribe ?n 0) b)\<lparr>s_topic_effect := ?n, s_effect_group := gid\<rparr>"
  have b1: "b_trace b1 = b_trace (trace (Subscribe ?n 0) b)" "s_topic_cmd b1 = s_topic_cmd b" "s_topic_effect b1 = ?n" "s_status b1 = s_status b"
    "s_hello_dirty b1 = s_hello_dirty b" "s_topic_hello b1 = s_topic_hello b" by (simp_all add: b1_def)
  have s1: "subscriptions b1 = insert ?n (subscriptions b)" "refused_subs b1 = refused_subs b" "refused_unsubs b1 = refused_unsubs b"
    using state_cong(2,4,5) [OF b1(1)] by simp_all
  have h1: "hello_sent b \<Longrightarrow> hello_sent b1" using state_cong(3) [OF b1(1)] b1(6) hello_sent_trace [of "Subscribe ?n 0" b] by simp
  have apart: "?t \<noteq> [] \<Longrightarrow> ?t \<noteq> s_topic_cmd b" "topics_apart b1" using assms l b1 by (auto simp: bus_inv_def topics_apart_def)
  have "bus_inv b1" if "?t = [] \<or> ?t = ?n"
    using assms that l s1 h1 apart(2) unfolding bus_inv_def held_def wanted_def b1 by auto
  moreover have "bus_inv (unsubscribe E ?t b1)" if t: "?t \<noteq> []" "?t \<noteq> ?n"
  proof -
    have "held (unsubscribe E ?t b1)" if "held b"
      using that t l(1) apart(1) unsubscribe_sets [where b = b1 and t = ?t and E = E] unfolding held_def wanted_def unsubscribe_fields b1 s1 by auto
    then show ?thesis using assms h1 apart(2) b1 by (auto simp: bus_inv_def topics_apart_def)
  qed
  ultimately show ?thesis using assms unfolding pogdev_bus_effect_sync_join_def Let_def b1_def [symmetric] by auto
qed

lemma cancel_inv:
  assumes "bus_inv b" "s_status b = POGDEV_BUS_CONNECTED \<longrightarrow> b_client b"
  shows "bus_inv (pogdev_bus_effect_sync_cancel E b)"
proof (cases "s_client_lock b \<and> be_lock E")
  case True
  let ?t = "s_topic_effect b"
  define u where "u = (if b_client b \<and> ?t \<noteq> [] then unsubscribe E ?t b else b)"
  define v where "v = u\<lparr>s_effect_group := [], s_topic_effect := []\<rparr>"
  have v: "pogdev_bus_effect_sync_cancel E b = v" using True by (simp add: pogdev_bus_effect_sync_cancel_def u_def v_def)
  have apart: "?t \<noteq> [] \<Longrightarrow> ?t \<noteq> s_topic_cmd b" using assms(1) by (auto simp: bus_inv_def topics_apart_def)
  have f: "b_trace v = b_trace u" "s_topic_hello v = s_topic_hello u" "s_status v = s_status b" "s_topic_cmd v = s_topic_cmd b" "s_topic_effect v = []"
    "s_hello_dirty v = s_hello_dirty b" by (simp_all add: v_def u_def)
  have same: "subscriptions v = subscriptions u" "refused_subs v = refused_subs u" "refused_unsubs v = refused_unsubs u" "hello_sent v = hello_sent u"
    using state_cong [of v u] f(1,2) by simp_all
  have "hello_sent b \<Longrightarrow> hello_sent u" by (simp add: u_def)
  moreover have "held v" if "held b" "b_client b"
    using that apart unsubscribe_sets [where b = b and t = ?t and E = E] by (auto simp: held_def wanted_def same f u_def)
  ultimately show ?thesis using assms unfolding v by (auto simp: bus_inv_def topics_apart_def f same)
qed (use assms(1) in \<open>auto simp: pogdev_bus_effect_sync_cancel_def\<close>)

text \<open>A client implies the mutex, and a connection a client.\<close>

definition linked :: "bus \<Rightarrow> bool" where
  "linked b \<longleftrightarrow> bus_inv b \<and> (s_status b = POGDEV_BUS_CONNECTED \<longrightarrow> b_client b) \<and> (b_client b \<longrightarrow> s_client_lock b)"

definition same_link :: "bus \<Rightarrow> bus \<Rightarrow> bool" where
  "same_link b b' \<longleftrightarrow> b_client b' = b_client b \<and> s_client_lock b' = s_client_lock b
     \<and> (s_status b' = POGDEV_BUS_CONNECTED \<longrightarrow> s_status b = POGDEV_BUS_CONNECTED \<or> b_client b)"

lemma linked_same: "linked b \<Longrightarrow> same_link b b' \<Longrightarrow> bus_inv b' \<Longrightarrow> linked b'"
  by (auto simp: linked_def same_link_def)

lemma publish_state_same: "b_client (publish_state E b) = b_client b \<and> s_client_lock (publish_state E b) = s_client_lock b
    \<and> s_status (publish_state E b) = s_status b"
  by (simp add: publish_state_def split: option.splits)

lemma publish_hello_same: "s_client_lock (snd (publish_hello E b)) = s_client_lock b"
  using publish_hello_cases [of E b] by auto

lemma on_command_same: "b_client (on_command E J data b) = b_client b \<and> s_client_lock (on_command E J data b) = s_client_lock b
    \<and> s_status (on_command E J data b) = s_status b"
  by (simp add: on_command_def publish_state_same split: option.splits)

lemma on_data_same: "same_link b (on_data E J t data b)"
  by (simp add: on_data_def same_link_def on_command_same)

lemma on_connected_same: "b_client b \<Longrightarrow> same_link b (on_connected E b)"
proof -
  assume c: "b_client b"
  have l: "s_client_lock (connected_head E b) = s_client_lock b" by (simp add: connected_head_def Let_def)
  show ?thesis
    using c connected_head_facts [of E b] publish_hello_fields [of E "connected_head E b"] publish_hello_same [of E "connected_head E b"] l
    by (simp add: same_link_def on_connected_eq Let_def publish_state_same subscribe_def)
qed

lemma on_error_same: "same_link b (on_error now_ms e b)"
  by (simp add: on_error_def same_link_def Let_def case_prod_beta)

lemma on_disconnected_same: "same_link b (on_disconnected b)"
proof -
  have "s_client_lock (on_disconnected b) = s_client_lock b" by (simp add: on_disconnected_def Let_def case_prod_beta)
  then show ?thesis by (simp add: same_link_def on_disconnected_fields)
qed

lemma mqtt_event_linked:
  assumes "linked b" "b_client b"
  shows "linked (mqtt_event E J now_ms ev b)"
proof -
  have i: "bus_inv b" using assms(1) by (simp add: linked_def)
  show ?thesis
  proof (cases ev)
    case MQTT_CONNECTED
    then show ?thesis using linked_same [OF assms(1) on_connected_same [OF assms(2)] on_connected_inv [OF i]] by (simp add: mqtt_event_def)
  next
    case (MQTT_DATA t d)
    then show ?thesis using linked_same [OF assms(1) on_data_same on_data_inv [OF i]] by (simp add: mqtt_event_def)
  next
    case (MQTT_ERROR e)
    then show ?thesis using linked_same [OF assms(1) on_error_same on_error_inv [OF i]] by (simp add: mqtt_event_def)
  next
    case MQTT_DISCONNECTED
    then show ?thesis using linked_same [OF assms(1) on_disconnected_same on_disconnected_inv [OF i]] by (simp add: mqtt_event_def)
  qed (use assms in \<open>simp add: mqtt_event_def\<close>)
qed

lemma launch_link:
  "b_client (snd (bus_launch le creds b)) = (b_client b \<or> fst (bus_launch le creds b) = ESP_OK)
   \<and> s_client_lock (snd (bus_launch le creds b)) = s_client_lock b"
  by (auto simp: bus_launch_def Let_def split: option.splits)

lemma relaunch_link:
  "relaunch_loop les creds b = Some b' \<Longrightarrow> s_client_lock b' = s_client_lock b \<and> b_client b' \<and> s_status b' \<noteq> POGDEV_BUS_CONNECTED"
proof (induction les arbitrary: b)
  case (Cons le les)
  obtain e c where l: "bus_launch le creds b = (e, c)" by fastforce
  have st: "e = ESP_OK \<Longrightarrow> s_status c \<noteq> POGDEV_BUS_CONNECTED"
    using l by (auto simp: bus_launch_def Let_def split: option.splits if_splits)
  from Cons l st launch_link [of le creds b] show ?case by (auto split: if_splits)
qed simp

lemma start_linked:
  assumes "linked b" "\<not> b_client b" "\<forall>c. creds = Some c \<longrightarrow> creds_fit c"
  shows "linked (snd (pogdev_bus_start le lock_ok state_ok soin_ok creds describe state handler b))"
proof -
  let ?p = "b\<lparr>b_describe := describe, b_state := state, b_handler := handler, s_retry := pogdev_retry_init\<rparr>"
  let ?q = "?p\<lparr>s_client_lock := True\<rparr>"
  have c: "s_status b \<noteq> POGDEV_BUS_CONNECTED" using assms(1,2) by (auto simp: linked_def)
  have p: "linked ?p" "linked ?q" using assms(1,2) c by (auto simp: linked_def bus_inv_def topics_apart_def)
  have l: "linked (snd (bus_launch le creds ?q))"
    using p(2) launch_inv [of ?q creds le] assms(3) launch_link [of le creds ?q] by (simp add: linked_def)
  have t: "linked x \<Longrightarrow> linked (x\<lparr>s_state_task := u, s_soin := v\<rparr>)" for x u v
    using bus_inv_cong [of "x\<lparr>s_state_task := u, s_soin := v\<rparr>" x] by (simp add: linked_def)
  show ?thesis using p(1) l t by (simp add: pogdev_bus_start_def Let_def case_prod_beta)
qed

lemma join_same: "same_link b (snd (pogdev_bus_effect_sync_join E gid b))"
  by (simp add: pogdev_bus_effect_sync_join_def same_link_def Let_def)

lemma cancel_same: "same_link b (pogdev_bus_effect_sync_cancel E b)"
  by (simp add: pogdev_bus_effect_sync_cancel_def same_link_def)

lemma cancel_linked: "linked b \<Longrightarrow> linked (pogdev_bus_effect_sync_cancel E b)"
  using linked_same [OF _ cancel_same] cancel_inv by (auto simp: linked_def)

lemma bus_step_linked:
  assumes "bus_step J b b'" "linked b"
  shows "linked b'"
  using assms(1)
proof cases
  case started
  then show ?thesis using start_linked [OF assms(2)] by simp
next
  case (event E now_ms ev)
  then show ?thesis using mqtt_event_linked [OF assms(2) event(2)] by simp
next
  case (tick E due)
  have "linked (snd (publish_hello E b))"
    using assms(2) publish_hello_inv [of b E] publish_hello_fields [of E b] publish_hello_same [of E b] by (simp add: linked_def)
  then show ?thesis
    using assms(2) publish_state_inv publish_state_same [of E] by (simp add: tick(1) state_task_turn_def Let_def linked_def)
next
  case (notify E)
  then show ?thesis using assms(2) publish_state_inv publish_state_same [of E b] by (simp add: pogdev_bus_notify_def linked_def)
next
  case (relaunch creds les)
  have "s_client_lock b' \<and> s_status b' \<noteq> POGDEV_BUS_CONNECTED"
    using relaunch_link [of les creds _ b'] relaunch(1,3) by (auto simp: bus_relancer_def Let_def split: if_splits)
  then show ?thesis using relancer_inv [OF relaunch(3) _ relaunch(2)] assms(2) by (simp add: linked_def)
next
  case (enable handler)
  then show ?thesis using assms(2)
    by (cases "b_client b") (auto simp: pogdev_bus_enable_effect_sync_def linked_def bus_inv_def topics_apart_def)
next
  case (join E gid)
  then show ?thesis using linked_same [OF assms(2) join_same join_inv] assms(2) by (simp add: linked_def)
next
  case (leave E gid)
  then show ?thesis using assms(2) cancel_linked by (simp add: pogdev_bus_effect_sync_leave_def)
next
  case (cancel E)
  then show ?thesis using assms(2) cancel_linked by simp
qed

definition bus_reset :: bus where
  "bus_reset = \<lparr>b_client = False, b_creds = no_creds, b_handler = False, b_describe = False, b_state = False, s_effect_handler = False,
     s_effect_enabled = False, s_topic_hello = [], s_topic_state = [], s_topic_status = [], s_topic_cmd = [], s_effect_group = [],
     s_topic_effect = [], s_status = POGDEV_BUS_NOT_STARTED, s_retry = pogdev_retry_init, s_soin = False, s_state_task = False,
     s_hello_dirty = True, s_client_lock = False, o_releve = False, o_reprise = False, b_trace = []\<rparr>"

lemma run_linked:
  assumes "(bus_step J)\<^sup>*\<^sup>* bus_reset b"
  shows "linked b"
  using assms
proof (induction rule: rtranclp_induct)
  case base
  show ?case by (simp add: linked_def bus_inv_def topics_apart_def bus_reset_def)
next
  case (step b c)
  then show ?case using bus_step_linked by blast
qed

text \<open>
  C24. Whenever the device counts as connected, after any history of events, restarts of the client and effect groups joined and left, and whatever the client accepts and refuses: the
  descriptor has been accepted in this session or is still marked as owed, and the next turn of the publishing task delivers an owed descriptor when the lock is free, the descriptor can be printed and the queue
  takes it. The broker holds the subscriptions of the commands and of the current effect group except those the client refused in this session, whose refusal the code
  does not notice, and beyond them at most subscriptions it refused to cancel; with no refusal it holds exactly the wanted ones.
\<close>

theorem link_invariant:
  assumes "(bus_step J)\<^sup>*\<^sup>* bus_reset b" "s_status b = POGDEV_BUS_CONNECTED"
  shows "(s_hello_dirty b \<or> hello_sent b)
    \<and> wanted b \<subseteq> subscriptions b \<union> {t. Refused_sub t \<in> set (since b)} \<and> subscriptions b \<subseteq> wanted b \<union> {t. Refused_unsub t \<in> set (since b)}
    \<and> (\<forall>E due. be_lock E \<and> be_publish E (s_topic_hello b) \<and> build_hello E b \<noteq> None \<longrightarrow> hello_sent (state_task_turn E due b))"
proof -
  have l: "linked b" by (rule run_linked [OF assms(1)])
  then have c: "b_client b" "s_client_lock b" "s_hello_dirty b \<or> hello_sent b" "held b"
    using assms(2) by (auto simp: linked_def bus_inv_def)
  have p: "hello_sent x \<Longrightarrow> hello_sent (publish_state E x)" for x E
    using hello_sent_trace by (auto simp: publish_state_def split: option.splits)
  have "hello_sent (state_task_turn E due b)" if "be_lock E" "be_publish E (s_topic_hello b)" "build_hello E b = Some hello" for E due hello
  proof -
    have "hello_sent (if s_hello_dirty b \<and> s_status b = POGDEV_BUS_CONNECTED then snd (publish_hello E b) else b)"
      using c(1-3) assms(2) that by (auto simp: publish_hello_def hello_sent_def)
    then show ?thesis using p by (simp add: state_task_turn_def Let_def)
  qed
  then show ?thesis using c(3,4) by (auto simp: held_def refused_subs_def refused_unsubs_def)
qed

definition demo_bus_env :: bus_env where
  "demo_bus_env = \<lparr>be_hw_id = asc ''ESP'', be_fw_version = asc ''1'', be_entities = [], be_print = (\<lambda>_. Some (asc ''json'')), be_state = J_obj [],
     be_lock = True, be_publish = (\<lambda>_. True), be_subscribe = (\<lambda>_. True), be_unsubscribe = (\<lambda>_. True)\<rparr>"

definition demo_creds :: pogdev_creds where
  "demo_creds = \<lparr>cr_device_id = asc ''d7'', cr_mqtt_host = asc ''10.0.0.1'', cr_mqtt_port = 1883, cr_mqtt_password = asc ''pw''\<rparr>"

definition demo_launch :: launch_env where
  "demo_launch = \<lparr>le_init = True, le_register = ESP_OK, le_start = ESP_OK\<rparr>"

definition demo_bus :: bus where
  "demo_bus = mqtt_event demo_bus_env demo_json 0 MQTT_CONNECTED
     (snd (pogdev_bus_start demo_launch True True True (Some demo_creds) True True True bus_reset))"

lemma no_subscribe: "list_all (\<lambda>c. case c of Subscribe _ _ \<Rightarrow> False | _ \<Rightarrow> True) (since b) \<Longrightarrow> subscriptions b = {}"
proof -
  have "list_all (\<lambda>c. case c of Subscribe _ _ \<Rightarrow> False | _ \<Rightarrow> True) cs \<Longrightarrow> foldl sub_effect {} cs = {}" for cs
    by (induction cs) (auto split: bus_call.splits)
  then show "list_all (\<lambda>c. case c of Subscribe _ _ \<Rightarrow> False | _ \<Rightarrow> True) (since b) \<Longrightarrow> subscriptions b = {}" by (simp add: subscriptions_def)
qed

lemma demo_bus_run: "(bus_step demo_json)\<^sup>*\<^sup>* bus_reset demo_bus"
proof -
  let ?s = "snd (pogdev_bus_start demo_launch True True True (Some demo_creds) True True True bus_reset)"
  have 1: "bus_step demo_json bus_reset ?s" by (rule bus_step.started) (simp_all add: bus_reset_def demo_creds_def creds_fit_def)
  have "b_client ?s" by code_simp
  then have 2: "bus_step demo_json ?s demo_bus" unfolding demo_bus_def by (rule bus_step.event)
  from 1 2 show ?thesis by (meson rtranclp.simps)
qed

theorem link_invariant_witness:
  "hello_sent (state_task_turn demo_bus_env True demo_bus) \<and> subscriptions demo_bus = {asc ''pog/d7/cmd''}"
proof -
  have d: "s_status demo_bus = POGDEV_BUS_CONNECTED" "build_hello demo_bus_env demo_bus = Some (asc ''json'')" by code_simp+
  have "s_topic_cmd demo_bus = asc ''pog/d7/cmd''" "s_topic_effect demo_bus = []" by code_simp+
  then have w: "wanted demo_bus = {asc ''pog/d7/cmd''}" by (simp add: wanted_def)
  have "list_all (\<lambda>c. case c of Refused_sub _ \<Rightarrow> False | Refused_unsub _ \<Rightarrow> False | _ \<Rightarrow> True) (since demo_bus)" by code_simp
  then have n: "\<forall>t. Refused_sub t \<notin> set (since demo_bus) \<and> Refused_unsub t \<notin> set (since demo_bus)" by (auto simp: list_all_iff)
  from link_invariant [OF demo_bus_run d(1)] w n have "subscriptions demo_bus = {asc ''pog/d7/cmd''}" by auto
  moreover from link_invariant [OF demo_bus_run d(1)] d(2) have "hello_sent (state_task_turn demo_bus_env True demo_bus)" by (simp add: demo_bus_env_def)
  ultimately show ?thesis by simp
qed

text \<open>A refused subscription goes unnoticed: the device counts as connected, and no command will reach it.\<close>

theorem refused_subscription_unnoticed:
  "let b = mqtt_event (demo_bus_env\<lparr>be_subscribe := (\<lambda>_. False)\<rparr>) demo_json 0 MQTT_CONNECTED demo_bus in
   (bus_step demo_json)\<^sup>*\<^sup>* bus_reset b \<and> pogdev_bus_get_status b = POGDEV_BUS_CONNECTED \<and> \<not> s_hello_dirty b \<and> subscriptions b = {}"
proof -
  let ?b = "mqtt_event (demo_bus_env\<lparr>be_subscribe := (\<lambda>_. False)\<rparr>) demo_json 0 MQTT_CONNECTED demo_bus"
  have "b_client demo_bus" by code_simp
  then have "bus_step demo_json demo_bus ?b" by (rule bus_step.event)
  with demo_bus_run have "(bus_step demo_json)\<^sup>*\<^sup>* bus_reset ?b" by (rule rtranclp.rtrancl_into_rtrancl)
  moreover have "pogdev_bus_get_status ?b = POGDEV_BUS_CONNECTED" "\<not> s_hello_dirty ?b" by code_simp+
  moreover have "list_all (\<lambda>c. case c of Subscribe _ _ \<Rightarrow> False | _ \<Rightarrow> True) (since ?b)" by code_simp
  then have "subscriptions ?b = {}" by (rule no_subscribe)
  ultimately show ?thesis by (simp add: Let_def)
qed

section \<open>A server that moved\<close>

lemma relaunch_succeeds:
  assumes "\<exists>le \<in> set les. le_init le \<and> le_register le = ESP_OK \<and> le_start le = ESP_OK"
  shows "\<exists>b'. relaunch_loop les (Some c) b = Some b' \<and> b_client b' \<and> b_creds b' = c \<and> s_status b' = POGDEV_BUS_CONNECTING
    \<and> s_retry b' = s_retry b \<and> b_trace b' = b_trace b @ [Client_start]"
  using assms
proof (induction les arbitrary: b)
  case (Cons le les)
  obtain e d where l: "bus_launch le (Some c) b = (e, d)" by fastforce
  show ?case
  proof (cases "e = ESP_OK")
    case True
    then show ?thesis using l by (auto simp: bus_launch_def Let_def split: if_splits)
  next
    case False
    then have "\<exists>le \<in> set les. le_init le \<and> le_register le = ESP_OK \<and> le_start le = ESP_OK"
      using Cons.prems l by (auto simp: bus_launch_def Let_def split: if_splits)
    moreover have "s_retry d = s_retry b \<and> b_trace d = b_trace b" using False l by (auto simp: bus_launch_def Let_def split: if_splits)
    ultimately show ?thesis using Cons.IH [of d] False l by simp
  qed
qed simp

definition lost :: "bus \<Rightarrow> bus" where
  "lost b = on_disconnected (on_disconnected (on_disconnected b))"

lemma lost_facts: "s_soin b \<Longrightarrow> s_retry b = pogdev_retry_init \<Longrightarrow> o_reprise (lost b)"
proof -
  assume s: "s_soin b" "s_retry b = pogdev_retry_init"
  have "s_soin (on_disconnected (on_disconnected b))" using s by (simp add: on_disconnected_fields)
  then have "o_reprise (lost b) \<longleftrightarrow> o_reprise (on_disconnected (on_disconnected b))
      \<or> fst (pogdev_retry_echec (s_retry (on_disconnected (on_disconnected b))))"
    using on_disconnected_fields [of "on_disconnected (on_disconnected b)"] by (simp only: lost_def)
  moreover have "s_retry (on_disconnected (on_disconnected b)) = snd (pogdev_retry_echec (snd (pogdev_retry_echec pogdev_retry_init)))"
    using s on_disconnected_fields [of b] on_disconnected_fields [of "on_disconnected b"] by simp
  moreover have "fst (pogdev_retry_echec (snd (pogdev_retry_echec (snd (pogdev_retry_echec pogdev_retry_init)))))"
    by code_simp
  ultimately show ?thesis by simp
qed

text \<open>What the comparison with the stored address makes of it, for a device that has been adopted.\<close>

lemma update_host_cases:
  assumes "pogdev_enrol_get en = Some c" "host = ip4_text addr" "port = (if mqtt_port = 0 then 1883 else mqtt_port)"
    "save_enrol L [(''mqtt_host'', V_str host), (''mqtt_port'', V_int NVS_U16 (uint port))] en = (err, en1)"
  shows "pogdev_enrol_update_host L addr mqtt_port en =
      (if cr_mqtt_host c = host \<and> cr_mqtt_port c = port then (False, en)
       else if err = ESP_OK then (True, en1\<lparr>s_creds := c\<lparr>cr_mqtt_host := host, cr_mqtt_port := port\<rparr>\<rparr>) else (False, en1))"
    "pogdev_enrol_get (en1\<lparr>s_creds := c'\<rparr>) = Some c'"
proof -
  have g: "s_lock en" "s_have_creds en" "\<not> s_forgetting en" "s_creds en = c"
    using assms(1) by (auto simp: pogdev_enrol_get_def split: if_splits)
  have e: "s_lock en1 = s_lock en" "s_have_creds en1 = s_have_creds en" "s_forgetting en1 = s_forgetting en" "s_creds en1 = s_creds en"
    using assms(4) by (auto simp: save_enrol_def split: prod.splits)
  show "pogdev_enrol_update_host L addr mqtt_port en =
      (if cr_mqtt_host c = host \<and> cr_mqtt_port c = port then (False, en)
       else if err = ESP_OK then (True, en1\<lparr>s_creds := c\<lparr>cr_mqtt_host := host, cr_mqtt_port := port\<rparr>\<rparr>) else (False, en1))"
    unfolding pogdev_enrol_update_host_def Let_def assms(2,3) [symmetric] using g e assms(4) by auto
  show "pogdev_enrol_get (en1\<lparr>s_creds := c'\<rparr>) = Some c'" using g e by (simp add: pogdev_enrol_get_def)
qed

lemma lost_fields: "b_client (lost b) = b_client b \<and> b_trace (lost b) = b_trace b"
  by (simp add: lost_def on_disconnected_def Let_def case_prod_beta)

text \<open>
  C25. Three lost connections in a row wake the care task of an adopted device. It compares the address at which the discovery knows the server now (with the port 1883 when it announces
  none) with the stored one: when they are the same, the link is left alone and nothing is written; when they differ and the new one can be stored, the client is stopped and
  started again with it (after as many failed attempts as it takes), with the other credentials unchanged and the retry policy back at its beginning; when
  it cannot be stored, the link is left alone as well.
\<close>

theorem moved_server_reconnects:
  assumes "s_soin b" "s_retry b = pogdev_retry_init" "\<not> o_releve (lost b)" "pogdev_enrol_get en = Some c"
    and "host = ip4_text (srv_addr srv)" "port = (if srv_mqtt_port srv = 0 then 1883 else srv_mqtt_port srv)"
    and "save_enrol L [(''mqtt_host'', V_str host), (''mqtt_port'', V_int NVS_U16 (uint port))] en = (err, en1)"
    and "\<exists>le \<in> set les. le_init le \<and> le_register le = ESP_OK \<and> le_start le = ESP_OK"
  shows "if cr_mqtt_host c = host \<and> cr_mqtt_port c = port
    then soin_turn L J mac reply (Some srv) les (lost b, en) = Some ((lost b)\<lparr>o_releve := False, o_reprise := False\<rparr>, en)
    else if err = ESP_OK
    then (\<exists>b' en'. soin_turn L J mac reply (Some srv) les (lost b, en) = Some (b', en')
        \<and> pogdev_enrol_get en' = Some (c\<lparr>cr_mqtt_host := host, cr_mqtt_port := port\<rparr>) \<and> en_nvs en' = en_nvs en1
        \<and> b_client b' \<and> b_creds b' = c\<lparr>cr_mqtt_host := host, cr_mqtt_port := port\<rparr> \<and> s_status b' = POGDEV_BUS_CONNECTING
        \<and> s_retry b' = pogdev_retry_init \<and> b_trace b' = b_trace b @ (if b_client b then [Client_stop] else []) @ [Client_start])
    else soin_turn L J mac reply (Some srv) les (lost b, en) = Some ((lost b)\<lparr>o_releve := False, o_reprise := False\<rparr>, en1)"
proof -
  note r = lost_facts [OF assms(1,2)] and u = update_host_cases [OF assms(4-7)]
  let ?b = "(lost b)\<lparr>o_releve := False, o_reprise := False\<rparr>"
  show ?thesis
  proof (cases "\<not> (cr_mqtt_host c = host \<and> cr_mqtt_port c = port) \<and> err = ESP_OK")
    case True
    let ?c = "c\<lparr>cr_mqtt_host := host, cr_mqtt_port := port\<rparr>" and ?en = "en1\<lparr>s_creds := c\<lparr>cr_mqtt_host := host, cr_mqtt_port := port\<rparr>\<rparr>"
    let ?d = "(if b_client ?b then (trace Client_stop ?b)\<lparr>b_client := False\<rparr> else ?b)\<lparr>s_retry := pogdev_retry_init\<rparr>"
    have m: "pogdev_enrol_update_host L (srv_addr srv) (srv_mqtt_port srv) en = (True, ?en)" using u(1) True by auto
    have eq: "soin_turn L J mac reply (Some srv) les (lost b, en) = map_option (\<lambda>b. (b, ?en)) (relaunch_loop les (Some ?c) ?d)"
      using assms(3) m r u(2) by (simp add: soin_turn_def bus_relancer_def Let_def)
    have t: "b_trace ?d = b_trace b @ (if b_client b then [Client_stop] else [])" using lost_fields [of b] by simp
    from relaunch_succeeds [OF assms(8), of ?c ?d] obtain b' where b': "relaunch_loop les (Some ?c) ?d = Some b'" "b_client b'"
      "b_creds b' = ?c" "s_status b' = POGDEV_BUS_CONNECTING" "s_retry b' = pogdev_retry_init" "b_trace b' = b_trace ?d @ [Client_start]" by auto
    have "soin_turn L J mac reply (Some srv) les (lost b, en) = Some (b', ?en)" using eq b'(1) by simp
    moreover have "en_nvs ?en = en_nvs en1" by simp
    ultimately show ?thesis using True b'(2-6) t u(2) by auto
  next
    case False
    then have "pogdev_enrol_update_host L (srv_addr srv) (srv_mqtt_port srv) en
      = (False, if cr_mqtt_host c = host \<and> cr_mqtt_port c = port then en else en1)" using u(1) by auto
    then show ?thesis using False assms(3) r by (auto simp: soin_turn_def Let_def)
  qed
qed

theorem moved_server_reconnects_witness:
  "(\<exists>b' en'. soin_turn demo_nvs demo_json [] (demo_reply 200) (Some (demo_server\<lparr>srv_addr := 0x0401A8C0\<rparr>)) [demo_launch\<lparr>le_init := False\<rparr>, demo_launch]
     (lost demo_bus, demo_enrol) = Some (b', en') \<and> cr_mqtt_host (b_creds b') = asc ''192.168.1.4'' \<and> last (b_trace b') = Client_start)"
proof -
  let ?c = "s_creds demo_enrol" and ?save = "save_enrol demo_nvs [(''mqtt_host'', V_str (ip4_text 0x0401A8C0)), (''mqtt_port'', V_int NVS_U16 (uint (1883 :: u16)))] demo_enrol"
  have f: "s_soin demo_bus" "s_retry demo_bus = pogdev_retry_init" "\<not> o_releve (lost demo_bus)" "pogdev_enrol_get demo_enrol = Some ?c" by code_simp+
  have g: "fst ?save = ESP_OK" "ip4_text 0x0401A8C0 = asc ''192.168.1.4''" "cr_mqtt_host ?c \<noteq> asc ''192.168.1.4''" by code_simp+
  then have u: "?save = (ESP_OK, snd ?save)" by (metis prod.collapse)
  have l: "\<exists>le \<in> set [demo_launch\<lparr>le_init := False\<rparr>, demo_launch]. le_init le \<and> le_register le = ESP_OK \<and> le_start le = ESP_OK"
    by (simp add: demo_launch_def)
  have s: "ip4_text 0x0401A8C0 = ip4_text (srv_addr (demo_server\<lparr>srv_addr := 0x0401A8C0\<rparr>))"
    "1883 = (if srv_mqtt_port (demo_server\<lparr>srv_addr := 0x0401A8C0\<rparr>) = 0 then 1883 else srv_mqtt_port (demo_server\<lparr>srv_addr := 0x0401A8C0\<rparr>))"
    by (simp_all add: demo_server_def)
  from moved_server_reconnects [OF f s u l, of demo_json "[]" "demo_reply 200"] g(2,3) show ?thesis by auto
qed

end
