(* ===== verification/Pogvoice_Resample.thy ===== *)
theory Pogvoice_Resample imports Prelude begin

text \<open>
  The streaming resampler of the voice path, components/pogvoice/pogvoice_resample.c: a
  polyphase low-pass filter of 32 taps with Q15 coefficients and an integer phase.  unsigned and size_t have 32 bits
  and are naturals with the wrap-around written out; the samples are integers, the int64_t
  accumulators stay below 2 to the 43.  The coefficients before quantisation are computed with
  sin, cos and lround in double precision; what lround returns for phase p and tap k is an
  argument.  The lemmas show that the loops end, that exactly the announced number of samples
  is written, that a split of the input into blocks is not heard, and that silence and
  constant levels pass unchanged.
\<close>

section \<open>The resampler\<close>

definition POGVOICE_FIR_TAPS :: nat where "POGVOICE_FIR_TAPS = 32"
definition POGVOICE_FIR_PHASES :: nat where "POGVOICE_FIR_PHASES = 32"

definition wrap32 :: "nat \<Rightarrow> nat" where "wrap32 n = n mod 2 ^ 32"

lemma wrap32_id [simp]: "n < 4294967296 \<Longrightarrow> wrap32 n = n"
  by (simp add: wrap32_def)

record resampler =
  rs_input_rate :: nat
  rs_output_rate :: nat
  rs_phase :: nat
  rs_head :: nat
  rs_history :: "int list"
  rs_coefficients :: "int list list"

definition int16 :: "int \<Rightarrow> int" where "int16 c = signed_take_bit 15 c"

definition quantised_row :: "(nat \<Rightarrow> int) \<Rightarrow> int list" where
  "quantised_row rounded = (let row = map rounded [0..<POGVOICE_FIR_TAPS]; total = sum_list row;
     q = map int16 row in q[POGVOICE_FIR_TAPS div 2 := int16 (q ! (POGVOICE_FIR_TAPS div 2) + (32768 - total))])"

definition pogvoice_resampler_init :: "(nat \<Rightarrow> nat \<Rightarrow> int) \<Rightarrow> nat \<Rightarrow> nat \<Rightarrow> resampler \<Rightarrow> int \<times> resampler" where
  "pogvoice_resampler_init rounded inp out r =
     (if inp < 8000 \<or> inp > 48000 \<or> out < 8000 \<or> out > 48000 then (- 1, r)
      else (0, \<lparr>rs_input_rate = inp, rs_output_rate = out, rs_phase = 0, rs_head = 0,
        rs_history = replicate POGVOICE_FIR_TAPS 0,
        rs_coefficients = map (\<lambda>p. quantised_row (rounded p)) [0..<POGVOICE_FIR_PHASES + 1]\<rparr>))"

definition tap_sum :: "resampler \<Rightarrow> nat \<Rightarrow> int" where
  "tap_sum r p = (\<Sum>k\<leftarrow>[0..<POGVOICE_FIR_TAPS].
     rs_history r ! (wrap32 (rs_head r + 2 ^ 32 - k) mod POGVOICE_FIR_TAPS) * rs_coefficients r ! p ! k)"

definition clip16 :: "int \<Rightarrow> int" where
  "clip16 v = (if v > 32767 then 32767 else if v < - 32768 then - 32768 else v)"

definition fir_sample :: "resampler \<Rightarrow> int" where
  "fir_sample r = (let scaled = wrap32 (rs_phase r * POGVOICE_FIR_PHASES); phase = scaled div rs_output_rate r;
     remainder = scaled mod rs_output_rate r; blend = wrap32 (remainder * 256) div rs_output_rate r;
     a = tap_sum r phase; b = tap_sum r (phase + 1)
     in clip16 ((a * (256 - int blend) + b * int blend + 2 ^ 22) div 2 ^ 23))"

text \<open>The inner loop of pogvoice_resampler_process need not end for a zero input rate.\<close>

partial_function (option) emit_loop :: "resampler \<Rightarrow> int list \<Rightarrow> (resampler \<times> int list) option" where
  "emit_loop r out = (if rs_phase r < rs_output_rate r
     then emit_loop (r\<lparr>rs_phase := wrap32 (rs_phase r + rs_input_rate r)\<rparr>) (out @ [fir_sample r])
     else Some (r, out))"

definition push_sample :: "int \<Rightarrow> resampler \<Rightarrow> resampler" where
  "push_sample x r = r\<lparr>rs_history := (rs_history r)[rs_head r := x]\<rparr>"

definition next_input :: "resampler \<Rightarrow> resampler" where
  "next_input r = r\<lparr>rs_phase := wrap32 (rs_phase r + 2 ^ 32 - rs_output_rate r),
     rs_head := wrap32 (rs_head r + 1) mod POGVOICE_FIR_TAPS\<rparr>"

fun sample_loop :: "resampler \<Rightarrow> int list \<Rightarrow> int list \<Rightarrow> (resampler \<times> int list) option" where
  "sample_loop r [] out = Some (r, out)"
| "sample_loop r (x # xs) out = (case emit_loop (push_sample x r) out of None \<Rightarrow> None
     | Some (r, out) \<Rightarrow> sample_loop (next_input r) xs out)"

definition required_samples :: "resampler \<Rightarrow> nat \<Rightarrow> nat" where
  "required_samples r count = (let span = wrap32 (count * rs_output_rate r) in
     if span > rs_phase r then wrap32 (span - rs_phase r + rs_input_rate r - 1) div rs_input_rate r else 0)"

definition pogvoice_resampler_process ::
    "resampler \<Rightarrow> int list \<Rightarrow> nat \<Rightarrow> (int \<times> resampler \<times> int list) option" where
  "pogvoice_resampler_process r inp cap =
     (if rs_input_rate r = 0 \<or> rs_output_rate r = 0 \<or> length inp > 160 \<or> cap > 1024 then Some (- 1, r, [])
      else if cap < required_samples r (length inp) then Some (- 1, r, [])
      else case sample_loop r inp [] of None \<Rightarrow> None | Some (r, out) \<Rightarrow> Some (int (length out), r, out))"

section \<open>Its invariant\<close>

definition rs_ok :: "resampler \<Rightarrow> bool" where
  "rs_ok r \<longleftrightarrow> 8000 \<le> rs_input_rate r \<and> rs_input_rate r \<le> 48000 \<and> 8000 \<le> rs_output_rate r \<and> rs_output_rate r \<le> 48000
     \<and> rs_phase r < rs_input_rate r \<and> rs_head r < 32 \<and> length (rs_history r) = 32
     \<and> length (rs_coefficients r) = 33 \<and> (\<forall>row \<in> set (rs_coefficients r). length row = 32)"

lemma init_ok: "pogvoice_resampler_init rounded inp out r = (0, r') \<Longrightarrow> rs_ok r' \<and> rs_phase r' = 0"
  by (auto simp: pogvoice_resampler_init_def rs_ok_def quantised_row_def POGVOICE_FIR_TAPS_def
      POGVOICE_FIR_PHASES_def Let_def split: if_splits)

text \<open>The number of turns of the inner loop: the phase reaches the output rate in steps of the input rate.\<close>

definition turns :: "nat \<Rightarrow> nat \<Rightarrow> nat \<Rightarrow> nat" where
  "turns inp out ph = (if ph < out then (out - ph + inp - 1) div inp else 0)"

lemma turns_eq: "ph < out \<Longrightarrow> 0 < inp \<Longrightarrow> turns inp out ph = Suc ((out - ph - 1) div inp)"
proof -
  assume a: "ph < out" "0 < inp"
  then have "out - ph + inp - 1 = (out - ph - 1) + inp" by simp
  then have "(out - ph + inp - 1) div inp = Suc ((out - ph - 1) div inp)" using a by (simp only: div_add_self2)
  with a show ?thesis by (simp add: turns_def)
qed

lemma turns_step: "0 < inp \<Longrightarrow> ph < out \<Longrightarrow> turns inp out ph = Suc (turns inp out (ph + inp))"
proof (cases "ph + inp < out")
  case True
  assume "0 < inp" "ph < out"
  with True have "out - ph - 1 = (out - (ph + inp) - 1) + inp" by simp
  then have "(out - ph - 1) div inp = Suc ((out - (ph + inp) - 1) div inp)" using \<open>0 < inp\<close> by (simp only: div_add_self2)
  with True \<open>0 < inp\<close> \<open>ph < out\<close> show ?thesis by (simp only: turns_eq)
next
  case False
  assume "0 < inp" "ph < out"
  with False show ?thesis by (simp add: turns_eq) (simp add: turns_def)
qed

lemma turns_reach: "0 < inp \<Longrightarrow> ph < inp + out \<Longrightarrow> out \<le> ph + turns inp out ph * inp \<and> ph + turns inp out ph * inp < out + inp"
proof (induction "turns inp out ph" arbitrary: ph)
  case 0
  then show ?case by (cases "ph < out") (auto simp: turns_eq)
next
  case (Suc n)
  then have "ph < out" by (auto simp: turns_def split: if_splits)
  with Suc have "out \<le> (ph + inp) + turns inp out (ph + inp) * inp \<and> (ph + inp) + turns inp out (ph + inp) * inp < out + inp"
    by (intro Suc.hyps(1)) (auto simp: turns_step)
  with \<open>ph < out\<close> Suc.prems show ?case by (simp add: turns_step)
qed

definition emitted :: "resampler \<Rightarrow> int list" where
  "emitted r = map (\<lambda>j. fir_sample (r\<lparr>rs_phase := rs_phase r + j * rs_input_rate r\<rparr>))
     [0..<turns (rs_input_rate r) (rs_output_rate r) (rs_phase r)]"

lemma emit_loop_returns:
  assumes "0 < rs_input_rate r" "rs_input_rate r \<le> 48000" "rs_output_rate r \<le> 48000" "rs_phase r < 96000"
  shows "emit_loop r acc = Some (r\<lparr>rs_phase := rs_phase r + turns (rs_input_rate r) (rs_output_rate r) (rs_phase r) * rs_input_rate r\<rparr>,
    acc @ emitted r)"
  using assms
proof (induction "turns (rs_input_rate r) (rs_output_rate r) (rs_phase r)" arbitrary: r acc)
  case 0
  then have "\<not> rs_phase r < rs_output_rate r" using turns_eq [of "rs_phase r" "rs_output_rate r" "rs_input_rate r"] by auto
  with 0 show ?case by (subst emit_loop.simps) (simp add: emitted_def)
next
  case (Suc n)
  let ?i = "rs_input_rate r" and ?o = "rs_output_rate r" and ?p = "rs_phase r"
  let ?r = "r\<lparr>rs_phase := ?p + ?i\<rparr>"
  from Suc have lt: "?p < ?o" by (auto simp: turns_def split: if_splits)
  have t: "turns ?i ?o ?p = Suc (turns ?i ?o (?p + ?i))" using Suc.prems(1) lt by (rule turns_step)
  have ih: "emit_loop ?r (acc @ [fir_sample r]) = Some (?r\<lparr>rs_phase := rs_phase ?r + turns ?i ?o (rs_phase ?r) * ?i\<rparr>,
      (acc @ [fir_sample r]) @ emitted ?r)"
    using Suc.hyps(1) [of ?r "acc @ [fir_sample r]"] Suc.hyps(2) Suc.prems lt t by simp
  have e: "emitted r = fir_sample r # emitted ?r"
    unfolding emitted_def t by (simp add: map_upt_Suc add.assoc del: upt_Suc)
  from lt Suc.prems have w: "wrap32 (?p + ?i) = ?p + ?i" by simp
  show ?case by (subst emit_loop.simps) (simp add: lt w ih e t)
qed

text \<open>The same computation without the loops: every input sample emits the samples due at it.\<close>

definition advance :: "resampler \<Rightarrow> resampler" where
  "advance r = r\<lparr>rs_phase := rs_phase r + turns (rs_input_rate r) (rs_output_rate r) (rs_phase r) * rs_input_rate r - rs_output_rate r,
     rs_head := (rs_head r + 1) mod 32\<rparr>"

fun resampled :: "resampler \<Rightarrow> int list \<Rightarrow> resampler \<times> int list" where
  "resampled r [] = (r, [])"
| "resampled r (x # xs) = (let p = push_sample x r; q = resampled (advance p) xs in (fst q, emitted p @ snd q))"

lemma resampled_append:
  "resampled r (xs @ ys) = (fst (resampled (fst (resampled r xs)) ys), snd (resampled r xs) @ snd (resampled (fst (resampled r xs)) ys))"
  by (induction r xs rule: resampled.induct) (simp_all add: Let_def)

lemma push_sample_ok: "rs_ok r \<Longrightarrow> rs_ok (push_sample x r)"
  by (simp add: rs_ok_def push_sample_def)

lemma rs_ok_rates: "rs_ok r \<Longrightarrow> 0 < rs_input_rate r \<and> rs_phase r < rs_input_rate r + rs_output_rate r"
  by (simp add: rs_ok_def)

lemma advance_ok: assumes "rs_ok r" shows "rs_ok (advance r)"
  using turns_reach [of "rs_input_rate r" "rs_phase r" "rs_output_rate r"] rs_ok_rates [OF assms] assms
  by (auto simp: advance_def rs_ok_def)

lemma next_input_advance:
  assumes "rs_ok r"
  shows "next_input (r\<lparr>rs_phase := rs_phase r + turns (rs_input_rate r) (rs_output_rate r) (rs_phase r) * rs_input_rate r\<rparr>) = advance r"
proof -
  let ?q = "rs_phase r + turns (rs_input_rate r) (rs_output_rate r) (rs_phase r) * rs_input_rate r"
  have b: "rs_output_rate r \<le> ?q" "?q < rs_output_rate r + rs_input_rate r"
    using turns_reach [of "rs_input_rate r" "rs_phase r" "rs_output_rate r"] rs_ok_rates [OF assms] by auto
  have "?q + 2 ^ 32 - rs_output_rate r = (?q - rs_output_rate r) + 2 ^ 32" using b(1) by simp
  moreover have "?q < 96000" using b(2) assms unfolding rs_ok_def by linarith
  then have "?q - rs_output_rate r < 2 ^ 32" by (intro le_less_trans [OF diff_le_self]) simp
  ultimately have w: "wrap32 (?q + 2 ^ 32 - rs_output_rate r) = ?q - rs_output_rate r"
    unfolding wrap32_def by (simp only: mod_add_self2 mod_less)
  with assms show ?thesis by (simp add: next_input_def advance_def POGVOICE_FIR_TAPS_def rs_ok_def)
qed

lemma sample_loop_resampled:
  "rs_ok r \<Longrightarrow> sample_loop r xs acc = Some (fst (resampled r xs), acc @ snd (resampled r xs))"
proof (induction xs arbitrary: r acc)
  case (Cons x xs)
  let ?p = "push_sample x r"
  have ok: "rs_ok ?p" using Cons.prems by (rule push_sample_ok)
  then have "emit_loop ?p acc = Some (?p\<lparr>rs_phase := rs_phase ?p + turns (rs_input_rate ?p) (rs_output_rate ?p) (rs_phase ?p) * rs_input_rate ?p\<rparr>,
      acc @ emitted ?p)" by (intro emit_loop_returns) (simp_all add: rs_ok_def)
  with Cons.IH [OF advance_ok [OF ok]] next_input_advance [OF ok] show ?case by (simp add: Let_def)
qed simp

lemma resampled_ok: "rs_ok r \<Longrightarrow> rs_ok (fst (resampled r xs))"
  by (induction r xs rule: resampled.induct) (simp_all add: Let_def advance_ok push_sample_ok)

lemma resampled_rates: "rs_ok r \<Longrightarrow> rs_input_rate (fst (resampled r xs)) = rs_input_rate r
    \<and> rs_output_rate (fst (resampled r xs)) = rs_output_rate r \<and> rs_coefficients (fst (resampled r xs)) = rs_coefficients r"
proof (induction xs arbitrary: r)
  case (Cons x xs)
  then have "rs_ok (advance (push_sample x r))" by (intro advance_ok push_sample_ok)
  from Cons.IH [OF this] show ?case by (simp add: Let_def) (simp add: advance_def push_sample_def)
qed simp

text \<open>The count: what is emitted and what is left in the phase add up to what came in.\<close>

lemma resampled_count:
  "rs_ok r \<Longrightarrow> rs_phase r + length (snd (resampled r xs)) * rs_input_rate r
     = rs_phase (fst (resampled r xs)) + length xs * rs_output_rate r"
proof (induction xs arbitrary: r)
  case (Cons x xs)
  let ?p = "push_sample x r" and ?t = "turns (rs_input_rate r) (rs_output_rate r) (rs_phase r)"
  have ok: "rs_ok ?p" using Cons.prems by (rule push_sample_ok)
  have ph: "rs_phase (advance ?p) = rs_phase r + ?t * rs_input_rate r - rs_output_rate r"
    and rt: "rs_input_rate (advance ?p) = rs_input_rate r" "rs_output_rate (advance ?p) = rs_output_rate r"
    by (simp_all add: advance_def push_sample_def)
  have le: "rs_output_rate r \<le> rs_phase r + ?t * rs_input_rate r"
    using turns_reach [of "rs_input_rate r" "rs_phase r" "rs_output_rate r"] rs_ok_rates [OF Cons.prems] by auto
  have "length (emitted ?p) = ?t" by (simp add: emitted_def push_sample_def)
  with Cons.IH [OF advance_ok [OF ok]] ph rt le show ?case by (simp add: Let_def algebra_simps)
qed simp

lemma resampled_required:
  assumes "rs_ok r" "length xs \<le> 160"
  shows "length (snd (resampled r xs)) = required_samples r (length xs)"
proof -
  let ?n = "length (snd (resampled r xs))" and ?i = "rs_input_rate r" and ?s = "length xs * rs_output_rate r" and ?ph = "rs_phase r"
  let ?e = "rs_phase (fst (resampled r xs))"
  have c: "?ph + ?n * ?i = ?e + ?s" and e: "?e < ?i"
    using resampled_count [OF assms(1)] resampled_ok [OF assms(1), of xs] resampled_rates [OF assms(1), of xs]
    by (simp_all add: rs_ok_def)
  have "?s \<le> 160 * 48000" using assms by (intro mult_le_mono) (simp_all add: rs_ok_def)
  then have s: "wrap32 ?s = ?s" "?ph < 48000" "?i \<le> 48000" "0 < ?i" "?s \<le> 7680000" using assms by (simp_all add: rs_ok_def)
  show ?thesis
  proof (cases "?ph < ?s")
    case True
    then have "?s - ?ph + ?i - 1 = (?i - 1 - ?e) + ?n * ?i" using c e by linarith
    moreover have "wrap32 (?s - ?ph + ?i - 1) = ?s - ?ph + ?i - 1" using s by simp
    moreover have "((?i - 1 - ?e) + ?n * ?i) div ?i = ?n" using s(4) by simp
    ultimately show ?thesis using True s(1) by (simp add: required_samples_def Let_def)
  next
    case False
    with c e have "?n * ?i < 1 * ?i" by linarith
    then have "?n = 0" using s(4) by (simp only: mult_less_cancel2) simp
    with False s(1) show ?thesis by (simp add: required_samples_def Let_def)
  qed
qed

lemma process_eq:
  assumes "rs_ok r" "length xs \<le> 160" "required_samples r (length xs) \<le> cap" "cap \<le> 1024"
  shows "pogvoice_resampler_process r xs cap = Some (int (length (snd (resampled r xs))), resampled r xs)"
  using assms sample_loop_resampled [OF assms(1), of xs "[]"]
  by (cases "resampled r xs") (simp add: pogvoice_resampler_process_def rs_ok_def)

lemma required_le_960: "rs_ok r \<Longrightarrow> n \<le> 160 \<Longrightarrow> required_samples r n \<le> 960"
proof -
  assume a: "rs_ok r" "n \<le> 160"
  let ?xs = "replicate n (0::int)"
  let ?m = "length (snd (resampled r ?xs))"
  have c: "rs_phase r + ?m * rs_input_rate r = rs_phase (fst (resampled r ?xs)) + n * rs_output_rate r"
    and e: "rs_phase (fst (resampled r ?xs)) < rs_input_rate r"
    using resampled_count [OF a(1), of ?xs] resampled_ok [OF a(1), of ?xs] resampled_rates [OF a(1), of ?xs]
    by (simp_all add: rs_ok_def)
  have "n * rs_output_rate r \<le> 160 * 48000" using a by (intro mult_le_mono) (simp_all add: rs_ok_def)
  then have "?m * rs_input_rate r < rs_input_rate r + 7680000" using c e by linarith
  moreover have "8000 \<le> rs_input_rate r" using a by (simp add: rs_ok_def)
  ultimately have "\<not> 961 \<le> ?m" using mult_le_mono1 [of 961 ?m "rs_input_rate r"] by linarith
  with resampled_required [OF a(1), of ?xs] a show ?thesis by simp
qed

lemma clip16_range: "- 32768 \<le> clip16 v \<and> clip16 v \<le> 32767"
  by (simp add: clip16_def)

lemma emitted_range: "s \<in> set (emitted r) \<Longrightarrow> - 32768 \<le> s \<and> s \<le> 32767"
  by (auto simp: emitted_def fir_sample_def Let_def clip16_range)

lemma resampled_range: "s \<in> set (snd (resampled r xs)) \<Longrightarrow> - 32768 \<le> s \<and> s \<le> 32767"
  by (induction r xs rule: resampled.induct) (auto simp: Let_def dest: emitted_range)


lemma process_rejects:
  assumes "rs_ok r" "\<not> (length xs \<le> 160 \<and> required_samples r (length xs) \<le> cap \<and> cap \<le> 1024)"
  shows "pogvoice_resampler_process r xs cap = Some (- 1, r, [])"
  using assms by (auto simp: pogvoice_resampler_process_def)

text \<open>C27. A call on an initialised resampler always returns.  It either refuses, leaving the state of the stream
  alone and writing nothing, or it writes exactly the required number of samples, within the capacity and
  each within 16 bits; the invariant is kept, and room for 960 samples is never refused.\<close>

theorem resampler_returns:
  assumes "rs_ok r"
  shows "\<exists>n r' out. pogvoice_resampler_process r xs cap = Some (n, r', out) \<and> rs_ok r'
    \<and> (n = - 1 \<and> r' = r \<and> out = []
       \<or> n = int (required_samples r (length xs)) \<and> length out = required_samples r (length xs) \<and> length out \<le> cap
         \<and> (\<forall>s \<in> set out. - 32768 \<le> s \<and> s \<le> 32767))
    \<and> (length xs \<le> 160 \<longrightarrow> 960 \<le> cap \<longrightarrow> cap \<le> 1024 \<longrightarrow> n \<noteq> - 1)"
proof (cases "length xs \<le> 160 \<and> required_samples r (length xs) \<le> cap \<and> cap \<le> 1024")
  case True
  then have "pogvoice_resampler_process r xs cap = Some (int (length (snd (resampled r xs))), resampled r xs)"
    by (intro process_eq assms) simp_all
  moreover have "length (snd (resampled r xs)) = required_samples r (length xs)" using True by (intro resampled_required assms) simp
  ultimately show ?thesis using True resampled_ok [OF assms, of xs] resampled_range [of _ r xs]
    by (cases "resampled r xs") auto
next
  case False
  then show ?thesis using process_rejects [OF assms False] required_le_960 [OF assms, of "length xs"] assms by auto
qed

definition demo_rounded :: "nat \<Rightarrow> nat \<Rightarrow> int" where
  "demo_rounded p k = (if k = 15 then 20000 else if k = 17 then 12000 + int p else 0)"

definition demo_resampler :: resampler where
  "demo_resampler = snd (pogvoice_resampler_init demo_rounded 16000 48000
     \<lparr>rs_input_rate = 0, rs_output_rate = 0, rs_phase = 0, rs_head = 0, rs_history = [], rs_coefficients = []\<rparr>)"

lemma demo_resampler_ok: "rs_ok demo_resampler \<and> rs_phase demo_resampler = 0 \<and> rs_input_rate demo_resampler = 16000 \<and> rs_output_rate demo_resampler = 48000"
  by (auto simp: demo_resampler_def pogvoice_resampler_init_def rs_ok_def quantised_row_def POGVOICE_FIR_TAPS_def
      POGVOICE_FIR_PHASES_def Let_def)

lemma resampler_returns_witness:
  "\<exists>n r' out. pogvoice_resampler_process demo_resampler [1, -2] 1024 = Some (n, r', out) \<and> n \<noteq> - 1"
  using resampler_returns [of demo_resampler "[1, -2]" 1024] demo_resampler_ok by auto

text \<open>C28. The split of the input into blocks is not heard: two accepted calls emit, one after the other, the
  samples of one call for both blocks and leave the same state, that of the loop-free definition.\<close>

theorem resampler_blocks:
  assumes "rs_ok r" "length (xs @ ys) \<le> 160"
    "pogvoice_resampler_process r xs 1024 = Some (n1, r1, out1)"
    "pogvoice_resampler_process r1 ys 1024 = Some (n2, r2, out2)"
  shows "pogvoice_resampler_process r (xs @ ys) 1024 = Some (n1 + n2, r2, out1 @ out2) \<and> (r2, out1 @ out2) = resampled r (xs @ ys)"
proof -
  have cap: "required_samples q m \<le> 1024" if "rs_ok q" "m \<le> 160" for q m using required_le_960 [OF that] by simp
  from assms(2) have l: "length xs \<le> 160" "length ys \<le> 160" by simp_all
  have 1: "(n1, r1, out1) = (int (length (snd (resampled r xs))), resampled r xs)"
    using process_eq [OF assms(1) l(1) cap [OF assms(1) l(1)]] assms(3) by simp
  then have ok: "rs_ok r1" using resampled_ok [OF assms(1), of xs] by (metis prod.inject prod.collapse)
  have 2: "(n2, r2, out2) = (int (length (snd (resampled r1 ys))), resampled r1 ys)"
    using process_eq [OF ok l(2) cap [OF ok l(2)]] assms(4) by simp
  have 3: "resampled r (xs @ ys) = (r2, out1 @ out2)" using 1 2 resampled_append [of r xs ys] by (metis prod.inject prod.collapse)
  with process_eq [OF assms(1,2) cap [OF assms(1,2)]] 1 2 show ?thesis by (auto simp: prod_eq_iff)
qed

lemma process_1024:
  assumes "rs_ok r" "length xs \<le> 160"
  shows "pogvoice_resampler_process r xs 1024 = Some (int (length (snd (resampled r xs))), fst (resampled r xs), snd (resampled r xs))"
  using process_eq [OF assms, of 1024] required_le_960 [OF assms] by simp

lemma resampler_blocks_witness:
  "\<exists>n1 r1 out1 n2 r2 out2. pogvoice_resampler_process demo_resampler [5, 6] 1024 = Some (n1, r1, out1)
    \<and> pogvoice_resampler_process r1 [7] 1024 = Some (n2, r2, out2)
    \<and> pogvoice_resampler_process demo_resampler [5, 6, 7] 1024 = Some (n1 + n2, r2, out1 @ out2)"
proof -
  have ok: "rs_ok demo_resampler" using demo_resampler_ok by simp
  let ?q = "resampled demo_resampler [5, 6]"
  have 1: "pogvoice_resampler_process demo_resampler [5, 6] 1024 = Some (int (length (snd ?q)), fst ?q, snd ?q)"
    by (rule process_1024 [OF ok]) simp
  have 2: "pogvoice_resampler_process (fst ?q) [7] 1024
      = Some (int (length (snd (resampled (fst ?q) [7]))), fst (resampled (fst ?q) [7]), snd (resampled (fst ?q) [7]))"
    by (rule process_1024 [OF resampled_ok [OF ok]]) simp
  have "length ([5, 6] @ [7 :: int]) \<le> 160" by simp
  note 3 = conjunct1 [OF resampler_blocks [OF ok this 1 2], unfolded append_Cons append_Nil]
  from 1 2 3 show ?thesis by blast
qed

text \<open>No sample is lost or invented over time: after any number of accepted calls on a fresh resampler the
  samples written are the samples read times the ratio of the rates, rounded up.\<close>

definition blocks_run :: "resampler \<Rightarrow> int list list \<Rightarrow> resampler \<times> int list" where
  "blocks_run r xss = foldl (\<lambda>(r, acc) xs. case pogvoice_resampler_process r xs 1024 of
     None \<Rightarrow> (r, acc) | Some (n, r, out) \<Rightarrow> (r, acc @ out)) (r, []) xss"

lemma blocks_run_resampled:
  assumes "rs_ok r" "\<forall>xs \<in> set xss. length xs \<le> 160"
  shows "blocks_run r xss = resampled r (concat xss)"
  using assms(2)
proof (induction xss rule: rev_induct)
  case (snoc xs xss)
  let ?q = "resampled r (concat xss)"
  from snoc have "blocks_run r xss = ?q" and l: "length xs \<le> 160" by auto
  moreover have "pogvoice_resampler_process (fst ?q) xs 1024
      = Some (int (length (snd (resampled (fst ?q) xs))), fst (resampled (fst ?q) xs), snd (resampled (fst ?q) xs))"
    using l by (intro process_1024 resampled_ok assms(1))
  ultimately show ?case by (cases ?q) (simp add: blocks_run_def resampled_append case_prod_beta)
qed (simp add: blocks_run_def)

theorem resampler_no_drift:
  assumes "pogvoice_resampler_init rounded inp out r0 = (0, r)" "\<forall>xs \<in> set xss. length xs \<le> 160"
  shows "length (snd (blocks_run r xss)) = (sum_list (map length xss) * out + inp - 1) div inp"
proof -
  have ok: "rs_ok r" "rs_phase r = 0" using init_ok [OF assms(1)] by simp_all
  have rt: "rs_input_rate r = inp" "rs_output_rate r = out"
    using assms(1) by (auto simp: pogvoice_resampler_init_def split: if_splits)
  let ?q = "resampled r (concat xss)" and ?N = "sum_list (map length xss) * out"
  have c: "length (snd ?q) * inp = rs_phase (fst ?q) + ?N"
    using resampled_count [OF ok(1), of "concat xss"] ok(2) rt by (simp add: length_concat)
  have e: "rs_phase (fst ?q) < inp" "0 < inp"
    using resampled_ok [OF ok(1), of "concat xss"] resampled_rates [OF ok(1), of "concat xss"] rt by (simp_all add: rs_ok_def)
  have "?N + inp - 1 = (inp - 1 - rs_phase (fst ?q)) + length (snd ?q) * inp" using c e by linarith
  moreover have "((inp - 1 - rs_phase (fst ?q)) + length (snd ?q) * inp) div inp = length (snd ?q)" using e by (subst div_mult_self1) simp_all
  ultimately show ?thesis using blocks_run_resampled [OF ok(1) assms(2)] by simp
qed

lemma resampler_no_drift_witness:
  "length (snd (blocks_run demo_resampler [[1, 2, 3], [4]])) = 12"
proof -
  let ?r0 = "\<lparr>rs_input_rate = 0, rs_output_rate = 0, rs_phase = 0, rs_head = 0, rs_history = [], rs_coefficients = []\<rparr>"
  have "pogvoice_resampler_init demo_rounded 16000 48000 ?r0 = (0, demo_resampler)"
    by (simp add: demo_resampler_def pogvoice_resampler_init_def)
  from resampler_no_drift [OF this, of "[[1, 2, 3], [4]]"] show ?thesis by simp
qed

section \<open>Unity gain\<close>

text \<open>The rows of an initialised resampler add up to one when the rounded coefficients fit into 16 bits.\<close>

definition rounded_fit :: "(nat \<Rightarrow> nat \<Rightarrow> int) \<Rightarrow> bool" where
  "rounded_fit rounded \<longleftrightarrow> (\<forall>p \<le> 32. (\<forall>k < 32. - 32768 \<le> rounded p k \<and> rounded p k < 32768)
     \<and> (let c = rounded p 16 + (32768 - sum_list (map (rounded p) [0..<32])) in - 32768 \<le> c \<and> c < 32768))"

lemma int16_id: "- 32768 \<le> c \<Longrightarrow> c < 32768 \<Longrightarrow> int16 c = c"
  unfolding int16_def by (rule signed_take_bit_int_eq_self) simp_all

lemma sum_list_update_int: "k < length xs \<Longrightarrow> sum_list (xs[k := x]) = sum_list xs - xs ! k + (x :: int)"
  by (induction xs arbitrary: k) (auto split: nat.split)

lemma quantised_row_sum:
  assumes "rounded_fit rounded" "p \<le> 32"
  shows "sum_list (quantised_row (rounded p)) = 32768"
proof -
  let ?row = "map (rounded p) [0..<32]"
  have m: "map int16 ?row = ?row" using assms by (auto simp: rounded_fit_def intro!: int16_id)
  have c: "int16 (rounded p 16 + (32768 - sum_list ?row)) = rounded p 16 + (32768 - sum_list ?row)"
    using assms by (intro int16_id) (auto simp: rounded_fit_def Let_def)
  have "quantised_row (rounded p) = ?row[16 := rounded p 16 + (32768 - sum_list ?row)]"
    unfolding quantised_row_def POGVOICE_FIR_TAPS_def Let_def m using c by simp
  then show ?thesis by (simp add: sum_list_update_int)
qed


lemma turns_below: "0 < inp \<Longrightarrow> j < turns inp out ph \<Longrightarrow> ph + j * inp < out"
proof (induction j arbitrary: ph)
  case 0
  then show ?case by (auto simp: turns_def split: if_splits)
next
  case (Suc j)
  then have "ph < out" by (auto simp: turns_def split: if_splits)
  with Suc.prems have "j < turns inp out (ph + inp)" by (simp add: turns_step)
  from Suc.IH [OF Suc.prems(1) this] show ?case by simp
qed

definition rows_unit :: "resampler \<Rightarrow> bool" where
  "rows_unit r \<longleftrightarrow> (\<forall>p \<le> 32. sum_list (rs_coefficients r ! p) = 32768)"

definition recent :: "resampler \<Rightarrow> nat \<Rightarrow> int \<Rightarrow> bool" where
  "recent r n c \<longleftrightarrow> (\<forall>j < n. rs_history r ! ((rs_head r + 31 - j) mod 32) = c)"

lemma constant_fir_sample:
  assumes "rs_output_rate r \<le> 48000 \<and> length (rs_coefficients r) = 33 \<and> (\<forall>row \<in> set (rs_coefficients r). length row = 32)"
    "rows_unit r" "\<forall>i < 32. rs_history r ! i = c" "rs_phase r < rs_output_rate r" "- 32768 \<le> c" "c \<le> 32767"
  shows "fir_sample r = c"
proof -
  have row: "length (rs_coefficients r ! p) = 32" if "p \<le> 32" for p using assms(1) that by auto
  have tap: "tap_sum r p = c * 32768" if "p \<le> 32" for p
  proof -
    have "tap_sum r p = (\<Sum>k\<leftarrow>[0..<32]. c * rs_coefficients r ! p ! k)"
      unfolding tap_sum_def POGVOICE_FIR_TAPS_def using assms(3) by (intro arg_cong [where f = sum_list] map_cong) simp_all
    also have "\<dots> = c * (\<Sum>k\<leftarrow>[0..<length (rs_coefficients r ! p)]. rs_coefficients r ! p ! k)"
      using row [OF that] by (simp only: sum_list_const_mult)
    also have "\<dots> = c * 32768" using assms(2) that by (simp only: map_nth) (simp add: rows_unit_def)
    finally show ?thesis .
  qed
  let ?s = "rs_phase r * 32" and ?o = "rs_output_rate r"
  have w: "wrap32 ?s = ?s" using assms by simp
  have "?s div ?o < 32" using assms(4) by (intro less_mult_imp_div_less) simp
  then have t: "tap_sum r (?s div ?o) = c * 32768" "tap_sum r (?s div ?o + 1) = c * 32768" by (intro tap; simp)+
  have "(c * 32768 * (256 - b) + c * 32768 * b + 2 ^ 22) div 2 ^ 23 = c" for b :: int
  proof -
    have "c * 32768 * (256 - b) + c * 32768 * b + 2 ^ 22 = 4194304 + c * 8388608" by (simp add: algebra_simps)
    then show ?thesis by simp
  qed
  then show ?thesis unfolding fir_sample_def Let_def POGVOICE_FIR_PHASES_def w t using assms(5,6) by (simp add: clip16_def)
qed

lemma constant_emitted:
  assumes "rs_ok r" "rows_unit r" "\<forall>i < 32. rs_history r ! i = c" "- 32768 \<le> c" "c \<le> 32767"
  shows "\<forall>s \<in> set (emitted r). s = c"
proof -
  have "fir_sample (r\<lparr>rs_phase := rs_phase r + j * rs_input_rate r\<rparr>) = c"
    if "j < turns (rs_input_rate r) (rs_output_rate r) (rs_phase r)" for j
  proof -
    have lt: "rs_phase r + j * rs_input_rate r < rs_output_rate r" using that assms(1) by (intro turns_below) (simp_all add: rs_ok_def)
    then show ?thesis using assms by (intro constant_fir_sample) (simp_all add: rs_ok_def rows_unit_def)
  qed
  then show ?thesis by (auto simp: emitted_def)
qed

lemma recent_step:
  assumes "rs_ok r" "recent r n c" "n \<le> 32"
  shows "recent (advance (push_sample c r)) (min 32 (Suc n)) c"
  unfolding recent_def
proof (intro allI impI)
  fix j assume j: "j < min 32 (Suc n)"
  let ?h = "rs_head r" and ?H = "(rs_history r)[rs_head r := c]"
  have h: "?h < 32" "length (rs_history r) = 32" using assms(1) by (simp_all add: rs_ok_def)
  have "?H ! (((?h + 1) mod 32 + 31 - j) mod 32) = c"
  proof (cases j)
    case 0
    then have "((?h + 1) mod 32 + 31 - j) mod 32 = ?h" using h(1) by (cases "?h = 31") (simp_all add: mod_if)
    with h show ?thesis by simp
  next
    case (Suc i)
    then have "((?h + 1) mod 32 + 31 - j) mod 32 = (?h + 31 - i) mod 32"
    proof (cases "?h = 31")
      case True
      have "62 - i = (30 - i) + 32" "30 - i < 32" using Suc j by simp_all
      then have "(62 - i) mod 32 = 30 - i" by (simp only: mod_add_self2 mod_less)
      with True Suc j show ?thesis by simp
    next
      case False
      have "?h + 1 < 32" using False h(1) by linarith
      then have "(?h + 1) mod 32 = ?h + 1" by (rule mod_less)
      moreover have "?h + 1 + 31 - Suc i = ?h + 31 - i" by simp
      ultimately show ?thesis using Suc by (simp only:)
    qed
    moreover have "rs_history r ! ((?h + 31 - i) mod 32) = c" using assms(2) Suc j by (simp add: recent_def)
    moreover have "(?h + 31 - i) mod 32 < length (rs_history r)" using h by simp
    ultimately show ?thesis using h by (simp add: nth_list_update)
  qed
  then show "rs_history (advance (push_sample c r)) ! ((rs_head (advance (push_sample c r)) + 31 - j) mod 32) = c"
    by (simp add: advance_def push_sample_def)
qed

lemma recent_replicate:
  "rs_ok r \<Longrightarrow> recent r m c \<Longrightarrow> m \<le> 32 \<Longrightarrow> recent (fst (resampled r (replicate n c))) (min 32 (m + n)) c"
proof (induction n arbitrary: r m)
  case (Suc n)
  have ok: "rs_ok (advance (push_sample c r))" using Suc.prems by (intro advance_ok push_sample_ok)
  have "min 32 (min 32 (Suc m) + n) = min 32 (m + Suc n)" by simp
  with Suc.IH [OF ok recent_step [OF Suc.prems]] show ?case by (simp add: Let_def)
qed simp

lemma recent_all: "rs_ok r \<Longrightarrow> recent r 32 c \<longleftrightarrow> (\<forall>i < 32. rs_history r ! i = c)"
proof
  assume "rs_ok r" "recent r 32 c"
  moreover have "\<exists>j < 32. (rs_head r + 31 - j) mod 32 = i" if "i < 32" "rs_head r < 32" for i
  proof (cases "i < rs_head r")
    case True
    then show ?thesis using that by (intro exI [of _ "rs_head r - 1 - i"]) simp
  next
    case False
    then show ?thesis using that by (intro exI [of _ "rs_head r + 31 - i"]) simp
  qed
  ultimately show "\<forall>i < 32. rs_history r ! i = c" by (metis recent_def rs_ok_def)
qed (simp add: recent_def)

lemma constant_resampled:
  "rs_ok r \<Longrightarrow> rows_unit r \<Longrightarrow> recent r 32 c \<Longrightarrow> - 32768 \<le> c \<Longrightarrow> c \<le> 32767
    \<Longrightarrow> \<forall>s \<in> set (snd (resampled r (replicate n c))). s = c"
proof (induction n arbitrary: r)
  case (Suc n)
  let ?p = "push_sample c r"
  have ok: "rs_ok ?p" "rs_ok (advance ?p)" using Suc.prems by (simp_all add: advance_ok push_sample_ok)
  have u: "rows_unit ?p" "rows_unit (advance ?p)" using Suc.prems by (simp_all add: rows_unit_def push_sample_def advance_def)
  have r: "recent (advance ?p) 32 c" using recent_step [OF Suc.prems(1,3)] by simp
  have "\<forall>i < 32. rs_history ?p ! i = c"
    using Suc.prems(1,3) by (simp add: recent_all) (simp add: push_sample_def rs_ok_def nth_list_update)
  from constant_emitted [OF ok(1) u(1) this] Suc.IH [OF ok(2) u(2) r] Suc.prems show ?case by (auto simp: Let_def)
qed simp

lemma init_unit:
  assumes "rounded_fit rounded" "pogvoice_resampler_init rounded inp out r0 = (0, r)"
  shows "rows_unit r"
  using assms quantised_row_sum [OF assms(1)]
  by (auto simp: pogvoice_resampler_init_def rows_unit_def POGVOICE_FIR_PHASES_def simp del: upt_Suc split: if_splits)

text \<open>C29. A constant level passes unchanged: once the last 32 samples were the level c, on whatever went before, every
  further sample written for the level is c, at every pair of rates and every phase of the filter, so
  silence stays silence.  The lround values are assumed to fit into 16 bits, the corrected centre tap as well.\<close>

theorem constant_level_passes:
  assumes "pogvoice_resampler_init rounded inp out r0 = (0, r)" "rounded_fit rounded"
    "\<forall>xs \<in> set xss. length xs \<le> 160" "- 32768 \<le> c" "c \<le> 32767" "n \<le> 160"
  shows "case pogvoice_resampler_process (fst (blocks_run r (xss @ [replicate 32 c]))) (replicate n c) 1024 of
    None \<Rightarrow> False | Some (k, r', level) \<Rightarrow> k \<noteq> - 1 \<and> (\<forall>s \<in> set level. s = c)"
proof -
  have ok: "rs_ok r" using init_ok [OF assms(1)] by simp
  let ?q = "fst (resampled r (concat xss))"
  let ?s = "fst (resampled ?q (replicate 32 c))"
  have okq: "rs_ok ?q" "rs_ok ?s" by (simp_all add: resampled_ok ok)
  have e: "fst (blocks_run r (xss @ [replicate 32 c])) = ?s"
    using blocks_run_resampled [OF ok, of "xss @ [replicate 32 c]"] assms(3) by (simp add: resampled_append)
  have "rows_unit ?s" using init_unit [OF assms(2,1)] resampled_rates [OF ok] resampled_rates [OF okq(1)] by (simp add: rows_unit_def)
  moreover have "recent ?s 32 c" using recent_replicate [OF okq(1), of 0 c 32] by (simp add: recent_def)
  ultimately have "\<forall>s \<in> set (snd (resampled ?s (replicate n c))). s = c" using okq(2) assms(4,5) by (intro constant_resampled)
  with process_1024 [OF okq(2), of "replicate n c"] assms(6) show ?thesis unfolding e by (simp add: case_prod_beta)
qed

lemma demo_rounded_fit: "rounded_fit demo_rounded"
  by (simp add: rounded_fit_def demo_rounded_def upt_rec Let_def)

lemma constant_level_passes_witness:
  "case pogvoice_resampler_process (fst (blocks_run demo_resampler ([[3, 4]] @ [replicate 32 (- 5)]))) (replicate 2 (- 5)) 1024 of
    None \<Rightarrow> False | Some (k, r', level) \<Rightarrow> k \<noteq> - 1 \<and> (\<forall>s \<in> set level. s = - 5)"
proof (rule constant_level_passes [of demo_rounded 16000 48000])
  show "pogvoice_resampler_init demo_rounded 16000 48000
      \<lparr>rs_input_rate = 0, rs_output_rate = 0, rs_phase = 0, rs_head = 0, rs_history = [], rs_coefficients = []\<rparr> = (0, demo_resampler)"
    by (simp add: demo_resampler_def pogvoice_resampler_init_def)
qed (simp_all add: demo_rounded_fit)

end
