(* ===== verification/Pogvoice_Protocol.thy ===== *)
theory Pogvoice_Protocol imports C_String begin

text \<open>
  The wire format of the voice path, components/pogvoice/pogvoice_protocol.c: the addresses
  the speaker accepts for the voice service, the framing of Opus packets (version 3) and the
  reassembly of WebSocket messages from chunks and continuation frames.  A NULL argument is not
  modelled.  Addresses are byte strings without the NUL; the bytes past the end read as 0.  The
  lemmas give the grammar of the accepted addresses, the round trip of the packets, and show that
  messages arrive whole however they were cut, without a write outside of the buffer.
\<close>

section \<open>Addresses\<close>

definition POGVOICE_MESSAGE_MAX :: nat where "POGVOICE_MESSAGE_MAX = 4096"

record pogvoice_origin =
  or_scheme :: bytes
  or_host :: bytes
  or_port :: u16
  or_secure :: bool

definition isalnum :: "u8 \<Rightarrow> bool" where
  "isalnum c \<longleftrightarrow> isdigit c \<or> 65 \<le> c \<and> c \<le> 90 \<or> 97 \<le> c \<and> c \<le> 122"

text \<open>The loops over the host and over the digits of the port: what was read, and the rest.\<close>

fun host_loop :: "bytes \<Rightarrow> (bytes \<times> bytes) option" where
  "host_loop [] = Some ([], [])"
| "host_loop (c # s) = (if c = 58 \<or> c = 47 then Some ([], c # s)
     else if \<not> isalnum c \<and> c \<noteq> 46 \<and> c \<noteq> 45 then None
     else map_option (\<lambda>(h, rest). (c # h, rest)) (host_loop s))"

fun port_loop :: "nat \<Rightarrow> bytes \<Rightarrow> (nat \<times> bytes) option" where
  "port_loop port [] = Some (port, [])"
| "port_loop port (c # s) = (if isdigit c
     then let port = port * 10 + (unat c - 48) in if port > 65535 then None else port_loop port s
     else Some (port, c # s))"

definition port_part :: "bool \<Rightarrow> bytes \<Rightarrow> (nat \<times> bytes) option" where
  "port_part secure p = (case p of
     c # q \<Rightarrow> if c = 58
       then if q = [] \<or> \<not> isdigit (hd q) then None
         else case port_loop 0 q of None \<Rightarrow> None | Some (port, rest) \<Rightarrow> if port = 0 then None else Some (port, rest)
       else Some (if secure then 443 else 80, p)
   | [] \<Rightarrow> Some (if secure then 443 else 80, p))"

definition scheme_name :: "bool \<Rightarrow> bool \<Rightarrow> bytes" where
  "scheme_name ws secure = (if ws then if secure then asc ''wss'' else asc ''ws''
     else if secure then asc ''https'' else asc ''http'')"

definition origin_of :: "bytes \<Rightarrow> bool \<Rightarrow> bytes \<Rightarrow> pogvoice_origin option" where
  "origin_of scheme secure p = (case host_loop p of None \<Rightarrow> None
   | Some (host, rest) \<Rightarrow>
      if host = [] \<or> length host \<ge> 128 \<or> hd host = 45 \<or> last host = 45 then None
      else case port_part secure rest of None \<Rightarrow> None
        | Some (port, rest) \<Rightarrow> if rest = [] \<or> rest = [47]
            then Some \<lparr>or_scheme = scheme, or_host = map tolower host, or_port = of_nat port, or_secure = secure\<rparr> else None)"

definition pogvoice_origin_parse :: "bytes \<Rightarrow> bool \<Rightarrow> pogvoice_origin option" where
  "pogvoice_origin_parse url ws = (if length url > 200 then None
     else case strstr (asc ''://'') url of None \<Rightarrow> None
     | Some sep \<Rightarrow> let scheme = take (length url - length sep) url in
         if length scheme > 5 then None
         else if scheme = scheme_name ws True then origin_of scheme True (drop 3 sep)
         else if scheme \<noteq> scheme_name ws False then None
         else origin_of scheme False (drop 3 sep))"

definition pogvoice_ws_origin_allowed :: "bytes \<Rightarrow> bytes \<Rightarrow> bool \<Rightarrow> bool" where
  "pogvoice_ws_origin_allowed api ws lan = (case pogvoice_origin_parse api False of None \<Rightarrow> False
   | Some a \<Rightarrow> (case pogvoice_origin_parse ws True of None \<Rightarrow> False
     | Some b \<Rightarrow> or_host a = or_host b \<and> (or_secure a \<and> or_secure b \<or> lan \<and> \<not> or_secure a \<and> \<not> or_secure b)))"

subsection \<open>The grammar of the accepted addresses\<close>

definition host_char :: "u8 \<Rightarrow> bool" where
  "host_char c \<longleftrightarrow> isalnum c \<or> c = 46 \<or> c = 45"

definition valid_host :: "bytes \<Rightarrow> bool" where
  "valid_host h \<longleftrightarrow> h \<noteq> [] \<and> length h < 128 \<and> (\<forall>c \<in> set h. host_char c) \<and> hd h \<noteq> 45 \<and> last h \<noteq> 45"

definition valid_port :: "bytes option \<Rightarrow> bool" where
  "valid_port p = (case p of None \<Rightarrow> True | Some ds \<Rightarrow> ds \<noteq> [] \<and> (\<forall>d \<in> set ds. isdigit d)
     \<and> 0 < digits_value ds \<and> digits_value ds < 65536)"

definition origin_text :: "bool \<Rightarrow> bool \<Rightarrow> bytes \<Rightarrow> bytes option \<Rightarrow> bool \<Rightarrow> bytes" where
  "origin_text ws secure host port slash = scheme_name ws secure @ asc ''://'' @ host
     @ (case port of None \<Rightarrow> [] | Some ds \<Rightarrow> 58 # ds) @ (if slash then [47] else [])"

definition origin_value :: "bool \<Rightarrow> bool \<Rightarrow> bytes \<Rightarrow> bytes option \<Rightarrow> pogvoice_origin" where
  "origin_value ws secure host port = \<lparr>or_scheme = scheme_name ws secure, or_host = map tolower host,
     or_port = of_nat (case port of None \<Rightarrow> if secure then 443 else 80 | Some ds \<Rightarrow> digits_value ds), or_secure = secure\<rparr>"

lemma host_char_no_sep: "host_char c \<Longrightarrow> c \<noteq> 58 \<and> c \<noteq> 47"
  by (auto simp: host_char_def isalnum_def isdigit_def)

lemma host_loop_Some: "host_loop p = Some (h, rest) \<Longrightarrow>
    p = h @ rest \<and> (\<forall>c \<in> set h. host_char c) \<and> (rest = [] \<or> hd rest = 58 \<or> hd rest = 47)"
  by (induction p arbitrary: h) (auto simp: host_char_def split: if_splits)

lemma host_loop_text: "\<forall>c \<in> set h. host_char c \<Longrightarrow> rest = [] \<or> hd rest = 58 \<or> hd rest = 47 \<Longrightarrow> host_loop (h @ rest) = Some (h, rest)"
proof (induction h)
  case Nil
  then show ?case by (cases rest) auto
next
  case (Cons c h)
  then show ?case using host_char_no_sep [of c] by (auto simp: host_char_def)
qed

lemma digits_value_mono: "foldl (\<lambda>a d. 10 * a + (unat d - 48)) a ds \<ge> (a :: nat)" for ds :: bytes
proof (induction ds arbitrary: a)
  case (Cons d ds)
  have "a \<le> 10 * a + (unat d - 48)" by simp
  also have "\<dots> \<le> foldl (\<lambda>a d. 10 * a + (unat d - 48)) (10 * a + (unat d - 48)) ds" by (rule Cons)
  finally show ?case by simp
qed simp

lemma port_loop_Some:
  "port_loop a p = Some (port, rest) \<Longrightarrow> a \<le> 65535 \<Longrightarrow>
     \<exists>ds. p = ds @ rest \<and> (\<forall>d \<in> set ds. isdigit d) \<and> port = foldl (\<lambda>a d. 10 * a + (unat d - 48)) a ds \<and> port \<le> 65535
       \<and> (rest = [] \<or> \<not> isdigit (hd rest))"
proof (induction p arbitrary: a)
  case (Cons c p)
  show ?case
  proof (cases "isdigit c")
    case True
    let ?a = "a * 10 + (unat c - 48)"
    have "?a \<le> 65535" "port_loop ?a p = Some (port, rest)" using Cons.prems(1) True by (auto simp: Let_def split: if_splits)
    from Cons.IH [OF this(2,1)] obtain ds where
      "p = ds @ rest \<and> (\<forall>d \<in> set ds. isdigit d) \<and> port = foldl (\<lambda>a d. 10 * a + (unat d - 48)) ?a ds \<and> port \<le> 65535
       \<and> (rest = [] \<or> \<not> isdigit (hd rest))" by blast
    then show ?thesis using True by (intro exI [of _ "c # ds"]) (simp add: mult.commute)
  next
    case False
    then show ?thesis using Cons.prems by auto
  qed
qed auto

lemma port_loop_text:
  "\<forall>d \<in> set ds. isdigit d \<Longrightarrow> foldl (\<lambda>a d. 10 * a + (unat d - 48)) a ds \<le> 65535 \<Longrightarrow> rest = [] \<or> \<not> isdigit (hd rest) \<Longrightarrow>
     port_loop a (ds @ rest) = Some (foldl (\<lambda>a d. 10 * a + (unat d - 48)) a ds, rest)"
proof (induction ds arbitrary: a)
  case Nil
  then show ?case by (cases rest) auto
next
  case (Cons d ds)
  let ?a = "10 * a + (unat d - 48)"
  have "?a \<le> 65535" using Cons.prems(2) digits_value_mono [of ?a ds] by simp
  with Cons show ?case by (simp add: Let_def mult.commute)
qed

definition tail_text :: "bytes option \<Rightarrow> bool \<Rightarrow> bytes" where
  "tail_text port slash = (case port of None \<Rightarrow> [] | Some ds \<Rightarrow> 58 # ds) @ (if slash then [47] else [])"

lemma port_part_text:
  assumes "valid_port port"
  shows "port_part secure (tail_text port slash)
    = Some (case port of None \<Rightarrow> if secure then 443 else 80 | Some ds \<Rightarrow> digits_value ds, if slash then [47] else [])"
proof (cases port)
  case (Some ds)
  have nd: "\<not> isdigit 47" by (simp add: isdigit_def)
  have "port_loop 0 (ds @ (if slash then [47] else [])) = Some (digits_value ds, if slash then [47] else [])"
    unfolding digits_value_def using assms Some nd by (intro port_loop_text) (auto simp: valid_port_def digits_value_def)
  then show ?thesis using assms Some by (cases ds) (auto simp: valid_port_def port_part_def tail_text_def)
qed (simp add: port_part_def tail_text_def)

lemma port_part_Some:
  assumes "port_part secure p = Some (n, rest)" "rest = [] \<or> rest = [47]" "p = [] \<or> hd p = 58 \<or> hd p = 47"
  shows "\<exists>port slash. valid_port port \<and> p = tail_text port slash
    \<and> n = (case port of None \<Rightarrow> if secure then 443 else 80 | Some ds \<Rightarrow> digits_value ds)"
proof (cases "p \<noteq> [] \<and> hd p = 58")
  case True
  then obtain q where p: "p = 58 # q" by (cases p) auto
  with assms(1) have q: "q \<noteq> []" "isdigit (hd q)" "port_loop 0 q = Some (n, rest)" "n \<noteq> 0"
    by (auto simp: port_part_def split: if_splits option.splits)
  from port_loop_Some [OF q(3)] obtain ds where ds: "q = ds @ rest" "\<forall>d \<in> set ds. isdigit d" "n = digits_value ds" "n \<le> 65535"
    by (auto simp: digits_value_def)
  moreover have "\<not> isdigit 47" by (simp add: isdigit_def)
  ultimately have "ds \<noteq> []" using q(1,2) assms(2) by auto
  then have "valid_port (Some ds)" using ds q(4) by (simp add: valid_port_def)
  moreover have "p = tail_text (Some ds) (rest \<noteq> [])" using p ds(1) assms(2) by (auto simp: tail_text_def)
  ultimately show ?thesis using ds(3) by (intro exI [of _ "Some ds"] exI [of _ "rest \<noteq> []"]) simp
next
  case False
  then have "n = (if secure then 443 else 80) \<and> rest = p" using assms(1) by (cases p) (auto simp: port_part_def)
  then show ?thesis using assms(2) False
    by (intro exI [of _ None] exI [of _ "rest \<noteq> []"]) (auto simp: valid_port_def tail_text_def)
qed

lemma origin_of_iff:
  "origin_of scheme secure p = Some v \<longleftrightarrow> (\<exists>host port slash. valid_host host \<and> valid_port port \<and> p = host @ tail_text port slash
     \<and> v = \<lparr>or_scheme = scheme, or_host = map tolower host,
         or_port = of_nat (case port of None \<Rightarrow> if secure then 443 else 80 | Some ds \<Rightarrow> digits_value ds), or_secure = secure\<rparr>)"
    (is "?L \<longleftrightarrow> ?R")
proof
  assume ?L
  then obtain host rest n rest' where h: "host_loop p = Some (host, rest)" "host \<noteq> []" "length host < 128" "hd host \<noteq> 45" "last host \<noteq> 45"
    and n: "port_part secure rest = Some (n, rest')" "rest' = [] \<or> rest' = [47]"
    and v: "v = \<lparr>or_scheme = scheme, or_host = map tolower host, or_port = of_nat n, or_secure = secure\<rparr>"
    by (auto simp: origin_of_def split: option.splits if_splits)
  from host_loop_Some [OF h(1)] have "p = host @ rest" "valid_host host" "rest = [] \<or> hd rest = 58 \<or> hd rest = 47"
    using h by (auto simp: valid_host_def)
  with port_part_Some [OF n this(3)] v show ?R by metis
next
  assume ?R
  then obtain host port slash where a: "valid_host host" "valid_port port" "p = host @ tail_text port slash"
    "v = \<lparr>or_scheme = scheme, or_host = map tolower host,
         or_port = of_nat (case port of None \<Rightarrow> if secure then 443 else 80 | Some ds \<Rightarrow> digits_value ds), or_secure = secure\<rparr>"
    by blast
  have "host_loop p = Some (host, tail_text port slash)"
    unfolding a(3) using a(1) by (intro host_loop_text) (auto simp: valid_host_def tail_text_def split: option.splits)
  with a port_part_text [OF a(2)] show ?L by (auto simp: origin_of_def valid_host_def)
qed


lemma strstr_sep: "58 \<notin> set pre \<Longrightarrow> strstr (asc ''://'') (pre @ asc ''://'' @ s) = Some (asc ''://'' @ s)"
proof -
  assume a: "58 \<notin> set pre"
  have "hd (asc ''://'') = 58" "asc ''://'' \<noteq> []" by simp_all
  with a have "strstr (asc ''://'') (pre @ asc ''://'' @ s) = strstr (asc ''://'') (asc ''://'' @ s)"
    by (intro strstr_skip) simp_all
  also have "\<dots> = Some (asc ''://'' @ s)" by (rule strstr_here) (simp del: asc_simps)
  finally show ?thesis .
qed

lemma scheme_no_colon: "58 \<notin> set (scheme_name ws secure) \<and> length (scheme_name ws secure) \<le> 5"
  by (simp add: scheme_name_def)

lemma scheme_name_eq: "scheme_name ws True \<noteq> scheme_name ws False"
  by (simp add: scheme_name_def)

text \<open>The accepted addresses are exactly those of the grammar scheme://host[:port][/]: a scheme of the
  kind asked for, a host of 1 to 127 letters, digits, dots and inner hyphens, a port from 1 to 65535 (443 or 80 without one),
  at most 200 bytes and nothing else; no user, path, query or fragment gets through.\<close>

lemma origin_parse_iff:
  "pogvoice_origin_parse url ws = Some v \<longleftrightarrow> length url \<le> 200 \<and> (\<exists>secure host port slash.
     valid_host host \<and> valid_port port \<and> url = origin_text ws secure host port slash \<and> v = origin_value ws secure host port)"
    (is "?L \<longleftrightarrow> _ \<and> ?R")
proof (intro iffI conjI)
  assume l: ?L
  then show "length url \<le> 200" by (simp add: pogvoice_origin_parse_def split: if_splits)
  from l obtain sep where sep: "strstr (asc ''://'') url = Some sep"
    by (auto simp: pogvoice_origin_parse_def split: if_splits option.splits)
  obtain pre where pre: "url = pre @ sep" "starts (asc ''://'') sep" using strstr_Some_suffix [OF sep] by blast
  have s3: "sep = asc ''://'' @ drop 3 sep" using pre(2) by (metis append_take_drop_id asc_def length_map list.size(3,4) numeral_3_eq_3 starts_def One_nat_def add.right_neutral add_Suc_right)
  have "take (length url - length sep) url = pre" using pre(1) by simp
  then have "\<exists>secure. pre = scheme_name ws secure \<and> origin_of pre secure (drop 3 sep) = Some v"
    using l sep unfolding pogvoice_origin_parse_def by (auto simp: Let_def split: if_splits)
  then obtain secure where sc: "pre = scheme_name ws secure" "origin_of pre secure (drop 3 sep) = Some v" by blast
  from sc(2) obtain host port slash where "valid_host host \<and> valid_port port \<and> drop 3 sep = host @ tail_text port slash"
    "v = origin_value ws secure host port"
    unfolding origin_of_iff origin_value_def sc(1) by blast
  moreover have "url = scheme_name ws secure @ asc ''://'' @ drop 3 sep" using pre(1) s3 sc(1) by simp
  ultimately show ?R unfolding origin_text_def tail_text_def by metis
next
  assume "length url \<le> 200 \<and> ?R"
  then obtain secure host port slash where a: "length url \<le> 200" "valid_host host" "valid_port port"
    "url = origin_text ws secure host port slash" "v = origin_value ws secure host port" by blast
  let ?sc = "scheme_name ws secure" and ?t = "host @ tail_text port slash"
  have u: "url = ?sc @ asc ''://'' @ ?t" using a(4) by (simp add: origin_text_def tail_text_def)
  have o: "origin_of ?sc secure ?t = Some v" using a unfolding origin_of_iff origin_value_def by blast
  have st: "strstr (asc ''://'') url = Some (asc ''://'' @ ?t)" unfolding u using scheme_no_colon by (intro strstr_sep) simp
  have d: "drop 3 (asc ''://'' @ ?t) = ?t" by simp
  have tk: "take (length url - length (asc ''://'' @ ?t)) url = ?sc" unfolding u by simp
  show ?L
    unfolding pogvoice_origin_parse_def st option.case tk Let_def d
    using a(1) o scheme_no_colon [of ws secure] scheme_name_eq [of ws] by (cases secure) simp_all
qed

text \<open>The voice socket stays with the service it was announced by: an allowed pair of addresses names the
  same host up to case, and the connection is encrypted exactly when the service is; without
  encryption the local network must have been allowed.\<close>

theorem socket_stays_with_service:
  "pogvoice_ws_origin_allowed api ws lan \<longleftrightarrow> length api \<le> 200 \<and> length ws \<le> 200 \<and> (\<exists>secure host1 host2 port1 port2 slash1 slash2.
     valid_host host1 \<and> valid_host host2 \<and> valid_port port1 \<and> valid_port port2 \<and> map tolower host1 = map tolower host2
     \<and> api = origin_text False secure host1 port1 slash1 \<and> ws = origin_text True secure host2 port2 slash2 \<and> (secure \<or> lan))"
proof -
  have "pogvoice_ws_origin_allowed api ws lan \<longleftrightarrow> (\<exists>a b. pogvoice_origin_parse api False = Some a \<and> pogvoice_origin_parse ws True = Some b
     \<and> or_host a = or_host b \<and> or_secure a = or_secure b \<and> (or_secure a \<or> lan))"
    by (auto simp: pogvoice_ws_origin_allowed_def split: option.splits)
  also have "\<dots> \<longleftrightarrow> length api \<le> 200 \<and> length ws \<le> 200 \<and> (\<exists>secure host1 host2 port1 port2 slash1 slash2.
     valid_host host1 \<and> valid_host host2 \<and> valid_port port1 \<and> valid_port port2 \<and> map tolower host1 = map tolower host2
     \<and> api = origin_text False secure host1 port1 slash1 \<and> ws = origin_text True secure host2 port2 slash2 \<and> (secure \<or> lan))"
    (is "?L \<longleftrightarrow> ?R")
  proof
    assume ?L
    then obtain a b where ab: "pogvoice_origin_parse api False = Some a" "pogvoice_origin_parse ws True = Some b"
      "or_host a = or_host b" "or_secure a = or_secure b" "or_secure a \<or> lan" by blast
    from ab(1) obtain s1 h1 p1 l1 where 1: "length api \<le> 200" "valid_host h1" "valid_port p1"
      "api = origin_text False s1 h1 p1 l1" "a = origin_value False s1 h1 p1" unfolding origin_parse_iff by blast
    from ab(2) obtain s2 h2 p2 l2 where 2: "length ws \<le> 200" "valid_host h2" "valid_port p2"
      "ws = origin_text True s2 h2 p2 l2" "b = origin_value True s2 h2 p2" unfolding origin_parse_iff by blast
    have "s1 = s2" "map tolower h1 = map tolower h2" "s1 \<or> lan" using ab(3,4,5) 1(5) 2(5) by (simp_all add: origin_value_def)
    with 1 2 show ?R by blast
  next
    assume ?R
    then obtain s h1 h2 p1 p2 l1 l2 where a: "length api \<le> 200" "length ws \<le> 200" "valid_host h1" "valid_host h2" "valid_port p1"
      "valid_port p2" "map tolower h1 = map tolower h2" "api = origin_text False s h1 p1 l1" "ws = origin_text True s h2 p2 l2" "s \<or> lan"
      by blast
    then have "pogvoice_origin_parse api False = Some (origin_value False s h1 p1)"
      "pogvoice_origin_parse ws True = Some (origin_value True s h2 p2)" unfolding origin_parse_iff by blast+
    moreover have "or_host (origin_value False s h1 p1) = or_host (origin_value True s h2 p2)"
      "or_secure (origin_value False s h1 p1) = s" "or_secure (origin_value True s h2 p2) = s" using a(7) by (simp_all add: origin_value_def)
    ultimately show ?L using a(10) by metis
  qed
  finally show ?thesis .
qed


section \<open>Audio packets\<close>

definition pogvoice_v3_decode :: "bytes \<Rightarrow> (u8 \<times> bytes) option" where
  "pogvoice_v3_decode d = (if length d < 4 \<or> d ! 0 > 1 \<or> d ! 1 \<noteq> 0
       \<or> length d - 4 \<noteq> (unat (d ! 2) * 256 + unat (d ! 3)) then None
     else Some (d ! 0, drop 4 d))"

definition pogvoice_v3_encode :: "bytes \<Rightarrow> nat \<Rightarrow> bytes" where
  "pogvoice_v3_encode opus cap = (let n = length opus in
     if n = 0 \<or> n > 1275 \<or> cap < n + 4 then [] else [0, 0, of_nat (n div 256), of_nat n] @ opus)"

text \<open>Encoded packets decode to their audio, and only well-formed packets decode: the decoder accepts exactly the
  byte strings of a type 0 or 1, a zero, the length in big-endian order and as many bytes.\<close>

theorem v3_roundtrip:
  "(opus \<noteq> [] \<longrightarrow> length opus \<le> 1275 \<longrightarrow> length opus + 4 \<le> cap \<longrightarrow>
      length (pogvoice_v3_encode opus cap) = length opus + 4 \<and> pogvoice_v3_decode (pogvoice_v3_encode opus cap) = Some (0, opus))
   \<and> (pogvoice_v3_decode d = Some (t, payload) \<longleftrightarrow>
      t \<le> 1 \<and> length payload < 65536 \<and> d = [t, 0, of_nat (length payload div 256), of_nat (length payload)] @ payload)"
proof (intro conjI impI)
  have split: "unat (of_nat (n div 256) :: u8) * 256 + unat (of_nat n :: u8) = n" if "n < 65536" for n
  proof -
    have "n div 256 < 256" using that by (intro less_mult_imp_div_less) simp
    then have "unat (of_nat (n div 256) :: u8) = n div 256" by (simp add: unat_of_nat)
    then show ?thesis by (simp add: unat_of_nat)
  qed
  {
    assume a: "opus \<noteq> []" "length opus \<le> 1275" "length opus + 4 \<le> cap"
    then show "length (pogvoice_v3_encode opus cap) = length opus + 4" by (simp add: pogvoice_v3_encode_def Let_def)
    show "pogvoice_v3_decode (pogvoice_v3_encode opus cap) = Some (0, opus)"
      using a split [of "length opus"] by (simp add: pogvoice_v3_encode_def pogvoice_v3_decode_def Let_def)
  }
  show "pogvoice_v3_decode d = Some (t, payload) \<longleftrightarrow>
      t \<le> 1 \<and> length payload < 65536 \<and> d = [t, 0, of_nat (length payload div 256), of_nat (length payload)] @ payload" (is "?L \<longleftrightarrow> ?R")
  proof
    assume l: ?L
    then have c: "4 \<le> length d" "d ! 0 \<le> 1" "d ! 1 = 0" "length d - 4 = unat (d ! 2) * 256 + unat (d ! 3)" "t = d ! 0" "payload = drop 4 d"
      by (auto simp: pogvoice_v3_decode_def split: if_splits)
    obtain a b h l' rest where d: "d = a # b # h # l' # rest"
      using c(1) by (metis One_nat_def Suc_le_length_iff eval_nat_numeral(3) numeral_3_eq_3 eval_nat_numeral(2) semiring_norm(26,27))
    have "unat h < 256" "unat l' < 256" by (rule order_less_le_trans [OF unsigned_less]; simp)+
    moreover have n: "length rest = unat h * 256 + unat l'" using c(4) d by simp
    ultimately have "length rest div 256 = unat h" "length rest < 65536" by (simp, linarith)
    moreover have "(of_nat (length rest) :: u8) = l'"
    proof -
      have "(of_nat (unat h * 256 + unat l') :: u8) = of_nat (unat h) * of_nat 256 + l'" by simp
      also have "(of_nat 256 :: u8) = 0" by simp
      finally show ?thesis unfolding n by simp
    qed
    ultimately show ?R using c d by simp
  next
    assume ?R
    then show ?L using split [of "length payload"] by (auto simp: pogvoice_v3_decode_def not_less)
  qed
qed

lemma v3_roundtrip_witness:
  "pogvoice_v3_decode (pogvoice_v3_encode [1, 2, 3] 7) = Some (0, [1, 2, 3])"
  using v3_roundtrip [of "[1, 2, 3]" 7 "[]" 0 "[]"] by simp


section \<open>Messages\<close>

record message =
  ms_bytes :: bytes
  ms_used :: nat
  ms_frame_used :: nat
  ms_frame_size :: nat
  ms_opcode :: u8
  ms_open :: bool
  ms_in_frame :: bool

definition no_message :: message where
  "no_message = \<lparr>ms_bytes = replicate (POGVOICE_MESSAGE_MAX + 1) 0, ms_used = 0, ms_frame_used = 0, ms_frame_size = 0,
     ms_opcode = 0, ms_open = False, ms_in_frame = False\<rparr>"

text \<open>The first part, for a chunk at offset 0: None is the jump to bad.\<close>

definition frame_start :: "u8 \<Rightarrow> nat \<Rightarrow> message \<Rightarrow> message option" where
  "frame_start op frame_len m =
     (if ms_in_frame m \<or> op \<noteq> 0 \<and> op \<noteq> 1 \<and> op \<noteq> 2 then None
      else if op = 0 \<and> \<not> ms_open m \<or> op \<noteq> 0 \<and> ms_open m then None
      else let m = (if op = 0 then m else m\<lparr>ms_used := 0, ms_opcode := op, ms_open := True\<rparr>) in
        if frame_len > POGVOICE_MESSAGE_MAX - ms_used m then None
        else Some (m\<lparr>ms_frame_used := 0, ms_frame_size := frame_len, ms_in_frame := True\<rparr>))"

definition feed_rest :: "message \<Rightarrow> bool \<Rightarrow> nat \<Rightarrow> nat \<Rightarrow> bytes \<Rightarrow> (int \<times> message) cres" where
  "feed_rest m fin off frame_len data =
     (if \<not> ms_in_frame m \<or> off \<noteq> ms_frame_used m \<or> frame_len \<noteq> ms_frame_size m \<or> length data > POGVOICE_MESSAGE_MAX - ms_used m
      then Done (- 1, no_message)
      else cbind (put_bytes (ms_bytes m) (ms_used m) data) (\<lambda>buf.
        let m = m\<lparr>ms_bytes := buf, ms_used := ms_used m + length data, ms_frame_used := ms_frame_used m + length data\<rparr> in
        if ms_frame_used m \<noteq> frame_len then Done (0, m)
        else let m = m\<lparr>ms_in_frame := False\<rparr> in
          if \<not> fin then Done (0, m)
          else cbind (put_bytes (ms_bytes m) (ms_used m) [0]) (\<lambda>buf. Done (1, m\<lparr>ms_open := False, ms_bytes := buf\<rparr>))))"

definition pogvoice_message_feed :: "message \<Rightarrow> u8 \<Rightarrow> bool \<Rightarrow> nat \<Rightarrow> nat \<Rightarrow> bytes \<Rightarrow> (int \<times> message) cres" where
  "pogvoice_message_feed m op fin off frame_len data =
     (if op \<ge> 8 then Done (0, m)
      else if off > frame_len \<or> length data > frame_len - off then Done (- 1, m)
      else case (if off = 0 then frame_start op frame_len m else Some m) of
          None \<Rightarrow> Done (- 1, no_message)
        | Some m \<Rightarrow> feed_rest m fin off frame_len data)"

definition message_ok :: "message \<Rightarrow> bool" where
  "message_ok m \<longleftrightarrow> length (ms_bytes m) = 4097 \<and> ms_used m \<le> 4096"

lemma feed_ok:
  assumes "message_ok m"
  shows "\<exists>r m'. pogvoice_message_feed m op fin off frame_len data = Done (r, m') \<and> message_ok m' \<and> (r = - 1 \<or> r = 0 \<or> r = 1)
    \<and> (r = 1 \<longrightarrow> ms_bytes m' ! ms_used m' = 0)"
proof -
  let ?s = "if off = 0 then frame_start op frame_len m else Some m"
  have s: "message_ok t" if "?s = Some t" for t
    using assms that by (auto simp: frame_start_def message_ok_def Let_def split: if_splits)
  have no: "message_ok no_message" by (simp add: message_ok_def no_message_def POGVOICE_MESSAGE_MAX_def)
  show ?thesis
  proof (cases ?s)
    case None
    then show ?thesis using assms no by (auto simp: pogvoice_message_feed_def)
  next
    case (Some t)
    show ?thesis
    proof (cases "length data > POGVOICE_MESSAGE_MAX - ms_used t")
      case True
      then show ?thesis unfolding pogvoice_message_feed_def feed_rest_def Some using assms no by auto
    next
      case False
      then have "ms_used t + length data \<le> length (ms_bytes t)" and u: "ms_used t + length data \<le> 4096"
        using s [OF Some] by (auto simp: message_ok_def POGVOICE_MESSAGE_MAX_def)
      from put_bytes_Done [OF this(1)] obtain b where b: "put_bytes (ms_bytes t) (ms_used t) data = Done b" "length b = 4097"
        using s [OF Some] by (auto simp: message_ok_def)
      then have z: "put_bytes b (ms_used t + length data) [0] = Done (take (ms_used t + length data) b @ [0] @ drop (ms_used t + length data + 1) b)"
        using u by (simp add: put_bytes_def)
      have n: "(take (ms_used t + length data) b @ [0] @ drop (ms_used t + length data + 1) b) ! (ms_used t + length data) = 0"
        using u b(2) by (simp add: nth_append)
      show ?thesis unfolding pogvoice_message_feed_def feed_rest_def Some option.case b cbind.simps Let_def
        using assms no u b(2) z n by (auto simp: message_ok_def)
    qed
  qed
qed

text \<open>What the connection does with the chunks: the complete messages in order, or a failed connection.\<close>

type_synonym chunk = "u8 \<times> bool \<times> nat \<times> nat \<times> bytes"

fun feed_all :: "message \<Rightarrow> chunk list \<Rightarrow> ((u8 \<times> bytes) list \<times> bool) cres" where
  "feed_all m [] = Done ([], True)"
| "feed_all m ((op, fin, off, frame_len, data) # es) = cbind (pogvoice_message_feed m op fin off frame_len data) (\<lambda>(r, m).
     if r = - 1 then Done ([], False)
     else cbind (feed_all m es) (\<lambda>(ms, ok). Done ((if r = 1 then [(ms_opcode m, take (ms_used m) (ms_bytes m))] else []) @ ms, ok)))"

lemma feed_all_safe: "message_ok m \<Longrightarrow> feed_all m es \<noteq> Fault"
proof (induction es arbitrary: m)
  case (Cons e es)
  obtain op fin off frame_len data where e: "e = (op, fin, off, frame_len, data)" by (metis prod_cases5)
  from feed_ok [OF Cons.prems, of op fin off frame_len data] obtain r m' where
    f: "pogvoice_message_feed m op fin off frame_len data = Done (r, m')" "message_ok m'" by blast
  from Cons.IH [OF f(2)] show ?case unfolding e using f(1) by (cases "feed_all m' es") auto
qed simp

text \<open>How a sender cuts a message: into frames, and the client library cuts each frame into chunks.\<close>

fun frame_chunks :: "u8 \<Rightarrow> bool \<Rightarrow> nat \<Rightarrow> nat \<Rightarrow> bytes list \<Rightarrow> chunk list" where
  "frame_chunks op fin frame_len off [] = []"
| "frame_chunks op fin frame_len off (d # ds) = (op, fin, off, frame_len, d) # frame_chunks op fin frame_len (off + length d) ds"

fun message_chunks :: "u8 \<Rightarrow> bytes list list \<Rightarrow> chunk list" where
  "message_chunks op [] = []"
| "message_chunks op (ds # fs) = frame_chunks op (fs = []) (length (concat ds)) 0 ds @ message_chunks 0 fs"

text \<open>A frame has at least one chunk, and the chunks are not empty unless the frame is.\<close>

definition frame_cut :: "bytes list \<Rightarrow> bool" where
  "frame_cut ds \<longleftrightarrow> ds = [[]] \<or> ds \<noteq> [] \<and> [] \<notin> set ds"


definition idle :: "message \<Rightarrow> bool" where
  "idle m \<longleftrightarrow> message_ok m \<and> \<not> ms_open m \<and> \<not> ms_in_frame m"

definition buffer_holds :: "message \<Rightarrow> u8 \<Rightarrow> bytes \<Rightarrow> bool" where
  "buffer_holds m op pre \<longleftrightarrow> message_ok m \<and> ms_open m \<and> ms_opcode m = op \<and> ms_used m = length pre \<and> take (ms_used m) (ms_bytes m) = pre"

definition in_frame_at :: "message \<Rightarrow> nat \<Rightarrow> nat \<Rightarrow> bool" where
  "in_frame_at m off frame_len \<longleftrightarrow> ms_in_frame m \<and> ms_frame_used m = off \<and> ms_frame_size m = frame_len"

text \<open>The state after the last chunk of a frame, and what the rest of the chunks then yields.\<close>

definition frame_end :: "bool \<Rightarrow> u8 \<Rightarrow> bytes \<Rightarrow> message \<Rightarrow> bool" where
  "frame_end fin op0 got m \<longleftrightarrow> (if fin then idle m else buffer_holds m op0 got \<and> \<not> ms_in_frame m)"

definition yields :: "bool \<Rightarrow> u8 \<Rightarrow> bytes \<Rightarrow> ((u8 \<times> bytes) list \<times> bool) cres \<Rightarrow> ((u8 \<times> bytes) list \<times> bool) cres" where
  "yields fin op0 got r = (if fin then cbind r (\<lambda>(ms, ok). Done ((op0, got) # ms, ok)) else r)"

lemma cbind_Done_id [simp]: "cbind r (\<lambda>(a, b). Done (a, b)) = r" "cbind r Done = r"
  by (cases r; simp)+

lemma feed_rest_mid:
  assumes "buffer_holds m op0 pre" "in_frame_at m off frame_len" "off + length data < frame_len" "length pre + length data \<le> 4096"
  shows "\<exists>m'. feed_rest m fin off frame_len data = Done (0, m') \<and> buffer_holds m' op0 (pre @ data) \<and> in_frame_at m' (off + length data) frame_len"
proof -
  have "length pre + length data \<le> length (ms_bytes m)" using assms by (simp add: buffer_holds_def message_ok_def)
  from put_bytes_Done [OF this] obtain b where
    "put_bytes (ms_bytes m) (length pre) data = Done b" "length b = length (ms_bytes m)" "take (length pre + length data) b = take (length pre) (ms_bytes m) @ data"
    by blast
  with assms show ?thesis by (auto simp: feed_rest_def buffer_holds_def in_frame_at_def message_ok_def POGVOICE_MESSAGE_MAX_def Let_def)
qed

lemma feed_rest_end:
  assumes "buffer_holds m op0 pre" "in_frame_at m off frame_len" "off + length data = frame_len" "length pre + length data \<le> 4096"
  shows "\<exists>m'. feed_rest m fin off frame_len data = Done (if fin then 1 else 0, m') \<and> frame_end fin op0 (pre @ data) m'
    \<and> (fin \<longrightarrow> ms_opcode m' = op0 \<and> take (ms_used m') (ms_bytes m') = pre @ data)"
proof -
  have "length pre + length data \<le> length (ms_bytes m)" using assms by (simp add: buffer_holds_def message_ok_def)
  from put_bytes_Done [OF this] obtain b where b:
    "put_bytes (ms_bytes m) (length pre) data = Done b" "length b = length (ms_bytes m)" "take (length pre + length data) b = take (length pre) (ms_bytes m) @ data"
    by blast
  then have z: "put_bytes b (length pre + length data) [0] = Done (take (length pre + length data) b @ [0] @ drop (length pre + length data + 1) b)"
    using assms by (simp add: put_bytes_def buffer_holds_def message_ok_def)
  have "length pre + length data \<le> length b" using assms b by (simp add: buffer_holds_def message_ok_def)
  then show ?thesis using assms b z
    by (auto simp: feed_rest_def buffer_holds_def in_frame_at_def message_ok_def POGVOICE_MESSAGE_MAX_def frame_end_def idle_def Let_def)
qed

lemma frame_tail:
  assumes "buffer_holds m op0 pre" "in_frame_at m off frame_len" "off + length (concat ds) = frame_len" "length pre + length (concat ds) \<le> 4096"
    "ds \<noteq> []" "[] \<notin> set ds" "0 < off" "op < 8"
  shows "\<exists>m'. feed_all m (frame_chunks op fin frame_len off ds @ es) = yields fin op0 (pre @ concat ds) (feed_all m' es)
    \<and> frame_end fin op0 (pre @ concat ds) m'"
  using assms
proof (induction ds arbitrary: m off pre)
  case (Cons d ds)
  have feed: "pogvoice_message_feed m op fin off frame_len d = feed_rest m fin off frame_len d"
  proof -
    have "\<not> length d > frame_len - off" "\<not> off > frame_len" using Cons.prems(3) by auto
    moreover have "\<not> op \<ge> 8" using Cons.prems(8) by (simp only: not_le)
    ultimately show ?thesis using Cons.prems(7) unfolding pogvoice_message_feed_def by simp
  qed
  show ?case
  proof (cases "ds = []")
    case True
    with Cons.prems obtain m' where m': "feed_rest m fin off frame_len d = Done (if fin then 1 else 0, m')" "frame_end fin op0 (pre @ d) m'"
      "fin \<longrightarrow> ms_opcode m' = op0 \<and> take (ms_used m') (ms_bytes m') = pre @ d"
      using feed_rest_end [of m op0 pre off frame_len d fin] by auto
    with True feed show ?thesis by (intro exI [of _ m']) (simp add: yields_def)
  next
    case False
    with Cons.prems(6) have ne: "0 < length (concat ds)" by (cases ds) auto
    have sum: "length (concat (d # ds)) = length d + length (concat ds)" by simp
    have "off + length d < frame_len" "length pre + length d \<le> 4096" using Cons.prems(3,4) ne unfolding sum by linarith+
    from feed_rest_mid [OF Cons.prems(1,2) this] obtain m1 where
      m1: "feed_rest m fin off frame_len d = Done (0, m1)" "buffer_holds m1 op0 (pre @ d)" "in_frame_at m1 (off + length d) frame_len" by blast
    from Cons.IH [OF m1(2,3)] Cons.prems False obtain m' where
      "feed_all m1 (frame_chunks op fin frame_len (off + length d) ds @ es) = yields fin op0 ((pre @ d) @ concat ds) (feed_all m' es)"
      "frame_end fin op0 ((pre @ d) @ concat ds) m'" by auto
    then show ?thesis using feed m1(1) by (intro exI [of _ m']) simp
  qed
qed simp

lemma start_first:
  assumes "idle m" "op \<in> {1, 2}" "n \<le> 4096"
  shows "\<exists>m1. frame_start op n m = Some m1 \<and> buffer_holds m1 op [] \<and> in_frame_at m1 0 n"
  using assms by (intro exI [of _ "m\<lparr>ms_used := 0, ms_opcode := op, ms_open := True, ms_frame_used := 0, ms_frame_size := n, ms_in_frame := True\<rparr>"])
    (auto simp: frame_start_def idle_def buffer_holds_def in_frame_at_def message_ok_def POGVOICE_MESSAGE_MAX_def Let_def)

lemma start_more:
  assumes "buffer_holds m op0 pre" "\<not> ms_in_frame m" "length pre + n \<le> 4096"
  shows "\<exists>m1. frame_start 0 n m = Some m1 \<and> buffer_holds m1 op0 pre \<and> in_frame_at m1 0 n"
  using assms by (intro exI [of _ "m\<lparr>ms_frame_used := 0, ms_frame_size := n, ms_in_frame := True\<rparr>"])
    (auto simp: frame_start_def buffer_holds_def in_frame_at_def message_ok_def POGVOICE_MESSAGE_MAX_def Let_def)

lemma frame_delivered:
  assumes "frame_cut ds" "length pre + length (concat ds) \<le> 4096"
    "op = 0 \<and> buffer_holds m op0 pre \<and> \<not> ms_in_frame m \<or> op \<in> {1, 2} \<and> idle m \<and> op0 = op \<and> pre = []"
  shows "\<exists>m'. feed_all m (frame_chunks op fin (length (concat ds)) 0 ds @ es) = yields fin op0 (pre @ concat ds) (feed_all m' es)
    \<and> frame_end fin op0 (pre @ concat ds) m'"
proof -
  let ?t = "length (concat ds)"
  obtain d ds' where ds: "ds = d # ds'" using assms(1) by (cases ds) (auto simp: frame_cut_def)
  have op: "op < 8" "op = 0 \<or> op = 1 \<or> op = 2" using assms(3) by auto
  obtain m1 where m1: "frame_start op ?t m = Some m1" "buffer_holds m1 op0 pre" "in_frame_at m1 0 ?t"
    using assms(2,3) start_first [of m op ?t] start_more [of m op0 pre ?t] by auto
  have "\<not> op \<ge> 8" using op(1) by (simp only: not_le)
  then have feed: "pogvoice_message_feed m op fin 0 ?t d = feed_rest m1 fin 0 ?t d"
    using m1(1) ds by (simp add: pogvoice_message_feed_def)
  show ?thesis
  proof (cases "ds' = []")
    case True
    then obtain m' where m': "feed_rest m1 fin 0 ?t d = Done (if fin then 1 else 0, m')" "frame_end fin op0 (pre @ d) m'"
      "fin \<longrightarrow> ms_opcode m' = op0 \<and> take (ms_used m') (ms_bytes m') = pre @ d"
      using feed_rest_end [OF m1(2,3), of d fin] ds assms(2) by auto
    with True feed ds show ?thesis by (intro exI [of _ m']) (simp add: yields_def)
  next
    case False
    with assms(1) ds have "[] \<notin> set ds" by (auto simp: frame_cut_def)
    with ds have ne: "d \<noteq> []" "[] \<notin> set ds'" by auto
    then have pos: "0 < length (concat ds')" using False by (cases ds') auto
    have sum: "?t = length d + length (concat ds')" using ds by simp
    have "0 + length d < ?t" "length pre + length d \<le> 4096" using assms(2) pos unfolding sum by linarith+
    from feed_rest_mid [OF m1(2,3) this] obtain m2 where
      m2: "feed_rest m1 fin 0 ?t d = Done (0, m2)" "buffer_holds m2 op0 (pre @ d)" "in_frame_at m2 (length d) ?t" by auto
    from frame_tail [OF m2(2,3) _ _ False ne(2) _ op(1), of fin es] ds ne(1) assms(2) obtain m' where
      "feed_all m2 (frame_chunks op fin ?t (length d) ds' @ es) = yields fin op0 ((pre @ d) @ concat ds') (feed_all m' es)"
      "frame_end fin op0 ((pre @ d) @ concat ds') m'" by auto
    then show ?thesis using feed m2(1) ds by (intro exI [of _ m']) simp
  qed
qed

lemma message_delivered:
  assumes "fs \<noteq> []" "\<forall>ds \<in> set fs. frame_cut ds" "length pre + length (concat (map concat fs)) \<le> 4096"
    "op = 0 \<and> buffer_holds m op0 pre \<and> \<not> ms_in_frame m \<or> op \<in> {1, 2} \<and> idle m \<and> op0 = op \<and> pre = []"
  shows "\<exists>m'. feed_all m (message_chunks op fs @ es) = yields True op0 (pre @ concat (map concat fs)) (feed_all m' es) \<and> idle m'"
  using assms
proof (induction fs arbitrary: m op pre)
  case (Cons ds fs)
  from frame_delivered [OF _ _ Cons.prems(4), of ds "fs = []" "message_chunks 0 fs @ es"] Cons.prems obtain m1 where
    m1: "feed_all m (frame_chunks op (fs = []) (length (concat ds)) 0 ds @ message_chunks 0 fs @ es)
        = yields (fs = []) op0 (pre @ concat ds) (feed_all m1 (message_chunks 0 fs @ es))" "frame_end (fs = []) op0 (pre @ concat ds) m1"
    by auto
  show ?case
  proof (cases "fs = []")
    case True
    with m1 show ?thesis by (intro exI [of _ m1]) (simp add: frame_end_def)
  next
    case False
    with m1(2) have "buffer_holds m1 op0 (pre @ concat ds)" "\<not> ms_in_frame m1" by (simp_all add: frame_end_def)
    with Cons.IH [of "pre @ concat ds" 0 m1] Cons.prems False obtain m' where
      "feed_all m1 (message_chunks 0 fs @ es) = yields True op0 ((pre @ concat ds) @ concat (map concat fs)) (feed_all m' es)" "idle m'"
      by auto
    with m1(1) False show ?thesis by (intro exI [of _ m']) (simp add: yields_def)
  qed
qed simp

lemma control_ignored: "feed_all m es = feed_all m (filter (\<lambda>e. fst e < 8) es)"
proof (induction es arbitrary: m)
  case (Cons e es)
  obtain op fin off frame_len data where e: "e = (op, fin, off, frame_len, data)" by (metis prod_cases5)
  show ?case
  proof (cases "op < 8")
    case True
    then show ?thesis unfolding e
      by (cases "pogvoice_message_feed m op fin off frame_len data") (auto simp: Cons.IH [symmetric] split: prod.splits if_splits)
  next
    case False
    then have "feed_all m (e # es) = feed_all m es" using e by (simp add: pogvoice_message_feed_def not_less)
    with Cons False e show ?thesis by simp
  qed
qed simp

text \<open>C30. Whatever chunks arrive, nothing is written outside of the buffer; and messages of up to 4096 bytes are delivered whole,
  once and in order, however the sender cuts them into frames and the client library the frames into
  chunks, with control frames anywhere in between.\<close>

theorem messages_delivered:
  assumes "\<forall>(op, fs) \<in> set msgs. op \<in> {1, 2} \<and> fs \<noteq> [] \<and> (\<forall>ds \<in> set fs. frame_cut ds) \<and> length (concat (map concat fs)) \<le> 4096"
    "filter (\<lambda>e. fst e < 8) es = concat (map (\<lambda>(op, fs). message_chunks op fs) msgs)"
  shows "feed_all no_message es = Done (map (\<lambda>(op, fs). (op, concat (map concat fs))) msgs, True) \<and> feed_all no_message junk \<noteq> Fault"
proof -
  have "feed_all m (concat (map (\<lambda>(op, fs). message_chunks op fs) msgs)) = Done (map (\<lambda>(op, fs). (op, concat (map concat fs))) msgs, True)"
    if "idle m" for m
    using assms(1) that
  proof (induction msgs arbitrary: m)
    case (Cons msg msgs)
    obtain op fs where msg: "msg = (op, fs)" by (metis prod.collapse)
    from message_delivered [of fs "[]" op m op "concat (map (\<lambda>(op, fs). message_chunks op fs) msgs)"] Cons.prems msg obtain m' where
      m': "feed_all m (message_chunks op fs @ concat (map (\<lambda>(op, fs). message_chunks op fs) msgs))
        = yields True op (concat (map concat fs)) (feed_all m' (concat (map (\<lambda>(op, fs). message_chunks op fs) msgs)))" "idle m'" by auto
    from Cons.IH [OF _ m'(2)] Cons.prems m'(1) msg show ?case by (simp add: yields_def)
  qed simp
  moreover have "idle no_message" by (simp add: idle_def no_message_def message_ok_def POGVOICE_MESSAGE_MAX_def)
  ultimately show ?thesis using assms(2) control_ignored [of no_message es] feed_all_safe [of no_message junk] by (simp add: idle_def)
qed

lemma messages_delivered_witness:
  "feed_all no_message [(1, False, 0, 3, [7]), (9, True, 0, 0, []), (1, False, 1, 3, [8, 9]), (0, True, 0, 1, [5]), (2, True, 0, 0, [])]
     = Done ([(1, [7, 8, 9, 5]), (2, [])], True)"
  using messages_delivered [of "[(1, [[[7], [8, 9]], [[5]]]), (2, [[[]]])]"
    "[(1, False, 0, 3, [7]), (9, True, 0, 0, []), (1, False, 1, 3, [8, 9]), (0, True, 0, 1, [5]), (2, True, 0, 0, [])]"]
  by (simp add: frame_cut_def)

end
