(* ===== verification/Ieee_Float.thy ===== *)
theory Ieee_Float
  imports Complex_Main Prelude
begin

text \<open>
  The C type \<open>float\<close>: IEEE 754 binary32 with rounding to nearest, ties to even. A finite
  value is the rational number it denotes, so comparisons are exact and an operation is the exact
  one followed by \<open>fl\<close>, the rounding. The two zeros are one value (the code never divides by
  a zero or prints one), subnormal numbers and overflow to infinity are represented.
\<close>

section \<open>Rounding\<close>

definition pow2 :: "int \<Rightarrow> rat" where
  "pow2 e = (if 0 \<le> e then 2 ^ nat e else 1 / 2 ^ nat (- e))"

function nbits :: "int \<Rightarrow> nat" where
  "nbits n = (if n \<le> 0 then 0 else Suc (nbits (n div 2)))"
  by pat_completeness auto

termination nbits
  by (relation "measure nat") auto

declare nbits.simps [simp del]

text \<open>The exponent of a positive number: the \<open>e\<close> with \<open>2\<^sup>e \<le> r < 2\<^sup>e\<^sup>+\<^sup>1\<close>.\<close>

definition ilog2 :: "rat \<Rightarrow> int" where
  "ilog2 r =
     (let (a, b) = quotient_of r; e = int (nbits a) - int (nbits b) in
      if pow2 e \<le> r then e else e - 1)"

definition rne :: "rat \<Rightarrow> int" where
  "rne x =
     (let f = \<lfloor>x\<rfloor>; d = x - of_int f in
      if d < 1 / 2 then f else if 1 / 2 < d then f + 1 else if even f then f else f + 1)"

definition quantum :: "rat \<Rightarrow> rat" where
  "quantum r = pow2 (max (ilog2 \<bar>r\<bar>) (- 126) - 23)"

definition rnd :: "rat \<Rightarrow> rat" where
  "rnd r = (if r = 0 then 0 else of_int (rne (r / quantum r)) * quantum r)"

datatype f32 = NaN | Inf bool | Fin rat

definition fl :: "rat \<Rightarrow> f32" where
  "fl r = (if pow2 128 \<le> \<bar>rnd r\<bar> then Inf (r < 0) else Fin (rnd r))"

section \<open>Operations\<close>

definition f_neg :: "f32 \<Rightarrow> f32" where
  "f_neg a = (case a of NaN \<Rightarrow> NaN | Inf s \<Rightarrow> Inf (\<not> s) | Fin x \<Rightarrow> Fin (- x))"

definition f_add :: "f32 \<Rightarrow> f32 \<Rightarrow> f32" where
  "f_add a b = (case (a, b) of
     (Fin x, Fin y) \<Rightarrow> fl (x + y)
   | (NaN, _) \<Rightarrow> NaN | (_, NaN) \<Rightarrow> NaN
   | (Inf s, Inf t) \<Rightarrow> if s = t then Inf s else NaN
   | (Inf s, _) \<Rightarrow> Inf s | (_, Inf t) \<Rightarrow> Inf t)"

definition f_sub :: "f32 \<Rightarrow> f32 \<Rightarrow> f32" where
  "f_sub a b = f_add a (f_neg b)"

definition f_mul :: "f32 \<Rightarrow> f32 \<Rightarrow> f32" where
  "f_mul a b = (case (a, b) of
     (Fin x, Fin y) \<Rightarrow> fl (x * y)
   | (NaN, _) \<Rightarrow> NaN | (_, NaN) \<Rightarrow> NaN
   | (Inf s, Inf t) \<Rightarrow> Inf (s \<noteq> t)
   | (Inf s, Fin y) \<Rightarrow> if y = 0 then NaN else Inf (s \<noteq> (y < 0))
   | (Fin x, Inf t) \<Rightarrow> if x = 0 then NaN else Inf (t \<noteq> (x < 0)))"

text \<open>Division by zero gives an infinity whose sign follows the dividend (the divisor's zero is taken as positive).\<close>

definition f_div :: "f32 \<Rightarrow> f32 \<Rightarrow> f32" where
  "f_div a b = (case (a, b) of
     (Fin x, Fin y) \<Rightarrow> if y = 0 then (if x = 0 then NaN else Inf (x < 0)) else fl (x / y)
   | (NaN, _) \<Rightarrow> NaN | (_, NaN) \<Rightarrow> NaN
   | (Inf _, Inf _) \<Rightarrow> NaN
   | (Inf s, Fin y) \<Rightarrow> Inf (s \<noteq> (y < 0))
   | (Fin _, Inf _) \<Rightarrow> Fin 0)"

definition f_abs :: "f32 \<Rightarrow> f32" where
  "f_abs a = (case a of NaN \<Rightarrow> NaN | Inf _ \<Rightarrow> Inf False | Fin x \<Rightarrow> Fin \<bar>x\<bar>)"

definition f_less :: "f32 \<Rightarrow> f32 \<Rightarrow> bool" where
  "f_less a b = (case (a, b) of
     (Fin x, Fin y) \<Rightarrow> x < y
   | (NaN, _) \<Rightarrow> False | (_, NaN) \<Rightarrow> False
   | (Inf s, Inf t) \<Rightarrow> s \<and> \<not> t
   | (Inf s, Fin _) \<Rightarrow> s | (Fin _, Inf t) \<Rightarrow> \<not> t)"

definition f_eq :: "f32 \<Rightarrow> f32 \<Rightarrow> bool" where
  "f_eq a b \<longleftrightarrow> a \<noteq> NaN \<and> a = b"

definition f_le :: "f32 \<Rightarrow> f32 \<Rightarrow> bool" where
  "f_le a b \<longleftrightarrow> f_less a b \<or> f_eq a b"

definition isfinite :: "f32 \<Rightarrow> bool" where
  "isfinite a = (case a of Fin _ \<Rightarrow> True | _ \<Rightarrow> False)"

definition f_of_int :: "int \<Rightarrow> f32" where
  "f_of_int i = fl (of_int i)"

text \<open>
  The conversion to an integer truncates towards zero; a value that does not fit, which is undefined in C,
  saturates as the conversion instruction of the processor does.
\<close>

definition rat_trunc :: "rat \<Rightarrow> int" where
  "rat_trunc x = (if 0 \<le> x then \<lfloor>x\<rfloor> else - \<lfloor>- x\<rfloor>)"

definition f_to_i32 :: "f32 \<Rightarrow> int" where
  "f_to_i32 a = (case a of NaN \<Rightarrow> 2 ^ 31 - 1 | Inf s \<Rightarrow> if s then - (2 ^ 31) else 2 ^ 31 - 1
     | Fin x \<Rightarrow> max (- (2 ^ 31)) (min (2 ^ 31 - 1) (rat_trunc x)))"

section \<open>Laws of rounding\<close>

lemma pow2_pos [simp]: "0 < pow2 e"
  by (simp add: pow2_def)

lemma pow2_nonzero [simp]: "pow2 e \<noteq> 0" "pow2 e \<ge> 0"
  by (simp_all add: pow2_def)

lemma pow2_powi: "pow2 e = 2 powi e"
  by (simp add: pow2_def power_int_def inverse_eq_divide power_one_over)

lemma pow2_add: "pow2 (a + b) = pow2 a * pow2 b"
  by (simp add: pow2_powi power_int_add)

lemma pow2_mono: "a \<le> b \<Longrightarrow> pow2 a \<le> pow2 b"
  by (simp add: pow2_powi power_int_increasing)

lemma pow2_less: "a < b \<Longrightarrow> pow2 a < pow2 b"
  by (simp add: pow2_powi power_int_strict_increasing)

lemma pow2_numeral [simp]: "pow2 (numeral k) = 2 ^ numeral k" "pow2 (- numeral k) = 1 / 2 ^ numeral k" "pow2 0 = 1" "pow2 1 = 2"
  by (simp_all add: pow2_def)

lemma nbits_bounds: "0 < n \<Longrightarrow> 2 ^ (nbits n - 1) \<le> n \<and> n < 2 ^ nbits n \<and> 0 < nbits n"
proof (induction n rule: nbits.induct)
  case (1 n)
  show ?case
  proof (cases "n div 2 \<le> 0")
    case True
    with 1 have "n = 1" by auto
    then show ?thesis by (simp add: nbits.simps)
  next
    case False
    define m where "m = nbits (n div 2)"
    from False 1 have ih: "2 ^ (m - 1) \<le> n div 2" "n div 2 < 2 ^ m" "0 < m" by (auto simp: m_def)
    have "(2::int) ^ m = 2 * 2 ^ (m - 1)" using ih(3) by (metis Suc_diff_1 power_Suc)
    with ih have "2 ^ m \<le> n" "n < 2 * 2 ^ m" by linarith+
    then show ?thesis using 1 nbits.simps [of n] by (simp add: m_def)
  qed
qed

lemma nbits_pow2: "0 < n \<Longrightarrow> pow2 (int (nbits n) - 1) \<le> of_int n \<and> of_int n < pow2 (int (nbits n))"
proof -
  assume "0 < n"
  from nbits_bounds [OF this] have b: "2 ^ (nbits n - 1) \<le> n" "n < 2 ^ nbits n" "0 < nbits n" by auto
  have "pow2 (int (nbits n) - 1) = of_int (2 ^ (nbits n - 1))" using b(3) by (simp add: pow2_def nat_diff_distrib)
  moreover have "pow2 (int (nbits n)) = of_int (2 ^ nbits n)" by (simp add: pow2_def)
  ultimately show ?thesis using b by (simp only: of_int_le_iff of_int_less_iff)
qed

lemma ilog2_bounds:
  assumes "0 < r"
  shows "pow2 (ilog2 r) \<le> r \<and> r < pow2 (ilog2 r + 1)"
proof -
  obtain a b where q: "quotient_of r = (a, b)" by (cases "quotient_of r")
  from quotient_of_denom_pos [OF q] have b: "0 < b" .
  from quotient_of_div [OF q] have r: "r = of_int a / of_int b" .
  with assms b have a: "0 < a" by (simp add: zero_less_divide_iff)
  define m n where "m = nbits a" and "n = nbits b"
  have a1: "pow2 (int m - 1) \<le> of_int a" and a2: "of_int a < pow2 (int m)" using nbits_pow2 [OF a] by (auto simp: m_def)
  have b1: "pow2 (int n - 1) \<le> of_int b" and b2: "of_int b < pow2 (int n)" using nbits_pow2 [OF b] by (auto simp: n_def)
  define e where "e = int m - int n"
  have low: "pow2 (e - 1) \<le> r"
  proof -
    have "pow2 (e - 1) * of_int b \<le> pow2 (e - 1) * pow2 (int n)" using b2 by simp
    also have "\<dots> = pow2 (int m - 1)" by (simp add: pow2_add [symmetric] e_def)
    finally show ?thesis using a1 b by (simp add: r pos_le_divide_eq)
  qed
  have high: "r < pow2 (e + 1)"
  proof -
    have "pow2 (int m) = pow2 (e + 1) * pow2 (int n - 1)" by (simp add: pow2_add [symmetric] e_def)
    also have "\<dots> \<le> pow2 (e + 1) * of_int b" using b1 by simp
    finally show ?thesis using a2 b by (simp add: r pos_divide_less_eq)
  qed
  have "ilog2 r = (if pow2 e \<le> r then e else e - 1)"
    by (simp add: ilog2_def q e_def m_def n_def)
  then show ?thesis using low high by auto
qed

lemma ilog2_mono: "0 < r \<Longrightarrow> r \<le> s \<Longrightarrow> ilog2 r \<le> ilog2 s"
proof (rule ccontr)
  assume a: "0 < r" "r \<le> s" "\<not> ilog2 r \<le> ilog2 s"
  then have "pow2 (ilog2 s + 1) \<le> pow2 (ilog2 r)" by (intro pow2_mono) simp
  with a ilog2_bounds [of r] ilog2_bounds [of s] show False by linarith
qed

lemma rne_error: "\<bar>of_int (rne x) - x\<bar> \<le> 1 / 2"
proof -
  have "of_int \<lfloor>x\<rfloor> \<le> x" "x < of_int \<lfloor>x\<rfloor> + 1" by linarith+
  then show ?thesis by (auto simp: rne_def Let_def)
qed

lemma rne_int [simp]: "rne (of_int i) = i"
  by (simp add: rne_def)

lemma rne_numeral [simp]: "rne (numeral k) = numeral k" "rne 0 = 0" "rne 1 = 1"
  using rne_int [of "numeral k"] rne_int [of 0] rne_int [of 1] by simp_all

lemma rne_mono: "x \<le> y \<Longrightarrow> rne x \<le> rne y"
proof -
  assume le: "x \<le> y"
  then have f: "\<lfloor>x\<rfloor> \<le> \<lfloor>y\<rfloor>" by (rule floor_mono)
  have r: "\<lfloor>z\<rfloor> \<le> rne z" "rne z \<le> \<lfloor>z\<rfloor> + 1" for z by (auto simp: rne_def Let_def)
  show ?thesis
  proof (cases "\<lfloor>x\<rfloor> = \<lfloor>y\<rfloor>")
    case True
    with le show ?thesis by (auto simp: rne_def Let_def)
  next
    case False
    with f r(2) [of x] r(1) [of y] show ?thesis by linarith
  qed
qed

lemma rne_minus: "rne (- x) = - rne x"
proof (cases "x = of_int \<lfloor>x\<rfloor>")
  case True
  then show ?thesis by (metis of_int_minus rne_int)
next
  case False
  then have "\<lfloor>- x\<rfloor> = - \<lfloor>x\<rfloor> - 1" by linarith
  then show ?thesis by (auto simp: rne_def Let_def)
qed

lemma quantum_pos [simp]: "0 < quantum r"
  by (simp add: quantum_def)

lemma quantum_nonneg [simp]: "quantum r \<ge> 0" "quantum r \<noteq> 0"
  by (simp_all add: quantum_def)

lemma quantum_minus [simp]: "quantum (- r) = quantum r"
  by (simp add: quantum_def)

lemma rnd_zero [simp]: "rnd 0 = 0"
  by (simp add: rnd_def)

lemma rnd_minus: "rnd (- r) = - rnd r"
  by (simp add: rnd_def rne_minus)

lemma rnd_error: "\<bar>rnd r - r\<bar> \<le> quantum r / 2"
proof (cases "r = 0")
  case False
  have "\<bar>of_int (rne (r / quantum r)) - r / quantum r\<bar> * quantum r \<le> 1 / 2 * quantum r"
    by (intro mult_right_mono rne_error) (simp add: less_imp_le)
  moreover have "\<bar>of_int (rne (r / quantum r)) - r / quantum r\<bar> * quantum r
      = \<bar>(of_int (rne (r / quantum r)) - r / quantum r) * quantum r\<bar>"
    by (simp add: abs_mult)
  moreover have "(of_int (rne (r / quantum r)) - r / quantum r) * quantum r = rnd r - r"
    using False by (simp add: rnd_def left_diff_distrib)
  ultimately show ?thesis by simp
qed (simp add: less_imp_le)

text \<open>A normal number is rounded with a relative error of at most \<open>2\<^sup>-\<^sup>2\<^sup>4\<close>.\<close>

lemma rnd_relative:
  assumes "1 / 2 ^ 126 \<le> \<bar>r\<bar>"
  shows "\<bar>rnd r - r\<bar> \<le> \<bar>r\<bar> / 2 ^ 24"
proof -
  have r: "0 < \<bar>r\<bar>" using assms by (auto intro: less_le_trans [of 0 "1 / 2 ^ 126"])
  have "- 126 \<le> ilog2 \<bar>r\<bar>"
  proof (rule ccontr)
    assume "\<not> ?thesis"
    then have "pow2 (ilog2 \<bar>r\<bar> + 1) \<le> pow2 (- 126)" by (intro pow2_mono) simp
    with ilog2_bounds [OF r] assms show False by simp
  qed
  then have "quantum r = pow2 (ilog2 \<bar>r\<bar>) * pow2 (- 23)"
    by (simp add: quantum_def max_def pow2_add [symmetric] del: pow2_numeral)
  also have "\<dots> \<le> \<bar>r\<bar> * pow2 (- 23)" using ilog2_bounds [OF r] by (intro mult_right_mono) (auto simp: less_imp_le)
  finally show ?thesis using rnd_error [of r] by simp
qed

text \<open>A number with a significand of at most 24 bits is represented exactly.\<close>

lemma rnd_exact:
  assumes "\<bar>m\<bar> < 2 ^ 24" "- 149 \<le> e"
  shows "rnd (of_int m * pow2 e) = of_int m * pow2 e"
proof (cases "m = 0")
  case False
  define r where "r = of_int m * pow2 e"
  define k where "k = max (ilog2 \<bar>r\<bar>) (- 126) - 23"
  have r: "0 < \<bar>r\<bar>" using False by (simp add: r_def)
  have "\<bar>r\<bar> = of_int \<bar>m\<bar> * pow2 e" by (simp add: r_def abs_mult)
  also have "\<dots> < pow2 24 * pow2 e"
    using assms(1) by (intro mult_strict_right_mono) (metis of_int_less_iff of_int_numeral of_int_power pow2_numeral(1), simp)
  finally have "\<bar>r\<bar> < pow2 (24 + e)" by (simp only: pow2_add)
  with ilog2_bounds [OF r] have "pow2 (ilog2 \<bar>r\<bar>) < pow2 (24 + e)" by linarith
  then have "ilog2 \<bar>r\<bar> < 24 + e" using pow2_mono [of "24 + e" "ilog2 \<bar>r\<bar>"] by linarith
  with assms(2) have k: "k \<le> e" by (simp add: k_def)
  have q: "quantum r = pow2 k" by (simp add: quantum_def k_def)
  have "pow2 e = pow2 (e - k) * pow2 k" by (simp add: pow2_add [symmetric])
  then have "r / pow2 k = of_int m * pow2 (e - k)" by (simp add: r_def)
  also have "\<dots> = of_int (m * 2 ^ nat (e - k))" using k by (simp add: pow2_def)
  finally have "r / quantum r = of_int (m * 2 ^ nat (e - k))" by (simp add: q)
  then have "rnd r = r / quantum r * quantum r" using r by (simp add: rnd_def del: of_int_mult)
  also have "\<dots> = r" using quantum_pos [of r] by simp
  finally show ?thesis by (simp add: r_def)
qed simp

lemma rnd_int: "\<bar>m\<bar> < 2 ^ 24 \<Longrightarrow> rnd (of_int m) = of_int m"
  using rnd_exact [of m 0] by simp

lemma rnd_mono_pos:
  assumes "0 < x" "x \<le> y"
  shows "rnd x \<le> rnd y"
proof -
  define k l where "k = max (ilog2 x) (- 126) - 23" and "l = max (ilog2 y) (- 126) - 23"
  have y: "0 < y" using assms by linarith
  have q: "quantum x = pow2 k" "quantum y = pow2 l" using assms y by (simp_all add: quantum_def k_def l_def)
  have kl: "k \<le> l" using ilog2_mono [OF assms] by (simp add: k_def l_def)
  show ?thesis
  proof (cases "k = l")
    case True
    then have "rne (x / pow2 k) \<le> rne (y / pow2 k)" using assms by (intro rne_mono divide_right_mono) (auto simp: less_imp_le)
    then show ?thesis using True assms y by (simp add: rnd_def q mult_right_mono less_imp_le)
  next
    case False
    with kl have lt: "k < l" by simp
    have "x < pow2 (ilog2 x + 1)" using ilog2_bounds assms by blast
    also have "\<dots> \<le> pow2 (24 + k)" by (intro pow2_mono) (simp add: k_def)
    finally have "x / pow2 k \<le> of_int (2 ^ 24)" by (simp add: pow2_add pos_divide_le_eq less_imp_le)
    then have "rne (x / pow2 k) \<le> 2 ^ 24" using rne_mono [of "x / pow2 k" "of_int (2 ^ 24)"] by (simp del: of_int_power)
    then have "(of_int (rne (x / pow2 k)) :: rat) \<le> of_int (2 ^ 24)" by (simp only: of_int_le_iff)
    then have 1: "rnd x \<le> pow2 (24 + k)" using assms by (simp add: rnd_def q pow2_add mult_right_mono less_imp_le)
    from lt have l: "ilog2 y = l + 23" by (auto simp: k_def l_def)
    have "pow2 (23 + l) \<le> y" using ilog2_bounds [OF y] by (simp add: l add.commute)
    then have "of_int (2 ^ 23) \<le> y / pow2 l" by (simp add: pow2_add pos_le_divide_eq)
    then have "2 ^ 23 \<le> rne (y / pow2 l)" using rne_mono [of "of_int (2 ^ 23)" "y / pow2 l"] by (simp del: of_int_power)
    then have "of_int (2 ^ 23) \<le> (of_int (rne (y / pow2 l)) :: rat)" by (simp only: of_int_le_iff)
    then have 2: "pow2 (23 + l) \<le> rnd y" using y by (simp add: rnd_def q pow2_add mult_right_mono less_imp_le)
    have "pow2 (24 + k) \<le> pow2 (23 + l)" using lt by (intro pow2_mono) simp
    with 1 2 show ?thesis by linarith
  qed
qed

lemma rnd_nonneg: "0 \<le> x \<Longrightarrow> 0 \<le> rnd x"
  using rne_mono [of 0 "x / quantum x"] rne_int [of 0] by (simp add: rnd_def less_imp_le)

theorem rnd_mono: "x \<le> y \<Longrightarrow> rnd x \<le> rnd y"
proof -
  assume le: "x \<le> y"
  consider "0 < x" | "x \<le> 0" "0 \<le> y" | "y < 0" by linarith
  then show ?thesis
  proof cases
    case 1
    with le show ?thesis by (simp add: rnd_mono_pos)
  next
    case 2
    then have "0 \<le> rnd (- x)" "0 \<le> rnd y" by (simp_all add: rnd_nonneg)
    then show ?thesis by (simp add: rnd_minus)
  next
    case 3
    with le have "rnd (- y) \<le> rnd (- x)" by (intro rnd_mono_pos) simp_all
    then show ?thesis by (simp add: rnd_minus)
  qed
qed

lemma fl_small: "\<bar>r\<bar> \<le> 2 ^ 100 \<Longrightarrow> fl r = Fin (rnd r)"
proof -
  assume a: "\<bar>r\<bar> \<le> 2 ^ 100"
  have e: "rnd (2 ^ 100) = 2 ^ 100" using rnd_exact [of 1 100] by simp
  have "rnd r \<le> 2 ^ 100" "rnd (- r) \<le> 2 ^ 100"
    using rnd_mono [of r "2 ^ 100"] rnd_mono [of "- r" "2 ^ 100"] a unfolding e by linarith+
  then have "\<bar>rnd r\<bar> \<le> 2 ^ 100" by (simp add: rnd_minus)
  also have "(2::rat) ^ 100 < 2 ^ 128" by simp
  finally show ?thesis by (simp add: fl_def)
qed

lemma f_of_int_small: "\<bar>i\<bar> < 2 ^ 24 \<Longrightarrow> f_of_int i = Fin (of_int i)"
proof -
  assume i: "\<bar>i\<bar> < 2 ^ 24"
  then have "(of_int \<bar>i\<bar> :: rat) < of_int (2 ^ 24)" by (simp only: of_int_less_iff)
  then have "\<bar>of_int i :: rat\<bar> \<le> 2 ^ 100" by simp
  with i show ?thesis by (simp add: f_of_int_def fl_small rnd_int)
qed

section \<open>More on rounding\<close>

lemma rnd_idem: "rnd (rnd r) = rnd r"
proof (cases "r = 0")
  case False
  let ?e = "max (ilog2 \<bar>r\<bar>) (- 126) - 23" and ?m = "rne (r / quantum r)"
  have q: "quantum r = pow2 ?e" by (simp add: quantum_def)
  have "\<bar>r\<bar> < pow2 (ilog2 \<bar>r\<bar> + 1)" using ilog2_bounds [of "\<bar>r\<bar>"] False by simp
  also have "\<dots> \<le> pow2 (24 + ?e)" by (intro pow2_mono) simp
  also have "\<dots> = of_int (2 ^ 24) * quantum r" unfolding pow2_add q by simp
  finally have "\<bar>r\<bar> / quantum r \<le> of_int (2 ^ 24)" by (simp add: divide_le_eq)
  then have "r / quantum r \<le> of_int (2 ^ 24)" "of_int (- (2 ^ 24)) \<le> r / quantum r"
    by (simp_all add: abs_le_iff divide_le_eq le_divide_eq)
  then have m: "?m \<le> 2 ^ 24" "- (2 ^ 24) \<le> ?m" using rne_mono rne_int by metis+
  have v: "rnd r = of_int ?m * pow2 ?e" using False by (simp add: rnd_def q)
  show ?thesis
  proof (cases "\<bar>?m\<bar> < 2 ^ 24")
    case True
    then show ?thesis unfolding v by (intro rnd_exact) simp_all
  next
    case False
    with m have "?m = 2 ^ 24 \<or> ?m = - (2 ^ 24)" by linarith
    then have "rnd r = of_int 1 * pow2 (24 + ?e) \<or> rnd r = of_int (- 1) * pow2 (24 + ?e)" unfolding v pow2_add by auto
    moreover have "rnd (of_int 1 * pow2 (24 + ?e)) = of_int 1 * pow2 (24 + ?e)" "rnd (of_int (- 1) * pow2 (24 + ?e)) = of_int (- 1) * pow2 (24 + ?e)"
      by (intro rnd_exact; simp)+
    ultimately show ?thesis by metis
  qed
qed simp

lemma rnd_le: "x \<le> y \<Longrightarrow> rnd y = y \<Longrightarrow> rnd x \<le> y"
  using rnd_mono by metis

lemma rnd_ge: "x \<le> y \<Longrightarrow> rnd x = x \<Longrightarrow> x \<le> rnd y"
  using rnd_mono by metis

lemma rnd_abs: "\<bar>rnd x\<bar> = rnd \<bar>x\<bar>"
  using rnd_nonneg [of x] rnd_nonneg [of "- x"] rnd_minus [of x] by (cases "0 \<le> x") auto

lemma rnd_one [simp]: "rnd 1 = 1"
  using rnd_int [of 1] by simp

lemma fl_Fin: "\<bar>r\<bar> \<le> 65536 \<Longrightarrow> fl r = Fin (rnd r)"
  by (rule fl_small) simp

end
