(* ===== verification/Settings.thy ===== *)
theory Settings
  imports Nvs Ieee_Float
begin

text \<open>
  The persistent settings (\<open>main/settings.c\<close>). The record \<open>settings\<close> holds the file's cached variables and the
  flash content; \<open>dac_volume\<close> is the list of volumes handed to \<open>dac_set_volume\<close>. A getter with several output
  pointers returns them as a tuple (all of them given), a string output is the string without its NUL. The setters
  of one namespace share \<open>nvs_save\<close>. The equaliser gains, an array of 15 floats, are kept as the bytes of that array.
\<close>

section \<open>State\<close>

record 'n settings =
  st_nvs :: 'n
  g_volume_db :: f32
  g_volume_loaded :: bool
  g_max_gain :: int
  g_bt_volume :: int
  g_bt_volume_loaded :: bool
  g_eq_gains :: bytes
  g_eq_loaded :: bool
  g_has_device_pw :: bool
  dac_volume :: "f32 list"

abbreviation NVS_NAMESPACE :: string where "NVS_NAMESPACE \<equiv> ''airplay''"

definition SETTINGS_EQ_BANDS :: nat where "SETTINGS_EQ_BANDS = 15"
definition MAX_WIFI_SSID_LEN :: nat where "MAX_WIFI_SSID_LEN = 32"
definition MAX_WIFI_PASSWORD_LEN :: nat where "MAX_WIFI_PASSWORD_LEN = 64"
definition MAX_DEVICE_NAME_LEN :: nat where "MAX_DEVICE_NAME_LEN = 64"
definition MAX_MQTT_HOST_LEN :: nat where "MAX_MQTT_HOST_LEN = 128"
definition MAX_MQTT_USER_LEN :: nat where "MAX_MQTT_USER_LEN = 64"
definition MAX_MQTT_PASS_LEN :: nat where "MAX_MQTT_PASS_LEN = 64"
definition DEVICE_PW_DIGEST_LEN :: nat where "DEVICE_PW_DIGEST_LEN = 32"
definition MIN_DEVICE_PW_LEN :: nat where "MIN_DEVICE_PW_LEN = 4"

lemmas settings_limits = SETTINGS_EQ_BANDS_def MAX_WIFI_SSID_LEN_def MAX_WIFI_PASSWORD_LEN_def MAX_DEVICE_NAME_LEN_def
  MAX_MQTT_HOST_LEN_def MAX_MQTT_USER_LEN_def MAX_MQTT_PASS_LEN_def DEVICE_PW_DIGEST_LEN_def MIN_DEVICE_PW_LEN_def

text \<open>The statically initialised variables after a reset, with the flash content \<open>n\<close>.\<close>

definition settings_boot :: "'n \<Rightarrow> 'n settings" where
  "settings_boot n = \<lparr>st_nvs = n, g_volume_db = f_of_int (- 15), g_volume_loaded = False, g_max_gain = 100,
     g_bt_volume = 64, g_bt_volume_loaded = False, g_eq_gains = replicate (4 * SETTINGS_EQ_BANDS) 0, g_eq_loaded = False,
     g_has_device_pw = False, dac_volume = []\<rparr>"

text \<open>Saving a group of keys through \<open>nvs_save\<close>.\<close>

definition save_keys :: "'n nvs_lib \<Rightarrow> (string \<times> nvs_value) list \<Rightarrow> 'n settings \<Rightarrow> esp_err \<times> 'n settings" where
  "save_keys L kvs s = (case nvs_save L NVS_NAMESPACE kvs (st_nvs s) of (err, n) \<Rightarrow> (err, s\<lparr>st_nvs := n\<rparr>))"

definition get_int_or :: "'n nvs_lib \<Rightarrow> 'n settings \<Rightarrow> nvs_type \<Rightarrow> string \<Rightarrow> int \<Rightarrow> int" where
  "get_int_or L s t k dflt = nvs_int_or L (st_nvs s) NVS_NAMESPACE t k dflt"

text \<open>Integer conversions of the source.\<close>

definition to_i8 :: "int \<Rightarrow> int" where "to_i8 i = signed_take_bit 7 i"
definition to_u8 :: "int \<Rightarrow> int" where "to_u8 i = take_bit 8 i"
definition to_u16 :: "int \<Rightarrow> int" where "to_u16 i = take_bit 16 i"
definition flag :: "bool \<Rightarrow> int" where "flag b = (if b then 1 else 0)"

section \<open>Initialisation and volume\<close>

definition settings_load :: "'n nvs_lib \<Rightarrow> 'n settings \<Rightarrow> 'n settings" where
  "settings_load L s =
     (let n = st_nvs s;
          s = (case nvs_get_int L n NVS_NAMESPACE NVS_I32 ''volume_db'' of
                 Inr v \<Rightarrow> s\<lparr>g_volume_db := f_div (f_of_int v) (f_of_int 100), g_volume_loaded := True\<rparr>
               | Inl _ \<Rightarrow> s);
          s = (case nvs_get_blob L n NVS_NAMESPACE ''eq_gains'' (4 * SETTINGS_EQ_BANDS) of
                 Inr b \<Rightarrow> (let s = s\<lparr>g_eq_gains := b @ drop (length b) (g_eq_gains s)\<rparr> in
                           if length b = 4 * SETTINGS_EQ_BANDS then s\<lparr>g_eq_loaded := True\<rparr> else s)
               | Inl _ \<Rightarrow> s);
          s = (case nvs_get_int L n NVS_NAMESPACE NVS_I32 ''max_gain'' of
                 Inr g \<Rightarrow> s\<lparr>g_max_gain := (if g < 0 then 0 else if g > 100 then 100 else g)\<rparr>
               | Inl _ \<Rightarrow> s) in
      (case nvs_blob_size L n NVS_NAMESPACE ''dev_pw'' of
         Inr size_pw \<Rightarrow> if size_pw = DEVICE_PW_DIGEST_LEN then s\<lparr>g_has_device_pw := True\<rparr> else s
       | Inl _ \<Rightarrow> s))"

definition settings_init :: "'n nvs_lib \<Rightarrow> 'n settings \<Rightarrow> esp_err \<times> 'n settings" where
  "settings_init L s = (ESP_OK, if nvs_open_ro L (st_nvs s) NVS_NAMESPACE = ESP_OK then settings_load L s else s)"

definition settings_get_volume :: "'n settings \<Rightarrow> esp_err + f32" where
  "settings_get_volume s = (if \<not> g_volume_loaded s then Inl ESP_ERR_NOT_FOUND else Inr (g_volume_db s))"

definition settings_set_volume :: "f32 \<Rightarrow> 'n settings \<Rightarrow> esp_err \<times> 'n settings" where
  "settings_set_volume v s =
     (if g_volume_loaded s \<and> f_eq v (g_volume_db s) then (ESP_OK, s)
      else (ESP_OK, s\<lparr>dac_volume := dac_volume s @ [v], g_volume_db := v, g_volume_loaded := True\<rparr>))"

definition settings_persist_volume :: "'n nvs_lib \<Rightarrow> 'n settings \<Rightarrow> esp_err \<times> 'n settings" where
  "settings_persist_volume L s =
     (if \<not> g_volume_loaded s then (ESP_OK, s)
      else save_keys L [(''volume_db'', V_int NVS_I32 (f_to_i32 (f_mul (g_volume_db s) (f_of_int 100))))] s)"

definition settings_get_bt_volume :: "'n nvs_lib \<Rightarrow> 'n settings \<Rightarrow> (esp_err + int) \<times> 'n settings" where
  "settings_get_bt_volume L s =
     (if \<not> g_bt_volume_loaded s then
        (let err = nvs_open_ro L (st_nvs s) NVS_NAMESPACE in
         if err \<noteq> ESP_OK then (Inl err, s)
         else (case nvs_get_int L (st_nvs s) NVS_NAMESPACE NVS_U8 ''bt_vol'' of
                 Inl e \<Rightarrow> (Inl e, s)
               | Inr v \<Rightarrow> (Inr v, s\<lparr>g_bt_volume := v, g_bt_volume_loaded := True\<rparr>)))
      else (Inr (g_bt_volume s), s))"

definition settings_set_bt_volume :: "int \<Rightarrow> 'n settings \<Rightarrow> esp_err \<times> 'n settings" where
  "settings_set_bt_volume v s =
     (if g_bt_volume_loaded s \<and> v = g_bt_volume s then (ESP_OK, s)
      else (ESP_OK, s\<lparr>g_bt_volume := v, g_bt_volume_loaded := True\<rparr>))"

definition settings_persist_bt_volume :: "'n nvs_lib \<Rightarrow> 'n settings \<Rightarrow> esp_err \<times> 'n settings" where
  "settings_persist_bt_volume L s =
     (if \<not> g_bt_volume_loaded s then (ESP_OK, s)
      else save_keys L [(''bt_vol'', V_int NVS_U8 (g_bt_volume s))] s)"

section \<open>Network credentials and name\<close>

definition get_string :: "'n nvs_lib \<Rightarrow> string \<Rightarrow> nat \<Rightarrow> 'n settings \<Rightarrow> esp_err + bytes" where
  "get_string L k len s =
     (if len = 0 then Inl ESP_ERR_INVALID_ARG
      else if nvs_open_ro L (st_nvs s) NVS_NAMESPACE \<noteq> ESP_OK then Inl ESP_ERR_NOT_FOUND
      else (case nvs_get_str L (st_nvs s) NVS_NAMESPACE k len of
              Inr v \<Rightarrow> if length v + 1 > len then Inl ESP_ERR_NVS_INVALID_LENGTH else Inr v
            | Inl e \<Rightarrow> Inl e))"

definition settings_get_wifi_ssid :: "'n nvs_lib \<Rightarrow> nat \<Rightarrow> 'n settings \<Rightarrow> esp_err + bytes" where
  "settings_get_wifi_ssid L len s = get_string L ''wifi_ssid'' len s"

definition settings_get_wifi_password :: "'n nvs_lib \<Rightarrow> nat \<Rightarrow> 'n settings \<Rightarrow> esp_err + bytes" where
  "settings_get_wifi_password L len s = get_string L ''wifi_pass'' len s"

definition settings_set_wifi_credentials :: "'n nvs_lib \<Rightarrow> bytes \<Rightarrow> bytes \<Rightarrow> 'n settings \<Rightarrow> esp_err \<times> 'n settings" where
  "settings_set_wifi_credentials L ssid password s =
     (if length ssid = 0 \<or> length ssid > MAX_WIFI_SSID_LEN then (ESP_ERR_INVALID_ARG, s)
      else if length password > MAX_WIFI_PASSWORD_LEN then (ESP_ERR_INVALID_ARG, s)
      else save_keys L [(''wifi_ssid'', V_str ssid), (''wifi_pass'', V_str password)] s)"

definition settings_has_wifi_credentials :: "'n nvs_lib \<Rightarrow> 'n settings \<Rightarrow> bool" where
  "settings_has_wifi_credentials L s = (case settings_get_wifi_ssid L (MAX_WIFI_SSID_LEN + 1) s of Inr _ \<Rightarrow> True | Inl _ \<Rightarrow> False)"

definition SETTINGS_DEFAULT_DEVICE_NAME :: bytes where
  "SETTINGS_DEFAULT_DEVICE_NAME = asc ''ESP32 AirPlay''"

definition settings_get_device_name :: "'n nvs_lib \<Rightarrow> nat \<Rightarrow> 'n settings \<Rightarrow> esp_err + bytes" where
  "settings_get_device_name L len s =
     (if len = 0 then Inl ESP_ERR_INVALID_ARG
      else (case (if nvs_open_ro L (st_nvs s) NVS_NAMESPACE = ESP_OK
                  then nvs_get_str L (st_nvs s) NVS_NAMESPACE ''device_name'' len else Inl ESP_FAIL) of
              Inr v \<Rightarrow> if length v + 1 \<le> len then Inr v else Inr (take (len - 1) SETTINGS_DEFAULT_DEVICE_NAME)
            | Inl _ \<Rightarrow> Inr (take (len - 1) SETTINGS_DEFAULT_DEVICE_NAME)))"

definition settings_set_device_name :: "'n nvs_lib \<Rightarrow> bytes \<Rightarrow> 'n settings \<Rightarrow> esp_err \<times> 'n settings" where
  "settings_set_device_name L name s =
     (if length name = 0 \<or> length name > MAX_DEVICE_NAME_LEN then (ESP_ERR_INVALID_ARG, s)
      else save_keys L [(''device_name'', V_str name)] s)"

section \<open>Output gain and equaliser\<close>

definition settings_get_max_gain :: "'n settings \<Rightarrow> int" where
  "settings_get_max_gain s = g_max_gain s"

definition settings_get_max_gain_q15 :: "'n settings \<Rightarrow> int" where
  "settings_get_max_gain_q15 s = cdiv (g_max_gain s * 32768) 100"

definition settings_set_max_gain :: "'n nvs_lib \<Rightarrow> int \<Rightarrow> 'n settings \<Rightarrow> esp_err \<times> 'n settings" where
  "settings_set_max_gain L percent s =
     (let percent = (if percent < 0 then 0 else if percent > 100 then 100 else percent) in
      if percent = g_max_gain s then (ESP_OK, s)
      else save_keys L [(''max_gain'', V_int NVS_I32 percent)] (s\<lparr>g_max_gain := percent\<rparr>))"

text \<open>\<open>==\<close> on two floats given by their bit patterns.\<close>

definition nan_bits :: "u32 \<Rightarrow> bool" where
  "nan_bits b \<longleftrightarrow> 0x7F800000 < take_bit 31 b"

definition bits_eq :: "u32 \<Rightarrow> u32 \<Rightarrow> bool" where
  "bits_eq a b \<longleftrightarrow> \<not> nan_bits a \<and> \<not> nan_bits b \<and> (a = b \<or> take_bit 31 a = 0 \<and> take_bit 31 b = 0)"

definition float_at :: "bytes \<Rightarrow> nat \<Rightarrow> u32" where
  "float_at b i = ucast (b ! (4 * i)) OR push_bit 8 (ucast (b ! (4 * i + 1))) OR push_bit 16 (ucast (b ! (4 * i + 2)))
     OR push_bit 24 (ucast (b ! (4 * i + 3)))"

definition settings_get_eq_gains :: "'n settings \<Rightarrow> esp_err + bytes" where
  "settings_get_eq_gains s = (if \<not> g_eq_loaded s then Inl ESP_ERR_NOT_FOUND else Inr (g_eq_gains s))"

definition settings_set_eq_gains :: "'n nvs_lib \<Rightarrow> bytes \<Rightarrow> 'n settings \<Rightarrow> esp_err \<times> 'n settings" where
  "settings_set_eq_gains L gains s =
     (if g_eq_loaded s \<and> (\<forall>i < SETTINGS_EQ_BANDS. bits_eq (float_at gains i) (float_at (g_eq_gains s) i)) then (ESP_OK, s)
      else (case save_keys L [(''eq_gains'', V_blob gains)] s of (err, s) \<Rightarrow>
              (err, if err = ESP_OK then s\<lparr>g_eq_gains := gains, g_eq_loaded := True\<rparr> else s)))"

definition settings_clear_eq :: "'n nvs_lib \<Rightarrow> 'n settings \<Rightarrow> esp_err \<times> 'n settings" where
  "settings_clear_eq L s =
     (case nvs_open_rw L (st_nvs s) NVS_NAMESPACE of (err, n) \<Rightarrow>
        if err \<noteq> ESP_OK then (err, s\<lparr>st_nvs := n\<rparr>)
        else (case nvs_erase_key L n NVS_NAMESPACE ''eq_gains'' of (err, n) \<Rightarrow>
                if err = ESP_OK \<or> err = ESP_ERR_NVS_NOT_FOUND then
                  (case nvs_commit L n NVS_NAMESPACE of (err, n) \<Rightarrow>
                     if err = ESP_OK
                     then (err, s\<lparr>st_nvs := n, g_eq_gains := replicate (4 * SETTINGS_EQ_BANDS) 0, g_eq_loaded := False\<rparr>)
                     else (err, s\<lparr>st_nvs := n\<rparr>))
                else (err, s\<lparr>st_nvs := n\<rparr>)))"

definition settings_has_eq :: "'n settings \<Rightarrow> bool" where
  "settings_has_eq s = g_eq_loaded s"

section \<open>Administration password\<close>

text \<open>\<open>sha\<close> is \<open>mbedtls_sha256\<close>: the digest, or an error.\<close>

definition settings_has_device_password :: "'n settings \<Rightarrow> bool" where
  "settings_has_device_password s = g_has_device_pw s"

definition settings_set_device_password ::
    "'n nvs_lib \<Rightarrow> (bytes \<Rightarrow> bytes option) \<Rightarrow> bytes \<Rightarrow> 'n settings \<Rightarrow> esp_err \<times> 'n settings" where
  "settings_set_device_password L sha pw s =
     (if length pw < MIN_DEVICE_PW_LEN then (ESP_ERR_INVALID_ARG, s)
      else (case sha pw of None \<Rightarrow> (ESP_FAIL, s)
            | Some digest \<Rightarrow>
                (case save_keys L [(''dev_pw'', V_blob digest)] s of (err, s) \<Rightarrow>
                   (err, if err = ESP_OK then s\<lparr>g_has_device_pw := True\<rparr> else s))))"

text \<open>The comparison that never stops early.\<close>

definition ct_diff :: "bytes \<Rightarrow> bytes \<Rightarrow> u8" where
  "ct_diff candidate stored = foldl (\<lambda>d i. d OR (candidate ! i XOR stored ! i)) 0 [0..<DEVICE_PW_DIGEST_LEN]"

definition settings_check_device_password ::
    "'n nvs_lib \<Rightarrow> (bytes \<Rightarrow> bytes option) \<Rightarrow> bytes \<Rightarrow> 'n settings \<Rightarrow> bool" where
  "settings_check_device_password L sha pw s =
     (if \<not> g_has_device_pw s then False
      else (case sha pw of None \<Rightarrow> False
            | Some candidate \<Rightarrow>
                if nvs_open_ro L (st_nvs s) NVS_NAMESPACE \<noteq> ESP_OK then False
                else (case nvs_get_blob L (st_nvs s) NVS_NAMESPACE ''dev_pw'' DEVICE_PW_DIGEST_LEN of
                        Inl _ \<Rightarrow> False
                      | Inr stored \<Rightarrow> if length stored \<noteq> DEVICE_PW_DIGEST_LEN then False else ct_diff candidate stored = 0)))"

section \<open>Configuration groups\<close>

definition pin_ok :: "int \<Rightarrow> bool" where "pin_ok p \<longleftrightarrow> \<not> (p < - 1 \<or> p > 48)"

definition settings_get_matrix :: "'n nvs_lib \<Rightarrow> 'n settings \<Rightarrow> bool \<times> int \<times> int \<times> int \<times> int \<times> int" where
  "settings_get_matrix L s =
     (get_int_or L s NVS_U8 ''matrix_en'' 0 \<noteq> 0, get_int_or L s NVS_U8 ''matrix_fx'' 0, get_int_or L s NVS_U8 ''matrix_br'' 4,
      get_int_or L s NVS_I8 ''matrix_din'' 4, get_int_or L s NVS_I8 ''matrix_clk'' 5, get_int_or L s NVS_I8 ''matrix_cs'' 6)"

definition settings_set_matrix :: "'n nvs_lib \<Rightarrow> bool \<Rightarrow> int \<Rightarrow> int \<Rightarrow> int \<Rightarrow> int \<Rightarrow> int \<Rightarrow> 'n settings \<Rightarrow> esp_err \<times> 'n settings" where
  "settings_set_matrix L en fx br din clk cs s =
     (if fx < 0 \<or> fx > 3 then (ESP_ERR_INVALID_ARG, s)
      else if br < 0 \<or> br > 15 then (ESP_ERR_INVALID_ARG, s)
      else if \<not> pin_ok din \<or> \<not> pin_ok clk \<or> \<not> pin_ok cs then (ESP_ERR_INVALID_ARG, s)
      else save_keys L [(''matrix_en'', V_int NVS_U8 (flag en)), (''matrix_fx'', V_int NVS_U8 (to_u8 fx)),
             (''matrix_br'', V_int NVS_U8 (to_u8 br)), (''matrix_din'', V_int NVS_I8 (to_i8 din)),
             (''matrix_clk'', V_int NVS_I8 (to_i8 clk)), (''matrix_cs'', V_int NVS_I8 (to_i8 cs))] s)"

definition settings_get_argb :: "'n nvs_lib \<Rightarrow> 'n settings \<Rightarrow> bool \<times> int \<times> int \<times> int \<times> int \<times> int \<times> int \<times> bool" where
  "settings_get_argb L s =
     (get_int_or L s NVS_U8 ''argb_en'' 0 \<noteq> 0, get_int_or L s NVS_I8 ''argb_gpio'' 8, get_int_or L s NVS_U16 ''argb_count'' 30,
      get_int_or L s NVS_U8 ''argb_fx'' 0, get_int_or L s NVS_U8 ''argb_br'' 128, get_int_or L s NVS_U32 ''argb_color'' 0x2080FF,
      get_int_or L s NVS_U8 ''argb_speed'' 5, get_int_or L s NVS_U8 ''argb_music'' 0 \<noteq> 0)"

definition settings_set_argb ::
    "'n nvs_lib \<Rightarrow> bool \<Rightarrow> int \<Rightarrow> int \<Rightarrow> int \<Rightarrow> int \<Rightarrow> u32 \<Rightarrow> int \<Rightarrow> bool \<Rightarrow> 'n settings \<Rightarrow> esp_err \<times> 'n settings" where
  "settings_set_argb L en gpio count fx br color speed music s =
     (if fx < 0 \<or> fx > 11 then (ESP_ERR_INVALID_ARG, s)
      else if br < 0 \<or> br > 255 then (ESP_ERR_INVALID_ARG, s)
      else if \<not> pin_ok gpio then (ESP_ERR_INVALID_ARG, s)
      else if count < 1 \<or> count > 300 then (ESP_ERR_INVALID_ARG, s)
      else if speed < 1 \<or> speed > 10 then (ESP_ERR_INVALID_ARG, s)
      else save_keys L [(''argb_en'', V_int NVS_U8 (flag en)), (''argb_gpio'', V_int NVS_I8 (to_i8 gpio)),
             (''argb_count'', V_int NVS_U16 (to_u16 count)), (''argb_fx'', V_int NVS_U8 (to_u8 fx)),
             (''argb_br'', V_int NVS_U8 (to_u8 br)), (''argb_color'', V_int NVS_U32 (uint (color AND 0xFFFFFF))),
             (''argb_speed'', V_int NVS_U8 (to_u8 speed)), (''argb_music'', V_int NVS_U8 (flag music))] s)"

definition settings_get_tone :: "'n nvs_lib \<Rightarrow> 'n settings \<Rightarrow> bool \<times> int \<times> int \<times> int \<times> int" where
  "settings_get_tone L s =
     (get_int_or L s NVS_U8 ''eq_on'' 0 \<noteq> 0, get_int_or L s NVS_I8 ''eq_bass'' 0, get_int_or L s NVS_I8 ''eq_mid'' 0,
      get_int_or L s NVS_I8 ''eq_treble'' 0, get_int_or L s NVS_I32 ''eq_hpf'' 0)"

definition tone_gain_ok :: "int \<Rightarrow> bool" where "tone_gain_ok g \<longleftrightarrow> \<not> (g < - 12 \<or> g > 12)"

definition settings_set_tone :: "'n nvs_lib \<Rightarrow> bool \<Rightarrow> int \<Rightarrow> int \<Rightarrow> int \<Rightarrow> int \<Rightarrow> 'n settings \<Rightarrow> esp_err \<times> 'n settings" where
  "settings_set_tone L en bass mid treble hpf s =
     (if \<not> tone_gain_ok bass \<or> \<not> tone_gain_ok mid \<or> \<not> tone_gain_ok treble then (ESP_ERR_INVALID_ARG, s)
      else if hpf \<noteq> 0 \<and> (hpf < 40 \<or> hpf > 400) then (ESP_ERR_INVALID_ARG, s)
      else save_keys L [(''eq_on'', V_int NVS_U8 (flag en)), (''eq_bass'', V_int NVS_I8 (to_i8 bass)), (''eq_mid'', V_int NVS_I8 (to_i8 mid)),
             (''eq_treble'', V_int NVS_I8 (to_i8 treble)), (''eq_hpf'', V_int NVS_I32 hpf)] s)"

text \<open>The strings of the broker settings: empty unless stored and fitting the buffer.\<close>

definition get_str_or_empty :: "'n nvs_lib \<Rightarrow> 'n settings \<Rightarrow> string \<Rightarrow> nat \<Rightarrow> bytes" where
  "get_str_or_empty L s k len =
     (if nvs_open_ro L (st_nvs s) NVS_NAMESPACE = ESP_OK \<and> len \<noteq> 0
      then (case nvs_get_str L (st_nvs s) NVS_NAMESPACE k len of Inr v \<Rightarrow> v | Inl _ \<Rightarrow> []) else [])"

definition settings_get_mqtt :: "'n nvs_lib \<Rightarrow> nat \<Rightarrow> nat \<Rightarrow> nat \<Rightarrow> 'n settings \<Rightarrow> bool \<times> bytes \<times> int \<times> bytes \<times> bytes" where
  "settings_get_mqtt L hlen ulen plen s =
     (get_int_or L s NVS_U8 ''mqtt_en'' 0 \<noteq> 0, get_str_or_empty L s ''mqtt_host'' hlen, get_int_or L s NVS_I32 ''mqtt_port'' 1883,
      get_str_or_empty L s ''mqtt_user'' ulen, get_str_or_empty L s ''mqtt_pass'' plen)"

text \<open>A missing password (\<open>NULL\<close>) keeps the stored one.\<close>

definition settings_set_mqtt ::
    "'n nvs_lib \<Rightarrow> bool \<Rightarrow> bytes option \<Rightarrow> int \<Rightarrow> bytes option \<Rightarrow> bytes option \<Rightarrow> 'n settings \<Rightarrow> esp_err \<times> 'n settings" where
  "settings_set_mqtt L en host port user pass s =
     (if (case host of Some h \<Rightarrow> length h > MAX_MQTT_HOST_LEN | None \<Rightarrow> False) then (ESP_ERR_INVALID_ARG, s)
      else if (case user of Some u \<Rightarrow> length u > MAX_MQTT_USER_LEN | None \<Rightarrow> False) then (ESP_ERR_INVALID_ARG, s)
      else if (case pass of Some p \<Rightarrow> length p > MAX_MQTT_PASS_LEN | None \<Rightarrow> False) then (ESP_ERR_INVALID_ARG, s)
      else if port < 1 \<or> port > 65535 then (ESP_ERR_INVALID_ARG, s)
      else save_keys L ([(''mqtt_en'', V_int NVS_U8 (flag en)), (''mqtt_host'', V_str (case host of Some h \<Rightarrow> h | None \<Rightarrow> [])),
             (''mqtt_port'', V_int NVS_I32 port), (''mqtt_user'', V_str (case user of Some u \<Rightarrow> u | None \<Rightarrow> []))]
             @ (case pass of Some p \<Rightarrow> [(''mqtt_pass'', V_str p)] | None \<Rightarrow> [])) s)"

text \<open>The defaults of the buttons are build options; the tuple lists play, volume up, volume down, next, previous.\<close>

definition settings_get_buttons ::
    "'n nvs_lib \<Rightarrow> int \<times> int \<times> int \<times> int \<times> int \<Rightarrow> 'n settings \<Rightarrow> int \<times> int \<times> int \<times> int \<times> int" where
  "settings_get_buttons L dflt s =
     (case dflt of (pp, vu, vd, nx, pv) \<Rightarrow>
        (get_int_or L s NVS_I8 ''btn_pp'' pp, get_int_or L s NVS_I8 ''btn_vu'' vu, get_int_or L s NVS_I8 ''btn_vd'' vd,
         get_int_or L s NVS_I8 ''btn_nx'' nx, get_int_or L s NVS_I8 ''btn_pv'' pv))"

definition settings_set_buttons :: "'n nvs_lib \<Rightarrow> int \<Rightarrow> int \<Rightarrow> int \<Rightarrow> int \<Rightarrow> int \<Rightarrow> 'n settings \<Rightarrow> esp_err \<times> 'n settings" where
  "settings_set_buttons L pp vu vd nx pv s =
     (if \<not> pin_ok pp \<or> \<not> pin_ok vu \<or> \<not> pin_ok vd \<or> \<not> pin_ok nx \<or> \<not> pin_ok pv then (ESP_ERR_INVALID_ARG, s)
      else save_keys L [(''btn_pp'', V_int NVS_I8 (to_i8 pp)), (''btn_vu'', V_int NVS_I8 (to_i8 vu)), (''btn_vd'', V_int NVS_I8 (to_i8 vd)),
             (''btn_nx'', V_int NVS_I8 (to_i8 nx)), (''btn_pv'', V_int NVS_I8 (to_i8 pv))] s)"

definition settings_get_protection :: "'n nvs_lib \<Rightarrow> 'n settings \<Rightarrow> bool \<times> int \<times> int \<times> bool \<times> int" where
  "settings_get_protection L s =
     (get_int_or L s NVS_U8 ''lim_en'' 1 \<noteq> 0, get_int_or L s NVS_I8 ''lim_ceiling'' (- 1), get_int_or L s NVS_I8 ''amp_gpio'' (- 1),
      get_int_or L s NVS_U8 ''amp_active_high'' 1 \<noteq> 0, get_int_or L s NVS_I8 ''amp_standby_min'' 5)"

definition settings_set_protection :: "'n nvs_lib \<Rightarrow> bool \<Rightarrow> int \<Rightarrow> int \<Rightarrow> bool \<Rightarrow> int \<Rightarrow> 'n settings \<Rightarrow> esp_err \<times> 'n settings" where
  "settings_set_protection L limEn limCeil ampGpio ampActiveHigh ampStandbyMin s =
     (if limCeil < - 12 \<or> limCeil > 0 then (ESP_ERR_INVALID_ARG, s)
      else if \<not> pin_ok ampGpio then (ESP_ERR_INVALID_ARG, s)
      else if ampStandbyMin < 0 \<or> ampStandbyMin > 120 then (ESP_ERR_INVALID_ARG, s)
      else save_keys L [(''lim_en'', V_int NVS_U8 (flag limEn)), (''lim_ceiling'', V_int NVS_I8 (to_i8 limCeil)),
             (''amp_gpio'', V_int NVS_I8 (to_i8 ampGpio)), (''amp_active_high'', V_int NVS_U8 (flag ampActiveHigh)),
             (''amp_standby_min'', V_int NVS_I8 (to_i8 ampStandbyMin))] s)"

definition settings_get_channel_mode :: "'n nvs_lib \<Rightarrow> 'n settings \<Rightarrow> int" where
  "settings_get_channel_mode L s = (let mode = get_int_or L s NVS_U8 ''chan_mode'' 0 in if mode > 3 then 0 else mode)"

definition settings_set_channel_mode :: "'n nvs_lib \<Rightarrow> int \<Rightarrow> 'n settings \<Rightarrow> esp_err \<times> 'n settings" where
  "settings_set_channel_mode L mode s =
     (if mode < 0 \<or> mode > 3 then (ESP_ERR_INVALID_ARG, s)
      else save_keys L [(''chan_mode'', V_int NVS_U8 (to_u8 mode))] s)"

section \<open>Saved settings are read back\<close>

lemma cast_ids:
  "pin_ok p \<Longrightarrow> to_i8 p = p" "tone_gain_ok p \<Longrightarrow> to_i8 p = p" "- 12 \<le> p \<Longrightarrow> p \<le> 120 \<Longrightarrow> to_i8 p = p"
  "0 \<le> p \<Longrightarrow> p \<le> 255 \<Longrightarrow> to_u8 p = p" "0 \<le> p \<Longrightarrow> p \<le> 300 \<Longrightarrow> to_u16 p = p" "flag b \<noteq> 0 \<longleftrightarrow> b" "flag b = 0 \<longleftrightarrow> \<not> b"
  by (auto simp: to_i8_def to_u8_def to_u16_def pin_ok_def tone_gain_ok_def flag_def
      intro!: signed_take_bit_int_eq_self take_bit_int_eq_self)

lemma save_keys_OK:
  assumes "nvs_laws L view" "save_keys L kvs s = (ESP_OK, s')"
  shows "view (st_nvs s') NVS_NAMESPACE = view (st_nvs s) NVS_NAMESPACE ++ map_of (rev kvs)"
    and "s' = s\<lparr>st_nvs := st_nvs s'\<rparr>"
  using assms nvs_save_OK [OF assms(1), of NVS_NAMESPACE kvs "st_nvs s" "st_nvs s'"]
  by (auto simp: save_keys_def split: prod.splits)

lemma get_int_or_stored: "nvs_laws L view \<Longrightarrow> view (st_nvs s) NVS_NAMESPACE k = Some (V_int t i) \<Longrightarrow> get_int_or L s t k d = i"
  unfolding get_int_or_def by (rule nvs_int_or_stored)

lemma get_str_stored:
  assumes "nvs_laws L view" "view (st_nvs s) NVS_NAMESPACE k = Some (V_str v)" "length v < len"
  shows "get_str_or_empty L s k len = v" and "get_string L k len s = Inr v"
  using assms nvs_read(1) [OF assms(1), OF assms(2)] nvs_read(4) [OF assms(1), OF assms(2), of len]
  by (auto simp: get_str_or_empty_def get_string_def)

lemma matrix_roundtrip:
  assumes "nvs_laws L view" "settings_set_matrix L en fx br din clk cs s = (ESP_OK, s')"
  shows "settings_get_matrix L s' = (en, fx, br, din, clk, cs)"
proof -
  from assms(2) have r: "\<not> (fx < 0 \<or> fx > 3)" "\<not> (br < 0 \<or> br > 15)" "pin_ok din" "pin_ok clk" "pin_ok cs"
    and k: "save_keys L [(''matrix_en'', V_int NVS_U8 (flag en)), (''matrix_fx'', V_int NVS_U8 (to_u8 fx)),
             (''matrix_br'', V_int NVS_U8 (to_u8 br)), (''matrix_din'', V_int NVS_I8 (to_i8 din)),
             (''matrix_clk'', V_int NVS_I8 (to_i8 clk)), (''matrix_cs'', V_int NVS_I8 (to_i8 cs))] s = (ESP_OK, s')"
    by (auto simp: settings_set_matrix_def split: if_splits)
  note v = save_keys_OK(1) [OF assms(1) k]
  have "view (st_nvs s') NVS_NAMESPACE ''matrix_en'' = Some (V_int NVS_U8 (flag en))"
    "view (st_nvs s') NVS_NAMESPACE ''matrix_fx'' = Some (V_int NVS_U8 fx)"
    "view (st_nvs s') NVS_NAMESPACE ''matrix_br'' = Some (V_int NVS_U8 br)"
    "view (st_nvs s') NVS_NAMESPACE ''matrix_din'' = Some (V_int NVS_I8 din)"
    "view (st_nvs s') NVS_NAMESPACE ''matrix_clk'' = Some (V_int NVS_I8 clk)"
    "view (st_nvs s') NVS_NAMESPACE ''matrix_cs'' = Some (V_int NVS_I8 cs)"
    unfolding v using r by (simp_all add: cast_ids)
  then show ?thesis by (simp add: settings_get_matrix_def get_int_or_stored [OF assms(1)] cast_ids)
qed

lemma argb_roundtrip:
  assumes "nvs_laws L view" "settings_set_argb L en gpio count fx br color speed music s = (ESP_OK, s')"
  shows "settings_get_argb L s' = (en, gpio, count, fx, br, uint (color AND 0xFFFFFF), speed, music)"
proof -
  from assms(2) have r: "\<not> (fx < 0 \<or> fx > 11)" "\<not> (br < 0 \<or> br > 255)" "pin_ok gpio" "\<not> (count < 1 \<or> count > 300)" "\<not> (speed < 1 \<or> speed > 10)"
    and k: "save_keys L [(''argb_en'', V_int NVS_U8 (flag en)), (''argb_gpio'', V_int NVS_I8 (to_i8 gpio)),
             (''argb_count'', V_int NVS_U16 (to_u16 count)), (''argb_fx'', V_int NVS_U8 (to_u8 fx)),
             (''argb_br'', V_int NVS_U8 (to_u8 br)), (''argb_color'', V_int NVS_U32 (uint (color AND 0xFFFFFF))),
             (''argb_speed'', V_int NVS_U8 (to_u8 speed)), (''argb_music'', V_int NVS_U8 (flag music))] s = (ESP_OK, s')"
    by (auto simp: settings_set_argb_def split: if_splits)
  note v = save_keys_OK(1) [OF assms(1) k]
  have "view (st_nvs s') NVS_NAMESPACE ''argb_en'' = Some (V_int NVS_U8 (flag en))"
    "view (st_nvs s') NVS_NAMESPACE ''argb_gpio'' = Some (V_int NVS_I8 gpio)"
    "view (st_nvs s') NVS_NAMESPACE ''argb_count'' = Some (V_int NVS_U16 count)"
    "view (st_nvs s') NVS_NAMESPACE ''argb_fx'' = Some (V_int NVS_U8 fx)"
    "view (st_nvs s') NVS_NAMESPACE ''argb_br'' = Some (V_int NVS_U8 br)"
    "view (st_nvs s') NVS_NAMESPACE ''argb_color'' = Some (V_int NVS_U32 (uint (color AND 0xFFFFFF)))"
    "view (st_nvs s') NVS_NAMESPACE ''argb_speed'' = Some (V_int NVS_U8 speed)"
    "view (st_nvs s') NVS_NAMESPACE ''argb_music'' = Some (V_int NVS_U8 (flag music))"
    unfolding v using r by (simp_all add: cast_ids)
  then show ?thesis by (simp add: settings_get_argb_def get_int_or_stored [OF assms(1)] cast_ids)
qed

lemma tone_roundtrip:
  assumes "nvs_laws L view" "settings_set_tone L en bass mid treble hpf s = (ESP_OK, s')"
  shows "settings_get_tone L s' = (en, bass, mid, treble, hpf)"
proof -
  from assms(2) have r: "tone_gain_ok bass" "tone_gain_ok mid" "tone_gain_ok treble"
    and k: "save_keys L [(''eq_on'', V_int NVS_U8 (flag en)), (''eq_bass'', V_int NVS_I8 (to_i8 bass)), (''eq_mid'', V_int NVS_I8 (to_i8 mid)),
             (''eq_treble'', V_int NVS_I8 (to_i8 treble)), (''eq_hpf'', V_int NVS_I32 hpf)] s = (ESP_OK, s')"
    by (auto simp: settings_set_tone_def split: if_splits)
  note v = save_keys_OK(1) [OF assms(1) k]
  have "view (st_nvs s') NVS_NAMESPACE ''eq_on'' = Some (V_int NVS_U8 (flag en))"
    "view (st_nvs s') NVS_NAMESPACE ''eq_bass'' = Some (V_int NVS_I8 bass)"
    "view (st_nvs s') NVS_NAMESPACE ''eq_mid'' = Some (V_int NVS_I8 mid)"
    "view (st_nvs s') NVS_NAMESPACE ''eq_treble'' = Some (V_int NVS_I8 treble)"
    "view (st_nvs s') NVS_NAMESPACE ''eq_hpf'' = Some (V_int NVS_I32 hpf)"
    unfolding v using r by (simp_all add: cast_ids)
  then show ?thesis by (simp add: settings_get_tone_def get_int_or_stored [OF assms(1)] cast_ids)
qed

lemma buttons_roundtrip:
  assumes "nvs_laws L view" "settings_set_buttons L pp vu vd nx pv s = (ESP_OK, s')"
  shows "settings_get_buttons L dflt s' = (pp, vu, vd, nx, pv)"
proof -
  from assms(2) have r: "pin_ok pp" "pin_ok vu" "pin_ok vd" "pin_ok nx" "pin_ok pv"
    and k: "save_keys L [(''btn_pp'', V_int NVS_I8 (to_i8 pp)), (''btn_vu'', V_int NVS_I8 (to_i8 vu)), (''btn_vd'', V_int NVS_I8 (to_i8 vd)),
             (''btn_nx'', V_int NVS_I8 (to_i8 nx)), (''btn_pv'', V_int NVS_I8 (to_i8 pv))] s = (ESP_OK, s')"
    by (auto simp: settings_set_buttons_def split: if_splits)
  note v = save_keys_OK(1) [OF assms(1) k]
  have "view (st_nvs s') NVS_NAMESPACE ''btn_pp'' = Some (V_int NVS_I8 pp)"
    "view (st_nvs s') NVS_NAMESPACE ''btn_vu'' = Some (V_int NVS_I8 vu)"
    "view (st_nvs s') NVS_NAMESPACE ''btn_vd'' = Some (V_int NVS_I8 vd)"
    "view (st_nvs s') NVS_NAMESPACE ''btn_nx'' = Some (V_int NVS_I8 nx)"
    "view (st_nvs s') NVS_NAMESPACE ''btn_pv'' = Some (V_int NVS_I8 pv)"
    unfolding v using r by (simp_all add: cast_ids)
  then show ?thesis by (simp add: settings_get_buttons_def get_int_or_stored [OF assms(1)] split: prod.splits)
qed

lemma protection_roundtrip:
  assumes "nvs_laws L view" "settings_set_protection L en ceil gpio high stby s = (ESP_OK, s')"
  shows "settings_get_protection L s' = (en, ceil, gpio, high, stby)"
proof -
  from assms(2) have r: "\<not> (ceil < - 12 \<or> ceil > 0)" "pin_ok gpio" "\<not> (stby < 0 \<or> stby > 120)"
    and k: "save_keys L [(''lim_en'', V_int NVS_U8 (flag en)), (''lim_ceiling'', V_int NVS_I8 (to_i8 ceil)),
             (''amp_gpio'', V_int NVS_I8 (to_i8 gpio)), (''amp_active_high'', V_int NVS_U8 (flag high)),
             (''amp_standby_min'', V_int NVS_I8 (to_i8 stby))] s = (ESP_OK, s')"
    by (auto simp: settings_set_protection_def split: if_splits)
  note v = save_keys_OK(1) [OF assms(1) k]
  have "view (st_nvs s') NVS_NAMESPACE ''lim_en'' = Some (V_int NVS_U8 (flag en))"
    "view (st_nvs s') NVS_NAMESPACE ''lim_ceiling'' = Some (V_int NVS_I8 ceil)"
    "view (st_nvs s') NVS_NAMESPACE ''amp_gpio'' = Some (V_int NVS_I8 gpio)"
    "view (st_nvs s') NVS_NAMESPACE ''amp_active_high'' = Some (V_int NVS_U8 (flag high))"
    "view (st_nvs s') NVS_NAMESPACE ''amp_standby_min'' = Some (V_int NVS_I8 stby)"
    unfolding v using r by (simp_all add: cast_ids)
  then show ?thesis by (simp add: settings_get_protection_def get_int_or_stored [OF assms(1)] cast_ids)
qed

lemma channel_roundtrip:
  assumes "nvs_laws L view" "settings_set_channel_mode L mode s = (ESP_OK, s')"
  shows "settings_get_channel_mode L s' = mode"
proof -
  from assms(2) have r: "\<not> (mode < 0 \<or> mode > 3)" and k: "save_keys L [(''chan_mode'', V_int NVS_U8 (to_u8 mode))] s = (ESP_OK, s')"
    by (auto simp: settings_set_channel_mode_def split: if_splits)
  have "view (st_nvs s') NVS_NAMESPACE ''chan_mode'' = Some (V_int NVS_U8 mode)"
    unfolding save_keys_OK(1) [OF assms(1) k] using r by (simp add: cast_ids)
  then show ?thesis using r by (simp add: settings_get_channel_mode_def get_int_or_stored [OF assms(1)])
qed

lemma wifi_roundtrip:
  assumes "nvs_laws L view" "settings_set_wifi_credentials L ssid pw s = (ESP_OK, s')"
  shows "settings_get_wifi_ssid L 33 s' = Inr ssid \<and> settings_get_wifi_password L 65 s' = Inr pw \<and> settings_has_wifi_credentials L s'"
proof -
  from assms(2) have r: "length ssid \<le> 32" "length pw \<le> 64"
    and k: "save_keys L [(''wifi_ssid'', V_str ssid), (''wifi_pass'', V_str pw)] s = (ESP_OK, s')"
    by (auto simp: settings_set_wifi_credentials_def settings_limits split: if_splits)
  note v = save_keys_OK(1) [OF assms(1) k]
  have "view (st_nvs s') NVS_NAMESPACE ''wifi_ssid'' = Some (V_str ssid)" "view (st_nvs s') NVS_NAMESPACE ''wifi_pass'' = Some (V_str pw)"
    unfolding v by simp_all
  note g = get_str_stored(2) [OF assms(1) this(1)] get_str_stored(2) [OF assms(1) this(2)]
  show ?thesis using r by (simp add: settings_get_wifi_ssid_def settings_get_wifi_password_def settings_has_wifi_credentials_def settings_limits g)
qed

lemma mqtt_roundtrip:
  assumes "nvs_laws L view" "settings_set_mqtt L en (Some host) port (Some user) pass s = (ESP_OK, s')"
  shows "settings_get_mqtt L 129 65 65 s'
    = (en, host, port, user, case pass of Some p \<Rightarrow> p | None \<Rightarrow> get_str_or_empty L s' ''mqtt_pass'' 65)
    \<and> (pass = None \<longrightarrow> view (st_nvs s') NVS_NAMESPACE ''mqtt_pass'' = view (st_nvs s) NVS_NAMESPACE ''mqtt_pass'')"
proof -
  from assms(2) have r: "length host \<le> 128" "length user \<le> 64" "case pass of Some p \<Rightarrow> length p \<le> 64 | None \<Rightarrow> True"
    and k: "save_keys L ([(''mqtt_en'', V_int NVS_U8 (flag en)), (''mqtt_host'', V_str host),
             (''mqtt_port'', V_int NVS_I32 port), (''mqtt_user'', V_str user)]
             @ (case pass of Some p \<Rightarrow> [(''mqtt_pass'', V_str p)] | None \<Rightarrow> [])) s = (ESP_OK, s')"
    by (auto simp: settings_set_mqtt_def settings_limits split: if_splits option.splits)
  note v = save_keys_OK(1) [OF assms(1) k]
  have i: "view (st_nvs s') NVS_NAMESPACE ''mqtt_en'' = Some (V_int NVS_U8 (flag en))"
    "view (st_nvs s') NVS_NAMESPACE ''mqtt_port'' = Some (V_int NVS_I32 port)"
    and t: "view (st_nvs s') NVS_NAMESPACE ''mqtt_host'' = Some (V_str host)"
    "view (st_nvs s') NVS_NAMESPACE ''mqtt_user'' = Some (V_str user)"
    and p: "view (st_nvs s') NVS_NAMESPACE ''mqtt_pass''
      = (case pass of Some p \<Rightarrow> Some (V_str p) | None \<Rightarrow> view (st_nvs s) NVS_NAMESPACE ''mqtt_pass'')"
    unfolding v by (simp_all split: option.splits)
  have "get_str_or_empty L s' ''mqtt_pass'' 65 = q" if "pass = Some q" for q
    using get_str_stored(1) [OF assms(1), of s' "''mqtt_pass''" q 65] p r(3) that by simp
  then show ?thesis
    using i p r(1,2) by (auto simp: settings_get_mqtt_def get_int_or_stored [OF assms(1)] cast_ids
        get_str_stored(1) [OF assms(1) t(1)] get_str_stored(1) [OF assms(1) t(2)] split: option.splits)
qed

definition demo_settings :: "nat \<Rightarrow> demo_flash settings" where
  "demo_settings room = settings_boot \<lparr>df_data = [], df_room = room\<rparr>"

text \<open>
  C22. Saved settings are read back: when a setter reports success, the getter of its group returns the values
  that were passed, whatever was stored before. The strip's colour comes back with its upper byte cleared; a broker password
  of \<open>NULL\<close> keeps the stored one.
\<close>

theorem settings_roundtrip:
  assumes "nvs_laws L view"
  shows "(settings_set_matrix L en fx br din clk cs s = (ESP_OK, s1) \<longrightarrow> settings_get_matrix L s1 = (en, fx, br, din, clk, cs))
   \<and> (settings_set_argb L en gpio count fx' br' color speed music s = (ESP_OK, s2) \<longrightarrow>
        settings_get_argb L s2 = (en, gpio, count, fx', br', uint (color AND 0xFFFFFF), speed, music))
   \<and> (settings_set_tone L en bass mid treble hpf s = (ESP_OK, s3) \<longrightarrow> settings_get_tone L s3 = (en, bass, mid, treble, hpf))
   \<and> (settings_set_buttons L pp vu vd nx pv s = (ESP_OK, s4) \<longrightarrow> settings_get_buttons L dflt s4 = (pp, vu, vd, nx, pv))
   \<and> (settings_set_protection L en ceil amp high stby s = (ESP_OK, s5) \<longrightarrow> settings_get_protection L s5 = (en, ceil, amp, high, stby))
   \<and> (settings_set_channel_mode L mode s = (ESP_OK, s6) \<longrightarrow> settings_get_channel_mode L s6 = mode)
   \<and> (settings_set_wifi_credentials L ssid pw s = (ESP_OK, s7) \<longrightarrow>
        settings_get_wifi_ssid L 33 s7 = Inr ssid \<and> settings_get_wifi_password L 65 s7 = Inr pw \<and> settings_has_wifi_credentials L s7)
   \<and> (settings_set_mqtt L en (Some host) port (Some user) pass s = (ESP_OK, s8) \<longrightarrow>
        settings_get_mqtt L 129 65 65 s8
          = (en, host, port, user, case pass of Some p \<Rightarrow> p | None \<Rightarrow> get_str_or_empty L s8 ''mqtt_pass'' 65)
      \<and> (pass = None \<longrightarrow> view (st_nvs s8) NVS_NAMESPACE ''mqtt_pass'' = view (st_nvs s) NVS_NAMESPACE ''mqtt_pass''))"
  by (rule impI [THEN conjI], erule matrix_roundtrip [OF assms],
      rule impI [THEN conjI], erule argb_roundtrip [OF assms],
      rule impI [THEN conjI], erule tone_roundtrip [OF assms],
      rule impI [THEN conjI], erule buttons_roundtrip [OF assms],
      rule impI [THEN conjI], erule protection_roundtrip [OF assms],
      rule impI [THEN conjI], erule channel_roundtrip [OF assms],
      rule impI [THEN conjI], erule wifi_roundtrip [OF assms],
      rule impI, erule mqtt_roundtrip [OF assms])

theorem settings_roundtrip_witness:
  "settings_get_tone demo_nvs (snd (settings_set_tone demo_nvs True (- 12) 3 12 40 (demo_settings 9))) = (True, - 12, 3, 12, 40)"
proof -
  have "fst (settings_set_tone demo_nvs True (- 12) 3 12 40 (demo_settings 9)) = ESP_OK" by code_simp
  then have "settings_set_tone demo_nvs True (- 12) 3 12 40 (demo_settings 9)
      = (ESP_OK, snd (settings_set_tone demo_nvs True (- 12) 3 12 40 (demo_settings 9)))"
    by (metis prod.collapse)
  then show ?thesis using settings_roundtrip [OF demo_nvs_laws] by metis
qed

section \<open>Stored settings stay in their ranges\<close>

definition key_ranges :: "(string \<times> nvs_type \<times> int \<times> int) list" where
  "key_ranges = [(''matrix_fx'', NVS_U8, 0, 3), (''matrix_br'', NVS_U8, 0, 15), (''matrix_din'', NVS_I8, - 1, 48),
     (''matrix_clk'', NVS_I8, - 1, 48), (''matrix_cs'', NVS_I8, - 1, 48), (''argb_gpio'', NVS_I8, - 1, 48),
     (''argb_count'', NVS_U16, 1, 300), (''argb_fx'', NVS_U8, 0, 11), (''argb_br'', NVS_U8, 0, 255),
     (''argb_color'', NVS_U32, 0, 0xFFFFFF), (''argb_speed'', NVS_U8, 1, 10), (''eq_bass'', NVS_I8, - 12, 12),
     (''eq_mid'', NVS_I8, - 12, 12), (''eq_treble'', NVS_I8, - 12, 12), (''eq_hpf'', NVS_I32, 0, 400),
     (''mqtt_port'', NVS_I32, 1, 65535), (''btn_pp'', NVS_I8, - 1, 48), (''btn_vu'', NVS_I8, - 1, 48),
     (''btn_vd'', NVS_I8, - 1, 48), (''btn_nx'', NVS_I8, - 1, 48), (''btn_pv'', NVS_I8, - 1, 48),
     (''lim_ceiling'', NVS_I8, - 12, 0), (''amp_gpio'', NVS_I8, - 1, 48), (''amp_standby_min'', NVS_I8, 0, 120)]"

definition key_ok :: "string \<Rightarrow> nvs_value \<Rightarrow> bool" where
  "key_ok k v = (case map_of key_ranges k of
     None \<Rightarrow> True
   | Some (t, lo, hi) \<Rightarrow> (case v of V_int u i \<Rightarrow> u = t \<longrightarrow> lo \<le> i \<and> i \<le> hi | _ \<Rightarrow> True))"

definition stored_ok :: "'n nvs_view \<Rightarrow> 'n settings \<Rightarrow> bool" where
  "stored_ok view s \<longleftrightarrow> (\<forall>k v. view (st_nvs s) NVS_NAMESPACE k = Some v \<longrightarrow> key_ok k v) \<and> 0 \<le> g_max_gain s \<and> g_max_gain s \<le> 100"

text \<open>One call of any operation that changes the settings, whether it succeeds or not, and the restart of the device.\<close>

inductive settings_step :: "'n nvs_lib \<Rightarrow> (bytes \<Rightarrow> bytes option) \<Rightarrow> 'n settings \<Rightarrow> 'n settings \<Rightarrow> bool" for L sha where
  reboot: "settings_step L sha s (snd (settings_init L (settings_boot (st_nvs s))))"
| volume: "settings_step L sha s (snd (settings_set_volume v s))"
| persist: "settings_step L sha s (snd (settings_persist_volume L s))"
| bt_get: "settings_step L sha s (snd (settings_get_bt_volume L s))"
| bt_set: "settings_step L sha s (snd (settings_set_bt_volume b s))"
| bt_persist: "settings_step L sha s (snd (settings_persist_bt_volume L s))"
| wifi: "settings_step L sha s (snd (settings_set_wifi_credentials L ssid pw s))"
| name: "settings_step L sha s (snd (settings_set_device_name L nm s))"
| max_gain: "settings_step L sha s (snd (settings_set_max_gain L percent s))"
| eq: "settings_step L sha s (snd (settings_set_eq_gains L gains s))"
| eq_clear: "settings_step L sha s (snd (settings_clear_eq L s))"
| password: "settings_step L sha s (snd (settings_set_device_password L sha pw s))"
| matrix: "settings_step L sha s (snd (settings_set_matrix L en fx br din clk cs s))"
| argb: "settings_step L sha s (snd (settings_set_argb L en gpio count fx br color speed music s))"
| tone: "settings_step L sha s (snd (settings_set_tone L en bass mid treble hpf s))"
| mqtt: "settings_step L sha s (snd (settings_set_mqtt L en host port user pass s))"
| buttons: "settings_step L sha s (snd (settings_set_buttons L pp vu vd nx pv s))"
| protection: "settings_step L sha s (snd (settings_set_protection L en ceil gpio high stby s))"
| channel: "settings_step L sha s (snd (settings_set_channel_mode L mode s))"

lemma save_keys_ok:
  assumes "nvs_laws L view" "stored_ok view s" "\<forall>(k, v) \<in> set kvs. key_ok k v"
  shows "stored_ok view (snd (save_keys L kvs s))"
proof -
  have "st_nvs (snd (save_keys L kvs s)) = snd (nvs_save L NVS_NAMESPACE kvs (st_nvs s))"
    "g_max_gain (snd (save_keys L kvs s)) = g_max_gain s"
    by (simp_all add: save_keys_def split: prod.splits)
  then show ?thesis using assms nvs_save_values [OF assms(1), of NVS_NAMESPACE kvs "st_nvs s" NVS_NAMESPACE]
    by (fastforce simp: stored_ok_def)
qed

lemma stored_ok_cached [simp]:
  "stored_ok view (s\<lparr>g_has_device_pw := b\<rparr>) = stored_ok view s"
  "stored_ok view (s\<lparr>g_eq_gains := gs, g_eq_loaded := b\<rparr>) = stored_ok view s"
  by (simp_all add: stored_ok_def)

lemma color_masked: "uint (color AND 0xFFFFFF :: u32) \<le> 0xFFFFFF"
proof -
  have "color AND 0xFFFFFF \<le> (0xFFFFFF :: u32)" by (rule word_and_le1)
  then have "uint (color AND 0xFFFFFF) \<le> uint (0xFFFFFF :: u32)" by (simp only: word_le_def)
  then show ?thesis by simp
qed

lemmas key_ok_simps = key_ok_def key_ranges_def pin_ok_def tone_gain_ok_def

lemma settings_load_fields:
  "st_nvs (settings_load L s) = st_nvs s"
  "g_max_gain (settings_load L s) = (case nvs_get_int L (st_nvs s) NVS_NAMESPACE NVS_I32 ''max_gain'' of
     Inr g \<Rightarrow> if g < 0 then 0 else if g > 100 then 100 else g | Inl _ \<Rightarrow> g_max_gain s)"
  by (auto simp: settings_load_def Let_def split: sum.splits)

lemma clear_eq_ok:
  assumes "nvs_laws L view" "stored_ok view s"
  shows "stored_ok view (snd (settings_clear_eq L s))"
proof -
  let ?n = "snd (nvs_open_rw L (st_nvs s) NVS_NAMESPACE)"
  let ?m = "snd (nvs_erase_key L ?n NVS_NAMESPACE ''eq_gains'')"
  have v: "view ?n = view (st_nvs s)" by (rule nvs_write(1) [OF assms(1)])
  have w: "view ?m \<in> {view ?n, view_put (view ?n) NVS_NAMESPACE ''eq_gains'' None}" by (rule nvs_write(7) [OF assms(1)])
  have c: "view (snd (nvs_commit L ?m NVS_NAMESPACE)) = view ?m" by (rule nvs_write(3) [OF assms(1)])
  have "view (st_nvs (snd (settings_clear_eq L s))) \<in> {view ?n, view ?m}"
    "g_max_gain (snd (settings_clear_eq L s)) = g_max_gain s"
    using c by (auto simp: settings_clear_eq_def split: prod.splits)
  with v w assms(2) show ?thesis by (auto simp: stored_ok_def split: if_splits)
qed

lemma cast_le:
  "0 \<le> p \<Longrightarrow> p \<le> 255 \<Longrightarrow> to_u8 p = p" "- 128 \<le> p \<Longrightarrow> p \<le> 127 \<Longrightarrow> to_i8 p = p" "0 \<le> p \<Longrightarrow> p \<le> 65535 \<Longrightarrow> to_u16 p = p"
  by (auto simp: to_i8_def to_u8_def to_u16_def intro!: signed_take_bit_int_eq_self take_bit_int_eq_self)

lemma stored_ok_gain: "stored_ok view s \<Longrightarrow> 0 \<le> g \<Longrightarrow> g \<le> 100 \<Longrightarrow> stored_ok view (s\<lparr>g_max_gain := g\<rparr>)"
  by (simp add: stored_ok_def)

lemma settings_step_ok:
  assumes "settings_step L sha s s'" "nvs_laws L view" "stored_ok view s"
  shows "stored_ok view s'"
  using assms(1)
proof cases
  case reboot
  have "0 \<le> g_max_gain (settings_load L (settings_boot (st_nvs s))) \<and> g_max_gain (settings_load L (settings_boot (st_nvs s))) \<le> 100"
    by (auto simp: settings_load_fields settings_boot_def split: sum.splits)
  then show ?thesis
    using assms(3) by (auto simp: reboot settings_init_def stored_ok_def settings_load_fields) (auto simp: settings_boot_def)
next
  case (volume v)
  then show ?thesis using assms(3) by (auto simp: settings_set_volume_def stored_ok_def)
next
  case persist
  then show ?thesis using assms(3) by (simp add: settings_persist_volume_def key_ok_simps save_keys_ok [OF assms(2,3)])
next
  case bt_get
  then show ?thesis using assms(3) by (auto simp: settings_get_bt_volume_def stored_ok_def Let_def split: sum.splits)
next
  case (bt_set b)
  then show ?thesis using assms(3) by (auto simp: settings_set_bt_volume_def stored_ok_def)
next
  case bt_persist
  then show ?thesis using assms(3) by (simp add: settings_persist_bt_volume_def key_ok_simps save_keys_ok [OF assms(2,3)])
next
  case (wifi ssid pw)
  then show ?thesis using assms(3) by (simp add: settings_set_wifi_credentials_def key_ok_simps save_keys_ok [OF assms(2,3)])
next
  case (name nm)
  then show ?thesis using assms(3) by (simp add: settings_set_device_name_def key_ok_simps save_keys_ok [OF assms(2,3)])
next
  case (max_gain percent)
  then show ?thesis using assms(3) by (simp add: settings_set_max_gain_def Let_def key_ok_simps) (auto simp: key_ok_simps intro!: save_keys_ok [OF assms(2)] intro: stored_ok_gain)
next
  case (eq gains)
  have "stored_ok view (snd (save_keys L [(''eq_gains'', V_blob gains)] s))"
    using assms by (intro save_keys_ok) (auto simp: key_ok_simps)
  then show ?thesis using assms(3)
    by (cases "save_keys L [(''eq_gains'', V_blob gains)] s") (simp add: eq settings_set_eq_gains_def)
next
  case eq_clear
  then show ?thesis using clear_eq_ok [OF assms(2,3)] by simp
next
  case (password pw)
  have k: "stored_ok view (snd (save_keys L [(''dev_pw'', V_blob d)] s))" for d
    using assms by (intro save_keys_ok) (auto simp: key_ok_simps)
  have "stored_ok view (snd (case save_keys L [(''dev_pw'', V_blob d)] s of (err, s) \<Rightarrow>
      (err, if err = ESP_OK then s\<lparr>g_has_device_pw := True\<rparr> else s)))" for d
    using k [of d] by (cases "save_keys L [(''dev_pw'', V_blob d)] s") simp
  then show ?thesis using assms(3) by (simp add: password settings_set_device_password_def split: option.splits)
next
  case (matrix en fx br din clk cs)
  then show ?thesis using assms(3) by (simp add: settings_set_matrix_def key_ok_simps cast_le save_keys_ok [OF assms(2,3)])
next
  case (argb en gpio count fx br color speed music)
  then show ?thesis using assms(3) color_masked [of color]
    by (simp add: settings_set_argb_def key_ok_simps cast_le save_keys_ok [OF assms(2,3)])
next
  case (tone en bass mid treble hpf)
  then show ?thesis using assms(3) by (simp add: settings_set_tone_def key_ok_simps cast_le save_keys_ok [OF assms(2,3)])
next
  case (mqtt en host port user pass)
  then show ?thesis using assms(3) by (simp add: settings_set_mqtt_def key_ok_simps save_keys_ok [OF assms(2,3)] split: option.splits)
next
  case (buttons pp vu vd nx pv)
  then show ?thesis using assms(3) by (simp add: settings_set_buttons_def key_ok_simps cast_le save_keys_ok [OF assms(2,3)])
next
  case (protection en ceil gpio high stby)
  then show ?thesis using assms(3) by (simp add: settings_set_protection_def key_ok_simps cast_le save_keys_ok [OF assms(2,3)])
next
  case (channel mode)
  then show ?thesis using assms(3) by (simp add: settings_set_channel_mode_def key_ok_simps cast_le save_keys_ok [OF assms(2,3)])
qed

text \<open>What the drivers read is in range when the stored values are.\<close>

lemma get_int_or_range:
  assumes "nvs_laws L view" "stored_ok view s" "map_of key_ranges k = Some (t, lo, hi)" "lo \<le> d" "d \<le> hi"
  shows "lo \<le> get_int_or L s t k d \<and> get_int_or L s t k d \<le> hi"
proof -
  from nvs_int_or_cases [OF assms(1), of "st_nvs s" NVS_NAMESPACE t k d] show ?thesis
  proof
    assume "view (st_nvs s) NVS_NAMESPACE k = Some (V_int t (nvs_int_or L (st_nvs s) NVS_NAMESPACE t k d))"
    with assms(2,3) show ?thesis by (fastforce simp: stored_ok_def key_ok_def get_int_or_def)
  qed (use assms in \<open>simp add: get_int_or_def\<close>)
qed

lemma settings_run_ok: "(settings_step L sha)\<^sup>*\<^sup>* s s' \<Longrightarrow> nvs_laws L view \<Longrightarrow> stored_ok view s \<Longrightarrow> stored_ok view s'"
  by (induction rule: rtranclp_induct) (auto intro: settings_step_ok)

lemma fresh_stored_ok: "\<forall>k. view n NVS_NAMESPACE k = None \<Longrightarrow> stored_ok view (settings_boot n)"
  by (simp add: stored_ok_def settings_boot_def)

text \<open>
  C23. Starting from an empty flash store, after any sequence of setter calls (successful, rejected or failing half way)
  and restarts, the values the drivers read are in the ranges they rely on: the strip has 1 to 300 LEDs, speed 1 to 10 and an
  effect number the renderer knows, every pin is \<open>-1\<close> or a GPIO number, the limiter ceiling is between -12 and 0 dB, and the output gain never amplifies.
\<close>

theorem settings_in_range:
  assumes "nvs_laws L view" "\<forall>k. view n NVS_NAMESPACE k = None" "(settings_step L sha)\<^sup>*\<^sup>* (settings_boot n) s"
    and "settings_get_argb L s = (en, gpio, count, fx, br, color, speed, music)"
    and "settings_get_matrix L s = (men, mfx, mbr, din, clk, cs)"
    and "settings_get_protection L s = (limited, ceil, amp, high, stby)"
  shows "count \<in> {1..300} \<and> speed \<in> {1..10} \<and> fx \<in> {0..11} \<and> br \<in> {0..255} \<and> gpio \<in> {- 1..48}
    \<and> mfx \<in> {0..3} \<and> mbr \<in> {0..15} \<and> {din, clk, cs, amp} \<subseteq> {- 1..48} \<and> ceil \<in> {- 12..0} \<and> stby \<in> {0..120}
    \<and> settings_get_max_gain_q15 s \<in> {0..32768}"
proof -
  have ok: "stored_ok view s" by (rule settings_run_ok [OF assms(3) assms(1) fresh_stored_ok [of view n, OF assms(2)]])
  note r = get_int_or_range [OF assms(1) ok]
  have "0 \<le> g_max_gain s" "g_max_gain s \<le> 100" using ok by (simp_all add: stored_ok_def)
  then have "settings_get_max_gain_q15 s \<in> {0..32768}" by (simp add: settings_get_max_gain_q15_def) linarith
  moreover have "count \<in> {1..300}" "speed \<in> {1..10}" "fx \<in> {0..11}" "br \<in> {0..255}" "gpio \<in> {- 1..48}"
    using assms(4) r [of "''argb_count''" NVS_U16 1 300 30] r [of "''argb_speed''" NVS_U8 1 10 5] r [of "''argb_fx''" NVS_U8 0 11 0]
      r [of "''argb_br''" NVS_U8 0 255 128] r [of "''argb_gpio''" NVS_I8 "- 1" 48 8]
    by (auto simp: settings_get_argb_def key_ranges_def)
  moreover have "mfx \<in> {0..3}" "mbr \<in> {0..15}" "din \<in> {- 1..48}" "clk \<in> {- 1..48}" "cs \<in> {- 1..48}"
    using assms(5) r [of "''matrix_fx''" NVS_U8 0 3 0] r [of "''matrix_br''" NVS_U8 0 15 4] r [of "''matrix_din''" NVS_I8 "- 1" 48 4]
      r [of "''matrix_clk''" NVS_I8 "- 1" 48 5] r [of "''matrix_cs''" NVS_I8 "- 1" 48 6]
    by (auto simp: settings_get_matrix_def key_ranges_def)
  moreover have "ceil \<in> {- 12..0}" "amp \<in> {- 1..48}" "stby \<in> {0..120}"
    using assms(6) r [of "''lim_ceiling''" NVS_I8 "- 12" 0 "- 1"] r [of "''amp_gpio''" NVS_I8 "- 1" 48 "- 1"]
      r [of "''amp_standby_min''" NVS_I8 0 120 5]
    by (auto simp: settings_get_protection_def key_ranges_def)
  ultimately show ?thesis by simp
qed

theorem settings_in_range_witness:
  "let s = snd (settings_set_argb demo_nvs True 7 300 11 200 0xABCDEF 10 True (demo_settings 4)) in
   settings_get_argb demo_nvs s = (True, 7, 300, 11, 128, 0x2080FF, 5, False) \<and> (300::int) \<in> {1..300}"
proof -
  let ?s = "snd (settings_set_argb demo_nvs True 7 300 11 200 0xABCDEF 10 True (demo_settings 4))"
  have s: "(settings_step demo_nvs Some)\<^sup>*\<^sup>* (settings_boot \<lparr>df_data = [], df_room = 4\<rparr>) ?s"
    by (rule r_into_rtranclp) (simp add: demo_settings_def settings_step.argb)
  have e: "\<forall>k. demo_view \<lparr>df_data = [], df_room = 4\<rparr> NVS_NAMESPACE k = None" by (simp add: demo_view_def)
  have g: "settings_get_argb demo_nvs ?s = (True, 7, 300, 11, 128, 0x2080FF, 5, False)"
    "settings_get_matrix demo_nvs ?s = (False, 0, 4, 4, 5, 6)"
    "settings_get_protection demo_nvs ?s = (True, - 1, - 1, True, 5)"
    by code_simp+
  from settings_in_range [OF demo_nvs_laws e s g] g(1) show ?thesis by (simp add: Let_def)
qed

section \<open>Password and volume\<close>

lemma ct_diff_fold: "foldl (\<lambda>d i. d OR (a ! i XOR b ! i)) x [0..<n] = 0 \<longleftrightarrow> x = 0 \<and> (\<forall>i < n. a ! i = (b ! i :: u8))"
proof (induction n)
  case (Suc n)
  have "(y OR z = 0) \<longleftrightarrow> y = 0 \<and> z = 0" for y z :: u8
    by (metis or_eq_0_iff)
  moreover have "(y XOR z = 0) \<longleftrightarrow> y = z" for y z :: u8
    by (auto simp: bit_eq_iff bit_xor_iff)
  ultimately show ?case using Suc by (auto simp: less_Suc_eq)
qed simp

lemma ct_diff_eq: "length a = DEVICE_PW_DIGEST_LEN \<Longrightarrow> length b = DEVICE_PW_DIGEST_LEN \<Longrightarrow> ct_diff a b = 0 \<longleftrightarrow> a = b"
  using ct_diff_fold [of a b 0 DEVICE_PW_DIGEST_LEN] by (auto simp: ct_diff_def intro: nth_equalityI)

text \<open>
  Once a password has been saved, a candidate is accepted exactly when its digest is the saved password's, also after the device restarts.
\<close>

theorem password_checked:
  assumes "nvs_laws L view" "\<And>m d. sha m = Some d \<Longrightarrow> length d = 32"
    and "settings_set_device_password L sha pw s = (ESP_OK, s')" and "t \<in> {s', snd (settings_init L (settings_boot (st_nvs s')))}"
  shows "settings_check_device_password L sha candidate t \<longleftrightarrow> (sha candidate = sha pw)"
proof -
  obtain d where d: "sha pw = Some d" and k: "fst (save_keys L [(''dev_pw'', V_blob d)] s) = ESP_OK"
    and s': "s' = (snd (save_keys L [(''dev_pw'', V_blob d)] s))\<lparr>g_has_device_pw := True\<rparr>"
    using assms(3) by (auto simp: settings_set_device_password_def split: if_splits option.splits prod.splits)
  from d have len: "length d = 32" by (rule assms(2))
  have v: "view (st_nvs s') NVS_NAMESPACE ''dev_pw'' = Some (V_blob d)"
    using save_keys_OK(1) [OF assms(1), of "[(''dev_pw'', V_blob d)]" s "snd (save_keys L [(''dev_pw'', V_blob d)] s)"] k
    by (simp add: s' prod_eq_iff)
  have o: "nvs_open_ro L (st_nvs s') NVS_NAMESPACE = ESP_OK" by (rule nvs_read(1) [OF assms(1), OF v])
  have b: "nvs_get_blob L (st_nvs s') NVS_NAMESPACE ''dev_pw'' DEVICE_PW_DIGEST_LEN = Inr d"
    using nvs_read(6) [OF assms(1), OF v, of DEVICE_PW_DIGEST_LEN] len by (simp add: DEVICE_PW_DIGEST_LEN_def)
  have z: "nvs_blob_size L (st_nvs s') NVS_NAMESPACE ''dev_pw'' = Inr 32" using nvs_read(8) [OF assms(1), OF v] len by simp
  have t: "st_nvs t = st_nvs s' \<and> g_has_device_pw t"
  proof (cases "t = s'")
    case False
    with assms(4) o have t: "t = settings_load L (settings_boot (st_nvs s'))" by (auto simp: settings_init_def settings_boot_def)
    have n: "st_nvs (settings_boot (st_nvs s')) = st_nvs s'" by (simp add: settings_boot_def)
    have "st_nvs t = st_nvs s'" unfolding t settings_load_fields(1) n ..
    moreover have "g_has_device_pw t"
      using z unfolding t settings_load_def Let_def n by (simp add: DEVICE_PW_DIGEST_LEN_def split: sum.splits)
    ultimately show ?thesis by simp
  qed (simp add: s')
  show ?thesis
  proof (cases "sha candidate")
    case None
    then show ?thesis using d by (simp add: settings_check_device_password_def)
  next
    case (Some c)
    then have "length c = 32" by (rule assms(2))
    with len have "ct_diff c d = 0 \<longleftrightarrow> c = d" by (simp add: ct_diff_eq DEVICE_PW_DIGEST_LEN_def)
    then show ?thesis using Some t o b len d by (simp add: settings_check_device_password_def DEVICE_PW_DIGEST_LEN_def)
  qed
qed

definition demo_sha :: "bytes \<Rightarrow> bytes option" where
  "demo_sha m = Some (take 32 (m @ replicate 32 0))"

theorem password_checked_witness:
  "settings_check_device_password demo_nvs demo_sha (asc ''secret'')
     (snd (settings_set_device_password demo_nvs demo_sha (asc ''secret'') (demo_settings 3)))"
proof -
  let ?r = "settings_set_device_password demo_nvs demo_sha (asc ''secret'') (demo_settings 3)"
  have "fst ?r = ESP_OK" by code_simp
  then have r: "?r = (ESP_OK, snd ?r)" by (metis prod.collapse)
  have l: "\<And>m d. demo_sha m = Some d \<Longrightarrow> length d = 32" by (auto simp: demo_sha_def)
  show ?thesis by (subst password_checked [OF demo_nvs_laws l r]) simp_all
qed

text \<open>
  The volume drifts: it is stored in hundredths of a decibel, truncated from a \<open>float\<close>. Restarting with -20.47 dB stored and saving the untouched
  volume at the end of a session stores -20.46 dB.
\<close>

theorem volume_drifts:
  assumes "nvs_laws L view" "view n NVS_NAMESPACE ''volume_db'' = Some (V_int NVS_I32 (- 2047))"
    and "settings_persist_volume L (snd (settings_init L (settings_boot n))) = (ESP_OK, s)"
  shows "view (st_nvs s) NVS_NAMESPACE ''volume_db'' = Some (V_int NVS_I32 (- 2046))"
proof -
  let ?t = "settings_load L (settings_boot n)"
  have o: "nvs_open_ro L n NVS_NAMESPACE = ESP_OK" by (rule nvs_read(1) [OF assms(1), OF assms(2)])
  have g: "nvs_get_int L n NVS_NAMESPACE NVS_I32 ''volume_db'' = Inr (- 2047)" by (rule nvs_read(2) [OF assms(1), OF assms(2)])
  have n: "st_nvs (settings_boot n) = n" by (simp add: settings_boot_def)
  have t: "g_volume_loaded ?t \<and> g_volume_db ?t = f_div (f_of_int (- 2047)) (f_of_int 100)"
    unfolding settings_load_def Let_def n g by (simp split: sum.splits)
  have e: "f_to_i32 (f_mul (f_div (f_of_int (- 2047)) (f_of_int 100)) (f_of_int 100)) = - 2046" by code_simp
  have "save_keys L [(''volume_db'', V_int NVS_I32 (- 2046))] ?t = (ESP_OK, s)"
    using assms(3) t e o n by (simp add: settings_init_def settings_persist_volume_def)
  from save_keys_OK(1) [OF assms(1) this] show ?thesis by simp
qed

theorem volume_drifts_witness:
  "demo_view (st_nvs (snd (settings_persist_volume demo_nvs (snd (settings_init demo_nvs (settings_boot
     \<lparr>df_data = [((NVS_NAMESPACE, ''volume_db''), V_int NVS_I32 (- 2047))], df_room = 1\<rparr>))))))
     NVS_NAMESPACE ''volume_db'' = Some (V_int NVS_I32 (- 2046))"
proof -
  let ?n = "\<lparr>df_data = [((NVS_NAMESPACE, ''volume_db''), V_int NVS_I32 (- 2047))], df_room = 1\<rparr>"
  let ?r = "settings_persist_volume demo_nvs (snd (settings_init demo_nvs (settings_boot ?n)))"
  have "fst ?r = ESP_OK" by code_simp
  then have r: "?r = (ESP_OK, snd ?r)" by (metis prod.collapse)
  have v: "demo_view ?n NVS_NAMESPACE ''volume_db'' = Some (V_int NVS_I32 (- 2047))" by (simp add: demo_view_def)
  show ?thesis by (rule volume_drifts [OF demo_nvs_laws v r])
qed

text \<open>
  A failed save of the output gain cannot be repeated: the value is already cached, so the next call with it reports success and writes nothing.
\<close>

theorem max_gain_retry_lost:
  assumes "settings_set_max_gain L percent s = (err, s')"
  shows "settings_set_max_gain L percent s' = (ESP_OK, s')"
proof -
  let ?p = "if percent < 0 then 0 else if percent > 100 then 100 else percent"
  have "g_max_gain (snd (save_keys L kvs t)) = g_max_gain t" for kvs t
    by (simp add: save_keys_def split: prod.splits)
  from this [of "[(''max_gain'', V_int NVS_I32 ?p)]" "s\<lparr>g_max_gain := ?p\<rparr>"]
  have "g_max_gain s' = ?p" using assms by (cases "?p = g_max_gain s") (auto simp: settings_set_max_gain_def Let_def)
  then show ?thesis by (simp add: settings_set_max_gain_def Let_def)
qed

theorem max_gain_retry_lost_witness:
  "settings_set_max_gain demo_nvs 50 (snd (settings_set_max_gain demo_nvs 50 (demo_settings 0)))
     = (ESP_OK, snd (settings_set_max_gain demo_nvs 50 (demo_settings 0)))
   \<and> fst (settings_set_max_gain demo_nvs 50 (demo_settings 0)) = ESP_FAIL"
proof -
  have "fst (settings_set_max_gain demo_nvs 50 (demo_settings 0)) = ESP_FAIL" by code_simp
  then show ?thesis using max_gain_retry_lost [of demo_nvs 50 "demo_settings 0"] by (metis prod.collapse)
qed

end
