(* ===== verification/Audio_Limiter.thy ===== *)
theory Audio_Limiter imports Settings begin

text \<open>
  The peak limiter before the output, main/audio/audio_limiter.c, in IEEE single precision.
  powf and expf of the C library are arguments with their documented range, the output rate is
  that of the build configuration.  The lemmas show that no sample exceeds the ceiling by
  more than its rounding, that a signal below the ceiling passes bit for bit until the first peak, and
  that after it the gain never returns to one.
\<close>

section \<open>The limiter\<close>

record libm =
  lib_powf :: "f32 \<Rightarrow> f32 \<Rightarrow> f32"
  lib_expf :: "f32 \<Rightarrow> f32"

record limiter =
  g_enabled :: bool
  g_threshold :: f32
  g_gain :: f32
  g_release_coef :: f32

definition LIM_RELEASE_MS :: f32 where "LIM_RELEASE_MS = Fin 150"
definition LIM_FULL_SCALE :: f32 where "LIM_FULL_SCALE = Fin 32767"

definition limiter_boot :: limiter where
  "limiter_boot = \<lparr>g_enabled = False, g_threshold = LIM_FULL_SCALE, g_gain = Fin 1, g_release_coef = Fin 0\<rparr>"

definition coef_from_ms :: "libm \<Rightarrow> int \<Rightarrow> f32 \<Rightarrow> f32" where
  "coef_from_ms M rate ms = (if f_le ms (Fin 0) then Fin 0
     else lib_expf M (f_div (Fin (- 1)) (f_mul (f_div ms (Fin 1000)) (f_of_int rate))))"

text \<open>lrintf rounds to even; outside of the range of long the result is not specified, taken like the conversion.\<close>

definition lrintf :: "f32 \<Rightarrow> int" where
  "lrintf v = (case v of Fin x \<Rightarrow> rne x | _ \<Rightarrow> f_to_i32 v)"

definition clamp_i16 :: "f32 \<Rightarrow> int" where
  "clamp_i16 v = (if f_less (Fin 32767) v then 32767 else if f_less v (Fin (- 32768)) then - 32768
     else signed_take_bit 15 (lrintf v))"

definition audio_limiter_set :: "libm \<Rightarrow> int \<Rightarrow> bool \<Rightarrow> int \<Rightarrow> limiter \<Rightarrow> limiter" where
  "audio_limiter_set M rate enabled ceiling_db s =
     (let ceiling_db = (if ceiling_db > 0 then 0 else if ceiling_db < - 12 then - 12 else ceiling_db);
        s = s\<lparr>g_threshold := f_mul LIM_FULL_SCALE (lib_powf M (Fin 10) (f_div (f_of_int ceiling_db) (Fin 20))),
              g_release_coef := coef_from_ms M rate LIM_RELEASE_MS, g_enabled := enabled\<rparr>
      in if enabled then s else s\<lparr>g_gain := Fin 1\<rparr>)"

definition audio_limiter_init :: "libm \<Rightarrow> int \<Rightarrow> 'n nvs_lib \<Rightarrow> 'n settings \<Rightarrow> limiter \<Rightarrow> limiter" where
  "audio_limiter_init M rate L st s = (case settings_get_protection L st of (en, ceil, _) \<Rightarrow> audio_limiter_set M rate en ceil s)"

definition target_gain :: "f32 \<Rightarrow> f32 \<Rightarrow> f32 \<Rightarrow> f32" where
  "target_gain threshold l r = (let peak = f_abs l; ar = f_abs r; peak = (if f_less peak ar then ar else peak)
     in if f_less threshold peak then f_div threshold peak else Fin 1)"

definition next_gain :: "f32 \<Rightarrow> f32 \<Rightarrow> f32 \<Rightarrow> f32" where
  "next_gain release target gain = (if f_less target gain then target else f_add target (f_mul release (f_sub gain target)))"

fun limit_loop :: "f32 \<Rightarrow> f32 \<Rightarrow> f32 \<Rightarrow> int list \<Rightarrow> f32 \<times> int list" where
  "limit_loop threshold release gain (b0 # b1 # rest) =
     (let l = f_of_int b0; r = f_of_int b1; gain = next_gain release (target_gain threshold l r) gain;
        (g, out) = limit_loop threshold release gain rest
      in (g, clamp_i16 (f_mul l gain) # clamp_i16 (f_mul r gain) # out))"
| "limit_loop threshold release gain buf = (gain, buf)"

definition audio_limiter_process :: "int list \<Rightarrow> limiter \<Rightarrow> int list \<times> limiter" where
  "audio_limiter_process buf s = (if \<not> g_enabled s then (buf, s)
     else let (gain, out) = limit_loop (g_threshold s) (g_release_coef s) (g_gain s) buf in (out, s\<lparr>g_gain := gain\<rparr>))"

section \<open>The gain\<close>

definition unit_float :: "f32 \<Rightarrow> bool" where
  "unit_float f \<longleftrightarrow> (\<exists>x. f = Fin x \<and> 0 \<le> x \<and> x \<le> 1 \<and> rnd x = x)"

definition ceiling_float :: "f32 \<Rightarrow> bool" where
  "ceiling_float f \<longleftrightarrow> (\<exists>t. f = Fin t \<and> 4000 \<le> t \<and> t \<le> 32767 \<and> rnd t = t)"

definition limiter_ok :: "limiter \<Rightarrow> bool" where
  "limiter_ok s \<longleftrightarrow> ceiling_float (g_threshold s) \<and> unit_float (g_gain s) \<and> unit_float (g_release_coef s)"

text \<open>What is used of the C library: powf for the thirteen ceilings, which are above a quarter, and expf of a negative number.\<close>

definition libm_ok :: "libm \<Rightarrow> bool" where
  "libm_ok M \<longleftrightarrow> (\<forall>c. - 12 \<le> c \<longrightarrow> c \<le> 0 \<longrightarrow> (\<exists>p. lib_powf M (Fin 10) (f_div (f_of_int c) (Fin 20)) = Fin p \<and> 1 / 8 \<le> p \<and> p \<le> 1))
     \<and> (\<forall>x. unit_float (lib_expf M x) \<or> \<not> f_le x (Fin 0))"

definition int16_list :: "int list \<Rightarrow> bool" where
  "int16_list xs \<longleftrightarrow> (\<forall>x \<in> set xs. - 32768 \<le> x \<and> x \<le> 32767)"

lemma of_int16: "- 32768 \<le> x \<Longrightarrow> x \<le> 32767 \<Longrightarrow> f_of_int x = Fin (of_int x)"
  by (rule f_of_int_small) simp

definition peak_of :: "int \<Rightarrow> int \<Rightarrow> rat" where
  "peak_of b0 b1 = max \<bar>of_int b0\<bar> \<bar>of_int b1\<bar>"

lemma target_Fin:
  assumes "ceiling_float threshold" "threshold = Fin t" "- 32768 \<le> b0" "b0 \<le> 32767" "- 32768 \<le> b1" "b1 \<le> 32767"
  shows "target_gain threshold (f_of_int b0) (f_of_int b1) = Fin (if t < peak_of b0 b1 then rnd (t / peak_of b0 b1) else 1)"
proof -
  have t: "4000 \<le> t" "t \<le> 32767" using assms(1,2) by (auto simp: ceiling_float_def)
  let ?p = "peak_of b0 b1"
  have p: "(if f_less (f_abs (f_of_int b0)) (f_abs (f_of_int b1)) then f_abs (f_of_int b1) else f_abs (f_of_int b0)) = Fin ?p"
    using assms by (auto simp: of_int16 f_abs_def f_less_def peak_of_def)
  have "fl (t / ?p) = Fin (rnd (t / ?p))" if "t < ?p"
  proof -
    have "t / ?p \<le> 1" using that t by (simp add: divide_le_eq_1)
    moreover have "0 \<le> t / ?p" using that t by simp
    ultimately show ?thesis by (intro fl_Fin) simp
  qed
  moreover have "?p \<noteq> 0" if "t < ?p" using that t by simp
  ultimately show ?thesis unfolding target_gain_def Let_def p assms(2) by (auto simp: f_less_def f_div_def)
qed

lemma target_unit:
  assumes "4000 \<le> t" "t < p" "rnd t = t"
  shows "0 \<le> rnd (t / p) \<and> rnd (t / p) \<le> 1"
  using assms by (intro conjI rnd_nonneg rnd_le) (simp_all add: divide_le_eq_1)

lemma next_gain_range:
  assumes "0 \<le> x" "x \<le> 1" "rnd x = x" "0 \<le> g" "g \<le> 1" "rnd g = g" "unit_float release"
  shows "\<exists>g'. next_gain release (Fin x) (Fin g) = Fin g' \<and> 0 \<le> g' \<and> g' \<le> x \<and> g' \<le> 1 \<and> rnd g' = g'"
proof (cases "x < g")
  case True
  then show ?thesis using assms by (simp add: next_gain_def f_less_def)
next
  case False
  obtain q where q: "release = Fin q" "0 \<le> q" "q \<le> 1" "rnd q = q" using assms(7) by (auto simp: unit_float_def)
  let ?d = "rnd (g - x)" and ?e = "rnd (q * rnd (g - x))"
  have nx: "rnd (- x) = - x" using assms(3) by (simp add: rnd_minus)
  have d: "- x \<le> ?d" "?d \<le> 0" using False assms nx by (intro rnd_ge rnd_le; simp)+
  have "q * ?d \<le> 0" using q d by (simp add: mult_nonneg_nonpos)
  moreover have "?d \<le> q * ?d" using q d mult_right_mono_neg [of q 1 ?d] by simp
  ultimately have e: "- x \<le> ?e" "?e \<le> 0" using d nx by (intro rnd_ge rnd_le; simp)+
  have s1: "f_sub (Fin g) (Fin x) = Fin ?d" using assms False by (simp add: f_sub_def f_neg_def f_add_def fl_Fin)
  have "\<bar>q * ?d\<bar> \<le> 65536" using \<open>q * ?d \<le> 0\<close> \<open>?d \<le> q * ?d\<close> d assms by simp
  then have s2: "f_mul release (Fin ?d) = Fin ?e" unfolding q(1) by (simp add: f_mul_def fl_Fin)
  have "\<bar>x + ?e\<bar> \<le> 65536" using e assms by simp
  then have s3: "f_add (Fin x) (Fin ?e) = Fin (rnd (x + ?e))" by (simp add: f_add_def fl_Fin)
  have "0 \<le> rnd (x + ?e)" "rnd (x + ?e) \<le> x" using e assms by (intro rnd_nonneg rnd_le; simp)+
  then show ?thesis using False s1 s2 s3 assms by (auto simp: next_gain_def f_less_def rnd_idem)
qed


text \<open>The gain for a frame is at most one and at most the ceiling over the peak, up to one rounding.\<close>

lemma frame_gain:
  assumes "ceiling_float threshold" "threshold = Fin t" "unit_float gain" "unit_float release"
    "- 32768 \<le> b0" "b0 \<le> 32767" "- 32768 \<le> b1" "b1 \<le> 32767"
  shows "\<exists>g. next_gain release (target_gain threshold (f_of_int b0) (f_of_int b1)) gain = Fin g
    \<and> 0 \<le> g \<and> g \<le> 1 \<and> rnd g = g \<and> peak_of b0 b1 * g \<le> t * (1 + 1 / 2 ^ 24)"
proof -
  let ?p = "peak_of b0 b1"
  have t: "4000 \<le> t" "t \<le> 32767" "rnd t = t" using assms(1,2) by (auto simp: ceiling_float_def)
  obtain g0 where g0: "gain = Fin g0" "0 \<le> g0" "g0 \<le> 1" "rnd g0 = g0" using assms(3) by (auto simp: unit_float_def)
  have tg: "target_gain threshold (f_of_int b0) (f_of_int b1) = Fin (if t < ?p then rnd (t / ?p) else 1)"
    using assms by (intro target_Fin)
  show ?thesis
  proof (cases "t < ?p")
    case True
    have p: "?p \<le> 32768" using assms(5-8) by (simp add: peak_of_def abs_le_iff)
    from target_unit [OF t(1) True t(3)] next_gain_range [OF _ _ rnd_idem g0(2-4) assms(4), of "t / ?p"] obtain g where
      g: "next_gain release (Fin (rnd (t / ?p))) (Fin g0) = Fin g" "0 \<le> g" "g \<le> rnd (t / ?p)" "g \<le> 1" "rnd g = g" by auto
    have "1 / 2 ^ 126 \<le> \<bar>t / ?p\<bar>"
    proof -
      have "1 / 2 ^ 126 * ?p \<le> 1 / 2 ^ 126 * 32768" using p by (intro mult_left_mono) simp_all
      also have "\<dots> \<le> t" using t(1) by simp
      finally have "1 / 2 ^ 126 \<le> t / ?p" using True t(1) by (subst le_divide_eq) simp
      moreover have "0 \<le> t / ?p" using True t(1) by simp
      ultimately show ?thesis by (simp only: abs_of_nonneg)
    qed
    from rnd_relative [OF this] True t have "rnd (t / ?p) \<le> t / ?p * (1 + 1 / 2 ^ 24)" by (simp add: abs_le_iff algebra_simps)
    with g(3) have "g \<le> t / ?p * (1 + 1 / 2 ^ 24)" by linarith
    then have "?p * g \<le> ?p * (t / ?p * (1 + 1 / 2 ^ 24))" using True t by (intro mult_left_mono) simp_all
    also have "\<dots> = t * (1 + 1 / 2 ^ 24)" using True t by simp
    finally show ?thesis using g True tg g0(1) by auto
  next
    case False
    from next_gain_range [of 1, OF _ _ _ g0(2-4) assms(4)] obtain g where
      g: "next_gain release (Fin 1) (Fin g0) = Fin g" "0 \<le> g" "g \<le> 1" "rnd g = g" by auto
    have "?p * g \<le> ?p * 1" using g by (intro mult_left_mono) (simp_all add: peak_of_def)
    also have "\<dots> \<le> t * 1" using False by simp
    also have "\<dots> \<le> t * (1 + 1 / 2 ^ 24)" using t by (intro mult_left_mono) simp_all
    finally show ?thesis using g False tg g0(1) by auto
  qed
qed

lemma scaled_sample:
  assumes "\<bar>of_int b\<bar> \<le> p" "0 \<le> g" "g \<le> 1" "p * g \<le> t * (1 + 1 / 2 ^ 24)" "4000 \<le> t" "t \<le> 32767" "- 32768 \<le> b" "b \<le> 32767"
  shows "\<bar>of_int (clamp_i16 (f_mul (f_of_int b) (Fin g)))\<bar> \<le> t + 51 / 100"
    and "clamp_i16 (f_mul (f_of_int b) (Fin g)) = rne (rnd (of_int b * g))"
    and "- 32768 \<le> clamp_i16 (f_mul (f_of_int b) (Fin g)) \<and> clamp_i16 (f_mul (f_of_int b) (Fin g)) \<le> 32767"
proof -
  let ?x = "of_int b * g"
  have "\<bar>?x\<bar> = \<bar>of_int b\<bar> * g" using assms by (simp add: abs_mult)
  also have "\<dots> \<le> p * g" using assms by (intro mult_right_mono)
  finally have x: "\<bar>?x\<bar> \<le> t * (1 + 1 / 2 ^ 24)" using assms(4) by linarith
  let ?B = "t * (1 + 1 / 2 ^ 24)"
  have "rnd \<bar>?x\<bar> \<le> rnd ?B" using x by (rule rnd_mono)
  moreover have "rnd ?B \<le> ?B + ?B / 2 ^ 24"
  proof -
    have "0 \<le> ?B" using assms(5) by simp
    then have a: "\<bar>?B\<bar> = ?B" by (rule abs_of_nonneg)
    have "1 / 2 ^ 126 \<le> ?B" using assms(5) by simp
    from rnd_relative [of ?B, unfolded a, OF this] show ?thesis by linarith
  qed
  moreover have "?B + ?B / 2 ^ 24 \<le> t + 1 / 100" using assms(6) by simp
  ultimately have r: "\<bar>rnd ?x\<bar> \<le> t + 1 / 100" unfolding rnd_abs by linarith
  have xb: "- 32768 \<le> ?x" "?x \<le> 32767"
  proof -
    have "\<bar>?x\<bar> \<le> \<bar>of_int b\<bar>" using assms(2,3) by (simp add: abs_mult mult_left_le)
    moreover have "b \<ge> 0 \<Longrightarrow> ?x \<ge> 0" "b < 0 \<Longrightarrow> ?x \<le> 0" using assms(2) by (simp_all add: mult_nonpos_nonneg)
    ultimately show "- 32768 \<le> ?x" "?x \<le> 32767" using assms(7,8) by linarith+
  qed
  have "rnd (32767 :: rat) = 32767" "rnd (- 32768 :: rat) = - 32768" using rnd_int [of 32767] rnd_int [of "- 32768"] by simp_all
  then have rb: "- 32768 \<le> rnd ?x" "rnd ?x \<le> 32767" using xb by (intro rnd_ge rnd_le; simp)+
  have m: "f_mul (f_of_int b) (Fin g) = Fin (rnd ?x)" using assms(7,8) xb by (simp add: of_int16 f_mul_def fl_Fin abs_le_iff)
  have n: "- 32768 \<le> rne (rnd ?x)" "rne (rnd ?x) \<le> 32767"
    using rne_mono [OF rb(1)] rne_mono [OF rb(2)] rne_int [of "- 32768"] by simp_all
  then have "signed_take_bit 15 (rne (rnd ?x)) = rne (rnd ?x)" by (intro signed_take_bit_int_eq_self) simp_all
  then show c: "clamp_i16 (f_mul (f_of_int b) (Fin g)) = rne (rnd ?x)"
    using rb unfolding m by (simp add: clamp_i16_def f_less_def lrintf_def)
  show "- 32768 \<le> clamp_i16 (f_mul (f_of_int b) (Fin g)) \<and> clamp_i16 (f_mul (f_of_int b) (Fin g)) \<le> 32767"
    unfolding c using n by simp
  have "\<bar>of_int (rne (rnd ?x))\<bar> \<le> \<bar>rnd ?x\<bar> + 1 / 2" using rne_error [of "rnd ?x"] by linarith
  then show "\<bar>of_int (clamp_i16 (f_mul (f_of_int b) (Fin g)))\<bar> \<le> t + 51 / 100" unfolding c using r by simp
qed

lemma peak_of_ge: "\<bar>of_int b0\<bar> \<le> peak_of b0 b1" "\<bar>of_int b1\<bar> \<le> peak_of b0 b1"
  by (simp_all add: peak_of_def)

lemma limit_loop_ok:
  "ceiling_float threshold \<Longrightarrow> threshold = Fin t \<Longrightarrow> unit_float release \<Longrightarrow> unit_float gain \<Longrightarrow> int16_list buf \<Longrightarrow> even (length buf) \<Longrightarrow>
    unit_float (fst (limit_loop threshold release gain buf)) \<and> length (snd (limit_loop threshold release gain buf)) = length buf
    \<and> int16_list (snd (limit_loop threshold release gain buf))
    \<and> (\<forall>x \<in> set (snd (limit_loop threshold release gain buf)). \<bar>of_int x\<bar> \<le> t + 51 / 100)"
proof (induction threshold release gain buf rule: limit_loop.induct)
  case (1 threshold release gain b0 b1 rest)
  have t: "4000 \<le> t" "t \<le> 32767" using 1(2,3) by (auto simp: ceiling_float_def)
  have b: "- 32768 \<le> b0" "b0 \<le> 32767" "- 32768 \<le> b1" "b1 \<le> 32767" using 1(6) by (auto simp: int16_list_def)
  let ?g = "next_gain release (target_gain threshold (f_of_int b0) (f_of_int b1)) gain"
  obtain g where g: "?g = Fin g" "0 \<le> g" "g \<le> 1" "rnd g = g" "peak_of b0 b1 * g \<le> t * (1 + 1 / 2 ^ 24)"
    using frame_gain [OF 1(2,3,5,4) b] by auto
  note s0 = scaled_sample [OF peak_of_ge(1) g(2,3,5) t b(1,2)] and s1 = scaled_sample [OF peak_of_ge(2) g(2,3,5) t b(3,4)]
  have u: "unit_float (Fin g)" using g by (auto simp: unit_float_def)
  have "int16_list rest" "even (length rest)" using 1(6,7) by (simp_all add: int16_list_def)
  note ih = "1.IH" [OF refl refl refl 1(2-4), unfolded g(1), OF u this]
  show ?case unfolding limit_loop.simps Let_def g(1) case_prod_beta fst_conv snd_conv
    using ih s0(1,3) s1(1,3) by (simp add: int16_list_def)
qed (auto simp: int16_list_def)


section \<open>The ceiling\<close>

datatype limiter_op = Set_limit bool int | Block "int list"

fun limiter_step :: "libm \<Rightarrow> int \<Rightarrow> limiter_op \<Rightarrow> limiter \<Rightarrow> limiter" where
  "limiter_step M rate (Set_limit en c) s = audio_limiter_set M rate en c s"
| "limiter_step M rate (Block buf) s = snd (audio_limiter_process buf s)"

definition limiter_run :: "libm \<Rightarrow> int \<Rightarrow> limiter_op list \<Rightarrow> limiter" where
  "limiter_run M rate ops = foldl (\<lambda>s p. limiter_step M rate p s) limiter_boot ops"

definition blocks_ok :: "limiter_op list \<Rightarrow> bool" where
  "blocks_ok ops \<longleftrightarrow> (\<forall>p \<in> set ops. case p of Block buf \<Rightarrow> int16_list buf \<and> even (length buf) | _ \<Rightarrow> True)"

lemma unit_floats [simp]: "unit_float (Fin 0)" "unit_float (Fin 1)"
  by (simp_all add: unit_float_def)

lemma boot_ok: "limiter_ok limiter_boot"
  using rnd_int [of 32767] by (simp add: limiter_ok_def limiter_boot_def ceiling_float_def LIM_FULL_SCALE_def)

lemma time_constant_sign: "0 < rate \<Longrightarrow> rate < 2 ^ 24 \<Longrightarrow> f_le (f_div (Fin (- 1)) (f_mul (f_div LIM_RELEASE_MS (Fin 1000)) (f_of_int rate))) (Fin 0)"
proof -
  assume r: "0 < rate" "rate < 2 ^ 24"
  let ?a = "rnd (150 / 1000 :: rat)"
  have "(1 :: rat) / 8 = of_int 1 * pow2 (- 3)" "(1 :: rat) / 4 = of_int 1 * pow2 (- 2)" by simp_all
  then have e: "rnd (1 / 8 :: rat) = 1 / 8" "rnd (1 / 4 :: rat) = 1 / 4" using rnd_exact [of 1 "- 3"] rnd_exact [of 1 "- 2"] by simp_all
  have a: "1 / 8 \<le> ?a" "?a \<le> 1 / 4" by (rule rnd_ge; simp add: e) (rule rnd_le; simp add: e)
  have ri: "1 \<le> (of_int rate :: rat)" "(of_int rate :: rat) < 2 ^ 24"
    using r by (simp, metis of_int_less_iff of_int_numeral of_int_power)
  let ?b = "rnd (?a * of_int rate)"
  have ab: "1 / 8 * 1 \<le> ?a * of_int rate" using a ri by (intro mult_mono) simp_all
  then have b: "1 / 8 \<le> ?b" by (intro rnd_ge) (simp_all add: e)
  have "?a * of_int rate \<le> 1 / 4 * 2 ^ 24" using a ri by (intro mult_mono) simp_all
  then have f1: "fl (?a * of_int rate) = Fin ?b" using ab by (intro fl_small) simp
  have f0: "f_div LIM_RELEASE_MS (Fin 1000) = Fin ?a" using fl_Fin [of "150 / 1000"] by (simp add: LIM_RELEASE_MS_def f_div_def)
  have f2: "f_mul (Fin ?a) (f_of_int rate) = Fin ?b" using r f1 by (simp add: f_of_int_small f_mul_def)
  have bp: "0 < ?b" using b by linarith
  then have "1 / ?b \<le> 8" using b by (simp add: divide_le_eq)
  then have "- 8 \<le> - 1 / ?b" "- 1 / ?b \<le> 0" using bp by simp_all
  moreover from this have "fl (- 1 / ?b) = Fin (rnd (- 1 / ?b))" by (intro fl_Fin) (simp add: abs_le_iff)
  moreover have "rnd (- 1 / ?b) \<le> 0" using \<open>- 1 / ?b \<le> 0\<close> by (intro rnd_le) simp_all
  moreover have "?b \<noteq> 0" using b by auto
  ultimately show ?thesis unfolding f0 f2 by (auto simp: f_div_def f_le_def f_less_def f_eq_def)
qed

lemma set_ok:
  assumes "libm_ok M" "0 < rate" "rate < 2 ^ 24" "limiter_ok s"
  shows "limiter_ok (audio_limiter_set M rate en c s)"
proof -
  define c' where "c' = (if c > 0 then 0 else if c < - 12 then - 12 else c)"
  then have "- 12 \<le> c'" "c' \<le> 0" by simp_all
  with assms(1) obtain p where p: "lib_powf M (Fin 10) (f_div (f_of_int c') (Fin 20)) = Fin p" "1 / 8 \<le> p" "p \<le> 1"
    unfolding libm_ok_def by blast
  have "rnd (32767 * p) \<le> 32767" "4000 \<le> rnd (32767 * p)"
    using p rnd_int [of 32767] rnd_int [of 4000] by (intro rnd_le rnd_ge; simp)+
  moreover have "f_mul LIM_FULL_SCALE (Fin p) = Fin (rnd (32767 * p))" using p by (simp add: LIM_FULL_SCALE_def f_mul_def fl_Fin)
  ultimately have "ceiling_float (f_mul LIM_FULL_SCALE (lib_powf M (Fin 10) (f_div (f_of_int c') (Fin 20))))"
    unfolding p(1) by (simp add: ceiling_float_def rnd_idem)
  moreover have "unit_float (coef_from_ms M rate LIM_RELEASE_MS)"
    using assms(1) time_constant_sign [OF assms(2,3)] by (auto simp: coef_from_ms_def libm_ok_def)
  ultimately show ?thesis using assms(4) by (simp add: audio_limiter_set_def limiter_ok_def c'_def [symmetric] Let_def)
qed

lemma process_ok:
  assumes "limiter_ok s" "int16_list buf" "even (length buf)" "g_threshold s = Fin t"
  shows "limiter_ok (snd (audio_limiter_process buf s)) \<and> length (fst (audio_limiter_process buf s)) = length buf
    \<and> int16_list (fst (audio_limiter_process buf s)) \<and> g_threshold (snd (audio_limiter_process buf s)) = Fin t
    \<and> (g_enabled s \<longrightarrow> (\<forall>x \<in> set (fst (audio_limiter_process buf s)). \<bar>of_int x\<bar> \<le> t + 51 / 100))"
  using assms limit_loop_ok [of "g_threshold s" t "g_release_coef s" "g_gain s" buf]
  by (simp add: audio_limiter_process_def limiter_ok_def case_prod_beta Let_def)

lemma run_ok:
  assumes "libm_ok M" "0 < rate" "rate < 2 ^ 24"
  shows "blocks_ok ops \<Longrightarrow> limiter_ok (limiter_run M rate ops)"
proof (induction ops rule: rev_induct)
  case (snoc p ops)
  then have ok: "limiter_ok (limiter_run M rate ops)" by (simp add: blocks_ok_def)
  then obtain t where "g_threshold (limiter_run M rate ops) = Fin t" by (auto simp: limiter_ok_def ceiling_float_def)
  with snoc ok process_ok [OF ok] set_ok [OF assms ok] show ?case by (cases p) (auto simp: limiter_run_def blocks_ok_def)
qed (simp add: limiter_run_def boot_ok)

text \<open>C34. The limiter keeps its promise: whatever blocks and settings came before, no sample of a block written while it is
  enabled exceeds the configured ceiling by more than its own rounding (51 hundredths of a unit), every sample
  fits into 16 bits, and the block keeps its length; disabled, it changes nothing.\<close>

theorem limiter_keeps_ceiling:
  assumes "libm_ok M" "0 < rate" "rate < 2 ^ 24" "blocks_ok ops" "int16_list buf" "even (length buf)"
  shows "\<exists>t. g_threshold (limiter_run M rate ops) = Fin t \<and> t \<le> 32767
    \<and> (case audio_limiter_process buf (limiter_run M rate ops) of (out, s') \<Rightarrow>
        length out = length buf \<and> int16_list out
        \<and> (if g_enabled (limiter_run M rate ops) then \<forall>x \<in> set out. \<bar>of_int x\<bar> \<le> t + 51 / 100 else out = buf))"
proof -
  have ok: "limiter_ok (limiter_run M rate ops)" using assms by (intro run_ok)
  then obtain t where t: "g_threshold (limiter_run M rate ops) = Fin t" "t \<le> 32767" by (auto simp: limiter_ok_def ceiling_float_def)
  show ?thesis using process_ok [OF ok assms(5,6) t(1)] t
    by (intro exI [of _ t]) (simp add: case_prod_beta audio_limiter_process_def)
qed

definition demo_libm :: libm where
  "demo_libm = \<lparr>lib_powf = (\<lambda>b x. Fin (1 / 2)), lib_expf = (\<lambda>x. Fin (8191 / 8192))\<rparr>"

lemma demo_libm_ok: "libm_ok demo_libm"
proof -
  have e: "(8191 / 8192 :: rat) = of_int 8191 * pow2 (- 13)" by simp
  have "rnd (8191 / 8192 :: rat) = 8191 / 8192" unfolding e by (rule rnd_exact) simp_all
  then have "unit_float (lib_expf demo_libm x)" for x
    unfolding unit_float_def demo_libm_def by (intro exI [of _ "8191 / 8192"] conjI) simp_all
  moreover have "\<exists>p. lib_powf demo_libm b x = Fin p \<and> 1 / 8 \<le> p \<and> p \<le> 1" for b x
    unfolding demo_libm_def by (intro exI [of _ "1 / 2"]) simp
  ultimately show ?thesis unfolding libm_ok_def by blast
qed

lemma limiter_keeps_ceiling_witness:
  "let s = limiter_run demo_libm 48000 [Set_limit True (- 6), Block [1, 2]] in
   \<exists>t. g_threshold s = Fin t \<and> t \<le> 32767
    \<and> (case audio_limiter_process [32767, - 32768] s of (out, s') \<Rightarrow> length out = length [32767, - 32768 :: int] \<and> int16_list out
        \<and> (if g_enabled s then \<forall>x \<in> set out. \<bar>of_int x\<bar> \<le> t + 51 / 100 else out = [32767, - 32768]))"
  unfolding Let_def by (rule limiter_keeps_ceiling [OF demo_libm_ok]) (simp_all add: blocks_ok_def int16_list_def)

section \<open>The way back to one\<close>

definition stuck_gain :: rat where "stuck_gain = 1 - 1 / 2 ^ 13"

lemma stuck_facts: "0 \<le> stuck_gain" "stuck_gain \<le> 1" "rnd stuck_gain = stuck_gain" "rnd (1 - 1 / 2 ^ 13 + 1 / 2 ^ 25) = stuck_gain"
proof -
  have e: "stuck_gain = of_int 8191 * pow2 (- 13)" by (simp add: stuck_gain_def)
  show "rnd stuck_gain = stuck_gain" unfolding e by (rule rnd_exact) simp_all
  show "rnd (1 - 1 / 2 ^ 13 + 1 / 2 ^ 25) = stuck_gain" by code_simp
qed (simp_all add: stuck_gain_def)

lemma held_step:
  assumes "release = Fin q" "1 - 1 / 2 ^ 12 \<le> q" "q \<le> 1" "0 \<le> g" "g \<le> stuck_gain" "next_gain release (Fin 1) (Fin g) = Fin g'"
  shows "g' \<le> stuck_gain"
proof -
  let ?d = "rnd (g - 1)" and ?e = "rnd (q * rnd (g - 1))"
  have n: "rnd (- 1 :: rat) = - 1" by (simp add: rnd_minus)
  have "rnd (- (1 / 2 ^ 13) :: rat) = - (1 / 2 ^ 13)" using rnd_exact [of "- 1" "- 13"] by simp
  then have d: "?d \<le> - (1 / 2 ^ 13)" "- 1 \<le> ?d" using assms n by (intro rnd_le rnd_ge; simp add: stuck_gain_def)+
  have "q * ?d \<le> q * (- (1 / 2 ^ 13))" using d assms by (intro mult_left_mono) simp_all
  also have "\<dots> \<le> (1 - 1 / 2 ^ 12) * (- (1 / 2 ^ 13))" using assms(2) by (intro mult_right_mono_neg) simp_all
  also have "\<dots> = - (4095 / 2 ^ 25)" by simp
  finally have qd: "q * ?d \<le> - (4095 / 2 ^ 25)" .
  have "rnd (- (4095 / 2 ^ 25) :: rat) = - (4095 / 2 ^ 25)" using rnd_exact [of "- 4095" "- 25"] by simp
  then have e: "?e \<le> - (4095 / 2 ^ 25)" using qd by (intro rnd_le) simp_all
  have "- 1 \<le> q * ?d" using mult_mono [of q 1 "- ?d" 1] d assms by simp
  then have e1: "- 1 \<le> ?e" using n by (intro rnd_ge) simp_all
  have s1: "f_sub (Fin g) (Fin 1) = Fin ?d" using assms by (simp add: stuck_gain_def f_sub_def f_neg_def f_add_def fl_Fin)
  have s2: "f_mul release (Fin ?d) = Fin ?e" using \<open>- 1 \<le> q * ?d\<close> qd unfolding assms(1) by (simp add: f_mul_def fl_Fin)
  have s3: "f_add (Fin 1) (Fin ?e) = Fin (rnd (1 + ?e))" using e e1 by (simp add: f_add_def fl_Fin)
  have "\<not> f_less (Fin 1) (Fin g)" using assms by (simp add: f_less_def stuck_gain_def)
  then have "g' = rnd (1 + ?e)" using assms(6) s1 s2 s3 by (simp add: next_gain_def)
  moreover have "rnd (1 + ?e) \<le> rnd (1 - 1 / 2 ^ 13 + 1 / 2 ^ 25)" using e by (intro rnd_mono) simp
  ultimately show ?thesis using stuck_facts(4) by simp
qed


lemma quiet_loop:
  "ceiling_float threshold \<Longrightarrow> threshold = Fin t \<Longrightarrow> release = Fin q \<Longrightarrow> 1 - 1 / 2 ^ 12 \<le> q \<Longrightarrow> q \<le> 1 \<Longrightarrow> rnd q = q \<Longrightarrow>
    gain = Fin g \<Longrightarrow> 0 \<le> g \<Longrightarrow> g \<le> stuck_gain \<Longrightarrow> rnd g = g \<Longrightarrow> int16_list buf \<Longrightarrow> \<forall>x \<in> set buf. \<bar>of_int x\<bar> \<le> t \<Longrightarrow>
    (\<exists>g'. fst (limit_loop threshold release gain buf) = Fin g' \<and> 0 \<le> g' \<and> g' \<le> stuck_gain)
    \<and> (even (length buf) \<longrightarrow> list_all2 (\<lambda>x y. \<bar>x\<bar> \<ge> 8192 \<longrightarrow> \<bar>y\<bar> < \<bar>x\<bar>) buf (snd (limit_loop threshold release gain buf)))"
proof (induction threshold release gain buf arbitrary: g rule: limit_loop.induct)
  case (1 threshold release gain b0 b1 rest)
  have t: "4000 \<le> t" "t \<le> 32767" using 1(2,3) by (auto simp: ceiling_float_def)
  have b: "- 32768 \<le> b0" "b0 \<le> 32767" "- 32768 \<le> b1" "b1 \<le> 32767" using 1(12) by (auto simp: int16_list_def)
  have "peak_of b0 b1 \<le> t" using 1(13) by (simp add: peak_of_def)
  then have tg: "target_gain threshold (f_of_int b0) (f_of_int b1) = Fin 1" using target_Fin [OF 1(2,3) b] by simp
  have u: "unit_float release" "unit_float gain"
    using 1(4,5,6,7) 1(8,9,10,11) stuck_facts(2) by (auto simp: unit_float_def)
  obtain g1 where g1: "next_gain release (Fin 1) gain = Fin g1" "0 \<le> g1" "g1 \<le> 1" "rnd g1 = g1" "peak_of b0 b1 * g1 \<le> t * (1 + 1 / 2 ^ 24)"
    using frame_gain [OF 1(2,3) u(2,1) b] unfolding tg by auto
  have st: "g1 \<le> stuck_gain" using held_step [OF 1(4,5,6,9,10)] g1(1) 1(8) by simp
  note c0 = scaled_sample(2) [OF peak_of_ge(1) g1(2,3,5) t b(1,2)] and c1 = scaled_sample(2) [OF peak_of_ge(2) g1(2,3,5) t b(3,4)]
  have smaller: "\<bar>rne (rnd (of_int x * g1))\<bar> < \<bar>x\<bar>" if "\<bar>x\<bar> \<ge> 8192" "\<bar>x\<bar> \<le> 32768" for x
  proof -
    have x1: "8192 \<le> (of_int \<bar>x\<bar> :: rat)" using that(1) by linarith
    have "\<bar>of_int x * g1\<bar> = of_int \<bar>x\<bar> * g1" using g1(2) by (simp add: abs_mult)
    also have "\<dots> \<le> of_int \<bar>x\<bar> * stuck_gain" using st by (intro mult_left_mono) simp_all
    also have "\<dots> \<le> of_int (\<bar>x\<bar> - 1)" using x1 by (simp add: stuck_gain_def algebra_simps)
    finally have "rnd \<bar>of_int x * g1\<bar> \<le> of_int (\<bar>x\<bar> - 1)" using that by (intro rnd_le rnd_int) simp_all
    then have "rnd (of_int x * g1) \<le> of_int (\<bar>x\<bar> - 1)" "of_int (- (\<bar>x\<bar> - 1)) \<le> rnd (of_int x * g1)"
      unfolding rnd_abs [symmetric] by (simp_all add: abs_le_iff)
    then have "rne (rnd (of_int x * g1)) \<le> \<bar>x\<bar> - 1" "- (\<bar>x\<bar> - 1) \<le> rne (rnd (of_int x * g1))"
      using rne_mono rne_int by metis+
    then show ?thesis by linarith
  qed
  have rest: "int16_list rest" "\<forall>x \<in> set rest. \<bar>of_int x\<bar> \<le> t" using 1(12,13) by (simp_all add: int16_list_def)
  have ih: "(\<exists>g'. fst (limit_loop threshold release (Fin g1) rest) = Fin g' \<and> 0 \<le> g' \<and> g' \<le> stuck_gain)
    \<and> (even (length rest) \<longrightarrow> list_all2 (\<lambda>x y. \<bar>x\<bar> \<ge> 8192 \<longrightarrow> \<bar>y\<bar> < \<bar>x\<bar>) rest (snd (limit_loop threshold release (Fin g1) rest)))"
    using "1.IH" [OF refl refl refl 1(2-7), unfolded tg g1(1), OF refl g1(2) st g1(4) rest] .
  have "\<bar>b0\<bar> \<le> 32768" "\<bar>b1\<bar> \<le> 32768" using b by linarith+
  then show ?case unfolding limit_loop.simps Let_def tg g1(1) case_prod_beta fst_conv snd_conv c0 c1
    using ih smaller by simp
qed auto


definition below_ceiling :: "rat \<Rightarrow> int list \<Rightarrow> bool" where
  "below_ceiling t buf \<longleftrightarrow> int16_list buf \<and> even (length buf) \<and> (\<forall>x \<in> set buf. \<bar>of_int x\<bar> \<le> t)"

definition held_down :: "rat \<Rightarrow> rat \<Rightarrow> limiter \<Rightarrow> bool" where
  "held_down t q s \<longleftrightarrow> limiter_ok s \<and> g_enabled s \<and> g_threshold s = Fin t \<and> g_release_coef s = Fin q
     \<and> (\<exists>g. g_gain s = Fin g \<and> g \<le> stuck_gain)"

lemma quiet_process:
  assumes "held_down t q s" "below_ceiling t buf" "1 - 1 / 2 ^ 12 \<le> q"
  shows "held_down t q (snd (audio_limiter_process buf s))
    \<and> list_all2 (\<lambda>x y. \<bar>x\<bar> \<ge> 8192 \<longrightarrow> \<bar>y\<bar> < \<bar>x\<bar>) buf (fst (audio_limiter_process buf s))"
proof -
  have ok: "limiter_ok s" and en: "g_enabled s" and t: "g_threshold s = Fin t" and q: "g_release_coef s = Fin q"
    using assms(1) by (simp_all add: held_down_def)
  then have qr: "q \<le> 1" "rnd q = q" by (auto simp: limiter_ok_def unit_float_def)
  from assms(1) obtain g where g: "g_gain s = Fin g" "g \<le> stuck_gain" by (auto simp: held_down_def)
  with ok have gr: "0 \<le> g" "rnd g = g" by (auto simp: limiter_ok_def unit_float_def)
  have c: "ceiling_float (g_threshold s)" using ok by (simp add: limiter_ok_def)
  have b: "int16_list buf" "even (length buf)" "\<forall>x \<in> set buf. \<bar>of_int x\<bar> \<le> t" using assms(2) by (simp_all add: below_ceiling_def)
  note l = quiet_loop [OF c t q assms(3) qr g(1) gr(1) g(2) gr(2) b(1,3)]
  have e: "fst (audio_limiter_process buf s) = snd (limit_loop (g_threshold s) (g_release_coef s) (g_gain s) buf)"
    "g_gain (snd (audio_limiter_process buf s)) = fst (limit_loop (g_threshold s) (g_release_coef s) (g_gain s) buf)"
    "g_enabled (snd (audio_limiter_process buf s))" "g_release_coef (snd (audio_limiter_process buf s)) = Fin q"
    using en q by (simp_all add: audio_limiter_process_def case_prod_beta Let_def)
  from l b(2) e process_ok [OF ok b(1,2) t] show ?thesis by (auto simp: held_down_def)
qed

lemma peak_holds_down:
  assumes "limiter_ok s" "g_enabled s" "g_threshold s = Fin t" "t \<le> 32000" "g_release_coef s = Fin q"
  shows "held_down t q (snd (audio_limiter_process [32767, 0] s))"
proof -
  have c: "ceiling_float (g_threshold s)" "4000 \<le> t" "rnd t = t" using assms by (auto simp: limiter_ok_def ceiling_float_def)
  obtain g where g: "g_gain s = Fin g" "0 \<le> g" "g \<le> 1" "rnd g = g" using assms(1) by (auto simp: limiter_ok_def unit_float_def)
  have p: "peak_of 32767 0 = 32767" by (simp add: peak_of_def)
  have tg: "target_gain (g_threshold s) (f_of_int 32767) (f_of_int 0) = Fin (rnd (t / 32767))"
    using target_Fin [OF c(1) assms(3), of 32767 0] assms(4) by (simp add: p)
  have u: "unit_float (g_release_coef s)" using assms(1) by (simp add: limiter_ok_def)
  have "0 \<le> rnd (t / 32767)" "rnd (t / 32767) \<le> 1" using target_unit [OF c(2) _ c(3), of 32767] assms(4) by simp_all
  from next_gain_range [OF this rnd_idem g(2-4) u] obtain g' where
    g': "next_gain (g_release_coef s) (Fin (rnd (t / 32767))) (Fin g) = Fin g'" "g' \<le> rnd (t / 32767)" by auto
  have "rnd (t / 32767) \<le> stuck_gain" using assms(4) stuck_facts(3) by (intro rnd_le) (simp_all add: stuck_gain_def)
  with g' have "g' \<le> stuck_gain" by linarith
  then have "\<exists>x. g_gain (snd (audio_limiter_process [32767, 0] s)) = Fin x \<and> x \<le> stuck_gain"
    using assms(2) tg g' g(1) by (simp add: audio_limiter_process_def case_prod_beta Let_def)
  moreover have "limiter_ok (snd (audio_limiter_process [32767, 0] s)) \<and> g_threshold (snd (audio_limiter_process [32767, 0] s)) = Fin t"
    using process_ok [OF assms(1) _ _ assms(3), of "[32767, 0]"] by (simp add: int16_list_def)
  moreover have "g_enabled (snd (audio_limiter_process [32767, 0] s))" "g_release_coef (snd (audio_limiter_process [32767, 0] s)) = Fin q"
    using assms(2,5) by (simp_all add: audio_limiter_process_def case_prod_beta Let_def)
  ultimately show ?thesis unfolding held_down_def by blast
qed

text \<open>C35. The limiter does not become transparent again: with a ceiling of at most 32000 and a release coefficient of at
  least 1 - 1/4096, as the time constant of 150 ms gives it, one full-scale peak leaves the gain below 1 - 1/8192 for
  ever; however long everything stays below the ceiling, every sample of magnitude 8192 and above comes
  out smaller than it went in, because the step of the release is rounded away.\<close>

theorem limiter_never_recovers:
  assumes "limiter_ok s" "g_enabled s" "g_threshold s = Fin t" "t \<le> 32000" "g_release_coef s = Fin q" "1 - 1 / 2 ^ 12 \<le> q"
    "\<forall>buf \<in> set bufs. below_ceiling t buf" "below_ceiling t buf"
  shows "list_all2 (\<lambda>x y. \<bar>x\<bar> \<ge> 8192 \<longrightarrow> \<bar>y\<bar> < \<bar>x\<bar>) buf
    (fst (audio_limiter_process buf (foldl (\<lambda>s buf. snd (audio_limiter_process buf s)) (snd (audio_limiter_process [32767, 0] s)) bufs)))"
proof -
  have "held_down t q (foldl (\<lambda>s buf. snd (audio_limiter_process buf s)) (snd (audio_limiter_process [32767, 0] s)) bufs)"
    using assms(7)
  proof (induction bufs rule: rev_induct)
    case (snoc b bufs)
    then show ?case using quiet_process [OF _ _ assms(6), of t _ b] by simp
  qed (simp add: peak_holds_down [OF assms(1-5)])
  from quiet_process [OF this assms(8,6)] show ?thesis by simp
qed

definition demo_limiter :: limiter where
  "demo_limiter = limiter_run demo_libm 48000 [Set_limit True (- 6)]"

lemma demo_limiter_facts: "limiter_ok demo_limiter" "g_enabled demo_limiter" "g_threshold demo_limiter = Fin (32767 / 2)"
  "g_release_coef demo_limiter = Fin (8191 / 8192)"
proof -
  show "limiter_ok demo_limiter" unfolding demo_limiter_def by (rule run_ok [OF demo_libm_ok]) (simp_all add: blocks_ok_def)
  have e: "(32767 / 2 :: rat) = of_int 32767 * pow2 (- 1)" by (simp add: pow2_def)
  have "rnd (32767 / 2 :: rat) = 32767 / 2" unfolding e by (rule rnd_exact) simp_all
  then show "g_threshold demo_limiter = Fin (32767 / 2)"
    by (simp add: demo_limiter_def limiter_run_def audio_limiter_set_def demo_libm_def f_mul_def LIM_FULL_SCALE_def fl_Fin)
  show "g_enabled demo_limiter" by (simp add: demo_limiter_def limiter_run_def audio_limiter_set_def)
  show "g_release_coef demo_limiter = Fin (8191 / 8192)"
    by (simp add: demo_limiter_def limiter_run_def audio_limiter_set_def coef_from_ms_def LIM_RELEASE_MS_def demo_libm_def f_le_def f_less_def f_eq_def)
qed

lemma limiter_never_recovers_witness:
  "list_all2 (\<lambda>x y. \<bar>x\<bar> \<ge> 8192 \<longrightarrow> \<bar>y\<bar> < \<bar>x\<bar>) [10000, 5]
    (fst (audio_limiter_process [10000, 5] (snd (audio_limiter_process [1, 2] (snd (audio_limiter_process [32767, 0] demo_limiter))))))"
  using limiter_never_recovers [OF demo_limiter_facts(1-3) _ demo_limiter_facts(4), of "[[1, 2]]" "[10000, 5]"]
  by (simp add: below_ceiling_def int16_list_def)

end
