(* ===== verification/Eq_Dsp.thy ===== *)
theory Eq_Dsp imports Audio_Limiter begin

text \<open>
  The tone equaliser of the output, main/audio/eq_dsp.c: an optional high-pass of two sections and
  three bands, designed by the cookbook formulas in single precision and run sample by sample.  Every operation is
  rounded on its own, in the order of the source; cosf, sinf, sqrtf and powf are arguments.  The coefficients are kept
  in two sets: the web handler fills the one that is not in use and then publishes its index.
\<close>

section \<open>State\<close>

record eq_libm = libm +
  lib_cosf :: "f32 \<Rightarrow> f32"
  lib_sinf :: "f32 \<Rightarrow> f32"
  lib_sqrtf :: "f32 \<Rightarrow> f32"

record biquad =
  bq_b0 :: f32
  bq_b1 :: f32
  bq_b2 :: f32
  bq_a1 :: f32
  bq_a2 :: f32

record eq_coeff_set =
  cs_hpf1 :: biquad
  cs_hpf2 :: biquad
  cs_hpf_on :: bool
  cs_band :: "biquad list"
  cs_preamp :: f32

type_synonym biquad_state = "f32 \<times> f32"

text \<open>The states of one channel: both high-pass sections and the three bands.\<close>

record eq_channel =
  ec_hpf1 :: biquad_state
  ec_hpf2 :: biquad_state
  ec_bands :: "biquad_state list"

record eq =
  g_sets :: "eq_coeff_set list"
  g_active_set :: nat
  g_active :: bool
  g_channels :: "eq_channel list"

definition zero_biquad :: biquad where
  "zero_biquad = \<lparr>bq_b0 = Fin 0, bq_b1 = Fin 0, bq_b2 = Fin 0, bq_a1 = Fin 0, bq_a2 = Fin 0\<rparr>"

definition zero_set :: eq_coeff_set where
  "zero_set = \<lparr>cs_hpf1 = zero_biquad, cs_hpf2 = zero_biquad, cs_hpf_on = False, cs_band = replicate 3 zero_biquad, cs_preamp = Fin 0\<rparr>"

definition zero_channel :: eq_channel where
  "zero_channel = \<lparr>ec_hpf1 = (Fin 0, Fin 0), ec_hpf2 = (Fin 0, Fin 0), ec_bands = replicate 3 (Fin 0, Fin 0)\<rparr>"

definition eq_boot :: eq where
  "eq_boot = \<lparr>g_sets = [zero_set, zero_set], g_active_set = 0, g_active = False, g_channels = [zero_channel, zero_channel]\<rparr>"

definition EQ_BASS_FC :: f32 where "EQ_BASS_FC = Fin 120"
definition EQ_MID_FC :: f32 where "EQ_MID_FC = Fin 1000"
definition EQ_MID_Q :: f32 where "EQ_MID_Q = Fin 1"
definition EQ_TREBLE_FC :: f32 where "EQ_TREBLE_FC = Fin 8000"
definition EQ_SHELF_Q :: f32 where "EQ_SHELF_Q = fl (707 / 1000)"
definition EQ_GAIN_MIN :: int where "EQ_GAIN_MIN = - 12"
definition EQ_GAIN_MAX :: int where "EQ_GAIN_MAX = 12"
definition EQ_HPF_FC_MIN :: int where "EQ_HPF_FC_MIN = 40"
definition EQ_HPF_FC_MAX :: int where "EQ_HPF_FC_MAX = 400"
definition EQ_HPF_Q1 :: f32 where "EQ_HPF_Q1 = fl (54119610 / 100000000)"
definition EQ_HPF_Q2 :: f32 where "EQ_HPF_Q2 = fl (130656296 / 100000000)"
definition FLOAT_PI :: f32 where "FLOAT_PI = Fin (13176795 / 4194304)"

definition clamp_gain :: "int \<Rightarrow> int" where
  "clamp_gain g = (if g < EQ_GAIN_MIN then EQ_GAIN_MIN else if g > EQ_GAIN_MAX then EQ_GAIN_MAX else g)"

section \<open>The designs\<close>

text \<open>w0, and what follows from it: cos, sin and alpha.\<close>

definition eq_w0 :: "int \<Rightarrow> f32 \<Rightarrow> f32" where
  "eq_w0 rate fc = f_div (f_mul (f_mul (Fin 2) FLOAT_PI) fc) (f_of_int rate)"

definition eq_alpha :: "eq_libm \<Rightarrow> f32 \<Rightarrow> f32 \<Rightarrow> f32" where
  "eq_alpha M w0 q = f_div (lib_sinf M w0) (f_mul (Fin 2) q)"

definition normalised :: "f32 \<Rightarrow> f32 \<Rightarrow> f32 \<Rightarrow> f32 \<Rightarrow> f32 \<Rightarrow> f32 \<Rightarrow> biquad" where
  "normalised b0 b1 b2 a0 a1 a2 = \<lparr>bq_b0 = f_div b0 a0, bq_b1 = f_div b1 a0, bq_b2 = f_div b2 a0, bq_a1 = f_div a1 a0, bq_a2 = f_div a2 a0\<rparr>"

definition shelf_gain :: "eq_libm \<Rightarrow> f32 \<Rightarrow> f32" where
  "shelf_gain M gain_db = lib_powf M (Fin 10) (f_div gain_db (Fin 40))"

definition design_lowshelf :: "eq_libm \<Rightarrow> int \<Rightarrow> f32 \<Rightarrow> f32 \<Rightarrow> f32 \<Rightarrow> biquad" where
  "design_lowshelf M rate fc q gain_db =
     (let A = shelf_gain M gain_db; w0 = eq_w0 rate fc; cw = lib_cosf M w0; alpha = eq_alpha M w0 q;
          t = f_mul (f_mul (Fin 2) (lib_sqrtf M A)) alpha; p = f_add A (Fin 1); m = f_sub A (Fin 1);
          b0 = f_mul A (f_add (f_sub p (f_mul m cw)) t);
          b1 = f_mul (f_mul (Fin 2) A) (f_sub m (f_mul p cw));
          b2 = f_mul A (f_sub (f_sub p (f_mul m cw)) t);
          a0 = f_add (f_add p (f_mul m cw)) t;
          a1 = f_mul (Fin (- 2)) (f_add m (f_mul p cw));
          a2 = f_sub (f_add p (f_mul m cw)) t
      in normalised b0 b1 b2 a0 a1 a2)"

definition design_highshelf :: "eq_libm \<Rightarrow> int \<Rightarrow> f32 \<Rightarrow> f32 \<Rightarrow> f32 \<Rightarrow> biquad" where
  "design_highshelf M rate fc q gain_db =
     (let A = shelf_gain M gain_db; w0 = eq_w0 rate fc; cw = lib_cosf M w0; alpha = eq_alpha M w0 q;
          t = f_mul (f_mul (Fin 2) (lib_sqrtf M A)) alpha; p = f_add A (Fin 1); m = f_sub A (Fin 1);
          b0 = f_mul A (f_add (f_add p (f_mul m cw)) t);
          b1 = f_mul (f_mul (Fin (- 2)) A) (f_add m (f_mul p cw));
          b2 = f_mul A (f_sub (f_add p (f_mul m cw)) t);
          a0 = f_add (f_sub p (f_mul m cw)) t;
          a1 = f_mul (Fin 2) (f_sub m (f_mul p cw));
          a2 = f_sub (f_sub p (f_mul m cw)) t
      in normalised b0 b1 b2 a0 a1 a2)"

definition design_peaking :: "eq_libm \<Rightarrow> int \<Rightarrow> f32 \<Rightarrow> f32 \<Rightarrow> f32 \<Rightarrow> biquad" where
  "design_peaking M rate fc q gain_db =
     (let A = shelf_gain M gain_db; w0 = eq_w0 rate fc; cw = lib_cosf M w0; alpha = eq_alpha M w0 q
      in normalised (f_add (Fin 1) (f_mul alpha A)) (f_mul (Fin (- 2)) cw) (f_sub (Fin 1) (f_mul alpha A))
           (f_add (Fin 1) (f_div alpha A)) (f_mul (Fin (- 2)) cw) (f_sub (Fin 1) (f_div alpha A)))"

definition design_highpass :: "eq_libm \<Rightarrow> int \<Rightarrow> f32 \<Rightarrow> f32 \<Rightarrow> biquad" where
  "design_highpass M rate fc q =
     (let w0 = eq_w0 rate fc; cw = lib_cosf M w0; alpha = eq_alpha M w0 q; p = f_add (Fin 1) cw
      in normalised (f_div p (Fin 2)) (f_neg p) (f_div p (Fin 2)) (f_add (Fin 1) alpha) (f_mul (Fin (- 2)) cw) (f_sub (Fin 1) alpha))"

definition biquad_magnitude :: "eq_libm \<Rightarrow> biquad \<Rightarrow> f32 \<Rightarrow> f32" where
  "biquad_magnitude M c w =
     (let cw = lib_cosf M w; sw = lib_sinf M w; c2w = lib_cosf M (f_mul (Fin 2) w); s2w = lib_sinf M (f_mul (Fin 2) w);
          nr = f_add (f_add (bq_b0 c) (f_mul (bq_b1 c) cw)) (f_mul (bq_b2 c) c2w);
          ni = f_sub (f_mul (f_neg (bq_b1 c)) sw) (f_mul (bq_b2 c) s2w);
          dr = f_add (f_add (Fin 1) (f_mul (bq_a1 c) cw)) (f_mul (bq_a2 c) c2w);
          di = f_sub (f_mul (f_neg (bq_a1 c)) sw) (f_mul (bq_a2 c) s2w);
          den = f_add (f_mul dr dr) (f_mul di di)
      in if f_less (fl (1 / 10 ^ 12)) den then lib_sqrtf M (f_div (f_add (f_mul nr nr) (f_mul ni ni)) den) else Fin 1)"

text \<open>The response of the cascade at one of the 512 frequencies, and the largest one.\<close>

definition cascade_magnitude :: "eq_libm \<Rightarrow> eq_coeff_set \<Rightarrow> f32 \<Rightarrow> f32" where
  "cascade_magnitude M s w = foldl (\<lambda>mag c. f_mul mag (biquad_magnitude M c w)) (Fin 1)
     ((if cs_hpf_on s then [cs_hpf1 s, cs_hpf2 s] else []) @ cs_band s)"

definition compute_preamp :: "eq_libm \<Rightarrow> eq_coeff_set \<Rightarrow> f32" where
  "compute_preamp M s =
     (let max_mag = foldl (\<lambda>mx i. let mag = cascade_magnitude M s (f_div (f_mul FLOAT_PI (f_of_int (int i))) (Fin 513))
            in if f_less mx mag then mag else mx) (Fin 1) [1..<513]
      in if f_less (Fin 1) max_mag then f_div (lib_powf M (Fin 10) (f_div (Fin (- 1 / 2)) (Fin 20))) max_mag else Fin 1)"

section \<open>Setting it\<close>

definition new_set :: "eq_libm \<Rightarrow> int \<Rightarrow> int \<Rightarrow> int \<Rightarrow> int \<Rightarrow> int \<Rightarrow> eq_coeff_set \<Rightarrow> eq_coeff_set" where
  "new_set M rate bass mid treble hpf s =
     (let hpf_on = hpf > 0;
          hpf = (if hpf_on then if hpf < EQ_HPF_FC_MIN then EQ_HPF_FC_MIN else if hpf > EQ_HPF_FC_MAX then EQ_HPF_FC_MAX else hpf else hpf);
          s = s\<lparr>cs_hpf_on := hpf_on\<rparr>;
          s = (if hpf_on then s\<lparr>cs_hpf1 := design_highpass M rate (f_of_int hpf) EQ_HPF_Q1, cs_hpf2 := design_highpass M rate (f_of_int hpf) EQ_HPF_Q2\<rparr> else s);
          s = s\<lparr>cs_band := [design_lowshelf M rate EQ_BASS_FC EQ_SHELF_Q (f_of_int bass), design_peaking M rate EQ_MID_FC EQ_MID_Q (f_of_int mid),
                  design_highshelf M rate EQ_TREBLE_FC EQ_SHELF_Q (f_of_int treble)]\<rparr>
      in s\<lparr>cs_preamp := compute_preamp M s\<rparr>)"

definition eq_dsp_set :: "eq_libm \<Rightarrow> int \<Rightarrow> bool \<Rightarrow> int \<Rightarrow> int \<Rightarrow> int \<Rightarrow> int \<Rightarrow> eq \<Rightarrow> eq" where
  "eq_dsp_set M rate enabled bass mid treble hpf e =
     (let bass = clamp_gain bass; mid = clamp_gain mid; treble = clamp_gain treble; nxt = 1 - g_active_set e;
          e = e\<lparr>g_sets := (g_sets e)[nxt := new_set M rate bass mid treble hpf (g_sets e ! nxt)]\<rparr>;
          e = e\<lparr>g_active_set := nxt\<rparr>
      in e\<lparr>g_active := enabled \<and> (hpf > 0 \<or> \<not> (bass = 0 \<and> mid = 0 \<and> treble = 0))\<rparr>)"

definition eq_dsp_init :: "eq_libm \<Rightarrow> int \<Rightarrow> 'n nvs_lib \<Rightarrow> 'n settings \<Rightarrow> eq \<Rightarrow> eq" where
  "eq_dsp_init M rate L st e = (case settings_get_tone L st of (enabled, bass, mid, treble, hpf) \<Rightarrow>
     eq_dsp_set M rate enabled bass mid treble hpf (e\<lparr>g_channels := [zero_channel, zero_channel]\<rparr>))"

section \<open>Processing\<close>

definition biquad_step :: "biquad \<Rightarrow> biquad_state \<Rightarrow> f32 \<Rightarrow> f32 \<times> biquad_state" where
  "biquad_step c s x = (case s of (z1, z2) \<Rightarrow> let y = f_add (f_mul (bq_b0 c) x) z1 in
     (y, (f_add (f_sub (f_mul (bq_b1 c) x) (f_mul (bq_a1 c) y)) z2, f_sub (f_mul (bq_b2 c) x) (f_mul (bq_a2 c) y))))"

fun run_bands :: "biquad list \<Rightarrow> biquad_state list \<Rightarrow> f32 \<Rightarrow> f32 \<times> biquad_state list" where
  "run_bands (c # cs) (s # ss) x = (let (x, s) = biquad_step c s x; (x, ss) = run_bands cs ss x in (x, s # ss))"
| "run_bands cs ss x = (x, ss)"

definition eq_sample :: "eq_coeff_set \<Rightarrow> eq_channel \<Rightarrow> int \<Rightarrow> int \<times> eq_channel" where
  "eq_sample s ch v =
     (let x = f_mul (f_of_int v) (cs_preamp s);
          (x, ch) = (if cs_hpf_on s
            then (let (x, z1) = biquad_step (cs_hpf1 s) (ec_hpf1 ch) x; (x, z2) = biquad_step (cs_hpf2 s) (ec_hpf2 ch) x
                  in (x, ch\<lparr>ec_hpf1 := z1, ec_hpf2 := z2\<rparr>))
            else (x, ch));
          (x, bands) = run_bands (cs_band s) (ec_bands ch) x;
          x = (if f_less (Fin 32767) x then Fin 32767 else if f_less x (Fin (- 32768)) then Fin (- 32768) else x)
      in (signed_take_bit 15 (lrintf x), ch\<lparr>ec_bands := bands\<rparr>))"

text \<open>Interleaved frames through both channels, with the set that was active at the start of the block.\<close>

fun eq_frames :: "eq_coeff_set \<Rightarrow> eq_channel list \<Rightarrow> int list \<Rightarrow> int list \<times> eq_channel list" where
  "eq_frames s [c0, c1] (l # r # buf) =
     (let (l, c0) = eq_sample s c0 l; (r, c1) = eq_sample s c1 r; (out, cs) = eq_frames s [c0, c1] buf in (l # r # out, cs))"
| "eq_frames s cs buf = (buf, cs)"

definition eq_dsp_process :: "int list \<Rightarrow> eq \<Rightarrow> int list \<times> eq" where
  "eq_dsp_process buf e = (if \<not> g_active e then (buf, e)
     else let (out, cs) = eq_frames (g_sets e ! g_active_set e) (g_channels e) buf in (out, e\<lparr>g_channels := cs\<rparr>))"

section \<open>What it keeps\<close>

lemma eq_frames_shape:
  "length cs = 2 \<Longrightarrow> even (length buf) \<Longrightarrow> int16_list buf \<Longrightarrow>
     length (fst (eq_frames s cs buf)) = length buf \<and> length (snd (eq_frames s cs buf)) = 2 \<and> int16_list (fst (eq_frames s cs buf))"
proof (induction s cs buf rule: eq_frames.induct)
  case (1 s c0 c1 l r buf)
  have "- 32768 \<le> signed_take_bit 15 (i :: int)" "signed_take_bit 15 i \<le> 32767" for i
    using signed_take_bit_int_greater_eq_minus_exp [of 15 i] signed_take_bit_int_less_exp [of 15 i] by simp_all
  then have s: "- 32768 \<le> fst (eq_sample s c v)" "fst (eq_sample s c v) \<le> 32767" for c v
    by (simp_all add: eq_sample_def Let_def case_prod_beta)
  note ih = "1.IH" [OF refl prod.collapse refl prod.collapse]
  have "even (length buf)" "int16_list buf" using 1(3,4) by (simp_all add: int16_list_def)
  with ih have "length (fst (eq_frames s [snd (eq_sample s c0 l), snd (eq_sample s c1 r)] buf)) = length buf
      \<and> length (snd (eq_frames s [snd (eq_sample s c0 l), snd (eq_sample s c1 r)] buf)) = 2
      \<and> int16_list (fst (eq_frames s [snd (eq_sample s c0 l), snd (eq_sample s c1 r)] buf))" by simp
  with s show ?case unfolding eq_frames.simps(1) Let_def case_prod_beta fst_conv snd_conv int16_list_def by simp
qed auto


definition eq_ok :: "eq \<Rightarrow> bool" where
  "eq_ok e \<longleftrightarrow> length (g_sets e) = 2 \<and> g_active_set e < 2 \<and> length (g_channels e) = 2"

inductive eq_step :: "eq_libm \<Rightarrow> int \<Rightarrow> eq \<Rightarrow> eq \<Rightarrow> bool" for M rate where
  tone: "eq_step M rate e (eq_dsp_set M rate enabled bass mid treble hpf e)"
| block: "int16_list buf \<Longrightarrow> even (length buf) \<Longrightarrow> eq_step M rate e (snd (eq_dsp_process buf e))"

lemma eq_step_ok: "eq_step M rate e e' \<Longrightarrow> eq_ok e \<Longrightarrow> eq_ok e'"
  by (induction rule: eq_step.induct)
    (auto simp: eq_ok_def eq_dsp_set_def eq_dsp_process_def Let_def case_prod_beta eq_frames_shape)

lemma eq_run_ok: "(eq_step M rate)\<^sup>*\<^sup>* eq_boot e \<Longrightarrow> eq_ok e"
proof (induction rule: rtranclp_induct)
  case base
  show ?case by (simp add: eq_ok_def eq_boot_def)
qed (rule eq_step_ok)

lemma clamp_gain_zero: "clamp_gain 0 = 0"
  by (simp add: clamp_gain_def EQ_GAIN_MIN_def EQ_GAIN_MAX_def)

text \<open>After any history of settings and blocks the equaliser keeps a block of samples a block of 16-bit samples of the same length;
  switched off, or flat with the high-pass off, it changes no bit; and new settings leave the coefficients that a block in progress works
  with alone, while a second change of the settings within the same block overwrites them.\<close>

theorem equaliser_history:
  assumes "(eq_step M rate)\<^sup>*\<^sup>* eq_boot e" "int16_list buf" "even (length buf)"
  shows "length (fst (eq_dsp_process buf e)) = length buf \<and> int16_list (fst (eq_dsp_process buf e))
    \<and> (\<not> enabled \<or> bass = 0 \<and> mid = 0 \<and> treble = 0 \<and> hpf \<le> 0 \<longrightarrow>
        (let e' = eq_dsp_set M rate enabled bass mid treble hpf e in eq_dsp_process buf e' = (buf, e')))
    \<and> g_sets (eq_dsp_set M rate enabled bass mid treble hpf e) ! g_active_set e = g_sets e ! g_active_set e
    \<and> (let e' = eq_dsp_set M rate enabled bass mid treble hpf e in
        g_active_set (eq_dsp_set M rate enabled bass mid treble hpf e') = g_active_set e
        \<and> g_sets (eq_dsp_set M rate enabled bass mid treble hpf e') ! g_active_set e
           = new_set M rate (clamp_gain bass) (clamp_gain mid) (clamp_gain treble) hpf (g_sets e ! g_active_set e))"
proof -
  have ok: "length (g_sets e) = 2" "g_active_set e < 2" "length (g_channels e) = 2" using eq_run_ok [OF assms(1)] by (simp_all add: eq_ok_def)
  let ?e = "eq_dsp_set M rate enabled bass mid treble hpf e"
  have a: "g_active_set ?e = 1 - g_active_set e" "length (g_sets ?e) = 2" using ok by (simp_all add: eq_dsp_set_def Let_def)
  have n: "1 - g_active_set e \<noteq> g_active_set e" "1 - (1 - g_active_set e) = g_active_set e" using ok(2) by arith+
  have keep: "g_sets ?e ! g_active_set e = g_sets e ! g_active_set e" using n(1) by (simp add: eq_dsp_set_def Let_def)
  have off: "eq_dsp_process buf ?e = (buf, ?e)" if "\<not> enabled \<or> bass = 0 \<and> mid = 0 \<and> treble = 0 \<and> hpf \<le> 0"
    using that by (auto simp: eq_dsp_process_def eq_dsp_set_def Let_def clamp_gain_zero)
  have snd: "g_active_set (eq_dsp_set M rate enabled bass mid treble hpf ?e) = g_active_set e
      \<and> g_sets (eq_dsp_set M rate enabled bass mid treble hpf ?e) ! g_active_set e
       = new_set M rate (clamp_gain bass) (clamp_gain mid) (clamp_gain treble) hpf (g_sets ?e ! g_active_set e)"
    using a n ok(2) by (simp add: eq_dsp_set_def [of M rate enabled bass mid treble hpf ?e] Let_def del: One_nat_def)
  have "length (fst (eq_dsp_process buf e)) = length buf \<and> int16_list (fst (eq_dsp_process buf e))"
    using eq_frames_shape [OF ok(3) assms(3,2)] assms(2) by (simp add: eq_dsp_process_def case_prod_beta Let_def)
  with keep off snd show ?thesis by (simp add: Let_def)
qed

definition demo_eq_libm :: eq_libm where
  "demo_eq_libm = \<lparr>lib_powf = (\<lambda>b x. Fin 1), lib_expf = (\<lambda>x. Fin 1), lib_cosf = (\<lambda>x. Fin 0), lib_sinf = (\<lambda>x. Fin 1), lib_sqrtf = (\<lambda>x. Fin 1)\<rparr>"

lemma equaliser_history_witness:
  "let e = eq_dsp_set demo_eq_libm 48000 True 6 0 (- 3) 80 eq_boot; e' = eq_dsp_set demo_eq_libm 48000 True 0 0 0 0 e
   in length (fst (eq_dsp_process [100, - 7] e)) = 2 \<and> eq_dsp_process [100, - 7] e' = ([100, - 7], e')"
proof -
  let ?e = "eq_dsp_set demo_eq_libm 48000 True 6 0 (- 3) 80 eq_boot"
  have "(eq_step demo_eq_libm 48000)\<^sup>*\<^sup>* eq_boot ?e" by (rule r_into_rtranclp) (rule eq_step.tone)
  from equaliser_history [OF this, of "[100, - 7]" True 0 0 0 0] show ?thesis by (simp add: Let_def int16_list_def)
qed

end
