(* ===== verification/Rtsp_Slots.thy ===== *)
theory Rtsp_Slots imports Prelude "HOL-Library.Multiset" begin

text \<open>
  The client slots of the RTSP server, main/rtsp/rtsp_server.c: the server task accepts a
  connection, tells the client in the other slot to stop and starts a task for the new one; the
  client tasks clean up after themselves, and starting and stopping the server, whose listening socket both the
  server task and the caller of rtsp_server_stop close.  Client tasks run on two static stacks, so a step relation interleaves the
  atomic pieces of the server task, of the client tasks and of the one task that starts and stops the server.  Creating, binding and
  listening is one piece.
  What the request handlers do is modelled elsewhere; here a request only marks whose audio
  stream, remote control, clock and event port are in place.  The build without CONFIG_AIRPLAY_FORCE_V1 is modelled.
\<close>

section \<open>The state\<close>

datatype phase = No_task | Starting | Serving | Closed | Silenced | Signed_off | Unwired | Freed | Ending | Failed

record slot =
  sl_conn :: bool
  sl_task :: bool
  sl_socket :: int
  sl_stop :: bool
  sl_old :: bool
  sl_phase :: phase
  sl_event :: int

text \<open>The server task: in its loop, waiting for a slot, waiting for the clients, and then with the listening socket
  read in order to be closed, and closed.  The caller of rtsp_server_stop: the flag is down, the listening socket
  was found open, it is closed, and the wait for the task.\<close>

datatype srv_phase = Down | Booting | Accepting | Waiting int nat | Draining nat | Leaving | Unlistening int | Unlistened

datatype stopper = Idle | Told | Shutting | Clearing | Awaiting nat

text \<open>Besides the variables of the file: the open descriptors, a descriptor closed twice, a stack used by two client tasks,
  and the connections the audio stream, the remote control, the NTP client, the PTP clock and the event port belong to.\<close>

record server =
  sv_slots :: "slot list"
  sv_current :: nat
  sv_running :: bool
  sv_handle :: bool
  sv_phase :: srv_phase
  sv_socket :: int
  sv_stopper :: stopper
  sv_fds :: "int list"
  sv_closed_twice :: bool
  sv_stack_shared :: bool
  sv_audio :: "int option"
  sv_dacp :: "int option"
  sv_ntp :: "int option"
  sv_clock :: "int option"
  sv_event_port :: int
  sv_disconnects :: nat

definition free_slot :: slot where
  "free_slot = \<lparr>sl_conn = False, sl_task = False, sl_socket = - 1, sl_stop = False, sl_old = False, sl_phase = No_task, sl_event = - 1\<rparr>"

definition server_boot :: server where
  "server_boot = \<lparr>sv_slots = [free_slot, free_slot], sv_current = 0, sv_running = False, sv_handle = False, sv_phase = Down,
     sv_socket = - 1, sv_stopper = Idle, sv_fds = [], sv_closed_twice = False, sv_stack_shared = False, sv_audio = None, sv_dacp = None, sv_ntp = None, sv_clock = None,
     sv_event_port = - 1, sv_disconnects = 0\<rparr>"

definition on_slot :: "nat \<Rightarrow> (slot \<Rightarrow> slot) \<Rightarrow> server \<Rightarrow> server" where
  "on_slot i f s = s\<lparr>sv_slots := (sv_slots s)[i := f (sv_slots s ! i)]\<rparr>"

definition close_descriptor :: "int \<Rightarrow> server \<Rightarrow> server" where
  "close_descriptor fd s = s\<lparr>sv_fds := remove1 fd (sv_fds s), sv_closed_twice := (sv_closed_twice s \<or> fd \<notin> set (sv_fds s))\<rparr>"

section \<open>The client task\<close>

datatype start = No_conn | No_buffer | Started

text \<open>Until the loop is entered; both failures leave the flags of the slot alone.\<close>

definition client_start :: "start \<Rightarrow> nat \<Rightarrow> server \<Rightarrow> server" where
  "client_start r i s = (let fd = sl_socket (sv_slots s ! i) in case r of
     Started \<Rightarrow> on_slot i (\<lambda>c. c\<lparr>sl_conn := True, sl_phase := Serving\<rparr>) s
   | No_conn \<Rightarrow> on_slot i (\<lambda>c. c\<lparr>sl_socket := - 1, sl_task := False, sl_phase := Failed\<rparr>) (close_descriptor fd s)
   | No_buffer \<Rightarrow> on_slot i (\<lambda>c. c\<lparr>sl_conn := False, sl_socket := - 1, sl_task := False, sl_phase := Failed\<rparr>)
       (close_descriptor fd (s\<lparr>sv_clock := None\<rparr>)))"

datatype request_effect = Play | Announce_remote | Open_event int

definition client_request :: "request_effect \<Rightarrow> nat \<Rightarrow> server \<Rightarrow> server" where
  "client_request r i s = (let fd = sl_socket (sv_slots s ! i) in case r of
     Play \<Rightarrow> s\<lparr>sv_audio := Some fd, sv_ntp := Some fd, sv_clock := Some fd\<rparr>
   | Announce_remote \<Rightarrow> s\<lparr>sv_dacp := Some fd\<rparr>
   | Open_event ev \<Rightarrow> on_slot i (\<lambda>c. c\<lparr>sl_event := ev\<rparr>) (s\<lparr>sv_event_port := ev\<rparr>))"

text \<open>The label cleanup, in the order of the code.\<close>

definition client_close :: "nat \<Rightarrow> server \<Rightarrow> server" where
  "client_close i s = on_slot i (\<lambda>c. c\<lparr>sl_socket := - 1, sl_phase := Closed\<rparr>) (close_descriptor (sl_socket (sv_slots s ! i)) s)"

definition client_silence :: "nat \<Rightarrow> server \<Rightarrow> server" where
  "client_silence i s = on_slot i (\<lambda>c. c\<lparr>sl_phase := Silenced\<rparr>) (s\<lparr>sv_audio := None, sv_ntp := None\<rparr>)"

definition client_sign_off :: "nat \<Rightarrow> server \<Rightarrow> server" where
  "client_sign_off i s = on_slot i (\<lambda>c. c\<lparr>sl_phase := Signed_off\<rparr>) (s\<lparr>sv_dacp := None, sv_disconnects := sv_disconnects s + 1\<rparr>)"

definition client_unwire :: "nat \<Rightarrow> server \<Rightarrow> server" where
  "client_unwire i s = (let c = sv_slots s ! i;
     s = (if \<not> sl_old c then s\<lparr>sv_event_port := - 1\<rparr>
          else if 0 \<le> sv_event_port s \<and> sv_event_port s = sl_event c then s\<lparr>sv_event_port := - 1\<rparr> else s)
     in on_slot i (\<lambda>c. c\<lparr>sl_event := - 1, sl_phase := Unwired\<rparr>) s)"

definition client_free :: "nat \<Rightarrow> server \<Rightarrow> server" where
  "client_free i s = on_slot i (\<lambda>c. c\<lparr>sl_phase := Freed\<rparr>) (s\<lparr>sv_clock := None\<rparr>)"

definition client_release :: "nat \<Rightarrow> server \<Rightarrow> server" where
  "client_release i s = on_slot i (\<lambda>c. c\<lparr>sl_conn := False, sl_socket := - 1, sl_task := False, sl_phase := Ending\<rparr>) s"

text \<open>What is left to do after the task handle was cleared: the flags, and the deletion of the task.\<close>

definition client_delete :: "nat \<Rightarrow> server \<Rightarrow> server" where
  "client_delete i s = on_slot i (\<lambda>c. (if sl_phase c = Ending then c\<lparr>sl_stop := False, sl_old := False\<rparr> else c)\<lparr>sl_phase := No_task\<rparr>) s"

section \<open>The server task\<close>

definition signal_old_client_stop :: "nat \<Rightarrow> server \<Rightarrow> server" where
  "signal_old_client_stop i s = (if \<not> sl_task (sv_slots s ! i) then s else on_slot i (\<lambda>c. c\<lparr>sl_old := True, sl_stop := True\<rparr>) s)"

definition install_client :: "bool \<Rightarrow> int \<Rightarrow> server \<Rightarrow> server" where
  "install_client created fd s = (let i = 1 - sv_current s; s = signal_old_client_stop (sv_current s) s;
     shared = (sl_phase (sv_slots s ! i) \<noteq> No_task);
     s = on_slot i (\<lambda>c. c\<lparr>sl_socket := fd, sl_stop := False, sl_old := False\<rparr>) (s\<lparr>sv_phase := Accepting\<rparr>)
   in if created
     then (on_slot i (\<lambda>c. c\<lparr>sl_task := True, sl_phase := Starting\<rparr>) s)\<lparr>sv_current := i, sv_stack_shared := (sv_stack_shared s \<or> shared)\<rparr>
     else on_slot i (\<lambda>c. c\<lparr>sl_task := False, sl_socket := - 1\<rparr>) (close_descriptor fd s))"

definition accept_client :: "bool \<Rightarrow> int \<Rightarrow> server \<Rightarrow> server" where
  "accept_client created fd s = (let i = 1 - sv_current s; s = s\<lparr>sv_fds := fd # sv_fds s\<rparr> in
     if sl_task (sv_slots s ! i) then (on_slot i (\<lambda>c. c\<lparr>sl_stop := True\<rparr>) s)\<lparr>sv_phase := Waiting fd 30\<rparr>
     else install_client created fd s)"

definition wait_tick :: "bool \<Rightarrow> server \<Rightarrow> server" where
  "wait_tick created s = (case sv_phase s of
     Waiting fd n \<Rightarrow> if \<not> sl_task (sv_slots s ! (1 - sv_current s)) then install_client created fd s
       else if n = 0 then close_descriptor fd (s\<lparr>sv_phase := Accepting\<rparr>)
       else s\<lparr>sv_phase := Waiting fd (n - 1)\<rparr>
   | _ \<Rightarrow> s)"

definition tell_stop :: "slot \<Rightarrow> slot" where
  "tell_stop c = (if sl_task c then c\<lparr>sl_stop := True\<rparr> else c)"

definition stop_clients :: "server \<Rightarrow> server" where
  "stop_clients s = s\<lparr>sv_slots := map tell_stop (sv_slots s), sv_phase := Draining 50\<rparr>"

definition clients_gone :: "server \<Rightarrow> bool" where
  "clients_gone s \<longleftrightarrow> (\<forall>c \<in> set (sv_slots s). \<not> sl_task c)"

definition drain_tick :: "server \<Rightarrow> server" where
  "drain_tick s = (case sv_phase s of
     Draining n \<Rightarrow> if clients_gone s \<or> n = 0 then s\<lparr>sv_phase := Leaving\<rparr> else s\<lparr>sv_phase := Draining (n - 1)\<rparr>
   | _ \<Rightarrow> s)"

text \<open>The end of the server task: the listening socket is read once for the check and the call of close.\<close>

definition server_exit :: "server \<Rightarrow> server" where
  "server_exit s = s\<lparr>sv_phase := Down, sv_running := False, sv_handle := False\<rparr>"

definition leave_check :: "server \<Rightarrow> server" where
  "leave_check s = (if 0 \<le> sv_socket s then s\<lparr>sv_phase := Unlistening (sv_socket s)\<rparr> else server_exit s)"

definition leave_close :: "int \<Rightarrow> server \<Rightarrow> server" where
  "leave_close fd s = (close_descriptor fd s)\<lparr>sv_phase := Unlistened\<rparr>"

definition leave_clear :: "server \<Rightarrow> server" where
  "leave_clear s = server_exit (s\<lparr>sv_socket := - 1\<rparr>)"

text \<open>The beginning of the server task resets the slots; a task still running on one of them is lost from sight.  Then it listens,
  or gives up.\<close>

definition init_slots :: "slot list \<Rightarrow> slot list" where
  "init_slots cs = map (\<lambda>c. c\<lparr>sl_socket := - 1, sl_conn := False, sl_task := False, sl_stop := False, sl_old := False\<rparr>) cs"

definition server_begins :: "int option \<Rightarrow> server \<Rightarrow> server" where
  "server_begins listening s = (let s = s\<lparr>sv_slots := init_slots (sv_slots s)\<rparr> in case listening of
     Some fd \<Rightarrow> s\<lparr>sv_socket := fd, sv_fds := fd # sv_fds s, sv_phase := Accepting\<rparr>
   | None \<Rightarrow> server_exit (s\<lparr>sv_socket := - 1\<rparr>))"

section \<open>Starting and stopping the server\<close>

definition rtsp_server_start :: "bool \<Rightarrow> server \<Rightarrow> esp_err \<times> server" where
  "rtsp_server_start created s =
     (if sv_handle s then (ESP_ERR_INVALID_STATE, s)
      else if created then (ESP_OK, s\<lparr>sv_running := True, sv_handle := True, sv_phase := Booting\<rparr>)
      else (ESP_FAIL, s\<lparr>sv_running := False\<rparr>))"

text \<open>The stop, piece by piece; the socket is read again after the shutdown, and closing -1 has no effect.\<close>

definition rtsp_server_stop :: "server \<Rightarrow> server" where
  "rtsp_server_stop s = s\<lparr>sv_running := False, sv_stopper := Told\<rparr>"

definition stop_check :: "server \<Rightarrow> server" where
  "stop_check s = s\<lparr>sv_stopper := (if 0 \<le> sv_socket s then Shutting else Awaiting 60)\<rparr>"

definition stop_close :: "server \<Rightarrow> server" where
  "stop_close s = (if sv_socket s < 0 then s else close_descriptor (sv_socket s) s)\<lparr>sv_stopper := Clearing\<rparr>"

definition stop_clear :: "server \<Rightarrow> server" where
  "stop_clear s = s\<lparr>sv_socket := - 1, sv_stopper := Awaiting 60\<rparr>"

definition stop_wait :: "server \<Rightarrow> server" where
  "stop_wait s = (case sv_stopper s of
     Awaiting n \<Rightarrow> s\<lparr>sv_stopper := (if \<not> sv_handle s \<or> n = 0 then Idle else Awaiting (n - 1))\<rparr>
   | _ \<Rightarrow> s)"

section \<open>The runs\<close>

text \<open>In calm runs the server task starts no client and resets no slot while a client task is between clearing its handle and
  deleting itself, the clients are gone before the five seconds of the drain run out, and of the server task and the caller of
  rtsp_server_stop neither takes the listening socket to close it while the other is closing it.\<close>

definition none_ending :: "server \<Rightarrow> bool" where
  "none_ending s \<longleftrightarrow> (\<forall>c \<in> set (sv_slots s). sl_phase c \<noteq> Ending \<and> sl_phase c \<noteq> Failed)"

definition unlistening :: "srv_phase \<Rightarrow> bool" where
  "unlistening p \<longleftrightarrow> p = Unlistened \<or> (\<exists>fd. p = Unlistening fd)"

inductive sv_step :: "bool \<Rightarrow> server \<Rightarrow> server \<Rightarrow> bool" for quiet :: bool where
  start: "sv_stopper s = Idle \<Longrightarrow> sv_step quiet s (snd (rtsp_server_start created s))"
| begins: "quiet \<longrightarrow> none_ending s \<Longrightarrow> sv_phase s = Booting \<Longrightarrow> \<forall>fd. listening = Some fd \<longrightarrow> 0 \<le> fd \<and> fd \<notin> set (sv_fds s) \<Longrightarrow>
    sv_step quiet s (server_begins listening s)"
| stop: "sv_stopper s = Idle \<Longrightarrow> sv_step quiet s (rtsp_server_stop s)"
| stop_checks: "sv_stopper s = Told \<Longrightarrow> sv_step quiet s (stop_check s)"
| stop_closes: "quiet \<longrightarrow> \<not> unlistening (sv_phase s) \<Longrightarrow> sv_stopper s = Shutting \<Longrightarrow> sv_step quiet s (stop_close s)"
| stop_clears: "sv_stopper s = Clearing \<Longrightarrow> sv_step quiet s (stop_clear s)"
| stop_waits: "sv_stopper s = Awaiting n \<Longrightarrow> sv_step quiet s (stop_wait s)"
| accept: "quiet \<longrightarrow> none_ending s \<Longrightarrow> sv_phase s = Accepting \<Longrightarrow> 0 \<le> sv_socket s \<Longrightarrow> sv_stopper s \<noteq> Clearing \<Longrightarrow>
    0 \<le> fd \<Longrightarrow> fd \<notin> set (sv_fds s) \<Longrightarrow> sv_step quiet s (accept_client created fd s)"
| wait: "quiet \<longrightarrow> none_ending s \<Longrightarrow> sv_phase s = Waiting fd n \<Longrightarrow> sv_step quiet s (wait_tick created s)"
| leave_loop: "sv_phase s = Accepting \<Longrightarrow> \<not> sv_running s \<Longrightarrow> sv_step quiet s (stop_clients s)"
| drain: "quiet \<longrightarrow> clients_gone s \<or> n \<noteq> 0 \<Longrightarrow> sv_phase s = Draining n \<Longrightarrow> sv_step quiet s (drain_tick s)"
| leaves: "quiet \<longrightarrow> sv_stopper s \<noteq> Clearing \<Longrightarrow> sv_phase s = Leaving \<Longrightarrow> sv_step quiet s (leave_check s)"
| unlistens: "sv_phase s = Unlistening fd \<Longrightarrow> sv_step quiet s (leave_close fd s)"
| exits: "sv_phase s = Unlistened \<Longrightarrow> sv_step quiet s (leave_clear s)"
| client_starts: "i < 2 \<Longrightarrow> sl_phase (sv_slots s ! i) = Starting \<Longrightarrow> sv_step quiet s (client_start r i s)"
| request: "i < 2 \<Longrightarrow> sl_phase (sv_slots s ! i) = Serving \<Longrightarrow> sv_step quiet s (client_request e i s)"
| closes: "i < 2 \<Longrightarrow> sl_phase (sv_slots s ! i) = Serving \<Longrightarrow> sv_step quiet s (client_close i s)"
| silences: "i < 2 \<Longrightarrow> sl_phase (sv_slots s ! i) = Closed \<Longrightarrow> sv_step quiet s (client_silence i s)"
| signs_off: "i < 2 \<Longrightarrow> sl_phase (sv_slots s ! i) = Silenced \<Longrightarrow> sv_step quiet s (client_sign_off i s)"
| unwires: "i < 2 \<Longrightarrow> sl_phase (sv_slots s ! i) = Signed_off \<Longrightarrow> sv_step quiet s (client_unwire i s)"
| frees: "i < 2 \<Longrightarrow> sl_phase (sv_slots s ! i) = Unwired \<Longrightarrow> sv_step quiet s (client_free i s)"
| releases: "i < 2 \<Longrightarrow> sl_phase (sv_slots s ! i) = Freed \<Longrightarrow> sv_step quiet s (client_release i s)"
| deletes: "i < 2 \<Longrightarrow> sl_phase (sv_slots s ! i) \<in> {Ending, Failed} \<Longrightarrow> sv_step quiet s (client_delete i s)"

inductive sv_reach :: "bool \<Rightarrow> server \<Rightarrow> bool" for quiet :: bool where
  boot: "sv_reach quiet server_boot"
| more: "sv_reach quiet s \<Longrightarrow> sv_step quiet s s' \<Longrightarrow> sv_reach quiet s'"


section \<open>The invariant of calm runs\<close>

definition slot_ok :: "slot \<Rightarrow> bool" where
  "slot_ok c \<longleftrightarrow> (sl_task c \<longleftrightarrow> sl_phase c \<notin> {No_task, Ending, Failed})
     \<and> (if sl_phase c \<in> {Starting, Serving} then 0 \<le> sl_socket c else sl_socket c = - 1)"

definition waiting_fd :: "srv_phase \<Rightarrow> int multiset" where
  "waiting_fd p = (case p of Waiting fd _ \<Rightarrow> {#fd#} | _ \<Rightarrow> {#})"

definition slot_fd :: "slot \<Rightarrow> int multiset" where
  "slot_fd c = (if 0 \<le> sl_socket c then {#sl_socket c#} else {#})"

text \<open>The listening socket while it is open, and who may be closing it.\<close>

definition listener :: "server \<Rightarrow> int multiset" where
  "listener s = (if 0 \<le> sv_socket s \<and> sv_stopper s \<noteq> Clearing \<and> sv_phase s \<noteq> Unlistened then {#sv_socket s#} else {#})"

fun taken :: "srv_phase \<Rightarrow> int option" where
  "taken (Unlistening fd) = Some fd"
| "taken _ = None"

definition listener_ok :: "server \<Rightarrow> bool" where
  "listener_ok s \<longleftrightarrow> (sv_phase s \<in> {Down, Booting} \<longrightarrow> sv_socket s < 0)
     \<and> (taken (sv_phase s) = None \<or> taken (sv_phase s) = Some (sv_socket s) \<and> 0 \<le> sv_socket s)
     \<and> (sv_stopper s = Clearing \<longrightarrow> \<not> unlistening (sv_phase s))
     \<and> (sv_phase s = Booting \<longrightarrow> sv_stopper s \<noteq> Shutting \<and> sv_stopper s \<noteq> Clearing)"

text \<open>The phases of the server task without clients.\<close>

definition alone :: "srv_phase \<Rightarrow> bool" where
  "alone p \<longleftrightarrow> (case p of Accepting \<Rightarrow> False | Waiting _ _ \<Rightarrow> False | Draining _ \<Rightarrow> False | _ \<Rightarrow> True)"

definition server_inv :: "server \<Rightarrow> bool" where
  "server_inv s \<longleftrightarrow> length (sv_slots s) = 2 \<and> sv_current s < 2 \<and> (\<forall>c \<in> set (sv_slots s). slot_ok c)
     \<and> \<not> sv_closed_twice s \<and> \<not> sv_stack_shared s
     \<and> (sv_phase s = Down \<longleftrightarrow> \<not> sv_handle s) \<and> (alone (sv_phase s) \<longrightarrow> clients_gone s)
     \<and> (let c = sv_slots s ! (1 - sv_current s) in sl_task c \<longrightarrow> sl_old c \<and> sl_stop c)
     \<and> mset (sv_fds s) = slot_fd (sv_slots s ! 0) + slot_fd (sv_slots s ! 1) + waiting_fd (sv_phase s) + listener s
     \<and> listener_ok s"

lemma inv_slots: "server_inv s \<Longrightarrow> \<exists>a b. sv_slots s = [a, b]"
  by (auto simp: server_inv_def length_Suc_conv numeral_2_eq_2)

lemma boot_inv: "server_inv server_boot"
  by (simp add: server_inv_def server_boot_def free_slot_def slot_ok_def clients_gone_def slot_fd_def waiting_fd_def listener_def listener_ok_def
      alone_def unlistening_def)

lemma listener_cong:
  "sv_socket t = sv_socket s \<Longrightarrow> sv_stopper t = sv_stopper s \<Longrightarrow> sv_phase t = sv_phase s \<Longrightarrow> listener t = listener s \<and> listener_ok t = listener_ok s"
  by (simp add: listener_def listener_ok_def)

lemma in_fds: "mset fds = A + B \<Longrightarrow> x \<in># A \<or> x \<in># B \<Longrightarrow> x \<in> set fds"
  by (metis set_mset_mset union_iff)

lemma two_cases: "(i :: nat) < 2 \<Longrightarrow> i = 0 \<or> i = 1"
  by auto

text \<open>Steps of a client that change only its phase, its flags and what belongs to the session.\<close>

lemma client_step_inv:
  assumes "server_inv s" "i < 2" "slot_ok (f (sv_slots s ! i))" "sl_socket (f (sv_slots s ! i)) = sl_socket (sv_slots s ! i)"
    "sl_task (f (sv_slots s ! i)) \<longrightarrow> sl_task (sv_slots s ! i) \<and> sl_old (f (sv_slots s ! i)) = sl_old (sv_slots s ! i)
       \<and> sl_stop (f (sv_slots s ! i)) = sl_stop (sv_slots s ! i)"
    "sv_slots t = sv_slots s" "sv_current t = sv_current s" "sv_phase t = sv_phase s" "sv_handle t = sv_handle s"
    "sv_fds t = sv_fds s" "sv_closed_twice t = sv_closed_twice s" "sv_stack_shared t = sv_stack_shared s"
    "sv_socket t = sv_socket s" "sv_stopper t = sv_stopper s"
  shows "server_inv (on_slot i f t)"
proof -
  obtain a b where ab: "sv_slots s = [a, b]" using inv_slots [OF assms(1)] by blast
  have c: "sv_current s = 0 \<or> sv_current s = 1" using assms(1) by (auto simp: server_inv_def)
  have l: "listener (on_slot i f t) = listener s \<and> listener_ok (on_slot i f t) = listener_ok s"
    using assms by (intro listener_cong) (simp_all add: on_slot_def)
  from two_cases [OF assms(2)] show ?thesis
    using assms ab c l by (elim disjE) (auto simp: server_inv_def on_slot_def clients_gone_def slot_fd_def Let_def)
qed

text \<open>Steps of a client that close its socket.\<close>

lemma client_close_inv:
  assumes "server_inv s" "i < 2" "0 \<le> sl_socket (sv_slots s ! i)" "slot_ok (f (sv_slots s ! i))" "sl_socket (f (sv_slots s ! i)) = - 1"
    "sl_task (f (sv_slots s ! i)) \<longrightarrow> sl_task (sv_slots s ! i) \<and> sl_old (f (sv_slots s ! i)) = sl_old (sv_slots s ! i)
       \<and> sl_stop (f (sv_slots s ! i)) = sl_stop (sv_slots s ! i)"
    "sv_slots t = sv_slots s" "sv_current t = sv_current s" "sv_phase t = sv_phase s" "sv_handle t = sv_handle s"
    "sv_fds t = sv_fds s" "sv_closed_twice t = sv_closed_twice s" "sv_stack_shared t = sv_stack_shared s"
    "sv_socket t = sv_socket s" "sv_stopper t = sv_stopper s"
  shows "server_inv (on_slot i f (close_descriptor (sl_socket (sv_slots s ! i)) t))"
proof -
  obtain a b where ab: "sv_slots s = [a, b]" using inv_slots [OF assms(1)] by blast
  have c: "sv_current s = 0 \<or> sv_current s = 1" using assms(1) by (auto simp: server_inv_def)
  have m: "mset (sv_fds s) = slot_fd a + slot_fd b + waiting_fd (sv_phase s) + listener s" using assms(1) ab by (simp add: server_inv_def)
  have "sl_socket (sv_slots s ! i) \<in># mset (sv_fds s)"
    unfolding m using two_cases [OF assms(2)] assms(3) ab by (elim disjE) (simp_all add: slot_fd_def)
  then have "sl_socket (sv_slots s ! i) \<in> set (sv_fds s)" by simp
  moreover have "listener (on_slot i f (close_descriptor (sl_socket (sv_slots s ! i)) t)) = listener s
      \<and> listener_ok (on_slot i f (close_descriptor (sl_socket (sv_slots s ! i)) t)) = listener_ok s"
    using assms by (intro listener_cong) (simp_all add: on_slot_def close_descriptor_def)
  ultimately show ?thesis
    using two_cases [OF assms(2)] assms ab c by (elim disjE) (auto simp: server_inv_def on_slot_def close_descriptor_def clients_gone_def slot_fd_def Let_def)
qed

lemma loop_listener:
  "sv_socket t = sv_socket s \<Longrightarrow> sv_stopper t = sv_stopper s \<Longrightarrow> \<not> alone (sv_phase s) \<Longrightarrow> \<not> alone (sv_phase t) \<Longrightarrow>
    listener t = listener s \<and> listener_ok t"
  by (cases "sv_phase s"; cases "sv_phase t") (simp_all add: listener_def listener_ok_def alone_def unlistening_def)

lemma install_fields:
  "sv_phase (install_client created fd s) = Accepting" "sv_socket (install_client created fd s) = sv_socket s"
  "sv_stopper (install_client created fd s) = sv_stopper s" "sv_handle (install_client created fd s) = sv_handle s"
  by (simp_all add: install_client_def signal_old_client_stop_def on_slot_def close_descriptor_def Let_def)

lemma install_inv:
  assumes "length (sv_slots s) = 2" "sv_current s < 2" "\<forall>c \<in> set (sv_slots s). slot_ok c" "\<not> sv_closed_twice s" "\<not> sv_stack_shared s"
    "\<not> alone (sv_phase s)" "sv_handle s" "0 \<le> fd" "none_ending s" "\<not> sl_task (sv_slots s ! (1 - sv_current s))"
    "mset (sv_fds s) = slot_fd (sv_slots s ! 0) + slot_fd (sv_slots s ! 1) + {#fd#} + listener s"
  shows "server_inv (install_client created fd s)"
proof -
  let ?t = "install_client created fd s"
  obtain a b where ab: "sv_slots s = [a, b]" using assms(1) by (auto simp: length_Suc_conv numeral_2_eq_2)
  have in_set: "fd \<in> set (sv_fds s)" using in_fds [of "sv_fds s" _ "{#fd#} + listener s"] assms(11) by (simp add: add.assoc)
  have l: "listener ?t = listener s \<and> listener_ok ?t" using assms(6) by (intro loop_listener) (simp_all add: install_fields alone_def)
  have "length (sv_slots ?t) = 2 \<and> sv_current ?t < 2 \<and> (\<forall>c \<in> set (sv_slots ?t). slot_ok c) \<and> \<not> sv_closed_twice ?t \<and> \<not> sv_stack_shared ?t
     \<and> (let c = sv_slots ?t ! (1 - sv_current ?t) in sl_task c \<longrightarrow> sl_old c \<and> sl_stop c)
     \<and> mset (sv_fds ?t) = slot_fd (sv_slots ?t ! 0) + slot_fd (sv_slots ?t ! 1) + listener s"
    using two_cases [OF assms(2)] assms ab in_set
    by (elim disjE) (auto simp: install_client_def signal_old_client_stop_def none_ending_def on_slot_def close_descriptor_def
      slot_ok_def slot_fd_def Let_def)
  with l assms(7) show ?thesis by (simp add: server_inv_def install_fields waiting_fd_def alone_def)
qed

lemma accept_inv:
  assumes "server_inv s" "none_ending s" "sv_phase s = Accepting" "0 \<le> fd"
  shows "server_inv (accept_client created fd s)"
proof -
  obtain a b where ab: "sv_slots s = [a, b]" using inv_slots [OF assms(1)] by blast
  let ?s = "s\<lparr>sv_fds := fd # sv_fds s\<rparr>"
  have cur: "sv_current s < 2" and h: "sv_handle s" using assms(1,3) by (auto simp: server_inv_def)
  have l: "listener ?s = listener s" by (simp add: listener_def)
  show ?thesis
  proof (cases "sl_task (sv_slots s ! (1 - sv_current s))")
    case True
    let ?t = "accept_client created fd s"
    have p: "sv_phase ?t = Waiting fd 30" "sv_socket ?t = sv_socket s" "sv_stopper ?t = sv_stopper s" "sv_handle ?t"
      using True h by (simp_all add: accept_client_def on_slot_def Let_def)
    have "listener ?t = listener s \<and> listener_ok ?t" using assms(3) by (intro loop_listener) (simp_all add: p alone_def)
    moreover have "length (sv_slots ?t) = 2 \<and> sv_current ?t < 2 \<and> (\<forall>c \<in> set (sv_slots ?t). slot_ok c) \<and> \<not> sv_closed_twice ?t \<and> \<not> sv_stack_shared ?t
       \<and> (let c = sv_slots ?t ! (1 - sv_current ?t) in sl_task c \<longrightarrow> sl_old c \<and> sl_stop c)
       \<and> mset (sv_fds ?t) = slot_fd (sv_slots ?t ! 0) + slot_fd (sv_slots ?t ! 1) + {#fd#} + listener s"
      using True two_cases [OF cur] assms ab
      by (elim disjE) (auto simp: server_inv_def accept_client_def on_slot_def slot_ok_def slot_fd_def waiting_fd_def Let_def)
    ultimately show ?thesis using p by (simp add: server_inv_def waiting_fd_def alone_def)
  next
    case False
    have "server_inv (install_client created fd ?s)"
      using assms False h by (intro install_inv) (simp_all add: server_inv_def none_ending_def waiting_fd_def alone_def l)
    with False show ?thesis by (simp add: accept_client_def Let_def)
  qed
qed

lemma wait_inv:
  assumes "server_inv s" "none_ending s" "sv_phase s = Waiting fd n" "0 \<le> fd"
  shows "server_inv (wait_tick created s)"
proof (cases "sl_task (sv_slots s ! (1 - sv_current s))")
  case True
  let ?t = "wait_tick created s"
  have "fd \<in> set (sv_fds s)" using assms(1,3) by (auto simp: server_inv_def waiting_fd_def simp flip: set_mset_mset)
  moreover have "listener ?t = listener s \<and> listener_ok ?t"
    using assms(3) True by (intro loop_listener) (simp_all add: wait_tick_def close_descriptor_def alone_def)
  ultimately show ?thesis using assms True
    by (auto simp: server_inv_def wait_tick_def close_descriptor_def waiting_fd_def clients_gone_def alone_def Let_def)
next
  case False
  have "server_inv (install_client created fd s)"
    using assms False by (intro install_inv) (auto simp: server_inv_def waiting_fd_def alone_def)
  with assms(3) False show ?thesis by (simp add: wait_tick_def)
qed

text \<open>The descriptor that waits is a valid one.\<close>

definition wait_valid :: "server \<Rightarrow> bool" where
  "wait_valid s \<longleftrightarrow> (\<forall>fd n. sv_phase s = Waiting fd n \<longrightarrow> 0 \<le> fd)"

lemmas client_defs = client_start_def client_request_def client_close_def client_silence_def client_sign_off_def client_unwire_def
  client_free_def client_release_def client_delete_def

lemma on_slot_simps [simp]:
  "sv_phase (on_slot i f s) = sv_phase s" "sv_current (on_slot i f s) = sv_current s" "sv_phase (close_descriptor fd s) = sv_phase s"
  "sv_slots (close_descriptor fd s) = sv_slots s" "sv_current (close_descriptor fd s) = sv_current s"
  by (simp_all add: on_slot_def close_descriptor_def)

lemma valid_step: "sv_step quiet s s' \<Longrightarrow> wait_valid s \<Longrightarrow> wait_valid s'"
  by (induction rule: sv_step.induct)
    (auto simp: wait_valid_def rtsp_server_start_def rtsp_server_stop_def stop_check_def stop_close_def stop_clear_def stop_wait_def leave_check_def
      leave_close_def leave_clear_def server_exit_def server_begins_def accept_client_def wait_tick_def install_client_def
      signal_old_client_stop_def stop_clients_def drain_tick_def client_defs Let_def split: start.splits request_effect.splits stopper.splits option.splits if_splits)

lemma inv_slot_ok: "server_inv s \<Longrightarrow> i < 2 \<Longrightarrow> slot_ok (sv_slots s ! i)"
  using two_cases [of i] by (auto simp: server_inv_def)

text \<open>The pieces of the start, of the stop and of the end of the server task.\<close>

lemma server_part_inv:
  assumes "server_inv s" "sv_slots t = sv_slots s" "sv_current t = sv_current s" "sv_closed_twice t = sv_closed_twice s"
    "sv_stack_shared t = sv_stack_shared s" "sv_phase t = Down \<longleftrightarrow> \<not> sv_handle t" "alone (sv_phase t) \<longrightarrow> clients_gone s"
    "sv_fds t = sv_fds s" "waiting_fd (sv_phase t) = waiting_fd (sv_phase s)" "listener t = listener s" "listener_ok t"
  shows "server_inv t"
  using assms unfolding server_inv_def clients_gone_def by simp

lemma server_start_inv:
  assumes "server_inv s" "sv_stopper s = Idle"
  shows "server_inv (snd (rtsp_server_start created s))"
proof (cases "sv_handle s")
  case False
  then have p: "sv_phase s = Down" "clients_gone s" "listener_ok s" using assms(1) by (auto simp: server_inv_def alone_def)
  then show ?thesis using assms False
    by (intro server_part_inv [OF assms(1)])
      (auto simp: rtsp_server_start_def listener_def listener_ok_def waiting_fd_def alone_def)
qed (use assms(1) in \<open>simp add: rtsp_server_start_def\<close>)

lemma begins_inv:
  assumes "server_inv s" "none_ending s" "sv_phase s = Booting" "\<forall>fd. listening = Some fd \<longrightarrow> 0 \<le> fd"
  shows "server_inv (server_begins listening s)"
proof -
  obtain a b where ab: "sv_slots s = [a, b]" using inv_slots [OF assms(1)] by blast
  have "sl_phase a = No_task" "sl_phase b = No_task" "sv_fds s = []" "sv_stopper s \<noteq> Clearing"
    using assms ab by (auto simp: server_inv_def alone_def clients_gone_def none_ending_def slot_ok_def slot_fd_def waiting_fd_def listener_def listener_ok_def)
  then show ?thesis using assms ab
    by (cases listening) (auto simp: server_inv_def server_begins_def server_exit_def init_slots_def slot_ok_def slot_fd_def waiting_fd_def clients_gone_def
        listener_def listener_ok_def unlistening_def alone_def less_2_cases_iff Let_def)
qed

lemma inv_parts: "server_inv s \<Longrightarrow> (sv_phase s = Down \<longleftrightarrow> \<not> sv_handle s) \<and> (alone (sv_phase s) \<longrightarrow> clients_gone s) \<and> listener_ok s"
  by (simp add: server_inv_def)

lemma stopper_inv:
  assumes "server_inv s" "sv_stopper s \<noteq> Clearing" "st \<noteq> Clearing" "st = Shutting \<longrightarrow> sv_phase s \<noteq> Booting"
  shows "server_inv (s\<lparr>sv_running := b, sv_stopper := st\<rparr>)"
  using inv_parts [OF assms(1)] assms(2-4)
  by (intro server_part_inv [OF assms(1)]; simp add: listener_def listener_ok_def; blast?)

lemma stop_inv:
  assumes "server_inv s"
  shows "sv_stopper s = Idle \<Longrightarrow> server_inv (rtsp_server_stop s)" "sv_stopper s = Told \<Longrightarrow> server_inv (stop_check s)"
    "sv_stopper s = Awaiting n \<Longrightarrow> server_inv (stop_wait s)"
proof -
  show "sv_stopper s = Idle \<Longrightarrow> server_inv (rtsp_server_stop s)" unfolding rtsp_server_stop_def by (intro stopper_inv [OF assms]) simp_all
  have n: "s\<lparr>sv_stopper := st\<rparr> = s\<lparr>sv_running := sv_running s, sv_stopper := st\<rparr>" for st by simp
  have b: "0 \<le> sv_socket s \<Longrightarrow> sv_phase s \<noteq> Booting" using inv_parts [OF assms] by (auto simp: listener_ok_def)
  show "sv_stopper s = Told \<Longrightarrow> server_inv (stop_check s)" unfolding stop_check_def n using b by (intro stopper_inv [OF assms]) simp_all
  have "server_inv (s\<lparr>sv_stopper := (if c then Idle else Awaiting m)\<rparr>)" if "sv_stopper s = Awaiting n" for c m
    unfolding n using that by (intro stopper_inv [OF assms]) simp_all
  then show "sv_stopper s = Awaiting n \<Longrightarrow> server_inv (stop_wait s)" by (simp add: stop_wait_def)
qed

lemma stop_clear_inv:
  assumes "server_inv s" "sv_stopper s = Clearing"
  shows "server_inv (stop_clear s)"
  using inv_parts [OF assms(1)] assms(2)
  by (intro server_part_inv [OF assms(1)]) (cases "sv_phase s"; auto simp: stop_clear_def listener_def listener_ok_def unlistening_def)+

lemma close_listener_inv:
  assumes "server_inv s" "listener s = {#fd#}" "sv_slots t = sv_slots s" "sv_current t = sv_current s" "sv_closed_twice t = sv_closed_twice s"
    "sv_stack_shared t = sv_stack_shared s" "sv_phase t = Down \<longleftrightarrow> \<not> sv_handle t" "alone (sv_phase t) \<longrightarrow> clients_gone s"
    "sv_fds t = remove1 fd (sv_fds s)" "waiting_fd (sv_phase t) = waiting_fd (sv_phase s)" "listener t = {#}" "listener_ok t"
  shows "server_inv t"
  using assms unfolding server_inv_def clients_gone_def by simp

lemma listener_open: "server_inv s \<Longrightarrow> listener s = {#fd#} \<Longrightarrow> fd \<in> set (sv_fds s)"
  using in_fds [of "sv_fds s" _ "{#fd#}"] by (auto simp: server_inv_def)

lemma stop_close_inv:
  assumes "server_inv s" "sv_stopper s = Shutting" "\<not> unlistening (sv_phase s)"
  shows "server_inv (stop_close s)"
proof (cases "sv_socket s < 0")
  case True
  then show ?thesis using inv_parts [OF assms(1)] assms(2,3)
    by (intro server_part_inv [OF assms(1)]) (auto simp: stop_close_def listener_def listener_ok_def unlistening_def)
next
  case False
  then have l: "listener s = {#sv_socket s#}" using assms by (auto simp: listener_def unlistening_def)
  then show ?thesis using listener_open [OF assms(1) l] inv_parts [OF assms(1)] assms(2,3) False
    by (intro close_listener_inv [OF assms(1) l]) (auto simp: stop_close_def close_descriptor_def listener_def listener_ok_def unlistening_def)
qed

lemma leave_inv:
  assumes "server_inv s"
  shows "sv_phase s = Leaving \<Longrightarrow> sv_stopper s \<noteq> Clearing \<Longrightarrow> server_inv (leave_check s)"
    "sv_phase s = Unlistened \<Longrightarrow> server_inv (leave_clear s)"
  using inv_parts [OF assms]
  by (intro server_part_inv [OF assms]; auto simp: leave_check_def leave_clear_def server_exit_def listener_def listener_ok_def unlistening_def
      waiting_fd_def alone_def)+

lemma leave_close_inv:
  assumes "server_inv s" "sv_phase s = Unlistening fd"
  shows "server_inv (leave_close fd s)"
proof -
  have o: "sv_socket s = fd" "0 \<le> fd" "sv_stopper s \<noteq> Clearing" "sv_handle s" "clients_gone s"
    using assms by (auto simp: server_inv_def listener_ok_def unlistening_def alone_def)
  then have l: "listener s = {#fd#}" using assms(2) by (simp add: listener_def)
  then show ?thesis using listener_open [OF assms(1) l] o assms(2)
    by (intro close_listener_inv [OF assms(1) l]) (auto simp: leave_close_def close_descriptor_def listener_def listener_ok_def waiting_fd_def unlistening_def)
qed

lemma tell_stop_simps: "slot_ok (tell_stop c) = slot_ok c" "slot_fd (tell_stop c) = slot_fd c" "sl_task (tell_stop c) = sl_task c"
    "sl_old (tell_stop c) = sl_old c" "sl_stop (tell_stop c) \<longleftrightarrow> sl_stop c \<or> sl_task c"
  by (simp_all add: tell_stop_def slot_ok_def slot_fd_def)

lemma stop_clients_inv:
  assumes "server_inv s" "sv_phase s = Accepting"
  shows "server_inv (stop_clients s)"
proof -
  obtain a b where ab: "sv_slots s = [a, b]" using inv_slots [OF assms(1)] by blast
  have "sv_current s = 0 \<or> sv_current s = 1" using assms(1) by (auto simp: server_inv_def)
  moreover have "listener (stop_clients s) = listener s \<and> listener_ok (stop_clients s)"
    using assms(2) by (intro loop_listener) (simp_all add: stop_clients_def alone_def)
  ultimately show ?thesis using assms ab
    by (elim disjE) (simp_all add: server_inv_def stop_clients_def tell_stop_simps waiting_fd_def alone_def Let_def)
qed

lemma calm_step_inv:
  assumes "sv_step True s s'" "server_inv s" "wait_valid s"
  shows "server_inv s'"
  using assms(1)
proof (cases rule: sv_step.cases)
  case (start created)
  with assms(2) show ?thesis by (auto intro: server_start_inv)
next
  case (begins listening)
  with assms(2) show ?thesis by (auto intro: begins_inv)
next
  case stop
  with assms(2) show ?thesis by (simp add: stop_inv)
next
  case stop_checks
  with assms(2) show ?thesis by (simp add: stop_inv)
next
  case stop_closes
  with assms(2) show ?thesis by (simp add: stop_close_inv)
next
  case stop_clears
  with assms(2) show ?thesis by (simp add: stop_clear_inv)
next
  case (stop_waits n)
  with assms(2) show ?thesis by (simp add: stop_inv)
next
  case leaves
  with assms(2) show ?thesis by (simp add: leave_inv)
next
  case (unlistens fd)
  with assms(2) show ?thesis by (simp add: leave_close_inv)
next
  case exits
  with assms(2) show ?thesis by (simp add: leave_inv)
next
  case (accept fd created)
  with assms(2) show ?thesis by (auto intro: accept_inv)
next
  case (wait fd n created)
  with assms(2,3) show ?thesis by (auto simp: wait_valid_def intro: wait_inv)
next
  case leave_loop
  with assms(2) show ?thesis by (simp add: stop_clients_inv)
next
  case (drain n)
  with assms(2) show ?thesis
    by (auto simp: server_inv_def drain_tick_def waiting_fd_def clients_gone_def listener_def listener_ok_def unlistening_def alone_def Let_def)
next
  case (client_starts i r)
  have ok: "slot_ok (sv_slots s ! i)" using assms(2) client_starts(2) by (rule inv_slot_ok)
  then have fd: "0 \<le> sl_socket (sv_slots s ! i)" using client_starts(3) by (simp add: slot_ok_def)
  show ?thesis
  proof (cases r)
    case No_conn
    then show ?thesis unfolding client_starts(1) client_start_def Let_def
      using assms(2) client_starts(2) ok fd by (simp only: start.case) (intro client_close_inv; simp add: slot_ok_def)
  next
    case No_buffer
    then show ?thesis unfolding client_starts(1) client_start_def Let_def
      using assms(2) client_starts(2) ok fd by (simp only: start.case) (intro client_close_inv; simp add: slot_ok_def)
  next
    case Started
    then show ?thesis unfolding client_starts(1) client_start_def Let_def
      using assms(2) client_starts(2,3) ok fd by (simp only: start.case) (intro client_step_inv [where s = s]; simp add: slot_ok_def)
  qed
next
  case (request i e)
  have ok: "slot_ok (sv_slots s ! i)" using assms(2) request(2) by (rule inv_slot_ok)
  show ?thesis
  proof (cases e)
    case (Open_event ev)
    then show ?thesis unfolding request(1) client_request_def Let_def
      using assms(2) request(2,3) ok by (simp only: request_effect.case) (intro client_step_inv [where s = s]; simp add: slot_ok_def)
  qed (use assms(2) in \<open>auto simp: request(1) client_request_def server_inv_def clients_gone_def listener_def listener_ok_def Let_def\<close>)
next
  case (closes i)
  have ok: "slot_ok (sv_slots s ! i)" using assms(2) closes(2) by (rule inv_slot_ok)
  with closes show ?thesis unfolding closes(1) client_close_def
    using assms(2) by (intro client_close_inv) (auto simp: slot_ok_def)
next
  case (silences i)
  with assms(2) inv_slot_ok [OF assms(2) silences(2)] show ?thesis unfolding silences(1) client_silence_def
    by (intro client_step_inv [where s = s]) (auto simp: slot_ok_def)
next
  case (signs_off i)
  with assms(2) inv_slot_ok [OF assms(2) signs_off(2)] show ?thesis unfolding signs_off(1) client_sign_off_def
    by (intro client_step_inv [where s = s]) (auto simp: slot_ok_def)
next
  case (unwires i)
  with assms(2) inv_slot_ok [OF assms(2) unwires(2)] show ?thesis unfolding unwires(1) client_unwire_def Let_def
    by (intro client_step_inv [where s = s]) (auto simp: slot_ok_def)
next
  case (frees i)
  with assms(2) inv_slot_ok [OF assms(2) frees(2)] show ?thesis unfolding frees(1) client_free_def
    by (intro client_step_inv [where s = s]) (auto simp: slot_ok_def)
next
  case (releases i)
  with assms(2) inv_slot_ok [OF assms(2) releases(2)] show ?thesis unfolding releases(1) client_release_def
    by (intro client_step_inv [where s = s]) (auto simp: slot_ok_def)
next
  case (deletes i)
  with assms(2) inv_slot_ok [OF assms(2) deletes(2)] show ?thesis unfolding deletes(1) client_delete_def
    by (intro client_step_inv [where s = s]) (auto simp: slot_ok_def)
qed

lemma calm_reach_inv: "sv_reach True s \<Longrightarrow> server_inv s \<and> wait_valid s"
proof (induction rule: sv_reach.induct)
  case boot
  then show ?case using boot_inv by (simp add: wait_valid_def server_boot_def)
next
  case (more s s')
  then show ?case using calm_step_inv valid_step by blast
qed


text \<open>C31. In every calm run, whatever the order of connections, requests, ends of clients, starts and stops, the slots are in order: no
  stack is used by two client tasks, no descriptor is closed twice, the open descriptors are exactly the sockets of the
  clients, the connection that waits for a slot and the listening socket, so none leaks, the client that is not the newest has been told to
  stop and marked as old, and with the server down no descriptor is open.  A run is calm when (1) the server task starts no client and
  resets no slot while a client task is between clearing its handle and deleting itself, (2) the clients are gone before the five
  seconds of the drain run out, and (3) of the server task and the caller of rtsp_server_stop neither takes the listening socket
  to close it while the other is closing it.  Without (1), (2) and (3) the statement fails, see below.\<close>

theorem slots_in_order:
  assumes "sv_reach True s"
  shows "\<not> sv_stack_shared s \<and> \<not> sv_closed_twice s
    \<and> mset (sv_fds s) = slot_fd (sv_slots s ! 0) + slot_fd (sv_slots s ! 1) + waiting_fd (sv_phase s) + listener s
    \<and> (let c = sv_slots s ! (1 - sv_current s) in sl_task c \<longrightarrow> sl_old c \<and> sl_stop c)
    \<and> (sv_phase s = Down \<longrightarrow> sv_fds s = [])"
proof -
  have inv: "server_inv s" using calm_reach_inv [OF assms] by simp
  have "sv_fds s = []" if "sv_phase s = Down"
  proof -
    obtain a b where ab: "sv_slots s = [a, b]" using inv_slots [OF inv] by blast
    have "slot_ok a" "slot_ok b" "\<not> sl_task a" "\<not> sl_task b" using inv that ab by (simp_all add: server_inv_def clients_gone_def alone_def)
    then have "slot_fd a = {#}" "slot_fd b = {#}" by (auto simp: slot_ok_def slot_fd_def)
    then have "mset (sv_fds s) = {#}" using inv that ab by (simp add: server_inv_def waiting_fd_def listener_def listener_ok_def)
    then show ?thesis by simp
  qed
  with inv show ?thesis by (simp add: server_inv_def Let_def)
qed

text \<open>A run written as a list of steps.\<close>

lemma reach_step: "sv_reach q s \<Longrightarrow> sv_step q s s' \<Longrightarrow> sv_reach q s'"
  by (rule sv_reach.more)

text \<open>A server that listens on descriptor 3, and two clients.\<close>

definition listening_server :: server where
  "listening_server = server_begins (Some 3) (snd (rtsp_server_start True server_boot))"

lemmas server_defs = rtsp_server_start_def server_begins_def server_boot_def free_slot_def init_slots_def accept_client_def install_client_def
    signal_old_client_stop_def client_defs on_slot_def close_descriptor_def none_ending_def

lemma listening_reach: "sv_reach q listening_server"
proof -
  have "sv_reach q (snd (rtsp_server_start True server_boot))" by (rule reach_step [OF sv_reach.boot sv_step.start]) (simp_all add: server_boot_def)
  then show ?thesis unfolding listening_server_def by (rule reach_step [OF _ sv_step.begins]) (simp_all add: server_defs)
qed

definition two_clients :: server where
  "two_clients = (let s = client_request Play 1 (client_start Started 1 (accept_client True 10 listening_server));
     s = client_start Started 0 (accept_client True 11 s)
   in client_request Announce_remote 0 (client_request Play 0 s))"

lemma two_clients_reach: "sv_reach True two_clients"
proof -
  note d = listening_server_def server_defs
  let ?s2 = "accept_client True 10 listening_server"
  have 2: "sv_reach True ?s2" by (rule reach_step [OF listening_reach sv_step.accept]) (simp_all add: d)
  let ?s3 = "client_start Started 1 ?s2"
  have 3: "sv_reach True ?s3" by (rule reach_step [OF 2 sv_step.client_starts]) (simp_all add: d)
  let ?s4 = "client_request Play 1 ?s3"
  have 4: "sv_reach True ?s4" by (rule reach_step [OF 3 sv_step.request]) (simp_all add: d)
  let ?s5 = "accept_client True 11 ?s4"
  have 5: "sv_reach True ?s5" by (rule reach_step [OF 4 sv_step.accept]) (simp_all add: d)
  let ?s6 = "client_start Started 0 ?s5"
  have 6: "sv_reach True ?s6" by (rule reach_step [OF 5 sv_step.client_starts]) (simp_all add: d)
  let ?s7 = "client_request Play 0 ?s6"
  have 7: "sv_reach True ?s7" by (rule reach_step [OF 6 sv_step.request]) (simp_all add: d)
  have "sv_reach True (client_request Announce_remote 0 ?s7)" by (rule reach_step [OF 7 sv_step.request]) (simp_all add: d)
  then show ?thesis by (simp add: two_clients_def Let_def)
qed

lemma two_clients_state:
  "sv_current two_clients = 0" "sl_phase (sv_slots two_clients ! 1) = Serving" "sv_audio two_clients = Some 11"
  "sl_socket (sv_slots two_clients ! 0) = 11" "\<not> sl_stop (sv_slots two_clients ! 0)" "sv_fds two_clients = [11, 10, 3]"
  by (simp_all add: two_clients_def listening_server_def server_defs Let_def)

lemma slots_in_order_witness: "sv_fds two_clients = [11, 10, 3] \<and> \<not> sv_stack_shared two_clients"
  using slots_in_order [OF two_clients_reach] two_clients_state by simp

text \<open>C32. A client that is replaced takes the new session down with it: whenever the old client is still serving when a
  newer one is current, its cleanup stops the audio and the NTP client, forgets the remote control and the PTP clock and announces a
  disconnect, although the newer client, untouched in its slot, may have set all of them up.\<close>

theorem replaced_client_ends_session:
  assumes "sv_reach True s" "j = 1 - sv_current s" "sl_phase (sv_slots s ! j) = Serving"
  shows "\<exists>t. (sv_step True)\<^sup>*\<^sup>* s t \<and> sv_audio t = None \<and> sv_dacp t = None \<and> sv_ntp t = None \<and> sv_clock t = None \<and> sv_disconnects t = sv_disconnects s + 1
    \<and> sv_slots t ! sv_current s = sv_slots s ! sv_current s \<and> sl_old (sv_slots s ! j)"
proof -
  have inv: "server_inv s" using calm_reach_inv [OF assms(1)] by simp
  obtain a b where ab: "sv_slots s = [a, b]" using inv_slots [OF inv] by blast
  have c: "sv_current s = 0 \<or> sv_current s = 1" using inv by (auto simp: server_inv_def)
  have j: "j < 2" "j \<noteq> sv_current s" using c assms(2) by auto
  have l: "length (sv_slots s) = 2" using ab by simp
  let ?s1 = "client_close j s" let ?s2 = "client_silence j ?s1" let ?s3 = "client_sign_off j ?s2"
  let ?s4 = "client_unwire j ?s3" let ?s5 = "client_free j ?s4"
  have len: "length (sv_slots ?s1) = 2" "length (sv_slots ?s2) = 2" "length (sv_slots ?s3) = 2" "length (sv_slots ?s4) = 2"
    using l by (simp_all add: client_defs on_slot_def close_descriptor_def Let_def)
  have ph: "sl_phase (sv_slots ?s1 ! j) = Closed" "sl_phase (sv_slots ?s2 ! j) = Silenced" "sl_phase (sv_slots ?s3 ! j) = Signed_off"
    "sl_phase (sv_slots ?s4 ! j) = Unwired"
    using j l by (simp_all add: client_defs on_slot_def close_descriptor_def Let_def)
  have "sv_step True s ?s1" using j assms(3) by (intro sv_step.closes)
  moreover have "sv_step True ?s1 ?s2" using j ph by (intro sv_step.silences)
  moreover have "sv_step True ?s2 ?s3" using j ph by (intro sv_step.signs_off)
  moreover have "sv_step True ?s3 ?s4" using j ph by (intro sv_step.unwires)
  moreover have "sv_step True ?s4 ?s5" using j ph by (intro sv_step.frees)
  ultimately have "(sv_step True)\<^sup>*\<^sup>* s ?s5" by (meson converse_rtranclp_into_rtranclp rtranclp.rtrancl_refl)
  moreover have "sv_audio ?s5 = None \<and> sv_dacp ?s5 = None \<and> sv_ntp ?s5 = None \<and> sv_clock ?s5 = None \<and> sv_disconnects ?s5 = sv_disconnects s + 1
    \<and> sv_slots ?s5 ! sv_current s = sv_slots s ! sv_current s"
    using j l by (simp add: client_defs on_slot_def close_descriptor_def Let_def)
  moreover have "sl_old (sv_slots s ! j)"
  proof -
    have "slot_ok (sv_slots s ! j)" using inv j(1) by (rule inv_slot_ok)
    then have "sl_task (sv_slots s ! j)" using assms(3) by (simp add: slot_ok_def)
    with inv assms(2) show ?thesis by (simp add: server_inv_def Let_def)
  qed
  ultimately show ?thesis by blast
qed

lemma replaced_client_ends_session_witness:
  "sv_audio two_clients = Some 11 \<and> sl_socket (sv_slots two_clients ! 0) = 11
    \<and> (\<exists>t. (sv_step True)\<^sup>*\<^sup>* two_clients t \<and> sv_audio t = None \<and> sv_slots t ! 0 = sv_slots two_clients ! 0)"
  using replaced_client_ends_session [OF two_clients_reach, of 1] two_clients_state by fastforce

text \<open>Without the calm the three fail.  (1) The stack of a task that has cleared its handle but not yet deleted itself is handed to
  a new task.\<close>

theorem stack_handed_over_early: "\<exists>s. sv_reach False s \<and> sv_stack_shared s"
proof -
  note d = listening_server_def server_defs
  let ?s2 = "accept_client True 10 listening_server"
  have 2: "sv_reach False ?s2" by (rule reach_step [OF listening_reach sv_step.accept]) (simp_all add: d)
  let ?s3 = "client_start No_conn 1 ?s2"
  have 3: "sv_reach False ?s3" by (rule reach_step [OF 2 sv_step.client_starts]) (simp_all add: d)
  let ?s4 = "accept_client True 11 ?s3"
  have 4: "sv_reach False ?s4" by (rule reach_step [OF 3 sv_step.accept]) (simp_all add: d)
  let ?s5 = "client_start Started 0 ?s4"
  have 5: "sv_reach False ?s5" by (rule reach_step [OF 4 sv_step.client_starts]) (simp_all add: d)
  let ?s6 = "accept_client True 12 ?s5"
  have "sv_reach False ?s6" by (rule reach_step [OF 5 sv_step.accept]) (simp_all add: d)
  moreover have "sv_stack_shared ?s6" by (simp add: d)
  ultimately show ?thesis by blast
qed

text \<open>(2) A client that does not end within five seconds is lost from sight at the next start, and its stack is handed out too.\<close>

lemma drained: "sv_reach False s \<Longrightarrow> sv_phase s = Draining n \<Longrightarrow> sv_reach False (s\<lparr>sv_phase := Leaving\<rparr>)"
proof (induction n arbitrary: s)
  case 0
  then have "sv_reach False (drain_tick s)" by (intro reach_step [OF 0(1) sv_step.drain]) simp_all
  with 0 show ?case by (simp add: drain_tick_def)
next
  case (Suc n)
  then have t: "sv_reach False (drain_tick s)" by (intro reach_step [OF Suc.prems(1) sv_step.drain]) simp_all
  show ?case
  proof (cases "clients_gone s")
    case True
    with t Suc.prems show ?thesis by (simp add: drain_tick_def)
  next
    case False
    with Suc.prems have "drain_tick s = s\<lparr>sv_phase := Draining n\<rparr>" by (simp add: drain_tick_def)
    with Suc.IH [of "drain_tick s"] t show ?thesis by simp
  qed
qed

definition stopped_too_early :: server where
  "stopped_too_early = (let s = client_start Started 1 (accept_client True 10 listening_server);
     s = stop_clear (stop_close (stop_check (rtsp_server_stop s)))
   in stop_wait (leave_check ((stop_clients s)\<lparr>sv_phase := Leaving\<rparr>)))"

lemmas stop_defs = rtsp_server_stop_def stop_check_def stop_close_def stop_clear_def stop_wait_def stop_clients_def tell_stop_def
  leave_check_def leave_close_def leave_clear_def server_exit_def

lemma stopped_too_early_reach: "sv_reach False stopped_too_early"
proof -
  note d = listening_server_def server_defs stop_defs
  let ?s1 = "client_start Started 1 (accept_client True 10 listening_server)"
  have "sv_reach False (accept_client True 10 listening_server)" by (rule reach_step [OF listening_reach sv_step.accept]) (simp_all add: d)
  then have 1: "sv_reach False ?s1" by (rule reach_step [OF _ sv_step.client_starts]) (simp_all add: d)
  have "sv_reach False (rtsp_server_stop ?s1)" by (rule reach_step [OF 1 sv_step.stop]) (simp add: d)
  then have "sv_reach False (stop_check (rtsp_server_stop ?s1))" by (rule reach_step [OF _ sv_step.stop_checks]) (simp add: d)
  then have "sv_reach False (stop_close (stop_check (rtsp_server_stop ?s1)))" by (rule reach_step [OF _ sv_step.stop_closes]) (simp_all add: d)
  then have 2: "sv_reach False (stop_clear (stop_close (stop_check (rtsp_server_stop ?s1))))" by (rule reach_step [OF _ sv_step.stop_clears]) (simp add: d)
  let ?s2 = "stop_clear (stop_close (stop_check (rtsp_server_stop ?s1)))"
  have "sv_reach False (stop_clients ?s2)" by (rule reach_step [OF 2 sv_step.leave_loop]) (simp_all add: d)
  then have "sv_reach False ((stop_clients ?s2)\<lparr>sv_phase := Leaving\<rparr>)" by (rule drained [where n = 50]) (simp add: stop_clients_def)
  then have "sv_reach False (leave_check ((stop_clients ?s2)\<lparr>sv_phase := Leaving\<rparr>))" by (rule reach_step [OF _ sv_step.leaves]) simp_all
  then have "sv_reach False (stop_wait (leave_check ((stop_clients ?s2)\<lparr>sv_phase := Leaving\<rparr>)))"
    by (rule reach_step [OF _ sv_step.stop_waits]) (simp add: d)
  then show ?thesis by (simp add: stopped_too_early_def Let_def)
qed

theorem drain_runs_out: "\<exists>s. sv_reach False s \<and> sv_stack_shared s \<and> none_ending s"
proof -
  note d = stopped_too_early_def listening_server_def server_defs stop_defs
  let ?t = "snd (rtsp_server_start True stopped_too_early)" let ?s = "server_begins (Some 4) ?t"
  have "sv_reach False ?t" by (rule reach_step [OF stopped_too_early_reach sv_step.start]) (simp add: d Let_def)
  then have 1: "sv_reach False ?s" by (rule reach_step [OF _ sv_step.begins]) (simp_all add: d Let_def)
  have 2: "sv_reach False (accept_client True 11 ?s)" by (rule reach_step [OF 1 sv_step.accept]) (simp_all add: d Let_def)
  have 3: "sv_reach False (accept_client True 12 (accept_client True 11 ?s))" by (rule reach_step [OF 2 sv_step.accept]) (simp_all add: d Let_def)
  moreover have "sv_stack_shared (accept_client True 12 (accept_client True 11 ?s))" "none_ending (accept_client True 12 (accept_client True 11 ?s))"
    by (simp_all add: d Let_def)
  ultimately show ?thesis by blast
qed

text \<open>(3) The server task takes the listening socket, the caller of rtsp_server_stop closes it, and the server task closes it again.\<close>

theorem listener_closed_twice: "\<exists>s. sv_reach False s \<and> sv_closed_twice s \<and> sl_phase (sv_slots s ! 0) = No_task \<and> sl_phase (sv_slots s ! 1) = No_task"
proof -
  note d = listening_server_def server_defs stop_defs
  let ?s1 = "stop_check (rtsp_server_stop listening_server)"
  have "sv_reach False (rtsp_server_stop listening_server)" by (rule reach_step [OF listening_reach sv_step.stop]) (simp add: d)
  then have "sv_reach False ?s1" by (rule reach_step [OF _ sv_step.stop_checks]) (simp add: d)
  then have "sv_reach False (stop_clients ?s1)" by (rule reach_step [OF _ sv_step.leave_loop]) (simp_all add: d)
  then have "sv_reach False ((stop_clients ?s1)\<lparr>sv_phase := Leaving\<rparr>)" by (rule drained [where n = 50]) (simp add: stop_clients_def)
  then have "sv_reach False (leave_check ((stop_clients ?s1)\<lparr>sv_phase := Leaving\<rparr>))" (is "sv_reach False ?s2") by (rule reach_step [OF _ sv_step.leaves]) simp_all
  then have "sv_reach False (stop_close ?s2)" by (rule reach_step [OF _ sv_step.stop_closes]) (simp_all add: d)
  then have "sv_reach False (leave_close 3 (stop_close ?s2))" by (rule reach_step [OF _ sv_step.unlistens]) (simp add: d)
  moreover have "sv_closed_twice (leave_close 3 (stop_close ?s2)) \<and> sl_phase (sv_slots (leave_close 3 (stop_close ?s2)) ! 0) = No_task
      \<and> sl_phase (sv_slots (leave_close 3 (stop_close ?s2)) ! 1) = No_task" by (simp add: d)
  ultimately show ?thesis by blast
qed

text \<open>A waiting connection is decided after at most as many ticks as are left and one more.\<close>

lemma wait_decided:
  "sv_phase s = Waiting fd n \<Longrightarrow> \<exists>k \<le> n + 1. sv_phase ((wait_tick created ^^ k) s) = Accepting"
proof (induction n arbitrary: s)
  case 0
  then have "sv_phase (wait_tick created s) = Accepting"
    by (simp add: wait_tick_def install_client_def signal_old_client_stop_def Let_def)
  then show ?case by (intro exI [of _ 1]) simp
next
  case (Suc n)
  show ?case
  proof (cases "sl_task (sv_slots s ! (1 - sv_current s))")
    case True
    with Suc.prems have "sv_phase (wait_tick created s) = Waiting fd n" by (simp add: wait_tick_def)
    from Suc.IH [OF this] obtain k where "k \<le> n + 1" "sv_phase ((wait_tick created ^^ k) (wait_tick created s)) = Accepting" by blast
    then show ?thesis by (intro exI [of _ "Suc k"]) (simp add: funpow_swap1)
  next
    case False
    with Suc.prems have "sv_phase (wait_tick created s) = Accepting"
      by (simp add: wait_tick_def install_client_def signal_old_client_stop_def Let_def)
    then show ?thesis by (intro exI [of _ 1]) simp
  qed
qed

end
