(* ===== verification/Rtsp_Volume.thy ===== *)
theory Rtsp_Volume imports Audio_Limiter C_String begin

text \<open>
  The volume of a connection: main/rtsp/rtsp_conn.c (rtsp_conn_create, rtsp_conn_set_volume, rtsp_conn_free), the
  volume line of SET_PARAMETER in main/rtsp/rtsp_handlers.c, airplay_get_volume_q15 of main/rtsp/rtsp_server.c and the use of
  the volume in main/audio/audio_output.c.  strtof rounds the exact decimal or hexadecimal value once.
\<close>

section \<open>Reading a number\<close>

definition digit_value :: "u8 \<Rightarrow> nat" where
  "digit_value c = (if isdigit c then unat c - 48 else if 97 \<le> c \<and> c \<le> 102 then unat c - 87 else 0)"

definition xdigit :: "u8 \<Rightarrow> bool" where
  "xdigit c \<longleftrightarrow> isdigit c \<or> 97 \<le> c \<and> c \<le> 102"

text \<open>Mantissa and exponent of a text in lower case, in base 10 with the exponent mark e or in base 16 with p;
  None if there is no digit.\<close>

definition read_exponent :: "u8 \<Rightarrow> bytes \<Rightarrow> int" where
  "read_exponent mark s = (case s of
     c # r \<Rightarrow> if c = mark
       then (let (neg, ds) = (case r of d # q \<Rightarrow> if d = 45 then (True, q) else if d = 43 then (False, q) else (False, r) | [] \<Rightarrow> (False, []));
              e = int (digits_value (takeWhile isdigit ds)) in if neg then - e else e)
       else 0
   | [] \<Rightarrow> 0)"

definition read_mantissa :: "nat \<Rightarrow> (u8 \<Rightarrow> bool) \<Rightarrow> bytes \<Rightarrow> (rat \<times> bytes) option" where
  "read_mantissa base dig s =
     (let whole = takeWhile dig s; rest = dropWhile dig s;
          (frac, rest) = (case rest of c # r \<Rightarrow> if c = 46 then (takeWhile dig r, dropWhile dig r) else ([], rest) | [] \<Rightarrow> ([], []));
          ds = whole @ frac
      in if ds = [] then None
         else Some (of_nat (foldl (\<lambda>a d. base * a + digit_value d) 0 ds) / of_nat base ^ length frac, rest))"

definition magnitude :: "bytes \<Rightarrow> f32 option" where
  "magnitude s =
     (if starts (asc ''nan'') s then Some NaN
      else if starts (asc ''inf'') s then Some (Inf False)
      else case (if starts (asc ''0x'') s then read_mantissa 16 xdigit (drop 2 s) else None) of
          Some (m, rest) \<Rightarrow> Some (fl (m * pow2 (read_exponent 112 rest)))
        | None \<Rightarrow> (case read_mantissa 10 isdigit s of
            Some (m, rest) \<Rightarrow> (let e = read_exponent 101 rest in Some (fl (if 0 \<le> e then m * 10 ^ nat e else m / 10 ^ nat (- e))))
          | None \<Rightarrow> None))"

definition strtof :: "bytes \<Rightarrow> f32" where
  "strtof s = (let s = dropWhile isspace s;
     (neg, s) = (case s of c # r \<Rightarrow> if c = 45 then (True, r) else if c = 43 then (False, r) else (False, s) | [] \<Rightarrow> (False, []))
   in case magnitude (map tolower s) of None \<Rightarrow> Fin 0 | Some v \<Rightarrow> if neg then f_neg v else v)"

section \<open>The volume of the connection\<close>

record conn_volume =
  cv_volume_db :: f32
  cv_volume_q15 :: int

definition squared_curve :: "f32 \<Rightarrow> int" where
  "squared_curve v = (let normalized = f_div (f_add v (Fin 30)) (Fin 30) in f_to_i32 (f_mul (f_mul normalized normalized) (Fin 32768)))"

definition volume_curve :: "f32 \<Rightarrow> int" where
  "volume_curve v = (if f_le v (Fin (- 30)) then 0 else if f_le (Fin 0) v then 32768 else squared_curve v)"

definition conn_volume_create :: "'n settings \<Rightarrow> conn_volume" where
  "conn_volume_create st = (case settings_get_volume st of
     Inr v \<Rightarrow> \<lparr>cv_volume_db = v, cv_volume_q15 = volume_curve v\<rparr>
   | Inl _ \<Rightarrow> \<lparr>cv_volume_db = Fin (- 15), cv_volume_q15 = squared_curve (Fin (- 15))\<rparr>)"

definition rtsp_conn_set_volume :: "f32 \<Rightarrow> conn_volume \<times> 'n settings \<Rightarrow> conn_volume \<times> 'n settings" where
  "rtsp_conn_set_volume v cs = (case cs of (c, st) \<Rightarrow>
     (c\<lparr>cv_volume_db := v, cv_volume_q15 := volume_curve v\<rparr>, snd (settings_set_volume v st)))"

definition rtsp_conn_get_volume_q15 :: "conn_volume option \<Rightarrow> int" where
  "rtsp_conn_get_volume_q15 c = (case c of None \<Rightarrow> 32768 | Some c \<Rightarrow> cv_volume_q15 c)"

text \<open>The first part of rtsp_conn_free.\<close>

definition conn_persist_volume :: "'n nvs_lib \<Rightarrow> 'n settings \<Rightarrow> 'n settings" where
  "conn_persist_volume L st = snd (settings_persist_volume L st)"

text \<open>The volume line of SET_PARAMETER.\<close>

definition set_parameter_volume :: "bytes \<Rightarrow> bytes \<Rightarrow> conn_volume \<times> 'n settings \<Rightarrow> conn_volume \<times> 'n settings" where
  "set_parameter_volume content_type body cs =
     (if strstr (asc ''text/parameters'') content_type = None then cs
      else case strstr (asc ''volume:'') body of None \<Rightarrow> cs | Some vol \<Rightarrow> rtsp_conn_set_volume (strtof (drop 7 vol)) cs)"

text \<open>The current client slot: its connection, and whether it is marked as old.\<close>

definition airplay_get_volume_q15 :: "conn_volume option \<Rightarrow> bool \<Rightarrow> int" where
  "airplay_get_volume_q15 conn is_old = (if conn \<noteq> None \<and> \<not> is_old then rtsp_conn_get_volume_q15 conn else 16384)"

definition airplay_set_volume :: "f32 \<Rightarrow> bool \<Rightarrow> conn_volume option \<times> 'n settings \<Rightarrow> conn_volume option \<times> 'n settings" where
  "airplay_set_volume v is_old cs = (case cs of
     (Some c, st) \<Rightarrow> if \<not> is_old then (case rtsp_conn_set_volume v (c, st) of (c, st) \<Rightarrow> (Some c, st)) else cs
   | (None, st) \<Rightarrow> cs)"

section \<open>The curve\<close>

lemma curve_inner:
  assumes "- 30 \<le> x" "x \<le> 0"
  shows "squared_curve (Fin x) = \<lfloor>rnd (rnd (rnd (rnd (x + 30) / 30) * rnd (rnd (x + 30) / 30)) * 32768)\<rfloor>
    \<and> 0 \<le> rnd (rnd (x + 30) / 30) \<and> rnd (rnd (x + 30) / 30) \<le> 1"
proof -
  have e: "rnd (30 :: rat) = 30" "rnd (32768 :: rat) = 32768" using rnd_int [of 30] rnd_int [of 32768] by simp_all
  let ?a = "rnd (x + 30)"
  let ?n = "rnd (?a / 30)"
  have a: "0 \<le> ?a" "?a \<le> 30" using assms e by (intro rnd_nonneg rnd_le; simp)+
  then have n: "0 \<le> ?n" "?n \<le> 1" by (intro rnd_nonneg rnd_le; simp)+
  then have nn: "0 \<le> ?n * ?n" "?n * ?n \<le> 1" by (simp_all add: mult_le_one)
  let ?m = "rnd (?n * ?n)"
  have m: "0 \<le> ?m" "?m \<le> 1" using nn by (intro rnd_nonneg rnd_le; simp)+
  have r: "0 \<le> rnd (?m * 32768)" "rnd (?m * 32768) \<le> 32768" using m e by (intro rnd_nonneg rnd_le; simp)+
  have s1: "f_add (Fin x) (Fin 30) = Fin ?a" using assms by (simp add: f_add_def fl_Fin)
  have s2: "f_div (Fin ?a) (Fin 30) = Fin ?n" using a by (simp add: f_div_def fl_Fin)
  have s3: "f_mul (Fin ?n) (Fin ?n) = Fin ?m" using nn by (simp add: f_mul_def fl_Fin)
  have s4: "f_mul (Fin ?m) (Fin 32768) = Fin (rnd (?m * 32768))" using m by (simp add: f_mul_def fl_Fin)
  have "\<lfloor>rnd (?m * 32768)\<rfloor> \<le> 32768" using r(2) floor_mono [OF r(2)] by simp
  then show ?thesis unfolding squared_curve_def Let_def s1 s2 s3 s4 using r n by (simp add: f_to_i32_def rat_trunc_def)
qed

lemma curve_inner_mono:
  assumes "- 30 \<le> x" "x \<le> y" "y \<le> 0"
  shows "squared_curve (Fin x) \<le> squared_curve (Fin y)"
proof -
  have x: "x \<le> 0" "- 30 \<le> y" using assms by simp_all
  let ?n = "\<lambda>z. rnd (rnd (z + 30) / 30)"
  have "rnd (x + 30) / 30 \<le> rnd (y + 30) / 30" using assms by (simp add: rnd_mono)
  then have "?n x \<le> ?n y" by (rule rnd_mono)
  then have "?n x * ?n x \<le> ?n y * ?n y" using curve_inner [OF assms(1) x(1)] by (intro mult_mono) simp_all
  then have "rnd (rnd (?n x * ?n x) * 32768) \<le> rnd (rnd (?n y * ?n y) * 32768)" by (intro rnd_mono mult_right_mono) simp_all
  then show ?thesis using curve_inner [OF assms(1) x(1)] curve_inner [OF x(2) assms(3)] by (simp add: floor_mono)
qed

lemma squared_ends: "squared_curve (Fin (- 30)) = 0" "squared_curve (Fin 0) = 32768"
  by code_simp+

lemma curve_range: "v \<noteq> NaN \<Longrightarrow> 0 \<le> volume_curve v \<and> volume_curve v \<le> 32768"
proof -
  assume v: "v \<noteq> NaN"
  show ?thesis
  proof (cases "f_le v (Fin (- 30)) \<or> f_le (Fin 0) v")
    case True
    then show ?thesis by (auto simp: volume_curve_def)
  next
    case False
    with v obtain x where x: "v = Fin x" "- 30 \<le> x" "x \<le> 0" by (cases v) (auto simp: f_le_def f_less_def f_eq_def)
    then show ?thesis using False curve_inner_mono [of "- 30" x] curve_inner_mono [of x 0] squared_ends by (simp add: volume_curve_def)
  qed
qed

lemma curve_Fin: "volume_curve (Fin x) = (if x \<le> - 30 then 0 else if 0 \<le> x then 32768 else squared_curve (Fin x))"
  by (auto simp: volume_curve_def f_le_def f_less_def f_eq_def)

lemma curve_mono: assumes "f_le v w" shows "volume_curve v \<le> volume_curve w"
proof -
  have nan: "v \<noteq> NaN" "w \<noteq> NaN" using assms by (auto simp: f_le_def f_less_def f_eq_def split: f32.splits)
  note r = curve_range [OF nan(1)] curve_range [OF nan(2)]
  show ?thesis
  proof (cases "\<exists>x y. v = Fin x \<and> w = Fin y")
    case True
    then obtain x y where xy: "v = Fin x" "w = Fin y" by blast
    then have "x \<le> y" using assms by (auto simp: f_le_def f_less_def f_eq_def)
    then show ?thesis using r xy curve_inner_mono [of x y] by (auto simp: curve_Fin)
  next
    case False
    then have "v = Inf True \<or> w = Inf False \<or> v = w" using assms nan
      by (cases v; cases w) (auto simp: f_le_def f_less_def f_eq_def split: if_splits)
    moreover have "volume_curve (Inf True) = 0" "volume_curve (Inf False) = 32768"
      by (simp_all add: volume_curve_def f_le_def f_less_def f_eq_def)
    ultimately show ?thesis using r by auto
  qed
qed


section \<open>Applying the volume\<close>

text \<open>apply_volume of audio_output.c: products of int32_t wrap around, the store narrows to int16_t.\<close>

definition output_volume :: "int \<Rightarrow> int \<Rightarrow> int" where
  "output_volume q15 gain = signed_take_bit 31 (q15 * gain) div 2 ^ 15"

definition apply_volume :: "int \<Rightarrow> int \<Rightarrow> int list \<Rightarrow> int list" where
  "apply_volume q15 gain buf = map (\<lambda>x. signed_take_bit 15 (signed_take_bit 31 (x * output_volume q15 gain) div 2 ^ 15)) buf"

lemma output_volume_range:
  assumes "0 \<le> q" "q \<le> 32768" "0 \<le> g" "g \<le> 32768"
  shows "output_volume q g = q * g div 32768 \<and> 0 \<le> q * g div 32768 \<and> q * g div 32768 \<le> 32768"
proof -
  have "q * g \<le> 32768 * 32768" using assms by (intro mult_mono) simp_all
  moreover have "0 \<le> q * g" using assms by simp
  ultimately have "signed_take_bit 31 (q * g) = q * g" by (intro signed_take_bit_int_eq_self) simp_all
  moreover have "q * g div 32768 \<le> 32768 * 32768 div 32768" using \<open>q * g \<le> 32768 * 32768\<close> by (intro zdiv_mono1) simp_all
  ultimately show ?thesis using \<open>0 \<le> q * g\<close> by (simp add: output_volume_def)
qed

lemma scaled_range:
  fixes x v :: int
  assumes "- 32768 \<le> x" "x \<le> 32767" "0 \<le> v" "v \<le> 32768"
  shows "signed_take_bit 15 (signed_take_bit 31 (x * v) div 2 ^ 15) = x * v div 32768 \<and> min x 0 \<le> x * v div 32768 \<and> x * v div 32768 \<le> max x 0"
proof -
  have lo: "min x 0 * 32768 \<le> x * v"
  proof (cases "0 \<le> x")
    case False
    then have "x * 32768 \<le> x * v" using assms by (intro mult_left_mono_neg) simp_all
    with False show ?thesis by simp
  qed (use assms in simp)
  have hi: "x * v \<le> max x 0 * 32768"
  proof (cases "0 \<le> x")
    case True
    then have "x * v \<le> x * 32768" using assms by (intro mult_left_mono) simp_all
    with True show ?thesis by simp
  next
    case False
    then show ?thesis using assms by (simp add: mult_nonpos_nonneg)
  qed
  have "- 32768 * 32768 \<le> x * v" "x * v \<le> 32767 * 32768" using lo hi assms by linarith+
  then have "signed_take_bit 31 (x * v) = x * v" by (intro signed_take_bit_int_eq_self) simp_all
  moreover have l: "min x 0 \<le> x * v div 32768" using zdiv_mono1 [OF lo, of 32768] by simp
  moreover have h: "x * v div 32768 \<le> max x 0" using zdiv_mono1 [OF hi, of 32768] by simp
  moreover have "signed_take_bit 15 (x * v div 32768) = x * v div 32768"
    using l h assms by (intro signed_take_bit_int_eq_self) simp_all
  ultimately show ?thesis by simp
qed

lemma apply_volume_range:
  assumes "0 \<le> q" "q \<le> 32768" "0 \<le> g" "g \<le> 32768" "int16_list buf"
  shows "list_all2 (\<lambda>x y. min x 0 \<le> y \<and> y \<le> max x 0) buf (apply_volume q g buf)"
    and "q = 0 \<Longrightarrow> apply_volume q g buf = replicate (length buf) 0"
    and "q = 32768 \<Longrightarrow> g = 32768 \<Longrightarrow> apply_volume q g buf = buf"
proof -
  note o = output_volume_range [OF assms(1-4)]
  have s: "signed_take_bit 15 (signed_take_bit 31 (x * output_volume q g) div 2 ^ 15) = x * output_volume q g div 32768
      \<and> min x 0 \<le> x * output_volume q g div 32768 \<and> x * output_volume q g div 32768 \<le> max x 0" if "x \<in> set buf" for x
    using that assms(5) o by (intro scaled_range) (auto simp: int16_list_def)
  show "list_all2 (\<lambda>x y. min x 0 \<le> y \<and> y \<le> max x 0) buf (apply_volume q g buf)"
    using s by (auto simp: apply_volume_def list_all2_conv_all_nth)
  have m: "apply_volume q g buf = map (\<lambda>x. x * output_volume q g div 32768) buf"
    using s by (simp add: apply_volume_def)
  show "apply_volume q g buf = replicate (length buf) 0" if "q = 0"
    unfolding m using that o by (simp add: map_replicate_const)
  show "apply_volume q g buf = buf" if "q = 32768" "g = 32768"
    unfolding m using that o by (simp add: map_idI)
qed

text \<open>C33. A volume line of the sender takes effect as meant: the volume of the connection is the number read, and whatever it
  is, as long as it is one, no sample gets louder or changes its sign; from -30 dB down the output is silent, and from 0 dB up
  it is the input when the master gain is full.\<close>

theorem volume_applied:
  assumes "strstr (asc ''text/parameters'') content_type \<noteq> None" "strstr (asc ''volume:'') body = Some vol"
    "strtof (drop 7 vol) = v" "v \<noteq> NaN" "0 \<le> gain" "gain \<le> 32768" "int16_list buf"
    "set_parameter_volume content_type body (c, st) = (c', st')"
  shows "cv_volume_db c' = v
    \<and> list_all2 (\<lambda>x y. min x 0 \<le> y \<and> y \<le> max x 0) buf (apply_volume (airplay_get_volume_q15 (Some c') False) gain buf)
    \<and> (f_le v (Fin (- 30)) \<longrightarrow> apply_volume (airplay_get_volume_q15 (Some c') False) gain buf = replicate (length buf) 0)
    \<and> (f_le (Fin 0) v \<longrightarrow> gain = 32768 \<longrightarrow> apply_volume (airplay_get_volume_q15 (Some c') False) gain buf = buf)"
proof -
  have c': "c' = c\<lparr>cv_volume_db := v, cv_volume_q15 := volume_curve v\<rparr>"
    using assms(1,2,3,8) by (auto simp: set_parameter_volume_def rtsp_conn_set_volume_def)
  have q: "airplay_get_volume_q15 (Some c') False = volume_curve v"
    by (simp add: airplay_get_volume_q15_def rtsp_conn_get_volume_q15_def c')
  note r = curve_range [OF assms(4)]
  note a = apply_volume_range [OF conjunct1 [OF r] conjunct2 [OF r] assms(5-7)]
  have "volume_curve v = 0" if "f_le v (Fin (- 30))" using that by (simp add: volume_curve_def)
  moreover have "volume_curve v = 32768" if "f_le (Fin 0) v"
  proof -
    have "\<not> f_le v (Fin (- 30))" using that by (cases v) (auto simp: f_le_def f_less_def f_eq_def)
    with that show ?thesis by (simp add: volume_curve_def)
  qed
  ultimately show ?thesis unfolding q using a by (simp add: c')
qed

definition demo_volume :: conn_volume where
  "demo_volume = \<lparr>cv_volume_db = Fin (- 15), cv_volume_q15 = 8192\<rparr>"

lemma volume_applied_witness:
  "apply_volume (airplay_get_volume_q15 (Some (fst (set_parameter_volume (asc ''text/parameters'') (asc ''volume: -144.0'')
     (demo_volume, demo_settings 4)))) False) 32768 [32767, - 5] = [0, 0]"
proof -
  have s: "strstr (asc ''text/parameters'') (asc ''text/parameters'') \<noteq> None"
    "strstr (asc ''volume:'') (asc ''volume: -144.0'') = Some (asc ''volume: -144.0'')"
    by (simp only: strstr_here [OF starts_self(2)], simp) (rule strstr_here, simp add: starts_def)
  have "fl 144 = Fin 144" using fl_Fin [of 144] rnd_int [of 144] by simp
  then have v: "strtof (drop 7 (asc ''volume: -144.0'')) = Fin (- 144)"
    by (simp add: strtof_def magnitude_def read_mantissa_def read_exponent_def isspace_def isdigit_def tolower_def starts_def digit_value_def f_neg_def)
  obtain c' st' where c: "set_parameter_volume (asc ''text/parameters'') (asc ''volume: -144.0'') (demo_volume, demo_settings 4) = (c', st')"
    by (metis prod.collapse)
  have "f_le (Fin (- 144)) (Fin (- 30))" by (simp add: f_le_def f_less_def)
  with volume_applied [OF s v _ _ _ _ c, of 32768 "[32767, - 5]"] show ?thesis
    unfolding c by (simp add: int16_list_def)
qed

text \<open>The sender can write nan: the volume is then no number, the conversion to an integer is undefined in C and gives the
  largest integer on this processor, which is also what is saved when the connection ends; after the next
  restart the volume of every new connection is the full one.\<close>

theorem nan_volume_full_after_restart:
  assumes "nvs_laws L view"
    "set_parameter_volume (asc ''text/parameters'') (asc ''volume: nan'') (c, st) = (c', st')"
    "settings_persist_volume L st' = (ESP_OK, st'')"
  shows "cv_volume_q15 c' = 2 ^ 31 - 1
    \<and> cv_volume_q15 (conn_volume_create (snd (settings_init L (settings_boot (st_nvs st''))))) = 32768"
proof -
  have s: "strstr (asc ''text/parameters'') (asc ''text/parameters'') \<noteq> None"
    "strstr (asc ''volume:'') (asc ''volume: nan'') = Some (asc ''volume: nan'')"
    by (simp only: strstr_here [OF starts_self(2)], simp) (rule strstr_here, simp add: starts_def)
  have v: "strtof (drop 7 (asc ''volume: nan'')) = NaN"
    by (simp add: strtof_def magnitude_def isspace_def tolower_def starts_def)
  have set: "c' = c\<lparr>cv_volume_db := NaN, cv_volume_q15 := volume_curve NaN\<rparr>" "st' = snd (settings_set_volume NaN st)"
    using assms(2) s v by (auto simp: set_parameter_volume_def rtsp_conn_set_volume_def)
  have curve: "volume_curve NaN = 2 ^ 31 - 1" by code_simp
  have vol: "g_volume_db st' = NaN" "g_volume_loaded st'" unfolding set(2) by (simp_all add: settings_set_volume_def f_eq_def)
  have "f_to_i32 (f_mul NaN (f_of_int 100)) = 2 ^ 31 - 1" by code_simp
  then have k: "save_keys L [(''volume_db'', V_int NVS_I32 (2 ^ 31 - 1))] st' = (ESP_OK, st'')"
    using assms(3) vol by (simp add: settings_persist_volume_def)
  have w: "view (st_nvs st'') NVS_NAMESPACE ''volume_db'' = Some (V_int NVS_I32 (2 ^ 31 - 1))"
    using save_keys_OK(1) [OF assms(1) k] by simp
  let ?n = "st_nvs st''"
  have o: "nvs_open_ro L ?n NVS_NAMESPACE = ESP_OK" by (rule nvs_read(1) [OF assms(1), OF w])
  have g: "nvs_get_int L ?n NVS_NAMESPACE NVS_I32 ''volume_db'' = Inr (2 ^ 31 - 1)" by (rule nvs_read(2) [OF assms(1), OF w])
  have n: "st_nvs (settings_boot ?n) = ?n" by (simp add: settings_boot_def)
  have t: "g_volume_loaded (settings_load L (settings_boot ?n)) \<and> g_volume_db (settings_load L (settings_boot ?n)) = f_div (f_of_int (2 ^ 31 - 1)) (f_of_int 100)"
    unfolding settings_load_def Let_def n g by (simp split: sum.splits)
  have "volume_curve (f_div (f_of_int (2 ^ 31 - 1)) (f_of_int 100)) = 32768" by code_simp
  then show ?thesis using set(1) curve t o n by (simp add: conn_volume_create_def settings_get_volume_def settings_init_def)
qed


lemma nan_volume_full_after_restart_witness:
  "cv_volume_q15 (conn_volume_create (snd (settings_init demo_nvs (settings_boot (st_nvs (snd (settings_persist_volume demo_nvs
     (snd (set_parameter_volume (asc ''text/parameters'') (asc ''volume: nan'') (demo_volume, demo_settings 4)))))))))) = 32768"
proof -
  let ?t = "snd (set_parameter_volume (asc ''text/parameters'') (asc ''volume: nan'') (demo_volume, demo_settings 4))"
  obtain c' where c: "set_parameter_volume (asc ''text/parameters'') (asc ''volume: nan'') (demo_volume, demo_settings 4) = (c', ?t)"
    by (metis prod.collapse)
  have "fst (settings_persist_volume demo_nvs ?t) = ESP_OK" by code_simp
  then have r: "settings_persist_volume demo_nvs ?t = (ESP_OK, snd (settings_persist_volume demo_nvs ?t))" by (metis prod.collapse)
  show ?thesis using nan_volume_full_after_restart [OF demo_nvs_laws c r] by simp
qed

end
