(* ===== verification/Playback_Control.thy ===== *)
theory Playback_Control imports Rtsp_Volume Rtsp_Metadata begin

text \<open>
  The buttons, main/playback_control.c, in the build without Bluetooth: play and pause, volume and track keys, acting on
  the settings with their cached volume, on the volume of the current connection, on the DAC and, as commands, on the
  remote control.  The volume command carries the number that dacp_send_volume of main/dacp_client.c prints.
\<close>

section \<open>The model\<close>

datatype playback_source = PLAYBACK_SOURCE_NONE | PLAYBACK_SOURCE_AIRPLAY | PLAYBACK_SOURCE_BLUETOOTH

datatype remote_command = Playpause | Nextitem | Previtem | Dmcp_volume f32

text \<open>The variables of the file; the settings, in which dac_volume lists what the DAC was set to; the current client slot; the remote
  control with the commands sent to it; the request to resume and the events.\<close>

record 'n playback =
  s_source :: playback_source
  s_muted :: bool
  s_pre_mute_db :: f32
  pb_settings :: "'n settings"
  pb_conn :: "conn_volume option"
  pb_is_old :: bool
  pb_dacp_active :: bool
  pb_commands :: "remote_command list"
  pb_resume :: bool
  pb_events :: "rtsp_event list"

definition VOLUME_STEP_DB :: f32 where "VOLUME_STEP_DB = Fin 3"
definition VOLUME_MIN_DB :: f32 where "VOLUME_MIN_DB = Fin (- 30)"
definition VOLUME_MAX_DB :: f32 where "VOLUME_MAX_DB = Fin 0"

definition playback_control_set_source :: "playback_source \<Rightarrow> 'n playback \<Rightarrow> 'n playback" where
  "playback_control_set_source src p = p\<lparr>s_muted := False, s_source := src\<rparr>"

definition clamp_volume :: "f32 \<Rightarrow> f32" where
  "clamp_volume db = (if f_less db VOLUME_MIN_DB then VOLUME_MIN_DB else if f_less VOLUME_MAX_DB db then VOLUME_MAX_DB else db)"

definition db_to_dacp_percent :: "f32 \<Rightarrow> f32" where
  "db_to_dacp_percent db = (if f_le db VOLUME_MIN_DB then Fin 0 else if f_le VOLUME_MAX_DB db then Fin 100
     else f_mul (f_div (f_sub db VOLUME_MIN_DB) (f_sub VOLUME_MAX_DB VOLUME_MIN_DB)) (Fin 100))"

definition send_command :: "remote_command \<Rightarrow> 'n playback \<Rightarrow> 'n playback" where
  "send_command c p = p\<lparr>pb_commands := pb_commands p @ [c]\<rparr>"

definition dacp_send_volume :: "f32 \<Rightarrow> 'n playback \<Rightarrow> 'n playback" where
  "dacp_send_volume v p = (let v = (if f_less v (Fin 0) then Fin 0 else v); v = (if f_less (Fin 100) v then Fin 100 else v)
     in send_command (Dmcp_volume v) p)"

definition set_dac :: "f32 \<Rightarrow> 'n playback \<Rightarrow> 'n playback" where
  "set_dac v p = p\<lparr>pb_settings := (pb_settings p)\<lparr>dac_volume := dac_volume (pb_settings p) @ [v]\<rparr>\<rparr>"

definition saved_volume :: "'n playback \<Rightarrow> f32" where
  "saved_volume p = (case settings_get_volume (pb_settings p) of Inr v \<Rightarrow> v | Inl _ \<Rightarrow> Fin (- 15))"

definition airplay_adjust_volume :: "f32 \<Rightarrow> 'n playback \<Rightarrow> 'n playback" where
  "airplay_adjust_volume step_db p =
     (let new_db = clamp_volume (f_add (saved_volume p) step_db);
          (conn, st) = airplay_set_volume new_db (pb_is_old p) (pb_conn p, pb_settings p);
          p = p\<lparr>pb_conn := conn, pb_settings := st\<rparr>;
          p = (if s_muted p then p\<lparr>s_pre_mute_db := new_db\<rparr> else set_dac new_db p)
      in dacp_send_volume (db_to_dacp_percent new_db) p)"

definition playback_control_play_pause :: "'n playback \<Rightarrow> 'n playback" where
  "playback_control_play_pause p =
     (if s_source p \<noteq> PLAYBACK_SOURCE_AIRPLAY then p
      else if pb_dacp_active p then send_command Playpause (p\<lparr>pb_resume := True\<rparr>)
      else if \<not> s_muted p then
        (let p = p\<lparr>s_pre_mute_db := saved_volume p\<rparr>; p = set_dac VOLUME_MIN_DB p
         in p\<lparr>s_muted := True, pb_events := pb_events p @ [RTSP_EVENT_PAUSED]\<rparr>)
      else (let p = set_dac (s_pre_mute_db p) p in p\<lparr>s_muted := False, pb_events := pb_events p @ [RTSP_EVENT_PLAYING]\<rparr>))"

definition playback_control_volume_up :: "'n playback \<Rightarrow> 'n playback" where
  "playback_control_volume_up p = (if s_source p = PLAYBACK_SOURCE_AIRPLAY then airplay_adjust_volume VOLUME_STEP_DB p else p)"

definition playback_control_volume_down :: "'n playback \<Rightarrow> 'n playback" where
  "playback_control_volume_down p = (if s_source p = PLAYBACK_SOURCE_AIRPLAY then airplay_adjust_volume (f_neg VOLUME_STEP_DB) p else p)"

definition playback_control_next :: "'n playback \<Rightarrow> 'n playback" where
  "playback_control_next p = (if s_source p = PLAYBACK_SOURCE_AIRPLAY \<and> pb_dacp_active p then send_command Nextitem p else p)"

definition playback_control_prev :: "'n playback \<Rightarrow> 'n playback" where
  "playback_control_prev p = (if s_source p = PLAYBACK_SOURCE_AIRPLAY \<and> pb_dacp_active p then send_command Previtem p else p)"

section \<open>The keys\<close>

abbreviation dac_now :: "'n playback \<Rightarrow> f32" where
  "dac_now p \<equiv> last (dac_volume (pb_settings p))"

lemma clamp_cases: "v \<noteq> NaN \<Longrightarrow> f_le VOLUME_MIN_DB (clamp_volume v) \<and> f_le (clamp_volume v) VOLUME_MAX_DB"
  by (cases v) (auto simp: clamp_volume_def VOLUME_MIN_DB_def VOLUME_MAX_DB_def f_less_def f_le_def f_eq_def)

lemma set_volume_conn:
  "airplay_set_volume v False (Some c, st) = (Some (c\<lparr>cv_volume_db := v, cv_volume_q15 := volume_curve v\<rparr>), snd (settings_set_volume v st))"
  by (simp add: airplay_set_volume_def rtsp_conn_set_volume_def)

lemma set_volume_cached: "v \<noteq> NaN \<Longrightarrow> settings_get_volume (snd (settings_set_volume v st)) = Inr v"
  by (auto simp: settings_set_volume_def settings_get_volume_def f_eq_def)

text \<open>A volume key moves the volume of the session by 3 dB within -30 to 0: saved volume and volume of the connection
  become the clamped sum, unmuted the DAC is set to it, and the sender is told a percentage.  Pressing play/pause twice without a
  remote control gives the DAC back the volume that was saved before.\<close>

theorem keys_work:
  assumes "s_source p = PLAYBACK_SOURCE_AIRPLAY" "pb_conn p = Some c" "\<not> pb_is_old p" "f_add (saved_volume p) (Fin 3) \<noteq> NaN" "\<not> s_muted p"
  shows "(let q = playback_control_volume_up p; v = clamp_volume (f_add (saved_volume p) (Fin 3)) in
       saved_volume q = v \<and> dac_now q = v \<and> pb_conn q = Some (c\<lparr>cv_volume_db := v, cv_volume_q15 := volume_curve v\<rparr>)
       \<and> f_le (Fin (- 30)) v \<and> f_le v (Fin 0) \<and> volume_curve v \<in> {0..32768})
     \<and> (\<not> pb_dacp_active p \<longrightarrow> (let q = playback_control_play_pause p; r = playback_control_play_pause q in
         dac_now q = Fin (- 30) \<and> dac_now r = saved_volume p \<and> \<not> s_muted r \<and> saved_volume r = saved_volume p))"
proof -
  let ?v = "clamp_volume (f_add (saved_volume p) (Fin 3))"
  have r: "f_le (Fin (- 30)) ?v \<and> f_le ?v (Fin 0)" using clamp_cases [OF assms(4)] by (simp add: VOLUME_MIN_DB_def VOLUME_MAX_DB_def)
  then have n: "?v \<noteq> NaN" by (auto simp: f_le_def f_less_def f_eq_def)
  have "volume_curve ?v \<in> {0..32768}" using curve_range [OF n] by simp
  moreover have "saved_volume (playback_control_volume_up p) = ?v"
    using set_volume_cached [OF n, of "pb_settings p"] assms
    by (simp add: playback_control_volume_up_def airplay_adjust_volume_def VOLUME_STEP_DB_def set_volume_conn Let_def dacp_send_volume_def
        send_command_def set_dac_def saved_volume_def settings_get_volume_def split: if_splits sum.splits)
  moreover have "dac_now (playback_control_volume_up p) = ?v \<and> pb_conn (playback_control_volume_up p) = Some (c\<lparr>cv_volume_db := ?v, cv_volume_q15 := volume_curve ?v\<rparr>)"
    using assms by (simp add: playback_control_volume_up_def airplay_adjust_volume_def VOLUME_STEP_DB_def set_volume_conn Let_def dacp_send_volume_def
        send_command_def set_dac_def)
  moreover have "\<not> pb_dacp_active p \<longrightarrow> (let q = playback_control_play_pause p; r = playback_control_play_pause q in
         dac_now q = Fin (- 30) \<and> dac_now r = saved_volume p \<and> \<not> s_muted r \<and> saved_volume r = saved_volume p)"
    using assms by (simp add: playback_control_play_pause_def set_dac_def Let_def VOLUME_MIN_DB_def saved_volume_def settings_get_volume_def)
  ultimately show ?thesis using r by (simp add: Let_def)
qed

definition demo_playback :: "bool \<Rightarrow> demo_flash playback" where
  "demo_playback m = \<lparr>s_source = PLAYBACK_SOURCE_AIRPLAY, s_muted = m, s_pre_mute_db = Fin (- 15), pb_settings = demo_settings 4,
     pb_conn = Some demo_volume, pb_is_old = False, pb_dacp_active = False, pb_commands = [], pb_resume = False, pb_events = []\<rparr>"

lemma demo_sum: "f_add (saved_volume (demo_playback m)) (Fin 3) = Fin (- 12)"
proof -
  have "fl (- 12) = Fin (- 12)" using fl_Fin [of "- 12"] rnd_int [of "- 12"] by simp
  then show ?thesis by (simp add: saved_volume_def demo_playback_def demo_settings_def settings_boot_def settings_get_volume_def f_add_def)
qed

lemma demo_clamp: "clamp_volume (Fin (- 12)) = Fin (- 12)"
  by (simp add: clamp_volume_def VOLUME_MIN_DB_def VOLUME_MAX_DB_def f_less_def)

lemma keys_work_witness:
  "dac_now (playback_control_volume_up (demo_playback False)) = Fin (- 12)
    \<and> dac_now (playback_control_play_pause (playback_control_play_pause (demo_playback False))) = Fin (- 15)"
proof -
  have s: "s_source (demo_playback False) = PLAYBACK_SOURCE_AIRPLAY" "pb_conn (demo_playback False) = Some demo_volume"
    "\<not> pb_is_old (demo_playback False)" "\<not> s_muted (demo_playback False)" "\<not> pb_dacp_active (demo_playback False)"
    by (simp_all add: demo_playback_def)
  have v: "saved_volume (demo_playback False) = Fin (- 15)"
    by (simp add: saved_volume_def demo_playback_def demo_settings_def settings_boot_def settings_get_volume_def)
  have n: "f_add (saved_volume (demo_playback False)) (Fin 3) \<noteq> NaN" unfolding demo_sum by simp
  from keys_work [OF s(1-3) n s(4)] s(5) v show ?thesis unfolding demo_sum demo_clamp by (simp add: Let_def)
qed

text \<open>A volume key while the sound is muted makes it audible: the new volume is only to be remembered for later, but
  setting the volume of the connection hands it to the DAC as well, which was at the bottom, and the state still says muted.\<close>

theorem volume_key_unmutes:
  assumes "s_source p = PLAYBACK_SOURCE_AIRPLAY" "pb_conn p = Some c" "\<not> pb_is_old p" "s_muted p"
    "v = clamp_volume (f_add (saved_volume p) (Fin 3))" "\<not> (g_volume_loaded (pb_settings p) \<and> f_eq v (g_volume_db (pb_settings p)))"
  shows "dac_now (playback_control_volume_up p) = v \<and> s_muted (playback_control_volume_up p)"
proof -
  have "dac_volume (snd (settings_set_volume v (pb_settings p))) = dac_volume (pb_settings p) @ [v]"
    using assms(6) by (simp only: settings_set_volume_def if_False snd_conv) simp
  then show ?thesis unfolding assms(5)
    using assms(1-4) by (simp add: playback_control_volume_up_def airplay_adjust_volume_def VOLUME_STEP_DB_def set_volume_conn Let_def
        dacp_send_volume_def send_command_def)
qed

lemma volume_key_unmutes_witness:
  "dac_now (playback_control_volume_up (playback_control_play_pause (demo_playback False))) = Fin (- 12)"
proof -
  let ?p = "playback_control_play_pause (demo_playback False)"
  have s: "s_source ?p = PLAYBACK_SOURCE_AIRPLAY" "pb_conn ?p = Some demo_volume" "\<not> pb_is_old ?p" "s_muted ?p"
    "saved_volume ?p = saved_volume (demo_playback False)" "\<not> g_volume_loaded (pb_settings ?p)"
    by (simp_all add: playback_control_play_pause_def demo_playback_def set_dac_def Let_def saved_volume_def settings_get_volume_def
        demo_settings_def settings_boot_def)
  have "Fin (- 12) = clamp_volume (f_add (saved_volume ?p) (Fin 3))" unfolding s(5) demo_sum demo_clamp by simp
  from volume_key_unmutes [OF s(1-4) this] s(6) show ?thesis by simp
qed

end
