(* ===== verification/Dns_Server.thy ===== *)
theory Dns_Server imports Prelude begin

text \<open>
  The name server of the captive portal, main/network/dns_server.c: every question is answered with the address of the
  speaker.  The receive and transmit buffers are arrays of 512 bytes; a read or write outside of them is Fault.
\<close>

section \<open>The model\<close>

definition DNS_MAX_LEN :: nat where "DNS_MAX_LEN = 512"

text \<open>The loop over the labels of a name: where it stopped, or None after an overrun.\<close>

function skip_name :: "bytes \<Rightarrow> nat \<Rightarrow> nat \<Rightarrow> nat option cres" where
  "skip_name rx en ptr =
     (if ptr < en then cbind (rd rx ptr) (\<lambda>label_len.
        if label_len = 0 then Done (Some ptr)
        else if ptr + 1 + unat label_len > en then Done None
        else skip_name rx en (ptr + unat label_len + 1))
      else Done (Some ptr))"
  by pat_completeness auto

termination by (relation "measure (\<lambda>(rx, en, ptr). en - ptr)") auto

declare skip_name.simps [simp del]

definition ip_bytes :: "u32 \<Rightarrow> bytes" where
  "ip_bytes ip = [ucast ip, ucast (drop_bit 8 ip), ucast (drop_bit 16 ip), ucast (drop_bit 24 ip)]"

definition dns_answer :: "u32 \<Rightarrow> bytes" where
  "dns_answer ip = [0xC0, 0x0C, 0x00, 0x01, 0x00, 0x01, 0x00, 0x00, 0x00, 0x3C, 0x00, 0x04] @ ip_bytes ip"

text \<open>The loop over the questions left; the result is the buffer, the length of the response and the number of answers.\<close>

fun add_answers :: "nat \<Rightarrow> u32 \<Rightarrow> bytes \<Rightarrow> nat \<Rightarrow> nat \<Rightarrow> bytes \<Rightarrow> nat \<Rightarrow> nat \<Rightarrow> (bytes \<times> nat \<times> nat) cres" where
  "add_answers 0 ip rx en ptr tx resp_len ancount = Done (tx, resp_len, ancount)"
| "add_answers (Suc n) ip rx en ptr tx resp_len ancount =
     (if resp_len < DNS_MAX_LEN - 16 then
        cbind (skip_name rx en ptr) (\<lambda>name. case name of
            None \<Rightarrow> Done (tx, resp_len, ancount)
          | Some ptr \<Rightarrow> if ptr \<ge> en \<or> ptr + 5 > en then Done (tx, resp_len, ancount)
             else cbind (put_bytes tx resp_len (dns_answer ip)) (\<lambda>tx.
               add_answers n ip rx en (ptr + 5) tx (resp_len + 16) (ancount + 1)))
      else Done (tx, resp_len, ancount))"

definition htons :: "nat \<Rightarrow> bytes" where "htons n = be16 (of_nat n)"

text \<open>One turn of dns_server_task for a datagram of len bytes: the datagram sent, if one is, and the buffer.\<close>

definition dns_reply :: "u32 \<Rightarrow> bytes \<Rightarrow> nat \<Rightarrow> bytes \<Rightarrow> (bytes option \<times> bytes) cres" where
  "dns_reply redirect_ip rx len tx =
     (if len < 12 then Done (None, tx)
      else cbind (slice rx 0 len) (\<lambda>query.
           cbind (put_bytes tx 0 query) (\<lambda>tx.
           cbind (put_bytes tx 2 (htons 0x8400)) (\<lambda>tx.
           cbind (rd rx 4) (\<lambda>q0. cbind (rd rx 5) (\<lambda>q1.
             let qdcount = unat q0 * 256 + unat q1 in
             if qdcount > 8 then Done (None, tx)
             else cbind (add_answers qdcount redirect_ip rx len 12 tx len 0) (\<lambda>(tx, resp_len, ancount).
                  cbind (put_bytes tx 6 (htons ancount)) (\<lambda>tx.
                  cbind (slice tx 0 resp_len) (\<lambda>resp. Done (Some resp, tx))))))))))"

section \<open>Safety\<close>

lemma skip_name_safe: "en \<le> length rx \<Longrightarrow> skip_name rx en ptr \<noteq> Fault \<and> skip_name rx en ptr \<noteq> Fail"
proof (induction rx en ptr rule: skip_name.induct)
  case (1 rx en ptr)
  show ?case
  proof (cases "ptr < en")
    case True
    with 1(2) have "rd rx ptr = Done (rx ! ptr)" by (simp add: rd_def)
    with 1 True show ?thesis by (subst (1 2) skip_name.simps) simp
  qed (simp add: skip_name.simps)
qed

lemma dns_answer_length: "length (dns_answer ip) = 16"
  by (simp add: dns_answer_def ip_bytes_def)

lemma add_answers_safe:
  "en \<le> length rx \<Longrightarrow> length tx = 512 \<Longrightarrow> resp_len \<le> 512 \<Longrightarrow>
     \<exists>tx' l a. add_answers n ip rx en ptr tx resp_len ancount = Done (tx', l, a) \<and> length tx' = 512 \<and> l \<le> 512 \<and> resp_len \<le> l
       \<and> a \<le> ancount + n"
proof (induction n arbitrary: ptr tx resp_len ancount)
  case (Suc n)
  obtain name where name: "skip_name rx en ptr = Done name" using skip_name_safe [OF Suc.prems(1), of ptr] by (cases "skip_name rx en ptr") auto
  show ?case
  proof (cases "resp_len < 496 \<and> (\<exists>p. name = Some p \<and> p + 5 \<le> en)")
    case True
    then obtain p where p: "name = Some p" "p + 5 \<le> en" "resp_len < 496" by blast
    then have "resp_len + length (dns_answer ip) \<le> length tx" using Suc.prems by (simp add: dns_answer_length)
    from put_bytes_Done [OF this] obtain t where t: "put_bytes tx resp_len (dns_answer ip) = Done t" "length t = 512" using Suc.prems by auto
    from Suc.IH [OF Suc.prems(1) t(2), of "resp_len + 16" "p + 5" "ancount + 1"] p t name show ?thesis by (auto simp: DNS_MAX_LEN_def)
  next
    case False
    then show ?thesis using Suc.prems name by (auto simp: DNS_MAX_LEN_def split: option.splits)
  qed
qed simp

lemma dns_reply_safe:
  assumes "length rx = 512" "length tx = 512" "len \<le> 512"
  shows "\<exists>r tx'. dns_reply ip rx len tx = Done (r, tx') \<and> length tx' = 512 \<and> (\<forall>resp. r = Some resp \<longrightarrow> len \<le> length resp \<and> length resp \<le> 512)"
proof (cases "len < 12")
  case False
  obtain t1 where t1: "put_bytes tx 0 (take len rx) = Done t1" "length t1 = 512"
    using put_bytes_Done [of 0 "take len rx" tx] assms by auto
  obtain t2 where t2: "put_bytes t1 2 (htons 0x8400) = Done t2" "length t2 = 512"
    using put_bytes_Done [of 2 "htons 0x8400" t1] t1 by (auto simp: htons_def be16_def)
  let ?q = "unat (rx ! 4) * 256 + unat (rx ! 5)"
  obtain t3 l a where t3: "add_answers ?q ip rx len 12 t2 len 0 = Done (t3, l, a)" "length t3 = 512" "l \<le> 512" "len \<le> l"
    using add_answers_safe [of len rx t2 len ?q ip 12 0] assms t2 by auto
  obtain t4 where t4: "put_bytes t3 6 (htons a) = Done t4" "length t4 = 512"
    using put_bytes_Done [of 6 "htons a" t3] t3 by (auto simp: htons_def be16_def)
  show ?thesis using False assms t1 t2 t3 t4 by (simp add: dns_reply_def slice_def rd_def Let_def)
qed (simp add: dns_reply_def assms)

section \<open>Answers\<close>

text \<open>A question: labels of 1 to 63 bytes, the root label, type and class.\<close>

definition label_bytes :: "bytes \<Rightarrow> bytes" where "label_bytes l = of_nat (length l) # l"

definition question :: "bytes list \<times> bytes \<Rightarrow> bytes" where
  "question q = concat (map label_bytes (fst q)) @ [0] @ snd q"

definition question_ok :: "bytes list \<times> bytes \<Rightarrow> bool" where
  "question_ok q \<longleftrightarrow> (\<forall>l \<in> set (fst q). 1 \<le> length l \<and> length l \<le> 63) \<and> length (snd q) = 4"

lemma skip_name_labels:
  "\<forall>l \<in> set ls. 1 \<le> length l \<and> length l \<le> 63 \<Longrightarrow> drop ptr rx = concat (map label_bytes ls) @ [0] @ rest \<Longrightarrow>
     ptr + length (concat (map label_bytes ls)) < en \<Longrightarrow> en \<le> length rx \<Longrightarrow>
     skip_name rx en ptr = Done (Some (ptr + length (concat (map label_bytes ls))))"
proof (induction ls arbitrary: ptr)
  case Nil
  have "rd rx ptr = Done 0" using Nil by (metis add.right_neutral append_Cons append_Nil concat.simps(1) hd_drop_conv_nth
      list.map(1) list.sel(1) list.size(3) order.strict_trans2 rd_def)
  then show ?case using Nil by (subst skip_name.simps) simp
next
  case (Cons l ls)
  have lb: "1 \<le> length l" "length l \<le> 63" using Cons.prems(1) by auto
  then have w: "unat (of_nat (length l) :: u8) = length l" by (simp add: unat_of_nat)
  then have nz: "(of_nat (length l) :: u8) \<noteq> 0" using lb by (metis not_one_le_zero unat_0)
  have lt: "ptr < en" "ptr < length rx" using Cons.prems by auto
  have d: "drop ptr rx = of_nat (length l) # l @ concat (map label_bytes ls) @ [0] @ rest"
    using Cons.prems(2) by (simp add: label_bytes_def [of l])
  then have r: "rd rx ptr = Done (of_nat (length l))" using lt by (metis hd_drop_conv_nth list.sel(1) rd_def)
  have "drop (length l + 1) (drop ptr rx) = concat (map label_bytes ls) @ [0] @ rest" unfolding d by simp
  then have d2: "drop (ptr + length l + 1) rx = concat (map label_bytes ls) @ [0] @ rest" by (simp add: add.commute add.left_commute)
  have s: "ptr + length (concat (map label_bytes (l # ls))) = ptr + length l + 1 + length (concat (map label_bytes ls))"
    by (simp add: label_bytes_def [of l])
  have "skip_name rx en (ptr + length l + 1) = Done (Some (ptr + length l + 1 + length (concat (map label_bytes ls))))"
    using Cons.prems(1,3,4) s d2 by (intro Cons.IH) simp_all
  moreover have "\<not> ptr + 1 + length l > en" using Cons.prems(3) s by simp
  ultimately show ?case using lt(1) r w nz s by (subst skip_name.simps) simp
qed

lemma add_answers_all:
  assumes "\<forall>q \<in> set qs. question_ok q" "en \<le> length rx" "length rx = 512"
  shows "drop ptr rx = concat (map question qs) @ rest \<Longrightarrow> ptr + length (concat (map question qs)) \<le> en \<Longrightarrow>
     length tx = 512 \<Longrightarrow> (qs \<noteq> [] \<longrightarrow> resp_len + 16 * (length qs - 1) < 496) \<Longrightarrow> \<exists>tx'.
     add_answers (length qs) ip rx en ptr tx resp_len ancount = Done (tx', resp_len + 16 * length qs, ancount + length qs)
     \<and> length tx' = 512 \<and> take (resp_len + 16 * length qs) tx' = take resp_len tx @ concat (replicate (length qs) (dns_answer ip))"
  using assms(1)
proof (induction qs arbitrary: ptr tx resp_len ancount)
  case (Cons q qs)
  obtain ls tc where q: "q = (ls, tc)" by (metis prod.collapse)
  let ?n = "length (concat (map label_bytes ls))"
  have tc: "length tc = 4" and ls: "\<forall>l \<in> set ls. 1 \<le> length l \<and> length l \<le> 63" using Cons.prems(5) q by (auto simp: question_ok_def)
  have d: "drop ptr rx = concat (map label_bytes ls) @ [0] @ (tc @ concat (map question qs) @ rest)"
    using Cons.prems(1) q by (simp add: question_def [of "(ls, tc)"])
  have lq: "length (question q) = ?n + 5" using q tc by (simp add: question_def)
  have le: "ptr + ?n + 5 + length (concat (map question qs)) \<le> en" using Cons.prems(2) lq by simp
  have s: "skip_name rx en ptr = Done (Some (ptr + ?n))" using le by (intro skip_name_labels [OF ls d _ assms(2)]) simp
  have "drop (?n + 5) (drop ptr rx) = concat (map question qs) @ rest" unfolding d using tc by simp
  then have d2: "drop (ptr + ?n + 5) rx = concat (map question qs) @ rest" by (simp add: add.commute add.left_commute)
  have room: "resp_len < 496" using Cons.prems(4) by simp
  then have "resp_len + length (dns_answer ip) \<le> length tx" using Cons.prems(3) by (simp add: dns_answer_length)
  from put_bytes_Done [OF this] obtain t where t: "put_bytes tx resp_len (dns_answer ip) = Done t" "length t = 512"
    "take (resp_len + 16) t = take resp_len tx @ dns_answer ip" using Cons.prems(3) by (auto simp: dns_answer_length)
  have "qs \<noteq> [] \<longrightarrow> (resp_len + 16) + 16 * (length qs - 1) < 496" using Cons.prems(4) by (cases qs) auto
  from Cons.IH [OF d2 le t(2) this, of "ancount + 1"] Cons.prems(5) obtain t' where t':
    "add_answers (length qs) ip rx en (ptr + ?n + 5) t (resp_len + 16) (ancount + 1) = Done (t', resp_len + 16 + 16 * length qs, ancount + 1 + length qs)"
    "length t' = 512" "take (resp_len + 16 + 16 * length qs) t' = take (resp_len + 16) t @ concat (replicate (length qs) (dns_answer ip))" by auto
  have "\<not> (ptr + ?n \<ge> en \<or> ptr + ?n + 5 > en)" using le by simp
  then have "add_answers (length (q # qs)) ip rx en ptr tx resp_len ancount = Done (t', resp_len + 16 + 16 * length qs, ancount + 1 + length qs)"
    using s room t(1) t'(1) by (simp add: DNS_MAX_LEN_def)
  then show ?case using t' t(3) by (intro exI [of _ t']) (simp add: add.assoc)
qed simp

lemma slice_prefix: "slice (xs @ ys) 0 (length xs) = Done xs"
  by (simp add: slice_def)

lemma be16_small: "k \<le> 8 \<Longrightarrow> be16 (of_nat k) = [0, of_nat k] \<and> unat (of_nat k :: u8) = k"
proof -
  assume "k \<le> 8"
  then have "k \<in> {0, 1, 2, 3, 4, 5, 6, 7, 8}" by auto
  then show ?thesis by (elim insertE emptyE) (simp_all add: be16_def)
qed

text \<open>C36. Every datagram is handled without an access outside of the buffers; and a query of up to eight well-formed questions whose
  answer fits (its length plus 16 bytes per question is at most 511, the limit of the loop) is answered with its own bytes, marked as a response, and one answer per question that names the address of the
  speaker.  What follows the questions in the query, such as the option record that modern resolvers send, stays
  before the answers although the format wants it behind them.\<close>

theorem dns_answered:
  assumes "length tx = 512" "length rx = 512" "\<forall>q \<in> set qs. question_ok q" "length qs \<le> 8" "length i = 2" "length f = 2" "length an = 2" "length rest = 4"
    "take len rx = i @ f @ be16 (of_nat (length qs)) @ an @ rest @ concat (map question qs) @ extra" "len + 16 * length qs \<le> 511"
    "len = 12 + length (concat (map question qs)) + length extra" "length junk = 512" "n \<le> 512"
  shows "(\<exists>tx'. dns_reply ip rx len tx = Done (Some (i @ [0x84, 0x00] @ be16 (of_nat (length qs)) @ be16 (of_nat (length qs)) @ rest
      @ concat (map question qs) @ extra @ concat (replicate (length qs) (dns_answer ip))), tx'))
    \<and> dns_reply ip junk n tx \<noteq> Fault"
proof
  let ?k = "length qs" and ?Q = "concat (map question qs)" and ?A = "concat (replicate (length qs) (dns_answer ip))"
  obtain i0 i1 where i: "i = [i0, i1]" using assms(5) by (auto simp: length_Suc_conv numeral_2_eq_2)
  obtain f0 f1 where f: "f = [f0, f1]" using assms(6) by (auto simp: length_Suc_conv numeral_2_eq_2)
  obtain a0 a1 where a: "an = [a0, a1]" using assms(7) by (auto simp: length_Suc_conv numeral_2_eq_2)
  have qd: "be16 (of_nat ?k) = [0, of_nat ?k]" "unat (of_nat ?k :: u8) = ?k" using be16_small [OF assms(4)] by simp_all
  have len: "len \<le> 511" "12 \<le> len" using assms(10,11) by simp_all
  have rx: "rx = i0 # i1 # f0 # f1 # 0 # of_nat ?k # a0 # a1 # rest @ ?Q @ extra @ drop len rx"
    using append_take_drop_id [of len rx] unfolding assms(9) i f a qd by simp
  have r: "rd rx 4 = Done 0" "rd rx 5 = Done (of_nat ?k)" using assms(2) by (subst rx, simp add: rd_def)+
  have s1: "slice rx 0 len = Done (i0 # i1 # f0 # f1 # 0 # of_nat ?k # a0 # a1 # rest @ ?Q @ extra)"
    using assms(2,9) len unfolding slice_def i f a qd by simp
  have h: "htons 0x8400 = [0x84, 0x00]" "htons ?k = [0, of_nat ?k]" using qd by (simp_all add: htons_def be16_def)
  let ?t1 = "i0 # i1 # f0 # f1 # 0 # of_nat ?k # a0 # a1 # rest @ ?Q @ extra @ drop len tx"
  let ?t2 = "i0 # i1 # 0x84 # 0x00 # 0 # of_nat ?k # a0 # a1 # rest @ ?Q @ extra @ drop len tx"
  have "length (i0 # i1 # f0 # f1 # 0 # of_nat ?k # a0 # a1 # rest @ ?Q @ extra) = len" using assms(8,11) by simp
  then have p1: "put_bytes tx 0 (i0 # i1 # f0 # f1 # 0 # of_nat ?k # a0 # a1 # rest @ ?Q @ extra) = Done ?t1"
    using len assms(1) by (simp add: put_bytes_def)
  have p2: "put_bytes ?t1 2 (htons 0x8400) = Done ?t2" unfolding h by (simp add: put_bytes_def)
  have d12: "drop 12 rx = ?Q @ (extra @ drop len rx)" using assms(8) by (subst rx) simp
  have l2: "length ?t2 = 512" using assms(1,8,11) len by simp
  have "?k = 0 \<or> len + 16 * (?k - 1) < 496" using assms(10) by (cases ?k) auto
  then have room: "qs \<noteq> [] \<longrightarrow> len + 16 * (?k - 1) < 496" by auto
  have le: "12 + length ?Q \<le> len" using assms(11) by simp
  have "len \<le> length rx" using assms(2) len by simp
  from add_answers_all [OF assms(3) this assms(2) d12 le l2 room, of ip 0] obtain t3 where t3:
    "add_answers ?k ip rx len 12 ?t2 len 0 = Done (t3, len + 16 * ?k, ?k)" "length t3 = 512"
    "take (len + 16 * ?k) t3 = take len ?t2 @ ?A" by auto
  have x2: "?t2 = (i0 # i1 # 0x84 # 0x00 # 0 # of_nat ?k # a0 # a1 # rest @ ?Q @ extra) @ drop len tx"
    "length (i0 # i1 # 0x84 # 0x00 # 0 # of_nat ?k # a0 # a1 # rest @ ?Q @ extra) = len" using assms(8,11) by simp_all
  then have "take len ?t2 = i0 # i1 # 0x84 # 0x00 # 0 # of_nat ?k # a0 # a1 # rest @ ?Q @ extra" by (metis append_eq_conv_conj)
  then have e3: "t3 = i0 # i1 # 0x84 # 0x00 # 0 # of_nat ?k # a0 # a1 # rest @ ?Q @ extra @ ?A @ drop (len + 16 * ?k) t3"
    using append_take_drop_id [of "len + 16 * ?k" t3] unfolding t3(3) by simp
  let ?t4 = "i0 # i1 # 0x84 # 0x00 # 0 # of_nat ?k # 0 # of_nat ?k # rest @ ?Q @ extra @ ?A @ drop (len + 16 * ?k) t3"
  have p4: "put_bytes t3 6 (htons ?k) = Done ?t4" unfolding h by (subst (1) e3) (simp add: put_bytes_def)
  have "length ?A = 16 * ?k" by (simp add: length_concat dns_answer_length sum_list_replicate)
  then have "length (i0 # i1 # 0x84 # 0x00 # 0 # of_nat ?k # 0 # of_nat ?k # rest @ ?Q @ extra @ ?A) = len + 16 * ?k"
    using assms(8,11) by simp
  then have s4: "slice ((i0 # i1 # 0x84 # 0x00 # 0 # of_nat ?k # 0 # of_nat ?k # rest @ ?Q @ extra @ ?A) @ drop (len + 16 * ?k) t3) 0 (len + 16 * ?k)
      = Done (i0 # i1 # 0x84 # 0x00 # 0 # of_nat ?k # 0 # of_nat ?k # rest @ ?Q @ extra @ ?A)"
    using slice_prefix by metis
  have "\<not> len < 12" "\<not> 8 < ?k" using len assms(4) by simp_all
  then have "dns_reply ip rx len tx = Done (Some (i0 # i1 # 0x84 # 0x00 # 0 # of_nat ?k # 0 # of_nat ?k # rest @ ?Q @ extra @ ?A), ?t4)"
    unfolding dns_reply_def s1 cbind.simps p1 p2 r Let_def unat_0 qd mult_0 add_0 t3(1) prod.case p4 using s4 by simp
  then show "\<exists>tx'. dns_reply ip rx len tx = Done (Some (i @ [0x84, 0x00] @ be16 (of_nat (length qs)) @ be16 (of_nat (length qs)) @ rest
      @ concat (map question qs) @ extra @ concat (replicate (length qs) (dns_answer ip))), tx')"
    unfolding i qd by simp
qed (use dns_reply_safe [OF assms(12,1,13), of ip] in auto)

definition demo_dns_query :: bytes where
  "demo_dns_query = [0xAB, 0xCD, 1, 0, 0, 1, 0, 0, 0, 0, 0, 0, 3, 112, 111, 103, 0, 0, 1, 0, 1]"

definition dns_buffer :: "bytes \<Rightarrow> bytes" where
  "dns_buffer s = s @ replicate (512 - length s) 0"

lemma dns_answered_witness:
  "\<exists>tx'. dns_reply 0x0104A8C0 (dns_buffer demo_dns_query) 21 (dns_buffer [])
     = Done (Some ([0xAB, 0xCD, 0x84, 0, 0, 1, 0, 1, 0, 0, 0, 0, 3, 112, 111, 103, 0, 0, 1, 0, 1] @ dns_answer 0x0104A8C0), tx')"
proof -
  let ?q = "([[112, 111, 103]], [0, 1, 0, 1]) :: bytes list \<times> bytes"
  have l: "length (dns_buffer []) = 512" "length (dns_buffer demo_dns_query) = 512"
    by (simp_all add: dns_buffer_def demo_dns_query_def del: replicate_numeral)
  have q: "\<forall>q \<in> set [?q]. question_ok q" by (simp add: question_ok_def)
  have b: "be16 (of_nat (length [?q])) = [0, 1]" by (simp add: be16_def)
  have c: "concat (map question [?q]) = [3, 112, 111, 103, 0, 0, 1, 0, 1]" by (simp add: question_def label_bytes_def)
  have t: "take 21 (dns_buffer demo_dns_query) = [0xAB, 0xCD] @ [1, 0] @ be16 (of_nat (length [?q])) @ [0, 0] @ [0, 0, 0, 0] @ concat (map question [?q]) @ []"
    unfolding b c by (simp add: dns_buffer_def demo_dns_query_def)
  have n: "21 + 16 * length [?q] \<le> 511" "21 = 12 + length (concat (map question [?q])) + length ([] :: bytes)" "length [?q] \<le> 8" "0 \<le> (512 :: nat)"
    unfolding c by simp_all
  have e: "concat (replicate (length [?q]) (dns_answer 0x0104A8C0)) = dns_answer 0x0104A8C0" by simp
  note th = dns_answered [OF l q n(3) _ _ _ _ t n(1,2) l(1) n(4), of "0x0104A8C0", unfolded b c e]
  have "length [0xAB, 0xCD :: u8] = 2" "length [1, 0 :: u8] = 2" "length [0, 0 :: u8] = 2" "length [0, 0, 0, 0 :: u8] = 4" by simp_all
  from conjunct1 [OF th [OF this]] show ?thesis by (simp only: append_Cons append_Nil)
qed

end
