(* ===== verification/Amp_Ctrl.thy ===== *)
theory Amp_Ctrl imports Settings Rtsp_Metadata begin

text \<open>
  The control of the amplifier pin, main/amp_ctrl.c: the amplifier is on while something plays and goes to standby some
  minutes after the last sound, by a one-shot timer.  The timer is armed or not; when it expires its callback is queued and runs
  later, even if the timer is stopped in between; its test and its write of the pin are one step here.
\<close>

section \<open>The model\<close>

record amp =
  g_gpio :: int
  g_active_high :: bool
  g_standby_min :: int
  g_standby_timer :: bool
  g_is_active :: bool
  g_playing :: bool
  g_voice :: bool
  timer_armed :: bool
  timer_queued :: bool
  pin_level :: "(int \<times> int) option"
  listens :: bool

definition amp_boot :: amp where
  "amp_boot = \<lparr>g_gpio = - 1, g_active_high = True, g_standby_min = 5, g_standby_timer = False, g_is_active = False,
     g_playing = False, g_voice = False, timer_armed = False, timer_queued = False, pin_level = None, listens = False\<rparr>"

definition amp_level :: "bool \<Rightarrow> bool \<Rightarrow> int" where
  "amp_level active high = (if active then if high then 1 else 0 else if high then 0 else 1)"

definition drive_amp :: "bool \<Rightarrow> amp \<Rightarrow> amp" where
  "drive_amp active a = (if g_gpio a < 0 then a
     else a\<lparr>pin_level := Some (g_gpio a, amp_level active (g_active_high a)), g_is_active := active\<rparr>)"

definition standby_timer_cb :: "amp \<Rightarrow> amp" where
  "standby_timer_cb a = (if g_playing a \<or> g_voice a then a else drive_amp False a)"

definition cancel_standby_timer :: "amp \<Rightarrow> amp" where
  "cancel_standby_timer a = (if g_standby_timer a then a\<lparr>timer_armed := False\<rparr> else a)"

definition start_standby_timer :: "amp \<Rightarrow> amp" where
  "start_standby_timer a = (if g_voice a \<or> g_gpio a < 0 \<or> g_standby_min a \<le> 0 \<or> \<not> g_standby_timer a then a
     else (cancel_standby_timer a)\<lparr>timer_armed := True\<rparr>)"

definition on_rtsp_event :: "rtsp_event \<Rightarrow> amp \<Rightarrow> amp" where
  "on_rtsp_event e a = (if g_gpio a < 0 then a
     else if e \<in> {RTSP_EVENT_CLIENT_CONNECTED, RTSP_EVENT_PLAYING, RTSP_EVENT_METADATA}
       then drive_amp True (cancel_standby_timer (a\<lparr>g_playing := True\<rparr>))
     else if e \<in> {RTSP_EVENT_PAUSED, RTSP_EVENT_DISCONNECTED} then start_standby_timer (a\<lparr>g_playing := False\<rparr>)
     else a)"

definition apply_config :: "int \<Rightarrow> bool \<Rightarrow> int \<Rightarrow> amp \<Rightarrow> amp" where
  "apply_config gpio high standby a =
     (let was_active = g_is_active a;
          a = cancel_standby_timer a;
          a = (if 0 \<le> g_gpio a \<and> g_gpio a \<noteq> gpio then a\<lparr>pin_level := None\<rparr> else a);
          a = a\<lparr>g_gpio := gpio, g_active_high := high, g_standby_min := standby, g_is_active := False\<rparr>
      in if gpio < 0 then a
         else let a = drive_amp was_active a in if was_active \<and> \<not> g_playing a then start_standby_timer a else a)"




definition amp_ctrl_set_voice_active :: "bool \<Rightarrow> amp \<Rightarrow> amp" where
  "amp_ctrl_set_voice_active active a =
     (if g_voice a = active then a
      else let a = a\<lparr>g_voice := active\<rparr> in
        if active then drive_amp True (cancel_standby_timer a) else if \<not> g_playing a then start_standby_timer a else a)"

section \<open>Runs\<close>



lemmas amp_defs = drive_amp_def standby_timer_cb_def cancel_standby_timer_def start_standby_timer_def on_rtsp_event_def
  apply_config_def amp_ctrl_set_voice_active_def











text \<open>A pin that is configured while music plays leaves the amplifier in standby: without a pin the events are
  ignored, so the state says that nothing plays, and the pin is driven to standby until the next event.\<close>

theorem pin_set_while_playing_mutes:
  assumes "0 \<le> gpio" "e \<in> {RTSP_EVENT_CLIENT_CONNECTED, RTSP_EVENT_PLAYING, RTSP_EVENT_METADATA}"
  shows "pin_level (apply_config gpio high standby (on_rtsp_event e (apply_config (- 1) high standby amp_boot))) = Some (gpio, amp_level False high)"
  using assms by (simp add: amp_defs amp_boot_def Let_def)

lemma pin_set_while_playing_mutes_witness:
  "pin_level (apply_config 5 True 5 (on_rtsp_event RTSP_EVENT_PLAYING (apply_config (- 1) True 5 amp_boot))) = Some (5, 0)"
  using pin_set_while_playing_mutes [of 5 RTSP_EVENT_PLAYING True 5] by (simp add: amp_level_def)

end
