(* ===== verification/Effect_Sync.thy ===== *)
theory Effect_Sync imports C_String Audio_Buffer Audio_Limiter begin

text \<open>
  Light effects shared by a group of lamps, main/effect_sync.c, and the decisions of main/led_argb_policy.c.  A leader sends numbered frames
  of levels ahead of time; they wait in an array of eight, ordered by their number, until their time has come, and are
  interpolated in between.  Accesses outside of the array are Fault.  The lemmas show that this never happens, that a frame is
  put at its place across the wrap-around of the numbers, and that every pixel stays in range as long as the times of the
  frames are below 2^63 milliseconds; beyond that the int64_t differences of the interpolation overflow.
\<close>

section \<open>The model\<close>

definition EFFECT_SYNC_CAPACITY :: nat where "EFFECT_SYNC_CAPACITY = 8"
definition EFFECT_SYNC_TIMEOUT_MS :: u32 where "EFFECT_SYNC_TIMEOUT_MS = 500"

datatype effect_visualizer = EFFECT_VISUALIZER_SPECTRUM | EFFECT_VISUALIZER_VU_METER | EFFECT_VISUALIZER_BASS_PULSE | EFFECT_VISUALIZER_RAINBOW

record effect_pixel =
  px_hue :: f32
  px_saturation :: f32
  px_value :: f32

record effect_frame =
  fr_seq :: u32
  fr_mono_ms :: u64
  fr_present_at_ms :: u64
  fr_lead_ms :: u16
  fr_level :: f32
  fr_bass :: f32
  fr_treble :: f32
  fr_received_ms :: u32

record effect_sync =
  es_joined :: bool
  es_group_id :: bytes
  es_leader_entity_id :: bytes
  es_presentation_delay_ms :: int
  es_calibration_offset_ms :: int
  es_visualizer :: effect_visualizer
  es_frames :: "effect_frame list"
  es_frame_count :: nat
  es_has_rendered :: bool
  es_last_rendered_seq :: u32

definition zero_frame :: effect_frame where
  "zero_frame = \<lparr>fr_seq = 0, fr_mono_ms = 0, fr_present_at_ms = 0, fr_lead_ms = 0, fr_level = Fin 0, fr_bass = Fin 0,
     fr_treble = Fin 0, fr_received_ms = 0\<rparr>"

definition effect_sync_zero :: effect_sync where
  "effect_sync_zero = \<lparr>es_joined = False, es_group_id = [], es_leader_entity_id = [], es_presentation_delay_ms = 0,
     es_calibration_offset_ms = 0, es_visualizer = EFFECT_VISUALIZER_SPECTRUM,
     es_frames = replicate EFFECT_SYNC_CAPACITY zero_frame, es_frame_count = 0, es_has_rendered = False, es_last_rendered_seq = 0\<rparr>"

definition seq_after :: "u32 \<Rightarrow> u32 \<Rightarrow> bool" where
  "seq_after candidate reference \<longleftrightarrow> 0 < sint (candidate - reference)"

definition isxdigit :: "u8 \<Rightarrow> bool" where
  "isxdigit c \<longleftrightarrow> isdigit c \<or> 65 \<le> c \<and> c \<le> 70 \<or> 97 \<le> c \<and> c \<le> 102"

definition effect_sync_uuid_is_canonical :: "bytes option \<Rightarrow> bool" where
  "effect_sync_uuid_is_canonical value = (case value of
     None \<Rightarrow> False
   | Some v \<Rightarrow> length v = 36 \<and> (\<forall>i \<in> set [0..<36]. if i \<in> {8, 13, 18, 23} then v ! i = 45 else isxdigit (v ! i)))"

definition effect_sync_visualizer_from_name :: "bytes option \<Rightarrow> effect_visualizer option" where
  "effect_sync_visualizer_from_name value =
     (if value = None \<or> value = Some (asc ''spectrum'') then Some EFFECT_VISUALIZER_SPECTRUM
      else if value = Some (asc ''vu_meter'') then Some EFFECT_VISUALIZER_VU_METER
      else if value = Some (asc ''bass_pulse'') then Some EFFECT_VISUALIZER_BASS_PULSE
      else if value = Some (asc ''rainbow'') then Some EFFECT_VISUALIZER_RAINBOW
      else None)"

section \<open>Pixels\<close>

definition effect_sync_pixel_position :: "nat \<Rightarrow> nat \<Rightarrow> f32" where
  "effect_sync_pixel_position index count =
     (if count \<noteq> 0 then f_div (f_add (f_of_int (int index)) (Fin (1 / 2))) (f_of_int (int count)) else Fin 0)"

definition clamp_position :: "f32 \<Rightarrow> f32" where
  "clamp_position p = (let p = (if f_less p (Fin 0) then Fin 0 else p) in if f_less (Fin 1) p then Fin 1 else p)"

definition blend :: "f32 \<Rightarrow> f32 \<Rightarrow> f32 \<Rightarrow> f32" where
  "blend a b mix = f_add a (f_mul (f_sub b a) mix)"

definition effect_sync_visualizer_pixel :: "effect_visualizer \<Rightarrow> f32 \<Rightarrow> effect_frame option \<Rightarrow> effect_pixel" where
  "effect_sync_visualizer_pixel visualizer position frame = (case frame of
     None \<Rightarrow> \<lparr>px_hue = Fin 0, px_saturation = Fin 1, px_value = Fin 0\<rparr>
   | Some fr \<Rightarrow> let position = clamp_position position in (case visualizer of
       EFFECT_VISUALIZER_SPECTRUM \<Rightarrow> \<lparr>px_hue = f_mul position (f_div (Fin 2) (Fin 3)), px_saturation = Fin 1,
         px_value = blend (fr_bass fr) (fr_treble fr) position\<rparr>
     | EFFECT_VISUALIZER_VU_METER \<Rightarrow> \<lparr>px_hue = f_div (f_sub (Fin 1) position) (Fin 3), px_saturation = Fin 1,
         px_value = (if f_le position (fr_level fr) then Fin 1 else Fin 0)\<rparr>
     | EFFECT_VISUALIZER_BASS_PULSE \<Rightarrow> \<lparr>px_hue = f_div (Fin 1) (Fin 12), px_saturation = Fin 1, px_value = fr_bass fr\<rparr>
     | EFFECT_VISUALIZER_RAINBOW \<Rightarrow>
         let hue = f_add position (f_div (f_of_int (uint (fr_mono_ms fr) mod 8000)) (Fin 8000));
             hue = (if f_le (Fin 1) hue then f_sub hue (Fin 1) else hue)
         in \<lparr>px_hue = hue, px_saturation = Fin 1, px_value = fr_level fr\<rparr>))"

section \<open>The group\<close>

definition effect_sync_join ::
  "bytes option \<Rightarrow> bytes option \<Rightarrow> bytes option \<Rightarrow> int \<Rightarrow> int \<Rightarrow> bytes option \<Rightarrow> effect_sync \<Rightarrow> bool \<times> effect_sync" where
  "effect_sync_join group_id role leader presentation_delay_ms calibration_offset_ms visualizer s =
     (if \<not> effect_sync_uuid_is_canonical group_id \<or> \<not> effect_sync_uuid_is_canonical leader
         \<or> role \<noteq> Some (asc ''follower'') \<or> presentation_delay_ms < 0 \<or> 500 < presentation_delay_ms
         \<or> calibration_offset_ms < - 100 \<or> 100 < calibration_offset_ms then (False, s)
      else case effect_sync_visualizer_from_name visualizer of
        None \<Rightarrow> (False, s)
      | Some v \<Rightarrow> (True, effect_sync_zero\<lparr>es_group_id := the group_id, es_leader_entity_id := the leader,
          es_presentation_delay_ms := presentation_delay_ms, es_calibration_offset_ms := calibration_offset_ms,
          es_visualizer := v, es_joined := True\<rparr>))"

definition effect_sync_leave :: "bytes option \<Rightarrow> effect_sync \<Rightarrow> bool \<times> effect_sync" where
  "effect_sync_leave group_id s =
     (if \<not> es_joined s \<or> \<not> effect_sync_uuid_is_canonical group_id \<or> Some (es_group_id s) \<noteq> group_id then (False, s)
      else (True, effect_sync_zero))"

definition effect_sync_cancel :: "effect_sync \<Rightarrow> effect_sync" where
  "effect_sync_cancel s = effect_sync_zero"

section \<open>Frames\<close>

definition unit_range :: "f32 \<Rightarrow> bool" where
  "unit_range v \<longleftrightarrow> isfinite v \<and> \<not> f_less v (Fin 0) \<and> \<not> f_less (Fin 1) v"

text \<open>The position of a new frame, from the position pos on; the array is read below its count only.\<close>

function seq_position :: "effect_frame list \<Rightarrow> nat \<Rightarrow> u32 \<Rightarrow> nat \<Rightarrow> nat cres" where
  "seq_position ring count seq pos =
     (if pos < count then cbind (aget ring pos) (\<lambda>f. if seq_after seq (fr_seq f) then seq_position ring count seq (pos + 1) else Done pos)
      else Done pos)"
  by pat_completeness auto

termination seq_position
  by (relation "measure (\<lambda>(ring, count, seq, pos). count - pos)") auto

definition insert_frame :: "effect_frame \<Rightarrow> nat \<Rightarrow> effect_frame list \<Rightarrow> nat \<Rightarrow> effect_sync \<Rightarrow> (bool \<times> effect_sync) cres" where
  "insert_frame frame pos ring count s =
     cbind (memmove ring (pos + 1) pos (count - pos)) (\<lambda>ring.
     cbind (aset ring pos frame) (\<lambda>ring. Done (True, s\<lparr>es_frames := ring, es_frame_count := count + 1\<rparr>)))"

definition effect_sync_push :: "effect_frame \<Rightarrow> effect_sync \<Rightarrow> (bool \<times> effect_sync) cres" where
  "effect_sync_push frame s =
     (if \<not> es_joined s \<or> \<not> unit_range (fr_level frame) \<or> \<not> unit_range (fr_bass frame) \<or> \<not> unit_range (fr_treble frame) then Done (False, s)
      else if es_has_rendered s \<and> \<not> seq_after (fr_seq frame) (es_last_rendered_seq s) then Done (False, s)
      else cbind (seq_position (es_frames s) (es_frame_count s) (fr_seq frame) 0) (\<lambda>pos.
        cbind (if pos < es_frame_count s then cbind (aget (es_frames s) pos) (\<lambda>f. Done (fr_seq f = fr_seq frame)) else Done False) (\<lambda>same.
          if same then Done (False, s)
          else if es_frame_count s = EFFECT_SYNC_CAPACITY
            then if pos = 0 then Done (False, s)
              else cbind (memmove (es_frames s) 0 1 (EFFECT_SYNC_CAPACITY - 1)) (\<lambda>ring. insert_frame frame (pos - 1) ring (es_frame_count s - 1) s)
            else insert_frame frame pos (es_frames s) (es_frame_count s) s)))"

definition effect_time :: "bool \<Rightarrow> effect_frame \<Rightarrow> int" where
  "effect_time utc f = (if utc then sint (fr_present_at_ms f) else uint (fr_received_ms f) + uint (fr_lead_ms f))"

function last_due :: "bool \<Rightarrow> int \<Rightarrow> effect_frame list \<Rightarrow> nat \<Rightarrow> nat \<Rightarrow> nat cres" where
  "last_due utc target ring count before =
     (if before + 1 < count
      then cbind (aget ring (before + 1)) (\<lambda>f. if effect_time utc f \<le> target then last_due utc target ring count (before + 1) else Done before)
      else Done before)"
  by pat_completeness auto

termination last_due
  by (relation "measure (\<lambda>(utc, target, ring, count, before). count - before)") auto

definition interpolate :: "bool \<Rightarrow> int \<Rightarrow> effect_frame \<Rightarrow> effect_frame \<Rightarrow> effect_frame" where
  "interpolate utc target a b =
     (let start = effect_time utc a; finish = effect_time utc b in
      if start < finish then let mix = f_div (f_of_int (i64 (target - start))) (f_of_int (i64 (finish - start))) in
        a\<lparr>fr_level := blend (fr_level a) (fr_level b) mix, fr_bass := blend (fr_bass a) (fr_bass b) mix,
          fr_treble := blend (fr_treble a) (fr_treble b) mix\<rparr>
      else a)"

definition effect_sync_sample :: "u32 \<Rightarrow> u64 \<Rightarrow> effect_sync \<Rightarrow> (effect_frame option \<times> effect_sync) cres" where
  "effect_sync_sample now_ms utc_now_ms s =
     (if \<not> es_joined s \<or> es_frame_count s = 0 then Done (None, s)
      else cbind (aget (es_frames s) (es_frame_count s - 1)) (\<lambda>newest.
        if EFFECT_SYNC_TIMEOUT_MS < now_ms - fr_received_ms newest then Done (None, s)
        else cbind (aget (es_frames s) 0) (\<lambda>first.
          let utc = (1700000000000 < utc_now_ms \<and> fr_present_at_ms first \<noteq> 0);
              target = i64 ((if utc then sint utc_now_ms else uint now_ms) - es_calibration_offset_ms s)
          in if target < effect_time utc first then Done (None, s)
             else cbind (last_due utc target (es_frames s) (es_frame_count s) 0) (\<lambda>before.
               cbind (aget (es_frames s) before) (\<lambda>cur.
               cbind (if before + 1 < es_frame_count s
                      then cbind (aget (es_frames s) (before + 1)) (\<lambda>nxt. Done (interpolate utc target cur nxt)) else Done cur) (\<lambda>out.
               let s = s\<lparr>es_has_rendered := True, es_last_rendered_seq := fr_seq cur\<rparr> in
               if before = 0 then Done (Some out, s)
               else cbind (memmove (es_frames s) 0 before (es_frame_count s - before)) (\<lambda>ring.
                 Done (Some out, s\<lparr>es_frames := ring, es_frame_count := es_frame_count s - before\<rparr>))))))))"

section \<open>When the lamp follows the music\<close>

definition LED_ARGB_SOUND_RMS_MIN :: f32 where "LED_ARGB_SOUND_RMS_MIN = Fin 96"
definition LED_ARGB_SOUND_HOLD_US :: int where "LED_ARGB_SOUND_HOLD_US = 400000"

definition led_argb_audio_is_audible :: "f32 \<Rightarrow> bool" where
  "led_argb_audio_is_audible rms = f_le LED_ARGB_SOUND_RMS_MIN rms"

definition led_argb_music_should_override :: "bool \<Rightarrow> bool \<Rightarrow> bool \<Rightarrow> int \<Rightarrow> int \<Rightarrow> bool" where
  "led_argb_music_should_override home_connected music_enabled sound_seen last_sound_us now_us =
     (if \<not> home_connected \<or> \<not> music_enabled \<or> \<not> sound_seen \<or> now_us < last_sound_us then False
      else now_us - last_sound_us \<le> LED_ARGB_SOUND_HOLD_US)"

definition led_argb_effect_should_render :: "bool \<Rightarrow> bool \<Rightarrow> bool \<Rightarrow> bool \<Rightarrow> int \<Rightarrow> int \<Rightarrow> bool" where
  "led_argb_effect_should_render home_connected effects_enabled audio_reactive sound_seen last_sound_us now_us =
     (if \<not> home_connected \<or> \<not> effects_enabled then False
      else if \<not> audio_reactive then True
      else led_argb_music_should_override home_connected effects_enabled sound_seen last_sound_us now_us)"

declare seq_position.simps [simp del] last_due.simps [simp del]

section \<open>Every access is in the array\<close>

definition levels_ok :: "effect_frame \<Rightarrow> bool" where
  "levels_ok f \<longleftrightarrow> unit_float (fr_level f) \<and> unit_float (fr_bass f) \<and> unit_float (fr_treble f)"

definition waiting :: "effect_sync \<Rightarrow> effect_frame list" where
  "waiting s = take (es_frame_count s) (es_frames s)"

definition follows :: "effect_frame \<Rightarrow> effect_frame \<Rightarrow> bool" where
  "follows f g \<longleftrightarrow> \<not> seq_after (fr_seq f) (fr_seq g) \<and> fr_seq f \<noteq> fr_seq g"

definition sync_ok :: "effect_sync \<Rightarrow> bool" where
  "sync_ok s \<longleftrightarrow> length (es_frames s) = 8 \<and> es_frame_count s \<le> 8 \<and> (\<forall>f \<in> set (waiting s). levels_ok f)
     \<and> successively follows (waiting s)"

text \<open>A level of the wire is a single-precision number.\<close>

definition f32_value :: "f32 \<Rightarrow> bool" where
  "f32_value v \<longleftrightarrow> (case v of Fin x \<Rightarrow> rnd x = x | _ \<Rightarrow> True)"

lemma unit_range_float: "f32_value v \<Longrightarrow> unit_range v \<Longrightarrow> unit_float v"
  by (cases v) (auto simp: f32_value_def unit_range_def unit_float_def isfinite_def f_less_def)

lemma seq_position_value:
  "count \<le> length ring \<Longrightarrow> pos \<le> count \<Longrightarrow>
    seq_position ring count seq pos = Done (pos + length (takeWhile (\<lambda>f. seq_after seq (fr_seq f)) (drop pos (take count ring))))"
proof (induction ring count seq pos rule: seq_position.induct)
  case (1 ring count seq pos)
  show ?case
  proof (cases "pos < count")
    case True
    then have "drop pos (take count ring) = ring ! pos # drop (Suc pos) (take count ring)"
      using 1 by (metis Cons_nth_drop_Suc length_take min.absorb2 nth_take)
    then show ?thesis using True 1 by (subst seq_position.simps) simp
  qed (use 1 in \<open>subst seq_position.simps, simp\<close>)
qed

lemma last_due_bounds:
  "count \<le> length ring \<Longrightarrow> before < count \<Longrightarrow>
    \<exists>b. last_due utc target ring count before = Done b \<and> before \<le> b \<and> b < count
      \<and> (before < b \<longrightarrow> effect_time utc (ring ! b) \<le> target)
      \<and> (b + 1 < count \<longrightarrow> target < effect_time utc (ring ! (b + 1)))"
proof (induction utc target ring count before rule: last_due.induct)
  case (1 utc target ring count before)
  show ?case
  proof (cases "before + 1 < count \<and> effect_time utc (ring ! (before + 1)) \<le> target")
    case True
    then obtain b where "last_due utc target ring count (before + 1) = Done b" "before + 1 \<le> b" "b < count"
      "before + 1 < b \<longrightarrow> effect_time utc (ring ! b) \<le> target" "b + 1 < count \<longrightarrow> target < effect_time utc (ring ! (b + 1))"
      using 1 by force
    then show ?thesis using True 1(2) by (subst last_due.simps) (cases "b = before + 1"; auto)
  next
    case False
    then show ?thesis using 1(2,3) by (subst last_due.simps) auto
  qed
qed

section \<open>A frame goes to its place\<close>

definition seq_insert :: "effect_frame \<Rightarrow> effect_frame list \<Rightarrow> effect_frame list" where
  "seq_insert f fs = (let before = takeWhile (\<lambda>g. seq_after (fr_seq f) (fr_seq g)) fs; rest = drop (length before) fs in before @ f # rest)"

lemma insert_frame_value:
  assumes "length ring = 8" "pos \<le> count" "count < 8"
  shows "\<exists>ring'. insert_frame f pos ring count s = Done (True, s\<lparr>es_frames := ring', es_frame_count := count + 1\<rparr>)
    \<and> length ring' = 8 \<and> take (count + 1) ring' = take pos ring @ f # drop pos (take count ring)"
proof -
  from memmove_gap [of pos count ring f] assms obtain ys where
    ys: "memmove ring (pos + 1) pos (count - pos) = Done ys" "length ys = 8" "take (Suc count) (ys[pos := f]) = take pos ring @ f # drop pos (take count ring)"
    by auto
  then show ?thesis using assms by (intro exI [of _ "ys[pos := f]"]) (simp add: insert_frame_def)
qed

text \<open>The decisions of a push, with the position given.\<close>

lemma push_at:
  assumes "seq_position (es_frames s) (es_frame_count s) (fr_seq f) 0 = Done pos" "pos \<le> es_frame_count s"
    "length (es_frames s) = 8" "es_frame_count s \<le> 8"
  shows "effect_sync_push f s =
    (if es_joined s \<and> unit_range (fr_level f) \<and> unit_range (fr_bass f) \<and> unit_range (fr_treble f)
        \<and> (es_has_rendered s \<longrightarrow> seq_after (fr_seq f) (es_last_rendered_seq s))
        \<and> \<not> (pos < es_frame_count s \<and> fr_seq (es_frames s ! pos) = fr_seq f) \<and> \<not> (es_frame_count s = 8 \<and> pos = 0)
     then if es_frame_count s = 8 then cbind (memmove (es_frames s) 0 1 7) (\<lambda>ring. insert_frame f (pos - 1) ring 7 s)
       else insert_frame f pos (es_frames s) (es_frame_count s) s
     else Done (False, s))"
proof -
  have same: "(if pos < es_frame_count s then cbind (aget (es_frames s) pos) (\<lambda>g. Done (fr_seq g = fr_seq f)) else Done False)
      = Done (pos < es_frame_count s \<and> fr_seq (es_frames s ! pos) = fr_seq f)" using assms(3,4) by simp
  show ?thesis
    unfolding effect_sync_push_def assms(1) cbind.simps EFFECT_SYNC_CAPACITY_def same by simp
qed

text \<open>A frame is refused when it is out of range, already shown, a duplicate, or older than all of a full queue.\<close>

definition accepted :: "effect_frame \<Rightarrow> effect_sync \<Rightarrow> bool" where
  "accepted f s \<longleftrightarrow> es_joined s \<and> unit_range (fr_level f) \<and> unit_range (fr_bass f) \<and> unit_range (fr_treble f)
     \<and> (es_has_rendered s \<longrightarrow> seq_after (fr_seq f) (es_last_rendered_seq s))
     \<and> (let later = dropWhile (\<lambda>g. seq_after (fr_seq f) (fr_seq g)) (waiting s) in
          \<not> (later \<noteq> [] \<and> fr_seq (hd later) = fr_seq f) \<and> \<not> (es_frame_count s = 8 \<and> later = waiting s))"

lemma push_value:
  assumes "length (es_frames s) = 8" "es_frame_count s \<le> 8"
  shows "\<exists>s'. effect_sync_push f s = Done (accepted f s, s')
    \<and> (if accepted f s then s' = s\<lparr>es_frames := es_frames s', es_frame_count := es_frame_count s'\<rparr> \<and> length (es_frames s') = 8 \<and> es_frame_count s' \<le> 8
          \<and> waiting s' = seq_insert f (if es_frame_count s = 8 then tl (waiting s) else waiting s)
        else s' = s)"
proof -
  let ?P = "\<lambda>g. seq_after (fr_seq f) (fr_seq g)"
  define pos where "pos = length (takeWhile ?P (waiting s))"
  have len: "length (waiting s) = es_frame_count s" using assms by (simp add: waiting_def)
  have pos: "seq_position (es_frames s) (es_frame_count s) (fr_seq f) 0 = Done pos" "pos \<le> es_frame_count s"
    using seq_position_value [OF _ le0, of "es_frame_count s" "es_frames s" "fr_seq f"] assms length_takeWhile_le [of ?P "waiting s"]
    unfolding pos_def len by (simp_all add: waiting_def)
  have tw: "takeWhile ?P (waiting s) = take pos (waiting s)" unfolding pos_def by (rule takeWhile_eq_take)
  have ins: "seq_insert f (waiting s) = take pos (waiting s) @ f # drop pos (waiting s)"
    by (simp add: seq_insert_def Let_def tw len pos(2) min_absorb2)
  have later: "dropWhile ?P (waiting s) = drop pos (waiting s)" unfolding pos_def by (rule dropWhile_eq_drop)
  have acc: "accepted f s \<longleftrightarrow> es_joined s \<and> unit_range (fr_level f) \<and> unit_range (fr_bass f) \<and> unit_range (fr_treble f)
      \<and> (es_has_rendered s \<longrightarrow> seq_after (fr_seq f) (es_last_rendered_seq s))
      \<and> \<not> (pos < es_frame_count s \<and> fr_seq (es_frames s ! pos) = fr_seq f) \<and> \<not> (es_frame_count s = 8 \<and> pos = 0)"
  proof (cases "pos < es_frame_count s")
    case True
    then have "hd (drop pos (waiting s)) = es_frames s ! pos" "drop pos (waiting s) \<noteq> []" using len by (simp_all add: hd_drop_conv_nth waiting_def)
    moreover have "drop pos (waiting s) = waiting s \<longleftrightarrow> pos = 0"
      using True len by (metis diff_less drop_0 length_drop less_irrefl less_nat_zero_code neq0_conv order_less_trans)
    ultimately show ?thesis using True unfolding accepted_def later Let_def by simp
  next
    case False
    then have "drop pos (waiting s) = []" "pos = es_frame_count s" using len pos(2) by simp_all
    then show ?thesis using len unfolding accepted_def later Let_def by auto
  qed
  show ?thesis
  proof (cases "accepted f s")
    case False
    then have "effect_sync_push f s = Done (False, s)" unfolding push_at [OF pos assms] acc by (simp only: if_False)
    then show ?thesis using False by auto
  next
    case ac: True
    then have c: "es_joined s \<and> unit_range (fr_level f) \<and> unit_range (fr_bass f) \<and> unit_range (fr_treble f)
      \<and> (es_has_rendered s \<longrightarrow> seq_after (fr_seq f) (es_last_rendered_seq s))
      \<and> \<not> (pos < es_frame_count s \<and> fr_seq (es_frames s ! pos) = fr_seq f) \<and> \<not> (es_frame_count s = 8 \<and> pos = 0)" unfolding acc .
    show ?thesis
    proof (cases "es_frame_count s = 8")
      case False
      with assms insert_frame_value [of "es_frames s" pos "es_frame_count s" f s] pos obtain ring' where
        f: "insert_frame f pos (es_frames s) (es_frame_count s) s = Done (True, s\<lparr>es_frames := ring', es_frame_count := es_frame_count s + 1\<rparr>)"
        "length ring' = 8" "take (es_frame_count s + 1) ring' = take pos (es_frames s) @ f # drop pos (take (es_frame_count s) (es_frames s))"
        by auto
      have v: "effect_sync_push f s = Done (True, s\<lparr>es_frames := ring', es_frame_count := es_frame_count s + 1\<rparr>)"
        unfolding push_at [OF pos assms] f(1) using c False by (cases "es_has_rendered s") simp_all
      have "take pos (es_frames s) = take pos (waiting s)" using pos(2) by (simp add: waiting_def min_absorb1)
      then have "waiting (s\<lparr>es_frames := ring', es_frame_count := es_frame_count s + 1\<rparr>) = seq_insert f (waiting s)"
        unfolding ins using f(3) by (simp add: waiting_def)
      then show ?thesis using v ac False f(2) assms(2)
        by (intro exI [of _ "s\<lparr>es_frames := ring', es_frame_count := es_frame_count s + 1\<rparr>"]) simp
    next
      case full: True
      with c have a: "0 < pos" by simp
      from memmove_drop_head [of 8 "es_frames s"] assms(1) obtain ys where
        ys: "memmove (es_frames s) 0 1 7 = Done ys" "length ys = 8" "take 7 ys = tl (take 8 (es_frames s))" by auto
      have p: "waiting s = es_frames s" using full assms(1) by (simp add: waiting_def)
      have le: "pos - 1 \<le> 7" "(7::nat) < 8" using pos(2) full by simp_all
      from insert_frame_value [OF ys(2) le, of f s] obtain ring' where
        f: "insert_frame f (pos - 1) ys 7 s = Done (True, s\<lparr>es_frames := ring', es_frame_count := 8\<rparr>)"
        "length ring' = 8" "take 8 ring' = take (pos - 1) ys @ f # drop (pos - 1) (take 7 ys)" unfolding numeral_plus_one semiring_norm by (elim exE conjE) simp
      obtain g gs where g: "waiting s = g # gs" using p assms(1) by (cases "es_frames s") auto
      then have e: "es_frames s = g # gs" using p by simp
      have gs: "take 7 ys = gs" "length gs = 7" using ys(3) assms(1) by (simp_all add: e)
      have "?P g" using a by (simp add: pos_def g split: if_splits)
      then have tl: "takeWhile ?P gs = take (pos - 1) gs" using tw a by (cases pos) (simp_all add: g)
      have "seq_insert f (tl (waiting s)) = take (pos - 1) gs @ f # drop (pos - 1) gs"
        using pos(2) gs full by (simp add: seq_insert_def Let_def tl g)
      moreover have "take (pos - 1) ys = take (pos - 1) gs" using pos(2) full by (simp add: gs(1) [symmetric] min_absorb1)
      ultimately have "waiting (s\<lparr>es_frames := ring', es_frame_count := 8\<rparr>) = seq_insert f (tl (waiting s))"
        using f(3) gs(1) by (simp add: waiting_def)
      moreover have "effect_sync_push f s = Done (True, s\<lparr>es_frames := ring', es_frame_count := 8\<rparr>)"
        unfolding push_at [OF pos assms] ys(1) using c full f(1) by (cases "es_has_rendered s") simp_all
      ultimately show ?thesis using ac full f(2)
        by (intro exI [of _ "s\<lparr>es_frames := ring', es_frame_count := 8\<rparr>"]) simp
    qed
  qed
qed

lemma last_due_interval:
  assumes "count \<le> length ring" "0 < count" "effect_time utc (ring ! 0) \<le> target"
  shows "\<exists>b. last_due utc target ring count 0 = Done b \<and> b < count \<and> effect_time utc (ring ! b) \<le> target
    \<and> (b + 1 < count \<longrightarrow> target < effect_time utc (ring ! (b + 1)))"
  using last_due_bounds [OF assms(1,2), of utc target] assms(3) by force

text \<open>What a sample shows: a waiting frame, or a point between two that follow each other; what came before it is dropped.\<close>

lemma sample_value:
  assumes "length (es_frames s) = 8" "es_frame_count s \<le> 8"
  shows "\<exists>r s'. effect_sync_sample now utc_now s = Done (r, s') \<and> (case r of None \<Rightarrow> s' = s
    | Some out \<Rightarrow> es_joined s \<and> length (es_frames s') = 8 \<and> es_frame_count s' \<le> 8
        \<and> now - fr_received_ms (last (waiting s)) \<le> EFFECT_SYNC_TIMEOUT_MS
        \<and> (\<exists>b < es_frame_count s. waiting s' = drop b (waiting s) \<and> es_has_rendered s' \<and> es_last_rendered_seq s' = fr_seq (waiting s ! b)
            \<and> (out = waiting s ! b \<or> b + 1 < es_frame_count s \<and> (\<exists>utc target. effect_time utc (waiting s ! b) \<le> target
                \<and> target < effect_time utc (waiting s ! (b + 1)) \<and> out = interpolate utc target (waiting s ! b) (waiting s ! (b + 1))))))"
proof -
  let ?n = "es_frame_count s" and ?F = "es_frames s"
  have w: "i < ?n \<Longrightarrow> waiting s ! i = ?F ! i" for i by (simp add: waiting_def)
  have len: "length (waiting s) = ?n" using assms by (simp add: waiting_def)
  let ?utc = "1700000000000 < utc_now \<and> fr_present_at_ms (?F ! 0) \<noteq> 0"
  let ?target = "i64 ((if ?utc then sint utc_now else uint now) - es_calibration_offset_ms s)"
  let ?late = "EFFECT_SYNC_TIMEOUT_MS < now - fr_received_ms (?F ! (?n - 1))"
  show ?thesis
  proof (cases "\<not> es_joined s \<or> ?n = 0 \<or> ?late \<or> ?target < effect_time ?utc (?F ! 0)")
    case True
    have "effect_sync_sample now utc_now s = Done (None, s)"
    proof (cases "\<not> es_joined s \<or> ?n = 0")
      case False
      then have g: "aget ?F (?n - 1) = Done (?F ! (?n - 1))" "aget ?F 0 = Done (?F ! 0)" using assms by simp_all
      show ?thesis
      proof (cases ?late)
        case True
        then show ?thesis using False unfolding effect_sync_sample_def Let_def g cbind.simps by (simp only: if_True if_False simp_thms)
      next
        case l: False
        with True False have t: "?target < effect_time ?utc (?F ! 0)" by blast
        show ?thesis using False unfolding effect_sync_sample_def Let_def g cbind.simps by (simp only: l t if_True if_False simp_thms)
      qed
    qed (simp add: effect_sync_sample_def)
    then show ?thesis by auto
  next
    case False
    then have n: "0 < ?n" "?n \<le> length ?F" using assms by simp_all
    have g: "aget ?F (?n - 1) = Done (?F ! (?n - 1))" "aget ?F 0 = Done (?F ! 0)" using n by (auto simp: aget_def)
    from last_due_interval [OF n(2,1), of ?utc ?target] False obtain b where b: "last_due ?utc ?target ?F ?n 0 = Done b" "b < ?n"
      "effect_time ?utc (?F ! b) \<le> ?target" "b + 1 < ?n \<longrightarrow> ?target < effect_time ?utc (?F ! (b + 1))" by (meson not_le)
    have gb: "aget ?F b = Done (?F ! b)" using b(2) n(2) by simp
    define out where "out = (if b + 1 < ?n then interpolate ?utc ?target (?F ! b) (?F ! (b + 1)) else ?F ! b)"
    have o: "(if b + 1 < ?n then cbind (aget ?F (b + 1)) (\<lambda>nxt. Done (interpolate ?utc ?target (?F ! b) nxt)) else Done (?F ! b)) = Done out"
      using n(2) by (simp add: out_def)
    have la: "last (waiting s) = ?F ! (?n - 1)" using n w [of "?n - 1"] len by (simp add: last_conv_nth [of "waiting s"] flip: length_greater_0_conv)
    let ?s = "s\<lparr>es_has_rendered := True, es_last_rendered_seq := fr_seq (?F ! b)\<rparr>"
    have dec: "effect_sync_sample now utc_now s = (if b = 0 then Done (Some out, ?s)
        else cbind (memmove (es_frames ?s) 0 b (es_frame_count ?s - b)) (\<lambda>ring. Done (Some out, ?s\<lparr>es_frames := ring, es_frame_count := es_frame_count ?s - b\<rparr>)))"
    proof -
      from False have d: "(\<not> es_joined s \<or> ?n = 0) = False" "?late = False" "(?target < effect_time ?utc (?F ! 0)) = False" by blast+
      show ?thesis unfolding effect_sync_sample_def Let_def g cbind.simps by (simp only: d if_False b(1) gb o cbind.simps)
    qed
    have shown: "out = waiting s ! b \<or> b + 1 < ?n \<and> (\<exists>utc target. effect_time utc (waiting s ! b) \<le> target
        \<and> target < effect_time utc (waiting s ! (b + 1)) \<and> out = interpolate utc target (waiting s ! b) (waiting s ! (b + 1)))"
    proof (cases "b + 1 < ?n")
      case True
      then have "effect_time ?utc (waiting s ! b) \<le> ?target" "?target < effect_time ?utc (waiting s ! (b + 1))"
        "out = interpolate ?utc ?target (waiting s ! b) (waiting s ! (b + 1))"
        using b(3,4) unfolding out_def w [OF b(2)] w [OF True] by simp_all
      with True show ?thesis by blast
    next
      case False
      then show ?thesis using w [OF b(2)] unfolding out_def by simp
    qed
    have "\<exists>s'. effect_sync_sample now utc_now s = Done (Some out, s') \<and> length (es_frames s') = 8 \<and> es_frame_count s' \<le> 8
        \<and> waiting s' = drop b (waiting s) \<and> es_has_rendered s' \<and> es_last_rendered_seq s' = fr_seq (?F ! b)"
    proof (cases "b = 0")
      case True
      then show ?thesis unfolding dec using assms by (intro exI [of _ ?s]) (simp add: waiting_def)
    next
      case False
      let ?fs = "take (?n - b) (drop b ?F) @ drop (?n - b) ?F"
      have "memmove ?F 0 b (?n - b) = Done ?fs" using b(2) n(2) by (simp add: memmove_def)
      then show ?thesis unfolding dec using False assms b(2)
        by (intro exI [of _ "?s\<lparr>es_frames := ?fs, es_frame_count := ?n - b\<rparr>"]) (simp add: waiting_def drop_take)
    qed
    then obtain s' where s': "effect_sync_sample now utc_now s = Done (Some out, s')" "length (es_frames s') = 8" "es_frame_count s' \<le> 8"
      "waiting s' = drop b (waiting s)" "es_has_rendered s'" "es_last_rendered_seq s' = fr_seq (waiting s ! b)" using w [OF b(2)] by auto
    have "es_joined s" "now - fr_received_ms (last (waiting s)) \<le> EFFECT_SYNC_TIMEOUT_MS" unfolding la using False by (simp_all add: not_less)
    then show ?thesis using s' b(2) shown by (intro exI [of _ "Some out"] exI [of _ s']) (simp only: option.case, blast)
  qed
qed

section \<open>Levels and colours stay in range\<close>

definition fraction :: "f32 \<Rightarrow> bool" where
  "fraction v \<longleftrightarrow> (\<exists>x. v = Fin x \<and> 0 \<le> x \<and> x \<le> 1)"

lemma unit_fraction: "unit_float v \<Longrightarrow> fraction v"
  by (auto simp: unit_float_def fraction_def)

lemma rnd_above_one: "rnd (1 + 1 / 2 ^ 25) = 1"
  by code_simp

text \<open>The rounding of a step towards a value of at most one does not lead past one.\<close>

lemma step_to_one:
  assumes "0 \<le> a" "a \<le> 1" "d \<le> rnd (1 - a)"
  shows "rnd (a + d) \<le> 1"
proof (cases "a = 0")
  case True
  then have "d \<le> 1" using assms(3) by simp
  then show ?thesis using True by (intro rnd_le) simp_all
next
  case a: False
  have "rnd (1 - a) \<le> 1 - a + 1 / 33554432"
  proof (cases "a = 1")
    case False
    then have r: "0 < 1 - a" "1 - a < 1" using assms a by simp_all
    have "ilog2 (1 - a) \<le> - 1"
    proof (rule ccontr)
      assume "\<not> ilog2 (1 - a) \<le> - 1"
      then have "pow2 0 \<le> pow2 (ilog2 (1 - a))" by (intro pow2_mono) simp
      then show False using ilog2_bounds [OF r(1)] r(2) by simp
    qed
    then have "quantum (1 - a) \<le> pow2 (- 24)" using r unfolding quantum_def by (intro pow2_mono) simp
    then have "quantum (1 - a) \<le> 1 / 16777216" by simp
    moreover have "rnd (1 - a) - (1 - a) \<le> quantum (1 - a) / 2" using rnd_error [of "1 - a"] by (rule order_trans [OF abs_ge_self])
    ultimately show ?thesis by linarith
  qed simp
  then have "rnd (a + d) \<le> rnd (1 + 1 / 2 ^ 25)" using assms(3) by (intro rnd_mono) simp
  then show ?thesis by (simp only: rnd_above_one)
qed

lemma blend_unit:
  assumes "unit_float a" "unit_float b" "fraction m"
  shows "unit_float (blend a b m)"
proof -
  obtain x y z where v: "a = Fin x" "b = Fin y" "m = Fin z" "0 \<le> x" "x \<le> 1" "rnd x = x" "0 \<le> y" "y \<le> 1" "0 \<le> z" "z \<le> 1"
    using assms by (auto simp: unit_float_def fraction_def)
  let ?d = "rnd (y - x)" and ?e = "rnd (rnd (y - x) * z)"
  have mx: "rnd (- x) = - x" using v(6) by (simp add: rnd_minus)
  have d: "- x \<le> ?d" "?d \<le> rnd (1 - x)" using v mx by (auto intro: rnd_ge rnd_mono)
  have e: "- x \<le> ?e" "?e \<le> rnd (1 - x)"
  proof -
    have "min 0 ?d \<le> ?d * z \<and> ?d * z \<le> max 0 ?d"
    proof (cases "0 \<le> ?d")
      case True
      then show ?thesis using v(9,10) mult_left_mono [of z 1 ?d] by simp
    next
      case False
      then show ?thesis using v(9,10) mult_left_mono_neg [of z 1 ?d] by (simp add: mult_nonpos_nonneg)
    qed
    moreover have "0 \<le> rnd (1 - x)" using v(5) by (intro rnd_nonneg) simp
    ultimately have z: "- x \<le> ?d * z" "?d * z \<le> rnd (1 - x)" using d v(4) by linarith+
    show "- x \<le> ?e" using z(1) mx by (rule rnd_ge)
    show "?e \<le> rnd (1 - x)" using z(2) rnd_idem by (rule rnd_le)
  qed
  have one: "rnd (1 - x) \<le> 1" using v(4) by (intro rnd_le) simp_all
  have "\<bar>?d * z\<bar> \<le> 1"
  proof -
    have "\<bar>?d\<bar> \<le> 1" using d one v(5) by simp
    then show ?thesis using v(9,10) mult_mono [of "\<bar>?d\<bar>" 1 "\<bar>z\<bar>" 1] by (simp add: abs_mult)
  qed
  then have "blend a b m = Fin (rnd (x + ?e))"
    using v e one by (simp add: blend_def f_sub_def f_neg_def f_add_def f_mul_def fl_Fin abs_le_iff)
  moreover have "0 \<le> rnd (x + ?e)" using e(1) by (intro rnd_nonneg) simp
  moreover have "rnd (x + ?e) \<le> 1" using v(4,5) e(2) by (rule step_to_one)
  ultimately show ?thesis by (simp add: unit_float_def rnd_idem)
qed

text \<open>The source subtracts times as int64_t.  A frame of the past or the future that fits this type causes no wrap-around.\<close>

definition in_time :: "effect_frame \<Rightarrow> bool" where
  "in_time f \<longleftrightarrow> fr_present_at_ms f < 0x8000000000000000"

lemma effect_time_early:
  assumes "in_time f"
  shows "0 \<le> effect_time utc f" "effect_time utc f < 2 ^ 63"
proof -
  have "uint (fr_present_at_ms f) < 2 ^ 63" using assms by (simp add: in_time_def word_less_def)
  then have "sint (fr_present_at_ms f) = uint (fr_present_at_ms f)"
    unfolding sint_uint by (intro signed_take_bit_int_eq_self order_trans [OF _ uint_ge_0]) simp_all
  then have "0 \<le> sint (fr_present_at_ms f)" by simp
  then show "0 \<le> effect_time utc f" by (simp add: effect_time_def)
  show "effect_time utc f < 2 ^ 63"
    using sint_lt [of "fr_present_at_ms f"] uint_bounded [of "fr_received_ms f"] uint_bounded [of "fr_lead_ms f"]
    by (simp add: effect_time_def)
qed

lemma quotient_fraction:
  assumes "0 \<le> p" "p \<le> q" "1 \<le> q" "q \<le> 2 ^ 100"
  shows "fraction (f_div (fl p) (fl q))"
proof -
  have f: "fl p = Fin (rnd p)" "fl q = Fin (rnd q)" using assms by (simp_all add: fl_small)
  have r: "0 \<le> rnd p" "rnd p \<le> rnd q" using assms by (simp_all add: rnd_nonneg rnd_mono)
  have "1 \<le> rnd q" using assms(3) rnd_mono [of 1 q] by simp
  then have "0 \<le> rnd p / rnd q" "rnd p / rnd q \<le> 1" "rnd q \<noteq> 0" using r by simp_all
  then show ?thesis unfolding f by (auto simp: f_div_def fl_Fin fraction_def intro: rnd_nonneg rnd_le)
qed

lemma interpolate_ok:
  assumes "levels_ok a" "levels_ok b" "in_time a" "in_time b" "effect_time utc a \<le> target" "target < effect_time utc b"
  shows "levels_ok (interpolate utc target a b)"
proof -
  let ?p = "target - effect_time utc a" and ?q = "effect_time utc b - effect_time utc a"
  have q: "0 \<le> ?p" "?p < ?q" "?q < 2 ^ 63" using effect_time_early [OF assms(3), of utc] effect_time_early [OF assms(4), of utc] assms(5,6) by simp_all
  then have i: "i64 ?p = ?p" "i64 ?q = ?q" by (simp_all add: i64_small)
  have "?q \<le> 2 ^ 63" using q(3) by simp
  then have "(of_int ?q :: rat) \<le> of_int (2 ^ 63)" by (simp only: of_int_le_iff)
  then have "fraction (f_div (f_of_int ?p) (f_of_int ?q))"
    unfolding f_of_int_def using q(1,2) by (intro quotient_fraction) simp_all
  then show ?thesis using assms unfolding interpolate_def Let_def levels_ok_def i by (simp add: blend_unit)
qed

definition pixel_ok :: "effect_pixel \<Rightarrow> bool" where
  "pixel_ok px \<longleftrightarrow> fraction (px_hue px) \<and> px_saturation px = Fin 1 \<and> fraction (px_value px)"

lemma clamp_fraction: "p \<noteq> NaN \<Longrightarrow> fraction (clamp_position p)"
  by (cases p) (auto simp: clamp_position_def f_less_def fraction_def Let_def)

lemma fl_fraction: "0 \<le> x \<Longrightarrow> x \<le> 1 \<Longrightarrow> fraction (fl x)"
  by (auto simp: fraction_def fl_Fin intro: rnd_nonneg rnd_le)

lemma fraction_mul: "fraction a \<Longrightarrow> fraction b \<Longrightarrow> fraction (f_mul a b)"
  by (auto simp: fraction_def [of a] fraction_def [of b] f_mul_def mult_le_one intro!: fl_fraction)

lemma fraction_quotient: "fraction (f_div (Fin 2) (Fin 3))" "fraction (f_div (Fin 1) (Fin 12))"
  by (simp_all add: f_div_def fl_fraction)

lemma hue_vu: "fraction p \<Longrightarrow> fraction (f_div (f_sub (Fin 1) p) (Fin 3))"
proof -
  assume "fraction p"
  then obtain x where x: "p = Fin x" "0 \<le> x" "x \<le> 1" by (auto simp: fraction_def)
  have "f_sub (Fin 1) p = Fin (rnd (1 - x))" using x by (simp add: f_sub_def f_neg_def f_add_def fl_Fin)
  moreover have "0 \<le> rnd (1 - x)" "rnd (1 - x) \<le> 1" using x by (auto intro: rnd_nonneg rnd_le)
  ultimately show ?thesis by (simp add: f_div_def fl_fraction)
qed

lemma hue_rainbow:
  assumes "fraction p" "0 \<le> t" "t < 8000"
  shows "fraction (let hue = f_add p (f_div (f_of_int t) (Fin 8000)) in if f_le (Fin 1) hue then f_sub hue (Fin 1) else hue)"
proof -
  obtain x where x: "p = Fin x" "0 \<le> x" "x \<le> 1" using assms(1) by (auto simp: fraction_def)
  have "(of_int t :: rat) \<le> of_int 8000" "(of_int t :: rat) \<ge> of_int 0" using assms(2,3) by (simp_all only: of_int_le_iff)
  then have q: "0 \<le> of_int t / (8000 :: rat)" "of_int t / (8000 :: rat) \<le> 1" by simp_all
  let ?q = "rnd (of_int t / 8000)"
  have "f_of_int t = Fin (of_int t)" using assms(2,3) by (intro f_of_int_small) simp
  then have d: "f_div (f_of_int t) (Fin 8000) = Fin ?q" using q by (simp add: f_div_def fl_Fin)
  have r: "0 \<le> ?q" "?q \<le> 1" using q by (auto intro: rnd_nonneg rnd_le)
  have "rnd 2 = 2" using rnd_int [of 2] by simp
  then have h: "0 \<le> rnd (x + ?q)" "rnd (x + ?q) \<le> 2" using x r by (auto intro: rnd_nonneg rnd_le)
  have hue: "f_add p (f_div (f_of_int t) (Fin 8000)) = Fin (rnd (x + ?q))" using x r unfolding d by (simp add: f_add_def fl_Fin)
  show ?thesis
  proof (cases "1 \<le> rnd (x + ?q)")
    case True
    then show ?thesis using h unfolding hue Let_def
      by (simp add: f_le_def f_less_def f_eq_def f_sub_def f_neg_def f_add_def fl_fraction le_less)
  next
    case False
    then show ?thesis using h unfolding hue Let_def by (auto simp: f_le_def f_less_def f_eq_def fraction_def)
  qed
qed

lemma pixel_range:
  assumes "levels_ok f" "position \<noteq> NaN"
  shows "pixel_ok (effect_sync_visualizer_pixel visualizer position (Some f))"
proof -
  have p: "fraction (clamp_position position)" using assms(2) by (rule clamp_fraction)
  have l: "fraction (fr_level f)" "fraction (fr_bass f)" using assms(1) by (simp_all add: levels_ok_def unit_fraction)
  have b: "fraction (blend (fr_bass f) (fr_treble f) (clamp_position position))"
    using assms(1) p by (simp add: levels_ok_def blend_unit unit_fraction)
  have c: "fraction (Fin 0)" "fraction (Fin 1)" by (simp_all add: fraction_def)
  have t: "0 \<le> uint (fr_mono_ms f) mod 8000" "uint (fr_mono_ms f) mod 8000 < 8000" by simp_all
  show ?thesis
    unfolding effect_sync_visualizer_pixel_def option.case Let_def pixel_ok_def
    using p l b c fraction_mul [OF p fraction_quotient(1)] fraction_quotient(2) hue_vu [OF p] hue_rainbow [OF p t]
    by (cases visualizer) (simp_all add: Let_def)
qed

lemma position_number:
  assumes "index < 2 ^ 32" "count < 2 ^ 32"
  shows "effect_sync_pixel_position index count \<noteq> NaN"
proof (cases "count = 0")
  case False
  have b: "(of_nat k :: rat) \<le> 2 ^ 32" if "k < 2 ^ 32" for k :: nat
    using that of_nat_mono [of k "2 ^ 32", where 'a = rat] by simp
  have "rnd (of_nat count) \<ge> 1" using False rnd_mono [of 1 "of_nat count"] by simp
  moreover have "f_of_int (int count) = Fin (rnd (of_nat count))" "f_of_int (int index) = Fin (rnd (of_nat index))"
    using b [OF assms(1)] b [OF assms(2)] by (simp_all add: f_of_int_def fl_small)
  ultimately show ?thesis using False by (simp add: effect_sync_pixel_position_def f_add_def f_div_def fl_def)
qed (simp add: effect_sync_pixel_position_def)

section \<open>Runs\<close>

inductive effect_step :: "effect_sync \<Rightarrow> effect_sync \<Rightarrow> bool" where
  join: "effect_step s (snd (effect_sync_join group_id role leader delay offset visualizer s))"
| leave: "effect_step s (snd (effect_sync_leave group_id s))"
| cancel: "effect_step s (effect_sync_cancel s)"
| push: "f32_value (fr_level f) \<Longrightarrow> f32_value (fr_bass f) \<Longrightarrow> f32_value (fr_treble f) \<Longrightarrow>
    effect_sync_push f s = Done (ok, s') \<Longrightarrow> effect_step s s'"
| sample: "effect_sync_sample now utc_now s = Done (r, s') \<Longrightarrow> effect_step s s'"

lemma zero_ok: "sync_ok effect_sync_zero"
  by (simp add: sync_ok_def effect_sync_zero_def EFFECT_SYNC_CAPACITY_def waiting_def)

lemma seq_after_iff: "seq_after a b \<longleftrightarrow> 0 < ts_cmp a b"
  by (simp add: seq_after_def ts_cmp_def)

lemma seq_after_asym: "seq_after a b \<Longrightarrow> \<not> seq_after b a \<and> b \<noteq> a"
proof -
  assume a: "seq_after a b"
  have "sint (b - a) = signed_take_bit 31 (- sint (a - b))" using sint_word_minus [of "a - b"] by simp
  moreover have "signed_take_bit 31 (- sint (a - b)) = - sint (a - b)"
    using a sint_lt [of "a - b"] unfolding seq_after_def by (intro signed_take_bit_int_eq_self) simp_all
  ultimately show ?thesis using a by (auto simp: seq_after_def)
qed

lemma seq_insert_follows:
  assumes "successively follows fs" "\<forall>g gs. dropWhile (\<lambda>g. seq_after (fr_seq f) (fr_seq g)) fs = g # gs \<longrightarrow> fr_seq g \<noteq> fr_seq f"
  shows "successively follows (seq_insert f fs)"
proof -
  let ?P = "\<lambda>g. seq_after (fr_seq f) (fr_seq g)"
  let ?b = "takeWhile ?P fs" and ?r = "dropWhile ?P fs"
  have "successively follows (?b @ ?r)" using assms(1) by simp
  then have s: "successively follows ?b" "successively follows ?r" unfolding successively_append_iff by auto
  have b: "?b \<noteq> [] \<Longrightarrow> follows (last ?b) f"
  proof -
    assume "?b \<noteq> []"
    then have "?P (last ?b)" using last_in_set set_takeWhileD by metis
    then show "follows (last ?b) f" using seq_after_asym by (auto simp: follows_def)
  qed
  have "?r \<noteq> [] \<Longrightarrow> follows f (hd ?r)"
  proof -
    assume r: "?r \<noteq> []"
    then have "\<not> ?P (hd ?r)" by (rule hd_dropWhile)
    moreover have "fr_seq (hd ?r) \<noteq> fr_seq f" using assms(2) r by (cases ?r) auto
    ultimately show "follows f (hd ?r)" by (simp add: follows_def eq_commute)
  qed
  then have "(?r = [] \<or> follows f (hd ?r)) \<and> (?b = [] \<or> follows (last ?b) f)" using b by blast
  then show ?thesis using s
    by (simp add: seq_insert_def Let_def successively_append_iff successively_Cons flip: dropWhile_eq_drop)
qed

lemma accepted_queue:
  assumes "accepted f s" "length (waiting s) = es_frame_count s"
  defines "q \<equiv> if es_frame_count s = 8 then tl (waiting s) else waiting s"
  shows "dropWhile (\<lambda>g. seq_after (fr_seq f) (fr_seq g)) q = dropWhile (\<lambda>g. seq_after (fr_seq f) (fr_seq g)) (waiting s)"
    "\<forall>g gs. dropWhile (\<lambda>g. seq_after (fr_seq f) (fr_seq g)) q = g # gs \<longrightarrow> fr_seq g \<noteq> fr_seq f"
proof -
  show e: "dropWhile (\<lambda>g. seq_after (fr_seq f) (fr_seq g)) q = dropWhile (\<lambda>g. seq_after (fr_seq f) (fr_seq g)) (waiting s)"
  proof (cases "es_frame_count s = 8")
    case True
    then obtain g gs where g: "waiting s = g # gs" using assms(2) by (cases "waiting s") auto
    with True assms(1) have "seq_after (fr_seq f) (fr_seq g)" by (auto simp: accepted_def Let_def split: if_splits)
    then show ?thesis using True g by (simp add: q_def)
  qed (simp add: q_def)
  show "\<forall>g gs. dropWhile (\<lambda>g. seq_after (fr_seq f) (fr_seq g)) q = g # gs \<longrightarrow> fr_seq g \<noteq> fr_seq f"
  proof (intro allI impI)
    fix g gs assume "dropWhile (\<lambda>g. seq_after (fr_seq f) (fr_seq g)) q = g # gs"
    then have d: "dropWhile (\<lambda>g. seq_after (fr_seq f) (fr_seq g)) (waiting s) = g # gs" using e by simp
    show "fr_seq g \<noteq> fr_seq f" using assms(1) unfolding accepted_def d by (simp add: Let_def)
  qed
qed

lemma successively_drop: "successively P xs \<Longrightarrow> successively P (drop n xs)"
  using successively_append_iff [of P "take n xs" "drop n xs"] by simp

lemma seq_insert_split:
  "seq_insert f fs = takeWhile (\<lambda>g. seq_after (fr_seq f) (fr_seq g)) fs @ f # dropWhile (\<lambda>g. seq_after (fr_seq f) (fr_seq g)) fs"
  unfolding dropWhile_eq_drop by (simp add: seq_insert_def Let_def)

lemma set_seq_insert: "set (seq_insert f fs) \<subseteq> insert f (set fs)"
  unfolding seq_insert_split by (auto dest: set_takeWhileD set_dropWhileD)

lemma push_ok:
  assumes "sync_ok s" "f32_value (fr_level f)" "f32_value (fr_bass f)" "f32_value (fr_treble f)" "effect_sync_push f s = Done (ok, s')"
  shows "sync_ok s'"
proof -
  have s: "length (es_frames s) = 8" "es_frame_count s \<le> 8" "\<forall>f \<in> set (waiting s). levels_ok f" "successively follows (waiting s)"
    using assms(1) by (simp_all add: sync_ok_def)
  have len: "length (waiting s) = es_frame_count s" using s by (simp add: waiting_def)
  from push_value [OF s(1,2), of f] assms(5) have v: "if accepted f s then length (es_frames s') = 8 \<and> es_frame_count s' \<le> 8
      \<and> waiting s' = seq_insert f (if es_frame_count s = 8 then tl (waiting s) else waiting s) else s' = s"
    by (auto split: if_splits)
  show ?thesis
  proof (cases "accepted f s")
    case True
    let ?q = "if es_frame_count s = 8 then tl (waiting s) else waiting s"
    have q: "set ?q \<subseteq> set (waiting s)" "successively follows ?q"
      using s(4) successively_drop [of follows "waiting s" 1] by (auto simp: drop_Suc dest: list.set_sel(2) intro: list.set_sel(2))
    have "levels_ok f" using True assms(2-4) by (simp add: accepted_def levels_ok_def unit_range_float)
    moreover have "set (seq_insert f ?q) \<subseteq> insert f (set (waiting s))" using q(1) set_seq_insert by blast
    moreover have "successively follows (seq_insert f ?q)" using q(2) accepted_queue(2) [OF True len] by (rule seq_insert_follows)
    ultimately show ?thesis using v True s(3) unfolding sync_ok_def by (auto simp del: if_split_asm split del: if_split)
  qed (use v assms(1) in simp)
qed

lemma sample_ok:
  assumes "sync_ok s" "effect_sync_sample now utc_now s = Done (r, s')"
  shows "sync_ok s' \<and> ((\<forall>f \<in> set (waiting s). in_time f) \<longrightarrow> (\<forall>out. r = Some out \<longrightarrow> levels_ok out))"
proof -
  have s: "length (es_frames s) = 8" "es_frame_count s \<le> 8" "\<forall>f \<in> set (waiting s). levels_ok f" "successively follows (waiting s)"
    using assms(1) by (simp_all add: sync_ok_def)
  have len: "length (waiting s) = es_frame_count s" using s by (simp add: waiting_def)
  show ?thesis
  proof (cases r)
    case None
    then show ?thesis using sample_value [OF s(1,2), of now utc_now] assms by auto
  next
    case (Some out)
    with sample_value [OF s(1,2), of now utc_now] assms(2) obtain b where b: "length (es_frames s') = 8" "es_frame_count s' \<le> 8"
      "b < es_frame_count s" "waiting s' = drop b (waiting s)"
      "out = waiting s ! b \<or> b + 1 < es_frame_count s \<and> (\<exists>utc target. effect_time utc (waiting s ! b) \<le> target
         \<and> target < effect_time utc (waiting s ! (b + 1)) \<and> out = interpolate utc target (waiting s ! b) (waiting s ! (b + 1)))" by auto
    have "levels_ok (waiting s ! i)" if "i < es_frame_count s" for i using s(3) that len by simp
    moreover have "in_time (waiting s ! i)" if "\<forall>f \<in> set (waiting s). in_time f" "i < es_frame_count s" for i using that len by simp
    ultimately have "(\<forall>f \<in> set (waiting s). in_time f) \<longrightarrow> levels_ok out" using b(3,5) by (auto intro: interpolate_ok)
    moreover have "sync_ok s'" unfolding sync_ok_def b(4) using b(1,2) s(3,4) by (auto intro: successively_drop dest: in_set_dropD)
    ultimately show ?thesis using Some by simp
  qed
qed

lemma effect_step_ok: "effect_step s s' \<Longrightarrow> sync_ok s \<Longrightarrow> sync_ok s'"
proof (induction rule: effect_step.induct)
  case (join s group_id role leader delay offset visualizer)
  then show ?case using zero_ok by (auto simp: effect_sync_join_def sync_ok_def waiting_def split: option.splits)
next
  case (leave s group_id)
  then show ?case using zero_ok by (auto simp: effect_sync_leave_def)
next
  case (cancel s)
  then show ?case using zero_ok by (simp add: effect_sync_cancel_def)
next
  case (push f s ok s')
  then show ?case by (blast intro: push_ok)
next
  case (sample now utc_now s r s')
  then show ?case using sample_ok by blast
qed

lemma sync_run_ok: "effect_step\<^sup>*\<^sup>* effect_sync_zero s \<Longrightarrow> sync_ok s"
  by (induction rule: rtranclp_induct) (auto intro: zero_ok effect_step_ok)

section \<open>An example\<close>

definition demo_uuid :: bytes where "demo_uuid = asc ''01234567-89ab-cdef-0123-456789abcdef''"

definition demo_lamp :: effect_sync where
  "demo_lamp = snd (effect_sync_join (Some demo_uuid) (Some (asc ''follower'')) (Some demo_uuid) 100 0 None effect_sync_zero)"

definition lamp_frame :: "u32 \<Rightarrow> effect_frame" where
  "lamp_frame n = zero_frame\<lparr>fr_seq := n, fr_level := Fin 1, fr_received_ms := 1000\<rparr>"

definition pushed :: "effect_frame \<Rightarrow> effect_sync \<Rightarrow> effect_sync" where
  "pushed f s = (case effect_sync_push f s of Done (ok, s') \<Rightarrow> s' | _ \<Rightarrow> s)"

definition lamp_state :: effect_sync where
  "lamp_state = pushed (lamp_frame 1) (pushed (lamp_frame 0xFFFFFFFF) demo_lamp)"

lemma pushed_step:
  assumes "sync_ok s" "f32_value (fr_level f)" "f32_value (fr_bass f)" "f32_value (fr_treble f)"
  shows "effect_step s (pushed f s)"
  using push_value [of s f] assms by (intro effect_step.push [of f s "accepted f s"]) (auto simp: pushed_def sync_ok_def)

lemma pushed_reach:
  "effect_step\<^sup>*\<^sup>* effect_sync_zero s \<Longrightarrow> f32_value (fr_level f) \<Longrightarrow> f32_value (fr_bass f) \<Longrightarrow> f32_value (fr_treble f) \<Longrightarrow>
    effect_step\<^sup>*\<^sup>* effect_sync_zero (pushed f s)"
  using pushed_step [OF sync_run_ok] by (meson rtranclp.rtrancl_into_rtrancl)

lemma f32_01: "f32_value (Fin 0)" "f32_value (Fin 1)"
  using rnd_int [of 0] rnd_int [of 1] by (simp_all add: f32_value_def)

lemma demo_lamp_reach: "effect_step\<^sup>*\<^sup>* effect_sync_zero demo_lamp"
  unfolding demo_lamp_def by (intro r_into_rtranclp effect_step.join)

lemma lamp_reach: "effect_step\<^sup>*\<^sup>* effect_sync_zero lamp_state"
  unfolding lamp_state_def by (intro pushed_reach demo_lamp_reach) (simp_all add: lamp_frame_def zero_frame_def f32_01)

lemma lamp_waiting: "waiting lamp_state = [lamp_frame 0xFFFFFFFF, lamp_frame 1]" "es_joined lamp_state" "\<not> es_has_rendered lamp_state"
  by code_simp+

text \<open>C39. Whatever commands, frames and clock readings come in whatever order, no access leaves the array of eight frames, and a
  sample is shown only as a member of a group and while the newest frame is at most 500 ms old.  As long as the frames
  that wait are to be shown before 2 ^ 63 ms, which keeps the differences of two times within int64_t, every pixel of a strip of
  any length computed from the sample has its hue and value between 0 and 1.\<close>

theorem effect_sync_safe:
  assumes "effect_step\<^sup>*\<^sup>* effect_sync_zero s" "index < 2 ^ 32" "count < 2 ^ 32"
  shows "(\<exists>ok s'. effect_sync_push f s = Done (ok, s'))
    \<and> (\<exists>r s'. effect_sync_sample now utc_now s = Done (r, s')
        \<and> (\<forall>out. r = Some out \<longrightarrow> es_joined s \<and> now - fr_received_ms (last (waiting s)) \<le> 500
            \<and> ((\<forall>g \<in> set (waiting s). fr_present_at_ms g < 0x8000000000000000) \<longrightarrow>
                 pixel_ok (effect_sync_visualizer_pixel visualizer (effect_sync_pixel_position index count) (Some out)))))"
proof -
  have ok: "sync_ok s" using assms(1) by (rule sync_run_ok)
  then have s: "length (es_frames s) = 8" "es_frame_count s \<le> 8" by (simp_all add: sync_ok_def)
  obtain r s' where r: "effect_sync_sample now utc_now s = Done (r, s')"
    "\<And>out. r = Some out \<Longrightarrow> es_joined s \<and> now - fr_received_ms (last (waiting s)) \<le> EFFECT_SYNC_TIMEOUT_MS"
    using sample_value [OF s, of now utc_now] by (auto split: option.splits)
  moreover have "r = Some out \<Longrightarrow> \<forall>g \<in> set (waiting s). fr_present_at_ms g < 0x8000000000000000 \<Longrightarrow>
    pixel_ok (effect_sync_visualizer_pixel visualizer (effect_sync_pixel_position index count) (Some out))" for out
    using sample_ok [OF ok r(1)] assms(2,3) by (simp add: pixel_range position_number in_time_def)
  ultimately show ?thesis using push_value [OF s, of f] by (auto simp: EFFECT_SYNC_TIMEOUT_MS_def)
qed

lemma lamp_shown: "case effect_sync_sample 1200 0 lamp_state of Done (r, s') \<Rightarrow> r = Some (lamp_frame 1) | _ \<Rightarrow> False"
  by code_simp

lemma lamp_early: "\<forall>g \<in> set (waiting lamp_state). fr_present_at_ms g < 0x8000000000000000"
  unfolding lamp_waiting by (simp add: lamp_frame_def zero_frame_def)

lemma effect_sync_safe_witness:
  "(\<exists>s'. effect_sync_sample 1200 0 lamp_state = Done (Some (lamp_frame 1), s'))
    \<and> pixel_ok (effect_sync_visualizer_pixel EFFECT_VISUALIZER_SPECTRUM (effect_sync_pixel_position 3 60) (Some (lamp_frame 1)))"
  using effect_sync_safe [OF lamp_reach, of 3 60 "lamp_frame 7" 1200 0 EFFECT_VISUALIZER_SPECTRUM] lamp_shown lamp_early
  by (auto split: cres.splits)

text \<open>Without the bound the differences wrap around: between a frame for 2 ^ 63 ms, a time of the past as int64_t, and
  one for 2 ^ 62 ms, levels of 0 and 1 give a level near 2.\<close>

definition overflow_state :: effect_sync where
  "overflow_state = pushed (zero_frame\<lparr>fr_seq := 2, fr_present_at_ms := 0x4000000000000000, fr_level := Fin 1\<rparr>)
     (pushed (zero_frame\<lparr>fr_seq := 1, fr_present_at_ms := 0x8000000000000000\<rparr>) demo_lamp)"

theorem effect_level_overflows: "effect_step\<^sup>*\<^sup>* effect_sync_zero overflow_state
  \<and> (case effect_sync_sample 0 1800000000000 overflow_state of Done (Some out, s') \<Rightarrow> f_less (Fin (3 / 2)) (fr_level out) | _ \<Rightarrow> False)"
proof
  show "effect_step\<^sup>*\<^sup>* effect_sync_zero overflow_state"
    unfolding overflow_state_def by (intro pushed_reach demo_lamp_reach) (simp_all add: zero_frame_def f32_01)
qed code_simp

lemma age_inj: "age base a = age base b \<Longrightarrow> a = b"
proof -
  assume "age base a = age base b"
  then have "a - base = b - base" unfolding age_def by (simp only: word_unat_eq_iff)
  then show "a = b" by simp
qed

lemma waiting_sorted:
  assumes "successively follows w" "\<forall>g \<in> set w. in_window base (fr_seq g)"
  shows "sorted_wrt (\<lambda>g h. age base (fr_seq g) < age base (fr_seq h)) w"
proof -
  have "follows g h \<longleftrightarrow> age base (fr_seq g) < age base (fr_seq h)" if "g \<in> set w" "h \<in> set w" for g h
  proof -
    have "seq_after (fr_seq g) (fr_seq h) \<longleftrightarrow> age base (fr_seq h) < age base (fr_seq g)"
      using that assms(2) by (simp add: seq_after_iff ts_cmp_age [of base])
    moreover have "age base (fr_seq g) = age base (fr_seq h) \<longleftrightarrow> fr_seq g = fr_seq h" using age_inj by metis
    ultimately show ?thesis unfolding follows_def by (metis nat_neq_iff less_asym)
  qed
  then have "successively (\<lambda>g h. age base (fr_seq g) < age base (fr_seq h)) w"
    using assms(1) successively_cong [of w follows "\<lambda>g h. age base (fr_seq g) < age base (fr_seq h)" w] by blast
  then show ?thesis by (subst (asm) successively_conv_sorted_wrt) (auto simp: transp_def)
qed

lemma insort_split: "insort_key k x xs = takeWhile (\<lambda>y. k y < k x) xs @ x # dropWhile (\<lambda>y. k y < k x) xs"
  for k :: "'a \<Rightarrow> nat"
  by (induction xs) auto

text \<open>In a list ordered by k the first element that is not below x tells whether x is there.\<close>

lemma first_not_below:
  fixes k :: "'a \<Rightarrow> nat"
  assumes "sorted_wrt (\<lambda>g h. k g < k h) w"
  shows "(dropWhile (\<lambda>g. k g < n) w \<noteq> [] \<and> k (hd (dropWhile (\<lambda>g. k g < n) w)) = n) \<longleftrightarrow> n \<in> k ` set w"
  using assms by (induction w) auto

lemma all_above:
  fixes k :: "'a \<Rightarrow> nat"
  assumes "sorted_wrt (\<lambda>g h. k g < k h) w" "n \<notin> k ` set w"
  shows "dropWhile (\<lambda>g. k g < n) w = w \<longleftrightarrow> (\<forall>g \<in> set w. n < k g)"
proof (cases w)
  case (Cons g gs)
  show ?thesis
  proof (cases "k g < n")
    case True
    then have "length (dropWhile (\<lambda>g. k g < n) w) < length w" using length_dropWhile_le [of "\<lambda>g. k g < n" gs] Cons by (simp add: less_Suc_eq_le)
    then show ?thesis using True Cons by auto
  next
    case False
    then show ?thesis using assms Cons by auto
  qed
qed simp

text \<open>C38. The frames wait in the order of their numbers, also across the wrap-around of the 32-bit counter: when the numbers in
  question lie within half of its range, a new frame is refused exactly if the lamp is in no group, a level is out
  of range, the frame is not newer than the last one shown, its number is there already, or the queue is full of newer ones;
  otherwise it is inserted at its place, and only a full queue loses its oldest frame.\<close>

theorem effect_frames_in_order:
  assumes "effect_step\<^sup>*\<^sup>* effect_sync_zero s" "in_window base (fr_seq f)" "\<forall>g \<in> set (waiting s). in_window base (fr_seq g)"
  shows "\<exists>ok s'. effect_sync_push f s = Done (ok, s') \<and> sorted_wrt (\<lambda>g h. age base (fr_seq g) < age base (fr_seq h)) (waiting s)
    \<and> (ok \<longleftrightarrow> es_joined s \<and> unit_range (fr_level f) \<and> unit_range (fr_bass f) \<and> unit_range (fr_treble f)
        \<and> (es_has_rendered s \<longrightarrow> seq_after (fr_seq f) (es_last_rendered_seq s)) \<and> fr_seq f \<notin> fr_seq ` set (waiting s)
        \<and> \<not> (length (waiting s) = 8 \<and> (\<forall>g \<in> set (waiting s). age base (fr_seq f) < age base (fr_seq g))))
    \<and> waiting s' = (if ok then insort_key (\<lambda>g. age base (fr_seq g)) f (if length (waiting s) = 8 then tl (waiting s) else waiting s) else waiting s)"
proof -
  let ?age = "\<lambda>g. age base (fr_seq g)" and ?P = "\<lambda>g. seq_after (fr_seq f) (fr_seq g)" and ?w = "waiting s"
  have ok: "sync_ok s" using assms(1) by (rule sync_run_ok)
  then have s: "length (es_frames s) = 8" "es_frame_count s \<le> 8" "successively follows ?w" by (simp_all add: sync_ok_def)
  have len: "length ?w = es_frame_count s" using s by (simp add: waiting_def)
  have P: "?P g \<longleftrightarrow> ?age g < ?age f" if "g \<in> set ?w" for g
    using that assms(2,3) by (simp add: seq_after_iff ts_cmp_age [of base])
  have sorted: "sorted_wrt (\<lambda>g h. ?age g < ?age h) ?w" using s(3) assms(3) by (rule waiting_sorted)
  have ages: "?age g = ?age f \<longleftrightarrow> fr_seq g = fr_seq f" for g using age_inj by metis
  have q: "takeWhile ?P q = takeWhile (\<lambda>g. ?age g < ?age f) q" "dropWhile ?P q = dropWhile (\<lambda>g. ?age g < ?age f) q"
    if "set q \<subseteq> set ?w" for q
    using that P by (auto intro!: takeWhile_cong dropWhile_cong)
  let ?l = "dropWhile (\<lambda>g. ?age g < ?age f) ?w"
  have dup: "?l \<noteq> [] \<and> fr_seq (hd ?l) = fr_seq f \<longleftrightarrow> fr_seq f \<in> fr_seq ` set ?w"
    using first_not_below [OF sorted, of "?age f"] ages by (auto simp: image_iff) metis+
  have whole: "fr_seq f \<notin> fr_seq ` set ?w \<Longrightarrow> ?l = ?w \<longleftrightarrow> (\<forall>g \<in> set ?w. ?age f < ?age g)"
  proof -
    assume n: "fr_seq f \<notin> fr_seq ` set ?w"
    have "?age f \<noteq> ?age g" if "g \<in> set ?w" for g using that n age_inj [of base "fr_seq f" "fr_seq g"] by auto
    then have "?age f \<notin> ?age ` set ?w" by blast
    with sorted show "?l = ?w \<longleftrightarrow> (\<forall>g \<in> set ?w. ?age f < ?age g)" by (rule all_above)
  qed
  have acc: "accepted f s \<longleftrightarrow> es_joined s \<and> unit_range (fr_level f) \<and> unit_range (fr_bass f) \<and> unit_range (fr_treble f)
        \<and> (es_has_rendered s \<longrightarrow> seq_after (fr_seq f) (es_last_rendered_seq s)) \<and> fr_seq f \<notin> fr_seq ` set ?w
        \<and> \<not> (length ?w = 8 \<and> (\<forall>g \<in> set ?w. ?age f < ?age g))"
    unfolding accepted_def Let_def q(2) [OF subset_refl] dup len using whole by blast
  let ?q = "if length ?w = 8 then tl ?w else ?w"
  have "set ?q \<subseteq> set ?w" by (auto dest: list.set_sel(2) [rotated])
  then have ins: "seq_insert f ?q = insort_key ?age f ?q" unfolding seq_insert_split insort_split by (simp only: q)
  from push_value [OF s(1,2), of f] obtain s' where "effect_sync_push f s = Done (accepted f s, s')"
    "waiting s' = (if accepted f s then seq_insert f ?q else ?w)" unfolding len by (auto split: if_splits)
  then show ?thesis using sorted acc unfolding ins by (intro exI [of _ "accepted f s"] exI [of _ s']) (simp only: simp_thms)
qed

lemma effect_frames_in_order_witness:
  "\<exists>s'. effect_sync_push (lamp_frame 0) lamp_state = Done (True, s') \<and> waiting s' = [lamp_frame 0xFFFFFFFF, lamp_frame 0, lamp_frame 1]"
proof -
  have w: "in_window 0xFFFFFFF0 (fr_seq (lamp_frame 0))" "\<forall>g \<in> set (waiting lamp_state). in_window 0xFFFFFFF0 (fr_seq g)"
    unfolding lamp_waiting by (simp_all add: in_window_def age_def lamp_frame_def zero_frame_def)
  have r: "unit_range (fr_level (lamp_frame 0))" "unit_range (fr_bass (lamp_frame 0))" "unit_range (fr_treble (lamp_frame 0))"
    by (simp_all add: unit_range_def isfinite_def f_less_def lamp_frame_def zero_frame_def)
  have k: "age 0xFFFFFFF0 0xFFFFFFFF = 15" "age 0xFFFFFFF0 0 = 16" "age 0xFFFFFFF0 1 = 17" by (simp_all add: age_def)
  show ?thesis using effect_frames_in_order [OF lamp_reach w] r k unfolding lamp_waiting
    by (auto simp: lamp_waiting(2,3) lamp_frame_def zero_frame_def)
qed

end
