(* ===== verification/Voice_Speaker.thy ===== *)
theory Voice_Speaker imports Prelude begin

text \<open>
  The speaker queue of the voice path: the ring buffer of components/pogvoice/pogvoice.c (speaker_write,
  pogvoice_speaker_read, and where a conversation starts, ends and is cancelled) and the take-out policy of pogvoice_playout.h.
  The network task writes samples, the playback task takes them.  Every operation here is one critical section of the
  code; accesses outside of the ring or of the output buffer are Fault.  The ring is used through the locale of a queue of samples.
\<close>

section \<open>The interface of a queue of samples\<close>

text \<open>Samples are put in as far as there is room and taken out in order.\<close>

locale sample_queue =
  fixes inv :: "'q \<Rightarrow> bool"
    and queue :: "'q \<Rightarrow> 'a list"
    and room :: nat
    and put :: "'a list \<Rightarrow> 'q \<Rightarrow> 'q cres"
    and take_out :: "nat \<Rightarrow> 'q \<Rightarrow> ('a list \<times> 'q) cres"
  assumes queue_room: "inv q \<Longrightarrow> length (queue q) \<le> room"
    and put_law: "inv q \<Longrightarrow> length (queue q) + length xs \<le> room \<Longrightarrow> \<exists>q'. put xs q = Done q' \<and> inv q' \<and> queue q' = queue q @ xs"
    and take_law: "inv q \<Longrightarrow> k \<le> length (queue q) \<Longrightarrow> \<exists>q'. take_out k q = Done (take k (queue q), q') \<and> inv q' \<and> queue q' = drop k (queue q)"
begin

text \<open>A writer that puts in what fits and keeps the rest.\<close>

definition write_some :: "'a list \<Rightarrow> 'q \<Rightarrow> ('a list \<times> 'q) cres" where
  "write_some xs q = (let n = min (room - length (queue q)) (length xs) in cbind (put (take n xs) q) (\<lambda>q. Done (drop n xs, q)))"

lemma write_some_law:
  assumes "inv q"
  shows "\<exists>q' rest. write_some xs q = Done (rest, q') \<and> inv q' \<and> queue q' @ rest = queue q @ xs
    \<and> (rest \<noteq> [] \<longrightarrow> length (queue q') = room)"
proof -
  define n where "n = min (room - length (queue q)) (length xs)"
  have "length (queue q) + length (take n xs) \<le> room" using queue_room [OF assms] by (simp add: n_def)
  from put_law [OF assms this] obtain q' where q': "put (take n xs) q = Done q'" "inv q'" "queue q' = queue q @ take n xs" by blast
  moreover have "drop n xs \<noteq> [] \<longrightarrow> length (queue q') = room"
    using queue_room [OF assms] unfolding q'(3) n_def by (auto simp: min_def)
  ultimately show ?thesis by (simp add: write_some_def Let_def n_def [symmetric])
qed

text \<open>In every interleaving what was taken out and what is still in are what was put in, in order.\<close>

inductive flows :: "'q \<Rightarrow> 'a list \<Rightarrow> 'a list \<Rightarrow> 'q \<Rightarrow> bool" where
  stay: "flows q [] [] q"
| put_in: "flows q ins outs q1 \<Longrightarrow> put xs q1 = Done q2 \<Longrightarrow> length (queue q1) + length xs \<le> room \<Longrightarrow> flows q (ins @ xs) outs q2"
| took: "flows q ins outs q1 \<Longrightarrow> take_out k q1 = Done (ys, q2) \<Longrightarrow> k \<le> length (queue q1) \<Longrightarrow> flows q ins (outs @ ys) q2"

lemma flows_law: "flows q ins outs q' \<Longrightarrow> inv q \<Longrightarrow> inv q' \<and> outs @ queue q' = queue q @ ins"
proof (induction rule: flows.induct)
  case (put_in q ins outs q1 xs q2)
  then have "inv q1" "outs @ queue q1 = queue q @ ins" by simp_all
  then show ?case using put_law [of q1 xs] put_in.hyps(2,3) by (metis append.assoc cres.inject)
next
  case (took q ins outs q1 k ys q2)
  then have i: "inv q1" "outs @ queue q1 = queue q @ ins" by simp_all
  from take_law [OF i(1) took.hyps(3)] took.hyps(2) have "ys = take k (queue q1)" "inv q2" "queue q2 = drop k (queue q1)" by auto
  then show ?case using i by simp
qed simp

end

section \<open>The ring\<close>

definition SPEAKER_SAMPLES :: nat where "SPEAKER_SAMPLES = 32768"

record playout =
  po_primed :: bool
  po_finished :: bool
  po_underruns :: u32
  po_played_samples :: u32

record speaker =
  s_busy :: bool
  s_pairing :: bool
  s_finish :: bool
  s_cancel :: bool
  s_speaker :: "int list"
  s_head :: nat
  s_tail :: nat
  s_count :: nat
  s_playout :: playout

definition playout_zero :: playout where
  "playout_zero = \<lparr>po_primed = False, po_finished = False, po_underruns = 0, po_played_samples = 0\<rparr>"

definition speaker_boot :: speaker where
  "speaker_boot = \<lparr>s_busy = False, s_pairing = False, s_finish = False, s_cancel = False, s_speaker = replicate SPEAKER_SAMPLES 0,
     s_head = 0, s_tail = 0, s_count = 0, s_playout = playout_zero\<rparr>"

text \<open>The copying loop of speaker_write.\<close>

fun put_samples :: "int list \<Rightarrow> speaker \<Rightarrow> speaker cres" where
  "put_samples [] s = Done s"
| "put_samples (x # pcm) s = cbind (aset (s_speaker s) (s_head s) x) (\<lambda>buf.
     put_samples pcm (s\<lparr>s_speaker := buf, s_head := (s_head s + 1) mod SPEAKER_SAMPLES\<rparr>))"

definition ring_put :: "int list \<Rightarrow> speaker \<Rightarrow> speaker cres" where
  "ring_put pcm s = cbind (put_samples pcm s) (\<lambda>s. Done (s\<lparr>s_count := s_count s + length pcm\<rparr>))"

text \<open>The first critical section of a turn of speaker_write: the samples that are left, and the state.\<close>

definition speaker_write_turn :: "int list \<Rightarrow> speaker \<Rightarrow> (int list \<times> speaker) cres" where
  "speaker_write_turn pcm s =
     (let count = SPEAKER_SAMPLES - s_count s; count = (if count > length pcm then length pcm else count)
      in cbind (ring_put (take count pcm) s) (\<lambda>s. Done (drop count pcm, s)))"

definition pogvoice_playout_take :: "nat \<Rightarrow> nat \<Rightarrow> nat \<Rightarrow> playout \<Rightarrow> nat \<times> playout" where
  "pogvoice_playout_take available requested prebuffer p =
     (let p = (if \<not> po_primed p \<and> (prebuffer \<le> available \<or> po_finished p) then p\<lparr>po_primed := True\<rparr> else p) in
      if \<not> po_primed p then (0, p)
      else if available < requested \<and> \<not> po_finished p then (0, p\<lparr>po_primed := False, po_underruns := po_underruns p + 1\<rparr>)
      else let count = (if available < requested then available else requested)
        in (count, p\<lparr>po_played_samples := po_played_samples p + of_nat count\<rparr>))"

fun get_samples :: "nat \<Rightarrow> speaker \<Rightarrow> (int list \<times> speaker) cres" where
  "get_samples 0 s = Done ([], s)"
| "get_samples (Suc n) s = cbind (aget (s_speaker s) (s_tail s)) (\<lambda>x.
     cbind (get_samples n (s\<lparr>s_tail := (s_tail s + 1) mod SPEAKER_SAMPLES\<rparr>)) (\<lambda>(xs, s). Done (x # xs, s)))"

definition ring_take :: "nat \<Rightarrow> speaker \<Rightarrow> (int list \<times> speaker) cres" where
  "ring_take consumed s = cbind (get_samples consumed s) (\<lambda>(xs, s). Done (xs, s\<lparr>s_count := s_count s - consumed\<rparr>))"

text \<open>The samples go to both channels; the rest of the buffer is silence.  The result says whether the voice owns the speaker.\<close>

definition pogvoice_speaker_read :: "nat \<Rightarrow> nat \<Rightarrow> int list \<Rightarrow> nat \<Rightarrow> speaker \<Rightarrow> (bool \<times> int list \<times> nat \<times> speaker) cres" where
  "pogvoice_speaker_read prebuffer cap pcm frames s =
     (if \<not> s_busy s then Done (False, pcm, frames, s)
      else let (consumed, p) = pogvoice_playout_take (s_count s) cap prebuffer (s_playout s) in
        cbind (ring_take consumed (s\<lparr>s_playout := p\<rparr>)) (\<lambda>(xs, s).
          if 2 * cap \<le> length pcm
          then Done (True, concat (map (\<lambda>x. [x, x]) xs) @ replicate (2 * (cap - consumed)) 0 @ drop (2 * cap) pcm, cap, s)
          else Fault))"

section \<open>A conversation\<close>

definition voice_start :: "bool \<Rightarrow> bool \<Rightarrow> bool \<Rightarrow> speaker \<Rightarrow> bool \<times> speaker" where
  "voice_start ready token queued s =
     (if \<not> ready then (False, s)
      else if s_busy s \<or> s_pairing s \<or> \<not> token then (False, s)
      else let s = s\<lparr>s_busy := True, s_finish := False, s_cancel := False, s_count := 0, s_head := 0, s_tail := 0, s_playout := playout_zero\<rparr>
        in if queued then (True, s) else (False, s\<lparr>s_busy := False\<rparr>))"

definition voice_reply_ends :: "speaker \<Rightarrow> speaker" where
  "voice_reply_ends s = s\<lparr>s_playout := (s_playout s)\<lparr>po_finished := True\<rparr>\<rparr>"

definition pogvoice_finish :: "speaker \<Rightarrow> speaker" where
  "pogvoice_finish s = s\<lparr>s_finish := True\<rparr>"

definition pogvoice_cancel :: "speaker \<Rightarrow> speaker" where
  "pogvoice_cancel s = s\<lparr>s_cancel := True, s_count := 0, s_head := 0, s_tail := 0\<rparr>"

definition voice_done :: "speaker \<Rightarrow> speaker" where
  "voice_done s = s\<lparr>s_busy := False, s_count := 0, s_head := 0, s_tail := 0\<rparr>"

definition pogvoice_busy :: "speaker \<Rightarrow> bool" where
  "pogvoice_busy s \<longleftrightarrow> s_busy s \<or> s_pairing s"

section \<open>The ring is a queue\<close>

definition ring_ok :: "speaker \<Rightarrow> bool" where
  "ring_ok s \<longleftrightarrow> length (s_speaker s) = SPEAKER_SAMPLES \<and> s_tail s < SPEAKER_SAMPLES \<and> s_count s \<le> SPEAKER_SAMPLES
     \<and> s_head s = (s_tail s + s_count s) mod SPEAKER_SAMPLES"

definition ring_slice :: "int list \<Rightarrow> nat \<Rightarrow> nat \<Rightarrow> int list" where
  "ring_slice buf base n = map (\<lambda>i. buf ! ((base + i) mod SPEAKER_SAMPLES)) [0..<n]"

definition ring_queue :: "speaker \<Rightarrow> int list" where
  "ring_queue s = ring_slice (s_speaker s) (s_tail s) (s_count s)"

lemma ring_queue_length [simp]: "length (ring_queue s) = s_count s"
  by (simp add: ring_queue_def ring_slice_def)

lemma slice_Suc: "ring_slice buf base (Suc n) = buf ! (base mod SPEAKER_SAMPLES) # ring_slice buf ((base + 1) mod SPEAKER_SAMPLES) n"
proof -
  have "[0..<Suc n] = 0 # map Suc [0..<n]" by (simp add: map_Suc_upt upt_conv_Cons)
  then show ?thesis by (simp add: ring_slice_def mod_simps)
qed

lemma put_samples_value:
  assumes "length (s_speaker s) = SPEAKER_SAMPLES" "n + length pcm \<le> SPEAKER_SAMPLES" "s_head s = (base + n) mod SPEAKER_SAMPLES"
  shows "\<exists>buf. put_samples pcm s = Done (s\<lparr>s_speaker := buf, s_head := (base + n + length pcm) mod SPEAKER_SAMPLES\<rparr>)
    \<and> length buf = SPEAKER_SAMPLES \<and> ring_slice buf base (n + length pcm) = ring_slice (s_speaker s) base n @ pcm"
  using assms
proof (induction pcm arbitrary: s n)
  case (Cons x pcm)
  let ?N = SPEAKER_SAMPLES
  let ?h = "(base + n) mod ?N" and ?b = "(s_speaker s)[(base + n) mod ?N := x]"
  let ?s = "s\<lparr>s_speaker := ?b, s_head := (?h + 1) mod ?N\<rparr>"
  have pos: "0 < ?N" by (simp add: SPEAKER_SAMPLES_def)
  have a: "aset (s_speaker s) (s_head s) x = Done ?b" using Cons.prems(1,3) pos by simp
  have h: "s_head ?s = (base + (n + 1)) mod ?N" by (simp add: mod_simps)
  have l: "length (s_speaker ?s) = ?N" "n + 1 + length pcm \<le> ?N" using Cons.prems by simp_all
  from Cons.IH [OF l h] obtain buf where b: "put_samples pcm ?s = Done (?s\<lparr>s_speaker := buf, s_head := (base + (n + 1) + length pcm) mod ?N\<rparr>)"
    "length buf = ?N" "ring_slice buf base (n + 1 + length pcm) = ring_slice ?b base (n + 1) @ pcm" by auto
  have "(base + i) mod ?N \<noteq> ?h" if "i < n" for i
  proof
    assume "(base + i) mod ?N = ?h"
    then have "?N dvd (base + n) - (base + i)" using that by (intro mod_eq_dvd_iff_nat [THEN iffD1]) simp_all
    then have "?N \<le> n - i" using that by (intro dvd_imp_le) simp_all
    with that Cons.prems(2) show False by simp
  qed
  then have "?b ! ((base + i) mod ?N) = s_speaker s ! ((base + i) mod ?N)" if "i < n" for i
    using that by (metis nth_list_update_neq)
  then have "ring_slice ?b base (n + 1) = ring_slice (s_speaker s) base n @ [x]"
    using Cons.prems(1) pos by (simp add: ring_slice_def)
  then show ?case using a b Cons.prems(3) by (intro exI [of _ buf]) (simp add: ac_simps)
next
  case Nil
  then have "s = s\<lparr>s_speaker := s_speaker s, s_head := (base + n) mod SPEAKER_SAMPLES\<rparr>" by simp
  then show ?case using Nil(1) by (intro exI [of _ "s_speaker s"]) simp
qed

lemma put_samples_busy: "put_samples pcm s = Done s' \<Longrightarrow> s_busy s' = s_busy s"
  by (induction pcm s rule: put_samples.induct) (auto simp: cbind_eq_Done)

lemma get_samples_value:
  assumes "length (s_speaker s) = SPEAKER_SAMPLES" "s_tail s < SPEAKER_SAMPLES"
  shows "get_samples n s = Done (ring_slice (s_speaker s) (s_tail s) n, s\<lparr>s_tail := (s_tail s + n) mod SPEAKER_SAMPLES\<rparr>)"
  using assms
proof (induction n arbitrary: s)
  case (Suc n)
  have "0 < SPEAKER_SAMPLES" by (simp add: SPEAKER_SAMPLES_def)
  then show ?case using Suc.prems Suc.IH [of "s\<lparr>s_tail := (s_tail s + 1) mod SPEAKER_SAMPLES\<rparr>"]
    by (simp add: slice_Suc mod_simps)
qed (simp add: ring_slice_def)

lemma ring_queue_take:
  assumes "ring_ok s" "k \<le> s_count s"
  shows "ring_slice (s_speaker s) (s_tail s) k = take k (ring_queue s)"
    and "ring_slice (s_speaker s) ((s_tail s + k) mod SPEAKER_SAMPLES) (s_count s - k) = drop k (ring_queue s)"
proof -
  show "ring_slice (s_speaker s) (s_tail s) k = take k (ring_queue s)"
    using assms(2) by (simp add: ring_queue_def ring_slice_def take_map)
  show "ring_slice (s_speaker s) ((s_tail s + k) mod SPEAKER_SAMPLES) (s_count s - k) = drop k (ring_queue s)"
  proof (rule nth_equalityI)
    fix i assume "i < length (ring_slice (s_speaker s) ((s_tail s + k) mod SPEAKER_SAMPLES) (s_count s - k))"
    then have i: "i < s_count s - k" "k + i < s_count s" by (simp_all add: ring_slice_def)
    moreover have "((s_tail s + k) mod SPEAKER_SAMPLES + i) mod SPEAKER_SAMPLES = (s_tail s + (k + i)) mod SPEAKER_SAMPLES"
      by (simp add: mod_simps add.assoc)
    ultimately show "ring_slice (s_speaker s) ((s_tail s + k) mod SPEAKER_SAMPLES) (s_count s - k) ! i = drop k (ring_queue s) ! i"
      using assms(2) by (simp add: ring_queue_def ring_slice_def del: upt_Suc)
  qed (simp add: ring_slice_def)
qed

interpretation ring: sample_queue ring_ok ring_queue SPEAKER_SAMPLES ring_put ring_take
proof
  fix s :: speaker and xs :: "int list" and k :: nat
  assume ok: "ring_ok s"
  then have s: "length (s_speaker s) = SPEAKER_SAMPLES" "s_tail s < SPEAKER_SAMPLES" "s_count s \<le> SPEAKER_SAMPLES"
    "s_head s = (s_tail s + s_count s) mod SPEAKER_SAMPLES" by (simp_all add: ring_ok_def)
  show "length (ring_queue s) \<le> SPEAKER_SAMPLES" using s(3) by simp
  show "\<exists>s'. ring_put xs s = Done s' \<and> ring_ok s' \<and> ring_queue s' = ring_queue s @ xs"
    if "length (ring_queue s) + length xs \<le> SPEAKER_SAMPLES"
  proof -
    from that have l: "s_count s + length xs \<le> SPEAKER_SAMPLES" by simp
    from put_samples_value [OF s(1) l s(4)] obtain buf where
      "put_samples xs s = Done (s\<lparr>s_speaker := buf, s_head := (s_tail s + s_count s + length xs) mod SPEAKER_SAMPLES\<rparr>)"
      "length buf = SPEAKER_SAMPLES" "ring_slice buf (s_tail s) (s_count s + length xs) = ring_slice (s_speaker s) (s_tail s) (s_count s) @ xs" by blast
    then show ?thesis using s l by (simp add: ring_put_def ring_ok_def ring_queue_def add.assoc)
  qed
  show "\<exists>s'. ring_take k s = Done (take k (ring_queue s), s') \<and> ring_ok s' \<and> ring_queue s' = drop k (ring_queue s)"
    if "k \<le> length (ring_queue s)"
  proof -
    from that have k: "k \<le> s_count s" by simp
    have "(s_tail s + k) mod SPEAKER_SAMPLES < SPEAKER_SAMPLES" by (simp add: SPEAKER_SAMPLES_def)
    moreover have "s_head s = ((s_tail s + k) mod SPEAKER_SAMPLES + (s_count s - k)) mod SPEAKER_SAMPLES"
      using k s(4) by (simp only: mod_add_left_eq) simp
    ultimately show ?thesis
      using k s ring_queue_take [OF ok k] by (simp add: ring_take_def get_samples_value ring_ok_def ring_queue_def)
  qed
qed

section \<open>What is heard\<close>

lemma write_turn_is: "speaker_write_turn pcm s = ring.write_some pcm s"
  by (simp add: speaker_write_turn_def ring.write_some_def Let_def min_def)

lemma take_out_size:
  "pogvoice_playout_take available requested prebuffer p = (n, p') \<Longrightarrow>
    n \<le> available \<and> n \<le> requested \<and> (n \<noteq> 0 \<longrightarrow> n = requested \<or> po_finished p \<and> n = available)
    \<and> (po_finished p \<longrightarrow> n = min available requested) \<and> (n = 0 \<or> po_primed p \<or> prebuffer \<le> available \<or> po_finished p) \<and> po_finished p' = po_finished p"
  by (auto simp: pogvoice_playout_take_def Let_def split: if_splits)

text \<open>One conversation: the reply is written in pieces, ends, and is read in blocks; the lists are the samples written and heard.\<close>

inductive voice_turn :: "nat \<Rightarrow> nat \<Rightarrow> speaker \<Rightarrow> int list \<Rightarrow> int list \<Rightarrow> speaker \<Rightarrow> bool" for prebuffer cap where
  begun: "voice_turn prebuffer cap s [] [] s"
| piece: "voice_turn prebuffer cap s ins outs s1 \<Longrightarrow> speaker_write_turn pcm s1 = Done (rest, s2) \<Longrightarrow>
    voice_turn prebuffer cap s (ins @ take (length pcm - length rest) pcm) outs s2"
| reply_ends: "voice_turn prebuffer cap s ins outs s1 \<Longrightarrow> voice_turn prebuffer cap s ins outs (voice_reply_ends s1)"
| listen: "voice_turn prebuffer cap s ins outs s1 \<Longrightarrow> 2 * cap \<le> length pcm \<Longrightarrow>
    pogvoice_speaker_read prebuffer cap pcm frames s1 = Done (True, out, n, s2) \<Longrightarrow>
    voice_turn prebuffer cap s ins (outs @ map (\<lambda>i. out ! (2 * i)) [0..<s_count s1 - s_count s2]) s2"

lemma ring_ok_playout [simp]: "ring_ok (s\<lparr>s_playout := p\<rparr>) = ring_ok s" "ring_queue (s\<lparr>s_playout := p\<rparr>) = ring_queue s"
  by (simp_all add: ring_ok_def ring_queue_def)

lemma ring_ok_reset: "ring_ok s \<Longrightarrow> ring_ok (s\<lparr>s_count := 0, s_head := 0, s_tail := 0\<rparr>)"
  by (simp add: ring_ok_def SPEAKER_SAMPLES_def)

lemma doubled_nth: "i < length xs \<Longrightarrow> concat (map (\<lambda>x. [x, x]) xs) ! (2 * i) = xs ! i \<and> concat (map (\<lambda>x. [x, x]) xs) ! (2 * i + 1) = xs ! i"
proof (induction xs arbitrary: i)
  case (Cons x xs)
  then show ?case by (cases i) auto
qed simp

lemma doubled_length [simp]: "length (concat (map (\<lambda>x. [x, x]) xs)) = 2 * length xs"
  by (induction xs) simp_all

text \<open>A read of a running conversation: the block is full, both channels agree, what was taken comes first, then silence.\<close>

lemma read_value:
  assumes "ring_ok s" "s_busy s" "2 * cap \<le> length pcm"
  shows "\<exists>out s'. pogvoice_speaker_read prebuffer cap pcm frames s = Done (True, out, cap, s') \<and> ring_ok s' \<and> s_busy s'
    \<and> po_finished (s_playout s') = po_finished (s_playout s)
    \<and> (\<exists>n. fst (pogvoice_playout_take (s_count s) cap prebuffer (s_playout s)) = n \<and> n \<le> s_count s \<and> n \<le> cap
        \<and> out = concat (map (\<lambda>x. [x, x]) (take n (ring_queue s))) @ replicate (2 * (cap - n)) 0 @ drop (2 * cap) pcm
        \<and> ring_queue s' = drop n (ring_queue s))"
proof -
  obtain n p where t: "pogvoice_playout_take (s_count s) cap prebuffer (s_playout s) = (n, p)" by fastforce
  note n = take_out_size [OF t]
  from ring.take_law [of "s\<lparr>s_playout := p\<rparr>" n] assms(1) n obtain s' where
    s': "ring_take n (s\<lparr>s_playout := p\<rparr>) = Done (take n (ring_queue s), s')" "ring_ok s'" "ring_queue s' = drop n (ring_queue s)" by auto
  have "s_busy s' \<and> s_playout s' = p"
    using s'(1) get_samples_value [of "s\<lparr>s_playout := p\<rparr>" n] assms(1,2) by (auto simp: ring_take_def ring_ok_def)
  then show ?thesis using assms(2,3) s' n by (simp add: pogvoice_speaker_read_def t)
qed

lemma voice_turn_keeps:
  "voice_turn prebuffer cap s ins outs s' \<Longrightarrow> ring_ok s \<Longrightarrow> s_busy s \<Longrightarrow>
    ring_ok s' \<and> s_busy s' \<and> outs @ ring_queue s' = ring_queue s @ ins"
proof (induction rule: voice_turn.induct)
  case (piece s ins outs s1 pcm rest s2)
  then have i: "ring_ok s1" "s_busy s1" "outs @ ring_queue s1 = ring_queue s @ ins" by simp_all
  from ring.write_some_law [OF i(1), of pcm] piece.hyps(2)
  have w: "ring_ok s2" "ring_queue s2 @ rest = ring_queue s1 @ pcm" by (auto simp: write_turn_is)
  define k where "k = length pcm - length rest"
  have "length (ring_queue s2) + length rest = length (ring_queue s1) + length pcm" using arg_cong [OF w(2), of length] by simp
  moreover have "drop k pcm = rest"
    using piece.hyps(2) by (auto simp: speaker_write_turn_def Let_def k_def ring_put_def cbind_eq_Done)
  ultimately have "ring_queue s2 = ring_queue s1 @ take k pcm"
    using w(2) append_take_drop_id [of k pcm] by (metis append.assoc append_same_eq)
  moreover have "s_busy s2"
    using piece.hyps(2) put_samples_busy i(2) by (fastforce simp: speaker_write_turn_def Let_def ring_put_def cbind_eq_Done)
  ultimately show ?case using i w(1) by (simp add: k_def)
next
  case (listen s ins outs s1 pcm frames out n s2)
  then have i: "ring_ok s1" "s_busy s1" "outs @ ring_queue s1 = ring_queue s @ ins" by simp_all
  from read_value [OF i(1,2) listen.hyps(2), of prebuffer frames] listen.hyps(3) obtain m where m: "ring_ok s2" "s_busy s2" "m \<le> s_count s1" "m \<le> cap"
    "out = concat (map (\<lambda>x. [x, x]) (take m (ring_queue s1))) @ replicate (2 * (cap - m)) 0 @ drop (2 * cap) pcm"
    "ring_queue s2 = drop m (ring_queue s1)" by auto
  have "s_count s1 - s_count s2 = m" using arg_cong [OF m(6), of length] m(3) by simp
  moreover have "map (\<lambda>i. out ! (2 * i)) [0..<m] = take m (ring_queue s1)"
    using m(3) doubled_nth [of _ "take m (ring_queue s1)"] by (intro nth_equalityI) (simp_all add: m(5) nth_append)
  ultimately show ?case using i m(1,2,6) by simp
next
  case (reply_ends s ins outs s1)
  then show ?case by (simp add: voice_reply_ends_def)
qed simp

text \<open>C40. A spoken reply is heard as it was written: in every interleaving of the network task and the playback task, the samples that were heard
  and those that wait are the samples that were written, once and in order.  Every read fills the block of the caller; until the
  reply has ended it plays a whole block or nothing, and from then on every read plays a whole block as long as there
  is one, so that the reply is played to its end.  No access leaves the ring or the block.\<close>

theorem reply_heard_in_order:
  assumes "length (s_speaker s0) = SPEAKER_SAMPLES" "voice_start ready token queued s0 = (True, s)"
    "voice_turn prebuffer cap s ins outs s'" "2 * cap \<le> length pcm"
  shows "outs @ ring_queue s' = ins
    \<and> (\<exists>out s''. pogvoice_speaker_read prebuffer cap pcm frames s' = Done (True, out, cap, s'') \<and> length out = length pcm
        \<and> (s_count s' - s_count s'' \<in> {0, cap} \<or> po_finished (s_playout s'))
        \<and> (po_finished (s_playout s') \<longrightarrow> s_count s'' = s_count s' - cap))
    \<and> (\<exists>rest s''. speaker_write_turn pcm s' = Done (rest, s''))"
proof -
  have st: "ring_ok s" "s_busy s" "ring_queue s = []"
    using assms(1,2) by (auto simp: voice_start_def Let_def ring_ok_def ring_queue_def ring_slice_def SPEAKER_SAMPLES_def split: if_splits)
  from voice_turn_keeps [OF assms(3) st(1,2)] st(3) have k: "ring_ok s'" "s_busy s'" "outs @ ring_queue s' = ins" by simp_all
  from read_value [OF k(1,2) assms(4), of prebuffer frames] obtain out s'' n where r: "pogvoice_speaker_read prebuffer cap pcm frames s' = Done (True, out, cap, s'')"
    "fst (pogvoice_playout_take (s_count s') cap prebuffer (s_playout s')) = n" "n \<le> s_count s'" "n \<le> cap"
    "out = concat (map (\<lambda>x. [x, x]) (take n (ring_queue s'))) @ replicate (2 * (cap - n)) 0 @ drop (2 * cap) pcm"
    "ring_queue s'' = drop n (ring_queue s')" by blast
  have c: "s_count s'' = s_count s' - n" using arg_cong [OF r(6), of length] by simp
  from r(2) obtain p where "pogvoice_playout_take (s_count s') cap prebuffer (s_playout s') = (n, p)" by (metis prod.collapse)
  note t = take_out_size [OF this]
  have "length out = length pcm" using r(3,4) assms(4) by (simp add: r(5))
  moreover have "s_count s' - s_count s'' = n" using c r(3) by simp
  moreover have "po_finished (s_playout s') \<longrightarrow> s_count s'' = s_count s' - cap" using t c by (auto simp: min_def)
  moreover have "\<exists>rest s''. speaker_write_turn pcm s' = Done (rest, s'')"
    using ring.write_some_law [OF k(1), of pcm] by (auto simp: write_turn_is)
  ultimately show ?thesis using k(3) r(1) t by auto
qed

lemma reply_heard_in_order_witness:
  "\<exists>s s1. voice_start True True True speaker_boot = (True, s) \<and> speaker_write_turn [5, 6, 9] s = Done ([], s1) \<and> ring_queue s1 = [5, 6, 9]
    \<and> (\<exists>out s''. pogvoice_speaker_read 2 2 [7, 7, 7, 7] 0 s1 = Done (True, out, 2, s''))"
proof -
  obtain s where s: "voice_start True True True speaker_boot = (True, s)" "ring_ok s" "ring_queue s = []"
    by (simp add: voice_start_def speaker_boot_def Let_def ring_ok_def ring_queue_def ring_slice_def SPEAKER_SAMPLES_def)
  have l: "length (s_speaker speaker_boot) = SPEAKER_SAMPLES" by (simp add: speaker_boot_def)
  from ring.write_some_law [OF s(2), of "[5, 6, 9]"] s(3) obtain s1 rest where
    w: "speaker_write_turn [5, 6, 9] s = Done (rest, s1)" "ring_queue s1 @ rest = [5, 6, 9]" "rest \<noteq> [] \<longrightarrow> length (ring_queue s1) = SPEAKER_SAMPLES"
    unfolding write_turn_is by auto
  have "rest = []" using w(3) arg_cong [OF w(2), of length] by (auto simp: SPEAKER_SAMPLES_def)
  from reply_heard_in_order [OF l s(1) voice_turn.piece [OF voice_turn.begun w(1)], of "2" "[7, 7, 7, 7]" 2 0] s(1) w(1) this
  show ?thesis by auto
qed

end
