(* ===== verification/Spec2Isabelle.thy ===== *)
theory Spec2Isabelle
  imports Rtsp_Control Audio_Streams Stream_Sockets Pogdev_Bus Pogvoice_Resample Pogvoice_Protocol Audio_Limiter Eq_Dsp Rtsp_Slots
    Playback_Control Dns_Server Amp_Ctrl Effect_Sync Voice_Speaker
begin

text \<open>
  \<^bold>\<open>A verification of the core of an AirPlay 2 receiver firmware.\<close>

  \<^bold>\<open>The program.\<close> A sender pairs with the device and controls it over an RTSP connection (\<open>main/rtsp\<close>, \<open>main/hap\<close>); requests
  and answers carry binary or XML property lists and TLV8 messages (\<open>main/plist\<close>, \<open>main/hap/tlv8.c\<close>). Audio arrives on its own sockets, buffered over TCP or in real time
  over UDP, is decrypted, decoded and queued in a jitter buffer, and leaves it when the network time of its frames has come
  (\<open>main/audio\<close>), through an equaliser, the volume and a limiter; the network time is that of a PTP master, or of an NTP peer for AirPlay 1 (\<open>main/network\<close>). Key presses on the device go back to the sender as DACP
  requests (\<open>main/dacp_client.c\<close>). Beside this the device keeps its settings in flash (\<open>main/settings.c\<close>), is adopted by a home server and follows it over MQTT
  (\<open>components/pogdev\<close>) and exchanges voice with it (\<open>components/pogvoice\<close>).

  \<^bold>\<open>Conventions.\<close> C functions become HOL functions with the state passed explicitly; structures are records, enumerations datatypes, fixed-width integers words, and
  where the source stores sums in a \<open>size_t\<close> or an \<open>int64_t\<close> the wrap-around is written out (\<open>Prelude\<close>). A function that reads raw memory returns \<open>Done\<close>, \<open>Fail\<close> or \<open>Fault\<close>;
  \<open>Fault\<close> is an access out of bounds, and the safety theorems say that it never happens. Strings are the bytes before the first NUL (\<open>C_String\<close>). A connection is a list of arrivals,
  timeouts and errors (\<open>Socket\<close>), from which one call of \<open>recv\<close> takes at most one arrival. What is outside of the repository is an argument: the primitives of libsodium
  and mbedtls (\<open>Crypto_Lib\<close>), the codecs (\<open>Audio_Decoder\<close>), mDNS and HTTP (\<open>Dacp_Client\<close>), the flash store (\<open>Nvs\<close>), JSON and MQTT (\<open>Pogdev_Enrol\<close>, \<open>Pogdev_Bus\<close>), the functions of
  \<open>libm\<close>, the outcomes of allocations, of socket calls and of starting tasks, and the
  clock. What the code relies on is a named hypothesis such as \<open>aead_ok\<close>, \<open>open_ok\<close>, \<open>codec_ok\<close>, \<open>nvs_laws\<close> or \<open>libm_ok\<close>, and the witnesses instantiate it. The C type
  \<open>float\<close> is IEEE single precision, every operation rounded as the source writes it (\<open>Ieee_Float\<close>); a compiler that fuses a multiplication and an addition would round differently.

  \<^bold>\<open>Encodings.\<close>
  \<^item> \<open>Tlv8\<close> (\<open>hap/tlv8.c\<close>): encoder with fragments, both decoders; round trip, no read out of bounds.
  \<^item> \<open>Bplist_Parser\<close>, \<open>Bplist_Streams\<close> (\<open>plist/bplist_parser.c\<close>): the readers, the searches in the top-level dictionary, in nested ones and in the streams array. The
    search is lookup in the list of entries; no document below 1 GiB is read out of bounds.
  \<^item> \<open>Bplist_Builder\<close>, \<open>Plist_Xml\<close>, \<open>Base64\<close>: the answers of SETUP and \<open>GET /info\<close>; they parse back, and the XML writer only ever writes whole elements.

  \<^bold>\<open>Pairing and the encrypted channel.\<close>
  \<^item> \<open>Hap_Session\<close> (\<open>hap/hap_crypto.c\<close>): HKDF as in RFC 5869 and the counters of the channel.
  \<^item> \<open>Srp\<close> (\<open>hap/srp.c\<close>): the SRP-6a server; it agrees with a client on keys and proofs.
  \<^item> \<open>Hap_Pairing\<close> (\<open>hap/hap_pair_setup.c\<close>, \<open>hap/hap_pair_verify.c\<close>): complete runs of transient pair-setup and of pair-verify, and safety in every state.
  \<^item> \<open>Rtsp_Conn\<close>, \<open>Rtsp_Crypto\<close> (\<open>rtsp/rtsp_conn.c\<close>, \<open>rtsp/rtsp_crypto.c\<close>): blocks of up to 1024 bytes; what one end writes the other reads, however TCP cuts it.

  \<^bold>\<open>The control connection.\<close>
  \<^item> \<open>Framing\<close>: the locale of messages in a byte stream; its laws make the messages independent of the segmentation. It is interpreted for RTSP requests in \<open>Rtsp_Server\<close> and for
    buffered audio packets in \<open>Audio_Streams\<close>.
  \<^item> \<open>Rtsp_Message\<close>, \<open>Rtsp_Server\<close> (\<open>rtsp/rtsp_message.c\<close>, \<open>rtsp/rtsp_server.c\<close>): requests are dispatched once, whole and in order. Requests of up to 255 KiB are covered; the code
    gives up a connection whose buffer of 256 KiB has less than 1 KiB left.
  \<^item> \<open>Rtsp_Metadata\<close>, \<open>Rtsp_Codec\<close>, \<open>Rtsp_Fairplay\<close>: track metadata, session descriptions and the FairPlay replies.
  \<^item> \<open>Rtsp_Handlers\<close> (\<open>rtsp/rtsp_handlers.c\<close>): the fourteen handlers and the dispatcher over a \<open>world\<close> of the components behind them. \<open>Rtsp_Control\<close> shows that any
    history of requests from clients of any address, interleaved with the audio tasks, the clocks and the socket tasks, is safe, that each request is answered once, and what FLUSH
    and TEARDOWN bring about. The configuration is the default one: AirPlay 2 with legacy senders allowed, no artwork.
  \<^item> \<open>Rtsp_Slots\<close> (\<open>rtsp/rtsp_server.c\<close>): the server task and the client tasks on their two static stacks, as a step relation over their atomic pieces; with the invariant of
    descriptors and slots. The invariant is that of calm runs, which meet three conditions: a task that ended its cleanup is deleted before its slot is used again, the drain of
    five seconds does not run out with a client alive, and the server task does not close its socket while the caller of \<open>rtsp_server_stop\<close> is about to. A theorem
    for each of them (\<open>stack_handed_over_early\<close>, \<open>drain_runs_out\<close>, \<open>listener_closed_twice\<close>) is a run of the code where it fails, and one more shows what a replaced client
    tears down. The handlers appear there only as what they set up.
  \<^item> \<open>Rtsp_Volume\<close> (\<open>rtsp/rtsp_conn.c\<close>, \<open>rtsp/rtsp_handlers.c\<close>, \<open>audio/audio_output.c\<close>): the way of a volume from the text of the request to the samples.
    \<open>Playback_Control\<close> (\<open>playback_control.c\<close>): the keys.
  \<^item> \<open>Dacp_Client\<close>: sessions, the command queue and its worker, with the mDNS lookup as a step of its own so that a new session can come in between.

  \<^bold>\<open>Audio and time.\<close>
  \<^item> \<open>Audio_Buffer\<close> (\<open>audio/audio_buffer.c\<close>): slots, the sorted index and the semaphore. The locale \<open>frame_queue\<close> states what the scheduler needs of it. Frames are in
    playing order across the wrap-around of RTP time, no slot is lost, and no wake-up under any interleaving of producer and consumer.
  \<^item> \<open>Audio_Timing\<close> (\<open>audio/audio_timing.c\<close>): start of playback, early and late frames. The loop makes at most 256 attempts in a call, as in the source.
  \<^item> \<open>Ptp_Clock\<close>, \<open>Ntp_Clock\<close>: the packets and the filters of the two clocks, with the error of the offsets.
  \<^item> \<open>Audio_Receiver\<close> (\<open>audio/audio_receiver.c\<close>): the step relation of all its commands in both modes,
    realtime and buffered, on which the streams and the control connection build; flush, seek, pause, resume and anchors; exactly which frames the gates let through.
  \<^item> \<open>Audio_Decoder\<close>, \<open>Audio_Crypto\<close>, \<open>Audio_Streams\<close> (\<open>audio/audio_decoder.c\<close>, \<open>audio_crypto.c\<close>, \<open>audio_stream_buffered.c\<close>, \<open>audio_stream_realtime.c\<close>): the way of a packet
    from the socket to the buffer, retransmission requests and time anchors. \<open>Stream_Sockets\<close>: which descriptors starting and stopping leave open.

  \<^item> \<open>Audio_Limiter\<close>, \<open>Eq_Dsp\<close> (\<open>audio/audio_limiter.c\<close>, \<open>audio/eq_dsp.c\<close>): the limiter keeps its ceiling, and in single precision never becomes transparent
    again after a peak; the equaliser leaves audio alone when flat.
  \<^item> \<open>Amp_Ctrl\<close> (\<open>amp_ctrl.c\<close>): the amplifier follows playback, with the standby timer expiring at any moment.

  \<^bold>\<open>The device.\<close>
  \<^item> \<open>Nvs\<close>: the flash store as an argument with the laws of its documentation and an instance that keeps them. \<open>Settings\<close> (\<open>settings.c\<close>): every getter and setter; what a
    setter accepted its getter returns, and what the drivers read is in range whatever calls, failures and restarts came before.
  \<^item> \<open>Pogdev_Retry\<close>, \<open>Pogdev_Discovery\<close>, \<open>Pogdev_Enrol\<close>, \<open>Pogdev_Bus\<close> (\<open>components/pogdev\<close>): the retry policy, the search for a server, adoption with its stored
    credentials, and the broker link; the tasks are modelled turn by turn. The broker's client
    may refuse any call; what a refused subscription means is a theorem of its own.
  \<^item> \<open>Pogvoice_Protocol\<close>, \<open>Pogvoice_Resample\<close> (\<open>components/pogvoice\<close>): addresses, packets and messages, and the streaming resampler, whose coefficients before
    quantisation are an argument.
  \<^item> \<open>Voice_Speaker\<close> (\<open>components/pogvoice/pogvoice.c\<close>, \<open>pogvoice_playout.h\<close>): the ring of samples between the network task and the playback task,
    through the locale \<open>sample_queue\<close>. A reply is heard once and in order, whatever the interleaving.
  \<^item> \<open>Effect_Sync\<close> (\<open>effect_sync.c\<close>, \<open>led_argb_policy.c\<close>): the frames of light effects shared by a group of lamps, ordered by numbers that wrap around.
    The levels stay in range as long as the times of the frames fit \<open>int64_t\<close>; a frame for \<open>2\<^sup>6\<^sup>3\<close> ms breaks it (\<open>effect_level_overflows\<close>).
  \<^item> \<open>Dns_Server\<close> (\<open>network/dns_server.c\<close>): the answers of the captive portal.

  \<^bold>\<open>Bounds.\<close> Documents and requests are assumed shorter than \<open>2\<^sup>3\<^sup>0\<close> bytes and Base64 input shorter than \<open>2\<^sup>2\<^sup>9\<close>, which the 32-bit address space of the device
  guarantees; without such a bound the sizes computed in \<open>size_t\<close> wrap around. No definition uses fuel: the loops have a decreasing measure, the input that is left. The
  inner loop of the voice resampler, which would not end for a rate of zero, is a \<open>partial_function (option)\<close> with a theorem that it returns.

  \<^bold>\<open>Not modelled.\<close> The drivers of DACs, displays, LEDs and buttons, the sockets of the clock tasks, the event port task, the microphone, the voice conversation around the speaker queue, and the web server with provisioning over
  HTTP and BLE, and the start-up code: they are sequences of calls into the SDK. The third-party resampler and the tables of the DACs are not the program's own. The build is the
  default one, without Bluetooth and without \<open>CONFIG_AIRPLAY_FORCE_V1\<close>.
\<close>

end
